(* ===== verification/Prelude.thy ===== *)
theory Prelude
  imports Main "HOL-Library.AList" "HOL-Library.Product_Lexorder"
begin

text \<open>
  Shared vocabulary of the development: the Python string and integer operations that
  the sources use, written as executable functions, the error values, and the generic
  facts on lists, characters and decimal numerals that the component theories rely on.

  A Python string is a \<^typ>\<open>string\<close>, a list of characters with code points below 256:
  the model covers texts of the Latin-1 range, where the classification methods
  (\<open>isalpha\<close>, \<open>isdigit\<close>, \<open>isspace\<close>, \<open>casefold\<close>, the classes of \<open>re\<close>) are finite tables
  and are written out in full. Code points above 255 are outside the model.
  A Python integer is an \<^typ>\<open>int\<close>; where the code only ever holds a count or an
  index it is a \<^typ>\<open>nat\<close>.
\<close>

named_theorems char_class \<open>definitions of the character classes\<close>
named_theorems py_str \<open>equations of the Python string helpers\<close>

section \<open>Errors as values\<close>

text \<open>
  \<open>FormulaSyntaxError\<close> is a subclass of \<open>ValueError\<close> in the source, so both are caught by
  \<open>except ValueError\<close>. \<open>OutOfFuel\<close> is not an exception of the program: it is the value
  of a fuelled recursion that was given too little fuel.
\<close>

datatype py_error =
    ValueError string
  | FormulaSyntaxError string
  | RuntimeError string
  | TypeError string
  | OutOfFuel

type_synonym 'a result = "py_error + 'a"

definition bind_result :: "'a result \<Rightarrow> ('a \<Rightarrow> 'b result) \<Rightarrow> 'b result" where
  "bind_result r f = (case r of Inl e \<Rightarrow> Inl e | Inr a \<Rightarrow> f a)"

lemma bind_result_simps [simp]:
  "bind_result (Inl e) f = Inl e"
  "bind_result (Inr a) f = f a"
  by (simp_all add: bind_result_def)

lemma bind_result_Inr_iff:
  "bind_result r f = Inr b \<longleftrightarrow> (\<exists>a. r = Inr a \<and> f a = Inr b)"
  by (cases r) auto

lemma bind_result_cong [fundef_cong]:
  "r = s \<Longrightarrow> (\<And>a. s = Inr a \<Longrightarrow> f a = g a) \<Longrightarrow> bind_result r f = bind_result s g"
  by (cases s) auto

section \<open>Characters\<close>

abbreviation code :: "char \<Rightarrow> nat" where
  "code c \<equiv> of_char c"

definition ascii_upper :: "char \<Rightarrow> bool" where
  [char_class]: "ascii_upper c \<longleftrightarrow> 65 \<le> code c \<and> code c \<le> 90"

definition ascii_lower :: "char \<Rightarrow> bool" where
  [char_class]: "ascii_lower c \<longleftrightarrow> 97 \<le> code c \<and> code c \<le> 122"

text \<open>The class \<open>[A-Za-z]\<close>.\<close>

definition re_letter :: "char \<Rightarrow> bool" where
  [char_class]: "re_letter c \<longleftrightarrow> ascii_upper c \<or> ascii_lower c"

text \<open>The class \<open>\d\<close>: in Latin-1 only \<open>0\<close> to \<open>9\<close> are decimal digits.\<close>

definition re_digit :: "char \<Rightarrow> bool" where
  [char_class]: "re_digit c \<longleftrightarrow> 48 \<le> code c \<and> code c \<le> 57"

text \<open>
  \<open>str.isdigit\<close> is wider than \<open>\d\<close>: it accepts the superscripts two, three and one
  (code points 178, 179, 185), which \<open>int\<close> and \<open>float\<close> refuse.
\<close>

definition py_isdigit :: "char \<Rightarrow> bool" where
  [char_class]: "py_isdigit c \<longleftrightarrow> re_digit c \<or> code c \<in> {178, 179, 185}"

definition py_isalpha :: "char \<Rightarrow> bool" where
  [char_class]: "py_isalpha c \<longleftrightarrow> re_letter c \<or> code c \<in> {170, 181, 186}
     \<or> (192 \<le> code c \<and> code c \<noteq> 215 \<and> code c \<noteq> 247)"

text \<open>\<open>str.isalnum\<close> also holds for the vulgar fractions 188 to 190 (\<open>isnumeric\<close>).\<close>

definition py_isalnum :: "char \<Rightarrow> bool" where
  [char_class]: "py_isalnum c \<longleftrightarrow> py_isalpha c \<or> py_isdigit c \<or> (188 \<le> code c \<and> code c \<le> 190)"

text \<open>The class \<open>\w\<close>.\<close>

definition re_word :: "char \<Rightarrow> bool" where
  [char_class]: "re_word c \<longleftrightarrow> py_isalnum c \<or> c = CHR ''_''"

definition py_isspace :: "char \<Rightarrow> bool" where
  [char_class]: "py_isspace c \<longleftrightarrow> (9 \<le> code c \<and> code c \<le> 13) \<or> (28 \<le> code c \<and> code c \<le> 32)
     \<or> code c = 133 \<or> code c = 160"

lemma re_digit_not_letter [simp]: "re_digit c \<Longrightarrow> \<not> re_letter c"
  by (auto simp: char_class)

lemma re_letter_not_digit [simp]: "re_letter c \<Longrightarrow> \<not> re_digit c"
  by (auto simp: char_class)

lemma re_digit_py_isdigit: "re_digit c \<Longrightarrow> py_isdigit c"
  by (simp add: py_isdigit_def)

lemma re_digit_word: "re_digit c \<Longrightarrow> re_word c"
  by (simp add: re_word_def py_isalnum_def py_isdigit_def)

lemma re_letter_word: "re_letter c \<Longrightarrow> re_word c"
  by (simp add: re_word_def py_isalnum_def py_isalpha_def)

lemma punctuation_not_alnum [simp]:
  "\<not> re_letter CHR ''$''" "\<not> re_digit CHR ''$''" "\<not> re_word CHR ''$''"
  "\<not> re_letter CHR ''!''" "\<not> re_digit CHR ''!''" "\<not> re_word CHR ''!''"
  "\<not> re_letter CHR '':''" "\<not> re_digit CHR '':''" "\<not> re_word CHR '':''"
  "\<not> re_letter CHR ''-''" "\<not> re_digit CHR ''-''" "\<not> re_word CHR ''-''"
  "\<not> re_letter CHR ''|''" "\<not> re_digit CHR ''|''" "\<not> re_word CHR ''|''"
  by (simp_all add: char_class)

section \<open>Case mapping\<close>

definition upper_char :: "char \<Rightarrow> string" where
  "upper_char c =
     (if ascii_lower c \<or> (224 \<le> code c \<and> code c \<le> 254 \<and> code c \<noteq> 247)
      then [char_of (code c - 32)]
      else if code c = 223 then ''SS'' else [c])"

text \<open>
  \<open>str.upper\<close>. The capitals of code points 181 and 255 lie outside Latin-1; both are left
  as they are, which no comparison with a Latin-1 text can tell apart.
\<close>

definition py_upper :: "string \<Rightarrow> string" where
  "py_upper s = concat (map upper_char s)"

definition lower_char :: "char \<Rightarrow> char" where
  "lower_char c =
     (if ascii_upper c \<or> (192 \<le> code c \<and> code c \<le> 222 \<and> code c \<noteq> 215)
      then char_of (code c + 32) else c)"

definition py_lower :: "string \<Rightarrow> string" where
  "py_lower s = map lower_char s"

text \<open>\<open>str.casefold\<close>: lower case, with the sharp s (223) folded to \<open>ss\<close>.\<close>

definition casefold :: "string \<Rightarrow> string" where
  "casefold s = concat (map (\<lambda>c. if code c = 223 then ''ss'' else [lower_char c]) s)"

section \<open>Lists\<close>

lemma length_dropWhile_less:
  "takeWhile P s \<noteq> [] \<Longrightarrow> length (dropWhile P s) < length s"
  by (cases s) (auto simp: less_Suc_eq_le length_dropWhile_le split: if_splits)

lemma takeWhile_run:
  "\<forall>x \<in> set xs. P x \<Longrightarrow> (case ys of [] \<Rightarrow> True | y # _ \<Rightarrow> \<not> P y) \<Longrightarrow> takeWhile P (xs @ ys) = xs"
  by (cases ys) (simp_all add: takeWhile_append)

lemma dropWhile_run:
  "\<forall>x \<in> set xs. P x \<Longrightarrow> (case ys of [] \<Rightarrow> True | y # _ \<Rightarrow> \<not> P y) \<Longrightarrow> dropWhile P (xs @ ys) = ys"
  by (cases ys) (simp_all add: dropWhile_append)

section \<open>Decimal numerals\<close>

definition digit_char :: "nat \<Rightarrow> char" where
  "digit_char d = char_of (48 + d)"

text \<open>\<open>str(n)\<close> for a non-negative integer, and for any integer.\<close>

fun nat_str :: "nat \<Rightarrow> string" where
  "nat_str n = (if n < 10 then [digit_char n] else nat_str (n div 10) @ [digit_char (n mod 10)])"

declare nat_str.simps [simp del]

definition int_str :: "int \<Rightarrow> string" where
  "int_str i = (if i < 0 then CHR ''-'' # nat_str (nat (- i)) else nat_str (nat i))"

text \<open>\<open>int(s)\<close> for a text of decimal digits.\<close>

definition digit_val :: "char \<Rightarrow> nat" where
  "digit_val c = code c - 48"

definition int_of_digits :: "string \<Rightarrow> nat" where
  "int_of_digits s = foldl (\<lambda>n c. 10 * n + digit_val c) 0 s"

lemma code_digit_char [simp]: "d < 10 \<Longrightarrow> code (digit_char d) = 48 + d"
  by (simp add: digit_char_def)

lemma re_digit_digit_char [simp]: "d < 10 \<Longrightarrow> re_digit (digit_char d)"
  by (simp add: re_digit_def)

lemma digit_val_digit_char [simp]: "d < 10 \<Longrightarrow> digit_val (digit_char d) = d"
  by (simp add: digit_val_def)

lemma digit_val_less: "re_digit c \<Longrightarrow> digit_val c < 10"
  by (auto simp: re_digit_def digit_val_def)

lemma digit_char_0 [simp]: "digit_char 0 = CHR ''0''"
  by (simp add: digit_char_def char_of_def bit_Suc bit_0)

lemma digit_char_eq_0 [simp]: "d < 10 \<Longrightarrow> digit_char d = CHR ''0'' \<longleftrightarrow> d = 0"
  by (metis digit_char_0 digit_val_digit_char zero_less_numeral)

lemma digit_char_digit_val: "re_digit c \<Longrightarrow> digit_char (digit_val c) = c"
  by (simp add: re_digit_def digit_val_def digit_char_def)

lemma int_of_digits_snoc [simp]:
  "int_of_digits (s @ [c]) = 10 * int_of_digits s + digit_val c"
  by (simp add: int_of_digits_def)

lemma int_of_digits_Nil [simp]: "int_of_digits [] = 0"
  by (simp add: int_of_digits_def)

lemma int_of_digits_nat_str [simp]: "int_of_digits (nat_str n) = n"
proof (induction n rule: nat_str.induct)
  case (1 n)
  show ?case
  proof (cases "n < 10")
    case True
    then show ?thesis
      using int_of_digits_snoc [of "[]" "digit_char n"] by (simp add: nat_str.simps)
  next
    case False
    with "1.IH" show ?thesis by (subst nat_str.simps) simp
  qed
qed

lemma nat_str_not_Nil [simp]: "nat_str n \<noteq> []"
  by (subst nat_str.simps) simp

lemma nat_str_digits: "\<forall>c \<in> set (nat_str n). re_digit c"
proof (induction n rule: nat_str.induct)
  case (1 n)
  then show ?case by (subst nat_str.simps) auto
qed

lemma nat_str_digit [simp]: "c \<in> set (nat_str n) \<Longrightarrow> re_digit c"
  using nat_str_digits by blast

text \<open>A decimal text with no superfluous leading zero is the numeral of its value.\<close>

lemma nat_str_int_of_digits:
  assumes "s \<noteq> []" and "\<forall>c \<in> set s. re_digit c" and "length s = 1 \<or> hd s \<noteq> CHR ''0''"
  shows "nat_str (int_of_digits s) = s"
  using assms
proof (induction s rule: rev_induct)
  case Nil
  then show ?case by simp
next
  case (snoc c s)
  have c: "digit_val c < 10" "digit_char (digit_val c) = c"
    using snoc.prems by (auto simp: digit_val_less digit_char_digit_val)
  show ?case
  proof (cases "s = []")
    case True
    with c show ?thesis
      using int_of_digits_snoc [of "[]" c] by (simp add: nat_str.simps)
  next
    case False
    with snoc.prems have hd: "hd s \<noteq> CHR ''0''" by auto
    from False snoc.prems hd have IH: "nat_str (int_of_digits s) = s"
      by (intro snoc.IH) auto
    have pos: "int_of_digits s \<noteq> 0"
    proof
      assume "int_of_digits s = 0"
      with IH have "s = nat_str 0" by simp
      then have "s = ''0''" by (simp add: nat_str.simps)
      with hd show False by simp
    qed
    have "nat_str (10 * int_of_digits s + digit_val c) =
        nat_str (int_of_digits s) @ [digit_char (digit_val c)]"
      using pos c(1) by (subst nat_str.simps) (simp add: div_mult_self1)
    with IH c(2) show ?thesis by simp
  qed
qed

lemma nat_str_inject [simp]: "nat_str m = nat_str n \<longleftrightarrow> m = n"
  by (metis int_of_digits_nat_str)

lemma int_str_inject: "int_str v = int_str w \<longleftrightarrow> v = w"
proof -
  have "hd (nat_str n) \<noteq> CHR ''-''" for n using nat_str_digit [of "hd (nat_str n)" n] by (auto simp: re_digit_def)
  then show ?thesis by (auto simp: int_str_def nat_eq_iff split: if_splits) (metis list.sel(1))+
qed

lemma nat_str_hd: "length (nat_str n) = 1 \<or> hd (nat_str n) \<noteq> CHR ''0''"
proof (induction n rule: nat_str.induct)
  case (1 n)
  show ?case
  proof (cases "n < 10")
    case True
    then show ?thesis by (simp add: nat_str.simps)
  next
    case False
    show ?thesis
    proof (cases "n div 10 < 10")
      case True
      with False have "digit_char (n div 10) \<noteq> CHR ''0''"
        by (simp add: div_eq_0_iff)
      with True False show ?thesis by (simp add: nat_str.simps [of n] nat_str.simps [of "n div 10"])
    next
      case big: False
      then have "length (nat_str (n div 10)) \<noteq> 1"
        by (subst nat_str.simps) simp
      with "1.IH" False have "hd (nat_str (n div 10)) \<noteq> CHR ''0''" by blast
      with False show ?thesis by (subst nat_str.simps) simp
    qed
  qed
qed

section \<open>Searching and splitting texts\<close>

text \<open>\<open>s.find(pat)\<close>: the index of the first occurrence.\<close>

fun find_sub :: "string \<Rightarrow> string \<Rightarrow> nat option" where
  "find_sub pat [] = (if pat = [] then Some 0 else None)"
| "find_sub pat (c # s) =
     (if take (length pat) (c # s) = pat then Some 0 else map_option Suc (find_sub pat s))"

text \<open>\<open>s.split(c, 1)\<close> and \<open>s.rsplit(c, 1)\<close> for a text that holds the character.\<close>

definition split1 :: "char \<Rightarrow> string \<Rightarrow> (string \<times> string) option" where
  "split1 c s = (case dropWhile (\<lambda>x. x \<noteq> c) s of
     [] \<Rightarrow> None | _ # t \<Rightarrow> Some (takeWhile (\<lambda>x. x \<noteq> c) s, t))"

definition rsplit1 :: "char \<Rightarrow> string \<Rightarrow> (string \<times> string) option" where
  "rsplit1 c s = map_option (\<lambda>(b, a). (rev a, rev b)) (split1 c (rev s))"

lemma split1_append [simp]: "c \<notin> set a \<Longrightarrow> split1 c (a @ c # b) = Some (a, b)"
proof -
  assume "c \<notin> set a"
  then have "\<forall>x \<in> set a. x \<noteq> c" by auto
  from takeWhile_run [OF this, of "c # b"] dropWhile_run [OF this, of "c # b"]
  show ?thesis by (simp add: split1_def)
qed

lemma rsplit1_append [simp]: "c \<notin> set b \<Longrightarrow> rsplit1 c (a @ c # b) = Some (a, b)"
  by (simp add: rsplit1_def)

lemma split1_Some:
  assumes "split1 c s = Some (a, b)"
  shows "s = a @ c # b \<and> c \<notin> set a"
proof (cases "dropWhile (\<lambda>x. x \<noteq> c) s")
  case Nil
  with assms show ?thesis unfolding split1_def Nil by simp
next
  case (Cons x t)
  have "x = c" using hd_dropWhile [of "\<lambda>x. x \<noteq> c" s] unfolding Cons by simp
  from assms have ab: "a = takeWhile (\<lambda>x. x \<noteq> c) s" "b = t"
    unfolding split1_def Cons by auto
  have "s = takeWhile (\<lambda>x. x \<noteq> c) s @ dropWhile (\<lambda>x. x \<noteq> c) s" by simp
  then have "s = a @ c # b" unfolding Cons ab \<open>x = c\<close> .
  moreover have "c \<notin> set a" unfolding ab by (auto dest: set_takeWhileD)
  ultimately show ?thesis by blast
qed

lemma rsplit1_Some: "rsplit1 c s = Some (a, b) \<Longrightarrow> s = a @ c # b \<and> c \<notin> set b"
proof -
  assume "rsplit1 c s = Some (a, b)"
  then have "split1 c (rev s) = Some (rev b, rev a)" by (auto simp: rsplit1_def)
  from split1_Some [OF this] have "rev s = rev b @ c # rev a" "c \<notin> set b" by auto
  from this(1) have "rev (rev s) = rev (rev b @ c # rev a)" by simp
  with \<open>c \<notin> set b\<close> show ?thesis by simp
qed

section \<open>Dictionaries in insertion order\<close>

text \<open>
  A Python dictionary whose iteration order matters is an association list; assignment
  is \<open>AList.update\<close>, which keeps the position of an existing key, and a new key goes last.
\<close>

definition dict_setdefault :: "'k \<Rightarrow> 'v \<Rightarrow> ('k \<times> 'v) list \<Rightarrow> ('k \<times> 'v) list" where
  "dict_setdefault k v d = (case map_of d k of None \<Rightarrow> d @ [(k, v)] | Some _ \<Rightarrow> d)"

definition dict_get :: "('k \<times> 'v) list \<Rightarrow> 'k \<Rightarrow> 'v \<Rightarrow> 'v" where
  "dict_get d k dflt = (case map_of d k of None \<Rightarrow> dflt | Some v \<Rightarrow> v)"

text \<open>\<open>d[k] = f(d.get(k, dflt))\<close>.\<close>

definition dict_alter :: "'k \<Rightarrow> 'v \<Rightarrow> ('v \<Rightarrow> 'v) \<Rightarrow> ('k \<times> 'v) list \<Rightarrow> ('k \<times> 'v) list" where
  "dict_alter k dflt f d = AList.update k (f (dict_get d k dflt)) d"

lemma map_of_dict_setdefault:
  "map_of (dict_setdefault k v d) = (case map_of d k of None \<Rightarrow> (map_of d)(k \<mapsto> v) | Some _ \<Rightarrow> map_of d)"
  by (auto simp: dict_setdefault_def map_add_def split: option.splits)

lemma distinct_dict_setdefault:
  "distinct (map fst d) \<Longrightarrow> distinct (map fst (dict_setdefault k v d))"
  by (auto simp: dict_setdefault_def map_of_eq_None_iff split: option.splits)

lemma map_of_dict_alter [simp]:
  "map_of (dict_alter k dflt f d) = (map_of d)(k \<mapsto> f (dict_get d k dflt))"
  by (simp add: dict_alter_def update_conv')

lemma distinct_dict_alter:
  "distinct (map fst d) \<Longrightarrow> distinct (map fst (dict_alter k dflt f d))"
  by (simp add: dict_alter_def distinct_update)

section \<open>Binary search\<close>

text \<open>
  \<open>bisect.bisect_right\<close> and \<open>bisect.bisect_left\<close> with a key, as the library's loop over
  the half-open interval from \<open>lo\<close> to \<open>hi\<close>.
\<close>

function bisect_right_loop :: "('a \<Rightarrow> 'k::linorder) \<Rightarrow> 'a list \<Rightarrow> 'k \<Rightarrow> nat \<Rightarrow> nat \<Rightarrow> nat" where
  "bisect_right_loop key a x lo hi =
     (if lo < hi then
        let mid = (lo + hi) div 2 in
        if x < key (a ! mid) then bisect_right_loop key a x lo mid
        else bisect_right_loop key a x (mid + 1) hi
      else lo)"
  by pat_completeness auto
termination
  by (relation "measure (\<lambda>(key, a, x, lo, hi). hi - lo)") auto

function bisect_left_loop :: "('a \<Rightarrow> 'k::linorder) \<Rightarrow> 'a list \<Rightarrow> 'k \<Rightarrow> nat \<Rightarrow> nat \<Rightarrow> nat" where
  "bisect_left_loop key a x lo hi =
     (if lo < hi then
        let mid = (lo + hi) div 2 in
        if key (a ! mid) < x then bisect_left_loop key a x (mid + 1) hi
        else bisect_left_loop key a x lo mid
      else lo)"
  by pat_completeness auto
termination
  by (relation "measure (\<lambda>(key, a, x, lo, hi). hi - lo)") auto

declare bisect_right_loop.simps [simp del] bisect_left_loop.simps [simp del]

definition bisect_right :: "('a \<Rightarrow> 'k::linorder) \<Rightarrow> 'a list \<Rightarrow> 'k \<Rightarrow> nat" where
  "bisect_right key a x = bisect_right_loop key a x 0 (length a)"

definition bisect_left :: "('a \<Rightarrow> 'k::linorder) \<Rightarrow> 'a list \<Rightarrow> 'k \<Rightarrow> nat" where
  "bisect_left key a x = bisect_left_loop key a x 0 (length a)"

lemma sorted_key_nth_mono:
  "sorted (map key a) \<Longrightarrow> i \<le> j \<Longrightarrow> j < length a \<Longrightarrow> key (a ! i) \<le> key (a ! j)"
  using sorted_nth_mono [of "map key a" i j] by simp

lemma bisect_right_loop_spec:
  assumes "sorted (map key a)" "lo \<le> hi" "hi \<le> length a"
    and "\<forall>i < lo. key (a ! i) \<le> x" and "\<forall>i. hi \<le> i \<and> i < length a \<longrightarrow> x < key (a ! i)"
  shows "let p = bisect_right_loop key a x lo hi in p \<le> length a \<and>
    (\<forall>i < p. key (a ! i) \<le> x) \<and> (\<forall>i. p \<le> i \<and> i < length a \<longrightarrow> x < key (a ! i))"
  using assms
proof (induction key a x lo hi rule: bisect_right_loop.induct)
  case (1 key a x lo hi)
  show ?case
  proof (cases "lo < hi")
    case False
    then have stop: "bisect_right_loop key a x lo hi = lo"
      by (subst bisect_right_loop.simps) simp
    from False "1.prems" have "lo = hi" by simp
    with "1.prems" stop show ?thesis by simp
  next
    case True
    define mid where "mid = (lo + hi) div 2"
    have mid: "lo \<le> mid" "mid < hi" using True by (auto simp: mid_def)
    show ?thesis
    proof (cases "x < key (a ! mid)")
      case less: True
      have "\<forall>i. mid \<le> i \<and> i < length a \<longrightarrow> x < key (a ! i)"
        using less sorted_key_nth_mono [OF "1.prems"(1), of mid] by (meson less_le_trans)
      then show ?thesis
        using 1(1) [OF True mid_def less] "1.prems" mid True less
        by (simp add: bisect_right_loop.simps [of key a x lo hi] mid_def [symmetric] Let_def)
    next
      case ge: False
      have "\<forall>i < mid + 1. key (a ! i) \<le> x"
      proof (intro allI impI)
        fix i assume "i < mid + 1"
        then have "key (a ! i) \<le> key (a ! mid)"
          using mid "1.prems"(3) by (intro sorted_key_nth_mono [OF "1.prems"(1)]) auto
        with ge show "key (a ! i) \<le> x" by simp
      qed
      then show ?thesis
        using 1(2) [OF True mid_def ge] "1.prems" mid True ge
        by (simp add: bisect_right_loop.simps [of key a x lo hi] mid_def [symmetric] Let_def)
    qed
  qed
qed

lemma bisect_left_loop_spec:
  assumes "sorted (map key a)" "lo \<le> hi" "hi \<le> length a"
    and "\<forall>i < lo. key (a ! i) < x" and "\<forall>i. hi \<le> i \<and> i < length a \<longrightarrow> x \<le> key (a ! i)"
  shows "let p = bisect_left_loop key a x lo hi in p \<le> length a \<and>
    (\<forall>i < p. key (a ! i) < x) \<and> (\<forall>i. p \<le> i \<and> i < length a \<longrightarrow> x \<le> key (a ! i))"
  using assms
proof (induction key a x lo hi rule: bisect_left_loop.induct)
  case (1 key a x lo hi)
  show ?case
  proof (cases "lo < hi")
    case False
    then have stop: "bisect_left_loop key a x lo hi = lo"
      by (subst bisect_left_loop.simps) simp
    from False "1.prems" have "lo = hi" by simp
    with "1.prems" stop show ?thesis by simp
  next
    case True
    define mid where "mid = (lo + hi) div 2"
    have mid: "lo \<le> mid" "mid < hi" using True by (auto simp: mid_def)
    show ?thesis
    proof (cases "key (a ! mid) < x")
      case less: True
      have "\<forall>i < mid + 1. key (a ! i) < x"
      proof (intro allI impI)
        fix i assume "i < mid + 1"
        then have "key (a ! i) \<le> key (a ! mid)"
          using mid "1.prems"(3) by (intro sorted_key_nth_mono [OF "1.prems"(1)]) auto
        with less show "key (a ! i) < x" by simp
      qed
      then show ?thesis
        using 1(1) [OF True mid_def less] "1.prems" mid True less
        by (simp add: bisect_left_loop.simps [of key a x lo hi] mid_def [symmetric] Let_def)
    next
      case ge: False
      have "\<forall>i. mid \<le> i \<and> i < length a \<longrightarrow> x \<le> key (a ! i)"
        using ge sorted_key_nth_mono [OF "1.prems"(1), of mid] by (meson le_less_trans not_less)
      then show ?thesis
        using 1(2) [OF True mid_def ge] "1.prems" mid True ge
        by (simp add: bisect_left_loop.simps [of key a x lo hi] mid_def [symmetric] Let_def)
    qed
  qed
qed

lemma bisect_right_spec:
  assumes "sorted (map key a)"
  shows "bisect_right key a x \<le> length a"
    and "i < bisect_right key a x \<Longrightarrow> key (a ! i) \<le> x"
    and "bisect_right key a x \<le> i \<Longrightarrow> i < length a \<Longrightarrow> x < key (a ! i)"
proof -
  have "\<forall>i. length a \<le> i \<and> i < length a \<longrightarrow> x < key (a ! i)" by auto
  with bisect_right_loop_spec [OF assms, of 0 "length a" x]
  have *: "let p = bisect_right key a x in p \<le> length a \<and> (\<forall>i < p. key (a ! i) \<le> x) \<and>
      (\<forall>i. p \<le> i \<and> i < length a \<longrightarrow> x < key (a ! i))"
    by (simp add: bisect_right_def)
  then show "bisect_right key a x \<le> length a" by (simp add: Let_def)
  show "i < bisect_right key a x \<Longrightarrow> key (a ! i) \<le> x" using * by (simp add: Let_def)
  show "bisect_right key a x \<le> i \<Longrightarrow> i < length a \<Longrightarrow> x < key (a ! i)" using * by (simp add: Let_def)
qed

lemma bisect_left_spec:
  assumes "sorted (map key a)"
  shows "bisect_left key a x \<le> length a"
    and "i < bisect_left key a x \<Longrightarrow> key (a ! i) < x"
    and "bisect_left key a x \<le> i \<Longrightarrow> i < length a \<Longrightarrow> x \<le> key (a ! i)"
proof -
  have "\<forall>i. length a \<le> i \<and> i < length a \<longrightarrow> x \<le> key (a ! i)" by auto
  with bisect_left_loop_spec [OF assms, of 0 "length a" x]
  have *: "let p = bisect_left key a x in p \<le> length a \<and> (\<forall>i < p. key (a ! i) < x) \<and>
      (\<forall>i. p \<le> i \<and> i < length a \<longrightarrow> x \<le> key (a ! i))"
    by (simp add: bisect_left_def)
  then show "bisect_left key a x \<le> length a" by (simp add: Let_def)
  show "i < bisect_left key a x \<Longrightarrow> key (a ! i) < x" using * by (simp add: Let_def)
  show "bisect_left key a x \<le> i \<Longrightarrow> i < length a \<Longrightarrow> x \<le> key (a ! i)" using * by (simp add: Let_def)
qed

end
