(* ===== verification/A1_Address.thy ===== *)
theory A1_Address
  imports Prelude
begin

text \<open>
  The A1 address arithmetic of \<open>src/finance_context/excel/a1.py\<close>: column letters and
  their index, parsing and printing of a cell address, the test that an address is the
  printed form of its coordinates, and the textual shift of a shared formula.
  Regular expressions are written as deterministic prefix matchers; the comments say why
  backtracking cannot find another match.
\<close>

section \<open>Column letters\<close>

definition MAX_COL :: int where
  "MAX_COL = 16384"

definition MAX_ROW :: int where
  "MAX_ROW = 1048576"

definition col_to_index :: "string \<Rightarrow> int" where
  "col_to_index col = foldl (\<lambda>n ch. n * 26 + (int (code ch) - 64)) 0 (py_upper col)"

definition in_grid :: "int \<Rightarrow> int \<Rightarrow> bool" where
  "in_grid col row \<longleftrightarrow> 1 \<le> col \<and> col \<le> MAX_COL \<and> 1 \<le> row \<and> row \<le> MAX_ROW"

text \<open>The letters in the order the loop appends them, least significant first.\<close>

fun col_chars :: "nat \<Rightarrow> string" where
  "col_chars value =
     (if value = 0 then []
      else char_of (65 + (value - 1) mod 26) # col_chars ((value - 1) div 26))"

declare col_chars.simps [simp del]

definition index_to_col :: "int \<Rightarrow> string" where
  "index_to_col n = rev (col_chars (nat (max n 1)))"

text \<open>The same function with the module-level memo table \<open>_COL_LETTERS\<close> threaded through.\<close>

definition index_to_col_memo :: "int \<Rightarrow> (int \<rightharpoonup> string) \<Rightarrow> string \<times> (int \<rightharpoonup> string)" where
  "index_to_col_memo n COL_LETTERS =
     (let n = max n 1 in
      case COL_LETTERS n of
        Some found \<Rightarrow> (found, COL_LETTERS)
      | None \<Rightarrow> (let found = rev (col_chars (nat n)) in (found, COL_LETTERS(n \<mapsto> found))))"

section \<open>Addresses\<close>

definition drop_dollar :: "string \<Rightarrow> bool \<times> string" where
  "drop_dollar s = (case s of [] \<Rightarrow> (False, [])
     | c # t \<Rightarrow> if c = CHR ''$'' then (True, t) else (False, s))"

text \<open>
  The prefix \<open>\$?([A-Za-z]+)\$?(\d+)\<close> of a text: the column letters, the row digits and
  the rest. Letters, dollar and digits are disjoint classes, so the greedy match is the
  only candidate that can be followed by the end of the text or by a colon.
\<close>

definition re_cell :: "string \<Rightarrow> (string \<times> string \<times> string) option" where
  "re_cell s =
     (let s1 = snd (drop_dollar s);
          letters = takeWhile re_letter s1;
          s2 = snd (drop_dollar (dropWhile re_letter s1));
          digits = takeWhile re_digit s2
      in if letters \<noteq> [] \<and> digits \<noteq> [] then Some (letters, digits, dropWhile re_digit s2)
         else None)"

definition parse_addr :: "string \<Rightarrow> (int \<times> int) result" where
  "parse_addr addr =
     (case re_cell addr of
        Some (letters, digits, []) \<Rightarrow> Inr (col_to_index letters, int (int_of_digits digits))
      | _ \<Rightarrow> Inl (ValueError addr))"

definition format_addr :: "int \<Rightarrow> int \<Rightarrow> string" where
  "format_addr col row = index_to_col col @ int_str row"

text \<open>\<open>int(text)\<close>: a text that is not all decimal digits raises.\<close>

definition py_int :: "string \<Rightarrow> int result" where
  "py_int s = (if s \<noteq> [] \<and> list_all re_digit s then Inr (int (int_of_digits s))
     else Inl (ValueError s))"

definition is_derived_addr :: "string \<Rightarrow> int \<Rightarrow> int \<Rightarrow> bool result" where
  "is_derived_addr addr col row =
     (let letters = index_to_col col; width = length letters in
      if length addr \<le> width \<or> take width addr \<noteq> letters then Inr False
      else let tail = drop width addr in
        if \<not> list_all py_isdigit tail \<or> (length tail > 1 \<and> hd tail = CHR ''0'') then Inr False
        else bind_result (py_int tail) (\<lambda>n. Inr (n = row)))"

section \<open>Shifting the references of a formula text\<close>

text \<open>
  \<open>(\$)?([A-Z]{1,3})(\$)?(\d+)(?![\w.(\[])\<close> at the start of a text. A run of four or more
  letters cannot match: after at most three of them the next character is a letter, which
  is neither a dollar nor a digit. A shorter digit run is followed by a digit, which the
  lookahead refuses. So the maximal runs decide.
\<close>

record ref_match =
  rm_sheet :: string
  rm_abscol :: bool
  rm_col :: string
  rm_absrow :: bool
  rm_row :: string
  rm_rest :: string

definition ref_follow :: "string \<Rightarrow> bool" where
  "ref_follow rest \<longleftrightarrow> (case rest of [] \<Rightarrow> True
     | c # _ \<Rightarrow> \<not> (re_word c \<or> c = CHR ''.'' \<or> c = CHR ''('' \<or> c = CHR ''[''))"

definition re_cell_body :: "string \<Rightarrow> ref_match option" where
  "re_cell_body s =
     (let (abscol, s1) = drop_dollar s;
          letters = takeWhile re_letter s1;
          (absrow, s2) = drop_dollar (dropWhile re_letter s1);
          digits = takeWhile re_digit s2;
          rest = dropWhile re_digit s2
      in if letters \<noteq> [] \<and> length letters \<le> 3 \<and> digits \<noteq> [] \<and> ref_follow rest
         then Some \<lparr>rm_sheet = [], rm_abscol = abscol, rm_col = letters,
                    rm_absrow = absrow, rm_row = digits, rm_rest = rest\<rparr>
         else None)"

definition word_or_dot :: "char \<Rightarrow> bool" where
  "word_or_dot c \<longleftrightarrow> re_word c \<or> c = CHR ''.''"

text \<open>The sheet group \<open>[\w.]+!\<close> followed by the cell.\<close>

definition re_sheet_ref :: "string \<Rightarrow> ref_match option" where
  "re_sheet_ref s =
     (case dropWhile word_or_dot s of
        [] \<Rightarrow> None
      | c # t \<Rightarrow>
          if c = CHR ''!'' \<and> takeWhile word_or_dot s \<noteq> []
          then map_option (\<lambda>m. m\<lparr>rm_sheet := takeWhile word_or_dot s @ ''!''\<rparr>) (re_cell_body t)
          else None)"

text \<open>
  \<open>_REF\<close> at a position whose preceding character is \<open>prev\<close>. The optional sheet group is
  tried first; when the cell after it does not match, the group is left out.
\<close>

definition re_ref :: "char option \<Rightarrow> string \<Rightarrow> ref_match option" where
  "re_ref prev s =
     (if (case prev of None \<Rightarrow> False | Some p \<Rightarrow> word_or_dot p) then None
      else case re_sheet_ref s of Some m \<Rightarrow> Some m | None \<Rightarrow> re_cell_body s)"

text \<open>
  \<open>_segment_end\<close>: the text of the bracketed or quoted segment at the start, and the rest.
  A doubled apostrophe inside quotes is one quote; an open segment runs to the end.
\<close>

fun quote_segment :: "string \<Rightarrow> string \<times> string" where
  "quote_segment [] = ([], [])"
| "quote_segment [c] = ([c], [])"
| "quote_segment (c # d # t) =
     (if c = CHR 0x27 then
        if d = CHR 0x27 then (let (seg, rest) = quote_segment t in (c # d # seg, rest))
        else ([c], d # t)
      else let (seg, rest) = quote_segment (d # t) in (c # seg, rest))"

definition segment_end :: "string \<Rightarrow> string \<times> string" where
  "segment_end s =
     (case s of [] \<Rightarrow> ([], [])
      | c # t \<Rightarrow>
          if c = CHR ''['' then
            (case dropWhile (\<lambda>x. x \<noteq> CHR '']'') t of
               [] \<Rightarrow> (s, [])
             | close # rest \<Rightarrow> (c # takeWhile (\<lambda>x. x \<noteq> CHR '']'') t @ [close], rest))
          else let (seg, rest) = quote_segment t in (c # seg, rest))"

definition dollar_if :: "bool \<Rightarrow> string" where
  "dollar_if b = (if b then ''$'' else [])"

definition matched_text :: "ref_match \<Rightarrow> string" where
  "matched_text m = rm_sheet m @ dollar_if (rm_abscol m) @ rm_col m
     @ dollar_if (rm_absrow m) @ rm_row m"

definition shifted_text :: "int \<Rightarrow> int \<Rightarrow> ref_match \<Rightarrow> string" where
  "shifted_text dc dr m =
     (let col = col_to_index (rm_col m); row = int (int_of_digits (rm_row m)) in
      if \<not> in_grid col row then matched_text m
      else
        let col' = (if rm_abscol m then col else max (col + dc) 1);
            row' = (if rm_absrow m then row else max (row + dr) 1)
        in rm_sheet m @ dollar_if (rm_abscol m) @ index_to_col col'
             @ dollar_if (rm_absrow m) @ int_str row')"

lemma length_snd_drop_dollar: "length (snd (drop_dollar s)) \<le> length s"
  by (simp add: drop_dollar_def split: list.splits)

lemma re_cell_body_rest:
  assumes "re_cell_body s = Some m"
  shows "length (rm_rest m) < length s"
proof -
  let ?s1 = "snd (drop_dollar s)"
  let ?s2 = "snd (drop_dollar (dropWhile re_letter ?s1))"
  from assms have m: "rm_rest m = dropWhile re_digit ?s2" and d: "takeWhile re_digit ?s2 \<noteq> []"
    by (auto simp: re_cell_body_def Let_def split: prod.splits if_splits)
  from d have "length (dropWhile re_digit ?s2) < length ?s2" by (rule length_dropWhile_less)
  also have "\<dots> \<le> length (dropWhile re_letter ?s1)" by (rule length_snd_drop_dollar)
  also have "\<dots> \<le> length ?s1" by (rule length_dropWhile_le)
  also have "\<dots> \<le> length s" by (rule length_snd_drop_dollar)
  finally show ?thesis by (simp add: m)
qed

lemma re_sheet_ref_rest:
  assumes "re_sheet_ref s = Some m"
  shows "length (rm_rest m) < length s"
proof (cases "dropWhile word_or_dot s")
  case Nil
  with assms show ?thesis by (simp add: re_sheet_ref_def)
next
  case (Cons c t)
  with assms obtain m' where m': "re_cell_body t = Some m'" and m: "rm_rest m = rm_rest m'"
    unfolding re_sheet_ref_def by (simp split: if_splits) fastforce
  from re_cell_body_rest [OF m'] m have "length (rm_rest m) < length t" by simp
  also have "length t < length (dropWhile word_or_dot s)" by (simp add: Cons)
  also have "\<dots> \<le> length s" by (rule length_dropWhile_le)
  finally show ?thesis .
qed

lemma re_ref_rest: "re_ref prev s = Some m \<Longrightarrow> length (rm_rest m) < length s"
  by (simp add: re_ref_def re_sheet_ref_rest re_cell_body_rest split: if_splits option.splits)

lemma quote_segment_rest: "length (snd (quote_segment s)) \<le> length s"
  by (induction s rule: quote_segment.induct) (auto split: prod.splits)

lemma segment_end_rest: "s \<noteq> [] \<Longrightarrow> length (snd (segment_end s)) < length s"
proof (cases s)
  case (Cons c t)
  show ?thesis
  proof (cases "c = CHR ''[''")
    case True
    have "length (dropWhile (\<lambda>x. x \<noteq> CHR '']'') t) \<le> length t" by (rule length_dropWhile_le)
    with Cons True show ?thesis by (auto simp: segment_end_def split: list.splits)
  next
    case False
    with Cons quote_segment_rest [of t] show ?thesis
      by (auto simp: segment_end_def split: prod.splits)
  qed
qed simp

text \<open>
  The loop of \<open>shift_formula\<close> from one position on. \<open>prev\<close> is the character before the
  position, which the lookbehind of \<open>_REF\<close> reads.
\<close>

function shift_loop :: "int \<Rightarrow> int \<Rightarrow> bool \<Rightarrow> char option \<Rightarrow> string \<Rightarrow> string" where
  "shift_loop dc dr in_quote prev [] = []"
| "shift_loop dc dr in_quote prev (ch # s) =
     (if ch = CHR 0x22 then ch # shift_loop dc dr (\<not> in_quote) (Some ch) s
      else if in_quote then ch # shift_loop dc dr in_quote (Some ch) s
      else if ch = CHR ''['' \<or> ch = CHR 0x27 then
        (let seg = segment_end (ch # s)
         in fst seg @ shift_loop dc dr in_quote (Some (last (fst seg))) (snd seg))
      else
        (case re_ref prev (ch # s) of
           None \<Rightarrow> ch # shift_loop dc dr in_quote (Some ch) s
         | Some m \<Rightarrow> shifted_text dc dr m
             @ shift_loop dc dr in_quote (Some (last (matched_text m))) (rm_rest m)))"
  by pat_completeness auto
termination
proof (relation "measure (\<lambda>(dc, dr, q, prev, s). length s)", goal_cases)
  case (4 dc dr q prev ch s x)
  then show ?case using segment_end_rest [of "ch # s"] by simp
next
  case (6 dc dr q prev ch s m)
  then show ?case using re_ref_rest [of prev "ch # s" m] by simp
qed simp_all

definition shift_formula :: "string \<Rightarrow> int \<Rightarrow> int \<Rightarrow> int \<Rightarrow> int \<Rightarrow> string" where
  "shift_formula formula from_col from_row to_col to_row =
     (let dc = to_col - from_col; dr = to_row - from_row in
      if dc = 0 \<and> dr = 0 then formula else shift_loop dc dr False None formula)"

section \<open>Letters and indices are inverse\<close>

lemma ascii_upper_col_char: "(k::nat) < 26 \<Longrightarrow> ascii_upper (char_of (65 + k))"
  by (simp add: ascii_upper_def)

lemma col_chars_upper: "\<forall>c \<in> set (col_chars v). ascii_upper c"
proof (induction v rule: col_chars.induct)
  case (1 v)
  then show ?case by (subst col_chars.simps) (simp add: ascii_upper_col_char)
qed

lemma index_to_col_upper: "c \<in> set (index_to_col n) \<Longrightarrow> ascii_upper c"
  using col_chars_upper by (auto simp: index_to_col_def)

lemma index_to_col_letter [simp]: "c \<in> set (index_to_col n) \<Longrightarrow> re_letter c"
  using index_to_col_upper by (auto simp: re_letter_def)

lemma index_to_col_not_Nil [simp]: "index_to_col n \<noteq> []"
  by (simp add: index_to_col_def col_chars.simps)

lemma upper_char_upper [simp]: "ascii_upper c \<Longrightarrow> upper_char c = [c]"
  by (auto simp: upper_char_def char_class)

lemma py_upper_upper: "\<forall>c \<in> set s. ascii_upper c \<Longrightarrow> py_upper s = s"
  by (induction s) (auto simp: py_upper_def)

lemma py_upper_snoc: "re_letter c \<Longrightarrow> \<exists>u. ascii_upper u \<and> py_upper (s @ [c]) = py_upper s @ [u]"
  by (auto simp: py_upper_def upper_char_def char_class)

lemma col_to_index_snoc:
  assumes "py_upper (s @ [c]) = py_upper s @ [u]"
  shows "col_to_index (s @ [c]) = col_to_index s * 26 + (int (code u) - 64)"
  using assms by (simp add: col_to_index_def)

lemma col_to_index_rev_col_chars: "col_to_index (rev (col_chars v)) = int v"
proof (induction v rule: col_chars.induct)
  case (1 v)
  show ?case
  proof (cases "v = 0")
    case True
    then show ?thesis by (simp add: col_chars.simps col_to_index_def py_upper_def)
  next
    case False
    let ?q = "(v - 1) div 26" and ?c = "char_of (65 + (v - 1) mod 26)"
    have "py_upper (rev (col_chars ?q) @ [?c]) = py_upper (rev (col_chars ?q)) @ [?c]"
      by (simp add: py_upper_def ascii_upper_col_char)
    then have "col_to_index (rev (col_chars v)) = int ?q * 26 + (int (code ?c) - 64)"
      using False "1.IH" by (simp add: col_chars.simps [of v] col_to_index_snoc)
    also have "\<dots> = int v"
    proof -
      have "?q * 26 + (v - 1) mod 26 = v - 1" by (rule div_mult_mod_eq)
      moreover have "code ?c = 65 + (v - 1) mod 26" by simp
      ultimately show ?thesis using False by linarith
    qed
    finally show ?thesis .
  qed
qed

lemma col_to_index_index_to_col [simp]: "col_to_index (index_to_col n) = max n 1"
  by (simp add: index_to_col_def col_to_index_rev_col_chars max_def)

lemma index_to_col_inject:
  "1 \<le> m \<Longrightarrow> 1 \<le> n \<Longrightarrow> index_to_col m = index_to_col n \<longleftrightarrow> m = n"
  by (metis col_to_index_index_to_col max.absorb1)

lemma col_to_index_letters:
  assumes "s \<noteq> []" and "\<forall>c \<in> set s. re_letter c"
  shows "1 \<le> col_to_index s \<and> index_to_col (col_to_index s) = py_upper s"
  using assms
proof (induction s rule: rev_induct)
  case Nil
  then show ?case by simp
next
  case (snoc c s)
  from snoc.prems obtain u where u: "ascii_upper u" and up: "py_upper (s @ [c]) = py_upper s @ [u]"
    using py_upper_snoc by fastforce
  define k where "k = code u - 65"
  have k: "code u = 65 + k" "k < 26" using u by (auto simp: k_def ascii_upper_def)
  have uk: "char_of (65 + k) = u" by (metis k(1) char_of_char)
  have idx: "col_to_index (s @ [c]) = col_to_index s * 26 + int k + 1"
    by (simp add: col_to_index_snoc [OF up] k(1))
  show ?case
  proof (cases "s = []")
    case True
    with up have "py_upper [c] = [u]" by (simp add: py_upper_def)
    with True idx k uk show ?thesis
      by (simp add: col_to_index_def py_upper_def index_to_col_def col_chars.simps nat_add_distrib)
  next
    case False
    with snoc have IH: "1 \<le> col_to_index s" "index_to_col (col_to_index s) = py_upper s" by auto
    define v where "v = nat (col_to_index s)"
    have v: "col_to_index s = int v" "v \<noteq> 0" using IH(1) by (auto simp: v_def)
    have "nat (max (col_to_index (s @ [c])) 1) = Suc (v * 26 + k)"
      unfolding idx v(1) by simp
    then have "index_to_col (col_to_index (s @ [c])) = rev (col_chars v) @ [u]"
      using k(2) uk by (simp add: index_to_col_def col_chars.simps [of "Suc (v * 26 + k)"])
    moreover have "rev (col_chars v) = py_upper s"
      using IH(2) v by (simp add: index_to_col_def)
    ultimately show ?thesis using up idx v(1) by simp
  qed
qed

text \<open>A memo table that only holds printed columns stays one, and never changes an answer.\<close>

definition memo_ok :: "(int \<rightharpoonup> string) \<Rightarrow> bool" where
  "memo_ok M \<longleftrightarrow> (\<forall>n s. M n = Some s \<longrightarrow> s = rev (col_chars (nat n)))"

lemma index_to_col_memo_correct:
  assumes "memo_ok M"
  shows "fst (index_to_col_memo n M) = index_to_col n \<and> memo_ok (snd (index_to_col_memo n M))"
  using assms
  by (auto simp: index_to_col_memo_def memo_ok_def index_to_col_def Let_def split: option.splits)

section \<open>Addresses round-trip\<close>

lemma drop_dollar_other: "(case s of [] \<Rightarrow> True | c # _ \<Rightarrow> c \<noteq> CHR ''$'') \<Longrightarrow> drop_dollar s = (False, s)"
  by (auto simp: drop_dollar_def split: list.splits)

lemma drop_dollar_dollar [simp]: "drop_dollar (CHR ''$'' # s) = (True, s)"
  by (simp add: drop_dollar_def)

lemma letters_head: "ls \<noteq> [] \<Longrightarrow> \<forall>c \<in> set ls. re_letter c \<Longrightarrow>
    (case ls @ s of [] \<Rightarrow> True | c # _ \<Rightarrow> c \<noteq> CHR ''$'')"
  by (cases ls) auto

lemma digits_head: "ds \<noteq> [] \<Longrightarrow> \<forall>c \<in> set ds. re_digit c \<Longrightarrow>
    (case ds @ s of [] \<Rightarrow> True | c # _ \<Rightarrow> c \<noteq> CHR ''$'')"
  by (cases ds) auto

lemma digits_not_letter: "ds \<noteq> [] \<Longrightarrow> \<forall>c \<in> set ds. re_digit c \<Longrightarrow>
    (case ds @ s of [] \<Rightarrow> True | c # _ \<Rightarrow> \<not> re_letter c)"
  by (cases ds) auto

text \<open>The dollar-free text \<open>LETTERS DIGITS\<close> followed by a non-digit.\<close>

lemma re_cell_plain:
  assumes "ls \<noteq> []" "\<forall>c \<in> set ls. re_letter c" "ds \<noteq> []" "\<forall>c \<in> set ds. re_digit c"
    and "case rest of [] \<Rightarrow> True | c # _ \<Rightarrow> \<not> re_digit c"
  shows "re_cell (ls @ ds @ rest) = Some (ls, ds, rest)"
proof -
  have "drop_dollar (ls @ ds @ rest) = (False, ls @ ds @ rest)"
    using letters_head [OF assms(1,2), of "ds @ rest"] by (rule drop_dollar_other)
  moreover have "takeWhile re_letter (ls @ ds @ rest) = ls"
    "dropWhile re_letter (ls @ ds @ rest) = ds @ rest"
    using digits_not_letter [OF assms(3,4), of rest] assms(2)
    by (simp_all only: takeWhile_run dropWhile_run)
  moreover have "drop_dollar (ds @ rest) = (False, ds @ rest)"
    using digits_head [OF assms(3,4)] by (rule drop_dollar_other)
  ultimately show ?thesis
    using assms takeWhile_run [OF assms(4,5)] dropWhile_run [OF assms(4,5)]
    by (simp add: re_cell_def Let_def)
qed

lemma re_cell_letters_digits:
  assumes "re_cell s = Some (ls, ds, rest)"
  shows "ls \<noteq> [] \<and> (\<forall>c \<in> set ls. re_letter c) \<and> ds \<noteq> [] \<and> (\<forall>c \<in> set ds. re_digit c)"
  using assms by (auto simp: re_cell_def Let_def dest: set_takeWhileD split: if_splits)

lemma parse_format_addr [simp]:
  assumes "0 \<le> row"
  shows "parse_addr (format_addr col row) = Inr (max col 1, row)"
proof -
  have "re_cell (index_to_col col @ nat_str (nat row) @ []) =
      Some (index_to_col col, nat_str (nat row), [])"
    by (rule re_cell_plain) auto
  with assms show ?thesis by (simp add: parse_addr_def format_addr_def int_str_def)
qed

lemma parse_addr_bounds:
  assumes "parse_addr a = Inr (col, row)"
  shows "1 \<le> col \<and> 0 \<le> row"
  using assms re_cell_letters_digits [of a] col_to_index_letters
  by (auto simp: parse_addr_def split: option.splits list.splits)

lemma is_derived_addr_unfold:
  assumes "0 \<le> row" and "\<forall>c \<in> set addr. code c \<notin> {178, 179, 185}"
  shows "is_derived_addr addr col row = Inr (addr = format_addr col row)"
proof (cases "length addr \<le> length (index_to_col col) \<or>
    take (length (index_to_col col)) addr \<noteq> index_to_col col")
  case True
  have "addr \<noteq> format_addr col row"
  proof
    assume "addr = format_addr col row"
    moreover have "int_str row \<noteq> []" using assms(1) by (simp add: int_str_def)
    ultimately show False using True by (auto simp: format_addr_def)
  qed
  with True show ?thesis by (auto simp: is_derived_addr_def Let_def)
next
  case False
  define tail where "tail = drop (length (index_to_col col)) addr"
  from False have addr: "addr = index_to_col col @ tail"
    unfolding tail_def by (metis append_take_drop_id)
  from False have ne: "tail \<noteq> []" by (simp add: tail_def)
  have eq: "addr = format_addr col row \<longleftrightarrow> tail = nat_str (nat row)"
    using assms(1) by (simp add: addr format_addr_def int_str_def)
  have digit: "list_all py_isdigit tail \<longleftrightarrow> (\<forall>c \<in> set tail. re_digit c)"
    using assms(2) by (auto simp: addr list_all_iff py_isdigit_def)
  show ?thesis
  proof (cases "list_all py_isdigit tail \<and> \<not> (length tail > 1 \<and> hd tail = CHR ''0'')")
    case True
    with ne digit have can: "nat_str (int_of_digits tail) = tail"
      by (intro nat_str_int_of_digits) (auto simp: neq_Nil_conv)
    have "int (int_of_digits tail) = row \<longleftrightarrow> tail = nat_str (nat row)"
      using can assms(1) by (metis int_nat_eq int_of_digits_nat_str nat_int)
    with True False ne digit eq show ?thesis
      by (auto simp: is_derived_addr_def Let_def tail_def [symmetric] py_int_def list_all_iff)
  next
    case bad: False
    have "tail \<noteq> nat_str (nat row)"
      using bad digit nat_str_hd [of "nat row"] nat_str_digits [of "nat row"] by auto
    with False bad eq show ?thesis
      by (auto simp: is_derived_addr_def Let_def tail_def [symmetric])
  qed
qed

section \<open>Shifting cell references\<close>

text \<open>One reference as the code prints it, and the separators an operator puts after it.\<close>

definition cell_text :: "bool \<Rightarrow> int \<Rightarrow> bool \<Rightarrow> int \<Rightarrow> string" where
  "cell_text ac col ar row = dollar_if ac @ index_to_col col @ dollar_if ar @ int_str row"

definition operator_char :: "char \<Rightarrow> bool" where
  "operator_char c \<longleftrightarrow> c \<in> set ''+-*/^&=<>%,;: )''"

definition shifted_cell_text :: "int \<Rightarrow> int \<Rightarrow> bool \<Rightarrow> int \<Rightarrow> bool \<Rightarrow> int \<Rightarrow> string" where
  "shifted_cell_text dc dr ac col ar row =
     cell_text ac (if ac then col else max (col + dc) 1) ar (if ar then row else max (row + dr) 1)"

lemma operator_char_simps:
  assumes "operator_char c"
  shows "\<not> re_word c" "c \<noteq> CHR ''.''" "c \<noteq> CHR ''(''" "c \<noteq> CHR ''[''" "c \<noteq> CHR 0x22"
    "c \<noteq> CHR 0x27" "c \<noteq> CHR ''!''" "c \<noteq> CHR ''$''" "\<not> re_digit c" "\<not> re_letter c"
  using assms by (auto simp: operator_char_def char_class)

lemma col_chars_length: "v \<le> 18278 \<Longrightarrow> length (col_chars v) \<le> 3"
proof -
  have one: "length (col_chars v) \<le> 1" if "v \<le> 26" for v
    using that by (simp add: col_chars.simps [of v] col_chars.simps [of 0])
  have two: "length (col_chars v) \<le> 2" if "v \<le> 702" for v
  proof -
    from that have "(v - 1) div 26 \<le> 26" by simp
    then have "length (col_chars ((v - 1) div 26)) \<le> 1" by (rule one)
    then show ?thesis by (simp add: col_chars.simps [of v])
  qed
  assume "v \<le> 18278"
  then have "(v - 1) div 26 \<le> 702" by simp
  then have "length (col_chars ((v - 1) div 26)) \<le> 2" by (rule two)
  then show ?thesis by (simp add: col_chars.simps [of v])
qed

lemma length_index_to_col: "in_grid col row \<Longrightarrow> length (index_to_col col) \<le> 3"
  by (auto simp: index_to_col_def in_grid_def MAX_COL_def max_def intro!: col_chars_length)

lemma re_cell_body_cell_text:
  assumes grid: "in_grid col row" and rest: "case rest of [] \<Rightarrow> True | c # _ \<Rightarrow> operator_char c"
  shows "re_cell_body (cell_text ac col ar row @ rest) =
    Some \<lparr>rm_sheet = [], rm_abscol = ac, rm_col = index_to_col col,
          rm_absrow = ar, rm_row = int_str row, rm_rest = rest\<rparr>"
proof -
  let ?L = "index_to_col col" and ?D = "int_str row"
  have D: "?D = nat_str (nat row)" using grid by (simp add: int_str_def in_grid_def)
  have dig: "\<forall>c \<in> set ?D. re_digit c" "?D \<noteq> []" by (auto simp: D)
  have let_: "\<forall>c \<in> set ?L. re_letter c" by simp
  have dd1: "drop_dollar (dollar_if ac @ ?L @ s) = (ac, ?L @ s)" for s
    using drop_dollar_other [OF letters_head, of ?L s] by (cases ac) (auto simp: dollar_if_def)
  have dd2: "drop_dollar (dollar_if ar @ ?D @ rest) = (ar, ?D @ rest)"
    using drop_dollar_other [OF digits_head, of ?D rest] dig by (cases ar) (auto simp: dollar_if_def)
  have nl: "case dollar_if ar @ ?D @ rest of [] \<Rightarrow> True | c # _ \<Rightarrow> \<not> re_letter c"
    using digits_not_letter [of ?D rest] dig by (cases ar) (auto simp: dollar_if_def)
  have nd: "case rest of [] \<Rightarrow> True | c # _ \<Rightarrow> \<not> re_digit c"
    using rest by (auto split: list.splits simp: operator_char_simps)
  have fol: "ref_follow rest"
    using rest by (auto simp: ref_follow_def operator_char_simps split: list.splits)
  show ?thesis
    using takeWhile_run [OF let_ nl] dropWhile_run [OF let_ nl] takeWhile_run [OF dig(1) nd]
      dropWhile_run [OF dig(1) nd] dd2 fol dig(2) length_index_to_col [OF grid]
    by (simp add: re_cell_body_def cell_text_def dd1 Let_def)
qed

lemma re_sheet_ref_None:
  assumes "case dropWhile word_or_dot s of [] \<Rightarrow> True | c # _ \<Rightarrow> c \<noteq> CHR ''!''"
  shows "re_sheet_ref s = None"
proof (cases "dropWhile word_or_dot s")
  case Nil
  then show ?thesis unfolding re_sheet_ref_def Nil by simp
next
  case (Cons c t)
  with assms show ?thesis unfolding re_sheet_ref_def Cons by simp
qed

text \<open>A cell text is not read as a sheet qualifier: no exclamation mark follows its word run.\<close>

lemma re_sheet_ref_cell_text:
  assumes rest: "case rest of [] \<Rightarrow> True | c # _ \<Rightarrow> operator_char c"
    and row: "0 \<le> row"
  shows "re_sheet_ref (cell_text ac col ar row @ rest) = None"
proof -
  have word: "word_or_dot c" if "re_letter c \<or> re_digit c" for c
    using that by (auto simp: word_or_dot_def re_letter_word re_digit_word)
  have dollar: "\<not> word_or_dot CHR ''$''" by (simp add: word_or_dot_def)
  have D: "int_str row = nat_str (nat row)" using row by (simp add: int_str_def)
  have stop: "case rest of [] \<Rightarrow> True | c # _ \<Rightarrow> \<not> word_or_dot c"
    using rest by (auto simp: word_or_dot_def operator_char_simps split: list.splits)
  have "case dropWhile word_or_dot (cell_text ac col ar row @ rest) of
      [] \<Rightarrow> True | c # _ \<Rightarrow> c \<noteq> CHR ''!''"
  proof (cases ac)
    case True
    then show ?thesis by (simp add: cell_text_def dollar_if_def dollar)
  next
    case ac: False
    show ?thesis
    proof (cases ar)
      case True
      have "dropWhile word_or_dot (index_to_col col @ CHR ''$'' # int_str row @ rest) =
          CHR ''$'' # int_str row @ rest"
        by (rule dropWhile_run) (auto simp: word dollar)
      with ac True show ?thesis by (simp add: cell_text_def dollar_if_def)
    next
      case False
      have "dropWhile word_or_dot ((index_to_col col @ int_str row) @ rest) = rest"
        by (rule dropWhile_run [OF _ stop]) (auto simp: word D)
      with ac False rest show ?thesis
        by (auto simp: cell_text_def dollar_if_def operator_char_simps split: list.splits)
    qed
  qed
  then show ?thesis by (rule re_sheet_ref_None)
qed

lemma cell_text_Cons:
  obtains c t where "cell_text ac col ar row = c # t" "c = CHR ''$'' \<or> re_letter c"
proof (cases ac)
  case True
  with that show thesis by (simp add: cell_text_def dollar_if_def)
next
  case False
  obtain c t where ct: "index_to_col col = c # t" by (cases "index_to_col col") auto
  moreover have "re_letter c" using ct index_to_col_letter [of c col] by simp
  ultimately show thesis using that False by (simp add: cell_text_def dollar_if_def)
qed

lemma shift_loop_cell_text:
  assumes grid: "in_grid col row"
    and rest: "case rest of [] \<Rightarrow> True | c # _ \<Rightarrow> operator_char c"
    and prev: "case prev of None \<Rightarrow> True | Some p \<Rightarrow> \<not> word_or_dot p"
  shows "\<exists>p. shift_loop dc dr False prev (cell_text ac col ar row @ rest) =
    shifted_cell_text dc dr ac col ar row @ shift_loop dc dr False (Some p) rest"
proof -
  let ?m = "\<lparr>rm_sheet = [], rm_abscol = ac, rm_col = index_to_col col,
             rm_absrow = ar, rm_row = int_str row, rm_rest = rest\<rparr>"
  have row: "0 \<le> row" "1 \<le> col" using grid by (auto simp: in_grid_def)
  have ref: "re_ref prev (cell_text ac col ar row @ rest) = Some ?m"
    using prev re_sheet_ref_cell_text [OF rest row(1), of ac col ar]
      re_cell_body_cell_text [OF grid rest, of ac ar]
    by (auto simp: re_ref_def split: option.splits)
  have val: "int (int_of_digits (int_str row)) = row" "max col 1 = col"
    using row by (auto simp: int_str_def)
  obtain c t where ct: "cell_text ac col ar row = c # t" and c: "c = CHR ''$'' \<or> re_letter c"
    by (rule cell_text_Cons)
  from c have "c \<noteq> CHR 0x22" "c \<noteq> CHR ''[''" "c \<noteq> CHR 0x27" by (auto simp: char_class)
  with ref ct have "shift_loop dc dr False prev (cell_text ac col ar row @ rest) =
      shifted_text dc dr ?m @ shift_loop dc dr False (Some (last (matched_text ?m))) rest"
    by simp
  moreover have "shifted_text dc dr ?m = shifted_cell_text dc dr ac col ar row"
    using grid val by (simp add: shifted_text_def shifted_cell_text_def cell_text_def)
  ultimately show ?thesis by metis
qed

lemma shift_loop_operator:
  assumes "operator_char c"
  shows "shift_loop dc dr False prev (c # s) = c # shift_loop dc dr False (Some c) s"
proof -
  have "re_sheet_ref (c # s) = None"
    using assms by (simp add: re_sheet_ref_def word_or_dot_def operator_char_simps)
  moreover have "re_cell_body (c # s) = None"
    using assms by (simp add: re_cell_body_def drop_dollar_def operator_char_simps)
  ultimately have "re_ref prev (c # s) = None" by (simp add: re_ref_def)
  with assms show ?thesis by (simp add: operator_char_simps)
qed

text \<open>
  A formula text made of cell references, each followed by operator characters, is
  described by its list of pieces.
\<close>

type_synonym piece = "bool \<times> int \<times> bool \<times> int \<times> char"

fun piece_text :: "piece \<Rightarrow> string" where
  "piece_text (ac, col, ar, row, sep) = cell_text ac col ar row @ [sep]"

fun piece_shifted :: "int \<Rightarrow> int \<Rightarrow> piece \<Rightarrow> string" where
  "piece_shifted dc dr (ac, col, ar, row, sep) = shifted_cell_text dc dr ac col ar row @ [sep]"

fun piece_ok :: "piece \<Rightarrow> bool" where
  "piece_ok (ac, col, ar, row, sep) \<longleftrightarrow> in_grid col row \<and> operator_char sep"

lemma shift_loop_pieces:
  assumes "list_all piece_ok ps" and "case prev of None \<Rightarrow> True | Some p \<Rightarrow> \<not> word_or_dot p"
  shows "shift_loop dc dr False prev (concat (map piece_text ps)) =
    concat (map (piece_shifted dc dr) ps)"
  using assms
proof (induction ps arbitrary: prev)
  case Nil
  then show ?case by simp
next
  case (Cons a ps)
  obtain ac col ar row sep where a: "a = (ac, col, ar, row, sep)" by (cases a) auto
  from Cons.prems a have ok: "in_grid col row" "operator_char sep" by auto
  let ?rest = "sep # concat (map piece_text ps)"
  from ok Cons.prems(2) obtain p where
    "shift_loop dc dr False prev (cell_text ac col ar row @ ?rest) =
       shifted_cell_text dc dr ac col ar row @ shift_loop dc dr False (Some p) ?rest"
    using shift_loop_cell_text [of col row ?rest prev dc dr ac ar] by auto
  moreover have "shift_loop dc dr False (Some sep) (concat (map piece_text ps)) =
      concat (map (piece_shifted dc dr) ps)"
    using Cons.prems ok(2) by (intro Cons.IH) (auto simp: word_or_dot_def operator_char_simps)
  ultimately show ?case
    using ok(2) by (simp add: a shift_loop_operator del: shift_loop.simps)
qed

section \<open>Properties\<close>

text \<open>
  Printing a cell address and parsing it back gives the same coordinates, for every
  column from 1 on and every non-negative row; and every text the parser accepts has such
  coordinates, so re-printing a parsed address and parsing it again changes nothing.
\<close>

theorem addr_roundtrip:
  "(1 \<le> col \<and> 0 \<le> row \<longrightarrow> parse_addr (format_addr col row) = Inr (col, row)) \<and>
   (parse_addr a = Inr (c, r) \<longrightarrow> 1 \<le> c \<and> 0 \<le> r \<and> parse_addr (format_addr c r) = Inr (c, r))"
  using parse_format_addr parse_addr_bounds [of a c r] by (auto simp: max_def)

theorem addr_roundtrip_witness:
  "parse_addr (format_addr 28 7) = Inr (28, 7) \<and> parse_addr ''$aB$07'' = Inr (28, 7) \<and>
   parse_addr (format_addr 28 7) = Inr (28, 7)"
proof -
  have a: "parse_addr ''$aB$07'' = Inr (28, 7)" by code_simp
  show ?thesis using addr_roundtrip [of 28 7 "''$aB$07''" 28 7] a by simp
qed

text \<open>
  Column letters and column indices are inverse to each other: printing an index from 1
  on and reading it back is the identity, and a non-empty text of ASCII letters is read as
  an index that prints as its upper-case form.
\<close>

theorem column_letters_bijective:
  "(1 \<le> n \<longrightarrow> col_to_index (index_to_col n) = n) \<and>
   (s \<noteq> [] \<and> list_all re_letter s \<longrightarrow>
      1 \<le> col_to_index s \<and> index_to_col (col_to_index s) = py_upper s)"
  using col_to_index_letters [of s] by (auto simp: list_all_iff)

theorem column_letters_bijective_witness:
  "col_to_index (index_to_col 16384) = 16384 \<and> index_to_col (col_to_index ''xfD'') = ''XFD''"
proof -
  have l: "list_all re_letter ''xfD''" and u: "py_upper ''xfD'' = ''XFD''" by code_simp+
  show ?thesis using column_letters_bijective [of 16384 "''xfD''"] l u by simp
qed

text \<open>
  \<open>is_derived_addr\<close> is true exactly for the printed form of its coordinates, for every
  non-negative row and every address that holds no superscript digit.
\<close>

theorem is_derived_addr_exact:
  assumes "0 \<le> row" and "\<forall>c \<in> set addr. code c \<notin> {178, 179, 185}"
  shows "is_derived_addr addr col row = Inr (addr = format_addr col row)"
  using assms by (rule is_derived_addr_unfold)

theorem is_derived_addr_exact_witness:
  "is_derived_addr ''AB7'' 28 7 = Inr (''AB7'' = format_addr 28 7) \<and>
   is_derived_addr ''AB07'' 28 7 = Inr (''AB07'' = format_addr 28 7)"
proof -
  have h: "\<forall>c \<in> set ''AB7''. code c \<notin> {178, 179, 185}"
    "\<forall>c \<in> set ''AB07''. code c \<notin> {178, 179, 185}" by code_simp+
  show ?thesis
    using is_derived_addr_exact [OF _ h(1), of 7 28] is_derived_addr_exact [OF _ h(2), of 7 28]
    by simp
qed

text \<open>
  Shifting a shared formula moves exactly its relative coordinates: a text of in-grid
  references, each with its own dollar signs and followed by an operator character, is
  rewritten reference by reference, absolute parts unchanged, relative parts moved by the
  offset and clamped at 1, and every operator kept.
\<close>

theorem shift_formula_references:
  assumes "list_all piece_ok ps"
    and "to_col \<noteq> from_col \<or> to_row \<noteq> from_row"
  shows "shift_formula (concat (map piece_text ps)) from_col from_row to_col to_row =
    concat (map (piece_shifted (to_col - from_col) (to_row - from_row)) ps)"
  using assms shift_loop_pieces [of ps None] by (auto simp: shift_formula_def Let_def)

theorem shift_formula_references_witness:
  "shift_formula (concat (map piece_text
       [(False, 1, False, 1, CHR ''+''), (True, 2, False, 3, CHR ''*''),
        (False, 27, True, 10, CHR '')'')])) 3 3 4 5 = ''B3+$B5*AB$10)''"
proof -
  have ok: "list_all piece_ok [(False, 1, False, 1, CHR ''+''), (True, 2, False, 3, CHR ''*''),
      (False, 27, True, 10, CHR '')'')]" by code_simp
  have ev: "concat (map (piece_shifted (4 - 3) (5 - 3))
      [(False, 1, False, 1, CHR ''+''), (True, 2, False, 3, CHR ''*''),
        (False, 27, True, 10, CHR '')'')]) = ''B3+$B5*AB$10)''" by code_simp
  have moved: "(4::int) \<noteq> 3 \<or> (5::int) \<noteq> 3" by simp
  from shift_formula_references [OF ok moved] ev show ?thesis by (rule trans)
qed

end
