(* ===== verification/Sheet_Usage.thy ===== *)
theory Sheet_Usage
  imports A1_Address
begin

text \<open>
  The index of present cells of \<open>src/finance_context/formulas/csr.py\<close>: sheet-qualified
  references, the bounds of a range text, and \<open>SheetUsage\<close>, which keeps the cells of a
  sheet as sorted row runs per column. The lemmas show that the merged runs hold exactly
  the rows that were put in, that the binary search, the counting and the listing over
  runs agree with the set of cells they stand for, and that an index built by
  \<open>sheet_usage\<close> satisfies the invariant these facts need.
\<close>

section \<open>Sheet-qualified references\<close>

definition split_sheet_ref :: "string \<Rightarrow> (string \<times> string) result" where
  "split_sheet_ref target =
     (if take 1 target = [CHR 0x27] then
        (case find_sub [CHR 0x27, CHR ''!''] target of
           None \<Rightarrow> Inl (ValueError target)
         | Some end \<Rightarrow> Inr (drop 1 (take end target), drop (end + 2) target))
      else
        (case split1 CHR ''!'' target of
           None \<Rightarrow> Inl (ValueError target)
         | Some (sheet, body) \<Rightarrow> Inr (sheet, body)))"

text \<open>\<open>_COLS\<close> and \<open>_ROWS\<close>: two column names, or two row numbers, around a colon.\<close>

definition re_cols :: "string \<Rightarrow> (string \<times> string) option" where
  "re_cols body =
     (case split1 CHR '':'' body of
        None \<Rightarrow> None
      | Some (a, b) \<Rightarrow>
          (let a1 = snd (drop_dollar a); b1 = snd (drop_dollar b)
           in if a1 \<noteq> [] \<and> b1 \<noteq> [] \<and> list_all re_letter a1 \<and> list_all re_letter b1
              then Some (a1, b1) else None))"

definition re_rows :: "string \<Rightarrow> (string \<times> string) option" where
  "re_rows body =
     (case split1 CHR '':'' body of
        None \<Rightarrow> None
      | Some (a, b) \<Rightarrow>
          (let a1 = snd (drop_dollar a); b1 = snd (drop_dollar b)
           in if a1 \<noteq> [] \<and> b1 \<noteq> [] \<and> list_all re_digit a1 \<and> list_all re_digit b1
              then Some (a1, b1) else None))"

text \<open>The full match of a cell, a colon and a cell.\<close>

definition re_cell_pair :: "string \<Rightarrow> (string \<times> string \<times> string \<times> string) option" where
  "re_cell_pair body =
     (case re_cell body of
        Some (l1, d1, c # rest) \<Rightarrow>
          if c = CHR '':'' then
            (case re_cell rest of Some (l2, d2, []) \<Rightarrow> Some (l1, d1, l2, d2) | _ \<Rightarrow> None)
          else None
      | _ \<Rightarrow> None)"

definition rectangle :: "string \<Rightarrow> (int \<times> int \<times> int \<times> int) option" where
  "rectangle body =
     (case re_cell_pair body of
        Some (l1, d1, l2, d2) \<Rightarrow>
          (let c1 = col_to_index l1; r1 = int (int_of_digits d1);
               c2 = col_to_index l2; r2 = int (int_of_digits d2)
           in Some (min c1 c2, max c1 c2, min r1 r2, max r1 r2))
      | None \<Rightarrow>
          (case re_cols body of
             Some (a, b) \<Rightarrow>
               (let c1 = col_to_index a; c2 = col_to_index b
                in Some (min c1 c2, max c1 c2, 1, MAX_ROW))
           | None \<Rightarrow>
               (case re_rows body of
                  Some (a, b) \<Rightarrow>
                    (let r1 = int (int_of_digits a); r2 = int (int_of_digits b)
                     in Some (1, MAX_COL, min r1 r2, max r1 r2))
                | None \<Rightarrow> None)))"

definition node_coord :: "string \<Rightarrow> (string \<times> int \<times> int) option" where
  "node_coord node =
     (case split_sheet_ref node of
        Inl _ \<Rightarrow> None
      | Inr (sheet, body) \<Rightarrow>
          (case re_cell body of
             Some (letters, digits, []) \<Rightarrow>
               Some (sheet, col_to_index letters, int (int_of_digits digits))
           | _ \<Rightarrow> None))"

section \<open>Row runs\<close>

type_synonym span = "int \<times> int"

fun merge_from :: "span \<Rightarrow> span list \<Rightarrow> span list" where
  "merge_from prev [] = [prev]"
| "merge_from (prev_start, prev_end) ((start, end) # items) =
     (if start \<le> prev_end + 1 then merge_from (prev_start, max prev_end end) items
      else (prev_start, prev_end) # merge_from (start, end) items)"

definition merge_spans :: "span list \<Rightarrow> span list" where
  "merge_spans items = (case sort items of [] \<Rightarrow> [] | x # xs \<Rightarrow> merge_from x xs)"

definition span_has :: "span list \<Rightarrow> int \<Rightarrow> bool" where
  "span_has spans row =
     (if spans = [] then False
      else
        let index = int (bisect_right fst spans row) - 1 in
        if index < 0 then False
        else case spans ! nat index of (start, end) \<Rightarrow> start \<le> row \<and> row \<le> end)"

fun span_overlap :: "span list \<Rightarrow> int \<Rightarrow> int \<Rightarrow> int" where
  "span_overlap [] lo hi = 0"
| "span_overlap ((start, end) # spans) lo hi =
     (if end < lo then span_overlap spans lo hi
      else if start > hi then 0
      else (min end hi - max start lo + 1) + span_overlap spans lo hi)"

fun first_span_row :: "span list \<Rightarrow> int \<Rightarrow> int \<Rightarrow> int option" where
  "first_span_row [] lo hi = None"
| "first_span_row ((start, end) # spans) lo hi =
     (if end < lo then first_span_row spans lo hi
      else if start > hi then None
      else Some (max start lo))"

section \<open>The usage index\<close>

record SheetUsage =
  rows_by_col :: "(string \<times> (int \<times> span list) list) list"
  canonical :: "(string \<times> string) list"

definition sheet_name :: "SheetUsage \<Rightarrow> string \<Rightarrow> string" where
  "sheet_name usage sheet = dict_get (canonical usage) (casefold sheet) sheet"

definition present_cell_count :: "SheetUsage \<Rightarrow> int" where
  "present_cell_count usage =
     sum_list (map (\<lambda>(start, end). end - start + 1)
       (concat (map (\<lambda>(sheet, columns). concat (map snd columns)) (rows_by_col usage))))"

type_synonym by_col = "(string \<times> (int \<times> span list) list) list"

definition add_span ::
  "by_col \<times> (string \<times> string) list \<Rightarrow> string \<times> int \<times> int \<times> int \<Rightarrow> by_col \<times> (string \<times> string) list"
where
  "add_span st item =
     (case st of (by_col, canon) \<Rightarrow> case item of (sheet, col, start, end) \<Rightarrow>
        let run = (if start > end then (end, start) else (start, end)) in
        (dict_alter sheet [] (dict_alter col [] (\<lambda>runs. runs @ [run])) by_col,
         dict_setdefault (casefold sheet) sheet canon))"

definition sheet_usage_spans :: "(string \<times> int \<times> int \<times> int) list \<Rightarrow> SheetUsage" where
  "sheet_usage_spans spans =
     (case foldl add_span ([], []) spans of (by_col, canon) \<Rightarrow>
        \<lparr>rows_by_col = map (\<lambda>(sheet, cols). (sheet, map (\<lambda>(col, items). (col, merge_spans items)) cols))
           by_col,
         canonical = canon\<rparr>)"

definition sheet_usage :: "string list \<Rightarrow> SheetUsage" where
  "sheet_usage nodes =
     sheet_usage_spans
       (concat (map (\<lambda>node. case node_coord node of
          None \<Rightarrow> [] | Some (sheet, col, row) \<Rightarrow> [(sheet, col, row, row)]) nodes))"

definition area :: "int \<Rightarrow> int \<Rightarrow> int \<Rightarrow> int \<Rightarrow> int" where
  "area c1 c2 r1 r2 = (c2 - c1 + 1) * (r2 - r1 + 1)"

definition whole_axis :: "int \<Rightarrow> int \<Rightarrow> int \<Rightarrow> int \<Rightarrow> bool" where
  "whole_axis c1 c2 r1 r2 =
     (let whole_column = (r1 = 1 \<and> r2 = MAX_ROW); whole_row = (c1 = 1 \<and> c2 = MAX_COL)
      in whole_column \<or> whole_row)"

abbreviation usage_columns :: "SheetUsage \<Rightarrow> string \<Rightarrow> (int \<times> span list) list" where
  "usage_columns usage sheet \<equiv> dict_get (rows_by_col usage) sheet []"

definition present_count :: "string \<Rightarrow> int \<Rightarrow> int \<Rightarrow> int \<Rightarrow> int \<Rightarrow> SheetUsage \<Rightarrow> int" where
  "present_count sheet c1 c2 r1 r2 usage =
     (let columns = usage_columns usage (sheet_name usage sheet) in
      sum_list (map (\<lambda>(col, spans). span_overlap spans r1 r2)
        (filter (\<lambda>(col, spans). c1 \<le> col \<and> col \<le> c2) columns)))"

definition first_step ::
  "int \<Rightarrow> int \<Rightarrow> int \<Rightarrow> int \<Rightarrow> (int \<times> int) option \<Rightarrow> int \<times> span list \<Rightarrow> (int \<times> int) option" where
  "first_step c1 c2 r1 r2 best item =
     (case item of (col, spans) \<Rightarrow>
        if col < c1 \<or> col > c2 then best
        else case first_span_row spans r1 r2 of
          None \<Rightarrow> best
        | Some row \<Rightarrow>
            (case best of
               None \<Rightarrow> Some (row, col)
             | Some (brow, bcol) \<Rightarrow>
                 if row < brow \<or> (row = brow \<and> col < bcol) then Some (row, col) else best))"

definition first_present ::
  "string \<Rightarrow> int \<Rightarrow> int \<Rightarrow> int \<Rightarrow> int \<Rightarrow> SheetUsage \<Rightarrow> (int \<times> int) option" where
  "first_present sheet c1 c2 r1 r2 usage =
     foldl (first_step c1 c2 r1 r2) None (usage_columns usage (sheet_name usage sheet))"

definition span_rows :: "int \<Rightarrow> int \<Rightarrow> span list \<Rightarrow> int list" where
  "span_rows r1 r2 spans =
     concat (map (\<lambda>(start, end). [(if start > r1 then start else r1)..(if end < r2 then end else r2)])
       spans)"

definition present_pairs ::
  "string \<Rightarrow> int \<Rightarrow> int \<Rightarrow> int \<Rightarrow> int \<Rightarrow> SheetUsage \<Rightarrow> (int \<times> int) list" where
  "present_pairs sheet c1 c2 r1 r2 usage =
     sort (concat (map (\<lambda>(col, spans). if col < c1 \<or> col > c2 then []
                          else map (\<lambda>row. (row, col)) (span_rows r1 r2 spans))
       (usage_columns usage (sheet_name usage sheet))))"

section \<open>What a list of runs stands for\<close>

definition spans_ok :: "span list \<Rightarrow> bool" where
  "spans_ok spans \<longleftrightarrow> list_all (\<lambda>s. fst s \<le> snd s) spans \<and>
     sorted_wrt (\<lambda>a b. snd a + 1 < fst b) spans"

definition rows_of :: "span list \<Rightarrow> int set" where
  "rows_of spans = (\<Union>s \<in> set spans. {fst s..snd s})"

lemma rows_of_simps [simp]:
  "rows_of [] = {}" "rows_of (s # spans) = {fst s..snd s} \<union> rows_of spans"
  by (auto simp: rows_of_def)

lemma spans_ok_Cons:
  "spans_ok (s # spans) \<longleftrightarrow> fst s \<le> snd s \<and> (\<forall>b \<in> set spans. snd s + 1 < fst b) \<and> spans_ok spans"
  by (auto simp: spans_ok_def)

lemma merge_from_ok:
  assumes "sorted (x # items)" and "\<forall>s \<in> set (x # items). fst s \<le> snd s"
  shows "spans_ok (merge_from x items) \<and> rows_of (merge_from x items) = rows_of (x # items) \<and>
    fst (hd (merge_from x items)) = fst x \<and> merge_from x items \<noteq> [] \<and>
    (\<forall>s \<in> set (merge_from x items). fst x \<le> fst s)"
  using assms
proof (induction x items rule: merge_from.induct)
  case (1 prev)
  then show ?case by (simp add: spans_ok_def)
next
  case (2 ps pe s e items)
  have le: "ps \<le> s" using "2.prems"(1) by (auto simp: less_eq_prod_def)
  show ?case
  proof (cases "s \<le> pe + 1")
    case True
    have "sorted ((ps, max pe e) # items)"
    proof -
      have "(ps, max pe e) \<le> y" if "y \<in> set items" for y
      proof (cases "ps < fst y")
        case False
        have "(ps, pe) \<le> y" "(s, e) \<le> y" using "2.prems"(1) that by auto
        with False le show ?thesis by (auto simp: less_eq_prod_def)
      qed (simp add: less_eq_prod_def)
      with "2.prems"(1) show ?thesis by simp
    qed
    moreover have "\<forall>q \<in> set ((ps, max pe e) # items). fst q \<le> snd q" using "2.prems"(2) by auto
    ultimately have IH: "spans_ok (merge_from (ps, max pe e) items)"
      "rows_of (merge_from (ps, max pe e) items) = rows_of ((ps, max pe e) # items)"
      "fst (hd (merge_from (ps, max pe e) items)) = ps" "merge_from (ps, max pe e) items \<noteq> []"
      "\<forall>q \<in> set (merge_from (ps, max pe e) items). ps \<le> fst q"
      using "2.IH"(1) [OF True] by auto
    have "{ps..max pe e} = {ps..pe} \<union> {s..e}" using True le "2.prems"(2) by auto
    with IH True show ?thesis by auto
  next
    case False
    have "sorted ((s, e) # items)" "\<forall>q \<in> set ((s, e) # items). fst q \<le> snd q"
      using "2.prems" by auto
    with "2.IH"(2) [OF False] have IH: "spans_ok (merge_from (s, e) items)"
      "rows_of (merge_from (s, e) items) = rows_of ((s, e) # items)"
      "\<forall>q \<in> set (merge_from (s, e) items). s \<le> fst q" by auto
    then have "spans_ok ((ps, pe) # merge_from (s, e) items)"
      using False "2.prems"(2) by (auto simp: spans_ok_Cons)
    with IH False le show ?thesis by auto
  qed
qed

lemma merge_spans_ok:
  assumes "\<forall>s \<in> set items. fst s \<le> snd s"
  shows "spans_ok (merge_spans items) \<and> rows_of (merge_spans items) = rows_of items"
proof (cases "sort items")
  case Nil
  then have "items = []" by (metis set_sort set_empty)
  then show ?thesis by (simp add: merge_spans_def spans_ok_def)
next
  case (Cons x xs)
  have "sorted (x # xs)" by (metis Cons sorted_sort)
  moreover have "set (x # xs) = set items" by (metis Cons set_sort)
  ultimately have "spans_ok (merge_from x xs) \<and> rows_of (merge_from x xs) = rows_of (x # xs)"
    using merge_from_ok [of x xs] assms by simp
  moreover have "rows_of (x # xs) = rows_of items"
    using \<open>set (x # xs) = set items\<close> by (simp only: rows_of_def)
  ultimately show ?thesis by (simp add: merge_spans_def Cons)
qed

lemma spans_ok_starts: "spans_ok spans \<Longrightarrow> sorted (map fst spans)"
proof (induction spans)
  case (Cons a spans)
  then show ?case by (fastforce simp: spans_ok_Cons)
qed simp

lemma spans_ok_nth:
  assumes "spans_ok spans" "i < length spans"
  shows "fst (spans ! i) \<le> snd (spans ! i)"
    and "\<And>j. j < i \<Longrightarrow> snd (spans ! j) + 1 < fst (spans ! i)"
  using assms by (auto simp: spans_ok_def list_all_length sorted_wrt_iff_nth_less)

lemma span_has_iff:
  assumes ok: "spans_ok spans"
  shows "span_has spans row \<longleftrightarrow> row \<in> rows_of spans"
proof (cases "spans = []")
  case True
  then show ?thesis by (simp add: span_has_def)
next
  case False
  let ?p = "bisect_right fst spans row"
  note spec = bisect_right_spec [OF spans_ok_starts [OF ok], where x = row]
  have mem: "row \<in> rows_of spans \<longleftrightarrow>
      (\<exists>j < length spans. fst (spans ! j) \<le> row \<and> row \<le> snd (spans ! j))"
    by (auto simp: rows_of_def in_set_conv_nth Bex_def) force+
  show ?thesis
  proof (cases "?p = 0")
    case True
    have "\<not> fst (spans ! j) \<le> row" if "j < length spans" for j
      using spec(3) [of j] True that by simp
    with mem True False show ?thesis by (auto simp: span_has_def Let_def)
  next
    case pos: False
    then have k: "?p - 1 < length spans" using spec(1) False by linarith
    have "row \<in> rows_of spans \<longleftrightarrow> fst (spans ! (?p - 1)) \<le> row \<and> row \<le> snd (spans ! (?p - 1))"
    proof
      assume "row \<in> rows_of spans"
      with mem obtain j where j: "j < length spans" "fst (spans ! j) \<le> row" "row \<le> snd (spans ! j)"
        by blast
      have "j < ?p" using spec(3) [of j] j by (meson not_less leD)
      moreover have "\<not> j < ?p - 1"
      proof
        assume "j < ?p - 1"
        from spans_ok_nth(2) [OF ok k this] have "snd (spans ! j) + 1 < fst (spans ! (?p - 1))" .
        moreover have "fst (spans ! (?p - 1)) \<le> row" using spec(2) [of "?p - 1"] pos by simp
        ultimately show False using j(3) by simp
      qed
      ultimately have "j = ?p - 1" by simp
      with j show "fst (spans ! (?p - 1)) \<le> row \<and> row \<le> snd (spans ! (?p - 1))" by simp
    next
      assume "fst (spans ! (?p - 1)) \<le> row \<and> row \<le> snd (spans ! (?p - 1))"
      with mem k show "row \<in> rows_of spans" by blast
    qed
    moreover have "nat (int ?p - 1) = ?p - 1" by linarith
    ultimately show ?thesis
      using False pos by (simp add: span_has_def case_prod_unfold Let_def)
  qed
qed

lemma span_rows_Nil [simp]: "span_rows lo hi [] = []"
  by (simp add: span_rows_def)

lemma span_rows_Cons [simp]:
  "span_rows lo hi (s # spans) = [max (fst s) lo..min (snd s) hi] @ span_rows lo hi spans"
  by (cases s) (auto simp: span_rows_def max_def min_def)

lemma set_span_rows: "set (span_rows lo hi spans) = rows_of spans \<inter> {lo..hi}"
  by (induction spans) (simp_all add: Int_Un_distrib2 Int_atLeastAtMost)

lemma distinct_span_rows: "spans_ok spans \<Longrightarrow> distinct (span_rows lo hi spans)"
proof (induction spans)
  case (Cons s spans)
  then have ok: "spans_ok spans" and gap: "\<forall>b \<in> set spans. snd s + 1 < fst b"
    by (auto simp: spans_ok_Cons)
  have "{max (fst s) lo..min (snd s) hi} \<inter> (rows_of spans \<inter> {lo..hi}) = {}"
    using gap by (fastforce simp: rows_of_def)
  with Cons.IH [OF ok] show ?case by (simp add: set_span_rows)
qed simp

lemma span_rows_above: "\<forall>b \<in> set spans. hi < fst b \<Longrightarrow> span_rows lo hi spans = []"
  by (induction spans) auto

lemma span_overlap_length:
  "spans_ok spans \<Longrightarrow> lo \<le> hi \<Longrightarrow> span_overlap spans lo hi = int (length (span_rows lo hi spans))"
proof (induction spans lo hi rule: span_overlap.induct)
  case (2 s e spans lo hi)
  then have ok: "spans_ok spans" "s \<le> e" "\<forall>b \<in> set spans. e + 1 < fst b"
    by (auto simp: spans_ok_Cons)
  have empty: "span_rows lo hi spans = []" if "s > hi"
    using ok that by (intro span_rows_above) fastforce
  from 2 ok empty show ?case by auto
qed simp

lemma first_span_row_spec:
  "spans_ok spans \<Longrightarrow> lo \<le> hi \<Longrightarrow>
   (case first_span_row spans lo hi of
      None \<Rightarrow> rows_of spans \<inter> {lo..hi} = {}
    | Some r \<Rightarrow> r \<in> rows_of spans \<inter> {lo..hi} \<and> (\<forall>q \<in> rows_of spans \<inter> {lo..hi}. r \<le> q))"
proof (induction spans lo hi rule: first_span_row.induct)
  case (2 s e spans lo hi)
  then have ok: "spans_ok spans" "s \<le> e" "\<forall>b \<in> set spans. e + 1 < fst b"
    by (auto simp: spans_ok_Cons)
  have above: "e < q" if "q \<in> rows_of spans" for q using that ok(3) by (fastforce simp: rows_of_def)
  show ?case
  proof (cases "e < lo")
    case True
    with 2 ok show ?thesis by (auto split: option.splits)
  next
    case False
    with ok(2) "2.prems"(2) above show ?thesis by (fastforce simp: not_less)
  qed
qed simp

section \<open>The usage index and the set of cells\<close>

definition columns_ok :: "(int \<times> span list) list \<Rightarrow> bool" where
  "columns_ok cols \<longleftrightarrow> distinct (map fst cols) \<and> list_all (\<lambda>(col, spans). spans_ok spans) cols"

definition canonical_ok :: "(string \<times> string) list \<Rightarrow> bool" where
  "canonical_ok canon \<longleftrightarrow> distinct (map fst canon) \<and> list_all (\<lambda>(folded, name). casefold name = folded) canon"

definition usage_ok :: "SheetUsage \<Rightarrow> bool" where
  "usage_ok usage \<longleftrightarrow> distinct (map fst (rows_by_col usage)) \<and>
     list_all (\<lambda>(sheet, cols). columns_ok cols) (rows_by_col usage) \<and> canonical_ok (canonical usage)"

text \<open>The present cells of a sheet, as (row, column) pairs.\<close>

definition column_cells :: "(int \<times> span list) list \<Rightarrow> (int \<times> int) set" where
  "column_cells cols = {(row, col). row \<in> rows_of (dict_get cols col [])}"

definition cells_of :: "SheetUsage \<Rightarrow> string \<Rightarrow> (int \<times> int) set" where
  "cells_of usage sheet = column_cells (usage_columns usage sheet)"

definition in_rect :: "int \<Rightarrow> int \<Rightarrow> int \<Rightarrow> int \<Rightarrow> int \<times> int \<Rightarrow> bool" where
  "in_rect c1 c2 r1 r2 cell \<longleftrightarrow> (case cell of (row, col) \<Rightarrow>
     c1 \<le> col \<and> col \<le> c2 \<and> r1 \<le> row \<and> row \<le> r2)"

lemma columns_ok_usage: "usage_ok usage \<Longrightarrow> columns_ok (usage_columns usage sheet)"
  by (auto simp: usage_ok_def dict_get_def columns_ok_def list_all_iff
      dest!: map_of_SomeD split: option.splits)

lemma columns_ok_Cons:
  "columns_ok ((col, spans) # cols) \<longleftrightarrow> spans_ok spans \<and> col \<notin> fst ` set cols \<and> columns_ok cols"
  by (auto simp: columns_ok_def)

lemma column_cells_Nil [simp]: "column_cells [] = {}"
  by (simp add: column_cells_def dict_get_def)

lemma column_cells_Cons:
  assumes "col \<notin> fst ` set cols"
  shows "column_cells ((col, spans) # cols) = (\<lambda>r. (r, col)) ` rows_of spans \<union> column_cells cols"
proof -
  have "map_of cols col = None" using assms by (simp add: map_of_eq_None_iff)
  then show ?thesis by (auto simp: column_cells_def dict_get_def)
qed

lemma column_cells_keys: "(row, col) \<in> column_cells cols \<Longrightarrow> col \<in> fst ` set cols"
  by (force simp: column_cells_def dict_get_def split: option.splits dest: map_of_SomeD)

definition raw_pairs :: "int \<Rightarrow> int \<Rightarrow> int \<Rightarrow> int \<Rightarrow> (int \<times> span list) list \<Rightarrow> (int \<times> int) list" where
  "raw_pairs c1 c2 r1 r2 cols =
     concat (map (\<lambda>(col, spans). if col < c1 \<or> col > c2 then []
                    else map (\<lambda>row. (row, col)) (span_rows r1 r2 spans)) cols)"

lemma raw_pairs_simps [simp]:
  "raw_pairs c1 c2 r1 r2 [] = []"
  "raw_pairs c1 c2 r1 r2 ((col, spans) # cols) =
     (if col < c1 \<or> col > c2 then [] else map (\<lambda>row. (row, col)) (span_rows r1 r2 spans))
       @ raw_pairs c1 c2 r1 r2 cols"
  by (simp_all add: raw_pairs_def)

lemma set_raw_pairs:
  "columns_ok cols \<Longrightarrow> set (raw_pairs c1 c2 r1 r2 cols) = {p \<in> column_cells cols. in_rect c1 c2 r1 r2 p}"
proof (induction cols)
  case (Cons a cols)
  obtain col spans where a: "a = (col, spans)" by (cases a)
  from Cons.prems a have ok: "col \<notin> fst ` set cols" "columns_ok cols"
    by (auto simp: columns_ok_Cons)
  have "set (if col < c1 \<or> col > c2 then [] else map (\<lambda>row. (row, col)) (span_rows r1 r2 spans)) =
      {p \<in> (\<lambda>r. (r, col)) ` rows_of spans. in_rect c1 c2 r1 r2 p}"
    by (auto simp: set_span_rows in_rect_def)
  with Cons.IH [OF ok(2)] show ?case
    unfolding a raw_pairs_simps set_append column_cells_Cons [OF ok(1)] by blast
qed simp

lemma distinct_raw_pairs: "columns_ok cols \<Longrightarrow> distinct (raw_pairs c1 c2 r1 r2 cols)"
proof (induction cols)
  case (Cons a cols)
  obtain col spans where a: "a = (col, spans)" by (cases a)
  from Cons.prems a have ok: "spans_ok spans" "col \<notin> fst ` set cols" "columns_ok cols"
    by (auto simp: columns_ok_Cons)
  have "(row, col) \<notin> set (raw_pairs c1 c2 r1 r2 cols)" for row
    using ok by (auto simp: set_raw_pairs dest: column_cells_keys)
  with Cons.IH [OF ok(3)] distinct_span_rows [OF ok(1)] show ?case
    by (auto simp: a distinct_map inj_on_def)
qed simp

lemma length_raw_pairs:
  "columns_ok cols \<Longrightarrow> r1 \<le> r2 \<Longrightarrow> int (length (raw_pairs c1 c2 r1 r2 cols)) =
     sum_list (map (\<lambda>(col, spans). span_overlap spans r1 r2)
       (filter (\<lambda>(col, spans). c1 \<le> col \<and> col \<le> c2) cols))"
  by (induction cols) (auto simp: columns_ok_Cons span_overlap_length not_less split: if_splits)

lemma present_pairs_raw:
  "present_pairs sheet c1 c2 r1 r2 usage =
     sort (raw_pairs c1 c2 r1 r2 (usage_columns usage (sheet_name usage sheet)))"
  by (simp add: present_pairs_def raw_pairs_def)

lemma first_step_spec:
  assumes "spans_ok spans" "r1 \<le> r2"
    and new: "new = (if c1 \<le> col \<and> col \<le> c2 then (\<lambda>r. (r, col)) ` (rows_of spans \<inter> {r1..r2}) else {})"
  shows "case first_step c1 c2 r1 r2 best (col, spans) of
      None \<Rightarrow> best = None \<and> new = {}
    | Some p \<Rightarrow> p \<in> set_option best \<union> new \<and> (\<forall>q \<in> set_option best \<union> new. p \<le> q)"
proof (cases "c1 \<le> col \<and> col \<le> c2")
  case False
  then show ?thesis by (auto simp: first_step_def new split: option.splits)
next
  case True
  note spec = first_span_row_spec [OF assms(1,2)]
  show ?thesis
  proof (cases "first_span_row spans r1 r2")
    case None
    with spec True show ?thesis by (auto simp: first_step_def new split: option.splits)
  next
    case (Some r)
    with spec have r: "r \<in> rows_of spans \<inter> {r1..r2}" "\<forall>q \<in> rows_of spans \<inter> {r1..r2}. r \<le> q" by auto
    have le: "\<forall>q \<in> new. (r, col) \<le> q" using r True by (auto simp: new less_eq_prod_def)
    have mem: "(r, col) \<in> new" using r True by (auto simp: new)
    show ?thesis
    proof (cases best)
      case None
      with Some True le mem show ?thesis by (simp add: first_step_def)
    next
      case (Some b)
      obtain brow bcol where b: "b = (brow, bcol)" by (cases b)
      have lt: "(r < brow \<or> (r = brow \<and> col < bcol)) \<longleftrightarrow> (r, col) < b"
        by (auto simp: b less_prod_def)
      have step: "first_step c1 c2 r1 r2 best (col, spans) =
          (if (r, col) < b then Some (r, col) else Some b)"
        using True Some b \<open>first_span_row spans r1 r2 = Some r\<close>
        by (auto simp: first_step_def less_prod_def)
      show ?thesis
      proof (cases "(r, col) < b")
        case True
        with step le mem Some show ?thesis by (auto intro: less_imp_le)
      next
        case False
        then have "b \<le> (r, col)" by (simp add: not_less)
        with le have "\<forall>q \<in> new. b \<le> q" by (meson order_trans)
        with step False Some show ?thesis by simp
      qed
    qed
  qed
qed

lemma foldl_first_step:
  assumes "columns_ok cols" "r1 \<le> r2"
  shows "case foldl (first_step c1 c2 r1 r2) best cols of
      None \<Rightarrow> best = None \<and> {p \<in> column_cells cols. in_rect c1 c2 r1 r2 p} = {}
    | Some p \<Rightarrow> p \<in> set_option best \<union> {p \<in> column_cells cols. in_rect c1 c2 r1 r2 p} \<and>
        (\<forall>q \<in> set_option best \<union> {p \<in> column_cells cols. in_rect c1 c2 r1 r2 p}. p \<le> q)"
  using assms(1)
proof (induction cols arbitrary: best)
  case Nil
  then show ?case by (auto split: option.splits)
next
  case (Cons a cols)
  obtain col spans where a: "a = (col, spans)" by (cases a)
  from Cons.prems a have ok: "spans_ok spans" "col \<notin> fst ` set cols" "columns_ok cols"
    by (auto simp: columns_ok_Cons)
  define new where "new = (if c1 \<le> col \<and> col \<le> c2
    then (\<lambda>r. (r, col)) ` (rows_of spans \<inter> {r1..r2}) else {})"
  define old where "old = {p \<in> column_cells cols. in_rect c1 c2 r1 r2 p}"
  have split: "{p \<in> column_cells (a # cols). in_rect c1 c2 r1 r2 p} = new \<union> old"
    by (auto simp: a column_cells_Cons [OF ok(2)] new_def old_def in_rect_def)
  let ?b = "first_step c1 c2 r1 r2 best (col, spans)"
  note one = first_step_spec [OF ok(1) assms(2) new_def, of best]
  note rest = Cons.IH [OF ok(3), of ?b, folded old_def]
  have fold: "foldl (first_step c1 c2 r1 r2) best (a # cols) = foldl (first_step c1 c2 r1 r2) ?b cols"
    by (simp add: a)
  show ?case
  proof (cases ?b)
    case None
    with one have "best = None" "new = {}" by simp_all
    with rest None show ?thesis
      unfolding fold split by (cases "foldl (first_step c1 c2 r1 r2) ?b cols") simp_all
  next
    case (Some b)
    with one have b: "b \<in> set_option best \<union> new" "\<forall>q \<in> set_option best \<union> new. b \<le> q" by auto
    from rest Some obtain p where p: "foldl (first_step c1 c2 r1 r2) ?b cols = Some p"
      "p \<in> insert b old" "\<forall>q \<in> insert b old. p \<le> q"
      by (auto split: option.splits)
    have "p \<le> b" using p(3) by simp
    then have "\<forall>q \<in> set_option best \<union> new. p \<le> q" using b(2) order_trans by blast
    with p b(1) show ?thesis unfolding fold split p(1) by auto
  qed
qed

lemma present_pairs_facts:
  assumes "usage_ok usage"
  shows "sorted (present_pairs sheet c1 c2 r1 r2 usage)"
    and "distinct (present_pairs sheet c1 c2 r1 r2 usage)"
    and "set (present_pairs sheet c1 c2 r1 r2 usage) =
      {p \<in> cells_of usage (sheet_name usage sheet). in_rect c1 c2 r1 r2 p}"
  using columns_ok_usage [OF assms]
  by (simp_all add: present_pairs_raw distinct_raw_pairs set_raw_pairs cells_of_def)

lemma present_count_length:
  assumes "usage_ok usage" "r1 \<le> r2"
  shows "present_count sheet c1 c2 r1 r2 usage = int (length (present_pairs sheet c1 c2 r1 r2 usage))"
  using length_raw_pairs [OF columns_ok_usage [OF assms(1)] assms(2)]
  by (simp add: present_pairs_raw present_count_def Let_def)

lemma first_present_hd:
  assumes "usage_ok usage" "r1 \<le> r2"
  shows "first_present sheet c1 c2 r1 r2 usage =
    (case present_pairs sheet c1 c2 r1 r2 usage of [] \<Rightarrow> None | p # _ \<Rightarrow> Some p)"
proof -
  let ?S = "{p \<in> cells_of usage (sheet_name usage sheet). in_rect c1 c2 r1 r2 p}"
  let ?F = "first_present sheet c1 c2 r1 r2 usage"
  note facts = present_pairs_facts [OF assms(1), of sheet c1 c2 r1 r2]
  have spec: "case ?F of None \<Rightarrow> ?S = {} | Some p \<Rightarrow> p \<in> ?S \<and> (\<forall>q \<in> ?S. p \<le> q)"
    using foldl_first_step [OF columns_ok_usage [OF assms(1), of "sheet_name usage sheet"] assms(2),
        where best = None and ?c1.0 = c1 and ?c2.0 = c2]
    by (simp only: first_present_def cells_of_def option.set Un_empty_left simp_thms)
  show ?thesis
  proof (cases "present_pairs sheet c1 c2 r1 r2 usage")
    case Nil
    with facts(3) have "?S = {}" by simp
    with spec have "?F = None" by (cases ?F) auto
    with Nil show ?thesis by simp
  next
    case (Cons p ps)
    with facts have p: "p \<in> ?S" "\<forall>q \<in> ?S. p \<le> q" by auto
    have "?F \<noteq> None"
    proof
      assume "?F = None"
      with spec have "?S = {}" by simp
      with p(1) show False by blast
    qed
    then obtain q where q: "?F = Some q" by blast
    with spec have "q \<in> ?S" "\<forall>x \<in> ?S. q \<le> x" by simp_all
    with p q have "?F = Some p" by (metis order_antisym)
    with Cons show ?thesis by simp
  qed
qed

section \<open>Building the index\<close>

definition runs_at :: "by_col \<Rightarrow> string \<Rightarrow> int \<Rightarrow> span list" where
  "runs_at bc sheet col = dict_get (dict_get bc sheet []) col []"

definition item_run :: "string \<times> int \<times> int \<times> int \<Rightarrow> span" where
  "item_run item = (case item of (sheet, col, start, end) \<Rightarrow> (min start end, max start end))"

definition item_at :: "string \<Rightarrow> int \<Rightarrow> string \<times> int \<times> int \<times> int \<Rightarrow> bool" where
  "item_at sheet col item \<longleftrightarrow> fst item = sheet \<and> fst (snd item) = col"

lemma dict_get_alter:
  "dict_get (dict_alter k dflt f d) k' e = (if k' = k then f (dict_get d k dflt) else dict_get d k' e)"
  by (simp add: dict_get_def)

lemma runs_at_add_span:
  "runs_at (fst (add_span (bc, canon) item)) sheet col =
     runs_at bc sheet col @ (if item_at sheet col item then [item_run item] else [])"
proof -
  obtain s c a b where item: "item = (s, c, a, b)" by (cases item) auto
  have "(if a > b then (b, a) else (a, b)) = (min a b, max a b)" by (simp add: min_def max_def)
  then show ?thesis
    by (auto simp: add_span_def runs_at_def item item_at_def item_run_def dict_get_alter)
qed

definition by_col_distinct :: "by_col \<Rightarrow> bool" where
  "by_col_distinct bc \<longleftrightarrow> distinct (map fst bc) \<and> (\<forall>sheet. distinct (map fst (dict_get bc sheet [])))"

lemma by_col_distinct_add_span:
  "by_col_distinct bc \<Longrightarrow> by_col_distinct (fst (add_span (bc, canon) item))"
  by (cases item) (auto simp: add_span_def by_col_distinct_def dict_get_alter distinct_dict_alter)

lemma canonical_ok_add_span:
  assumes "canonical_ok canon"
  shows "canonical_ok (snd (add_span (bc, canon) item))"
  using assms
  by (cases item) (auto simp: add_span_def canonical_ok_def dict_setdefault_def map_of_eq_None_iff
      list_all_iff split: option.splits)

lemma canonical_keys_add_span:
  "fst ` set (snd (add_span (bc, canon) item)) = insert (casefold (fst item)) (fst ` set canon)"
  by (cases item) (force simp: add_span_def dict_setdefault_def split: option.splits dest: map_of_SomeD)

lemma foldl_add_span:
  "case foldl add_span ([], []) items of (bc, canon) \<Rightarrow>
     by_col_distinct bc \<and> canonical_ok canon \<and>
     fst ` set canon = casefold ` fst ` set items \<and>
     (\<forall>sheet col. runs_at bc sheet col = map item_run (filter (item_at sheet col) items))"
proof (induction items rule: rev_induct)
  case Nil
  then show ?case
    by (simp add: by_col_distinct_def canonical_ok_def runs_at_def dict_get_def)
next
  case (snoc x items)
  obtain bc canon where st: "foldl add_span ([], []) items = (bc, canon)" by fastforce
  obtain bc' canon' where st': "add_span (bc, canon) x = (bc', canon')" by fastforce
  from snoc st have IH: "by_col_distinct bc" "canonical_ok canon"
    "fst ` set canon = casefold ` fst ` set items"
    "\<And>sheet col. runs_at bc sheet col = map item_run (filter (item_at sheet col) items)" by auto
  have "by_col_distinct bc'" using by_col_distinct_add_span [OF IH(1), of canon x] st' by simp
  moreover have "canonical_ok canon'" using canonical_ok_add_span [OF IH(2), of bc x] st' by simp
  moreover have "fst ` set canon' = casefold ` fst ` set (items @ [x])"
    using canonical_keys_add_span [of bc canon x] st' IH(3) by simp
  moreover have "runs_at bc' sheet col = map item_run (filter (item_at sheet col) (items @ [x]))"
    for sheet col
    using runs_at_add_span [of bc canon x sheet col] st' IH(4) by simp
  ultimately show ?case using st st' by simp
qed

definition merge_cols :: "(int \<times> span list) list \<Rightarrow> (int \<times> span list) list" where
  "merge_cols cols = map (\<lambda>(col, items). (col, merge_spans items)) cols"

lemma dict_get_merge_cols: "dict_get (merge_cols cols) col [] = merge_spans (dict_get cols col [])"
proof -
  have "map_of (map (\<lambda>(col, items). (col, merge_spans items)) cols) col =
      map_option merge_spans (map_of cols col)"
    by (simp add: map_of_map)
  then show ?thesis
    by (simp add: dict_get_def merge_cols_def merge_spans_def split: option.splits)
qed

lemma dict_get_merge_sheets:
  "dict_get (map (\<lambda>(sheet, cols). (sheet, merge_cols cols)) bc) sheet [] = merge_cols (dict_get bc sheet [])"
proof -
  have "map_of (map (\<lambda>(sheet, cols). (sheet, merge_cols cols)) bc) sheet =
      map_option merge_cols (map_of bc sheet)"
    by (simp add: map_of_map)
  then show ?thesis by (simp add: dict_get_def merge_cols_def split: option.splits)
qed

lemma sheet_usage_spans_unfold:
  "foldl add_span ([], []) items = (bc, canon) \<Longrightarrow>
   sheet_usage_spans items =
     \<lparr>rows_by_col = map (\<lambda>(sheet, cols). (sheet, merge_cols cols)) bc, canonical = canon\<rparr>"
  by (simp add: sheet_usage_spans_def merge_cols_def)

lemma item_run_ordered: "fst (item_run item) \<le> snd (item_run item)"
  by (cases item) (auto simp: item_run_def)

lemma runs_merge_ok:
  "spans_ok (merge_spans (map item_run items)) \<and>
   rows_of (merge_spans (map item_run items)) = rows_of (map item_run items)"
  by (rule merge_spans_ok) (auto simp: item_run_ordered)

lemma usage_ok_sheet_usage_spans: "usage_ok (sheet_usage_spans items)"
proof -
  obtain bc canon where st: "foldl add_span ([], []) items = (bc, canon)" by fastforce
  with foldl_add_span [of items] have F: "by_col_distinct bc" "canonical_ok canon"
    "\<And>sheet col. runs_at bc sheet col = map item_run (filter (item_at sheet col) items)" by auto
  have "columns_ok (merge_cols cols)" if "(sheet, cols) \<in> set bc" for sheet cols
  proof -
    have get: "dict_get bc sheet [] = cols"
      using F(1) that by (simp add: by_col_distinct_def dict_get_def)
    have d: "distinct (map fst cols)" using F(1) get by (auto simp: by_col_distinct_def)
    have "spans_ok (merge_spans spans)" if "(col, spans) \<in> set cols" for col spans
    proof -
      have "dict_get cols col [] = spans" using d that by (simp add: dict_get_def)
      then have "runs_at bc sheet col = spans" by (simp add: runs_at_def get)
      then show ?thesis using F(3) runs_merge_ok by metis
    qed
    with d show ?thesis
      by (auto simp: columns_ok_def merge_cols_def list_all_iff comp_def case_prod_beta)
  qed
  with F(1,2) show ?thesis
    by (auto simp: sheet_usage_spans_unfold [OF st] usage_ok_def list_all_iff by_col_distinct_def
        comp_def case_prod_beta)
qed

lemma cells_of_sheet_usage_spans:
  "cells_of (sheet_usage_spans items) sheet =
     {(row, col). \<exists>a b. (sheet, col, a, b) \<in> set items \<and> min a b \<le> row \<and> row \<le> max a b}"
proof -
  obtain bc canon where st: "foldl add_span ([], []) items = (bc, canon)" by fastforce
  with foldl_add_span [of items]
  have F: "\<And>sheet col. runs_at bc sheet col = map item_run (filter (item_at sheet col) items)" by auto
  have "rows_of (dict_get (usage_columns (sheet_usage_spans items) sheet) col []) =
      rows_of (map item_run (filter (item_at sheet col) items))" for col
    using runs_merge_ok F [of sheet col]
    by (simp add: sheet_usage_spans_unfold [OF st] dict_get_merge_sheets dict_get_merge_cols
        runs_at_def)
  moreover have "row \<in> rows_of (map item_run (filter (item_at sheet col) items)) \<longleftrightarrow>
      (\<exists>a b. (sheet, col, a, b) \<in> set items \<and> min a b \<le> row \<and> row \<le> max a b)" for row col
    by (force simp: rows_of_def item_at_def item_run_def)
  ultimately show ?thesis by (simp add: cells_of_def column_cells_def)
qed

lemma canonical_sheet_usage_spans:
  "map_of (canonical (sheet_usage_spans items)) f = None \<longleftrightarrow> f \<notin> casefold ` fst ` set items"
proof -
  obtain bc canon where st: "foldl add_span ([], []) items = (bc, canon)" by fastforce
  with foldl_add_span [of items] have "fst ` set canon = casefold ` fst ` set items" by auto
  then show ?thesis by (simp add: sheet_usage_spans_unfold [OF st] map_of_eq_None_iff)
qed

lemma casefold_sheet_name:
  assumes "usage_ok usage"
  shows "casefold (sheet_name usage sheet) = casefold sheet"
  using assms
  by (auto simp: usage_ok_def canonical_ok_def sheet_name_def dict_get_def list_all_iff
      dest!: map_of_SomeD split: option.splits)

lemma sheet_name_idem:
  assumes "usage_ok usage"
  shows "sheet_name usage (sheet_name usage sheet) = sheet_name usage sheet"
  using casefold_sheet_name [OF assms, of sheet]
  by (auto simp: sheet_name_def dict_get_def split: option.splits)

section \<open>Properties\<close>

text \<open>
  Merging runs loses and invents nothing: after sorting and merging any list of runs
  whose ends are in order, the binary search finds a row exactly when one of the runs
  holds it, and the merged runs are sorted with a gap of at least one row between them.
\<close>

theorem merge_spans_search:
  assumes "list_all (\<lambda>(start, end). start \<le> end) items"
  shows "(span_has (merge_spans items) row \<longleftrightarrow> (\<exists>(start, end) \<in> set items. start \<le> row \<and> row \<le> end)) \<and>
    sorted_wrt (\<lambda>a b. snd a + 1 < fst b) (merge_spans items)"
proof -
  have "\<forall>s \<in> set items. fst s \<le> snd s" using assms by (auto simp: list_all_iff)
  from merge_spans_ok [OF this] span_has_iff [of "merge_spans items" row] show ?thesis
    by (auto simp: rows_of_def spans_ok_def case_prod_beta)
qed

theorem merge_spans_search_witness:
  "merge_spans [(7, 9), (1, 2), (3, 4)] = [(1, 4), (7, 9)] \<and>
   (span_has (merge_spans [(7, 9), (1, 2), (3, 4)]) 3 \<longleftrightarrow>
      (\<exists>(start, end) \<in> set [(7::int, 9::int), (1, 2), (3, 4)]. start \<le> 3 \<and> 3 \<le> end))"
proof -
  have ok: "list_all (\<lambda>(start, end). start \<le> end) [(7::int, 9::int), (1, 2), (3, 4)]" by simp
  have "merge_spans [(7, 9), (1, 2), (3, 4)] = [(1, 4), (7, 9)]" by code_simp
  then show ?thesis using conjunct1 [OF merge_spans_search [OF ok, of 3]] by (rule conjI)
qed

text \<open>
  Over an index built from any list of runs, the listing of the present cells of a
  rectangle is sorted row by row, lists each cell once, and lists exactly the cells some
  run of the sheet's canonical name covers; the count is its length and the first present
  cell is its head. So counting and probing never need the list.
\<close>

theorem present_cells_agree:
  assumes "r1 \<le> r2"
  shows "let u = sheet_usage_spans items; P = present_pairs sheet c1 c2 r1 r2 u in
    sorted P \<and> distinct P \<and>
    set P = {(row, col). c1 \<le> col \<and> col \<le> c2 \<and> r1 \<le> row \<and> row \<le> r2 \<and>
      (\<exists>a b. (sheet_name u sheet, col, a, b) \<in> set items \<and> min a b \<le> row \<and> row \<le> max a b)} \<and>
    present_count sheet c1 c2 r1 r2 u = int (length P) \<and>
    first_present sheet c1 c2 r1 r2 u = (case P of [] \<Rightarrow> None | p # _ \<Rightarrow> Some p)"
proof -
  let ?u = "sheet_usage_spans items"
  note ok = usage_ok_sheet_usage_spans [of items]
  have "{p \<in> cells_of ?u (sheet_name ?u sheet). in_rect c1 c2 r1 r2 p} =
      {(row, col). c1 \<le> col \<and> col \<le> c2 \<and> r1 \<le> row \<and> row \<le> r2 \<and>
      (\<exists>a b. (sheet_name ?u sheet, col, a, b) \<in> set items \<and> min a b \<le> row \<and> row \<le> max a b)}"
    by (auto simp: cells_of_sheet_usage_spans in_rect_def)
  then show ?thesis
    using present_pairs_facts [OF ok, of sheet c1 c2 r1 r2]
      present_count_length [OF ok assms, of sheet c1 c2]
      first_present_hd [OF ok assms, of sheet c1 c2]
    by (simp only: Let_def simp_thms)
qed

theorem present_cells_agree_witness:
  "present_pairs ''data'' 1 5 1 1048576
     (sheet_usage_spans [(''Data'', 2, 3, 4), (''Data'', 1, 4, 4)]) = [(3, 2), (4, 1), (4, 2)] \<and>
   present_count ''data'' 1 5 1 1048576
     (sheet_usage_spans [(''Data'', 2, 3, 4), (''Data'', 1, 4, 4)]) = 3 \<and>
   first_present ''data'' 1 5 1 1048576
     (sheet_usage_spans [(''Data'', 2, 3, 4), (''Data'', 1, 4, 4)]) = Some (3, 2)"
proof -
  have "present_pairs ''data'' 1 5 1 1048576
     (sheet_usage_spans [(''Data'', 2, 3, 4), (''Data'', 1, 4, 4)]) = [(3, 2), (4, 1), (4, 2)]"
    by code_simp
  moreover have "(1::int) \<le> 1048576" by simp
  note present_cells_agree [OF this, of "[(''Data'', 2, 3, 4), (''Data'', 1, 4, 4)]" "''data''" 1 5,
      unfolded Let_def]
  ultimately show ?thesis by (simp only: list.case list.size of_nat_simps simp_thms)
qed

end
