(* ===== verification/Known_Nodes.thy ===== *)
theory Known_Nodes
  imports Sheet_Usage
begin

text \<open>
  The compile-time index of cells, \<open>src/finance_context/formulas/known.py\<close>, and the
  canonical node id of \<open>formulas/stage.py\<close>. The state of \<open>KnownNodes\<close> (the open run of
  each column, the closed runs, the finalized runs, the literal ids) is a record, and a
  membership test returns the state it leaves behind. The interface the rest of the
  compiler relies on is the locale \<open>node_members\<close>: a container of canonical ids. It is
  interpreted by the index and by the plain set that the index replaces.
\<close>

section \<open>Operations\<close>

definition node_text :: "string \<Rightarrow> int \<Rightarrow> int \<Rightarrow> string" where
  "node_text sheet col row = sheet @ CHR ''!'' # format_addr col row"

definition canonical_node_id :: "string \<Rightarrow> string \<Rightarrow> string" where
  "canonical_node_id sheet addr =
     (case parse_addr addr of
        Inl _ \<Rightarrow> sheet @ CHR ''!'' # addr
      | Inr (col, row) \<Rightarrow> sheet @ CHR ''!'' # format_addr col row)"

record KnownNodes =
  kn_open :: "((string \<times> int) \<times> span) list"
  kn_closed :: by_col
  kn_literals :: "string list"
  kn_rows :: by_col
  kn_ready :: bool

definition kn_empty :: KnownNodes where
  "kn_empty = \<lparr>kn_open = [], kn_closed = [], kn_literals = [], kn_rows = [], kn_ready = False\<rparr>"

text \<open>\<open>closed.setdefault(sheet, {}).setdefault(col, []).extend(runs)\<close>.\<close>

definition extend_runs :: "string \<Rightarrow> int \<Rightarrow> span list \<Rightarrow> by_col \<Rightarrow> by_col" where
  "extend_runs sheet col runs bc =
     dict_alter sheet [] (dict_alter col [] (\<lambda>old. old @ runs)) bc"

definition kn_touch :: "string \<Rightarrow> int \<Rightarrow> int \<Rightarrow> KnownNodes \<Rightarrow> KnownNodes" where
  "kn_touch sheet col row k =
     (let key = (sheet, col) in
      case map_of (kn_open k) key of
        Some (lo, hi) \<Rightarrow>
          if row \<le> hi + 1 \<and> row + 1 \<ge> lo then
            k\<lparr>kn_open := AList.update key
                (if row < lo then row else lo, if row > hi then row else hi) (kn_open k)\<rparr>
          else
            k\<lparr>kn_closed := extend_runs sheet col [(lo, hi)] (kn_closed k),
              kn_open := AList.update key (row, row) (kn_open k)\<rparr>
      | None \<Rightarrow> k\<lparr>kn_open := AList.update key (row, row) (kn_open k)\<rparr>)"

definition merge_all :: "by_col \<Rightarrow> by_col" where
  "merge_all bc =
     map (\<lambda>(sheet, columns). (sheet, map (\<lambda>(col, items). (col, merge_spans items)) columns)) bc"

definition kn_finalize :: "KnownNodes \<Rightarrow> KnownNodes" where
  "kn_finalize k =
     (if kn_ready k then k
      else
        let closed = foldl (\<lambda>bc ((sheet, col), run). extend_runs sheet col [run] bc)
                       (kn_closed k) (kn_open k)
        in k\<lparr>kn_open := [], kn_rows := merge_all closed, kn_closed := [], kn_ready := True\<rparr>)"

definition reopen_columns :: "string \<Rightarrow> by_col \<Rightarrow> (int \<times> span list) list \<Rightarrow> by_col" where
  "reopen_columns sheet bc columns =
     foldl (\<lambda>bc (col, spans). extend_runs sheet col spans bc) bc columns"

definition kn_reopen :: "KnownNodes \<Rightarrow> KnownNodes" where
  "kn_reopen k =
     k\<lparr>kn_closed := foldl (\<lambda>bc (sheet, columns). reopen_columns sheet bc columns)
                      (kn_closed k) (kn_rows k),
       kn_rows := [], kn_ready := False\<rparr>"

definition kn_add :: "string \<Rightarrow> string \<Rightarrow> KnownNodes \<Rightarrow> KnownNodes" where
  "kn_add sheet addr k =
     (let k = (if kn_ready k then kn_reopen k else k) in
      case parse_addr addr of
        Inl _ \<Rightarrow> k\<lparr>kn_literals := List.insert (sheet @ CHR ''!'' # addr) (kn_literals k)\<rparr>
      | Inr (col, row) \<Rightarrow> kn_touch sheet col row k)"

definition kn_in_runs :: "KnownNodes \<Rightarrow> string \<Rightarrow> bool" where
  "kn_in_runs k item =
     (case rsplit1 CHR ''!'' item of
        None \<Rightarrow> False
      | Some (sheet, body) \<Rightarrow>
          (case parse_addr body of
             Inl _ \<Rightarrow> False
           | Inr (col, row) \<Rightarrow>
               if format_addr col row \<noteq> body then False
               else span_has (dict_get (dict_get (kn_rows k) sheet []) col []) row))"

definition kn_contains :: "KnownNodes \<Rightarrow> string \<Rightarrow> bool \<times> KnownNodes" where
  "kn_contains k item =
     (if CHR ''!'' \<notin> set item then (False, k)
      else
        let k = kn_finalize k in
        if item \<in> set (kn_literals k) then (True, k) else (kn_in_runs k item, k))"

definition kn_len :: "KnownNodes \<Rightarrow> int \<times> KnownNodes" where
  "kn_len k =
     (let k = kn_finalize k;
          total = sum_list (map (\<lambda>(start, end). end - start + 1)
            (concat (map (\<lambda>(sheet, columns). concat (map snd columns)) (kn_rows k))))
      in (total + int (length (filter (\<lambda>literal. \<not> kn_in_runs k literal) (kn_literals k))), k))"

definition kn_bool :: "KnownNodes \<Rightarrow> bool" where
  "kn_bool k = (if kn_literals k \<noteq> [] \<or> kn_open k \<noteq> [] \<or> kn_closed k \<noteq> [] then True
     else list_ex (\<lambda>(sheet, columns). columns \<noteq> []) (kn_rows k))"

definition kn_clear :: "KnownNodes \<Rightarrow> KnownNodes" where
  "kn_clear k = k\<lparr>kn_open := [], kn_closed := [], kn_literals := [], kn_rows := [], kn_ready := False\<rparr>"

section \<open>The interface: a container of canonical node ids\<close>

locale node_members =
  fixes empty :: 'k
    and add :: "string \<Rightarrow> string \<Rightarrow> 'k \<Rightarrow> 'k"
    and contains :: "'k \<Rightarrow> string \<Rightarrow> bool \<times> 'k"
    and invar :: "'k \<Rightarrow> bool"
    and ids :: "'k \<Rightarrow> string set"
  assumes invar_empty: "invar empty"
    and ids_empty: "ids empty = {}"
    and invar_add: "invar k \<Longrightarrow> invar (add sheet addr k)"
    and ids_add: "invar k \<Longrightarrow> ids (add sheet addr k) = insert (canonical_node_id sheet addr) (ids k)"
    and contains_fst: "invar k \<Longrightarrow> fst (contains k item) \<longleftrightarrow> item \<in> ids k"
    and contains_snd: "invar k \<Longrightarrow> invar (snd (contains k item)) \<and> ids (snd (contains k item)) = ids k"
begin

text \<open>A container after any interleaving of insertions and membership tests.\<close>

inductive built :: "'k \<Rightarrow> (string \<times> string) set \<Rightarrow> bool" where
  built_empty: "built empty {}"
| built_add: "built k S \<Longrightarrow> built (add sheet addr k) (insert (sheet, addr) S)"
| built_query: "built k S \<Longrightarrow> built (snd (contains k item)) S"

lemma built_ids: "built k S \<Longrightarrow> invar k \<and> ids k = (\<lambda>(sheet, addr). canonical_node_id sheet addr) ` S"
  by (induction rule: built.induct)
    (auto simp: invar_empty ids_empty invar_add ids_add contains_snd)

lemma built_contains:
  "built k S \<Longrightarrow> fst (contains k item) \<longleftrightarrow> (\<exists>(sheet, addr) \<in> S. item = canonical_node_id sheet addr)"
  using built_ids [of k S] by (auto simp: contains_fst)

end

text \<open>The reference container: the set of canonical ids itself.\<close>

interpretation id_set: node_members "{}" "\<lambda>sheet addr. insert (canonical_node_id sheet addr)"
  "\<lambda>k item. (item \<in> k, k)" "\<lambda>_. True" "\<lambda>k. k"
  by unfold_locales auto

section \<open>What the index stands for\<close>

definition open_rows :: "((string \<times> int) \<times> span) list \<Rightarrow> string \<Rightarrow> int \<Rightarrow> int set" where
  "open_rows opn sheet col = (case map_of opn (sheet, col) of None \<Rightarrow> {} | Some run \<Rightarrow> {fst run..snd run})"

definition kn_column :: "KnownNodes \<Rightarrow> string \<Rightarrow> int \<Rightarrow> int set" where
  "kn_column k sheet col = open_rows (kn_open k) sheet col \<union>
     rows_of (runs_at (kn_closed k) sheet col) \<union> rows_of (runs_at (kn_rows k) sheet col)"

definition kn_ids :: "KnownNodes \<Rightarrow> string set" where
  "kn_ids k = set (kn_literals k) \<union> {node_text sheet col row | sheet col row. row \<in> kn_column k sheet col}"

definition ordered_runs :: "span list \<Rightarrow> bool" where
  "ordered_runs runs \<longleftrightarrow> (\<forall>s \<in> set runs. fst s \<le> snd s)"

definition kn_invar :: "KnownNodes \<Rightarrow> bool" where
  "kn_invar k \<longleftrightarrow>
     distinct (map fst (kn_open k)) \<and> by_col_distinct (kn_closed k) \<and> by_col_distinct (kn_rows k) \<and>
     (\<forall>sheet col. ordered_runs (runs_at (kn_closed k) sheet col)) \<and>
     (\<forall>(key, run) \<in> set (kn_open k). fst run \<le> snd run) \<and>
     (\<forall>sheet col. spans_ok (runs_at (kn_rows k) sheet col)) \<and>
     (kn_ready k \<longrightarrow> kn_open k = [] \<and> kn_closed k = []) \<and> (\<not> kn_ready k \<longrightarrow> kn_rows k = []) \<and>
     (\<forall>sheet col. \<forall>row \<in> kn_column k sheet col. 1 \<le> col \<and> 0 \<le> row) \<and>
     distinct (kn_literals k) \<and> (\<forall>l \<in> set (kn_literals k). CHR ''!'' \<in> set l)"

lemma rows_of_append [simp]: "rows_of (xs @ ys) = rows_of xs \<union> rows_of ys"
  by (simp add: rows_of_def)

lemma ordered_runs_simps [simp]:
  "ordered_runs []" "ordered_runs (xs @ ys) \<longleftrightarrow> ordered_runs xs \<and> ordered_runs ys"
  "ordered_runs [r] \<longleftrightarrow> fst r \<le> snd r"
  by (auto simp: ordered_runs_def)

lemma runs_at_Nil [simp]: "runs_at [] sheet col = []"
  by (simp add: runs_at_def dict_get_def)

lemma open_rows_Nil [simp]: "open_rows [] sheet col = {}"
  by (simp add: open_rows_def)

lemma by_col_distinct_Nil [simp]: "by_col_distinct []"
  by (simp add: by_col_distinct_def dict_get_def)

lemma runs_at_extend:
  "runs_at (extend_runs sheet col runs bc) s c =
     runs_at bc s c @ (if s = sheet \<and> c = col then runs else [])"
  by (simp add: runs_at_def extend_runs_def dict_get_alter)

lemma by_col_distinct_extend: "by_col_distinct bc \<Longrightarrow> by_col_distinct (extend_runs sheet col runs bc)"
  by (auto simp: extend_runs_def by_col_distinct_def dict_get_alter distinct_dict_alter)

lemma foldl_close_open:
  assumes "distinct (map fst opn)"
  shows "runs_at (foldl (\<lambda>bc ((sheet, col), run). extend_runs sheet col [run] bc) bc opn) s c =
      runs_at bc s c @ (case map_of opn (s, c) of None \<Rightarrow> [] | Some run \<Rightarrow> [run]) \<and>
    (by_col_distinct bc \<longrightarrow>
      by_col_distinct (foldl (\<lambda>bc ((sheet, col), run). extend_runs sheet col [run] bc) bc opn))"
  using assms
proof (induction opn arbitrary: bc)
  case (Cons a opn)
  obtain sheet col run where a: "a = ((sheet, col), run)" by (metis prod.exhaust)
  from Cons.prems have d: "distinct (map fst opn)" and n: "map_of opn (sheet, col) = None"
    by (auto simp: a map_of_eq_None_iff)
  show ?case
    using Cons.IH [OF d, of "extend_runs sheet col [run] bc"] n
    by (auto simp: a runs_at_extend by_col_distinct_extend)
qed simp

lemma reopen_columns_runs:
  assumes "distinct (map fst columns)"
  shows "runs_at (reopen_columns sheet bc columns) s c =
      runs_at bc s c @ (if s = sheet then dict_get columns c [] else []) \<and>
    (by_col_distinct bc \<longrightarrow> by_col_distinct (reopen_columns sheet bc columns))"
  using assms
proof (induction columns arbitrary: bc)
  case Nil
  then show ?case by (simp add: reopen_columns_def dict_get_def)
next
  case (Cons a columns)
  obtain col spans where a: "a = (col, spans)" by (cases a)
  from Cons.prems have d: "distinct (map fst columns)" and n: "map_of columns col = None"
    by (auto simp: a map_of_eq_None_iff)
  have "reopen_columns sheet bc (a # columns) =
      reopen_columns sheet (extend_runs sheet col spans bc) columns"
    by (simp add: reopen_columns_def a)
  with Cons.IH [OF d, of "extend_runs sheet col spans bc"] n show ?case
    by (auto simp: a runs_at_extend by_col_distinct_extend dict_get_def)
qed

lemma foldl_reopen:
  assumes "distinct (map fst rows)" and "\<forall>(sheet, columns) \<in> set rows. distinct (map fst columns)"
  shows "runs_at (foldl (\<lambda>bc (sheet, columns). reopen_columns sheet bc columns) bc rows) s c =
      runs_at bc s c @ runs_at rows s c \<and>
    (by_col_distinct bc \<longrightarrow>
      by_col_distinct (foldl (\<lambda>bc (sheet, columns). reopen_columns sheet bc columns) bc rows))"
  using assms
proof (induction rows arbitrary: bc)
  case (Cons a rows)
  obtain sheet columns where a: "a = (sheet, columns)" by (cases a)
  from Cons.prems have d: "distinct (map fst rows)" "\<forall>(sheet, columns) \<in> set rows. distinct (map fst columns)"
    and n: "map_of rows sheet = None" and dc: "distinct (map fst columns)"
    by (auto simp: a map_of_eq_None_iff)
  show ?case
    using Cons.IH [OF d, of "reopen_columns sheet bc columns"] reopen_columns_runs [OF dc, of sheet bc s c] n
    by (auto simp: a runs_at_def dict_get_def)
qed simp

lemma by_col_distinct_inner:
  "by_col_distinct bc \<Longrightarrow> \<forall>(sheet, columns) \<in> set bc. distinct (map fst columns)"
proof (clarify)
  fix sheet columns assume d: "by_col_distinct bc" and m: "(sheet, columns) \<in> set bc"
  from d m have "dict_get bc sheet [] = columns" by (simp add: by_col_distinct_def dict_get_def)
  with d show "distinct (map fst columns)" by (auto simp: by_col_distinct_def)
qed

lemma merge_all_merge_cols: "merge_all bc = map (\<lambda>(sheet, cols). (sheet, merge_cols cols)) bc"
  by (simp add: merge_all_def merge_cols_def)

lemma runs_at_merge_all: "runs_at (merge_all bc) sheet col = merge_spans (runs_at bc sheet col)"
  by (simp add: merge_all_merge_cols runs_at_def dict_get_merge_sheets dict_get_merge_cols)

lemma by_col_distinct_merge_all: "by_col_distinct bc \<Longrightarrow> by_col_distinct (merge_all bc)"
  by (simp add: by_col_distinct_def merge_all_merge_cols dict_get_merge_sheets)
    (simp add: merge_cols_def comp_def case_prod_beta)

section \<open>Every operation keeps the invariant\<close>

lemma kn_finalize_facts:
  assumes inv: "kn_invar k"
  shows "kn_invar (kn_finalize k) \<and> kn_ready (kn_finalize k) \<and>
    kn_column (kn_finalize k) = kn_column k \<and> kn_literals (kn_finalize k) = kn_literals k"
proof (cases "kn_ready k")
  case True
  with inv show ?thesis by (simp add: kn_finalize_def)
next
  case False
  let ?closed = "foldl (\<lambda>bc ((sheet, col), run). extend_runs sheet col [run] bc)
                       (kn_closed k) (kn_open k)"
  have d: "distinct (map fst (kn_open k))" and dc: "by_col_distinct (kn_closed k)"
    and rows: "kn_rows k = []" using inv False by (auto simp: kn_invar_def)
  note runs = foldl_close_open [OF d, of "kn_closed k"]
  have ord: "ordered_runs (runs_at ?closed sheet col)" for sheet col
    using inv runs [of sheet col]
    by (auto simp: kn_invar_def ordered_runs_def dest!: map_of_SomeD split: option.splits)
  have merged: "spans_ok (merge_spans (runs_at ?closed sheet col)) \<and>
      rows_of (merge_spans (runs_at ?closed sheet col)) = rows_of (runs_at ?closed sheet col)"
    for sheet col
    using ord by (intro merge_spans_ok) (simp add: ordered_runs_def)
  have fin: "kn_finalize k = k\<lparr>kn_open := [], kn_rows := merge_all ?closed, kn_closed := [], kn_ready := True\<rparr>"
    using False by (simp add: kn_finalize_def Let_def)
  have closed: "rows_of (runs_at ?closed sheet col) =
      rows_of (runs_at (kn_closed k) sheet col) \<union> open_rows (kn_open k) sheet col" for sheet col
    using conjunct1 [OF runs [of sheet col]] by (simp add: rows_of_def open_rows_def split: option.splits)
  have col: "kn_column (kn_finalize k) sheet col = kn_column k sheet col" for sheet col
    using merged [of sheet col] closed [of sheet col]
    by (simp add: fin kn_column_def runs_at_merge_all rows Un_commute)
  have "by_col_distinct (merge_all ?closed)"
    using runs dc by (simp add: by_col_distinct_merge_all)
  moreover have "kn_column (kn_finalize k) = kn_column k" by (intro ext col)
  ultimately show ?thesis
    using inv merged by (auto simp: kn_invar_def fin runs_at_merge_all ordered_runs_def)
qed

lemma kn_reopen_facts:
  assumes inv: "kn_invar k" and ready: "kn_ready k"
  shows "kn_invar (kn_reopen k) \<and> \<not> kn_ready (kn_reopen k) \<and>
    kn_column (kn_reopen k) = kn_column k \<and> kn_literals (kn_reopen k) = kn_literals k"
proof -
  have empty: "kn_open k = []" "kn_closed k = []" and dr: "by_col_distinct (kn_rows k)"
    using inv ready by (auto simp: kn_invar_def)
  note runs = foldl_reopen [OF _ by_col_distinct_inner [OF dr], of "[]"]
  have closed: "runs_at (kn_closed (kn_reopen k)) sheet col = runs_at (kn_rows k) sheet col" for sheet col
    using runs dr by (simp add: kn_reopen_def empty by_col_distinct_def)
  have dc: "by_col_distinct (kn_closed (kn_reopen k))"
    using runs dr by (simp add: kn_reopen_def empty by_col_distinct_def [of "kn_rows k"])
  have fields: "kn_open (kn_reopen k) = []" "kn_rows (kn_reopen k) = []" "\<not> kn_ready (kn_reopen k)"
    "kn_literals (kn_reopen k) = kn_literals k"
    by (simp_all add: kn_reopen_def empty)
  have col: "kn_column (kn_reopen k) = kn_column k"
    by (intro ext) (simp add: kn_column_def fields closed empty)
  have "ordered_runs (runs_at (kn_rows k) sheet col)" for sheet col
    using inv by (auto simp: kn_invar_def ordered_runs_def spans_ok_def list_all_iff)
  with inv dc fields col closed show ?thesis by (auto simp: kn_invar_def spans_ok_def)
qed

lemma open_rows_update:
  "open_rows (AList.update (sheet, col) run opn) s c =
     (if s = sheet \<and> c = col then {fst run..snd run} else open_rows opn s c)"
  by (simp add: open_rows_def update_conv')

lemma kn_touch_column:
  assumes inv: "kn_invar k"
  shows "kn_column (kn_touch sheet col row k) s c =
    (if s = sheet \<and> c = col then insert row (kn_column k s c) else kn_column k s c)"
proof (cases "map_of (kn_open k) (sheet, col)")
  case None
  then have "open_rows (kn_open k) sheet col = {}" by (simp add: open_rows_def)
  with None show ?thesis by (simp add: kn_touch_def kn_column_def open_rows_update)
next
  case (Some run)
  obtain lo hi where run: "run = (lo, hi)" by (cases run)
  have opn: "open_rows (kn_open k) sheet col = {lo..hi}" using Some run by (simp add: open_rows_def)
  have "lo \<le> hi" using inv Some run by (fastforce simp: kn_invar_def dest: map_of_SomeD)
  show ?thesis
  proof (cases "row \<le> hi + 1 \<and> row + 1 \<ge> lo")
    case True
    have "{(if row < lo then row else lo)..(if row > hi then row else hi)} = insert row {lo..hi}"
      using True \<open>lo \<le> hi\<close> by auto
    with Some run True opn show ?thesis
      by (simp add: kn_touch_def kn_column_def open_rows_update)
  next
    case False
    then have "kn_touch sheet col row k = k\<lparr>kn_closed := extend_runs sheet col [(lo, hi)] (kn_closed k),
        kn_open := AList.update (sheet, col) (row, row) (kn_open k)\<rparr>"
      using Some run by (auto simp: kn_touch_def Let_def)
    then show ?thesis
      using opn by (simp add: kn_column_def open_rows_update runs_at_extend Un_ac)
  qed
qed

lemma set_alist_update: "set (AList.update key v al) \<subseteq> insert (key, v) (set al)"
  by (induction al) auto

lemma kn_touch_invar:
  assumes inv: "kn_invar k" and nready: "\<not> kn_ready k" and "1 \<le> col" "0 \<le> row"
  shows "kn_invar (kn_touch sheet col row k)"
proof -
  let ?t = "kn_touch sheet col row k"
  have run: "lo \<le> hi" if "map_of (kn_open k) (sheet, col) = Some (lo, hi)" for lo hi
    using inv that by (fastforce simp: kn_invar_def dest: map_of_SomeD)
  have d: "distinct (map fst (kn_open ?t))"
    using inv by (auto simp: kn_touch_def kn_invar_def distinct_update Let_def split: option.splits)
  have o: "\<forall>(key, run) \<in> set (kn_open ?t). fst run \<le> snd run"
  proof -
    have upd: "\<forall>(key, r) \<in> set (AList.update (sheet, col) new (kn_open k)). fst r \<le> snd r"
      if "fst new \<le> snd new" for new
      using inv that set_alist_update [of "(sheet, col)" new "kn_open k"]
      by (auto simp: kn_invar_def)
    show ?thesis
      using run by (auto simp: kn_touch_def Let_def intro!: upd split: option.splits)
  qed
  have c: "by_col_distinct (kn_closed ?t)" "\<forall>s c. ordered_runs (runs_at (kn_closed ?t) s c)"
    using inv run
    by (auto simp: kn_touch_def kn_invar_def Let_def by_col_distinct_extend runs_at_extend
        split: option.splits)
  have f: "kn_rows ?t = kn_rows k" "kn_ready ?t = kn_ready k" "kn_literals ?t = kn_literals k"
    by (auto simp: kn_touch_def Let_def split: option.splits)
  have b: "\<forall>s c. \<forall>r \<in> kn_column ?t s c. 1 \<le> c \<and> 0 \<le> r"
    using inv assms(3,4) by (auto simp: kn_touch_column [OF inv] kn_invar_def)
  show ?thesis using d o c f b inv nready by (auto simp: kn_invar_def)
qed

lemma kn_add_invar: "kn_invar k \<Longrightarrow> kn_invar (kn_add sheet addr k)"
proof -
  assume inv: "kn_invar k"
  define k' where "k' = (if kn_ready k then kn_reopen k else k)"
  have k': "kn_invar k'" "\<not> kn_ready k'" using inv kn_reopen_facts [of k] by (auto simp: k'_def)
  show ?thesis
  proof (cases "parse_addr addr")
    case (Inl e)
    then have "kn_add sheet addr k = k'\<lparr>kn_literals := List.insert (sheet @ CHR ''!'' # addr) (kn_literals k')\<rparr>"
      by (simp add: kn_add_def k'_def Let_def)
    with k' show ?thesis by (auto simp: kn_invar_def kn_column_def)
  next
    case (Inr p)
    obtain col row where p: "p = (col, row)" by (cases p)
    from Inr p have "kn_add sheet addr k = kn_touch sheet col row k'"
      by (simp add: kn_add_def k'_def Let_def)
    with k' parse_addr_bounds [of addr col row] Inr p show ?thesis
      by (simp add: kn_touch_invar)
  qed
qed

lemma kn_add_ids:
  assumes inv: "kn_invar k"
  shows "kn_ids (kn_add sheet addr k) = insert (canonical_node_id sheet addr) (kn_ids k)"
proof -
  define k' where "k' = (if kn_ready k then kn_reopen k else k)"
  have k': "kn_invar k'" "kn_column k' = kn_column k" "kn_literals k' = kn_literals k"
    using inv kn_reopen_facts [of k] by (auto simp: k'_def)
  show ?thesis
  proof (cases "parse_addr addr")
    case (Inl e)
    then have "kn_add sheet addr k = k'\<lparr>kn_literals := List.insert (sheet @ CHR ''!'' # addr) (kn_literals k')\<rparr>"
      by (simp add: kn_add_def k'_def Let_def)
    moreover have "kn_column (k'\<lparr>kn_literals := l\<rparr>) = kn_column k" for l
    proof -
      have "kn_column (k'\<lparr>kn_literals := l\<rparr>) = kn_column k'" by (intro ext) (simp add: kn_column_def)
      with k' show ?thesis by simp
    qed
    ultimately show ?thesis using k' Inl by (auto simp: kn_ids_def canonical_node_id_def)
  next
    case (Inr p)
    obtain col row where p: "p = (col, row)" by (cases p)
    from Inr p have add: "kn_add sheet addr k = kn_touch sheet col row k'"
      by (simp add: kn_add_def k'_def Let_def)
    have lit: "kn_literals (kn_touch sheet col row k') = kn_literals k'"
      by (auto simp: kn_touch_def Let_def split: option.splits)
    have can: "canonical_node_id sheet addr = node_text sheet col row"
      using Inr p by (simp add: canonical_node_id_def node_text_def)
    have "r \<in> kn_column (kn_touch sheet col row k') s c \<longleftrightarrow>
        s = sheet \<and> c = col \<and> r = row \<or> r \<in> kn_column k s c" for s c r
      by (auto simp: kn_touch_column [OF k'(1)] k'(2))
    then have "{node_text s c r | s c r. r \<in> kn_column (kn_touch sheet col row k') s c} =
        insert (node_text sheet col row) {node_text s c r | s c r. r \<in> kn_column k s c}"
      by auto
    with k' add lit can show ?thesis by (simp add: kn_ids_def)
  qed
qed

lemma bang_not_in_format_addr [simp]: "CHR ''!'' \<notin> set (format_addr col row)"
proof
  assume "CHR ''!'' \<in> set (format_addr col row)"
  then consider "CHR ''!'' \<in> set (index_to_col col)" | "CHR ''!'' \<in> set (int_str row)"
    by (auto simp: format_addr_def)
  then show False
  proof cases
    case 1
    then have "re_letter CHR ''!''" by (rule index_to_col_letter)
    then show False by simp
  next
    case 2
    then have "\<exists>n. CHR ''!'' \<in> set (nat_str n)" by (auto simp: int_str_def split: if_splits)
    then have "re_digit CHR ''!''" using nat_str_digit by blast
    then show False by simp
  qed
qed

lemma rsplit1_node_text [simp]: "rsplit1 CHR ''!'' (node_text sheet col row) = Some (sheet, format_addr col row)"
  by (simp add: node_text_def)

lemma node_text_inject:
  assumes "1 \<le> col" "0 \<le> row" "1 \<le> c" "0 \<le> r"
  shows "node_text sheet col row = node_text s c r \<longleftrightarrow> sheet = s \<and> col = c \<and> row = r"
proof
  assume "node_text sheet col row = node_text s c r"
  then have "rsplit1 CHR ''!'' (node_text sheet col row) = rsplit1 CHR ''!'' (node_text s c r)"
    by (rule arg_cong)
  then have eq: "sheet = s" "format_addr col row = format_addr c r" by simp_all
  from eq(2) have "parse_addr (format_addr col row) = parse_addr (format_addr c r)" by (rule arg_cong)
  with assms have "col = c" "row = r" by (simp_all add: max_def)
  with eq(1) show "sheet = s \<and> col = c \<and> row = r" by simp
qed simp

lemma kn_in_runs_iff:
  assumes inv: "kn_invar k" and ready: "kn_ready k"
  shows "kn_in_runs k item \<longleftrightarrow> (\<exists>sheet col row. item = node_text sheet col row \<and> row \<in> kn_column k sheet col)"
proof
  have runs: "spans_ok (dict_get (dict_get (kn_rows k) sheet []) col [])"
    "kn_column k sheet col = rows_of (dict_get (dict_get (kn_rows k) sheet []) col [])" for sheet col
  proof -
    have "kn_open k = []" "kn_closed k = []" using inv ready by (auto simp: kn_invar_def)
    then show "kn_column k sheet col = rows_of (dict_get (dict_get (kn_rows k) sheet []) col [])"
      by (simp add: kn_column_def runs_at_def [of "kn_rows k"])
    show "spans_ok (dict_get (dict_get (kn_rows k) sheet []) col [])"
      using inv by (auto simp: kn_invar_def runs_at_def)
  qed
  {
    assume "kn_in_runs k item"
    then obtain sheet body where r: "rsplit1 CHR ''!'' item = Some (sheet, body)"
      by (auto simp: kn_in_runs_def split: option.splits)
    with \<open>kn_in_runs k item\<close> obtain p where p: "parse_addr body = Inr p"
      by (cases "parse_addr body") (simp_all add: kn_in_runs_def)
    obtain col row where "p = (col, row)" by (cases p)
    with \<open>kn_in_runs k item\<close> r p have f: "format_addr col row = body"
      and h: "span_has (dict_get (dict_get (kn_rows k) sheet []) col []) row"
      by (auto simp: kn_in_runs_def split: if_splits)
    from rsplit1_Some [OF r] f have "item = node_text sheet col row" by (simp add: node_text_def)
    moreover have "row \<in> kn_column k sheet col" using h runs span_has_iff by metis
    ultimately show "\<exists>sheet col row. item = node_text sheet col row \<and> row \<in> kn_column k sheet col" by blast
  }
  assume "\<exists>sheet col row. item = node_text sheet col row \<and> row \<in> kn_column k sheet col"
  then obtain sheet col row where i: "item = node_text sheet col row" and m: "row \<in> kn_column k sheet col"
    by blast
  have "1 \<le> col" "0 \<le> row" using inv m by (auto simp: kn_invar_def)
  with m runs show "kn_in_runs k item"
    by (simp add: kn_in_runs_def i span_has_iff max_def)
qed

lemma kn_ids_bang: "kn_invar k \<Longrightarrow> item \<in> kn_ids k \<Longrightarrow> CHR ''!'' \<in> set item"
  by (auto simp: kn_invar_def kn_ids_def node_text_def)

lemma kn_finalize_ids: "kn_invar k \<Longrightarrow> kn_ids (kn_finalize k) = kn_ids k"
  using kn_finalize_facts [of k] by (simp add: kn_ids_def)

lemma kn_contains_fst:
  assumes inv: "kn_invar k"
  shows "fst (kn_contains k item) \<longleftrightarrow> item \<in> kn_ids k"
proof (cases "CHR ''!'' \<in> set item")
  case False
  with kn_ids_bang [OF inv] show ?thesis by (auto simp: kn_contains_def)
next
  case True
  have fin: "kn_invar (kn_finalize k)" "kn_ready (kn_finalize k)" using kn_finalize_facts [OF inv] by auto
  have "fst (kn_contains k item) \<longleftrightarrow> item \<in> kn_ids (kn_finalize k)"
    using True kn_in_runs_iff [OF fin, of item] by (auto simp: kn_contains_def Let_def kn_ids_def)
  then show ?thesis by (simp add: kn_finalize_ids [OF inv])
qed

lemma kn_contains_snd:
  assumes inv: "kn_invar k"
  shows "kn_invar (snd (kn_contains k item)) \<and> kn_ids (snd (kn_contains k item)) = kn_ids k"
  using kn_finalize_facts [OF inv] kn_finalize_ids [OF inv] inv by (auto simp: kn_contains_def Let_def)

lemma kn_empty_facts: "kn_invar kn_empty" "kn_ids kn_empty = {}"
  by (auto simp: kn_invar_def kn_empty_def kn_ids_def kn_column_def spans_ok_def)

interpretation known: node_members kn_empty kn_add kn_contains kn_invar kn_ids
  by unfold_locales
    (simp_all add: kn_empty_facts kn_add_invar kn_add_ids kn_contains_fst kn_contains_snd)

section \<open>Counting\<close>

definition span_total :: "span list \<Rightarrow> int" where
  "span_total spans = sum_list (map (\<lambda>(start, end). end - start + 1) spans)"

lemma finite_rows_of [simp]: "finite (rows_of spans)"
  by (simp add: rows_of_def)

lemma span_total_card: "spans_ok spans \<Longrightarrow> span_total spans = int (card (rows_of spans))"
proof (induction spans)
  case (Cons s spans)
  then have ok: "spans_ok spans" "fst s \<le> snd s" "\<forall>b \<in> set spans. snd s + 1 < fst b"
    by (auto simp: spans_ok_Cons)
  have "{fst s..snd s} \<inter> rows_of spans = {}" using ok(3) by (fastforce simp: rows_of_def)
  then have "card (rows_of (s # spans)) = card {fst s..snd s} + card (rows_of spans)"
    by (simp add: card_Un_disjoint)
  with Cons.IH [OF ok(1)] ok(2) show ?case by (simp add: span_total_def case_prod_beta)
qed (simp add: span_total_def)

lemma column_cells_finite_card:
  "columns_ok cols \<Longrightarrow> finite (column_cells cols) \<and>
     span_total (concat (map snd cols)) = int (card (column_cells cols))"
proof (induction cols)
  case (Cons a cols)
  obtain col spans where a: "a = (col, spans)" by (cases a)
  from Cons.prems a have ok: "spans_ok spans" "col \<notin> fst ` set cols" "columns_ok cols"
    by (auto simp: columns_ok_Cons)
  have disj: "(\<lambda>r. (r, col)) ` rows_of spans \<inter> column_cells cols = {}"
    using ok(2) by (auto dest: column_cells_keys)
  have "card ((\<lambda>r. (r, col)) ` rows_of spans) = card (rows_of spans)"
    by (rule card_image) (simp add: inj_on_def)
  with Cons.IH [OF ok(3)] disj span_total_card [OF ok(1)] show ?case
    by (simp add: a column_cells_Cons [OF ok(2)] card_Un_disjoint span_total_def)
qed (simp add: span_total_def)

definition sheet_cells :: "by_col \<Rightarrow> (string \<times> int \<times> int) set" where
  "sheet_cells bc = {(sheet, row, col). (row, col) \<in> column_cells (dict_get bc sheet [])}"

lemma sheet_cells_finite_card:
  assumes "distinct (map fst bc)" and "\<forall>(sheet, cols) \<in> set bc. columns_ok cols"
  shows "finite (sheet_cells bc) \<and>
    span_total (concat (map (\<lambda>(sheet, cols). concat (map snd cols)) bc)) = int (card (sheet_cells bc))"
  using assms
proof (induction bc)
  case Nil
  have "sheet_cells [] = {}" by (auto simp: sheet_cells_def dict_get_def)
  then show ?case by (simp add: span_total_def)
next
  case (Cons a bc)
  obtain sheet cols where a: "a = (sheet, cols)" by (cases a)
  from Cons.prems have n: "map_of bc sheet = None" and ok: "columns_ok cols"
    by (auto simp: a map_of_eq_None_iff)
  from Cons have IH: "finite (sheet_cells bc)"
    "span_total (concat (map (\<lambda>(sheet, cols). concat (map snd cols)) bc)) = int (card (sheet_cells bc))"
    by auto
  have split: "sheet_cells (a # bc) = (\<lambda>p. (sheet, p)) ` column_cells cols \<union> sheet_cells bc"
    using n by (auto simp: sheet_cells_def a dict_get_def split: if_splits)
  have disj: "(\<lambda>p. (sheet, p)) ` column_cells cols \<inter> sheet_cells bc = {}"
    using n by (auto simp: sheet_cells_def dict_get_def)
  have "card ((\<lambda>p. (sheet, p)) ` column_cells cols) = card (column_cells cols)"
    by (rule card_image) (simp add: inj_on_def)
  with IH disj column_cells_finite_card [OF ok] show ?case
    by (simp add: split card_Un_disjoint span_total_def) (simp add: a)
qed

lemma kn_len_card:
  assumes inv: "kn_invar k"
  shows "fst (kn_len k) = int (card (kn_ids k))"
proof -
  let ?f = "kn_finalize k"
  have fin: "kn_invar ?f" "kn_ready ?f" using kn_finalize_facts [OF inv] by auto
  have rows: "by_col_distinct (kn_rows ?f)" "\<And>sheet col. spans_ok (runs_at (kn_rows ?f) sheet col)"
    and empty: "kn_open ?f = []" "kn_closed ?f = []"
    and bounds: "\<And>sheet col row. row \<in> kn_column ?f sheet col \<Longrightarrow> 1 \<le> col \<and> 0 \<le> row"
    and lit: "distinct (kn_literals ?f)"
    using fin by (auto simp: kn_invar_def)
  have cols: "columns_ok cols" if m: "(sheet, cols) \<in> set (kn_rows ?f)" for sheet cols
  proof -
    have get: "dict_get (kn_rows ?f) sheet [] = cols"
      using rows(1) m by (simp add: by_col_distinct_def dict_get_def)
    have d: "distinct (map fst cols)" using rows(1) get by (auto simp: by_col_distinct_def)
    have "spans_ok spans" if "(col, spans) \<in> set cols" for col spans
    proof -
      have "dict_get cols col [] = spans" using d that by (simp add: dict_get_def)
      with rows(2) [of sheet col] get show ?thesis by (simp add: runs_at_def)
    qed
    with d show ?thesis by (auto simp: columns_ok_def list_all_iff)
  qed
  let ?R = "{node_text sheet col row | sheet col row. row \<in> kn_column ?f sheet col}"
  have col: "kn_column ?f sheet col = rows_of (runs_at (kn_rows ?f) sheet col)" for sheet col
    by (simp add: kn_column_def empty)
  have cells: "(sheet, row, col) \<in> sheet_cells (kn_rows ?f) \<longleftrightarrow> row \<in> kn_column ?f sheet col"
    for sheet row col
    by (simp add: sheet_cells_def column_cells_def col runs_at_def)
  have R: "?R = (\<lambda>(sheet, row, col). node_text sheet col row) ` sheet_cells (kn_rows ?f)"
  proof (intro equalityI subsetI)
    fix x assume "x \<in> ?R"
    then obtain sheet col row where "x = node_text sheet col row" "(sheet, row, col) \<in> sheet_cells (kn_rows ?f)"
      using cells by blast
    then show "x \<in> (\<lambda>(sheet, row, col). node_text sheet col row) ` sheet_cells (kn_rows ?f)" by force
  next
    fix x assume "x \<in> (\<lambda>(sheet, row, col). node_text sheet col row) ` sheet_cells (kn_rows ?f)"
    then obtain sheet row col where "x = node_text sheet col row" "(sheet, row, col) \<in> sheet_cells (kn_rows ?f)"
      by auto
    then show "x \<in> ?R" using cells by blast
  qed
  have inj: "inj_on (\<lambda>(sheet, row, col). node_text sheet col row) (sheet_cells (kn_rows ?f))"
    by (rule inj_onI) (auto simp: cells node_text_inject bounds)
  have "distinct (map fst (kn_rows ?f))" using rows(1) by (simp add: by_col_distinct_def)
  with sheet_cells_finite_card [of "kn_rows ?f"] cols
  have total: "finite (sheet_cells (kn_rows ?f))"
    "span_total (concat (map (\<lambda>(sheet, cols). concat (map snd cols)) (kn_rows ?f))) =
       int (card (sheet_cells (kn_rows ?f)))" by auto
  have cardR: "int (card ?R) = span_total (concat (map (\<lambda>(sheet, cols). concat (map snd cols)) (kn_rows ?f)))"
    and finR: "finite ?R"
    using total R card_image [OF inj] by simp_all
  have outside: "set (filter (\<lambda>l. \<not> kn_in_runs ?f l) (kn_literals ?f)) = set (kn_literals ?f) - ?R"
    by (auto simp: kn_in_runs_iff [OF fin])
  have "length (filter (\<lambda>l. \<not> kn_in_runs ?f l) (kn_literals ?f)) = card (set (kn_literals ?f) - ?R)"
    using lit outside by (metis distinct_card distinct_filter)
  moreover have "kn_ids ?f = ?R \<union> (set (kn_literals ?f) - ?R)" by (auto simp: kn_ids_def)
  then have "card (kn_ids ?f) = card ?R + card (set (kn_literals ?f) - ?R)"
    using finR by (subst card_Un_disjoint [symmetric]) auto
  ultimately show ?thesis
    using cardR by (simp add: kn_len_def Let_def span_total_def kn_finalize_ids [OF inv])
qed

lemma kn_clear_facts: "kn_invar (kn_clear k)" "kn_ids (kn_clear k) = {}"
  by (auto simp: kn_clear_def kn_invar_def kn_ids_def kn_column_def spans_ok_def)

section \<open>Emptiness\<close>

text \<open>
  \<open>__bool__\<close> looks at the entries of the dictionaries, not at the rows of the runs. It is
  exact because no operation leaves an entry without a run: an index that holds no cell has
  no entry at all.
\<close>

lemma kn_finalize_entry_free:
  assumes "kn_open k = []" "kn_closed k = []" "kn_rows k = []"
  shows "kn_open (kn_finalize k) = []" "kn_closed (kn_finalize k) = []" "kn_rows (kn_finalize k) = []"
    "kn_literals (kn_finalize k) = kn_literals k"
  using assms by (simp_all add: kn_finalize_def Let_def merge_all_def)

lemma built_entry_free:
  "known.built k cells \<Longrightarrow> cells = {} \<Longrightarrow>
     kn_open k = [] \<and> kn_closed k = [] \<and> kn_rows k = [] \<and> kn_literals k = []"
proof (induction rule: known.built.induct)
  case (built_query k S item)
  then show ?case by (simp add: kn_contains_def Let_def kn_finalize_entry_free)
qed (simp_all add: kn_empty_def)

lemma runs_at_no_columns: "\<forall>(s, columns) \<in> set bc. columns = [] \<Longrightarrow> runs_at bc sheet col = []"
  by (auto simp: runs_at_def dict_get_def dest!: map_of_SomeD split: option.splits)

lemma kn_bool_of_ids: "kn_ids k \<noteq> {} \<Longrightarrow> kn_bool k"
proof (rule ccontr)
  assume ids: "kn_ids k \<noteq> {}" and "\<not> kn_bool k"
  then have "kn_literals k = []" "kn_open k = []" "kn_closed k = []"
    and rows: "\<forall>(s, columns) \<in> set (kn_rows k). columns = []"
    by (auto simp: kn_bool_def list_ex_iff split: if_splits)
  then have "kn_ids k = {}" by (simp add: kn_ids_def kn_column_def runs_at_no_columns [OF rows])
  with ids show False by simp
qed

lemma kn_bool_built: "known.built k cells \<Longrightarrow> kn_bool k \<longleftrightarrow> cells \<noteq> {}"
proof
  assume built: "known.built k cells"
  show "cells \<noteq> {}" if "kn_bool k"
    using built_entry_free [OF built] that by (auto simp: kn_bool_def)
  show "kn_bool k" if "cells \<noteq> {}"
    using known.built_ids [OF built] that by (intro kn_bool_of_ids) simp
qed

section \<open>Properties\<close>

text \<open>
  C8. The row-run index answers like a set of canonical ids: after any interleaving of
  insertions and membership tests that starts from the empty index, a text is a member
  exactly when it is the canonical id of an inserted cell, the length is the number of
  distinct canonical ids, and the index is truthy exactly when a cell was inserted.
\<close>

theorem known_nodes_is_id_set:
  assumes "known.built k cells"
  shows "(fst (kn_contains k item) \<longleftrightarrow> (\<exists>(sheet, addr) \<in> cells. item = canonical_node_id sheet addr)) \<and>
    fst (kn_len k) = int (card ((\<lambda>(sheet, addr). canonical_node_id sheet addr) ` cells)) \<and>
    (kn_bool k \<longleftrightarrow> cells \<noteq> {})"
  using known.built_contains [OF assms] known.built_ids [OF assms] kn_len_card kn_bool_built [OF assms]
  by simp

theorem known_nodes_is_id_set_witness:
  "fst (kn_contains (kn_add ''S'' ''A2'' (snd (kn_contains (kn_add ''S'' ''$a$01'' kn_empty) ''S!B1'')))
      ''S!A1'') \<and>
   fst (kn_len (kn_add ''S'' ''A2'' (snd (kn_contains (kn_add ''S'' ''$a$01'' kn_empty) ''S!B1'')))) = 2 \<and>
   kn_bool (kn_add ''S'' ''A2'' (snd (kn_contains (kn_add ''S'' ''$a$01'' kn_empty) ''S!B1'')))"
proof -
  let ?k = "kn_add ''S'' ''A2'' (snd (kn_contains (kn_add ''S'' ''$a$01'' kn_empty) ''S!B1''))"
  have built: "known.built ?k (insert (''S'', ''A2'') (insert (''S'', ''$a$01'') {}))"
    by (intro known.built_add known.built_query known.built_empty)
  have ids: "canonical_node_id ''S'' ''$a$01'' = ''S!A1''" "canonical_node_id ''S'' ''A2'' = ''S!A2''"
    by code_simp+
  show ?thesis using known_nodes_is_id_set [OF built, of "''S!A1''"] ids by simp
qed

end
