(* ===== verification/Range_Nodes.thy ===== *)
theory Range_Nodes
  imports Known_Nodes
begin

text \<open>
  Range nodes and range expansion of \<open>src/finance_context/formulas/csr.py\<close>: which range
  text becomes one node, the id of a node and its parsed bounds, the list of cells a range
  expands to under the job's cap, and the two counting functions that the memory estimate
  uses instead of the expansion.
  The context variables that carry the job's limits are the record \<open>range_ctx\<close>.
\<close>

section \<open>Limits of the running job\<close>

record range_ctx =
  bound_cap :: "int option"
  bound_node_min :: "int option"

definition DEFAULT_RANGE_EXPAND_CAP :: int where
  "DEFAULT_RANGE_EXPAND_CAP = 2000"

definition DEFAULT_RANGE_NODE_MIN_CELLS :: int where
  "DEFAULT_RANGE_NODE_MIN_CELLS = 64"

definition bind_range_expand_cap :: "int \<Rightarrow> range_ctx \<Rightarrow> range_ctx \<times> int option" where
  "bind_range_expand_cap cap ctx = (ctx\<lparr>bound_cap := Some cap\<rparr>, bound_cap ctx)"

definition reset_range_expand_cap :: "int option \<Rightarrow> range_ctx \<Rightarrow> range_ctx" where
  "reset_range_expand_cap token ctx = ctx\<lparr>bound_cap := token\<rparr>"

definition active_range_cap :: "range_ctx \<Rightarrow> int" where
  "active_range_cap ctx =
     (case bound_cap ctx of None \<Rightarrow> DEFAULT_RANGE_EXPAND_CAP | Some bound \<Rightarrow> bound)"

definition bind_range_node_min_cells :: "int \<Rightarrow> range_ctx \<Rightarrow> range_ctx \<times> int option" where
  "bind_range_node_min_cells cells ctx = (ctx\<lparr>bound_node_min := Some cells\<rparr>, bound_node_min ctx)"

definition reset_range_node_min_cells :: "int option \<Rightarrow> range_ctx \<Rightarrow> range_ctx" where
  "reset_range_node_min_cells token ctx = ctx\<lparr>bound_node_min := token\<rparr>"

definition active_range_node_min_cells :: "range_ctx \<Rightarrow> int" where
  "active_range_node_min_cells ctx =
     (case bound_node_min ctx of None \<Rightarrow> DEFAULT_RANGE_NODE_MIN_CELLS | Some bound \<Rightarrow> bound)"

section \<open>Range nodes\<close>

definition is_range_node :: "string \<Rightarrow> bool" where
  "is_range_node node =
     (case rsplit1 CHR ''!'' node of None \<Rightarrow> False | Some (sheet, body) \<Rightarrow> CHR '':'' \<in> set body)"

definition range_node_id :: "string \<Rightarrow> int \<Rightarrow> int \<Rightarrow> int \<Rightarrow> int \<Rightarrow> string" where
  "range_node_id sheet c1 c2 r1 r2 =
     (if r1 = 1 \<and> r2 = MAX_ROW then sheet @ ''!'' @ index_to_col c1 @ '':'' @ index_to_col c2
      else if c1 = 1 \<and> c2 = MAX_COL then sheet @ ''!'' @ int_str r1 @ '':'' @ int_str r2
      else sheet @ ''!'' @ index_to_col c1 @ int_str r1 @ '':'' @ index_to_col c2 @ int_str r2)"

record RangeNode =
  node_id :: string
  rn_sheet :: string
  rn_c1 :: int
  rn_c2 :: int
  rn_r1 :: int
  rn_r2 :: int

definition range_node_for :: "range_ctx \<Rightarrow> string \<Rightarrow> SheetUsage option \<Rightarrow> RangeNode option" where
  "range_node_for ctx target usage =
     (case usage of
        None \<Rightarrow> None
      | Some usage \<Rightarrow>
          (case split_sheet_ref target of
             Inl _ \<Rightarrow> None
           | Inr (sheet, body) \<Rightarrow>
               if map_of (canonical usage) (casefold sheet) = None then None
               else
                 case rectangle body of
                   None \<Rightarrow> None
                 | Some (c1, c2, r1, r2) \<Rightarrow>
                     (let small = area c1 c2 r1 r2 \<le> active_range_node_min_cells ctx in
                      if \<not> whole_axis c1 c2 r1 r2 \<and> small then None
                      else
                        let sheet = sheet_name usage sheet in
                        Some \<lparr>node_id = range_node_id sheet c1 c2 r1 r2, rn_sheet = sheet,
                              rn_c1 = c1, rn_c2 = c2, rn_r1 = r1, rn_r2 = r2\<rparr>)))"

definition parse_range_node :: "string \<Rightarrow> RangeNode option" where
  "parse_range_node nid =
     (if \<not> is_range_node nid then None
      else
        case rsplit1 CHR ''!'' nid of
          None \<Rightarrow> None
        | Some (sheet, body) \<Rightarrow>
            (case rectangle body of
               None \<Rightarrow> None
             | Some (c1, c2, r1, r2) \<Rightarrow>
                 Some \<lparr>node_id = nid, rn_sheet = sheet, rn_c1 = c1, rn_c2 = c2, rn_r1 = r1, rn_r2 = r2\<rparr>))"

definition node_present_count :: "RangeNode \<Rightarrow> SheetUsage \<Rightarrow> int" where
  "node_present_count node usage =
     present_count (rn_sheet node) (rn_c1 node) (rn_c2 node) (rn_r1 node) (rn_r2 node) usage"

definition node_first_present :: "RangeNode \<Rightarrow> SheetUsage \<Rightarrow> (int \<times> int) option" where
  "node_first_present node usage =
     first_present (rn_sheet node) (rn_c1 node) (rn_c2 node) (rn_r1 node) (rn_r2 node) usage"

definition node_present_pairs :: "RangeNode \<Rightarrow> SheetUsage \<Rightarrow> (int \<times> int) list" where
  "node_present_pairs node usage =
     present_pairs (rn_sheet node) (rn_c1 node) (rn_c2 node) (rn_r1 node) (rn_r2 node) usage"

section \<open>Expansion\<close>

definition is_cell_body :: "string \<Rightarrow> bool" where
  "is_cell_body body = (case re_cell body of Some (l, d, []) \<Rightarrow> True | _ \<Rightarrow> False)"

text \<open>\<open>cap = active_range_cap() if cap is None else cap\<close>.\<close>

definition chosen_cap :: "range_ctx \<Rightarrow> int option \<Rightarrow> int" where
  "chosen_cap ctx cap = (case cap of None \<Rightarrow> active_range_cap ctx | Some c \<Rightarrow> c)"

definition expansion_count :: "range_ctx \<Rightarrow> string \<Rightarrow> int option \<Rightarrow> SheetUsage option \<Rightarrow> int" where
  "expansion_count ctx target cap_arg usage =
     (let cap = chosen_cap ctx cap_arg in
      case split_sheet_ref target of
        Inl _ \<Rightarrow> 1
      | Inr (sheet, body) \<Rightarrow>
          if is_cell_body body then 1
          else
            case rectangle body of
              None \<Rightarrow> 1
            | Some (c1, c2, r1, r2) \<Rightarrow>
                (let n = area c1 c2 r1 r2 in
                 if n \<le> 0 then 0
                 else
                   case usage of
                     Some u \<Rightarrow>
                       if whole_axis c1 c2 r1 r2 then present_count sheet c1 c2 r1 r2 u
                       else if n \<le> cap then n else cap
                   | None \<Rightarrow> if n \<le> cap then n else cap))"

text \<open>The two nested loops of \<open>_take\<close> over rows and columns, with the early return at the cap.\<close>

fun take_cells :: "string \<Rightarrow> int \<Rightarrow> (int \<times> int) list \<Rightarrow> string list \<Rightarrow> string list \<times> bool" where
  "take_cells sheet cap [] out = (out, False)"
| "take_cells sheet cap ((row, col) # cells) out =
     (if int (length out) \<ge> cap then (out, True)
      else take_cells sheet cap cells (out @ [sheet @ ''!'' @ index_to_col col @ int_str row]))"

definition row_major :: "int \<Rightarrow> int \<Rightarrow> int \<Rightarrow> int \<Rightarrow> (int \<times> int) list" where
  "row_major c1 c2 r1 r2 = concat (map (\<lambda>row. map (\<lambda>col. (row, col)) [c1..c2]) [r1..r2])"

definition take_range :: "string \<Rightarrow> int \<Rightarrow> int \<Rightarrow> int \<Rightarrow> int \<Rightarrow> int \<Rightarrow> string list \<times> bool" where
  "take_range sheet c1 c2 r1 r2 cap =
     (case take_cells sheet cap (row_major c1 c2 r1 r2) [] of
        (out, True) \<Rightarrow> (out, True)
      | (out, False) \<Rightarrow> (out, (c2 - c1 + 1) * (r2 - r1 + 1) > int (length out)))"

definition expand_range ::
  "range_ctx \<Rightarrow> string \<Rightarrow> int option \<Rightarrow> SheetUsage option \<Rightarrow> (string list \<times> bool) result" where
  "expand_range ctx target cap_arg usage =
     (let cap = chosen_cap ctx cap_arg in
      bind_result (split_sheet_ref target) (\<lambda>(sheet, body).
        let sheet = (case usage of None \<Rightarrow> sheet | Some u \<Rightarrow> sheet_name u sheet) in
        case re_cell body of
          Some (letters, digits, []) \<Rightarrow>
            Inr ([sheet @ ''!'' @ format_addr (col_to_index letters) (int (int_of_digits digits))], False)
        | _ \<Rightarrow>
            (case rectangle body of
               None \<Rightarrow> Inr ([target], False)
             | Some (c1, c2, r1, r2) \<Rightarrow>
                 (case usage of
                    Some u \<Rightarrow>
                      if whole_axis c1 c2 r1 r2 then
                        Inr (map (\<lambda>(row, col). sheet @ ''!'' @ index_to_col col @ int_str row)
                               (present_pairs sheet c1 c2 r1 r2 u), False)
                      else Inr (take_range sheet c1 c2 r1 r2 cap)
                  | None \<Rightarrow> Inr (take_range sheet c1 c2 r1 r2 cap)))))"

section \<open>Bounds and printed bodies\<close>

lemma rectangle_bounds:
  assumes "rectangle body = Some (c1, c2, r1, r2)"
  shows "1 \<le> c1 \<and> c1 \<le> c2 \<and> 0 \<le> r1 \<and> r1 \<le> r2"
proof -
  have idx: "1 \<le> col_to_index s" if "s \<noteq> []" "list_all re_letter s" for s
    using col_to_index_letters [of s] that by (simp add: list_all_iff)
  show ?thesis
  proof (cases "re_cell_pair body")
    case (Some q)
    obtain l1 d1 l2 d2 where q: "q = (l1, d1, l2, d2)" by (cases q) auto
    from Some q obtain rest where c: "re_cell body = Some (l1, d1, CHR '':'' # rest)"
      "re_cell rest = Some (l2, d2, [])"
      by (auto simp: re_cell_pair_def split: option.splits list.splits if_splits)
    from re_cell_letters_digits [OF c(1)] re_cell_letters_digits [OF c(2)]
    have "1 \<le> col_to_index l1" "1 \<le> col_to_index l2" by (auto intro: idx simp: list_all_iff)
    with Some q assms show ?thesis by (auto simp: rectangle_def Let_def)
  next
    case None
    show ?thesis
    proof (cases "re_cols body")
      case cols: (Some ab)
      then obtain a b where ab: "ab = (a, b)" and "a \<noteq> []" "b \<noteq> []" "list_all re_letter a" "list_all re_letter b"
        by (auto simp: re_cols_def Let_def split: option.splits if_splits)
      then have "1 \<le> col_to_index a" "1 \<le> col_to_index b" by (auto intro: idx)
      with None cols ab assms show ?thesis by (auto simp: rectangle_def Let_def MAX_ROW_def)
    next
      case no_cols: None
      with None assms show ?thesis
        by (auto simp: rectangle_def Let_def MAX_COL_def split: option.splits)
    qed
  qed
qed

lemma area_pos: "c1 \<le> c2 \<Longrightarrow> r1 \<le> r2 \<Longrightarrow> 0 < area c1 c2 r1 r2"
  by (simp add: area_def)

lemma length_row_major:
  assumes "c1 \<le> c2" "r1 \<le> r2"
  shows "int (length (row_major c1 c2 r1 r2)) = area c1 c2 r1 r2"
proof -
  have "length (row_major c1 c2 r1 r2) = nat (r2 - r1 + 1) * nat (c2 - c1 + 1)"
    by (simp add: row_major_def length_concat comp_def sum_list_triv)
  with assms show ?thesis by (simp add: area_def algebra_simps)
qed

lemma take_cells_spec:
  "take_cells sheet cap cells out =
     (out @ map (\<lambda>(row, col). sheet @ ''!'' @ index_to_col col @ int_str row)
        (take (nat (cap - int (length out))) cells),
      nat (cap - int (length out)) < length cells)"
proof (induction sheet cap cells out rule: take_cells.induct)
  case (1 sheet cap out)
  then show ?case by simp
next
  case (2 sheet cap row col cells out)
  show ?case
  proof (cases "int (length out) \<ge> cap")
    case True
    then show ?thesis by simp
  next
    case False
    then have *: "nat (cap - int (length out)) = Suc (nat (cap - (1 + int (length out))))" by linarith
    from False 2 show ?thesis by (simp add: *)
  qed
qed

lemma take_range_spec:
  assumes "c1 \<le> c2" "r1 \<le> r2"
  shows "take_range sheet c1 c2 r1 r2 cap =
    (map (\<lambda>(row, col). sheet @ ''!'' @ index_to_col col @ int_str row)
       (take (nat cap) (row_major c1 c2 r1 r2)), area c1 c2 r1 r2 > max cap 0)"
proof -
  let ?cells = "row_major c1 c2 r1 r2"
  have len: "int (length ?cells) = area c1 c2 r1 r2" by (rule length_row_major [OF assms])
  have iff: "nat cap < length ?cells \<longleftrightarrow> area c1 c2 r1 r2 > max cap 0"
    using len area_pos [OF assms] by linarith
  show ?thesis
  proof (cases "nat cap < length ?cells")
    case True
    with iff show ?thesis by (simp add: take_range_def take_cells_spec)
  next
    case False
    with iff len show ?thesis by (simp add: take_range_def take_cells_spec area_def)
  qed
qed

lemma length_take_range:
  assumes "c1 \<le> c2" "r1 \<le> r2" "0 \<le> cap"
  shows "int (length (fst (take_range sheet c1 c2 r1 r2 cap))) =
    (if area c1 c2 r1 r2 \<le> cap then area c1 c2 r1 r2 else cap)"
proof -
  have "int (length (row_major c1 c2 r1 r2)) = area c1 c2 r1 r2" by (rule length_row_major [OF assms(1,2)])
  with assms(3) show ?thesis by (auto simp: take_range_spec [OF assms(1,2)] min_def)
qed

lemma present_pairs_sheet_name:
  "usage_ok u \<Longrightarrow> present_pairs (sheet_name u sheet) c1 c2 r1 r2 u = present_pairs sheet c1 c2 r1 r2 u"
  by (simp add: present_pairs_def sheet_name_idem)

lemma is_cell_bodyE:
  assumes "is_cell_body body"
  obtains l d where "re_cell body = Some (l, d, [])"
proof (cases "re_cell body")
  case None
  with assms show ?thesis by (simp add: is_cell_body_def)
next
  case (Some q)
  obtain l d rest where q: "q = (l, d, rest)" by (cases q)
  with Some assms that show ?thesis by (cases rest) (simp_all add: is_cell_body_def)
qed

lemma not_cell_body_case:
  "\<not> is_cell_body body \<Longrightarrow>
     (case re_cell body of Some (letters, digits, []) \<Rightarrow> f letters digits | _ \<Rightarrow> x) = x"
  by (auto simp: is_cell_body_def split: option.splits prod.splits list.splits)

lemma expansion_count_expand:
  assumes cap: "0 \<le> chosen_cap ctx cap" and usage: "\<forall>u. usage = Some u \<longrightarrow> usage_ok u"
  shows "expansion_count ctx target cap usage =
    (case expand_range ctx target cap usage of Inl _ \<Rightarrow> 1 | Inr (cells, trunc) \<Rightarrow> int (length cells))"
proof (cases "split_sheet_ref target")
  case (Inl e)
  then show ?thesis by (simp add: expansion_count_def expand_range_def)
next
  case (Inr sb)
  obtain sheet body where sb: "sb = (sheet, body)" by (cases sb)
  show ?thesis
  proof (cases "is_cell_body body")
    case True
    then obtain l d where "re_cell body = Some (l, d, [])" by (rule is_cell_bodyE)
    with Inr sb True show ?thesis by (simp add: expansion_count_def expand_range_def)
  next
    case nocell: False
    have expand: "expand_range ctx target cap usage =
        (case rectangle body of
           None \<Rightarrow> Inr ([target], False)
         | Some (c1, c2, r1, r2) \<Rightarrow>
             (case usage of
                Some u \<Rightarrow>
                  if whole_axis c1 c2 r1 r2 then
                    Inr (map (\<lambda>(row, col). sheet_name u sheet @ ''!'' @ index_to_col col @ int_str row)
                           (present_pairs (sheet_name u sheet) c1 c2 r1 r2 u), False)
                  else Inr (take_range (sheet_name u sheet) c1 c2 r1 r2 (chosen_cap ctx cap))
              | None \<Rightarrow> Inr (take_range sheet c1 c2 r1 r2 (chosen_cap ctx cap))))"
      using Inr sb nocell
      by (cases usage) (simp_all add: expand_range_def Let_def not_cell_body_case cong: option.case_cong)
    show ?thesis
    proof (cases "rectangle body")
      case None
      with nocell Inr sb expand show ?thesis by (simp add: expansion_count_def)
    next
      case (Some q)
      obtain c1 c2 r1 r2 where q: "q = (c1, c2, r1, r2)" by (cases q) auto
      have b: "c1 \<le> c2" "r1 \<le> r2" using rectangle_bounds Some q by blast+
      note len = length_take_range [OF b cap]
      have count: "expansion_count ctx target cap usage =
          (case usage of
             Some u \<Rightarrow> if whole_axis c1 c2 r1 r2 then present_count sheet c1 c2 r1 r2 u
               else if area c1 c2 r1 r2 \<le> chosen_cap ctx cap then area c1 c2 r1 r2 else chosen_cap ctx cap
           | None \<Rightarrow> if area c1 c2 r1 r2 \<le> chosen_cap ctx cap then area c1 c2 r1 r2 else chosen_cap ctx cap)"
        using nocell Inr sb Some q area_pos [OF b] by (simp add: expansion_count_def Let_def)
      show ?thesis
      proof (cases usage)
        case None
        with count expand Some q len [of sheet] show ?thesis by (simp add: case_prod_beta)
      next
        case (Some u)
        with usage have ok: "usage_ok u" by simp
        from Some count expand \<open>rectangle body = Some q\<close> q len [of "sheet_name u sheet"]
          present_count_length [OF ok b(2), of sheet c1 c2] present_pairs_sheet_name [OF ok]
        show ?thesis by (simp add: case_prod_beta)
      qed
    qed
  qed
qed


section \<open>The printed id reads back\<close>

lemma re_cell_printed:
  assumes "1 \<le> col" "0 \<le> row" "case rest of [] \<Rightarrow> True | c # _ \<Rightarrow> \<not> re_digit c"
  shows "re_cell (index_to_col col @ int_str row @ rest) = Some (index_to_col col, int_str row, rest)"
proof -
  have d: "\<forall>c \<in> set (int_str row). re_digit c" "int_str row \<noteq> []"
    using assms(2) by (auto simp: int_str_def)
  show ?thesis
    using re_cell_plain [of "index_to_col col" "int_str row" rest] d assms(3) by simp
qed

lemma int_of_digits_int_str: "0 \<le> row \<Longrightarrow> int (int_of_digits (int_str row)) = row"
  by (simp add: int_str_def)

lemma rectangle_cells:
  assumes "1 \<le> c1" "c1 \<le> c2" "0 \<le> r1" "r1 \<le> r2"
  shows "rectangle (index_to_col c1 @ int_str r1 @ '':'' @ index_to_col c2 @ int_str r2) = Some (c1, c2, r1, r2)"
proof -
  from assms have "re_cell_pair (index_to_col c1 @ int_str r1 @ '':'' @ index_to_col c2 @ int_str r2) =
      Some (index_to_col c1, int_str r1, index_to_col c2, int_str r2)"
    using re_cell_printed [of c2 r2 "[]"] by (simp add: re_cell_pair_def re_cell_printed)
  with assms show ?thesis by (simp add: rectangle_def Let_def int_of_digits_int_str)
qed

lemma letters_plain:
  assumes "ls \<noteq> []" "\<forall>c \<in> set ls. re_letter c"
  shows "CHR '':'' \<notin> set ls" "snd (drop_dollar ls) = ls" "list_all re_letter ls"
  using assms by (auto simp: list_all_iff drop_dollar_def split: list.splits)

lemma digits_plain:
  assumes "ds \<noteq> []" "\<forall>c \<in> set ds. re_digit c"
  shows "CHR '':'' \<notin> set ds" "snd (drop_dollar ds) = ds" "list_all re_digit ds"
  using assms by (auto simp: list_all_iff drop_dollar_def split: list.splits)

lemma rectangle_columns:
  assumes "1 \<le> c1" "c1 \<le> c2"
  shows "rectangle (index_to_col c1 @ '':'' @ index_to_col c2) = Some (c1, c2, 1, MAX_ROW)"
proof -
  let ?b = "index_to_col c1 @ '':'' @ index_to_col c2"
  have l: "\<forall>c \<in> set (index_to_col c1). re_letter c" "\<forall>c \<in> set (index_to_col c2). re_letter c" by auto
  note p1 = letters_plain [OF index_to_col_not_Nil l(1)] and p2 = letters_plain [OF index_to_col_not_Nil l(2)]
  have "dropWhile re_letter (index_to_col c1 @ CHR '':'' # index_to_col c2) = CHR '':'' # index_to_col c2"
    using dropWhile_run [OF l(1), of "CHR '':'' # index_to_col c2"] by simp
  moreover have "snd (drop_dollar (index_to_col c1 @ CHR '':'' # index_to_col c2)) = index_to_col c1 @ CHR '':'' # index_to_col c2"
    using p1(2) index_to_col_not_Nil [of c1] by (cases "index_to_col c1") (auto simp: drop_dollar_def split: if_splits)
  ultimately have "re_cell ?b = None" by (simp add: re_cell_def Let_def drop_dollar_def)
  then have "re_cell_pair ?b = None" by (simp add: re_cell_pair_def)
  moreover have "re_cols ?b = Some (index_to_col c1, index_to_col c2)" using p1 p2 by (simp add: re_cols_def)
  ultimately show ?thesis using assms by (simp add: rectangle_def Let_def)
qed

lemma rectangle_rows:
  assumes "0 \<le> r1" "r1 \<le> r2"
  shows "rectangle (int_str r1 @ '':'' @ int_str r2) = Some (1, MAX_COL, r1, r2)"
proof -
  let ?b = "int_str r1 @ '':'' @ int_str r2"
  have d: "\<forall>c \<in> set (int_str r1). re_digit c" "\<forall>c \<in> set (int_str r2). re_digit c" and n: "int_str r1 \<noteq> []" "int_str r2 \<noteq> []"
    using assms by (auto simp: int_str_def)
  note p1 = digits_plain [OF n(1) d(1)] and p2 = digits_plain [OF n(2) d(2)]
  obtain x xs where x: "int_str r1 = x # xs" using n(1) by (cases "int_str r1") auto
  have hx: "re_digit x" "x \<noteq> CHR ''$''" using d(1) x by auto
  then have "re_cell ?b = None" by (simp add: re_cell_def Let_def x drop_dollar_def)
  then have "re_cell_pair ?b = None" by (simp add: re_cell_pair_def)
  moreover have "\<not> list_all re_letter (int_str r1)" using x hx(1) by simp
  then have "re_cols ?b = None" using p1 by (simp add: re_cols_def Let_def)
  moreover have "re_rows ?b = Some (int_str r1, int_str r2)" using p1 p2 n by (simp add: re_rows_def)
  ultimately show ?thesis using assms by (simp add: rectangle_def Let_def int_of_digits_int_str)
qed

definition range_body :: "int \<Rightarrow> int \<Rightarrow> int \<Rightarrow> int \<Rightarrow> string" where
  "range_body c1 c2 r1 r2 =
     (if r1 = 1 \<and> r2 = MAX_ROW then index_to_col c1 @ '':'' @ index_to_col c2
      else if c1 = 1 \<and> c2 = MAX_COL then int_str r1 @ '':'' @ int_str r2
      else index_to_col c1 @ int_str r1 @ '':'' @ index_to_col c2 @ int_str r2)"

lemma range_node_id_body: "range_node_id sheet c1 c2 r1 r2 = sheet @ ''!'' @ range_body c1 c2 r1 r2"
  by (simp add: range_node_id_def range_body_def)

lemma rectangle_range_body:
  "1 \<le> c1 \<Longrightarrow> c1 \<le> c2 \<Longrightarrow> 0 \<le> r1 \<Longrightarrow> r1 \<le> r2 \<Longrightarrow>
     rectangle (range_body c1 c2 r1 r2) = Some (c1, c2, r1, r2)"
  by (simp add: range_body_def rectangle_cells [simplified] rectangle_columns [simplified]
      rectangle_rows [simplified])

lemma int_str_no: "0 \<le> r \<Longrightarrow> CHR ''!'' \<notin> set (int_str r)"
  using nat_str_digit [of "CHR ''!''" "nat r"] by (auto simp: int_str_def)

lemma index_to_col_no: "CHR ''!'' \<notin> set (index_to_col c)"
  using index_to_col_letter by fastforce

lemma range_body_chars:
  assumes "0 \<le> r1" "r1 \<le> r2"
  shows "CHR ''!'' \<notin> set (range_body c1 c2 r1 r2)" "CHR '':'' \<in> set (range_body c1 c2 r1 r2)"
  using assms by (auto simp: range_body_def int_str_no index_to_col_no)

lemma parse_range_node_id:
  assumes "1 \<le> c1" "c1 \<le> c2" "0 \<le> r1" "r1 \<le> r2"
  shows "parse_range_node (range_node_id sheet c1 c2 r1 r2) =
    Some \<lparr>node_id = range_node_id sheet c1 c2 r1 r2, rn_sheet = sheet,
          rn_c1 = c1, rn_c2 = c2, rn_r1 = r1, rn_r2 = r2\<rparr>"
  using assms range_body_chars [OF assms(3,4), of c1 c2]
  by (simp add: parse_range_node_def is_range_node_def range_node_id_body rectangle_range_body)

lemma range_node_for_Some:
  assumes "range_node_for ctx target usage = Some node"
  obtains u sheet body c1 c2 r1 r2 where "usage = Some u" "split_sheet_ref target = Inr (sheet, body)"
    "rectangle body = Some (c1, c2, r1, r2)"
    "node = \<lparr>node_id = range_node_id (sheet_name u sheet) c1 c2 r1 r2, rn_sheet = sheet_name u sheet,
       rn_c1 = c1, rn_c2 = c2, rn_r1 = r1, rn_r2 = r2\<rparr>"
    "whole_axis c1 c2 r1 r2 \<or> area c1 c2 r1 r2 > active_range_node_min_cells ctx"
proof (cases usage)
  case None
  with assms show ?thesis by (simp add: range_node_for_def)
next
  case u: (Some u)
  show ?thesis
  proof (cases "split_sheet_ref target")
    case (Inl e)
    with assms u show ?thesis by (simp add: range_node_for_def)
  next
    case (Inr sb)
    obtain sheet body where sb: "sb = (sheet, body)" by (cases sb)
    show ?thesis
    proof (cases "rectangle body")
      case None
      with assms u Inr sb show ?thesis by (simp add: range_node_for_def split: if_splits)
    next
      case (Some q)
      obtain c1 c2 r1 r2 where q: "q = (c1, c2, r1, r2)" by (cases q) auto
      from assms u Inr sb Some q show ?thesis
        by (intro that [of u sheet body c1 c2 r1 r2])
          (auto simp: range_node_for_def Let_def not_le split: if_splits)
    qed
  qed
qed


section \<open>Properties\<close>

text \<open>
  Range nodes: whenever \<open>range_node_for\<close> turns a range reference into a node, the node id
  it prints is recognised by \<open>is_range_node\<close>, \<open>parse_range_node\<close> reads the very same node back
  from it (sheet and bounds, for the whole-column, whole-row and rectangular spelling), the
  bounds are ordered, and the node is one that was worth making: a whole axis or more cells
  than the job's threshold.
\<close>

theorem range_node_roundtrip:
  assumes "range_node_for ctx target usage = Some node"
  shows "is_range_node (node_id node) \<and> parse_range_node (node_id node) = Some node
    \<and> 1 \<le> rn_c1 node \<and> rn_c1 node \<le> rn_c2 node \<and> 0 \<le> rn_r1 node \<and> rn_r1 node \<le> rn_r2 node
    \<and> (whole_axis (rn_c1 node) (rn_c2 node) (rn_r1 node) (rn_r2 node)
       \<or> area (rn_c1 node) (rn_c2 node) (rn_r1 node) (rn_r2 node) > active_range_node_min_cells ctx)"
proof -
  from assms obtain u sheet body c1 c2 r1 r2 where
    r: "rectangle body = Some (c1, c2, r1, r2)"
    and node: "node = \<lparr>node_id = range_node_id (sheet_name u sheet) c1 c2 r1 r2, rn_sheet = sheet_name u sheet,
       rn_c1 = c1, rn_c2 = c2, rn_r1 = r1, rn_r2 = r2\<rparr>"
    and big: "whole_axis c1 c2 r1 r2 \<or> area c1 c2 r1 r2 > active_range_node_min_cells ctx"
    by (rule range_node_for_Some)
  from rectangle_bounds [OF r] have b: "1 \<le> c1" "c1 \<le> c2" "0 \<le> r1" "r1 \<le> r2" by blast+
  have p: "parse_range_node (node_id node) = Some node" using parse_range_node_id [OF b] by (simp add: node)
  then have "is_range_node (node_id node)" by (auto simp: parse_range_node_def split: if_splits)
  with p b big show ?thesis by (simp add: node)
qed

definition usage_example :: SheetUsage where
  "usage_example = sheet_usage_spans [(''Data'', 1, 1, 3), (''Data'', 2, 2, 2)]"

theorem range_node_roundtrip_witness:
  "\<exists>node. range_node_for \<lparr>bound_cap = None, bound_node_min = None\<rparr> ''data!$B:A'' (Some usage_example) = Some node
     \<and> node_id node = ''Data!A:B'' \<and> parse_range_node ''Data!A:B'' = Some node"
proof -
  let ?ctx = "\<lparr>bound_cap = None, bound_node_min = None\<rparr>"
  let ?n = "\<lparr>node_id = ''Data!A:B'', rn_sheet = ''Data'', rn_c1 = 1, rn_c2 = 2, rn_r1 = 1, rn_r2 = 1048576\<rparr>"
  have e: "range_node_for ?ctx ''data!$B:A'' (Some usage_example) = Some ?n" by code_simp
  from range_node_roundtrip [OF e] e show ?thesis by auto
qed

text \<open>
  Range expansion: for every target, cap and usage index the count that the memory
  estimate relies on (\<open>expansion_count\<close>) is the number of cells \<open>expand_range\<close> emits (one for a
  target with no sheet, which \<open>expand_range\<close> rejects and the caller keeps as one row); the
  index is any that satisfies the invariant of the built indexes, and the cap is not negative.
\<close>

theorem expansion_count_is_expansion_length:
  assumes "0 \<le> chosen_cap ctx cap" and "\<forall>u. usage = Some u \<longrightarrow> usage_ok u"
  shows "expansion_count ctx target cap usage =
    (case expand_range ctx target cap usage of Inl _ \<Rightarrow> 1 | Inr (cells, trunc) \<Rightarrow> int (length cells))"
  by (rule expansion_count_expand [OF assms])

theorem expansion_count_is_expansion_length_witness:
  "expansion_count \<lparr>bound_cap = Some 3, bound_node_min = None\<rparr> ''Data!A1:B2'' None (Some usage_example) = 3
   \<and> expand_range \<lparr>bound_cap = Some 3, bound_node_min = None\<rparr> ''Data!A1:B2'' None (Some usage_example) =
       Inr ([''Data!A1'', ''Data!B1'', ''Data!A2''], True)"
proof -
  let ?ctx = "\<lparr>bound_cap = Some 3, bound_node_min = None\<rparr>"
  have e: "expand_range ?ctx ''Data!A1:B2'' None (Some usage_example) =
      Inr ([''Data!A1'', ''Data!B1'', ''Data!A2''], True)" by code_simp
  have "0 \<le> chosen_cap ?ctx None" by (simp add: chosen_cap_def active_range_cap_def)
  moreover have "\<forall>u. Some usage_example = Some u \<longrightarrow> usage_ok u"
    by (simp add: usage_example_def usage_ok_sheet_usage_spans)
  ultimately show ?thesis
    using expansion_count_is_expansion_length [of ?ctx None "Some usage_example" "''Data!A1:B2''"] e by simp
qed

text \<open>
  A bounded rectangle expands to its cells in row-major order, cut at the cap, and the
  truncation flag says exactly whether cells were left out.
\<close>

theorem expand_range_rectangle:
  assumes "1 \<le> c1" "c1 \<le> c2" "0 \<le> r1" "r1 \<le> r2" "0 \<le> cap"
    and "\<not> whole_axis c1 c2 r1 r2" "sheet \<noteq> []" "CHR ''!'' \<notin> set sheet" "hd sheet \<noteq> CHR 0x27"
  shows "expand_range ctx (range_node_id sheet c1 c2 r1 r2) (Some cap) None =
    Inr (map (\<lambda>(row, col). sheet @ ''!'' @ format_addr col row) (take (nat cap) (row_major c1 c2 r1 r2)),
         cap < area c1 c2 r1 r2)"
proof -
  have s: "take 1 (range_node_id sheet c1 c2 r1 r2) \<noteq> [CHR 0x27]"
    using assms(7,9) by (cases sheet) (simp_all add: range_node_id_body)
  have sp: "split_sheet_ref (range_node_id sheet c1 c2 r1 r2) = Inr (sheet, range_body c1 c2 r1 r2)"
    using s assms(8) by (simp add: split_sheet_ref_def) (simp add: range_node_id_body)
  have r: "rectangle (range_body c1 c2 r1 r2) = Some (c1, c2, r1, r2)"
    using assms(1-4) by (rule rectangle_range_body)
  have "\<not> is_cell_body (range_body c1 c2 r1 r2)"
  proof
    assume "is_cell_body (range_body c1 c2 r1 r2)"
    then obtain l d where ld: "re_cell (range_body c1 c2 r1 r2) = Some (l, d, [])" by (rule is_cell_bodyE)
    have "range_body c1 c2 r1 r2 = index_to_col c1 @ int_str r1 @ '':'' @ index_to_col c2 @ int_str r2"
      using assms(6) by (auto simp: range_body_def whole_axis_def)
    with re_cell_printed [of c1 r1 "'':'' @ index_to_col c2 @ int_str r2"] assms(1,3) ld show False by simp
  qed
  then show ?thesis
    using sp r assms(5,6) area_pos [OF assms(2,4)]
    by (simp add: expand_range_def not_cell_body_case chosen_cap_def take_range_spec [OF assms(2,4)] format_addr_def max_def)
qed

theorem expand_range_rectangle_witness:
  "expand_range \<lparr>bound_cap = None, bound_node_min = None\<rparr> (range_node_id ''S'' 1 2 1 2) (Some 3) None =
     Inr ([''S!A1'', ''S!B1'', ''S!A2''], True)"
proof -
  have w: "\<not> whole_axis 1 2 1 2" "(3::int) < area 1 2 1 2" by code_simp+
  have "map (\<lambda>(row, col). ''S'' @ ''!'' @ format_addr col row) (take (nat 3) (row_major 1 2 1 2)) =
      [''S!A1'', ''S!B1'', ''S!A2'']" by code_simp
  with expand_range_rectangle [of 1 2 1 2 3 "''S''" "\<lparr>bound_cap = None, bound_node_min = None\<rparr>"] w
  show ?thesis by simp
qed

end
