(* ===== verification/Batches.thy ===== *)
theory Batches
  imports Prelude
begin

text \<open>
  Reference functions on lists that several writers of the program implement with mutable
  buffers: the first element of each key (\<open>first_by\<close>), and the cut of a list into groups of a
  fixed size (\<open>chunks\<close>). The component theories prove their loops equal to these.
\<close>

section \<open>First element of each key\<close>

fun first_by :: "('a \<Rightarrow> 'k) \<Rightarrow> 'k set \<Rightarrow> 'a list \<Rightarrow> 'a list" where
  "first_by key seen [] = []"
| "first_by key seen (x # xs) =
     (if key x \<in> seen then first_by key seen xs else x # first_by key (insert (key x) seen) xs)"

lemma first_by_append:
  "first_by key seen (xs @ ys) = first_by key seen xs @ first_by key (seen \<union> key ` set xs) ys"
  by (induction xs arbitrary: seen) (auto simp: insert_absorb)

lemma set_first_by: "set (first_by key seen xs) \<subseteq> set xs"
  by (induction xs arbitrary: seen) auto

lemma keys_first_by: "key ` set (first_by key seen xs) = key ` set xs - seen"
  by (induction xs arbitrary: seen) auto

lemma distinct_first_by: "distinct (map key (first_by key seen xs))"
proof (induction xs arbitrary: seen)
  case Nil
  then show ?case by simp
next
  case (Cons x xs)
  have "key x \<notin> key ` set (first_by key (insert (key x) seen) xs)"
    unfolding keys_first_by by simp
  with Cons show ?case by simp
qed

lemma first_by_first:
  assumes "x \<in> set (first_by key seen xs)"
  shows "\<exists>us vs. xs = us @ x # vs \<and> key x \<notin> key ` set us"
  using assms
proof (induction xs arbitrary: seen)
  case Nil
  then show ?case by simp
next
  case (Cons y ys)
  have from_tail: ?case if "x \<in> set (first_by key s ys)" "key y \<in> s" for s
  proof -
    from Cons.IH [OF that(1)] obtain us vs where u: "ys = us @ x # vs" "key x \<notin> key ` set us" by blast
    have "key x \<in> key ` set (first_by key s ys)" using that(1) by simp
    then have "key x \<notin> s" unfolding keys_first_by by simp
    with that(2) have "key x \<noteq> key y" by metis
    with u(2) have "key x \<notin> key ` set (y # us)" by simp
    moreover have "y # ys = (y # us) @ x # vs" unfolding u(1) by simp
    ultimately show ?thesis by blast
  qed
  show ?case
  proof (cases "key y \<in> seen")
    case True
    with Cons.prems from_tail show ?thesis by simp
  next
    case False
    with Cons.prems have "x = y \<or> x \<in> set (first_by key (insert (key y) seen) ys)" by simp
    then show ?thesis
    proof
      assume "x = y"
      then have "y # ys = [] @ x # ys" "key x \<notin> key ` set []" by simp_all
      then show ?thesis by blast
    next
      assume "x \<in> set (first_by key (insert (key y) seen) ys)"
      then show ?thesis by (rule from_tail) simp
    qed
  qed
qed

lemma first_by_cong:
  assumes "\<And>x y. x \<in> set xs \<Longrightarrow> y \<in> set xs \<Longrightarrow> key x = key y \<longleftrightarrow> key' x = key' y"
    and "\<And>x. x \<in> set xs \<Longrightarrow> key x \<in> seen \<longleftrightarrow> key' x \<in> seen'"
  shows "first_by key seen xs = first_by key' seen' xs"
  using assms
proof (induction xs arbitrary: seen seen')
  case Nil
  then show ?case by simp
next
  case (Cons x xs)
  have *: "key x \<in> seen \<longleftrightarrow> key' x \<in> seen'" using Cons.prems(2) by simp
  show ?case
  proof (cases "key x \<in> seen")
    case True
    with * Cons.prems show ?thesis by (simp add: Cons.IH)
  next
    case False
    have "first_by key (insert (key x) seen) xs = first_by key' (insert (key' x) seen') xs"
      using Cons.prems by (intro Cons.IH) auto
    with False * show ?thesis by simp
  qed
qed

lemma first_by_map: "first_by key seen (map f xs) = map f (first_by (\<lambda>x. key (f x)) seen xs)"
  by (induction xs arbitrary: seen) simp_all

text \<open>Each value forms one run.\<close>

fun contiguous :: "'a list \<Rightarrow> bool" where
  "contiguous [] = True"
| "contiguous (x # xs) \<longleftrightarrow> x \<notin> set (dropWhile (\<lambda>y. y = x) xs) \<and> contiguous xs"

lemma contiguous_replicate:
  assumes "contiguous ys" "x \<notin> set (dropWhile (\<lambda>y. y = x) ys)"
  shows "contiguous (replicate n x @ ys)"
proof (induction n)
  case 0
  with assms show ?case by simp
next
  case (Suc n)
  have "dropWhile (\<lambda>y. y = x) (replicate n x @ ys) = dropWhile (\<lambda>y. y = x) ys"
    by (induction n) simp_all
  with Suc assms show ?case by simp
qed

lemma contiguous_concat_replicate:
  assumes "contiguous (map f xs)"
  shows "contiguous (concat (map (\<lambda>x. replicate (n x) (f x)) xs))"
  using assms
proof (induction xs)
  case Nil
  then show ?case by simp
next
  case (Cons x xs)
  have absent: "v \<notin> set (concat (map (\<lambda>x. replicate (n x) (f x)) ys))" if "v \<notin> set (map f ys)" for v ys
    using that by auto
  have "v \<notin> set (dropWhile (\<lambda>y. y = v) (concat (map (\<lambda>x. replicate (n x) (f x)) ys)))"
    if "v \<notin> set (dropWhile (\<lambda>y. y = v) (map f ys))" for v ys
    using that
  proof (induction ys)
    case Nil
    then show ?case by simp
  next
    case (Cons y ys)
    show ?case
    proof (cases "f y = v")
      case True
      have "dropWhile (\<lambda>y. y = v) (replicate k v @ zs) = dropWhile (\<lambda>y. y = v) zs" for k zs
        by (induction k) simp_all
      with True Cons show ?thesis by simp
    next
      case False
      with Cons.prems have "v \<notin> set (map f (y # ys))" by auto
      from absent [OF this] show ?thesis by (meson set_dropWhileD)
    qed
  qed
  with Cons show ?case by (auto intro: contiguous_replicate)
qed

section \<open>Groups of a fixed size\<close>

text \<open>The size 0 stands for one group with everything; no group is empty.\<close>

function chunks :: "nat \<Rightarrow> 'a list \<Rightarrow> 'a list list" where
  "chunks n xs = (if xs = [] then [] else if n = 0 then [xs] else take n xs # chunks n (drop n xs))"
  by pat_completeness auto
termination by (relation "measure (\<lambda>(n, xs). length xs)") auto

declare chunks.simps [simp del]

lemma chunks_Nil [simp]: "chunks n [] = []"
  by (simp add: chunks.simps)

lemma chunks_zero [simp]: "chunks 0 xs = (if xs = [] then [] else [xs])"
  by (simp add: chunks.simps)

lemma concat_chunks [simp]: "concat (chunks n xs) = xs"
  by (induction n xs rule: chunks.induct) (subst chunks.simps, simp)

lemma chunks_short: "length xs \<le> n \<Longrightarrow> xs \<noteq> [] \<Longrightarrow> chunks n xs = [xs]"
  by (subst chunks.simps) simp

lemma chunks_full: "n \<noteq> 0 \<Longrightarrow> length xs = n \<Longrightarrow> chunks n (xs @ ys) = xs # chunks n ys"
  by (subst chunks.simps) auto

lemma chunks_groups: "g \<in> set (chunks n xs) \<Longrightarrow> g \<noteq> [] \<and> (n \<noteq> 0 \<longrightarrow> length g \<le> n)"
proof (induction n xs rule: chunks.induct)
  case (1 n xs)
  then show ?case by (subst (asm) (2) chunks.simps) (auto split: if_splits)
qed

text \<open>
  A buffer that is emptied whenever it reaches the group size, and once at the end, sees
  exactly the groups.
\<close>

fun buffer_groups :: "nat \<Rightarrow> 'a list \<Rightarrow> 'a list \<Rightarrow> 'a list list \<times> 'a list" where
  "buffer_groups n buf [] = ([], buf)"
| "buffer_groups n buf (x # xs) =
     (if n \<noteq> 0 \<and> n \<le> length buf + 1 then
        (let (gs, rest) = buffer_groups n [] xs in ((buf @ [x]) # gs, rest))
      else buffer_groups n (buf @ [x]) xs)"

lemma buffer_groups_snoc:
  "buffer_groups n buf (xs @ [x]) =
    (case buffer_groups n buf xs of (gs, rest) \<Rightarrow>
       if n \<noteq> 0 \<and> n \<le> length rest + 1 then (gs @ [rest @ [x]], []) else (gs, rest @ [x]))"
  by (induction n buf xs rule: buffer_groups.induct) (auto simp: case_prod_beta Let_def)

lemma concat_buffer_groups: "concat (fst (buffer_groups n buf xs)) @ snd (buffer_groups n buf xs) = buf @ xs"
  by (induction n buf xs rule: buffer_groups.induct) (auto simp: case_prod_beta Let_def)

lemma buffer_groups_full:
  assumes "n = 0 \<or> length buf < n"
  shows "(\<forall>g \<in> set (fst (buffer_groups n buf xs)). length g = n \<and> n \<noteq> 0)
    \<and> (n = 0 \<or> length (snd (buffer_groups n buf xs)) < n)"
  using assms
proof (induction n buf xs rule: buffer_groups.induct)
  case (1 n buf)
  then show ?case by simp
next
  case (2 n buf x xs)
  show ?case
  proof (cases "n \<noteq> 0 \<and> n \<le> length buf + 1")
    case True
    with 2 show ?thesis by (simp add: case_prod_beta Let_def)
  next
    case False
    then have "n = 0 \<or> length (buf @ [x]) < n" by auto
    note IH = "2.IH"(2) [OF False this]
    have "buffer_groups n buf (x # xs) = buffer_groups n (buf @ [x]) xs"
      using False by (simp only: buffer_groups.simps if_False)
    with IH show ?thesis by metis
  qed
qed

lemma buffer_groups_chunks:
  assumes "n = 0 \<or> length buf < n"
  shows "fst (buffer_groups n buf xs) @ (let r = snd (buffer_groups n buf xs) in if r = [] then [] else [r])
    = chunks n (buf @ xs)"
  using assms
proof (induction n buf xs rule: buffer_groups.induct)
  case (1 n buf)
  then show ?case by (auto simp: chunks_short)
next
  case (2 n buf x xs)
  show ?case
  proof (cases "n \<noteq> 0 \<and> n \<le> length buf + 1")
    case True
    with 2 have len: "length (buf @ [x]) = n" by auto
    have "chunks n (buf @ x # xs) = (buf @ [x]) # chunks n xs"
      using chunks_full [of n "buf @ [x]" xs] True len by simp
    with True 2 show ?thesis by (simp add: case_prod_beta Let_def)
  next
    case False
    with 2 show ?thesis by auto
  qed
qed

end
