(* ===== verification/Cell_Edges.thy ===== *)
theory Cell_Edges
  imports Range_Nodes Batches
begin

text \<open>
  From formula edges to cell edges: the records of \<open>src/finance_context/formulas/models.py\<close>
  and \<open>formulas/csr.py\<close>, the classification of a member cell, the rows of one formula edge,
  the de-duplicated list \<open>expand_cell_edges\<close> and its column-batch variant, which hands full
  column lists to a consumer. A dict read from a parquet row is a map to \<open>pval\<close>, the values
  such a row can hold.

  The set of known cells enters as its membership test; the theory of known nodes shows that
  the compiler's index answers that test like a set.
\<close>

section \<open>Values of a parquet row\<close>

datatype pval = PNone | PBool bool | PInt int | PText string

type_synonym row_dict = "string \<rightharpoonup> pval"

definition dict_value :: "row_dict \<Rightarrow> string \<Rightarrow> pval" where
  "dict_value value key = (case value key of None \<Rightarrow> PNone | Some v \<Rightarrow> v)"

fun py_bool :: "pval \<Rightarrow> bool" where
  "py_bool PNone = False"
| "py_bool (PBool b) = b"
| "py_bool (PInt i) = (i \<noteq> 0)"
| "py_bool (PText s) = (s \<noteq> [])"

fun py_str_of :: "pval \<Rightarrow> string" where
  "py_str_of PNone = ''None''"
| "py_str_of (PBool b) = (if b then ''True'' else ''False'')"
| "py_str_of (PInt i) = int_str i"
| "py_str_of (PText s) = s"

text \<open>
  \<open>int(text)\<close>: surrounding white space, one sign and single underscores between digits are
  allowed.
\<close>

fun digit_groups :: "bool \<Rightarrow> string \<Rightarrow> string option" where
  "digit_groups after_digit [] = (if after_digit then Some [] else None)"
| "digit_groups after_digit (c # s) =
     (if re_digit c then map_option (Cons c) (digit_groups True s)
      else if c = CHR ''_'' \<and> after_digit then digit_groups False s
      else None)"

definition py_strip :: "string \<Rightarrow> string" where
  "py_strip s = rev (dropWhile py_isspace (rev (dropWhile py_isspace s)))"

definition py_int_text :: "string \<Rightarrow> int result" where
  "py_int_text s =
     (let t = py_strip s;
          neg = (take 1 t = ''-'');
          body = (if take 1 t = ''-'' \<or> take 1 t = ''+'' then drop 1 t else t)
      in case digit_groups False body of
           None \<Rightarrow> Inl (ValueError s)
         | Some ds \<Rightarrow> Inr (if neg then - int (int_of_digits ds) else int (int_of_digits ds)))"

fun py_int_of :: "pval \<Rightarrow> int result" where
  "py_int_of PNone = Inl (ValueError ''None'')"
| "py_int_of (PBool b) = Inr (if b then 1 else 0)"
| "py_int_of (PInt i) = Inr i"
| "py_int_of (PText s) = py_int_text s"

definition opt_bool :: "pval \<Rightarrow> bool option" where
  "opt_bool value = (if value = PNone then None else Some (py_bool value))"

definition opt_text :: "pval \<Rightarrow> string option" where
  "opt_text value = (if value = PNone then None else Some (py_str_of value))"

definition opt_int :: "pval \<Rightarrow> int option result" where
  "opt_int value = (if value = PNone then Inr None else bind_result (py_int_of value) (\<lambda>i. Inr (Some i)))"

text \<open>\<open>str(value.get(key) or "")\<close>.\<close>

definition text_or_empty :: "pval \<Rightarrow> string" where
  "text_or_empty value = (if py_bool value then py_str_of value else [])"

section \<open>Records\<close>

record Edge =
  e_kind :: string
  e_source :: string
  e_target :: "string option"
  e_unresolved :: bool
  e_truncated :: bool
  e_abs_col :: "bool option"
  e_abs_row :: "bool option"
  e_abs_col_end :: "bool option"
  e_abs_row_end :: "bool option"
  e_named :: bool

record CellEdge =
  ce_source :: string
  ce_target :: string
  ce_kind :: string
  ce_unresolved :: bool
  ce_truncated :: bool
  ce_dangling :: bool
  ce_dangling_reason :: "string option"
  ce_status :: "string option"
  ce_reason :: "string option"
  ce_evidence :: "string option"
  ce_range_ref :: "string option"
  ce_abs_col :: "bool option"
  ce_abs_row :: "bool option"
  ce_abs_col_end :: "bool option"
  ce_abs_row_end :: "bool option"
  ce_named :: bool
  ce_col_offset :: "int option"
  ce_period_lag :: "string option"

record MemberStatus =
  ms_dangling_reason :: "string option"
  ms_dangling :: bool
  ms_status :: "string option"
  ms_reason :: "string option"
  ms_evidence :: "string option"

record EdgeRow =
  er_source :: string
  er_target :: string
  er_kind :: string
  er_unresolved :: bool
  er_truncated :: bool
  er_range_ref :: "string option"
  er_abs_col :: "bool option"
  er_abs_row :: "bool option"
  er_abs_col_end :: "bool option"
  er_abs_row_end :: "bool option"
  er_named :: bool
  er_member_kind :: "string option"

datatype 'a either_dict = AsObject 'a | AsDict row_dict

definition as_edge :: "Edge either_dict \<Rightarrow> Edge" where
  "as_edge value =
     (case value of
        AsObject edge \<Rightarrow> edge
      | AsDict d \<Rightarrow>
          \<lparr>e_kind = (if py_bool (dict_value d ''kind'') then py_str_of (dict_value d ''kind'') else ''ref''),
           e_source = text_or_empty (dict_value d ''source''),
           e_target = opt_text (dict_value d ''target''),
           e_unresolved = py_bool (dict_value d ''unresolved''),
           e_truncated = py_bool (dict_value d ''truncated''),
           e_abs_col = opt_bool (dict_value d ''abs_col''),
           e_abs_row = opt_bool (dict_value d ''abs_row''),
           e_abs_col_end = opt_bool (dict_value d ''abs_col_end''),
           e_abs_row_end = opt_bool (dict_value d ''abs_row_end''),
           e_named = py_bool (dict_value d ''named'')\<rparr>)"

definition as_cell_edge :: "CellEdge either_dict \<Rightarrow> CellEdge result" where
  "as_cell_edge value =
     (case value of
        AsObject edge \<Rightarrow> Inr edge
      | AsDict d \<Rightarrow>
          bind_result (opt_int (dict_value d ''col_offset'')) (\<lambda>offset.
          Inr \<lparr>ce_source = text_or_empty (dict_value d ''source''),
               ce_target = text_or_empty (dict_value d ''target''),
               ce_kind = text_or_empty (dict_value d ''kind''),
               ce_unresolved = py_bool (dict_value d ''unresolved''),
               ce_truncated = py_bool (dict_value d ''truncated''),
               ce_dangling = py_bool (dict_value d ''dangling''),
               ce_dangling_reason = opt_text (dict_value d ''dangling_reason''),
               ce_status = opt_text (dict_value d ''status''),
               ce_reason = opt_text (dict_value d ''reason''),
               ce_evidence = opt_text (dict_value d ''evidence''),
               ce_range_ref = opt_text (dict_value d ''range_ref''),
               ce_abs_col = opt_bool (dict_value d ''abs_col''),
               ce_abs_row = opt_bool (dict_value d ''abs_row''),
               ce_abs_col_end = opt_bool (dict_value d ''abs_col_end''),
               ce_abs_row_end = opt_bool (dict_value d ''abs_row_end''),
               ce_named = py_bool (dict_value d ''named''),
               ce_col_offset = offset,
               ce_period_lag = opt_text (dict_value d ''period_lag'')\<rparr>))"

section \<open>Classification of a member\<close>

definition UNCLASSIFIED :: MemberStatus where
  "UNCLASSIFIED = \<lparr>ms_dangling_reason = None, ms_dangling = False, ms_status = None,
     ms_reason = None, ms_evidence = None\<rparr>"

definition blank :: "string \<Rightarrow> string \<Rightarrow> MemberStatus" where
  "blank klass evidence = \<lparr>ms_dangling_reason = Some klass, ms_dangling = False,
     ms_status = Some ''empty'', ms_reason = Some ''actual_blank_cell'', ms_evidence = Some evidence\<rparr>"

text \<open>The five-tuple of an unresolved member: class, reason and evidence.\<close>

definition unresolved_member :: "string \<Rightarrow> string \<Rightarrow> string \<Rightarrow> MemberStatus" where
  "unresolved_member klass reason evidence = \<lparr>ms_dangling_reason = Some klass, ms_dangling = True,
     ms_status = Some ''unresolved'', ms_reason = Some reason, ms_evidence = Some evidence\<rparr>"

definition classify_member ::
  "string \<Rightarrow> string \<Rightarrow> (string \<Rightarrow> bool) \<Rightarrow> string set \<Rightarrow> bool \<Rightarrow> (string \<rightharpoonup> string) \<Rightarrow> MemberStatus" where
  "classify_member target kind known sheets unresolved presence =
     (if target = [] \<or> unresolved then UNCLASSIFIED
      else if known target then UNCLASSIFIED
      else
        case split_sheet_ref target of
          Inl _ \<Rightarrow> unresolved_member ''parser_resolution_failure'' ''parser_resolution_failure'' ''bad_address''
        | Inr (sheet, body) \<Rightarrow>
            if sheets \<noteq> {} \<and> sheet \<notin> sheets then
              unresolved_member ''missing_sheet'' ''missing_sheet'' ''sheet_not_in_workbook''
            else
              let seen = presence target in
              if seen = Some ''populated'' then
                unresolved_member ''parser_resolution_failure'' ''parser_resolution_failure''
                  ''populated_missing_from_index''
              else if sheets = {} then
                (if kind = ''range'' then blank ''empty_range_member'' ''omitted_by_excel''
                 else unresolved_member ''missing_cell'' ''parser_resolution_failure'' ''not_in_sparse_index'')
              else
                blank (if kind = ''range'' then ''empty_range_member'' else ''empty_ref'')
                  (if seen = Some ''styled_blank'' then ''styled_blank'' else ''omitted_by_excel''))"

definition classified ::
  "EdgeRow \<Rightarrow> string \<Rightarrow> (string \<Rightarrow> bool) \<Rightarrow> string set \<Rightarrow> (string \<rightharpoonup> string) \<Rightarrow> MemberStatus" where
  "classified row target known sheets presence =
     (case er_member_kind row of
        None \<Rightarrow> UNCLASSIFIED
      | Some kind \<Rightarrow> classify_member target kind known sheets (er_unresolved row) presence)"

section \<open>Rows of one formula edge\<close>

definition canonical_target :: "string \<Rightarrow> SheetUsage option \<Rightarrow> string" where
  "canonical_target target usage =
     (case usage of
        None \<Rightarrow> target
      | Some u \<Rightarrow>
          (case split_sheet_ref target of
             Inl _ \<Rightarrow> target
           | Inr (sheet, body) \<Rightarrow> sheet_name u sheet @ ''!'' @ body))"

text \<open>The edge targets a resolved range of some sheet.\<close>

definition sheet_range :: "Edge \<Rightarrow> string \<Rightarrow> bool" where
  "sheet_range edge target \<longleftrightarrow> e_kind edge = ''range'' \<and> \<not> e_unresolved edge \<and> CHR ''!'' \<in> set target"

text \<open>
  \<open>_expanded_targets\<close> sets \<open>edge.truncated\<close> when the expansion was cut, so it returns the edge
  as well. An edge whose target is \<open>None\<close> or the empty text has no rows.
\<close>

definition expanded_targets ::
  "range_ctx \<Rightarrow> Edge \<Rightarrow> SheetUsage option \<Rightarrow> (string \<times> bool \<times> bool) list \<times> Edge" where
  "expanded_targets ctx edge usage =
     (case e_target edge of
        None \<Rightarrow> ([], edge)
      | Some target \<Rightarrow>
          if target = [] then ([], edge)
          else if sheet_range edge target then
            (case expand_range ctx target None usage of
               Inl _ \<Rightarrow> ([(target, True, False)], edge)
             | Inr (cells, trunc) \<Rightarrow>
                 (map (\<lambda>cell. (cell, False, trunc)) cells,
                  if trunc then edge\<lparr>e_truncated := True\<rparr> else edge))
          else if e_kind edge \<in> {''ref'', ''cross_sheet''} then
            ([(canonical_target target usage, e_unresolved edge, e_truncated edge)], edge)
          else ([(target, True, e_truncated edge)], edge))"

definition make_row :: "Edge \<Rightarrow> string \<Rightarrow> bool \<Rightarrow> bool \<Rightarrow> string option \<Rightarrow> EdgeRow" where
  "make_row edge target unresolved truncated member_kind =
     \<lparr>er_source = e_source edge, er_target = target, er_kind = e_kind edge, er_unresolved = unresolved,
      er_truncated = truncated, er_range_ref = e_target edge, er_abs_col = e_abs_col edge,
      er_abs_row = e_abs_row edge, er_abs_col_end = e_abs_col_end edge,
      er_abs_row_end = e_abs_row_end edge, er_named = e_named edge, er_member_kind = member_kind\<rparr>"

definition range_node_of_edge :: "range_ctx \<Rightarrow> Edge \<Rightarrow> SheetUsage option \<Rightarrow> RangeNode option" where
  "range_node_of_edge ctx edge usage =
     (case e_target edge of
        None \<Rightarrow> None
      | Some target \<Rightarrow>
          if target \<noteq> [] \<and> sheet_range edge target \<and> usage \<noteq> None then range_node_for ctx target usage
          else None)"

definition edge_rows :: "range_ctx \<Rightarrow> Edge \<Rightarrow> SheetUsage option \<Rightarrow> EdgeRow list \<times> Edge" where
  "edge_rows ctx edge usage =
     (case range_node_of_edge ctx edge usage of
        Some node \<Rightarrow> ([make_row edge (node_id node) False False None], edge)
      | None \<Rightarrow>
          (case expanded_targets ctx edge usage of
             (targets, edge') \<Rightarrow>
               (map (\<lambda>(target, unresolved, truncated).
                       make_row edge target unresolved truncated (Some (e_kind edge))) targets, edge')))"

definition edge_cost :: "range_ctx \<Rightarrow> SheetUsage option \<Rightarrow> Edge \<Rightarrow> int" where
  "edge_cost ctx usage edge =
     (case e_target edge of
        None \<Rightarrow> 0
      | Some target \<Rightarrow>
          if target = [] then 0
          else if sheet_range edge target then
            (if range_node_for ctx target usage \<noteq> None then 1
             else expansion_count ctx target None usage)
          else 1)"

definition expanded_edge_count :: "range_ctx \<Rightarrow> Edge list \<Rightarrow> SheetUsage option \<Rightarrow> int" where
  "expanded_edge_count ctx edges usage = foldl (\<lambda>total edge. total + edge_cost ctx usage edge) 0 edges"

section \<open>Cell edges\<close>

definition cell_edge_of :: "EdgeRow \<Rightarrow> MemberStatus \<Rightarrow> CellEdge" where
  "cell_edge_of row st =
     \<lparr>ce_source = er_source row, ce_target = er_target row, ce_kind = er_kind row,
      ce_unresolved = er_unresolved row, ce_truncated = er_truncated row,
      ce_dangling = ms_dangling st, ce_dangling_reason = ms_dangling_reason st,
      ce_status = ms_status st, ce_reason = ms_reason st, ce_evidence = ms_evidence st,
      ce_range_ref = er_range_ref row, ce_abs_col = er_abs_col row, ce_abs_row = er_abs_row row,
      ce_abs_col_end = er_abs_col_end row, ce_abs_row_end = er_abs_row_end row,
      ce_named = er_named row, ce_col_offset = None, ce_period_lag = None\<rparr>"

type_synonym edge_key = "string \<times> string \<times> string"

definition row_key :: "EdgeRow \<Rightarrow> edge_key" where
  "row_key row = (er_source row, er_target row, er_kind row)"

text \<open>
  \<open>_share(pool, text)\<close> returns the text that is already in the pool, which is equal to its
  argument; on values it is the identity and the pool is left out.
\<close>

definition keep_row ::
  "(string \<Rightarrow> bool) \<Rightarrow> string set \<Rightarrow> (string \<rightharpoonup> string) \<Rightarrow> CellEdge list \<times> edge_key list \<Rightarrow> EdgeRow
     \<Rightarrow> CellEdge list \<times> edge_key list" where
  "keep_row known sheets presence acc row =
     (let (rows, seen) = acc; key = row_key row in
      if key \<in> set seen then (rows, seen)
      else (rows @ [cell_edge_of row (classified row (er_target row) known sheets presence)], key # seen))"

fun expand_loop ::
  "range_ctx \<Rightarrow> SheetUsage option \<Rightarrow> (string \<Rightarrow> bool) \<Rightarrow> string set \<Rightarrow> (string \<rightharpoonup> string)
     \<Rightarrow> Edge list \<Rightarrow> CellEdge list \<times> edge_key list \<Rightarrow> CellEdge list \<times> Edge list" where
  "expand_loop ctx usage known sheets presence [] (rows, seen) = (rows, [])"
| "expand_loop ctx usage known sheets presence (edge # edges) (rows, seen) =
     (let (new, edge') = edge_rows ctx edge usage;
          (out, edges') = expand_loop ctx usage known sheets presence edges
                            (foldl (keep_row known sheets presence) (rows, seen) new)
      in (out, edge' # edges'))"

text \<open>The cell edges, and the formula edges with the truncation marks set on them.\<close>

definition expand_cell_edges ::
  "range_ctx \<Rightarrow> Edge list \<Rightarrow> (string \<Rightarrow> bool) \<Rightarrow> string set \<Rightarrow> (string \<rightharpoonup> string) \<Rightarrow> SheetUsage option
     \<Rightarrow> CellEdge list \<times> Edge list" where
  "expand_cell_edges ctx edges known sheets presence usage =
     expand_loop ctx usage known sheets presence edges ([], [])"

section \<open>Column batches\<close>

definition CELL_EDGE_COLUMNS :: "string list" where
  "CELL_EDGE_COLUMNS = [''source'', ''target'', ''kind'', ''unresolved'', ''truncated'', ''dangling'',
     ''col_offset'', ''period_lag'', ''dangling_reason'', ''status'', ''reason'', ''evidence'',
     ''range_ref'', ''abs_col'', ''abs_row'', ''abs_col_end'', ''abs_row_end'', ''named'']"

type_synonym columns = "(string \<times> pval list) list"

definition text_val :: "string option \<Rightarrow> pval" where
  "text_val t = (case t of None \<Rightarrow> PNone | Some s \<Rightarrow> PText s)"

definition bool_val :: "bool option \<Rightarrow> pval" where
  "bool_val t = (case t of None \<Rightarrow> PNone | Some b \<Rightarrow> PBool b)"

definition row_values :: "EdgeRow \<Rightarrow> MemberStatus \<Rightarrow> pval list" where
  "row_values row st =
     [PText (er_source row), PText (er_target row), PText (er_kind row), PBool (er_unresolved row),
      PBool (er_truncated row), PBool (ms_dangling st), PNone, PNone, text_val (ms_dangling_reason st),
      text_val (ms_status st), text_val (ms_reason st), text_val (ms_evidence st),
      text_val (er_range_ref row), bool_val (er_abs_col row), bool_val (er_abs_row row),
      bool_val (er_abs_col_end row), bool_val (er_abs_row_end row), PBool (er_named row)]"

definition empty_columns :: columns where
  "empty_columns = map (\<lambda>name. (name, [])) CELL_EDGE_COLUMNS"

definition append_values :: "columns \<Rightarrow> pval list \<Rightarrow> columns" where
  "append_values cols vals = map2 (\<lambda>(name, values) v. (name, values @ [v])) cols vals"

record 's batch_state =
  b_columns :: columns
  b_count :: nat
  b_sink :: 's

definition column :: "columns \<Rightarrow> string \<Rightarrow> pval list" where
  "column cols name = dict_get cols name []"

definition flush :: "(columns \<Rightarrow> 's \<Rightarrow> 's) \<Rightarrow> 's batch_state \<Rightarrow> 's batch_state" where
  "flush consume b =
     (if column (b_columns b) ''source'' = [] then b
      else b\<lparr>b_sink := consume (b_columns b) (b_sink b),
             b_count := b_count b + length (column (b_columns b) ''source''),
             b_columns := empty_columns\<rparr>)"

definition batch_row ::
  "(columns \<Rightarrow> 's \<Rightarrow> 's) \<Rightarrow> nat \<Rightarrow> 's batch_state \<Rightarrow> pval list \<Rightarrow> 's batch_state" where
  "batch_row consume limit b vals =
     (let b = b\<lparr>b_columns := append_values (b_columns b) vals\<rparr> in
      if limit \<noteq> 0 \<and> length (column (b_columns b) ''source'') \<ge> limit then flush consume b else b)"

fun batch_loop ::
  "range_ctx \<Rightarrow> SheetUsage option \<Rightarrow> (EdgeRow \<Rightarrow> MemberStatus) \<Rightarrow> (columns \<Rightarrow> 's \<Rightarrow> 's) \<Rightarrow> nat
     \<Rightarrow> Edge list \<Rightarrow> 's batch_state \<Rightarrow> 's batch_state \<times> Edge list" where
  "batch_loop ctx usage status consume limit [] b = (b, [])"
| "batch_loop ctx usage status consume limit (edge # edges) b =
     (let (new, edge') = edge_rows ctx edge usage;
          (b', edges') = batch_loop ctx usage status consume limit edges
             (foldl (\<lambda>b row. batch_row consume limit b (row_values row (status row))) b new)
      in (b', edge' # edges'))"

definition expand_cell_edges_column_batches ::
  "range_ctx \<Rightarrow> Edge list \<Rightarrow> (string \<Rightarrow> bool) \<Rightarrow> (columns \<Rightarrow> 's \<Rightarrow> 's) \<Rightarrow> 's \<Rightarrow> string set
     \<Rightarrow> (string \<rightharpoonup> string) \<Rightarrow> SheetUsage option \<Rightarrow> int \<Rightarrow> nat \<times> 's \<times> Edge list" where
  "expand_cell_edges_column_batches ctx edges known consume sink sheets presence usage batch_size =
     (let limit = (if batch_size > 0 then nat batch_size else 0);
          status = (\<lambda>row. classified row (er_target row) known sheets presence);
          (b, edges') = batch_loop ctx usage status consume limit edges
            \<lparr>b_columns = empty_columns, b_count = 0, b_sink = sink\<rparr>;
          b = flush consume b
      in (b_count b, b_sink b, edges'))"


section \<open>The expansion loop keeps the first row of each key\<close>

definition all_rows :: "range_ctx \<Rightarrow> SheetUsage option \<Rightarrow> Edge list \<Rightarrow> EdgeRow list" where
  "all_rows ctx usage edges = concat (map (\<lambda>edge. fst (edge_rows ctx edge usage)) edges)"

definition cell_edge_in ::
  "(string \<Rightarrow> bool) \<Rightarrow> string set \<Rightarrow> (string \<rightharpoonup> string) \<Rightarrow> EdgeRow \<Rightarrow> CellEdge" where
  "cell_edge_in known sheets presence row =
     cell_edge_of row (classified row (er_target row) known sheets presence)"

lemma all_rows_simps [simp]:
  "all_rows ctx usage [] = []"
  "all_rows ctx usage (e # es) = fst (edge_rows ctx e usage) @ all_rows ctx usage es"
  by (simp_all add: all_rows_def)

lemma foldl_keep_row:
  "\<exists>seen'. foldl (keep_row known sheets presence) (rows, seen) new =
      (rows @ map (cell_edge_in known sheets presence) (first_by row_key (set seen) new), seen')
    \<and> set seen' = set seen \<union> row_key ` set new"
proof (induction new arbitrary: rows seen)
  case Nil
  then show ?case by simp
next
  case (Cons r new)
  show ?case
  proof (cases "row_key r \<in> set seen")
    case True
    with Cons.IH [of rows seen] show ?thesis by (auto simp: keep_row_def insert_absorb)
  next
    case False
    with Cons.IH [of "rows @ [cell_edge_in known sheets presence r]" "row_key r # seen"]
    show ?thesis by (auto simp: keep_row_def cell_edge_in_def)
  qed
qed

lemma expand_loop_spec:
  "expand_loop ctx usage known sheets presence edges (rows, seen) =
    (rows @ map (cell_edge_in known sheets presence) (first_by row_key (set seen) (all_rows ctx usage edges)),
     map (\<lambda>edge. snd (edge_rows ctx edge usage)) edges)"
proof (induction edges arbitrary: rows seen)
  case Nil
  then show ?case by simp
next
  case (Cons e es)
  obtain seen' where s: "foldl (keep_row known sheets presence) (rows, seen) (fst (edge_rows ctx e usage)) =
      (rows @ map (cell_edge_in known sheets presence) (first_by row_key (set seen) (fst (edge_rows ctx e usage))), seen')"
    "set seen' = set seen \<union> row_key ` set (fst (edge_rows ctx e usage))"
    using foldl_keep_row by blast
  show ?case by (simp add: case_prod_beta Let_def s(1) Cons.IH s(2) first_by_append)
qed

lemma expand_cell_edges_spec:
  "expand_cell_edges ctx edges known sheets presence usage =
    (map (cell_edge_in known sheets presence) (first_by row_key {} (all_rows ctx usage edges)),
     map (\<lambda>edge. snd (edge_rows ctx edge usage)) edges)"
  by (simp add: expand_cell_edges_def expand_loop_spec)

section \<open>Counting without expanding\<close>

lemma edge_cost_rows:
  assumes "0 \<le> active_range_cap ctx" and "\<forall>u. usage = Some u \<longrightarrow> usage_ok u"
  shows "edge_cost ctx usage edge = int (length (fst (edge_rows ctx edge usage)))"
proof (cases "e_target edge")
  case None
  then show ?thesis by (simp add: edge_cost_def edge_rows_def range_node_of_edge_def expanded_targets_def)
next
  case (Some target)
  show ?thesis
  proof (cases "target \<noteq> [] \<and> sheet_range edge target")
    case False
    with Some show ?thesis
      by (auto simp: edge_cost_def edge_rows_def range_node_of_edge_def expanded_targets_def)
  next
    case True
    have none: "usage = None \<Longrightarrow> range_node_for ctx target usage = None" by (simp add: range_node_for_def)
    have node: "range_node_of_edge ctx edge usage = range_node_for ctx target usage"
      using True Some none by (auto simp: range_node_of_edge_def)
    show ?thesis
    proof (cases "range_node_for ctx target usage")
      case (Some node)
      with \<open>e_target edge = Some target\<close> True node show ?thesis by (simp add: edge_cost_def edge_rows_def)
    next
      case no_node: None
      have "0 \<le> chosen_cap ctx None" using assms(1) by (simp add: chosen_cap_def)
      note count = expansion_count_expand [OF this assms(2), of target]
      show ?thesis
      proof (cases "expand_range ctx target None usage")
        case (Inl e)
        with Some True node no_node count show ?thesis
          by (simp add: edge_cost_def edge_rows_def expanded_targets_def)
      next
        case (Inr ct)
        obtain cells trunc where "ct = (cells, trunc)" by (cases ct)
        with Inr Some True node no_node count show ?thesis
          by (simp add: edge_cost_def edge_rows_def expanded_targets_def)
      qed
    qed
  qed
qed

lemma foldl_add: "foldl (\<lambda>total x. total + f x) (t::int) xs = t + (\<Sum>x \<leftarrow> xs. f x)"
  by (induction xs arbitrary: t) (simp_all add: add.assoc)

lemma expanded_edge_count_rows:
  assumes "0 \<le> active_range_cap ctx" and "\<forall>u. usage = Some u \<longrightarrow> usage_ok u"
  shows "expanded_edge_count ctx edges usage = int (length (all_rows ctx usage edges))"
proof -
  have "expanded_edge_count ctx edges usage = (\<Sum>e \<leftarrow> edges. int (length (fst (edge_rows ctx e usage))))"
    unfolding expanded_edge_count_def foldl_add edge_cost_rows [OF assms] by simp
  also have "\<dots> = int (length (all_rows ctx usage edges))" by (induction edges) simp_all
  finally show ?thesis .
qed

section \<open>Column batches see the rows in groups\<close>

definition columns_of :: "pval list list \<Rightarrow> columns" where
  "columns_of g = map (\<lambda>i. (CELL_EDGE_COLUMNS ! i, map (\<lambda>r. r ! i) g)) [0..<length CELL_EDGE_COLUMNS]"

lemma columns_of_Nil: "columns_of [] = empty_columns"
  by (auto simp: columns_of_def empty_columns_def intro: nth_equalityI)

lemma length_row_values [simp]: "length (row_values row st) = length CELL_EDGE_COLUMNS"
  by (simp add: row_values_def CELL_EDGE_COLUMNS_def)

lemma append_values_columns_of:
  "length r = length CELL_EDGE_COLUMNS \<Longrightarrow> append_values (columns_of g) r = columns_of (g @ [r])"
  by (auto simp: append_values_def columns_of_def intro: nth_equalityI)

lemma column_columns_of:
  "i < length CELL_EDGE_COLUMNS \<Longrightarrow> column (columns_of g) (CELL_EDGE_COLUMNS ! i) = map (\<lambda>r. r ! i) g"
proof -
  assume i: "i < length CELL_EDGE_COLUMNS"
  have "map fst (columns_of g) = CELL_EDGE_COLUMNS"
    by (auto simp: columns_of_def intro: nth_equalityI)
  moreover have "distinct CELL_EDGE_COLUMNS" by (simp add: CELL_EDGE_COLUMNS_def)
  moreover have "(CELL_EDGE_COLUMNS ! i, map (\<lambda>r. r ! i) g) \<in> set (columns_of g)"
    using i by (auto simp: columns_of_def)
  ultimately have "map_of (columns_of g) (CELL_EDGE_COLUMNS ! i) = Some (map (\<lambda>r. r ! i) g)" by simp
  then show ?thesis by (simp add: column_def dict_get_def)
qed

lemma CELL_EDGE_COLUMNS_nth:
  "''source'' = CELL_EDGE_COLUMNS ! 0" "''target'' = CELL_EDGE_COLUMNS ! 1" "''kind'' = CELL_EDGE_COLUMNS ! 2"
  "0 < length CELL_EDGE_COLUMNS" "1 < length CELL_EDGE_COLUMNS" "2 < length CELL_EDGE_COLUMNS"
  by (simp_all add: CELL_EDGE_COLUMNS_def)

lemma length_source_column [simp]: "length (column (columns_of g) ''source'') = length g"
  unfolding CELL_EDGE_COLUMNS_nth(1) column_columns_of [OF CELL_EDGE_COLUMNS_nth(4)] by simp

lemma source_column_Nil [simp]: "column (columns_of g) ''source'' = [] \<longleftrightarrow> g = []"
  using length_source_column [of g] by (metis length_0_conv)

lemma flush_columns_of:
  "flush consume (b\<lparr>b_columns := columns_of g\<rparr>) =
    (if g = [] then b\<lparr>b_columns := empty_columns\<rparr>
     else b\<lparr>b_columns := empty_columns, b_sink := consume (columns_of g) (b_sink b), b_count := b_count b + length g\<rparr>)"
  by (simp add: flush_def columns_of_Nil)

lemma foldl_batch_row:
  assumes "\<forall>r \<in> set rows. length r = length CELL_EDGE_COLUMNS" "b_columns b = columns_of buf"
  shows "foldl (batch_row consume limit) b rows =
    (case buffer_groups limit buf rows of (gs, rest) \<Rightarrow>
       b\<lparr>b_columns := columns_of rest, b_count := b_count b + length (concat gs),
         b_sink := foldl (\<lambda>s g. consume (columns_of g) s) (b_sink b) gs\<rparr>)"
  using assms
proof (induction rows arbitrary: b buf)
  case Nil
  then show ?case by simp
next
  case (Cons r rows)
  let ?full = "limit \<noteq> 0 \<and> limit \<le> length buf + 1"
  have app: "append_values (columns_of buf) r = columns_of (buf @ [r])"
    using Cons.prems by (intro append_values_columns_of) simp
  have step: "batch_row consume limit b r =
      (if ?full then b\<lparr>b_columns := columns_of [], b_sink := consume (columns_of (buf @ [r])) (b_sink b),
                       b_count := b_count b + (length buf + 1)\<rparr>
       else b\<lparr>b_columns := columns_of (buf @ [r])\<rparr>)"
    using Cons.prems(2) by (simp add: batch_row_def app flush_columns_of columns_of_Nil)
  show ?case
  proof (cases ?full)
    case True
    with Cons.prems(1) step show ?thesis by (simp add: Cons.IH [where buf = "[]"] case_prod_beta)
  next
    case False
    then have "batch_row consume limit b r = b\<lparr>b_columns := columns_of (buf @ [r])\<rparr>"
      by (simp only: step if_False)
    with Cons.prems(1) False show ?thesis
      by (auto simp: Cons.IH [where buf = "buf @ [r]"] case_prod_beta)
  qed
qed

lemma batch_loop_foldl:
  "batch_loop ctx usage status consume limit edges b =
    (foldl (batch_row consume limit) b (map (\<lambda>row. row_values row (status row)) (all_rows ctx usage edges)),
     map (\<lambda>edge. snd (edge_rows ctx edge usage)) edges)"
  by (induction edges arbitrary: b) (simp_all add: case_prod_beta Let_def foldl_map)

definition edge_values ::
  "(string \<Rightarrow> bool) \<Rightarrow> string set \<Rightarrow> (string \<rightharpoonup> string) \<Rightarrow> EdgeRow \<Rightarrow> pval list" where
  "edge_values known sheets presence row =
     row_values row (classified row (er_target row) known sheets presence)"

lemma column_batches_spec:
  "expand_cell_edges_column_batches ctx edges known consume sink sheets presence usage batch_size =
    (length (all_rows ctx usage edges),
     foldl (\<lambda>s g. consume (columns_of g) s) sink
       (chunks (nat batch_size) (map (edge_values known sheets presence) (all_rows ctx usage edges))),
     map (\<lambda>edge. snd (edge_rows ctx edge usage)) edges)"
proof -
  let ?rows = "map (edge_values known sheets presence) (all_rows ctx usage edges)"
  let ?n = "nat batch_size"
  let ?b0 = "\<lparr>b_columns = empty_columns, b_count = 0, b_sink = sink\<rparr>"
  obtain gs rest where g: "buffer_groups ?n [] ?rows = (gs, rest)" by (cases "buffer_groups ?n [] ?rows")
  have c: "gs @ (if rest = [] then [] else [rest]) = chunks ?n ?rows"
  proof -
    have "?n = 0 \<or> length ([] :: pval list list) < ?n" by auto
    from buffer_groups_chunks [OF this, of ?rows] show ?thesis by (simp add: g Let_def split: if_splits)
  qed
  have len: "length (concat gs) + length rest = length (all_rows ctx usage edges)"
  proof -
    have "length (concat gs) + length rest = length (concat (gs @ (if rest = [] then [] else [rest])))" by simp
    also have "\<dots> = length ?rows" unfolding c by (simp only: concat_chunks)
    finally show ?thesis by simp
  qed
  have fold: "foldl (batch_row consume ?n) ?b0 ?rows =
      \<lparr>b_columns = columns_of rest, b_count = length (concat gs),
       b_sink = foldl (\<lambda>s g. consume (columns_of g) s) sink gs\<rparr>"
    by (subst foldl_batch_row [where buf = "[]"]) (simp_all add: edge_values_def columns_of_Nil g)
  have limit: "(if batch_size > 0 then nat batch_size else 0) = ?n" by simp
  have vals: "map (\<lambda>row. row_values row (classified row (er_target row) known sheets presence))
      (all_rows ctx usage edges) = ?rows" by (simp add: edge_values_def)
  have flush: "flush consume \<lparr>b_columns = columns_of rest, b_count = length (concat gs),
       b_sink = foldl (\<lambda>s g. consume (columns_of g) s) sink gs\<rparr> =
      \<lparr>b_columns = empty_columns, b_count = length (concat gs) + length rest,
       b_sink = foldl (\<lambda>s g. consume (columns_of g) s) sink (gs @ (if rest = [] then [] else [rest]))\<rparr>"
    by (simp add: flush_def columns_of_Nil)
  show ?thesis
    unfolding expand_cell_edges_column_batches_def limit batch_loop_foldl Let_def vals fold prod.case flush c len
    by simp
qed


section \<open>Properties\<close>

definition cell_edge_key :: "CellEdge \<Rightarrow> edge_key" where
  "cell_edge_key edge = (ce_source edge, ce_target edge, ce_kind edge)"

lemma cell_edge_key_in [simp]: "cell_edge_key (cell_edge_in known sheets presence row) = row_key row"
  by (simp add: cell_edge_key_def cell_edge_in_def cell_edge_of_def row_key_def)

text \<open>
  C37. \<open>expand_cell_edges\<close> writes every (source, target, kind) of the expanded formula edges exactly
  once, for every list of edges, every set of known cells, sheets and presence marks: the
  cell edges have distinct keys, their keys are exactly those of the rows of all formula
  edges, and they are the classified first row of each key in emission order.
\<close>

theorem expand_cell_edges_first_rows:
  "distinct (map cell_edge_key (fst (expand_cell_edges ctx edges known sheets presence usage)))
   \<and> cell_edge_key ` set (fst (expand_cell_edges ctx edges known sheets presence usage)) =
       (\<Union>edge \<in> set edges. row_key ` set (fst (edge_rows ctx edge usage)))
   \<and> fst (expand_cell_edges ctx edges known sheets presence usage) =
       map (cell_edge_in known sheets presence) (first_by row_key {} (all_rows ctx usage edges))"
proof (intro conjI)
  let ?first = "first_by row_key {} (all_rows ctx usage edges)"
  have rows: "fst (expand_cell_edges ctx edges known sheets presence usage) =
      map (cell_edge_in known sheets presence) ?first"
    by (simp add: expand_cell_edges_spec)
  show "fst (expand_cell_edges ctx edges known sheets presence usage) =
      map (cell_edge_in known sheets presence) ?first" by (rule rows)
  have "map cell_edge_key (map (cell_edge_in known sheets presence) ?first) = map row_key ?first" by simp
  then show "distinct (map cell_edge_key (fst (expand_cell_edges ctx edges known sheets presence usage)))"
    unfolding rows by (simp only: distinct_first_by)
  have "cell_edge_key ` set (map (cell_edge_in known sheets presence) ?first) = row_key ` set ?first"
    by (simp add: image_image)
  also have "\<dots> = row_key ` set (all_rows ctx usage edges)" unfolding keys_first_by by simp
  also have "\<dots> = (\<Union>edge \<in> set edges. row_key ` set (fst (edge_rows ctx edge usage)))"
    by (auto simp: all_rows_def)
  finally show "cell_edge_key ` set (fst (expand_cell_edges ctx edges known sheets presence usage)) =
      (\<Union>edge \<in> set edges. row_key ` set (fst (edge_rows ctx edge usage)))" unfolding rows .
qed

text \<open>
  The memory estimate counts what the expansion walks: \<open>expanded_edge_count\<close> is the number of
  rows that all formula edges together emit before de-duplication, with range nodes, whole
  axes, capped rectangles, unparsable targets and plain references all counted as they are
  expanded.
\<close>

theorem expanded_edge_count_exact:
  assumes "0 \<le> active_range_cap ctx" and "\<forall>u. usage = Some u \<longrightarrow> usage_ok u"
  shows "expanded_edge_count ctx edges usage = (\<Sum>edge \<leftarrow> edges. int (length (fst (edge_rows ctx edge usage))))"
proof -
  have "int (length (all_rows ctx usage edges)) = (\<Sum>edge \<leftarrow> edges. int (length (fst (edge_rows ctx edge usage))))"
    by (induction edges) simp_all
  with expanded_edge_count_rows [OF assms] show ?thesis by simp
qed

definition edge_example :: "string \<Rightarrow> string \<Rightarrow> Edge" where
  "edge_example kind target = \<lparr>e_kind = kind, e_source = ''Data!D1'', e_target = Some target,
     e_unresolved = False, e_truncated = False, e_abs_col = None, e_abs_row = None,
     e_abs_col_end = None, e_abs_row_end = None, e_named = False\<rparr>"

definition ctx_example :: range_ctx where
  "ctx_example = \<lparr>bound_cap = None, bound_node_min = Some 8\<rparr>"

theorem expanded_edge_count_exact_witness:
  "expanded_edge_count ctx_example
     [edge_example ''range'' ''Data!A1:B2'', edge_example ''range'' ''Data!A:B'', edge_example ''ref'' ''Data!C1'']
     (Some usage_example) = 6"
proof -
  have "0 \<le> active_range_cap ctx_example"
    by (simp add: ctx_example_def active_range_cap_def DEFAULT_RANGE_EXPAND_CAP_def)
  moreover have "\<forall>u. Some usage_example = Some u \<longrightarrow> usage_ok u"
    by (simp add: usage_example_def usage_ok_sheet_usage_spans)
  moreover have "length (fst (edge_rows ctx_example (edge_example ''range'' ''Data!A1:B2'') (Some usage_example))) = 4"
    "length (fst (edge_rows ctx_example (edge_example ''range'' ''Data!A:B'') (Some usage_example))) = 1"
    "length (fst (edge_rows ctx_example (edge_example ''ref'' ''Data!C1'') (Some usage_example))) = 1"
    by code_simp+
  ultimately show ?thesis
    using expanded_edge_count_exact [of ctx_example "Some usage_example"
        "[edge_example ''range'' ''Data!A1:B2'', edge_example ''range'' ''Data!A:B'', edge_example ''ref'' ''Data!C1'']"]
    by simp
qed

text \<open>
  The column-batch expansion hands its consumer the rows of all formula edges, classified,
  in emission order and cut into groups of the batch size (one group when the size is not
  positive), and returns their number; rows are not de-duplicated here, that is the
  consumer's work. The truncation marks it leaves on the formula edges are those of
  \<open>expand_cell_edges\<close>.
\<close>

theorem column_batches_grouping:
  "expand_cell_edges_column_batches ctx edges known consume sink sheets presence usage batch_size =
    (length (all_rows ctx usage edges),
     foldl (\<lambda>s g. consume (columns_of g) s) sink
       (chunks (nat batch_size) (map (edge_values known sheets presence) (all_rows ctx usage edges))),
     snd (expand_cell_edges ctx edges known sheets presence usage))"
  by (simp add: column_batches_spec expand_cell_edges_spec)

text \<open>Without the consumer's filter a repeated reference is emitted twice, and kept once by \<open>expand_cell_edges\<close>.\<close>

lemma column_batches_keep_repeats:
  "fst (expand_cell_edges_column_batches ctx_example
     [edge_example ''ref'' ''Data!C1'', edge_example ''ref'' ''Data!C1''] (\<lambda>_. True) (\<lambda>_ s. s) () {} Map.empty None 10) = 2
   \<and> length (fst (expand_cell_edges ctx_example
     [edge_example ''ref'' ''Data!C1'', edge_example ''ref'' ''Data!C1''] (\<lambda>_. True) {} Map.empty None)) = 1"
  by code_simp

text \<open>
  Member classification: a member is dangling exactly when its status is \<open>unresolved\<close>; it has
  no status exactly when it has no target, is unresolved already or is a known cell; and it
  is called an actual blank cell only when its text names a sheet, the sheet exists (when the
  sheets are known) and no cell content was seen there.
\<close>

theorem classify_member_sound:
  "(ms_dangling (classify_member target kind known sheets unresolved presence)
      \<longleftrightarrow> ms_status (classify_member target kind known sheets unresolved presence) = Some ''unresolved'')
   \<and> (ms_status (classify_member target kind known sheets unresolved presence) = None
      \<longleftrightarrow> target = [] \<or> unresolved \<or> known target)
   \<and> (ms_status (classify_member target kind known sheets unresolved presence) = Some ''empty''
      \<longleftrightarrow> target \<noteq> [] \<and> \<not> unresolved \<and> \<not> known target \<and> presence target \<noteq> Some ''populated''
        \<and> (\<exists>sheet body. split_sheet_ref target = Inr (sheet, body)
             \<and> (if sheets = {} then kind = ''range'' else sheet \<in> sheets)))
   \<and> (ms_reason (classify_member target kind known sheets unresolved presence) = Some ''actual_blank_cell''
      \<longleftrightarrow> ms_status (classify_member target kind known sheets unresolved presence) = Some ''empty'')"
proof (cases "target = [] \<or> unresolved \<or> known target")
  case True
  then show ?thesis by (auto simp: classify_member_def UNCLASSIFIED_def)
next
  case False
  show ?thesis
  proof (cases "split_sheet_ref target")
    case (Inl e)
    with False show ?thesis by (simp add: classify_member_def unresolved_member_def)
  next
    case (Inr sb)
    obtain sheet body where "sb = (sheet, body)" by (cases sb)
    with False Inr show ?thesis
      by (simp add: classify_member_def unresolved_member_def blank_def Let_def)
  qed
qed

text \<open>
  A cell-edge row written to parquet reads back as the cell edge it was written for:
  \<open>as_cell_edge\<close> on the dict of a row's columns gives the \<open>CellEdge\<close> that \<open>expand_cell_edges\<close> builds.
\<close>

theorem cell_edge_row_roundtrip:
  "as_cell_edge (AsDict (map_of (zip CELL_EDGE_COLUMNS (edge_values known sheets presence row)))) =
     Inr (cell_edge_in known sheets presence row)"
proof -
  have opt: "opt_text (text_val t) = t" "opt_bool (bool_val b) = b" for t b
    by (cases t, simp_all add: opt_text_def text_val_def) (cases b, simp_all add: opt_bool_def bool_val_def)
  have some: "text_or_empty (PText s) = s" for s by (simp add: text_or_empty_def)
  have none: "opt_text PNone = None" "opt_int PNone = Inr None" by (simp_all add: opt_text_def opt_int_def)
  show ?thesis
    by (simp add: as_cell_edge_def edge_values_def row_values_def CELL_EDGE_COLUMNS_def dict_value_def
        opt some none cell_edge_in_def cell_edge_of_def)
qed

end
