(* ===== verification/Row_Groups.thy ===== *)
theory Row_Groups
  imports Batches
begin

text \<open>
  Parquet output of \<open>src/finance_context/store/fs.py\<close>: \<open>write_parquet\<close> and the incremental
  \<open>RowGroupWriter\<close>. A published file is the list of its row groups, a row group the list of
  its columns. Writing a temporary part and moving it into place is one step of the model:
  the DuckDB and PyArrow calls that encode a table are not part of it, and neither are the
  failures of the file system, after which no file is published.
\<close>

section \<open>Columns and rows\<close>

type_synonym 'v group = "'v list list"

text \<open>\<open>[[row[index] for row in rows] for index in range(width)]\<close>.\<close>

definition columns_data :: "nat \<Rightarrow> 'v list list \<Rightarrow> 'v group" where
  "columns_data width rows = map (\<lambda>index. map (\<lambda>row. row ! index) rows) [0..<width]"

definition rows_from_columns :: "'v group \<Rightarrow> 'v list list" where
  "rows_from_columns columns =
     (if columns = [] \<or> hd columns = [] then []
      else map (\<lambda>index. map (\<lambda>column. column ! index) columns) [0..<length (hd columns)])"

text \<open>The rows of a whole file.\<close>

definition rows_of_file :: "'v group list \<Rightarrow> 'v list list" where
  "rows_of_file published = concat (map rows_from_columns published)"

definition group_rows :: "'v group \<Rightarrow> nat" where
  "group_rows columns = (if columns = [] then 0 else length (hd columns))"

section \<open>The incremental writer\<close>

record 'v RowGroupWriter =
  rg_width :: nat
  rg_limit :: int
  rg_buffered :: nat
  rg_chunks :: "'v group list"
  rg_parts :: "'v group list"
  rg_streaming :: bool
  rg_closed :: bool

definition rg_open :: "nat \<Rightarrow> int \<Rightarrow> 'v RowGroupWriter" where
  "rg_open width row_group_rows = \<lparr>rg_width = width, rg_limit = row_group_rows, rg_buffered = 0,
     rg_chunks = [], rg_parts = [], rg_streaming = False, rg_closed = False\<rparr>"

definition rg_write_group :: "'v group \<Rightarrow> 'v RowGroupWriter \<Rightarrow> 'v RowGroupWriter" where
  "rg_write_group columns w = w\<lparr>rg_parts := rg_parts w @ [columns]\<rparr>"

definition rg_start_groups :: "'v RowGroupWriter \<Rightarrow> 'v RowGroupWriter" where
  "rg_start_groups w =
     (if rg_streaming w then w
      else foldl (\<lambda>w chunk. rg_write_group chunk w)
             (w\<lparr>rg_streaming := True, rg_chunks := [], rg_buffered := 0\<rparr>) (rg_chunks w))"

definition rg_write_lists :: "'v group \<Rightarrow> 'v RowGroupWriter \<Rightarrow> 'v RowGroupWriter result" where
  "rg_write_lists columns w =
     (if rg_closed w then Inl (RuntimeError ''parquet writer is closed'')
      else if columns = [] \<or> length (hd columns) = 0 then Inr w
      else
        let count = length (hd columns) in
        if \<not> rg_streaming w \<and> (rg_limit w \<le> 0 \<or> int (rg_buffered w + count) \<le> rg_limit w) then
          Inr (w\<lparr>rg_chunks := rg_chunks w @ [columns], rg_buffered := rg_buffered w + count\<rparr>)
        else Inr (rg_write_group columns (rg_start_groups w)))"

definition merge_chunks :: "nat \<Rightarrow> 'v group list \<Rightarrow> 'v group" where
  "merge_chunks width cs =
     foldl (\<lambda>merged chunk. map2 (@) merged chunk) (map (\<lambda>_. []) [0..<width]) cs"

text \<open>The row groups that \<open>_finish\<close> publishes.\<close>

definition rg_finish :: "'v RowGroupWriter \<Rightarrow> 'v group list" where
  "rg_finish w =
     (if \<not> rg_streaming w then [merge_chunks (rg_width w) (rg_chunks w)]
      else if rg_parts w = [] then [map (\<lambda>_. []) [0..<rg_width w]]
      else rg_parts w)"

definition rg_close :: "'v RowGroupWriter \<Rightarrow> 'v group list option \<times> 'v RowGroupWriter" where
  "rg_close w =
     (if rg_closed w then (None, w)
      else (Some (rg_finish w), w\<lparr>rg_closed := True, rg_chunks := [], rg_parts := []\<rparr>))"

definition rg_abort :: "'v RowGroupWriter \<Rightarrow> 'v RowGroupWriter" where
  "rg_abort w = w\<lparr>rg_closed := True, rg_chunks := [], rg_parts := []\<rparr>"

fun rg_write_all :: "'v group list \<Rightarrow> 'v RowGroupWriter \<Rightarrow> 'v RowGroupWriter result" where
  "rg_write_all [] w = Inr w"
| "rg_write_all (g # gs) w = bind_result (rg_write_lists g w) (rg_write_all gs)"

section \<open>One call for a whole table\<close>

function row_parts :: "nat \<Rightarrow> 'a list \<Rightarrow> nat \<Rightarrow> 'a list list" where
  "row_parts n rows start =
     (if start < length rows \<and> 0 < n then take n (drop start rows) # row_parts n rows (start + n) else [])"
  by pat_completeness auto
termination by (relation "measure (\<lambda>(n, rows, start). length rows - start)") auto

declare row_parts.simps [simp del]

definition write_parquet :: "nat \<Rightarrow> 'v list list \<Rightarrow> int \<Rightarrow> 'v group list result" where
  "write_parquet width rows row_group_rows =
     (if row_group_rows \<le> 0 \<or> int (length rows) \<le> row_group_rows then Inr [columns_data width rows]
      else
        bind_result
          (rg_write_all (map (columns_data width) (row_parts (nat row_group_rows) rows 0)) (rg_open width row_group_rows))
          (\<lambda>w. case rg_close w of (Some file, _) \<Rightarrow> Inr file
                | (None, _) \<Rightarrow> Inl (RuntimeError ''parquet writer is closed'')))"

section \<open>Groups are the cut of the rows\<close>

lemma row_parts_chunks: "0 < n \<Longrightarrow> row_parts n rows start = chunks n (drop start rows)"
proof (induction n rows start rule: row_parts.induct)
  case (1 n rows start)
  show ?case
  proof (cases "start < length rows")
    case True
    with 1 show ?thesis
      by (simp add: row_parts.simps [of n rows start] chunks.simps [of n "drop start rows"] add.commute)
  next
    case False
    then show ?thesis by (simp add: row_parts.simps [of n rows start])
  qed
qed

lemma columns_data_simps [simp]:
  "length (columns_data width rows) = width"
  "0 < width \<Longrightarrow> columns_data width rows \<noteq> []"
  "0 < width \<Longrightarrow> length (hd (columns_data width rows)) = length rows"
  by (auto simp: columns_data_def hd_map upt_rec [of 0 width])

lemma rows_from_columns_data:
  assumes "0 < width" "\<forall>row \<in> set rows. length row = width"
  shows "rows_from_columns (columns_data width rows) = rows"
proof (cases "rows = []")
  case True
  then have "columns_data width rows = [] \<or> hd (columns_data width rows) = []"
    using columns_data_simps(3) [OF assms(1), of rows] by auto
  with True show ?thesis by (simp add: rows_from_columns_def)
next
  case False
  have ne: "columns_data width rows \<noteq> []" using assms(1) by simp
  have ne': "hd (columns_data width rows) \<noteq> []"
  proof
    assume "hd (columns_data width rows) = []"
    then have "length (hd (columns_data width rows)) = 0" by simp
    with False assms(1) show False unfolding columns_data_simps(3) [OF assms(1)] by simp
  qed
  have "map (\<lambda>index. map (\<lambda>column. column ! index) (columns_data width rows)) [0..<length rows] = rows"
    using assms(2) by (auto simp: columns_data_def comp_def intro!: nth_equalityI)
  with ne ne' assms(1) show ?thesis by (simp add: rows_from_columns_def)
qed

lemma columns_data_append:
  "map2 (@) (columns_data width rows) (columns_data width rows') = columns_data width (rows @ rows')"
  by (auto simp: columns_data_def intro: nth_equalityI)

lemma columns_data_Nil: "columns_data width [] = map (\<lambda>_. []) [0..<width]"
  by (simp add: columns_data_def)

text \<open>Writing full groups after the first one has been buffered appends one part per group.\<close>

lemma write_streaming:
  assumes "rg_streaming w" "\<not> rg_closed w" "0 < width" "\<forall>g \<in> set gs. g \<noteq> []"
  shows "rg_write_all (map (columns_data width) gs) w =
    Inr (w\<lparr>rg_parts := rg_parts w @ map (columns_data width) gs\<rparr>)"
  using assms
proof (induction gs arbitrary: w)
  case Nil
  then show ?case by simp
next
  case (Cons g gs)
  have "rg_write_lists (columns_data width g) w = Inr (rg_write_group (columns_data width g) w)"
    using Cons.prems by (simp add: rg_write_lists_def rg_start_groups_def)
  with Cons.prems Cons.IH [of "rg_write_group (columns_data width g) w"] show ?case
    by (simp add: rg_write_group_def)
qed

lemma write_two_groups:
  assumes "0 < width" "0 < n" "length g = n" "h \<noteq> []" "\<forall>g \<in> set gs. g \<noteq> []"
  shows "rg_write_all (map (columns_data width) (g # h # gs)) (rg_open width (int n)) =
    Inr ((rg_open width (int n))\<lparr>rg_streaming := True, rg_parts := map (columns_data width) (g # h # gs)\<rparr>)"
proof -
  let ?w1 = "(rg_open width (int n))\<lparr>rg_chunks := [columns_data width g], rg_buffered := n\<rparr>"
  let ?w2 = "(rg_open width (int n))\<lparr>rg_streaming := True, rg_parts := [columns_data width g, columns_data width h]\<rparr>"
  have w1: "rg_write_lists (columns_data width g) (rg_open width (int n)) = Inr ?w1"
    using assms by (simp add: rg_write_lists_def rg_open_def)
  have "rg_write_lists (columns_data width h) ?w1 = Inr ?w2"
    using assms(1,2,4) by (simp add: rg_write_lists_def rg_open_def rg_start_groups_def rg_write_group_def)
  with w1 write_streaming [of ?w2 width gs] assms(1,5) show ?thesis by (simp add: rg_open_def)
qed

lemma chunks_two:
  assumes "0 < n" "n < length rows"
  obtains g h gs where "chunks n rows = g # h # gs" "length g = n" "h \<noteq> []" "\<forall>x \<in> set gs. x \<noteq> []"
proof -
  have ne: "rows \<noteq> []" "drop n rows \<noteq> []" using assms by auto
  have c: "chunks n rows = take n rows # chunks n (drop n rows)" using assms ne by (subst chunks.simps) simp
  have d: "chunks n (drop n rows) = take n (drop n rows) # chunks n (drop n (drop n rows))"
    using assms ne by (subst chunks.simps) simp
  have e: "\<forall>x \<in> set (chunks n (drop n (drop n rows))). x \<noteq> []" using chunks_groups by blast
  show ?thesis by (rule that [OF c [unfolded d]]) (use assms e in auto)
qed

text \<open>The file of \<open>write_parquet\<close>: one group when the rows fit, otherwise the cut of the rows.\<close>

definition file_groups :: "nat \<Rightarrow> 'v list list \<Rightarrow> int \<Rightarrow> 'v group list" where
  "file_groups width rows row_group_rows =
     (if row_group_rows \<le> 0 \<or> int (length rows) \<le> row_group_rows then [columns_data width rows]
      else map (columns_data width) (chunks (nat row_group_rows) rows))"

lemma rg_finish_parts: "rg_parts w \<noteq> [] \<Longrightarrow> rg_streaming w \<Longrightarrow> rg_finish w = rg_parts w"
  by (simp add: rg_finish_def)

lemma write_parquet_groups:
  assumes "0 < width"
  shows "write_parquet width rows row_group_rows = Inr (file_groups width rows row_group_rows)"
proof (cases "row_group_rows \<le> 0 \<or> int (length rows) \<le> row_group_rows")
  case True
  then show ?thesis by (simp add: write_parquet_def file_groups_def)
next
  case False
  define n where "n = nat row_group_rows"
  have n: "0 < n" "n < length rows" "row_group_rows = int n" using False by (auto simp: n_def)
  obtain g h gs where c: "chunks n rows = g # h # gs" "length g = n" "h \<noteq> []" "\<forall>x \<in> set gs. x \<noteq> []"
    using chunks_two [OF n(1,2)] .
  have "rg_write_all (map (columns_data width) (row_parts n rows 0)) (rg_open width (int n)) =
      Inr ((rg_open width (int n))\<lparr>rg_streaming := True, rg_parts := map (columns_data width) (chunks n rows)\<rparr>)"
    unfolding row_parts_chunks [OF n(1)] drop_0 c(1) by (rule write_two_groups [OF assms n(1) c(2-4)])
  with False c(1) show ?thesis
    by (simp add: write_parquet_def file_groups_def n_def [symmetric] n(3) rg_close_def rg_open_def rg_finish_def)
qed

lemma rows_of_file_groups:
  assumes "0 < width" "\<forall>row \<in> set rows. length row = width"
  shows "concat (map rows_from_columns (file_groups width rows row_group_rows)) = rows"
proof (cases "row_group_rows \<le> 0 \<or> int (length rows) \<le> row_group_rows")
  case True
  with rows_from_columns_data [OF assms] show ?thesis by (simp add: file_groups_def)
next
  case False
  let ?c = "chunks (nat row_group_rows) rows"
  have "\<forall>g \<in> set ?c. \<forall>row \<in> set g. length row = width"
  proof (intro ballI)
    fix g row assume "g \<in> set ?c" "row \<in> set g"
    then have "row \<in> set (concat ?c)" unfolding set_concat by blast
    with assms(2) show "length row = width" by (simp only: concat_chunks)
  qed
  then have "map (\<lambda>g. rows_from_columns (columns_data width g)) ?c = ?c"
    by (intro map_idI) (use rows_from_columns_data [OF assms(1)] in blast)
  then have "concat (map (\<lambda>g. rows_from_columns (columns_data width g)) ?c) = concat ?c" by (rule arg_cong)
  with False show ?thesis by (simp add: file_groups_def comp_def)
qed

section \<open>Properties\<close>

text \<open>
  \<open>write_parquet\<close> always publishes a file, through one table or through the incremental
  writer: reading the row groups back in order gives exactly the rows that were written, for
  every row-group size, and with a positive size no group is larger than it.
\<close>

theorem write_parquet_roundtrip:
  assumes "0 < width" and "\<forall>row \<in> set rows. length row = width"
  shows "\<exists>file. write_parquet width rows row_group_rows = Inr file
    \<and> concat (map rows_from_columns file) = rows
    \<and> (0 < row_group_rows \<longrightarrow> (\<forall>g \<in> set file. int (group_rows g) \<le> row_group_rows))"
proof (intro exI conjI)
  show "write_parquet width rows row_group_rows = Inr (file_groups width rows row_group_rows)"
    by (rule write_parquet_groups [OF assms(1)])
  show "concat (map rows_from_columns (file_groups width rows row_group_rows)) = rows"
    by (rule rows_of_file_groups [OF assms])
  show "0 < row_group_rows \<longrightarrow> (\<forall>g \<in> set (file_groups width rows row_group_rows). int (group_rows g) \<le> row_group_rows)"
  proof (intro impI ballI)
    fix g assume pos: "0 < row_group_rows" and g: "g \<in> set (file_groups width rows row_group_rows)"
    then consider "g = columns_data width rows" "int (length rows) \<le> row_group_rows"
      | c where "g = columns_data width c" "c \<in> set (chunks (nat row_group_rows) rows)"
      by (auto simp: file_groups_def split: if_splits)
    then show "int (group_rows g) \<le> row_group_rows"
    proof cases
      case 1
      with assms(1) show ?thesis by (simp add: group_rows_def)
    next
      case 2
      from chunks_groups [OF 2(2)] pos have "length c \<le> nat row_group_rows" by simp
      with 2(1) assms(1) pos show ?thesis by (simp add: group_rows_def)
    qed
  qed
qed

theorem write_parquet_roundtrip_witness:
  "\<exists>file. write_parquet 2 [[1, 2], [3, 4], [5, 6::int]] 2 = Inr file
     \<and> concat (map rows_from_columns file) = [[1, 2], [3, 4], [5, 6]]"
  using write_parquet_roundtrip [of 2 "[[1, 2], [3, 4], [5, 6::int]]" 2] by auto

end
