(* ===== verification/Kept_Edges.thy ===== *)
theory Kept_Edges
  imports Cell_Edges Row_Groups
begin

text \<open>
  The streaming writer of cell edges, \<open>_KeptEdgeWriter\<close> of \<open>src/finance_context/formulas/stage.py\<close>,
  which filters the repeated targets of a formula with packed integer keys and publishes the
  parquet file group by group, and the plain writer \<open>_write_cell_edge_rows\<close>. The key tables are
  an instance of the locale \<open>interner\<close>: numbering that is stable and injective. The main
  result is that both writers publish the same file when each formula cell is one run of edges.
\<close>

unbundle bit_operations_syntax

section \<open>Packed keys\<close>

definition KIND_CODE :: "(string \<times> int) list" where
  "KIND_CODE = [(''ref'', 1), (''range'', 2), (''cross_sheet'', 3), (''external'', 4), (''dynamic'', 5)]"

definition KIND_BITS :: nat where "KIND_BITS = 4"
definition ROW_BITS :: nat where "ROW_BITS = 24"
definition COL_BITS :: nat where "COL_BITS = 15"
definition ROW_LIMIT :: int where "ROW_LIMIT = push_bit ROW_BITS 1"
definition COL_LIMIT :: int where "COL_LIMIT = push_bit COL_BITS 1"

type_synonym id_table = "(string \<times> int) list"

text \<open>
  \<open>found = table.get(key)\<close>, or a new number \<open>len(table) + base + 1\<close> that is stored. A dict keeps
  insertion order, so new entries go to the end.
\<close>

definition intern_id :: "int \<Rightarrow> string \<Rightarrow> id_table \<Rightarrow> int \<times> id_table" where
  "intern_id base key table =
     (case map_of table key of
        Some found \<Rightarrow> (found, table)
      | None \<Rightarrow> (let found = int (length table) + base + 1 in (found, table @ [(key, found)])))"

text \<open>The sheet and the coordinates of a canonical cell id.\<close>

definition cell_parts :: "string \<Rightarrow> (string \<times> int \<times> int) option" where
  "cell_parts target =
     (case rsplit1 CHR ''!'' target of
        None \<Rightarrow> None
      | Some (sheet, body) \<Rightarrow>
          if CHR '':'' \<in> set body \<or> CHR ''$'' \<in> set body then None
          else
            case parse_addr body of
              Inl _ \<Rightarrow> None
            | Inr (col, row) \<Rightarrow>
                if format_addr col row \<noteq> body
                   \<or> \<not> (1 \<le> col \<and> col < COL_LIMIT \<and> 1 \<le> row \<and> row < ROW_LIMIT)
                then None else Some (sheet, col, row))"

definition pack_bits :: "int \<Rightarrow> int \<Rightarrow> int \<Rightarrow> int" where
  "pack_bits sheet_id col row =
     push_bit (COL_BITS + ROW_BITS + KIND_BITS) sheet_id OR push_bit (ROW_BITS + KIND_BITS) col
       OR push_bit KIND_BITS row"

definition pack_cell :: "string \<Rightarrow> id_table \<Rightarrow> int option \<times> id_table" where
  "pack_cell target sheet_ids =
     (case cell_parts target of
        None \<Rightarrow> (None, sheet_ids)
      | Some (sheet, col, row) \<Rightarrow>
          (let (sheet_id, sheet_ids) = intern_id 0 sheet sheet_ids
           in (Some (pack_bits sheet_id col row), sheet_ids)))"

text \<open>A key is a packed integer or a pair; Python never equates the two.\<close>

datatype edge_id = Packed int | Pair int int

record key_tables =
  kt_sheet_ids :: id_table
  kt_other_ids :: id_table
  kt_extra_kinds :: id_table

definition new_tables :: key_tables where
  "new_tables = \<lparr>kt_sheet_ids = [], kt_other_ids = [], kt_extra_kinds = []\<rparr>"

definition kind_code :: "string \<Rightarrow> key_tables \<Rightarrow> int \<times> key_tables" where
  "kind_code kind t =
     (case map_of KIND_CODE kind of
        Some kcode \<Rightarrow> (kcode, t)
      | None \<Rightarrow>
          (let (found, extra) = intern_id (int (length KIND_CODE)) kind (kt_extra_kinds t)
           in (found, t\<lparr>kt_extra_kinds := extra\<rparr>)))"

definition kw_key :: "string \<times> string \<Rightarrow> key_tables \<Rightarrow> edge_id \<times> key_tables" where
  "kw_key target_kind t =
     (let (target, kind) = target_kind;
          (kcode, t) = kind_code kind t;
          (packed, sheet_ids) = pack_cell target (kt_sheet_ids t);
          t = t\<lparr>kt_sheet_ids := sheet_ids\<rparr>
      in case packed of
           Some p \<Rightarrow>
             if kcode < push_bit KIND_BITS 1 then (Packed (p OR kcode), t)
             else (let (other, others) = intern_id 0 target (kt_other_ids t)
                   in (Pair other kcode, t\<lparr>kt_other_ids := others\<rparr>))
         | None \<Rightarrow>
             (let (other, others) = intern_id 0 target (kt_other_ids t)
              in (Pair other kcode, t\<lparr>kt_other_ids := others\<rparr>)))"

section \<open>The writer\<close>

definition IR_CELL_EDGE_COLUMNS :: "(string \<times> string) list" where
  "IR_CELL_EDGE_COLUMNS =
     [(''source'', ''VARCHAR''), (''target'', ''VARCHAR''), (''kind'', ''VARCHAR''),
      (''unresolved'', ''BOOLEAN''), (''truncated'', ''BOOLEAN''), (''dangling'', ''BOOLEAN''),
      (''col_offset'', ''INTEGER''), (''period_lag'', ''VARCHAR''), (''dangling_reason'', ''VARCHAR''),
      (''status'', ''VARCHAR''), (''reason'', ''VARCHAR''), (''evidence'', ''VARCHAR''),
      (''range_ref'', ''VARCHAR''), (''abs_col'', ''BOOLEAN''), (''abs_row'', ''BOOLEAN''),
      (''abs_col_end'', ''BOOLEAN''), (''abs_row_end'', ''BOOLEAN''), (''named'', ''BOOLEAN'')]"

definition kw_width :: nat where
  "kw_width = length IR_CELL_EDGE_COLUMNS"

record KeptEdgeWriter =
  kw_row_group_rows :: int
  kw_count :: nat
  kw_buf :: "pval group"
  kw_buf_n :: nat
  kw_first :: "pval group option"
  kw_writer :: "pval RowGroupWriter option"
  kw_source :: pval
  kw_keys :: "edge_id list"
  kw_tables :: key_tables
  kw_key_high :: nat

definition empty_buf :: "pval group" where
  "empty_buf = map (\<lambda>_. []) [0..<kw_width]"

definition kw_init :: "int \<Rightarrow> KeptEdgeWriter" where
  "kw_init row_group_rows =
     \<lparr>kw_row_group_rows = row_group_rows, kw_count = 0, kw_buf = empty_buf, kw_buf_n = 0, kw_first = None,
      kw_writer = None, kw_source = PNone, kw_keys = [], kw_tables = new_tables, kw_key_high = 0\<rparr>"

definition kw_new_keys :: "KeptEdgeWriter \<Rightarrow> KeptEdgeWriter" where
  "kw_new_keys w = w\<lparr>kw_key_high := max (kw_key_high w) (length (kw_keys w)), kw_keys := [], kw_tables := new_tables\<rparr>"

definition kw_maybe_flush :: "KeptEdgeWriter \<Rightarrow> KeptEdgeWriter result" where
  "kw_maybe_flush w =
     (let rows = kw_row_group_rows w in
      if rows \<le> 0 \<or> int (kw_buf_n w) < rows then Inr w
      else
        let full = kw_buf w; w = w\<lparr>kw_buf := empty_buf, kw_buf_n := 0\<rparr> in
        case kw_writer w of
          Some writer \<Rightarrow> bind_result (rg_write_lists full writer) (\<lambda>writer. Inr (w\<lparr>kw_writer := Some writer\<rparr>))
        | None \<Rightarrow>
            (case kw_first w of
               None \<Rightarrow> Inr (w\<lparr>kw_first := Some full\<rparr>)
             | Some first \<Rightarrow>
                 bind_result (rg_write_lists first (rg_open kw_width rows)) (\<lambda>writer.
                 bind_result (rg_write_lists full writer) (\<lambda>writer.
                 Inr (w\<lparr>kw_writer := Some writer, kw_first := None\<rparr>)))))"

text \<open>The columns \<open>source\<close>, \<open>target\<close> and \<open>kind\<close> hold texts.\<close>

fun text_of :: "pval \<Rightarrow> string" where
  "text_of (PText s) = s"
| "text_of _ = []"

definition kw_enter :: "pval \<Rightarrow> KeptEdgeWriter \<Rightarrow> KeptEdgeWriter" where
  "kw_enter source w = (if source \<noteq> kw_source w then (kw_new_keys w)\<lparr>kw_source := source\<rparr> else w)"

definition kw_consume_at :: "columns \<Rightarrow> nat \<Rightarrow> KeptEdgeWriter \<Rightarrow> KeptEdgeWriter result" where
  "kw_consume_at cols index w =
     (let incoming = map (\<lambda>(name, _). column cols name) IR_CELL_EDGE_COLUMNS;
          w = kw_enter (column cols ''source'' ! index) w;
          (key, tables) = kw_key (text_of (column cols ''target'' ! index), text_of (column cols ''kind'' ! index))
                            (kw_tables w);
          w = w\<lparr>kw_tables := tables\<rparr>
      in if key \<in> set (kw_keys w) then Inr w
         else
           let keys = key # kw_keys w in
           kw_maybe_flush
             (w\<lparr>kw_keys := keys, kw_key_high := max (kw_key_high w) (length keys),
                kw_buf := map2 (\<lambda>buf values. buf @ [values ! index]) (kw_buf w) incoming,
                kw_buf_n := kw_buf_n w + 1, kw_count := kw_count w + 1\<rparr>))"

fun kw_consume_from :: "columns \<Rightarrow> nat list \<Rightarrow> KeptEdgeWriter \<Rightarrow> KeptEdgeWriter result" where
  "kw_consume_from cols [] w = Inr w"
| "kw_consume_from cols (index # rest) w = bind_result (kw_consume_at cols index w) (kw_consume_from cols rest)"

definition kw_consume :: "columns \<Rightarrow> KeptEdgeWriter \<Rightarrow> KeptEdgeWriter result" where
  "kw_consume cols w = kw_consume_from cols [0..<length (column cols ''source'')] w"

definition kw_pending_columns :: "KeptEdgeWriter \<Rightarrow> pval group" where
  "kw_pending_columns w =
     (case kw_first w of
        None \<Rightarrow> kw_buf w
      | Some first \<Rightarrow> if kw_buf_n w = 0 then first else map2 (@) first (kw_buf w))"

definition kw_abort :: "KeptEdgeWriter \<Rightarrow> KeptEdgeWriter" where
  "kw_abort w = (kw_new_keys w)\<lparr>kw_buf := [], kw_first := None, kw_writer := None\<rparr>"

text \<open>The number of rows and the published row groups.\<close>

definition kw_finish :: "KeptEdgeWriter \<Rightarrow> (nat \<times> pval group list) result" where
  "kw_finish w =
     (let w = kw_new_keys w in
      if kw_count w = 0 then
        bind_result (write_parquet kw_width [] (kw_row_group_rows w)) (\<lambda>file. Inr (0, file))
      else
        case kw_writer w of
          None \<Rightarrow>
            (let rows = rows_from_columns (kw_pending_columns w);
                 row_group_rows = (if kw_row_group_rows w \<le> 0 then 0 else kw_row_group_rows w)
             in bind_result (write_parquet kw_width rows row_group_rows) (\<lambda>file. Inr (kw_count w, file)))
        | Some writer \<Rightarrow>
            bind_result (if kw_buf_n w \<noteq> 0 then rg_write_lists (kw_buf w) writer else Inr writer) (\<lambda>writer.
              case fst (rg_close writer) of
                Some file \<Rightarrow> Inr (kw_count w, file)
              | None \<Rightarrow> Inl (RuntimeError ''parquet writer is closed'')))"

text \<open>
  \<open>_write_cell_edge_batches\<close>: the number of kept rows and the published file, and the formula
  edges with their truncation marks. An exception of the sink ends the expansion. Clearing the
  known-node index and the string pool before the file is written frees memory only.
\<close>

definition write_cell_edge_batches ::
  "range_ctx \<Rightarrow> Edge list \<Rightarrow> (string \<Rightarrow> bool) \<Rightarrow> string set \<Rightarrow> (string \<rightharpoonup> string) \<Rightarrow> SheetUsage option \<Rightarrow> int
     \<Rightarrow> (nat \<times> pval group list) result \<times> Edge list" where
  "write_cell_edge_batches ctx edges known sheets presence usage row_group_rows =
     (case expand_cell_edges_column_batches ctx edges known (\<lambda>cols s. bind_result s (kw_consume cols))
             (Inr (kw_init row_group_rows)) sheets presence usage row_group_rows of
        (_, sink, edges') \<Rightarrow> (bind_result sink kw_finish, edges'))"

definition cell_edge_values :: "CellEdge \<Rightarrow> pval list" where
  "cell_edge_values edge =
     [PText (ce_source edge), PText (ce_target edge), PText (ce_kind edge), PBool (ce_unresolved edge),
      PBool (ce_truncated edge), PBool (ce_dangling edge), PNone, PNone, text_val (ce_dangling_reason edge),
      text_val (ce_status edge), text_val (ce_reason edge), text_val (ce_evidence edge),
      text_val (ce_range_ref edge), bool_val (ce_abs_col edge), bool_val (ce_abs_row edge),
      bool_val (ce_abs_col_end edge), bool_val (ce_abs_row_end edge), PBool (ce_named edge)]"

definition write_cell_edge_rows :: "CellEdge list \<Rightarrow> int \<Rightarrow> pval group list result" where
  "write_cell_edge_rows cell_edges row_group_rows =
     write_parquet kw_width (map cell_edge_values cell_edges) row_group_rows"

section \<open>The interface: stable and injective numbering\<close>

locale interner =
  fixes init :: 'st
    and intern :: "'x \<Rightarrow> 'st \<Rightarrow> 'k \<times> 'st"
    and key_in :: "'st \<Rightarrow> 'x \<Rightarrow> 'k option"
    and invar :: "'st \<Rightarrow> bool"
  assumes invar_init: "invar init"
    and invar_intern: "invar st \<Longrightarrow> invar (snd (intern x st))"
    and key_in_intern: "invar st \<Longrightarrow> key_in (snd (intern x st)) x = Some (fst (intern x st))"
    and key_in_stable: "invar st \<Longrightarrow> key_in st y = Some k \<Longrightarrow> key_in (snd (intern x st)) y = Some k"
    and key_in_inj: "invar st \<Longrightarrow> key_in st x = Some k \<Longrightarrow> key_in st y = Some k \<Longrightarrow> x = y"
begin

text \<open>The key list stands for the set of items seen so far.\<close>

definition represents :: "'st \<Rightarrow> 'k list \<Rightarrow> 'x set \<Rightarrow> bool" where
  "represents st keys P \<longleftrightarrow> invar st \<and> (\<forall>x \<in> P. key_in st x \<noteq> None)
     \<and> set keys = {k. \<exists>x \<in> P. key_in st x = Some k}"

lemma represents_init: "represents init [] {}"
  by (simp add: represents_def invar_init)

lemma represents_member:
  assumes "represents st keys P"
  shows "fst (intern x st) \<in> set keys \<longleftrightarrow> x \<in> P"
proof -
  from assms have inv: "invar st" and keys: "set keys = {k. \<exists>x \<in> P. key_in st x = Some k}"
    and dom: "\<forall>x \<in> P. key_in st x \<noteq> None"
    by (auto simp: represents_def)
  let ?st = "snd (intern x st)"
  have own: "key_in ?st x = Some (fst (intern x st))" by (rule key_in_intern [OF inv])
  show ?thesis
  proof
    assume "fst (intern x st) \<in> set keys"
    then obtain y where y: "y \<in> P" "key_in st y = Some (fst (intern x st))" unfolding keys by blast
    have "x = y"
      by (rule key_in_inj [OF invar_intern [OF inv] own key_in_stable [OF inv y(2)]])
    with y(1) show "x \<in> P" by simp
  next
    assume "x \<in> P"
    with dom obtain k where k: "key_in st x = Some k" by blast
    from key_in_stable [OF inv k, of x] own have "k = fst (intern x st)" by simp
    with k \<open>x \<in> P\<close> show "fst (intern x st) \<in> set keys" unfolding keys by blast
  qed
qed

lemma represents_step:
  assumes "represents st keys P"
  shows "represents (snd (intern x st)) (if x \<in> P then keys else fst (intern x st) # keys) (insert x P)"
proof -
  from assms have inv: "invar st" and keys: "set keys = {k. \<exists>x \<in> P. key_in st x = Some k}"
    and dom: "\<forall>x \<in> P. key_in st x \<noteq> None"
    by (auto simp: represents_def)
  let ?st = "snd (intern x st)"
  have own: "key_in ?st x = Some (fst (intern x st))" by (rule key_in_intern [OF inv])
  have stable: "key_in ?st y = key_in st y" if y: "y \<in> P" for y
  proof -
    from dom y obtain k where "key_in st y = Some k" by blast
    with key_in_stable [OF inv this] show ?thesis by simp
  qed
  have "{k. \<exists>y \<in> insert x P. key_in ?st y = Some k} = insert (fst (intern x st)) (set keys)"
    unfolding keys using own stable by auto
  moreover have "x \<in> P \<Longrightarrow> fst (intern x st) \<in> set keys" using represents_member [OF assms] by simp
  moreover have "\<forall>y \<in> insert x P. key_in ?st y \<noteq> None" using own stable dom by simp
  ultimately show ?thesis using invar_intern [OF inv, of x] by (auto simp: represents_def)
qed

end


section \<open>Tables of numbers\<close>

definition table_ok :: "int \<Rightarrow> id_table \<Rightarrow> bool" where
  "table_ok base table \<longleftrightarrow> distinct (map fst table) \<and> distinct (map snd table)
     \<and> (\<forall>i \<in> set (map snd table). base < i \<and> i \<le> base + int (length table))"

lemma table_ok_Nil [simp]: "table_ok base []"
  by (simp add: table_ok_def)

lemma map_of_fresh: "map_of table key = None \<Longrightarrow> key \<notin> fst ` set table"
  by (simp add: map_of_eq_None_iff)

lemma table_ok_intern:
  assumes "table_ok base table"
  shows "table_ok base (snd (intern_id base key table))"
    and "map_of (snd (intern_id base key table)) key = Some (fst (intern_id base key table))"
proof -
  show "table_ok base (snd (intern_id base key table))"
  proof (cases "map_of table key")
    case None
    have "int (length table) + base + 1 \<notin> set (map snd table)"
      using assms by (force simp: table_ok_def)
    with None assms map_of_fresh [OF None] show ?thesis
      by (force simp: intern_id_def table_ok_def Let_def)
  next
    case (Some i)
    with assms show ?thesis by (simp add: intern_id_def)
  qed
  show "map_of (snd (intern_id base key table)) key = Some (fst (intern_id base key table))"
    by (cases "map_of table key") (simp_all add: intern_id_def map_add_def Let_def)
qed

lemma intern_id_stable:
  "map_of table x = Some i \<Longrightarrow> map_of (snd (intern_id base key table)) x = Some i"
  by (cases "map_of table key") (simp_all add: intern_id_def map_add_def Let_def)

lemma table_ok_inj:
  assumes "table_ok base table" "map_of table x = Some i" "map_of table y = Some i"
  shows "x = y"
proof -
  from assms(2,3) have "(x, i) \<in> set table" "(y, i) \<in> set table" by (auto dest: map_of_SomeD)
  moreover have "inj_on snd (set table)" using assms(1) by (simp add: table_ok_def distinct_map)
  ultimately have "(x, i) = (y, i)" by (elim inj_onD) simp_all
  then show ?thesis by simp
qed

lemma table_ok_bound: "table_ok base table \<Longrightarrow> map_of table x = Some i \<Longrightarrow> base < i"
  by (force simp: table_ok_def dest: map_of_SomeD)

section \<open>Packing loses nothing\<close>

lemma pack_fields:
  assumes "0 \<le> col" "col < 2 ^ 15" "0 \<le> row" "row < 2 ^ 24" "0 \<le> k" "k < 2 ^ 4"
  shows "take_bit 4 (pack_bits i col row OR k) = k"
    and "take_bit 24 (drop_bit 4 (pack_bits i col row OR k)) = row"
    and "take_bit 15 (drop_bit 28 (pack_bits i col row OR k)) = col"
    and "drop_bit 43 (pack_bits i col row OR k) = i"
proof -
  have k: "take_bit 4 k = k" using assms(5,6) by (intro take_bit_int_eq_self) simp_all
  have r: "take_bit 24 row = row" using assms(3,4) by (intro take_bit_int_eq_self) simp_all
  have c: "take_bit 15 col = col" using assms(1,2) by (intro take_bit_int_eq_self) simp_all
  have z: "drop_bit 4 k = 0" "drop_bit 28 k = 0" "drop_bit 43 k = 0"
    using assms(5,6) by (simp_all add: drop_bit_eq_div)
  have rz: "drop_bit 28 (push_bit 4 row) = 0" "drop_bit 43 (push_bit 4 row) = 0"
    using assms(3,4) by (simp_all add: drop_bit_eq_div push_bit_eq_mult)
  have cz: "drop_bit 43 (push_bit 28 col) = 0"
    using assms(1,2) by (simp add: drop_bit_eq_div push_bit_eq_mult)
  show "take_bit 4 (pack_bits i col row OR k) = k"
    using k by (simp add: pack_bits_def COL_BITS_def ROW_BITS_def KIND_BITS_def take_bit_push_bit)
  show "take_bit 24 (drop_bit 4 (pack_bits i col row OR k)) = row"
    using r z by (simp add: pack_bits_def COL_BITS_def ROW_BITS_def KIND_BITS_def drop_bit_push_bit take_bit_push_bit)
  show "take_bit 15 (drop_bit 28 (pack_bits i col row OR k)) = col"
    using c z rz by (simp add: pack_bits_def COL_BITS_def ROW_BITS_def KIND_BITS_def drop_bit_push_bit take_bit_push_bit)
  show "drop_bit 43 (pack_bits i col row OR k) = i"
    using z rz cz by (simp add: pack_bits_def COL_BITS_def ROW_BITS_def KIND_BITS_def drop_bit_push_bit)
qed

lemma pack_inject:
  assumes "0 \<le> c1" "c1 < 2 ^ 15" "0 \<le> r1" "r1 < 2 ^ 24" "0 \<le> k1" "k1 < 2 ^ 4"
    and "0 \<le> c2" "c2 < 2 ^ 15" "0 \<le> r2" "r2 < 2 ^ 24" "0 \<le> k2" "k2 < 2 ^ 4"
    and eq: "pack_bits i1 c1 r1 OR k1 = pack_bits i2 c2 r2 OR k2"
  shows "i1 = i2 \<and> c1 = c2 \<and> r1 = r2 \<and> k1 = k2"
  using pack_fields [OF assms(1-6), of i1] pack_fields [OF assms(7-12), of i2] eq by metis

lemma cell_parts_Some:
  assumes "cell_parts target = Some (sheet, col, row)"
  shows "target = sheet @ CHR ''!'' # format_addr col row \<and> 1 \<le> col \<and> col < 2 ^ 15 \<and> 1 \<le> row \<and> row < 2 ^ 24"
proof (cases "rsplit1 CHR ''!'' target")
  case None
  with assms show ?thesis by (simp add: cell_parts_def)
next
  case (Some sb)
  obtain s body where sb: "sb = (s, body)" by (cases sb)
  show ?thesis
  proof (cases "parse_addr body")
    case (Inl e)
    with assms Some sb show ?thesis by (simp add: cell_parts_def split: if_splits)
  next
    case (Inr cr)
    obtain c r where "cr = (c, r)" by (cases cr)
    with assms Some sb Inr rsplit1_Some [of "CHR ''!''" target s body] show ?thesis
      by (auto simp: cell_parts_def COL_LIMIT_def ROW_LIMIT_def COL_BITS_def ROW_BITS_def push_bit_eq_mult
          split: if_splits)
  qed
qed

section \<open>The key tables number (target, kind) pairs\<close>

definition kind_in :: "key_tables \<Rightarrow> string \<Rightarrow> int option" where
  "kind_in t kind = (case map_of KIND_CODE kind of Some c \<Rightarrow> Some c | None \<Rightarrow> map_of (kt_extra_kinds t) kind)"

definition edge_key_in :: "key_tables \<Rightarrow> string \<times> string \<Rightarrow> edge_id option" where
  "edge_key_in t tk =
     (case kind_in t (snd tk) of
        None \<Rightarrow> None
      | Some c \<Rightarrow>
          (case cell_parts (fst tk) of
             Some (sheet, col, row) \<Rightarrow>
               if c < 16 then map_option (\<lambda>i. Packed (pack_bits i col row OR c)) (map_of (kt_sheet_ids t) sheet)
               else map_option (\<lambda>other. Pair other c) (map_of (kt_other_ids t) (fst tk))
           | None \<Rightarrow> map_option (\<lambda>other. Pair other c) (map_of (kt_other_ids t) (fst tk))))"

definition tables_ok :: "key_tables \<Rightarrow> bool" where
  "tables_ok t \<longleftrightarrow> table_ok 0 (kt_sheet_ids t) \<and> table_ok 0 (kt_other_ids t) \<and> table_ok 5 (kt_extra_kinds t)"

lemma length_KIND_CODE [simp]: "length KIND_CODE = 5"
  by (simp add: KIND_CODE_def)

lemma KIND_CODE_range: "map_of KIND_CODE kind = Some c \<Longrightarrow> 1 \<le> c \<and> c \<le> 5"
  by (auto simp: KIND_CODE_def split: if_splits)

lemma KIND_CODE_inj: "map_of KIND_CODE a = Some c \<Longrightarrow> map_of KIND_CODE b = Some c \<Longrightarrow> a = b"
  by (auto simp: KIND_CODE_def split: if_splits)

lemma kind_in_inj:
  assumes "tables_ok t" "kind_in t a = Some c" "kind_in t b = Some c"
  shows "a = b"
proof -
  have ex: "table_ok 5 (kt_extra_kinds t)" using assms(1) by (simp add: tables_ok_def)
  note bound = table_ok_bound [OF ex]
  show ?thesis
    using assms(2,3) KIND_CODE_inj [of a c b] table_ok_inj [OF ex, of a c b]
      KIND_CODE_range [of a c] KIND_CODE_range [of b c] bound [of a c] bound [of b c]
    by (cases "map_of KIND_CODE a"; cases "map_of KIND_CODE b") (auto simp: kind_in_def)
qed

lemma kind_in_pos: "tables_ok t \<Longrightarrow> kind_in t a = Some c \<Longrightarrow> 0 \<le> c"
  using KIND_CODE_range [of a c] table_ok_bound [of 5 "kt_extra_kinds t" a c]
  by (cases "map_of KIND_CODE a") (auto simp: kind_in_def tables_ok_def)

lemma kind_code_facts:
  assumes "tables_ok t"
  shows "tables_ok (snd (kind_code kind t))"
    and "kind_in (snd (kind_code kind t)) kind = Some (fst (kind_code kind t))"
    and "kind_in t a = Some c \<Longrightarrow> kind_in (snd (kind_code kind t)) a = Some c"
    and "kt_sheet_ids (snd (kind_code kind t)) = kt_sheet_ids t"
    and "kt_other_ids (snd (kind_code kind t)) = kt_other_ids t"
proof -
  have ex: "table_ok 5 (kt_extra_kinds t)" using assms by (simp add: tables_ok_def)
  note ti = table_ok_intern [OF ex, of kind]
  show "tables_ok (snd (kind_code kind t))"
    using assms ti by (cases "map_of KIND_CODE kind") (simp_all add: kind_code_def tables_ok_def case_prod_beta)
  show "kind_in (snd (kind_code kind t)) kind = Some (fst (kind_code kind t))"
    using ti by (cases "map_of KIND_CODE kind") (simp_all add: kind_code_def kind_in_def case_prod_beta)
  show "kind_in (snd (kind_code kind t)) a = Some c" if "kind_in t a = Some c"
    using that intern_id_stable [of "kt_extra_kinds t" a c]
    by (cases "map_of KIND_CODE kind"; cases "map_of KIND_CODE a") (simp_all add: kind_code_def kind_in_def case_prod_beta)
  show "kt_sheet_ids (snd (kind_code kind t)) = kt_sheet_ids t" "kt_other_ids (snd (kind_code kind t)) = kt_other_ids t"
    by (cases "map_of KIND_CODE kind"; simp add: kind_code_def case_prod_beta)+
qed

text \<open>\<open>_key\<close> in terms of the tables after the kind has been numbered.\<close>

definition other_step :: "int \<Rightarrow> string \<Rightarrow> key_tables \<Rightarrow> edge_id \<times> key_tables" where
  "other_step c target t =
     (Pair (fst (intern_id 0 target (kt_other_ids t))) c,
      t\<lparr>kt_other_ids := snd (intern_id 0 target (kt_other_ids t))\<rparr>)"

lemma kw_key_unfold:
  assumes "kind_code kind t = (c, t1)"
  shows "kw_key (target, kind) t =
    (case cell_parts target of
       None \<Rightarrow> other_step c target t1
     | Some (sheet, col, row) \<Rightarrow>
         (let t2 = t1\<lparr>kt_sheet_ids := snd (intern_id 0 sheet (kt_sheet_ids t1))\<rparr> in
          if c < 16 then (Packed (pack_bits (fst (intern_id 0 sheet (kt_sheet_ids t1))) col row OR c), t2)
          else other_step c target t2))"
  using assms
  by (cases "cell_parts target")
    (auto simp: kw_key_def pack_cell_def other_step_def KIND_BITS_def push_bit_eq_mult case_prod_beta Let_def)

lemma edge_key_in_mono:
  assumes "edge_key_in t tk = Some k"
    and "\<And>a c. kind_in t a = Some c \<Longrightarrow> kind_in t' a = Some c"
    and "\<And>s i. map_of (kt_sheet_ids t) s = Some i \<Longrightarrow> map_of (kt_sheet_ids t') s = Some i"
    and "\<And>s i. map_of (kt_other_ids t) s = Some i \<Longrightarrow> map_of (kt_other_ids t') s = Some i"
  shows "edge_key_in t' tk = Some k"
proof -
  from assms(1) obtain c where c: "kind_in t (snd tk) = Some c" by (auto simp: edge_key_in_def split: option.splits)
  note c' = assms(2) [OF c]
  show ?thesis
  proof (cases "cell_parts (fst tk)")
    case None
    with assms(1) c c' assms(4) show ?thesis by (auto simp: edge_key_in_def)
  next
    case (Some p)
    obtain s col row where "p = (s, col, row)" by (cases p)
    with Some assms(1) c c' assms(3,4) show ?thesis by (auto simp: edge_key_in_def split: if_splits)
  qed
qed


lemma edge_key_in_intern:
  assumes "tables_ok t"
  shows "tables_ok (snd (kw_key (target, kind) t))
    \<and> edge_key_in (snd (kw_key (target, kind) t)) (target, kind) = Some (fst (kw_key (target, kind) t))
    \<and> (\<forall>tk k. edge_key_in t tk = Some k \<longrightarrow> edge_key_in (snd (kw_key (target, kind) t)) tk = Some k)"
proof -
  obtain c t1 where k: "kind_code kind t = (c, t1)" by (cases "kind_code kind t")
  note kf = kind_code_facts [OF assms, where kind = kind, unfolded k fst_conv snd_conv]
  have s: "table_ok 0 (kt_sheet_ids t1)" "table_ok 0 (kt_other_ids t1)" using kf(1) by (simp_all add: tables_ok_def)
  note sheet = table_ok_intern [OF s(1)] and other = table_ok_intern [OF s(2)]
  have mono: "edge_key_in t' tk = Some k"
    if "edge_key_in t tk = Some k" "kt_extra_kinds t' = kt_extra_kinds t1"
      "\<And>x i. map_of (kt_sheet_ids t1) x = Some i \<Longrightarrow> map_of (kt_sheet_ids t') x = Some i"
      "\<And>x i. map_of (kt_other_ids t1) x = Some i \<Longrightarrow> map_of (kt_other_ids t') x = Some i" for t' tk k
    using that(1)
  proof (rule edge_key_in_mono)
    show "kind_in t' a = Some d" if "kind_in t a = Some d" for a d
      using kf(3) [OF that] \<open>kt_extra_kinds t' = kt_extra_kinds t1\<close>
      by (cases "map_of KIND_CODE a") (simp_all add: kind_in_def)
  qed (use that kf(4,5) in auto)
  have kind': "kind_in t' kind = Some c" if "kt_extra_kinds t' = kt_extra_kinds t1" for t'
    using kf(2) that by (cases "map_of KIND_CODE kind") (simp_all add: kind_in_def)
  show ?thesis
  proof (cases "cell_parts target")
    case None
    then have e: "kw_key (target, kind) t = other_step c target t1" by (simp add: kw_key_unfold [OF k])
    show ?thesis
    proof (unfold e, intro conjI allI impI, goal_cases)
      case 1
      show ?case using kf(1) other None by (simp add: other_step_def tables_ok_def)
    next
      case 2
      show ?case using kf(1) other None by (simp add: other_step_def edge_key_in_def kind')
    next
      case (3 tk k)
      show ?case by (rule mono [OF 3]) (simp_all add: other_step_def intern_id_stable)
    qed
  next
    case (Some p)
    obtain sh col row where p: "p = (sh, col, row)" by (cases p)
    show ?thesis
    proof (cases "c < 16")
      case True
      let ?t2 = "t1\<lparr>kt_sheet_ids := snd (intern_id 0 sh (kt_sheet_ids t1))\<rparr>"
      have e: "kw_key (target, kind) t =
          (Packed (pack_bits (fst (intern_id 0 sh (kt_sheet_ids t1))) col row OR c), ?t2)"
        using True by (simp add: kw_key_unfold [OF k] Some p)
      show ?thesis
      proof (unfold e, intro conjI allI impI, goal_cases)
        case 1
        show ?case using kf(1) sheet Some p True by (simp add: other_step_def tables_ok_def)
      next
        case 2
        show ?case using kf(1) sheet Some p True by (simp add: other_step_def edge_key_in_def kind')
      next
        case (3 tk k)
        show ?case by (rule mono [OF 3]) (simp_all add: other_step_def intern_id_stable)
      qed
    next
      case False
      let ?t2 = "t1\<lparr>kt_sheet_ids := snd (intern_id 0 sh (kt_sheet_ids t1))\<rparr>"
      have e: "kw_key (target, kind) t = other_step c target ?t2"
        using False by (simp add: kw_key_unfold [OF k] Some p)
      show ?thesis
      proof (unfold e, intro conjI allI impI, goal_cases)
        case 1
        show ?case using kf(1) sheet other Some p False by (simp add: other_step_def tables_ok_def)
      next
        case 2
        show ?case using kf(1) sheet other Some p False by (simp add: other_step_def edge_key_in_def kind')
      next
        case (3 tk k)
        show ?case by (rule mono [OF 3]) (simp_all add: other_step_def intern_id_stable)
      qed
    qed
  qed
qed

lemma edge_key_in_Some:
  assumes "edge_key_in t (target, kind) = Some k"
  shows "(\<exists>sheet col row i c. k = Packed (pack_bits i col row OR c) \<and> kind_in t kind = Some c \<and> c < 16
            \<and> cell_parts target = Some (sheet, col, row) \<and> map_of (kt_sheet_ids t) sheet = Some i)
       \<or> (\<exists>other c. k = Pair other c \<and> kind_in t kind = Some c \<and> map_of (kt_other_ids t) target = Some other)"
proof (cases "kind_in t kind")
  case None
  with assms show ?thesis by (simp add: edge_key_in_def)
next
  case (Some c)
  show ?thesis
  proof (cases "cell_parts target")
    case None
    with Some assms show ?thesis by (auto simp: edge_key_in_def)
  next
    case parts: (Some p)
    obtain s col row where "p = (s, col, row)" by (cases p)
    with Some parts assms show ?thesis by (auto simp: edge_key_in_def split: if_splits)
  qed
qed

lemma edge_key_in_inj:
  assumes ok: "tables_ok t" and x: "edge_key_in t x = Some k" and y: "edge_key_in t y = Some k"
  shows "x = y"
proof -
  obtain tx kx where x': "x = (tx, kx)" by (cases x)
  obtain ty ky where y': "y = (ty, ky)" by (cases y)
  have tabs: "table_ok 0 (kt_sheet_ids t)" "table_ok 0 (kt_other_ids t)" using ok by (simp_all add: tables_ok_def)
  show ?thesis
  proof (cases k)
    case (Packed n)
    from edge_key_in_Some [of t tx kx k] x x' Packed obtain s1 c1 r1 i1 k1 where
      1: "n = pack_bits i1 c1 r1 OR k1" "kind_in t kx = Some k1" "k1 < 16" "cell_parts tx = Some (s1, c1, r1)"
         "map_of (kt_sheet_ids t) s1 = Some i1" by auto
    from edge_key_in_Some [of t ty ky k] y y' Packed obtain s2 c2 r2 i2 k2 where
      2: "n = pack_bits i2 c2 r2 OR k2" "kind_in t ky = Some k2" "k2 < 16" "cell_parts ty = Some (s2, c2, r2)"
         "map_of (kt_sheet_ids t) s2 = Some i2" by auto
    note p1 = cell_parts_Some [OF 1(4)] and p2 = cell_parts_Some [OF 2(4)]
    have "i1 = i2 \<and> c1 = c2 \<and> r1 = r2 \<and> k1 = k2"
      by (rule pack_inject) (use p1 p2 1 2 kind_in_pos [OF ok] in auto)
    then have eq: "i1 = i2" "c1 = c2" "r1 = r2" "k1 = k2" by simp_all
    from table_ok_inj [OF tabs(1) 1(5)] 2(5) eq(1) have "s1 = s2" by simp
    moreover from kind_in_inj [OF ok 1(2)] 2(2) eq(4) have "kx = ky" by simp
    ultimately show ?thesis using p1 p2 eq x' y' by simp
  next
    case (Pair other c)
    from edge_key_in_Some [of t tx kx k] x x' Pair
    have 1: "kind_in t kx = Some c" "map_of (kt_other_ids t) tx = Some other" by auto
    from edge_key_in_Some [of t ty ky k] y y' Pair
    have 2: "kind_in t ky = Some c" "map_of (kt_other_ids t) ty = Some other" by auto
    from kind_in_inj [OF ok 1(1) 2(1)] table_ok_inj [OF tabs(2) 1(2) 2(2)] show ?thesis by (simp add: x' y')
  qed
qed

interpretation edge_keys: interner new_tables kw_key edge_key_in tables_ok
proof unfold_locales
  show "tables_ok new_tables" by (simp add: tables_ok_def new_tables_def)
  fix t :: key_tables and x y :: "string \<times> string" and k :: edge_id
  assume ok: "tables_ok t"
  obtain target kind where x: "x = (target, kind)" by (cases x)
  note facts = edge_key_in_intern [OF ok, of target kind]
  show "tables_ok (snd (kw_key x t))" "edge_key_in (snd (kw_key x t)) x = Some (fst (kw_key x t))"
    using facts by (simp_all add: x)
  show "edge_key_in (snd (kw_key x t)) y = Some k" if "edge_key_in t y = Some k" using facts that by (cases y) (simp add: x)
  show "x = y" if "edge_key_in t x = Some k" "edge_key_in t y = Some k" by (rule edge_key_in_inj [OF ok that])
qed


section \<open>Consuming a batch is consuming its rows\<close>

definition row_item :: "pval list \<Rightarrow> string \<times> string" where
  "row_item r = (text_of (r ! 1), text_of (r ! 2))"

definition kw_append :: "pval list \<Rightarrow> KeptEdgeWriter \<Rightarrow> KeptEdgeWriter" where
  "kw_append r w = w\<lparr>kw_buf := map2 (\<lambda>buf v. buf @ [v]) (kw_buf w) r, kw_buf_n := kw_buf_n w + 1,
     kw_count := kw_count w + 1\<rparr>"

definition kw_step :: "pval list \<Rightarrow> KeptEdgeWriter \<Rightarrow> KeptEdgeWriter result" where
  "kw_step r w =
     (let w = kw_enter (r ! 0) w; (key, tables) = kw_key (row_item r) (kw_tables w); w = w\<lparr>kw_tables := tables\<rparr> in
      if key \<in> set (kw_keys w) then Inr w
      else kw_maybe_flush (kw_append r
             (w\<lparr>kw_keys := key # kw_keys w, kw_key_high := max (kw_key_high w) (length (kw_keys w) + 1)\<rparr>)))"

fun kw_steps :: "pval list list \<Rightarrow> KeptEdgeWriter \<Rightarrow> KeptEdgeWriter result" where
  "kw_steps [] w = Inr w"
| "kw_steps (r # rs) w = bind_result (kw_step r w) (kw_steps rs)"

lemma kw_steps_append: "kw_steps (rs @ ss) w = bind_result (kw_steps rs w) (kw_steps ss)"
proof (induction rs arbitrary: w)
  case Nil
  then show ?case by simp
next
  case (Cons r rs)
  then show ?case by (cases "kw_step r w") simp_all
qed

lemma IR_names: "map fst IR_CELL_EDGE_COLUMNS = CELL_EDGE_COLUMNS"
  by (simp add: IR_CELL_EDGE_COLUMNS_def CELL_EDGE_COLUMNS_def)

lemma kw_width_columns: "kw_width = length CELL_EDGE_COLUMNS" "0 < kw_width"
  by (simp_all add: kw_width_def IR_names [symmetric]) (simp add: IR_CELL_EDGE_COLUMNS_def)

lemma incoming_values:
  assumes "index < length g" "length (g ! index) = kw_width"
  shows "map (\<lambda>values. values ! index) (map (\<lambda>(name, _). column (columns_of g) name) IR_CELL_EDGE_COLUMNS) = g ! index"
proof -
  have "map (\<lambda>(name, _). column (columns_of g) name) IR_CELL_EDGE_COLUMNS =
      map (column (columns_of g)) (map fst IR_CELL_EDGE_COLUMNS)"
    by (simp add: case_prod_beta)
  also have "\<dots> = map (\<lambda>i. map (\<lambda>r. r ! i) g) [0..<kw_width]"
    unfolding IR_names kw_width_columns(1) by (auto simp: column_columns_of intro!: nth_equalityI)
  finally show ?thesis using assms by (auto intro!: nth_equalityI)
qed

lemma kw_consume_at_step:
  assumes "index < length g" "length (g ! index) = kw_width"
  shows "kw_consume_at (columns_of g) index w = kw_step (g ! index) w"
proof -
  let ?in = "map (\<lambda>(name, _). column (columns_of g) name) IR_CELL_EDGE_COLUMNS"
  have buf: "map2 (\<lambda>buf values. buf @ [values ! index]) b ?in = map2 (\<lambda>buf v. buf @ [v]) b (g ! index)" for b
  proof -
    have "map2 (\<lambda>buf values. buf @ [values ! index]) b ?in = map2 (\<lambda>buf v. buf @ [v]) b (map (\<lambda>values. values ! index) ?in)"
      by (simp add: zip_map2 case_prod_beta)
    then show ?thesis unfolding incoming_values [OF assms] .
  qed
  have cols: "column (columns_of g) ''source'' ! index = g ! index ! 0"
    "column (columns_of g) ''target'' ! index = g ! index ! 1"
    "column (columns_of g) ''kind'' ! index = g ! index ! 2"
    unfolding CELL_EDGE_COLUMNS_nth(1-3)
    using assms(1) column_columns_of CELL_EDGE_COLUMNS_nth(4-6) by simp_all
  show ?thesis
    unfolding kw_consume_at_def kw_step_def Let_def cols buf row_item_def kw_append_def
    by (simp add: case_prod_beta)
qed

lemma kw_consume_steps:
  assumes "\<forall>r \<in> set g. length r = kw_width"
  shows "kw_consume (columns_of g) w = kw_steps g w"
proof -
  have "kw_consume_from (columns_of g) [k..<length g] w = kw_steps (drop k g) w" if "k \<le> length g" for k
    using that
  proof (induction "length g - k" arbitrary: k w)
    case 0
    then show ?case by simp
  next
    case (Suc m)
    then have k: "k < length g" by simp
    have "length (g ! k) = kw_width" using assms k by simp
    note step = kw_consume_at_step [OF k this]
    have "kw_consume_from (columns_of g) [Suc k..<length g] w' = kw_steps (drop (Suc k) g) w'" for w'
      using Suc by simp
    then have "kw_consume_from (columns_of g) [Suc k..<length g] = kw_steps (drop (Suc k) g)" by (rule ext)
    then show ?case using k by (simp add: upt_conv_Cons Cons_nth_drop_Suc [symmetric] step)
  qed
  from this [of 0] show ?thesis by (simp add: kw_consume_def)
qed

lemma foldl_consume:
  assumes "\<forall>g \<in> set gs. \<forall>r \<in> set g. length r = kw_width"
  shows "foldl (\<lambda>s g. bind_result s (kw_consume (columns_of g))) s gs = bind_result s (kw_steps (concat gs))"
  using assms
proof (induction gs arbitrary: s)
  case Nil
  then show ?case by (cases s) simp_all
next
  case (Cons g gs)
  then show ?case by (cases s) (simp_all add: kw_consume_steps kw_steps_append)
qed

section \<open>The buffers hold the kept rows\<close>

definition cd :: "pval list list \<Rightarrow> pval group" where
  "cd = columns_data kw_width"

definition layout :: "KeptEdgeWriter \<Rightarrow> pval list list \<Rightarrow> bool" where
  "layout w K \<longleftrightarrow>
     (case buffer_groups (nat (kw_row_group_rows w)) [] K of (gs, rest) \<Rightarrow>
        kw_count w = length K \<and> kw_buf w = cd rest \<and> kw_buf_n w = length rest
        \<and> kw_first w = (case gs of [g] \<Rightarrow> Some (cd g) | _ \<Rightarrow> None)
        \<and> kw_writer w = (if length gs \<le> 1 then None
            else Some ((rg_open kw_width (kw_row_group_rows w))\<lparr>rg_streaming := True, rg_parts := map cd gs\<rparr>)))"

lemma empty_buf_cd: "empty_buf = cd []"
  by (simp add: empty_buf_def cd_def columns_data_Nil)

lemma cd_snoc: "length r = kw_width \<Longrightarrow> map2 (\<lambda>buf v. buf @ [v]) (cd rows) r = cd (rows @ [r])"
  by (auto simp: cd_def columns_data_def intro!: nth_equalityI)

lemma layout_init: "layout (kw_init n) []"
  by (simp add: layout_def kw_init_def empty_buf_cd)

lemma layout_cong:
  "kw_row_group_rows w' = kw_row_group_rows w \<Longrightarrow> kw_count w' = kw_count w \<Longrightarrow> kw_buf w' = kw_buf w \<Longrightarrow>
   kw_buf_n w' = kw_buf_n w \<Longrightarrow> kw_first w' = kw_first w \<Longrightarrow> kw_writer w' = kw_writer w \<Longrightarrow>
   layout w' K = layout w K"
  by (simp only: layout_def)

lemma write_first_two:
  assumes "0 < n" "length g = n" "h \<noteq> []"
  shows "bind_result (rg_write_lists (cd g) (rg_open kw_width (int n))) (\<lambda>writer.
      bind_result (rg_write_lists (cd h) writer) f) =
    f ((rg_open kw_width (int n))\<lparr>rg_streaming := True, rg_parts := [cd g, cd h]\<rparr>)"
  using write_two_groups [OF kw_width_columns(2) assms, of "[]"]
  by (cases "rg_write_lists (cd g) (rg_open kw_width (int n))") (auto simp: cd_def bind_result_Inr_iff)

lemma write_next:
  assumes "rg_streaming wr" "\<not> rg_closed wr" "h \<noteq> []"
  shows "rg_write_lists (cd h) wr = Inr (wr\<lparr>rg_parts := rg_parts wr @ [cd h]\<rparr>)"
  using write_streaming [OF assms(1,2) kw_width_columns(2), of "[h]"] assms(3)
  by (cases "rg_write_lists (cd h) wr") (auto simp: cd_def)

text \<open>One more kept row: the buffer takes it, and a full buffer moves on.\<close>

lemma layout_append:
  assumes lay: "layout w K" and r: "length r = kw_width"
  shows "\<exists>w'. kw_maybe_flush (kw_append r w) = Inr w' \<and> layout w' (K @ [r])
    \<and> kw_keys w' = kw_keys w \<and> kw_tables w' = kw_tables w \<and> kw_source w' = kw_source w
    \<and> kw_row_group_rows w' = kw_row_group_rows w"
proof -
  define n where "n = nat (kw_row_group_rows w)"
  obtain gs rest where g: "buffer_groups n [] K = (gs, rest)" by (cases "buffer_groups n [] K")
  from lay g have f: "kw_count w = length K" "kw_buf w = cd rest" "kw_buf_n w = length rest"
    "kw_first w = (case gs of [g] \<Rightarrow> Some (cd g) | _ \<Rightarrow> None)"
    "kw_writer w = (if length gs \<le> 1 then None
        else Some ((rg_open kw_width (kw_row_group_rows w))\<lparr>rg_streaming := True, rg_parts := map cd gs\<rparr>))"
    by (simp_all add: layout_def n_def)
  have buf: "map2 (\<lambda>buf v. buf @ [v]) (kw_buf w) r = cd (rest @ [r])" by (simp add: f cd_snoc r)
  have snoc: "buffer_groups n [] (K @ [r]) =
      (if n \<noteq> 0 \<and> n \<le> length rest + 1 then (gs @ [rest @ [r]], []) else (gs, rest @ [r]))"
    by (simp add: buffer_groups_snoc g)
  show ?thesis
  proof (cases "n \<noteq> 0 \<and> n \<le> length rest + 1")
    case False
    then have "kw_row_group_rows w \<le> 0 \<or> int (length rest + 1) < kw_row_group_rows w" by (auto simp: n_def)
    then have "kw_maybe_flush (kw_append r w) = Inr (kw_append r w)"
      by (auto simp: kw_maybe_flush_def kw_append_def f)
    moreover have "layout (kw_append r w) (K @ [r])"
      unfolding layout_def using False snoc buf f
      by (simp add: kw_append_def n_def [symmetric])
    ultimately show ?thesis by (simp add: kw_append_def)
  next
    case True
    then have rows: "kw_row_group_rows w = int n" "0 < n" by (auto simp: n_def)
    have full: "\<not> (kw_row_group_rows w \<le> 0 \<or> int (kw_buf_n (kw_append r w)) < kw_row_group_rows w)"
      using True rows by (simp add: kw_append_def f)
    have gfull: "\<forall>x \<in> set gs. length x = n" using buffer_groups_full [of n "[]" K] g rows by auto
    let ?w = "(kw_append r w)\<lparr>kw_buf := empty_buf, kw_buf_n := 0\<rparr>"
    have snoc': "buffer_groups n [] (K @ [r]) = (gs @ [rest @ [r]], [])" using snoc True by simp
    consider "gs = []" | g1 where "gs = [g1]" | "2 \<le> length gs" by (cases gs; cases "tl gs") auto
    then show ?thesis
    proof cases
      case 1
      then have "kw_maybe_flush (kw_append r w) = Inr (?w\<lparr>kw_first := Some (cd (rest @ [r]))\<rparr>)"
        using full f buf by (simp add: kw_maybe_flush_def kw_append_def Let_def)
      moreover have "layout (?w\<lparr>kw_first := Some (cd (rest @ [r]))\<rparr>) (K @ [r])"
        using 1 snoc' f by (simp add: layout_def kw_append_def n_def [symmetric] empty_buf_cd)
      ultimately show ?thesis by (simp add: kw_append_def)
    next
      case 2
      let ?wr = "(rg_open kw_width (int n))\<lparr>rg_streaming := True, rg_parts := [cd g1, cd (rest @ [r])]\<rparr>"
      have "kw_maybe_flush (kw_append r w) = Inr (?w\<lparr>kw_writer := Some ?wr, kw_first := None\<rparr>)"
        using full f buf 2 gfull rows write_first_two [of n g1 "rest @ [r]"]
        by (simp add: kw_maybe_flush_def kw_append_def Let_def)
      moreover have "layout (?w\<lparr>kw_writer := Some ?wr, kw_first := None\<rparr>) (K @ [r])"
        using 2 snoc' f rows by (simp add: layout_def kw_append_def empty_buf_cd)
      ultimately show ?thesis by (simp add: kw_append_def)
    next
      case 3
      let ?wr = "(rg_open kw_width (int n))\<lparr>rg_streaming := True, rg_parts := map cd gs\<rparr>"
      let ?wr' = "?wr\<lparr>rg_parts := map cd (gs @ [rest @ [r]])\<rparr>"
      have "rg_write_lists (cd (rest @ [r])) ?wr = Inr ?wr'"
        using write_next [of ?wr "rest @ [r]"] by (simp add: rg_open_def)
      then have "kw_maybe_flush (kw_append r w) = Inr (?w\<lparr>kw_writer := Some ?wr'\<rparr>)"
        using full f buf 3 rows by (simp add: kw_maybe_flush_def kw_append_def Let_def)
      moreover have "layout (?w\<lparr>kw_writer := Some ?wr'\<rparr>) (K @ [r])"
        using 3 snoc' f rows by (cases gs; cases "tl gs") (simp_all add: layout_def kw_append_def empty_buf_cd)
      ultimately show ?thesis by (simp add: kw_append_def)
    qed
  qed
qed


section \<open>Filtering the repeats of a run\<close>

fun run_filter :: "pval \<Rightarrow> (string \<times> string) set \<Rightarrow> pval list list \<Rightarrow> pval list list" where
  "run_filter src P [] = []"
| "run_filter src P (r # rs) =
     (let P = (if r ! 0 = src then P else {}) in
      if row_item r \<in> P then run_filter (r ! 0) P rs
      else r # run_filter (r ! 0) (insert (row_item r) P) rs)"

lemma represents_enter:
  assumes "edge_keys.represents (kw_tables w) (kw_keys w) P"
  shows "edge_keys.represents (kw_tables (kw_enter v w)) (kw_keys (kw_enter v w)) (if v = kw_source w then P else {})"
  using assms edge_keys.represents_init by (simp add: kw_enter_def kw_new_keys_def)

lemma kw_enter_simps [simp]:
  "kw_source (kw_enter v w) = v"
  "layout (kw_enter v w) K = layout w K"
proof -
  show "kw_source (kw_enter v w) = v" by (simp add: kw_enter_def)
  show "layout (kw_enter v w) K = layout w K" by (rule layout_cong) (simp_all add: kw_enter_def kw_new_keys_def)
qed

lemma kw_step_spec:
  assumes rep: "edge_keys.represents (kw_tables w) (kw_keys w) P" and lay: "layout w K" and r: "length r = kw_width"
  defines "P1 \<equiv> (if r ! 0 = kw_source w then P else {})"
  shows "\<exists>w'. kw_step r w = Inr w' \<and> kw_source w' = r ! 0
    \<and> edge_keys.represents (kw_tables w') (kw_keys w') (insert (row_item r) P1)
    \<and> layout w' (if row_item r \<in> P1 then K else K @ [r])"
proof -
  let ?w1 = "kw_enter (r ! 0) w"
  let ?key = "fst (kw_key (row_item r) (kw_tables ?w1))"
  let ?t = "snd (kw_key (row_item r) (kw_tables ?w1))"
  have rep1: "edge_keys.represents (kw_tables ?w1) (kw_keys ?w1) P1"
    unfolding P1_def by (rule represents_enter [OF rep])
  have mem: "?key \<in> set (kw_keys ?w1) \<longleftrightarrow> row_item r \<in> P1" by (rule edge_keys.represents_member [OF rep1])
  note next_rep = edge_keys.represents_step [OF rep1, of "row_item r"]
  show ?thesis
  proof (cases "row_item r \<in> P1")
    case True
    with mem have "kw_step r w = Inr (?w1\<lparr>kw_tables := ?t\<rparr>)" by (simp add: kw_step_def Let_def case_prod_beta)
    moreover have "layout (?w1\<lparr>kw_tables := ?t\<rparr>) K = layout ?w1 K" by (rule layout_cong) simp_all
    ultimately show ?thesis using True next_rep lay by simp
  next
    case False
    let ?w2 = "?w1\<lparr>kw_tables := ?t, kw_keys := ?key # kw_keys ?w1,
        kw_key_high := max (kw_key_high ?w1) (length (kw_keys ?w1) + 1)\<rparr>"
    have "layout ?w2 K = layout ?w1 K" by (rule layout_cong) simp_all
    then have "layout ?w2 K" using lay by simp
    from layout_append [OF this r] obtain w' where w': "kw_maybe_flush (kw_append r ?w2) = Inr w'"
      "layout w' (K @ [r])" "kw_keys w' = kw_keys ?w2" "kw_tables w' = kw_tables ?w2" "kw_source w' = kw_source ?w2"
      by blast
    from False mem w'(1) have "kw_step r w = Inr w'" by (simp add: kw_step_def Let_def case_prod_beta)
    with False w' next_rep show ?thesis by simp
  qed
qed

lemma kw_maybe_flush_rows: "kw_maybe_flush w = Inr w' \<Longrightarrow> kw_row_group_rows w' = kw_row_group_rows w"
  by (auto simp: kw_maybe_flush_def Let_def bind_result_Inr_iff split: if_splits option.splits)

lemma kw_step_rows: "kw_step r w = Inr w' \<Longrightarrow> kw_row_group_rows w' = kw_row_group_rows w"
  by (auto simp: kw_step_def Let_def case_prod_beta kw_append_def kw_enter_def kw_new_keys_def
      dest: kw_maybe_flush_rows split: if_splits)

lemma kw_steps_spec:
  assumes "edge_keys.represents (kw_tables w) (kw_keys w) P" "layout w K" "\<forall>r \<in> set rs. length r = kw_width"
  shows "\<exists>w'. kw_steps rs w = Inr w' \<and> layout w' (K @ run_filter (kw_source w) P rs)
    \<and> kw_row_group_rows w' = kw_row_group_rows w"
  using assms
proof (induction rs arbitrary: w P K)
  case Nil
  then show ?case by simp
next
  case (Cons r rs)
  let ?P1 = "if r ! 0 = kw_source w then P else {}"
  let ?K1 = "if row_item r \<in> ?P1 then K else K @ [r]"
  from Cons.prems have r: "length r = kw_width" by simp
  from kw_step_spec [OF Cons.prems(1,2) r] obtain w1 where w1: "kw_step r w = Inr w1" "kw_source w1 = r ! 0"
    "edge_keys.represents (kw_tables w1) (kw_keys w1) (insert (row_item r) ?P1)" "layout w1 ?K1" by blast
  have rows: "kw_row_group_rows w1 = kw_row_group_rows w"
    using w1(1) by (rule kw_step_rows)
  from Cons.IH [OF w1(3,4)] Cons.prems(3) w1(2) obtain w' where
    w': "kw_steps rs w1 = Inr w'" "layout w' (?K1 @ run_filter (r ! 0) (insert (row_item r) ?P1) rs)"
    "kw_row_group_rows w' = kw_row_group_rows w1" by auto
  have "K @ run_filter (kw_source w) P (r # rs) = ?K1 @ run_filter (r ! 0) (insert (row_item r) ?P1) rs"
    by (auto simp: Let_def insert_absorb)
  with w1(1) w' rows show ?case by simp
qed

text \<open>With one run per source the filter keeps the first row of each key.\<close>

lemma run_filter_first_by:
  assumes "contiguous (map (\<lambda>r. r ! 0) rs)"
    and "\<forall>r \<in> set (dropWhile (\<lambda>r. r ! 0 = s) rs). r ! 0 \<noteq> s \<and> r ! 0 \<notin> fst ` S"
    and "P = {tk. (s, tk) \<in> S}"
  shows "run_filter s P rs = first_by (\<lambda>r. (r ! 0, row_item r)) S rs"
  using assms
proof (induction rs arbitrary: s P S)
  case Nil
  then show ?case by simp
next
  case (Cons r rs)
  let ?S' = "insert (r ! 0, row_item r) S"
  have contig: "contiguous (map (\<lambda>r. r ! 0) rs)" and own: "r ! 0 \<notin> set (dropWhile (\<lambda>y. y = r ! 0) (map (\<lambda>r. r ! 0) rs))"
    using Cons.prems(1) by simp_all
  have own': "\<forall>x \<in> set (dropWhile (\<lambda>x. x ! 0 = r ! 0) rs). x ! 0 \<noteq> r ! 0"
  proof
    fix x assume x: "x \<in> set (dropWhile (\<lambda>x. x ! 0 = r ! 0) rs)"
    have "r ! 0 \<notin> (\<lambda>r. r ! 0) ` set (dropWhile (\<lambda>x. x ! 0 = r ! 0) rs)"
      using own by (simp add: dropWhile_map comp_def)
    with imageI [OF x, of "\<lambda>r. r ! 0"] show "x ! 0 \<noteq> r ! 0" by metis
  qed
  show ?case
  proof (cases "r ! 0 = s")
    case True
    then have "dropWhile (\<lambda>x. x ! 0 = s) (r # rs) = dropWhile (\<lambda>x. x ! 0 = s) rs"
      by simp
    with Cons.prems(2) have tail: "\<forall>x \<in> set (dropWhile (\<lambda>x. x ! 0 = s) rs). x ! 0 \<noteq> s \<and> x ! 0 \<notin> fst ` S"
      by metis
    have "fst ` ?S' = insert s (fst ` S)" unfolding True by (simp only: image_insert fst_conv)
    then have S': "\<forall>x \<in> set (dropWhile (\<lambda>x. x ! 0 = s) rs). x ! 0 \<noteq> s \<and> x ! 0 \<notin> fst ` ?S'"
      using tail by (simp only: insert_iff) blast
    have P': "insert (row_item r) P = {tk. (s, tk) \<in> ?S'}" using True Cons.prems(3) by auto
    show ?thesis
      using True Cons.prems(3) Cons.IH [OF contig tail Cons.prems(3)] Cons.IH [OF contig S' P'] by simp
  next
    case False
    with Cons.prems(2) have all: "\<forall>x \<in> set (r # rs). x ! 0 \<notin> fst ` S" by auto
    have P': "insert (row_item r) {} = {tk. (r ! 0, tk) \<in> ?S'}" using all by force
    have "\<forall>x \<in> set (dropWhile (\<lambda>x. x ! 0 = r ! 0) rs). x ! 0 \<noteq> r ! 0 \<and> x ! 0 \<notin> fst ` ?S'"
    proof
      fix x assume x: "x \<in> set (dropWhile (\<lambda>x. x ! 0 = r ! 0) rs)"
      then have "x ! 0 \<notin> fst ` S" using all set_dropWhileD [OF x] by simp
      moreover have "fst ` ?S' = insert (r ! 0) (fst ` S)" by (simp only: image_insert fst_conv)
      ultimately show "x ! 0 \<noteq> r ! 0 \<and> x ! 0 \<notin> fst ` ?S'" using own' x by (simp only: insert_iff) blast
    qed
    from Cons.IH [OF contig this P'] False all show ?thesis by force
  qed
qed

section \<open>Publishing\<close>

lemma layout_finish:
  assumes lay: "layout w K" and K: "\<forall>r \<in> set K. length r = kw_width"
  shows "kw_finish w = Inr (length K, file_groups kw_width K (kw_row_group_rows w))"
proof -
  define n where "n = nat (kw_row_group_rows w)"
  obtain gs rest where g: "buffer_groups n [] K = (gs, rest)" by (cases "buffer_groups n [] K")
  from lay g have f: "kw_count w = length K" "kw_buf w = cd rest" "kw_buf_n w = length rest"
    "kw_first w = (case gs of [g] \<Rightarrow> Some (cd g) | _ \<Rightarrow> None)"
    "kw_writer w = (if length gs \<le> 1 then None
        else Some ((rg_open kw_width (kw_row_group_rows w))\<lparr>rg_streaming := True, rg_parts := map cd gs\<rparr>))"
    by (simp_all add: layout_def n_def)
  have cat: "concat gs @ rest = K" using concat_buffer_groups [of n "[]" K] g by simp
  have chunk: "chunks n K = gs @ (if rest = [] then [] else [rest])"
  proof -
    have "n = 0 \<or> length ([] :: pval list list) < n" by auto
    from buffer_groups_chunks [OF this, of K] show ?thesis unfolding g fst_conv snd_conv Let_def append_Nil by simp
  qed
  note wp = write_parquet_groups [OF kw_width_columns(2), of K]
  show ?thesis
  proof (cases "K = []")
    case True
    with f(1) wp [of "kw_row_group_rows w"] show ?thesis by (simp add: kw_finish_def kw_new_keys_def)
  next
    case False
    show ?thesis
    proof (cases "length gs \<le> 1")
      case True
      have pending: "kw_pending_columns (kw_new_keys w) = cd K"
      proof (cases gs)
        case Nil
        with f cat show ?thesis by (simp add: kw_pending_columns_def kw_new_keys_def)
      next
        case (Cons a list)
        with True have "gs = [a]" by simp
        with f cat show ?thesis
          by (auto simp: kw_pending_columns_def kw_new_keys_def cd_def columns_data_append)
      qed
      have rows: "rows_from_columns (cd K) = K"
        unfolding cd_def by (rule rows_from_columns_data [OF kw_width_columns(2) K])
      have "kw_row_group_rows w \<le> 0 \<Longrightarrow> file_groups kw_width K 0 = file_groups kw_width K (kw_row_group_rows w)"
        by (simp add: file_groups_def)
      with f True False pending rows wp show ?thesis
        by (simp add: kw_finish_def) (simp add: kw_new_keys_def)
    next
      case big: False
      then obtain g0 where "g0 \<in> set gs" by (cases gs) auto
      then have "n \<noteq> 0" using buffer_groups_full [of n "[]" K] g by auto
      then have n: "0 < n" "kw_row_group_rows w = int n" by (simp_all add: n_def)
      have long: "\<not> length K \<le> n"
      proof
        assume "length K \<le> n"
        then have "length (chunks n K) = 1" using False by (simp add: chunks_short)
        with chunk big show False by (simp split: if_splits)
      qed
      then have fg: "file_groups kw_width K (kw_row_group_rows w) = map cd (gs @ (if rest = [] then [] else [rest]))"
        using n by (simp add: file_groups_def chunk cd_def)
      let ?wr = "(rg_open kw_width (int n))\<lparr>rg_streaming := True, rg_parts := map cd gs\<rparr>"
      have parts: "map cd (gs @ (if rest = [] then [] else [rest])) \<noteq> []" using big by auto
      have wr: "(if length rest \<noteq> 0 then rg_write_lists (cd rest) ?wr else Inr ?wr) =
          Inr (?wr\<lparr>rg_parts := map cd (gs @ (if rest = [] then [] else [rest]))\<rparr>)"
        using write_next [of ?wr rest] by (simp add: rg_open_def)
      show ?thesis
        using f False big n(2) wr parts \<open>g0 \<in> set gs\<close>
        unfolding fg by (simp add: kw_finish_def kw_new_keys_def rg_close_def rg_finish_def rg_open_def split: if_splits) auto
    qed
  qed
qed


section \<open>Both writers publish the same file\<close>

lemma cell_edge_values_in: "cell_edge_values (cell_edge_in known sheets presence row) = edge_values known sheets presence row"
  by (simp add: cell_edge_values_def cell_edge_in_def cell_edge_of_def edge_values_def row_values_def)

lemma length_edge_values: "length (edge_values known sheets presence row) = kw_width"
  by (simp add: edge_values_def kw_width_columns)

lemma edge_values_key:
  "edge_values known sheets presence row ! 0 = PText (er_source row)"
  "row_item (edge_values known sheets presence row) = (er_target row, er_kind row)"
  by (simp_all add: edge_values_def row_values_def row_item_def)

lemma er_source_rows: "map er_source (fst (edge_rows ctx edge usage)) =
    replicate (length (fst (edge_rows ctx edge usage))) (e_source edge)"
proof -
  have "\<forall>y \<in> set (map er_source (fst (edge_rows ctx edge usage))). y = e_source edge"
    by (auto simp: edge_rows_def make_row_def case_prod_beta split: option.splits)
  from replicate_length_same [OF this] show ?thesis by simp
qed


lemma contiguous_rows:
  assumes "contiguous (map e_source edges)"
  shows "contiguous (map (\<lambda>r. r ! 0) (map (edge_values known sheets presence) (all_rows ctx usage edges)))"
proof -
  have "map er_source (all_rows ctx usage edges) =
      concat (map (\<lambda>e. replicate (length (fst (edge_rows ctx e usage))) (e_source e)) edges)"
    by (induction edges) (simp_all add: er_source_rows)
  with contiguous_concat_replicate [OF assms] have "contiguous (map er_source (all_rows ctx usage edges))" by simp
  moreover have inj: "contiguous (map PText xs) = contiguous xs" for xs
    by (induction xs) (auto simp: dropWhile_map comp_def)
  ultimately have "contiguous (map PText (map er_source (all_rows ctx usage edges)))" by (simp only: inj)
  then show ?thesis by (simp add: comp_def edge_values_key)
qed

lemma kept_rows_first_by:
  assumes "contiguous (map e_source edges)"
  shows "run_filter PNone {} (map (edge_values known sheets presence) (all_rows ctx usage edges)) =
    map (edge_values known sheets presence) (first_by row_key {} (all_rows ctx usage edges))"
proof -
  let ?v = "edge_values known sheets presence"
  let ?rows = "all_rows ctx usage edges"
  have "run_filter PNone {} (map ?v ?rows) = first_by (\<lambda>r. (r ! 0, row_item r)) {} (map ?v ?rows)"
  proof (rule run_filter_first_by [OF contiguous_rows [OF assms]])
    show "\<forall>r \<in> set (dropWhile (\<lambda>r. r ! 0 = PNone) (map ?v ?rows)). r ! 0 \<noteq> PNone \<and> r ! 0 \<notin> fst ` {}"
      by (auto dest!: set_dropWhileD simp: edge_values_key)
  qed simp
  also have "\<dots> = map ?v (first_by (\<lambda>row. (?v row ! 0, row_item (?v row))) {} ?rows)" by (rule first_by_map)
  also have "first_by (\<lambda>row. (?v row ! 0, row_item (?v row))) {} ?rows = first_by row_key {} ?rows"
    by (rule first_by_cong) (auto simp: edge_values_key row_key_def)
  finally show ?thesis .
qed

text \<open>The streamed file for any list of edges: the rows that survive the per-run filter.\<close>

lemma write_cell_edge_batches_spec:
  "write_cell_edge_batches ctx edges known sheets presence usage n =
    (let K = run_filter PNone {} (map (edge_values known sheets presence) (all_rows ctx usage edges))
     in (Inr (length K, file_groups kw_width K n), snd (expand_cell_edges ctx edges known sheets presence usage)))"
proof -
  let ?rows = "map (edge_values known sheets presence) (all_rows ctx usage edges)"
  have rows: "\<forall>r \<in> set ?rows. length r = kw_width" by (simp add: length_edge_values)
  then have groups: "\<forall>g \<in> set (chunks (nat n) ?rows). \<forall>r \<in> set g. length r = kw_width"
    by (metis (no_types, lifting) UN_I concat_chunks set_concat)
  have rep: "edge_keys.represents (kw_tables (kw_init n)) (kw_keys (kw_init n)) {}"
    using edge_keys.represents_init by (simp add: kw_init_def)
  from kw_steps_spec [OF rep layout_init rows] obtain w' where
    w': "kw_steps ?rows (kw_init n) = Inr w'" "layout w' (run_filter PNone {} ?rows)" "kw_row_group_rows w' = n"
    by (auto simp: kw_init_def)
  have "\<forall>r \<in> set (run_filter s P rs). r \<in> set rs" for s P rs
    by (induction rs arbitrary: s P) (auto simp: Let_def split: if_splits)
  with rows have "\<forall>r \<in> set (run_filter PNone {} ?rows). length r = kw_width" by blast
  from layout_finish [OF w'(2) this] w'(3)
  have fin: "kw_finish w' = Inr (length (run_filter PNone {} ?rows), file_groups kw_width (run_filter PNone {} ?rows) n)" by simp
  have fold: "foldl (\<lambda>s g. bind_result s (kw_consume (columns_of g))) (Inr (kw_init n)) (chunks (nat n) ?rows) = Inr w'"
    unfolding foldl_consume [OF groups] using w'(1) by simp
  show ?thesis
    unfolding write_cell_edge_batches_def column_batches_spec expand_cell_edges_spec fold
    by (simp add: fin Let_def)
qed

lemma streamed_edges_file:
  assumes "contiguous (map e_source edges)"
  shows "\<exists>file. write_cell_edge_rows (fst (expand_cell_edges ctx edges known sheets presence usage)) row_group_rows = Inr file
    \<and> write_cell_edge_batches ctx edges known sheets presence usage row_group_rows =
        (Inr (length (fst (expand_cell_edges ctx edges known sheets presence usage)), file),
         snd (expand_cell_edges ctx edges known sheets presence usage))"
proof -
  let ?first = "first_by row_key {} (all_rows ctx usage edges)"
  have vals: "map cell_edge_values (fst (expand_cell_edges ctx edges known sheets presence usage)) =
      map (edge_values known sheets presence) ?first"
    by (simp add: expand_cell_edges_spec cell_edge_values_in)
  have "length (fst (expand_cell_edges ctx edges known sheets presence usage)) = length ?first"
    by (simp add: expand_cell_edges_spec)
  then show ?thesis
    unfolding write_cell_edge_rows_def vals write_cell_edge_batches_spec kept_rows_first_by [OF assms]
    by (simp add: write_parquet_groups [OF kw_width_columns(2)])
qed

section \<open>Properties\<close>

text \<open>
  C6. Streaming changes nothing: when every formula cell contributes one contiguous run of
  formula edges, the writer that filters repeats with packed integer keys, batch by batch,
  never fails and publishes the same parquet file, row group for row group, as the plain
  writer does from the de-duplicated list of \<open>expand_cell_edges\<close>; it reports the same number
  of rows and leaves the same truncation marks. This holds for every row-group size, every
  edge kind and every target text.
\<close>

theorem streamed_edges_same_file:
  assumes "contiguous (map e_source edges)"
  shows "\<exists>file. write_cell_edge_rows (fst (expand_cell_edges ctx edges known sheets presence usage)) row_group_rows = Inr file
    \<and> write_cell_edge_batches ctx edges known sheets presence usage row_group_rows =
        (Inr (length (fst (expand_cell_edges ctx edges known sheets presence usage)), file),
         snd (expand_cell_edges ctx edges known sheets presence usage))"
  by (rule streamed_edges_file [OF assms])

theorem streamed_edges_same_file_witness:
  "\<exists>file. write_cell_edge_batches ctx_example
     [edge_example ''range'' ''Data!A1:B2'', edge_example ''ref'' ''Data!C1'', edge_example ''ref'' ''Data!C1'']
     (\<lambda>_. True) {''Data''} Map.empty (Some usage_example) 2 = (Inr (5, file), map (edge_example ''range'') [''Data!A1:B2''] @ map (edge_example ''ref'') [''Data!C1'', ''Data!C1''])
     \<and> length file = 3"
proof -
  let ?edges = "[edge_example ''range'' ''Data!A1:B2'', edge_example ''ref'' ''Data!C1'', edge_example ''ref'' ''Data!C1'']"
  let ?known = "\<lambda>_ :: string. True"
  have c: "contiguous (map e_source ?edges)" by (simp add: edge_example_def)
  have len: "length (fst (expand_cell_edges ctx_example ?edges ?known {''Data''} Map.empty (Some usage_example))) = 5"
    by code_simp
  have marks: "snd (expand_cell_edges ctx_example ?edges ?known {''Data''} Map.empty (Some usage_example)) =
      map (edge_example ''range'') [''Data!A1:B2''] @ map (edge_example ''ref'') [''Data!C1'', ''Data!C1'']"
    by code_simp
  from streamed_edges_same_file [OF c, of ctx_example ?known "{''Data''}" Map.empty "Some usage_example" 2]
  obtain out where f: "write_cell_edge_rows (fst (expand_cell_edges ctx_example ?edges ?known {''Data''} Map.empty (Some usage_example))) 2 = Inr out"
    "write_cell_edge_batches ctx_example ?edges ?known {''Data''} Map.empty (Some usage_example) 2 =
       (Inr (length (fst (expand_cell_edges ctx_example ?edges ?known {''Data''} Map.empty (Some usage_example))), out),
        snd (expand_cell_edges ctx_example ?edges ?known {''Data''} Map.empty (Some usage_example)))" by blast
  have "map_sum id length (write_cell_edge_rows (fst (expand_cell_edges ctx_example ?edges ?known {''Data''} Map.empty (Some usage_example))) 2) = Inr 3"
    by code_simp
  with f(1) have "length out = 3" by simp
  with f(2) show ?thesis unfolding len marks by blast
qed

text \<open>Numbering a sequence of (target, kind) pairs of one formula.\<close>

fun kw_number :: "(string \<times> string) list \<Rightarrow> key_tables \<Rightarrow> edge_id list \<times> key_tables" where
  "kw_number [] t = ([], t)"
| "kw_number (x # xs) t =
     (let (k, t) = kw_key x t; (ks, t) = kw_number xs t in (k # ks, t))"

lemma kw_number_keys:
  assumes "tables_ok t"
  shows "tables_ok (snd (kw_number xs t))
    \<and> map Some (fst (kw_number xs t)) = map (edge_key_in (snd (kw_number xs t))) xs
    \<and> (\<forall>y k. edge_key_in t y = Some k \<longrightarrow> edge_key_in (snd (kw_number xs t)) y = Some k)"
  using assms
proof (induction xs arbitrary: t)
  case Nil
  then show ?case by simp
next
  case (Cons x xs)
  let ?t = "snd (kw_key x t)"
  note ok = edge_keys.invar_intern [OF Cons.prems, of x] and own = edge_keys.key_in_intern [OF Cons.prems, of x]
  note IH = Cons.IH [OF ok]
  from IH own have "edge_key_in (snd (kw_number xs ?t)) x = Some (fst (kw_key x t))" by blast
  with IH edge_keys.key_in_stable [OF Cons.prems] show ?case
    by (simp add: case_prod_beta Let_def)
qed

text \<open>
  The key of a cell reference loses nothing: over any sequence of (target, kind) pairs of one
  formula the keys are the image of the pairs under an injective function, so two pairs get
  the same key exactly when they are equal, for canonical cells inside and outside the packable
  grid, range nodes, any other text and any number of edge kinds.
\<close>

theorem edge_keys_injective:
  "\<exists>key. inj_on key (set xs) \<and> fst (kw_number xs new_tables) = map key xs"
proof -
  let ?t = "snd (kw_number xs new_tables)"
  have ok: "tables_ok new_tables" by (rule edge_keys.invar_init)
  note facts = kw_number_keys [OF ok, of xs]
  define key where "key x = the (edge_key_in ?t x)" for x
  have some: "edge_key_in ?t x \<noteq> None" if x: "x \<in> set xs" for x
  proof -
    have "edge_key_in ?t x \<in> set (map (edge_key_in ?t) xs)" using x by simp
    also have "set (map (edge_key_in ?t) xs) = Some ` set (fst (kw_number xs new_tables))"
      using facts by (metis list.set_map)
    finally show ?thesis by auto
  qed
  have "inj_on key (set xs)"
  proof (rule inj_onI)
    fix x y assume "x \<in> set xs" "y \<in> set xs" "key x = key y"
    have "edge_key_in ?t z = Some (key z)" if "z \<in> set xs" for z
      using some [OF that] unfolding key_def by (rule option.collapse [symmetric])
    with \<open>x \<in> set xs\<close> \<open>y \<in> set xs\<close> \<open>key x = key y\<close>
    have "edge_key_in ?t x = Some (key x)" "edge_key_in ?t y = Some (key x)" by metis+
    with facts show "x = y" by (blast intro: edge_key_in_inj)
  qed
  moreover have "fst (kw_number xs new_tables) = map key xs"
  proof -
    have "map the (map Some (fst (kw_number xs new_tables))) = map the (map (edge_key_in ?t) xs)" using facts by metis
    then show ?thesis by (simp add: comp_def key_def)
  qed
  ultimately show ?thesis by blast
qed

end
