(* ===== verification/Formula_Scan.thy ===== *)
theory Formula_Scan
  imports A1_Address
begin

text \<open>
  The formula scanner, \<open>src/finance_context/formulas/scan.py\<close>. The index into the text is
  represented by the remaining suffix; the position stored on a token is the number of
  characters before it (after it for strings and numbers, as in the source). The value of a
  number is of an arbitrary type: the operations on Python floats are the record
  \<open>float_ops\<close>, so every result holds for whatever these operations do.
  Regular expressions are deterministic prefix matchers, as in the theory of addresses.
\<close>

section \<open>Numbers, tokens and reference nodes\<close>

text \<open>\<open>float(text)\<close> (\<open>None\<close> when it raises \<open>ValueError\<close>), negation, \<open>is_integer\<close>, \<open>int\<close> and \<open>str\<close>.\<close>

record 'f float_ops =
  f_of_text :: "string \<Rightarrow> 'f option"
  f_neg :: "'f \<Rightarrow> 'f"
  f_is_integer :: "'f \<Rightarrow> bool"
  f_to_int :: "'f \<Rightarrow> int"
  f_str :: "'f \<Rightarrow> string"

record cell =
  c_col :: int
  c_row :: int
  c_abs_col :: bool
  c_abs_row :: bool

text \<open>A cell, a rectangle, a column pair or a row pair; a column or row carries its anchor.\<close>

datatype ref_body =
    BCell cell
  | BRange cell cell
  | BCols "int \<times> bool" "int \<times> bool"
  | BRows "int \<times> bool" "int \<times> bool"

record ref_node =
  rf_body :: ref_body
  rf_sheet :: "string option"
  rf_external :: "string option"

datatype ref_value = RefV ref_node | ErrV string

datatype 'f tok =
    STRING string
  | ERROR string
  | NUMBER 'f
  | REF ref_value
  | NAME string
  | SEP
  | ROWSEP
  | OP string
  | COLON
  | LPAREN
  | RPAREN
  | LBRACE
  | RBRACE

record 'f Token =
  t_tok :: "'f tok"
  t_pos :: nat

definition ERRORS :: "string list" where
  "ERRORS = [''#GETTING_DATA!'', ''#DIV/0!'', ''#VALUE!'', ''#NULL!'', ''#NAME?'', ''#NUM!'', ''#N/A'', ''#REF!'']"

definition startswith :: "string \<Rightarrow> string \<Rightarrow> bool" where
  "startswith s pat \<longleftrightarrow> take (length pat) s = pat"

section \<open>References\<close>

definition cell_node :: "ref_match \<Rightarrow> cell" where
  "cell_node m = \<lparr>c_col = col_to_index (rm_col m), c_row = int (int_of_digits (rm_row m)),
     c_abs_col = rm_abscol m, c_abs_row = rm_absrow m\<rparr>"

definition grid_cell :: "string \<Rightarrow> ref_match option" where
  "grid_cell s =
     (case re_cell_body s of
        None \<Rightarrow> None
      | Some m \<Rightarrow> if in_grid (col_to_index (rm_col m)) (int (int_of_digits (rm_row m))) then Some m else None)"

text \<open>\<open>(\$?)([A-Za-z]{1,3})\<close>: anchor, letters and rest; the letters are the maximal run.\<close>

definition col_part :: "string \<Rightarrow> (bool \<times> string \<times> string) option" where
  "col_part s =
     (let (dollar, s1) = drop_dollar s; letters = takeWhile re_letter s1 in
      if letters \<noteq> [] \<and> length letters \<le> 3 then Some (dollar, letters, dropWhile re_letter s1) else None)"

definition re_col_pair :: "string \<Rightarrow> (bool \<times> string \<times> bool \<times> string \<times> string) option" where
  "re_col_pair s =
     (case col_part s of
        None \<Rightarrow> None
      | Some (d1, l1, rest1) \<Rightarrow>
          if take 1 rest1 \<noteq> '':'' then None
          else
            case col_part (drop 1 rest1) of
              None \<Rightarrow> None
            | Some (d2, l2, rest2) \<Rightarrow> if ref_follow rest2 then Some (d1, l1, d2, l2, rest2) else None)"

definition row_part :: "string \<Rightarrow> (bool \<times> string \<times> string) option" where
  "row_part s =
     (let (dollar, s1) = drop_dollar s; digits = takeWhile re_digit s1 in
      if digits \<noteq> [] then Some (dollar, digits, dropWhile re_digit s1) else None)"

definition re_row_pair :: "string \<Rightarrow> (bool \<times> string \<times> bool \<times> string \<times> string) option" where
  "re_row_pair s =
     (case row_part s of
        None \<Rightarrow> None
      | Some (d1, n1, rest1) \<Rightarrow>
          if take 1 rest1 \<noteq> '':'' then None
          else
            case row_part (drop 1 rest1) of
              None \<Rightarrow> None
            | Some (d2, n2, rest2) \<Rightarrow> Some (d1, n1, d2, n2, rest2))"

text \<open>\<open>[^\W\d][\w.]*!\<close>: the sheet name and the rest after the exclamation mark.\<close>

definition re_unquoted_sheet :: "string \<Rightarrow> (string \<times> string) option" where
  "re_unquoted_sheet s =
     (case s of
        [] \<Rightarrow> None
      | c # t \<Rightarrow>
          if re_word c \<and> \<not> re_digit c \<and> take 1 (dropWhile word_or_dot t) = ''!''
          then Some (c # takeWhile word_or_dot t, drop 1 (dropWhile word_or_dot t)) else None)"

text \<open>
  The quoted name after an opening apostrophe: its text with doubled apostrophes undone, and
  the rest after the closing one. An unclosed name is \<open>None\<close>.
\<close>

fun quoted_name :: "string \<Rightarrow> (string \<times> string) option" where
  "quoted_name [] = None"
| "quoted_name [c] = (if c = CHR 0x27 then Some ([], []) else None)"
| "quoted_name (c # d # t) =
     (if c = CHR 0x27 then
        (if d = CHR 0x27 then map_option (\<lambda>(name, rest). (c # name, rest)) (quoted_name t)
         else Some ([], d # t))
      else map_option (\<lambda>(name, rest). (c # name, rest)) (quoted_name (d # t)))"

definition skip_sheet_qualifier :: "string \<Rightarrow> string" where
  "skip_sheet_qualifier s =
     (if take 1 s = [CHR 0x27] then
        (case quoted_name (drop 1 s) of
           None \<Rightarrow> s
         | Some (_, rest) \<Rightarrow> if take 1 rest = ''!'' then drop 1 rest else s)
      else
        (case re_unquoted_sheet s of None \<Rightarrow> s | Some (_, rest) \<Rightarrow> rest))"

definition scan_range_body :: "string \<Rightarrow> (ref_body \<times> string) option" where
  "scan_range_body s =
     (case grid_cell s of
        Some cell \<Rightarrow>
          (let start = cell_node cell; rest = rm_rest cell in
           if take 1 rest = '':'' then
             (case grid_cell (skip_sheet_qualifier (drop 1 rest)) of
                Some cell2 \<Rightarrow> Some (BRange start (cell_node cell2), rm_rest cell2)
              | None \<Rightarrow> Some (BCell start, rest))
           else Some (BCell start, rest))
      | None \<Rightarrow>
          (case re_col_pair s of
             Some (d1, l1, d2, l2, rest) \<Rightarrow>
               if in_grid (col_to_index l1) 1 \<and> in_grid (col_to_index l2) 1
               then Some (BCols (col_to_index l1, d1) (col_to_index l2, d2), rest)
               else map_option (\<lambda>(d1, n1, d2, n2, rest).
                      (BRows (int (int_of_digits n1), d1) (int (int_of_digits n2), d2), rest)) (re_row_pair s)
           | None \<Rightarrow> map_option (\<lambda>(d1, n1, d2, n2, rest).
                      (BRows (int (int_of_digits n1), d1) (int (int_of_digits n2), d2), rest)) (re_row_pair s)))"

definition scan_deleted_ref :: "string \<Rightarrow> (ref_value \<times> string) option" where
  "scan_deleted_ref s = (if startswith s ''#REF!'' then Some (ErrV ''#REF!'', drop 5 s) else None)"

definition scan_quoted_ref :: "string \<Rightarrow> (ref_value \<times> string) option" where
  "scan_quoted_ref s =
     (case quoted_name (drop 1 s) of
        None \<Rightarrow> None
      | Some (quoted, rest) \<Rightarrow>
          if take 1 rest \<noteq> ''!'' then None
          else
            case scan_range_body (drop 1 rest) of
              None \<Rightarrow> scan_deleted_ref (drop 1 rest)
            | Some (body, k) \<Rightarrow>
                if startswith quoted ''['' \<and> CHR '']'' \<in> set quoted then
                  (let external = takeWhile (\<lambda>c. c \<noteq> CHR '']'') (drop 1 quoted);
                       rest = drop 1 (dropWhile (\<lambda>c. c \<noteq> CHR '']'') quoted)
                   in Some (RefV \<lparr>rf_body = body, rf_sheet = (if rest \<noteq> [] then Some rest else None),
                                  rf_external = Some external\<rparr>, k))
                else Some (RefV \<lparr>rf_body = body, rf_sheet = Some quoted, rf_external = None\<rparr>, k))"

definition scan_bracket_ref :: "string \<Rightarrow> (ref_value \<times> string) option" where
  "scan_bracket_ref s =
     (if CHR '']'' \<notin> set s then None
      else
        let external = takeWhile (\<lambda>c. c \<noteq> CHR '']'') (drop 1 s);
            j = drop 1 (dropWhile (\<lambda>c. c \<noteq> CHR '']'') s);
            name = takeWhile word_or_dot j;
            has_sheet = (name \<noteq> [] \<and> take 1 (dropWhile word_or_dot j) = ''!'');
            j = (if has_sheet then dropWhile word_or_dot j else j);
            bang = (take 1 j = ''!'');
            j = (if bang then drop 1 j else j)
        in case scan_range_body j of
             None \<Rightarrow> if bang then scan_deleted_ref j else None
           | Some (body, k) \<Rightarrow>
               Some (RefV \<lparr>rf_body = body, rf_sheet = (if has_sheet then Some name else None),
                           rf_external = Some external\<rparr>, k))"

definition plain_ref :: "ref_body \<Rightarrow> ref_value" where
  "plain_ref body = RefV \<lparr>rf_body = body, rf_sheet = None, rf_external = None\<rparr>"

definition scan_reference :: "string \<Rightarrow> (ref_value \<times> string) option" where
  "scan_reference s =
     (if take 1 s = [CHR 0x27] then scan_quoted_ref s
      else if take 1 s = ''['' then scan_bracket_ref s
      else
        case re_unquoted_sheet s of
          Some (sheet, rest) \<Rightarrow>
            (case scan_range_body rest of
               None \<Rightarrow> scan_deleted_ref rest
             | Some (body, k) \<Rightarrow>
                 Some (RefV \<lparr>rf_body = body, rf_sheet = Some sheet, rf_external = None\<rparr>, k))
        | None \<Rightarrow> map_option (\<lambda>(body, k). (plain_ref body, k)) (scan_range_body s))"

section \<open>Strings and numbers\<close>

text \<open>The text after the opening double quote.\<close>

fun scan_string :: "string \<Rightarrow> (string \<times> string) result" where
  "scan_string [] = Inl (FormulaSyntaxError ''unterminated string'')"
| "scan_string [c] =
     (if c = CHR 0x22 then Inr ([], []) else Inl (FormulaSyntaxError ''unterminated string''))"
| "scan_string (c # d # t) =
     (if c = CHR 0x22 then
        (if d = CHR 0x22 then bind_result (scan_string t) (\<lambda>(out, rest). Inr (c # out, rest))
         else Inr ([], d # t))
      else bind_result (scan_string (d # t)) (\<lambda>(out, rest). Inr (c # out, rest)))"

text \<open>A mark followed by a digit: the mark and the digits after it are taken.\<close>

definition fraction_at :: "char \<Rightarrow> string \<Rightarrow> bool" where
  "fraction_at mark s = (case s of m # d # _ \<Rightarrow> m = mark \<and> py_isdigit d | _ \<Rightarrow> False)"

definition exponent_rest :: "string \<Rightarrow> string" where
  "exponent_rest s =
     (case s of
        [] \<Rightarrow> s
      | e # t \<Rightarrow>
          if e = CHR ''e'' \<or> e = CHR ''E'' then
            (let k = (if take 1 t = ''+'' \<or> take 1 t = ''-'' then drop 1 t else t) in
             case k of
               [] \<Rightarrow> s
             | d # _ \<Rightarrow> if py_isdigit d then dropWhile py_isdigit k else s)
          else s)"

definition number_rest :: "char \<Rightarrow> string \<Rightarrow> string" where
  "number_rest decimal s =
     (let s1 = dropWhile py_isdigit s;
          s2 = (if fraction_at decimal s1 then dropWhile py_isdigit (drop 1 s1)
                else if decimal \<noteq> CHR ''.'' \<and> fraction_at CHR ''.'' s1 then dropWhile py_isdigit (drop 1 s1)
                else s1)
      in exponent_rest s2)"

definition scan_number :: "'f float_ops \<Rightarrow> char \<Rightarrow> string \<Rightarrow> ('f \<times> string) result" where
  "scan_number fo decimal s =
     (let rest = number_rest decimal s;
          raw = map (\<lambda>c. if c = decimal then CHR ''.'' else c) (take (length s - length rest) s)
      in case f_of_text fo raw of
           None \<Rightarrow> Inl (ValueError raw)
         | Some v \<Rightarrow> Inr (v, rest))"

section \<open>The scanner\<close>

definition name_char :: "char \<Rightarrow> bool" where
  "name_char c \<longleftrightarrow> py_isalnum c \<or> c = CHR ''_'' \<or> c = CHR ''.''"

definition error_at :: "string \<Rightarrow> string option" where
  "error_at s = find (startswith s) ERRORS"

definition ref_start :: "char \<Rightarrow> bool" where
  "ref_start ch \<longleftrightarrow> ch = CHR 0x27 \<or> ch = CHR ''['' \<or> ch = CHR ''$'' \<or> py_isalpha ch \<or> ch = CHR ''_''"

definition punctuation :: "char \<Rightarrow> 'f tok option" where
  "punctuation ch =
     (if ch = CHR '':'' then Some COLON
      else if ch = CHR ''('' then Some LPAREN
      else if ch = CHR '')'' then Some RPAREN
      else if ch = CHR ''{'' then Some LBRACE
      else if ch = CHR ''}'' then Some RBRACE
      else None)"

text \<open>
  One round of the loop at a non-empty suffix: the token, if any, with the number of
  characters that remain at its position, and the new suffix.
\<close>

definition scan_step :: "'f float_ops \<Rightarrow> char \<Rightarrow> char \<Rightarrow> char \<Rightarrow> string \<Rightarrow> (('f tok \<times> nat) option \<times> string) result" where
  "scan_step fo decimal sep ch t =
     (let s = ch # t; here = length s in
      if py_isspace ch then Inr (None, t)
      else if ch = CHR 0x22 then
        bind_result (scan_string t) (\<lambda>(value, rest). Inr (Some (STRING value, length rest), rest))
      else if ch = CHR ''#'' then
        (case error_at s of
           None \<Rightarrow> Inl (FormulaSyntaxError ''bad error token'')
         | Some err \<Rightarrow> Inr (Some (ERROR err, here), drop (length err) s))
      else if py_isdigit ch \<or> fraction_at decimal s then
        bind_result (scan_number fo decimal s) (\<lambda>(value, rest). Inr (Some (NUMBER value, length rest), rest))
      else if ref_start ch then
        (case scan_reference s of
           Some (node, rest) \<Rightarrow> Inr (Some (REF node, here), rest)
         | None \<Rightarrow>
             if py_isalpha ch \<or> ch = CHR ''_'' then
               Inr (Some (NAME (ch # takeWhile name_char t), here), dropWhile name_char t)
             else Inl (FormulaSyntaxError ''unexpected character''))
      else if ch = sep then Inr (Some (SEP, here), t)
      else if ch = CHR '';'' then Inr (Some (ROWSEP, here), t)
      else if startswith s ''<>'' \<or> startswith s ''<='' \<or> startswith s ''>='' then
        Inr (Some (OP (take 2 s), here), drop 2 s)
      else if ch \<in> set ''+-*/^&=<>%'' then Inr (Some (OP [ch], here), t)
      else
        case punctuation ch of
          Some tok \<Rightarrow> Inr (Some (tok, here), t)
        | None \<Rightarrow> Inl (FormulaSyntaxError (''unexpected '' @ [CHR 0x27, ch, CHR 0x27])))"

text \<open>The loop, with \<open>n\<close> the length of the whole text and fuel for the rounds.\<close>

fun tokenize_loop :: "'f float_ops \<Rightarrow> char \<Rightarrow> char \<Rightarrow> nat \<Rightarrow> nat \<Rightarrow> string \<Rightarrow> 'f Token list result" where
  "tokenize_loop fo decimal sep n fuel [] = Inr []"
| "tokenize_loop fo decimal sep n 0 (ch # t) = Inl OutOfFuel"
| "tokenize_loop fo decimal sep n (Suc fuel) (ch # t) =
     bind_result (scan_step fo decimal sep ch t) (\<lambda>(out, rest).
     bind_result (tokenize_loop fo decimal sep n fuel rest) (\<lambda>tokens.
     Inr (case out of
            None \<Rightarrow> tokens
          | Some (tok, remaining) \<Rightarrow> \<lparr>t_tok = tok, t_pos = n - remaining\<rparr> # tokens)))"

text \<open>Every round consumes a character, so the length of the text is fuel enough.\<close>

definition tokenize :: "'f float_ops \<Rightarrow> string \<Rightarrow> char \<Rightarrow> char \<Rightarrow> 'f Token list result" where
  "tokenize fo text decimal sep = tokenize_loop fo decimal sep (length text) (length text) text"


section \<open>Every round consumes text\<close>

lemma length_drop_dollar: "drop_dollar s = (d, s1) \<Longrightarrow> length s1 \<le> length s"
  using length_snd_drop_dollar [of s] by simp

lemma length_part:
  assumes "takeWhile P s1 \<noteq> []" "length s1 \<le> length s"
  shows "length (dropWhile P s1) < length s"
  using length_dropWhile_less [OF assms(1)] assms(2) by linarith

lemma grid_cell_rest: "grid_cell s = Some m \<Longrightarrow> length (rm_rest m) < length s"
  by (auto simp: grid_cell_def dest: re_cell_body_rest split: option.splits if_splits)

lemma col_part_rest: "col_part s = Some (d, l, rest) \<Longrightarrow> length rest < length s"
proof -
  obtain d1 s1 where s1: "drop_dollar s = (d1, s1)" by (cases "drop_dollar s")
  assume "col_part s = Some (d, l, rest)"
  with s1 show ?thesis
    by (auto simp: col_part_def Let_def split: if_splits intro: length_part length_drop_dollar)
qed

lemma row_part_rest: "row_part s = Some (d, l, rest) \<Longrightarrow> length rest < length s"
proof -
  obtain d1 s1 where s1: "drop_dollar s = (d1, s1)" by (cases "drop_dollar s")
  assume "row_part s = Some (d, l, rest)"
  with s1 show ?thesis
    by (auto simp: row_part_def Let_def split: if_splits intro: length_part length_drop_dollar)
qed

lemma re_col_pair_rest:
  assumes "re_col_pair s = Some (d1, l1, d2, l2, rest)"
  shows "length rest < length s"
proof (cases "col_part s")
  case None
  with assms show ?thesis by (simp add: re_col_pair_def)
next
  case (Some q)
  obtain a b r where q: "q = (a, b, r)" by (cases q)
  show ?thesis
  proof (cases "col_part (drop 1 r)")
    case None
    with Some q assms show ?thesis by (simp add: re_col_pair_def split: if_splits)
  next
    case inner: (Some q2)
    obtain a2 b2 r2 where q2: "q2 = (a2, b2, r2)" by (cases q2)
    with Some q inner assms have "rest = r2" by (simp add: re_col_pair_def split: if_splits)
    with col_part_rest [of s a b r] col_part_rest [of "drop 1 r" a2 b2 r2] Some q inner q2 show ?thesis by simp
  qed
qed

lemma re_row_pair_rest:
  assumes "re_row_pair s = Some (d1, l1, d2, l2, rest)"
  shows "length rest < length s"
proof (cases "row_part s")
  case None
  with assms show ?thesis by (simp add: re_row_pair_def)
next
  case (Some q)
  obtain a b r where q: "q = (a, b, r)" by (cases q)
  show ?thesis
  proof (cases "row_part (drop 1 r)")
    case None
    with Some q assms show ?thesis by (simp add: re_row_pair_def split: if_splits)
  next
    case inner: (Some q2)
    obtain a2 b2 r2 where q2: "q2 = (a2, b2, r2)" by (cases q2)
    with Some q inner assms have "rest = r2" by (simp add: re_row_pair_def split: if_splits)
    with row_part_rest [of s a b r] row_part_rest [of "drop 1 r" a2 b2 r2] Some q inner q2 show ?thesis by simp
  qed
qed

lemma re_unquoted_sheet_rest: "re_unquoted_sheet s = Some (sheet, rest) \<Longrightarrow> length rest < length s"
proof -
  assume a: "re_unquoted_sheet s = Some (sheet, rest)"
  then obtain c t where s: "s = c # t" by (cases s) (simp_all add: re_unquoted_sheet_def)
  with a have "rest = drop 1 (dropWhile word_or_dot t)" by (auto simp: re_unquoted_sheet_def split: if_splits)
  then show ?thesis using length_dropWhile_le [of word_or_dot t] by (simp add: s)
qed

lemma quoted_name_rest: "quoted_name s = Some (name, rest) \<Longrightarrow> length rest < length s"
  by (induction s arbitrary: name rule: quoted_name.induct) (fastforce split: if_splits)+

lemma skip_sheet_qualifier_rest: "length (skip_sheet_qualifier s) \<le> length s"
proof (cases "take 1 s = [CHR 0x27]")
  case True
  show ?thesis
  proof (cases "quoted_name (drop 1 s)")
    case None
    with True show ?thesis by (simp add: skip_sheet_qualifier_def)
  next
    case (Some q)
    obtain name rest where q: "q = (name, rest)" by (cases q)
    with Some quoted_name_rest [of "drop 1 s" name rest] True show ?thesis by (auto simp: skip_sheet_qualifier_def)
  qed
next
  case False
  show ?thesis
  proof (cases "re_unquoted_sheet s")
    case None
    with False show ?thesis by (simp add: skip_sheet_qualifier_def)
  next
    case (Some q)
    obtain name rest where q: "q = (name, rest)" by (cases q)
    with Some re_unquoted_sheet_rest [of s name rest] False show ?thesis by (simp add: skip_sheet_qualifier_def)
  qed
qed

lemma scan_range_body_rest:
  assumes "scan_range_body s = Some (body, rest)"
  shows "length rest < length s"
proof (cases "grid_cell s")
  case (Some m)
  note m = grid_cell_rest [OF Some]
  show ?thesis
  proof (cases "grid_cell (skip_sheet_qualifier (drop 1 (rm_rest m)))")
    case None
    with Some assms m show ?thesis by (auto simp: scan_range_body_def Let_def split: if_splits)
  next
    case (Some m2)
    with \<open>grid_cell s = Some m\<close> assms m grid_cell_rest [OF Some] skip_sheet_qualifier_rest [of "drop 1 (rm_rest m)"]
    show ?thesis by (auto simp: scan_range_body_def Let_def split: if_splits)
  qed
next
  case None
  have rows: "length rest < length s" if "map_option (\<lambda>(d1, n1, d2, n2, rest).
      (BRows (int (int_of_digits n1), d1) (int (int_of_digits n2), d2), rest)) (re_row_pair s) = Some (body, rest)"
    using that re_row_pair_rest by auto
  show ?thesis
  proof (cases "re_col_pair s")
    case no_cols: None
    from None no_cols assms show ?thesis by (intro rows) (simp add: scan_range_body_def)
  next
    case (Some q)
    obtain d1 l1 d2 l2 r where q: "q = (d1, l1, d2, l2, r)" by (cases q)
    show ?thesis
    proof (cases "in_grid (col_to_index l1) 1 \<and> in_grid (col_to_index l2) 1")
      case True
      with None Some q assms re_col_pair_rest [of s d1 l1 d2 l2 r] show ?thesis by (simp add: scan_range_body_def)
    next
      case False
      with None Some q assms show ?thesis by (intro rows) (auto simp: scan_range_body_def)
    qed
  qed
qed

lemma startswith_length: "startswith s pat \<Longrightarrow> length pat \<le> length s"
  by (auto simp: startswith_def dest: arg_cong [of _ _ length])

lemma scan_deleted_ref_rest: "scan_deleted_ref s = Some (v, rest) \<Longrightarrow> length rest < length s"
  using startswith_length [of s "''#REF!''"] by (auto simp: scan_deleted_ref_def split: if_splits)

lemma scan_quoted_ref_rest:
  assumes "scan_quoted_ref s = Some (v, rest)"
  shows "length rest < length s"
proof (cases "quoted_name (drop 1 s)")
  case None
  with assms show ?thesis by (simp add: scan_quoted_ref_def)
next
  case (Some q)
  obtain name r where q: "q = (name, r)" by (cases q)
  note r = quoted_name_rest [of "drop 1 s" name r]
  show ?thesis
  proof (cases "scan_range_body (drop 1 r)")
    case None
    with Some q assms have "scan_deleted_ref (drop 1 r) = Some (v, rest)" by (simp add: scan_quoted_ref_def split: if_splits)
    from scan_deleted_ref_rest [OF this] r Some q show ?thesis by simp
  next
    case body: (Some bk)
    obtain b k where bk: "bk = (b, k)" by (cases bk)
    with Some q body assms have "rest = k" by (simp add: scan_quoted_ref_def Let_def split: if_splits)
    with scan_range_body_rest [of "drop 1 r" b k] body bk r Some q show ?thesis by simp
  qed
qed


lemma scan_bracket_ref_rest:
  assumes "scan_bracket_ref s = Some (v, rest)" "s \<noteq> []"
  shows "length rest < length s"
proof -
  define j0 where "j0 = drop 1 (dropWhile (\<lambda>c. c \<noteq> CHR '']'') s)"
  define has_sheet where "has_sheet \<longleftrightarrow> takeWhile word_or_dot j0 \<noteq> [] \<and> take 1 (dropWhile word_or_dot j0) = ''!''"
  define j1 where "j1 = (if has_sheet then dropWhile word_or_dot j0 else j0)"
  define j2 where "j2 = (if take 1 j1 = ''!'' then drop 1 j1 else j1)"
  have "length j0 \<le> length s" using length_dropWhile_le [of "\<lambda>c. c \<noteq> CHR '']''" s] by (simp add: j0_def)
  moreover have "length j1 \<le> length j0" using length_dropWhile_le [of word_or_dot j0] by (simp add: j1_def)
  moreover have "length j2 \<le> length j1" by (simp add: j2_def)
  ultimately have j2: "length j2 \<le> length s" by linarith
  have unfold: "scan_bracket_ref s =
      (if CHR '']'' \<notin> set s then None
       else case scan_range_body j2 of
         None \<Rightarrow> if take 1 j1 = ''!'' then scan_deleted_ref j2 else None
       | Some (body, k) \<Rightarrow>
           Some (RefV \<lparr>rf_body = body, rf_sheet = (if has_sheet then Some (takeWhile word_or_dot j0) else None),
                       rf_external = Some (takeWhile (\<lambda>c. c \<noteq> CHR '']'') (drop 1 s))\<rparr>, k))"
    unfolding scan_bracket_ref_def Let_def j0_def [symmetric] has_sheet_def [symmetric] j1_def [symmetric]
      j2_def [symmetric] by simp
  show ?thesis
  proof (cases "scan_range_body j2")
    case None
    with assms(1) have "scan_deleted_ref j2 = Some (v, rest)" by (simp add: unfold split: if_splits)
    with scan_deleted_ref_rest j2 show ?thesis by fastforce
  next
    case (Some bk)
    obtain b k where bk: "bk = (b, k)" by (cases bk)
    with Some assms(1) have "rest = k" by (simp add: unfold split: if_splits)
    with scan_range_body_rest [of j2 b k] Some bk j2 show ?thesis by simp
  qed
qed

lemma scan_reference_rest:
  assumes "scan_reference s = Some (v, rest)"
  shows "length rest < length s"
proof -
  consider "take 1 s = [CHR 0x27]" | "take 1 s = ''[''" | "take 1 s \<noteq> [CHR 0x27]" "take 1 s \<noteq> ''[''" by blast
  then show ?thesis
  proof cases
    case 1
    with assms show ?thesis by (intro scan_quoted_ref_rest) (simp add: scan_reference_def)
  next
    case 2
    then have "s \<noteq> []" by auto
    with 2 assms show ?thesis by (intro scan_bracket_ref_rest) (simp_all add: scan_reference_def)
  next
    case 3
    show ?thesis
    proof (cases "re_unquoted_sheet s")
      case None
      with 3 assms obtain body where "scan_range_body s = Some (body, rest)" by (auto simp: scan_reference_def)
      then show ?thesis by (rule scan_range_body_rest)
    next
      case (Some q)
      obtain sheet r where q: "q = (sheet, r)" by (cases q)
      with Some have r: "length r < length s" by (auto intro: re_unquoted_sheet_rest)
      show ?thesis
      proof (cases "scan_range_body r")
        case None
        with 3 Some q assms have "scan_deleted_ref r = Some (v, rest)" by (simp add: scan_reference_def)
        from scan_deleted_ref_rest [OF this] r show ?thesis by simp
      next
        case body: (Some bk)
        obtain b k where bk: "bk = (b, k)" by (cases bk)
        with 3 Some q body assms have "rest = k" by (simp add: scan_reference_def)
        with scan_range_body_rest [of r b k] body bk r show ?thesis by simp
      qed
    qed
  qed
qed

lemma scan_string_rest: "scan_string s = Inr (v, rest) \<Longrightarrow> length rest < length s"
  by (induction s arbitrary: v rule: scan_string.induct)
    (fastforce simp: bind_result_Inr_iff split: if_splits)+

lemma exponent_rest_le: "length (exponent_rest s) \<le> length s"
proof (cases s)
  case Nil
  then show ?thesis by (simp add: exponent_rest_def)
next
  case (Cons e t)
  let ?k = "if take 1 t = ''+'' \<or> take 1 t = ''-'' then drop 1 t else t"
  have "length (dropWhile py_isdigit ?k) \<le> length t" using length_dropWhile_le [of py_isdigit ?k] by (auto split: if_splits)
  with Cons show ?thesis by (auto simp: exponent_rest_def Let_def split: list.split)
qed

lemma number_rest_less:
  assumes "py_isdigit (hd s) \<or> fraction_at decimal s" "s \<noteq> []"
  shows "length (number_rest decimal s) < length s"
proof -
  let ?s1 = "dropWhile py_isdigit s"
  have frac: "length (dropWhile py_isdigit (drop 1 u)) < length u" if "u \<noteq> []" for u :: string
    using that length_dropWhile_le [of py_isdigit "drop 1 u"] by (cases u) auto
  have ne: "fraction_at c u \<Longrightarrow> u \<noteq> []" for c u by (auto simp: fraction_at_def)
  have le: "length ?s1 \<le> length s" by (rule length_dropWhile_le)
  have "length ?s1 < length s \<or> (?s1 = s \<and> fraction_at decimal s)"
    using assms by (cases s) (auto simp: less_Suc_eq_le length_dropWhile_le)
  then show ?thesis
    using exponent_rest_le frac [OF ne] le unfolding number_rest_def Let_def
    by (smt (verit, ccfv_threshold) order_le_less_trans order_less_le_trans order_less_imp_le)
qed

text \<open>Where the scanner fails it fails with an error of the source.\<close>

definition no_fuel_error :: "'a result \<Rightarrow> bool" where
  "no_fuel_error r \<longleftrightarrow> r \<noteq> Inl OutOfFuel"

lemma no_fuel_error_simps [simp]:
  "no_fuel_error (Inr a)"
  "no_fuel_error (Inl (FormulaSyntaxError m))"
  "no_fuel_error (Inl (ValueError m))"
  by (simp_all add: no_fuel_error_def)

lemma no_fuel_error_bind:
  "no_fuel_error r \<Longrightarrow> (\<And>a. r = Inr a \<Longrightarrow> no_fuel_error (f a)) \<Longrightarrow> no_fuel_error (bind_result r f)"
  by (cases r) (auto simp: no_fuel_error_def)

lemma scan_string_no_fuel: "no_fuel_error (scan_string s)"
  by (induction s rule: scan_string.induct) (auto intro!: no_fuel_error_bind)

lemma scan_number_no_fuel: "no_fuel_error (scan_number fo decimal s)"
  by (simp add: scan_number_def Let_def split: option.split)

lemma no_fuel_error_if:
  "(c \<Longrightarrow> no_fuel_error a) \<Longrightarrow> (\<not> c \<Longrightarrow> no_fuel_error b) \<Longrightarrow> no_fuel_error (if c then a else b)"
  by simp

lemma no_fuel_error_option:
  "no_fuel_error a \<Longrightarrow> (\<And>x. no_fuel_error (f x)) \<Longrightarrow> no_fuel_error (case r of None \<Rightarrow> a | Some x \<Rightarrow> f x)"
  by (cases r) simp_all

lemma no_fuel_error_prod: "(\<And>x y. no_fuel_error (f x y)) \<Longrightarrow> no_fuel_error (case p of (x, y) \<Rightarrow> f x y)"
  by (cases p) simp

lemmas no_fuel_intros = no_fuel_error_if no_fuel_error_option no_fuel_error_prod no_fuel_error_bind no_fuel_error_simps

lemma scan_step_no_fuel: "no_fuel_error (scan_step fo decimal sep ch t)"
  unfolding scan_step_def Let_def by (intro no_fuel_intros scan_string_no_fuel scan_number_no_fuel)

lemma scan_step_rest:
  assumes "scan_step fo decimal sep ch t = Inr (out, rest)"
  shows "length rest \<le> length t"
proof -
  let ?s = "ch # t"
  consider "py_isspace ch" | "\<not> py_isspace ch" "ch = CHR 0x22"
    | "\<not> py_isspace ch" "ch \<noteq> CHR 0x22" "ch = CHR ''#''"
    | "\<not> py_isspace ch" "ch \<noteq> CHR 0x22" "ch \<noteq> CHR ''#''" "py_isdigit ch \<or> fraction_at decimal ?s"
    | "\<not> py_isspace ch" "ch \<noteq> CHR 0x22" "ch \<noteq> CHR ''#''" "\<not> (py_isdigit ch \<or> fraction_at decimal ?s)" "ref_start ch"
    | "\<not> py_isspace ch" "ch \<noteq> CHR 0x22" "ch \<noteq> CHR ''#''" "\<not> (py_isdigit ch \<or> fraction_at decimal ?s)" "\<not> ref_start ch"
    by blast
  then show ?thesis
  proof cases
    case 1
    with assms show ?thesis by (simp add: scan_step_def Let_def)
  next
    case 2
    then have "scan_step fo decimal sep ch t =
        bind_result (scan_string t) (\<lambda>(value, rest). Inr (Some (STRING value, length rest), rest))"
      by (simp add: scan_step_def Let_def)
    with assms obtain v where "scan_string t = Inr (v, rest)" by (auto simp: bind_result_Inr_iff)
    from scan_string_rest [OF this] show ?thesis by simp
  next
    case 3
    then obtain err where e: "error_at ?s = Some err" "rest = drop (length err) ?s"
      using assms by (cases "error_at ?s") (auto simp: scan_step_def Let_def)
    from e(1) have "err \<in> set ERRORS" by (auto simp: error_at_def find_Some_iff)
    then have "err \<noteq> []" by (auto simp: ERRORS_def)
    with e(2) show ?thesis by (cases err) auto
  next
    case 4
    then have "scan_step fo decimal sep ch t =
        bind_result (scan_number fo decimal ?s) (\<lambda>(value, rest). Inr (Some (NUMBER value, length rest), rest))"
      unfolding scan_step_def Let_def by (simp only: if_True if_False)
    with assms have "rest = number_rest decimal ?s"
      by (auto simp: bind_result_Inr_iff scan_number_def Let_def split: option.splits)
    with number_rest_less [of ?s decimal] 4 show ?thesis by simp
  next
    case 5
    show ?thesis
    proof (cases "scan_reference ?s")
      case None
      with 5 assms have "rest = dropWhile name_char t" by (auto simp: scan_step_def Let_def split: if_splits)
      then show ?thesis by (simp add: length_dropWhile_le)
    next
      case (Some q)
      obtain v r where q: "q = (v, r)" by (cases q)
      with 5 Some assms have "rest = r" by (simp add: scan_step_def Let_def)
      with scan_reference_rest [of ?s v r] Some q show ?thesis by simp
    qed
  next
    case 6
    with assms show ?thesis by (auto simp: scan_step_def Let_def split: if_splits option.splits)
  qed
qed

lemma tokenize_loop_total: "length s \<le> fuel \<Longrightarrow> no_fuel_error (tokenize_loop fo decimal sep n fuel s)"
proof (induction fo decimal sep n fuel s rule: tokenize_loop.induct)
  case (1 fo decimal sep n fuel)
  then show ?case by simp
next
  case (2 fo decimal sep n ch t)
  then show ?case by simp
next
  case (3 fo decimal sep n fuel ch t)
  show ?case
    unfolding tokenize_loop.simps
  proof (rule no_fuel_error_bind [OF scan_step_no_fuel])
    fix a assume a: "scan_step fo decimal sep ch t = Inr a"
    obtain out rest where q: "a = (out, rest)" by (cases a)
    have "no_fuel_error (tokenize_loop fo decimal sep n fuel rest)"
      by (rule "3.IH" [OF a q [symmetric]]) (use scan_step_rest [OF a [unfolded q]] "3.prems" in simp)
    then show "no_fuel_error (case a of (out, rest) \<Rightarrow> bind_result (tokenize_loop fo decimal sep n fuel rest) (\<lambda>tokens.
        Inr (case out of None \<Rightarrow> tokens | Some (tok, remaining) \<Rightarrow> \<lparr>t_tok = tok, t_pos = n - remaining\<rparr> # tokens)))"
      unfolding q prod.case by (rule no_fuel_error_bind) simp
  qed
qed

lemma tokenize_total: "no_fuel_error (tokenize fo text decimal sep)"
  by (simp add: tokenize_def tokenize_loop_total)


section \<open>Printed references scan back\<close>

text \<open>The Excel spelling of a reference: quoted sheet names double their apostrophes.\<close>

definition double_quotes :: "char \<Rightarrow> string \<Rightarrow> string" where
  "double_quotes q s = concat (map (\<lambda>c. if c = q then [q, q] else [c]) s)"

definition cell_spelling :: "cell \<Rightarrow> string" where
  "cell_spelling c = cell_text (c_abs_col c) (c_col c) (c_abs_row c) (c_row c)"

fun body_spelling :: "ref_body \<Rightarrow> string" where
  "body_spelling (BCell c) = cell_spelling c"
| "body_spelling (BRange a b) = cell_spelling a @ '':'' @ cell_spelling b"
| "body_spelling (BCols a b) =
     dollar_if (snd a) @ index_to_col (fst a) @ '':'' @ dollar_if (snd b) @ index_to_col (fst b)"
| "body_spelling (BRows a b) = dollar_if (snd a) @ int_str (fst a) @ '':'' @ dollar_if (snd b) @ int_str (fst b)"

definition ref_spelling :: "ref_node \<Rightarrow> string" where
  "ref_spelling n =
     (case (rf_external n, rf_sheet n) of
        (None, None) \<Rightarrow> body_spelling (rf_body n)
      | (None, Some sheet) \<Rightarrow> [CHR 0x27] @ double_quotes CHR 0x27 sheet @ [CHR 0x27, CHR ''!''] @ body_spelling (rf_body n)
      | (Some ext, sheet) \<Rightarrow>
          [CHR 0x27] @ double_quotes CHR 0x27 (''['' @ ext @ '']'' @ (case sheet of None \<Rightarrow> [] | Some s \<Rightarrow> s))
            @ [CHR 0x27, CHR ''!''] @ body_spelling (rf_body n))"

definition cell_ok :: "cell \<Rightarrow> bool" where
  "cell_ok c \<longleftrightarrow> in_grid (c_col c) (c_row c)"

fun body_ok :: "ref_body \<Rightarrow> bool" where
  "body_ok (BCell c) = cell_ok c"
| "body_ok (BRange a b) \<longleftrightarrow> cell_ok a \<and> cell_ok b"
| "body_ok (BCols a b) \<longleftrightarrow> in_grid (fst a) 1 \<and> in_grid (fst b) 1"
| "body_ok (BRows a b) \<longleftrightarrow> 0 \<le> fst a \<and> 0 \<le> fst b"

definition ref_ok :: "ref_node \<Rightarrow> bool" where
  "ref_ok n \<longleftrightarrow> body_ok (rf_body n) \<and>
     (case rf_external n of
        None \<Rightarrow> (case rf_sheet n of None \<Rightarrow> True
          | Some sheet \<Rightarrow> \<not> (startswith sheet ''['' \<and> CHR '']'' \<in> set sheet))
      | Some ext \<Rightarrow> CHR '']'' \<notin> set ext \<and> rf_sheet n \<noteq> Some [])"

text \<open>What may follow a reference: the end, or an operator other than a colon.\<close>

definition after_ref :: "string \<Rightarrow> bool" where
  "after_ref rest \<longleftrightarrow> (case rest of [] \<Rightarrow> True | c # _ \<Rightarrow> operator_char c \<and> c \<noteq> CHR '':'')"

lemma after_ref_operator: "after_ref rest \<Longrightarrow> case rest of [] \<Rightarrow> True | c # _ \<Rightarrow> operator_char c"
  by (simp add: after_ref_def split: list.splits)

lemma grid_cell_spelling:
  assumes "cell_ok c" "case rest of [] \<Rightarrow> True | c # _ \<Rightarrow> operator_char c"
  shows "\<exists>m. grid_cell (cell_spelling c @ rest) = Some m \<and> cell_node m = c \<and> rm_rest m = rest"
proof -
  have g: "in_grid (c_col c) (c_row c)" using assms(1) by (simp add: cell_ok_def)
  then have v: "int (int_of_digits (int_str (c_row c))) = c_row c" "max (c_col c) 1 = c_col c"
    by (auto simp: in_grid_def int_str_def)
  from re_cell_body_cell_text [OF g assms(2), of "c_abs_col c" "c_abs_row c"] g v
  show ?thesis by (simp add: grid_cell_def cell_spelling_def cell_node_def)
qed

lemma quoted_name_double:
  assumes "take 1 rest \<noteq> [CHR 0x27]"
  shows "quoted_name (double_quotes CHR 0x27 name @ CHR 0x27 # rest) = Some (name, rest)"
proof (induction name)
  case Nil
  with assms show ?case by (cases rest) (simp_all add: double_quotes_def)
next
  case (Cons c name)
  show ?case
  proof (cases "c = CHR 0x27")
    case True
    with Cons show ?thesis by (simp add: double_quotes_def)
  next
    case False
    obtain d t where dt: "double_quotes CHR 0x27 name @ CHR 0x27 # rest = d # t"
      by (cases "double_quotes CHR 0x27 name @ CHR 0x27 # rest") auto
    with Cons False show ?thesis by (simp add: double_quotes_def)
  qed
qed

lemma re_unquoted_sheet_word:
  assumes "re_unquoted_sheet s = Some (sheet, rest)"
  shows "s = sheet @ CHR ''!'' # rest \<and> (\<forall>c \<in> set sheet. word_or_dot c)"
proof -
  from assms obtain c t where s: "s = c # t" by (cases s) (simp_all add: re_unquoted_sheet_def)
  with assms have c: "re_word c" "take 1 (dropWhile word_or_dot t) = ''!''"
    and sheet: "sheet = c # takeWhile word_or_dot t" "rest = drop 1 (dropWhile word_or_dot t)"
    by (auto simp: re_unquoted_sheet_def split: if_splits)
  have "dropWhile word_or_dot t = CHR ''!'' # rest" using c(2) sheet(2) by (cases "dropWhile word_or_dot t") auto
  then have "t = takeWhile word_or_dot t @ CHR ''!'' # rest" by (metis takeWhile_dropWhile_id)
  then show ?thesis using s sheet(1) c(1) by (auto simp: word_or_dot_def dest: set_takeWhileD)
qed

text \<open>No sheet is read where a text without an exclamation mark ends before an operator.\<close>

lemma re_unquoted_sheet_None:
  assumes "CHR ''!'' \<notin> set u" "case rest of [] \<Rightarrow> True | c # _ \<Rightarrow> \<not> word_or_dot c \<and> c \<noteq> CHR ''!''"
  shows "re_unquoted_sheet (u @ rest) = None"
proof (rule ccontr)
  assume "re_unquoted_sheet (u @ rest) \<noteq> None"
  then obtain sheet r where "re_unquoted_sheet (u @ rest) = Some (sheet, r)" by auto
  from re_unquoted_sheet_word [OF this]
  have eq: "u @ rest = sheet @ CHR ''!'' # r" and w: "\<forall>c \<in> set sheet. word_or_dot c" by auto
  from eq assms(1) obtain v where v: "sheet = u @ v" "rest = v @ CHR ''!'' # r"
    by (auto simp: append_eq_append_conv2 append_eq_Cons_conv)
  show False
  proof (cases v)
    case Nil
    with v(2) assms(2) show False by simp
  next
    case (Cons c v')
    with v w assms(2) show False by auto
  qed
qed

lemma cell_spelling_no_bang:
  assumes "cell_ok c"
  shows "CHR ''!'' \<notin> set (cell_spelling c)"
proof -
  have "0 \<le> c_row c" using assms by (simp add: cell_ok_def in_grid_def)
  then have "int_str (c_row c) = nat_str (nat (c_row c))" by (simp add: int_str_def)
  then show ?thesis
    using index_to_col_letter [of "CHR ''!''" "c_col c"] nat_str_digit [of "CHR ''!''" "nat (c_row c)"]
    by (auto simp: cell_spelling_def cell_text_def dollar_if_def)
qed

lemma operator_not_word: "operator_char c \<Longrightarrow> \<not> word_or_dot c \<and> c \<noteq> CHR ''!''"
  by (simp add: word_or_dot_def operator_char_simps)

lemma skip_nothing:
  assumes "cell_ok c" "after_ref rest"
  shows "skip_sheet_qualifier (cell_spelling c @ rest) = cell_spelling c @ rest"
proof -
  have stop: "case rest of [] \<Rightarrow> True | c # _ \<Rightarrow> \<not> word_or_dot c \<and> c \<noteq> CHR ''!''"
    using assms(2) by (auto simp: after_ref_def dest: operator_not_word split: list.splits)
  obtain d t where dt: "cell_spelling c = d # t" "d = CHR ''$'' \<or> re_letter d"
    unfolding cell_spelling_def by (rule cell_text_Cons)
  then have "d \<noteq> CHR 0x27" by (auto simp: char_class)
  with dt re_unquoted_sheet_None [OF cell_spelling_no_bang [OF assms(1)] stop] show ?thesis
    by (simp add: skip_sheet_qualifier_def)
qed

lemma col_part_spelling:
  assumes "in_grid col 1" "case rest of [] \<Rightarrow> True | c # _ \<Rightarrow> operator_char c"
  shows "col_part (dollar_if d @ index_to_col col @ rest) = Some (d, index_to_col col, rest)"
proof -
  have l: "\<forall>c \<in> set (index_to_col col). re_letter c" by simp
  have nl: "case rest of [] \<Rightarrow> True | c # _ \<Rightarrow> \<not> re_letter c"
    using assms(2) by (auto simp: operator_char_simps split: list.splits)
  have dd: "drop_dollar (dollar_if d @ index_to_col col @ rest) = (d, index_to_col col @ rest)"
    using drop_dollar_other [OF letters_head, of "index_to_col col" rest] by (cases d) (auto simp: dollar_if_def)
  show ?thesis
    using takeWhile_run [OF l nl] dropWhile_run [OF l nl] dd length_index_to_col [OF assms(1)]
    by (simp add: col_part_def Let_def)
qed

lemma row_part_spelling:
  assumes "0 \<le> row" "case rest of [] \<Rightarrow> True | c # _ \<Rightarrow> operator_char c"
  shows "row_part (dollar_if d @ int_str row @ rest) = Some (d, int_str row, rest)"
proof -
  have l: "\<forall>c \<in> set (int_str row). re_digit c" "int_str row \<noteq> []" using assms(1) by (auto simp: int_str_def)
  have nl: "case rest of [] \<Rightarrow> True | c # _ \<Rightarrow> \<not> re_digit c"
    using assms(2) by (auto simp: operator_char_simps split: list.splits)
  have dd: "drop_dollar (dollar_if d @ int_str row @ rest) = (d, int_str row @ rest)"
    using drop_dollar_other [OF digits_head, of "int_str row" rest] l by (cases d) (auto simp: dollar_if_def)
  show ?thesis
    using takeWhile_run [OF l(1) nl] dropWhile_run [OF l(1) nl] dd l(2)
    by (simp add: row_part_def Let_def)
qed


lemma operator_colon: "operator_char CHR '':''"
  by (simp add: operator_char_def)

lemma no_cell_columns:
  assumes "in_grid col 1"
  shows "grid_cell (dollar_if d @ index_to_col col @ '':'' @ rest) = None"
proof -
  have l: "\<forall>c \<in> set (index_to_col col). re_letter c" by simp
  have dd: "drop_dollar (dollar_if d @ index_to_col col @ '':'' @ rest) = (d, index_to_col col @ '':'' @ rest)"
    using drop_dollar_other [OF letters_head, of "index_to_col col" "'':'' @ rest"] by (cases d) (auto simp: dollar_if_def)
  have "dropWhile re_letter (index_to_col col @ '':'' @ rest) = '':'' @ rest" by (rule dropWhile_run [OF l]) simp
  with dd show ?thesis by (simp add: grid_cell_def re_cell_body_def Let_def drop_dollar_def)
qed

lemma no_cell_rows:
  assumes "0 \<le> row"
  shows "grid_cell (dollar_if d @ int_str row @ rest) = None" "re_col_pair (dollar_if d @ int_str row @ rest) = None"
proof -
  have l: "\<forall>c \<in> set (int_str row). re_digit c" "int_str row \<noteq> []" using assms(1) by (auto simp: int_str_def)
  have dd: "drop_dollar (dollar_if d @ int_str row @ rest) = (d, int_str row @ rest)"
    using drop_dollar_other [OF digits_head, of "int_str row" rest] l by (cases d) (auto simp: dollar_if_def)
  obtain x xs where x: "int_str row = x # xs" "re_digit x" using l by (cases "int_str row") auto
  then have "takeWhile re_letter (int_str row @ rest) = []" by simp
  with dd show "grid_cell (dollar_if d @ int_str row @ rest) = None"
    "re_col_pair (dollar_if d @ int_str row @ rest) = None"
    by (simp_all add: grid_cell_def re_cell_body_def re_col_pair_def col_part_def Let_def)
qed

lemma scan_range_body_spelling:
  assumes "body_ok body" "after_ref rest"
  shows "scan_range_body (body_spelling body @ rest) = Some (body, rest)"
proof (cases body)
  case (BCell c)
  with assms obtain m where "grid_cell (cell_spelling c @ rest) = Some m" "cell_node m = c" "rm_rest m = rest"
    using grid_cell_spelling [of c rest] after_ref_operator by auto
  moreover have "take 1 rest \<noteq> '':''" using assms(2) by (auto simp: after_ref_def split: list.splits)
  ultimately show ?thesis by (simp add: BCell scan_range_body_def)
next
  case (BRange a b)
  with assms obtain m where m: "grid_cell (cell_spelling a @ '':'' @ cell_spelling b @ rest) = Some m"
    "cell_node m = a" "rm_rest m = '':'' @ cell_spelling b @ rest"
    using grid_cell_spelling [of a "'':'' @ cell_spelling b @ rest"] operator_colon by auto
  from BRange assms obtain m2 where m2: "grid_cell (cell_spelling b @ rest) = Some m2" "cell_node m2 = b" "rm_rest m2 = rest"
    using grid_cell_spelling [of b rest] after_ref_operator by auto
  have skip: "skip_sheet_qualifier (cell_spelling b @ rest) = cell_spelling b @ rest"
    using BRange assms by (intro skip_nothing) simp_all
  have eq: "body_spelling body @ rest = cell_spelling a @ '':'' @ cell_spelling b @ rest" by (simp add: BRange)
  show ?thesis unfolding eq scan_range_body_def m(1) using m(2,3) skip m2 by (simp add: BRange)
next
  case (BCols a b)
  let ?tail = "dollar_if (snd b) @ index_to_col (fst b) @ rest"
  have eq: "body_spelling body @ rest = dollar_if (snd a) @ index_to_col (fst a) @ '':'' @ ?tail" by (simp add: BCols)
  have g: "in_grid (fst a) 1" "in_grid (fst b) 1" using assms BCols by simp_all
  have p1: "col_part (dollar_if (snd a) @ index_to_col (fst a) @ '':'' @ ?tail) = Some (snd a, index_to_col (fst a), '':'' @ ?tail)"
    using operator_colon by (intro col_part_spelling [OF g(1)]) simp
  have p2: "col_part ?tail = Some (snd b, index_to_col (fst b), rest)"
    by (rule col_part_spelling [OF g(2) after_ref_operator [OF assms(2)]])
  have fol: "ref_follow rest"
    using assms(2) by (auto simp: after_ref_def ref_follow_def operator_char_simps split: list.splits)
  have "re_col_pair (dollar_if (snd a) @ index_to_col (fst a) @ '':'' @ ?tail) =
      Some (snd a, index_to_col (fst a), snd b, index_to_col (fst b), rest)"
    unfolding re_col_pair_def p1 using p2 fol by simp
  then show ?thesis
    unfolding eq scan_range_body_def no_cell_columns [OF g(1)] using g
    by (cases a; cases b) (simp add: BCols in_grid_def)
next
  case (BRows a b)
  let ?tail = "dollar_if (snd b) @ int_str (fst b) @ rest"
  have eq: "body_spelling body @ rest = dollar_if (snd a) @ int_str (fst a) @ '':'' @ ?tail" by (simp add: BRows)
  have g: "0 \<le> fst a" "0 \<le> fst b" using assms BRows by simp_all
  have p1: "row_part (dollar_if (snd a) @ int_str (fst a) @ '':'' @ ?tail) = Some (snd a, int_str (fst a), '':'' @ ?tail)"
    using operator_colon by (intro row_part_spelling [OF g(1)]) simp
  have p2: "row_part ?tail = Some (snd b, int_str (fst b), rest)"
    by (rule row_part_spelling [OF g(2) after_ref_operator [OF assms(2)]])
  have "re_row_pair (dollar_if (snd a) @ int_str (fst a) @ '':'' @ ?tail) =
      Some (snd a, int_str (fst a), snd b, int_str (fst b), rest)"
    unfolding re_row_pair_def p1 using p2 by simp
  moreover have "int (int_of_digits (int_str r)) = r" if "0 \<le> r" for r using that by (simp add: int_str_def)
  ultimately show ?thesis
    unfolding eq scan_range_body_def no_cell_rows [OF g(1)] using g by (simp add: BRows)
qed

lemma body_spelling_start:
  assumes "body_ok body"
  obtains d t where "body_spelling body = d # t" "d = CHR ''$'' \<or> re_letter d \<or> re_digit d"
proof -
  have int: "\<exists>d t. int_str r = d # t \<and> re_digit d" if "0 \<le> r" for r
  proof -
    have "int_str r \<noteq> []" "\<forall>c \<in> set (int_str r). re_digit c" using that by (auto simp: int_str_def)
    then show ?thesis by (cases "int_str r") auto
  qed
  have let_: "\<exists>d t. index_to_col c = d # t \<and> re_letter d" for c
    using index_to_col_letter [of _ c] index_to_col_not_Nil [of c] by (cases "index_to_col c") auto
  have cell: "\<exists>d t. cell_spelling c = d # t \<and> (d = CHR ''$'' \<or> re_letter d)" for c
    unfolding cell_spelling_def by (rule cell_text_Cons) blast
  have "\<exists>d t. body_spelling body = d # t \<and> (d = CHR ''$'' \<or> re_letter d \<or> re_digit d)"
  proof (cases body)
    case (BCell c)
    with cell [of c] show ?thesis by auto
  next
    case (BRange a b)
    with cell [of a] show ?thesis by auto
  next
    case (BCols a b)
    with let_ [of "fst a"] show ?thesis by (cases "snd a") (auto simp: dollar_if_def)
  next
    case (BRows a b)
    with int [of "fst a"] assms show ?thesis by (cases "snd a") (auto simp: dollar_if_def)
  qed
  with that show thesis by blast
qed

lemma body_spelling_no_bang:
  assumes "body_ok body"
  shows "CHR ''!'' \<notin> set (body_spelling body)"
proof -
  have int: "CHR ''!'' \<notin> set (int_str r)" if "0 \<le> r" for r
    using nat_str_digit [of "CHR ''!''" "nat r"] that by (auto simp: int_str_def)
  have let_: "CHR ''!'' \<notin> set (index_to_col c)" for c using index_to_col_letter [of "CHR ''!''" c] by auto
  show ?thesis
    using assms cell_spelling_no_bang int let_ by (cases body) (auto simp: dollar_if_def)
qed

lemma scan_reference_quoted:
  assumes "body_ok body" "after_ref rest"
  shows "scan_reference ([CHR 0x27] @ double_quotes CHR 0x27 quoted @ [CHR 0x27, CHR ''!''] @ body_spelling body @ rest) =
    (if startswith quoted ''['' \<and> CHR '']'' \<in> set quoted then
       (let sheet = drop 1 (dropWhile (\<lambda>c. c \<noteq> CHR '']'') quoted)
        in Some (RefV \<lparr>rf_body = body, rf_sheet = (if sheet \<noteq> [] then Some sheet else None),
                      rf_external = Some (takeWhile (\<lambda>c. c \<noteq> CHR '']'') (drop 1 quoted))\<rparr>, rest))
     else Some (RefV \<lparr>rf_body = body, rf_sheet = Some quoted, rf_external = None\<rparr>, rest))"
proof -
  have q: "quoted_name (double_quotes CHR 0x27 quoted @ CHR 0x27 # CHR ''!'' # body_spelling body @ rest) =
      Some (quoted, CHR ''!'' # body_spelling body @ rest)"
    by (rule quoted_name_double) simp
  show ?thesis
    using q scan_range_body_spelling [OF assms] by (simp add: scan_reference_def scan_quoted_ref_def Let_def)
qed

section \<open>Properties\<close>

lemma scan_reference_spelling:
  assumes "ref_ok n" and "after_ref rest"
  shows "scan_reference (ref_spelling n @ rest) = Some (RefV n, rest)"
proof -
  have body: "body_ok (rf_body n)" using assms(1) by (simp add: ref_ok_def)
  show ?thesis
  proof (cases "rf_external n")
    case None
    show ?thesis
    proof (cases "rf_sheet n")
      case no_sheet: None
      obtain d t where dt: "body_spelling (rf_body n) = d # t" "d = CHR ''$'' \<or> re_letter d \<or> re_digit d"
        using body by (rule body_spelling_start)
      then have d: "d \<noteq> CHR 0x27" "d \<noteq> CHR ''[''" by (auto simp: char_class)
      have stop: "case rest of [] \<Rightarrow> True | c # _ \<Rightarrow> \<not> word_or_dot c \<and> c \<noteq> CHR ''!''"
        using assms(2) by (auto simp: after_ref_def dest: operator_not_word split: list.splits)
      note un = re_unquoted_sheet_None [OF body_spelling_no_bang [OF body] stop]
      have n: "n = \<lparr>rf_body = rf_body n, rf_sheet = None, rf_external = None\<rparr>" using None no_sheet by simp
      show ?thesis
        using un scan_range_body_spelling [OF body assms(2)] d dt n None no_sheet
        by (simp add: ref_spelling_def scan_reference_def plain_ref_def)
    next
      case (Some sheet)
      with None assms(1) have "\<not> (startswith sheet ''['' \<and> CHR '']'' \<in> set sheet)" by (simp add: ref_ok_def)
      with scan_reference_quoted [OF body assms(2), of sheet] None Some show ?thesis
        by (simp add: ref_spelling_def)
    qed
  next
    case (Some ext)
    let ?sheet = "case rf_sheet n of None \<Rightarrow> [] | Some s \<Rightarrow> s"
    have ext: "CHR '']'' \<notin> set ext" "rf_sheet n \<noteq> Some []" using Some assms(1) by (auto simp: ref_ok_def)
    have e: "\<forall>c \<in> set ext. c \<noteq> CHR '']''" using ext(1) by auto
    have tw: "takeWhile (\<lambda>c. c \<noteq> CHR '']'') (ext @ CHR '']'' # ?sheet) = ext"
      and dw: "dropWhile (\<lambda>c. c \<noteq> CHR '']'') (ext @ CHR '']'' # ?sheet) = CHR '']'' # ?sheet"
      using takeWhile_run [OF e, of "CHR '']'' # ?sheet"] dropWhile_run [OF e, of "CHR '']'' # ?sheet"] by simp_all
    have sheet: "(if ?sheet \<noteq> [] then Some ?sheet else None) = rf_sheet n" using ext(2) by (cases "rf_sheet n") auto
    show ?thesis
      using scan_reference_quoted [OF body assms(2), of "''['' @ ext @ '']'' @ ?sheet"] tw dw Some sheet
      by (simp add: ref_spelling_def startswith_def Let_def)
  qed
qed

text \<open>
  Scanning a printed reference gives the reference back: for every cell, rectangle, column
  pair or row pair, with any sheet name (quoted, apostrophes doubled) and any external book,
  followed by the end of the formula or an operator, \<open>scan_reference\<close> returns exactly that
  reference and stops exactly behind it.
\<close>

theorem scan_reference_roundtrip:
  assumes "ref_ok n" and "after_ref rest"
  shows "scan_reference (ref_spelling n @ rest) = Some (RefV n, rest)"
  using assms by (rule scan_reference_spelling)

theorem scan_reference_roundtrip_witness:
  "scan_reference (ref_spelling \<lparr>rf_body = BRange \<lparr>c_col = 1, c_row = 2, c_abs_col = True, c_abs_row = False\<rparr>
       \<lparr>c_col = 27, c_row = 9, c_abs_col = False, c_abs_row = True\<rparr>, rf_sheet = Some [CHR ''a'', CHR 0x27], rf_external = None\<rparr> @ ''+1'') =
   Some (RefV \<lparr>rf_body = BRange \<lparr>c_col = 1, c_row = 2, c_abs_col = True, c_abs_row = False\<rparr>
       \<lparr>c_col = 27, c_row = 9, c_abs_col = False, c_abs_row = True\<rparr>, rf_sheet = Some [CHR ''a'', CHR 0x27], rf_external = None\<rparr>, ''+1'')"
proof (rule scan_reference_roundtrip)
  show "ref_ok \<lparr>rf_body = BRange \<lparr>c_col = 1, c_row = 2, c_abs_col = True, c_abs_row = False\<rparr>
       \<lparr>c_col = 27, c_row = 9, c_abs_col = False, c_abs_row = True\<rparr>, rf_sheet = Some [CHR ''a'', CHR 0x27], rf_external = None\<rparr>"
    by (simp add: ref_ok_def cell_ok_def in_grid_def MAX_COL_def MAX_ROW_def startswith_def)
  show "after_ref ''+1''" by (simp add: after_ref_def operator_char_def)
qed

text \<open>
  The scanner is total: whatever the text, the decimal mark, the argument separator and the
  behaviour of \<open>float\<close>, every round of the loop consumes at least one character, so the scanner
  returns a token list or one of the source's errors and never exhausts its rounds.
\<close>

theorem tokenize_terminates:
  "tokenize fo text decimal sep \<noteq> Inl OutOfFuel"
  by (metis tokenize_total no_fuel_error_def)

end
