(* ===== verification/Formula_Parse.thy ===== *)
theory Formula_Parse
  imports Formula_Scan
begin

text \<open>
  The recursive-descent formula parser, \<open>src/finance_context/formulas/parse.py\<close>. The parser
  state (token list and index) is the list of tokens still to read; \<open>peek\<close> is its head and
  \<open>eat\<close> its tail. Each method is a definition that takes the parser for a nested expression
  as an argument; \<open>parse_expr\<close> ties the knot with fuel. The fuel of the loops and of
  \<open>parse_expr\<close> is derived from the number of tokens, and the last section proves that it is
  never exhausted.
\<close>

section \<open>Syntax trees\<close>

datatype 'f ast =
    Num 'f
  | Str string
  | Err string
  | Name string
  | RefAst ref_node
  | NamedRange string string
  | Unary string "'f ast"
  | Percent "'f ast"
  | Bin string "'f ast" "'f ast"
  | Func string "'f ast list"
  | Array "'f ast list list"

type_synonym 'f parser = "'f tok list \<Rightarrow> ('f ast \<times> 'f tok list) result"

abbreviation syntax_error :: "string \<Rightarrow> 'a result" where
  "syntax_error m \<equiv> Inl (FormulaSyntaxError m)"

definition ref_ast :: "ref_value \<Rightarrow> 'f ast" where
  "ref_ast v = (case v of RefV n \<Rightarrow> RefAst n | ErrV e \<Rightarrow> Err e)"

definition XL_FUNC_PREFIXES :: "string list" where
  "XL_FUNC_PREFIXES = [''_xlfn.'', ''_xlws.'']"

function canonical_func_name :: "string \<Rightarrow> string" where
  "canonical_func_name name =
     (case find (startswith (py_lower name)) XL_FUNC_PREFIXES of
        None \<Rightarrow> name
      | Some matched \<Rightarrow> canonical_func_name (drop (length matched) name))"
  by pat_completeness auto
termination
proof (relation "measure length", simp, goal_cases)
  case (1 name matched)
  then have "matched \<in> set XL_FUNC_PREFIXES" "startswith (py_lower name) matched"
    by (auto simp: find_Some_iff)
  then have "matched \<noteq> []" "length matched \<le> length name"
    using startswith_length [of "py_lower name" matched] by (auto simp: XL_FUNC_PREFIXES_def py_lower_def)
  then show ?case by (cases matched; cases name) auto
qed

declare canonical_func_name.simps [simp del]

section \<open>Array constants\<close>

definition array_number :: "'f \<Rightarrow> 'f parser" where
  "array_number value ts =
     (case ts of
        OP v # rest \<Rightarrow> if v = ''%'' then Inr (Percent (Num value), rest) else Inr (Num value, ts)
      | _ \<Rightarrow> Inr (Num value, ts))"

definition parse_array_item :: "'f float_ops \<Rightarrow> 'f parser" where
  "parse_array_item fo ts =
     (case ts of
        [] \<Rightarrow> syntax_error ''unexpected token''
      | OP v # rest \<Rightarrow>
          if v = ''+'' \<or> v = ''-'' then
            (case rest of
               NUMBER number # rest2 \<Rightarrow> array_number (if v = ''-'' then f_neg fo number else number) rest2
             | _ \<Rightarrow> syntax_error ''unexpected token'')
          else syntax_error ''array constant holds constants only''
      | NUMBER value # rest \<Rightarrow> array_number value rest
      | STRING value # rest \<Rightarrow> Inr (Str value, rest)
      | ERROR value # rest \<Rightarrow> Inr (Err value, rest)
      | NAME value # rest \<Rightarrow>
          if py_upper value \<in> {''TRUE'', ''FALSE''} then Inr (Name (py_upper value), rest)
          else syntax_error ''array constant holds constants only''
      | _ \<Rightarrow> syntax_error ''array constant holds constants only'')"

text \<open>The loop after the first item; \<open>rows\<close> is not empty.\<close>

fun array_loop :: "'f float_ops \<Rightarrow> nat \<Rightarrow> 'f ast list list \<Rightarrow> 'f tok list \<Rightarrow> ('f ast list list \<times> 'f tok list) result" where
  "array_loop fo 0 rows ts = Inl OutOfFuel"
| "array_loop fo (Suc n) rows ts =
     (case ts of
        SEP # rest \<Rightarrow>
          bind_result (parse_array_item fo rest) (\<lambda>(item, rest).
            array_loop fo n (butlast rows @ [last rows @ [item]]) rest)
      | ROWSEP # rest \<Rightarrow>
          bind_result (parse_array_item fo rest) (\<lambda>(item, rest). array_loop fo n (rows @ [[item]]) rest)
      | RBRACE # rest \<Rightarrow> Inr (rows, rest)
      | [] \<Rightarrow> syntax_error ''unexpected token''
      | _ \<Rightarrow> syntax_error ''bad array constant'')"

definition parse_array :: "'f float_ops \<Rightarrow> 'f parser" where
  "parse_array fo ts =
     (case ts of
        LBRACE # rest \<Rightarrow>
          bind_result (parse_array_item fo rest) (\<lambda>(item, rest).
          bind_result (array_loop fo (Suc (length rest)) [[item]] rest) (\<lambda>(rows, rest).
            if card (length ` set rows) \<noteq> 1 then syntax_error ''ragged array constant''
            else Inr (Array rows, rest)))
      | _ \<Rightarrow> syntax_error ''unexpected token'')"

section \<open>Primary expressions\<close>

fun args_loop :: "'f parser \<Rightarrow> nat \<Rightarrow> 'f ast list \<Rightarrow> 'f tok list \<Rightarrow> ('f ast list \<times> 'f tok list) result" where
  "args_loop rec 0 args ts = Inl OutOfFuel"
| "args_loop rec (Suc n) args ts =
     (case ts of
        SEP # rest \<Rightarrow> bind_result (rec rest) (\<lambda>(arg, rest). args_loop rec n (args @ [arg]) rest)
      | RPAREN # rest \<Rightarrow> Inr (args, rest)
      | _ \<Rightarrow> syntax_error ''unexpected token'')"

definition parse_call :: "'f parser \<Rightarrow> string \<Rightarrow> 'f parser" where
  "parse_call rec name ts =
     (case ts of
        LPAREN # rest \<Rightarrow>
          bind_result
            (case rest of
               [] \<Rightarrow> syntax_error ''unexpected token''
             | RPAREN # rest \<Rightarrow> Inr ([], rest)
             | _ \<Rightarrow> bind_result (rec rest) (\<lambda>(arg, rest). args_loop rec (Suc (length rest)) [arg] rest))
            (\<lambda>(args, rest). Inr (Func (canonical_func_name name) args, rest))
      | _ \<Rightarrow> syntax_error ''unexpected token'')"

definition parse_named_range :: "string \<Rightarrow> 'f parser" where
  "parse_named_range start ts =
     (case ts of
        COLON # NAME end # rest \<Rightarrow> Inr (NamedRange start end, rest)
      | COLON # _ \<Rightarrow> syntax_error ''expected name after :''
      | _ \<Rightarrow> syntax_error ''unexpected token'')"

definition parse_primary :: "'f float_ops \<Rightarrow> 'f parser \<Rightarrow> 'f parser" where
  "parse_primary fo rec ts =
     (case ts of
        [] \<Rightarrow> syntax_error ''expected value''
      | NUMBER value # rest \<Rightarrow> Inr (Num value, rest)
      | STRING value # rest \<Rightarrow> Inr (Str value, rest)
      | ERROR value # rest \<Rightarrow> Inr (Err value, rest)
      | REF value # rest \<Rightarrow> Inr (ref_ast value, rest)
      | NAME value # rest \<Rightarrow>
          (case rest of
             LPAREN # _ \<Rightarrow> parse_call rec value rest
           | COLON # _ \<Rightarrow> parse_named_range value rest
           | _ \<Rightarrow> Inr (Name value, rest))
      | LPAREN # rest \<Rightarrow>
          bind_result (rec rest) (\<lambda>(node, rest).
            case rest of RPAREN # rest \<Rightarrow> Inr (node, rest) | _ \<Rightarrow> syntax_error ''unexpected token'')
      | LBRACE # _ \<Rightarrow> parse_array fo ts
      | _ \<Rightarrow> syntax_error ''expected value'')"

section \<open>Operators\<close>

definition parse_postfix :: "'f float_ops \<Rightarrow> 'f parser \<Rightarrow> 'f parser" where
  "parse_postfix fo rec ts =
     bind_result (parse_primary fo rec ts) (\<lambda>(node, rest).
       case rest of
         OP v # rest2 \<Rightarrow> if v = ''%'' then Inr (Percent node, rest2) else Inr (node, rest)
       | _ \<Rightarrow> Inr (node, rest))"

fun parse_unary :: "'f float_ops \<Rightarrow> 'f parser \<Rightarrow> 'f parser" where
  "parse_unary fo rec [] = parse_postfix fo rec []"
| "parse_unary fo rec (t # rest) =
     (if t = OP ''+'' \<or> t = OP ''-'' then
        bind_result (parse_unary fo rec rest) (\<lambda>(expr, rest).
          Inr (Unary (if t = OP ''+'' then ''+'' else ''-'') expr, rest))
      else parse_postfix fo rec (t # rest))"

fun parse_pow_fuel :: "'f float_ops \<Rightarrow> 'f parser \<Rightarrow> nat \<Rightarrow> 'f parser" where
  "parse_pow_fuel fo rec 0 ts = Inl OutOfFuel"
| "parse_pow_fuel fo rec (Suc n) ts =
     bind_result (parse_unary fo rec ts) (\<lambda>(node, rest).
       case rest of
         OP v # rest2 \<Rightarrow>
           if v = ''^'' then
             bind_result (parse_pow_fuel fo rec n rest2) (\<lambda>(right, rest). Inr (Bin ''^'' node right, rest))
           else Inr (node, rest)
       | _ \<Rightarrow> Inr (node, rest))"

definition parse_pow :: "'f float_ops \<Rightarrow> 'f parser \<Rightarrow> 'f parser" where
  "parse_pow fo rec ts = parse_pow_fuel fo rec (Suc (length ts)) ts"

text \<open>The loop of a left-associative level: operators, parser of the operands, node so far.\<close>

fun left_loop :: "string set \<Rightarrow> 'f parser \<Rightarrow> nat \<Rightarrow> 'f ast \<Rightarrow> 'f parser" where
  "left_loop ops sub 0 node ts = Inl OutOfFuel"
| "left_loop ops sub (Suc n) node ts =
     (case ts of
        OP v # rest \<Rightarrow>
          if v \<in> ops then bind_result (sub rest) (\<lambda>(right, rest). left_loop ops sub n (Bin v node right) rest)
          else Inr (node, ts)
      | _ \<Rightarrow> Inr (node, ts))"

definition left_level :: "string set \<Rightarrow> 'f parser \<Rightarrow> 'f parser" where
  "left_level ops sub ts =
     bind_result (sub ts) (\<lambda>(node, rest). left_loop ops sub (Suc (length rest)) node rest)"

definition parse_mul :: "'f float_ops \<Rightarrow> 'f parser \<Rightarrow> 'f parser" where
  "parse_mul fo rec = left_level {''*'', ''/''} (parse_pow fo rec)"

definition parse_add :: "'f float_ops \<Rightarrow> 'f parser \<Rightarrow> 'f parser" where
  "parse_add fo rec = left_level {''+'', ''-''} (parse_mul fo rec)"

definition parse_compare :: "'f float_ops \<Rightarrow> 'f parser \<Rightarrow> 'f parser" where
  "parse_compare fo rec = left_level {''='', ''<>'', ''<'', ''>'', ''<='', ''>=''} (parse_add fo rec)"

definition parse_concat :: "'f float_ops \<Rightarrow> 'f parser \<Rightarrow> 'f parser" where
  "parse_concat fo rec = left_level {''&''} (parse_compare fo rec)"

fun parse_expr :: "'f float_ops \<Rightarrow> nat \<Rightarrow> 'f parser" where
  "parse_expr fo 0 ts = Inl OutOfFuel"
| "parse_expr fo (Suc n) ts = parse_concat fo (parse_expr fo n) ts"

text \<open>\<open>parse_expr\<close> and the check for trailing tokens, as \<open>FormulaEngine.parse\<close> calls them.\<close>

definition parse_tokens :: "'f float_ops \<Rightarrow> 'f tok list \<Rightarrow> 'f ast result" where
  "parse_tokens fo ts =
     bind_result (parse_expr fo (Suc (length ts)) ts) (\<lambda>(ast, rest).
       if rest \<noteq> [] then syntax_error ''trailing tokens'' else Inr ast)"

section \<open>Every parser consumes tokens\<close>

text \<open>A result that is no fuel error and leaves fewer than \<open>m\<close> tokens.\<close>

definition fits :: "nat \<Rightarrow> ('a \<times> 'f tok list) result \<Rightarrow> bool" where
  "fits m r \<longleftrightarrow> no_fuel_error r \<and> (\<forall>a rest. r = Inr (a, rest) \<longrightarrow> length rest < m)"

lemma fits_Inr [simp]: "fits m (Inr (a, rest)) \<longleftrightarrow> length rest < m"
  by (simp add: fits_def)

lemma fits_error [simp]: "fits m (syntax_error e)"
  by (simp add: fits_def)

lemma fits_bind:
  assumes "fits m1 r" "\<And>a rest. r = Inr (a, rest) \<Longrightarrow> length rest < m1 \<Longrightarrow> fits m (f (a, rest))"
  shows "fits m (bind_result r f)"
proof (cases r)
  case (Inl e)
  with assms(1) show ?thesis by (simp add: fits_def no_fuel_error_def)
next
  case (Inr p)
  with assms show ?thesis by (cases p) simp
qed

lemma fits_mono: "fits m1 r \<Longrightarrow> m1 \<le> m \<Longrightarrow> fits m r"
  by (fastforce simp: fits_def)

definition goodlt :: "nat \<Rightarrow> 'f parser \<Rightarrow> bool" where
  "goodlt k p \<longleftrightarrow> (\<forall>ts. length ts < k \<longrightarrow> fits (length ts) (p ts))"

lemma goodltD: "goodlt k p \<Longrightarrow> length ts < k \<Longrightarrow> fits (length ts) (p ts)"
  by (simp add: goodlt_def)

lemma array_number_fits: "fits (Suc (length ts)) (array_number v ts)"
  by (auto simp: array_number_def split: list.split tok.split)

lemma parse_array_item_fits: "fits (length ts) (parse_array_item fo ts)"
proof (cases ts)
  case Nil
  then show ?thesis by (simp add: parse_array_item_def)
next
  case (Cons t us)
  show ?thesis
    unfolding Cons
    by (cases t)
      (auto simp: parse_array_item_def array_number_fits intro: fits_mono [OF array_number_fits] split: list.split tok.split)
qed

lemma array_loop_fits: "length ts < n \<Longrightarrow> fits (length ts) (array_loop fo n rows ts)"
proof (induction n arbitrary: rows ts)
  case 0
  then show ?case by simp
next
  case (Suc n)
  show ?case
  proof (cases ts)
    case Nil
    then show ?thesis by simp
  next
    case (Cons t us)
    have step: "fits (length ts) (bind_result (parse_array_item fo us) (\<lambda>(item, rest). array_loop fo n (f item) rest))" for f
      using Suc Cons by (intro fits_bind [OF parse_array_item_fits]) (auto intro: fits_mono [OF Suc.IH])
    show ?thesis
      using step [of "\<lambda>item. butlast rows @ [last rows @ [item]]"] step [of "\<lambda>item. rows @ [[item]]"] Cons
      by (cases t) simp_all
  qed
qed

lemma parse_array_fits: "fits (length ts) (parse_array fo ts)"
proof (cases "\<exists>us. ts = LBRACE # us")
  case True
  then obtain us where ts: "ts = LBRACE # us" by blast
  have loop: "fits (length r) (array_loop fo (Suc (length r)) rows r)" for rows r by (rule array_loop_fits) simp
  show ?thesis
    unfolding ts parse_array_def list.case tok.case
    by (rule fits_bind [OF parse_array_item_fits], unfold prod.case, rule fits_bind [OF loop]) auto
next
  case False
  then show ?thesis by (auto simp: parse_array_def split: list.split tok.split)
qed

lemma args_loop_fits:
  assumes "goodlt k rec"
  shows "length ts < n \<Longrightarrow> length ts \<le> k \<Longrightarrow> fits (length ts) (args_loop rec n args ts)"
proof (induction n arbitrary: args ts)
  case 0
  then show ?case by simp
next
  case (Suc n)
  show ?case
  proof (cases ts)
    case Nil
    then show ?thesis by simp
  next
    case (Cons t us)
    have "fits (length us) (rec us)" using Suc.prems Cons by (intro goodltD [OF assms]) simp
    then have "fits (length ts) (bind_result (rec us) (\<lambda>(arg, rest). args_loop rec n (args @ [arg]) rest))"
      using Suc Cons by (auto intro!: fits_bind intro: fits_mono [OF Suc.IH])
    with Cons show ?thesis by (cases t) simp_all
  qed
qed

lemma parse_call_fits:
  assumes "goodlt k rec" "length ts \<le> k"
  shows "fits (length ts) (parse_call rec name ts)"
proof (cases "\<exists>us. ts = LPAREN # us")
  case True
  then obtain us where ts: "ts = LPAREN # us" by blast
  have loop: "fits (length us) (args_loop rec (Suc (length rest)) [arg] rest)" if "length rest < length us" for arg rest
    using that assms ts by (intro fits_mono [OF args_loop_fits [OF assms(1)]]) auto
  have args: "fits (length us) (bind_result (rec us) (\<lambda>(arg, rest). args_loop rec (Suc (length rest)) [arg] rest))"
    using assms ts by (intro fits_bind [OF goodltD [OF assms(1), of us]]) (auto intro: loop simp del: args_loop.simps)
  have finish: "fits (length ts) (bind_result r (\<lambda>(args, rest). Inr (Func (canonical_func_name name) args, rest)))"
    if "fits (length us) r" for r
    using that by (rule fits_bind) (simp add: ts)
  have call: "parse_call rec name ts =
      bind_result (case us of [] \<Rightarrow> syntax_error ''unexpected token'' | RPAREN # rest \<Rightarrow> Inr ([], rest)
         | _ \<Rightarrow> bind_result (rec us) (\<lambda>(arg, rest). args_loop rec (Suc (length rest)) [arg] rest))
       (\<lambda>(args, rest). Inr (Func (canonical_func_name name) args, rest))"
    unfolding parse_call_def ts list.case tok.case by (rule refl)
  show ?thesis
    unfolding call
  proof (rule finish)
    show "fits (length us) (case us of [] \<Rightarrow> syntax_error ''unexpected token'' | RPAREN # rest \<Rightarrow> Inr ([], rest)
         | _ \<Rightarrow> bind_result (rec us) (\<lambda>(arg, rest). args_loop rec (Suc (length rest)) [arg] rest))"
    proof (cases us)
      case Nil
      then show ?thesis by simp
    next
      case (Cons u vs)
      show ?thesis using args unfolding Cons by (cases u) (simp_all del: args_loop.simps)
    qed
  qed
next
  case False
  then show ?thesis by (auto simp: parse_call_def split: list.split tok.split)
qed

lemma parse_named_range_fits: "fits (length ts) (parse_named_range start ts)"
  by (auto simp: parse_named_range_def split: list.split tok.split)

lemma parse_primary_good:
  assumes "goodlt k rec"
  shows "goodlt (Suc k) (parse_primary fo rec)"
  unfolding goodlt_def
proof (intro allI impI)
  fix ts :: "'a tok list" assume len: "length ts < Suc k"
  show "fits (length ts) (parse_primary fo rec ts)"
  proof (cases ts)
    case Nil
    then show ?thesis by (simp add: parse_primary_def)
  next
    case (Cons t us)
    have us: "length us < k" using Cons len by simp
    show ?thesis
    proof (cases t)
      case (NAME v)
      have "fits (length ts) (parse_call rec v us)" "fits (length ts) (parse_named_range v us)"
        using parse_call_fits [OF assms, of us v] parse_named_range_fits [of us v] us Cons
        by (auto intro: fits_mono)
      with NAME Cons show ?thesis by (auto simp: parse_primary_def split: list.split tok.split)
    next
      case LPAREN
      have "fits (length ts) (bind_result (rec us) (\<lambda>(node, rest).
            case rest of RPAREN # rest \<Rightarrow> Inr (node, rest) | _ \<Rightarrow> syntax_error ''unexpected token''))"
        by (rule fits_bind [OF goodltD [OF assms us]]) (auto simp: Cons split: list.split tok.split)
      with LPAREN Cons show ?thesis by (simp add: parse_primary_def)
    next
      case LBRACE
      with Cons parse_array_fits [of ts fo] show ?thesis by (simp add: parse_primary_def)
    qed (simp_all add: Cons parse_primary_def)
  qed
qed

lemma parse_postfix_good:
  assumes "goodlt k rec"
  shows "goodlt (Suc k) (parse_postfix fo rec)"
  unfolding goodlt_def parse_postfix_def
proof (intro allI impI)
  fix ts :: "'a tok list" assume len: "length ts < Suc k"
  show "fits (length ts) (bind_result (parse_primary fo rec ts) (\<lambda>(node, rest).
       case rest of OP v # rest2 \<Rightarrow> if v = ''%'' then Inr (Percent node, rest2) else Inr (node, rest)
       | _ \<Rightarrow> Inr (node, rest)))"
    by (rule fits_bind [OF goodltD [OF parse_primary_good [OF assms] len]]) (auto split: list.split tok.split)
qed

lemma parse_unary_good:
  assumes "goodlt k rec"
  shows "goodlt (Suc k) (parse_unary fo rec)"
  unfolding goodlt_def
proof (intro allI impI)
  fix ts :: "'a tok list"
  show "length ts < Suc k \<Longrightarrow> fits (length ts) (parse_unary fo rec ts)"
  proof (induction ts)
    case Nil
    then show ?case using goodltD [OF parse_postfix_good [OF assms], of "[]" fo] by simp
  next
    case (Cons t us)
    have "fits (length us) (parse_unary fo rec us)" using Cons by simp
    then have "fits (length (t # us)) (bind_result (parse_unary fo rec us) (\<lambda>(expr, rest). Inr (Unary op expr, rest)))" for op
      by (rule fits_bind) simp
    with goodltD [OF parse_postfix_good [OF assms], of "t # us" fo] Cons.prems show ?case by simp
  qed
qed

lemma parse_pow_fuel_fits:
  assumes "goodlt k rec"
  shows "length ts < n \<Longrightarrow> length ts < Suc k \<Longrightarrow> fits (length ts) (parse_pow_fuel fo rec n ts)"
proof (induction n arbitrary: ts)
  case 0
  then show ?case by simp
next
  case (Suc n)
  show ?case
    unfolding parse_pow_fuel.simps
  proof (rule fits_bind [OF goodltD [OF parse_unary_good [OF assms] Suc.prems(2)]], unfold prod.case)
    fix a :: "'a ast" and rest :: "'a tok list" assume len: "length rest < length ts"
    show "fits (length ts) (case rest of OP v # rest2 \<Rightarrow> if v = ''^'' then
            bind_result (parse_pow_fuel fo rec n rest2) (\<lambda>(right, rest). Inr (Bin ''^'' a right, rest))
           else Inr (a, rest) | _ \<Rightarrow> Inr (a, rest))"
    proof (cases "\<exists>v r2. rest = OP v # r2")
      case True
      then obtain v r2 where r: "rest = OP v # r2" by blast
      have "fits (length r2) (parse_pow_fuel fo rec n r2)" using Suc len r by simp
      then have "fits (length ts) (bind_result (parse_pow_fuel fo rec n r2) (\<lambda>(right, rest). Inr (Bin ''^'' a right, rest)))"
        by (rule fits_bind) (use len r in simp)
      with r len show ?thesis by simp
    next
      case False
      with len show ?thesis by (auto split: list.split tok.split)
    qed
  qed
qed

lemma parse_pow_good: "goodlt k rec \<Longrightarrow> goodlt (Suc k) (parse_pow fo rec)"
  by (auto simp: goodlt_def [of "Suc k"] parse_pow_def intro: parse_pow_fuel_fits simp del: parse_pow_fuel.simps)

lemma left_loop_fits:
  assumes "goodlt k sub"
  shows "length ts < n \<Longrightarrow> length ts \<le> k \<Longrightarrow> fits (Suc (length ts)) (left_loop ops sub n node ts)"
proof (induction n arbitrary: node ts)
  case 0
  then show ?case by simp
next
  case (Suc n)
  show ?case
  proof (cases "\<exists>v us. ts = OP v # us")
    case True
    then obtain v us where ts: "ts = OP v # us" by blast
    have "fits (length us) (sub us)" using Suc.prems ts by (intro goodltD [OF assms]) simp
    then have "fits (Suc (length ts)) (bind_result (sub us) (\<lambda>(right, rest). left_loop ops sub n (Bin v node right) rest))"
      using Suc ts by (auto intro!: fits_bind intro: fits_mono [OF Suc.IH])
    with ts show ?thesis by simp
  next
    case False
    then show ?thesis by (auto split: list.split tok.split)
  qed
qed

lemma left_level_good:
  assumes "goodlt k sub"
  shows "goodlt k (left_level ops sub)"
  unfolding goodlt_def left_level_def
proof (intro allI impI)
  fix ts :: "'a tok list" assume len: "length ts < k"
  show "fits (length ts) (bind_result (sub ts) (\<lambda>(node, rest). left_loop ops sub (Suc (length rest)) node rest))"
  proof (rule fits_bind [OF goodltD [OF assms len]], unfold prod.case)
    fix a :: "'a ast" and rest :: "'a tok list" assume r: "length rest < length ts"
    show "fits (length ts) (left_loop ops sub (Suc (length rest)) a rest)"
      by (rule fits_mono [OF left_loop_fits [OF assms]]) (use r len in auto)
  qed
qed

lemma parse_concat_good: "goodlt k rec \<Longrightarrow> goodlt (Suc k) (parse_concat fo rec)"
  unfolding parse_concat_def parse_compare_def parse_add_def parse_mul_def
  by (intro left_level_good parse_pow_good)

lemma parse_expr_good: "goodlt n (parse_expr fo n)"
proof (induction n)
  case 0
  then show ?case by (simp add: goodlt_def)
next
  case (Suc n)
  from parse_concat_good [OF this] show ?case by (simp add: goodlt_def)
qed

lemma parse_tokens_total: "no_fuel_error (parse_tokens fo ts)"
proof -
  have "no_fuel_error (parse_expr fo (Suc (length ts)) ts)"
    using goodltD [OF parse_expr_good, of ts "Suc (length ts)" fo] by (simp add: fits_def del: parse_expr.simps)
  then show ?thesis
    unfolding parse_tokens_def by (rule no_fuel_error_bind) (auto split: prod.split)
qed

end
