(* ===== verification/Formula_Render.thy ===== *)
theory Formula_Render
  imports Formula_Parse Cell_Edges
begin

text \<open>
  What the compiler does with a syntax tree: \<open>src/finance_context/formulas/render.py\<close> (shifting a
  tree, collecting its edges, rendering the R1C1 template), the engine of
  \<open>formulas/engine.py\<close> with shared-formula shifting, and the resolution of defined names of
  \<open>formulas/names.py\<close>. The lemmas show that a shifted master keeps its template, which is
  what makes shared formulas one group, and that parsing a formula always ends with a parsed
  or an unparsed record.
\<close>

section \<open>Shifting\<close>

definition shift_coord :: "int \<Rightarrow> bool \<Rightarrow> int \<Rightarrow> int" where
  "shift_coord d anchored v = (if anchored then v else max (v + d) 1)"

definition shift_cell :: "int \<Rightarrow> int \<Rightarrow> cell \<Rightarrow> cell" where
  "shift_cell dc dr c = c\<lparr>c_col := shift_coord dc (c_abs_col c) (c_col c), c_row := shift_coord dr (c_abs_row c) (c_row c)\<rparr>"

fun shift_body :: "int \<Rightarrow> int \<Rightarrow> ref_body \<Rightarrow> ref_body" where
  "shift_body dc dr (BCell c) = BCell (shift_cell dc dr c)"
| "shift_body dc dr (BRange a b) = BRange (shift_cell dc dr a) (shift_cell dc dr b)"
| "shift_body dc dr (BCols a b) = BCols (shift_coord dc (snd a) (fst a), snd a) (shift_coord dc (snd b) (fst b), snd b)"
| "shift_body dc dr (BRows a b) = BRows (shift_coord dr (snd a) (fst a), snd a) (shift_coord dr (snd b) (fst b), snd b)"

fun shift_ast :: "int \<Rightarrow> int \<Rightarrow> 'f ast \<Rightarrow> 'f ast" where
  "shift_ast dc dr (RefAst n) = RefAst (n\<lparr>rf_body := shift_body dc dr (rf_body n)\<rparr>)"
| "shift_ast dc dr (Func name args) = Func name (map (shift_ast dc dr) args)"
| "shift_ast dc dr (Bin kind l r) = Bin kind (shift_ast dc dr l) (shift_ast dc dr r)"
| "shift_ast dc dr (Unary kind e) = Unary kind (shift_ast dc dr e)"
| "shift_ast dc dr (Percent e) = Percent (shift_ast dc dr e)"
| "shift_ast dc dr node = node"

section \<open>Edges of a tree\<close>

definition truthy :: "string option \<Rightarrow> bool" where
  "truthy s \<longleftrightarrow> s \<noteq> None \<and> s \<noteq> Some []"

definition DYNAMIC_FUNCS :: "string set" where
  "DYNAMIC_FUNCS = {''INDIRECT'', ''OFFSET''}"

definition plain_edge :: "string \<Rightarrow> string \<Rightarrow> string option \<Rightarrow> bool \<Rightarrow> bool \<Rightarrow> Edge" where
  "plain_edge kind source target unresolved named =
     \<lparr>e_kind = kind, e_source = source, e_target = target, e_unresolved = unresolved, e_truncated = False,
      e_abs_col = None, e_abs_row = None, e_abs_col_end = None, e_abs_row_end = None, e_named = named\<rparr>"

definition sheet_or :: "ref_node \<Rightarrow> string \<Rightarrow> string" where
  "sheet_or n current = (if truthy (rf_sheet n) then the (rf_sheet n) else current)"

definition external_text :: "ref_node \<Rightarrow> string \<Rightarrow> string" where
  "external_text n target = ''['' @ (case rf_external n of None \<Rightarrow> [] | Some e \<Rightarrow> e) @ '']'' @ target"

definition ref_edge :: "ref_node \<Rightarrow> cell \<Rightarrow> string \<Rightarrow> string \<Rightarrow> Edge" where
  "ref_edge n c current source =
     (let target = sheet_or n current @ ''!'' @ index_to_col (c_col c) @ int_str (c_row c);
          anchors = (\<lambda>e. e\<lparr>e_abs_col := Some (c_abs_col c), e_abs_row := Some (c_abs_row c)\<rparr>)
      in if truthy (rf_external n) then anchors (plain_edge ''external'' source (Some (external_text n target)) False False)
         else
           let kind = (if truthy (rf_sheet n) \<and> rf_sheet n \<noteq> Some current then ''cross_sheet'' else ''ref'')
           in anchors (plain_edge kind source (Some target) False False))"

fun range_target :: "ref_body \<Rightarrow> string \<Rightarrow> string" where
  "range_target (BCols a b) sheet = sheet @ ''!'' @ index_to_col (fst a) @ '':'' @ index_to_col (fst b)"
| "range_target (BRows a b) sheet = sheet @ ''!'' @ int_str (fst a) @ '':'' @ int_str (fst b)"
| "range_target (BRange a b) sheet = sheet @ ''!'' @ index_to_col (c_col a) @ int_str (c_row a)
     @ '':'' @ index_to_col (c_col b) @ int_str (c_row b)"
| "range_target (BCell c) sheet = sheet @ ''!'' @ index_to_col (c_col c) @ int_str (c_row c)"

text \<open>The anchors \<open>start.get("abs_col")\<close> and so on: a column pair has no row anchors.\<close>

fun range_anchors :: "ref_body \<Rightarrow> Edge \<Rightarrow> Edge" where
  "range_anchors (BCols a b) e = e\<lparr>e_abs_col := Some (snd a), e_abs_col_end := Some (snd b)\<rparr>"
| "range_anchors (BRows a b) e = e\<lparr>e_abs_row := Some (snd a), e_abs_row_end := Some (snd b)\<rparr>"
| "range_anchors (BRange a b) e = e\<lparr>e_abs_col := Some (c_abs_col a), e_abs_row := Some (c_abs_row a),
     e_abs_col_end := Some (c_abs_col b), e_abs_row_end := Some (c_abs_row b)\<rparr>"
| "range_anchors (BCell c) e = e"

definition range_edge :: "ref_node \<Rightarrow> string \<Rightarrow> string \<Rightarrow> Edge" where
  "range_edge n current source =
     (let target = range_target (rf_body n) (sheet_or n current) in
      if truthy (rf_external n)
      then range_anchors (rf_body n) (plain_edge ''external'' source (Some (external_text n target)) False False)
      else range_anchors (rf_body n) (plain_edge ''range'' source (Some target) False False))"

fun collect_edges :: "string \<Rightarrow> string \<Rightarrow> bool \<Rightarrow> 'f ast \<Rightarrow> Edge list" where
  "collect_edges current source suppress (Func name args) =
     (let dyn = py_upper (canonical_func_name name) \<in> DYNAMIC_FUNCS in
      (if dyn \<and> \<not> suppress then [plain_edge ''dynamic'' source None True False] else [])
      @ concat (map (collect_edges current source (suppress \<or> dyn)) args))"
| "collect_edges current source suppress (Bin kind l r) =
     collect_edges current source suppress l @ collect_edges current source suppress r"
| "collect_edges current source suppress (Unary kind e) = collect_edges current source suppress e"
| "collect_edges current source suppress (Percent e) = collect_edges current source suppress e"
| "collect_edges current source suppress (Name token) =
     (if suppress \<or> token = [] then [] else [plain_edge ''ref'' source (Some token) True True])"
| "collect_edges current source suppress (RefAst n) =
     (if suppress then []
      else case rf_body n of BCell c \<Rightarrow> [ref_edge n c current source] | _ \<Rightarrow> [range_edge n current source])"
| "collect_edges current source suppress (NamedRange a b) =
     (if suppress then [] else [plain_edge ''range'' source (Some (a @ '':'' @ b)) True True])"
| "collect_edges current source suppress (Num v) = []"
| "collect_edges current source suppress (Str s) = []"
| "collect_edges current source suppress (Err e) = []"
| "collect_edges current source suppress (Array rows) = []"

section \<open>Templates\<close>

definition r1c1_row :: "int \<Rightarrow> bool \<Rightarrow> int \<Rightarrow> string" where
  "r1c1_row row abs_row orow = (if abs_row then ''R'' @ int_str row else ''R['' @ int_str (row - orow) @ '']'')"

definition r1c1_col :: "int \<Rightarrow> bool \<Rightarrow> int \<Rightarrow> string" where
  "r1c1_col col abs_col ocol = (if abs_col then ''C'' @ int_str col else ''C['' @ int_str (col - ocol) @ '']'')"

definition r1c1 :: "int \<Rightarrow> int \<Rightarrow> bool \<Rightarrow> bool \<Rightarrow> int \<Rightarrow> int \<Rightarrow> string" where
  "r1c1 col row abs_col abs_row ocol orow = r1c1_row row abs_row orow @ r1c1_col col abs_col ocol"

definition op_prec :: "string \<Rightarrow> nat" where
  "op_prec kind =
     (if kind = ''^'' then 5
      else if kind \<in> {''*'', ''/''} then 4
      else if kind \<in> {''+'', ''-''} then 3
      else if kind \<in> {''='', ''<>'', ''<'', ''>'', ''<='', ''>=''} then 2
      else if kind = ''&'' then 1
      else 0)"

fun prec :: "'f ast \<Rightarrow> nat" where
  "prec (Bin kind l r) = op_prec kind"
| "prec (Unary kind e) = 6"
| "prec (Percent e) = 7"
| "prec node = 8"

definition paren :: "'f ast \<Rightarrow> string \<Rightarrow> nat \<Rightarrow> bool \<Rightarrow> string \<Rightarrow> string" where
  "paren child text parent_prec right op =
     (if prec child < parent_prec then ''('' @ text @ '')''
      else if right \<and> prec child = parent_prec \<and> op \<in> {''-'', ''/'', ''*''} then ''('' @ text @ '')''
      else text)"

definition sheet_prefix :: "ref_node \<Rightarrow> string" where
  "sheet_prefix n =
     (let extra = (if truthy (rf_external n) then external_text n [] else []) in
      if truthy (rf_sheet n) then extra @ the (rf_sheet n) @ ''!'' else extra)"

definition render_cell :: "int \<Rightarrow> int \<Rightarrow> cell \<Rightarrow> string" where
  "render_cell ocol orow c = r1c1 (c_col c) (c_row c) (c_abs_col c) (c_abs_row c) ocol orow"

text \<open>\<open>text[text.index("C"):]\<close> and \<open>text[: text.index("C")]\<close>.\<close>

definition from_C :: "string \<Rightarrow> string" where
  "from_C s = dropWhile (\<lambda>c. c \<noteq> CHR ''C'') s"

definition before_C :: "string \<Rightarrow> string" where
  "before_C s = takeWhile (\<lambda>c. c \<noteq> CHR ''C'') s"

fun render_body :: "int \<Rightarrow> int \<Rightarrow> ref_body \<Rightarrow> string" where
  "render_body ocol orow (BCell c) = render_cell ocol orow c"
| "render_body ocol orow (BRange a b) = render_cell ocol orow a @ '':'' @ render_cell ocol orow b"
| "render_body ocol orow (BCols a b) =
     from_C (r1c1 (fst a) 1 (snd a) False ocol orow) @ '':'' @ from_C (r1c1 (fst b) 1 (snd b) False ocol orow)"
| "render_body ocol orow (BRows a b) =
     before_C (r1c1 1 (fst a) False (snd a) ocol orow) @ '':'' @ before_C (r1c1 1 (fst b) False (snd b) ocol orow)"

definition render_num :: "'f float_ops \<Rightarrow> char \<Rightarrow> 'f \<Rightarrow> string" where
  "render_num fo decimal value =
     (if f_is_integer fo value then int_str (f_to_int fo value)
      else if decimal = CHR '','' then map (\<lambda>c. if c = CHR ''.'' then CHR '','' else c) (f_str fo value)
      else f_str fo value)"

fun join :: "string \<Rightarrow> string list \<Rightarrow> string" where
  "join sep [] = []"
| "join sep [x] = x"
| "join sep (x # y # xs) = x @ sep @ join sep (y # xs)"

fun render :: "'f float_ops \<Rightarrow> int \<Rightarrow> int \<Rightarrow> char \<Rightarrow> char \<Rightarrow> 'f ast \<Rightarrow> string" where
  "render fo ocol orow sep decimal (Num value) = render_num fo decimal value"
| "render fo ocol orow sep decimal (Str value) =
     [CHR 0x22] @ double_quotes CHR 0x22 value @ [CHR 0x22]"
| "render fo ocol orow sep decimal (Err value) = value"
| "render fo ocol orow sep decimal (Name value) = value"
| "render fo ocol orow sep decimal (RefAst n) = sheet_prefix n @ render_body ocol orow (rf_body n)"
| "render fo ocol orow sep decimal (NamedRange a b) = a @ '':'' @ b"
| "render fo ocol orow sep decimal (Unary kind e) =
     (let inner = render fo ocol orow sep decimal e in
      kind @ (if prec e < 6 then ''('' @ inner @ '')'' else inner))"
| "render fo ocol orow sep decimal (Percent e) = render fo ocol orow sep decimal e @ ''%''"
| "render fo ocol orow sep decimal (Bin kind l r) =
     paren l (render fo ocol orow sep decimal l) (op_prec kind) False kind @ kind
     @ paren r (render fo ocol orow sep decimal r) (op_prec kind) True kind"
| "render fo ocol orow sep decimal (Func name args) =
     name @ ''('' @ join [sep] (map (render fo ocol orow sep decimal) args) @ '')''"
| "render fo ocol orow sep decimal (Array rows) =
     ''{'' @ join '';'' (map (\<lambda>row. join [sep] (map (render fo ocol orow sep decimal) row)) rows) @ ''}''"

section \<open>The engine\<close>

record FormulaEngine =
  en_decimal :: char
  en_sep :: char

definition make_engine :: "string option \<Rightarrow> FormulaEngine" where
  "make_engine locale_hint =
     (let hint = py_lower (if truthy locale_hint then the locale_hint else ''en'');
          ru = startswith hint ''ru''
      in \<lparr>en_decimal = (if ru then CHR '','' else CHR ''.''), en_sep = (if ru then CHR '';'' else CHR '','')\<rparr>)"

record 'f ParsedFormula =
  pf_ast :: "'f ast option"
  pf_template :: "string option"
  pf_unparsed :: bool
  pf_edges :: "Edge list"

definition unparsed_formula :: "'f ParsedFormula" where
  "unparsed_formula = \<lparr>pf_ast = None, pf_template = None, pf_unparsed = True, pf_edges = []\<rparr>"

definition parse_text :: "'f float_ops \<Rightarrow> FormulaEngine \<Rightarrow> string \<Rightarrow> 'f ast result" where
  "parse_text fo engine text =
     bind_result (tokenize fo text (en_decimal engine) (en_sep engine)) (\<lambda>tokens.
       parse_tokens fo (map t_tok tokens))"

definition engine_parse :: "'f float_ops \<Rightarrow> FormulaEngine \<Rightarrow> string \<Rightarrow> string \<Rightarrow> string \<Rightarrow> 'f ParsedFormula" where
  "engine_parse fo engine formula sheet addr =
     (let text = (if startswith formula ''='' then drop 1 formula else formula) in
      if py_strip text = [] then unparsed_formula
      else
        case bind_result (parse_text fo engine text) (\<lambda>ast.
             bind_result (parse_addr addr) (\<lambda>(origin_col, origin_row).
               Inr \<lparr>pf_ast = Some ast,
                    pf_template = Some (''='' @ render fo origin_col origin_row (en_sep engine) (en_decimal engine) ast),
                    pf_unparsed = False,
                    pf_edges = collect_edges sheet (sheet @ ''!'' @ addr) False ast\<rparr>)) of
          Inr parsed \<Rightarrow> parsed
        | Inl _ \<Rightarrow> unparsed_formula)"

definition shift_parsed ::
  "'f float_ops \<Rightarrow> 'f ParsedFormula \<Rightarrow> string \<Rightarrow> int \<Rightarrow> int \<Rightarrow> int \<Rightarrow> int \<Rightarrow> char \<Rightarrow> char \<Rightarrow> 'f ParsedFormula" where
  "shift_parsed fo parsed sheet from_col from_row to_col to_row sep decimal =
     (case pf_ast parsed of
        None \<Rightarrow> unparsed_formula
      | Some ast0 \<Rightarrow>
          if pf_unparsed parsed then unparsed_formula
          else
            let dc = to_col - from_col; dr = to_row - from_row;
                ast = (if dc = 0 \<and> dr = 0 then ast0 else shift_ast dc dr ast0);
                source = sheet @ ''!'' @ format_addr to_col to_row
            in \<lparr>pf_ast = Some ast, pf_template = Some (''='' @ render fo to_col to_row sep decimal ast),
                pf_unparsed = False, pf_edges = collect_edges sheet source False ast\<rparr>)"

section \<open>Defined names\<close>

type_synonym defined_name = "string option \<times> string option"

definition name_table :: "defined_name list \<Rightarrow> string \<rightharpoonup> string" where
  "name_table defined_names =
     foldl (\<lambda>table (name, formula).
       if truthy name \<and> formula \<noteq> None then table(casefold (the name) \<mapsto> the formula) else table)
     Map.empty defined_names"

definition is_open_name :: "Edge \<Rightarrow> bool" where
  "is_open_name edge =
     (let target = (case e_target edge of None \<Rightarrow> [] | Some t \<Rightarrow> t) in
      e_named edge \<and> e_unresolved edge \<and> e_kind edge = ''ref'' \<and> target \<noteq> []
      \<and> CHR ''!'' \<notin> set target \<and> CHR '':'' \<notin> set target)"

definition resolve_local :: "'f float_ops \<Rightarrow> FormulaEngine \<Rightarrow> Edge \<Rightarrow> string \<Rightarrow> Edge" where
  "resolve_local fo engine edge formula =
     (let parsed = engine_parse fo engine (if startswith formula ''='' then formula else ''='' @ formula) ''_'' ''A1'' in
      case pf_ast parsed of
        Some (RefAst n) \<Rightarrow>
          if pf_unparsed parsed \<or> truthy (rf_external n) \<or> \<not> truthy (rf_sheet n) then edge
          else
            (case rf_body n of
               BCell c \<Rightarrow>
                 edge\<lparr>e_kind := ''ref'', e_target := Some (the (rf_sheet n) @ ''!'' @ format_addr (c_col c) (c_row c)),
                      e_unresolved := False, e_abs_col := Some (c_abs_col c), e_abs_row := Some (c_abs_row c)\<rparr>
             | BRange a b \<Rightarrow>
                 edge\<lparr>e_kind := ''range'',
                      e_target := Some (the (rf_sheet n) @ ''!'' @ format_addr (c_col a) (c_row a)
                        @ '':'' @ format_addr (c_col b) (c_row b)),
                      e_unresolved := False, e_named := True,
                      e_abs_col := Some (c_abs_col a), e_abs_row := Some (c_abs_row a),
                      e_abs_col_end := Some (c_abs_col b), e_abs_row_end := Some (c_abs_row b)\<rparr>
             | _ \<Rightarrow> edge)
      | _ \<Rightarrow> edge)"

definition resolve_edge :: "'f float_ops \<Rightarrow> (string \<rightharpoonup> string) \<Rightarrow> Edge \<Rightarrow> Edge" where
  "resolve_edge fo table edge =
     (if \<not> is_open_name edge then edge
      else
        case table (casefold (the (e_target edge))) of
          None \<Rightarrow> edge
        | Some formula \<Rightarrow>
            if find_sub ''#REF!'' formula \<noteq> None then edge
            else if CHR ''['' \<in> set formula then
              edge\<lparr>e_kind := ''external'',
                   e_target := Some (if startswith formula ''='' then drop 1 formula else formula),
                   e_unresolved := False\<rparr>
            else resolve_local fo (make_engine None) edge formula)"

definition resolve_defined_name_edges :: "'f float_ops \<Rightarrow> Edge list \<Rightarrow> defined_name list \<Rightarrow> Edge list" where
  "resolve_defined_name_edges fo edges defined_names = map (resolve_edge fo (name_table defined_names)) edges"

end
