(* ===== verification/Parse_Roundtrip.thy ===== *)
theory Parse_Roundtrip
  imports Formula_Render
begin

text \<open>
  Correctness of the parser of \<open>formulas/parse.py\<close> against a printer: every tree it returns is
  well formed (known operators, canonical function names, rectangular arrays of constants),
  and every well-formed tree, printed as tokens with parentheses only where the precedence
  and associativity of the operators ask for them, is parsed back to itself.
\<close>

section \<open>Well-formed trees\<close>

fun constant_item :: "'f ast \<Rightarrow> bool" where
  "constant_item (Num v) = True"
| "constant_item (Percent (Num v)) = True"
| "constant_item (Str s) = True"
| "constant_item (Err e) = True"
| "constant_item (Name n) \<longleftrightarrow> n = ''TRUE'' \<or> n = ''FALSE''"
| "constant_item _ = False"

definition rectangular :: "'a list list \<Rightarrow> bool" where
  "rectangular rows \<longleftrightarrow> rows \<noteq> [] \<and> hd rows \<noteq> [] \<and> (\<forall>row \<in> set rows. length row = length (hd rows))"

definition array_ok :: "'f ast list list \<Rightarrow> bool" where
  "array_ok rows \<longleftrightarrow> rectangular rows \<and> (\<forall>row \<in> set rows. \<forall>item \<in> set row. constant_item item)"

fun wf_ast :: "'f ast \<Rightarrow> bool" where
  "wf_ast (Unary kind e) \<longleftrightarrow> kind \<in> {''+'', ''-''} \<and> wf_ast e"
| "wf_ast (Percent e) = wf_ast e"
| "wf_ast (Bin kind l r) \<longleftrightarrow> op_prec kind \<noteq> 0 \<and> wf_ast l \<and> wf_ast r"
| "wf_ast (Func name args) \<longleftrightarrow> canonical_func_name name = name \<and> (\<forall>arg \<in> set args. wf_ast arg)"
| "wf_ast (Array rows) = array_ok rows"
| "wf_ast _ = True"

lemma canonical_func_name_idem: "canonical_func_name (canonical_func_name name) = canonical_func_name name"
proof (induction name rule: canonical_func_name.induct)
  case (1 name)
  show ?case
  proof (cases "find (startswith (py_lower name)) XL_FUNC_PREFIXES")
    case None
    then have "canonical_func_name name = name" by (subst canonical_func_name.simps) simp
    then show ?thesis by simp
  next
    case (Some matched)
    then have "canonical_func_name name = canonical_func_name (drop (length matched) name)"
      by (subst canonical_func_name.simps) simp
    with 1 Some show ?thesis by simp
  qed
qed

section \<open>The parser returns well-formed trees\<close>

definition yields :: "('a \<Rightarrow> bool) \<Rightarrow> ('a \<times> 'f tok list) result \<Rightarrow> bool" where
  "yields Q r \<longleftrightarrow> (\<forall>a rest. r = Inr (a, rest) \<longrightarrow> Q a)"

lemma yields_simps [simp]: "yields Q (Inr (a, rest)) = Q a" "yields Q (Inl e)"
  by (simp_all add: yields_def)

lemma yields_bind:
  assumes "yields P r" "\<And>a rest. P a \<Longrightarrow> yields Q (f (a, rest))"
  shows "yields Q (bind_result r f)"
proof (cases r)
  case (Inl e)
  then show ?thesis by simp
next
  case (Inr p)
  obtain a rest where p: "p = (a, rest)" by (cases p)
  with assms(1) Inr have "P a" by simp
  from assms(2) [OF this, of rest] show ?thesis by (simp add: Inr p)
qed

lemma array_number_yields: "yields constant_item (array_number v ts)"
  by (auto simp: array_number_def split: list.split tok.split)

lemma parse_array_item_yields: "yields constant_item (parse_array_item fo ts)"
  by (auto simp: parse_array_item_def array_number_yields split: list.split tok.split)

lemma array_loop_yields:
  assumes "rows \<noteq> []" "hd rows \<noteq> []" "\<forall>row \<in> set rows. \<forall>item \<in> set row. constant_item item"
  shows "yields (\<lambda>rows. rows \<noteq> [] \<and> hd rows \<noteq> [] \<and> (\<forall>row \<in> set rows. \<forall>item \<in> set row. constant_item item))
    (array_loop fo n rows ts)"
  using assms
proof (induction n arbitrary: rows ts)
  case 0
  then show ?case by simp
next
  case (Suc n)
  let ?Q = "\<lambda>rows :: 'a ast list list. rows \<noteq> [] \<and> hd rows \<noteq> [] \<and> (\<forall>row \<in> set rows. \<forall>item \<in> set row. constant_item item)"
  obtain us u where rows: "rows = us @ [u]" using Suc.prems(1) by (cases rows rule: rev_cases) auto
  have ext: "?Q (butlast rows @ [last rows @ [item]])" if "constant_item item" for item
    using that Suc.prems unfolding rows by (cases us) auto
  have row: "?Q (rows @ [[item]])" if "constant_item item" for item using that Suc.prems by auto
  have step: "yields ?Q (bind_result (parse_array_item fo us) (\<lambda>(item, rest). array_loop fo n (f item) rest))"
    if "\<And>item. constant_item item \<Longrightarrow> ?Q (f item)" for f us
  proof (rule yields_bind [OF parse_array_item_yields], unfold prod.case)
    fix item :: "'a ast" and rest :: "'a tok list" assume "constant_item item"
    then have "?Q (f item)" by (rule that)
    then show "yields ?Q (array_loop fo n (f item) rest)" by (intro Suc.IH) auto
  qed
  note steps = step [of "\<lambda>item. butlast rows @ [last rows @ [item]]", OF ext] step [of "\<lambda>item. rows @ [[item]]", OF row]
  show ?case
  proof (cases ts)
    case Nil
    then show ?thesis by simp
  next
    case (Cons t ts')
    with steps Suc.prems show ?thesis by (cases t) simp_all
  qed
qed

lemma card_one_lengths: "card (length ` set rows) = Suc 0 \<Longrightarrow> rows \<noteq> [] \<Longrightarrow> \<forall>row \<in> set rows. length row = length (hd rows)"
proof
  fix row assume c: "card (length ` set rows) = Suc 0" and "rows \<noteq> []" and row: "row \<in> set rows"
  from c obtain n where n: "length ` set rows = {n}" by (auto simp: card_1_singleton_iff)
  have "hd rows \<in> set rows" using \<open>rows \<noteq> []\<close> by simp
  then have "length (hd rows) = n" "length row = n" using n row by blast+
  then show "length row = length (hd rows)" by simp
qed

lemma parse_array_yields: "yields wf_ast (parse_array fo ts)"
proof (cases "\<exists>us. ts = LBRACE # us")
  case True
  then obtain us where ts: "ts = LBRACE # us" by blast
  show ?thesis
    unfolding ts parse_array_def list.case tok.case
  proof (rule yields_bind [OF parse_array_item_yields], unfold prod.case)
    fix item :: "'a ast" and rest :: "'a tok list" assume c: "constant_item item"
    have loop: "yields (\<lambda>rows. rows \<noteq> [] \<and> hd rows \<noteq> [] \<and> (\<forall>row \<in> set rows. \<forall>item \<in> set row. constant_item item))
        (array_loop fo (Suc (length rest)) [[item]] rest)"
      by (rule array_loop_yields) (use c in auto)
    show "yields wf_ast (bind_result (array_loop fo (Suc (length rest)) [[item]] rest) (\<lambda>(rows, rest).
        if card (length ` set rows) \<noteq> 1 then syntax_error ''ragged array constant'' else Inr (Array rows, rest)))"
    proof (rule yields_bind [OF loop], unfold prod.case)
      fix rows :: "'a ast list list" and rest :: "'a tok list"
      assume Q: "rows \<noteq> [] \<and> hd rows \<noteq> [] \<and> (\<forall>row \<in> set rows. \<forall>item \<in> set row. constant_item item)"
      show "yields wf_ast (if card (length ` set rows) \<noteq> 1 then syntax_error ''ragged array constant'' else Inr (Array rows, rest))"
      proof (cases "card (length ` set rows) = 1")
        case True
        then have "\<forall>row \<in> set rows. length row = length (hd rows)" using Q by (intro card_one_lengths) simp_all
        then have "array_ok rows" unfolding array_ok_def rectangular_def using Q by blast
        with True show ?thesis by simp
      next
        case False
        then show ?thesis by simp
      qed
    qed
  qed
next
  case False
  then show ?thesis by (auto simp: parse_array_def split: list.split tok.split)
qed

definition yielding :: "'f parser \<Rightarrow> bool" where
  "yielding p \<longleftrightarrow> (\<forall>ts. yields wf_ast (p ts))"

lemma args_loop_yields:
  assumes "yielding rec" "\<forall>arg \<in> set args. wf_ast arg"
  shows "yields (\<lambda>args. \<forall>arg \<in> set args. wf_ast arg) (args_loop rec n args ts)"
  using assms(2)
proof (induction n arbitrary: args ts)
  case 0
  then show ?case by simp
next
  case (Suc n)
  have "yields (\<lambda>args. \<forall>arg \<in> set args. wf_ast arg)
      (bind_result (rec us) (\<lambda>(arg, rest). args_loop rec n (args @ [arg]) rest))" for us
    using assms(1) Suc by (intro yields_bind [of wf_ast]) (auto simp: yielding_def)
  with Suc.prems show ?case by (auto split: list.split tok.split)
qed

lemma parse_call_yields:
  assumes "yielding rec"
  shows "yields wf_ast (parse_call rec name ts)"
proof -
  have args: "yields (\<lambda>args. \<forall>arg \<in> set args. wf_ast arg)
      (bind_result (rec us) (\<lambda>(arg, rest). args_loop rec (Suc (length rest)) [arg] rest))" for us
    using assms args_loop_yields [OF assms] by (intro yields_bind [of wf_ast]) (auto simp: yielding_def simp del: args_loop.simps)
  have wrap: "yields wf_ast (bind_result r (\<lambda>(args, rest). Inr (Func (canonical_func_name name) args, rest)))"
    if "yields (\<lambda>args. \<forall>arg \<in> set args. wf_ast arg) r" for r :: "('a ast list \<times> 'a tok list) result"
    using that by (rule yields_bind) (simp add: canonical_func_name_idem)
  show ?thesis
    unfolding parse_call_def
    by (auto intro!: wrap args simp: canonical_func_name_idem split: list.split tok.split simp del: args_loop.simps)
qed

lemma parse_primary_yields:
  assumes "yielding rec"
  shows "yielding (parse_primary fo rec)"
  unfolding yielding_def
proof
  fix ts :: "'a tok list"
  have par: "yields wf_ast (bind_result (rec us) (\<lambda>(node, rest).
        case rest of RPAREN # rest \<Rightarrow> Inr (node, rest) | _ \<Rightarrow> syntax_error ''unexpected token''))" for us
    using assms by (intro yields_bind [of wf_ast]) (auto simp: yielding_def split: list.split tok.split)
  have ref: "wf_ast (ref_ast v)" for v by (simp add: ref_ast_def split: ref_value.split)
  have nr: "yields wf_ast (parse_named_range v us)" for v us
    by (auto simp: parse_named_range_def split: list.split tok.split)
  show "yields wf_ast (parse_primary fo rec ts)"
    using par ref nr parse_call_yields [OF assms] parse_array_yields
    by (auto simp: parse_primary_def split: list.split tok.split)
qed

lemma parse_unary_yields:
  assumes "yielding rec"
  shows "yielding (parse_unary fo rec)"
  unfolding yielding_def
proof
  fix ts :: "'a tok list"
  have post: "yields wf_ast (parse_postfix fo rec us)" for us
    using parse_primary_yields [OF assms] unfolding parse_postfix_def
    by (intro yields_bind [of wf_ast]) (auto simp: yielding_def split: list.split tok.split)
  show "yields wf_ast (parse_unary fo rec ts)"
  proof (induction ts)
    case Nil
    with post show ?case by simp
  next
    case (Cons t us)
    have "yields wf_ast (bind_result (parse_unary fo rec us) (\<lambda>(expr, rest). Inr (Unary op expr, rest)))"
      if "op \<in> {''+'', ''-''}" for op
      using that by (intro yields_bind [OF Cons.IH]) auto
    with post show ?case by auto
  qed
qed

lemma parse_pow_yields:
  assumes "yielding rec"
  shows "yielding (parse_pow fo rec)"
proof -
  have "yields wf_ast (parse_pow_fuel fo rec n ts)" for n ts
  proof (induction n arbitrary: ts)
    case 0
    then show ?case by simp
  next
    case (Suc n)
    have "yields wf_ast (bind_result (parse_pow_fuel fo rec n us) (\<lambda>(right, rest). Inr (Bin ''^'' node right, rest)))"
      if "wf_ast node" for node us
      using that by (intro yields_bind [OF Suc]) (auto simp: op_prec_def)
    then show ?case
      unfolding parse_pow_fuel.simps using parse_unary_yields [OF assms]
      by (intro yields_bind [of wf_ast]) (auto simp: yielding_def split: list.split tok.split)
  qed
  then show ?thesis by (simp add: yielding_def parse_pow_def del: parse_pow_fuel.simps)
qed

lemma left_level_yields:
  assumes "yielding sub" "\<forall>v \<in> ops. op_prec v \<noteq> 0"
  shows "yielding (left_level ops sub)"
proof -
  have loop: "yields wf_ast (left_loop ops sub n node ts)" if "wf_ast node" for n node ts
    using that
  proof (induction n arbitrary: node ts)
    case 0
    then show ?case by simp
  next
    case (Suc n)
    have "yields wf_ast (bind_result (sub us) (\<lambda>(right, rest). left_loop ops sub n (Bin v node right) rest))"
      if "v \<in> ops" for v us
      using that assms Suc by (intro yields_bind [of wf_ast]) (auto simp: yielding_def)
    with Suc.prems show ?case by (auto split: list.split tok.split)
  qed
  show ?thesis
    unfolding yielding_def left_level_def
    using assms(1) loop by (auto intro!: yields_bind [of wf_ast] simp: yielding_def simp del: left_loop.simps)
qed

lemma parse_expr_yields: "yielding (parse_expr fo n)"
proof (induction n)
  case 0
  then show ?case by (simp add: yielding_def)
next
  case (Suc n)
  have "yielding (parse_concat fo (parse_expr fo n))"
    unfolding parse_concat_def parse_compare_def parse_add_def parse_mul_def
    by (intro left_level_yields parse_pow_yields [OF Suc]) (auto simp: op_prec_def)
  then show ?case by (simp add: yielding_def)
qed

lemma parse_tokens_wf: "parse_tokens fo ts = Inr a \<Longrightarrow> wf_ast a"
  using parse_expr_yields [of fo "Suc (length ts)"]
  by (auto simp: parse_tokens_def bind_result_Inr_iff yielding_def yields_def simp del: parse_expr.simps split: if_splits)


section \<open>Printing with the fewest parentheses\<close>

fun tok_join :: "'f tok \<Rightarrow> 'f tok list list \<Rightarrow> 'f tok list" where
  "tok_join sep [] = []"
| "tok_join sep [x] = x"
| "tok_join sep (x # y # xs) = x @ sep # tok_join sep (y # xs)"

fun item_toks :: "'f ast \<Rightarrow> 'f tok list" where
  "item_toks (Num v) = [NUMBER v]"
| "item_toks (Percent (Num v)) = [NUMBER v, OP ''%'']"
| "item_toks (Str s) = [STRING s]"
| "item_toks (Err e) = [ERROR e]"
| "item_toks (Name n) = [NAME n]"
| "item_toks _ = []"

definition wrap :: "bool \<Rightarrow> 'f tok list \<Rightarrow> 'f tok list" where
  "wrap b ts = (if b then LPAREN # ts @ [RPAREN] else ts)"

text \<open>
  The tokens of a tree in a place that asks for precedence \<open>k\<close>: 1 is a whole expression, 6 the
  operand of a sign, 8 a primary. The exponent operator is right associative, the others left.
\<close>

fun toks :: "nat \<Rightarrow> 'f ast \<Rightarrow> 'f tok list" where
  "toks k (Num v) = [NUMBER v]"
| "toks k (Str s) = [STRING s]"
| "toks k (Err e) = [ERROR e]"
| "toks k (Name n) = [NAME n]"
| "toks k (RefAst n) = [REF (RefV n)]"
| "toks k (NamedRange a b) = [NAME a, COLON, NAME b]"
| "toks k (Unary v e) = wrap (6 < k) (OP v # toks 6 e)"
| "toks k (Percent e) = wrap (7 < k) (toks 8 e @ [OP ''%''])"
| "toks k (Bin v l r) = wrap (op_prec v < k)
     (if v = ''^'' then toks 6 l @ OP v # toks 5 r else toks (op_prec v) l @ OP v # toks (Suc (op_prec v)) r)"
| "toks k (Func name args) = NAME name # LPAREN # tok_join SEP (map (toks 1) args) @ [RPAREN]"
| "toks k (Array rows) = LBRACE # tok_join ROWSEP (map (\<lambda>row. tok_join SEP (map item_toks row)) rows) @ [RBRACE]"

section \<open>Levels of the grammar\<close>

definition level_ops :: "nat \<Rightarrow> string set" where
  "level_ops k =
     (if k = 1 then {''&''}
      else if k = 2 then {''='', ''<>'', ''<'', ''>'', ''<='', ''>=''}
      else if k = 3 then {''+'', ''-''}
      else if k = 4 then {''*'', ''/''}
      else {})"

definition level :: "'f float_ops \<Rightarrow> 'f parser \<Rightarrow> nat \<Rightarrow> 'f parser" where
  "level fo rec k =
     (if k = 1 then parse_concat fo rec
      else if k = 2 then parse_compare fo rec
      else if k = 3 then parse_add fo rec
      else if k = 4 then parse_mul fo rec
      else if k = 5 then parse_pow fo rec
      else if k = 6 then parse_unary fo rec
      else if k = 7 then parse_postfix fo rec
      else parse_primary fo rec)"

lemma level_ops_prec: "1 \<le> k \<Longrightarrow> k \<le> 4 \<Longrightarrow> v \<in> level_ops k \<longleftrightarrow> op_prec v = k"
proof -
  assume "1 \<le> k" "k \<le> 4"
  then consider "k = 1" | "k = 2" | "k = 3" | "k = 4" by linarith
  then show ?thesis by cases (auto simp: level_ops_def op_prec_def)
qed

lemma level_left:
  assumes "1 \<le> k" "k \<le> 4"
  shows "level fo rec k = left_level (level_ops k) (level fo rec (Suc k))"
proof -
  from assms consider "k = 1" | "k = 2" | "k = 3" | "k = 4" by linarith
  then show ?thesis
    by cases (simp_all add: level_def level_ops_def parse_concat_def parse_compare_def parse_add_def parse_mul_def)
qed

lemma level_good:
  assumes "goodlt n rec"
  shows "goodlt (Suc n) (level fo rec k)"
  using assms unfolding level_def parse_concat_def parse_compare_def parse_add_def parse_mul_def
  by (auto intro!: left_level_good parse_pow_good parse_unary_good parse_postfix_good parse_primary_good)

section \<open>Fuel does not matter once it is enough\<close>

lemma left_loop_fuel:
  assumes "goodlt k sub"
  shows "length ts < n \<Longrightarrow> length ts < n' \<Longrightarrow> length ts \<le> k \<Longrightarrow>
    left_loop ops sub n node ts = left_loop ops sub n' node ts"
proof (induction n arbitrary: n' node ts)
  case 0
  then show ?case by simp
next
  case (Suc n)
  obtain m where m: "n' = Suc m" using Suc.prems(2) by (cases n') auto
  show ?case
  proof (cases "\<exists>v us. ts = OP v # us")
    case True
    then obtain v us where ts: "ts = OP v # us" by blast
    have "fits (length us) (sub us)" using Suc.prems ts by (intro goodltD [OF assms]) simp
    then have "bind_result (sub us) (\<lambda>(right, rest). left_loop ops sub n (Bin v node right) rest) =
        bind_result (sub us) (\<lambda>(right, rest). left_loop ops sub m (Bin v node right) rest)"
    proof (intro bind_result_cong refl)
      fix p assume "sub us = Inr p"
      obtain right rest where p: "p = (right, rest)" by (cases p)
      with \<open>fits (length us) (sub us)\<close> \<open>sub us = Inr p\<close> have "length rest < length us" by simp
      with Suc.prems ts m have "left_loop ops sub n (Bin v node right) rest = left_loop ops sub m (Bin v node right) rest"
        by (intro Suc.IH) auto
      then show "(case p of (right, rest) \<Rightarrow> left_loop ops sub n (Bin v node right) rest) =
          (case p of (right, rest) \<Rightarrow> left_loop ops sub m (Bin v node right) rest)" by (simp add: p)
    qed
    with ts m show ?thesis by simp
  next
    case False
    then show ?thesis by (auto simp: m split: list.split tok.split)
  qed
qed

lemma parse_pow_fuel_enough:
  assumes "goodlt k rec"
  shows "length ts < n \<Longrightarrow> length ts \<le> k \<Longrightarrow> parse_pow_fuel fo rec n ts = parse_pow fo rec ts"
proof -
  have "length ts < n \<Longrightarrow> length ts < n' \<Longrightarrow> length ts \<le> k \<Longrightarrow>
      parse_pow_fuel fo rec n ts = parse_pow_fuel fo rec n' ts" for n n' ts
  proof (induction n arbitrary: n' ts)
    case 0
    then show ?case by simp
  next
    case (Suc n)
    obtain m where m: "n' = Suc m" using Suc.prems(2) by (cases n') auto
    have fit: "fits (length ts) (parse_unary fo rec ts)"
      using Suc.prems by (intro goodltD [OF parse_unary_good [OF assms]]) simp
    show ?case
      unfolding m parse_pow_fuel.simps
    proof (intro bind_result_cong refl)
      fix p assume "parse_unary fo rec ts = Inr p"
      obtain node rest where p: "p = (node, rest)" by (cases p)
      with fit \<open>parse_unary fo rec ts = Inr p\<close> have len: "length rest < length ts" by simp
      have eq: "parse_pow_fuel fo rec n r2 = parse_pow_fuel fo rec m r2" if "length r2 < length rest" for r2
        using that len Suc.prems m by (intro Suc.IH) auto
      show "(case p of (node, rest) \<Rightarrow> (case rest of OP v # rest2 \<Rightarrow>
            if v = ''^'' then bind_result (parse_pow_fuel fo rec n rest2) (\<lambda>(right, rest). Inr (Bin ''^'' node right, rest))
            else Inr (node, rest) | _ \<Rightarrow> Inr (node, rest))) =
          (case p of (node, rest) \<Rightarrow> (case rest of OP v # rest2 \<Rightarrow>
            if v = ''^'' then bind_result (parse_pow_fuel fo rec m rest2) (\<lambda>(right, rest). Inr (Bin ''^'' node right, rest))
            else Inr (node, rest) | _ \<Rightarrow> Inr (node, rest)))"
        unfolding p prod.case using eq by (auto split: list.split tok.split)
    qed
  qed
  then show "length ts < n \<Longrightarrow> length ts \<le> k \<Longrightarrow> ?thesis" unfolding parse_pow_def by blast
qed

section \<open>Reading a printed tree\<close>

definition op_bound :: "nat \<Rightarrow> nat" where
  "op_bound k = (if k \<le> 4 then k else if k = 5 then 4 else if k \<le> 7 then 5 else 7)"

definition op_level :: "string \<Rightarrow> nat" where
  "op_level v = (if v = ''%'' then 7 else op_prec v)"

text \<open>What may follow at a level: a closing token, or an operator that binds no tighter.\<close>

definition stops :: "nat \<Rightarrow> 'f tok list \<Rightarrow> bool" where
  "stops k S \<longleftrightarrow> (case S of [] \<Rightarrow> True | RPAREN # _ \<Rightarrow> True | SEP # _ \<Rightarrow> True
     | OP v # _ \<Rightarrow> op_level v \<le> op_bound k | _ \<Rightarrow> False)"

definition closing :: "'f tok list \<Rightarrow> bool" where
  "closing S \<longleftrightarrow> (case S of [] \<Rightarrow> True | RPAREN # _ \<Rightarrow> True | SEP # _ \<Rightarrow> True | _ \<Rightarrow> False)"

definition read_result :: "'f float_ops \<Rightarrow> 'f parser \<Rightarrow> nat \<Rightarrow> 'f ast \<Rightarrow> 'f parser" where
  "read_result fo rec k a S =
     (if k \<le> 4 then left_loop (level_ops k) (level fo rec (Suc k)) (Suc (length S)) a S else Inr (a, S))"

definition reads :: "'f float_ops \<Rightarrow> 'f parser \<Rightarrow> nat \<Rightarrow> nat \<Rightarrow> 'f tok list \<Rightarrow> 'f ast \<Rightarrow> bool" where
  "reads fo rec n k ts a \<longleftrightarrow>
     (\<forall>S. stops k S \<longrightarrow> length (ts @ S) \<le> n \<longrightarrow> level fo rec k (ts @ S) = read_result fo rec k a S)"

text \<open>A nested parser that consumes, and reads whole printed expressions of fewer than \<open>n\<close> tokens.\<close>

definition nested :: "'f float_ops \<Rightarrow> nat \<Rightarrow> 'f parser \<Rightarrow> bool" where
  "nested fo n rec \<longleftrightarrow> goodlt n rec \<and>
     (\<forall>b S. wf_ast b \<longrightarrow> closing S \<longrightarrow> length (toks 1 b @ S) < n \<longrightarrow> rec (toks 1 b @ S) = Inr (b, S))"

lemma stops_mono: "stops j S \<Longrightarrow> op_bound j \<le> op_bound k \<Longrightarrow> stops k S"
  by (auto simp: stops_def split: list.splits tok.splits)

lemma closing_stops: "closing S \<Longrightarrow> stops k S"
  by (auto simp: closing_def stops_def split: list.splits tok.splits)

lemma op_bound_Suc: "1 \<le> k \<Longrightarrow> k < 8 \<Longrightarrow> op_bound k \<le> op_bound (Suc k)"
  by (auto simp: op_bound_def)

text \<open>An operator of a looser level, or none, ends the loop of a level.\<close>

lemma left_loop_stops:
  assumes "stops j S" "j < k" "1 \<le> k" "k \<le> 4"
  shows "left_loop (level_ops k) sub (Suc m) a S = Inr (a, S)"
proof (cases "\<exists>v us. S = OP v # us")
  case True
  then obtain v us where S: "S = OP v # us" by blast
  with assms(1) have "op_level v \<le> op_bound j" by (simp add: stops_def)
  with assms(2-4) have "op_prec v \<noteq> k" by (auto simp: op_level_def op_bound_def op_prec_def split: if_splits)
  then have "v \<notin> level_ops k" using level_ops_prec [OF assms(3,4)] by simp
  with S show ?thesis by simp
next
  case False
  then show ?thesis by (auto split: list.split tok.split)
qed

lemma read_result_stops:
  assumes "stops j S" "j < k" "1 \<le> k"
  shows "read_result fo rec k a S = Inr (a, S)"
  using left_loop_stops [OF assms(1,2)] assms(3) by (auto simp: read_result_def simp del: left_loop.simps)


definition plain_start :: "'f tok list \<Rightarrow> bool" where
  "plain_start ts \<longleftrightarrow> (case ts of [] \<Rightarrow> False | OP _ # _ \<Rightarrow> False | _ \<Rightarrow> True)"

lemma parse_unary_plain: "plain_start ts \<Longrightarrow> parse_unary fo rec (ts @ S) = parse_postfix fo rec (ts @ S)"
  by (auto simp: plain_start_def split: list.splits tok.splits)

text \<open>What is read at a level is read at the next looser one.\<close>

lemma reads_descend:
  assumes r: "reads fo rec n (Suc k) ts a" and k: "1 \<le> k" "k < 8" and plain: "k = 6 \<longrightarrow> plain_start ts"
  shows "reads fo rec n k ts a"
  unfolding reads_def
proof (intro allI impI)
  fix S :: "'a tok list" assume S: "stops k S" and len: "length (ts @ S) \<le> n"
  have S': "stops (Suc k) S" using S op_bound_Suc [OF k] by (rule stops_mono)
  have up: "level fo rec (Suc k) (ts @ S) = Inr (a, S)"
    using r S' len read_result_stops [OF S, of "Suc k" fo rec a] by (simp add: reads_def)
  consider "k \<le> 4" | "k = 5" | "k = 6" | "k = 7" using k by linarith
  then show "level fo rec k (ts @ S) = read_result fo rec k a S"
  proof cases
    case 1
    with up k show ?thesis by (simp add: level_left left_level_def read_result_def del: left_loop.simps)
  next
    case 2
    with up have un: "parse_unary fo rec (ts @ S) = Inr (a, S)" by (simp add: level_def)
    have hat: "v \<noteq> ''^''" if "S = OP v # us" for v us
      using S 2 that by (auto simp: stops_def op_level_def op_bound_def op_prec_def split: if_splits)
    have "parse_pow fo rec (ts @ S) = Inr (a, S)"
      unfolding parse_pow_def parse_pow_fuel.simps un bind_result_simps prod.case
      using hat by (auto split: list.split tok.split)
    with 2 show ?thesis by (simp add: level_def read_result_def)
  next
    case 3
    with up plain show ?thesis by (simp add: level_def read_result_def parse_unary_plain)
  next
    case 4
    with up have pr: "parse_primary fo rec (ts @ S) = Inr (a, S)" by (simp add: level_def)
    have pct: "v \<noteq> ''%''" if "S = OP v # us" for v us
      using S 4 that by (auto simp: stops_def op_level_def op_bound_def)
    have "parse_postfix fo rec (ts @ S) = Inr (a, S)"
      unfolding parse_postfix_def pr bind_result_simps prod.case using pct by (auto split: list.split tok.split)
    with 4 show ?thesis by (simp add: level_def read_result_def)
  qed
qed

lemma reads_down:
  assumes "reads fo rec n j ts a" "1 \<le> k" "k \<le> j" "j \<le> 8" "6 < j \<longrightarrow> plain_start ts"
  shows "reads fo rec n k ts a"
  using assms(3,2)
proof (induction k rule: inc_induct)
  case base
  show ?case by (rule assms(1))
next
  case (step i)
  show ?case
  proof (rule reads_descend [OF step.IH])
    show "i = 6 \<longrightarrow> plain_start ts" using step.hyps assms(5) by simp
  qed (use step assms(4) in auto)
qed

lemma reads_paren:
  assumes "nested fo n rec" "wf_ast a"
  shows "reads fo rec n 8 (LPAREN # toks 1 a @ [RPAREN]) a"
  unfolding reads_def
proof (intro allI impI)
  fix S :: "'a tok list" assume len: "length ((LPAREN # toks 1 a @ [RPAREN]) @ S) \<le> n"
  have "rec (toks 1 a @ RPAREN # S) = Inr (a, RPAREN # S)"
    using assms len by (auto simp: nested_def closing_def)
  then show "level fo rec 8 ((LPAREN # toks 1 a @ [RPAREN]) @ S) = read_result fo rec 8 a S"
    by (simp add: level_def read_result_def parse_primary_def)
qed

text \<open>From the level of the tree's own operator to any level.\<close>

lemma reads_wrap:
  assumes nested: "nested fo n rec" and wf: "wf_ast a" and own: "reads fo rec n p body a"
    and p: "1 \<le> p" "p \<le> 8" "6 < p \<longrightarrow> plain_start body" and body: "toks 1 a = body" and k: "1 \<le> k" "k \<le> 8"
  shows "reads fo rec n k (wrap (p < k) body) a"
proof (cases "p < k")
  case True
  have "plain_start (LPAREN # body @ [RPAREN])" by (simp add: plain_start_def)
  with reads_down [OF reads_paren [OF nested wf], of k] k body True show ?thesis by (simp add: wrap_def)
next
  case False
  with reads_down [OF own k(1)] p show ?thesis by (simp add: wrap_def)
qed

lemma toks_start: "wf_ast a \<Longrightarrow> \<exists>t ts. toks k a = t # ts \<and> t \<noteq> RPAREN"
proof (induction a arbitrary: k)
  case (Percent e)
  from Percent.IH [of 8] Percent.prems show ?case by (auto simp: wrap_def)
next
  case (Bin v l r)
  from Bin.IH(1) [of 6] Bin.IH(1) [of "op_prec v"] Bin.prems show ?case by (auto simp: wrap_def)
qed (auto simp: wrap_def)

lemma toks_plain: "plain_start (toks 8 e @ us)"
  by (cases e) (auto simp: plain_start_def wrap_def op_prec_def)

section \<open>Argument lists and arrays\<close>

lemma tok_join_Cons: "tok_join sep (x # xs) = x @ concat (map (\<lambda>y. sep # y) xs)"
  by (induction xs arbitrary: x) simp_all

lemma args_loop_reads:
  assumes "nested fo n rec"
  shows "\<forall>arg \<in> set args. wf_ast arg \<Longrightarrow>
    length (concat (map (\<lambda>b. SEP # toks 1 b) args) @ RPAREN # S) \<le> n \<Longrightarrow> length args < m \<Longrightarrow>
    args_loop rec m acc (concat (map (\<lambda>b. SEP # toks 1 b) args) @ RPAREN # S) = Inr (acc @ args, S)"
proof (induction args arbitrary: m acc)
  case Nil
  then show ?case by (cases m) simp_all
next
  case (Cons b args)
  let ?T = "concat (map (\<lambda>b. SEP # toks 1 b) args) @ RPAREN # S"
  obtain m' where m: "m = Suc m'" using Cons.prems(3) by (cases m) auto
  have "closing ?T" by (cases args) (simp_all add: closing_def)
  then have "rec (toks 1 b @ ?T) = Inr (b, ?T)" using assms Cons.prems(1,2) by (auto simp: nested_def)
  with Cons.IH [of m' "acc @ [b]"] Cons.prems m show ?case by simp
qed

lemma length_concat_ge: "length args \<le> length (concat (map (\<lambda>b. sep # f b) args))"
  by (induction args) auto

lemma reads_func:
  assumes nested: "nested fo n rec" and wf: "wf_ast (Func name args)"
  shows "reads fo rec n 8 (toks 8 (Func name args)) (Func name args)"
  unfolding reads_def
proof (intro allI impI)
  fix S :: "'a tok list" assume len: "length (toks 8 (Func name args) @ S) \<le> n"
  have name: "canonical_func_name name = name" and args: "\<forall>arg \<in> set args. wf_ast arg" using wf by simp_all
  show "level fo rec 8 (toks 8 (Func name args) @ S) = read_result fo rec 8 (Func name args) S"
  proof (cases args)
    case Nil
    then show ?thesis using name by (simp add: level_def read_result_def parse_primary_def parse_call_def)
  next
    case (Cons b bs)
    let ?T = "concat (map (\<lambda>b. SEP # toks 1 b) bs) @ RPAREN # S"
    have toks: "toks 8 (Func name args) @ S = NAME name # LPAREN # toks 1 b @ ?T"
      by (simp add: Cons tok_join_Cons comp_def)
    have "closing ?T" by (cases bs) (simp_all add: closing_def)
    moreover have "length (toks 1 b @ ?T) < n" using len unfolding toks by simp
    moreover have "wf_ast b" using args Cons by simp
    ultimately have first: "rec (toks 1 b @ ?T) = Inr (b, ?T)" using nested by (simp add: nested_def)
    have loop: "args_loop rec (Suc (length ?T)) [b] ?T = Inr ([b] @ bs, S)"
      using args Cons len length_concat_ge [of bs SEP "toks 1"] unfolding toks
      by (intro args_loop_reads [OF nested]) auto
    obtain t ts where t: "toks 1 b @ ?T = t # ts" "t \<noteq> RPAREN" using toks_start [OF \<open>wf_ast b\<close>, of 1] by auto
    have "parse_call rec name (LPAREN # toks 1 b @ ?T) = Inr (Func name args, S)"
      using first loop t unfolding parse_call_def list.case tok.case t(1)
      by (cases t) (simp_all add: name Cons del: args_loop.simps)
    then show ?thesis unfolding toks by (simp add: level_def read_result_def parse_primary_def)
  qed
qed

definition no_percent :: "'f tok list \<Rightarrow> bool" where
  "no_percent T \<longleftrightarrow> (\<forall>us. T \<noteq> OP ''%'' # us)"

lemma array_item_reads:
  assumes "constant_item i" "no_percent T"
  shows "parse_array_item fo (item_toks i @ T) = Inr (i, T)"
proof -
  have num: "array_number v T = Inr (Num v, T)" for v
    using assms(2) by (auto simp: array_number_def no_percent_def split: list.split tok.split)
  have pct: "array_number v (OP ''%'' # T) = Inr (Percent (Num v), T)" for v by (simp add: array_number_def)
  have t: "py_upper ''TRUE'' = ''TRUE''" "py_upper ''FALSE'' = ''FALSE''" by code_simp+
  show ?thesis
    using assms(1) by (cases i rule: constant_item.cases) (auto simp: parse_array_item_def num t pct)
qed

lemma array_loop_more: "array_loop fo n rows ts = Inr x \<Longrightarrow> n \<le> n' \<Longrightarrow> array_loop fo n' rows ts = Inr x"
proof (induction n arbitrary: n' rows ts)
  case 0
  then show ?case by simp
next
  case (Suc n)
  obtain m where m: "n' = Suc m" "n \<le> m" using Suc.prems(2) by (cases n') auto
  show ?case
  proof (cases ts)
    case Nil
    with Suc.prems(1) show ?thesis by simp
  next
    case (Cons t us)
    with Suc m show ?thesis
      by (cases t) (auto simp: bind_result_Inr_iff)
  qed
qed

lemma array_row_reads:
  assumes "\<forall>i \<in> set items. constant_item i" "no_percent T"
  shows "array_loop fo (length items + m) (rows @ [cur]) (concat (map (\<lambda>i. SEP # item_toks i) items) @ T) =
    array_loop fo m (rows @ [cur @ items]) T"
  using assms(1)
proof (induction items arbitrary: cur)
  case Nil
  then show ?case by simp
next
  case (Cons i items)
  let ?T = "concat (map (\<lambda>i. SEP # item_toks i) items) @ T"
  have "no_percent ?T" using assms(2) by (cases items) (simp_all add: no_percent_def)
  then have "parse_array_item fo (item_toks i @ ?T) = Inr (i, ?T)" using Cons.prems by (intro array_item_reads) simp_all
  with Cons.IH [of "cur @ [i]"] Cons.prems show ?case by simp
qed

lemma array_rows_read:
  assumes "\<forall>row \<in> set later. row \<noteq> [] \<and> (\<forall>i \<in> set row. constant_item i)"
  shows "array_loop fo (length (concat later) + Suc m) rows
      (concat (map (\<lambda>row. ROWSEP # tok_join SEP (map item_toks row)) later) @ RBRACE # S) = Inr (rows @ later, S)"
  using assms
proof (induction later arbitrary: rows)
  case Nil
  then show ?case by simp
next
  case (Cons row later)
  let ?T = "concat (map (\<lambda>row. ROWSEP # tok_join SEP (map item_toks row)) later) @ RBRACE # S"
  obtain i items where row: "row = i # items" using Cons.prems by (cases row) auto
  have T: "no_percent ?T" by (cases later) (simp_all add: no_percent_def)
  let ?R = "concat (map (\<lambda>i. SEP # item_toks i) items) @ ?T"
  have "no_percent ?R" using T by (cases items) (simp_all add: no_percent_def)
  then have first: "parse_array_item fo (item_toks i @ ?R) = Inr (i, ?R)"
    using Cons.prems row by (intro array_item_reads) simp_all
  have rest: "array_loop fo (length items + (length (concat later) + Suc m)) (rows @ [[i]]) ?R =
      array_loop fo (length (concat later) + Suc m) (rows @ [[i] @ items]) ?T"
    using Cons.prems row T by (intro array_row_reads) simp_all
  have fuel: "length (concat (row # later)) + Suc m = Suc (length items + (length (concat later) + Suc m))" by (simp add: row)
  have toks: "concat (map (\<lambda>row. ROWSEP # tok_join SEP (map item_toks row)) (row # later)) @ RBRACE # S = ROWSEP # item_toks i @ ?R"
    by (simp add: row tok_join_Cons comp_def)
  show ?case
    unfolding fuel toks array_loop.simps list.case tok.case first bind_result_simps prod.case rest
    using Cons.IH [of "rows @ [[i] @ items]"] Cons.prems by (simp add: row)
qed


lemma length_item_toks: "constant_item i \<Longrightarrow> 1 \<le> length (item_toks i)"
  by (cases i rule: constant_item.cases) auto

lemma length_row_toks:
  assumes "\<forall>i \<in> set items. constant_item i"
  shows "length items \<le> length (tok_join SEP (map item_toks items))"
proof (cases items)
  case Nil
  then show ?thesis by simp
next
  case (Cons i js)
  have "length js \<le> length (concat (map (\<lambda>i. SEP # item_toks i) js))" by (rule length_concat_ge)
  with Cons assms length_item_toks [of i] show ?thesis by (simp add: tok_join_Cons comp_def)
qed

lemma length_rows_toks:
  assumes "\<forall>row \<in> set rows. \<forall>i \<in> set row. constant_item i"
  shows "length (concat rows) \<le> length (concat (map (\<lambda>row. ROWSEP # tok_join SEP (map item_toks row)) rows))"
  using assms
proof (induction rows)
  case Nil
  then show ?case by simp
next
  case (Cons row rows)
  with length_row_toks [of row] show ?case by simp
qed

lemma reads_array:
  assumes "array_ok rows"
  shows "reads fo rec n 8 (toks 8 (Array rows)) (Array rows)"
  unfolding reads_def
proof (intro allI impI)
  fix S :: "'a tok list"
  from assms obtain row later where rows: "rows = row # later" by (cases rows) (auto simp: array_ok_def rectangular_def)
  have rect: "\<forall>r \<in> set rows. length r = length row" "row \<noteq> []" using assms rows by (auto simp: array_ok_def rectangular_def)
  then obtain i items where row: "row = i # items" by (cases row) auto
  have const: "\<forall>r \<in> set rows. \<forall>i \<in> set r. constant_item i" using assms by (simp add: array_ok_def)
  have later: "\<forall>r \<in> set later. r \<noteq> [] \<and> (\<forall>i \<in> set r. constant_item i)" using rect const rows row by fastforce
  let ?T = "concat (map (\<lambda>row. ROWSEP # tok_join SEP (map item_toks row)) later) @ RBRACE # S"
  let ?R = "concat (map (\<lambda>i. SEP # item_toks i) items) @ ?T"
  have toks: "toks 8 (Array rows) @ S = LBRACE # item_toks i @ ?R" by (simp add: rows row tok_join_Cons comp_def)
  have T: "no_percent ?T" by (cases later) (simp_all add: no_percent_def)
  then have "no_percent ?R" by (cases items) (simp_all add: no_percent_def)
  then have first: "parse_array_item fo (item_toks i @ ?R) = Inr (i, ?R)" using const rows row by (intro array_item_reads) simp_all
  have "array_loop fo (length items + (length (concat later) + Suc 0)) ([] @ [[i]]) ?R =
      array_loop fo (length (concat later) + Suc 0) ([] @ [[i] @ items]) ?T"
    using const rows row T by (intro array_row_reads) simp_all
  also have "\<dots> = Inr (([] @ [[i] @ items]) @ later, S)" by (rule array_rows_read [OF later])
  finally have loop: "array_loop fo (length items + (length (concat later) + Suc 0)) [[i]] ?R = Inr (rows, S)"
    by (simp add: rows row)
  have "length items + (length (concat later) + Suc 0) \<le> Suc (length ?R)"
    using length_concat_ge [of items SEP item_toks] length_rows_toks [of later] later by simp
  from array_loop_more [OF loop this] have full: "array_loop fo (Suc (length ?R)) [[i]] ?R = Inr (rows, S)" .
  have "length ` set rows = {length row}" using rect(1) rows by auto
  then have "card (length ` set rows) = 1" by simp
  with first full have "parse_array fo (LBRACE # item_toks i @ ?R) = Inr (Array rows, S)"
    by (simp add: parse_array_def del: array_loop.simps)
  then show "level fo rec 8 (toks 8 (Array rows) @ S) = read_result fo rec 8 (Array rows) S"
    unfolding toks by (simp add: level_def read_result_def parse_primary_def)
qed

section \<open>Every printed tree is read\<close>

lemma reads_atom:
  assumes "\<And>S. stops 8 S \<Longrightarrow> parse_primary fo rec (ts @ S) = Inr (a, S)"
  shows "reads fo rec n 8 ts a"
  using assms by (simp add: reads_def level_def read_result_def)

lemma reads_pow:
  assumes nested: "nested fo n rec" and l: "reads fo rec n 6 (toks 6 l) l" and r: "reads fo rec n 5 (toks 5 r) r"
  shows "reads fo rec n 5 (toks 6 l @ OP ''^'' # toks 5 r) (Bin ''^'' l r)"
  unfolding reads_def
proof (intro allI impI)
  fix S :: "'a tok list" assume S: "stops 5 S" and len: "length ((toks 6 l @ OP ''^'' # toks 5 r) @ S) \<le> n"
  let ?R = "OP ''^'' # toks 5 r @ S"
  have "stops 6 ?R" by (simp add: stops_def op_level_def op_bound_def op_prec_def)
  with l len have un: "parse_unary fo rec (toks 6 l @ ?R) = Inr (l, ?R)"
    by (simp add: reads_def level_def read_result_def)
  have good: "goodlt n rec" using nested by (simp add: nested_def)
  have "parse_pow_fuel fo rec (length (toks 6 l @ ?R)) (toks 5 r @ S) = parse_pow fo rec (toks 5 r @ S)"
    using len by (intro parse_pow_fuel_enough [OF good]) simp_all
  also have "\<dots> = Inr (r, S)" using r S len by (simp add: reads_def level_def read_result_def)
  finally have "parse_pow fo rec (toks 6 l @ ?R) = Inr (Bin ''^'' l r, S)"
    unfolding parse_pow_def parse_pow_fuel.simps un bind_result_simps prod.case list.case tok.case by simp
  then show "level fo rec 5 ((toks 6 l @ OP ''^'' # toks 5 r) @ S) = read_result fo rec 5 (Bin ''^'' l r) S"
    by (simp add: level_def read_result_def)
qed

lemma reads_left:
  assumes nested: "nested fo n rec" and p: "1 \<le> p" "p \<le> 4" "op_prec v = p"
    and l: "reads fo rec n p (toks p l) l" and r: "reads fo rec n (Suc p) (toks (Suc p) r) r"
  shows "reads fo rec n p (toks p l @ OP v # toks (Suc p) r) (Bin v l r)"
  unfolding reads_def
proof (intro allI impI)
  fix S :: "'a tok list" assume S: "stops p S" and len: "length ((toks p l @ OP v # toks (Suc p) r) @ S) \<le> n"
  let ?R = "OP v # toks (Suc p) r @ S"
  let ?sub = "level fo rec (Suc p)"
  have pct: "v \<noteq> ''%''" using p by (auto simp: op_prec_def)
  have "stops p ?R" using p pct by (simp add: stops_def op_level_def op_bound_def)
  with l len have left: "level fo rec p (toks p l @ ?R) = left_loop (level_ops p) ?sub (Suc (length ?R)) l ?R"
    using p by (simp add: reads_def read_result_def del: left_loop.simps)
  have "stops (Suc p) S" using S op_bound_Suc [of p] p by (auto intro: stops_mono)
  with r len read_result_stops [OF S, of "Suc p" fo rec r] have right: "?sub (toks (Suc p) r @ S) = Inr (r, S)"
    by (simp add: reads_def)
  have v: "v \<in> level_ops p" using level_ops_prec [OF p(1,2)] p(3) by simp
  have good: "goodlt (Suc n) ?sub" using nested by (intro level_good) (simp add: nested_def)
  have "left_loop (level_ops p) ?sub (length ?R) (Bin v l r) S = left_loop (level_ops p) ?sub (Suc (length S)) (Bin v l r) S"
    using len by (intro left_loop_fuel [OF good]) auto
  then have "level fo rec p (toks p l @ ?R) = left_loop (level_ops p) ?sub (Suc (length S)) (Bin v l r) S"
    unfolding left by (simp only: left_loop.simps list.case tok.case v if_True right bind_result_simps prod.case)
  then show "level fo rec p ((toks p l @ OP v # toks (Suc p) r) @ S) = read_result fo rec p (Bin v l r) S"
    using p by (simp add: read_result_def del: left_loop.simps)
qed

lemma reads_toks:
  assumes "nested fo n rec"
  shows "wf_ast a \<Longrightarrow> 1 \<le> k \<Longrightarrow> k \<le> 8 \<Longrightarrow> reads fo rec n k (toks k a) a"
proof (induction a arbitrary: k)
  case (Num v)
  have "reads fo rec n 8 [NUMBER v] (Num v)" by (rule reads_atom) (simp add: parse_primary_def)
  from reads_down [OF this] Num show ?case by (simp add: plain_start_def)
next
  case (Str v)
  have "reads fo rec n 8 [STRING v] (Str v)" by (rule reads_atom) (simp add: parse_primary_def)
  from reads_down [OF this] Str show ?case by (simp add: plain_start_def)
next
  case (Err v)
  have "reads fo rec n 8 [ERROR v] (Err v)" by (rule reads_atom) (simp add: parse_primary_def)
  from reads_down [OF this] Err show ?case by (simp add: plain_start_def)
next
  case (Name v)
  have "reads fo rec n 8 [NAME v] (Name v)"
    by (rule reads_atom) (auto simp: parse_primary_def stops_def split: list.splits tok.splits)
  from reads_down [OF this] Name show ?case by (simp add: plain_start_def)
next
  case (RefAst v)
  have "reads fo rec n 8 [REF (RefV v)] (RefAst v)" by (rule reads_atom) (simp add: parse_primary_def ref_ast_def)
  from reads_down [OF this] RefAst show ?case by (simp add: plain_start_def)
next
  case (NamedRange a b)
  have "reads fo rec n 8 [NAME a, COLON, NAME b] (NamedRange a b)"
    by (rule reads_atom) (simp add: parse_primary_def parse_named_range_def)
  from reads_down [OF this] NamedRange show ?case by (simp add: plain_start_def)
next
  case (Unary v e)
  have own: "reads fo rec n 6 (OP v # toks 6 e) (Unary v e)"
    using Unary.IH [of 6] Unary.prems(1) by (auto simp: reads_def level_def read_result_def)
  show ?case unfolding toks.simps
    by (rule reads_wrap [OF assms Unary.prems(1) own]) (use Unary.prems in \<open>auto simp: wrap_def\<close>)
next
  case (Percent e)
  have own: "reads fo rec n 7 (toks 8 e @ [OP ''%'']) (Percent e)"
    unfolding reads_def
  proof (intro allI impI)
    fix S :: "'a tok list" assume len: "length ((toks 8 e @ [OP ''%'']) @ S) \<le> n"
    have "stops 8 (OP ''%'' # S)" by (simp add: stops_def op_level_def op_bound_def)
    with Percent.IH [of 8] Percent.prems len have "parse_primary fo rec (toks 8 e @ OP ''%'' # S) = Inr (e, OP ''%'' # S)"
      by (simp add: reads_def level_def read_result_def)
    then show "level fo rec 7 ((toks 8 e @ [OP ''%'']) @ S) = read_result fo rec 7 (Percent e) S"
      by (simp add: level_def read_result_def parse_postfix_def)
  qed
  show ?case unfolding toks.simps
    by (rule reads_wrap [OF assms Percent.prems(1) own]) (use Percent.prems toks_plain in \<open>auto simp: wrap_def\<close>)
next
  case (Bin v l r)
  have wf: "wf_ast l" "wf_ast r" "op_prec v \<noteq> 0" using Bin.prems by simp_all
  show ?case
  proof (cases "v = ''^''")
    case True
    have five: "op_prec ''^'' = 5" by (simp add: op_prec_def)
    have own: "reads fo rec n 5 (toks 6 l @ OP ''^'' # toks 5 r) (Bin ''^'' l r)"
      using wf by (intro reads_pow [OF assms] Bin.IH) simp_all
    show ?thesis unfolding True toks.simps five if_True simp_thms
      by (rule reads_wrap [OF assms _ own]) (use Bin.prems wf five in \<open>auto simp: wrap_def True\<close>)
  next
    case False
    let ?p = "op_prec v"
    have p: "1 \<le> ?p" "?p \<le> 4" using wf(3) False by (auto simp: op_prec_def)
    have own: "reads fo rec n ?p (toks ?p l @ OP v # toks (Suc ?p) r) (Bin v l r)"
      using wf p by (intro reads_left [OF assms] Bin.IH) simp_all
    show ?thesis unfolding toks.simps using False
      by (simp only: if_False) (rule reads_wrap [OF assms _ own]; use Bin.prems wf p False in \<open>auto simp: wrap_def\<close>)
  qed
next
  case (Func name args)
  from reads_down [OF reads_func [OF assms Func.prems(1)]] Func.prems show ?case by (simp add: plain_start_def)
next
  case (Array rows)
  from reads_down [OF reads_array] Array.prems show ?case by (simp add: plain_start_def)
qed

lemma nested_parse_expr: "nested fo n (parse_expr fo n)"
proof (induction n)
  case 0
  show ?case by (simp add: nested_def goodlt_def)
next
  case (Suc n)
  show ?case
    unfolding nested_def
  proof (intro conjI allI impI)
    show "goodlt (Suc n) (parse_expr fo (Suc n))" by (rule parse_expr_good)
    fix b :: "'a ast" and S :: "'a tok list"
    assume b: "wf_ast b" "closing S" "length (toks 1 b @ S) < Suc n"
    have "stops 0 S" "stops 1 S" using b(2) by (auto intro: closing_stops)
    moreover have "reads fo (parse_expr fo n) n 1 (toks 1 b) b" using reads_toks [OF Suc b(1), of 1] by simp
    ultimately have "level fo (parse_expr fo n) 1 (toks 1 b @ S) = Inr (b, S)"
      using b(3) read_result_stops [of 0 S 1] by (simp add: reads_def)
    then show "parse_expr fo (Suc n) (toks 1 b @ S) = Inr (b, S)" by (simp add: level_def)
  qed
qed

lemma parse_tokens_toks:
  assumes "wf_ast a"
  shows "parse_tokens fo (toks 1 a) = Inr a"
proof -
  have "parse_expr fo (Suc (length (toks 1 a))) (toks 1 a @ []) = Inr (a, [])"
    using nested_parse_expr [of fo "Suc (length (toks 1 a))"] assms unfolding nested_def by (auto simp: closing_def simp del: parse_expr.simps)
  then show ?thesis by (simp add: parse_tokens_def del: parse_expr.simps)
qed

section \<open>Properties\<close>

text \<open>Whole numbers as an instance of the operations on floats.\<close>

definition whole_floats :: "int float_ops" where
  "whole_floats = \<lparr>f_of_text = (\<lambda>s. if s \<noteq> [] \<and> list_all re_digit s then Some (int (int_of_digits s)) else None),
     f_neg = uminus, f_is_integer = (\<lambda>_. True), f_to_int = id, f_str = int_str\<rparr>"

text \<open>
  C40. The parser is total and only builds well-formed trees: on every token list it returns a tree or
  one of the source's errors, never running out of fuel, and a tree it returns has known operators
  at every node, canonical function names and rectangular arrays of constants.
\<close>

theorem parse_tokens_well_formed:
  "parse_tokens fo ts \<noteq> Inl OutOfFuel \<and> (parse_tokens fo ts = Inr a \<longrightarrow> wf_ast a)"
  using parse_tokens_total [of fo ts] parse_tokens_wf [of fo ts a] by (auto simp: no_fuel_error_def)

theorem parse_tokens_well_formed_witness:
  "wf_ast (Bin ''+'' (Num (1 :: int)) (Func ''IF'' [Array [[Num 2, Str ''a'']]]))"
proof -
  let ?ts = "[NUMBER (1 :: int), OP ''+'', NAME ''_xlfn.IF'', LPAREN, LBRACE, NUMBER 2, SEP, STRING ''a'', RBRACE, RPAREN]"
  have "parse_tokens whole_floats ?ts = Inr (Bin ''+'' (Num 1) (Func ''IF'' [Array [[Num 2, Str ''a'']]]))"
    by code_simp
  with parse_tokens_well_formed [of whole_floats ?ts] show ?thesis by blast
qed

text \<open>
  C7. The parser inverts a printer with minimal parentheses: every well-formed tree, printed as
  tokens with parentheses exactly where the operand binds weaker than its operator (or equally,
  on the side the operator does not associate to), is parsed back to the same tree. So the
  precedence chain concatenation, comparison, sum, product, power, sign, percent and the
  associativity of each level are those of the grammar, for trees of every size.
\<close>

theorem parse_tokens_roundtrip:
  assumes "wf_ast a"
  shows "parse_tokens fo (toks 1 a) = Inr a"
  using assms by (rule parse_tokens_toks)

theorem parse_tokens_roundtrip_witness:
  "parse_tokens whole_floats (toks 1 (Bin ''-'' (Num (1 :: int)) (Bin ''-'' (Num 2) (Unary ''-'' (Name ''x''))))) =
   Inr (Bin ''-'' (Num 1) (Bin ''-'' (Num 2) (Unary ''-'' (Name ''x''))))"
  by (rule parse_tokens_roundtrip) (simp add: op_prec_def)

end
