(* ===== verification/Template_Laws.thy ===== *)
theory Template_Laws
  imports Parse_Roundtrip
begin

text \<open>
  Laws of the compiled formula: a shifted master of a shared group keeps its R1C1 template, its
  tree and the shape of its edges; the engine returns a parsed or an unparsed record on every
  text; names are resolved once and for all. The last section records the templates that two
  different formulas share.
\<close>

section \<open>Shifting inside the sheet\<close>

text \<open>\<open>stays d anchored v\<close>: the shift moves the coordinate without the clamp to 1.\<close>

definition stays :: "int \<Rightarrow> bool \<Rightarrow> int \<Rightarrow> bool" where
  "stays d anchored v \<longleftrightarrow> anchored \<or> 1 \<le> v + d"

definition cell_stays :: "int \<Rightarrow> int \<Rightarrow> cell \<Rightarrow> bool" where
  "cell_stays dc dr c \<longleftrightarrow> stays dc (c_abs_col c) (c_col c) \<and> stays dr (c_abs_row c) (c_row c)"

fun body_stays :: "int \<Rightarrow> int \<Rightarrow> ref_body \<Rightarrow> bool" where
  "body_stays dc dr (BCell c) = cell_stays dc dr c"
| "body_stays dc dr (BRange a b) \<longleftrightarrow> cell_stays dc dr a \<and> cell_stays dc dr b"
| "body_stays dc dr (BCols a b) \<longleftrightarrow> stays dc (snd a) (fst a) \<and> stays dc (snd b) (fst b)"
| "body_stays dc dr (BRows a b) \<longleftrightarrow> stays dr (snd a) (fst a) \<and> stays dr (snd b) (fst b)"

fun ast_stays :: "int \<Rightarrow> int \<Rightarrow> 'f ast \<Rightarrow> bool" where
  "ast_stays dc dr (RefAst n) = body_stays dc dr (rf_body n)"
| "ast_stays dc dr (Func name args) \<longleftrightarrow> (\<forall>arg \<in> set args. ast_stays dc dr arg)"
| "ast_stays dc dr (Bin kind l r) \<longleftrightarrow> ast_stays dc dr l \<and> ast_stays dc dr r"
| "ast_stays dc dr (Unary kind e) = ast_stays dc dr e"
| "ast_stays dc dr (Percent e) = ast_stays dc dr e"
| "ast_stays dc dr node = True"

lemma shift_coord_stays: "stays d anchored v \<Longrightarrow> shift_coord d anchored v = (if anchored then v else v + d)"
  by (auto simp: stays_def shift_coord_def)

lemma shift_coord_ge: "1 \<le> v \<Longrightarrow> 1 \<le> shift_coord d anchored v"
  by (simp add: shift_coord_def)

lemma r1c1_row_shift: "stays d anchored v \<Longrightarrow> r1c1_row (shift_coord d anchored v) anchored (orow + d) = r1c1_row v anchored orow"
  by (simp add: r1c1_row_def shift_coord_stays)

lemma r1c1_col_shift: "stays d anchored v \<Longrightarrow> r1c1_col (shift_coord d anchored v) anchored (ocol + d) = r1c1_col v anchored ocol"
  by (simp add: r1c1_col_def shift_coord_stays)

lemma int_str_no_C: "CHR ''C'' \<notin> set (int_str v)"
proof -
  have "CHR ''C'' \<notin> set (nat_str n)" for n using nat_str_digit [of "CHR ''C''" n] by (auto simp: re_digit_def)
  then show ?thesis by (simp add: int_str_def)
qed

lemma r1c1_row_no_C: "c \<in> set (r1c1_row v anchored orow) \<Longrightarrow> c \<noteq> CHR ''C''"
  using int_str_no_C by (auto simp: r1c1_row_def split: if_splits)

lemma from_C_r1c1: "from_C (r1c1 col row ac ar ocol orow) = r1c1_col col ac ocol"
proof -
  have "dropWhile (\<lambda>c. c \<noteq> CHR ''C'') (r1c1_col col ac ocol) = r1c1_col col ac ocol" by (simp add: r1c1_col_def)
  with dropWhile_append2 [of "r1c1_row row ar orow" "\<lambda>c. c \<noteq> CHR ''C''"] r1c1_row_no_C show ?thesis
    by (simp add: from_C_def r1c1_def)
qed

lemma before_C_r1c1: "before_C (r1c1 col row ac ar ocol orow) = r1c1_row row ar orow"
proof -
  have "takeWhile (\<lambda>c. c \<noteq> CHR ''C'') (r1c1_col col ac ocol) = []" by (simp add: r1c1_col_def)
  with takeWhile_append2 [of "r1c1_row row ar orow" "\<lambda>c. c \<noteq> CHR ''C''"] r1c1_row_no_C show ?thesis
    by (simp add: before_C_def r1c1_def)
qed

lemma render_cell_shift: "cell_stays dc dr c \<Longrightarrow> render_cell (ocol + dc) (orow + dr) (shift_cell dc dr c) = render_cell ocol orow c"
  by (simp add: cell_stays_def render_cell_def shift_cell_def r1c1_def r1c1_row_shift r1c1_col_shift)

lemma render_body_shift:
  "body_stays dc dr b \<Longrightarrow> render_body (ocol + dc) (orow + dr) (shift_body dc dr b) = render_body ocol orow b"
  by (cases b) (simp_all add: render_cell_shift from_C_r1c1 before_C_r1c1 r1c1_row_shift r1c1_col_shift)

lemma render_constant:
  "constant_item i \<Longrightarrow> render fo ocol orow sep decimal i = render fo ocol' orow' sep decimal i"
  by (cases i rule: constant_item.cases) simp_all

lemma prec_shift [simp]: "prec (shift_ast dc dr a) = prec a"
  by (cases a) simp_all

lemma sheet_prefix_body [simp]: "sheet_prefix (n\<lparr>rf_body := b\<rparr>) = sheet_prefix n"
  by (simp add: sheet_prefix_def external_text_def)

lemma render_shift:
  assumes "wf_ast a" "ast_stays dc dr a"
  shows "render fo (ocol + dc) (orow + dr) sep decimal (shift_ast dc dr a) = render fo ocol orow sep decimal a"
  using assms
proof (induction a)
  case (Func name args)
  then have "map (render fo (ocol + dc) (orow + dr) sep decimal \<circ> shift_ast dc dr) args = map (render fo ocol orow sep decimal) args"
    by (intro map_cong) simp_all
  then show ?case by (simp del: map_eq_conv)
next
  case (Array rows)
  then have c: "\<forall>row \<in> set rows. \<forall>i \<in> set row. constant_item i" by (simp add: array_ok_def)
  have "map (render fo (ocol + dc) (orow + dr) sep decimal) row = map (render fo ocol orow sep decimal) row"
    if "row \<in> set rows" for row
    using c that by (intro map_cong refl render_constant) blast
  then have "map (\<lambda>row. join [sep] (map (render fo (ocol + dc) (orow + dr) sep decimal) row)) rows =
      map (\<lambda>row. join [sep] (map (render fo ocol orow sep decimal) row)) rows"
    by (intro map_cong refl) (simp del: map_eq_conv)
  then show ?case by (simp del: map_eq_conv)
next
  case (Bin kind l r)
  then show ?case by (simp add: paren_def)
qed (simp_all add: render_body_shift Let_def)

section \<open>Shifts compose\<close>

lemma shift_coord_add: "stays d anchored v \<Longrightarrow> shift_coord e anchored (shift_coord d anchored v) = shift_coord (d + e) anchored v"
  by (auto simp: stays_def shift_coord_def)

lemma shift_body_add:
  "body_stays dc dr b \<Longrightarrow> shift_body ec er (shift_body dc dr b) = shift_body (dc + ec) (dr + er) b"
  by (cases b) (simp_all add: shift_cell_def cell_stays_def shift_coord_add)

lemma shift_ast_add:
  "ast_stays dc dr a \<Longrightarrow> shift_ast ec er (shift_ast dc dr a) = shift_ast (dc + ec) (dr + er) a"
  by (induction a) (simp_all add: shift_body_add)

fun body_coords :: "ref_body \<Rightarrow> int list" where
  "body_coords (BCell c) = [c_col c, c_row c]"
| "body_coords (BRange a b) = [c_col a, c_row a, c_col b, c_row b]"
| "body_coords (BCols a b) = [fst a, fst b]"
| "body_coords (BRows a b) = [fst a, fst b]"

fun placed :: "'f ast \<Rightarrow> bool" where
  "placed (RefAst n) = list_all (\<lambda>v. 1 \<le> v) (body_coords (rf_body n))"
| "placed (Func name args) \<longleftrightarrow> (\<forall>arg \<in> set args. placed arg)"
| "placed (Bin kind l r) \<longleftrightarrow> placed l \<and> placed r"
| "placed (Unary kind e) = placed e"
| "placed (Percent e) = placed e"
| "placed node = True"

lemma shift_coord_0: "1 \<le> v \<Longrightarrow> shift_coord 0 anchored v = v"
  by (simp add: shift_coord_def)

lemma shift_ast_0: "placed a \<Longrightarrow> shift_ast 0 0 a = a"
proof (induction a)
  case (RefAst n)
  then have "shift_body 0 0 (rf_body n) = rf_body n"
    by (cases "rf_body n") (simp_all add: shift_cell_def shift_coord_0)
  then show ?case by simp
next
  case (Func name args)
  then show ?case by (simp add: map_idI)
qed simp_all

lemma shift_ast_placed: "placed a \<Longrightarrow> placed (shift_ast dc dr a)"
proof (induction a)
  case (RefAst n)
  then show ?case by (cases "rf_body n") (simp_all add: shift_cell_def shift_coord_ge)
qed simp_all

lemma shift_ast_wf: "wf_ast a \<Longrightarrow> wf_ast (shift_ast dc dr a)"
  by (induction a) simp_all

section \<open>Edges\<close>

lemma collect_suppressed [simp]: "collect_edges current source True a = []"
  by (induction a) (simp_all add: Let_def)

definition edge_shape :: "Edge \<Rightarrow> string \<times> bool \<times> bool \<times> bool \<times> bool option list" where
  "edge_shape e = (e_kind e, e_unresolved e, e_truncated e, e_named e,
     [e_abs_col e, e_abs_row e, e_abs_col_end e, e_abs_row_end e])"

lemma ref_edge_shape: "edge_shape (ref_edge (n\<lparr>rf_body := b\<rparr>) (shift_cell dc dr c) current source') = edge_shape (ref_edge n c current source)"
  by (simp add: ref_edge_def edge_shape_def plain_edge_def shift_cell_def Let_def)

lemma range_edge_shape:
  "edge_shape (range_edge (n\<lparr>rf_body := shift_body dc dr (rf_body n)\<rparr>) current source') = edge_shape (range_edge n current source)"
  by (cases "rf_body n") (simp_all add: range_edge_def edge_shape_def plain_edge_def shift_cell_def Let_def)

lemma dynamic_shape: "edge_shape (plain_edge kind source' target u m) = edge_shape (plain_edge kind source target' u m)"
  by (simp add: plain_edge_def edge_shape_def)

lemma collect_shape:
  "map edge_shape (collect_edges current source' s (shift_ast dc dr a)) = map edge_shape (collect_edges current source s a)"
proof (induction a arbitrary: s)
  case (Func name args)
  have "map (map edge_shape \<circ> (collect_edges current source' t \<circ> shift_ast dc dr)) args =
      map (map edge_shape \<circ> collect_edges current source t) args" for t
    using Func.IH by (intro map_cong refl) simp
  then show ?case by (simp add: Let_def dynamic_shape [of _ source' _ _ _ source None] map_concat del: map_eq_conv)
next
  case (RefAst n)
  then show ?case
    using range_edge_shape [where n = n and dc = dc and dr = dr]
    by (cases "rf_body n") (simp_all add: ref_edge_shape)
qed (simp_all add: plain_edge_def edge_shape_def)

lemma collect_same_shape:
  "map edge_shape (collect_edges current source' s a) = map edge_shape (collect_edges current source s a)"
  using collect_shape [of current source' s 0 0 a source'] collect_shape [of current source' s 0 0 a source] by simp

lemma collect_source: "\<forall>e \<in> set (collect_edges current source s a). e_source e = source"
proof (induction a arbitrary: s)
  case (RefAst n)
  then show ?case
    by (cases "rf_body n") (simp_all add: ref_edge_def range_edge_def plain_edge_def Let_def)
qed (auto simp: plain_edge_def Let_def)

section \<open>Parsed records\<close>

text \<open>
  The edges the collector makes: resolved with a target, open names and name ranges, or the
  open edge of a dynamic function.
\<close>

definition edge_ok :: "string \<Rightarrow> Edge \<Rightarrow> bool" where
  "edge_ok source e \<longleftrightarrow> e_source e = source \<and> \<not> e_truncated e \<and>
     (if e_named e then e_unresolved e \<and> e_kind e \<in> {''ref'', ''range''} \<and> truthy (e_target e)
      else if e_unresolved e then e_kind e = ''dynamic'' \<and> e_target e = None
      else e_kind e \<in> {''ref'', ''cross_sheet'', ''external'', ''range''} \<and> truthy (e_target e))"

lemma collect_ok: "list_all (edge_ok source) (collect_edges current source s a)"
proof (induction a arbitrary: s)
  case (RefAst n)
  then show ?case
    by (cases "rf_body n") (auto simp: edge_ok_def ref_edge_def range_edge_def plain_edge_def external_text_def truthy_def Let_def)
next
  case (Func name args)
  then have "list_all (edge_ok source) (concat (map (collect_edges current source t) args))" for t
    by (auto simp: list_all_iff)
  moreover have "edge_ok source (plain_edge ''dynamic'' source None True False)" by (simp add: edge_ok_def plain_edge_def)
  ultimately show ?case by (simp add: Let_def)
qed (auto simp: edge_ok_def plain_edge_def truthy_def)

definition formula_ok :: "string \<Rightarrow> 'f ParsedFormula \<Rightarrow> bool" where
  "formula_ok source p =
     (case pf_ast p of
        None \<Rightarrow> pf_unparsed p \<and> pf_template p = None \<and> pf_edges p = []
      | Some a \<Rightarrow> \<not> pf_unparsed p \<and> wf_ast a \<and> pf_template p \<noteq> None \<and> list_all (edge_ok source) (pf_edges p))"

lemma parse_text_wf: "parse_text fo engine text = Inr a \<Longrightarrow> wf_ast a"
  by (auto simp: parse_text_def bind_result_Inr_iff intro: parse_tokens_wf)

lemma engine_parse_cases:
  obtains "engine_parse fo engine formula sheet addr = unparsed_formula"
  | a col row where "wf_ast a" "parse_addr addr = Inr (col, row)"
      "engine_parse fo engine formula sheet addr =
         \<lparr>pf_ast = Some a, pf_template = Some (''='' @ render fo col row (en_sep engine) (en_decimal engine) a),
          pf_unparsed = False, pf_edges = collect_edges sheet (sheet @ ''!'' @ addr) False a\<rparr>"
proof (cases "parse_text fo engine (if startswith formula ''='' then drop 1 formula else formula)")
  case (Inl e)
  then show ?thesis by (intro that(1)) (simp add: engine_parse_def Let_def)
next
  case parsed: (Inr a)
  show ?thesis
  proof (cases "parse_addr addr")
    case (Inl e)
    with parsed show ?thesis by (intro that(1)) (simp add: engine_parse_def Let_def)
  next
    case (Inr p)
    obtain col row where "p = (col, row)" by (cases p)
    with parsed Inr show ?thesis
      by (cases "py_strip (if startswith formula ''='' then drop 1 formula else formula) = []")
        (auto intro: that parse_text_wf simp: engine_parse_def Let_def)
  qed
qed

lemma engine_parse_ok: "formula_ok (sheet @ ''!'' @ addr) (engine_parse fo engine formula sheet addr)"
  by (rule engine_parse_cases [of fo engine formula sheet addr]) (simp_all add: formula_ok_def unparsed_formula_def collect_ok)

lemma shift_parsed_ok:
  assumes "formula_ok source p"
  shows "formula_ok (sheet @ ''!'' @ format_addr to_col to_row) (shift_parsed fo p sheet from_col from_row to_col to_row sep decimal)"
  using assms by (auto simp: formula_ok_def shift_parsed_def unparsed_formula_def Let_def collect_ok shift_ast_wf split: option.splits)

section \<open>A formula that is one reference\<close>

text \<open>The scanner tries a reference at a letter, a dollar sign, an apostrophe or a bracket, never at a digit.\<close>

lemma parse_text_reference:
  assumes ok: "ref_ok n" and start: "ref_start (hd (ref_spelling n))" "\<not> py_isspace (hd (ref_spelling n))"
    "\<not> py_isdigit (hd (ref_spelling n))" "hd (ref_spelling n) \<noteq> en_decimal engine"
    "hd (ref_spelling n) \<noteq> CHR 0x22" "hd (ref_spelling n) \<noteq> CHR ''#''" and ne: "ref_spelling n \<noteq> []"
  shows "parse_text fo engine (ref_spelling n) = Inr (RefAst n)"
proof -
  obtain ch t where s: "ref_spelling n = ch # t" using ne by (cases "ref_spelling n") auto
  have "scan_reference (ch # t) = Some (RefV n, [])"
    using scan_reference_spelling [OF ok, of "[]"] by (simp add: after_ref_def s)
  moreover have "\<not> fraction_at (en_decimal engine) (ch # t)" using start s by (cases t) (simp_all add: fraction_at_def)
  ultimately have "scan_step fo (en_decimal engine) (en_sep engine) ch t = Inr (Some (REF (RefV n), Suc (length t)), [])"
    using start by (simp add: scan_step_def s)
  then have "tokenize fo (ref_spelling n) (en_decimal engine) (en_sep engine) = Inr [\<lparr>t_tok = REF (RefV n), t_pos = 0\<rparr>]"
    by (simp add: tokenize_def s)
  moreover have "parse_tokens fo [REF (RefV n)] = Inr (RefAst n)" using parse_tokens_toks [of "RefAst n" fo] by simp
  ultimately show ?thesis by (simp add: parse_text_def)
qed

lemma parse_text_sheet_reference:
  assumes "ref_ok n" "rf_sheet n \<noteq> None \<or> rf_external n \<noteq> None"
  shows "parse_text fo (make_engine hint) (ref_spelling n) = Inr (RefAst n)"
proof (rule parse_text_reference [OF assms(1)])
  obtain t where t: "ref_spelling n = CHR 0x27 # t"
    using assms(2) by (cases "rf_external n"; cases "rf_sheet n") (auto simp: ref_spelling_def)
  show "ref_start (hd (ref_spelling n))" "\<not> py_isspace (hd (ref_spelling n))" "\<not> py_isdigit (hd (ref_spelling n))"
    "hd (ref_spelling n) \<noteq> CHR 0x22" "hd (ref_spelling n) \<noteq> CHR ''#''" "ref_spelling n \<noteq> []"
    by (simp_all add: t ref_start_def py_isspace_def py_isdigit_def re_digit_def)
  show "hd (ref_spelling n) \<noteq> en_decimal (make_engine hint)" by (simp add: t make_engine_def Let_def)
qed

section \<open>Defined names\<close>

lemma make_engine_default: "make_engine None = \<lparr>en_decimal = CHR ''.'', en_sep = CHR '',''\<rparr>"
  by code_simp

lemma resolve_edge_closed: "\<not> is_open_name e \<Longrightarrow> resolve_edge fo table e = e"
  by (simp add: resolve_edge_def)

lemma resolve_local_cases: "resolve_local fo engine e formula = e \<or> \<not> e_unresolved (resolve_local fo engine e formula)"
  by (auto simp: resolve_local_def Let_def split: option.splits ast.splits ref_body.splits)

lemma resolve_edge_cases: "resolve_edge fo table e = e \<or> \<not> e_unresolved (resolve_edge fo table e)"
  using resolve_local_cases [of fo "make_engine None" e] by (auto simp: resolve_edge_def split: option.splits)

lemma resolve_edge_idem: "resolve_edge fo table (resolve_edge fo table e) = resolve_edge fo table e"
  using resolve_edge_cases [of fo table e] by (auto simp: resolve_edge_closed is_open_name_def)

lemma resolve_edge_frame:
  "e_source (resolve_edge fo table e) = e_source e \<and> e_truncated (resolve_edge fo table e) = e_truncated e
   \<and> e_named (resolve_edge fo table e) = e_named e"
  by (auto simp: resolve_edge_def resolve_local_def is_open_name_def Let_def split: option.splits ast.splits ref_body.splits)

lemma engine_parse_sheet_reference:
  assumes "ref_ok n" "rf_sheet n \<noteq> None \<or> rf_external n \<noteq> None" "parse_addr addr = Inr (col, row)"
  shows "pf_ast (engine_parse (fo :: 'f float_ops) (make_engine hint) (''='' @ ref_spelling n) sheet addr) = Some (RefAst n)
    \<and> \<not> pf_unparsed (engine_parse fo (make_engine hint) (''='' @ ref_spelling n) sheet addr)
    \<and> pf_edges (engine_parse fo (make_engine hint) (''='' @ ref_spelling n) sheet addr) =
      collect_edges sheet (sheet @ ''!'' @ addr) False (RefAst n :: 'f ast)"
proof -
  obtain t where t: "ref_spelling n = CHR 0x27 # t"
    using assms(2) by (cases "rf_external n"; cases "rf_sheet n") (auto simp: ref_spelling_def)
  then have "py_strip (ref_spelling n) \<noteq> []" by (simp add: py_strip_def py_isspace_def)
  then show ?thesis
    using parse_text_sheet_reference [OF assms(1,2), of fo hint] assms(3)
    by (simp add: engine_parse_def Let_def startswith_def del: collect_edges.simps)
qed

section \<open>Properties\<close>

text \<open>
  C10. A cell of a shared formula group gets the master's template: when no relative reference of the
  master falls off the sheet, moving the parsed master to another cell keeps the R1C1 template
  letter for letter, keeps kind, flags and anchors of every edge in order, and makes every
  edge start at the new cell. Grouping cells by template therefore puts the whole shared
  group together.
\<close>

theorem shared_formula_keeps_template:
  assumes "pf_ast (engine_parse fo engine formula sheet addr) = Some a"
    and "parse_addr addr = Inr (from_col, from_row)"
    and "ast_stays (to_col - from_col) (to_row - from_row) a"
  shows "let p = engine_parse fo engine formula sheet addr;
             q = shift_parsed fo p sheet from_col from_row to_col to_row (en_sep engine) (en_decimal engine)
         in pf_template q = pf_template p \<and> map edge_shape (pf_edges q) = map edge_shape (pf_edges p)
            \<and> list_all (\<lambda>e. e_source e = sheet @ ''!'' @ format_addr to_col to_row) (pf_edges q)"
proof (cases rule: engine_parse_cases [of fo engine formula sheet addr])
  case 1
  with assms(1) show ?thesis by (simp add: unparsed_formula_def)
next
  case (2 b col row)
  have b: "b = a" "col = from_col" "row = from_row" using 2 assms(1,2) by simp_all
  have "render fo to_col to_row (en_sep engine) (en_decimal engine) (shift_ast (to_col - from_col) (to_row - from_row) a) =
      render fo from_col from_row (en_sep engine) (en_decimal engine) a"
    using render_shift [OF 2(1) [unfolded b] assms(3), where ocol = from_col and orow = from_row] by simp
  with 2(3) b show ?thesis
    using collect_same_shape [of sheet _ False a]
    by (auto simp: Let_def shift_parsed_def collect_shape list_all_iff collect_source)
qed

text \<open>
  Whatever the text of a formula, the engine returns a consistent record, and so does the shift
  of that record to any cell: either unparsed, with neither tree nor template nor edges, or
  parsed with a well-formed tree, a template, and edges that all start at the cell and are each
  resolved with a target, an open name, or the open edge of a dynamic function.
\<close>

theorem parsed_record_consistent:
  "formula_ok (sheet @ ''!'' @ addr) (engine_parse fo engine formula sheet addr) \<and>
   formula_ok (sheet @ ''!'' @ format_addr to_col to_row)
     (shift_parsed fo (engine_parse fo engine formula sheet addr) sheet from_col from_row to_col to_row sep decimal)"
  using engine_parse_ok shift_parsed_ok [OF engine_parse_ok] by blast

text \<open>
  Resolving defined names twice is resolving them once, and only touches the target side of an
  edge: number and order of edges, their sources, truncation marks and name marks stay.
\<close>

theorem resolve_names_idempotent:
  "let es = resolve_defined_name_edges fo edges names in
   resolve_defined_name_edges fo es names = es \<and> map e_source es = map e_source edges
   \<and> map e_truncated es = map e_truncated edges \<and> map e_named es = map e_named edges"
  by (simp add: resolve_defined_name_edges_def Let_def comp_def resolve_edge_idem resolve_edge_frame)

text \<open>
  An open name defined as one cell of a sheet is resolved to that cell: for every sheet name
  (quoted, apostrophes doubled) and every anchored or relative cell of the grid.
\<close>

theorem defined_name_resolves_to_cell:
  assumes "ref_ok n" and "rf_body n = BCell c" and "rf_sheet n = Some sheet" and "sheet \<noteq> []"
    and "rf_external n = None" and "is_open_name e"
    and "name_table names (casefold (the (e_target e))) = Some (ref_spelling n)"
    and "find_sub ''#REF!'' (ref_spelling n) = None" and "CHR ''['' \<notin> set (ref_spelling n)"
  shows "resolve_defined_name_edges fo [e] names =
    [e\<lparr>e_kind := ''ref'', e_target := Some (sheet @ ''!'' @ format_addr (c_col c) (c_row c)),
       e_unresolved := False, e_abs_col := Some (c_abs_col c), e_abs_row := Some (c_abs_row c)\<rparr>]"
proof -
  have "\<not> startswith (ref_spelling n) ''=''" using assms(3,5) by (simp add: ref_spelling_def startswith_def)
  moreover have "parse_addr ''A1'' = Inr (1, 1)" by code_simp
  then have "pf_ast (engine_parse fo (make_engine None) (''='' @ ref_spelling n) ''_'' ''A1'') = Some (RefAst n)"
    "\<not> pf_unparsed (engine_parse fo (make_engine None) (''='' @ ref_spelling n) ''_'' ''A1'')"
    using engine_parse_sheet_reference [OF assms(1), of "''A1''" 1 1 fo None "''_''"] assms(3) by simp_all
  ultimately show ?thesis
    using assms(2-9) by (simp add: resolve_defined_name_edges_def resolve_edge_def resolve_local_def Let_def truthy_def)
qed

text \<open>The shared formula \<open>=B2+$C3\<close> of cell \<open>A1\<close>, moved two columns right and three rows down.\<close>

theorem shared_formula_keeps_template_witness:
  "let p = engine_parse whole_floats (make_engine None) ''=B2+$C3'' ''S'' ''A1'';
       q = shift_parsed whole_floats p ''S'' 1 1 3 4 (en_sep (make_engine None)) (en_decimal (make_engine None))
   in pf_template q = pf_template p \<and> map edge_shape (pf_edges q) = map edge_shape (pf_edges p)
      \<and> list_all (\<lambda>e. e_source e = ''S'' @ ''!'' @ format_addr 3 4) (pf_edges q)"
proof (rule shared_formula_keeps_template)
  let ?a = "Bin ''+'' (RefAst \<lparr>rf_body = BCell \<lparr>c_col = 2, c_row = 2, c_abs_col = False, c_abs_row = False\<rparr>, rf_sheet = None, rf_external = None\<rparr>)
     (RefAst \<lparr>rf_body = BCell \<lparr>c_col = 3, c_row = 3, c_abs_col = True, c_abs_row = False\<rparr>, rf_sheet = None, rf_external = None\<rparr>) :: int ast"
  show "pf_ast (engine_parse whole_floats (make_engine None) ''=B2+$C3'' ''S'' ''A1'') = Some ?a" by code_simp
  show "parse_addr ''A1'' = Inr (1, 1)" by code_simp
  show "ast_stays (3 - 1) (4 - 1) ?a" by (simp add: cell_stays_def stays_def)
qed

theorem defined_name_resolves_to_cell_witness:
  "resolve_defined_name_edges whole_floats [plain_edge ''ref'' ''S!A1'' (Some ''Rate'') True True]
     [(Some ''rate'', Some (ref_spelling \<lparr>rf_body = BCell \<lparr>c_col = 2, c_row = 3, c_abs_col = True, c_abs_row = True\<rparr>,
        rf_sheet = Some ''In put'', rf_external = None\<rparr>))] =
   [(plain_edge ''ref'' ''S!A1'' (Some ''Rate'') True True)\<lparr>e_kind := ''ref'', e_target := Some (''In put'' @ ''!'' @ format_addr 2 3),
      e_unresolved := False, e_abs_col := Some True, e_abs_row := Some True\<rparr>]"
proof -
  let ?n = "\<lparr>rf_body = BCell \<lparr>c_col = 2, c_row = 3, c_abs_col = True, c_abs_row = True\<rparr>, rf_sheet = Some ''In put'', rf_external = None\<rparr>"
  let ?e = "plain_edge ''ref'' ''S!A1'' (Some ''Rate'') True True"
  have "ref_ok ?n" by code_simp
  moreover have "is_open_name ?e" by code_simp
  moreover have "name_table [(Some ''rate'', Some (ref_spelling ?n))] (casefold (the (e_target ?e))) = Some (ref_spelling ?n)" by code_simp
  moreover have "find_sub ''#REF!'' (ref_spelling ?n) = None" by code_simp
  moreover have "CHR ''['' \<notin> set (ref_spelling ?n)" by code_simp
  ultimately show ?thesis
    using defined_name_resolves_to_cell [of ?n "\<lparr>c_col = 2, c_row = 3, c_abs_col = True, c_abs_row = True\<rparr>" "''In put''" ?e] by simp
qed

section \<open>Formulas the compiler cannot tell apart\<close>

text \<open>
  The template of a percent loses the parentheses of its operand, and a right operand of equal
  precedence keeps its parentheses only behind \<open>-\<close>, \<open>/\<close> and \<open>*\<close>; a left operand of \<open>^\<close> never does.
\<close>

lemma render_percent_ambiguous:
  "render fo c r s d (Percent (Bin ''+'' x y)) = render fo c r s d (Bin ''+'' x (Percent y))"
  if "3 < prec x" "3 < prec y"
  using that by (simp add: paren_def op_prec_def)

lemma render_power_ambiguous:
  "render fo c r s d (Bin ''^'' (Bin ''^'' x y) z) = render fo c r s d (Bin ''^'' x (Bin ''^'' y z))"
  by (simp add: paren_def op_prec_def)

lemma render_compare_ambiguous:
  "render fo c r s d (Bin ''='' x (Bin ''='' y z)) = render fo c r s d (Bin ''='' (Bin ''='' x y) z)"
  by (simp add: paren_def op_prec_def)

text \<open>A row pair without sheet or anchor starts with a digit and is scanned as a number.\<close>

lemma unanchored_row_pair_unparsed:
  "pf_unparsed (engine_parse whole_floats (make_engine None) ''=SUM(1:3)'' ''S'' ''A1'')"
  by code_simp

end
