(* ===== verification/Range_Cover.thy ===== *)
theory Range_Cover
  imports Cell_Edges
begin

text \<open>
  Range nodes at read time, first half of \<open>src/finance_context/graph/ranges.py\<close> and
  \<open>graph/refs.py\<close>: node ids as coordinates, the cells of a book by sheet and column
  (\<open>CellGrid\<close>), the row intervals with a maximum tree (\<open>_Intervals\<close>) and the index of the
  nodes that contain a cell (\<open>CoverIndex\<close>). The lemmas show that the tree search returns
  exactly the intervals that contain the row, in the order of their starts.
\<close>

section \<open>Node ids\<close>

text \<open>\<open>s.strip("'")\<close> and \<open>s.replace("''", "'")\<close>.\<close>

definition strip_char :: "char \<Rightarrow> string \<Rightarrow> string" where
  "strip_char q s = rev (dropWhile (\<lambda>c. c = q) (rev (dropWhile (\<lambda>c. c = q) s)))"

fun undouble :: "char \<Rightarrow> string \<Rightarrow> string" where
  "undouble q (a # b # s) = (if a = q \<and> b = q then q # undouble q s else a # undouble q (b # s))"
| "undouble q s = s"

definition parse_node_id :: "string option \<Rightarrow> (string \<times> int \<times> int) option" where
  "parse_node_id ref =
     (case ref of
        None \<Rightarrow> None
      | Some ref \<Rightarrow>
          (case rsplit1 CHR ''!'' ref of
             None \<Rightarrow> None
           | Some (sheet0, addr0) \<Rightarrow>
               (let sheet = undouble CHR 0x27 (strip_char CHR 0x27 (py_strip sheet0));
                    addr = filter (\<lambda>c. c \<noteq> CHR ''$'') (takeWhile (\<lambda>c. c \<noteq> CHR '':'') addr0)
                in case parse_addr addr of
                     Inl _ \<Rightarrow> None
                   | Inr (col, row) \<Rightarrow> if sheet = [] then None else Some (sheet, col, row))))"

definition is_cell_id :: "string \<Rightarrow> bool" where
  "is_cell_id name \<longleftrightarrow> parse_node_id (Some name) \<noteq> None \<and> CHR '':'' \<notin> set name"

definition range_nodes :: "string list \<Rightarrow> (string \<times> RangeNode) list" where
  "range_nodes targets =
     foldl (\<lambda>nodes target.
       if map_of nodes target \<noteq> None then nodes
       else case parse_range_node target of None \<Rightarrow> nodes | Some node \<Rightarrow> nodes @ [(target, node)])
     [] targets"

section \<open>The cells of a book\<close>

record CellGrid =
  cg_usage :: SheetUsage
  cg_first :: "(string \<times> (int \<times> int) option) list"

definition grid_of_usage :: "SheetUsage \<Rightarrow> CellGrid" where
  "grid_of_usage usage = \<lparr>cg_usage = usage, cg_first = []\<rparr>"

definition from_cells :: "string list \<Rightarrow> CellGrid" where
  "from_cells cell_ids = grid_of_usage (sheet_usage cell_ids)"

definition grid_members :: "CellGrid \<Rightarrow> RangeNode \<Rightarrow> string list" where
  "grid_members grid node =
     map (\<lambda>(row, col). rn_sheet node @ ''!'' @ index_to_col col @ int_str row)
       (node_present_pairs node (cg_usage grid))"

abbreviation node_whole :: "RangeNode \<Rightarrow> bool" where
  "node_whole node \<equiv> whole_axis (rn_c1 node) (rn_c2 node) (rn_r1 node) (rn_r2 node)"

text \<open>\<open>CellGrid.first\<close> fills its memo, so it returns the grid too.\<close>

definition grid_first :: "CellGrid \<Rightarrow> RangeNode \<Rightarrow> (int \<times> int) option \<times> CellGrid" where
  "grid_first grid node =
     (if \<not> node_whole node then (Some (rn_c1 node, rn_r1 node), grid)
      else
        case map_of (cg_first grid) (node_id node) of
          Some found \<Rightarrow> (found, grid)
        | None \<Rightarrow>
            (let found = map_option (\<lambda>(row, col). (col, row)) (node_first_present node (cg_usage grid))
             in (found, grid\<lparr>cg_first := cg_first grid @ [(node_id node, found)]\<rparr>)))"

definition member_columns :: "CellGrid \<Rightarrow> RangeNode \<Rightarrow> int list" where
  "member_columns grid node =
     (if \<not> node_whole node then [rn_c1 node..rn_c2 node]
      else
        sort (map fst (filter (\<lambda>(col, spans).
            \<not> (col < rn_c1 node \<or> col > rn_c2 node)
            \<and> list_ex (\<lambda>(start, end). \<not> (end < rn_r1 node \<or> start > rn_r2 node)) spans)
          (usage_columns (cg_usage grid) (rn_sheet node)))))"

section \<open>Row intervals with a maximum tree\<close>

record 'a Intervals =
  iv_starts :: "int list"
  iv_ends :: "int list"
  iv_payloads :: "'a list"
  iv_size :: nat
  iv_tree :: "int list"

text \<open>\<open>while size < max(1, len(items)): size *= 2\<close>, started at 1; the size stays positive.\<close>

function grow_size :: "nat \<Rightarrow> nat \<Rightarrow> nat" where
  "grow_size n sz = (if 0 < sz \<and> sz < max 1 n then grow_size n (sz * 2) else sz)"
  by pat_completeness auto
termination
  by (relation "measure (\<lambda>(n, sz). max 1 n - sz)") auto

declare grow_size.simps [simp del]

definition fill_leaves :: "nat \<Rightarrow> int list \<Rightarrow> int list \<Rightarrow> int list" where
  "fill_leaves sz ends tree =
     foldl (\<lambda>tree (index, end). tree[sz + index := end]) tree (enumerate 0 ends)"

definition fill_inner :: "nat \<Rightarrow> int list \<Rightarrow> int list" where
  "fill_inner sz tree =
     foldl (\<lambda>tree index. tree[index := max (tree ! (2 * index)) (tree ! (2 * index + 1))]) tree (rev [1..<sz])"

definition make_intervals :: "(int \<times> int \<times> 'a) list \<Rightarrow> 'a Intervals" where
  "make_intervals items0 =
     (let items = sort_key fst items0;
          ends = map (fst \<circ> snd) items;
          sz = grow_size (length items) 1
      in \<lparr>iv_starts = map fst items, iv_ends = ends, iv_payloads = map (snd \<circ> snd) items, iv_size = sz,
          iv_tree = fill_inner sz (fill_leaves sz ends (replicate (2 * sz) (-1)))\<rparr>)"

text \<open>
  The stack of \<open>covering\<close>, head first. An entry always has \<open>lo \<le> hi\<close>, so the source's test
  \<open>lo == hi\<close> is the test below, which makes the loop total.
\<close>

definition frames_measure :: "(nat \<times> nat \<times> nat) list \<Rightarrow> nat" where
  "frames_measure stack = sum_list (map (\<lambda>(slot, lo, hi). 2 * (hi - lo) + 1) stack)"

function covering_loop :: "'a Intervals \<Rightarrow> nat \<Rightarrow> int \<Rightarrow> (nat \<times> nat \<times> nat) list \<Rightarrow> 'a list" where
  "covering_loop iv limit row [] = []"
| "covering_loop iv limit row ((slot, lo, hi) # stack) =
     (if lo \<ge> limit \<or> iv_tree iv ! slot < row then covering_loop iv limit row stack
      else if hi \<le> lo then iv_payloads iv ! lo # covering_loop iv limit row stack
      else
        let mid = (lo + hi) div 2 in
        covering_loop iv limit row ((2 * slot, lo, mid) # (2 * slot + 1, mid + 1, hi) # stack))"
  by pat_completeness auto
termination
  by (relation "measure (\<lambda>(iv, limit, row, stack). frames_measure stack)") (auto simp: frames_measure_def)

definition iv_covering :: "'a Intervals \<Rightarrow> int \<Rightarrow> 'a list" where
  "iv_covering iv row =
     (let limit = bisect_right (\<lambda>x. x) (iv_starts iv) row in
      if limit = 0 then [] else covering_loop iv limit row [(1, 0, iv_size iv - 1)])"

section \<open>The nodes that contain a cell\<close>

definition NARROW_COLUMNS :: int where
  "NARROW_COLUMNS = 64"

record CoverIndex =
  ci_narrow :: "((string \<times> int) \<times> RangeNode Intervals) list"
  ci_wide :: "(string \<times> RangeNode Intervals) list"

type_synonym node_items = "(int \<times> int \<times> RangeNode) list"

definition is_narrow :: "RangeNode \<Rightarrow> bool" where
  "is_narrow node \<longleftrightarrow> rn_c2 node - rn_c1 node + 1 \<le> NARROW_COLUMNS"

definition index_node ::
  "((string \<times> int) \<times> node_items) list \<times> (string \<times> node_items) list \<Rightarrow> RangeNode
   \<Rightarrow> ((string \<times> int) \<times> node_items) list \<times> (string \<times> node_items) list" where
  "index_node st node =
     (let item = (rn_r1 node, rn_r2 node, node) in
      case st of (narrow, wide) \<Rightarrow>
        if is_narrow node then
          (foldl (\<lambda>narrow col. dict_alter (rn_sheet node, col) [] (\<lambda>items. items @ [item]) narrow)
             narrow [rn_c1 node..rn_c2 node], wide)
        else (narrow, dict_alter (rn_sheet node) [] (\<lambda>items. items @ [item]) wide))"

definition make_cover_index :: "RangeNode list \<Rightarrow> CoverIndex" where
  "make_cover_index nodes =
     (case foldl index_node ([], []) nodes of (narrow, wide) \<Rightarrow>
        \<lparr>ci_narrow = map (\<lambda>(key, items). (key, make_intervals items)) narrow,
         ci_wide = map (\<lambda>(key, items). (key, make_intervals items)) wide\<rparr>)"

definition ci_bool :: "CoverIndex \<Rightarrow> bool" where
  "ci_bool ci \<longleftrightarrow> ci_narrow ci \<noteq> [] \<or> ci_wide ci \<noteq> []"

definition ci_covering :: "CoverIndex \<Rightarrow> string \<Rightarrow> int \<Rightarrow> int \<Rightarrow> RangeNode list" where
  "ci_covering ci sheet col row =
     (case map_of (ci_narrow ci) (sheet, col) of None \<Rightarrow> [] | Some here \<Rightarrow> iv_covering here row)
     @ (case map_of (ci_wide ci) sheet of
          None \<Rightarrow> []
        | Some spread \<Rightarrow> filter (\<lambda>node. rn_c1 node \<le> col \<and> col \<le> rn_c2 node) (iv_covering spread row))"

section \<open>The tree holds the maxima\<close>

lemma grow_size_ge: "0 < sz \<Longrightarrow> n \<le> grow_size n sz \<and> 0 < grow_size n sz"
proof (induction n sz rule: grow_size.induct)
  case (1 n sz)
  then show ?case by (subst (1 2) grow_size.simps) auto
qed

lemma grow_size_power: "\<exists>k. grow_size n (2 ^ j) = 2 ^ k"
proof (induction "max 1 n - 2 ^ j" arbitrary: j rule: less_induct)
  case less
  show ?case
  proof (cases "2 ^ j < max 1 n")
    case True
    then have "max 1 n - 2 ^ Suc j < max 1 n - 2 ^ j" by (intro diff_less_mono2) auto
    from less [OF this] True show ?thesis by (subst grow_size.simps) (simp add: mult.commute)
  next
    case False
    then have "grow_size n (2 ^ j) = 2 ^ j" by (subst grow_size.simps) simp
    then show ?thesis by blast
  qed
qed

lemma fill_leaves_snoc:
  "fill_leaves sz (ends @ [e]) tree = (fill_leaves sz ends tree)[sz + length ends := e]"
  by (simp add: fill_leaves_def enumerate_append_eq)

lemma length_fill_leaves [simp]: "length (fill_leaves sz ends tree) = length tree"
proof (induction ends rule: rev_induct)
  case Nil
  then show ?case by (simp add: fill_leaves_def)
qed (simp add: fill_leaves_snoc)

lemma fill_leaves_nth:
  "sz + length ends \<le> length tree \<Longrightarrow> i < length ends \<Longrightarrow> fill_leaves sz ends tree ! (sz + i) = ends ! i"
proof (induction ends rule: rev_induct)
  case (snoc e ends)
  then show ?case by (auto simp: fill_leaves_snoc nth_append nth_list_update less_Suc_eq)
qed simp

definition fill_from :: "nat \<Rightarrow> nat list \<Rightarrow> int list \<Rightarrow> int list" where
  "fill_from sz indices tree =
     foldl (\<lambda>tree index. tree[index := max (tree ! (2 * index)) (tree ! (2 * index + 1))]) tree indices"

lemma fill_inner_step:
  assumes "j < sz" "length tree = 2 * sz" "0 < j"
    and "\<forall>i. j < i \<and> i < sz \<longrightarrow> tree ! i = max (tree ! (2 * i)) (tree ! (2 * i + 1))"
  shows "let tree' = tree[j := max (tree ! (2 * j)) (tree ! (2 * j + 1))] in
    (\<forall>i. j \<le> i \<and> i < sz \<longrightarrow> tree' ! i = max (tree' ! (2 * i)) (tree' ! (2 * i + 1)))
    \<and> (\<forall>i. sz \<le> i \<longrightarrow> tree' ! i = tree ! i)"
  using assms by (auto simp: Let_def nth_list_update)

lemma fill_inner_heap_upto:
  assumes "length tree = 2 * sz" "n \<le> sz" "\<forall>i. n \<le> i \<and> i < sz \<longrightarrow> tree ! i = max (tree ! (2 * i)) (tree ! (2 * i + 1))"
  shows "let tree' = fill_from sz (rev [1..<n]) tree in
    length tree' = 2 * sz \<and> (\<forall>i. 1 \<le> i \<and> i < sz \<longrightarrow> tree' ! i = max (tree' ! (2 * i)) (tree' ! (2 * i + 1)))
    \<and> (\<forall>i. sz \<le> i \<longrightarrow> tree' ! i = tree ! i)"
  using assms
proof (induction n arbitrary: tree)
  case 0
  then show ?case by (simp add: fill_from_def)
next
  case (Suc n)
  show ?case
  proof (cases "n = 0")
    case True
    with Suc.prems show ?thesis by (simp add: fill_from_def)
  next
    case False
    define tree1 where "tree1 = tree[n := max (tree ! (2 * n)) (tree ! (2 * n + 1))]"
    have step: "\<forall>i. n \<le> i \<and> i < sz \<longrightarrow> tree1 ! i = max (tree1 ! (2 * i)) (tree1 ! (2 * i + 1))"
      "\<forall>i. sz \<le> i \<longrightarrow> tree1 ! i = tree ! i"
      using fill_inner_step [of n sz tree] Suc.prems False by (auto simp: tree1_def Let_def Suc_le_eq)
    have "rev [1..<Suc n] = n # rev [1..<n]" using False by simp
    then have "fill_from sz (rev [1..<Suc n]) tree = fill_from sz (rev [1..<n]) tree1"
      by (simp add: fill_from_def tree1_def)
    moreover have "length tree1 = 2 * sz" by (simp add: tree1_def Suc.prems)
    ultimately show ?thesis using Suc.IH [of tree1] step Suc.prems(2) by (simp add: Let_def)
  qed
qed

lemma fill_inner_heap:
  assumes "length tree = 2 * sz"
  shows "length (fill_inner sz tree) = 2 * sz"
    and "\<And>i. 1 \<le> i \<Longrightarrow> i < sz \<Longrightarrow> fill_inner sz tree ! i = max (fill_inner sz tree ! (2 * i)) (fill_inner sz tree ! (2 * i + 1))"
    and "\<And>i. sz \<le> i \<Longrightarrow> fill_inner sz tree ! i = tree ! i"
  using fill_inner_heap_upto [of tree sz sz] assms by (auto simp: fill_inner_def fill_from_def Let_def)

section \<open>The search returns the intervals that contain the row\<close>

text \<open>Slot \<open>slot\<close> stands for the leaves \<open>lo\<close> to \<open>lo + 2 ^ k - 1\<close>.\<close>

definition frame_at :: "nat \<Rightarrow> nat \<Rightarrow> nat \<times> nat \<times> nat \<Rightarrow> bool" where
  "frame_at sz k f \<longleftrightarrow> (case f of (slot, lo, hi) \<Rightarrow> slot * 2 ^ k = sz + lo \<and> Suc hi = lo + 2 ^ k \<and> hi < sz)"

definition heap_tree :: "nat \<Rightarrow> int list \<Rightarrow> bool" where
  "heap_tree sz tree \<longleftrightarrow> 0 < sz \<and> (\<forall>i. 1 \<le> i \<and> i < sz \<longrightarrow> tree ! i = max (tree ! (2 * i)) (tree ! (2 * i + 1)))"

lemma frame_at_children:
  assumes "frame_at sz (Suc k) (slot, lo, hi)"
  shows "frame_at sz k (2 * slot, lo, (lo + hi) div 2)" "frame_at sz k (2 * slot + 1, (lo + hi) div 2 + 1, hi)"
    and "1 \<le> slot" "slot < sz" "lo < hi" "(lo + hi) div 2 + 1 = lo + 2 ^ k"
proof -
  have e: "slot * 2 * 2 ^ k = sz + lo" "Suc hi = lo + 2 * 2 ^ k" "hi < sz"
    using assms by (simp_all add: frame_at_def mult.assoc)
  have p: "0 < (2 :: nat) ^ k" by simp
  show mid: "(lo + hi) div 2 + 1 = lo + 2 ^ k" using e(2) p by linarith
  show "lo < hi" using e(2) p by linarith
  show "frame_at sz k (2 * slot, lo, (lo + hi) div 2)" using e mid by (simp add: frame_at_def mult.commute)
  show "frame_at sz k (2 * slot + 1, (lo + hi) div 2 + 1, hi)"
    using e mid unfolding frame_at_def prod.case mid by (simp add: algebra_simps)
  show "1 \<le> slot" using e by (cases slot) auto
  have "slot * 2 \<le> slot * 2 * 2 ^ k" by simp
  then show "slot < sz" using e p by linarith
qed

lemma heap_tree_bound:
  assumes "heap_tree sz tree" "frame_at sz k (slot, lo, hi)" "lo \<le> j" "j \<le> hi"
  shows "tree ! (sz + j) \<le> tree ! slot"
  using assms(2-4)
proof (induction k arbitrary: slot lo hi)
  case 0
  then show ?case by (simp add: frame_at_def)
next
  case (Suc k)
  note c = frame_at_children [OF Suc.prems(1)]
  have m: "tree ! slot = max (tree ! (2 * slot)) (tree ! (2 * slot + 1))"
    using assms(1) c(3,4) by (simp add: heap_tree_def)
  show ?case
  proof (cases "j \<le> (lo + hi) div 2")
    case True
    from Suc.IH [OF c(1) Suc.prems(2) True] m show ?thesis by simp
  next
    case False
    then have "(lo + hi) div 2 + 1 \<le> j" by simp
    from Suc.IH [OF c(2) this Suc.prems(3)] m show ?thesis by simp
  qed
qed

definition hits :: "'a Intervals \<Rightarrow> nat \<Rightarrow> int \<Rightarrow> nat \<Rightarrow> nat \<Rightarrow> 'a list" where
  "hits iv limit row lo hi =
     map (\<lambda>i. iv_payloads iv ! i) (filter (\<lambda>i. i < limit \<and> row \<le> iv_ends iv ! i) [lo..<Suc hi])"

lemma hits_none: "\<forall>i. lo \<le> i \<and> i \<le> hi \<longrightarrow> limit \<le> i \<or> iv_ends iv ! i < row \<Longrightarrow> hits iv limit row lo hi = []"
  by (auto simp: hits_def filter_empty_conv)

lemma hits_append: "lo \<le> mid \<Longrightarrow> mid < hi \<Longrightarrow> hits iv limit row lo hi = hits iv limit row lo mid @ hits iv limit row (mid + 1) hi"
proof -
  assume a: "lo \<le> mid" "mid < hi"
  then have "[lo..<Suc hi] = [lo..<Suc mid] @ [Suc mid..<Suc hi]"
    using upt_add_eq_append [of lo "Suc mid" "hi - mid"] by simp
  then show ?thesis by (simp add: hits_def)
qed

lemma covering_loop_hits:
  assumes "heap_tree (iv_size iv) (iv_tree iv)"
    and "\<forall>i < limit. iv_tree iv ! (iv_size iv + i) = iv_ends iv ! i"
    and "\<forall>f \<in> set stack. \<exists>k. frame_at (iv_size iv) k f"
  shows "covering_loop iv limit row stack = concat (map (\<lambda>(slot, lo, hi). hits iv limit row lo hi) stack)"
  using assms
proof (induction iv limit row stack rule: covering_loop.induct)
  case (1 iv limit row)
  then show ?case by simp
next
  case (2 iv limit row slot lo hi stack)
  from "2.prems"(3) obtain k where k: "frame_at (iv_size iv) k (slot, lo, hi)" by auto
  show ?case
  proof (cases "lo \<ge> limit \<or> iv_tree iv ! slot < row")
    case True
    have "hits iv limit row lo hi = []"
    proof (rule hits_none, intro allI impI)
      fix i assume i: "lo \<le> i \<and> i \<le> hi"
      show "limit \<le> i \<or> iv_ends iv ! i < row"
        using True i heap_tree_bound [OF "2.prems"(1) k, of i] "2.prems"(2) by (cases "i < limit") auto
    qed
    with True 2 show ?thesis by simp
  next
    case visit: False
    show ?thesis
    proof (cases k)
      case 0
      then have "hi = lo" "slot = iv_size iv + lo" using k by (auto simp: frame_at_def)
      with visit 2 show ?thesis by (simp add: hits_def)
    next
      case (Suc m)
      note c = frame_at_children [OF k [unfolded Suc]]
      have "hits iv limit row lo hi = hits iv limit row lo ((lo + hi) div 2) @ hits iv limit row ((lo + hi) div 2 + 1) hi"
        using c(5) by (intro hits_append) auto
      moreover have "\<forall>f \<in> set ((2 * slot, lo, (lo + hi) div 2) # (2 * slot + 1, (lo + hi) div 2 + 1, hi) # stack).
          \<exists>k. frame_at (iv_size iv) k f"
        using c(1,2) "2.prems"(3) by auto
      ultimately show ?thesis
        using "2.IH"(3) [OF visit _ refl "2.prems"(1,2)] visit c(5) by (simp add: Let_def)
    qed
  qed
qed

lemma filter_nth: "map (\<lambda>i. f (xs ! i)) (filter (\<lambda>i. Q (xs ! i)) [0..<length xs]) = map f (filter Q xs)"
proof -
  have "filter Q xs = filter Q (map (\<lambda>i. xs ! i) [0..<length xs])" by (simp add: map_nth)
  then show ?thesis by (simp add: filter_map comp_def)
qed

lemma hits_filter:
  assumes "length xs \<le> sz" "0 < sz" "limit \<le> length xs"
    and "\<And>i. i < length xs \<Longrightarrow> i < limit \<longleftrightarrow> fst (xs ! i) \<le> row"
    and "iv_ends iv = map (fst \<circ> snd) xs" "iv_payloads iv = map (snd \<circ> snd) xs"
  shows "hits iv limit row 0 (sz - 1) = map (snd \<circ> snd) (filter (\<lambda>(start, end, payload). start \<le> row \<and> row \<le> end) xs)"
proof -
  let ?Q = "\<lambda>(start, end, payload). start \<le> row \<and> row \<le> end"
  have split: "[0..<Suc (sz - 1)] = [0..<length xs] @ [length xs..<sz]"
    using assms(1,2) upt_add_eq_append [of 0 "length xs" "sz - length xs"] by simp
  have "filter (\<lambda>i. i < limit \<and> row \<le> iv_ends iv ! i) [length xs..<sz] = []"
    using assms(3) by (auto simp: filter_empty_conv)
  moreover have "filter (\<lambda>i. i < limit \<and> row \<le> iv_ends iv ! i) [0..<length xs] = filter (\<lambda>i. ?Q (xs ! i)) [0..<length xs]"
    using assms(4) by (intro filter_cong refl) (auto simp: assms(5) split: prod.splits)
  moreover have "map (\<lambda>i. iv_payloads iv ! i) (filter Q [0..<length xs]) = map (\<lambda>i. (snd \<circ> snd) (xs ! i)) (filter Q [0..<length xs])" for Q
    by (intro map_cong refl) (auto simp: assms(6))
  ultimately show ?thesis by (simp only: hits_def split filter_append append_Nil2 filter_nth)
qed

lemma make_intervals_tree:
  assumes "sz = iv_size (make_intervals items)" "i < length items"
  shows "heap_tree sz (iv_tree (make_intervals items))"
    and "iv_tree (make_intervals items) ! (sz + i) = iv_ends (make_intervals items) ! i"
proof -
  let ?ends = "map (fst \<circ> snd) (sort_key fst items)"
  have sz: "sz = grow_size (length items) 1" using assms(1) by (simp add: make_intervals_def Let_def)
  have ge: "length items \<le> sz" "0 < sz" using grow_size_ge [of 1 "length items"] by (simp_all add: sz)
  have tree: "iv_tree (make_intervals items) = fill_inner sz (fill_leaves sz ?ends (replicate (2 * sz) (-1)))"
    "iv_ends (make_intervals items) = ?ends"
    by (simp_all add: make_intervals_def Let_def sz)
  note heap = fill_inner_heap [of "fill_leaves sz ?ends (replicate (2 * sz) (-1))" sz]
  show "heap_tree sz (iv_tree (make_intervals items))" using heap(2) ge by (simp add: tree heap_tree_def)
  show "iv_tree (make_intervals items) ! (sz + i) = iv_ends (make_intervals items) ! i"
    using heap(3) fill_leaves_nth [of sz ?ends "replicate (2 * sz) (-1)" i] ge assms(2) by (simp add: tree)
qed

lemma iv_covering_exact:
  "iv_covering (make_intervals items) row =
   map (snd \<circ> snd) (filter (\<lambda>(start, end, payload). start \<le> row \<and> row \<le> end) (sort_key fst items))"
proof (cases "items = []")
  case True
  then show ?thesis by (simp add: iv_covering_def make_intervals_def Let_def bisect_right_def bisect_right_loop.simps)
next
  case False
  let ?iv = "make_intervals items" and ?xs = "sort_key fst items"
  define sz where "sz = iv_size ?iv"
  have szd: "sz = grow_size (length items) 1" by (simp add: sz_def make_intervals_def Let_def)
  have ge: "length ?xs \<le> sz" "0 < sz" using grow_size_ge [of 1 "length items"] by (simp_all add: szd)
  obtain k where k: "sz = 2 ^ k" using grow_size_power [of "length items" 0] by (auto simp: szd)
  define limit where "limit = bisect_right (\<lambda>x. x) (map fst ?xs) row"
  have srt: "sorted (map (\<lambda>x. x) (map fst ?xs))" by simp
  have limit: "limit \<le> length ?xs" using bisect_right_spec(1) [OF srt, of row] by (simp add: limit_def)
  have below: "i < limit \<longleftrightarrow> fst (?xs ! i) \<le> row" if "i < length ?xs" for i
    using bisect_right_spec(2) [OF srt, where i = i and x = row] bisect_right_spec(3) [OF srt, where i = i and x = row] that
    by (force simp: limit_def not_less)
  have "covering_loop ?iv limit row [(1, 0, sz - 1)] = hits ?iv limit row 0 (sz - 1)"
  proof -
    have "heap_tree (iv_size ?iv) (iv_tree ?iv)" using make_intervals_tree(1) [OF sz_def, of 0] False by (simp add: sz_def)
    moreover have "\<forall>i < limit. iv_tree ?iv ! (iv_size ?iv + i) = iv_ends ?iv ! i"
      using make_intervals_tree(2) [OF sz_def] limit by (simp add: sz_def)
    moreover have "\<forall>f \<in> set [(1, 0, sz - 1)]. \<exists>k. frame_at (iv_size ?iv) k f"
      using k by (auto simp: sz_def [symmetric] frame_at_def intro: exI [of _ k])
    ultimately show ?thesis using covering_loop_hits [of ?iv limit "[(1, 0, sz - 1)]" row] by simp
  qed
  moreover have "hits ?iv limit row 0 (sz - 1) = map (snd \<circ> snd) (filter (\<lambda>(start, end, payload). start \<le> row \<and> row \<le> end) ?xs)"
    by (rule hits_filter [OF ge limit below]) (simp_all add: make_intervals_def Let_def)
  moreover have "hits ?iv 0 row 0 (sz - 1) = []" by (rule hits_none) simp
  moreover have "iv_starts ?iv = map fst ?xs" by (simp add: make_intervals_def Let_def)
  ultimately show ?thesis
    by (cases "limit = 0") (simp_all add: iv_covering_def limit_def [symmetric] sz_def [symmetric])
qed

section \<open>The index returns the nodes that contain the cell\<close>

definition contains_cell :: "string \<Rightarrow> int \<Rightarrow> int \<Rightarrow> RangeNode \<Rightarrow> bool" where
  "contains_cell sheet col row node \<longleftrightarrow>
     rn_sheet node = sheet \<and> rn_c1 node \<le> col \<and> col \<le> rn_c2 node \<and> rn_r1 node \<le> row \<and> row \<le> rn_r2 node"

abbreviation node_item :: "RangeNode \<Rightarrow> int \<times> int \<times> RangeNode" where
  "node_item node \<equiv> (rn_r1 node, rn_r2 node, node)"

lemma index_columns:
  "distinct cols \<Longrightarrow> dict_get (foldl (\<lambda>narrow col. dict_alter (s, col) [] (\<lambda>items. items @ [item]) narrow) narrow cols) (sheet, col) [] =
     dict_get narrow (sheet, col) [] @ (if s = sheet \<and> col \<in> set cols then [item] else [])"
  by (induction cols arbitrary: narrow) (auto simp: dict_get_def)

lemma index_nodes:
  "dict_get (fst (foldl index_node ([], []) nodes)) (sheet, col) [] =
     map node_item (filter (\<lambda>n. is_narrow n \<and> rn_sheet n = sheet \<and> rn_c1 n \<le> col \<and> col \<le> rn_c2 n) nodes)
   \<and> dict_get (snd (foldl index_node ([], []) nodes)) sheet [] =
     map node_item (filter (\<lambda>n. \<not> is_narrow n \<and> rn_sheet n = sheet) nodes)"
proof (induction nodes rule: rev_induct)
  case Nil
  then show ?case by (simp add: dict_get_def)
next
  case (snoc n nodes)
  obtain narrow wide where st: "foldl index_node ([], []) nodes = (narrow, wide)" by fastforce
  have "dict_get narrow (sheet, col) [] =
      map node_item (filter (\<lambda>n. is_narrow n \<and> rn_sheet n = sheet \<and> rn_c1 n \<le> col \<and> col \<le> rn_c2 n) nodes)"
    "dict_get wide sheet [] = map node_item (filter (\<lambda>n. \<not> is_narrow n \<and> rn_sheet n = sheet) nodes)"
    using snoc by (simp_all add: st)
  then show ?case
    unfolding foldl_append foldl_Cons foldl_Nil st by (simp add: index_node_def Let_def index_columns dict_get_alter)
qed

lemma lookup_intervals:
  "(case map_of (map (\<lambda>(key, items). (key, make_intervals items)) d) k of None \<Rightarrow> [] | Some iv \<Rightarrow> iv_covering iv row) =
     iv_covering (make_intervals (dict_get d k [])) row"
  by (simp add: map_of_map dict_get_def iv_covering_exact split: option.split)

lemma insort_key_map: "insort_key f (g x) (map g ys) = map g (insort_key (f \<circ> g) x ys)"
  by (induction ys) simp_all

lemma sort_key_map: "sort_key f (map g xs) = map g (sort_key (f \<circ> g) xs)"
  by (induction xs) (simp_all add: insort_key_map comp_def)

lemma covering_items:
  "iv_covering (make_intervals (map node_item nodes)) row =
     sort_key rn_r1 (filter (\<lambda>n. rn_r1 n \<le> row \<and> row \<le> rn_r2 n) nodes)"
proof -
  have "sort_key fst (map node_item nodes) = map node_item (sort_key rn_r1 nodes)"
    by (simp add: sort_key_map comp_def)
  then show ?thesis by (simp add: iv_covering_exact filter_map comp_def filter_sort)
qed

lemma ci_covering_exact:
  "ci_covering (make_cover_index nodes) sheet col row =
     sort_key rn_r1 (filter (\<lambda>n. is_narrow n \<and> contains_cell sheet col row n) nodes)
     @ sort_key rn_r1 (filter (\<lambda>n. \<not> is_narrow n \<and> contains_cell sheet col row n) nodes)"
proof -
  obtain narrow wide where st: "foldl index_node ([], []) nodes = (narrow, wide)" by fastforce
  have wide: "(case map_of (map (\<lambda>(key, items). (key, make_intervals items)) wide) sheet of None \<Rightarrow> []
      | Some spread \<Rightarrow> filter (\<lambda>node. rn_c1 node \<le> col \<and> col \<le> rn_c2 node) (iv_covering spread row)) =
    filter (\<lambda>node. rn_c1 node \<le> col \<and> col \<le> rn_c2 node) (iv_covering (make_intervals (dict_get wide sheet [])) row)"
    by (simp add: lookup_intervals [symmetric] split: option.split)
  have "dict_get narrow (sheet, col) [] =
      map node_item (filter (\<lambda>n. is_narrow n \<and> rn_sheet n = sheet \<and> rn_c1 n \<le> col \<and> col \<le> rn_c2 n) nodes)"
    "dict_get wide sheet [] = map node_item (filter (\<lambda>n. \<not> is_narrow n \<and> rn_sheet n = sheet) nodes)"
    using index_nodes [of nodes sheet col] by (simp_all add: st)
  then show ?thesis
    by (simp add: ci_covering_def make_cover_index_def st lookup_intervals wide covering_items filter_sort contains_cell_def
        conj_ac cong: filter_cong)
qed

section \<open>Members and first cells\<close>

text \<open>A node as the readers hold it: the parsed form of its own id.\<close>

definition parsed_node :: "RangeNode \<Rightarrow> bool" where
  "parsed_node node \<longleftrightarrow> parse_range_node (node_id node) = Some node"

lemma parsed_node_bounds: "parsed_node node \<Longrightarrow> 1 \<le> rn_c1 node \<and> rn_c1 node \<le> rn_c2 node \<and> 0 \<le> rn_r1 node \<and> rn_r1 node \<le> rn_r2 node"
  by (cases node) (auto simp: parsed_node_def parse_range_node_def dest!: rectangle_bounds split: if_splits option.splits prod.splits)

text \<open>The first member in row-major order, by listing the members.\<close>

definition first_member :: "SheetUsage \<Rightarrow> RangeNode \<Rightarrow> (int \<times> int) option" where
  "first_member usage node =
     (if \<not> node_whole node then Some (rn_c1 node, rn_r1 node)
      else case node_present_pairs node usage of [] \<Rightarrow> None | (row, col) # _ \<Rightarrow> Some (col, row))"

definition memo_consistent :: "CellGrid \<Rightarrow> bool" where
  "memo_consistent grid \<longleftrightarrow> usage_ok (cg_usage grid) \<and>
     (\<forall>(nid, found) \<in> set (cg_first grid). \<exists>node. parse_range_node nid = Some node \<and> node_whole node \<and> node_id node = nid
        \<and> found = first_member (cg_usage grid) node)"

lemma usage_ok_sheet_usage: "usage_ok (sheet_usage nodes)"
  by (simp add: sheet_usage_def usage_ok_sheet_usage_spans)

lemma from_cells_consistent: "memo_consistent (from_cells ids)"
  by (simp add: memo_consistent_def from_cells_def grid_of_usage_def usage_ok_sheet_usage)

lemma first_member_present:
  assumes "usage_ok usage" "parsed_node node" "node_whole node"
  shows "map_option (\<lambda>(row, col). (col, row)) (node_first_present node usage) = first_member usage node"
  using first_present_hd [OF assms(1)] parsed_node_bounds [OF assms(2)] assms(3)
  by (simp add: node_first_present_def first_member_def node_present_pairs_def split: list.split)

lemma grid_first_correct:
  assumes "memo_consistent grid" "parsed_node node"
  shows "fst (grid_first grid node) = first_member (cg_usage grid) node \<and> memo_consistent (snd (grid_first grid node))
    \<and> cg_usage (snd (grid_first grid node)) = cg_usage grid"
proof (cases "node_whole node")
  case False
  with assms show ?thesis by (simp add: grid_first_def first_member_def)
next
  case whole: True
  show ?thesis
  proof (cases "map_of (cg_first grid) (node_id node)")
    case None
    have "map_option (\<lambda>(row, col). (col, row)) (node_first_present node (cg_usage grid)) = first_member (cg_usage grid) node"
      using assms whole by (intro first_member_present) (simp_all add: memo_consistent_def)
    with None whole assms show ?thesis by (auto simp: grid_first_def Let_def memo_consistent_def parsed_node_def)
  next
    case (Some found)
    then have "(node_id node, found) \<in> set (cg_first grid)" by (rule map_of_SomeD)
    then have "found = first_member (cg_usage grid) node" using assms by (auto simp: memo_consistent_def parsed_node_def)
    with Some whole assms show ?thesis by (simp add: grid_first_def)
  qed
qed

text \<open>A reader asks for the first cells of a sequence of nodes.\<close>

fun firsts :: "CellGrid \<Rightarrow> RangeNode list \<Rightarrow> (int \<times> int) option list" where
  "firsts grid [] = []"
| "firsts grid (node # nodes) = (case grid_first grid node of (found, grid) \<Rightarrow> found # firsts grid nodes)"

lemma firsts_correct:
  "memo_consistent grid \<Longrightarrow> list_all parsed_node nodes \<Longrightarrow> firsts grid nodes = map (first_member (cg_usage grid)) nodes"
proof (induction nodes arbitrary: grid)
  case (Cons node nodes)
  obtain found grid' where g: "grid_first grid node = (found, grid')" by fastforce
  with grid_first_correct [of grid node] Cons show ?case by simp
qed simp

lemma column_cells_entry:
  assumes "columns_ok cols"
  shows "(row, col) \<in> column_cells cols \<longleftrightarrow> (\<exists>spans. (col, spans) \<in> set cols \<and> row \<in> rows_of spans)"
proof -
  have d: "distinct (map fst cols)" using assms by (simp add: columns_ok_def)
  show ?thesis
    unfolding column_cells_def dict_get_def mem_Collect_eq prod.case map_of_eq_Some_iff [OF d, symmetric]
    by (cases "map_of cols col") simp_all
qed

lemma list_ex_overlap:
  assumes "spans_ok spans" "lo \<le> hi"
  shows "list_ex (\<lambda>(start, end). \<not> (end < lo \<or> start > hi)) spans \<longleftrightarrow> (\<exists>row \<in> rows_of spans. lo \<le> row \<and> row \<le> hi)"
proof
  assume "list_ex (\<lambda>(start, end). \<not> (end < lo \<or> start > hi)) spans"
  then obtain s where s: "s \<in> set spans" "lo \<le> snd s" "fst s \<le> hi" by (auto simp: list_ex_iff)
  then have "max lo (fst s) \<in> rows_of spans"
    using assms by (auto simp: rows_of_def spans_ok_def list_all_iff intro!: bexI [of _ s])
  then show "\<exists>row \<in> rows_of spans. lo \<le> row \<and> row \<le> hi" using s assms(2) by (intro bexI [of _ "max lo (fst s)"]) auto
next
  assume "\<exists>row \<in> rows_of spans. lo \<le> row \<and> row \<le> hi"
  then obtain row s where s: "s \<in> set spans" "fst s \<le> row" "row \<le> snd s" "lo \<le> row" "row \<le> hi" by (auto simp: rows_of_def)
  have "(\<lambda>(start, end). \<not> (end < lo \<or> start > hi)) s" using s(2-5) by (auto split: prod.split)
  with s(1) show "list_ex (\<lambda>(start, end). \<not> (end < lo \<or> start > hi)) spans" unfolding list_ex_iff by blast
qed

lemma member_columns_set:
  assumes "usage_ok (cg_usage grid)" "parsed_node node" "node_whole node" "sheet_name (cg_usage grid) (rn_sheet node) = rn_sheet node"
  shows "set (member_columns grid node) = snd ` set (node_present_pairs node (cg_usage grid))"
proof -
  let ?cols = "usage_columns (cg_usage grid) (rn_sheet node)"
  have ok: "columns_ok ?cols" by (rule columns_ok_usage [OF assms(1)])
  have pairs: "set (node_present_pairs node (cg_usage grid)) =
      {p \<in> column_cells ?cols. in_rect (rn_c1 node) (rn_c2 node) (rn_r1 node) (rn_r2 node) p}"
    using present_pairs_facts(3) [OF assms(1)] assms(4) by (simp add: node_present_pairs_def cells_of_def)
  have overlap: "list_ex (\<lambda>(start, end). \<not> (end < rn_r1 node \<or> start > rn_r2 node)) spans \<longleftrightarrow>
      (\<exists>row \<in> rows_of spans. rn_r1 node \<le> row \<and> row \<le> rn_r2 node)" if "(col, spans) \<in> set ?cols" for col spans
    using ok that parsed_node_bounds [OF assms(2)] by (intro list_ex_overlap) (auto simp: columns_ok_def list_all_iff)
  have "col \<in> set (member_columns grid node) \<longleftrightarrow>
      (\<exists>spans. (col, spans) \<in> set ?cols \<and> rn_c1 node \<le> col \<and> col \<le> rn_c2 node
        \<and> (\<exists>row \<in> rows_of spans. rn_r1 node \<le> row \<and> row \<le> rn_r2 node))" for col
    using assms(3) overlap by (force simp: member_columns_def image_iff)
  then show ?thesis
    unfolding pairs by (auto simp: column_cells_entry [OF ok] in_rect_def image_iff set_eq_iff)
qed

section \<open>Properties\<close>

text \<open>
  C35. The index of range nodes answers a cell query exactly: whatever the nodes, the query for a cell
  lists every node whose sheet and bounds contain the cell, each as often as it was given,
  first the narrow nodes and then the wide ones, each group by its first row and otherwise in
  the order given. The maximum tree and the split by width leave nothing out and add nothing.
\<close>

theorem cover_index_exact:
  "ci_covering (make_cover_index nodes) sheet col row =
     sort_key rn_r1 (filter (\<lambda>n. is_narrow n \<and> contains_cell sheet col row n) nodes)
     @ sort_key rn_r1 (filter (\<lambda>n. \<not> is_narrow n \<and> contains_cell sheet col row n) nodes)"
  by (rule ci_covering_exact)

text \<open>
  The memo of first cells never changes an answer: however many nodes a reader asks for, in
  whatever order and with repetitions, each answer is the corner of a bounded node and the
  first member in row-major order of a whole column or row, none when it has no cell.
\<close>

theorem grid_first_memo_sound:
  assumes "list_all parsed_node nodes"
  shows "firsts (from_cells ids) nodes = map (first_member (sheet_usage ids)) nodes"
  using firsts_correct [OF from_cells_consistent assms] by (simp add: from_cells_def grid_of_usage_def)

theorem grid_first_memo_sound_witness:
  "let n = the (parse_range_node ''S!B:C'') in
   firsts (from_cells [''S!C2'', ''S!B7'', ''S!A1'']) [n, n] = [Some (3, 2), Some (3, 2)]"
proof -
  have "list_all parsed_node [the (parse_range_node ''S!B:C''), the (parse_range_node ''S!B:C'')]" by code_simp
  from grid_first_memo_sound [OF this, of "[''S!C2'', ''S!B7'', ''S!A1'']"]
  have "firsts (from_cells [''S!C2'', ''S!B7'', ''S!A1'']) [the (parse_range_node ''S!B:C''), the (parse_range_node ''S!B:C'')] =
      map (first_member (sheet_usage [''S!C2'', ''S!B7'', ''S!A1''])) [the (parse_range_node ''S!B:C''), the (parse_range_node ''S!B:C'')]" .
  moreover have "first_member (sheet_usage [''S!C2'', ''S!B7'', ''S!A1'']) (the (parse_range_node ''S!B:C'')) = Some (3, 2)" by code_simp
  ultimately show ?thesis by simp
qed

end
