(* ===== verification/Range_Hops.thy ===== *)
theory Range_Hops
  imports Range_Cover
begin

text \<open>
  The second half of \<open>src/finance_context/graph/ranges.py\<close>: the edges that let a pass over
  strongly connected components see through range nodes (\<open>RangeHops\<close>, \<open>_cover\<close>,
  \<open>hop_flags\<close>). The set \<open>_made\<close> of segments already expanded is threaded through the calls.
  The main result: following the hop edges from a node ends exactly at the formula cells
  inside the node's bounds.
\<close>

section \<open>Segments that cover a span\<close>

text \<open>
  The stack of \<open>_cover\<close>, head first. A segment of one element is either outside or inside the
  wanted span, so the third branch is never taken; it makes the loop total.
\<close>

function cover_loop :: "nat \<Rightarrow> nat \<Rightarrow> (nat \<times> nat) list \<Rightarrow> (nat \<times> nat) list" where
  "cover_loop want_lo want_hi [] = []"
| "cover_loop want_lo want_hi ((a, b) # stack) =
     (if b < want_lo \<or> a > want_hi then cover_loop want_lo want_hi stack
      else if want_lo \<le> a \<and> b \<le> want_hi then (a, b) # cover_loop want_lo want_hi stack
      else if b \<le> a then cover_loop want_lo want_hi stack
      else
        let mid = (a + b) div 2 in
        cover_loop want_lo want_hi ((a, mid) # (mid + 1, b) # stack))"
  by pat_completeness auto
termination
  by (relation "measure (\<lambda>(lo, hi, stack). sum_list (map (\<lambda>(a, b). 2 * (b - a) + 1) stack))") auto

declare cover_loop.simps(2) [simp del]

definition cover_segments :: "nat \<Rightarrow> nat \<Rightarrow> nat \<Rightarrow> nat \<Rightarrow> (nat \<times> nat) list" where
  "cover_segments lo hi want_lo want_hi = cover_loop want_lo want_hi [(lo, hi)]"

section \<open>Hops\<close>

type_synonym segment = "string \<times> int \<times> nat \<times> nat"

record RangeHops =
  rh_rows :: "((string \<times> int) \<times> int list) list"
  rh_columns :: "(string \<times> int list) list"
  rh_made :: "segment set"

definition hop_rows :: "string list \<Rightarrow> ((string \<times> int) \<times> int list) list" where
  "hop_rows formula_cells =
     foldl (\<lambda>rows cell.
       case parse_node_id (Some cell) of
         None \<Rightarrow> rows
       | Some (sheet, col, row) \<Rightarrow>
           if CHR '':'' \<in> set cell then rows
           else dict_alter (sheet, col) [] (\<lambda>values. values @ [row]) rows)
     [] formula_cells"

definition make_hops :: "string list \<Rightarrow> RangeHops" where
  "make_hops formula_cells =
     (let rows = map (\<lambda>(key, values). (key, sort (remdups values))) (hop_rows formula_cells);
          columns = foldl (\<lambda>columns ((sheet, col), _). dict_alter sheet [] (\<lambda>cols. cols @ [col]) columns) [] rows
      in \<lparr>rh_rows = rows, rh_columns = map (\<lambda>(sheet, cols). (sheet, sort cols)) columns, rh_made = {}\<rparr>)"

abbreviation rows_at :: "RangeHops \<Rightarrow> string \<Rightarrow> int \<Rightarrow> int list" where
  "rows_at hops sheet col \<equiv> dict_get (rh_rows hops) (sheet, col) []"

definition hop_cols :: "RangeHops \<Rightarrow> RangeNode \<Rightarrow> int list" where
  "hop_cols hops node =
     (let cols = dict_get (rh_columns hops) (rn_sheet node) [];
          lo = bisect_left (\<lambda>x. x) cols (rn_c1 node);
          hi = bisect_right (\<lambda>x. x) cols (rn_c2 node)
      in take (hi - lo) (drop lo cols))"

text \<open>The upper bound is \<open>bisect_right(...) - 1\<close>, so \<open>lo <= hi\<close> is \<open>lo < bisect_right(...)\<close>.\<close>

definition hop_span :: "RangeHops \<Rightarrow> RangeNode \<Rightarrow> int \<Rightarrow> (nat \<times> nat) option" where
  "hop_span hops node col =
     (let rows = rows_at hops (rn_sheet node) col;
          lo = bisect_left (\<lambda>x. x) rows (rn_r1 node);
          after = bisect_right (\<lambda>x. x) rows (rn_r2 node)
      in if lo < after then Some (lo, after - 1) else None)"

definition hop_members :: "RangeHops \<Rightarrow> RangeNode \<Rightarrow> string list" where
  "hop_members hops node =
     concat (map (\<lambda>col.
       case hop_span hops node col of
         None \<Rightarrow> []
       | Some (lo, hi) \<Rightarrow>
           map (\<lambda>index. rn_sheet node @ ''!'' @ index_to_col col @ int_str (rows_at hops (rn_sheet node) col ! index))
             [lo..<Suc hi])
     (hop_cols hops node))"

definition SEGMENT_PREFIX :: string where
  "SEGMENT_PREFIX = ''#seg|''"

definition hop_name :: "RangeHops \<Rightarrow> string \<Rightarrow> int \<Rightarrow> nat \<Rightarrow> nat \<Rightarrow> string" where
  "hop_name hops sheet col lo hi =
     (if lo = hi then sheet @ ''!'' @ index_to_col col @ int_str (rows_at hops sheet col ! lo)
      else SEGMENT_PREFIX @ sheet @ ''|'' @ int_str col @ ''|'' @ nat_str lo @ ''|'' @ nat_str hi)"

text \<open>The stack of \<open>_tree\<close>, head first; a segment has \<open>a \<le> b\<close>.\<close>

function tree_loop :: "RangeHops \<Rightarrow> string \<Rightarrow> int \<Rightarrow> segment set \<Rightarrow> (nat \<times> nat) list \<Rightarrow> (string \<times> string) list \<times> segment set" where
  "tree_loop hops sheet col made [] = ([], made)"
| "tree_loop hops sheet col made ((a, b) # stack) =
     (if b \<le> a \<or> (sheet, col, a, b) \<in> made then tree_loop hops sheet col made stack
      else
        let mid = (a + b) div 2; parent = hop_name hops sheet col a b in
        case tree_loop hops sheet col (insert (sheet, col, a, b) made) ((mid + 1, b) # (a, mid) # stack) of
          (edges, made) \<Rightarrow>
            ((parent, hop_name hops sheet col a mid) # (parent, hop_name hops sheet col (mid + 1) b) # edges, made))"
  by pat_completeness auto
termination
  by (relation "measure (\<lambda>(hops, sheet, col, made, stack). sum_list (map (\<lambda>(a, b). 2 * (b - a) + 1) stack))") auto

declare tree_loop.simps(2) [simp del]

fun seg_edges :: "RangeHops \<Rightarrow> RangeNode \<Rightarrow> int \<Rightarrow> segment set \<Rightarrow> (nat \<times> nat) list \<Rightarrow> (string \<times> string) list \<times> segment set" where
  "seg_edges hops node col made [] = ([], made)"
| "seg_edges hops node col made ((lo, hi) # segs) =
     (case tree_loop hops (rn_sheet node) col made [(lo, hi)] of
        (inner, made) \<Rightarrow>
          case seg_edges hops node col made segs of
            (later, made) \<Rightarrow> ((node_id node, hop_name hops (rn_sheet node) col lo hi) # inner @ later, made))"

fun col_edges :: "RangeHops \<Rightarrow> RangeNode \<Rightarrow> segment set \<Rightarrow> int list \<Rightarrow> (string \<times> string) list \<times> segment set" where
  "col_edges hops node made [] = ([], made)"
| "col_edges hops node made (col # cols) =
     (case hop_span hops node col of
        None \<Rightarrow> col_edges hops node made cols
      | Some (lo, hi) \<Rightarrow>
          (case seg_edges hops node col made
                  (cover_segments 0 (length (rows_at hops (rn_sheet node) col) - 1) lo hi) of
             (here, made) \<Rightarrow>
               case col_edges hops node made cols of (later, made) \<Rightarrow> (here @ later, made)))"

definition hop_edges :: "RangeHops \<Rightarrow> RangeNode \<Rightarrow> (string \<times> string) list \<times> RangeHops" where
  "hop_edges hops node =
     (case col_edges hops node (rh_made hops) (hop_cols hops node) of
        (edges, made) \<Rightarrow> (edges, hops\<lparr>rh_made := made\<rparr>))"

definition hop_flags ::
  "(string \<Rightarrow> int option) \<Rightarrow> (string \<times> RangeNode) list \<Rightarrow> RangeHops \<Rightarrow> (string \<Rightarrow> string \<Rightarrow> bool) \<Rightarrow> (int \<times> bool \<times> bool) list"
where
  "hop_flags label_of range_edges hops period_chain =
     concat (map (\<lambda>(source, node).
       case label_of source of
         None \<Rightarrow> []
       | Some label \<Rightarrow>
           if label_of (node_id node) \<noteq> Some label then []
           else map (\<lambda>member. (label, period_chain source member, member = source))
                  (filter (\<lambda>member. label_of member = Some label) (hop_members hops node)))
     range_edges)"

section \<open>The cover is exact\<close>

lemma cover_loop_exact:
  assumes "want_lo \<le> want_hi" "\<forall>(a, b) \<in> set stack. a \<le> b"
  shows "concat (map (\<lambda>(a, b). [a..<Suc b]) (cover_loop want_lo want_hi stack)) =
      concat (map (\<lambda>(a, b). filter (\<lambda>i. want_lo \<le> i \<and> i \<le> want_hi) [a..<Suc b]) stack)
    \<and> (\<forall>(a, b) \<in> set (cover_loop want_lo want_hi stack). a \<le> b \<and> want_lo \<le> a \<and> b \<le> want_hi)"
  using assms
proof (induction want_lo want_hi stack rule: cover_loop.induct)
  case (1 want_lo want_hi)
  then show ?case by simp
next
  case (2 want_lo want_hi a b stack)
  let ?F = "\<lambda>a b. filter (\<lambda>i. want_lo \<le> i \<and> i \<le> want_hi) [a..<Suc b]"
  have ab: "a \<le> b" "\<forall>(a, b) \<in> set stack. a \<le> b" using "2.prems" by auto
  consider (out) "b < want_lo \<or> a > want_hi" | (inside) "want_lo \<le> a" "b \<le> want_hi"
    | (split) "\<not> (b < want_lo \<or> a > want_hi)" "\<not> (want_lo \<le> a \<and> b \<le> want_hi)" by blast
  then show ?case
  proof cases
    case out
    then have "?F a b = []" by (auto simp: filter_empty_conv)
    with out 2 ab show ?thesis by (simp add: cover_loop.simps(2))
  next
    case inside
    then have f: "?F a b = [a..<Suc b]" by (auto simp: filter_id_conv)
    from inside ab have "\<not> (b < want_lo \<or> a > want_hi)" by auto
    with inside 2 ab f show ?thesis by (auto simp: cover_loop.simps(2))
  next
    case split
    then have lt: "a < b" using "2.prems"(1) ab by auto
    let ?mid = "(a + b) div 2"
    have mid: "a \<le> ?mid" "?mid < b" using lt by auto
    then have "[a..<Suc b] = [a..<Suc ?mid] @ [Suc ?mid..<Suc b]"
      using upt_add_eq_append [of a "Suc ?mid" "b - ?mid"] by simp
    then have F: "?F a b = ?F a ?mid @ ?F (?mid + 1) b" by (simp only: filter_append Suc_eq_plus1)
    have st: "\<forall>(a, b) \<in> set ((a, ?mid) # (?mid + 1, b) # stack). a \<le> b" using ab mid by auto
    have loop: "cover_loop want_lo want_hi ((a, b) # stack) = cover_loop want_lo want_hi ((a, ?mid) # (?mid + 1, b) # stack)"
      using split lt by (subst cover_loop.simps(2)) (auto simp: Let_def)
    have "\<not> b \<le> a" using lt by simp
    from "2.IH"(4) [OF split(1,2) this refl "2.prems"(1) st] show ?thesis
      unfolding loop list.map concat.simps prod.case F append_assoc by blast
  qed
qed

lemma cover_segments_exact:
  assumes "lo \<le> want_lo" "want_lo \<le> want_hi" "want_hi \<le> hi"
  shows "concat (map (\<lambda>(a, b). [a..<Suc b]) (cover_segments lo hi want_lo want_hi)) = [want_lo..<Suc want_hi]"
    and "\<forall>(a, b) \<in> set (cover_segments lo hi want_lo want_hi). a \<le> b \<and> want_lo \<le> a \<and> b \<le> want_hi"
proof -
  have "[lo..<Suc hi] = [lo..<want_lo] @ [want_lo..<Suc want_hi] @ [Suc want_hi..<Suc hi]"
    using assms upt_add_eq_append [of lo want_lo "Suc hi - want_lo"] upt_add_eq_append [of want_lo "Suc want_hi" "hi - want_hi"] by simp
  then have "filter (\<lambda>i. want_lo \<le> i \<and> i \<le> want_hi) [lo..<Suc hi] = [want_lo..<Suc want_hi]"
    by (auto simp: filter_empty_conv filter_id_conv)
  with cover_loop_exact [of want_lo want_hi "[(lo, hi)]"] assms
  show "concat (map (\<lambda>(a, b). [a..<Suc b]) (cover_segments lo hi want_lo want_hi)) = [want_lo..<Suc want_hi]"
    "\<forall>(a, b) \<in> set (cover_segments lo hi want_lo want_hi). a \<le> b \<and> want_lo \<le> a \<and> b \<le> want_hi"
    by (auto simp: cover_segments_def)
qed

section \<open>Members of a node\<close>

lemma sorted_takeWhile_le: "sorted xs \<Longrightarrow> takeWhile (\<lambda>x. x \<le> (hi :: int)) xs = filter (\<lambda>x. x \<le> hi) xs"
proof (induction xs)
  case (Cons x xs)
  have "filter (\<lambda>x. x \<le> hi) xs = []" if "\<not> x \<le> hi" using that Cons.prems by (force simp: filter_empty_conv)
  with Cons show ?case by auto
qed simp

lemma sorted_dropWhile_less: "sorted xs \<Longrightarrow> dropWhile (\<lambda>x. x < (lo :: int)) xs = filter (\<lambda>x. lo \<le> x) xs"
proof (induction xs)
  case (Cons x xs)
  have "filter (\<lambda>x. lo \<le> x) xs = xs" if "\<not> x < lo" using that Cons.prems by (force simp: filter_id_conv)
  with Cons show ?case by auto
qed simp

lemma bisect_left_drop:
  fixes xs :: "int list"
  assumes "sorted xs"
  shows "drop (bisect_left (\<lambda>x. x) xs lo) xs = filter (\<lambda>x. lo \<le> x) xs"
proof -
  have s: "sorted (map (\<lambda>x. x) xs)" using assms by simp
  note spec = bisect_left_spec [OF s, where x = lo]
  have "takeWhile (\<lambda>x. x < lo) xs = take (bisect_left (\<lambda>x. x) xs lo) xs"
    by (rule takeWhile_eq_take_P_nth) (use spec(2) spec(3) [of "bisect_left (\<lambda>x. x) xs lo"] in \<open>auto simp: not_less\<close>)
  then have "dropWhile (\<lambda>x. x < lo) xs = drop (bisect_left (\<lambda>x. x) xs lo) xs"
    using spec(1) by (simp add: dropWhile_eq_drop)
  with sorted_dropWhile_less [OF assms] show ?thesis by simp
qed

lemma bisect_right_take:
  fixes xs :: "int list"
  assumes "sorted xs"
  shows "take (bisect_right (\<lambda>x. x) xs hi) xs = filter (\<lambda>x. x \<le> hi) xs"
proof -
  have s: "sorted (map (\<lambda>x. x) xs)" using assms by simp
  note spec = bisect_right_spec [OF s, where x = hi]
  have "takeWhile (\<lambda>x. x \<le> hi) xs = take (bisect_right (\<lambda>x. x) xs hi) xs"
    by (rule takeWhile_eq_take_P_nth) (use spec(2) spec(3) [of "bisect_right (\<lambda>x. x) xs hi"] in \<open>auto simp: not_le\<close>)
  with sorted_takeWhile_le [OF assms] show ?thesis by simp
qed

lemma bisect_slice:
  fixes xs :: "int list"
  assumes "sorted xs"
  shows "take (bisect_right (\<lambda>x. x) xs hi - bisect_left (\<lambda>x. x) xs lo) (drop (bisect_left (\<lambda>x. x) xs lo) xs) =
    filter (\<lambda>x. lo \<le> x \<and> x \<le> hi) xs"
proof -
  let ?l = "bisect_left (\<lambda>x. x) xs lo" and ?h = "bisect_right (\<lambda>x. x) xs hi"
  have "take (?h - ?l) (drop ?l xs) = drop ?l (take ?h xs)" by (simp add: drop_take)
  also have "\<dots> = filter (\<lambda>x. x \<le> hi) (drop ?l xs)"
  proof -
    have "filter (\<lambda>x. x \<le> hi) (drop ?l xs) = takeWhile (\<lambda>x. x \<le> hi) (drop ?l xs)"
      using sorted_takeWhile_le [of "drop ?l xs" hi] assms by (simp add: sorted_wrt_drop)
    moreover have "takeWhile (\<lambda>x. x \<le> hi) (drop ?l xs) = take (?h - ?l) (drop ?l xs)"
    proof (rule takeWhile_eq_take_P_nth)
      have s: "sorted (map (\<lambda>x. x) xs)" using assms by simp
      note spec = bisect_right_spec [OF s, where x = hi]
      show "drop ?l xs ! i \<le> hi" if "i < ?h - ?l" "i < length (drop ?l xs)" for i
        using that spec(2) [of "?l + i"] by simp
      show "\<not> drop ?l xs ! (?h - ?l) \<le> hi" if "?h - ?l < length (drop ?l xs)"
        using that spec(3) [of "?l + (?h - ?l)"] by (simp add: not_le)
    qed
    ultimately show ?thesis by (simp add: drop_take)
  qed
  also have "\<dots> = filter (\<lambda>x. lo \<le> x \<and> x \<le> hi) xs"
    using bisect_left_drop [OF assms, of lo] by (simp add: conj_commute)
  finally show ?thesis .
qed

lemma map_nth_slice: "hi \<le> length xs \<Longrightarrow> map (\<lambda>i. f (xs ! i)) [lo..<hi] = map f (take (hi - lo) (drop lo xs))"
  by (rule nth_equalityI) auto

text \<open>What a formula cell id contributes: its sheet, column and row.\<close>

definition placed_cell :: "string \<Rightarrow> string \<times> int \<times> int \<Rightarrow> bool" where
  "placed_cell cell at \<longleftrightarrow> parse_node_id (Some cell) = Some at \<and> CHR '':'' \<notin> set cell"

definition hops_ok :: "string list \<Rightarrow> RangeHops \<Rightarrow> bool" where
  "hops_ok cells hops \<longleftrightarrow>
     (\<forall>sheet col. sorted (rows_at hops sheet col) \<and> distinct (rows_at hops sheet col)
        \<and> set (rows_at hops sheet col) = {row. \<exists>cell \<in> set cells. placed_cell cell (sheet, col, row)}) \<and>
     (\<forall>sheet. sorted (dict_get (rh_columns hops) sheet []) \<and> distinct (dict_get (rh_columns hops) sheet [])
        \<and> set (dict_get (rh_columns hops) sheet []) = {col. \<exists>row. \<exists>cell \<in> set cells. placed_cell cell (sheet, col, row)})"

lemma hop_rows_snoc:
  "hop_rows (cells @ [cell]) =
     (case parse_node_id (Some cell) of
        None \<Rightarrow> hop_rows cells
      | Some (sheet, col, row) \<Rightarrow>
          if CHR '':'' \<in> set cell then hop_rows cells
          else dict_alter (sheet, col) [] (\<lambda>values. values @ [row]) (hop_rows cells))"
  unfolding hop_rows_def by simp

lemma hop_rows_set: "set (dict_get (hop_rows cells) (sheet, col) []) = {row. \<exists>cell \<in> set cells. placed_cell cell (sheet, col, row)}"
proof (induction cells rule: rev_induct)
  case Nil
  then show ?case by (simp add: hop_rows_def dict_get_def)
next
  case (snoc cell cells)
  then show ?case
    by (auto simp: hop_rows_snoc placed_cell_def dict_get_alter split: option.splits if_splits)
qed

lemma hop_rows_distinct: "distinct (map fst (hop_rows cells))"
proof (induction cells rule: rev_induct)
  case Nil
  then show ?case by (simp add: hop_rows_def)
next
  case (snoc cell cells)
  then show ?case by (auto simp: hop_rows_snoc distinct_dict_alter split: option.split)
qed

lemma hop_rows_keys: "fst ` set (hop_rows cells) = {(sheet, col). \<exists>row. \<exists>cell \<in> set cells. placed_cell cell (sheet, col, row)}"
proof (induction cells rule: rev_induct)
  case Nil
  then show ?case by (simp add: hop_rows_def)
next
  case (snoc cell cells)
  have keys: "fst ` set (dict_alter k d f m) = insert k (fst ` set m)" for k :: "string \<times> int" and d :: "int list" and f m
    by (auto simp: dict_alter_def simp flip: dom_map_of_conv_image_fst simp: update_conv' split: if_splits)
  show ?case
    using snoc by (auto simp: hop_rows_snoc placed_cell_def keys split: option.splits if_splits)
qed

lemma column_lists:
  "distinct (map fst rows) \<Longrightarrow>
   dict_get (foldl (\<lambda>columns ((sheet, col), _). dict_alter sheet [] (\<lambda>cols. cols @ [col]) columns) [] rows) s [] =
     map (\<lambda>((sheet, col), _). col) (filter (\<lambda>((sheet, col), _). sheet = s) rows)"
proof (induction rows rule: rev_induct)
  case Nil
  then show ?case by (simp add: dict_get_def)
next
  case (snoc x rows)
  obtain sheet col v where x: "x = ((sheet, col), v)" by (metis prod.exhaust)
  from snoc show ?case by (auto simp: x dict_get_alter)
qed

lemma dict_get_map_snd: "dict_get (map (\<lambda>(k, v). (k, f v)) d) k (f e) = f (dict_get d k e)"
  by (simp add: dict_get_def map_of_map split: option.split)

lemma sheet_columns:
  "map (Pair s) (map (\<lambda>((sheet, col), _). col) (filter (\<lambda>((sheet, col), _). sheet = s) rows)) =
     filter (\<lambda>(sheet, col). sheet = s) (map fst rows)"
  by (induction rows) auto

lemma make_hops_ok: "hops_ok cells (make_hops cells)"
  unfolding hops_ok_def
proof (intro conjI allI)
  fix sheet col
  have r: "rows_at (make_hops cells) sheet col = sort (remdups (dict_get (hop_rows cells) (sheet, col) []))"
    using dict_get_map_snd [of "\<lambda>vs. sort (remdups vs)" "hop_rows cells" "(sheet, col)" "[]"] by (simp add: make_hops_def Let_def)
  show "sorted (rows_at (make_hops cells) sheet col)" "distinct (rows_at (make_hops cells) sheet col)"
    "set (rows_at (make_hops cells) sheet col) = {row. \<exists>cell \<in> set cells. placed_cell cell (sheet, col, row)}"
    by (simp_all add: r hop_rows_set)
next
  fix sheet
  let ?rows = "map (\<lambda>(key, values). (key, sort (remdups values))) (hop_rows cells)"
  have keys: "map fst ?rows = map fst (hop_rows cells)" by (simp add: comp_def case_prod_beta)
  have d: "distinct (map fst ?rows)" unfolding keys by (rule hop_rows_distinct)
  define cs where "cs = map (\<lambda>((sheet, col), _). col) (filter (\<lambda>((s, col), _). s = sheet) ?rows)"
  have c: "dict_get (rh_columns (make_hops cells)) sheet [] = sort cs"
    using dict_get_map_snd [of "sort :: int list \<Rightarrow> int list" _ sheet "[]"] column_lists [OF d, of sheet]
    by (simp add: make_hops_def Let_def cs_def)
  have pairs: "map (Pair sheet) cs = filter (\<lambda>(s, col). s = sheet) (map fst (hop_rows cells))"
    unfolding cs_def sheet_columns keys ..
  then have "distinct (map (Pair sheet) cs)" using hop_rows_distinct by simp
  then have dc: "distinct cs" unfolding distinct_map by blast
  have "col \<in> set cs \<longleftrightarrow> (sheet, col) \<in> fst ` set (hop_rows cells)" for col
    using arg_cong [OF pairs, of "\<lambda>ps. (sheet, col) \<in> set ps"] by auto
  then have "set cs = {col. \<exists>row. \<exists>cell \<in> set cells. placed_cell cell (sheet, col, row)}"
    unfolding hop_rows_keys by auto
  with c dc show "sorted (dict_get (rh_columns (make_hops cells)) sheet [])" "distinct (dict_get (rh_columns (make_hops cells)) sheet [])"
    "set (dict_get (rh_columns (make_hops cells)) sheet []) = {col. \<exists>row. \<exists>cell \<in> set cells. placed_cell cell (sheet, col, row)}"
    by simp_all
qed

lemma hop_cols_filter:
  "hops_ok cells hops \<Longrightarrow> hop_cols hops node = filter (\<lambda>col. rn_c1 node \<le> col \<and> col \<le> rn_c2 node) (dict_get (rh_columns hops) (rn_sheet node) [])"
  by (simp add: hop_cols_def Let_def bisect_slice hops_ok_def)

text \<open>The rows of a column inside the node, and their positions.\<close>

lemma hop_span_slice:
  assumes "hops_ok cells hops" "rows = rows_at hops (rn_sheet node) col"
  shows "case hop_span hops node col of
      None \<Rightarrow> filter (\<lambda>row. rn_r1 node \<le> row \<and> row \<le> rn_r2 node) rows = []
    | Some (lo, hi) \<Rightarrow> lo \<le> hi \<and> hi < length rows
        \<and> map (\<lambda>i. rows ! i) [lo..<Suc hi] = filter (\<lambda>row. rn_r1 node \<le> row \<and> row \<le> rn_r2 node) rows"
proof -
  let ?lo = "bisect_left (\<lambda>x. x) rows (rn_r1 node)" and ?after = "bisect_right (\<lambda>x. x) rows (rn_r2 node)"
  have srt: "sorted rows" using assms by (simp add: hops_ok_def)
  then have "sorted (map (\<lambda>x. x) rows)" by simp
  from bisect_right_spec(1) [OF this] have len: "?after \<le> length rows" .
  have slice: "take (?after - ?lo) (drop ?lo rows) = filter (\<lambda>row. rn_r1 node \<le> row \<and> row \<le> rn_r2 node) rows"
    by (rule bisect_slice [OF srt])
  show ?thesis
  proof (cases "?lo < ?after")
    case True
    then have "hop_span hops node col = Some (?lo, ?after - 1)" by (simp add: hop_span_def Let_def assms(2))
    moreover have "map (\<lambda>i. rows ! i) [?lo..<?after] = filter (\<lambda>row. rn_r1 node \<le> row \<and> row \<le> rn_r2 node) rows"
      using map_nth_slice [OF len, of "\<lambda>x. x" ?lo] slice by simp
    moreover have "Suc (?after - 1) = ?after" using True by simp
    ultimately show ?thesis using True len by (simp del: upt_Suc) linarith
  next
    case False
    then have "hop_span hops node col = None" by (simp add: hop_span_def Let_def assms(2))
    with slice False show ?thesis by simp
  qed
qed

definition cell_name :: "string \<Rightarrow> int \<Rightarrow> int \<Rightarrow> string" where
  "cell_name sheet col row = sheet @ ''!'' @ index_to_col col @ int_str row"

lemma hop_members_filter:
  assumes "hops_ok cells hops"
  shows "hop_members hops node =
    concat (map (\<lambda>col. map (cell_name (rn_sheet node) col)
        (filter (\<lambda>row. rn_r1 node \<le> row \<and> row \<le> rn_r2 node) (rows_at hops (rn_sheet node) col))) (hop_cols hops node))"
proof -
  let ?rows = "\<lambda>col. rows_at hops (rn_sheet node) col"
  have "(case hop_span hops node col of None \<Rightarrow> []
      | Some (lo, hi) \<Rightarrow> map (\<lambda>index. rn_sheet node @ ''!'' @ index_to_col col @ int_str (?rows col ! index)) [lo..<Suc hi]) =
    map (cell_name (rn_sheet node) col) (filter (\<lambda>row. rn_r1 node \<le> row \<and> row \<le> rn_r2 node) (?rows col))" for col
  proof (cases "hop_span hops node col")
    case None
    with hop_span_slice [OF assms refl, of node col] show ?thesis by simp
  next
    case (Some p)
    obtain lo hi where p: "p = (lo, hi)" by (cases p)
    from hop_span_slice [OF assms refl, of node col] Some p
    have "filter (\<lambda>row. rn_r1 node \<le> row \<and> row \<le> rn_r2 node) (?rows col) = map (\<lambda>i. ?rows col ! i) [lo..<Suc hi]" by (simp del: upt_Suc)
    then show ?thesis by (simp only: Some p option.case prod.case map_map comp_def cell_name_def)
  qed
  then show ?thesis by (simp only: hop_members_def)
qed

lemma hop_members_set:
  assumes "hops_ok cells hops"
  shows "set (hop_members hops node) = {cell_name (rn_sheet node) col row | col row.
    contains_cell (rn_sheet node) col row node \<and> (\<exists>cell \<in> set cells. placed_cell cell (rn_sheet node, col, row))}"
proof -
  have rows: "set (rows_at hops (rn_sheet node) col) = {row. \<exists>cell \<in> set cells. placed_cell cell (rn_sheet node, col, row)}" for col
    using assms by (simp add: hops_ok_def)
  have cols: "set (dict_get (rh_columns hops) (rn_sheet node) []) = {col. \<exists>row. \<exists>cell \<in> set cells. placed_cell cell (rn_sheet node, col, row)}"
    using assms by (simp add: hops_ok_def)
  show ?thesis
    unfolding hop_members_filter [OF assms] hop_cols_filter [OF assms] set_concat set_map set_filter rows cols contains_cell_def
    by (auto simp: image_iff rows)
qed

section \<open>Names of segments, cells and nodes never clash\<close>

lemma stop_at_bar: "CHR ''!'' \<notin> set b \<Longrightarrow> CHR ''|'' \<notin> set b \<Longrightarrow>
    dropWhile (\<lambda>c. c \<noteq> CHR ''!'' \<and> c \<noteq> CHR ''|'') (rev (a @ x # b)) = dropWhile (\<lambda>c. c \<noteq> CHR ''!'' \<and> c \<noteq> CHR ''|'') (x # rev a)"
proof -
  assume "CHR ''!'' \<notin> set b" "CHR ''|'' \<notin> set b"
  then have "dropWhile (\<lambda>c. c \<noteq> CHR ''!'' \<and> c \<noteq> CHR ''|'') (rev b @ x # rev a) =
      dropWhile (\<lambda>c. c \<noteq> CHR ''!'' \<and> c \<noteq> CHR ''|'') (x # rev a)"
    by (intro dropWhile_append2) auto
  then show ?thesis by simp
qed

lemma bang_not_bar:
  assumes "CHR ''!'' \<notin> set b" "CHR ''|'' \<notin> set b" "CHR ''!'' \<notin> set d" "CHR ''|'' \<notin> set d"
  shows "a @ CHR ''!'' # b \<noteq> c @ CHR ''|'' # d"
proof
  assume "a @ CHR ''!'' # b = c @ CHR ''|'' # d"
  with stop_at_bar [OF assms(1,2), of a "CHR ''!''"] stop_at_bar [OF assms(3,4), of c "CHR ''|''"] show False by simp
qed

lemma int_str_chars: "c \<in> set (int_str v) \<Longrightarrow> re_digit c \<or> c = CHR ''-''"
  by (auto simp: int_str_def split: if_splits)

lemma name_chars:
  "CHR ''!'' \<notin> set (nat_str n)" "CHR ''|'' \<notin> set (nat_str n)" "CHR ''|'' \<notin> set (int_str v)"
  "CHR ''!'' \<notin> set (index_to_col col @ int_str v)" "CHR ''|'' \<notin> set (index_to_col col @ int_str v)"
  "CHR '':'' \<notin> set (index_to_col col @ int_str v)"
proof -
  have nat: "c \<notin> {CHR ''!'', CHR ''|'', CHR '':''}" if "c \<in> set (nat_str n)" for c n
    using nat_str_digit [OF that] by (auto simp: re_digit_def)
  have int: "c \<notin> {CHR ''!'', CHR ''|'', CHR '':''}" if "c \<in> set (int_str v)" for c
    using int_str_chars [OF that] by (auto simp: re_digit_def)
  have col: "c \<notin> {CHR ''!'', CHR ''|'', CHR '':''}" if "c \<in> set (index_to_col col)" for c
    using index_to_col_letter [OF that] by (auto simp: re_letter_def ascii_upper_def ascii_lower_def)
  show "CHR ''!'' \<notin> set (nat_str n)" "CHR ''|'' \<notin> set (nat_str n)" "CHR ''|'' \<notin> set (int_str v)"
    "CHR ''!'' \<notin> set (index_to_col col @ int_str v)" "CHR ''|'' \<notin> set (index_to_col col @ int_str v)"
    "CHR '':'' \<notin> set (index_to_col col @ int_str v)"
    using nat int col by auto
qed

definition seg_name :: "segment \<Rightarrow> string" where
  "seg_name seg = (case seg of (sheet, col, lo, hi) \<Rightarrow>
     SEGMENT_PREFIX @ sheet @ ''|'' @ int_str col @ ''|'' @ nat_str lo @ ''|'' @ nat_str hi)"

lemma seg_name_inject: "seg_name s = seg_name t \<longleftrightarrow> s = t"
proof
  obtain sheet col lo hi where s: "s = (sheet, col, lo, hi)" by (cases s) auto
  obtain sheet' col' lo' hi' where t: "t = (sheet', col', lo', hi')" by (cases t) auto
  have split: "rsplit1 CHR ''|'' (seg_name (sheet, col, lo, hi)) =
      Some (SEGMENT_PREFIX @ sheet @ ''|'' @ int_str col @ ''|'' @ nat_str lo, nat_str hi)" for sheet col lo hi
    using rsplit1_append [OF name_chars(2), of "SEGMENT_PREFIX @ sheet @ ''|'' @ int_str col @ ''|'' @ nat_str lo" hi] by (simp add: seg_name_def)
  have split2: "rsplit1 CHR ''|'' (SEGMENT_PREFIX @ sheet @ ''|'' @ int_str col @ ''|'' @ nat_str lo) =
      Some (SEGMENT_PREFIX @ sheet @ ''|'' @ int_str col, nat_str lo)" for sheet col lo
    using rsplit1_append [OF name_chars(2), of "SEGMENT_PREFIX @ sheet @ ''|'' @ int_str col" lo] by simp
  have split3: "rsplit1 CHR ''|'' (SEGMENT_PREFIX @ sheet @ ''|'' @ int_str col) = Some (SEGMENT_PREFIX @ sheet, int_str col)" for sheet col
    using rsplit1_append [OF name_chars(3), of "SEGMENT_PREFIX @ sheet" col] by simp
  assume "seg_name s = seg_name t"
  then have "rsplit1 CHR ''|'' (seg_name s) = rsplit1 CHR ''|'' (seg_name t)" by simp
  then have 1: "SEGMENT_PREFIX @ sheet @ ''|'' @ int_str col @ ''|'' @ nat_str lo = SEGMENT_PREFIX @ sheet' @ ''|'' @ int_str col' @ ''|'' @ nat_str lo'" "hi = hi'"
    unfolding s t split by simp_all
  from arg_cong [OF 1(1), of "rsplit1 CHR ''|''"] have 2: "SEGMENT_PREFIX @ sheet @ ''|'' @ int_str col = SEGMENT_PREFIX @ sheet' @ ''|'' @ int_str col'" "lo = lo'"
    unfolding split2 by simp_all
  from arg_cong [OF 2(1), of "rsplit1 CHR ''|''"] have "sheet = sheet'" "int_str col = int_str col'" unfolding split3 by simp_all
  with 1 2 show "s = t" by (simp add: s t int_str_inject)
qed simp

lemma cell_name_not_seg: "cell_name sheet col row \<noteq> seg_name seg"
proof -
  obtain s c lo hi where seg: "seg = (s, c, lo, hi)" by (cases seg) auto
  have "seg_name seg = (SEGMENT_PREFIX @ s @ ''|'' @ int_str c @ ''|'' @ nat_str lo) @ CHR ''|'' # nat_str hi" by (simp add: seg seg_name_def)
  moreover have "cell_name sheet col row = sheet @ CHR ''!'' # (index_to_col col @ int_str row)" by (simp add: cell_name_def)
  moreover note bang_not_bar [OF name_chars(4) [of col row] name_chars(5) [of col row] name_chars(1) [of hi] name_chars(2) [of hi],
      of sheet "SEGMENT_PREFIX @ s @ ''|'' @ int_str c @ ''|'' @ nat_str lo"]
  ultimately show ?thesis by (simp only: not_False_eq_True)
qed

lemma drop_dollar_split: "\<exists>p. s = p @ snd (drop_dollar s) \<and> CHR ''|'' \<notin> set p"
  by (cases s) (auto simp: drop_dollar_def)

lemma re_cell_split:
  assumes "re_cell s = Some (l, d, rest)"
  shows "\<exists>p. s = p @ rest \<and> CHR ''|'' \<notin> set p"
proof -
  let ?s1 = "snd (drop_dollar s)" let ?s2 = "snd (drop_dollar (dropWhile re_letter ?s1))"
  obtain p where p: "s = p @ ?s1" "CHR ''|'' \<notin> set p" using drop_dollar_split by blast
  obtain q where q: "dropWhile re_letter ?s1 = q @ ?s2" "CHR ''|'' \<notin> set q" using drop_dollar_split by blast
  have "rest = dropWhile re_digit ?s2" using assms by (auto simp: re_cell_def Let_def split: if_splits)
  then have "s = (p @ takeWhile re_letter ?s1 @ q @ takeWhile re_digit ?s2) @ rest"
    using p(1) q(1) by (metis append.assoc takeWhile_dropWhile_id)
  moreover have "CHR ''|'' \<notin> set (takeWhile re_letter ?s1)" "CHR ''|'' \<notin> set (takeWhile re_digit ?s2)"
    by (auto dest!: set_takeWhileD simp: re_letter_def re_digit_def ascii_upper_def ascii_lower_def)
  ultimately show ?thesis using p(2) q(2) by (intro exI [of _ "p @ takeWhile re_letter ?s1 @ q @ takeWhile re_digit ?s2"]) simp
qed

lemma class_no_bar: "list_all re_letter a \<or> list_all re_digit a \<Longrightarrow> CHR ''|'' \<notin> set a"
  by (auto simp: list_all_iff re_letter_def re_digit_def ascii_upper_def ascii_lower_def)

lemma pair_no_bar:
  assumes "split1 CHR '':'' body = Some (a, b)" "CHR ''|'' \<notin> set (snd (drop_dollar a))" "CHR ''|'' \<notin> set (snd (drop_dollar b))"
  shows "CHR ''|'' \<notin> set body"
proof -
  obtain p q where "a = p @ snd (drop_dollar a)" "CHR ''|'' \<notin> set p" "b = q @ snd (drop_dollar b)" "CHR ''|'' \<notin> set q"
    using drop_dollar_split by metis
  with assms(2,3) have "CHR ''|'' \<notin> set a" "CHR ''|'' \<notin> set b" by (metis Un_iff set_append)+
  with split1_Some [OF assms(1)] show ?thesis by simp
qed

lemma rectangle_no_bar:
  assumes "rectangle body = Some r"
  shows "CHR ''|'' \<notin> set body"
proof -
  consider (cells) x where "re_cell_pair body = Some x" | (cols) x where "re_cols body = Some x" | (rows) x where "re_rows body = Some x"
    using assms by (auto simp: rectangle_def split: option.splits)
  then show ?thesis
  proof cases
    case cells
    then obtain l1 d1 rest l2 d2 where r: "re_cell body = Some (l1, d1, CHR '':'' # rest)" "re_cell rest = Some (l2, d2, [])"
      by (auto simp: re_cell_pair_def split: option.splits list.splits if_splits prod.splits)
    from re_cell_split [OF r(1)] re_cell_split [OF r(2)] show ?thesis by auto
  next
    case cols
    then obtain a b where ab: "split1 CHR '':'' body = Some (a, b)" "list_all re_letter (snd (drop_dollar a))" "list_all re_letter (snd (drop_dollar b))"
      by (auto simp: re_cols_def Let_def split: option.splits if_splits)
    show ?thesis by (rule pair_no_bar [OF ab(1) class_no_bar class_no_bar]) (simp_all add: ab)
  next
    case rows
    then obtain a b where ab: "split1 CHR '':'' body = Some (a, b)" "list_all re_digit (snd (drop_dollar a))" "list_all re_digit (snd (drop_dollar b))"
      by (auto simp: re_rows_def Let_def split: option.splits if_splits)
    show ?thesis by (rule pair_no_bar [OF ab(1) class_no_bar class_no_bar]) (simp_all add: ab)
  qed
qed

lemma parsed_node_id:
  assumes "parsed_node node"
  obtains sheet body where "node_id node = sheet @ CHR ''!'' # body" "CHR ''!'' \<notin> set body" "CHR ''|'' \<notin> set body" "CHR '':'' \<in> set body"
proof -
  from assms obtain sheet body r where r: "rsplit1 CHR ''!'' (node_id node) = Some (sheet, body)" "rectangle body = Some r" "is_range_node (node_id node)"
    by (auto simp: parsed_node_def parse_range_node_def split: if_splits option.splits)
  with rsplit1_Some [OF r(1)] rectangle_no_bar [OF r(2)] show ?thesis by (intro that) (auto simp: is_range_node_def)
qed

lemma node_id_not_seg: "parsed_node node \<Longrightarrow> node_id node \<noteq> seg_name seg"
proof -
  assume "parsed_node node"
  then obtain sheet body where n: "node_id node = sheet @ CHR ''!'' # body" "CHR ''!'' \<notin> set body" "CHR ''|'' \<notin> set body"
    by (rule parsed_node_id)
  obtain s c lo hi where seg: "seg = (s, c, lo, hi)" by (cases seg) auto
  have "seg_name seg = (SEGMENT_PREFIX @ s @ ''|'' @ int_str c @ ''|'' @ nat_str lo) @ CHR ''|'' # nat_str hi" by (simp add: seg seg_name_def)
  then show ?thesis using bang_not_bar [OF n(2,3) name_chars(1) [of hi] name_chars(2) [of hi]] unfolding n(1) by metis
qed

lemma node_id_not_cell: "parsed_node node \<Longrightarrow> node_id node \<noteq> cell_name sheet col row"
proof -
  assume "parsed_node node"
  then obtain s body where n: "node_id node = s @ CHR ''!'' # body" "CHR ''!'' \<notin> set body" "CHR '':'' \<in> set body"
    by (rule parsed_node_id)
  have "rsplit1 CHR ''!'' (node_id node) = Some (s, body)" using n by simp
  moreover have "rsplit1 CHR ''!'' (cell_name sheet col row) = Some (sheet, index_to_col col @ int_str row)"
    using rsplit1_append [OF name_chars(4) [of col row], of sheet] by (simp add: cell_name_def)
  ultimately show ?thesis using n(3) name_chars(6) [of col row] by auto
qed

section \<open>The edges of the segment trees\<close>

definition proper :: "segment \<Rightarrow> bool" where
  "proper seg \<longleftrightarrow> (case seg of (sheet, col, a, b) \<Rightarrow> a < b)"

definition settled :: "segment set \<Rightarrow> segment \<Rightarrow> bool" where
  "settled made seg \<longleftrightarrow> (case seg of (sheet, col, a, b) \<Rightarrow> a = b \<or> seg \<in> made)"

definition halves :: "segment \<Rightarrow> segment set" where
  "halves seg = (case seg of (sheet, col, a, b) \<Rightarrow> {(sheet, col, a, (a + b) div 2), (sheet, col, (a + b) div 2 + 1, b)})"

definition name_of :: "RangeHops \<Rightarrow> segment \<Rightarrow> string" where
  "name_of hops seg = (case seg of (sheet, col, a, b) \<Rightarrow> hop_name hops sheet col a b)"

lemma name_of_proper: "proper seg \<Longrightarrow> name_of hops seg = seg_name seg"
  by (auto simp: proper_def name_of_def hop_name_def seg_name_def split: prod.splits)

lemma name_of_leaf: "name_of hops (sheet, col, a, a) = cell_name sheet col (rows_at hops sheet col ! a)"
  by (simp add: name_of_def hop_name_def cell_name_def)

lemma settled_mono: "settled made seg \<Longrightarrow> made \<subseteq> made' \<Longrightarrow> settled made' seg"
  by (auto simp: settled_def)

text \<open>Edges \<open>E\<close> hold the tree below a segment when they hold its links to both halves.\<close>

definition linked :: "RangeHops \<Rightarrow> (string \<times> string) set \<Rightarrow> segment \<Rightarrow> bool" where
  "linked hops E seg \<longleftrightarrow> (\<forall>half \<in> halves seg. (seg_name seg, name_of hops half) \<in> E)"

definition tree_edge :: "RangeHops \<Rightarrow> string \<times> string \<Rightarrow> bool" where
  "tree_edge hops e \<longleftrightarrow> (\<exists>seg. proper seg \<and> fst e = seg_name seg \<and> snd e \<in> name_of hops ` halves seg)"

definition grows :: "RangeHops \<Rightarrow> segment set \<Rightarrow> (string \<times> string) list \<Rightarrow> segment set \<Rightarrow> bool" where
  "grows hops made es made' \<longleftrightarrow> made \<subseteq> made' \<and>
     (\<forall>seg \<in> made' - made. proper seg \<and> linked hops (set es) seg \<and> (\<forall>half \<in> halves seg. settled made' half))"

lemma grows_refl: "grows hops made [] made"
  by (simp add: grows_def)

lemma grows_trans:
  "grows hops made es made1 \<Longrightarrow> grows hops made1 fs made2 \<Longrightarrow> set es \<subseteq> set gs \<Longrightarrow> set fs \<subseteq> set gs \<Longrightarrow> grows hops made gs made2"
  unfolding grows_def linked_def by (blast intro: settled_mono)

lemma tree_loop_grows:
  assumes "\<forall>(a, b) \<in> set stack. a \<le> b" "tree_loop hops sheet col made stack = (es, made')"
  shows "grows hops made es made' \<and> (\<forall>(a, b) \<in> set stack. settled made' (sheet, col, a, b)) \<and> list_all (tree_edge hops) es"
  using assms
proof (induction hops sheet col made stack arbitrary: es made' rule: tree_loop.induct)
  case (1 hops sheet col made)
  then show ?case by (simp add: grows_refl)
next
  case (2 hops sheet col made a b stack)
  have ab: "a \<le> b" "\<forall>(a, b) \<in> set stack. a \<le> b" using "2.prems"(1) by auto
  show ?case
  proof (cases "b \<le> a \<or> (sheet, col, a, b) \<in> made")
    case True
    then have "tree_loop hops sheet col made stack = (es, made')" using "2.prems"(2) [unfolded tree_loop.simps(2) [of hops sheet col made a b stack]] by simp
    from "2.IH"(1) [OF True ab(2) this] True ab(1) show ?thesis
      by (auto simp: settled_def grows_def)
  next
    case False
    let ?mid = "(a + b) div 2" let ?seg = "(sheet, col, a, b)"
    have lt: "a < b" using False by simp
    then have mid: "a \<le> ?mid" "?mid < b" by auto
    obtain fs where fs: "tree_loop hops sheet col (insert ?seg made) ((?mid + 1, b) # (a, ?mid) # stack) = (fs, made')"
      "es = (hop_name hops sheet col a b, hop_name hops sheet col a ?mid) # (hop_name hops sheet col a b, hop_name hops sheet col (?mid + 1) b) # fs"
    proof -
      obtain fs m where f: "tree_loop hops sheet col (insert ?seg made) ((?mid + 1, b) # (a, ?mid) # stack) = (fs, m)" by fastforce
      with "2.prems"(2) [unfolded tree_loop.simps(2) [of hops sheet col made a b stack]] False show thesis
        by (intro that [of fs]) (simp_all add: Let_def)
    qed
    have st: "\<forall>(a, b) \<in> set ((?mid + 1, b) # (a, ?mid) # stack). a \<le> b" using ab mid by auto
    note ih = "2.IH"(2) [OF False refl refl st fs(1)]
    have p: "proper ?seg" using lt by (simp add: proper_def)
    have name: "hop_name hops sheet col a b = seg_name ?seg" using name_of_proper [OF p, of hops] by (simp add: name_of_def)
    have halves: "halves ?seg = {(sheet, col, a, ?mid), (sheet, col, ?mid + 1, b)}" by (simp add: halves_def)
    have te: "tree_edge hops (seg_name ?seg, hop_name hops sheet col x y)" if "(sheet, col, x, y) \<in> halves ?seg" for x y
      unfolding tree_edge_def using p that by (intro exI [of _ ?seg]) (force simp: name_of_def)
    have edges: "list_all (tree_edge hops) es" using ih te unfolding fs(2) name by (simp add: halves)
    have link: "linked hops (set es) ?seg" unfolding fs(2) linked_def halves name by (simp add: name_of_def)
    have half: "\<forall>half \<in> halves ?seg. settled made' half" using ih unfolding halves by auto
    have g: "grows hops (insert ?seg made) fs made'" using ih by blast
    then have "?seg \<in> made'" by (auto simp: grows_def)
    moreover have "grows hops made es made'"
      unfolding grows_def
    proof (intro conjI ballI)
      show "made \<subseteq> made'" using g by (auto simp: grows_def)
      fix seg assume seg: "seg \<in> made' - made"
      have sub: "set fs \<subseteq> set es" unfolding fs(2) by auto
      show "proper seg" "linked hops (set es) seg"
        using seg g p link sub by (cases "seg = ?seg"; force simp: grows_def linked_def)+
      show "settled made' h" if "h \<in> halves seg" for h
        using seg g half that by (cases "seg = ?seg") (auto simp: grows_def)
    qed
    ultimately show ?thesis using ih edges by (auto simp: settled_def)
  qed
qed

text \<open>The segments a node points at.\<close>

definition tops :: "RangeHops \<Rightarrow> RangeNode \<Rightarrow> segment set" where
  "tops hops node = {(rn_sheet node, col, lo, hi) | col lo hi. col \<in> set (hop_cols hops node) \<and>
     (\<exists>l h. hop_span hops node col = Some (l, h)
        \<and> (lo, hi) \<in> set (cover_segments 0 (length (rows_at hops (rn_sheet node) col) - 1) l h))}"

definition node_edge :: "RangeHops \<Rightarrow> RangeNode \<Rightarrow> string \<times> string \<Rightarrow> bool" where
  "node_edge hops node e \<longleftrightarrow> fst e = node_id node \<and> snd e \<in> name_of hops ` tops hops node"

lemma seg_edges_grows:
  assumes "\<forall>(a, b) \<in> set segs. a \<le> b" "seg_edges hops node col made segs = (es, made')"
  shows "grows hops made es made' \<and>
    (\<forall>(a, b) \<in> set segs. settled made' (rn_sheet node, col, a, b) \<and> (node_id node, hop_name hops (rn_sheet node) col a b) \<in> set es) \<and>
    (\<forall>e \<in> set es. tree_edge hops e \<or> (\<exists>(a, b) \<in> set segs. e = (node_id node, hop_name hops (rn_sheet node) col a b)))"
  using assms
proof (induction segs arbitrary: made es made')
  case Nil
  then show ?case by (simp add: grows_refl)
next
  case (Cons seg segs)
  obtain lo hi where seg: "seg = (lo, hi)" by (cases seg)
  obtain inner m where i: "tree_loop hops (rn_sheet node) col made [(lo, hi)] = (inner, m)" by fastforce
  obtain later m' where l: "seg_edges hops node col m segs = (later, m')" by fastforce
  have es: "es = (node_id node, hop_name hops (rn_sheet node) col lo hi) # inner @ later" "made' = m'"
    using Cons.prems(2) by (simp_all add: seg i l)
  have "\<forall>(a, b) \<in> set [(lo, hi)]. a \<le> b" using Cons.prems(1) seg by simp
  from tree_loop_grows [OF this i] have t: "grows hops made inner m" "settled m (rn_sheet node, col, lo, hi)" "list_all (tree_edge hops) inner"
    by auto
  note ih = Cons.IH [OF _ l]
  have segs: "\<forall>(a, b) \<in> set segs. a \<le> b" using Cons.prems(1) by simp
  have g: "grows hops made es made'" 
    unfolding es by (rule grows_trans [OF t(1) ih [OF segs, THEN conjunct1]]) auto
  have "m \<subseteq> m'" using ih [OF segs] by (simp add: grows_def)
  with t(2) have "settled m' (rn_sheet node, col, lo, hi)" by (rule settled_mono)
  then have "\<forall>(a, b) \<in> set (seg # segs). settled made' (rn_sheet node, col, a, b) \<and> (node_id node, hop_name hops (rn_sheet node) col a b) \<in> set es"
    using ih [OF segs, THEN conjunct2, THEN conjunct1] unfolding es seg by auto
  moreover have "\<forall>e \<in> set es. tree_edge hops e \<or> (\<exists>(a, b) \<in> set (seg # segs). e = (node_id node, hop_name hops (rn_sheet node) col a b))"
    using ih [OF segs, THEN conjunct2, THEN conjunct2] t(3) unfolding es seg by (auto simp: list_all_iff)
  ultimately show ?case using g by blast
qed

lemma hop_span_cover:
  assumes "hops_ok cells hops" "hop_span hops node col = Some (l, h)"
  shows "\<forall>(a, b) \<in> set (cover_segments 0 (length (rows_at hops (rn_sheet node) col) - 1) l h). a \<le> b"
    and "concat (map (\<lambda>(a, b). [a..<Suc b]) (cover_segments 0 (length (rows_at hops (rn_sheet node) col) - 1) l h)) = [l..<Suc h]"
proof -
  have lh: "l \<le> h" "h \<le> length (rows_at hops (rn_sheet node) col) - 1"
    using hop_span_slice [OF assms(1) refl, of node col] assms(2) by auto
  show "concat (map (\<lambda>(a, b). [a..<Suc b]) (cover_segments 0 (length (rows_at hops (rn_sheet node) col) - 1) l h)) = [l..<Suc h]"
    by (rule cover_segments_exact(1) [OF _ lh]) simp
  show "\<forall>(a, b) \<in> set (cover_segments 0 (length (rows_at hops (rn_sheet node) col) - 1) l h). a \<le> b"
    using cover_segments_exact(2) [OF _ lh] by auto
qed

definition column_tops :: "RangeHops \<Rightarrow> RangeNode \<Rightarrow> int list \<Rightarrow> segment set" where
  "column_tops hops node cols = {(rn_sheet node, col, lo, hi) | col lo hi. col \<in> set cols \<and>
     (\<exists>l h. hop_span hops node col = Some (l, h)
        \<and> (lo, hi) \<in> set (cover_segments 0 (length (rows_at hops (rn_sheet node) col) - 1) l h))}"

lemma col_edges_grows:
  assumes "hops_ok cells hops" "col_edges hops node made cols = (es, made')"
  shows "grows hops made es made' \<and>
    (\<forall>seg \<in> column_tops hops node cols. settled made' seg \<and> (node_id node, name_of hops seg) \<in> set es) \<and>
    (\<forall>e \<in> set es. tree_edge hops e \<or> (\<exists>seg \<in> column_tops hops node cols. e = (node_id node, name_of hops seg)))"
  using assms(2)
proof (induction cols arbitrary: made es made')
  case Nil
  then show ?case by (simp add: grows_refl column_tops_def)
next
  case (Cons col cols)
  show ?case
  proof (cases "hop_span hops node col")
    case None
    then have "column_tops hops node (col # cols) = column_tops hops node cols" by (auto simp: column_tops_def)
    with Cons None show ?thesis by simp
  next
    case (Some p)
    obtain l h where p: "p = (l, h)" by (cases p)
    let ?segs = "cover_segments 0 (length (rows_at hops (rn_sheet node) col) - 1) l h"
    obtain here m where h: "seg_edges hops node col made ?segs = (here, m)" by fastforce
    obtain later m' where l: "col_edges hops node m cols = (later, m')" by fastforce
    have es: "es = here @ later" "made' = m'" using Cons.prems unfolding col_edges.simps Some p option.case prod.case h l by simp_all
    note s = seg_edges_grows [OF hop_span_cover(1) [OF assms(1) Some [unfolded p]] h]
    note ih = Cons.IH [OF l]
    have tops: "column_tops hops node (col # cols) = (\<lambda>(a, b). (rn_sheet node, col, a, b)) ` set ?segs \<union> column_tops hops node cols"
      using Some p by (force simp: column_tops_def)
    have "m \<subseteq> m'" using ih by (simp add: grows_def)
    then have st: "\<forall>(a, b) \<in> set ?segs. settled m' (rn_sheet node, col, a, b)" using s by (auto intro: settled_mono)
    have "grows hops made es made'" unfolding es by (rule grows_trans [OF s [THEN conjunct1] ih [THEN conjunct1]]) auto
    moreover have "\<forall>seg \<in> column_tops hops node (col # cols). settled made' seg \<and> (node_id node, name_of hops seg) \<in> set es"
      using st s ih unfolding tops es by (fastforce simp: name_of_def)
    moreover have "\<forall>e \<in> set es. tree_edge hops e \<or> (\<exists>seg \<in> column_tops hops node (col # cols). e = (node_id node, name_of hops seg))"
      using s [THEN conjunct2, THEN conjunct2] ih [THEN conjunct2, THEN conjunct2] unfolding tops es set_append ball_Un bex_Un
      by (simp add: name_of_def case_prod_beta) blast
    ultimately show ?thesis by blast
  qed
qed

lemma tops_columns: "tops hops node = column_tops hops node (hop_cols hops node)"
  by (simp add: tops_def column_tops_def)

section \<open>Following the hops\<close>

text \<open>\<open>structural\<close> of \<open>classify_cycles\<close>: the edges of all nodes, with one shared \<open>_made\<close>.\<close>

fun structural_edges :: "RangeHops \<Rightarrow> RangeNode list \<Rightarrow> (string \<times> string) list \<times> RangeHops" where
  "structural_edges hops [] = ([], hops)"
| "structural_edges hops (node # nodes) =
     (case hop_edges hops node of
        (here, hops) \<Rightarrow> case structural_edges hops nodes of (later, hops) \<Rightarrow> (here @ later, hops))"

lemma made_irrelevant [simp]:
  "hop_name (hops\<lparr>rh_made := m\<rparr>) = hop_name hops"
  "hop_span (hops\<lparr>rh_made := m\<rparr>) = hop_span hops"
  "hop_cols (hops\<lparr>rh_made := m\<rparr>) = hop_cols hops"
  "hops_ok cells (hops\<lparr>rh_made := m\<rparr>) = hops_ok cells hops"
  by (auto simp: fun_eq_iff hop_name_def hop_span_def hop_cols_def hops_ok_def)

lemma made_irrelevant_graph [simp]:
  "name_of (hops\<lparr>rh_made := m\<rparr>) = name_of hops"
  "tops (hops\<lparr>rh_made := m\<rparr>) = tops hops"
  "tree_edge (hops\<lparr>rh_made := m\<rparr>) = tree_edge hops"
  "node_edge (hops\<lparr>rh_made := m\<rparr>) = node_edge hops"
  "grows (hops\<lparr>rh_made := m\<rparr>) = grows hops"
proof -
  show n: "name_of (hops\<lparr>rh_made := m\<rparr>) = name_of hops" by (simp add: fun_eq_iff name_of_def)
  show t: "tops (hops\<lparr>rh_made := m\<rparr>) = tops hops" by (simp add: fun_eq_iff tops_def)
  show "tree_edge (hops\<lparr>rh_made := m\<rparr>) = tree_edge hops" by (simp add: fun_eq_iff tree_edge_def n)
  show "node_edge (hops\<lparr>rh_made := m\<rparr>) = node_edge hops" by (simp add: fun_eq_iff node_edge_def n t)
  show "grows (hops\<lparr>rh_made := m\<rparr>) = grows hops" by (simp add: fun_eq_iff grows_def linked_def n)
qed

definition hop_state :: "RangeHops \<Rightarrow> RangeNode set \<Rightarrow> segment set \<Rightarrow> (string \<times> string) list \<Rightarrow> segment set \<Rightarrow> bool" where
  "hop_state hops N made es made' \<longleftrightarrow> grows hops made es made' \<and>
     (\<forall>node \<in> N. \<forall>seg \<in> tops hops node. settled made' seg \<and> (node_id node, name_of hops seg) \<in> set es) \<and>
     (\<forall>e \<in> set es. tree_edge hops e \<or> (\<exists>node \<in> N. node_edge hops node e))"

lemma hop_edges_state:
  assumes "hops_ok cells hops" "hop_edges hops node = (es, hops')"
  shows "\<exists>m. hops' = hops\<lparr>rh_made := m\<rparr> \<and> hop_state hops {node} (rh_made hops) es m"
proof -
  obtain fs m where f: "col_edges hops node (rh_made hops) (hop_cols hops node) = (fs, m)" by fastforce
  with assms(2) have "fs = es" "hops' = hops\<lparr>rh_made := m\<rparr>" by (simp_all add: hop_edges_def)
  with col_edges_grows [OF assms(1) f] show ?thesis
    unfolding hop_state_def node_edge_def tops_columns by (intro exI [of _ m]) force
qed

lemma structural_edges_state:
  assumes "hops_ok cells hops" "structural_edges hops nodes = (es, hops')"
  shows "\<exists>m. hops' = hops\<lparr>rh_made := m\<rparr> \<and> hop_state hops (set nodes) (rh_made hops) es m"
  using assms
proof (induction nodes arbitrary: hops es)
  case Nil
  then show ?case by (intro exI [of _ "rh_made hops"]) (simp add: hop_state_def grows_refl)
next
  case (Cons node nodes)
  obtain here h1 where h: "hop_edges hops node = (here, h1)" by fastforce
  obtain later h2 where l: "structural_edges h1 nodes = (later, h2)" by fastforce
  have es: "es = here @ later" "hops' = h2" using Cons.prems(2) by (simp_all add: h l)
  from hop_edges_state [OF Cons.prems(1) h] obtain m1 where m1: "h1 = hops\<lparr>rh_made := m1\<rparr>" "hop_state hops {node} (rh_made hops) here m1" by blast
  have "hops_ok cells h1" using Cons.prems(1) by (simp add: m1)
  from Cons.IH [OF this l [folded es(2)]] obtain m2 where m2: "hops' = hops\<lparr>rh_made := m2\<rparr>" "hop_state hops (set nodes) m1 later m2"
    by (auto simp: m1 hop_state_def)
  have "m1 \<subseteq> m2" using m2(2) by (simp add: hop_state_def grows_def)
  have g: "grows hops (rh_made hops) es m2"
    using m1(2) m2(2) unfolding hop_state_def es by (elim conjE) (rule grows_trans [of hops _ here m1 later], auto)
  have "\<forall>n \<in> set (node # nodes). \<forall>seg \<in> tops hops n. settled m2 seg \<and> (node_id n, name_of hops seg) \<in> set es"
    using m1(2) m2(2) \<open>m1 \<subseteq> m2\<close> unfolding hop_state_def es by (auto intro: settled_mono)
  moreover have "\<forall>e \<in> set es. tree_edge hops e \<or> (\<exists>n \<in> set (node # nodes). node_edge hops n e)"
    using m1(2) m2(2) unfolding hop_state_def es by auto
  ultimately show ?case using g m2(1) unfolding hop_state_def by blast
qed

definition leaves :: "RangeHops \<Rightarrow> segment \<Rightarrow> string set" where
  "leaves hops seg = (case seg of (sheet, col, a, b) \<Rightarrow> (\<lambda>i. cell_name sheet col (rows_at hops sheet col ! i)) ` {a..b})"

definition sinks_from :: "(string \<times> string) set \<Rightarrow> string \<Rightarrow> string set" where
  "sinks_from E x = {y. (x, y) \<in> E\<^sup>* \<and> y \<notin> fst ` E}"

lemma sinks_from_sink: "x \<notin> fst ` E \<Longrightarrow> sinks_from E x = {x}"
  unfolding sinks_from_def by (auto, metis converse_rtranclE fst_conv image_eqI)

lemma sinks_from_step: "x \<in> fst ` E \<Longrightarrow> sinks_from E x = (\<Union>z \<in> {z. (x, z) \<in> E}. sinks_from E z)"
  unfolding sinks_from_def by (auto elim: converse_rtranclE intro: converse_rtrancl_into_rtrancl)

lemma hop_sources:
  assumes "hop_state hops N made es m" "\<forall>node \<in> N. parsed_node node"
  shows "cell_name sheet col row \<notin> fst ` set es"
    and "(seg_name seg, z) \<in> set es \<Longrightarrow> z \<in> name_of hops ` halves seg"
    and "node \<in> N \<Longrightarrow> (node_id node, z) \<in> set es \<Longrightarrow> z \<in> name_of hops ` tops hops node"
proof -
  have E: "tree_edge hops e \<or> (\<exists>node \<in> N. node_edge hops node e)" if "e \<in> set es" for e
    using assms(1) that by (auto simp: hop_state_def)
  show "cell_name sheet col row \<notin> fst ` set es"
  proof
    assume "cell_name sheet col row \<in> fst ` set es"
    then obtain e where e: "e \<in> set es" "fst e = cell_name sheet col row" by (metis imageE)
    from E [OF e(1)] show False
      using e(2) assms(2) cell_name_not_seg node_id_not_cell unfolding tree_edge_def node_edge_def by metis
  qed
  show "z \<in> name_of hops ` halves seg" if "(seg_name seg, z) \<in> set es"
    using E [OF that]
  proof
    assume "tree_edge hops (seg_name seg, z)"
    then show ?thesis by (auto simp: tree_edge_def seg_name_inject)
  next
    assume "\<exists>node \<in> N. node_edge hops node (seg_name seg, z)"
    then obtain node where "node \<in> N" "node_id node = seg_name seg" by (auto simp: node_edge_def)
    with assms(2) node_id_not_seg show ?thesis by blast
  qed
  show "z \<in> name_of hops ` tops hops node" if "node \<in> N" "(node_id node, z) \<in> set es"
    using E [OF that(2)]
  proof
    assume "tree_edge hops (node_id node, z)"
    then obtain seg where "node_id node = seg_name seg" by (auto simp: tree_edge_def)
    with that(1) assms(2) node_id_not_seg show ?thesis by blast
  next
    assume "\<exists>other \<in> N. node_edge hops other (node_id node, z)"
    then obtain other where "other \<in> N" "node_id other = node_id node" "z \<in> name_of hops ` tops hops other" by (auto simp: node_edge_def)
    moreover from this have "other = node" using that(1) assms(2) unfolding parsed_node_def by (metis option.inject)
    ultimately show ?thesis by simp
  qed
qed

lemma leaves_halves:
  assumes "proper seg"
  shows "leaves hops seg = (\<Union>half \<in> halves seg. leaves hops half)"
proof -
  obtain sheet col a b where seg: "seg = (sheet, col, a, b)" by (cases seg) auto
  have "{a..b} = {a..(a + b) div 2} \<union> {(a + b) div 2 + 1..b}" using assms seg by (auto simp: proper_def)
  then show ?thesis by (simp add: seg leaves_def halves_def image_Un)
qed

lemma segment_sinks:
  assumes st: "hop_state hops N {} es m" and N: "\<forall>node \<in> N. parsed_node node"
  shows "settled m (sheet, col, a, b) \<Longrightarrow> sinks_from (set es) (name_of hops (sheet, col, a, b)) = leaves hops (sheet, col, a, b)"
proof (induction "b - a" arbitrary: a b rule: less_induct)
  case less
  let ?seg = "(sheet, col, a, b)"
  show ?case
  proof (cases "a = b")
    case True
    then show ?thesis
      using sinks_from_sink [OF hop_sources(1) [OF st N]] by (simp add: name_of_leaf leaves_def)
  next
    case False
    then have "?seg \<in> m" using less.prems by (simp add: settled_def)
    then have p: "proper ?seg" and link: "linked hops (set es) ?seg" and half: "\<forall>half \<in> halves ?seg. settled m half"
      using st by (auto simp: hop_state_def grows_def)
    have lt: "a < b" using p by (simp add: proper_def)
    have name: "name_of hops ?seg = seg_name ?seg" by (rule name_of_proper [OF p])
    have out: "{z. (seg_name ?seg, z) \<in> set es} = name_of hops ` halves ?seg"
      using hop_sources(2) [OF st N] link by (auto simp: linked_def)
    have ih: "sinks_from (set es) (name_of hops half) = leaves hops half" if "half \<in> halves ?seg" for half
      using that half lt less.hyps by (auto simp: halves_def)
    have "seg_name ?seg \<in> fst ` set es" using link by (auto simp: linked_def halves_def intro: rev_image_eqI)
    from sinks_from_step [OF this] show ?thesis unfolding name out leaves_halves [OF p] using ih by simp
  qed
qed

lemma node_leaves:
  assumes "hops_ok cells hops"
  shows "(\<Union>seg \<in> tops hops node. leaves hops seg) = set (hop_members hops node)"
proof -
  let ?sheet = "rn_sheet node"
  have col: "(\<Union>(a, b) \<in> set (cover_segments 0 (length (rows_at hops ?sheet col) - 1) l h).
      (\<lambda>i. cell_name ?sheet col (rows_at hops ?sheet col ! i)) ` {a..b}) = (\<lambda>i. cell_name ?sheet col (rows_at hops ?sheet col ! i)) ` {l..h}"
    if "hop_span hops node col = Some (l, h)" for col l h
  proof -
    let ?segs = "cover_segments 0 (length (rows_at hops ?sheet col) - 1) l h"
    have "set (concat (map (\<lambda>(a, b). [a..<Suc b]) ?segs)) = {l..h}"
      unfolding hop_span_cover(2) [OF assms that] by auto
    then have "(\<Union>(a, b) \<in> set ?segs. {a..b}) = {l..h}" by (simp add: atLeastLessThanSuc_atLeastAtMost case_prod_beta del: upt_Suc)
    then show ?thesis by (auto simp: image_iff case_prod_beta) fastforce+
  qed
  have "(\<Union>seg \<in> tops hops node. leaves hops seg) = (\<Union>col \<in> set (hop_cols hops node). case hop_span hops node col of None \<Rightarrow> {}
      | Some (l, h) \<Rightarrow> \<Union>(a, b) \<in> set (cover_segments 0 (length (rows_at hops ?sheet col) - 1) l h).
          (\<lambda>i. cell_name ?sheet col (rows_at hops ?sheet col ! i)) ` {a..b})"
    by (fastforce simp: tops_def leaves_def split: option.splits)
  also have "\<dots> = (\<Union>col \<in> set (hop_cols hops node). case hop_span hops node col of None \<Rightarrow> {}
      | Some (l, h) \<Rightarrow> (\<lambda>i. cell_name ?sheet col (rows_at hops ?sheet col ! i)) ` {l..h})"
    using col by (intro SUP_cong refl) (auto split: option.split)
  also have "\<dots> = set (hop_members hops node)"
    unfolding hop_members_def set_concat set_map image_image
    by (intro SUP_cong refl) (simp add: cell_name_def atLeastLessThanSuc_atLeastAtMost del: upt_Suc split: option.split)
  finally show ?thesis .
qed

lemma structural_sinks:
  assumes "hops_ok cells hops" "rh_made hops = {}" "\<forall>node \<in> set nodes. parsed_node node"
    "structural_edges hops nodes = (es, hops')" "node \<in> set nodes"
  shows "{y. (node_id node, y) \<in> (set es)\<^sup>+ \<and> y \<notin> fst ` set es} = set (hop_members hops node)"
proof -
  from structural_edges_state [OF assms(1,4)] assms(2) obtain m where st: "hop_state hops (set nodes) {} es m" by auto
  have out: "{z. (node_id node, z) \<in> set es} = name_of hops ` tops hops node"
    using hop_sources(3) [OF st assms(3,5)] st assms(5) by (auto simp: hop_state_def)
  have seg: "sinks_from (set es) (name_of hops seg) = leaves hops seg" if "seg \<in> tops hops node" for seg
  proof -
    obtain sheet col a b where s: "seg = (sheet, col, a, b)" by (cases seg) auto
    show ?thesis unfolding s using st assms(5) that by (intro segment_sinks [OF st assms(3)]) (auto simp: hop_state_def s)
  qed
  have "{y. (node_id node, y) \<in> (set es)\<^sup>+ \<and> y \<notin> fst ` set es} = (\<Union>z \<in> {z. (node_id node, z) \<in> set es}. sinks_from (set es) z)"
    unfolding sinks_from_def by (auto dest: tranclD intro: rtrancl_into_trancl2)
  also have "\<dots> = (\<Union>s \<in> tops hops node. leaves hops s)" unfolding out using seg by simp
  finally show ?thesis using node_leaves [OF assms(1)] by simp
qed

section \<open>Properties\<close>

text \<open>
  C9. The hop edges lead from a range node exactly to its formula cells: for any formula cells and any
  list of nodes, generated with one shared set of expanded segments, the ends of the paths that
  start at a node are the formula cells inside the node's bounds, no cell is missing because
  its segment was expanded for an earlier node, and none is added.
\<close>

theorem range_hops_reach_members:
  assumes "list_all parsed_node nodes" and "node \<in> set nodes"
  shows "let es = fst (structural_edges (make_hops cells) nodes) in
    {y. (node_id node, y) \<in> (set es)\<^sup>+ \<and> y \<notin> fst ` set es} =
      {cell_name (rn_sheet node) col row | col row. contains_cell (rn_sheet node) col row node
        \<and> (\<exists>cell \<in> set cells. placed_cell cell (rn_sheet node, col, row))}"
proof -
  obtain es hops' where e: "structural_edges (make_hops cells) nodes = (es, hops')" by fastforce
  have "rh_made (make_hops cells) = {}" by (simp add: make_hops_def Let_def)
  from structural_sinks [OF make_hops_ok this _ e assms(2)] assms(1) show ?thesis
    by (simp add: e list_all_iff hop_members_set [OF make_hops_ok])
qed

theorem range_hops_reach_members_witness:
  "let n = the (parse_range_node ''S!A2:A4''); es = fst (structural_edges (make_hops [''S!A1'', ''S!A2'', ''S!A3'']) [n]) in
    {y. (node_id n, y) \<in> (set es)\<^sup>+ \<and> y \<notin> fst ` set es} =
      {cell_name (rn_sheet n) col row | col row. contains_cell (rn_sheet n) col row n
        \<and> (\<exists>cell \<in> set [''S!A1'', ''S!A2'', ''S!A3'']. placed_cell cell (rn_sheet n, col, row))}"
proof -
  have "list_all parsed_node [the (parse_range_node ''S!A2:A4'')]" by code_simp
  from range_hops_reach_members [OF this, of "the (parse_range_node ''S!A2:A4'')" "[''S!A1'', ''S!A2'', ''S!A3'']"]
  show ?thesis by (simp add: Let_def)
qed

text \<open>
  The segments of a balanced tree cover a wanted span exactly: listed in order, their elements are
  the span from its first to its last element, each once, whatever the size of the tree.
\<close>

theorem cover_segments_tile:
  assumes "lo \<le> want_lo" and "want_lo \<le> want_hi" and "want_hi \<le> hi"
  shows "concat (map (\<lambda>(a, b). [a..<Suc b]) (cover_segments lo hi want_lo want_hi)) = [want_lo..<Suc want_hi]"
  using assms by (rule cover_segments_exact(1))

theorem cover_segments_tile_witness:
  "cover_segments 0 9 2 7 = [(2, 2), (3, 4), (5, 7)] \<and>
   concat (map (\<lambda>(a, b). [a..<Suc b]) (cover_segments 0 9 2 7)) = [2..<Suc 7]"
proof -
  have "cover_segments 0 9 2 7 = [(2, 2), (3, 4), (5, 7)]" by code_simp
  moreover have "concat (map (\<lambda>(a, b). [a..<Suc b]) (cover_segments 0 9 2 7)) = [2..<Suc 7]" by (rule cover_segments_tile) simp_all
  ultimately show ?thesis by blast
qed

end
