(* ===== verification/Cycles.thy ===== *)
theory Cycles
  imports Range_Hops "HOL-Library.List_Lexorder" "HOL-Library.Char_ord"
begin

text \<open>
  Circular formulas, \<open>src/finance_context/graph/cycles.py\<close>: the usable edges, the hop edges
  through range nodes, the components of the joint graph, and one record per component that
  is a cycle. The component labels come from scipy's \<open>connected_components\<close>, which is the
  parameter \<open>components\<close>; the theorems use its documented meaning (\<open>strong_components\<close>).
  Node names are sorted by code point, the lexicographic order on strings.
\<close>

section \<open>Usable edges and their class\<close>

fun as_cell_edges :: "CellEdge either_dict list \<Rightarrow> CellEdge list result" where
  "as_cell_edges [] = Inr []"
| "as_cell_edges (item # items) =
     bind_result (as_cell_edge item) (\<lambda>edge. bind_result (as_cell_edges items) (\<lambda>edges. Inr (edge # edges)))"

definition usable_edge :: "CellEdge \<Rightarrow> bool" where
  "usable_edge edge \<longleftrightarrow> ce_source edge \<noteq> [] \<and> ce_target edge \<noteq> [] \<and> \<not> ce_unresolved edge \<and> \<not> ce_dangling edge
     \<and> ce_kind edge \<in> {''ref'', ''cross_sheet'', ''range''}"

text \<open>A non-zero period distance; a lag text that is no number is no shift.\<close>

definition is_period_chain :: "CellEdge \<Rightarrow> bool" where
  "is_period_chain edge =
     (let by_offset =
        (if ce_col_offset edge = None \<or> ce_col_offset edge = Some 0 then False
         else
           case (parse_node_id (Some (ce_source edge)), parse_node_id (Some (ce_target edge))) of
             (Some (sheet1, col1, row1), Some (sheet2, col2, row2)) \<Rightarrow> sheet1 = sheet2 \<and> row1 = row2
           | _ \<Rightarrow> False)
      in case ce_period_lag edge of
           None \<Rightarrow> by_offset
         | Some lag \<Rightarrow>
             if lag \<in> {''same'', ''0'', ''unaligned''} then False
             else if lag \<noteq> [] then (case py_int_text lag of Inl _ \<Rightarrow> False | Inr n \<Rightarrow> n \<noteq> 0)
             else by_offset)"

definition classify_cycle :: "CellEdge list \<Rightarrow> bool list \<Rightarrow> string" where
  "classify_cycle intra bits =
     (if intra = [] \<and> bits = [] then ''unexpected''
      else if list_all is_period_chain intra \<and> list_all (\<lambda>b. b) bits then ''iterative_ok''
      else ''unexpected'')"

section \<open>Components\<close>

record CycleRecord =
  cy_id :: string
  cy_members :: "string list"
  cy_class :: string

text \<open>\<open>{node.node_id: node for _source, node in range_edges}.values()\<close>.\<close>

definition distinct_nodes :: "(string \<times> RangeNode) list \<Rightarrow> RangeNode list" where
  "distinct_nodes range_edges =
     map snd (foldl (\<lambda>d (source, node). AList.update (node_id node) node d) [] range_edges)"

definition structural_pairs :: "RangeHops option \<Rightarrow> (string \<times> RangeNode) list \<Rightarrow> (string \<times> string) list" where
  "structural_pairs hops range_edges =
     (case hops of None \<Rightarrow> [] | Some hops \<Rightarrow> fst (structural_edges hops (distinct_nodes range_edges)))"

definition edge_pair :: "CellEdge \<Rightarrow> string \<times> string" where
  "edge_pair edge = (ce_source edge, ce_target edge)"

definition graph_nodes :: "(string \<times> string) list \<Rightarrow> string list" where
  "graph_nodes pairs = sort (remdups (map fst pairs @ map snd pairs))"

definition index_of :: "string list \<Rightarrow> string \<Rightarrow> nat option" where
  "index_of nodes name = map_of (zip nodes [0..<length nodes]) name"

definition index_pairs :: "string list \<Rightarrow> (string \<times> string) list \<Rightarrow> (nat \<times> nat) list" where
  "index_pairs nodes pairs = map (\<lambda>(src, tgt). (the (index_of nodes src), the (index_of nodes tgt))) pairs"

type_synonym components = "nat \<Rightarrow> (nat \<times> nat) list \<Rightarrow> int list"

text \<open>The loop over names and labels: the names of each label, labels by first appearance.\<close>

definition group_members :: "(string \<times> int) list \<Rightarrow> (int \<times> string list) list" where
  "group_members labelled = foldl (\<lambda>members (name, label). dict_alter label [] (\<lambda>bucket. bucket @ [name]) members) [] labelled"

definition label_of :: "string list \<Rightarrow> int list \<Rightarrow> string \<Rightarrow> int option" where
  "label_of nodes labels name = map_option (\<lambda>slot. labels ! slot) (index_of nodes name)"

definition intra_edges :: "string list \<Rightarrow> int list \<Rightarrow> CellEdge list \<Rightarrow> int \<Rightarrow> CellEdge list" where
  "intra_edges nodes labels usable label =
     filter (\<lambda>edge.
       label_of nodes labels (ce_source edge) = Some label
       \<and> label_of nodes labels (ce_target edge) = Some label
       \<and> \<not> is_range_node (ce_target edge)
       \<and> \<not> (length (filter (\<lambda>l. l = label) labels) < 2 \<and> ce_source edge \<noteq> ce_target edge)) usable"

fun cycle_records ::
  "nat \<Rightarrow> (int \<Rightarrow> CellEdge list) \<Rightarrow> (int \<times> bool \<times> bool) list \<Rightarrow> (int \<times> string list) list \<Rightarrow> CycleRecord list" where
  "cycle_records seq intra_by flags [] = []"
| "cycle_records seq intra_by flags ((label, names) # groups) =
     (let group = filter is_cell_id names;
          intra = intra_by label;
          bits = map (\<lambda>(l, bit, self). bit) (filter (\<lambda>(l, bit, self). l = label) flags);
          self_loop = list_ex (\<lambda>edge. ce_source edge = ce_target edge) intra
            \<or> list_ex (\<lambda>(l, bit, self). l = label \<and> self) flags
      in if group = [] \<or> (length group < 2 \<and> \<not> self_loop) then cycle_records seq intra_by flags groups
         else \<lparr>cy_id = ''c'' @ nat_str seq, cy_members = sort group, cy_class = classify_cycle intra bits\<rparr>
              # cycle_records (seq + 1) intra_by flags groups)"

definition classify_cycles ::
  "components \<Rightarrow> CellEdge either_dict list \<Rightarrow> RangeHops option \<Rightarrow> (string \<times> RangeNode) list
   \<Rightarrow> (string \<Rightarrow> string \<Rightarrow> bool) option \<Rightarrow> CycleRecord list result" where
  "classify_cycles components edges hops range_edges period_chain =
     bind_result (as_cell_edges edges) (\<lambda>all_edges.
       let usable = filter usable_edge all_edges;
           pairs = map edge_pair usable @ structural_pairs hops range_edges;
           nodes = graph_nodes pairs
       in if nodes = [] then Inr []
          else
            let labels = components (length nodes) (index_pairs nodes pairs) in
            if length labels \<noteq> length nodes then Inl (ValueError ''zip() argument 2'')
            else
              let flags = (case (hops, period_chain) of
                     (Some hops, Some period_chain) \<Rightarrow> hop_flags (label_of nodes labels) range_edges hops period_chain
                   | _ \<Rightarrow> [])
              in Inr (cycle_records 1 (intra_edges nodes labels usable) flags (group_members (zip nodes labels))))"

section \<open>Labels mean mutual reachability\<close>

text \<open>The documented result of \<open>connected_components(..., connection="strong")\<close>: one label per vertex,
  equal exactly for vertices that reach each other.\<close>

definition strong_components :: "components \<Rightarrow> bool" where
  "strong_components components \<longleftrightarrow>
     (\<forall>n pairs. (\<forall>(i, j) \<in> set pairs. i < n \<and> j < n) \<longrightarrow>
        length (components n pairs) = n \<and>
        (\<forall>i < n. \<forall>j < n. components n pairs ! i = components n pairs ! j \<longleftrightarrow>
           (i, j) \<in> (set pairs)\<^sup>* \<and> (j, i) \<in> (set pairs)\<^sup>*))"

lemma rtrancl_image: "(x, y) \<in> R\<^sup>* \<Longrightarrow> (f x, f y) \<in> (map_prod f f ` R)\<^sup>*"
  by (induction rule: rtrancl_induct) (auto intro: rtrancl_into_rtrancl rev_image_eqI)

lemma graph_nodes_facts: "distinct (graph_nodes pairs)" "set (graph_nodes pairs) = fst ` set pairs \<union> snd ` set pairs"
  by (simp_all add: graph_nodes_def)

lemma index_of_nth: "distinct nodes \<Longrightarrow> i < length nodes \<Longrightarrow> index_of nodes (nodes ! i) = Some i"
  unfolding index_of_def by (subst map_of_eq_Some_iff) (auto simp: in_set_zip map_fst_zip intro: exI [of _ i])

lemma index_of_None: "index_of nodes x = None \<longleftrightarrow> x \<notin> set nodes"
  by (simp add: index_of_def map_of_zip_is_None)

lemma index_reach:
  assumes d: "distinct nodes" and sub: "fst ` set pairs \<union> snd ` set pairs \<subseteq> set nodes" and i: "i < length nodes" "j < length nodes"
  shows "(i, j) \<in> (set (index_pairs nodes pairs))\<^sup>* \<longleftrightarrow> (nodes ! i, nodes ! j) \<in> (set pairs)\<^sup>*"
proof -
  let ?f = "\<lambda>x. the (index_of nodes x)" and ?g = "\<lambda>i. nodes ! i"
  have fg: "?f (?g i) = i" if "i < length nodes" for i using index_of_nth [OF d that] by simp
  have gf: "?g (?f x) = x" if "x \<in> set nodes" for x using that fg by (auto simp: in_set_conv_nth)
  have ip: "set (index_pairs nodes pairs) = map_prod ?f ?f ` set pairs" by (auto simp: index_pairs_def)
  have "map_prod ?g ?g (map_prod ?f ?f p) = p" if "p \<in> set pairs" for p
  proof -
    have "fst p \<in> set nodes" "snd p \<in> set nodes" using that sub by blast+
    then show ?thesis by (cases p) (simp add: gf)
  qed
  then have "map_prod ?g ?g ` map_prod ?f ?f ` set pairs = (\<lambda>p. p) ` set pairs"
    unfolding image_image by (intro image_cong refl)
  then have pi: "map_prod ?g ?g ` set (index_pairs nodes pairs) = set pairs" unfolding ip by simp
  show ?thesis
    using rtrancl_image [of i j "set (index_pairs nodes pairs)" ?g, unfolded pi] rtrancl_image [of "?g i" "?g j" "set pairs" ?f, folded ip]
    unfolding fg [OF i(1)] fg [OF i(2)] by blast
qed

lemma labels_reach:
  assumes "strong_components components" "nodes = graph_nodes pairs" "labels = components (length nodes) (index_pairs nodes pairs)"
  shows "length labels = length nodes"
    and "x \<in> set nodes \<Longrightarrow> y \<in> set nodes \<Longrightarrow>
      label_of nodes labels x = label_of nodes labels y \<longleftrightarrow> (x, y) \<in> (set pairs)\<^sup>* \<and> (y, x) \<in> (set pairs)\<^sup>*"
proof -
  have d: "distinct nodes" and sub: "fst ` set pairs \<union> snd ` set pairs \<subseteq> set nodes" by (simp_all add: assms(2) graph_nodes_facts)
  have "the (index_of nodes x) < length nodes" if "x \<in> set nodes" for x
    using that index_of_nth [OF d] by (auto simp: in_set_conv_nth)
  then have "the (index_of nodes (fst p)) < length nodes \<and> the (index_of nodes (snd p)) < length nodes" if "p \<in> set pairs" for p
    using that sub by blast
  then have bound: "\<forall>(i, j) \<in> set (index_pairs nodes pairs). i < length nodes \<and> j < length nodes"
    by (auto simp: index_pairs_def case_prod_beta)
  have sc: "length labels = length nodes \<and> (\<forall>i < length nodes. \<forall>j < length nodes. labels ! i = labels ! j \<longleftrightarrow>
      (i, j) \<in> (set (index_pairs nodes pairs))\<^sup>* \<and> (j, i) \<in> (set (index_pairs nodes pairs))\<^sup>*)"
    using assms(1) bound unfolding strong_components_def assms(3) by blast
  then show "length labels = length nodes" by blast
  assume "x \<in> set nodes" "y \<in> set nodes"
  then obtain i j where ij: "x = nodes ! i" "i < length nodes" "y = nodes ! j" "j < length nodes" by (auto simp: in_set_conv_nth)
  have "label_of nodes labels x = Some (labels ! i)" "label_of nodes labels y = Some (labels ! j)"
    using index_of_nth [OF d] ij by (simp_all add: label_of_def)
  then show "label_of nodes labels x = label_of nodes labels y \<longleftrightarrow> (x, y) \<in> (set pairs)\<^sup>* \<and> (y, x) \<in> (set pairs)\<^sup>*"
    using sc ij index_reach [OF d sub] by auto
qed

section \<open>Groups and records\<close>

lemma group_members_get: "dict_get (group_members zs) label [] = map fst (filter (\<lambda>(name, l). l = label) zs)"
proof (induction zs rule: rev_induct)
  case Nil
  then show ?case by (simp add: group_members_def dict_get_def)
next
  case (snoc z zs)
  then show ?case by (cases z) (auto simp: group_members_def dict_get_alter)
qed

lemma group_members_distinct: "distinct (map fst (group_members zs))"
proof (induction zs rule: rev_induct)
  case Nil
  then show ?case by (simp add: group_members_def)
next
  case (snoc z zs)
  then show ?case by (cases z) (simp add: group_members_def distinct_dict_alter)
qed

lemma group_members_entry:
  "(label, names) \<in> set (group_members zs) \<Longrightarrow> names = map fst (filter (\<lambda>(name, l). l = label) zs)"
  using group_members_get [of zs label] group_members_distinct [of zs] by (simp add: dict_get_def)

lemma group_members_key: "(name, label) \<in> set zs \<Longrightarrow> \<exists>names. (label, names) \<in> set (group_members zs) \<and> name \<in> set names"
proof -
  assume z: "(name, label) \<in> set zs"
  then have ne: "name \<in> set (dict_get (group_members zs) label [])" by (force simp: group_members_get)
  then obtain names where "map_of (group_members zs) label = Some names" "name \<in> set names"
    by (cases "map_of (group_members zs) label") (auto simp: dict_get_def)
  then show ?thesis by (blast dest: map_of_SomeD)
qed

lemma cycle_records_sound:
  "r \<in> set (cycle_records seq intra_by flags groups) \<Longrightarrow>
   \<exists>(label, names) \<in> set groups. cy_members r = sort (filter is_cell_id names) \<and> filter is_cell_id names \<noteq> []"
proof (induction groups arbitrary: seq)
  case (Cons g groups)
  obtain label names where g: "g = (label, names)" by (cases g)
  show ?case
  proof (cases "r \<in> set (cycle_records seq intra_by flags groups) \<or> r \<in> set (cycle_records (seq + 1) intra_by flags groups)")
    case True
    with Cons.IH show ?thesis by fastforce
  next
    case False
    with Cons.prems show ?thesis by (auto simp: g Let_def split: if_splits)
  qed
qed simp

lemma cycle_records_complete:
  "(label, names) \<in> set groups \<Longrightarrow> 2 \<le> length (filter is_cell_id names) \<Longrightarrow>
   \<exists>r \<in> set (cycle_records seq intra_by flags groups). cy_members r = sort (filter is_cell_id names)"
proof (induction groups arbitrary: seq)
  case (Cons g groups)
  obtain label' names' where g: "g = (label', names')" by (cases g)
  show ?case
  proof (cases "g = (label, names)")
    case True
    with Cons.prems(2) show ?thesis by (auto simp: Let_def)
  next
    case False
    with Cons.prems(1) have "(label, names) \<in> set groups" by simp
    note ih = Cons.IH [OF this Cons.prems(2)]
    then show ?thesis using ih [of seq] ih [of "seq + 1"] by (auto simp: g Let_def)
  qed
qed simp

lemma label_of_zip:
  assumes "distinct nodes" "length labels = length nodes"
  shows "(name, label) \<in> set (zip nodes labels) \<longleftrightarrow> name \<in> set nodes \<and> label_of nodes labels name = Some label"
proof
  assume "(name, label) \<in> set (zip nodes labels)"
  then obtain i where "i < length nodes" "name = nodes ! i" "label = labels ! i" by (auto simp: in_set_zip)
  with index_of_nth [OF assms(1)] show "name \<in> set nodes \<and> label_of nodes labels name = Some label" by (simp add: label_of_def)
next
  assume n: "name \<in> set nodes \<and> label_of nodes labels name = Some label"
  then obtain i where "i < length nodes" "name = nodes ! i" by (auto simp: in_set_conv_nth)
  with index_of_nth [OF assms(1)] n assms(2) show "(name, label) \<in> set (zip nodes labels)"
    by (auto simp: label_of_def in_set_zip)
qed

lemma records_same_label:
  assumes "distinct nodes" "length labels = length nodes" "x \<noteq> y"
  shows "(\<exists>r \<in> set (cycle_records seq intra_by flags (group_members (zip nodes labels))). x \<in> set (cy_members r) \<and> y \<in> set (cy_members r)) \<longleftrightarrow>
    is_cell_id x \<and> is_cell_id y \<and> x \<in> set nodes \<and> y \<in> set nodes \<and> label_of nodes labels x = label_of nodes labels y"
proof
  assume "\<exists>r \<in> set (cycle_records seq intra_by flags (group_members (zip nodes labels))). x \<in> set (cy_members r) \<and> y \<in> set (cy_members r)"
  then obtain label names where g: "(label, names) \<in> set (group_members (zip nodes labels))" "x \<in> set (filter is_cell_id names)" "y \<in> set (filter is_cell_id names)"
    by (auto dest!: cycle_records_sound)
  from group_members_entry [OF g(1)] g(2,3) have "(x, label) \<in> set (zip nodes labels)" "(y, label) \<in> set (zip nodes labels)" by auto
  with g show "is_cell_id x \<and> is_cell_id y \<and> x \<in> set nodes \<and> y \<in> set nodes \<and> label_of nodes labels x = label_of nodes labels y"
    by (simp add: label_of_zip [OF assms(1,2)])
next
  assume xy: "is_cell_id x \<and> is_cell_id y \<and> x \<in> set nodes \<and> y \<in> set nodes \<and> label_of nodes labels x = label_of nodes labels y"
  then obtain label where "label_of nodes labels x = Some label"
    using index_of_None [of nodes x] by (cases "index_of nodes x") (auto simp: label_of_def)
  with xy have z: "(x, label) \<in> set (zip nodes labels)" "(y, label) \<in> set (zip nodes labels)" by (simp_all add: label_of_zip [OF assms(1,2)])
  from group_members_key [OF z(1)] obtain names where n: "(label, names) \<in> set (group_members (zip nodes labels))" by blast
  from group_members_entry [OF n] z xy have m: "x \<in> set (filter is_cell_id names)" "y \<in> set (filter is_cell_id names)" by force+
  have "card {x, y} \<le> card (set (filter is_cell_id names))" using m by (intro card_mono) auto
  then have "2 \<le> length (filter is_cell_id names)" using assms(3) card_length [of "filter is_cell_id names"] by simp
  from cycle_records_complete [OF n this, of seq intra_by flags] obtain r
    where "r \<in> set (cycle_records seq intra_by flags (group_members (zip nodes labels)))" "set (cy_members r) = set (filter is_cell_id names)"
    by (metis set_sort)
  with m show "\<exists>r \<in> set (cycle_records seq intra_by flags (group_members (zip nodes labels))). x \<in> set (cy_members r) \<and> y \<in> set (cy_members r)"
    by blast
qed

section \<open>Hops stand for the expanded edges\<close>

text \<open>
  The graph a per-formula expansion would have: an edge into a range node becomes an edge to each
  formula cell of the node.
\<close>

definition expanded_pairs :: "RangeHops \<Rightarrow> RangeNode set \<Rightarrow> (string \<times> string) set \<Rightarrow> (string \<times> string) set" where
  "expanded_pairs hops N U = {(s, t) \<in> U. is_cell_id t} \<union>
     {(s, m) | s m node. node \<in> N \<and> (s, node_id node) \<in> U \<and> m \<in> set (hop_members hops node) \<and> is_cell_id m}"

lemma contract_hops:
  assumes U: "\<And>a b. (a, b) \<in> U \<Longrightarrow> a \<in> C" and H: "\<And>a b. (a, b) \<in> H \<Longrightarrow> a \<notin> C"
    and "x \<in> C" "y \<in> C"
  defines "X \<equiv> {(a, c). \<exists>b. (a, b) \<in> U \<and> (b, c) \<in> H\<^sup>* \<and> c \<in> C}"
  shows "(x, y) \<in> (U \<union> H)\<^sup>+ \<longleftrightarrow> (x, y) \<in> X\<^sup>+"
proof
  have step: "\<exists>a b. (x, a) \<in> X\<^sup>* \<and> (a, b) \<in> U \<and> (b, z) \<in> H\<^sup>*" if "(x, z) \<in> (U \<union> H)\<^sup>+" for z
    using that
  proof (induction rule: trancl_induct)
    case (base z)
    then show ?case using H \<open>x \<in> C\<close> by blast
  next
    case (step z w)
    then obtain a b where ab: "(x, a) \<in> X\<^sup>*" "(a, b) \<in> U" "(b, z) \<in> H\<^sup>*" by blast
    show ?case
    proof (cases "(z, w) \<in> U")
      case True
      with U ab have "(a, z) \<in> X" by (auto simp: X_def)
      with ab(1) True show ?thesis by (blast intro: rtrancl_into_rtrancl)
    next
      case False
      with step(2) ab show ?thesis by (blast intro: rtrancl_into_rtrancl)
    qed
  qed
  assume "(x, y) \<in> (U \<union> H)\<^sup>+"
  from step [OF this] obtain a b where "(x, a) \<in> X\<^sup>*" "(a, b) \<in> U" "(b, y) \<in> H\<^sup>*" by blast
  with \<open>y \<in> C\<close> have "(a, y) \<in> X" by (auto simp: X_def)
  with \<open>(x, a) \<in> X\<^sup>*\<close> show "(x, y) \<in> X\<^sup>+" by (rule rtrancl_into_trancl1)
next
  have one: "(a, c) \<in> (U \<union> H)\<^sup>+" if "(a, c) \<in> X" for a c
  proof -
    from that obtain b where b: "(a, b) \<in> U" "(b, c) \<in> H\<^sup>*" by (auto simp: X_def)
    from b(2) have "(b, c) \<in> (U \<union> H)\<^sup>*" by (rule rtrancl_mono [THEN subsetD, rotated]) blast
    with b(1) show ?thesis by (blast intro: rtrancl_into_trancl2)
  qed
  assume "(x, y) \<in> X\<^sup>+"
  then show "(x, y) \<in> (U \<union> H)\<^sup>+" by (induction rule: trancl_induct) (blast intro: one trancl_trans)+
qed

lemma re_cell_whole_no_bar: "re_cell s = Some (l, d, []) \<Longrightarrow> CHR ''|'' \<notin> set s"
  using re_cell_split by fastforce

lemma cell_id_not_seg: "is_cell_id x \<Longrightarrow> x \<noteq> seg_name seg"
proof
  assume c: "is_cell_id x" and x: "x = seg_name seg"
  obtain s c lo hi where seg: "seg = (s, c, lo, hi)" by (cases seg) auto
  have form: "x = (SEGMENT_PREFIX @ s @ ''|'' @ int_str c @ ''|'' @ nat_str lo) @ CHR ''|'' # nat_str hi" by (simp add: x seg seg_name_def)
  from c obtain sheet0 addr0 where sp: "rsplit1 CHR ''!'' x = Some (sheet0, addr0)"
    and pa: "parse_addr (filter (\<lambda>c. c \<noteq> CHR ''$'') (takeWhile (\<lambda>c. c \<noteq> CHR '':'') addr0)) \<noteq> Inl e" for e
    by (auto simp: is_cell_id_def parse_node_id_def Let_def split: option.splits sum.splits)
  have split: "x = sheet0 @ CHR ''!'' # addr0" "CHR ''!'' \<notin> set addr0" using rsplit1_Some [OF sp] by auto
  have "CHR '':'' \<notin> set addr0" using c split(1) by (auto simp: is_cell_id_def)
  then have "takeWhile (\<lambda>c. c \<noteq> CHR '':'') addr0 = addr0" by (auto simp: takeWhile_eq_all_conv)
  with pa have "parse_addr (filter (\<lambda>c. c \<noteq> CHR ''$'') addr0) \<noteq> Inl e" for e by simp
  then obtain l d where "re_cell (filter (\<lambda>c. c \<noteq> CHR ''$'') addr0) = Some (l, d, [])"
    by (fastforce simp: parse_addr_def split: option.splits prod.splits list.splits)
  then have "CHR ''|'' \<notin> set addr0" using re_cell_whole_no_bar by fastforce
  with split bang_not_bar [OF split(2) _ name_chars(1) [of hi] name_chars(2) [of hi]] form show False by blast
qed

lemma cell_id_not_node: "is_cell_id x \<Longrightarrow> parsed_node node \<Longrightarrow> x \<noteq> node_id node"
  by (auto simp: is_cell_id_def elim: parsed_node_id)

lemma structural_sources:
  assumes "hops_ok cells hops" "rh_made hops = {}" "\<forall>node \<in> set nodes. parsed_node node" "structural_edges hops nodes = (es, hops')"
    "(a, b) \<in> set es"
  shows "\<not> is_cell_id a"
proof -
  from structural_edges_state [OF assms(1,4)] assms(2) obtain m where "hop_state hops (set nodes) {} es m" by auto
  with assms(5) have "tree_edge hops (a, b) \<or> (\<exists>node \<in> set nodes. node_edge hops node (a, b))" by (auto simp: hop_state_def)
  then show ?thesis
  proof
    assume "tree_edge hops (a, b)"
    then show ?thesis using cell_id_not_seg unfolding tree_edge_def by (metis fst_conv)
  next
    assume "\<exists>node \<in> set nodes. node_edge hops node (a, b)"
    then show ?thesis using cell_id_not_node assms(3) by (auto simp: node_edge_def)
  qed
qed

lemma hops_as_expansion:
  assumes hops: "hops_ok cells hops" "rh_made hops = {}" and nodes: "\<forall>node \<in> set nodes. parsed_node node"
    and es: "structural_edges hops nodes = (es, hops')"
    and U: "\<forall>(s, t) \<in> U. is_cell_id s \<and> (is_cell_id t \<or> t \<in> node_id ` set nodes)"
    and xy: "is_cell_id x" "is_cell_id y"
  shows "(x, y) \<in> (U \<union> set es)\<^sup>+ \<longleftrightarrow> (x, y) \<in> (expanded_pairs hops (set nodes) U)\<^sup>+"
proof -
  let ?C = "{x. is_cell_id x}"
  note src = structural_sources [OF hops nodes es]
  have cell: "(b, c) \<in> (set es)\<^sup>* \<longleftrightarrow> c = b" if "is_cell_id b" for b c
    using src that by (auto elim: converse_rtranclE)
  have sink: "c \<notin> fst ` set es" if "is_cell_id c" for c using src that by auto
  have node: "(node_id n, c) \<in> (set es)\<^sup>* \<and> is_cell_id c \<longleftrightarrow> c \<in> set (hop_members hops n) \<and> is_cell_id c" if "n \<in> set nodes" for n c
  proof -
    have "is_cell_id c \<Longrightarrow> c \<noteq> node_id n" using cell_id_not_node nodes that by blast
    then show ?thesis
      using structural_sinks [OF hops nodes es that] sink by (auto simp: rtrancl_eq_or_trancl)
  qed
  have "{(a, c). \<exists>b. (a, b) \<in> U \<and> (b, c) \<in> (set es)\<^sup>* \<and> c \<in> ?C} = expanded_pairs hops (set nodes) U" (is "?L = ?R")
  proof (intro set_eqI, unfold split_paired_all)
    fix a c
    show "(a, c) \<in> ?L \<longleftrightarrow> (a, c) \<in> ?R"
      using U cell node unfolding expanded_pairs_def by fastforce
  qed
  with contract_hops [of U ?C "set es" x y] U src xy show ?thesis by auto
qed

lemma distinct_nodes_set:
  assumes "list_all (\<lambda>(source, node). parsed_node node) range_edges"
  shows "set (distinct_nodes range_edges) = snd ` set range_edges"
proof -
  define d :: "(string \<times> RangeNode) list \<Rightarrow> (string \<times> RangeNode) list"
    where "d = foldl (\<lambda>d (source, node). AList.update (node_id node) node d) []"
  have inv: "map_of (d re) k = Some n \<longleftrightarrow> k = node_id n \<and> n \<in> snd ` set re" if "list_all (\<lambda>(source, node). parsed_node node) re" for re k n
    using that
  proof (induction re arbitrary: k n rule: rev_induct)
    case Nil
    then show ?case by (simp add: d_def)
  next
    case (snoc r re)
    obtain source node where r: "r = (source, node)" by (cases r)
    have "d (re @ [r]) = AList.update (node_id node) node (d re)" by (simp add: d_def r)
    then have m: "map_of (d (re @ [r])) k = (if k = node_id node then Some node else map_of (d re) k)" by (simp add: update_conv')
    have same: "n = node" if "n \<in> snd ` set re" "node_id n = node_id node"
    proof -
      have "parsed_node n" "parsed_node node" using snoc.prems that(1) r by (auto simp: list_all_iff)
      with that(2) show ?thesis by (simp add: parsed_node_def)
    qed
    have ih: "map_of (d re) k = Some n \<longleftrightarrow> k = node_id n \<and> n \<in> snd ` set re" using snoc by simp
    have s: "snd ` set (re @ [r]) = insert node (snd ` set re)" by (simp add: r)
    show ?case
    proof (cases "k = node_id node")
      case True
      then have "(if k = node_id node then Some node else map_of (d re) k) = Some n \<longleftrightarrow> n = node" by auto
      with True same show ?thesis unfolding m s by blast
    next
      case False
      with ih show ?thesis unfolding m s by auto
    qed
  qed
  have "distinct (map fst (d re))" for re :: "(string \<times> RangeNode) list"
  proof (induction re rule: rev_induct)
    case (snoc r re)
    then show ?case by (cases r) (simp add: d_def distinct_update)
  qed (simp add: d_def)
  then have "snd ` set (d range_edges) = {n. \<exists>k. map_of (d range_edges) k = Some n}" by force
  also have "\<dots> = snd ` set range_edges" using inv [OF assms] by blast
  finally show ?thesis by (simp add: distinct_nodes_def d_def)
qed

lemma as_cell_edges_objects: "as_cell_edges (map AsObject edges) = Inr edges"
  by (induction edges) (simp_all add: as_cell_edge_def)

lemma classify_cycles_records:
  assumes sc: "strong_components components"
    and run: "classify_cycles components (map AsObject edges) hops range_edges period_chain = Inr cycles"
    and pairs: "pairs = map edge_pair (filter usable_edge edges) @ structural_pairs hops range_edges"
    and nodes: "nodes = graph_nodes pairs" and labels: "labels = components (length nodes) (index_pairs nodes pairs)"
  shows "cycles = cycle_records 1 (intra_edges nodes labels (filter usable_edge edges))
      (case (hops, period_chain) of
         (Some hops, Some period_chain) \<Rightarrow> hop_flags (label_of nodes labels) range_edges hops period_chain | _ \<Rightarrow> [])
      (group_members (zip nodes labels))"
proof (cases "nodes = []")
  case True
  then have "cycles = []"
    using run by (simp add: classify_cycles_def as_cell_edges_objects Let_def pairs [symmetric] nodes [symmetric])
  with True show ?thesis by (simp add: group_members_def)
next
  case False
  with run labels_reach(1) [OF sc nodes labels] show ?thesis
    unfolding classify_cycles_def as_cell_edges_objects bind_result_simps Let_def pairs [symmetric] nodes [symmetric] labels [symmetric]
    by simp
qed

lemma classify_cycles_reach:
  assumes sc: "strong_components components" and "x \<noteq> y"
    and run: "classify_cycles components (map AsObject edges) hops range_edges period_chain = Inr cycles"
    and P: "P = set (map edge_pair (filter usable_edge edges) @ structural_pairs hops range_edges)"
  shows "(\<exists>r \<in> set cycles. x \<in> set (cy_members r) \<and> y \<in> set (cy_members r)) \<longleftrightarrow>
    is_cell_id x \<and> is_cell_id y \<and> (x, y) \<in> P\<^sup>+ \<and> (y, x) \<in> P\<^sup>+"
proof -
  define pairs where "pairs = map edge_pair (filter usable_edge edges) @ structural_pairs hops range_edges"
  define nodes where "nodes = graph_nodes pairs"
  define labels where "labels = components (length nodes) (index_pairs nodes pairs)"
  have P': "P = set pairs" by (simp add: P pairs_def)
  have d: "distinct nodes" and sn: "set nodes = fst ` set pairs \<union> snd ` set pairs" by (simp_all add: nodes_def graph_nodes_facts)
  note reach = labels_reach [OF sc nodes_def labels_def]
  have in_nodes: "a \<in> set nodes \<and> b \<in> set nodes" if "(a, b) \<in> P\<^sup>+" for a b
    using tranclD [OF that] tranclD2 [OF that] unfolding P' sn by force
  have star: "(a, b) \<in> P\<^sup>* \<longleftrightarrow> (a, b) \<in> P\<^sup>+" if "a \<noteq> b" for a b using that by (simp add: rtrancl_eq_or_trancl)
  show ?thesis
    unfolding classify_cycles_records [OF sc run pairs_def nodes_def labels_def] records_same_label [OF d reach(1) \<open>x \<noteq> y\<close>]
    using reach(2) [of x y] star [of x y] star [of y x] \<open>x \<noteq> y\<close> in_nodes unfolding P' by blast
qed

text \<open>A label of its own is a cycle only by a self loop; the label's other flags do not matter.\<close>

definition self_looped :: "(int \<Rightarrow> CellEdge list) \<Rightarrow> (int \<times> bool \<times> bool) list \<Rightarrow> int \<Rightarrow> bool" where
  "self_looped intra_by flags label \<longleftrightarrow>
     (\<exists>edge \<in> set (intra_by label). ce_source edge = ce_target edge) \<or> (\<exists>bit. (label, bit, True) \<in> set flags)"

lemma cycle_records_members:
  "map cy_members (cycle_records seq intra_by flags groups) =
     map (\<lambda>(label, names). sort (filter is_cell_id names))
       (filter (\<lambda>(label, names). filter is_cell_id names \<noteq> [] \<and> (2 \<le> length (filter is_cell_id names) \<or> self_looped intra_by flags label)) groups)"
proof (induction groups arbitrary: seq)
  case (Cons g groups)
  obtain label names where g: "g = (label, names)" by (cases g)
  have "list_ex (\<lambda>edge. ce_source edge = ce_target edge) (intra_by label) \<or> list_ex (\<lambda>(l, bit, self). l = label \<and> self) flags
      \<longleftrightarrow> self_looped intra_by flags label"
    by (force simp: self_looped_def list_ex_iff)
  then show ?case by (auto simp: g Let_def Cons.IH simp del: not_less simp flip: not_less)
qed simp

lemma records_one_cell:
  assumes "distinct nodes" "length labels = length nodes"
  shows "(\<exists>r \<in> set (cycle_records seq intra_by flags (group_members (zip nodes labels))). x \<in> set (cy_members r)) \<longleftrightarrow>
    is_cell_id x \<and> x \<in> set nodes
    \<and> ((\<exists>y. y \<noteq> x \<and> is_cell_id y \<and> y \<in> set nodes \<and> label_of nodes labels y = label_of nodes labels x)
       \<or> (\<exists>label. label_of nodes labels x = Some label \<and> self_looped intra_by flags label))"
  (is "?L \<longleftrightarrow> ?R")
proof
  assume ?L
  then have "x \<in> (\<Union>m \<in> set (map cy_members (cycle_records seq intra_by flags (group_members (zip nodes labels)))). set m)" by auto
  then obtain label names where g: "(label, names) \<in> set (group_members (zip nodes labels))" "x \<in> set (filter is_cell_id names)"
    "2 \<le> length (filter is_cell_id names) \<or> self_looped intra_by flags label"
    unfolding cycle_records_members by auto
  note names = group_members_entry [OF g(1)]
  have dist: "distinct (filter is_cell_id names)"
    unfolding names by (intro distinct_filter distinct_map_filter) (simp add: assms)
  have in_names: "n \<in> set names \<longleftrightarrow> n \<in> set nodes \<and> label_of nodes labels n = Some label" for n
    unfolding names by (auto simp flip: label_of_zip [OF assms] intro: rev_image_eqI)
  have x: "is_cell_id x" "x \<in> set nodes" "label_of nodes labels x = Some label" using g(2) in_names by auto
  from g(3) show ?R
  proof
    assume "2 \<le> length (filter is_cell_id names)"
    then have "\<not> set (filter is_cell_id names) \<subseteq> {x}"
      using card_mono [of "{x}" "set (filter is_cell_id names)"] distinct_card [OF dist] by (auto simp del: set_filter)
    then show ?R using x in_names by auto
  qed (use x in blast)
next
  assume R: ?R
  then obtain label where l: "label_of nodes labels x = Some label" "x \<in> set nodes" "is_cell_id x"
    using index_of_None [of nodes x] by (cases "index_of nodes x") (auto simp: label_of_def)
  then have z: "(x, label) \<in> set (zip nodes labels)" by (simp add: label_of_zip [OF assms])
  from group_members_key [OF this] obtain names where g: "(label, names) \<in> set (group_members (zip nodes labels))" "x \<in> set names" by blast
  have "2 \<le> length (filter is_cell_id names) \<or> self_looped intra_by flags label"
  proof (cases "self_looped intra_by flags label")
    case False
    with R l obtain y where y: "y \<noteq> x" "is_cell_id y" "y \<in> set nodes" "label_of nodes labels y = Some label" by auto
    then have "(y, label) \<in> set (zip nodes labels)" by (simp add: label_of_zip [OF assms])
    then have "y \<in> set names" unfolding group_members_entry [OF g(1)] by force
    then have "card {x, y} \<le> card (set (filter is_cell_id names))" using y g l by (intro card_mono) auto
    then show ?thesis using y(1) card_length [of "filter is_cell_id names"] by simp
  qed simp
  moreover have x: "x \<in> set (filter is_cell_id names)" using g l by simp
  then have "filter is_cell_id names \<noteq> []" by (metis list.set(1) empty_iff)
  ultimately have "sort (filter is_cell_id names) \<in> set (map cy_members (cycle_records seq intra_by flags (group_members (zip nodes labels))))"
    unfolding cycle_records_members set_map using g(1) by (intro image_eqI [of _ _ "(label, names)"]) simp_all
  then obtain r where "r \<in> set (cycle_records seq intra_by flags (group_members (zip nodes labels)))" "cy_members r = sort (filter is_cell_id names)"
    by auto
  with x show ?L by (metis set_sort)
qed

lemma records_disjoint:
  assumes "distinct nodes" "length labels = length nodes"
  shows "distinct (concat (map cy_members (cycle_records seq intra_by flags (group_members (zip nodes labels)))))"
proof -
  let ?f = "\<lambda>(label :: int, names). sort (filter is_cell_id names)"
  have entry: "names = map fst (filter (\<lambda>(name, l). l = label) (zip nodes labels))" if "(label, names) \<in> set (group_members (zip nodes labels))" for label names
    using group_members_entry [OF that] .
  have part: "n \<in> set names \<Longrightarrow> label_of nodes labels n = Some label" if "(label, names) \<in> set (group_members (zip nodes labels))" for label names n
    using entry [OF that] by (auto simp: label_of_zip [OF assms])
  have "distinct (concat (map ?f gs))" if "set gs \<subseteq> set (group_members (zip nodes labels))" "distinct (map fst gs)" for gs
    using that
  proof (induction gs)
    case (Cons g gs)
    obtain label names where g: "g = (label, names)" by (cases g)
    have in_groups: "(label, names) \<in> set (group_members (zip nodes labels))" using Cons.prems g by simp
    have "distinct names" unfolding entry [OF in_groups] by (rule distinct_map_filter) (simp add: assms)
    moreover have "n \<notin> set names'" if n: "n \<in> set names" and g': "(label', names') \<in> set gs" for n label' names'
    proof
      assume "n \<in> set names'"
      moreover have "(label', names') \<in> set (group_members (zip nodes labels))" using g' Cons.prems(1) by auto
      ultimately have "label_of nodes labels n = Some label'" by (blast intro: part)
      then have "label' = label" using part [OF in_groups n] by simp
      then show False using g' Cons.prems(2) g by force
    qed
    then have "set (?f g) \<inter> set (concat (map ?f gs)) = {}" by (auto simp: g)
    moreover have "distinct (concat (map ?f gs))" using Cons by simp
    ultimately show ?case by (simp add: g)
  qed simp
  from this [of "filter P (group_members (zip nodes labels))" for P] show ?thesis
    unfolding cycle_records_members by (simp add: group_members_distinct distinct_map_filter)
qed

lemma classify_cycles_total:
  assumes "strong_components components"
  shows "\<exists>cycles. classify_cycles components (map AsObject edges) hops range_edges period_chain = Inr cycles"
proof -
  have "length (components (length (graph_nodes pairs)) (index_pairs (graph_nodes pairs) pairs)) = length (graph_nodes pairs)" for pairs
    by (rule labels_reach(1) [OF assms refl refl])
  then show ?thesis by (simp add: classify_cycles_def as_cell_edges_objects Let_def)
qed

section \<open>Properties\<close>

lemma mutual_twice: "a \<noteq> x \<Longrightarrow> (x, a) \<in> R\<^sup>* \<Longrightarrow> (a, x) \<in> R\<^sup>* \<Longrightarrow> (x, x) \<in> R\<^sup>+"
  by (auto simp: rtrancl_eq_or_trancl intro: trancl_trans)

lemma cell_id_no_range: "is_cell_id x \<Longrightarrow> \<not> is_range_node x"
  by (auto simp: is_cell_id_def is_range_node_def split: option.splits dest!: rsplit1_Some)

lemma hop_flags_self:
  "(x, node) \<in> set range_edges \<Longrightarrow> lab x = Some l \<Longrightarrow> lab (node_id node) = Some l \<Longrightarrow> x \<in> set (hop_members hops node) \<Longrightarrow>
   (l, chain x x, True) \<in> set (hop_flags lab range_edges hops chain)"
proof -
  assume a: "(x, node) \<in> set range_edges" "lab x = Some l" "lab (node_id node) = Some l" "x \<in> set (hop_members hops node)"
  then obtain before after where "range_edges = before @ (x, node) # after" by (meson split_list)
  then have "hop_flags lab range_edges hops chain = hop_flags lab before hops chain
      @ map (\<lambda>member. (l, chain x member, member = x)) (filter (\<lambda>member. lab member = Some l) (hop_members hops node)) @ hop_flags lab after hops chain"
    using a by (simp add: hop_flags_def)
  then show ?thesis using a by (auto simp: image_iff)
qed

lemma classify_cycles_self:
  assumes sc: "strong_components components"
    and run: "classify_cycles components (map AsObject edges) (Some hops) range_edges (Some chain) = Inr cycles"
    and P: "P = set (map edge_pair (filter usable_edge edges) @ structural_pairs (Some hops) range_edges)"
    and parsed: "list_all (\<lambda>(source, node). parsed_node node) range_edges"
    and users: "\<And>e. e \<in> set (filter usable_edge edges) \<Longrightarrow>
      is_cell_id (ce_source e) \<and> (is_cell_id (ce_target e) \<or> (ce_source e, ce_target e) \<in> map_prod id node_id ` set range_edges)"
    and members: "\<And>node m. node \<in> snd ` set range_edges \<Longrightarrow> m \<in> set (hop_members hops node) \<Longrightarrow> is_cell_id m \<Longrightarrow> (node_id node, m) \<in> P\<^sup>+"
    and X: "X = expanded_pairs hops (snd ` set range_edges) (set (map edge_pair (filter usable_edge edges)))"
    and XP: "\<And>a b. is_cell_id a \<Longrightarrow> is_cell_id b \<Longrightarrow> (a, b) \<in> P\<^sup>+ \<longleftrightarrow> (a, b) \<in> X\<^sup>+"
  shows "(\<exists>r \<in> set cycles. x \<in> set (cy_members r)) \<longleftrightarrow> is_cell_id x \<and> (x, x) \<in> X\<^sup>+"
proof -
  define pairs where "pairs = map edge_pair (filter usable_edge edges) @ structural_pairs (Some hops) range_edges"
  define nodes where "nodes = graph_nodes pairs"
  define labels where "labels = components (length nodes) (index_pairs nodes pairs)"
  let ?usable = "filter usable_edge edges" and ?lab = "label_of nodes labels"
  let ?flags = "hop_flags ?lab range_edges hops chain" and ?intra = "intra_edges nodes labels ?usable"
  have P': "P = set pairs" by (simp add: P pairs_def)
  have d: "distinct nodes" and sn: "set nodes = fst ` set pairs \<union> snd ` set pairs" by (simp_all add: nodes_def graph_nodes_facts)
  note reach = labels_reach [OF sc nodes_def labels_def]
  have records: "cycles = cycle_records 1 ?intra ?flags (group_members (zip nodes labels))"
    using classify_cycles_records [OF sc run pairs_def nodes_def labels_def] by simp
  have in_nodes: "a \<in> set nodes \<and> b \<in> set nodes" if "(a, b) \<in> P\<^sup>+" for a b
    using tranclD [OF that] tranclD2 [OF that] unfolding P' sn by force
  have labelled: "a \<in> set nodes" if "?lab a = Some l" for a l
    using that index_of_None [of nodes a] by (cases "index_of nodes a") (auto simp: label_of_def)
  have twice: "(x, x) \<in> P\<^sup>+" if "a \<noteq> x" "?lab a = ?lab x" "x \<in> set nodes" "a \<in> set nodes" for a
    using mutual_twice [OF that(1)] reach(2) [OF that(4,3)] that(2) unfolding P' by blast
  have "(x, x) \<in> P\<^sup>+ \<longleftrightarrow> x \<in> set nodes
    \<and> ((\<exists>y. y \<noteq> x \<and> is_cell_id y \<and> y \<in> set nodes \<and> ?lab y = ?lab x) \<or> (\<exists>label. ?lab x = Some label \<and> self_looped ?intra ?flags label))"
    (is "?L \<longleftrightarrow> x \<in> set nodes \<and> (?other \<or> ?self)") if x: "is_cell_id x"
  proof
    assume loop: ?L
    then have "x \<in> set nodes" using in_nodes by blast
    then obtain l where l: "?lab x = Some l" using index_of_None [of nodes x] by (cases "index_of nodes x") (auto simp: label_of_def)
    have "?self" if "\<not> ?other"
    proof -
      have "(x, x) \<in> X\<^sup>+" using XP [OF x x] loop by simp
      then obtain z where z: "(x, z) \<in> X" "(z, x) \<in> X\<^sup>*" by (blast dest: tranclD)
      have zc: "is_cell_id z" using z(1) by (auto simp: X expanded_pairs_def)
      have "z = x"
      proof (rule ccontr)
        assume "z \<noteq> x"
        then have "(z, x) \<in> P\<^sup>+" "(x, z) \<in> P\<^sup>+"
          using z XP [OF x zc] XP [OF zc x] by (auto simp: rtrancl_eq_or_trancl)
        then have "?lab z = ?lab x" "z \<in> set nodes"
          using reach(2) [of z x] in_nodes [OF \<open>(z, x) \<in> P\<^sup>+\<close>] unfolding P' by (auto intro: trancl_into_rtrancl)
        with zc \<open>z \<noteq> x\<close> that show False by blast
      qed
      with z(1) have "(x, x) \<in> X" by simp
      then have "(x, x) \<in> edge_pair ` set ?usable
          \<or> (\<exists>node. node \<in> snd ` set range_edges \<and> (x, node_id node) \<in> edge_pair ` set ?usable \<and> x \<in> set (hop_members hops node))"
        unfolding X expanded_pairs_def set_map by blast
      moreover have pair: "\<exists>e. e \<in> set ?usable \<and> ce_source e = a \<and> ce_target e = b" if "(a, b) \<in> edge_pair ` set ?usable" for a b
        using that by (auto simp: edge_pair_def)
      ultimately consider (edge) e where "e \<in> set ?usable" "ce_source e = x" "ce_target e = x"
        | (node) e node where "e \<in> set ?usable" "ce_source e = x" "ce_target e = node_id node" "node \<in> snd ` set range_edges" "x \<in> set (hop_members hops node)"
        by (metis pair)
      then show ?self
      proof cases
        case edge
        then have "e \<in> set (?intra l)" using l cell_id_no_range [OF x] by (simp add: intra_edges_def)
        then have "self_looped ?intra ?flags l" unfolding self_looped_def using edge(2,3) by metis
        then show ?self using l by blast
      next
        case node
        have "\<not> is_cell_id (node_id node)" using cell_id_not_node parsed node(4) by (fastforce simp: list_all_iff)
        then obtain node' where n': "(x, node') \<in> set range_edges" "node_id node' = node_id node" using users [OF node(1)] node(2,3) by auto
        have "parsed_node node" "parsed_node node'" using parsed n'(1) node(4) by (auto simp: list_all_iff)
        then have "node' = node" using n'(2) by (simp add: parsed_node_def)
        have "(x, node_id node) \<in> P" using node(1-3) by (force simp: P edge_pair_def)
        moreover have inside: "(node_id node, x) \<in> P\<^sup>+" by (rule members [OF node(4,5) x])
        ultimately have "?lab (node_id node) = ?lab x"
          using reach(2) [of "node_id node" x] in_nodes [OF inside] unfolding P' by (auto intro: trancl_into_rtrancl)
        then have "(l, chain x x, True) \<in> set ?flags"
          using n'(1) \<open>node' = node\<close> l node(5) by (intro hop_flags_self [of x node]) simp_all
        then have "self_looped ?intra ?flags l" unfolding self_looped_def by blast
        then show ?self using l by blast
      qed
    qed
    then show "x \<in> set nodes \<and> (?other \<or> ?self)" using \<open>x \<in> set nodes\<close> by blast
  next
    assume r: "x \<in> set nodes \<and> (?other \<or> ?self)"
    show ?L
    proof (cases ?other)
      case True
      with r twice show ?thesis by blast
    next
      case False
      with r obtain l where l: "?lab x = Some l" "self_looped ?intra ?flags l" by blast
      from l(2) consider (edge) e where "e \<in> set (?intra l)" "ce_source e = ce_target e" | (flag) bit where "(l, bit, True) \<in> set ?flags"
        by (auto simp: self_looped_def)
      then show ?thesis
      proof cases
        case edge
        then have e: "e \<in> set ?usable" "?lab (ce_source e) = Some l" by (auto simp: intra_edges_def)
        then have "(ce_source e, ce_source e) \<in> P" using edge(2) by (force simp: P edge_pair_def)
        then show ?thesis using twice [of "ce_source e"] labelled [OF e(2)] l r e(2) by (cases "ce_source e = x") auto
      next
        case flag
        then obtain source node where sn: "(source, node) \<in> set range_edges" "?lab source = Some l" "?lab (node_id node) = Some l"
          by (auto simp: hop_flags_def split: option.splits if_splits)
        have "parsed_node node" using parsed sn(1) by (auto simp: list_all_iff)
        then have "node_id node \<noteq> x" using cell_id_not_node [OF x] by blast
        then show ?thesis using twice labelled sn(3) l r by force
      qed
    qed
  qed
  then show ?thesis unfolding records records_one_cell [OF d reach(1)] using XP by blast
qed

text \<open>
  C1. The cycles are the strongly connected components of formula cells, trivial ones left out, in the graph a per-formula
  expansion would have, where an edge into a range node is an edge to every formula cell of the node. Two cells, or one cell
  with itself, are in a common cycle exactly when each is reached from the other by at least one edge: a lone
  cell is a cycle only when it reads itself, directly or through a range. No cell is in two
  cycles. So compressing ranges into nodes with hop edges neither hides nor invents a cycle. Stated for the documented
  meaning of scipy's strong components and for usable edges from cell ids to cell ids or to the range node they are
  listed with in \<open>range_edges\<close>.
\<close>

theorem cycles_are_expanded_components:
  assumes "strong_components components"
    and "list_all (\<lambda>(source, node). parsed_node node) range_edges"
    and "list_all (\<lambda>e. is_cell_id (ce_source e)
             \<and> (is_cell_id (ce_target e) \<or> (ce_source e, ce_target e) \<in> map_prod id node_id ` set range_edges)) (filter usable_edge edges)"
    and "classify_cycles components (map AsObject edges) (Some (make_hops cells)) range_edges (Some chain) = Inr cycles"
  shows "let X = expanded_pairs (make_hops cells) (snd ` set range_edges) (set (map edge_pair (filter usable_edge edges))) in
    ((\<exists>r \<in> set cycles. x \<in> set (cy_members r) \<and> y \<in> set (cy_members r)) \<longleftrightarrow>
       is_cell_id x \<and> is_cell_id y \<and> (x, y) \<in> X\<^sup>+ \<and> (y, x) \<in> X\<^sup>+)
    \<and> distinct (concat (map cy_members cycles))"
proof -
  let ?hops = "make_hops cells" and ?nodes = "distinct_nodes range_edges" and ?U = "set (map edge_pair (filter usable_edge edges))"
  have nodes: "set ?nodes = snd ` set range_edges" by (rule distinct_nodes_set [OF assms(2)])
  obtain es hops' where es: "structural_edges ?hops ?nodes = (es, hops')" by fastforce
  have P: "?U \<union> set es = set (map edge_pair (filter usable_edge edges) @ structural_pairs (Some ?hops) range_edges)"
    by (simp add: structural_pairs_def es)
  have made: "rh_made ?hops = {}" by (simp add: make_hops_def Let_def)
  have parsed: "\<forall>node \<in> set ?nodes. parsed_node node" using assms(2) unfolding nodes by (auto simp: list_all_iff)
  have users: "\<And>e. e \<in> set (filter usable_edge edges) \<Longrightarrow>
      is_cell_id (ce_source e) \<and> (is_cell_id (ce_target e) \<or> (ce_source e, ce_target e) \<in> map_prod id node_id ` set range_edges)"
    using assms(3) by (simp add: list_all_iff)
  then have U: "\<forall>(s, t) \<in> ?U. is_cell_id s \<and> (is_cell_id t \<or> t \<in> node_id ` set ?nodes)"
    unfolding nodes by (force simp: edge_pair_def)
  have X: "(a, b) \<in> (?U \<union> set es)\<^sup>+ \<longleftrightarrow> (a, b) \<in> (expanded_pairs ?hops (snd ` set range_edges) ?U)\<^sup>+"
    if "is_cell_id a" "is_cell_id b" for a b
    using hops_as_expansion [OF make_hops_ok made parsed es U that] by (simp only: nodes)
  have members: "(node_id node, m) \<in> (?U \<union> set es)\<^sup>+" if "node \<in> snd ` set range_edges" "m \<in> set (hop_members ?hops node)" for node m
    using structural_sinks [OF make_hops_ok made parsed es, of node] that nodes by (blast intro: trancl_mono [of _ "set es"])
  have disjoint: "distinct (concat (map cy_members cycles))"
    unfolding classify_cycles_records [OF assms(1,4) refl refl refl]
    by (rule records_disjoint) (simp_all add: graph_nodes_facts labels_reach(1) [OF assms(1) refl refl])
  show ?thesis
  proof (cases "x = y")
    case True
    then show ?thesis
      using classify_cycles_self [OF assms(1,4) P assms(2) users members refl X, of x] disjoint by auto
  next
    case False
    then show ?thesis
      unfolding Let_def using classify_cycles_reach [OF assms(1) False assms(4) P] X [of x y] X [of y x] disjoint by blast
  qed
qed

text \<open>A reference instance of the components: the first vertex that reaches a vertex and is reached from it.\<close>

definition first_mutual :: components where
  "first_mutual n pairs =
     map (\<lambda>i. int (hd (filter (\<lambda>j. (i, j) \<in> (set pairs)\<^sup>* \<and> (j, i) \<in> (set pairs)\<^sup>*) [0..<n]))) [0..<n]"

lemma first_mutual_strong: "strong_components first_mutual"
  unfolding strong_components_def
proof (intro allI impI conjI)
  fix n :: nat and pairs :: "(nat \<times> nat) list" and i j
  let ?R = "\<lambda>i j. (i, j) \<in> (set pairs)\<^sup>* \<and> (j, i) \<in> (set pairs)\<^sup>*"
  let ?first = "\<lambda>i. hd (filter (?R i) [0..<n])"
  show "length (first_mutual n pairs) = n" by (simp add: first_mutual_def)
  assume ij: "i < n" "j < n"
  have eq: "?first i = ?first j" if "?R i j"
  proof -
    have "?R i k = ?R j k" for k using that rtrancl_trans [of _ _ "set pairs"] by blast
    then show ?thesis by simp
  qed
  have own: "?R i (?first i)" if "i < n" for i
  proof -
    have "i \<in> set (filter (?R i) [0..<n])" using that by simp
    then have "filter (?R i) [0..<n] \<noteq> []" unfolding filter_empty_conv by auto
    from hd_in_set [OF this] have "?first i \<in> set (filter (?R i) [0..<n])" .
    then show ?thesis by simp
  qed
  have "?first i = ?first j \<longleftrightarrow> ?R i j"
  proof
    assume "?first i = ?first j"
    with own [OF ij(1)] own [OF ij(2)] show "?R i j" by (auto intro: rtrancl_trans)
  qed (rule eq)
  then show "(first_mutual n pairs ! i = first_mutual n pairs ! j) = ?R i j" using ij by (simp add: first_mutual_def)
qed

text \<open>\<open>A3 = SUM(A1:A3)\<close> read through the node, with \<open>A1\<close> reading \<open>A3\<close>.\<close>

definition cycle_example :: "CellEdge list" where
  "cycle_example = map (\<lambda>(s, t, k). \<lparr>ce_source = s, ce_target = t, ce_kind = k, ce_unresolved = False, ce_truncated = False,
     ce_dangling = False, ce_dangling_reason = None, ce_status = None, ce_reason = None, ce_evidence = None, ce_range_ref = None,
     ce_abs_col = None, ce_abs_row = None, ce_abs_col_end = None, ce_abs_row_end = None, ce_named = False,
     ce_col_offset = None, ce_period_lag = None\<rparr>)
     [(''S!A3'', ''S!A1:A3'', ''range''), (''S!A1'', ''S!A3'', ''ref'')]"

theorem cycles_are_expanded_components_witness:
  "\<exists>cycles. classify_cycles first_mutual (map AsObject cycle_example) (Some (make_hops [''S!A1'', ''S!A3'']))
       [(''S!A3'', the (parse_range_node ''S!A1:A3''))] (Some (\<lambda>source member. False)) = Inr cycles \<and>
     (let X = expanded_pairs (make_hops [''S!A1'', ''S!A3'']) (snd ` set [(''S!A3'', the (parse_range_node ''S!A1:A3''))])
          (set (map edge_pair (filter usable_edge cycle_example))) in
      ((\<exists>r \<in> set cycles. ''S!A1'' \<in> set (cy_members r) \<and> ''S!A3'' \<in> set (cy_members r)) \<longleftrightarrow>
        is_cell_id ''S!A1'' \<and> is_cell_id ''S!A3'' \<and> (''S!A1'', ''S!A3'') \<in> X\<^sup>+ \<and> (''S!A3'', ''S!A1'') \<in> X\<^sup>+)
      \<and> distinct (concat (map cy_members cycles)))"
proof -
  let ?re = "[(''S!A3'', the (parse_range_node ''S!A1:A3''))]"
  have parsed: "list_all (\<lambda>(source, node). parsed_node node) ?re" by code_simp
  have ok: "list_all (\<lambda>e. is_cell_id (ce_source e)
      \<and> (is_cell_id (ce_target e) \<or> (ce_source e, ce_target e) \<in> map_prod id node_id ` set ?re)) (filter usable_edge cycle_example)" by code_simp
  obtain cycles where run: "classify_cycles first_mutual (map AsObject cycle_example) (Some (make_hops [''S!A1'', ''S!A3''])) ?re
      (Some (\<lambda>source member. False)) = Inr cycles"
    using classify_cycles_total [OF first_mutual_strong] by blast
  from cycles_are_expanded_components [OF first_mutual_strong parsed ok run] run show ?thesis by blast
qed

end
