(* ===== verification/Period_Keys.thy ===== *)
theory Period_Keys
  imports Cell_Edges
begin

text \<open>
  Period keys: the key functions of \<open>src/finance_context/layout/periods.py\<close> (calendar and
  ordinal keys, their position inside a grain, the grain of a list of keys, coarsening a key)
  and the lag between two period ids of \<open>graph/stage.py\<close>. A date is a triple of year, month
  and day, ordered lexicographically; \<open>toordinal\<close> is the proleptic Gregorian day number.
\<close>

section \<open>Matching keys\<close>

definition year4 :: "string \<Rightarrow> bool" where
  "year4 s \<longleftrightarrow> length s = 4 \<and> list_all re_digit s \<and> (take 2 s = ''19'' \<or> take 2 s = ''20'')"

definition two_digits :: "string \<Rightarrow> bool" where
  "two_digits s \<longleftrightarrow> length s = 2 \<and> list_all re_digit s"

definition year_key :: "string \<Rightarrow> string option" where
  "year_key key = (if year4 key then Some key else None)"

definition part_key :: "char \<Rightarrow> string \<Rightarrow> string \<Rightarrow> (string \<times> string) option" where
  "part_key mark parts key =
     (case drop 4 key of
        [c, d] \<Rightarrow> if year4 (take 4 key) \<and> c = mark \<and> d \<in> set parts then Some (take 4 key, [d]) else None
      | _ \<Rightarrow> None)"

definition half_key :: "string \<Rightarrow> (string \<times> string) option" where
  "half_key key = part_key CHR ''H'' ''12'' key"

definition quarter_key :: "string \<Rightarrow> (string \<times> string) option" where
  "quarter_key key = part_key CHR ''Q'' ''1234'' key"

definition month_key :: "string \<Rightarrow> (string \<times> string) option" where
  "month_key key =
     (case drop 4 key of
        c # mm \<Rightarrow> if year4 (take 4 key) \<and> c = CHR ''-'' \<and> two_digits mm then Some (take 4 key, mm) else None
      | [] \<Rightarrow> None)"

definition date_key :: "string \<Rightarrow> (string \<times> string \<times> string) option" where
  "date_key key =
     (case drop 4 key of
        c # rest \<Rightarrow>
          (case drop 2 rest of
             d # dd \<Rightarrow>
               if year4 (take 4 key) \<and> c = CHR ''-'' \<and> two_digits (take 2 rest) \<and> d = CHR ''-'' \<and> two_digits dd
               then Some (take 4 key, take 2 rest, dd) else None
           | [] \<Rightarrow> None)
      | [] \<Rightarrow> None)"

abbreviation num :: "string \<Rightarrow> int" where
  "num s \<equiv> int (int_of_digits s)"

definition is_calendar_key :: "string option \<Rightarrow> bool" where
  "is_calendar_key key =
     (case key of
        None \<Rightarrow> False
      | Some key \<Rightarrow>
          key \<noteq> [] \<and> (year_key key \<noteq> None \<or> month_key key \<noteq> None \<or> date_key key \<noteq> None
            \<or> quarter_key key \<noteq> None \<or> half_key key \<noteq> None))"

section \<open>Dates\<close>

type_synonym date = "int \<times> int \<times> int"

definition leap :: "int \<Rightarrow> bool" where
  "leap y \<longleftrightarrow> y mod 4 = 0 \<and> (y mod 100 \<noteq> 0 \<or> y mod 400 = 0)"

definition days_in_month :: "int \<Rightarrow> int \<Rightarrow> int" where
  "days_in_month y m = (if m = 2 then (if leap y then 29 else 28) else if m \<in> {4, 6, 9, 11} then 30 else 31)"

text \<open>\<open>date(y, m, d)\<close>: \<open>None\<close> when it raises \<open>ValueError\<close>.\<close>

definition make_date :: "int \<Rightarrow> int \<Rightarrow> int \<Rightarrow> date option" where
  "make_date y m d =
     (if 1 \<le> y \<and> y \<le> 9999 \<and> 1 \<le> m \<and> m \<le> 12 \<and> 1 \<le> d \<and> d \<le> days_in_month y m then Some (y, m, d) else None)"

definition days_before_year :: "int \<Rightarrow> int" where
  "days_before_year y = (let p = y - 1 in p * 365 + p div 4 - p div 100 + p div 400)"

definition days_before_month :: "int \<Rightarrow> int \<Rightarrow> int" where
  "days_before_month y m = sum_list (map (days_in_month y) [1..m - 1])"

definition toordinal :: "date \<Rightarrow> int" where
  "toordinal dt = (case dt of (y, m, d) \<Rightarrow> days_before_year y + days_before_month y m + d)"

section \<open>Positions and lags\<close>

definition ordinal_position :: "string \<Rightarrow> (string \<times> int) option" where
  "ordinal_position key =
     (case key of
        c # ds \<Rightarrow> if c \<in> set ''YQMP'' \<and> ds \<noteq> [] \<and> list_all re_digit ds then Some ([c], num ds) else None
      | [] \<Rightarrow> None)"

definition calendar_position :: "string \<Rightarrow> (string \<times> int) option" where
  "calendar_position key =
     (if key = [] then None
      else case year_key key of
        Some y \<Rightarrow> Some (''year'', num y)
      | None \<Rightarrow>
          (case half_key key of
             Some (y, h) \<Rightarrow> Some (''half'', num y * 2 + num h)
           | None \<Rightarrow>
               (case quarter_key key of
                  Some (y, q) \<Rightarrow> Some (''quarter'', num y * 4 + num q)
                | None \<Rightarrow>
                    (case month_key key of
                       Some (y, m) \<Rightarrow> Some (''month'', num y * 12 + num m)
                     | None \<Rightarrow>
                         (case date_key key of
                            None \<Rightarrow> None
                          | Some (y, m, d) \<Rightarrow>
                              map_option (\<lambda>dt. (''day'', toordinal dt)) (make_date (num y) (num m) (num d)))))))"

definition period_position :: "string \<Rightarrow> (string \<times> int) option" where
  "period_position key =
     (case ordinal_position key of Some p \<Rightarrow> Some p | None \<Rightarrow> calendar_position key)"

text \<open>\<open>period_id.partition("@")\<close>.\<close>

definition calendar_key :: "string \<Rightarrow> string" where
  "calendar_key period_id = (case split1 CHR ''@'' period_id of Some (head, _) \<Rightarrow> head | None \<Rightarrow> period_id)"

definition calendar_lag :: "string \<Rightarrow> string \<Rightarrow> string" where
  "calendar_lag source_id target_id =
     (let source = calendar_key source_id; target = calendar_key target_id in
      case (period_position source, period_position target) of
        (Some (g1, i1), Some (g2, i2)) \<Rightarrow>
          if g1 \<noteq> g2 then ''unaligned'' else if source = target then ''same'' else int_str (i2 - i1)
      | _ \<Rightarrow> ''unaligned'')"

section \<open>Grains\<close>

type_synonym key_parts = "string option \<times> int option \<times> int option \<times> int option"

definition parse_period_key :: "string \<Rightarrow> key_parts" where
  "parse_period_key key =
     (case date_key key of
        Some (y, m, d) \<Rightarrow> (Some y, None, Some (num m), Some (num d))
      | None \<Rightarrow>
          (case month_key key of
             Some (y, m) \<Rightarrow> (Some y, None, Some (num m), None)
           | None \<Rightarrow>
               (case quarter_key key of
                  Some (y, q) \<Rightarrow> (Some y, Some (num q), None, None)
                | None \<Rightarrow>
                    (case year_key key of
                       Some y \<Rightarrow> (Some y, None, None, None)
                     | None \<Rightarrow>
                         (case half_key key of
                            Some (y, h) \<Rightarrow> (Some y, None, None, None)
                          | None \<Rightarrow> (None, None, None, None))))))"

definition nonzero :: "int option \<Rightarrow> bool" where
  "nonzero v \<longleftrightarrow> v \<noteq> None \<and> v \<noteq> Some 0"

definition key_as_date :: "string \<Rightarrow> date option" where
  "key_as_date key =
     (case half_key key of
        Some (y, h) \<Rightarrow> make_date (num y) (if h = ''1'' then 1 else 7) 1
      | None \<Rightarrow>
          (case parse_period_key key of
             (None, _) \<Rightarrow> None
           | (Some year, quarter, month, day) \<Rightarrow>
               (let y = num year in
                if nonzero day \<and> nonzero month then make_date y (the month) (the day)
                else if nonzero month then make_date y (the month) 1
                else if nonzero quarter then make_date y ((the quarter - 1) * 3 + 1) 1
                else make_date y 1 1)))"

definition RELATIVE_GRAIN :: "char \<Rightarrow> string option" where
  "RELATIVE_GRAIN c =
     (if c = CHR ''Y'' then Some ''model_year'' else if c = CHR ''Q'' then Some ''model_quarter''
      else if c = CHR ''M'' then Some ''model_month'' else if c = CHR ''P'' then Some ''model_period'' else None)"

definition relative_key :: "string \<Rightarrow> string option" where
  "relative_key key =
     (case key of
        [] \<Rightarrow> None
      | c # ds \<Rightarrow> if RELATIVE_GRAIN c \<noteq> None \<and> ds \<noteq> [] \<and> list_all py_isdigit ds then RELATIVE_GRAIN c else None)"

definition relative_grain :: "string list \<Rightarrow> string option" where
  "relative_grain keys =
     (if keys = [] \<or> list_ex (\<lambda>key. relative_key key = None) keys then None
      else
        case remdups (map (\<lambda>key. the (relative_key key)) keys) of
          [grain] \<Rightarrow> Some grain
        | _ \<Rightarrow> Some ''model_period'')"

definition steps :: "(date \<Rightarrow> date \<Rightarrow> int) \<Rightarrow> date list \<Rightarrow> int list" where
  "steps f dates = filter (\<lambda>n. n > 0) (map (\<lambda>(prev, cur). f prev cur) (zip dates (drop 1 dates)))"

definition month_step :: "date \<Rightarrow> date \<Rightarrow> int" where
  "month_step prev cur = (fst cur - fst prev) * 12 + (fst (snd cur) - fst (snd prev))"

definition median :: "int list \<Rightarrow> int" where
  "median xs = sort xs ! (length xs div 2)"

definition day_grain :: "int list \<Rightarrow> string option" where
  "day_grain day_steps =
     (if day_steps = [] then None
      else let med = median day_steps in
        if 5 \<le> med \<and> med \<le> 9 then Some ''week''
        else if 13 \<le> med \<and> med \<le> 17 then Some ''biweek''
        else if 25 \<le> med \<and> med \<le> 35 then Some ''month''
        else None)"

definition month_grain :: "bool \<Rightarrow> int list \<Rightarrow> string option" where
  "month_grain quarters month_steps =
     (if length (remdups month_steps) = 1 \<or> Max (set month_steps) - Min (set month_steps) \<le> 1 then
        (let med = median month_steps in
         if med \<le> 1 then Some ''month''
         else if 2 \<le> med \<and> med \<le> 4 then Some ''quarter''
         else if 5 \<le> med \<and> med \<le> 7 \<and> \<not> quarters then Some ''half_year''
         else if 11 \<le> med \<and> med \<le> 13 then Some ''year''
         else None)
      else None)"

definition same_form_grain :: "string list \<Rightarrow> string option" where
  "same_form_grain calendar =
     (if list_all (\<lambda>key. quarter_key key \<noteq> None) calendar then Some ''quarter''
      else if list_all (\<lambda>key. month_key key \<noteq> None) calendar then Some ''month''
      else if list_all (\<lambda>key. year_key key \<noteq> None) calendar then Some ''year''
      else None)"

definition infer_grain :: "string list \<Rightarrow> string option" where
  "infer_grain keys =
     (case relative_grain keys of
        Some relative \<Rightarrow> Some relative
      | None \<Rightarrow>
          (let calendar = filter (\<lambda>key. is_calendar_key (Some key)) keys in
           if length calendar < 2 then None
           else if list_all (\<lambda>key. half_key key \<noteq> None) calendar then Some ''half_year''
           else
             let quarters = list_all (\<lambda>key. quarter_key key \<noteq> None) calendar;
                 dates = map key_as_date calendar
             in if list_all (\<lambda>item. item \<noteq> None) dates then
                  (let ordered = sort (map the dates);
                       day_steps = steps (\<lambda>prev cur. toordinal cur - toordinal prev) ordered;
                       month_steps = steps month_step ordered
                   in case day_grain day_steps of
                        Some grain \<Rightarrow> Some grain
                      | None \<Rightarrow>
                          if month_steps \<noteq> [] then month_grain quarters month_steps
                          else same_form_grain calendar)
                else same_form_grain calendar))"

text \<open>\<open>f"{month:02d}"\<close>.\<close>

definition pad2 :: "int \<Rightarrow> string" where
  "pad2 n = (if 0 \<le> n \<and> n < 10 then CHR ''0'' # int_str n else int_str n)"

definition apply_grain :: "string \<Rightarrow> string option \<Rightarrow> string" where
  "apply_grain key grain =
     (case grain of
        None \<Rightarrow> key
      | Some grain \<Rightarrow>
          if grain = [] \<or> \<not> is_calendar_key (Some key) then key
          else
            case parse_period_key key of
              (None, _) \<Rightarrow> key
            | (Some year, quarter, month, day) \<Rightarrow>
                if grain \<in> {''week'', ''biweek''} then key
                else if grain = ''year'' then year
                else if grain = ''quarter'' then
                  (if nonzero quarter then year @ ''Q'' @ int_str (the quarter)
                   else if nonzero month then year @ ''Q'' @ int_str ((the month - 1) div 3 + 1)
                   else key)
                else if grain = ''month'' then
                  (if date_key key \<noteq> None \<or> month_key key \<noteq> None then
                     (if nonzero month then year @ ''-'' @ pad2 (the month) else key)
                   else key)
                else if grain = ''half_year'' then
                  (if nonzero quarter then year @ ''H'' @ (if the quarter \<le> 2 then ''1'' else ''2'')
                   else if nonzero month then year @ ''H'' @ (if the month \<le> 6 then ''1'' else ''2'')
                   else key)
                else key)"

section \<open>The forms of a key\<close>

lemma year4_prefix [simp]: "year4 y \<Longrightarrow> take 4 (y @ s) = y" "year4 y \<Longrightarrow> drop 4 (y @ s) = s"
  by (simp_all add: year4_def)

lemma year_key_append: "year4 y \<Longrightarrow> year_key (y @ s) = (if s = [] then Some y else None)"
  by (cases s) (simp_all add: year_key_def year4_def)

lemma part_key_append:
  assumes "year4 y"
  shows "part_key mark parts (y @ s) = (case s of [c, d] \<Rightarrow> if c = mark \<and> d \<in> set parts then Some (y, [d]) else None | _ \<Rightarrow> None)"
  unfolding part_key_def year4_prefix [OF assms] using assms by (simp split: list.split)

lemma month_key_append:
  assumes "year4 y"
  shows "month_key (y @ s) = (case s of c # mm \<Rightarrow> if c = CHR ''-'' \<and> two_digits mm then Some (y, mm) else None | [] \<Rightarrow> None)"
  unfolding month_key_def year4_prefix [OF assms] using assms by (simp split: list.split)

lemma date_key_append:
  assumes "year4 y" "two_digits mm" "two_digits dd"
  shows "date_key (y @ CHR ''-'' # mm @ CHR ''-'' # dd) = Some (y, mm, dd)"
  unfolding date_key_def year4_prefix [OF assms(1)] using assms by (simp add: two_digits_def)

lemma date_key_short:
  assumes "year4 y" "length s < 4"
  shows "date_key (y @ s) = None"
  unfolding date_key_def year4_prefix [OF assms(1)] using assms(2)
  by (auto split: list.split simp: two_digits_def)

lemmas key_forms = year_key_append part_key_append month_key_append date_key_append date_key_short half_key_def quarter_key_def

lemma year4_take: "year4 (take 4 key) \<Longrightarrow> key = take 4 key @ drop 4 key"
  by simp

lemma part_key_Some: "part_key mark parts key = Some (y, d) \<Longrightarrow> \<exists>c. d = [c] \<and> c \<in> set parts \<and> key = y @ [mark, c] \<and> year4 y"
  by (auto simp: part_key_def split: list.splits if_splits) (metis append_take_drop_id)

lemma month_key_Some: "month_key key = Some (y, mm) \<Longrightarrow> key = y @ CHR ''-'' # mm \<and> year4 y \<and> two_digits mm"
  by (auto simp: month_key_def split: list.splits if_splits) (metis append_take_drop_id)

lemma date_key_Some:
  assumes "date_key key = Some (y, mm, dd)"
  shows "key = y @ CHR ''-'' # mm @ CHR ''-'' # dd \<and> year4 y \<and> two_digits mm \<and> two_digits dd"
proof -
  from assms obtain rest where r: "drop 4 key = CHR ''-'' # rest" "drop 2 rest = CHR ''-'' # dd" "y = take 4 key" "mm = take 2 rest"
    "year4 y" "two_digits mm" "two_digits dd"
    by (auto simp: date_key_def split: list.splits if_splits)
  have "rest = mm @ CHR ''-'' # dd" using r(2,4) by (metis append_take_drop_id)
  then show ?thesis using r by (metis append_take_drop_id)
qed

text \<open>A key whose month and day exist.\<close>

definition valid_key :: "string \<Rightarrow> bool" where
  "valid_key key \<longleftrightarrow> year_key key \<noteq> None \<or> half_key key \<noteq> None \<or> quarter_key key \<noteq> None
     \<or> (case month_key key of Some (y, m) \<Rightarrow> 1 \<le> num m \<and> num m \<le> 12 | None \<Rightarrow> False)
     \<or> (case date_key key of Some (y, m, d) \<Rightarrow> make_date (num y) (num m) (num d) \<noteq> None | None \<Rightarrow> False)"

lemma valid_key_cases:
  assumes "valid_key key"
  obtains (year) "year4 key"
  | (half) y d where "key = y @ [CHR ''H'', d]" "year4 y" "d \<in> set ''12''"
  | (quarter) y d where "key = y @ [CHR ''Q'', d]" "year4 y" "d \<in> set ''1234''"
  | (month) y mm where "key = y @ CHR ''-'' # mm" "year4 y" "two_digits mm" "1 \<le> num mm" "num mm \<le> 12"
  | (date) y mm dd where "key = y @ CHR ''-'' # mm @ CHR ''-'' # dd" "year4 y" "two_digits mm" "two_digits dd"
      "make_date (num y) (num mm) (num dd) \<noteq> None"
proof -
  have "half_key key \<noteq> None \<Longrightarrow> \<exists>y d. key = y @ [CHR ''H'', d] \<and> year4 y \<and> d \<in> set ''12''"
    by (auto simp: half_key_def dest: part_key_Some)
  moreover have "quarter_key key \<noteq> None \<Longrightarrow> \<exists>y d. key = y @ [CHR ''Q'', d] \<and> year4 y \<and> d \<in> set ''1234''"
    by (auto simp: quarter_key_def dest: part_key_Some)
  moreover have "year_key key \<noteq> None \<Longrightarrow> year4 key" by (simp add: year_key_def split: if_splits)
  moreover have "\<exists>y mm. key = y @ CHR ''-'' # mm \<and> year4 y \<and> two_digits mm \<and> 1 \<le> num mm \<and> num mm \<le> 12"
    if "case month_key key of Some (y, m) \<Rightarrow> 1 \<le> num m \<and> num m \<le> 12 | None \<Rightarrow> False"
  proof (cases "month_key key")
    case None
    with that show ?thesis by simp
  next
    case (Some p)
    obtain y mm where "p = (y, mm)" by (cases p) auto
    with Some that month_key_Some show ?thesis by (intro exI [of _ y] exI [of _ mm]) simp
  qed
  moreover have "\<exists>y mm dd. key = y @ CHR ''-'' # mm @ CHR ''-'' # dd \<and> year4 y \<and> two_digits mm \<and> two_digits dd \<and> make_date (num y) (num mm) (num dd) \<noteq> None"
    if "case date_key key of Some (y, m, d) \<Rightarrow> make_date (num y) (num m) (num d) \<noteq> None | None \<Rightarrow> False"
  proof (cases "date_key key")
    case None
    with that show ?thesis by simp
  next
    case (Some p)
    obtain y mm dd where "p = (y, mm, dd)" by (cases p) auto
    with Some that date_key_Some show ?thesis by (intro exI [of _ y] exI [of _ mm] exI [of _ dd]) simp
  qed
  ultimately show thesis using assms that unfolding valid_key_def by meson
qed

lemma two_digits_numbers: "two_digits mm \<Longrightarrow> \<exists>a b. mm = [a, b] \<and> re_digit a \<and> re_digit b"
  by (auto simp: two_digits_def length_Suc_conv numeral_2_eq_2)

lemma digit_set: "d \<in> set ''1234'' \<Longrightarrow> d = CHR ''1'' \<or> d = CHR ''2'' \<or> d = CHR ''3'' \<or> d = CHR ''4''"
  by auto

section \<open>Positions are injective on valid keys\<close>

lemma int_of_digits_inject:
  "length s = length t \<Longrightarrow> list_all re_digit s \<Longrightarrow> list_all re_digit t \<Longrightarrow> int_of_digits s = int_of_digits t \<Longrightarrow> s = t"
proof (induction s arbitrary: t rule: rev_induct)
  case (snoc c s)
  then obtain d u where t: "t = u @ [d]" by (metis append_butlast_last_id length_0_conv length_append_singleton nat.distinct(1))
  have cd: "digit_val c < 10" "digit_val d < 10" using snoc.prems t by (auto simp: digit_val_less)
  have e: "10 * int_of_digits s + digit_val c = 10 * int_of_digits u + digit_val d" using snoc.prems t by simp
  then have "int_of_digits s = int_of_digits u" "digit_val c = digit_val d" using cd by presburger+
  moreover from this have "s = u" using snoc.prems t by (intro snoc.IH) auto
  moreover have "re_digit c" "re_digit d" using snoc.prems t by auto
  ultimately show ?case using digit_char_digit_val unfolding t by metis
qed simp

lemma year4_inject: "year4 y \<Longrightarrow> year4 z \<Longrightarrow> num y = num z \<Longrightarrow> y = z"
  by (rule int_of_digits_inject) (simp_all add: year4_def)

lemma two_digits_inject: "two_digits m \<Longrightarrow> two_digits n \<Longrightarrow> num m = num n \<Longrightarrow> m = n"
  by (rule int_of_digits_inject) (simp_all add: two_digits_def)

lemma num_digit:
  "int_of_digits [CHR ''1''] = 1" "int_of_digits [CHR ''2''] = 2" "int_of_digits [CHR ''3''] = 3" "int_of_digits [CHR ''4''] = 4"
  by (simp_all add: int_of_digits_def digit_val_def)

lemma div_step:
  assumes "1 < (k :: int)"
  shows "y div k - (y - 1) div k = (if y mod k = 0 then 1 else 0)"
proof (cases "y mod k = 0")
  case True
  then obtain q where q: "y = k * q" by auto
  have "(y - 1) div k = q - 1"
  proof (rule int_div_pos_eq [of "y - 1" k "q - 1" "k - 1"])
    show "y - 1 = k * (q - 1) + (k - 1)" unfolding q by (simp add: algebra_simps)
  qed (use assms in auto)
  moreover have "y div k = q" using q assms by simp
  ultimately show ?thesis using True by simp
next
  case False
  then have "0 < y mod k" "y mod k < k" using assms pos_mod_sign [of k y] pos_mod_bound [of k y] by linarith+
  then have "(y - 1) div k = y div k"
    by (intro int_div_pos_eq [of "y - 1" k "y div k" "y mod k - 1"]) (simp_all add: mult_div_mod_eq)
  then show ?thesis using False by simp
qed

lemma leap_days:
  "(c \<Longrightarrow> b) \<Longrightarrow> (b \<Longrightarrow> a) \<Longrightarrow>
     365 + (if a then 1 else 0) - (if b then 1 else 0) + (if c then 1 else 0) = (if a \<and> (\<not> b \<or> c) then 366 else (365 :: int))"
  by (cases a; cases b; cases c) simp_all

lemma year_length: "days_before_year (y + 1) = days_before_year y + (if leap y then 366 else 365)"
proof -
  have "y mod 400 mod 100 = y mod 100" "y mod 100 mod 4 = y mod 4" by (simp_all add: mod_mod_cancel)
  then have m: "y mod 400 = 0 \<Longrightarrow> y mod 100 = 0" "y mod 100 = 0 \<Longrightarrow> y mod 4 = 0" by auto
  note d = div_step [of 4 y, simplified] div_step [of 100 y, simplified] div_step [of 400 y, simplified]
  have "days_before_year (y + 1) - days_before_year y
      = 365 + (y div 4 - (y - 1) div 4) - (y div 100 - (y - 1) div 100) + (y div 400 - (y - 1) div 400)"
    by (simp add: days_before_year_def Let_def algebra_simps)
  also have "\<dots> = (if leap y then 366 else 365)" unfolding d leap_def by (rule leap_days) (fact m)+
  finally show ?thesis by simp
qed

lemma days_before_months:
  "days_before_month y 1 = 0" "days_before_month y 2 = 31" "days_before_month y 3 = 31 + days_in_month y 2"
  "days_before_month y 4 = 62 + days_in_month y 2" "days_before_month y 5 = 92 + days_in_month y 2"
  "days_before_month y 6 = 123 + days_in_month y 2" "days_before_month y 7 = 153 + days_in_month y 2"
  "days_before_month y 8 = 184 + days_in_month y 2" "days_before_month y 9 = 215 + days_in_month y 2"
  "days_before_month y 10 = 245 + days_in_month y 2" "days_before_month y 11 = 276 + days_in_month y 2"
  "days_before_month y 12 = 306 + days_in_month y 2"
  by (simp_all add: days_before_month_def upto_rec1 days_in_month_def)

lemma month_cases: "1 \<le> (m :: int) \<Longrightarrow> m \<le> 12 \<Longrightarrow> m = 1 \<or> m = 2 \<or> m = 3 \<or> m = 4 \<or> m = 5 \<or> m = 6 \<or> m = 7 \<or> m = 8 \<or> m = 9 \<or> m = 10 \<or> m = 11 \<or> m = 12"
  by presburger

lemma month_order:
  assumes "1 \<le> m" "m < n" "n \<le> 12"
  shows "days_before_month y m + days_in_month y m \<le> days_before_month y n"
proof -
  have "days_before_month y n = sum_list (map (days_in_month y) ([1..m - 1] @ [m..n - 1]))"
    using assms by (simp add: days_before_month_def upto_split1 [of 1 m "n - 1"])
  moreover have "[m..n - 1] = m # [m + 1..n - 1]" using assms by (simp add: upto_rec1)
  moreover have "0 \<le> sum_list (map (days_in_month y) [m + 1..n - 1])" by (rule sum_list_nonneg) (auto simp: days_in_month_def)
  ultimately show ?thesis by (simp add: days_before_month_def)
qed

lemma month_end: "1 \<le> m \<Longrightarrow> m \<le> 12 \<Longrightarrow> days_before_month y m + days_in_month y m \<le> (if leap y then 366 else 365)"
  using month_order [of m 12 y] by (cases "m = 12") (auto simp: days_before_months days_in_month_def)

lemma days_before_year_mono: "y \<le> z \<Longrightarrow> days_before_year y \<le> days_before_year z"
proof (induction "nat (z - y)" arbitrary: z)
  case (Suc n)
  then have "days_before_year y \<le> days_before_year (z - 1)" by (intro Suc.hyps) auto
  also have "\<dots> \<le> days_before_year z" using year_length [of "z - 1"] by (simp split: if_splits)
  finally show ?case .
qed simp

lemma days_before_month_nonneg: "0 \<le> days_before_month y m"
  unfolding days_before_month_def by (rule sum_list_nonneg) (auto simp: days_in_month_def)

lemma make_date_Some: "make_date y m d = Some dt \<Longrightarrow> dt = (y, m, d) \<and> 1 \<le> m \<and> m \<le> 12 \<and> 1 \<le> d \<and> d \<le> days_in_month y m"
  by (auto simp: make_date_def split: if_splits)

lemma toordinal_mono:
  assumes a: "make_date y m d = Some a" and b: "make_date y' m' d' = Some b" and "a < b"
  shows "toordinal a < toordinal b"
proof -
  note A = make_date_Some [OF a] and B = make_date_Some [OF b]
  consider (year) "y < y'" | (month) "y = y'" "m < m'" | (day) "y = y'" "m = m'" "d < d'"
    using \<open>a < b\<close> A B by (auto simp: less_prod_def' less_le)
  then show ?thesis
  proof cases
    case year
    have "toordinal a \<le> days_before_year (y + 1)" using A month_end [of m y] year_length [of y] by (simp add: toordinal_def split: if_splits)
    also have "\<dots> \<le> days_before_year y'" using year by (intro days_before_year_mono) simp
    finally show ?thesis using B days_before_month_nonneg [of y' m'] by (simp add: toordinal_def)
  next
    case month
    with A B month_order [of m m' y] show ?thesis by (simp add: toordinal_def)
  next
    case day
    with A B show ?thesis by (simp add: toordinal_def)
  qed
qed

lemma toordinal_inject:
  assumes "make_date y m d = Some a" "make_date y' m' d' = Some b" "toordinal a = toordinal b"
  shows "a = b"
  using toordinal_mono [OF assms(1,2)] toordinal_mono [OF assms(2,1)] assms(3) by (metis less_irrefl neqE)


lemma position_year: "year4 y \<Longrightarrow> calendar_position y = Some (''year'', num y)"
  using year_key_append [of y "[]"] by (auto simp: calendar_position_def year4_def)

lemma position_half: "year4 y \<Longrightarrow> d \<in> set ''12'' \<Longrightarrow> calendar_position (y @ [CHR ''H'', d]) = Some (''half'', num y * 2 + num [d])"
  by (simp add: calendar_position_def key_forms)

lemma position_quarter: "year4 y \<Longrightarrow> d \<in> set ''1234'' \<Longrightarrow> calendar_position (y @ [CHR ''Q'', d]) = Some (''quarter'', num y * 4 + num [d])"
  by (simp add: calendar_position_def key_forms)

lemma position_month:
  assumes "year4 y" "two_digits mm"
  shows "calendar_position (y @ CHR ''-'' # mm) = Some (''month'', num y * 12 + num mm)"
proof -
  obtain a b where "mm = [a, b]" using two_digits_numbers [OF assms(2)] by auto
  with assms show ?thesis by (simp add: calendar_position_def key_forms)
qed

lemma position_date:
  assumes "year4 y" "two_digits mm" "two_digits dd"
  shows "calendar_position (y @ CHR ''-'' # mm @ CHR ''-'' # dd)
       = map_option (\<lambda>dt. (''day'', toordinal dt)) (make_date (num y) (num mm) (num dd))"
proof -
  obtain a b c d where m: "mm = [a, b]" "dd = [c, d]" using assms(2,3) by (auto dest!: two_digits_numbers)
  have "date_key (y @ CHR ''-'' # mm @ CHR ''-'' # dd) = Some (y, mm, dd)" by (rule date_key_append [OF assms])
  moreover have "\<not> two_digits (mm @ CHR ''-'' # dd)" by (simp add: m two_digits_def)
  ultimately show ?thesis using assms(1) m by (simp add: calendar_position_def year_key_append half_key_def quarter_key_def part_key_append month_key_append)
qed

lemmas positions = position_year position_half position_quarter position_month position_date

lemma half_digit: "d \<in> set ''12'' \<Longrightarrow> num [d] = 1 \<and> d = CHR ''1'' \<or> num [d] = 2 \<and> d = CHR ''2''"
  by (auto simp: num_digit)

lemma quarter_digit: "d \<in> set ''1234'' \<Longrightarrow> num [d] = 1 \<and> d = CHR ''1'' \<or> num [d] = 2 \<and> d = CHR ''2'' \<or> num [d] = 3 \<and> d = CHR ''3'' \<or> num [d] = 4 \<and> d = CHR ''4''"
  by (auto simp: num_digit)

lemma split_position: "1 \<le> a \<Longrightarrow> a \<le> k \<Longrightarrow> 1 \<le> b \<Longrightarrow> b \<le> k \<Longrightarrow> x * k + a = y * k + b \<Longrightarrow> x = y \<and> a = (b :: int)"
proof -
  assume h: "1 \<le> a" "a \<le> k" "1 \<le> b" "b \<le> k" "x * k + a = y * k + b"
  have "(x * k + (a - 1)) div k = x" "(y * k + (b - 1)) div k = y" using h by simp_all
  moreover have "x * k + (a - 1) = y * k + (b - 1)" using h by simp
  ultimately show ?thesis using h by simp
qed

text \<open>
  On calendar keys whose month and day exist, the position of a key inside its grain
  determines the key: two different keys never share a grain and an index, so a lag of zero
  between two period ids always means the same calendar key.
\<close>

theorem calendar_position_inject:
  assumes v: "valid_key k1" "valid_key k2" and e: "calendar_position k1 = calendar_position k2"
  shows "k1 = k2"
  using v(1)
proof (cases rule: valid_key_cases)
  case year
  show ?thesis using v(2) by (cases rule: valid_key_cases) (use e year in \<open>auto simp: positions year4_inject\<close>)
next
  case (half y d)
  show ?thesis using v(2)
  proof (cases rule: valid_key_cases)
    case (half y' d')
    note h = half_digit [OF half(3)] half_digit [OF \<open>d \<in> set ''12''\<close>]
    have "num y = num y' \<and> num [d] = num [d']"
      using e half \<open>k1 = _\<close> \<open>year4 y\<close> h by (intro split_position [of _ 2]) (auto simp: positions)
    then show ?thesis using h year4_inject half \<open>k1 = _\<close> \<open>year4 y\<close> by auto
  qed (use e half in \<open>auto simp: positions\<close>)
next
  case (quarter y d)
  show ?thesis using v(2)
  proof (cases rule: valid_key_cases)
    case (quarter y' d')
    note h = quarter_digit [OF quarter(3)] quarter_digit [OF \<open>d \<in> set ''1234''\<close>]
    have "num y = num y' \<and> num [d] = num [d']"
      using e quarter \<open>k1 = _\<close> \<open>year4 y\<close> h \<open>d \<in> set ''1234''\<close> by (intro split_position [of _ 4]) (auto simp: positions)
    then show ?thesis using h year4_inject quarter \<open>k1 = _\<close> \<open>year4 y\<close> by auto
  qed (use e quarter in \<open>auto simp: positions\<close>)
next
  case (month y mm)
  show ?thesis using v(2)
  proof (cases rule: valid_key_cases)
    case (month y' mm')
    have "num y = num y' \<and> num mm = num mm'"
      using e month \<open>k1 = _\<close> \<open>year4 y\<close> \<open>two_digits mm\<close> \<open>1 \<le> num mm\<close> \<open>num mm \<le> 12\<close>
      by (intro split_position [of _ 12]) (auto simp: positions)
    then show ?thesis using year4_inject two_digits_inject month \<open>k1 = _\<close> \<open>year4 y\<close> \<open>two_digits mm\<close> by blast
  qed (use e month in \<open>auto simp: positions\<close>)
next
  case (date y mm dd)
  then obtain a where a: "make_date (num y) (num mm) (num dd) = Some a" by auto
  show ?thesis using v(2)
  proof (cases rule: valid_key_cases)
    case (date y' mm' dd')
    then obtain b where b: "make_date (num y') (num mm') (num dd') = Some b" by auto
    have "toordinal a = toordinal b"
      using e a b date \<open>k1 = _\<close> \<open>year4 y\<close> \<open>two_digits mm\<close> \<open>two_digits dd\<close> by (simp add: positions)
    from toordinal_inject [OF a b this] have "num y = num y'" "num mm = num mm'" "num dd = num dd'"
      using make_date_Some [OF a] make_date_Some [OF b] by auto
    then show ?thesis
      using year4_inject two_digits_inject date \<open>k1 = _\<close> \<open>year4 y\<close> \<open>two_digits mm\<close> \<open>two_digits dd\<close> by blast
  qed (use e date a in \<open>auto simp: positions\<close>)
qed

theorem calendar_position_inject_witness:
  "valid_key ''2024-02-29'' \<and> valid_key ''2024-02-28'' \<and> calendar_position ''2024-02-29'' \<noteq> calendar_position ''2024-02-28''"
proof -
  have v: "valid_key ''2024-02-29''" "valid_key ''2024-02-28''" by code_simp+
  have "''2024-02-29'' \<noteq> ''2024-02-28''" by simp
  with v calendar_position_inject [OF v] show ?thesis by blast
qed

section \<open>Coarsening a key\<close>

lemma parts_year: "year4 y \<Longrightarrow> parse_period_key y = (Some y, None, None, None)"
  using year_key_append [of y "[]"] date_key_short [of y "[]"] month_key_append [of y "[]"] part_key_append [of y _ _ "[]"]
  by (simp add: parse_period_key_def quarter_key_def)

lemma parts_half: "year4 y \<Longrightarrow> d \<in> set ''12'' \<Longrightarrow> parse_period_key (y @ [CHR ''H'', d]) = (Some y, None, None, None)"
  by (simp add: parse_period_key_def key_forms)

lemma parts_quarter: "year4 y \<Longrightarrow> d \<in> set ''1234'' \<Longrightarrow> parse_period_key (y @ [CHR ''Q'', d]) = (Some y, Some (num [d]), None, None)"
  by (simp add: parse_period_key_def key_forms)

lemma parts_month: "year4 y \<Longrightarrow> two_digits mm \<Longrightarrow> parse_period_key (y @ CHR ''-'' # mm) = (Some y, None, Some (num mm), None)"
  by (simp add: parse_period_key_def key_forms two_digits_def)

lemma parts_date:
  "year4 y \<Longrightarrow> two_digits mm \<Longrightarrow> two_digits dd \<Longrightarrow>
     parse_period_key (y @ CHR ''-'' # mm @ CHR ''-'' # dd) = (Some y, None, Some (num mm), Some (num dd))"
  by (simp add: parse_period_key_def date_key_append)

lemmas key_parts = parts_year parts_half parts_quarter parts_month parts_date

lemma half_key_year: "year4 y \<Longrightarrow> half_key y = None"
  using part_key_append [of y _ _ "[]"] by (simp add: half_key_def)

lemma half_key_other:
  "year4 y \<Longrightarrow> half_key (y @ [CHR ''Q'', d]) = None"
  "year4 y \<Longrightarrow> half_key (y @ CHR ''-'' # s) = None"
  by (simp_all add: half_key_def part_key_append split: list.split)

lemma make_date_first: "year4 y \<Longrightarrow> 1 \<le> m \<Longrightarrow> m \<le> 12 \<Longrightarrow> make_date (num y) m 1 = Some (num y, m, 1)"
proof -
  assume y: "year4 y" and m: "1 \<le> m" "m \<le> 12"
  then obtain c d where "y = CHR ''1'' # CHR ''9'' # [c, d] \<or> y = CHR ''2'' # CHR ''0'' # [c, d]" "re_digit c" "re_digit d"
    by (auto simp: year4_def length_Suc_conv numeral_eq_Suc)
  then have "1900 \<le> num y \<and> num y \<le> 2099" using digit_val_less [of c] digit_val_less [of d]
    by (auto simp: int_of_digits_def digit_val_def [of "CHR ''1''"] digit_val_def [of "CHR ''2''"] digit_val_def [of "CHR ''0''"] digit_val_def [of "CHR ''9''"])
  then show ?thesis using m by (simp add: make_date_def days_in_month_def)
qed

lemma half_valid: "year4 y \<Longrightarrow> d \<in> set ''12'' \<Longrightarrow> valid_key (y @ [CHR ''H'', d])"
  by (simp add: valid_key_def key_forms)

lemma quarter_valid: "year4 y \<Longrightarrow> d \<in> set ''1234'' \<Longrightarrow> valid_key (y @ [CHR ''Q'', d])"
  by (simp add: valid_key_def key_forms)

lemma month_valid: "year4 y \<Longrightarrow> two_digits mm \<Longrightarrow> 1 \<le> num mm \<Longrightarrow> num mm \<le> 12 \<Longrightarrow> valid_key (y @ CHR ''-'' # mm)"
  by (simp add: valid_key_def key_forms)

lemma year_valid: "year4 y \<Longrightarrow> valid_key y"
  by (simp add: valid_key_def year_key_def)

lemmas valid_forms = half_valid quarter_valid month_valid year_valid

lemma valid_key_calendar: "valid_key key \<Longrightarrow> is_calendar_key (Some key)"
  by (cases key) (auto simp: valid_key_def is_calendar_key_def year_key_def year4_def half_key_def quarter_key_def part_key_def
      month_key_def date_key_def split: option.splits)

lemma first_date_year: "year4 y \<Longrightarrow> key_as_date y = Some (num y, 1, 1)"
  by (simp add: key_as_date_def half_key_year parts_year nonzero_def make_date_first)

lemma first_date_half: "year4 y \<Longrightarrow> d \<in> set ''12'' \<Longrightarrow> key_as_date (y @ [CHR ''H'', d]) = Some (num y, if d = CHR ''1'' then 1 else 7, 1)"
  by (simp add: key_as_date_def half_key_def part_key_append make_date_first)

lemma first_date_quarter:
  assumes "year4 y" "d \<in> set ''1234''"
  shows "key_as_date (y @ [CHR ''Q'', d]) = Some (num y, (num [d] - 1) * 3 + 1, 1)"
  using quarter_digit [OF assms(2)] assms
  by (auto simp: key_as_date_def half_key_other parts_quarter nonzero_def make_date_first)

lemma first_date_month:
  "year4 y \<Longrightarrow> two_digits mm \<Longrightarrow> 1 \<le> num mm \<Longrightarrow> num mm \<le> 12 \<Longrightarrow> key_as_date (y @ CHR ''-'' # mm) = Some (num y, num mm, 1)"
  by (simp add: key_as_date_def half_key_other parts_month nonzero_def make_date_first)

lemma first_date_date:
  assumes "year4 y" "two_digits mm" "two_digits dd" "make_date (num y) (num mm) (num dd) = Some dt"
  shows "key_as_date (y @ CHR ''-'' # mm @ CHR ''-'' # dd) = Some (num y, num mm, num dd)"
  using make_date_Some [OF assms(4)] assms by (simp add: key_as_date_def half_key_other parts_date nonzero_def)

lemmas first_dates = first_date_year first_date_half first_date_quarter first_date_month first_date_date

lemma int_str_quarter: "int_str 1 = ''1''" "int_str 2 = ''2''" "int_str 3 = ''3''" "int_str 4 = ''4''"
  by code_simp+

lemma pad2_month: "1 \<le> n \<Longrightarrow> n \<le> 12 \<Longrightarrow> two_digits (pad2 n) \<and> num (pad2 n) = n"
proof -
  have "two_digits (pad2 1) \<and> num (pad2 1) = 1" "two_digits (pad2 2) \<and> num (pad2 2) = 2" "two_digits (pad2 3) \<and> num (pad2 3) = 3"
    "two_digits (pad2 4) \<and> num (pad2 4) = 4" "two_digits (pad2 5) \<and> num (pad2 5) = 5" "two_digits (pad2 6) \<and> num (pad2 6) = 6"
    "two_digits (pad2 7) \<and> num (pad2 7) = 7" "two_digits (pad2 8) \<and> num (pad2 8) = 8" "two_digits (pad2 9) \<and> num (pad2 9) = 9"
    "two_digits (pad2 10) \<and> num (pad2 10) = 10" "two_digits (pad2 11) \<and> num (pad2 11) = 11" "two_digits (pad2 12) \<and> num (pad2 12) = 12"
    by code_simp+
  moreover assume "1 \<le> n" "n \<le> 12"
  ultimately show ?thesis using month_cases [of n] by blast
qed

lemma pad2_two_digits: "two_digits mm \<Longrightarrow> 1 \<le> num mm \<Longrightarrow> num mm \<le> 12 \<Longrightarrow> pad2 (num mm) = mm"
  using pad2_month [of "num mm"] two_digits_inject by blast

text \<open>The quarter and the half of a month.\<close>

definition quarter_digit_of :: "int \<Rightarrow> char" where
  "quarter_digit_of m = (if m \<le> 3 then CHR ''1'' else if m \<le> 6 then CHR ''2'' else if m \<le> 9 then CHR ''3'' else CHR ''4'')"

lemma quarter_of_month:
  assumes "1 \<le> m" "m \<le> 12"
  shows "int_str ((m - 1) div 3 + 1) = [quarter_digit_of m]" "quarter_digit_of m \<in> set ''1234''"
    "(num [quarter_digit_of m] - 1) * 3 + 1 \<le> m"
  using month_cases [OF assms] by (auto simp: quarter_digit_of_def int_str_quarter num_digit)

lemma apply_grain_year:
  assumes "year4 y" shows "apply_grain y grain = y"
proof -
  have "date_key y = None" "month_key y = None" using date_key_short [of y "[]"] month_key_append [of y "[]"] assms by auto
  with assms show ?thesis by (simp add: apply_grain_def parts_year nonzero_def split: option.split)
qed

lemma apply_grain_half:
  "year4 y \<Longrightarrow> d \<in> set ''12'' \<Longrightarrow> apply_grain (y @ [CHR ''H'', d]) grain = (if grain = Some ''year'' then y else y @ [CHR ''H'', d])"
  using valid_key_calendar [OF half_valid, of y d]
  by (auto simp: apply_grain_def parts_half nonzero_def split: option.split)

lemma apply_grain_quarter:
  assumes "year4 y" "d \<in> set ''1234''"
  shows "apply_grain (y @ [CHR ''Q'', d]) grain
    = (if grain = Some ''year'' then y
       else if grain = Some ''half_year'' then y @ [CHR ''H'', if num [d] \<le> 2 then CHR ''1'' else CHR ''2'']
       else y @ [CHR ''Q'', d])"
  using valid_key_calendar [OF quarter_valid [OF assms]] quarter_digit [OF assms(2)]
  by (auto simp: apply_grain_def parts_quarter assms nonzero_def int_str_quarter key_forms split: option.split)

text \<open>Months and dates are coarsened alike; only the month grain keeps the month key.\<close>

lemma apply_grain_month_like:
  assumes k: "is_calendar_key (Some key)" "parse_period_key key = (Some y, None, Some (num mm), day)"
    and f: "date_key key \<noteq> None \<or> month_key key \<noteq> None"
    and m: "two_digits mm" "1 \<le> num mm" "num mm \<le> 12"
  shows "apply_grain key grain
    = (if grain = Some ''year'' then y
       else if grain = Some ''quarter'' then y @ [CHR ''Q'', quarter_digit_of (num mm)]
       else if grain = Some ''month'' then y @ CHR ''-'' # mm
       else if grain = Some ''half_year'' then y @ [CHR ''H'', if num mm \<le> 6 then CHR ''1'' else CHR ''2'']
       else key)"
  using k f m quarter_of_month(1) [OF m(2,3)] pad2_two_digits [OF m]
  by (simp add: apply_grain_def nonzero_def split: option.split)

text \<open>
  Coarsening a calendar key to a grain always gives a valid calendar key that starts no later
  than the key did, and coarsening it again to the same grain changes nothing. This holds for
  every grain, including the ones a key cannot be brought to, which keep the key.
\<close>

theorem apply_grain_coarsens:
  assumes v: "valid_key key"
  shows "valid_key (apply_grain key grain) \<and> apply_grain (apply_grain key grain) grain = apply_grain key grain
    \<and> the (key_as_date (apply_grain key grain)) \<le> the (key_as_date key)"
  using v
proof (cases rule: valid_key_cases)
  case year
  then show ?thesis by (simp add: apply_grain_year valid_forms)
next
  case (half y d)
  then show ?thesis by (simp add: apply_grain_half apply_grain_year valid_forms first_dates)
next
  case (quarter y d)
  then show ?thesis using quarter_digit [OF quarter(3)]
    by (auto simp: apply_grain_quarter apply_grain_year apply_grain_half valid_forms first_dates)
next
  case (month y mm)
  note m = month(3-5)
  have k: "is_calendar_key (Some key)" "parse_period_key key = (Some y, None, Some (num mm), None)" "date_key key \<noteq> None \<or> month_key key \<noteq> None"
    using month valid_key_calendar [OF v] by (simp_all add: key_parts key_forms)
  show ?thesis unfolding apply_grain_month_like [OF k m]
    using month apply_grain_month_like [OF k m] quarter_of_month [OF m(2,3)]
    by (auto simp: apply_grain_quarter apply_grain_year apply_grain_half valid_forms first_dates)
next
  case (date y mm dd)
  then obtain dt where dt: "make_date (num y) (num mm) (num dd) = Some dt" by auto
  note b = make_date_Some [OF dt]
  have m: "two_digits mm" "1 \<le> num mm" "num mm \<le> 12" using b date by auto
  have k: "is_calendar_key (Some key)" "parse_period_key key = (Some y, None, Some (num mm), Some (num dd))" "date_key key \<noteq> None \<or> month_key key \<noteq> None"
    using date valid_key_calendar [OF v] by (simp_all add: key_parts date_key_append)
  have k': "is_calendar_key (Some (y @ CHR ''-'' # mm))" "parse_period_key (y @ CHR ''-'' # mm) = (Some y, None, Some (num mm), None)"
    "date_key (y @ CHR ''-'' # mm) \<noteq> None \<or> month_key (y @ CHR ''-'' # mm) \<noteq> None"
    using date m valid_key_calendar [OF month_valid] by (simp_all add: key_parts key_forms)
  have d: "key_as_date key = Some (num y, num mm, num dd)" using date dt by (simp add: first_date_date)
  show ?thesis unfolding apply_grain_month_like [OF k m]
    using date(2) v b d m apply_grain_month_like [OF k m] apply_grain_month_like [OF k' m] quarter_of_month [OF m(2,3)]
    by (auto simp: apply_grain_quarter apply_grain_year apply_grain_half valid_forms first_date_year first_date_half first_date_quarter first_date_month)
qed

theorem apply_grain_coarsens_witness:
  "valid_key ''2024-08-31'' \<and> apply_grain ''2024-08-31'' (Some ''quarter'') = ''2024Q3''
    \<and> apply_grain ''2024Q3'' (Some ''quarter'') = ''2024Q3''"
proof -
  have v: "valid_key ''2024-08-31''" and q: "apply_grain ''2024-08-31'' (Some ''quarter'') = ''2024Q3''" by code_simp+
  from apply_grain_coarsens [OF v, of "Some ''quarter''"] show ?thesis using v unfolding q by blast
qed

text \<open>A month key may name a month that does not exist; it then shares a position with a later year.\<close>

lemma month_out_of_year:
  "calendar_position ''2024-13'' = Some (''month'', 24301)" "calendar_position ''2025-01'' = Some (''month'', 24301)"
  "apply_grain ''2024-13'' (Some ''quarter'') = ''2024Q5''"
  by code_simp+

end
