(* ===== verification/Json_Values.thy ===== *)
theory Json_Values
  imports Main
begin

text \<open>
  Values read from JSON files. A dict is the list of its keys and values in order, each key once,
  as \<open>json.loads\<close> builds it; a number is kept as its text, which no operation of the
  model looks into.
\<close>

datatype json =
    JNull
  | JBool bool
  | JNumber string
  | JString string
  | JArray "json list"
  | JObject "(string \<times> json) list"

type_synonym json_dict = "(string \<times> json) list"

definition as_dict :: "json option \<Rightarrow> json_dict option" where
  "as_dict v = (case v of Some (JObject d) \<Rightarrow> Some d | _ \<Rightarrow> None)"

definition as_text :: "json option \<Rightarrow> string option" where
  "as_text v = (case v of Some (JString s) \<Rightarrow> Some s | _ \<Rightarrow> None)"

text \<open>\<open>d.pop(key, None)\<close> and \<open>d[key] = value\<close> on the ordered dict.\<close>

definition dict_pop :: "string \<Rightarrow> json_dict \<Rightarrow> json_dict" where
  "dict_pop key d = filter (\<lambda>(k, v). k \<noteq> key) d"

fun dict_set :: "string \<Rightarrow> json \<Rightarrow> json_dict \<Rightarrow> json_dict" where
  "dict_set key value [] = [(key, value)]"
| "dict_set key value ((k, v) # d) = (if k = key then (key, value) # d else (k, v) # dict_set key value d)"

lemma map_of_dict_set [simp]: "map_of (dict_set key value d) = (map_of d)(key \<mapsto> value)"
  by (induction d) auto

lemma map_of_dict_pop [simp]: "map_of (dict_pop key d) = (map_of d)(key := None)"
  by (induction d) (auto simp: dict_pop_def)

lemma as_dict_Some: "as_dict v = Some d \<longleftrightarrow> v = Some (JObject d)"
  by (auto simp: as_dict_def split: option.splits json.splits)

lemma as_text_Some: "as_text v = Some s \<longleftrightarrow> v = Some (JString s)"
  by (auto simp: as_text_def split: option.splits json.splits)

end
