(* ===== verification/Level_Walk.thy ===== *)
theory Level_Walk
  imports Main "HOL-Library.While_Combinator"
begin

text \<open>
  A level-order walk over a work queue: a node is visited when it is first taken from the queue,
  its successors that were not visited yet are queued one level deeper, and what can follow a
  node may depend on the level it is visited at. The locale states what a client promises (no
  successors from some level on) and proves that the walk ends and visits exactly the layers.
\<close>

record 'a Walk =
  wk_queue :: "('a \<times> nat) list"
  wk_seen :: "'a set"
  wk_out :: "('a \<times> nat) list"

definition walk_start :: "'a list \<Rightarrow> 'a Walk" where
  "walk_start starts = \<lparr>wk_queue = map (\<lambda>n. (n, 0)) starts, wk_seen = {}, wk_out = []\<rparr>"

definition walk_step :: "('a \<Rightarrow> nat \<Rightarrow> 'a list) \<Rightarrow> 'a Walk \<Rightarrow> 'a Walk" where
  "walk_step succs w =
     (case wk_queue w of
        [] \<Rightarrow> w
      | (n, l) # rest \<Rightarrow>
          if n \<in> wk_seen w then w\<lparr>wk_queue := rest\<rparr>
          else
            \<lparr>wk_queue = rest @ map (\<lambda>m. (m, Suc l)) (filter (\<lambda>m. m \<notin> insert n (wk_seen w)) (succs n l)),
             wk_seen = insert n (wk_seen w), wk_out = wk_out w @ [(n, l)]\<rparr>)"

definition level_walk_from :: "('a \<Rightarrow> nat \<Rightarrow> 'a list) \<Rightarrow> 'a list \<Rightarrow> 'a Walk option" where
  "level_walk_from succs starts = while_option (\<lambda>w. wk_queue w \<noteq> []) (walk_step succs) (walk_start starts)"

text \<open>The nodes before a level and the nodes of the level.\<close>

primrec levels :: "('a \<Rightarrow> nat \<Rightarrow> 'a list) \<Rightarrow> 'a set \<Rightarrow> nat \<Rightarrow> 'a set \<times> 'a set" where
  "levels succs S 0 = ({}, S)"
| "levels succs S (Suc k) =
     (fst (levels succs S k) \<union> snd (levels succs S k),
      (\<Union>n \<in> snd (levels succs S k). set (succs n k)) - (fst (levels succs S k) \<union> snd (levels succs S k)))"

abbreviation before :: "('a \<Rightarrow> nat \<Rightarrow> 'a list) \<Rightarrow> 'a set \<Rightarrow> nat \<Rightarrow> 'a set" where
  "before succs S k \<equiv> fst (levels succs S k)"

abbreviation layer :: "('a \<Rightarrow> nat \<Rightarrow> 'a list) \<Rightarrow> 'a set \<Rightarrow> nat \<Rightarrow> 'a set" where
  "layer succs S k \<equiv> snd (levels succs S k)"

lemma before_layers: "before succs S k = (\<Union>j < k. layer succs S j)"
  by (induction k) (auto simp: lessThan_Suc)

lemma layer_fresh: "before succs S k \<inter> layer succs S k = {}"
  by (cases k) auto

lemma finite_layer: "finite S \<Longrightarrow> finite (layer succs S k)"
  by (induction k) auto

lemma layer_empty:
  assumes "layer succs S k = {}" "k \<le> j"
  shows "layer succs S j = {}"
  using assms(2)
proof (induction j rule: dec_induct)
  case (step j)
  then show ?case by simp
qed (rule assms(1))

definition walk_inv :: "('a \<Rightarrow> nat \<Rightarrow> 'a list) \<Rightarrow> 'a set \<Rightarrow> nat \<Rightarrow> 'a set \<Rightarrow> 'a list \<Rightarrow> 'a list \<Rightarrow> 'a Walk \<Rightarrow> bool" where
  "walk_inv succs S k P q1 q2 w \<longleftrightarrow>
     wk_queue w = map (\<lambda>n. (n, k)) q1 @ map (\<lambda>n. (n, Suc k)) q2
     \<and> wk_seen w = before succs S k \<union> P
     \<and> P \<subseteq> layer succs S k \<and> layer succs S k \<subseteq> P \<union> set q1 \<and> set q1 \<subseteq> before succs S k \<union> layer succs S k
     \<and> set q2 \<subseteq> (\<Union>n \<in> P. set (succs n k))
     \<and> (\<Union>n \<in> P. set (succs n k)) \<subseteq> before succs S k \<union> P \<union> set q2
     \<and> set (wk_out w) = {(n, l). n \<in> layer succs S l \<and> l < k} \<union> (\<lambda>n. (n, k)) ` P
     \<and> distinct (map fst (wk_out w)) \<and> sorted (map snd (wk_out w))"

lemma walk_invD:
  "walk_inv succs S k P q1 q2 w \<Longrightarrow> wk_queue w = map (\<lambda>n. (n, k)) q1 @ map (\<lambda>n. (n, Suc k)) q2"
  "walk_inv succs S k P q1 q2 w \<Longrightarrow> wk_seen w = before succs S k \<union> P"
  "walk_inv succs S k P q1 q2 w \<Longrightarrow> P \<subseteq> layer succs S k"
  "walk_inv succs S k P q1 q2 w \<Longrightarrow> layer succs S k \<subseteq> P \<union> set q1"
  "walk_inv succs S k P q1 q2 w \<Longrightarrow> set (wk_out w) = {(n, l). n \<in> layer succs S l \<and> l < k} \<union> (\<lambda>n. (n, k)) ` P"
  "walk_inv succs S k P q1 q2 w \<Longrightarrow> distinct (map fst (wk_out w))"
  "walk_inv succs S k P q1 q2 w \<Longrightarrow> sorted (map snd (wk_out w))"
  unfolding walk_inv_def by (elim conjE, assumption)+

lemma walk_inv_start: "walk_inv succs (set starts) 0 {} starts [] (walk_start starts)"
  by (simp add: walk_inv_def walk_start_def)

text \<open>A finished level: the queue of the next one becomes the current one.\<close>

lemma walk_inv_shift:
  assumes "walk_inv succs S k P [] q2 w"
  shows "walk_inv succs S (Suc k) {} q2 [] w"
proof -
  have P: "P = layer succs S k" using assms by (auto simp: walk_inv_def)
  have "{(n, l). n \<in> layer succs S l \<and> l < Suc k} = {(n, l). n \<in> layer succs S l \<and> l < k} \<union> (\<lambda>n. (n, k)) ` P"
    using P by (auto simp: less_Suc_eq)
  moreover have "layer succs S (Suc k) \<subseteq> set q2" "set q2 \<subseteq> before succs S (Suc k) \<union> layer succs S (Suc k)"
    using assms P unfolding walk_inv_def by (simp, blast)+
  ultimately show ?thesis using assms P unfolding walk_inv_def by simp
qed

declare levels.simps [simp del]

lemma walk_inv_fst_out:
  assumes "walk_inv succs S k P q1 q2 w"
  shows "fst ` set (wk_out w) = wk_seen w"
proof -
  have "fst ` {(n, l). n \<in> layer succs S l \<and> l < k} = before succs S k" unfolding before_layers by force
  then show ?thesis unfolding walk_invD(2,5) [OF assms] by (simp add: image_Un image_image)
qed

lemma walk_inv_step:
  assumes inv: "walk_inv succs S k P (n # q1) q2 w"
  shows "\<exists>P' q2'. walk_inv succs S k P' q1 q2' (walk_step succs w)"
proof (cases "n \<in> wk_seen w")
  case True
  with inv have "walk_inv succs S k P q1 q2 (walk_step succs w)"
    using layer_fresh [of succs S k] by (auto simp: walk_inv_def walk_step_def)
  then show ?thesis by blast
next
  case False
  let ?new = "filter (\<lambda>m. m \<notin> insert n (wk_seen w)) (succs n k)"
  have n: "n \<in> layer succs S k" "n \<notin> P" using inv False by (auto simp: walk_inv_def)
  have out: "n \<notin> fst ` set (wk_out w)" using False walk_inv_fst_out [OF inv] by simp
  have "\<forall>l \<in> snd ` set (wk_out w). l \<le> k" using inv by (auto simp: walk_inv_def)
  then have s: "sorted (map snd (wk_out w @ [(n, k)]))" using inv by (auto simp: walk_inv_def sorted_append)
  have "walk_inv succs S k (insert n P) q1 (q2 @ ?new) (walk_step succs w)"
    using inv False n out s by (auto simp: walk_inv_def walk_step_def)
  then show ?thesis by blast
qed

locale level_walk =
  fixes succs :: "'a \<Rightarrow> nat \<Rightarrow> 'a list"
    and bound :: nat
  assumes succs_bound: "bound \<le> l \<Longrightarrow> succs n l = []"
begin

lemma layer_beyond: "bound < k \<Longrightarrow> layer succs S k = {}"
proof -
  assume "bound < k"
  then obtain j where "k = Suc j" "bound \<le> j" by (cases k) auto
  then show ?thesis by (simp add: succs_bound levels.simps)
qed

lemma reached_bounded: "before succs S k \<union> layer succs S k \<subseteq> (\<Union>j \<le> bound. layer succs S j)"
proof
  fix n assume "n \<in> before succs S k \<union> layer succs S k"
  then obtain j where "n \<in> layer succs S j" by (auto simp: before_layers)
  moreover from this have "j \<le> bound" using layer_beyond [of j] by (cases "bound < j") auto
  ultimately show "n \<in> (\<Union>j \<le> bound. layer succs S j)" by blast
qed

definition walking :: "'a set \<Rightarrow> 'a Walk \<Rightarrow> bool" where
  "walking S w \<longleftrightarrow> (\<exists>k P q1 q2. walk_inv succs S k P q1 q2 w)"

lemma walking_start: "walking (set starts) (walk_start starts)"
  unfolding walking_def using walk_inv_start by blast

lemma walking_head:
  assumes "walking S w" "wk_queue w \<noteq> []"
  obtains k P n q1 q2 where "walk_inv succs S k P (n # q1) q2 w"
proof -
  from assms(1) obtain k P q1 q2 where i: "walk_inv succs S k P q1 q2 w" by (auto simp: walking_def)
  show ?thesis
  proof (cases q1)
    case Nil
    then have s: "walk_inv succs S (Suc k) {} q2 [] w" using i walk_inv_shift by blast
    moreover from s assms(2) obtain n q where "q2 = n # q" by (cases q2) (auto simp: walk_inv_def)
    ultimately show ?thesis using that by blast
  next
    case (Cons n q)
    then show ?thesis using i that by blast
  qed
qed

lemma walking_step: "walking S w \<Longrightarrow> wk_queue w \<noteq> [] \<Longrightarrow> walking S (walk_step succs w)"
  using walking_head walk_inv_step unfolding walking_def by metis

lemma walking_seen: "walking S w \<Longrightarrow> wk_seen w \<subseteq> (\<Union>j \<le> bound. layer succs S j)"
proof -
  assume "walking S w"
  then obtain k P q1 q2 where i: "walk_inv succs S k P q1 q2 w" by (auto simp: walking_def)
  have "wk_seen w \<subseteq> before succs S k \<union> layer succs S k" unfolding walk_invD(2) [OF i] using walk_invD(3) [OF i] by (rule Un_mono [OF order_refl])
  then show ?thesis using reached_bounded by (rule subset_trans)
qed

text \<open>Every step visits a node of a layer for the first time or shortens the queue.\<close>

definition walk_left :: "'a set \<Rightarrow> 'a Walk \<Rightarrow> nat \<times> nat" where
  "walk_left S w = (card ((\<Union>j \<le> bound. layer succs S j) - wk_seen w), length (wk_queue w))"

lemma walk_step_less:
  assumes "finite S" "walking S w" "wk_queue w \<noteq> []"
  shows "(walk_left S (walk_step succs w), walk_left S w) \<in> less_than <*lex*> less_than"
proof -
  obtain n l q where q: "wk_queue w = (n, l) # q" using assms(3) by (cases "wk_queue w") auto
  show ?thesis
  proof (cases "n \<in> wk_seen w")
    case True
    with q show ?thesis by (simp add: walk_left_def walk_step_def)
  next
    case False
    define U where "U = (\<Union>j \<le> bound. layer succs S j)"
    have s: "wk_seen (walk_step succs w) = insert n (wk_seen w)" using q False by (simp add: walk_step_def)
    have "insert n (wk_seen w) \<subseteq> U" using walking_seen [OF walking_step [OF assms(2,3)]] unfolding s U_def .
    then have "U - insert n (wk_seen w) \<subset> U - wk_seen w" using False by blast
    moreover have "finite (U - wk_seen w)" unfolding U_def using finite_layer [OF assms(1)] by simp
    ultimately have "card (U - insert n (wk_seen w)) < card (U - wk_seen w)" by (rule psubset_card_mono [rotated])
    then show ?thesis by (simp add: walk_left_def s U_def)
  qed
qed

lemma walk_ends: "\<exists>w. level_walk_from succs starts = Some w"
proof -
  have "wf {(t, s). (walking (set starts) s \<and> wk_queue s \<noteq> []) \<and> t = walk_step succs s}"
  proof (rule wf_subset [OF wf_inv_image [OF wf_lex_prod [OF wf_less_than wf_less_than], of "walk_left (set starts)"]])
    show "{(t, s). (walking (set starts) s \<and> wk_queue s \<noteq> []) \<and> t = walk_step succs s}
        \<subseteq> inv_image (less_than <*lex*> less_than) (walk_left (set starts))"
      using walk_step_less [of "set starts"] by auto
  qed
  then show ?thesis unfolding level_walk_from_def
    by (rule wf_while_option_Some [where P = "walking (set starts)"]) (auto intro: walking_step walking_start)
qed

lemma walk_layers:
  assumes "level_walk_from succs starts = Some w"
  shows "set (wk_out w) = {(n, l). l \<le> bound \<and> n \<in> layer succs (set starts) l}
    \<and> distinct (map fst (wk_out w)) \<and> sorted (map snd (wk_out w))"
proof -
  let ?S = "set starts"
  have "walking ?S w"
    by (rule while_option_rule [OF _ assms [unfolded level_walk_from_def]]) (auto intro: walking_step walking_start)
  moreover have empty: "wk_queue w = []" using while_option_stop [OF assms [unfolded level_walk_from_def]] by simp
  ultimately obtain k P q1 q2 where i: "walk_inv succs ?S k P q1 q2 w" by (auto simp: walking_def)
  then have "q1 = []" "q2 = []" using empty walk_invD(1) [OF i] by simp_all
  with i have j: "walk_inv succs ?S (Suc k) {} [] [] w" using walk_inv_shift by blast
  have last: "layer succs ?S (Suc k) = {}" using walk_invD(4) [OF j] by simp
  have "l < Suc k \<longleftrightarrow> l \<le> bound" if "n \<in> layer succs ?S l" for n l
    using layer_empty [OF last, of l] layer_beyond [of l ?S] that by (metis empty_iff not_le)
  then have "{(n, l). n \<in> layer succs ?S l \<and> l < Suc k} = {(n, l). l \<le> bound \<and> n \<in> layer succs ?S l}" by auto
  then show ?thesis using walk_invD(5-7) [OF j] by simp
qed

end

end
