(* ===== verification/Trace.thy ===== *)
theory Trace
  imports Range_Cover Period_Keys Json_Values Level_Walk "HOL-Library.List_Lexorder" "HOL-Library.Char_ord"
begin

text \<open>
  Tracing precedents and dependents: \<open>src/finance_context/graph/trace.py\<close> with the trace records
  of \<open>graph/models.py\<close> and \<open>labels.py\<close>. The rows of the parquet files are records of the columns
  the trace reads; the context document is a JSON value, \<open>None\<close> when the file cannot be read. The
  work queue is a \<open>while_option\<close> loop over an explicit state, and refines the level-order walk of
  \<open>Level_Walk\<close>. The memo of the members of a range is left out: it holds results of a function of
  the node alone.
\<close>

section \<open>Rows and documents\<close>

record IndexRow =
  ix_node_id :: string
  ix_sheet :: "string option"
  ix_addr :: "string option"
  ix_row_key :: "string option"
  ix_period_id :: "string option"
  ix_node_type :: "string option"

text \<open>The cached value of a cell row is its printed form.\<close>

record CellRow =
  cr_sheet :: string
  cr_addr :: string
  cr_formula_raw :: "string option"
  cr_formula_template :: "string option"
  cr_cached_value :: "string option"

record TraceNode =
  tn_node_id :: string
  tn_sheet :: "string option"
  tn_addr :: "string option"
  tn_row_key :: "string option"
  tn_period_id :: "string option"
  tn_node_type :: "string option"
  tn_formula :: "string option"
  tn_formula_template :: "string option"
  tn_cached_value :: "string option"
  tn_depth :: nat

record TraceEdge =
  te_source :: string
  te_target :: string
  te_kind :: string
  te_period_lag :: "string option"
  te_col_offset :: "int option"
  te_members_total :: "nat option"
  te_members_shown :: "nat option"

datatype direction = Precedents | Dependents

text \<open>Any other word than \<open>dependents\<close> means precedents.\<close>

definition direction_of :: "string \<Rightarrow> direction" where
  "direction_of word = (if word = ''dependents'' then Dependents else Precedents)"

record TraceDocument =
  td_origin :: string
  td_direction :: direction
  td_depth :: nat
  td_stopped :: string
  td_nodes :: "TraceNode list"
  td_edges :: "TraceEdge list"

type_synonym index = "(string \<times> IndexRow) list"

definition some_text :: "string option \<Rightarrow> bool" where
  "some_text v \<longleftrightarrow> v \<noteq> None \<and> v \<noteq> Some ''''"

definition or_else :: "string option \<Rightarrow> string option \<Rightarrow> string option" where
  "or_else a b = (if some_text a then a else b)"

text \<open>\<open>{key(row): row for row in rows}\<close>: the last row of a key wins, at the place of the first.\<close>

definition dict_of_rows :: "('r \<Rightarrow> string) \<Rightarrow> 'r list \<Rightarrow> (string \<times> 'r) list" where
  "dict_of_rows key rows = fold (\<lambda>row d. AList.update (key row) row d) rows []"

section \<open>Labels and origins\<close>

definition own_label_contains :: "string \<Rightarrow> string \<Rightarrow> bool" where
  "own_label_contains label needle =
     (let folded = casefold (py_strip needle) in
      if folded = '''' then False else find_sub folded (casefold label) \<noteq> None)"

definition json_list :: "json option \<Rightarrow> json list" where
  "json_list v = (case v of Some (JArray xs) \<Rightarrow> xs | _ \<Rightarrow> [])"

definition row_label_key :: "string \<Rightarrow> json \<Rightarrow> string list" where
  "row_label_key needle row =
     (case row of
        JObject d \<Rightarrow>
          (case (as_text (map_of d ''label''), as_text (map_of d ''row_key'')) of
             (Some label, Some key) \<Rightarrow> if key \<noteq> '''' \<and> own_label_contains label needle then [key] else []
           | _ \<Rightarrow> [])
      | _ \<Rightarrow> [])"

definition row_keys_for_label :: "json option \<Rightarrow> string \<Rightarrow> string list" where
  "row_keys_for_label context needle =
     (case as_dict context of
        None \<Rightarrow> []
      | Some loaded \<Rightarrow>
          concat (map (\<lambda>block. case block of
              JObject b \<Rightarrow> concat (map (row_label_key needle) (json_list (map_of b ''rows'')))
            | _ \<Rightarrow> [])
          (json_list (map_of loaded ''blocks''))))"

definition ids_where :: "(IndexRow \<Rightarrow> bool) \<Rightarrow> index \<Rightarrow> string list" where
  "ids_where P index = sort (map fst (filter (\<lambda>(nid, row). P row) index))"

definition resolve_origin :: "string \<Rightarrow> index \<Rightarrow> json option \<Rightarrow> string list" where
  "resolve_origin origin index context =
     (let wanted = py_strip origin in
      if wanted = '''' then []
      else if map_of index wanted \<noteq> None then [wanted]
      else if CHR ''|'' \<in> set wanted then ids_where (\<lambda>row. ix_row_key row = Some wanted) index
      else
        let keys = row_keys_for_label context wanted in
        if keys = [] then [] else ids_where (\<lambda>row. case ix_row_key row of None \<Rightarrow> False | Some k \<Rightarrow> k \<in> set keys) index)"

section \<open>Range nodes of a trace\<close>

record Ranges =
  rg_index :: index
  rg_usage :: SheetUsage
  rg_grid :: CellGrid
  rg_cover :: CoverIndex
  rg_period_by_col :: "((string \<times> int) \<times> string) list"
  rg_row_key_by_row :: "((string \<times> int) \<times> string) list"

definition place_row ::
  "string \<times> IndexRow \<Rightarrow> ((string \<times> int) \<times> string) list \<times> ((string \<times> int) \<times> string) list
   \<Rightarrow> ((string \<times> int) \<times> string) list \<times> ((string \<times> int) \<times> string) list" where
  "place_row entry st =
     (case entry of (nid, row) \<Rightarrow>
        case parse_node_id (Some nid) of
          None \<Rightarrow> st
        | Some (sheet, col, row_n) \<Rightarrow>
            (case st of (by_col, by_row) \<Rightarrow>
               (if some_text (ix_period_id row) then dict_setdefault (sheet, col) (the (ix_period_id row)) by_col else by_col,
                if some_text (ix_row_key row) then dict_setdefault (sheet, row_n) (the (ix_row_key row)) by_row else by_row)))"

definition make_ranges :: "(string \<times> RangeNode) list \<Rightarrow> index \<Rightarrow> SheetUsage \<Rightarrow> Ranges" where
  "make_ranges nodes_by_id index usage =
     (case fold place_row index ([], []) of (by_col, by_row) \<Rightarrow>
        \<lparr>rg_index = index, rg_usage = usage,
         rg_grid = from_cells (map fst (filter (\<lambda>(nid, row). ix_node_type row \<in> {Some ''calculated'', Some ''input''}) index)),
         rg_cover = make_cover_index (map snd nodes_by_id),
         rg_period_by_col = by_col, rg_row_key_by_row = by_row\<rparr>)"

definition cell_exists :: "Ranges \<Rightarrow> string \<Rightarrow> int \<Rightarrow> int \<Rightarrow> bool" where
  "cell_exists rg sheet col row = span_has (dict_get (usage_columns (rg_usage rg) sheet) col []) row"

definition rg_members :: "Ranges \<Rightarrow> RangeNode \<Rightarrow> string list" where
  "rg_members rg node = grid_members (rg_grid rg) node"

definition rg_covering :: "Ranges \<Rightarrow> string \<Rightarrow> RangeNode list" where
  "rg_covering rg cell =
     (case parse_node_id (Some cell) of
        None \<Rightarrow> []
      | Some (sheet, col, row) \<Rightarrow>
          if CHR '':'' \<in> set cell then []
          else filter (\<lambda>node. \<not> (node_whole node \<and> \<not> cell_exists rg sheet col row)) (ci_covering (rg_cover rg) sheet col row))"

definition rg_has_cells :: "Ranges \<Rightarrow> RangeNode \<Rightarrow> bool" where
  "rg_has_cells rg node = (if \<not> node_whole node then True else node_present_count node (rg_usage rg) > 0)"

definition rg_covers :: "Ranges \<Rightarrow> string \<Rightarrow> bool" where
  "rg_covers rg cell \<longleftrightarrow> rg_covering rg cell \<noteq> []"

definition rg_readers :: "Ranges \<Rightarrow> string \<Rightarrow> CellEdge list \<Rightarrow> (CellEdge \<times> string) list" where
  "rg_readers rg cell edges =
     concat (map (\<lambda>node. map (\<lambda>e. (e, ce_source e)) (filter (\<lambda>e. ce_target e = node_id node) edges)) (rg_covering rg cell))"

definition rg_period :: "Ranges \<Rightarrow> string \<Rightarrow> string option" where
  "rg_period rg cell =
     (case map_of (rg_index rg) cell of
        Some row \<Rightarrow> ix_period_id row
      | None \<Rightarrow>
          (case parse_node_id (Some cell) of
             None \<Rightarrow> None
           | Some (sheet, col, row) \<Rightarrow> map_of (rg_period_by_col rg) (sheet, col)))"

definition offset_and_lag :: "Ranges \<Rightarrow> string \<Rightarrow> string \<Rightarrow> int option \<times> string" where
  "offset_and_lag rg reader cell =
     (let offset = (case (parse_node_id (Some reader), parse_node_id (Some cell)) of
                      (Some (_, c1, _), Some (_, c2, _)) \<Rightarrow> Some (c2 - c1)
                    | _ \<Rightarrow> None);
          src_period = rg_period rg reader;
          tgt_period = rg_period rg cell
      in if \<not> some_text src_period \<or> \<not> some_text tgt_period then (offset, ''unaligned'')
         else (offset, calendar_lag (the src_period) (the tgt_period)))"

definition empty_meta :: IndexRow where
  "empty_meta = \<lparr>ix_node_id = '''', ix_sheet = None, ix_addr = None, ix_row_key = None, ix_period_id = None, ix_node_type = None\<rparr>"

definition blank_meta :: "Ranges \<Rightarrow> string \<Rightarrow> IndexRow" where
  "blank_meta rg cell =
     (case parse_node_id (Some cell) of
        None \<Rightarrow> empty_meta
      | Some (sheet, col, row) \<Rightarrow>
          if \<not> rg_covers rg cell then empty_meta
          else
            \<lparr>ix_node_id = cell, ix_sheet = Some sheet,
             ix_addr = Some (case rsplit1 CHR ''!'' cell of Some (_, addr) \<Rightarrow> addr | None \<Rightarrow> cell),
             ix_row_key = map_of (rg_row_key_by_row rg) (sheet, row),
             ix_period_id = map_of (rg_period_by_col rg) (sheet, col),
             ix_node_type = Some ''empty''\<rparr>)"

section \<open>The walk\<close>

record TraceState =
  ts_queue :: "(string \<times> nat) list"
  ts_seen :: "string set"
  ts_nodes :: "TraceNode list"
  ts_used :: "TraceEdge list"
  ts_stopped :: "string option"
  ts_hit_depth :: bool

record TraceInput =
  ti_index :: index
  ti_cells :: "(string \<times> CellRow) list"
  ti_edges :: "CellEdge list"
  ti_nodes :: "(string \<times> RangeNode) list"
  ti_ranges :: Ranges
  ti_direction :: direction
  ti_depth :: nat
  ti_limit :: nat

definition usable_row :: "CellEdge \<Rightarrow> bool" where
  "usable_row e \<longleftrightarrow> \<not> (ce_unresolved e \<or> ce_dangling e \<or> ce_target e = '''')"

text \<open>
  \<open>fwd[n]\<close> and \<open>rev[n]\<close>: the usable edges that start or end at a node, in file order. The
  ranges object exists exactly when there is a range node.
\<close>

definition fwd :: "TraceInput \<Rightarrow> string \<Rightarrow> CellEdge list" where
  "fwd ti n = filter (\<lambda>e. ce_source e = n) (ti_edges ti)"

definition rev_edges :: "TraceInput \<Rightarrow> string \<Rightarrow> CellEdge list" where
  "rev_edges ti n = filter (\<lambda>e. ce_target e = n) (ti_edges ti)"

definition has_ranges :: "TraceInput \<Rightarrow> bool" where
  "has_ranges ti \<longleftrightarrow> ti_nodes ti \<noteq> []"

definition node_meta :: "TraceInput \<Rightarrow> string \<Rightarrow> IndexRow" where
  "node_meta ti n =
     (case map_of (ti_index ti) n of
        Some row \<Rightarrow> row
      | None \<Rightarrow> if has_ranges ti then blank_meta (ti_ranges ti) n else empty_meta)"

definition make_node :: "string \<Rightarrow> CellRow option \<Rightarrow> IndexRow \<Rightarrow> nat \<Rightarrow> TraceNode" where
  "make_node nid cell meta level =
     \<lparr>tn_node_id = nid,
      tn_sheet = or_else (ix_sheet meta) (map_option cr_sheet cell),
      tn_addr = or_else (ix_addr meta) (map_option cr_addr cell),
      tn_row_key = ix_row_key meta, tn_period_id = ix_period_id meta, tn_node_type = ix_node_type meta,
      tn_formula = Option.bind cell cr_formula_raw, tn_formula_template = Option.bind cell cr_formula_template,
      tn_cached_value = Option.bind cell cr_cached_value, tn_depth = level\<rparr>"

definition trace_edge ::
  "CellEdge \<Rightarrow> string \<Rightarrow> string option \<Rightarrow> int option \<Rightarrow> nat option \<Rightarrow> nat option \<Rightarrow> TraceEdge" where
  "trace_edge e target lag offset all_members shown =
     \<lparr>te_source = ce_source e, te_target = target, te_kind = ce_kind e, te_period_lag = lag, te_col_offset = offset,
      te_members_total = all_members, te_members_shown = shown\<rparr>"

text \<open>The edges used so far and the keys emitted for the current node.\<close>

definition emit :: "TraceEdge \<Rightarrow> TraceEdge list \<times> (string \<times> string) set \<Rightarrow> TraceEdge list \<times> (string \<times> string) set" where
  "emit e st =
     (case st of (used, emitted) \<Rightarrow>
        let key = (te_source e, te_target e) in
        if key \<in> emitted then st else (used @ [e], insert key emitted))"

text \<open>Queue a node unless it was visited, which is noted as a cycle.\<close>

definition enqueue_next ::
  "string set \<Rightarrow> nat \<Rightarrow> string \<Rightarrow> (string \<times> nat) list \<times> string option \<Rightarrow> (string \<times> nat) list \<times> string option" where
  "enqueue_next seen level nxt st =
     (case st of (queue, stopped) \<Rightarrow> if nxt \<in> seen then (queue, Some ''cycle'') else (queue @ [(nxt, Suc level)], stopped))"

type_synonym fan = "(TraceEdge list \<times> (string \<times> string) set) \<times> ((string \<times> nat) list \<times> string option)"

definition edge_label :: "CellEdge \<Rightarrow> string" where
  "edge_label e = (if some_text (ce_range_ref e) then the (ce_range_ref e) else ce_target e)"

definition shown_members :: "TraceInput \<Rightarrow> string list \<Rightarrow> string list" where
  "shown_members ti members = (if ti_limit ti = 0 then members else take (ti_limit ti) members)"

definition follow_edge :: "TraceInput \<Rightarrow> string set \<Rightarrow> nat \<Rightarrow> CellEdge \<Rightarrow> fan \<Rightarrow> fan" where
  "follow_edge ti seen level e fan =
     (case fan of (out, queue) \<Rightarrow>
        case (if ti_direction ti = Precedents then map_of (ti_nodes ti) (ce_target e) else None) of
          Some node \<Rightarrow>
            if \<not> rg_has_cells (ti_ranges ti) node then fan
            else
              let members = rg_members (ti_ranges ti) node; shown = shown_members ti members in
              (emit (trace_edge e (edge_label e) (ce_period_lag e) (ce_col_offset e) (Some (length members)) (Some (length shown))) out,
               fold (enqueue_next seen level) shown queue)
        | None \<Rightarrow>
            let nxt = (if ti_direction ti = Precedents then ce_target e else ce_source e);
                out' = emit (trace_edge e (edge_label e) (ce_period_lag e) (ce_col_offset e) None None) out
            in if Option.bind (map_of (ti_index ti) nxt) ix_node_type = Some ''empty'' then (out', queue)
               else (out', enqueue_next seen level nxt queue))"

definition follow_reader :: "TraceInput \<Rightarrow> string \<Rightarrow> string set \<Rightarrow> nat \<Rightarrow> CellEdge \<times> string \<Rightarrow> fan \<Rightarrow> fan" where
  "follow_reader ti current seen level er fan =
     (case er of (e, reader) \<Rightarrow>
        case fan of (out, queue) \<Rightarrow>
          case offset_and_lag (ti_ranges ti) reader current of
            (offset, lag) \<Rightarrow>
              (emit (trace_edge e (edge_label e) (Some lag) offset None None) out, enqueue_next seen level reader queue))"

definition outgoing :: "TraceInput \<Rightarrow> string \<Rightarrow> CellEdge list" where
  "outgoing ti n = (if ti_direction ti = Precedents then fwd ti n else rev_edges ti n)"

definition trace_readers :: "TraceInput \<Rightarrow> string \<Rightarrow> (CellEdge \<times> string) list" where
  "trace_readers ti n =
     (if ti_direction ti = Precedents \<or> \<not> has_ranges ti then [] else rg_readers (ti_ranges ti) n (ti_edges ti))"

definition stops_at :: "TraceInput \<Rightarrow> string \<Rightarrow> nat \<Rightarrow> bool" where
  "stops_at ti n level \<longleftrightarrow> ti_direction ti = Precedents \<and> ix_node_type (node_meta ti n) = Some ''input'' \<and> level > 0"

definition trace_step :: "TraceInput \<Rightarrow> TraceState \<Rightarrow> TraceState" where
  "trace_step ti ts =
     (case ts_queue ts of
        [] \<Rightarrow> ts
      | (current, level) # rest \<Rightarrow>
          if current \<in> ts_seen ts then ts\<lparr>ts_queue := rest, ts_stopped := Some ''cycle''\<rparr>
          else
            let seen = insert current (ts_seen ts);
                ts = ts\<lparr>ts_queue := rest, ts_seen := seen,
                        ts_nodes := ts_nodes ts @ [make_node current (map_of (ti_cells ti) current) (node_meta ti current) level]\<rparr>
            in if stops_at ti current level then ts\<lparr>ts_stopped := Some ''input''\<rparr>
               else if level \<ge> ti_depth ti then
                 (if outgoing ti current \<noteq> [] \<or> trace_readers ti current \<noteq> [] then ts\<lparr>ts_hit_depth := True\<rparr> else ts)
               else
                 case fold (follow_reader ti current seen level) (trace_readers ti current)
                        (fold (follow_edge ti seen level) (outgoing ti current) ((ts_used ts, {}), (rest, ts_stopped ts))) of
                   ((used, emitted), (queue, stopped)) \<Rightarrow>
                     ts\<lparr>ts_queue := queue, ts_used := used, ts_stopped := stopped\<rparr>)"

definition trace_start :: "string list \<Rightarrow> TraceState" where
  "trace_start starts =
     \<lparr>ts_queue = map (\<lambda>n. (n, 0)) starts, ts_seen = {}, ts_nodes = [], ts_used = [], ts_stopped = None, ts_hit_depth = False\<rparr>"

definition trace_walk :: "TraceInput \<Rightarrow> string list \<Rightarrow> TraceState option" where
  "trace_walk ti starts = while_option (\<lambda>ts. ts_queue ts \<noteq> []) (trace_step ti) (trace_start starts)"

fun unique_edges :: "(string \<times> string) set \<Rightarrow> TraceEdge list \<Rightarrow> TraceEdge list" where
  "unique_edges seen [] = []"
| "unique_edges seen (e # es) =
     (if (te_source e, te_target e) \<in> seen then unique_edges seen es
      else e # unique_edges (insert (te_source e, te_target e) seen) es)"

text \<open>
  The files of a job: \<open>None\<close> for a file that does not exist. The usage of the book clips whole
  columns and rows.
\<close>

record TraceFiles =
  tf_cells :: "CellRow list"
  tf_index :: "IndexRow list option"
  tf_graph_edges :: "CellEdge list option"
  tf_cell_edges :: "CellEdge list option"
  tf_context :: "json option"
  tf_usage :: SheetUsage

definition trace_input :: "TraceFiles \<Rightarrow> direction \<Rightarrow> int \<Rightarrow> int \<Rightarrow> TraceInput" where
  "trace_input tf dir max_depth range_members =
     (let index = (case tf_index tf of None \<Rightarrow> [] | Some rows \<Rightarrow> dict_of_rows ix_node_id rows);
          edges = (case tf_graph_edges tf of
                     Some rows \<Rightarrow> rows
                   | None \<Rightarrow> (case tf_cell_edges tf of Some rows \<Rightarrow> rows | None \<Rightarrow> []));
          usable = filter usable_row edges;
          nodes = range_nodes (map ce_target usable)
      in \<lparr>ti_index = index, ti_cells = dict_of_rows (\<lambda>c. cr_sheet c @ ''!'' @ cr_addr c) (tf_cells tf),
          ti_edges = usable, ti_nodes = nodes, ti_ranges = make_ranges nodes index (tf_usage tf),
          ti_direction = dir, ti_depth = nat (max 1 (min max_depth 32)), ti_limit = nat (max 0 range_members)\<rparr>)"

definition trace_starts :: "TraceInput \<Rightarrow> string \<Rightarrow> json option \<Rightarrow> string list" where
  "trace_starts ti origin context =
     (let wanted = py_strip origin; found = resolve_origin origin (ti_index ti) context in
      if found \<noteq> [] then found
      else if map_of (ti_cells ti) wanted \<noteq> None then [wanted]
      else if has_ranges ti \<and> rg_covers (ti_ranges ti) wanted then [wanted]
      else [])"

definition stop_reason :: "TraceState \<Rightarrow> string" where
  "stop_reason ts =
     (case ts_stopped ts of
        Some reason \<Rightarrow> reason
      | None \<Rightarrow> if ts_hit_depth ts then ''depth'' else if ts_used ts = [] then ''leaf'' else ''complete'')"

definition trace_graph :: "TraceFiles \<Rightarrow> string \<Rightarrow> string \<Rightarrow> int \<Rightarrow> int \<Rightarrow> TraceDocument option" where
  "trace_graph tf origin word max_depth range_members =
     (let dir = direction_of word;
          ti = trace_input tf dir max_depth range_members;
          starts = trace_starts ti origin (tf_context tf);
          document = (\<lambda>stopped nodes edges.
            \<lparr>td_origin = origin, td_direction = dir, td_depth = ti_depth ti, td_stopped = stopped, td_nodes = nodes, td_edges = edges\<rparr>)
      in if starts = [] then Some (document ''empty'' [] [])
         else map_option (\<lambda>ts. document (stop_reason ts) (ts_nodes ts) (unique_edges {} (ts_used ts))) (trace_walk ti starts))"

section \<open>The walk visits the layers\<close>

text \<open>The nodes that following one edge, or one reader, can queue.\<close>

definition edge_nexts :: "TraceInput \<Rightarrow> CellEdge \<Rightarrow> string list" where
  "edge_nexts ti e =
     (case (if ti_direction ti = Precedents then map_of (ti_nodes ti) (ce_target e) else None) of
        Some node \<Rightarrow>
          if \<not> rg_has_cells (ti_ranges ti) node then [] else shown_members ti (rg_members (ti_ranges ti) node)
      | None \<Rightarrow>
          let nxt = (if ti_direction ti = Precedents then ce_target e else ce_source e) in
          if Option.bind (map_of (ti_index ti) nxt) ix_node_type = Some ''empty'' then [] else [nxt])"

definition follows :: "TraceInput \<Rightarrow> string \<Rightarrow> nat \<Rightarrow> string list" where
  "follows ti n level =
     (if stops_at ti n level \<or> level \<ge> ti_depth ti then []
      else concat (map (edge_nexts ti) (outgoing ti n)) @ map snd (trace_readers ti n))"

definition walk_of :: "TraceState \<Rightarrow> string Walk" where
  "walk_of ts = \<lparr>wk_queue = ts_queue ts, wk_seen = ts_seen ts, wk_out = map (\<lambda>n. (tn_node_id n, tn_depth n)) (ts_nodes ts)\<rparr>"

abbreviation unseen :: "string set \<Rightarrow> nat \<Rightarrow> string list \<Rightarrow> (string \<times> nat) list" where
  "unseen seen level ns \<equiv> map (\<lambda>m. (m, Suc level)) (filter (\<lambda>m. m \<notin> seen) ns)"

lemma fold_enqueue_queue: "fst (fold (enqueue_next seen level) ns st) = fst st @ unseen seen level ns"
  by (induction ns arbitrary: st) (auto simp: enqueue_next_def split: prod.split)

lemma enqueue_queue: "fst (enqueue_next seen level n st) = fst st @ unseen seen level [n]"
  using fold_enqueue_queue [of seen level "[n]" st] by simp

lemma follow_edge_queue: "fst (snd (follow_edge ti seen level e fan)) = fst (snd fan) @ unseen seen level (edge_nexts ti e)"
  by (auto simp: follow_edge_def edge_nexts_def Let_def fold_enqueue_queue enqueue_queue split: prod.split option.split)

lemma follow_edges_queue:
  "fst (snd (fold (follow_edge ti seen level) es fan)) = fst (snd fan) @ unseen seen level (concat (map (edge_nexts ti) es))"
  by (induction es arbitrary: fan) (simp_all add: follow_edge_queue)

lemma follow_reader_queue: "fst (snd (follow_reader ti current seen level er fan)) = fst (snd fan) @ unseen seen level [snd er]"
  by (cases er; cases fan) (simp add: follow_reader_def enqueue_queue split: prod.split)

lemma follow_readers_queue:
  "fst (snd (fold (follow_reader ti current seen level) ers fan)) = fst (snd fan) @ unseen seen level (map snd ers)"
  by (induction ers arbitrary: fan) (simp_all add: follow_reader_queue)

lemma make_node_simps [simp]: "tn_node_id (make_node n c m l) = n" "tn_depth (make_node n c m l) = l"
  by (simp_all add: make_node_def)

lemma trace_step_walk: "walk_of (trace_step ti ts) = walk_step (follows ti) (walk_of ts)"
proof (cases "ts_queue ts")
  case Nil
  then show ?thesis by (simp add: trace_step_def walk_step_def walk_of_def)
next
  case (Cons head rest)
  obtain current level where head: "head = (current, level)" by (cases head)
  show ?thesis
  proof (cases "current \<in> ts_seen ts")
    case True
    with Cons head show ?thesis by (simp add: trace_step_def walk_step_def walk_of_def)
  next
    case False
    let ?seen = "insert current (ts_seen ts)"
    obtain used emitted queue stopped where f:
      "fold (follow_reader ti current ?seen level) (trace_readers ti current)
         (fold (follow_edge ti ?seen level) (outgoing ti current) ((ts_used ts, {}), (rest, ts_stopped ts))) = ((used, emitted), (queue, stopped))"
      by (metis prod.exhaust)
    then have "queue = fst (snd (fold (follow_reader ti current ?seen level) (trace_readers ti current)
         (fold (follow_edge ti ?seen level) (outgoing ti current) ((ts_used ts, {}), (rest, ts_stopped ts)))))" by simp
    then have q: "queue = rest @ unseen ?seen level (concat (map (edge_nexts ti) (outgoing ti current)) @ map snd (trace_readers ti current))"
      unfolding follow_readers_queue follow_edges_queue by simp
    show ?thesis
      using Cons head False f q
      by (auto simp: trace_step_def walk_step_def walk_of_def follows_def Let_def)
  qed
qed

interpretation trace_levels: level_walk "follows ti" "ti_depth ti" for ti
  by unfold_locales (simp add: follows_def)

lemma trace_walk_levels: "map_option walk_of (trace_walk ti starts) = level_walk_from (follows ti) starts"
proof -
  have "walk_of (trace_start starts) = walk_start starts" by (simp add: walk_of_def trace_start_def walk_start_def)
  then show ?thesis unfolding trace_walk_def level_walk_from_def
    by (subst while_option_commute [where f = walk_of and b' = "\<lambda>w. wk_queue w \<noteq> []" and c' = "walk_step (follows ti)"])
      (simp_all add: trace_step_walk, simp add: walk_of_def)
qed

lemma trace_walk_ends: "\<exists>ts. trace_walk ti starts = Some ts"
  using trace_levels.walk_ends [of ti starts] trace_walk_levels [of ti starts] by (metis map_option_eq_Some)

lemma trace_walk_layers:
  assumes "trace_walk ti starts = Some ts"
  shows "(\<lambda>n. (tn_node_id n, tn_depth n)) ` set (ts_nodes ts) = {(n, l). l \<le> ti_depth ti \<and> n \<in> layer (follows ti) (set starts) l}
    \<and> distinct (map tn_node_id (ts_nodes ts)) \<and> sorted (map tn_depth (ts_nodes ts))"
proof -
  have "level_walk_from (follows ti) starts = Some (walk_of ts)" using trace_walk_levels [of ti starts] assms by simp
  from trace_levels.walk_layers [OF this] show ?thesis by (simp add: walk_of_def comp_def)
qed

abbreviation edge_key :: "TraceEdge \<Rightarrow> string \<times> string" where
  "edge_key e \<equiv> (te_source e, te_target e)"

lemma unique_edges_keys: "edge_key ` set (unique_edges seen es) = edge_key ` set es - seen \<and> distinct (map edge_key (unique_edges seen es))"
  by (induction seen es rule: unique_edges.induct) (auto simp: image_iff)

text \<open>
  C4. A trace always returns a document, whatever cycles the graph has and whatever depth is asked
  for. Its nodes are those reached from the origin within the depth, each once and at its
  smallest distance: level 0 holds the origins, and a level holds what the graph edges, the
  members of a range (up to the limit) or the readers of a covering range lead to from the level
  before and no earlier level holds; input cells are not followed further. Nodes come in the
  order of their level, and no two edges of the document join the same pair.
\<close>

theorem trace_visits_layers:
  "\<exists>doc. trace_graph tf origin word max_depth range_members = Some doc
     \<and> (\<lambda>n. (tn_node_id n, tn_depth n)) ` set (td_nodes doc)
       = (let ti = trace_input tf (direction_of word) max_depth range_members
          in {(n, l). l \<le> td_depth doc \<and> n \<in> layer (follows ti) (set (trace_starts ti origin (tf_context tf))) l})
     \<and> distinct (map tn_node_id (td_nodes doc)) \<and> sorted (map tn_depth (td_nodes doc))
     \<and> distinct (map edge_key (td_edges doc)) \<and> 1 \<le> td_depth doc \<and> td_depth doc \<le> 32"
proof -
  define ti where "ti = trace_input tf (direction_of word) max_depth range_members"
  define starts where "starts = trace_starts ti origin (tf_context tf)"
  have depth: "1 \<le> ti_depth ti" "ti_depth ti \<le> 32" by (auto simp: ti_def trace_input_def Let_def)
  show ?thesis
  proof (cases "starts = []")
    case True
    have "layer (follows ti) {} l = {}" for l by (rule layer_empty [of _ _ 0]) (simp_all add: levels.simps)
    with True depth show ?thesis
      by (simp add: trace_graph_def Let_def ti_def [symmetric] starts_def [symmetric])
  next
    case False
    obtain ts where ts: "trace_walk ti starts = Some ts" using trace_walk_ends by blast
    from trace_walk_layers [OF ts] False ts depth unique_edges_keys [of "{}" "ts_used ts"] show ?thesis
      by (simp add: trace_graph_def Let_def ti_def [symmetric] starts_def [symmetric])
  qed
qed

text \<open>A cycle of two cells with an input beside it.\<close>

definition plain_ref :: "string \<Rightarrow> string \<Rightarrow> CellEdge" where
  "plain_ref source target =
     \<lparr>ce_source = source, ce_target = target, ce_kind = ''ref'', ce_unresolved = False, ce_truncated = False, ce_dangling = False,
      ce_dangling_reason = None, ce_status = None, ce_reason = None, ce_evidence = None, ce_range_ref = None, ce_abs_col = None,
      ce_abs_row = None, ce_abs_col_end = None, ce_abs_row_end = None, ce_named = False, ce_col_offset = None, ce_period_lag = None\<rparr>"

definition small_trace :: TraceFiles where
  "small_trace =
     \<lparr>tf_cells = map (\<lambda>a. \<lparr>cr_sheet = ''S'', cr_addr = a, cr_formula_raw = None, cr_formula_template = None, cr_cached_value = None\<rparr>)
        [''A1'', ''B1'', ''C1''],
      tf_index = None, tf_graph_edges = None,
      tf_cell_edges = Some [plain_ref ''S!A1'' ''S!B1'', plain_ref ''S!A1'' ''S!C1'', plain_ref ''S!B1'' ''S!A1'', plain_ref ''S!A1'' ''S!B1''],
      tf_context = None, tf_usage = \<lparr>rows_by_col = [], canonical = []\<rparr>\<rparr>"

lemma small_trace_document:
  "map_option (\<lambda>doc. (td_stopped doc, map (\<lambda>n. (tn_node_id n, tn_depth n)) (td_nodes doc), map edge_key (td_edges doc)))
     (trace_graph small_trace ''S!A1'' ''precedents'' 8 0)
   = Some (''cycle'', [(''S!A1'', 0), (''S!B1'', 1), (''S!C1'', 1)], [(''S!A1'', ''S!B1''), (''S!A1'', ''S!C1''), (''S!B1'', ''S!A1'')])"
  by code_simp

end
