(* ===== verification/Op_Runs.thy ===== *)
theory Op_Runs
  imports Main
begin

text \<open>
  Sequences of operations on a shared state. Several threads call the operations of one object
  under its lock, so an execution is an interleaving: a list of operations applied in order. The
  locale states the contract of a progress order on states that every operation respects, and
  what follows for every interleaving.
\<close>

definition exec_all :: "('op \<Rightarrow> 's \<Rightarrow> 's) \<Rightarrow> 'op list \<Rightarrow> 's \<Rightarrow> 's" where
  "exec_all exec ops s = fold exec ops s"

lemma exec_all_simps [simp]:
  "exec_all exec [] s = s"
  "exec_all exec (op # ops) s = exec_all exec ops (exec op s)"
  "exec_all exec (ops @ ops') s = exec_all exec ops' (exec_all exec ops s)"
  by (simp_all add: exec_all_def)

inductive reaches :: "('op \<Rightarrow> 's \<Rightarrow> 's) \<Rightarrow> 's \<Rightarrow> 's \<Rightarrow> bool"
  for exec where
  start: "reaches exec s s"
| step: "reaches exec s t \<Longrightarrow> reaches exec s (exec op t)"

lemma reaches_exec_all: "reaches exec s t \<longleftrightarrow> (\<exists>ops. t = exec_all exec ops s)"
proof
  assume "reaches exec s t"
  then show "\<exists>ops. t = exec_all exec ops s"
  proof induction
    case (start s)
    show ?case by (rule exI [of _ "[]"]) simp
  next
    case (step s t op)
    then obtain ops where "t = exec_all exec ops s" by blast
    then show ?case by (intro exI [of _ "ops @ [op]"]) simp
  qed
next
  assume "\<exists>ops. t = exec_all exec ops s"
  then obtain ops where t: "t = exec_all exec ops s" by blast
  show "reaches exec s t" unfolding t
    by (induction ops rule: rev_induct) (auto intro: reaches.intros)
qed

locale progress_order =
  fixes exec :: "'op \<Rightarrow> 's \<Rightarrow> 's"
    and le :: "'s \<Rightarrow> 's \<Rightarrow> bool"
  assumes le_refl: "le s s"
    and le_trans: "le s t \<Longrightarrow> le t u \<Longrightarrow> le s u"
    and exec_le: "le s (exec op s)"
begin

lemma run_le: "le s (exec_all exec ops s)"
  by (induction ops arbitrary: s) (auto intro: le_refl le_trans [OF exec_le])

lemma reaches_le: "reaches exec s t \<Longrightarrow> le s t"
  unfolding reaches_exec_all using run_le by blast

text \<open>A property that no operation can undo holds from the first state that has it on.\<close>

lemma run_keeps: "P s \<Longrightarrow> (\<And>t u. P t \<Longrightarrow> le t u \<Longrightarrow> P u) \<Longrightarrow> P (exec_all exec ops s)"
  using run_le by blast

end

locale kept_invariant =
  fixes exec :: "'op \<Rightarrow> 's \<Rightarrow> 's"
    and inv :: "'s \<Rightarrow> bool"
  assumes exec_inv: "inv s \<Longrightarrow> inv (exec op s)"
begin

lemma run_inv: "inv s \<Longrightarrow> inv (exec_all exec ops s)"
  by (induction ops arbitrary: s) (simp_all add: exec_inv)

lemma reaches_inv: "reaches exec s t \<Longrightarrow> inv s \<Longrightarrow> inv t"
  unfolding reaches_exec_all using run_inv by blast

end

end
