(* ===== verification/Job_Bus.thy ===== *)
theory Job_Bus
  imports Op_Runs
begin

text \<open>
  The in-process job bus of \<open>src/finance_context/adapters/memory_bus.py\<close>: one live record per
  job with a run generation, guarded updates by the threads that hold a generation, and the
  per-job progress handle. Every method body runs under the bus lock, so an operation is one
  atomic step on the map of live records.
\<close>

section \<open>Records and operations\<close>

record JobRecord =
  jr_job_id :: string
  jr_status :: string
  jr_stage :: string
  jr_error :: "string option"
  jr_cancel :: bool
  jr_generation :: int

definition new_record :: "string \<Rightarrow> int \<Rightarrow> JobRecord" where
  "new_record job_id generation =
     \<lparr>jr_job_id = job_id, jr_status = ''queued'', jr_stage = ''queued'', jr_error = None, jr_cancel = False,
      jr_generation = generation\<rparr>"

type_synonym MemoryJobBus = "string \<Rightarrow> JobRecord option"

definition live :: "JobRecord \<Rightarrow> bool" where
  "live rec \<longleftrightarrow> jr_status rec = ''queued'' \<or> jr_status rec = ''running''"

definition bus_enqueue :: "string \<Rightarrow> int \<Rightarrow> MemoryJobBus \<Rightarrow> bool \<times> MemoryJobBus" where
  "bus_enqueue job_id minimum_generation bus =
     (if (case bus job_id of Some rec \<Rightarrow> live rec | None \<Rightarrow> False) then (False, bus)
      else
        let nxt = (case bus job_id of None \<Rightarrow> 1 | Some rec \<Rightarrow> jr_generation rec + 1);
            floor_gen = (if minimum_generation > 0 then minimum_generation + 1 else 1);
            generation = (if nxt > floor_gen then nxt else floor_gen)
        in (True, bus(job_id \<mapsto> new_record job_id generation)))"

definition bus_get :: "string \<Rightarrow> MemoryJobBus \<Rightarrow> JobRecord option" where
  "bus_get job_id bus = bus job_id"

definition current_generation :: "string \<Rightarrow> MemoryJobBus \<Rightarrow> int" where
  "current_generation job_id bus = (case bus job_id of Some rec \<Rightarrow> jr_generation rec | None \<Rightarrow> 0)"

definition bus_owns :: "string \<Rightarrow> int \<Rightarrow> MemoryJobBus \<Rightarrow> bool" where
  "bus_owns job_id generation bus = (case bus job_id of Some rec \<Rightarrow> jr_generation rec = generation | None \<Rightarrow> False)"

definition is_cancelled :: "string \<Rightarrow> int \<Rightarrow> MemoryJobBus \<Rightarrow> bool" where
  "is_cancelled job_id generation bus =
     (case bus job_id of
        None \<Rightarrow> True
      | Some rec \<Rightarrow> if jr_generation rec \<noteq> generation then True else jr_cancel rec)"

text \<open>\<open>generation or 0\<close>.\<close>

definition or_zero :: "int option \<Rightarrow> int" where
  "or_zero generation = (case generation of None \<Rightarrow> 0 | Some g \<Rightarrow> g)"

definition foreign :: "int option \<Rightarrow> JobRecord \<Rightarrow> bool" where
  "foreign generation rec \<longleftrightarrow> (case generation of None \<Rightarrow> False | Some g \<Rightarrow> jr_generation rec \<noteq> g)"

definition set_progress :: "string \<Rightarrow> string \<Rightarrow> int option \<Rightarrow> MemoryJobBus \<Rightarrow> MemoryJobBus" where
  "set_progress job_id stage generation bus =
     (let rec = (case bus job_id of
                   Some rec \<Rightarrow> rec
                 | None \<Rightarrow> (new_record job_id (or_zero generation))\<lparr>jr_status := ''running''\<rparr>);
          bus = bus(job_id \<mapsto> rec)
      in if foreign generation rec then bus
         else if jr_cancel rec \<or> \<not> live rec then bus
         else bus(job_id \<mapsto> rec\<lparr>jr_stage := stage, jr_status := ''running''\<rparr>))"

definition bus_abandon :: "string \<Rightarrow> int \<Rightarrow> string \<Rightarrow> MemoryJobBus \<Rightarrow> bool \<times> MemoryJobBus" where
  "bus_abandon job_id generation error bus =
     (case bus job_id of
        None \<Rightarrow> (False, bus)
      | Some rec \<Rightarrow>
          if jr_generation rec \<noteq> generation then (False, bus)
          else if \<not> live rec then (False, bus)
          else (True, bus(job_id \<mapsto> rec\<lparr>jr_cancel := True, jr_status := ''failed'', jr_stage := ''failed'', jr_error := Some error\<rparr>)))"

definition bus_expire :: "string \<Rightarrow> int \<Rightarrow> MemoryJobBus \<Rightarrow> bool \<times> MemoryJobBus" where
  "bus_expire job_id generation bus = bus_abandon job_id generation ''TimeoutError'' bus"

definition set_terminal ::
  "string \<Rightarrow> string \<Rightarrow> string \<Rightarrow> string option \<Rightarrow> int option \<Rightarrow> MemoryJobBus \<Rightarrow> MemoryJobBus" where
  "set_terminal job_id status stage error generation bus =
     (let rec = (case bus job_id of Some rec \<Rightarrow> rec | None \<Rightarrow> new_record job_id (or_zero generation));
          bus = bus(job_id \<mapsto> rec)
      in if foreign generation rec then bus
         else if \<not> live rec then bus
         else bus(job_id \<mapsto> rec\<lparr>jr_status := status, jr_stage := stage, jr_error := error\<rparr>))"

record JobProgress =
  jp_job_id :: string
  jp_generation :: int

definition jp_progress :: "JobProgress \<Rightarrow> string \<Rightarrow> MemoryJobBus \<Rightarrow> MemoryJobBus" where
  "jp_progress handle stage bus = set_progress (jp_job_id handle) stage (Some (jp_generation handle)) bus"

definition jp_cancelled :: "JobProgress \<Rightarrow> MemoryJobBus \<Rightarrow> bool" where
  "jp_cancelled handle bus = is_cancelled (jp_job_id handle) (jp_generation handle) bus"

section \<open>Interleavings of operations\<close>

datatype bus_op =
    Enqueue string int
  | Progress string string "int option"
  | Abandon string int string
  | Expire string int
  | Terminal string string string "string option" "int option"

fun bus_exec :: "bus_op \<Rightarrow> MemoryJobBus \<Rightarrow> MemoryJobBus" where
  "bus_exec (Enqueue j m) bus = snd (bus_enqueue j m bus)"
| "bus_exec (Progress j s g) bus = set_progress j s g bus"
| "bus_exec (Abandon j g e) bus = snd (bus_abandon j g e bus)"
| "bus_exec (Expire j g) bus = snd (bus_expire j g bus)"
| "bus_exec (Terminal j st sg e g) bus = set_terminal j st sg e g bus"

abbreviation bus_run :: "bus_op list \<Rightarrow> MemoryJobBus \<Rightarrow> MemoryJobBus" where
  "bus_run \<equiv> exec_all bus_exec"

lemmas bus_ops = bus_enqueue_def set_progress_def bus_abandon_def bus_expire_def set_terminal_def

subsection \<open>The order a job moves in\<close>

text \<open>
  The record of a job stays, changes while its run is live, or belongs to a later generation; a
  cancel flag set in a generation stays set in it.
\<close>

definition advances :: "JobRecord \<Rightarrow> JobRecord \<Rightarrow> bool" where
  "advances r r' \<longleftrightarrow> r' = r \<or> jr_generation r < jr_generation r'
     \<or> jr_generation r = jr_generation r' \<and> live r \<and> (jr_cancel r \<longrightarrow> jr_cancel r')"

definition job_le :: "string \<Rightarrow> MemoryJobBus \<Rightarrow> MemoryJobBus \<Rightarrow> bool" where
  "job_le job_id bus bus' \<longleftrightarrow> (\<forall>r. bus job_id = Some r \<longrightarrow> (\<exists>r'. bus' job_id = Some r' \<and> advances r r'))"

lemma advances_refl [simp]: "advances r r"
  by (simp add: advances_def)

lemma advances_trans: "advances r s \<Longrightarrow> advances s t \<Longrightarrow> advances r t"
  by (auto simp: advances_def)

lemma new_record_simps [simp]:
  "jr_job_id (new_record j g) = j" "jr_status (new_record j g) = ''queued''" "jr_cancel (new_record j g) = False"
  "jr_generation (new_record j g) = g" "live (new_record j g)"
  by (simp_all add: new_record_def live_def)

lemma enqueue_job_le: "job_le j bus (snd (bus_enqueue j' m bus))"
  by (auto simp: job_le_def bus_enqueue_def Let_def advances_def split: option.split)

lemma progress_job_le: "job_le j bus (set_progress j' s g bus)"
  by (auto simp: job_le_def set_progress_def Let_def advances_def split: option.split)

lemma abandon_job_le: "job_le j bus (snd (bus_abandon j' g e bus))"
  by (auto simp: job_le_def bus_abandon_def advances_def split: option.split)

lemma terminal_job_le: "job_le j bus (set_terminal j' st sg e g bus)"
  by (auto simp: job_le_def set_terminal_def Let_def advances_def split: option.split)

lemma exec_job_le: "job_le j bus (bus_exec op bus)"
  by (cases op) (simp_all add: enqueue_job_le progress_job_le abandon_job_le terminal_job_le bus_expire_def)

interpretation job_progress: progress_order bus_exec "job_le j" for j
proof
  show "job_le j s s" for s by (auto simp: job_le_def)
  show "job_le j s u" if "job_le j s t" "job_le j t u" for s t u
    using that advances_trans unfolding job_le_def by meson
  show "job_le j s (bus_exec op s)" for s op by (rule exec_job_le)
qed

subsection \<open>Well-formed buses\<close>

text \<open>
  The record of a job carries the job's id, and only a failed record carries the cancel flag.
\<close>

definition record_ok :: "string \<Rightarrow> JobRecord \<Rightarrow> bool" where
  "record_ok j r \<longleftrightarrow> jr_job_id r = j \<and> (jr_cancel r \<longrightarrow> jr_status r = ''failed'')"

definition bus_ok :: "MemoryJobBus \<Rightarrow> bool" where
  "bus_ok bus \<longleftrightarrow> (\<forall>j r. bus j = Some r \<longrightarrow> record_ok j r)"

lemma bus_ok_update: "bus_ok bus \<Longrightarrow> record_ok j r \<Longrightarrow> bus_ok (bus(j \<mapsto> r))"
  by (simp add: bus_ok_def)

lemma cancel_not_live: "record_ok j r \<Longrightarrow> jr_cancel r \<Longrightarrow> \<not> live r"
  by (simp add: record_ok_def live_def)

lemma exec_bus_ok: "bus_ok bus \<Longrightarrow> bus_ok (bus_exec op bus)"
proof (cases op)
  case (Enqueue j m)
  assume "bus_ok bus"
  then show ?thesis by (auto simp: Enqueue bus_enqueue_def Let_def record_ok_def intro!: bus_ok_update split: option.split)
next
  case (Progress j s g)
  assume "bus_ok bus"
  then show ?thesis
    by (auto simp: Progress set_progress_def Let_def intro!: bus_ok_update split: option.split) (auto simp: bus_ok_def record_ok_def)
next
  case (Abandon j g e)
  assume "bus_ok bus"
  then show ?thesis
    by (auto simp: Abandon bus_abandon_def intro!: bus_ok_update split: option.split) (auto simp: bus_ok_def record_ok_def)
next
  case (Expire j g)
  assume "bus_ok bus"
  then show ?thesis
    by (auto simp: Expire bus_expire_def bus_abandon_def intro!: bus_ok_update split: option.split) (auto simp: bus_ok_def record_ok_def)
next
  case (Terminal j st sg e g)
  assume ok: "bus_ok bus"
  define r where "r = (case bus j of Some r \<Rightarrow> r | None \<Rightarrow> new_record j (or_zero g))"
  have "record_ok j r" using ok by (auto simp: r_def bus_ok_def record_ok_def split: option.split)
  moreover from this have "live r \<Longrightarrow> record_ok j (r\<lparr>jr_status := st, jr_stage := sg, jr_error := e\<rparr>)"
    using cancel_not_live by (auto simp: record_ok_def)
  ultimately show ?thesis using ok by (auto simp: Terminal set_terminal_def Let_def r_def [symmetric] intro!: bus_ok_update)
qed

interpretation bus_states: kept_invariant bus_exec bus_ok
  by unfold_locales (rule exec_bus_ok)

lemma empty_bus_ok: "bus_ok Map.empty"
  by (simp add: bus_ok_def)

section \<open>One run per job\<close>

text \<open>The operations that may end the run of a job at a generation.\<close>

fun finishes :: "string \<Rightarrow> int \<Rightarrow> bus_op \<Rightarrow> bool" where
  "finishes j g (Abandon j' g' e) \<longleftrightarrow> j' = j \<and> g' = g"
| "finishes j g (Expire j' g') \<longleftrightarrow> j' = j \<and> g' = g"
| "finishes j g (Terminal j' st sg e g') \<longleftrightarrow> j' = j \<and> (g' = None \<or> g' = Some g)"
| "finishes j g _ \<longleftrightarrow> False"

definition runs_at :: "string \<Rightarrow> int \<Rightarrow> MemoryJobBus \<Rightarrow> bool" where
  "runs_at j g bus \<longleftrightarrow> (\<exists>r. bus j = Some r \<and> live r \<and> jr_generation r = g)"

lemma exec_runs_at: "runs_at j g bus \<Longrightarrow> \<not> finishes j g op \<Longrightarrow> runs_at j g (bus_exec op bus)"
  by (cases op) (auto simp: runs_at_def bus_ops Let_def foreign_def live_def split: option.split)

lemma run_runs_at: "runs_at j g bus \<Longrightarrow> list_all (\<lambda>op. \<not> finishes j g op) ops \<Longrightarrow> runs_at j g (bus_run ops bus)"
  by (induction ops arbitrary: bus) (auto intro: exec_runs_at)

lemma runs_at_rejects: "runs_at j g bus \<Longrightarrow> bus_enqueue j m bus = (False, bus)"
  by (auto simp: runs_at_def bus_enqueue_def)

lemma enqueue_accepted:
  assumes "fst (bus_enqueue j m bus)"
  shows "runs_at j (current_generation j (snd (bus_enqueue j m bus))) (snd (bus_enqueue j m bus))"
    "m < current_generation j (snd (bus_enqueue j m bus))"
    "current_generation j bus < current_generation j (snd (bus_enqueue j m bus))"
  using assms by (auto simp: bus_enqueue_def runs_at_def current_generation_def Let_def split: option.splits if_splits)

text \<open>
  C31. One run per job: when the bus accepts a run, its generation is above the stored one and
  above every earlier generation of the job, and whatever operations other threads interleave,
  as long as none of them ends this run, the run keeps the job and every further attempt to
  enqueue the job is refused and leaves the bus alone.
\<close>

theorem one_run_per_job:
  assumes "fst (bus_enqueue j m bus)" and "bus' = snd (bus_enqueue j m bus)" and "g = current_generation j bus'"
    and "list_all (\<lambda>op. \<not> finishes j g op) ops"
  shows "m < g \<and> current_generation j bus < g \<and> bus_owns j g (bus_run ops bus')
    \<and> bus_enqueue j m' (bus_run ops bus') = (False, bus_run ops bus')"
proof -
  note acc = enqueue_accepted [OF assms(1)]
  have "runs_at j g (bus_run ops bus')" using acc(1) assms(2-4) by (intro run_runs_at) simp_all
  then show ?thesis using acc(2,3) assms(2,3) runs_at_rejects by (auto simp: runs_at_def bus_owns_def)
qed

theorem one_run_per_job_witness:
  "fst (bus_enqueue ''b1'' 6 Map.empty)
    \<and> bus_enqueue ''b1'' 0 (bus_run [Progress ''b1'' ''parse'' (Some 7), Enqueue ''b2'' 0, Abandon ''b1'' 6 ''x''] (snd (bus_enqueue ''b1'' 6 Map.empty)))
      = (False, bus_run [Progress ''b1'' ''parse'' (Some 7), Enqueue ''b2'' 0, Abandon ''b1'' 6 ''x''] (snd (bus_enqueue ''b1'' 6 Map.empty)))"
proof -
  have a: "fst (bus_enqueue ''b1'' 6 Map.empty)" by (simp add: bus_enqueue_def)
  have g: "7 = current_generation ''b1'' (snd (bus_enqueue ''b1'' 6 Map.empty))"
    by (simp add: bus_enqueue_def current_generation_def)
  from one_run_per_job [OF a refl g, of "[Progress ''b1'' ''parse'' (Some 7), Enqueue ''b2'' 0, Abandon ''b1'' 6 ''x'']" 0] a
  show ?thesis by simp
qed

section \<open>A finished run stays finished\<close>

lemma finished_final:
  assumes "bus j = Some r" "\<not> live r"
  shows "\<exists>r'. bus_run ops bus j = Some r' \<and> (r' = r \<or> jr_generation r < jr_generation r')"
  using job_progress.run_le [of j bus ops] assms by (auto simp: job_le_def advances_def)

lemma abandoned_record:
  assumes "fst (bus_abandon j g e bus)"
  shows "\<exists>r. snd (bus_abandon j g e bus) j = Some r \<and> \<not> live r \<and> jr_generation r = g \<and> jr_cancel r"
  using assms by (auto simp: bus_abandon_def live_def split: option.splits if_splits)

lemma foreign_progress_ignored: "is_cancelled j g bus \<Longrightarrow> bus j \<noteq> None \<Longrightarrow> set_progress j s (Some g) bus = bus"
  by (auto simp: is_cancelled_def set_progress_def foreign_def Let_def fun_upd_idem split: if_splits)

text \<open>
  C38. A run that was abandoned or has timed out is over for good: its generation is refused a
  second time, its worker reads the cancellation at every later moment, no progress it still
  reports changes the bus, and the job can be enqueued again at once. This holds after every
  interleaving of further operations.
\<close>

theorem abandoned_run_is_over:
  assumes a: "fst (bus_abandon j g e bus)" and b: "bus' = snd (bus_abandon j g e bus)"
  shows "fst (bus_enqueue j m bus')
    \<and> jp_cancelled \<lparr>jp_job_id = j, jp_generation = g\<rparr> (bus_run ops bus')
    \<and> jp_progress \<lparr>jp_job_id = j, jp_generation = g\<rparr> stage (bus_run ops bus') = bus_run ops bus'
    \<and> bus_expire j g (bus_run ops bus') = (False, bus_run ops bus')"
proof -
  obtain r where r: "bus' j = Some r" "\<not> live r" "jr_generation r = g" "jr_cancel r"
    using abandoned_record [OF a] b by auto
  obtain r' where r': "bus_run ops bus' j = Some r'" "r' = r \<or> g < jr_generation r'"
    using finished_final [of bus' j r ops] r(1-3) by auto
  have c: "is_cancelled j g (bus_run ops bus')" using r r' by (auto simp: is_cancelled_def)
  moreover have "set_progress j stage (Some g) (bus_run ops bus') = bus_run ops bus'"
    using foreign_progress_ignored [OF c] r' by simp
  moreover have "fst (bus_enqueue j m bus')" using r by (simp add: bus_enqueue_def Let_def)
  moreover have "bus_expire j g (bus_run ops bus') = (False, bus_run ops bus')"
    using r r' by (auto simp: bus_expire_def bus_abandon_def)
  ultimately show ?thesis by (simp add: jp_cancelled_def jp_progress_def)
qed

theorem abandoned_run_is_over_witness:
  "fst (bus_abandon ''b1'' 1 ''stopped'' (snd (bus_enqueue ''b1'' 0 Map.empty)))
    \<and> jp_cancelled \<lparr>jp_job_id = ''b1'', jp_generation = 1\<rparr>
        (bus_run [Enqueue ''b1'' 0, Progress ''b1'' ''parse'' (Some 2)]
          (snd (bus_abandon ''b1'' 1 ''stopped'' (snd (bus_enqueue ''b1'' 0 Map.empty)))))"
proof -
  have a: "fst (bus_abandon ''b1'' 1 ''stopped'' (snd (bus_enqueue ''b1'' 0 Map.empty)))"
    by (simp add: bus_enqueue_def bus_abandon_def)
  from abandoned_run_is_over [OF a refl, of 0 "[Enqueue ''b1'' 0, Progress ''b1'' ''parse'' (Some 2)]"] a
  show ?thesis by simp
qed

end
