(* ===== verification/Archive_Guard.thy ===== *)
theory Archive_Guard
  imports Prelude "HOL-Library.Word"
begin

text \<open>
  The guards on an uploaded workbook: \<open>src/finance_context/excel/ole2.py\<close> (telling a legacy
  or encrypted compound file from a zip) and \<open>excel/zip_guard.py\<close> (limits on the parts of an
  archive). A file is its list of bytes. The two loops over sector chains run at most as often
  as the file has sectors, whatever the header counts say. What \<open>zipfile\<close> makes of the bytes
  of an archive is a parameter: the list of its entries, or nothing for a bad zip.
\<close>

type_synonym bytes = "8 word list"

text \<open>Little-endian fields of \<open>struct.unpack_from\<close>.\<close>

definition u16 :: "bytes \<Rightarrow> nat \<Rightarrow> nat" where
  "u16 data i = unat (data ! i) + 256 * unat (data ! (i + 1))"

definition u32 :: "bytes \<Rightarrow> nat \<Rightarrow> nat" where
  "u32 data i = u16 data i + 65536 * u16 data (i + 2)"

definition u32s :: "nat \<Rightarrow> bytes \<Rightarrow> nat \<Rightarrow> nat list" where
  "u32s count data i = map (\<lambda>k. u32 data (i + 4 * k)) [0..<count]"

section \<open>Compound files\<close>

definition OLE2_SIGNATURE :: bytes where
  "OLE2_SIGNATURE = [0xD0, 0xCF, 0x11, 0xE0, 0xA1, 0xB1, 0x1A, 0xE1]"

definition HEADER :: nat where "HEADER = 512"

definition DIR_ENTRY :: nat where "DIR_ENTRY = 128"

definition MAX_SECTOR :: nat where "MAX_SECTOR = 0xFFFFFFFA"

definition END_OF_CHAIN :: nat where "END_OF_CHAIN = 0xFFFFFFFE"

definition is_ole2 :: "bytes \<Rightarrow> bool" where
  "is_ole2 head = (take (length OLE2_SIGNATURE) head = OLE2_SIGNATURE)"

definition is_ole2_file :: "bytes \<Rightarrow> bool" where
  "is_ole2_file file_bytes = is_ole2 (take (length OLE2_SIGNATURE) file_bytes)"

text \<open>
  The sector reader. \<open>sec_fat\<close> memoises the unpacked FAT sectors.
\<close>

record Sectors =
  sec_file :: bytes
  sec_size :: nat
  sec_count :: nat
  sec_fat :: "nat \<Rightarrow> nat list option"

definition make_sectors :: "bytes \<Rightarrow> nat \<Rightarrow> Sectors" where
  "make_sectors file_bytes sz =
     \<lparr>sec_file = file_bytes, sec_size = sz, sec_count = length file_bytes div sz, sec_fat = Map.empty\<rparr>"

definition sec_read :: "Sectors \<Rightarrow> nat \<Rightarrow> bytes result" where
  "sec_read r sector =
     (if sector > MAX_SECTOR \<or> (sector + 2) * sec_size r > length (sec_file r) then Inl (ValueError ''sector out of range'')
      else
        let data = take (sec_size r) (drop ((sector + 1) * sec_size r) (sec_file r))
        in if length data \<noteq> sec_size r then Inl (ValueError ''short sector'') else Inr data)"

definition sec_next :: "Sectors \<Rightarrow> nat \<Rightarrow> nat list \<Rightarrow> (nat \<times> Sectors) result" where
  "sec_next r sector fat_sectors =
     (let per_sector = sec_size r div 4; index = sector div per_sector in
      if index \<ge> length fat_sectors then Inl (ValueError ''sector outside the FAT'')
      else
        case sec_fat r index of
          Some entries \<Rightarrow> Inr (entries ! (sector mod per_sector), r)
        | None \<Rightarrow>
            bind_result (sec_read r (fat_sectors ! index)) (\<lambda>data.
              let entries = u32s per_sector data 0
              in Inr (entries ! (sector mod per_sector), r\<lparr>sec_fat := (sec_fat r)(index \<mapsto> entries)\<rparr>)))"

text \<open>The DIFAT loop: \<open>remaining\<close> counts down, bounded by the sectors of the file.\<close>

fun difat_loop :: "Sectors \<Rightarrow> nat \<Rightarrow> nat \<Rightarrow> nat \<Rightarrow> nat set \<Rightarrow> nat list \<Rightarrow> nat list result" where
  "difat_loop r count 0 sector seen found = Inr found"
| "difat_loop r count (Suc remaining) sector seen found =
     (if sector \<le> MAX_SECTOR \<and> length found < count then
        if sector \<in> seen then Inl (ValueError ''DIFAT chain loops'')
        else
          bind_result (sec_read r sector) (\<lambda>data.
            let values = u32s (sec_size r div 4) data 0
            in difat_loop r count remaining (last values) (insert sector seen)
                 (found @ filter (\<lambda>sid. sid \<le> MAX_SECTOR) (butlast values)))
      else Inr found)"

definition find_fat_sectors :: "bytes \<Rightarrow> Sectors \<Rightarrow> nat list result" where
  "find_fat_sectors header r =
     (let limit = length (sec_file r) div sec_size r;
          count = min (u32 header 44) limit;
          found = filter (\<lambda>sid. sid \<le> MAX_SECTOR) (u32s 109 header 76);
          sector = u32 header 68;
          remaining = min (u32 header 72) limit
      in bind_result (difat_loop r count remaining sector {} found) (\<lambda>found. Inr (take count found)))"

text \<open>
  \<open>bytes.decode("utf-16-le", errors="replace")\<close> on an even number of bytes: surrogate pairs
  are joined and a lone surrogate becomes U+FFFD.
\<close>

fun utf16 :: "nat list \<Rightarrow> nat list" where
  "utf16 [] = []"
| "utf16 (u # us) =
     (if 0xD800 \<le> u \<and> u \<le> 0xDBFF then
        (case us of
           v # vs \<Rightarrow>
             if 0xDC00 \<le> v \<and> v \<le> 0xDFFF then (0x10000 + (u - 0xD800) * 0x400 + (v - 0xDC00)) # utf16 vs
             else 0xFFFD # utf16 us
         | [] \<Rightarrow> [0xFFFD])
      else if 0xDC00 \<le> u \<and> u \<le> 0xDFFF then 0xFFFD # utf16 us
      else u # utf16 us)"

definition entry_name :: "bytes \<Rightarrow> nat list option" where
  "entry_name entry =
     (if length entry < DIR_ENTRY \<or> unat (entry ! 66) \<notin> {1, 2, 5} then None
      else
        let len = u16 entry 64
        in if \<not> (2 \<le> len \<and> len \<le> 64) \<or> len mod 2 \<noteq> 0 then None
           else Some (utf16 (map (\<lambda>k. u16 entry (2 * k)) [0..<(len - 2) div 2])))"

definition sector_names :: "bytes \<Rightarrow> nat list set" where
  "sector_names data =
     set (List.map_filter (\<lambda>k. entry_name (take DIR_ENTRY (drop (k * DIR_ENTRY) data)))
       [0..<(length data + DIR_ENTRY - 1) div DIR_ENTRY])"

fun dir_loop :: "nat list \<Rightarrow> nat \<Rightarrow> Sectors \<Rightarrow> nat \<Rightarrow> nat set \<Rightarrow> nat list set \<Rightarrow> nat list set result" where
  "dir_loop fat_sectors 0 r sector seen names = Inl (ValueError ''directory chain does not end'')"
| "dir_loop fat_sectors (Suc n) r sector seen names =
     (if sector = END_OF_CHAIN then Inr names
      else if sector > MAX_SECTOR \<or> sector \<in> seen then Inl (ValueError ''directory chain loops'')
      else
        bind_result (sec_read r sector) (\<lambda>data.
          bind_result (sec_next r sector fat_sectors) (\<lambda>(sector', r').
            dir_loop fat_sectors n r' sector' (insert sector seen) (names \<union> sector_names data))))"

definition entry_names :: "bytes \<Rightarrow> nat list set result" where
  "entry_names file_bytes =
     (let header = take HEADER file_bytes in
      if length header < HEADER \<or> \<not> is_ole2 header then Inl (ValueError ''not an OLE2 header'')
      else if u16 header 30 \<notin> {9, 12} then Inl (ValueError ''sector size'')
      else
        let r = make_sectors file_bytes (2 ^ u16 header 30)
        in bind_result (find_fat_sectors header r) (\<lambda>fat_sectors.
             dir_loop fat_sectors (sec_count r) r (u32 header 48) {} {}))"

text \<open>
  \<open>casefold\<close> on code points, as far as a comparison with the ASCII stream names can see it: the
  Latin capitals, the Kelvin sign and the long s are the characters folded to one ASCII letter,
  and the ligatures folded to several give letter pairs that no stream name holds.
\<close>

definition fold_point :: "nat \<Rightarrow> nat" where
  "fold_point c = (if 65 \<le> c \<and> c \<le> 90 then c + 32 else if c = 0x212A then 107 else if c = 0x17F then 115 else c)"

definition XLS_STREAMS :: "string list" where
  "XLS_STREAMS = [''workbook'', ''book'']"

definition ENCRYPTION_STREAMS :: "string list" where
  "ENCRYPTION_STREAMS = [''encryptioninfo'', ''encryptedpackage'']"

datatype Ole2Kind = Xls | Encrypted | Other

definition holds_stream :: "string list \<Rightarrow> nat list set \<Rightarrow> bool" where
  "holds_stream streams names = list_ex (\<lambda>stream. map of_char stream \<in> names) streams"

definition ole2_kind :: "bytes \<Rightarrow> Ole2Kind" where
  "ole2_kind file_bytes =
     (case entry_names file_bytes of
        Inl _ \<Rightarrow> Other
      | Inr found \<Rightarrow>
          let names = map fold_point ` found
          in if holds_stream ENCRYPTION_STREAMS names then Encrypted
             else if holds_stream XLS_STREAMS names then Xls
             else Other)"

section \<open>Zip archives\<close>

datatype context_error = ContextError string string

definition MAX_PART_BYTES :: int where "MAX_PART_BYTES = 512 * 1024 * 1024"

definition MAX_TOTAL_BYTES :: int where "MAX_TOTAL_BYTES = 2 * 1024 * 1024 * 1024"

definition MAX_COMPRESSION_RATIO :: int where "MAX_COMPRESSION_RATIO = 50"

definition RATIO_MIN_UNCOMPRESSED :: int where "RATIO_MIN_UNCOMPRESSED = 4 * 1024"

definition XML_MAX_COMPRESSION_RATIO :: int where "XML_MAX_COMPRESSION_RATIO = 200"

record ZipInfo =
  zi_filename :: string
  zi_file_size :: int
  zi_compress_size :: int

definition slashes :: "string \<Rightarrow> string" where
  "slashes name = map (\<lambda>c. if c = CHR 0x5C then CHR ''/'' else c) name"

fun split_on :: "char \<Rightarrow> string \<Rightarrow> string list" where
  "split_on sep [] = [[]]"
| "split_on sep (c # s) =
     (if c = sep then [] # split_on sep s
      else case split_on sep s of part # parts \<Rightarrow> (c # part) # parts | [] \<Rightarrow> [[c]])"

definition has_prefix :: "string \<Rightarrow> string \<Rightarrow> bool" where
  "has_prefix pre s = (take (length pre) s = pre)"

definition has_suffix :: "string \<Rightarrow> string \<Rightarrow> bool" where
  "has_suffix suf s = has_prefix (rev suf) (rev s)"

definition max_ratio :: "string \<Rightarrow> bool \<Rightarrow> int option" where
  "max_ratio name streaming =
     (let normalized = py_lower (slashes name) in
      if has_prefix ''xl/worksheets/'' normalized \<and> has_suffix ''.xml'' normalized
      then (if streaming then None else Some MAX_COMPRESSION_RATIO)
      else if has_prefix ''xl/'' normalized \<and> has_suffix ''.xml'' normalized then Some XML_MAX_COMPRESSION_RATIO
      else Some MAX_COMPRESSION_RATIO)"

definition check_zip_name :: "string \<Rightarrow> context_error + unit" where
  "check_zip_name name =
     (let normalized = slashes name in
      if has_prefix ''/'' normalized \<or> has_prefix [CHR 0x5C] normalized then Inl (ContextError ''zip_rejected'' ''absolute path'')
      else if ''..'' \<in> set (split_on CHR ''/'' normalized) then Inl (ContextError ''zip_rejected'' ''zip-slip'')
      else Inr ())"

text \<open>
  The quotient \<open>file_size / compressed\<close> is compared with a whole limit of at most 200. It is
  written as the product: sizes below \<open>2 ^ 29\<close> keep a quotient that is not the limit too far
  from it for the rounding of the division to reach it.
\<close>

definition check_zip_info :: "ZipInfo \<Rightarrow> int \<Rightarrow> bool \<Rightarrow> context_error + int" where
  "check_zip_info info running_total streaming =
     (case check_zip_name (zi_filename info) of
        Inl e \<Rightarrow> Inl e
      | Inr _ \<Rightarrow>
          if zi_file_size info > MAX_PART_BYTES then Inl (ContextError ''zip_rejected'' ''part too large'')
          else
            let new_total = running_total + zi_file_size info in
            if new_total > MAX_TOTAL_BYTES then Inl (ContextError ''zip_rejected'' ''archive too large'')
            else
              case max_ratio (zi_filename info) streaming of
                None \<Rightarrow> Inr new_total
              | Some limit \<Rightarrow>
                  if zi_file_size info \<ge> RATIO_MIN_UNCOMPRESSED
                     \<and> (zi_compress_size info \<le> 0 \<or> zi_file_size info \<ge> limit * zi_compress_size info)
                  then Inl (ContextError ''zip_rejected'' ''compression ratio'')
                  else Inr new_total)"

definition reject_ole2 :: "bytes \<Rightarrow> context_error + unit" where
  "reject_ole2 file_bytes =
     (if \<not> is_ole2_file file_bytes then Inr ()
      else case ole2_kind file_bytes of
        Encrypted \<Rightarrow> Inl (ContextError ''encrypted_workbook'' '''')
      | Xls \<Rightarrow> Inl (ContextError ''unsupported_media_type'' ''legacy .xls has to be converted to .xlsx'')
      | Other \<Rightarrow> Inl (ContextError ''unsupported_media_type'' ''OLE2 file is not an Excel workbook''))"

fun check_infos :: "bool \<Rightarrow> int \<Rightarrow> ZipInfo list \<Rightarrow> context_error + int" where
  "check_infos streaming so_far [] = Inr so_far"
| "check_infos streaming so_far (info # infos) =
     (case check_zip_info info so_far streaming of
        Inl e \<Rightarrow> Inl e
      | Inr so_far' \<Rightarrow> check_infos streaming so_far' infos)"

definition base_name :: "string \<Rightarrow> string" where
  "base_name name = last (split_on CHR ''/'' (slashes name))"

text \<open>\<open>content\<close> is \<open>None\<close> when the path does not exist.\<close>

definition open_xlsx_zip ::
  "(bytes \<Rightarrow> ZipInfo list option) \<Rightarrow> bool \<Rightarrow> bytes option \<Rightarrow> context_error + ZipInfo list" where
  "open_xlsx_zip zipfile streaming content =
     (case content of
        None \<Rightarrow> Inl (ContextError ''empty_file'' '''')
      | Some file_bytes \<Rightarrow>
          if file_bytes = [] then Inl (ContextError ''empty_file'' '''')
          else
            case reject_ole2 file_bytes of
              Inl e \<Rightarrow> Inl e
            | Inr _ \<Rightarrow>
                (case zipfile file_bytes of
                   None \<Rightarrow> Inl (ContextError ''zip_rejected'' ''not a zip'')
                 | Some infos \<Rightarrow>
                     let names = map (\<lambda>info. base_name (zi_filename info)) infos in
                     if ''EncryptedPackage'' \<in> set names \<or> ''EncryptionInfo'' \<in> set names
                     then Inl (ContextError ''encrypted_workbook'' '''')
                     else
                       case check_infos streaming 0 infos of
                         Inl e \<Rightarrow> Inl e
                       | Inr _ \<Rightarrow> Inr infos))"

text \<open>\<open>unpacked\<close> is the decompressed part, of which at most one byte more than the limit is read.\<close>

definition read_part :: "bytes \<Rightarrow> context_error + bytes" where
  "read_part unpacked =
     (let data = take (nat (MAX_PART_BYTES + 1)) unpacked in
      if int (length data) > MAX_PART_BYTES then Inl (ContextError ''zip_rejected'' ''part too large'') else Inr data)"

section \<open>What an accepted archive satisfies\<close>

text \<open>
  The directory an entry name leads to, relative to the place it is unpacked at: \<open>None\<close> when a
  parent step leaves it.
\<close>

fun resolve_path :: "string list \<Rightarrow> string list \<Rightarrow> string list option" where
  "resolve_path [] stack = Some stack"
| "resolve_path (part # parts) stack =
     (if part = '''' \<or> part = ''.'' then resolve_path parts stack
      else if part = ''..'' then (case stack of [] \<Rightarrow> None | _ # rest \<Rightarrow> resolve_path parts rest)
      else resolve_path parts (part # stack))"

definition stays_inside :: "string \<Rightarrow> bool" where
  "stays_inside name \<longleftrightarrow> \<not> has_prefix ''/'' (slashes name) \<and> resolve_path (split_on CHR ''/'' (slashes name)) [] \<noteq> None"

definition plain_name :: "string \<Rightarrow> bool" where
  "plain_name name \<longleftrightarrow> \<not> has_prefix ''/'' (slashes name) \<and> ''..'' \<notin> set (split_on CHR ''/'' (slashes name))"

definition ratio_ok :: "bool \<Rightarrow> ZipInfo \<Rightarrow> bool" where
  "ratio_ok streaming info \<longleftrightarrow> max_ratio (zi_filename info) streaming = None \<or> zi_file_size info < RATIO_MIN_UNCOMPRESSED
     \<or> 0 < zi_compress_size info \<and> zi_file_size info < the (max_ratio (zi_filename info) streaming) * zi_compress_size info"

definition part_ok :: "bool \<Rightarrow> ZipInfo \<Rightarrow> bool" where
  "part_ok streaming info \<longleftrightarrow> plain_name (zi_filename info) \<and> zi_file_size info \<le> MAX_PART_BYTES \<and> ratio_ok streaming info"

definition archive_size :: "ZipInfo list \<Rightarrow> int" where
  "archive_size infos = sum_list (map zi_file_size infos)"

definition hides_encryption :: "ZipInfo list \<Rightarrow> bool" where
  "hides_encryption infos \<longleftrightarrow> list_ex (\<lambda>info. base_name (zi_filename info) \<in> {''EncryptedPackage'', ''EncryptionInfo''}) infos"

lemma resolve_without_parent: "''..'' \<notin> set parts \<Longrightarrow> resolve_path parts stack \<noteq> None"
  by (induction parts arbitrary: stack) auto

lemma plain_name_inside: "plain_name name \<Longrightarrow> stays_inside name"
  by (auto simp: plain_name_def stays_inside_def resolve_without_parent)

lemma no_backslash: "\<not> has_prefix [CHR 0x5C] (slashes name)"
  by (cases name) (auto simp: has_prefix_def slashes_def)

lemma check_zip_name_Inr: "check_zip_name name = Inr u \<longleftrightarrow> plain_name name"
  by (simp add: check_zip_name_def plain_name_def Let_def no_backslash)

lemma check_zip_info_Inr:
  "check_zip_info info t streaming = Inr t' \<longleftrightarrow> part_ok streaming info \<and> t' = t + zi_file_size info \<and> t' \<le> MAX_TOTAL_BYTES"
  by (cases "check_zip_name (zi_filename info)"; cases "max_ratio (zi_filename info) streaming")
    (auto simp: check_zip_info_def part_ok_def ratio_ok_def Let_def not_le check_zip_name_Inr [of _ "()", symmetric])

lemma check_infos_Inr:
  "t \<le> MAX_TOTAL_BYTES \<Longrightarrow> list_all (\<lambda>info. 0 \<le> zi_file_size info) infos \<Longrightarrow>
     check_infos streaming t infos = Inr t' \<longleftrightarrow>
       list_all (part_ok streaming) infos \<and> t' = t + archive_size infos \<and> t + archive_size infos \<le> MAX_TOTAL_BYTES"
proof (induction infos arbitrary: t)
  case (Cons info infos)
  have s: "0 \<le> archive_size infos" using Cons.prems(2) by (auto simp: archive_size_def list_all_iff intro!: sum_list_nonneg)
  have a: "archive_size (info # infos) = zi_file_size info + archive_size infos" by (simp add: archive_size_def)
  show ?case
  proof (cases "check_zip_info info t streaming")
    case (Inl e)
    then have "\<not> (part_ok streaming info \<and> t + zi_file_size info \<le> MAX_TOTAL_BYTES)"
      using check_zip_info_Inr [of info t streaming "t + zi_file_size info"] by auto
    then show ?thesis using Inl s a by auto
  next
    case (Inr u)
    then have "part_ok streaming info" "u = t + zi_file_size info" "u \<le> MAX_TOTAL_BYTES" by (simp_all add: check_zip_info_Inr)
    with Inr Cons.IH [of u] Cons.prems(2) a show ?thesis by (auto simp: algebra_simps)
  qed
qed (auto simp: archive_size_def)

lemma reject_ole2_Inr: "reject_ole2 b = Inr u \<longleftrightarrow> \<not> is_ole2_file b"
  by (simp add: reject_ole2_def split: Ole2Kind.split)

definition guard_codes :: "string set" where
  "guard_codes = {''empty_file'', ''zip_rejected'', ''encrypted_workbook'', ''unsupported_media_type''}"

definition guard_error :: "context_error \<Rightarrow> bool" where
  "guard_error e \<longleftrightarrow> (case e of ContextError status detail \<Rightarrow> status \<in> guard_codes)"

lemma check_zip_info_Inl: "check_zip_info info t streaming = Inl e \<Longrightarrow> guard_error e"
  by (auto simp: check_zip_info_def check_zip_name_def Let_def guard_error_def guard_codes_def split: sum.splits if_splits option.splits)

lemma check_infos_Inl: "check_infos streaming t infos = Inl e \<Longrightarrow> guard_error e"
  by (induction infos arbitrary: t) (auto split: sum.splits dest: check_zip_info_Inl)

lemma reject_ole2_Inl: "reject_ole2 b = Inl e \<Longrightarrow> guard_error e"
  by (auto simp: reject_ole2_def guard_error_def guard_codes_def split: Ole2Kind.splits if_splits)

lemma open_xlsx_zip_Inl: "open_xlsx_zip zipfile streaming content = Inl e \<Longrightarrow> guard_error e"
  by (auto simp: open_xlsx_zip_def Let_def split: option.splits if_splits sum.splits dest: check_infos_Inl reject_ole2_Inl)
    (auto simp: guard_error_def guard_codes_def)

text \<open>
  C34. A workbook is accepted exactly when it is a non-empty zip that is no compound file, no
  entry is an encrypted package, every part is named by a relative path without parent steps,
  is at most the part limit and compresses below its ratio, and the parts together stay below
  the total limit. Accepted parts unpack inside their directory, and a refusal always carries
  one of the four documented codes.
\<close>

theorem archive_acceptance:
  assumes z: "zipfile b = Some infos" and nonneg: "list_all (\<lambda>info. 0 \<le> zi_file_size info) infos"
  shows "(open_xlsx_zip zipfile streaming (Some b) = Inr infos) =
      (b \<noteq> [] \<and> \<not> is_ole2_file b \<and> \<not> hides_encryption infos \<and> list_all (part_ok streaming) infos
          \<and> archive_size infos \<le> MAX_TOTAL_BYTES)
    \<and> (case open_xlsx_zip zipfile streaming (Some b) of
         Inl e \<Rightarrow> guard_error e
       | Inr accepted \<Rightarrow> list_all (\<lambda>info. stays_inside (zi_filename info)) accepted)"
proof -
  have h: "(''EncryptedPackage'' \<in> set (map (\<lambda>info. base_name (zi_filename info)) infos)
      \<or> ''EncryptionInfo'' \<in> set (map (\<lambda>info. base_name (zi_filename info)) infos)) = hides_encryption infos"
    by (auto simp: hides_encryption_def list_ex_iff image_iff) metis+
  define good where "good \<longleftrightarrow> list_all (part_ok streaming) infos \<and> archive_size infos \<le> MAX_TOTAL_BYTES"
  have total: "0 \<le> MAX_TOTAL_BYTES" by (simp add: MAX_TOTAL_BYTES_def)
  have c: "(\<exists>t. check_infos streaming 0 infos = Inr t) \<longleftrightarrow> good"
    unfolding check_infos_Inr [OF total nonneg] good_def by simp
  have o: "open_xlsx_zip zipfile streaming (Some b) = Inr accepted \<longleftrightarrow>
      b \<noteq> [] \<and> \<not> is_ole2_file b \<and> \<not> hides_encryption infos \<and> good \<and> accepted = infos" for accepted
    unfolding open_xlsx_zip_def option.simps Let_def z h c [symmetric] reject_ole2_Inr [of b "()", symmetric]
    by (cases "reject_ole2 b"; cases "check_infos streaming 0 infos") auto
  have inside: "good \<Longrightarrow> list_all (\<lambda>info. stays_inside (zi_filename info)) infos"
    by (auto simp: good_def list_all_iff part_ok_def plain_name_inside)
  have "case open_xlsx_zip zipfile streaming (Some b) of
      Inl e \<Rightarrow> guard_error e | Inr accepted \<Rightarrow> list_all (\<lambda>info. stays_inside (zi_filename info)) accepted"
  proof (cases "open_xlsx_zip zipfile streaming (Some b)")
    case (Inl e)
    with open_xlsx_zip_Inl [OF Inl] show ?thesis by simp
  next
    case (Inr accepted)
    then have "good" "accepted = infos" unfolding o by blast+
    with Inr inside show ?thesis by simp
  qed
  moreover have "(open_xlsx_zip zipfile streaming (Some b) = Inr infos) =
      (b \<noteq> [] \<and> \<not> is_ole2_file b \<and> \<not> hides_encryption infos \<and> list_all (part_ok streaming) infos
          \<and> archive_size infos \<le> MAX_TOTAL_BYTES)"
    unfolding o good_def by blast
  ultimately show ?thesis by blast
qed

definition two_parts :: "ZipInfo list" where
  "two_parts = [\<lparr>zi_filename = ''xl/worksheets/sheet1.xml'', zi_file_size = 900000, zi_compress_size = 9000\<rparr>,
     \<lparr>zi_filename = ''xl/styles.xml'', zi_file_size = 50000, zi_compress_size = 900\<rparr>]"

theorem archive_acceptance_witness:
  "open_xlsx_zip (\<lambda>_. Some two_parts) True (Some [0x50, 0x4B]) = Inr two_parts"
proof -
  have n: "list_all (\<lambda>info. 0 \<le> zi_file_size info) two_parts" by code_simp
  have p: "list_all (part_ok True) two_parts" "\<not> hides_encryption two_parts" "archive_size two_parts \<le> MAX_TOTAL_BYTES"
    "\<not> is_ole2_file [0x50, 0x4B]" by code_simp+
  show ?thesis using archive_acceptance [of "\<lambda>_. Some two_parts" "[0x50, 0x4B]" two_parts True, OF refl n] p by simp
qed

section \<open>The directory of a compound file\<close>

text \<open>The FAT entry of a sector, without the memo of unpacked FAT sectors.\<close>

definition fat_entry :: "Sectors \<Rightarrow> nat list \<Rightarrow> nat \<Rightarrow> nat result" where
  "fat_entry r fat_sectors sector =
     (let per_sector = sec_size r div 4; index = sector div per_sector in
      if index \<ge> length fat_sectors then Inl (ValueError ''sector outside the FAT'')
      else bind_result (sec_read r (fat_sectors ! index)) (\<lambda>data. Inr (u32s per_sector data 0 ! (sector mod per_sector))))"

definition memo_ok :: "nat list \<Rightarrow> Sectors \<Rightarrow> bool" where
  "memo_ok fat_sectors r \<longleftrightarrow>
     (\<forall>i entries. sec_fat r i = Some entries \<longrightarrow>
        (\<exists>data. sec_read r (fat_sectors ! i) = Inr data \<and> entries = u32s (sec_size r div 4) data 0))"

definition same_file :: "Sectors \<Rightarrow> Sectors \<Rightarrow> bool" where
  "same_file r r' \<longleftrightarrow> sec_file r' = sec_file r \<and> sec_size r' = sec_size r \<and> sec_count r' = sec_count r"

lemma same_file_refl [simp]: "same_file r r"
  by (simp add: same_file_def)

lemma same_file_trans: "same_file r s \<Longrightarrow> same_file s t \<Longrightarrow> same_file r t"
  by (simp add: same_file_def)

lemma same_file_read: "same_file r r' \<Longrightarrow> sec_read r' = sec_read r"
  by (rule ext) (simp add: same_file_def sec_read_def)

lemma same_file_entry: "same_file r r' \<Longrightarrow> fat_entry r' = fat_entry r"
proof -
  assume a: "same_file r r'"
  then have "sec_size r' = sec_size r" by (simp add: same_file_def)
  then show ?thesis unfolding fat_entry_def same_file_read [OF a] by simp
qed

lemma sec_next_entry:
  assumes "memo_ok fats r"
  shows "case sec_next r s fats of
      Inl e \<Rightarrow> fat_entry r fats s = Inl e
    | Inr (s', r') \<Rightarrow> fat_entry r fats s = Inr s' \<and> memo_ok fats r' \<and> same_file r r'"
proof (cases "sec_fat r (s div (sec_size r div 4))")
  case None
  show ?thesis
  proof (cases "sec_read r (fats ! (s div (sec_size r div 4)))")
    case (Inl e)
    with None assms show ?thesis by (simp add: sec_next_def fat_entry_def Let_def)
  next
    case (Inr data)
    define r' where "r' = r\<lparr>sec_fat := (sec_fat r)(s div (sec_size r div 4) \<mapsto> u32s (sec_size r div 4) data 0)\<rparr>"
    have "same_file r r'" by (simp add: r'_def same_file_def)
    moreover from this have "memo_ok fats r'" using assms Inr same_file_read [of r r'] by (auto simp: memo_ok_def r'_def)
    ultimately show ?thesis using None Inr assms by (simp add: sec_next_def fat_entry_def Let_def r'_def)
  qed
next
  case (Some entries)
  then obtain data where "sec_read r (fats ! (s div (sec_size r div 4))) = Inr data" "entries = u32s (sec_size r div 4) data 0"
    using assms unfolding memo_ok_def by blast
  with Some assms show ?thesis by (simp add: sec_next_def fat_entry_def Let_def)
qed

text \<open>
  A sector chain as the FAT links it, from its first sector to the end mark, and the names in it.
\<close>

fun dir_chain :: "Sectors \<Rightarrow> nat list \<Rightarrow> nat \<Rightarrow> nat list \<Rightarrow> bool" where
  "dir_chain r fats s [] \<longleftrightarrow> s = END_OF_CHAIN"
| "dir_chain r fats s (c # cs) \<longleftrightarrow> s = c \<and> (\<exists>data. sec_read r c = Inr data) \<and> (\<exists>s'. fat_entry r fats c = Inr s' \<and> dir_chain r fats s' cs)"

fun chain_names :: "Sectors \<Rightarrow> nat list \<Rightarrow> nat list set" where
  "chain_names r [] = {}"
| "chain_names r (c # cs) = (case sec_read r c of Inl _ \<Rightarrow> {} | Inr data \<Rightarrow> sector_names data) \<union> chain_names r cs"

lemma sec_read_Inr: "sec_read r c = Inr data \<Longrightarrow> c \<le> MAX_SECTOR \<and> (c + 2) * sec_size r \<le> length (sec_file r)"
  by (auto simp: sec_read_def Let_def split: if_splits)

lemma dir_chain_unique: "dir_chain r fats s cs \<Longrightarrow> dir_chain r fats s cs' \<Longrightarrow> cs = cs'"
proof (induction cs arbitrary: s cs')
  case Nil
  then show ?case by (cases cs') (auto dest!: sec_read_Inr simp: END_OF_CHAIN_def MAX_SECTOR_def)
next
  case (Cons c cs)
  then obtain ds where "cs' = c # ds" by (cases cs') (auto dest!: sec_read_Inr simp: END_OF_CHAIN_def MAX_SECTOR_def)
  with Cons show ?case by auto
qed

lemma dir_chain_suffix: "dir_chain r fats s (xs @ c # cs) \<Longrightarrow> dir_chain r fats c (c # cs)"
  by (induction xs arbitrary: s) auto

lemma dir_chain_distinct: "dir_chain r fats s cs \<Longrightarrow> distinct cs"
proof (rule ccontr)
  assume c: "dir_chain r fats s cs" and "\<not> distinct cs"
  then obtain xs ys zs x where cs: "cs = xs @ x # ys @ x # zs" using not_distinct_decomp by fastforce
  have "dir_chain r fats x (x # ys @ x # zs)" using dir_chain_suffix [OF c [unfolded cs]] .
  moreover have "dir_chain r fats x (x # zs)" using c dir_chain_suffix [of r fats s "xs @ x # ys"] unfolding cs by simp
  ultimately have "x # ys @ x # zs = x # zs" by (rule dir_chain_unique)
  then have "length (ys @ x # zs) = length zs" by simp
  then show False by simp
qed

lemma dir_chain_sectors: "dir_chain r fats s cs \<Longrightarrow> c \<in> set cs \<Longrightarrow> (c + 2) * sec_size r \<le> length (sec_file r)"
  by (induction cs arbitrary: s) (auto dest: sec_read_Inr)

lemma dir_chain_length:
  assumes "dir_chain r fats s cs" "0 < sec_size r" "0 < length (sec_file r) div sec_size r"
  shows "length cs < length (sec_file r) div sec_size r"
proof -
  let ?n = "length (sec_file r) div sec_size r"
  have "c + 2 \<le> ?n" if "c \<in> set cs" for c
    using dir_chain_sectors [OF assms(1) that] assms(2) by (simp add: less_eq_div_iff_mult_less_eq)
  then have "set cs \<subseteq> {..<?n - 1}" by fastforce
  then have "card (set cs) \<le> ?n - 1" using card_mono [of "{..<?n - 1}" "set cs"] by simp
  then show ?thesis using assms(3) distinct_card [OF dir_chain_distinct [OF assms(1)]] by linarith
qed

lemma dir_loop_chain:
  assumes "memo_ok fats r" "same_file base r"
  shows "dir_loop fats n r s seen names = Inr res \<longleftrightarrow>
    (\<exists>cs. dir_chain base fats s cs \<and> set cs \<inter> seen = {} \<and> length cs < n \<and> res = names \<union> chain_names base cs)"
  using assms
proof (induction n arbitrary: r s seen names)
  case (Suc n)
  note rd = same_file_read [OF Suc.prems(2)]
  show ?case
  proof (cases "s = END_OF_CHAIN \<or> s > MAX_SECTOR \<or> s \<in> seen")
    case True
    have "dir_chain base fats s cs \<Longrightarrow> set cs \<inter> seen = {} \<Longrightarrow> s = END_OF_CHAIN \<and> cs = []" for cs
      using True by (cases cs) (auto dest!: sec_read_Inr simp: END_OF_CHAIN_def MAX_SECTOR_def)
    then have "(\<exists>cs. dir_chain base fats s cs \<and> set cs \<inter> seen = {} \<and> length cs < Suc n \<and> res = names \<union> chain_names base cs)
        \<longleftrightarrow> s = END_OF_CHAIN \<and> res = names"
      using dir_chain.simps(1) [of base fats s] by (metis chain_names.simps(1) inf_bot_left list.set(1) list.size(3) sup_bot_right zero_less_Suc)
    then show ?thesis using True by auto
  next
    case False
    note s = this
    show ?thesis
    proof (cases "sec_read r s")
      case (Inl e)
      with rd s have "\<not> dir_chain base fats s cs" for cs by (cases cs) auto
      with Inl s show ?thesis by simp
    next
      case (Inr data)
      note nx = sec_next_entry [OF Suc.prems(1), of s, unfolded same_file_entry [OF Suc.prems(2)]]
      show ?thesis
      proof (cases "sec_next r s fats")
        case nInl: (Inl e)
        with nx s have "\<not> dir_chain base fats s cs" for cs by (cases cs) auto
        with Inr nInl s show ?thesis by simp
      next
        case nInr: (Inr p)
        obtain s' r' where p: "p = (s', r')" by (cases p)
        with nx nInr have e: "fat_entry base fats s = Inr s'" and r': "memo_ok fats r'" "same_file base r'"
          using same_file_trans [OF Suc.prems(2)] by auto
        have "dir_loop fats (Suc n) r s seen names = dir_loop fats n r' s' (insert s seen) (names \<union> sector_names data)"
          using s Inr nInr p by simp
        moreover have "(\<exists>cs. dir_chain base fats s cs \<and> set cs \<inter> seen = {} \<and> length cs < Suc n \<and> res = names \<union> chain_names base cs)
          \<longleftrightarrow> (\<exists>cs. dir_chain base fats s' cs \<and> set cs \<inter> insert s seen = {} \<and> length cs < n
                \<and> res = names \<union> sector_names data \<union> chain_names base cs)" (is "?L \<longleftrightarrow> ?R")
        proof
          assume ?L
          then obtain cs where cs: "dir_chain base fats s cs" "set cs \<inter> seen = {}" "length cs < Suc n" "res = names \<union> chain_names base cs" by blast
          then obtain ds where "cs = s # ds" using s by (cases cs) auto
          with cs e Inr rd dir_chain_distinct [OF cs(1)] show ?R by (intro exI [of _ ds]) auto
        next
          assume ?R
          then obtain cs where "dir_chain base fats s' cs" "set cs \<inter> insert s seen = {}" "length cs < n"
            "res = names \<union> sector_names data \<union> chain_names base cs" by blast
          with s e Inr rd show ?L by (intro exI [of _ "s # cs"]) auto
        qed
        ultimately show ?thesis using Suc.IH [OF r'] by simp
      qed
    qed
  qed
qed simp

lemma find_fat_sectors_bounded: "find_fat_sectors header r = Inr fats \<Longrightarrow> length fats \<le> length (sec_file r) div sec_size r"
  by (auto simp: find_fat_sectors_def Let_def bind_result_Inr_iff)

text \<open>The header of a compound file with whole sectors behind it.\<close>

definition compound_header :: "bytes \<Rightarrow> bool" where
  "compound_header b \<longleftrightarrow> HEADER \<le> length b \<and> is_ole2 b \<and> u16 b 30 \<in> {9, 12} \<and> 2 ^ u16 b 30 \<le> length b"

definition compound_sectors :: "bytes \<Rightarrow> Sectors" where
  "compound_sectors b = make_sectors b (2 ^ u16 b 30)"

lemma u16_take: "i + 1 < n \<Longrightarrow> u16 (take n b) i = u16 b i"
  by (simp add: u16_def)

lemma u32_take: "i + 3 < n \<Longrightarrow> u32 (take n b) i = u32 b i"
  by (simp add: u32_def u16_take)

text \<open>
  The names of a compound file are read exactly when its header is sound and its directory
  chain ends: neither the bound on the number of steps nor the check for repeated sectors ever
  rejects a chain that ends, and the FAT walked is never longer than the file has sectors. The
  result is the set of names found in the sectors of that chain.
\<close>

theorem entry_names_exact:
  "entry_names b = Inr names \<longleftrightarrow>
     compound_header b \<and>
     (\<exists>fats cs. find_fat_sectors (take HEADER b) (compound_sectors b) = Inr fats
        \<and> length fats \<le> length b div 2 ^ u16 b 30
        \<and> dir_chain (compound_sectors b) fats (u32 b 48) cs
        \<and> names = chain_names (compound_sectors b) cs)"
proof -
  let ?r = "compound_sectors b"
  have hd: "u16 (take HEADER b) 30 = u16 b 30" "u32 (take HEADER b) 48 = u32 b 48" by (simp_all add: u16_take u32_take HEADER_def)
  have ole: "is_ole2 (take HEADER b) = is_ole2 b" by (simp add: is_ole2_def HEADER_def OLE2_SIGNATURE_def)
  have r: "sec_file ?r = b" "sec_size ?r = 2 ^ u16 b 30" "sec_count ?r = length b div 2 ^ u16 b 30" "memo_ok fats ?r" for fats
    by (simp_all add: compound_sectors_def make_sectors_def memo_ok_def)
  have count: "0 < length b div 2 ^ u16 b 30 \<longleftrightarrow> 2 ^ u16 b 30 \<le> length b" by (simp add: div_greater_zero_iff)
  have walk: "dir_loop fats (sec_count ?r) ?r s {} {} = Inr names \<longleftrightarrow>
      2 ^ u16 b 30 \<le> length b \<and> (\<exists>cs. dir_chain ?r fats s cs \<and> names = chain_names ?r cs)" for fats s
    using dir_loop_chain [OF r(4) same_file_refl, of fats "sec_count ?r" s "{}" "{}" names] dir_chain_length [of ?r fats s] count r
    by auto
  have "length (take HEADER b) < HEADER \<longleftrightarrow> length b < HEADER" by auto
  then show ?thesis
    unfolding entry_names_def Let_def hd ole compound_header_def compound_sectors_def [symmetric]
    using find_fat_sectors_bounded [of "take HEADER b" ?r] r(1,2) walk
    by (auto simp: bind_result_Inr_iff)
qed

end
