(* ===== verification/Publisher_Stages.thy ===== *)
theory Publisher_Stages
  imports Archive_Guard Json_Values "HOL-Library.List_Lexorder" "HOL-Library.Char_ord"
begin

text \<open>
  The publisher fingerprint of \<open>src/finance_context/app/publisher.py\<close>: the package sources are
  sorted into stages, the layout stage takes in every package module it imports, each stage is
  hashed, and stored stamps are compared with the hashes of the code on disk. The digest of
  \<open>hashlib\<close> is a parameter. A package is the list of its files, each with its path below the
  package root, its content, its modification time and its import statements in the order
  \<open>ast.walk\<close> meets them (\<open>None\<close> when the file cannot be read or parsed).
\<close>

section \<open>The package on disk\<close>

text \<open>
  \<open>import a, b\<close> and \<open>from module import names\<close> with the number of leading dots; aliases are left out.
\<close>

datatype import_stmt = Import "string list" | ImportFrom "string option" "string list" nat

record SourceFile =
  sf_path :: string
  sf_content :: string
  sf_mtime :: int
  sf_imports :: "import_stmt list option"

type_synonym package = "SourceFile list"

definition STAGE_ORDER :: "string list" where
  "STAGE_ORDER = [''compile'', ''layout'', ''graph'', ''publish'']"

definition STAGE_DIRS :: "(string \<times> string list) list" where
  "STAGE_DIRS = [(''compile'', [''excel'', ''formulas'']), (''layout'', [''layout'']), (''graph'', [''graph'']),
     (''publish'', [''context'', ''render''])]"

text \<open>\<open>path.suffix == ".py"\<close>: a file named \<open>.py\<close> has no suffix.\<close>

definition is_py :: "string \<Rightarrow> bool" where
  "is_py path = (has_suffix ''.py'' path \<and> last (split_on CHR ''/'' path) \<noteq> ''.py'')"

definition is_source :: "string \<Rightarrow> bool" where
  "is_source path = (is_py path \<and> ''__pycache__'' \<notin> set (split_on CHR ''/'' path))"

definition file_at :: "package \<Rightarrow> string \<Rightarrow> SourceFile option" where
  "file_at pk path = find (\<lambda>f. sf_path f = path) pk"

definition pk_sources :: "package \<Rightarrow> string list" where
  "pk_sources pk = sort (filter is_source (map sf_path pk))"

definition stage_of :: "string \<Rightarrow> string option" where
  "stage_of rel =
     (if rel = ''models/context.py'' then Some ''publish''
      else map_option fst (find (\<lambda>(stage, dirs). hd (split_on CHR ''/'' rel) \<in> set dirs) STAGE_DIRS))"

section \<open>Imported modules\<close>

fun join_with :: "string \<Rightarrow> string list \<Rightarrow> string" where
  "join_with sep [] = ''''"
| "join_with sep [s] = s"
| "join_with sep (s # t # ts) = s @ sep @ join_with sep (t # ts)"

definition PACKAGE :: string where "PACKAGE = ''finance_context''"

definition module_file :: "package \<Rightarrow> string \<Rightarrow> string option" where
  "module_file pk module =
     (if module \<noteq> PACKAGE \<and> \<not> has_prefix (PACKAGE @ ''.'') module then None
      else
        let rel = map (\<lambda>c. if c = CHR ''.'' then CHR ''/'' else c) (dropWhile (\<lambda>c. c = CHR ''.'') (drop (length PACKAGE) module));
            path = (if rel = '''' then ''__init__.py'' else rel @ ''.py'')
        in if file_at pk path \<noteq> None then Some path
           else if rel = '''' then None
           else let init = rel @ ''/__init__.py'' in if file_at pk init \<noteq> None then Some init else None)"

definition import_from_modules :: "string \<Rightarrow> string option \<Rightarrow> nat \<Rightarrow> string list" where
  "import_from_modules path module level =
     (let named = (case module of None \<Rightarrow> '''' | Some m \<Rightarrow> m) in
      if level = 0 then (if named \<noteq> '''' then [named] else [])
      else
        let parts = butlast (split_on CHR ''/'' path); back = level - 1 in
        if back > length parts then []
        else
          let parts = take (length parts - back) parts;
              parts = (if named \<noteq> '''' then parts @ split_on CHR ''.'' named else parts)
          in if parts = [] then [PACKAGE] else [PACKAGE @ ''.'' @ join_with ''.'' parts])"

definition stmt_modules :: "string \<Rightarrow> import_stmt \<Rightarrow> string list" where
  "stmt_modules path stmt = (case stmt of Import names \<Rightarrow> names | ImportFrom module names level \<Rightarrow> import_from_modules path module level)"

definition module_parents :: "package \<Rightarrow> string \<Rightarrow> string list" where
  "module_parents pk module =
     (let parts = split_on CHR ''.'' module in
      List.map_filter (\<lambda>i.
        case module_file pk (join_with ''.'' (take i parts)) of
          Some parent \<Rightarrow> if last (split_on CHR ''/'' parent) = ''__init__.py'' then Some parent else None
        | None \<Rightarrow> None) [1..<length parts])"

definition module_files :: "package \<Rightarrow> string \<Rightarrow> string list" where
  "module_files pk module =
     (case module_file pk module of None \<Rightarrow> [] | Some path \<Rightarrow> path # module_parents pk module)"

definition imported_package_files :: "package \<Rightarrow> string \<Rightarrow> string list" where
  "imported_package_files pk path =
     (case file_at pk path of
        None \<Rightarrow> []
      | Some f \<Rightarrow>
          (case sf_imports f of
             None \<Rightarrow> []
           | Some stmts \<Rightarrow> concat (map (module_files pk) (concat (map (stmt_modules path) stmts)))))"

section \<open>The import closure of the layout stage\<close>

text \<open>One pass over the imports of a file: the seen set, the new files and the pending stack.\<close>

fun take_imports :: "string list \<Rightarrow> string set \<Rightarrow> string list \<Rightarrow> string list \<Rightarrow> string set \<times> string list \<times> string list" where
  "take_imports [] seen extra pending = (seen, extra, pending)"
| "take_imports (f # fs) seen extra pending =
     (if f \<in> seen then take_imports fs seen extra pending
      else take_imports fs (insert f seen) (extra @ [f]) (if is_py f then pending @ [f] else pending))"

lemma file_at_in: "file_at pk p = Some f \<Longrightarrow> p \<in> sf_path ` set pk"
  by (induction pk) (auto simp: file_at_def split: if_splits)

lemma module_file_in: "module_file pk m = Some p \<Longrightarrow> p \<in> sf_path ` set pk"
  unfolding module_file_def Let_def by (auto split: if_splits dest: file_at_in)

lemma module_files_in: "p \<in> set (module_files pk m) \<Longrightarrow> p \<in> sf_path ` set pk"
  by (auto simp: module_files_def module_parents_def map_filter_def Let_def split: option.splits if_splits
      dest: module_file_in module_file_in [OF sym])

lemma imported_in: "p \<in> set (imported_package_files pk path) \<Longrightarrow> p \<in> sf_path ` set pk"
  by (auto simp: imported_package_files_def split: option.splits dest: module_files_in)

lemma take_imports_spec:
  "take_imports fs seen extra pending = (seen', extra', pending') \<Longrightarrow>
     \<exists>new. seen' = seen \<union> set new \<and> extra' = extra @ new \<and> pending' = pending @ filter is_py new
       \<and> distinct new \<and> set new = set fs - seen"
proof (induction fs arbitrary: seen extra pending)
  case (Cons f fs)
  show ?case
  proof (cases "f \<in> seen")
    case True
    with Cons show ?thesis by (simp add: insert_Diff_if)
  next
    case False
    define pending1 where "pending1 = (if is_py f then pending @ [f] else pending)"
    have "take_imports fs (insert f seen) (extra @ [f]) pending1 = (seen', extra', pending')"
      using Cons.prems False by (simp add: pending1_def)
    from Cons.IH [OF this] obtain new where n: "seen' = insert f seen \<union> set new" "extra' = (extra @ [f]) @ new"
      "pending' = pending1 @ filter is_py new" "distinct new" "set new = set fs - insert f seen" by blast
    then show ?thesis using False by (intro exI [of _ "f # new"]) (auto simp: pending1_def)
  qed
qed auto

function closure_loop :: "package \<Rightarrow> string list \<Rightarrow> string set \<Rightarrow> string list \<Rightarrow> string list" where
  "closure_loop pk pending seen extra =
     (if pending = [] then extra
      else
        case take_imports (imported_package_files pk (last pending)) seen extra (butlast pending) of
          (seen', extra', pending') \<Rightarrow> closure_loop pk pending' seen' extra')"
  by pat_completeness auto

termination
proof (relation "measure (\<lambda>(pk, pending, seen, extra). length pending + 2 * card (sf_path ` set pk - seen))", goal_cases)
  case (2 pk pending seen extra seen' y extra' pending')
  let ?fs = "imported_package_files pk (last pending)"
  from take_imports_spec [of ?fs seen extra "butlast pending" seen' extra' pending'] 2 obtain new where
    new: "seen' = seen \<union> set new" "pending' = butlast pending @ filter is_py new" "distinct new" "set new = set ?fs - seen" by auto
  have "set new \<subseteq> sf_path ` set pk - seen" using new(4) imported_in by auto
  moreover from this have "sf_path ` set pk - seen' = (sf_path ` set pk - seen) - set new" using new(1) by auto
  ultimately have "card (sf_path ` set pk - seen') + length new = card (sf_path ` set pk - seen)"
    using distinct_card [OF new(3)] card_mono [of "sf_path ` set pk - seen" "set new"] by (simp add: card_Diff_subset)
  moreover have "length pending' \<le> length pending - 1 + length new" using new(2) length_filter_le [of is_py new] by simp
  moreover have "0 < length pending" using 2 by simp
  ultimately have "length pending' + 2 * card (sf_path ` set pk - seen') < length pending + 2 * card (sf_path ` set pk - seen)"
    by linarith
  then show ?case by simp
qed simp

declare closure_loop.simps [simp del]

definition include_layout_imports :: "package \<Rightarrow> string list \<Rightarrow> string list" where
  "include_layout_imports pk layout =
     (let extra = closure_loop pk (filter is_py layout) (set layout) []
      in if extra = [] then layout else sort (layout @ extra))"

section \<open>Fingerprints\<close>

definition stage_bucket :: "package \<Rightarrow> string \<Rightarrow> string list" where
  "stage_bucket pk stage =
     (let bucket = filter (\<lambda>p. stage_of p = Some stage) (pk_sources pk)
      in if stage = ''layout'' then include_layout_imports pk bucket else bucket)"

definition content_of :: "package \<Rightarrow> string \<Rightarrow> string" where
  "content_of pk path = (case file_at pk path of Some f \<Rightarrow> sf_content f | None \<Rightarrow> '''')"

definition hash_files :: "(string \<Rightarrow> string) \<Rightarrow> package \<Rightarrow> string list \<Rightarrow> string" where
  "hash_files sha256 pk paths =
     sha256 (concat (map (\<lambda>p. p @ [CHR 0x00] @ content_of pk p @ [CHR 0x00]) paths))"

text \<open>\<open>json.dumps\<close> of the list of hex digests, without spaces.\<close>

definition hash_stages :: "(string \<Rightarrow> string) \<Rightarrow> (string \<times> string) list \<Rightarrow> string" where
  "hash_stages sha256 stages =
     sha256 (''['' @ join_with '','' (map (\<lambda>name. CHR 0x22 # dict_get stages name '''' @ [CHR 0x22]) STAGE_ORDER) @ '']'')"

definition compute_stages :: "(string \<Rightarrow> string) \<Rightarrow> package \<Rightarrow> (string \<times> string) list" where
  "compute_stages sha256 pk = map (\<lambda>name. (name, hash_files sha256 pk (stage_bucket pk name))) STAGE_ORDER"

text \<open>The module state: the memo of the last computation and the stamp of this process.\<close>

record Publisher =
  pb_key :: "(string \<times> int) list option"
  pb_stages :: "(string \<times> string) list option"
  pb_fingerprint :: "string option"
  pb_stamp :: "string option"
  pb_stamp_stages :: "(string \<times> string) list option"

definition pk_key :: "package \<Rightarrow> (string \<times> int) list" where
  "pk_key pk = map (\<lambda>p. (p, case file_at pk p of Some f \<Rightarrow> sf_mtime f | None \<Rightarrow> 0)) (pk_sources pk)"

definition pb_live ::
  "(string \<Rightarrow> string) \<Rightarrow> package \<Rightarrow> Publisher \<Rightarrow> ((string \<times> string) list \<times> string) \<times> Publisher" where
  "pb_live sha256 pk pb =
     (let key = pk_key pk in
      if pb_key pb = Some key \<and> pb_stages pb \<noteq> None \<and> pb_fingerprint pb \<noteq> None
      then ((the (pb_stages pb), the (pb_fingerprint pb)), pb)
      else
        let stages = compute_stages sha256 pk; fingerprint = hash_stages sha256 stages
        in ((stages, fingerprint), pb\<lparr>pb_key := Some key, pb_stages := Some stages, pb_fingerprint := Some fingerprint\<rparr>))"

definition publisher_stamp :: "(string \<Rightarrow> string) \<Rightarrow> package \<Rightarrow> Publisher \<Rightarrow> string \<times> Publisher" where
  "publisher_stamp sha256 pk pb =
     (case pb_stamp pb of
        Some stamp \<Rightarrow> (stamp, pb)
      | None \<Rightarrow>
          (case pb_live sha256 pk pb of
             ((stages, fingerprint), pb') \<Rightarrow>
               (fingerprint, pb'\<lparr>pb_stamp_stages := Some stages, pb_stamp := Some fingerprint\<rparr>)))"

definition stamped_stages :: "(string \<Rightarrow> string) \<Rightarrow> package \<Rightarrow> Publisher \<Rightarrow> (string \<times> string) list \<times> Publisher" where
  "stamped_stages sha256 pk pb =
     (case publisher_stamp sha256 pk pb of (stamp, pb') \<Rightarrow> (the (pb_stamp_stages pb'), pb'))"

text \<open>
  Comparisons of a stored document with the code on disk; \<open>stages\<close> and \<open>fingerprint\<close>
  are what \<open>stage_fingerprints()\<close> and \<open>publisher_fingerprint()\<close> return at the call.
\<close>

definition publisher_matches :: "string \<Rightarrow> json_dict option \<Rightarrow> bool" where
  "publisher_matches fingerprint meta =
     (case meta of None \<Rightarrow> False | Some d \<Rightarrow> map_of d ''publisher'' = Some (JString fingerprint))"

definition publisher_changed :: "string \<Rightarrow> json_dict option \<Rightarrow> bool" where
  "publisher_changed fingerprint meta =
     (case meta of
        None \<Rightarrow> False
      | Some d \<Rightarrow>
          (case as_text (map_of d ''publisher'') of
             None \<Rightarrow> False
           | Some stored \<Rightarrow> if stored = '''' then False else stored \<noteq> fingerprint))"

definition stale_from_meta :: "(string \<times> string) list \<Rightarrow> string \<Rightarrow> json_dict option \<Rightarrow> string option" where
  "stale_from_meta stages fingerprint meta =
     (if publisher_matches fingerprint meta then None
      else
        case (case meta of None \<Rightarrow> None | Some d \<Rightarrow> as_dict (map_of d ''stages'')) of
          None \<Rightarrow> Some ''layout''
        | Some stored \<Rightarrow>
            if stored = [] then Some ''layout''
            else
              case find (\<lambda>name. map_of stored name \<noteq> Some (JString (dict_get stages name ''''))) STAGE_ORDER of
                Some name \<Rightarrow> Some name
              | None \<Rightarrow> Some ''layout'')"

section \<open>What the layout stage is hashed over\<close>

definition import_rel :: "package \<Rightarrow> (string \<times> string) set" where
  "import_rel pk = {(p, q). is_py p \<and> q \<in> set (imported_package_files pk p)}"

definition closed_but :: "package \<Rightarrow> string set \<Rightarrow> string set \<Rightarrow> bool" where
  "closed_but pk pending seen \<longleftrightarrow> import_rel pk `` (seen - pending) \<subseteq> seen"

lemma closed_reach: "closed_but pk {} seen \<Longrightarrow> base \<subseteq> seen \<Longrightarrow> (import_rel pk)\<^sup>* `` base \<subseteq> seen"
  unfolding closed_but_def using Image_closed_trancl [of "import_rel pk" seen] by (metis Diff_empty Image_mono order_refl order_trans subset_refl equalityD1)

lemma closed_step:
  assumes "closed_but pk (insert p q) seen" "new = set (imported_package_files pk p) - seen" "seen' = seen \<union> new"
  shows "closed_but pk (q \<union> {f \<in> new. is_py f}) seen'"
  using assms by (auto simp: closed_but_def import_rel_def)

lemma closure_loop_reach:
  assumes "set pending \<subseteq> seen" "seen = base \<union> set extra" "seen \<subseteq> (import_rel pk)\<^sup>* `` base" "closed_but pk (set pending) seen"
    "list_all is_py pending"
  shows "base \<union> set (closure_loop pk pending seen extra) = (import_rel pk)\<^sup>* `` base"
  using assms
proof (induction pk pending seen extra rule: closure_loop.induct)
  case (1 pk pending seen extra)
  show ?case
  proof (cases "pending = []")
    case True
    then have "(import_rel pk)\<^sup>* `` base \<subseteq> seen" using 1(3,5) by (intro closed_reach) auto
    then show ?thesis using 1(3,4) True by (simp add: closure_loop.simps subset_antisym)
  next
    case False
    let ?p = "last pending" and ?fs = "imported_package_files pk (last pending)"
    obtain seen' extra' pending' where t: "take_imports ?fs seen extra (butlast pending) = (seen', extra', pending')"
      by (metis prod_cases3)
    then obtain new where n: "seen' = seen \<union> set new" "extra' = extra @ new" "pending' = butlast pending @ filter is_py new"
      "set new = set ?fs - seen" using take_imports_spec by blast
    obtain front where front: "pending = front @ [?p]" using False by (metis append_butlast_last_id)
    then have "butlast pending = front" by (metis butlast_snoc)
    then have p: "?p \<in> seen" "set (butlast pending) \<subseteq> seen" "is_py ?p" "list_all is_py (butlast pending)" "set pending = insert ?p (set (butlast pending))"
      using 1(2,6) arg_cong [OF front, of set] arg_cong [OF front, of "list_all is_py"] by auto
    have step: "set new \<subseteq> import_rel pk `` seen" using n(4) p(1,3) by (auto simp: import_rel_def)
    have "set new \<subseteq> (import_rel pk)\<^sup>* `` base" using step 1(4) by (blast intro: rtrancl.rtrancl_into_rtrancl)
    moreover have "closed_but pk (set pending') seen'"
      using closed_step [of pk ?p "set (butlast pending)" seen "set new" seen'] 1(5) p(5) n by simp
    ultimately have "base \<union> set (closure_loop pk pending' seen' extra') = (import_rel pk)\<^sup>* `` base"
      using 1(3,4) n p False t by (intro 1(1) [of seen' "(extra', pending')" extra' pending']) (auto simp: list_all_iff)
    then show ?thesis using False t by (simp add: closure_loop.simps [of pk pending])
  qed
qed

lemma closed_but_all: "seen \<subseteq> pending \<Longrightarrow> closed_but pk pending seen"
  by (auto simp: closed_but_def)

lemma split_on_not_Nil [simp]: "split_on c s \<noteq> []"
  by (induction s) (auto split: list.split)

lemma pk_sources_py: "p \<in> set (pk_sources pk) \<Longrightarrow> is_py p"
  by (simp add: pk_sources_def is_source_def)

lemma stage_bucket_sorted: "sorted (stage_bucket pk stage)"
proof -
  have "sorted (filter (\<lambda>p. stage_of p = Some stage) (pk_sources pk))" by (simp add: pk_sources_def sorted_filter [of "\<lambda>x. x", simplified])
  then show ?thesis by (auto simp: stage_bucket_def include_layout_imports_def Let_def)
qed

lemma layout_bucket_closure:
  "set (stage_bucket pk ''layout'') = (import_rel pk)\<^sup>* `` {p. p \<in> set (pk_sources pk) \<and> stage_of p = Some ''layout''}
     \<and> set (stage_bucket pk ''compile'') = {p. p \<in> set (pk_sources pk) \<and> stage_of p = Some ''compile''}
     \<and> list_all (\<lambda>stage. sorted (stage_bucket pk stage)) STAGE_ORDER"
proof -
  let ?b = "filter (\<lambda>p. stage_of p = Some ''layout'') (pk_sources pk)"
  have py: "filter is_py ?b = ?b" by (rule filter_True) (auto dest: pk_sources_py)
  have "set ?b \<union> set (closure_loop pk (filter is_py ?b) (set ?b) []) = (import_rel pk)\<^sup>* `` set ?b"
    unfolding py by (rule closure_loop_reach) (auto simp: list_all_iff intro: closed_but_all pk_sources_py)
  then have "set (stage_bucket pk ''layout'') = (import_rel pk)\<^sup>* `` set ?b"
    by (auto simp: stage_bucket_def include_layout_imports_def Let_def)
  then show ?thesis by (auto simp: stage_bucket_sorted list_all_iff) (simp_all add: stage_bucket_def)
qed

text \<open>A package where a layout module imports a context module: both are hashed into the layout stage.\<close>

definition small_package :: package where
  "small_package =
     [\<lparr>sf_path = ''layout/units.py'', sf_content = ''a'', sf_mtime = 1, sf_imports = Some [ImportFrom (Some ''finance_context.context.measure'') [''scale_of''] 0]\<rparr>,
      \<lparr>sf_path = ''context/__init__.py'', sf_content = ''b'', sf_mtime = 1, sf_imports = Some [ImportFrom (Some ''build'') [''build_context''] 1]\<rparr>,
      \<lparr>sf_path = ''context/measure.py'', sf_content = ''c'', sf_mtime = 1, sf_imports = Some [Import [''json'']]\<rparr>,
      \<lparr>sf_path = ''context/build.py'', sf_content = ''d'', sf_mtime = 1, sf_imports = None\<rparr>,
      \<lparr>sf_path = ''excel/a1.py'', sf_content = ''e'', sf_mtime = 1, sf_imports = Some []\<rparr>]"

lemma small_package_layout:
  "stage_bucket small_package ''layout'' = [''context/__init__.py'', ''context/build.py'', ''context/measure.py'', ''layout/units.py'']"
  by code_simp

section \<open>The memo of the fingerprints\<close>

text \<open>
  The memo is sound while a file whose content changes also changes its modification time: then
  the hashes the module state answers with are those of the code on disk.
\<close>

definition memo_current :: "(string \<Rightarrow> string) \<Rightarrow> package \<Rightarrow> Publisher \<Rightarrow> bool" where
  "memo_current sha256 pk pb \<longleftrightarrow>
     (pb_key pb = Some (pk_key pk) \<longrightarrow> pb_stages pb \<noteq> None \<longrightarrow> pb_fingerprint pb \<noteq> None \<longrightarrow>
        pb_stages pb = Some (compute_stages sha256 pk) \<and> pb_fingerprint pb = Some (hash_stages sha256 (compute_stages sha256 pk)))"

lemma pb_live_current:
  "memo_current sha256 pk pb \<Longrightarrow>
     fst (pb_live sha256 pk pb) = (compute_stages sha256 pk, hash_stages sha256 (compute_stages sha256 pk))
     \<and> memo_current sha256 pk (snd (pb_live sha256 pk pb))"
  by (auto simp: pb_live_def memo_current_def Let_def)

lemma stamp_frozen:
  "pb_stamp pb = Some stamp \<Longrightarrow> publisher_stamp sha256 pk pb = (stamp, pb)"
  by (simp add: publisher_stamp_def)

end
