(* ===== verification/Shared_Cache.thy ===== *)
theory Shared_Cache
  imports Publisher_Stages
begin

text \<open>
  The shared book cache: \<open>src/finance_context/app/shared_cache.py\<close> and the artifact clearing of
  \<open>app/artifacts.py\<close>. A directory is a map from file paths to contents, a JSON document being
  parsed or unreadable. The functions that compare stamps take the stage hashes and the combined
  fingerprint of the code on disk, as \<open>Publisher_Stages\<close> computes them.
\<close>

datatype content = Document json | Opaque

type_synonym tree = "string \<Rightarrow> content option"

definition STAGES_NAME :: string where "STAGES_NAME = ''stages.json''"

definition REBUILD_FROM :: string where "REBUILD_FROM = ''rebuild_from''"

definition META_NAME :: string where "META_NAME = ''meta/meta.json''"

definition stage_index :: "string \<Rightarrow> nat" where
  "stage_index stage = length (takeWhile (\<lambda>s. s \<noteq> stage) STAGE_ORDER)"

section \<open>Clearing artifacts\<close>

definition PUBLISHED :: "string list" where
  "PUBLISHED = [''context/context.json'', ''context/context.md'', ''context/context.md.renderer'']"

definition GRAPH :: "string list" where
  "GRAPH = [''graph/graph.json'', ''graph/graph.md'', ''graph-edges.json'', ''graph-dangling.json'', ''formulas.json'']"

definition GRAPH_IR :: "string list" where
  "GRAPH_IR = [''graph/index.parquet'', ''graph/edges.parquet'']"

definition FORMULA_IR :: "string list" where
  "FORMULA_IR = [''ir/cells.parquet'', ''ir/edges.parquet'', ''ir/cell_edges.parquet'', ''ir/compile.json'']"

definition RAW :: "string list" where
  "RAW = [''raw/cells.parquet'', ''raw/cell_presence.parquet'', ''raw/workbook.json'']"

definition normalize_stage :: "string \<Rightarrow> string" where
  "normalize_stage stale_from = (if stale_from \<notin> set STAGE_ORDER then ''layout'' else stale_from)"

definition unlink :: "string \<Rightarrow> bool \<times> tree \<Rightarrow> bool \<times> tree" where
  "unlink path state = (case state of (removed, t) \<Rightarrow> (removed \<or> t path \<noteq> None, t(path := None)))"

definition unlink_all :: "string list \<Rightarrow> bool \<times> tree \<Rightarrow> bool \<times> tree" where
  "unlink_all paths state = fold unlink paths state"

definition clear_shared_artifacts :: "tree \<Rightarrow> string option \<Rightarrow> bool \<times> tree" where
  "clear_shared_artifacts book stale_from =
     (case stale_from of
        None \<Rightarrow> (False, book)
      | Some stale \<Rightarrow>
          let rank = stage_index (normalize_stage stale);
              reached = (\<lambda>stage. rank \<le> stage_index stage);
              s = (False, book);
              s = (if reached ''layout'' then unlink ''layout/layout.json'' s else s);
              s = (if reached ''compile'' \<or> book ''source/source.xlsx'' = None then unlink_all FORMULA_IR s else s)
          in if reached ''compile'' then unlink_all RAW s else s)"

text \<open>\<open>shared\<close> is \<open>None\<close> when one directory holds the publication and the cache.\<close>

definition clear_downstream_artifacts :: "tree \<Rightarrow> string option \<Rightarrow> tree option \<Rightarrow> bool \<Rightarrow> tree \<times> tree option" where
  "clear_downstream_artifacts dest stale_from shared drop_meta =
     (case stale_from of
        None \<Rightarrow> (dest, shared)
      | Some stale \<Rightarrow>
          let normalized = normalize_stage stale;
              rank = stage_index normalized;
              reached = (\<lambda>stage. rank \<le> stage_index stage);
              d = (False, dest);
              d = (if reached ''publish'' then unlink_all PUBLISHED d else d);
              d = (if reached ''graph'' then unlink_all GRAPH_IR (unlink_all GRAPH d) else d);
              (dest1, shared1) =
                (case shared of
                   None \<Rightarrow> (snd (clear_shared_artifacts (snd d) (Some normalized)), None)
                 | Some book \<Rightarrow> (snd d, Some (snd (clear_shared_artifacts book (Some normalized)))))
          in (if drop_meta then dest1(META_NAME := None) else dest1, shared1))"

section \<open>Documents\<close>

definition read_json_object :: "tree \<Rightarrow> string \<Rightarrow> json_dict option" where
  "read_json_object t path = (case t path of Some (Document (JObject d)) \<Rightarrow> Some d | _ \<Rightarrow> None)"

definition stage_map :: "json_dict option \<Rightarrow> json_dict option" where
  "stage_map payload = (case payload of None \<Rightarrow> None | Some d \<Rightarrow> as_dict (map_of d ''stages''))"

definition read_meta :: "tree \<Rightarrow> json_dict option" where
  "read_meta dest = read_json_object dest META_NAME"

definition cache_has_body :: "tree \<Rightarrow> bool" where
  "cache_has_body book \<longleftrightarrow> book ''layout/layout.json'' \<noteq> None \<or> book ''raw/workbook.json'' \<noteq> None \<or> book ''ir/cells.parquet'' \<noteq> None"

definition mark_queued :: "json_dict \<Rightarrow> json_dict" where
  "mark_queued meta =
     dict_pop ''detail'' (dict_pop ''error'' (dict_set ''stage'' (JString ''queued'') (dict_set ''status'' (JString ''queued'') meta)))"

definition rebuild_mutation :: "string option \<Rightarrow> string option \<Rightarrow> json_dict \<Rightarrow> json_dict" where
  "rebuild_mutation stale_from generation current =
     (let updated = (case stale_from of
                       None \<Rightarrow> dict_pop REBUILD_FROM current
                     | Some stale \<Rightarrow> mark_queued (dict_set REBUILD_FROM (JString stale) current))
      in case generation of None \<Rightarrow> updated | Some g \<Rightarrow> mark_queued (dict_set ''generation'' (JNumber g) updated))"

text \<open>\<open>update_json\<close> starts from an empty dict when the file is missing or holds no dict.\<close>

definition record_rebuild_stage :: "tree \<Rightarrow> string option \<Rightarrow> string option \<Rightarrow> tree" where
  "record_rebuild_stage dest stale_from generation =
     (if stale_from = None \<and> generation = None \<and> dest META_NAME = None then dest
      else
        let current = (case read_json_object dest META_NAME of None \<Rightarrow> [] | Some d \<Rightarrow> d)
        in dest(META_NAME \<mapsto> Document (JObject (rebuild_mutation stale_from generation current))))"

record SharedCacheBusy =
  busy_job_id :: string
  retry_after_sec :: int
  max_retries :: nat

text \<open>The body of the lock: it runs when the lock was free, otherwise the busy error is raised.\<close>

definition shared_book_lock :: "bool \<Rightarrow> string \<Rightarrow> int \<Rightarrow> nat \<Rightarrow> 'a \<Rightarrow> SharedCacheBusy + 'a" where
  "shared_book_lock acquired job_id retry_after retries body =
     (if \<not> acquired then Inl \<lparr>busy_job_id = job_id, retry_after_sec = retry_after, max_retries = retries\<rparr> else Inr body)"

section \<open>Stale stages\<close>

definition recorded_or_layout :: "string option \<Rightarrow> string" where
  "recorded_or_layout recorded =
     (case recorded of
        None \<Rightarrow> ''layout''
      | Some r \<Rightarrow> if r \<in> set STAGE_ORDER \<and> stage_index r \<le> stage_index ''layout'' then r else ''layout'')"

definition shared_stale_stage ::
  "(string \<times> string) list \<Rightarrow> string \<Rightarrow> tree \<Rightarrow> bool \<Rightarrow> string option \<Rightarrow> string option" where
  "shared_stale_stage stages fingerprint book adopt_current recorded =
     (case book STAGES_NAME of
        None \<Rightarrow> if adopt_current \<or> \<not> cache_has_body book then None else Some (recorded_or_layout recorded)
      | Some (Document (JObject payload)) \<Rightarrow>
          (case stale_from_meta stages fingerprint (Some payload) of
             Some detected \<Rightarrow> Some detected
           | None \<Rightarrow> if recorded = Some ''compile'' \<or> recorded = Some ''layout'' then recorded else None)
      | Some _ \<Rightarrow> Some (recorded_or_layout recorded))"

definition session_stale_stage :: "(string \<times> string) list \<Rightarrow> string \<Rightarrow> json_dict option \<Rightarrow> string option" where
  "session_stale_stage stages fingerprint meta =
     (case (case meta of None \<Rightarrow> None | Some d \<Rightarrow> as_text (map_of d REBUILD_FROM)) of
        Some value \<Rightarrow> if value \<in> set STAGE_ORDER then Some value else stale_from_meta stages fingerprint meta
      | None \<Rightarrow> stale_from_meta stages fingerprint meta)"

record SharedInvalidation =
  rebuilt_from :: "string option"
  trusted_stages :: "json_dict option"
  adopt :: bool

text \<open>The result, the session and book directories behind it, and whether the deletion is logged.\<close>

definition invalidate_for_run ::
  "(string \<times> string) list \<Rightarrow> string \<Rightarrow> tree \<Rightarrow> tree \<Rightarrow> bool \<Rightarrow> SharedInvalidation \<times> tree \<times> tree \<times> bool" where
  "invalidate_for_run stages fingerprint dest book shared =
     (let meta = read_meta dest;
          session_stale = session_stale_stage stages fingerprint meta;
          trusted = stage_map meta;
          dest' = fst (clear_downstream_artifacts dest session_stale None True)
      in if shared then
           let adopt_now = publisher_matches fingerprint meta \<or> \<not> cache_has_body book;
               stale = shared_stale_stage stages fingerprint book adopt_now session_stale;
               (removed, book') = clear_shared_artifacts book stale
           in (\<lparr>rebuilt_from = stale, trusted_stages = trusted, adopt = adopt_now\<rparr>, dest', book', stale \<noteq> None \<and> removed)
         else (\<lparr>rebuilt_from = None, trusted_stages = None, adopt = False\<rparr>, dest', book, False))"

section \<open>Stamping\<close>

definition stamp_stage ::
  "(string \<times> string) list \<Rightarrow> nat option \<Rightarrow> json_dict \<Rightarrow> json_dict \<Rightarrow> bool \<Rightarrow> string \<Rightarrow> string" where
  "stamp_stage current rank previous trusted adopt_now name =
     (let now = dict_get current name '''' in
      if (case rank of None \<Rightarrow> False | Some r \<Rightarrow> r \<le> stage_index name) then now
      else if map_of previous name = Some (JString now) \<or> map_of trusted name = Some (JString now) then now
      else
        case as_text (map_of previous name) of
          Some prev \<Rightarrow> if prev \<noteq> '''' then prev else if adopt_now then now else ''unverified''
        | None \<Rightarrow> if adopt_now then now else ''unverified'')"

definition write_shared_stamp ::
  "(string \<times> string) list \<Rightarrow> string \<Rightarrow> tree \<Rightarrow> string option \<Rightarrow> json_dict option \<Rightarrow> bool \<Rightarrow> tree" where
  "write_shared_stamp current stamp book rebuilt trusted adopt_now =
     (if \<not> cache_has_body book then book
      else
        let previous = (case stage_map (read_json_object book STAGES_NAME) of None \<Rightarrow> [] | Some d \<Rightarrow> d);
            trusted_now = (case trusted of None \<Rightarrow> [] | Some d \<Rightarrow> d);
            rank = (case rebuilt of
                      None \<Rightarrow> None
                    | Some r \<Rightarrow> if r \<in> set STAGE_ORDER then Some (stage_index r) else None);
            stages = map (\<lambda>name. (name, stamp_stage current rank previous trusted_now adopt_now name)) STAGE_ORDER;
            complete = list_all (\<lambda>name. dict_get stages name '''' = dict_get current name '''') STAGE_ORDER
        in book(STAGES_NAME \<mapsto> Document (JObject
             [(''publisher'', JString (if complete then stamp else ''partial'')),
              (''stages'', JObject (map (\<lambda>(k, v). (k, JString v)) stages))])))"

text \<open>
  One shared run under the book lock: invalidation, the pipeline, the stamp. \<open>built\<close> is the
  book directory the pipeline leaves behind.
\<close>

definition shared_run ::
  "(string \<times> string) list \<Rightarrow> string \<Rightarrow> tree \<Rightarrow> tree \<Rightarrow> tree \<Rightarrow> tree" where
  "shared_run stages fingerprint dest book built =
     (case invalidate_for_run stages fingerprint dest book True of
        (found, _) \<Rightarrow> write_shared_stamp stages fingerprint built (rebuilt_from found) (trusted_stages found) (adopt found))"

section \<open>Clearing only removes\<close>

lemma unlink_all_apply: "snd (unlink_all paths (removed, t)) p = (if p \<in> set paths then None else t p)"
proof (induction paths arbitrary: removed t)
  case (Cons path paths)
  have "unlink_all (path # paths) (removed, t) = unlink_all paths (removed \<or> t path \<noteq> None, t(path := None))"
    by (simp add: unlink_all_def unlink_def)
  with Cons show ?case by auto
qed (simp add: unlink_all_def)

lemma unlink_as_all: "unlink path s = unlink_all [path] s"
  by (simp add: unlink_all_def)

definition shared_artifacts :: "string set" where
  "shared_artifacts = {''layout/layout.json''} \<union> set FORMULA_IR \<union> set RAW"

lemma unlink_all_cases: "snd (unlink_all paths s) p = (if p \<in> set paths then None else snd s p)"
  using unlink_all_apply [of paths "fst s" "snd s" p] by simp

lemma clear_shared_kept: "p \<notin> shared_artifacts \<Longrightarrow> snd (clear_shared_artifacts book stale) p = book p"
  by (auto simp: clear_shared_artifacts_def Let_def unlink_as_all unlink_all_cases shared_artifacts_def split: option.split)

lemma stages_kept: "snd (clear_shared_artifacts book stale) STAGES_NAME = book STAGES_NAME"
  by (rule clear_shared_kept) (simp add: shared_artifacts_def STAGES_NAME_def FORMULA_IR_def RAW_def)

section \<open>A stamped cache\<close>

abbreviation stage_now :: "(string \<times> string) list \<Rightarrow> string \<Rightarrow> json option" where
  "stage_now stages name \<equiv> Some (JString (dict_get stages name ''''))"

text \<open>The sidecar that \<open>write_shared_stamp\<close> leaves: complete, or marked partial.\<close>

definition sidecar :: "tree \<Rightarrow> string \<Rightarrow> json_dict \<Rightarrow> bool" where
  "sidecar book publisher m \<longleftrightarrow>
     book STAGES_NAME = Some (Document (JObject [(''publisher'', JString publisher), (''stages'', JObject m)]))"

definition fresh :: "(string \<times> string) list \<Rightarrow> string \<Rightarrow> tree \<Rightarrow> bool" where
  "fresh stages fingerprint book \<longleftrightarrow>
     (\<exists>m. sidecar book fingerprint m \<and> m \<noteq> [] \<and> list_all (\<lambda>name. map_of m name = stage_now stages name) STAGE_ORDER)"

definition stamped :: "(string \<times> string) list \<Rightarrow> string \<Rightarrow> tree \<Rightarrow> bool" where
  "stamped stages fingerprint book \<longleftrightarrow> fresh stages fingerprint book \<or>
     (\<exists>m. sidecar book ''partial'' m \<and> m \<noteq> [] \<and> list_ex (\<lambda>name. map_of m name \<noteq> stage_now stages name) STAGE_ORDER)"

definition written_stages ::
  "(string \<times> string) list \<Rightarrow> tree \<Rightarrow> string option \<Rightarrow> json_dict option \<Rightarrow> bool \<Rightarrow> string \<Rightarrow> string" where
  "written_stages current book rebuilt trusted adopt_now =
     stamp_stage current
       (case rebuilt of None \<Rightarrow> None | Some r \<Rightarrow> if r \<in> set STAGE_ORDER then Some (stage_index r) else None)
       (case stage_map (read_json_object book STAGES_NAME) of None \<Rightarrow> [] | Some d \<Rightarrow> d)
       (case trusted of None \<Rightarrow> [] | Some d \<Rightarrow> d) adopt_now"

lemma dict_get_map: "name \<in> set STAGE_ORDER \<Longrightarrow> dict_get (map (\<lambda>name. (name, f name)) STAGE_ORDER) name d = f name"
  by (auto simp: dict_get_def STAGE_ORDER_def)

lemma map_of_texts: "name \<in> set STAGE_ORDER \<Longrightarrow> map_of (map (\<lambda>name. (name, JString (f name))) STAGE_ORDER) name = Some (JString (f name))"
  by (auto simp: STAGE_ORDER_def)

lemma write_shared_stamp_body:
  assumes "cache_has_body book"
  shows "sidecar (write_shared_stamp current stamp book rebuilt trusted adopt_now)
     (if list_all (\<lambda>name. written_stages current book rebuilt trusted adopt_now name = dict_get current name '''') STAGE_ORDER
      then stamp else ''partial'')
     (map (\<lambda>name. (name, JString (written_stages current book rebuilt trusted adopt_now name))) STAGE_ORDER)"
proof -
  let ?w = "written_stages current book rebuilt trusted adopt_now"
  have "list_all (\<lambda>name. dict_get (map (\<lambda>name. (name, ?w name)) STAGE_ORDER) name '''' = dict_get current name '''') STAGE_ORDER
      = list_all (\<lambda>name. ?w name = dict_get current name '''') STAGE_ORDER"
    by (rule list.pred_cong) (simp_all add: dict_get_map)
  then show ?thesis using assms
    unfolding write_shared_stamp_def sidecar_def written_stages_def Let_def by (simp add: comp_def)
qed

lemma write_fresh:
  assumes "cache_has_body book"
    and "\<And>name. name \<in> set STAGE_ORDER \<Longrightarrow> written_stages current book rebuilt trusted adopt_now name = dict_get current name ''''"
  shows "fresh current stamp (write_shared_stamp current stamp book rebuilt trusted adopt_now)"
proof -
  have ne: "map (\<lambda>name. (name, JString (written_stages current book rebuilt trusted adopt_now name))) STAGE_ORDER \<noteq> []"
    by (simp add: STAGE_ORDER_def)
  have "list_all (\<lambda>name. written_stages current book rebuilt trusted adopt_now name = dict_get current name '''') STAGE_ORDER"
    using assms(2) by (simp add: list_all_iff)
  with write_shared_stamp_body [OF assms(1), of current stamp rebuilt trusted adopt_now] ne assms(2) show ?thesis
    unfolding fresh_def by (auto simp: list_all_iff map_of_texts)
qed

lemma write_stamped:
  assumes "cache_has_body book"
  shows "stamped current stamp (write_shared_stamp current stamp book rebuilt trusted adopt_now)"
proof -
  let ?w = "written_stages current book rebuilt trusted adopt_now"
  show ?thesis
  proof (cases "list_all (\<lambda>name. ?w name = dict_get current name '''') STAGE_ORDER")
    case True
    then have "fresh current stamp (write_shared_stamp current stamp book rebuilt trusted adopt_now)"
      using write_fresh [OF assms] by (simp add: list_all_iff)
    then show ?thesis by (simp add: stamped_def)
  next
    case False
    then obtain name where n: "name \<in> set STAGE_ORDER" "?w name \<noteq> dict_get current name ''''" by (auto simp: list_all_iff)
    then have "map_of (map (\<lambda>name. (name, JString (?w name))) STAGE_ORDER) name \<noteq> stage_now current name"
      by (simp add: map_of_texts)
    then have "list_ex (\<lambda>name. map_of (map (\<lambda>name. (name, JString (?w name))) STAGE_ORDER) name \<noteq> stage_now current name) STAGE_ORDER"
      using n(1) unfolding list_ex_iff by blast
    moreover have "map (\<lambda>name. (name, JString (?w name))) STAGE_ORDER \<noteq> []" by (simp add: STAGE_ORDER_def)
    ultimately show ?thesis
      using write_shared_stamp_body [OF assms, of current stamp rebuilt trusted adopt_now] False unfolding stamped_def by auto
  qed
qed

section \<open>Stamped caches become fresh\<close>

lemma sidecar_read: "sidecar book p m \<Longrightarrow> read_json_object book STAGES_NAME = Some [(''publisher'', JString p), (''stages'', JObject m)]"
  by (simp add: sidecar_def read_json_object_def)

lemma sidecar_stale:
  assumes "sidecar book p m"
  shows "shared_stale_stage stages fp book adopt_now recorded =
    (case stale_from_meta stages fp (Some [(''publisher'', JString p), (''stages'', JObject m)]) of
       Some detected \<Rightarrow> Some detected
     | None \<Rightarrow> if recorded = Some ''compile'' \<or> recorded = Some ''layout'' then recorded else None)"
  using assms by (simp add: sidecar_def shared_stale_stage_def)

lemma sidecar_matches:
  "stale_from_meta stages fp (Some [(''publisher'', JString p), (''stages'', JObject m)]) =
     (if p = fp then None
      else if m = [] then Some ''layout''
      else case find (\<lambda>name. map_of m name \<noteq> stage_now stages name) STAGE_ORDER of
        Some name \<Rightarrow> Some name | None \<Rightarrow> Some ''layout'')"
  by (simp add: stale_from_meta_def publisher_matches_def as_dict_def)

lemma fresh_stale:
  "fresh stages fp book \<Longrightarrow>
     shared_stale_stage stages fp book adopt_now recorded = (if recorded = Some ''compile'' \<or> recorded = Some ''layout'' then recorded else None)"
  by (auto simp: fresh_def sidecar_stale sidecar_matches)

text \<open>The first stage that differs: every earlier one is current.\<close>

lemma find_first:
  assumes "find P xs = Some x" "distinct xs" "y \<in> set xs" "\<not> length (takeWhile (\<lambda>s. s \<noteq> x) xs) \<le> length (takeWhile (\<lambda>s. s \<noteq> y) xs)"
  shows "\<not> P y"
  using assms by (induction xs) (auto split: if_splits)

lemma stamped_rerun_stage:
  assumes "stamped stages fp book" "fp \<noteq> ''partial''" "name \<in> set STAGE_ORDER" and same: "built STAGES_NAME = book STAGES_NAME"
  shows "written_stages stages built (shared_stale_stage stages fp book adopt_now recorded) trusted adopt_now' name = dict_get stages name ''''"
proof -
  from assms(1) consider (fresh) "fresh stages fp book"
    | (partial) m where "sidecar book ''partial'' m" "m \<noteq> []" "list_ex (\<lambda>name. map_of m name \<noteq> stage_now stages name) STAGE_ORDER"
    unfolding stamped_def by blast
  then show ?thesis
  proof cases
    case fresh
    then obtain m where m: "sidecar book fp m" "list_all (\<lambda>name. map_of m name = stage_now stages name) STAGE_ORDER" by (auto simp: fresh_def)
    have "read_json_object built STAGES_NAME = read_json_object book STAGES_NAME" using same by (simp add: read_json_object_def)
    then show ?thesis using sidecar_read [OF m(1)] m(2) assms(3)
      by (simp add: written_stages_def stamp_stage_def Let_def stage_map_def as_dict_def list_all_iff)
  next
    case (partial m)
    obtain first where f: "find (\<lambda>name. map_of m name \<noteq> stage_now stages name) STAGE_ORDER = Some first"
      using partial(3) by (cases "find (\<lambda>name. map_of m name \<noteq> stage_now stages name) STAGE_ORDER") (auto simp: find_None_iff list_ex_iff)
    have stale: "shared_stale_stage stages fp book adopt_now recorded = Some first"
      using sidecar_stale [OF partial(1)] f assms(2) partial(2) by (simp add: sidecar_matches)
    have r: "read_json_object built STAGES_NAME = Some [(''publisher'', JString ''partial''), (''stages'', JObject m)]"
      using same sidecar_read [OF partial(1)] by (simp add: read_json_object_def)
    have "first \<in> set STAGE_ORDER" using f by (metis find_Some_iff nth_mem)
    moreover have "map_of m name = stage_now stages name" if "\<not> stage_index first \<le> stage_index name"
      using find_first [OF f _ assms(3)] that by (auto simp: stage_index_def STAGE_ORDER_def)
    ultimately show ?thesis
      by (cases "stage_index first \<le> stage_index name") (simp_all add: stale written_stages_def stamp_stage_def Let_def stage_map_def as_dict_def r)
  qed
qed

lemma shared_run_stamp:
  "shared_run stages fp dest book built =
     write_shared_stamp stages fp built
       (shared_stale_stage stages fp book (publisher_matches fp (read_meta dest) \<or> \<not> cache_has_body book)
          (session_stale_stage stages fp (read_meta dest)))
       (stage_map (read_meta dest)) (publisher_matches fp (read_meta dest) \<or> \<not> cache_has_body book)"
  by (simp add: shared_run_def invalidate_for_run_def Let_def split: prod.split)

lemma shared_run_fresh:
  assumes "stamped stages fp book" "fp \<noteq> ''partial''" "built STAGES_NAME = book STAGES_NAME" "cache_has_body built"
  shows "fresh stages fp (shared_run stages fp dest book built)"
  unfolding shared_run_stamp by (rule write_fresh [OF assms(4)]) (rule stamped_rerun_stage [where stages = stages and fp = fp and book = book and built = built], use assms in simp_all)

lemma fresh_run_keeps:
  assumes "fresh stages fp book" "session_stale_stage stages fp (read_meta dest) = None"
  shows "\<exists>found. invalidate_for_run stages fp dest book True = (found, dest, book, False) \<and> rebuilt_from found = None"
  using assms by (simp add: invalidate_for_run_def fresh_stale clear_downstream_artifacts_def clear_shared_artifacts_def Let_def)

text \<open>
  C30. Whatever stamp a shared cache carried, after two runs of unchanged code it is fresh: the
  stamp of the second run names the current hash of every stage, no session that only asks for
  the current code finds a stale stage in it, and the next run of a session that is itself
  current deletes nothing. The pipeline may leave any files behind, as long as it leaves a
  cache and does not touch the stamp. A digest is 64 characters long.
\<close>

theorem two_runs_make_fresh:
  assumes sha: "\<forall>x. length (digest x) = 64"
    and code: "stages = compute_stages digest pk" "fp = hash_stages digest stages"
    and run1: "cache_has_body built1" "book1 = shared_run stages fp dest1 book built1"
    and run2: "cache_has_body built2" "built2 STAGES_NAME = book1 STAGES_NAME" "book2 = shared_run stages fp dest2 book1 built2"
    and session: "session_stale_stage stages fp (read_meta dest3) = None"
  shows "shared_stale_stage stages fp book2 adopt_now None = None
    \<and> (case invalidate_for_run stages fp dest3 book2 True of
         (found, dest', book', logged) \<Rightarrow> rebuilt_from found = None \<and> dest' = dest3 \<and> book' = book2 \<and> \<not> logged)"
proof -
  have "length fp = 64" using sha by (simp add: code(2) hash_stages_def)
  then have fp: "fp \<noteq> ''partial''" by auto
  have "stamped stages fp book1" unfolding run1(2) shared_run_stamp by (rule write_stamped [OF run1(1)])
  then have f: "fresh stages fp book2" unfolding run2(3) using shared_run_fresh [where book = book1 and built = built2] fp run2(1,2) by blast
  obtain found where "invalidate_for_run stages fp dest3 book2 True = (found, dest3, book2, False)" "rebuilt_from found = None"
    using fresh_run_keeps [OF f session] by blast
  then show ?thesis using fresh_stale [OF f, of adopt_now None] by simp
qed

definition flat_digest :: "string \<Rightarrow> string" where
  "flat_digest x = replicate 64 CHR ''0''"

definition small_stages :: "(string \<times> string) list" where
  "small_stages = compute_stages flat_digest small_package"

definition built_cache :: tree where
  "built_cache = [''layout/layout.json'' \<mapsto> Opaque]"

definition current_session :: tree where
  "current_session = [META_NAME \<mapsto> Document (JObject [(''publisher'', JString (hash_stages flat_digest small_stages))])]"

theorem two_runs_make_fresh_witness:
  "shared_stale_stage small_stages (hash_stages flat_digest small_stages)
     (shared_run small_stages (hash_stages flat_digest small_stages) Map.empty
       (shared_run small_stages (hash_stages flat_digest small_stages) Map.empty (built_cache(STAGES_NAME \<mapsto> Opaque)) built_cache)
       (shared_run small_stages (hash_stages flat_digest small_stages) Map.empty (built_cache(STAGES_NAME \<mapsto> Opaque)) built_cache))
     False None = None"
proof -
  let ?fp = "hash_stages flat_digest small_stages"
  let ?b1 = "shared_run small_stages ?fp Map.empty (built_cache(STAGES_NAME \<mapsto> Opaque)) built_cache"
  have sha: "\<forall>x. length (flat_digest x) = 64" by (simp add: flat_digest_def)
  have body: "cache_has_body built_cache" by (simp add: cache_has_body_def built_cache_def)
  have body1: "cache_has_body ?b1"
    unfolding shared_run_stamp write_shared_stamp_def Let_def using body by (simp add: cache_has_body_def STAGES_NAME_def)
  have s: "session_stale_stage small_stages ?fp (read_meta current_session) = None"
    by (simp add: session_stale_stage_def read_meta_def read_json_object_def current_session_def as_text_def REBUILD_FROM_def
        stale_from_meta_def publisher_matches_def)
  from two_runs_make_fresh [where digest = flat_digest and pk = small_package and fp = ?fp and ?built1.0 = built_cache and ?built2.0 = ?b1
      and adopt_now = False, OF sha small_stages_def refl body refl body1 refl refl s, of Map.empty] show ?thesis by blast
qed

end
