(* ===== verification/Packed_Cycles.thy ===== *)
theory Packed_Cycles
  imports Cycles
begin

text \<open>
  The streaming pass over strong components of \<open>src/finance_context/graph/stage.py\<close>: node ids
  numbered in first-seen order (\<open>_NodeIds\<close>), edges as two integer arrays with one flag byte, and
  \<open>_cycles_packed\<close>, which votes on the class of a component edge by edge instead of collecting
  edges per component. The result: the records of \<open>classify_cycles\<close>, with the same call of
  \<open>connected_components\<close>.
\<close>

section \<open>Node ids and packed edges\<close>

type_synonym node_ids = "(string \<times> nat) list"

definition nid :: "string \<Rightarrow> node_ids \<Rightarrow> nat \<times> node_ids" where
  "nid name ids =
     (case map_of ids name of
        Some slot \<Rightarrow> (slot, ids)
      | None \<Rightarrow> (length ids, ids @ [(name, length ids)]))"

definition STRUCTURAL :: nat where
  "STRUCTURAL = 2"

record Packed =
  pk_ids :: node_ids
  pk_src :: "nat list"
  pk_tgt :: "nat list"
  pk_flags :: "nat list"

definition no_packed :: Packed where
  "no_packed = \<lparr>pk_ids = [], pk_src = [], pk_tgt = [], pk_flags = []\<rparr>"

text \<open>The three appends of an edge; the source is numbered first.\<close>

definition pack_edge :: "string \<Rightarrow> string \<Rightarrow> nat \<Rightarrow> Packed \<Rightarrow> Packed" where
  "pack_edge source target flag p =
     (case nid source (pk_ids p) of
        (src, ids) \<Rightarrow>
          (case nid target ids of
             (tgt, ids) \<Rightarrow>
               \<lparr>pk_ids = ids, pk_src = pk_src p @ [src], pk_tgt = pk_tgt p @ [tgt], pk_flags = pk_flags p @ [flag]\<rparr>))"

section \<open>Votes\<close>

record Votes =
  vt_all :: "(int \<times> bool) list"
  vt_saw :: "int set"
  vt_self :: "int set"

definition no_votes :: Votes where
  "no_votes = \<lparr>vt_all = [], vt_saw = {}, vt_self = {}\<rparr>"

definition vote :: "int \<Rightarrow> bool \<Rightarrow> bool \<Rightarrow> Votes \<Rightarrow> Votes" where
  "vote label chain is_self v =
     \<lparr>vt_all = AList.update label (case map_of (vt_all v) label of None \<Rightarrow> chain | Some previous \<Rightarrow> previous \<and> chain) (vt_all v),
      vt_saw = insert label (vt_saw v),
      vt_self = (if is_self then insert label (vt_self v) else vt_self v)\<rparr>"

definition label_size :: "int list \<Rightarrow> int \<Rightarrow> nat" where
  "label_size labels label = length (filter (\<lambda>l. l = label) labels)"

definition vote_edge :: "int list \<Rightarrow> Votes \<Rightarrow> (nat \<times> nat) \<times> nat \<Rightarrow> Votes" where
  "vote_edge labels v edge =
     (case edge of ((row, col), flag) \<Rightarrow>
        let label = labels ! row in
        if labels ! row \<noteq> labels ! col then v
        else if label_size labels label < 2 \<and> row \<noteq> col then v
        else if flag = STRUCTURAL then v
        else vote label (flag \<noteq> 0) (row = col) v)"

text \<open>The array from slot to index in \<open>nodes\<close>.\<close>

definition packed_rank :: "node_ids \<Rightarrow> string list \<Rightarrow> nat list" where
  "packed_rank id_of nodes =
     foldl (\<lambda>rank (slot, i). rank[slot := i]) (replicate (length nodes) 0)
       (zip (map (\<lambda>name. the (map_of id_of name)) nodes) [0..<length nodes])"

text \<open>Member lists only for components that can be cycles.\<close>

definition packed_members :: "int list \<Rightarrow> int set \<Rightarrow> (string \<times> int) list \<Rightarrow> (int \<times> string list) list" where
  "packed_members labels self_loop labelled =
     foldl (\<lambda>members (name, label).
         if label_size labels label < 2 \<and> label \<notin> self_loop then members
         else dict_alter label [] (\<lambda>bucket. bucket @ [name]) members)
       [] labelled"

fun packed_records :: "nat \<Rightarrow> Votes \<Rightarrow> (int \<times> string list) list \<Rightarrow> CycleRecord list" where
  "packed_records seq v [] = []"
| "packed_records seq v ((label, names) # groups) =
     (let cells_only = filter is_cell_id names in
      if length names < 2 \<and> label \<notin> vt_self v then packed_records seq v groups
      else if cells_only = [] \<or> (length cells_only < 2 \<and> label \<notin> vt_self v) then packed_records seq v groups
      else
        \<lparr>cy_id = ''c'' @ nat_str seq, cy_members = sort cells_only,
         cy_class = (if label \<in> vt_saw v \<and> dict_get (vt_all v) label False then ''iterative_ok'' else ''unexpected'')\<rparr>
        # packed_records (seq + 1) v groups)"

text \<open>
  scipy returns one label per vertex; other lengths raise at \<open>zip(..., strict=True)\<close> at the latest.
\<close>

definition cycles_packed ::
  "components \<Rightarrow> Packed \<Rightarrow> ((string \<Rightarrow> int option) \<Rightarrow> (int \<times> bool \<times> bool) list) option \<Rightarrow> CycleRecord list result" where
  "cycles_packed components p extra =
     (if pk_ids p = [] then Inr []
      else
        let nodes = sort (map fst (pk_ids p));
            rank = packed_rank (pk_ids p) nodes;
            pairs = zip (map (\<lambda>slot. rank ! slot) (pk_src p)) (map (\<lambda>slot. rank ! slot) (pk_tgt p));
            labels = components (length nodes) pairs
        in if length labels \<noteq> length nodes then Inl (ValueError ''zip() argument 2'')
           else
             let edge_votes = foldl (vote_edge labels) no_votes (zip pairs (pk_flags p));
                 name_label = (\<lambda>name. map_option (\<lambda>slot. labels ! (rank ! slot)) (map_of (pk_ids p) name));
                 votes = (case extra of
                            None \<Rightarrow> edge_votes
                          | Some extra \<Rightarrow> foldl (\<lambda>v (label, chain, is_self). vote label chain is_self v) edge_votes (extra name_label))
             in Inr (packed_records 1 votes (packed_members labels (vt_self votes) (zip nodes labels))))"

section \<open>Numbering is an index\<close>

definition ids_ok :: "node_ids \<Rightarrow> bool" where
  "ids_ok ids \<longleftrightarrow> distinct (map fst ids) \<and> map snd ids = [0..<length ids]"

lemma ids_ok_Nil [simp]: "ids_ok []"
  by (simp add: ids_ok_def)

lemma map_of_key: "(\<exists>k. map_of d x = Some k) \<longleftrightarrow> x \<in> fst ` set d"
  by (metis map_of_eq_None_iff not_None_eq)

lemma nid_facts:
  assumes "ids_ok ids" "nid name ids = (slot, ids')"
  shows "ids_ok ids'" "map_of ids' name = Some slot" "set (map fst ids') = insert name (set (map fst ids))"
    "\<And>x k. map_of ids x = Some k \<Longrightarrow> map_of ids' x = Some k"
proof -
  have new: "map_of ids name = None \<Longrightarrow> name \<notin> fst ` set ids" by (simp add: map_of_eq_None_iff)
  show "ids_ok ids'" "map_of ids' name = Some slot"
    using assms new by (auto simp: nid_def ids_ok_def map_add_def split: option.splits)
  show "set (map fst ids') = insert name (set (map fst ids))"
    using assms map_of_key [of ids name] by (auto simp: nid_def split: option.splits)
  show "map_of ids' x = Some k" if "map_of ids x = Some k" for x k
    using assms that by (auto simp: nid_def map_add_def split: option.splits)
qed

definition pack_all :: "(string \<times> string \<times> nat) list \<Rightarrow> Packed \<Rightarrow> Packed" where
  "pack_all es p = foldl (\<lambda>p (source, target, flag). pack_edge source target flag p) p es"

text \<open>\<open>p\<close> holds the edges \<open>es\<close> by number.\<close>

definition packs :: "(string \<times> string \<times> nat) list \<Rightarrow> Packed \<Rightarrow> bool" where
  "packs es p \<longleftrightarrow> ids_ok (pk_ids p) \<and> set (map fst (pk_ids p)) = fst ` set es \<union> (fst \<circ> snd) ` set es
     \<and> map Some (pk_src p) = map (\<lambda>e. map_of (pk_ids p) (fst e)) es
     \<and> map Some (pk_tgt p) = map (\<lambda>e. map_of (pk_ids p) (fst (snd e))) es
     \<and> pk_flags p = map (snd \<circ> snd) es"

lemma packs_step: "packs es p \<Longrightarrow> packs (es @ [(s, t, f)]) (pack_edge s t f p)"
proof -
  assume "packs es p"
  then have ok: "ids_ok (pk_ids p)" and dom: "set (map fst (pk_ids p)) = fst ` set es \<union> (fst \<circ> snd) ` set es"
    and src: "map Some (pk_src p) = map (\<lambda>e. map_of (pk_ids p) (fst e)) es"
    and tgt: "map Some (pk_tgt p) = map (\<lambda>e. map_of (pk_ids p) (fst (snd e))) es"
    and fl: "pk_flags p = map (snd \<circ> snd) es" by (simp_all add: packs_def)
  obtain a ids1 where n1: "nid s (pk_ids p) = (a, ids1)" by fastforce
  obtain b ids2 where n2: "nid t ids1 = (b, ids2)" by fastforce
  note f1 = nid_facts [OF ok n1]
  note f2 = nid_facts [OF f1(1) n2]
  have keep: "map_of ids2 x = map_of (pk_ids p) x" if x: "x \<in> set (map fst (pk_ids p))" for x
  proof -
    obtain k where "map_of (pk_ids p) x = Some k" using x map_of_key [of "pk_ids p" x] by auto
    with f1(4) f2(4) show ?thesis by simp
  qed
  have "map (\<lambda>e. map_of ids2 (fst e)) es = map (\<lambda>e. map_of (pk_ids p) (fst e)) es"
    "map (\<lambda>e. map_of ids2 (fst (snd e))) es = map (\<lambda>e. map_of (pk_ids p) (fst (snd e))) es"
    by (rule map_cong [OF refl], rule keep, unfold dom, force)+
  with src tgt have cols: "map Some (pk_src p @ [a]) = map (\<lambda>e. map_of ids2 (fst e)) (es @ [(s, t, f)])"
    "map Some (pk_tgt p @ [b]) = map (\<lambda>e. map_of ids2 (fst (snd e))) (es @ [(s, t, f)])"
    using f1(2) f2(2,4) by simp_all
  have "set (map fst ids2) = fst ` set (es @ [(s, t, f)]) \<union> (fst \<circ> snd) ` set (es @ [(s, t, f)])"
    unfolding f2(3) f1(3) dom by auto
  with cols f2(1) fl show ?thesis
    by (simp add: packs_def pack_edge_def n1 n2)
qed

lemma pack_all_packs: "packs es (pack_all es no_packed)"
proof (induction es rule: rev_induct)
  case Nil
  then show ?case by (simp add: pack_all_def packs_def no_packed_def)
next
  case (snoc e es)
  obtain s t f where e: "e = (s, t, f)" by (cases e)
  from packs_step [OF snoc, of s t f] show ?case by (simp add: pack_all_def e)
qed

section \<open>Ranks are positions in the sorted names\<close>

lemma nth_foldl_update:
  assumes "distinct ks" "\<forall>k \<in> set ks. k < length r" "length vs = length ks"
  shows "length (foldl (\<lambda>r (k, v). r[k := v]) r (zip ks vs)) = length r"
    and "i < length ks \<Longrightarrow> foldl (\<lambda>r (k, v). r[k := v]) r (zip ks vs) ! (ks ! i) = vs ! i"
    and "j \<notin> set ks \<Longrightarrow> foldl (\<lambda>r (k, v). r[k := v]) r (zip ks vs) ! j = r ! j"
proof -
  have all: "length (foldl (\<lambda>r (k, v). r[k := v]) r (zip ks vs)) = length r \<and>
    (\<forall>i < length ks. foldl (\<lambda>r (k, v). r[k := v]) r (zip ks vs) ! (ks ! i) = vs ! i) \<and>
    (\<forall>j. j \<notin> set ks \<longrightarrow> foldl (\<lambda>r (k, v). r[k := v]) r (zip ks vs) ! j = r ! j)"
    using assms
  proof (induction ks arbitrary: r vs)
    case (Cons k ks)
    then obtain v vs' where vs: "vs = v # vs'" by (cases vs) auto
    have ih: "length (foldl (\<lambda>r (k, v). r[k := v]) (r[k := v]) (zip ks vs')) = length r"
      "\<And>i. i < length ks \<Longrightarrow> foldl (\<lambda>r (k, v). r[k := v]) (r[k := v]) (zip ks vs') ! (ks ! i) = vs' ! i"
      "\<And>j. j \<notin> set ks \<Longrightarrow> foldl (\<lambda>r (k, v). r[k := v]) (r[k := v]) (zip ks vs') ! j = r[k := v] ! j"
      using Cons.IH [of "r[k := v]" vs'] Cons.prems vs by auto
    show ?case using ih Cons.prems by (auto simp: vs nth_Cons split: nat.split)
  qed simp
  show "length (foldl (\<lambda>r (k, v). r[k := v]) r (zip ks vs)) = length r" using all by blast
  show "i < length ks \<Longrightarrow> foldl (\<lambda>r (k, v). r[k := v]) r (zip ks vs) ! (ks ! i) = vs ! i" using all by blast
  show "j \<notin> set ks \<Longrightarrow> foldl (\<lambda>r (k, v). r[k := v]) r (zip ks vs) ! j = r ! j" using all by blast
qed

lemma packed_rank_index:
  assumes ok: "ids_ok ids" and nodes: "nodes = sort (map fst ids)" and slot: "map_of ids name = Some slot"
  shows "packed_rank ids nodes ! slot = the (index_of nodes name)" "index_of nodes name \<noteq> None"
proof -
  have d: "distinct nodes" and sn: "set nodes = fst ` set ids" and len: "length nodes = length ids"
    using ok by (simp_all add: nodes ids_ok_def)
  have inj: "the (map_of ids x) < length ids \<and> map_of ids x = Some (the (map_of ids x))" if x: "x \<in> set nodes" for x
  proof -
    obtain k where k: "map_of ids x = Some k" using x sn map_of_key [of ids x] by blast
    have "snd (x, k) \<in> set (map snd ids)" using map_of_SomeD [OF k] unfolding set_map by (rule imageI)
    moreover have "map snd ids = [0..<length ids]" using ok by (simp only: ids_ok_def)
    ultimately have "k < length ids" by (simp only: set_upt snd_conv atLeastLessThan_iff)
    with k show ?thesis by simp
  qed
  have same: "x = y" if "x \<in> set nodes" "y \<in> set nodes" "the (map_of ids x) = the (map_of ids y)" for x y
  proof -
    have "distinct (map snd ids)" using ok by (simp add: ids_ok_def)
    moreover have "(x, the (map_of ids x)) \<in> set ids" "(y, the (map_of ids x)) \<in> set ids"
      using map_of_SomeD [OF inj [OF that(1), THEN conjunct2]] map_of_SomeD [OF inj [OF that(2), THEN conjunct2]] that(3) by simp_all
    ultimately show ?thesis by (metis eq_key_imp_eq_value distinct_map inj_onD prod.inject snd_conv)
  qed
  have n: "name \<in> set nodes" using slot sn by (force dest: map_of_SomeD)
  then obtain i where i: "i < length nodes" "name = nodes ! i" by (auto simp: in_set_conv_nth)
  let ?ks = "map (\<lambda>name. the (map_of ids name)) nodes"
  have "distinct ?ks" using d same by (simp add: distinct_map inj_on_def)
  moreover have "\<forall>k \<in> set ?ks. k < length (replicate (length nodes) (0::nat))" using inj len by auto
  ultimately have "packed_rank ids nodes ! (?ks ! i) = [0..<length nodes] ! i"
    unfolding packed_rank_def by (rule nth_foldl_update(2)) (use i in auto)
  moreover have "?ks ! i = slot" using i slot by simp
  ultimately show "packed_rank ids nodes ! slot = the (index_of nodes name)" "index_of nodes name \<noteq> None"
    using i index_of_nth [OF d i(1)] by simp_all
qed

definition endpoints :: "string \<times> string \<times> nat \<Rightarrow> string \<times> string" where
  "endpoints e = (fst e, fst (snd e))"

lemma map_the_Some: "map Some xs = map f ys \<Longrightarrow> xs = map (\<lambda>y. the (f y)) ys"
  by (drule arg_cong [of _ _ "map the"]) (simp add: comp_def)

text \<open>Nodes, pairs and labels of the packed pass are those of \<open>classify_cycles\<close>.\<close>

lemma packs_graph:
  assumes p: "packs es p"
  defines "nodes \<equiv> graph_nodes (map endpoints es)"
  shows "sort (map fst (pk_ids p)) = nodes"
    and "zip (map (\<lambda>slot. packed_rank (pk_ids p) nodes ! slot) (pk_src p))
           (map (\<lambda>slot. packed_rank (pk_ids p) nodes ! slot) (pk_tgt p)) = index_pairs nodes (map endpoints es)"
    and "map_option (\<lambda>slot. labels ! (packed_rank (pk_ids p) nodes ! slot)) (map_of (pk_ids p) name) = label_of nodes labels name"
    and "pk_ids p = [] \<longleftrightarrow> nodes = []"
proof -
  from p have ok: "ids_ok (pk_ids p)" and dom: "set (map fst (pk_ids p)) = fst ` set es \<union> (fst \<circ> snd) ` set es"
    and src: "map Some (pk_src p) = map (\<lambda>e. map_of (pk_ids p) (fst e)) es"
    and tgt: "map Some (pk_tgt p) = map (\<lambda>e. map_of (pk_ids p) (fst (snd e))) es" by (simp_all add: packs_def)
  have sn: "set (map fst (pk_ids p)) = set nodes" unfolding dom nodes_def graph_nodes_facts
    by (simp add: image_Un image_image endpoints_def comp_def)
  have d: "distinct (map fst (pk_ids p))" using ok by (simp add: ids_ok_def)
  show nodes: "sort (map fst (pk_ids p)) = nodes"
    by (rule sorted_distinct_set_unique) (use d sn in \<open>simp_all add: nodes_def graph_nodes_def\<close>)
  note rank = packed_rank_index [OF ok nodes [symmetric]]
  have one: "packed_rank (pk_ids p) nodes ! the (map_of (pk_ids p) x) = the (index_of nodes x)" if x: "x \<in> set nodes" for x
  proof -
    obtain k where "map_of (pk_ids p) x = Some k" using x sn map_of_key [of "pk_ids p" x] by auto
    with rank(1) show ?thesis by simp
  qed
  have mem: "fst e \<in> set nodes" "fst (snd e) \<in> set nodes" if "e \<in> set es" for e
    using that unfolding sn [symmetric] dom by auto
  show "zip (map (\<lambda>slot. packed_rank (pk_ids p) nodes ! slot) (pk_src p))
      (map (\<lambda>slot. packed_rank (pk_ids p) nodes ! slot) (pk_tgt p)) = index_pairs nodes (map endpoints es)"
    unfolding map_the_Some [OF src] map_the_Some [OF tgt] index_pairs_def
    using one mem by (auto simp: zip_map_map zip_same_conv_map endpoints_def intro!: map_cong)
  show "map_option (\<lambda>slot. labels ! (packed_rank (pk_ids p) nodes ! slot)) (map_of (pk_ids p) name) = label_of nodes labels name"
  proof (cases "map_of (pk_ids p) name")
    case None
    then have "name \<notin> set nodes" unfolding sn [symmetric] by (simp add: map_of_eq_None_iff)
    with None show ?thesis by (simp add: label_of_def index_of_None [symmetric])
  next
    case (Some slot)
    with rank [OF Some] show ?thesis by (auto simp: label_of_def)
  qed
  show "pk_ids p = [] \<longleftrightarrow> nodes = []" unfolding nodes [symmetric] by (metis length_0_conv length_map length_sort)
qed

section \<open>What the votes amount to\<close>

definition cast :: "(int \<times> bool \<times> bool) list \<Rightarrow> Votes \<Rightarrow> Votes" where
  "cast vs v = foldl (\<lambda>v (label, chain, is_self). vote label chain is_self v) v vs"

definition votes_for :: "int \<Rightarrow> (int \<times> bool \<times> bool) list \<Rightarrow> (bool \<times> bool) list" where
  "votes_for label vs = map snd (filter (\<lambda>v. fst v = label) vs)"

lemma cast_append: "cast (vs @ ws) v = cast ws (cast vs v)"
  by (simp add: cast_def)

lemma cast_facts:
  "label \<in> vt_saw (cast vs no_votes) \<longleftrightarrow> votes_for label vs \<noteq> []"
  "label \<in> vt_self (cast vs no_votes) \<longleftrightarrow> list_ex snd (votes_for label vs)"
  "map_of (vt_all (cast vs no_votes)) label = (if votes_for label vs = [] then None else Some (list_all fst (votes_for label vs)))"
proof -
  have "(label \<in> vt_saw (cast vs no_votes) \<longleftrightarrow> votes_for label vs \<noteq> []) \<and>
    (label \<in> vt_self (cast vs no_votes) \<longleftrightarrow> list_ex snd (votes_for label vs)) \<and>
    map_of (vt_all (cast vs no_votes)) label = (if votes_for label vs = [] then None else Some (list_all fst (votes_for label vs)))"
  proof (induction vs rule: rev_induct)
    case Nil
    then show ?case by (simp add: cast_def no_votes_def votes_for_def)
  next
    case (snoc v vs)
    obtain l b s where v: "v = (l, b, s)" by (cases v)
    have c: "cast (vs @ [v]) no_votes = vote l b s (cast vs no_votes)" by (simp add: cast_def v)
    have f: "votes_for label (vs @ [v]) = votes_for label vs @ (if l = label then [(b, s)] else [])" by (simp add: votes_for_def v)
    show ?case using snoc unfolding c f
      by (cases "votes_for label vs = []") (auto simp: vote_def update_conv')
  qed
  then show "label \<in> vt_saw (cast vs no_votes) \<longleftrightarrow> votes_for label vs \<noteq> []"
    "label \<in> vt_self (cast vs no_votes) \<longleftrightarrow> list_ex snd (votes_for label vs)"
    "map_of (vt_all (cast vs no_votes)) label = (if votes_for label vs = [] then None else Some (list_all fst (votes_for label vs)))"
    by blast+
qed

text \<open>The votes of the edges, in order.\<close>

definition edge_ballot :: "string list \<Rightarrow> int list \<Rightarrow> string \<times> string \<times> nat \<Rightarrow> (int \<times> bool \<times> bool) list" where
  "edge_ballot nodes labels e =
     (case (e, label_of nodes labels (fst e)) of
        ((source, target, flag), Some label) \<Rightarrow>
          if label_of nodes labels target \<noteq> Some label \<or> (label_size labels label < 2 \<and> source \<noteq> target) \<or> flag = STRUCTURAL
          then [] else [(label, flag \<noteq> 0, source = target)]
      | _ \<Rightarrow> [])"

lemma vote_edge_ballot:
  assumes "distinct nodes" "length labels = length nodes" "s \<in> set nodes" "t \<in> set nodes"
  shows "vote_edge labels v ((the (index_of nodes s), the (index_of nodes t)), f) = cast (edge_ballot nodes labels (s, t, f)) v"
proof -
  obtain i j where ij: "s = nodes ! i" "i < length nodes" "t = nodes ! j" "j < length nodes"
    using assms(3,4) by (auto simp: in_set_conv_nth)
  have ix: "index_of nodes s = Some i" "index_of nodes t = Some j" using index_of_nth [OF assms(1)] ij by simp_all
  have eq: "i = j \<longleftrightarrow> s = t" using ij assms(1) by (simp add: nth_eq_iff_index_eq)
  show ?thesis
    by (auto simp: vote_edge_def edge_ballot_def label_of_def ix Let_def cast_def eq)
qed

lemma foldl_vote_edge:
  assumes "distinct nodes" "length labels = length nodes" "fst ` set es \<union> (fst \<circ> snd) ` set es \<subseteq> set nodes"
  shows "foldl (vote_edge labels) v (zip (index_pairs nodes (map endpoints es)) (map (snd \<circ> snd) es)) =
    cast (concat (map (edge_ballot nodes labels) es)) v"
  using assms(3)
proof (induction es arbitrary: v)
  case Nil
  then show ?case by (simp add: index_pairs_def cast_def)
next
  case (Cons e es)
  obtain s t f where e: "e = (s, t, f)" by (cases e)
  from Cons vote_edge_ballot [OF assms(1,2), of s t v f] show ?case
    by (simp add: index_pairs_def e endpoints_def cast_append)
qed

section \<open>Records\<close>

lemma filter_update:
  "filter (\<lambda>(k, v). keep k) (AList.update key v d) =
    (if keep key then AList.update key v (filter (\<lambda>(k, v). keep k) d) else filter (\<lambda>(k, v). keep k) d)"
  by (induction d) auto

lemma dict_get_filter: "keep key \<Longrightarrow> dict_get (filter (\<lambda>(k, v). keep k) d) key dflt = dict_get d key dflt"
proof -
  assume "keep key"
  then have "map_of (filter (\<lambda>(k, v). keep k) d) key = map_of d key" by (induction d) auto
  then show ?thesis by (simp add: dict_get_def)
qed

lemma packed_members_filter:
  "packed_members labels self zs =
    filter (\<lambda>(label, names). \<not> (label_size labels label < 2 \<and> label \<notin> self)) (group_members zs)"
proof (induction zs rule: rev_induct)
  case Nil
  then show ?case by (simp add: packed_members_def group_members_def)
next
  case (snoc z zs)
  obtain name label where z: "z = (name, label)" by (cases z)
  let ?keep = "\<lambda>label. \<not> (label_size labels label < 2 \<and> label \<notin> self)"
  have p: "packed_members labels self (zs @ [z]) =
      (if ?keep label then dict_alter label [] (\<lambda>bucket. bucket @ [name]) (packed_members labels self zs) else packed_members labels self zs)"
    by (simp add: packed_members_def z)
  have g: "group_members (zs @ [z]) = dict_alter label [] (\<lambda>bucket. bucket @ [name]) (group_members zs)"
    by (simp add: group_members_def z)
  show ?case
  proof (cases "?keep label")
    case True
    show ?thesis
      unfolding p g snoc dict_alter_def filter_update [of ?keep] if_P [OF True] dict_get_filter [of ?keep, OF True] ..
  next
    case False
    show ?thesis unfolding p g snoc dict_alter_def filter_update [of ?keep] if_not_P [OF False] ..
  qed
qed

lemma cycle_records_filter:
  assumes "\<And>label names. (label, names) \<in> set groups \<Longrightarrow> \<not> keep label \<Longrightarrow>
    length (filter is_cell_id names) < 2 \<and> \<not> list_ex (\<lambda>edge. ce_source edge = ce_target edge) (intra_by label)
    \<and> \<not> list_ex (\<lambda>(l, chain, self). l = label \<and> self) flags"
  shows "cycle_records seq intra_by flags groups = cycle_records seq intra_by flags (filter (\<lambda>(label, names). keep label) groups)"
  using assms
proof (induction groups arbitrary: seq)
  case (Cons g groups)
  obtain label names where g: "g = (label, names)" by (cases g)
  have ih: "cycle_records seq intra_by flags groups = cycle_records seq intra_by flags (filter (\<lambda>(label, names). keep label) groups)" for seq
    by (rule Cons.IH) (use Cons.prems in auto)
  show ?case
  proof (cases "keep label")
    case True
    then show ?thesis by (simp add: g Let_def ih)
  next
    case False
    with Cons.prems [of label names] have skip: "length (filter is_cell_id names) < 2"
      "\<not> list_ex (\<lambda>edge. ce_source edge = ce_target edge) (intra_by label)"
      "\<not> list_ex (\<lambda>(l, chain, self). l = label \<and> self) flags" by (auto simp: g)
    then have none: "filter is_cell_id names = [] \<or> (length (filter is_cell_id names) < 2
        \<and> \<not> (list_ex (\<lambda>edge. ce_source edge = ce_target edge) (intra_by label) \<or> list_ex (\<lambda>(l, chain, self). l = label \<and> self) flags))"
      by blast
    have "cycle_records seq intra_by flags (g # groups) = cycle_records seq intra_by flags groups"
      unfolding g cycle_records.simps Let_def if_P [OF none] ..
    with False ih show ?thesis by (simp add: g)
  qed
qed simp

lemma list_ex_votes:
  "list_ex snd (map snd (filter (\<lambda>v. fst v = label) flags)) \<longleftrightarrow> list_ex (\<lambda>(l, chain, self). l = label \<and> self) flags"
  by (induction flags) auto

lemma list_all_first:
  "list_all fst (map (\<lambda>x. (f x, g x)) xs) \<longleftrightarrow> list_all f xs"
  "list_all (\<lambda>b. b) (map fst ys) \<longleftrightarrow> list_all fst ys"
  by (simp_all add: list.pred_map comp_def)

lemma list_ex_second: "list_ex snd (map (\<lambda>x. (f x, g x)) xs) \<longleftrightarrow> list_ex g xs"
  by (induction xs) auto

lemma packed_records_cycle:
  assumes "\<And>label names. (label, names) \<in> set groups \<Longrightarrow>
    votes_for label vs = map (\<lambda>edge. (is_period_chain edge, ce_source edge = ce_target edge)) (intra_by label)
      @ map snd (filter (\<lambda>v. fst v = label) flags)"
  shows "packed_records seq (cast vs no_votes) groups = cycle_records seq intra_by flags groups"
  using assms
proof (induction groups arbitrary: seq)
  case (Cons g groups)
  obtain label names where g: "g = (label, names)" by (cases g)
  have ih: "packed_records seq (cast vs no_votes) groups = cycle_records seq intra_by flags groups" for seq
    by (rule Cons.IH) (use Cons.prems in auto)
  let ?intra = "intra_by label" and ?bits = "map (\<lambda>(l, chain, self). chain) (filter (\<lambda>(l, chain, self). l = label) flags)"
  have vf: "votes_for label vs = map (\<lambda>edge. (is_period_chain edge, ce_source edge = ce_target edge)) ?intra
      @ map snd (filter (\<lambda>v. fst v = label) flags)" by (rule Cons.prems [of label names]) (simp add: g)
  have self: "label \<in> vt_self (cast vs no_votes) \<longleftrightarrow> list_ex (\<lambda>edge. ce_source edge = ce_target edge) ?intra
      \<or> list_ex (\<lambda>(l, chain, self). l = label \<and> self) flags"
    unfolding cast_facts vf list_ex_append list_ex_votes list_ex_second ..
  have bits: "?bits = map fst (map snd (filter (\<lambda>v. fst v = label) flags))"
    by (induction flags) auto
  have cls: "(if label \<in> vt_saw (cast vs no_votes) \<and> dict_get (vt_all (cast vs no_votes)) label False then ''iterative_ok'' else ''unexpected'')
      = classify_cycle ?intra ?bits"
    unfolding dict_get_def cast_facts classify_cycle_def bits vf list_all_append list_all_first
    by (simp, blast)
  have len: "length names < 2 \<Longrightarrow> length (filter is_cell_id names) < 2" by (rule le_less_trans [OF length_filter_le])
  show ?case
    unfolding g packed_records.simps cycle_records.simps Let_def self cls ih
    using len by (auto simp: not_less)
qed simp

definition edge_item :: "CellEdge \<Rightarrow> string \<times> string \<times> nat" where
  "edge_item edge = (ce_source edge, ce_target edge,
     if is_range_node (ce_target edge) then STRUCTURAL else if is_period_chain edge then 1 else 0)"

definition hop_item :: "string \<times> string \<Rightarrow> string \<times> string \<times> nat" where
  "hop_item edge = (fst edge, snd edge, STRUCTURAL)"

lemma ballot_intra:
  "votes_for label (concat (map (edge_ballot nodes labels) (map edge_item usable @ map hop_item pairs))) =
    map (\<lambda>edge. (is_period_chain edge, ce_source edge = ce_target edge)) (intra_edges nodes labels usable label)"
proof -
  have hop: "concat (map (edge_ballot nodes labels) (map hop_item pairs)) = []"
    by (simp add: edge_ballot_def hop_item_def split: option.split)
  have "votes_for label (concat (map (edge_ballot nodes labels) (map edge_item usable))) =
      map (\<lambda>edge. (is_period_chain edge, ce_source edge = ce_target edge)) (intra_edges nodes labels usable label)"
  proof (induction usable)
    case Nil
    then show ?case by (simp add: votes_for_def intra_edges_def)
  next
    case (Cons edge usable)
    have "votes_for label (edge_ballot nodes labels (edge_item edge)) =
        map (\<lambda>edge. (is_period_chain edge, ce_source edge = ce_target edge)) (intra_edges nodes labels [edge] label)"
      by (auto simp: votes_for_def intra_edges_def edge_ballot_def edge_item_def label_size_def STRUCTURAL_def split: option.splits)
    then show ?case using Cons by (simp add: votes_for_def intra_edges_def)
  qed
  then show ?thesis by (simp only: map_append concat_append hop append_Nil2)
qed

lemma label_size_cells:
  assumes "length labels = length nodes" "(label, names) \<in> set (group_members (zip nodes labels))"
  shows "length names = label_size labels label"
proof -
  have "length names = length (filter (\<lambda>l. l = label) (map snd (zip nodes labels)))"
    unfolding group_members_entry [OF assms(2)] by (simp add: filter_map comp_def split_def)
  with assms(1) show ?thesis by (simp add: label_size_def)
qed

text \<open>
  The packed pass over usable edges and hop edges gives the records of \<open>classify_cycles\<close>, whatever
  the component labels are.
\<close>

lemma cycles_packed_classify:
  assumes "extra = (case (hops, chain) of (Some hops, Some chain) \<Rightarrow> Some (\<lambda>label. hop_flags label users hops chain) | _ \<Rightarrow> None)"
  shows "cycles_packed components
      (pack_all (map edge_item (filter usable_edge edges) @ map hop_item (structural_pairs hops users)) no_packed) extra =
    classify_cycles components (map AsObject edges) hops users chain"
proof -
  define usable where "usable = filter usable_edge edges"
  define pairs where "pairs = structural_pairs hops users"
  define es where "es = map edge_item usable @ map hop_item pairs"
  define p where "p = pack_all es no_packed"
  define nodes where "nodes = graph_nodes (map edge_pair usable @ pairs)"
  define labels where "labels = components (length nodes) (index_pairs nodes (map edge_pair usable @ pairs))"
  have ends: "map endpoints es = map edge_pair usable @ pairs"
    by (simp add: es_def comp_def endpoints_def edge_item_def hop_item_def edge_pair_def)
  have packs: "packs es p" unfolding p_def by (rule pack_all_packs)
  note graph = packs_graph [OF packs, unfolded ends, folded nodes_def]
  have d: "distinct nodes" by (simp add: nodes_def graph_nodes_facts)
  have "fst ` set es \<union> (fst \<circ> snd) ` set es = fst ` set (map endpoints es) \<union> snd ` set (map endpoints es)"
    by (simp add: image_image endpoints_def comp_def)
  then have sub: "fst ` set es \<union> (fst \<circ> snd) ` set es \<subseteq> set nodes"
    unfolding ends nodes_def graph_nodes_facts by (rule equalityD1)
  have flags_of: "pk_flags p = map (snd \<circ> snd) es" using packs by (simp add: packs_def)
  define flags where "flags = (case (hops, chain) of
       (Some hops, Some chain) \<Rightarrow> hop_flags (label_of nodes labels) users hops chain | _ \<Rightarrow> [])"
  define vs where "vs = concat (map (edge_ballot nodes labels) es) @ flags"
  have classify: "classify_cycles components (map AsObject edges) hops users chain =
      (if nodes = [] then Inr [] else if length labels \<noteq> length nodes then Inl (ValueError ''zip() argument 2'')
       else Inr (cycle_records 1 (intra_edges nodes labels usable) flags (group_members (zip nodes labels))))"
    unfolding classify_cycles_def as_cell_edges_objects bind_result_simps Let_def usable_def [symmetric] pairs_def [symmetric]
      nodes_def [symmetric] labels_def [symmetric] flags_def [symmetric] ..
  show ?thesis
  proof (cases "nodes = [] \<or> length labels \<noteq> length nodes")
    case True
    then show ?thesis
      unfolding classify usable_def [symmetric] pairs_def [symmetric] es_def [symmetric] p_def [symmetric]
      by (auto simp: cycles_packed_def Let_def graph labels_def [symmetric])
  next
    case False
    then have len: "length labels = length nodes" by blast
    have "foldl (vote_edge labels) no_votes (zip (index_pairs nodes (map edge_pair usable @ pairs)) (pk_flags p))
        = cast (concat (map (edge_ballot nodes labels) es)) no_votes"
      unfolding flags_of ends [symmetric] by (rule foldl_vote_edge [OF d len sub])
    then have votes: "(case extra of None \<Rightarrow> foldl (vote_edge labels) no_votes (zip (index_pairs nodes (map edge_pair usable @ pairs)) (pk_flags p))
         | Some extra \<Rightarrow> foldl (\<lambda>v (label, chain, is_self). vote label chain is_self v)
             (foldl (vote_edge labels) no_votes (zip (index_pairs nodes (map edge_pair usable @ pairs)) (pk_flags p))) (extra (label_of nodes labels)))
        = cast vs no_votes"
      by (auto simp: assms vs_def flags_def cast_append cast_def split: option.split)
    let ?keep = "\<lambda>label. \<not> (label_size labels label < 2 \<and> label \<notin> vt_self (cast vs no_votes))"
    have ballot: "votes_for label vs = map (\<lambda>edge. (is_period_chain edge, ce_source edge = ce_target edge)) (intra_edges nodes labels usable label)
        @ map snd (filter (\<lambda>v. fst v = label) flags)" for label
      using ballot_intra [of label nodes labels usable pairs] by (simp add: vs_def es_def votes_for_def)
    have "cycles_packed components p extra =
        Inr (packed_records 1 (cast vs no_votes) (packed_members labels (vt_self (cast vs no_votes)) (zip nodes labels)))"
      using False by (simp add: cycles_packed_def Let_def graph labels_def [symmetric] votes)
    also have "\<dots> = Inr (cycle_records 1 (intra_edges nodes labels usable) flags (filter (\<lambda>(label, names). ?keep label) (group_members (zip nodes labels))))"
      unfolding packed_members_filter by (simp only: packed_records_cycle [OF ballot])
    also have "\<dots> = Inr (cycle_records 1 (intra_edges nodes labels usable) flags (group_members (zip nodes labels)))"
    proof -
      have "cycle_records 1 (intra_edges nodes labels usable) flags (group_members (zip nodes labels)) =
          cycle_records 1 (intra_edges nodes labels usable) flags (filter (\<lambda>(label, names). ?keep label) (group_members (zip nodes labels)))"
      proof (rule cycle_records_filter)
        fix label names
        assume g: "(label, names) \<in> set (group_members (zip nodes labels))" and "\<not> ?keep label"
        then have small: "label_size labels label < 2" and self: "\<not> list_ex snd (votes_for label vs)"
          by (simp_all add: cast_facts)
        have "length (filter is_cell_id names) \<le> length names" by simp
        with small label_size_cells [OF len g] have "length (filter is_cell_id names) < 2" by simp
        with self show "length (filter is_cell_id names) < 2
            \<and> \<not> list_ex (\<lambda>edge. ce_source edge = ce_target edge) (intra_edges nodes labels usable label)
            \<and> \<not> list_ex (\<lambda>(l, chain, self). l = label \<and> self) flags"
          unfolding ballot list_ex_append list_ex_votes list_ex_second by blast
      qed
      then show ?thesis by simp
    qed
    finally show ?thesis
      unfolding classify usable_def [symmetric] pairs_def [symmetric] es_def [symmetric] p_def [symmetric]
      using False by simp
  qed
qed

end
