(* ===== verification/Graph_Index.thy ===== *)
theory Graph_Index
  imports Row_Groups Range_Cover Period_Keys
begin

text \<open>
  The node index of the graph: the layout records of \<open>src/finance_context/layout/models.py\<close> with
  the period headers of \<open>layout/resolve.py\<close>, and the part of \<open>graph/stage.py\<close> that writes
  \<open>graph/index.parquet\<close>, from a list of cells or streamed from the cell file. The main lemma: the
  streamed index holds the rows of the listed one, and what a \<open>RowGroupWriter\<close> was given is what
  it publishes.
\<close>

section \<open>Layout records\<close>

record AxisHeader =
  ah_col :: int
  ah_text :: string
  ah_role :: "string option"
  ah_kind :: "string option"
  ah_variant :: "string option"
  ah_period_key :: string
  ah_explicit_role :: bool
  ah_hidden :: bool

record Axis =
  ax_id :: string
  ax_row :: int
  ax_headers :: "AxisHeader list"

record AxisPeriod =
  ap_col :: int
  ap_text :: string
  ap_kind :: string
  ap_variant :: "string option"
  ap_period_key :: string
  ap_explicit_role :: bool
  ap_group_key :: "string option"
  ap_start_date :: "string option"
  ap_end_date :: "string option"
  ap_hidden :: bool

record TimeAxis =
  ta_id :: string
  ta_grain :: "string option"
  ta_header_row :: int
  ta_periods :: "AxisPeriod list"
  ta_notes :: "string list"

record RowCell =
  rc_col :: int
  rc_role :: string
  rc_header :: "string option"

record LayoutRow =
  lr_row :: int
  lr_label :: string
  lr_parent_row :: "int option"
  lr_indent :: int
  lr_check_row :: bool
  lr_hidden :: bool
  lr_kind :: string
  lr_section_path :: "string list"
  lr_label_col :: "int option"
  lr_cells :: "RowCell list"

record Block =
  bl_block_id :: string
  bl_label_col :: int
  bl_axis :: "Axis option"
  bl_axis_ids :: "string list"
  bl_timeline_ids :: "string list"
  bl_rows :: "LayoutRow list"
  bl_kind :: string

record SheetLayout =
  sl_name :: string
  sl_hidden :: bool
  sl_axes :: "TimeAxis list"
  sl_blocks :: "Block list"

type_synonym Layout = "SheetLayout list"

definition new_row :: "int \<Rightarrow> string \<Rightarrow> LayoutRow" where
  "new_row row label =
     \<lparr>lr_row = row, lr_label = label, lr_parent_row = None, lr_indent = 0, lr_check_row = False, lr_hidden = False,
      lr_kind = ''fact'', lr_section_path = [], lr_label_col = None, lr_cells = []\<rparr>"

section \<open>Period headers of a block\<close>

definition time_axis_from_embedded :: "Axis \<Rightarrow> string option \<Rightarrow> TimeAxis" where
  "time_axis_from_embedded axis grain =
     \<lparr>ta_id = ax_id axis, ta_grain = grain, ta_header_row = ax_row axis,
      ta_periods = map (\<lambda>header.
        \<lparr>ap_col = ah_col header, ap_text = ah_text header,
         ap_kind = (case ah_kind header of Some kind \<Rightarrow> if kind = [] then ''period'' else kind | None \<Rightarrow> ''period''),
         ap_variant = ah_variant header, ap_period_key = ah_period_key header,
         ap_explicit_role = ah_explicit_role header, ap_group_key = None, ap_start_date = None, ap_end_date = None,
         ap_hidden = ah_hidden header\<rparr>) (ax_headers axis),
      ta_notes = []\<rparr>"

definition header_of_period :: "AxisPeriod \<Rightarrow> AxisHeader" where
  "header_of_period period =
     \<lparr>ah_col = ap_col period, ah_text = ap_text period, ah_role = None, ah_kind = Some (ap_kind period),
      ah_variant = ap_variant period, ah_period_key = ap_period_key period,
      ah_explicit_role = ap_explicit_role period, ah_hidden = ap_hidden period\<rparr>"

definition project_axis :: "TimeAxis \<Rightarrow> Axis" where
  "project_axis axis = \<lparr>ax_id = ta_id axis, ax_row = ta_header_row axis, ax_headers = map header_of_period (ta_periods axis)\<rparr>"

definition axes_for :: "SheetLayout \<Rightarrow> Block \<Rightarrow> TimeAxis list" where
  "axes_for sheet block =
     (if bl_kind block = ''params'' then []
      else
        let by_id = map_of (rev (map (\<lambda>axis. (ta_id axis, axis)) (sl_axes sheet)));
            picked = concat (map (\<lambda>axis_id. case by_id axis_id of Some axis \<Rightarrow> [axis] | None \<Rightarrow> []) (bl_axis_ids block))
        in if picked \<noteq> [] then picked
           else (case bl_axis block of Some axis \<Rightarrow> [time_axis_from_embedded axis None] | None \<Rightarrow> []))"

definition period_headers :: "SheetLayout \<Rightarrow> Block \<Rightarrow> AxisHeader list" where
  "period_headers sheet block =
     (if bl_kind block = ''params'' \<and> bl_axis block \<noteq> None then ax_headers (the (bl_axis block))
      else concat (map (\<lambda>axis. map header_of_period (ta_periods axis)) (axes_for sheet block)))"

section \<open>Rows and columns of the layout\<close>

type_synonym places = "string \<times> int \<rightharpoonup> string"

definition layout_rows :: "Layout \<Rightarrow> (SheetLayout \<times> Block \<times> LayoutRow) list" where
  "layout_rows layout =
     concat (map (\<lambda>sheet. concat (map (\<lambda>block. map (\<lambda>row. (sheet, block, row)) (bl_rows block)) (sl_blocks sheet))) layout)"

definition row_meta :: "Layout \<Rightarrow> places" where
  "row_meta layout =
     foldl (\<lambda>out (sheet, block, row).
         out((sl_name sheet, lr_row row) \<mapsto> sl_name sheet @ ''|'' @ int_str (lr_row row) @ ''|'' @ bl_block_id block))
       Map.empty (layout_rows layout)"

definition circular_label :: "string \<Rightarrow> bool" where
  "circular_label label \<longleftrightarrow> find_sub ''circular'' (casefold label) \<noteq> None"

definition circular_rows :: "Layout \<Rightarrow> places" where
  "circular_rows layout =
     foldl (\<lambda>found (sheet, block, row).
         if circular_label (lr_label row) then found((sl_name sheet, lr_row row) \<mapsto> lr_label row) else found)
       Map.empty (layout_rows layout)"

definition period_maps :: "Layout \<Rightarrow> places \<times> (string \<rightharpoonup> int)" where
  "period_maps layout =
     foldl (\<lambda>(period_by_cell, ix) (sheet, header).
         (period_by_cell((sl_name sheet, ah_col header) \<mapsto> ah_period_key header),
          case period_position (calendar_key (ah_period_key header)) of
            None \<Rightarrow> ix
          | Some (grain, pos) \<Rightarrow> ix(ah_period_key header \<mapsto> pos)))
       (Map.empty, Map.empty)
       (concat (map (\<lambda>sheet. concat (map (\<lambda>block. map (\<lambda>header. (sheet, header)) (period_headers sheet block)) (sl_blocks sheet))) layout))"

text \<open>\<open>_Periods.get\<close>: the period of a node from its column.\<close>

definition period_get :: "places \<Rightarrow> string \<Rightarrow> string option" where
  "period_get columns node =
     (case parse_node_id (Some node) of
        None \<Rightarrow> None
      | Some (sheet, col, row) \<Rightarrow> columns (sheet, col))"

section \<open>Index rows\<close>

record IndexCell =
  ic_sheet :: string
  ic_addr :: string
  ic_row :: int
  ic_col :: int
  ic_formula :: "string option"
  ic_cached :: "string option"

type_synonym index_row = "string option list"

definition INDEX_COLUMNS :: "(string \<times> string) list" where
  "INDEX_COLUMNS = [(''node_id'', ''VARCHAR''), (''sheet'', ''VARCHAR''), (''addr'', ''VARCHAR''), (''row_key'', ''VARCHAR''),
     (''period_id'', ''VARCHAR''), (''node_type'', ''VARCHAR'')]"

definition index_cell_node :: "IndexCell \<Rightarrow> string" where
  "index_cell_node cell = ic_sheet cell @ ''!'' @ ic_addr cell"

definition text_truthy :: "string option \<Rightarrow> bool" where
  "text_truthy t \<longleftrightarrow> t \<noteq> None \<and> t \<noteq> Some []"

definition index_row_of :: "places \<Rightarrow> places \<Rightarrow> IndexCell \<Rightarrow> index_row" where
  "index_row_of rows periods cell =
     [Some (index_cell_node cell), Some (ic_sheet cell), Some (ic_addr cell), rows (ic_sheet cell, ic_row cell),
      periods (ic_sheet cell, ic_col cell),
      Some (if text_truthy (ic_formula cell) then ''calculated'' else if text_truthy (ic_cached cell) then ''input'' else ''empty'')]"

definition index_rows :: "IndexCell list \<Rightarrow> places \<Rightarrow> places \<Rightarrow> index_row list" where
  "index_rows cells rows periods = map (index_row_of rows periods) cells"

definition empty_index_row :: "places \<Rightarrow> places \<Rightarrow> string \<Rightarrow> index_row" where
  "empty_index_row rows periods nid =
     (case parse_node_id (Some nid) of
        None \<Rightarrow> [Some nid, None, None, None, None, Some ''empty'']
      | Some (sheet, col, row) \<Rightarrow>
          [Some nid, Some sheet, Some (index_to_col col @ int_str row), rows (sheet, row), periods (sheet, col), Some ''empty''])"

text \<open>First-seen empty targets that are not in \<open>existing\<close>.\<close>

fun empty_range_nodes :: "CellEdge list \<Rightarrow> string set \<Rightarrow> string list" where
  "empty_range_nodes [] seen = []"
| "empty_range_nodes (edge # edges) seen =
     (if ce_status edge \<noteq> Some ''empty'' then empty_range_nodes edges seen
      else if ce_target edge = [] \<or> ce_target edge \<in> seen then empty_range_nodes edges seen
      else ce_target edge # empty_range_nodes edges (insert (ce_target edge) seen))"

text \<open>The same over the status and target columns of the row groups.\<close>

fun empty_values :: "(pval \<times> pval) list \<Rightarrow> string set \<Rightarrow> string list" where
  "empty_values [] seen = []"
| "empty_values ((status, target) # rows) seen =
     (if text_or_empty status \<noteq> ''empty'' then empty_values rows seen
      else if text_or_empty target = [] \<or> text_or_empty target \<in> seen then empty_values rows seen
      else text_or_empty target # empty_values rows (insert (text_or_empty target) seen))"

definition empty_nodes_from_parquet :: "columns list \<Rightarrow> string set \<Rightarrow> string list" where
  "empty_nodes_from_parquet groups existing =
     empty_values (concat (map (\<lambda>g. zip (column g ''status'') (column g ''target'')) groups)) existing"

text \<open>
  The query of \<open>_empty_target_ids\<close>: the rows with status \<open>empty\<close> and a non-empty target, numbered in
  file order, the first of each target.
\<close>

definition sql_empty_targets :: "columns list \<Rightarrow> string list" where
  "sql_empty_targets groups =
     map (\<lambda>(status, target). py_str_of target)
       (first_by snd {} (filter (\<lambda>(status, target). status = PText ''empty'' \<and> target \<noteq> PNone \<and> target \<noteq> PText [])
         (concat (map (\<lambda>g. zip (column g ''status'') (column g ''target'')) groups))))"

definition empty_target_ids :: "columns list option \<Rightarrow> CellEdge list option \<Rightarrow> string list" where
  "empty_target_ids cell_edge_file cell_edges =
     (case cell_edges of
        Some edges \<Rightarrow> empty_range_nodes edges {}
      | None \<Rightarrow> (case cell_edge_file of None \<Rightarrow> [] | Some groups \<Rightarrow> sql_empty_targets groups))"

section \<open>The streamed index\<close>

definition CHUNK_ROWS :: nat where
  "CHUNK_ROWS = 65536"

record IndexState =
  is_writer :: "string option RowGroupWriter"
  is_chunk :: "string option group"
  is_count :: nat
  is_still :: "string set"
  is_circular :: "((string \<times> int) \<times> string list) list"

definition index_width :: nat where
  "index_width = length INDEX_COLUMNS"

definition no_chunk :: "string option group" where
  "no_chunk = map (\<lambda>_. []) [0..<index_width]"

text \<open>Append one row to the chunk; a full chunk is handed to the writer.\<close>

definition take_row :: "nat \<Rightarrow> index_row \<Rightarrow> IndexState \<Rightarrow> IndexState result" where
  "take_row limit row st =
     (let chunk = map2 (\<lambda>values item. values @ [item]) (is_chunk st) row;
          st = st\<lparr>is_chunk := chunk, is_count := is_count st + 1\<rparr>
      in if length (hd chunk) \<ge> limit then
           bind_result (rg_write_lists chunk (is_writer st)) (\<lambda>w. Inr (st\<lparr>is_writer := w, is_chunk := no_chunk\<rparr>))
         else Inr st)"

definition note_cell :: "places \<Rightarrow> IndexCell \<Rightarrow> IndexState \<Rightarrow> IndexState" where
  "note_cell circular cell st =
     st\<lparr>is_still := is_still st - {index_cell_node cell},
        is_circular :=
          (if circular (ic_sheet cell, ic_row cell) = None then is_circular st
           else dict_alter (ic_sheet cell, ic_row cell) []
                  (\<lambda>bucket. if index_cell_node cell \<in> set bucket then bucket else bucket @ [index_cell_node cell]) (is_circular st))\<rparr>"

fun stream_cells :: "nat \<Rightarrow> places \<Rightarrow> places \<Rightarrow> places \<Rightarrow> IndexCell list \<Rightarrow> IndexState \<Rightarrow> IndexState result" where
  "stream_cells limit circular rows periods [] st = Inr st"
| "stream_cells limit circular rows periods (cell # cells) st =
     bind_result (take_row limit (index_row_of rows periods cell) (note_cell circular cell st))
       (stream_cells limit circular rows periods cells)"

fun stream_empties :: "nat \<Rightarrow> places \<Rightarrow> places \<Rightarrow> string list \<Rightarrow> IndexState \<Rightarrow> IndexState result" where
  "stream_empties limit rows periods [] st = Inr st"
| "stream_empties limit rows periods (nid # ids) st =
     (if nid \<notin> is_still st then stream_empties limit rows periods ids st
      else bind_result (take_row limit (empty_index_row rows periods nid) st) (stream_empties limit rows periods ids))"

text \<open>
  The batches that \<open>iter_batches\<close> cuts are read one after the other, so the cells come as one list;
  no cell file is the empty list.
\<close>

definition stream_index ::
  "IndexCell list \<Rightarrow> places \<Rightarrow> places \<Rightarrow> Layout \<Rightarrow> columns list option \<Rightarrow> CellEdge list option \<Rightarrow> int
   \<Rightarrow> (nat \<times> ((string \<times> int) \<times> string list) list \<times> string option group list) result" where
  "stream_index cells rows periods layout cell_edge_file cell_edges row_group_rows =
     (let empty_ids = empty_target_ids cell_edge_file cell_edges;
          st = \<lparr>is_writer = rg_open index_width row_group_rows, is_chunk = no_chunk, is_count = 0,
                is_still = set empty_ids, is_circular = []\<rparr>
      in bind_result (stream_cells CHUNK_ROWS (circular_rows layout) rows periods cells st) (\<lambda>st.
         bind_result (stream_empties CHUNK_ROWS rows periods empty_ids st) (\<lambda>st.
         bind_result (if hd (is_chunk st) \<noteq> [] then rg_write_lists (is_chunk st) (is_writer st) else Inr (is_writer st)) (\<lambda>w.
           case fst (rg_close w) of
             None \<Rightarrow> Inl (RuntimeError ''parquet writer is closed'')
           | Some published \<Rightarrow> Inr (is_count st, is_circular st, published)))))"

section \<open>What a writer holds\<close>

text \<open>\<open>w\<close> is open and was given \<open>rows\<close>.\<close>

definition rg_holds :: "'v RowGroupWriter \<Rightarrow> 'v list list \<Rightarrow> bool" where
  "rg_holds w rows \<longleftrightarrow> \<not> rg_closed w \<and> 0 < rg_width w \<and> (\<forall>row \<in> set rows. length row = rg_width w) \<and>
     (\<exists>gs. concat gs = rows \<and>
        (if rg_streaming w then rg_chunks w = [] \<and> rg_parts w = map (columns_data (rg_width w)) gs
         else rg_parts w = [] \<and> rg_chunks w = map (columns_data (rg_width w)) gs))"

lemma rg_holds_open: "0 < width \<Longrightarrow> rg_holds (rg_open width n) []"
  by (auto simp: rg_holds_def rg_open_def intro: exI [of _ "[]"])

lemma foldl_write_group: "foldl (\<lambda>w chunk. rg_write_group chunk w) w cs = w\<lparr>rg_parts := rg_parts w @ cs\<rparr>"
  by (induction cs arbitrary: w) (simp_all add: rg_write_group_def)

lemma rg_holds_start: "rg_holds w rows \<Longrightarrow> rg_holds (rg_start_groups w) rows \<and> rg_streaming (rg_start_groups w) \<and> rg_width (rg_start_groups w) = rg_width w"
  by (auto simp: rg_holds_def rg_start_groups_def foldl_write_group split: if_splits)

lemma rg_holds_write:
  assumes "rg_holds w rows" "\<forall>row \<in> set g. length row = rg_width w"
  shows "\<exists>w'. rg_write_lists (columns_data (rg_width w) g) w = Inr w' \<and> rg_holds w' (rows @ g) \<and> rg_width w' = rg_width w"
proof -
  have pos: "0 < rg_width w" and op: "\<not> rg_closed w" and lens: "\<forall>row \<in> set (rows @ g). length row = rg_width w"
    using assms by (auto simp: rg_holds_def)
  let ?c = "columns_data (rg_width w) g"
  have hd: "length (hd ?c) = length g" using pos by simp
  have ne: "?c \<noteq> []" using pos by simp
  show ?thesis
  proof (cases "g = []")
    case True
    with assms hd op show ?thesis by (simp add: rg_write_lists_def)
  next
    case False
    then have some: "length (hd ?c) \<noteq> 0" using hd by simp
    show ?thesis
    proof (cases "\<not> rg_streaming w \<and> (rg_limit w \<le> 0 \<or> int (rg_buffered w + length g) \<le> rg_limit w)")
      case True
      then obtain gs where "concat gs = rows" "rg_parts w = []" "rg_chunks w = map (columns_data (rg_width w)) gs"
        using assms(1) by (auto simp: rg_holds_def)
      with True op pos lens have "rg_holds (w\<lparr>rg_chunks := rg_chunks w @ [?c], rg_buffered := rg_buffered w + length g\<rparr>) (rows @ g)"
        unfolding rg_holds_def by (auto intro: exI [of _ "gs @ [g]"])
      with True op some ne hd show ?thesis by (simp add: rg_write_lists_def)
    next
      case buf: False
      let ?s = "rg_start_groups w"
      from rg_holds_start [OF assms(1)] have s: "rg_holds ?s rows" "rg_streaming ?s" "rg_width ?s = rg_width w" by blast+
      then obtain gs where "concat gs = rows" "rg_chunks ?s = []" "rg_parts ?s = map (columns_data (rg_width w)) gs" "\<not> rg_closed ?s"
        by (auto simp: rg_holds_def)
      with s lens pos have "rg_holds (rg_write_group ?c ?s) (rows @ g)"
        unfolding rg_holds_def rg_write_group_def by (auto intro: exI [of _ "gs @ [g]"])
      moreover have "rg_width (rg_write_group ?c ?s) = rg_width w" using s(3) by (simp add: rg_write_group_def)
      ultimately show ?thesis using buf op some ne hd by (auto simp: rg_write_lists_def Let_def)
    qed
  qed
qed

lemma merge_columns_data: "merge_chunks width (map (columns_data width) gs) = columns_data width (concat gs)"
proof -
  have "foldl (\<lambda>merged chunk. map2 (@) merged chunk) (columns_data width rows) (map (columns_data width) gs) =
      columns_data width (rows @ concat gs)" for rows
    by (induction gs arbitrary: rows) (simp_all add: columns_data_append)
  from this [of "[]"] show ?thesis by (simp add: merge_chunks_def columns_data_Nil)
qed

lemma rg_holds_close:
  assumes "rg_holds w rows"
  shows "\<exists>published w'. rg_close w = (Some published, w') \<and> rows_of_file published = rows"
proof -
  from assms obtain gs where gs: "concat gs = rows" "\<not> rg_closed w" "0 < rg_width w" "\<forall>row \<in> set rows. length row = rg_width w"
    "if rg_streaming w then rg_chunks w = [] \<and> rg_parts w = map (columns_data (rg_width w)) gs
     else rg_parts w = [] \<and> rg_chunks w = map (columns_data (rg_width w)) gs"
    unfolding rg_holds_def by blast
  have one: "rows_from_columns (columns_data (rg_width w) g) = g" if "g \<in> set gs" for g
    by (rule rows_from_columns_data [OF gs(3)]) (use gs(1,4) that in auto)
  have all: "rows_from_columns (columns_data (rg_width w) rows) = rows" by (rule rows_from_columns_data [OF gs(3,4)])
  have "rows_of_file (rg_finish w) = rows"
  proof (cases "rg_streaming w")
    case False
    with gs(5) show ?thesis by (simp add: rg_finish_def merge_columns_data gs(1) rows_of_file_def all)
  next
    case True
    with gs(5) have parts: "rg_parts w = map (columns_data (rg_width w)) gs" by simp
    show ?thesis
    proof (cases "gs = []")
      case True
      with gs(1) have "rows = []" by auto
      with True parts \<open>rg_streaming w\<close> all show ?thesis by (simp add: rg_finish_def rows_of_file_def columns_data_Nil)
    next
      case False
      have "map (\<lambda>g. rows_from_columns (columns_data (rg_width w) g)) gs = gs" by (rule map_idI) (rule one)
      with False parts \<open>rg_streaming w\<close> gs(1) show ?thesis by (simp add: rg_finish_def rows_of_file_def comp_def)
    qed
  qed
  with gs(2) show ?thesis by (simp add: rg_close_def)
qed

section \<open>The streamed index holds the listed rows\<close>

lemma length_index_row [simp]: "length (index_row_of rows periods cell) = index_width" "length (empty_index_row rows periods nid) = index_width"
  by (auto simp: index_row_of_def empty_index_row_def index_width_def INDEX_COLUMNS_def split: option.split)

lemma index_width_pos: "0 < index_width"
  by (simp add: index_width_def INDEX_COLUMNS_def)

lemma columns_data_snoc:
  "length row = width \<Longrightarrow> map2 (\<lambda>values item. values @ [item]) (columns_data width rows) row = columns_data width (rows @ [row])"
  by (auto simp: columns_data_def intro: nth_equalityI)

definition idx_holds :: "IndexState \<Rightarrow> index_row list \<Rightarrow> bool" where
  "idx_holds st rows \<longleftrightarrow> rg_width (is_writer st) = index_width \<and> is_count st = length rows \<and>
     (\<exists>g pending. rows = g @ pending \<and> rg_holds (is_writer st) g \<and> is_chunk st = columns_data index_width pending
        \<and> (\<forall>row \<in> set pending. length row = index_width))"

lemma take_row_spec:
  assumes "idx_holds st rows" "length row = index_width"
  shows "\<exists>st'. take_row limit row st = Inr st' \<and> idx_holds st' (rows @ [row]) \<and> is_still st' = is_still st \<and> is_circular st' = is_circular st"
proof -
  from assms(1) obtain g pending where h: "rg_width (is_writer st) = index_width" "is_count st = length rows" "rows = g @ pending"
    "rg_holds (is_writer st) g" "is_chunk st = columns_data index_width pending" "\<forall>row \<in> set pending. length row = index_width"
    unfolding idx_holds_def by blast
  have chunk: "map2 (\<lambda>values item. values @ [item]) (is_chunk st) row = columns_data index_width (pending @ [row])"
    unfolding h(5) by (rule columns_data_snoc [OF assms(2)])
  have "\<forall>r \<in> set (pending @ [row]). length r = rg_width (is_writer st)" using h(1,6) assms(2) by auto
  from rg_holds_write [OF h(4) this] obtain w where w: "rg_write_lists (columns_data index_width (pending @ [row])) (is_writer st) = Inr w"
    "rg_holds w (g @ pending @ [row])" "rg_width w = index_width" unfolding h(1) by blast
  show ?thesis
  proof (cases "limit \<le> length (hd (columns_data index_width (pending @ [row])))")
    case True
    have "\<exists>g' p. rows @ [row] = g' @ p \<and> rg_holds w g' \<and> no_chunk = columns_data index_width p \<and> (\<forall>r \<in> set p. length r = index_width)"
      by (rule exI [of _ "rows @ [row]"], rule exI [of _ "[]"]) (use w(2) h(3) in \<open>simp add: no_chunk_def columns_data_Nil\<close>)
    then have "idx_holds (st\<lparr>is_count := is_count st + 1, is_writer := w, is_chunk := no_chunk\<rparr>) (rows @ [row])"
      using w(3) h(2) by (simp add: idx_holds_def)
    with True w(1) show ?thesis by (simp add: take_row_def chunk Let_def)
  next
    case False
    have "\<exists>g' p. rows @ [row] = g' @ p \<and> rg_holds (is_writer st) g' \<and> columns_data index_width (pending @ [row]) = columns_data index_width p
        \<and> (\<forall>r \<in> set p. length r = index_width)"
      by (rule exI [of _ g], rule exI [of _ "pending @ [row]"]) (use h(3,4,6) assms(2) in auto)
    then have "idx_holds (st\<lparr>is_chunk := columns_data index_width (pending @ [row]), is_count := is_count st + 1\<rparr>) (rows @ [row])"
      using h(1,2) by (simp add: idx_holds_def)
    with False show ?thesis by (simp add: take_row_def chunk Let_def)
  qed
qed

lemma stream_cells_spec:
  assumes "idx_holds st done_rows"
  shows "\<exists>st'. stream_cells limit circular rows periods cells st = Inr st'
    \<and> idx_holds st' (done_rows @ index_rows cells rows periods) \<and> is_still st' = is_still st - index_cell_node ` set cells"
  using assms
proof (induction cells arbitrary: st done_rows)
  case Nil
  then show ?case by (simp add: index_rows_def)
next
  case (Cons cell cells)
  have "idx_holds (note_cell circular cell st) done_rows" using Cons.prems by (simp add: idx_holds_def note_cell_def)
  from take_row_spec [OF this length_index_row(1), of limit rows periods cell] obtain st1 where st1:
    "take_row limit (index_row_of rows periods cell) (note_cell circular cell st) = Inr st1"
    "idx_holds st1 (done_rows @ [index_row_of rows periods cell])" "is_still st1 = is_still st - {index_cell_node cell}"
    by (auto simp: note_cell_def)
  from Cons.IH [OF st1(2)] st1 show ?case by (auto simp: index_rows_def)
qed

lemma stream_empties_spec:
  assumes "idx_holds st done_rows"
  shows "\<exists>st'. stream_empties limit rows periods ids st = Inr st'
    \<and> idx_holds st' (done_rows @ map (empty_index_row rows periods) (filter (\<lambda>nid. nid \<in> is_still st) ids)) \<and> is_circular st' = is_circular st"
  using assms
proof (induction ids arbitrary: st done_rows)
  case Nil
  then show ?case by simp
next
  case (Cons nid ids)
  show ?case
  proof (cases "nid \<in> is_still st")
    case False
    with Cons show ?thesis by simp
  next
    case True
    from take_row_spec [OF Cons.prems length_index_row(2), of limit rows periods nid] obtain st1 where st1:
      "take_row limit (empty_index_row rows periods nid) st = Inr st1"
      "idx_holds st1 (done_rows @ [empty_index_row rows periods nid])" "is_still st1 = is_still st" "is_circular st1 = is_circular st" by blast
    from Cons.IH [OF st1(2)] st1 True show ?thesis by auto
  qed
qed

text \<open>Reading back the status and target columns of a cell-edge file gives the statuses and targets.\<close>

lemma empty_range_nodes_filter:
  "empty_range_nodes edges (seen \<union> existing) = filter (\<lambda>nid. nid \<notin> existing) (empty_range_nodes edges seen)"
proof (induction edges arbitrary: seen)
  case (Cons edge edges)
  from Cons [of seen] Cons [of "insert (ce_target edge) seen"] show ?case by (auto simp: insert_absorb)
qed simp

lemma empty_range_nodes_first:
  "empty_range_nodes edges seen =
    first_by (\<lambda>x. x) seen (map ce_target (filter (\<lambda>edge. ce_status edge = Some ''empty'' \<and> ce_target edge \<noteq> []) edges))"
  by (induction edges arbitrary: seen) auto

lemma empty_values_edges:
  "empty_values (map (\<lambda>edge. (text_val (ce_status edge), PText (ce_target edge))) edges) seen = empty_range_nodes edges seen"
proof (induction edges arbitrary: seen)
  case (Cons edge edges)
  have "text_or_empty (text_val t) = ''empty'' \<longleftrightarrow> t = Some ''empty''" for t
    by (cases t) (auto simp: text_val_def text_or_empty_def)
  moreover have "text_or_empty (PText s) = s" for s by (simp add: text_or_empty_def)
  ultimately show ?case using Cons by simp
qed simp

lemma first_by_inj: "(\<And>x y. f x = f y \<Longrightarrow> x = y) \<Longrightarrow> first_by f (f ` seen) xs = first_by (\<lambda>x. x) seen xs"
proof (induction xs arbitrary: seen)
  case (Cons x xs)
  have "f x \<in> f ` seen \<longleftrightarrow> x \<in> seen" using Cons.prems by blast
  then show ?case using Cons.IH [OF Cons.prems, of seen] Cons.IH [OF Cons.prems, of "insert x seen"] Cons.prems by simp
qed simp

text \<open>A file whose row groups carry the statuses and targets of \<open>edges\<close>.\<close>

definition status_target :: "columns list \<Rightarrow> (pval \<times> pval) list" where
  "status_target groups = concat (map (\<lambda>g. zip (column g ''status'') (column g ''target'')) groups)"

lemma empty_nodes_from_parquet_edges:
  assumes "status_target groups = map (\<lambda>edge. (text_val (ce_status edge), PText (ce_target edge))) edges"
  shows "empty_nodes_from_parquet groups existing = empty_range_nodes edges existing"
  using empty_values_edges [of edges existing] assms by (simp add: empty_nodes_from_parquet_def status_target_def)

lemma sql_empty_targets_edges:
  assumes "status_target groups = map (\<lambda>edge. (text_val (ce_status edge), PText (ce_target edge))) edges"
  shows "sql_empty_targets groups = empty_range_nodes edges {}"
proof -
  let ?row = "\<lambda>edge. (text_val (ce_status edge), PText (ce_target edge))"
  let ?es = "filter (\<lambda>edge. ce_status edge = Some ''empty'' \<and> ce_target edge \<noteq> []) edges"
  have status: "text_val t = PText ''empty'' \<longleftrightarrow> t = Some ''empty''" for t by (cases t) (simp_all add: text_val_def)
  have "filter (\<lambda>(status, target). status = PText ''empty'' \<and> target \<noteq> PNone \<and> target \<noteq> PText []) (map ?row edges)
      = map (\<lambda>target. (PText ''empty'', PText target)) (map ce_target ?es)"
    by (induction edges) (auto simp: status)
  moreover have "map (\<lambda>(status, target). py_str_of target) (first_by snd (PText ` seen) (map (\<lambda>target. (PText ''empty'', PText target)) ts))
      = first_by (\<lambda>x. x) seen ts" for ts :: "string list" and seen
    by (induction ts arbitrary: seen) (auto simp: image_insert [symmetric] simp del: image_insert)
  note this [of "{}" "map ce_target ?es"]
  ultimately show ?thesis
    using assms unfolding sql_empty_targets_def status_target_def empty_range_nodes_first by simp
qed

text \<open>
  The index streamed from the cell file has the rows of the cells in order and then the empty range
  targets that no cell covers, and its count is their number.
\<close>

lemma stream_index_rows:
  "\<exists>circ published. stream_index cells rows periods layout cell_edge_file cell_edges n =
      Inr (length (rows_of_file published), circ, published)
    \<and> rows_of_file published = index_rows cells rows periods
        @ map (empty_index_row rows periods) (filter (\<lambda>nid. nid \<notin> index_cell_node ` set cells) (empty_target_ids cell_edge_file cell_edges))"
proof -
  let ?ids = "empty_target_ids cell_edge_file cell_edges"
  let ?st = "\<lparr>is_writer = rg_open index_width n, is_chunk = no_chunk, is_count = 0, is_still = set ?ids, is_circular = []\<rparr>"
  let ?rows = "index_rows cells rows periods
      @ map (empty_index_row rows periods) (filter (\<lambda>nid. nid \<notin> index_cell_node ` set cells) ?ids)"
  have "idx_holds ?st []"
    using rg_holds_open [OF index_width_pos, of n] by (auto simp: idx_holds_def no_chunk_def columns_data_Nil rg_open_def)
  from stream_cells_spec [OF this, of CHUNK_ROWS "circular_rows layout" rows periods cells] obtain st1 where st1:
    "stream_cells CHUNK_ROWS (circular_rows layout) rows periods cells ?st = Inr st1"
    "idx_holds st1 (index_rows cells rows periods)" "is_still st1 = set ?ids - index_cell_node ` set cells" by auto
  have same: "filter (\<lambda>nid. nid \<in> is_still st1) ?ids = filter (\<lambda>nid. nid \<notin> index_cell_node ` set cells) ?ids"
    by (rule filter_cong) (auto simp: st1(3))
  from stream_empties_spec [OF st1(2), of CHUNK_ROWS rows periods ?ids, unfolded same] obtain st2 where st2:
    "stream_empties CHUNK_ROWS rows periods ?ids st1 = Inr st2" "idx_holds st2 ?rows" by blast
  from st2(2) obtain g pending where h: "rg_width (is_writer st2) = index_width" "is_count st2 = length ?rows" "?rows = g @ pending"
    "rg_holds (is_writer st2) g" "is_chunk st2 = columns_data index_width pending" "\<forall>row \<in> set pending. length row = index_width"
    unfolding idx_holds_def by blast
  have empty: "hd (is_chunk st2) = [] \<longleftrightarrow> pending = []"
    unfolding h(5) length_0_conv [symmetric] columns_data_simps(3) [OF index_width_pos] ..
  have "\<exists>w. (if hd (is_chunk st2) \<noteq> [] then rg_write_lists (is_chunk st2) (is_writer st2) else Inr (is_writer st2)) = Inr w
      \<and> rg_holds w ?rows"
  proof (cases "pending = []")
    case True
    with h(4) empty show ?thesis unfolding h(3) by simp
  next
    case False
    from rg_holds_write [OF h(4), of pending] h(1,6) obtain w
      where "rg_write_lists (is_chunk st2) (is_writer st2) = Inr w" "rg_holds w (g @ pending)" unfolding h(5) by auto
    with False empty show ?thesis unfolding h(3) by simp
  qed
  then obtain w where w: "(if hd (is_chunk st2) \<noteq> [] then rg_write_lists (is_chunk st2) (is_writer st2) else Inr (is_writer st2)) = Inr w"
    "rg_holds w ?rows" by blast
  from rg_holds_close [OF w(2)] obtain published w' where p: "rg_close w = (Some published, w')" "rows_of_file published = ?rows" by blast
  have "stream_index cells rows periods layout cell_edge_file cell_edges n = Inr (length ?rows, is_circular st2, published)"
    unfolding stream_index_def Let_def st1(1) bind_result_simps st2(1) w(1) p(1) by (simp add: h(2))
  with p(2) show ?thesis by auto
qed

end
