(* ===== verification/Formula_Class.thy ===== *)
theory Formula_Class
  imports Cell_Edges
begin

text \<open>
  One financial class for a formula, \<open>src/finance_context/graph/formula_class.py\<close>. A search for
  a regular expression only asks whether some match exists, so the patterns are matchers that
  try every way to match at every position. Case is ignored as \<open>re.IGNORECASE\<close> does on ASCII
  letters.
\<close>

section \<open>Patterns\<close>

definition same_letter :: "char \<Rightarrow> char \<Rightarrow> bool" where
  "same_letter a b \<longleftrightarrow> lower_char a = lower_char b"

fun starts_nocase :: "string \<Rightarrow> string \<Rightarrow> bool" where
  "starts_nocase [] s = True"
| "starts_nocase (w # ws) [] = False"
| "starts_nocase (w # ws) (c # s) = (same_letter w c \<and> starts_nocase ws s)"

text \<open>\<open>\b(?:NAME|...)\(\<close>: the word boundary before a letter means that no word character precedes.\<close>

fun search_call :: "string list \<Rightarrow> bool \<Rightarrow> string \<Rightarrow> bool" where
  "search_call names after_word [] = False"
| "search_call names after_word (c # s) =
     ((\<not> after_word \<and> list_ex (\<lambda>name. starts_nocase (name @ ''('') (c # s)) names) \<or> search_call names (re_word c) s)"

definition CONDITIONAL :: "string list" where
  "CONDITIONAL = [''IF'', ''IFS'', ''SWITCH'']"

definition AGGREGATION :: "string list" where
  "AGGREGATION = [''SUM'', ''SUMPRODUCT'', ''AVERAGE'', ''MIN'', ''MAX'', ''COUNT'', ''COUNTA'', ''COUNTIF'', ''COUNTIFS'',
     ''SUBTOTAL'', ''AGGREGATE'']"

text \<open>\<open>\$?[A-Z]{1,3}\$?\d+\<close> at the start of a text.\<close>

definition cell_at :: "string \<Rightarrow> bool" where
  "cell_at s =
     (let t = snd (drop_dollar s) in
      list_ex (\<lambda>n. n \<le> length t \<and> list_all re_letter (take n t)
          \<and> (case snd (drop_dollar (drop n t)) of [] \<Rightarrow> False | d # _ \<Rightarrow> re_digit d)) [1, 2, 3])"

text \<open>The rests behind every match of \<open>(?:[^']|'')+'\<close>; the flag says that one item was read.\<close>

fun quoted_rests :: "bool \<Rightarrow> string \<Rightarrow> string list" where
  "quoted_rests one [] = []"
| "quoted_rests one (c # s) =
     (if c = CHR 0x27 then
        (if one then [s] else []) @ (case s of d # s' \<Rightarrow> if d = CHR 0x27 then quoted_rests True s' else [] | [] \<Rightarrow> [])
      else quoted_rests True s)"

text \<open>The rests behind every match of \<open>[\w.]*\<close>.\<close>

fun word_rests :: "string \<Rightarrow> string list" where
  "word_rests [] = [[]]"
| "word_rests (c # s) = (c # s) # (if re_word c \<or> c = CHR ''.'' then word_rests s else [])"

definition sheet_rests :: "string \<Rightarrow> string list" where
  "sheet_rests s =
     (case s of [] \<Rightarrow> []
      | c # s' \<Rightarrow>
          if c = CHR 0x27 then quoted_rests False s'
          else if re_letter c \<or> c = CHR ''_'' then word_rests s' else [])"

definition a1_ref_at :: "string \<Rightarrow> bool" where
  "a1_ref_at s \<longleftrightarrow> list_ex (\<lambda>r. take 1 r = ''!'' \<and> cell_at (drop 1 r)) (sheet_rests s) \<or> cell_at s"

fun search_at :: "(string \<Rightarrow> bool) \<Rightarrow> string \<Rightarrow> bool" where
  "search_at m [] = m []"
| "search_at m (c # s) = (m (c # s) \<or> search_at m s)"

section \<open>The class\<close>

fun lag_numbers :: "string list \<Rightarrow> int list" where
  "lag_numbers [] = []"
| "lag_numbers (lag # lags) =
     (if lag \<in> {'''', ''same'', ''unaligned''} then lag_numbers lags
      else case py_int_text lag of Inl _ \<Rightarrow> lag_numbers lags | Inr n \<Rightarrow> n # lag_numbers lags)"

definition classify_formula :: "string option \<Rightarrow> string list option \<Rightarrow> string list option \<Rightarrow> string option" where
  "classify_formula formula refs lags =
     (case formula of
        None \<Rightarrow> None
      | Some formula \<Rightarrow>
          let body = py_strip formula in
          if body = [] then None
          else if search_call CONDITIONAL False body then Some ''conditional''
          else if search_call AGGREGATION False body then Some ''aggregation''
          else
            let offsets = lag_numbers (case lags of None \<Rightarrow> [] | Some l \<Rightarrow> l);
                prior = filter (\<lambda>item. item < 0) offsets;
                forward = filter (\<lambda>item. item > 0) offsets
            in if prior \<noteq> [] \<or> forward \<noteq> [] then
                 let simple_prior = prior \<noteq> [] \<and> forward = [] \<and> list_all (\<lambda>item. item = -1) prior;
                     arithmetic = CHR ''*'' \<in> set body \<or> CHR ''/'' \<in> set body
                 in Some (if simple_prior \<and> \<not> arithmetic then ''rollforward'' else ''cross_period'')
               else if (refs \<noteq> None \<and> refs \<noteq> Some []) \<or> search_at a1_ref_at body then Some ''same_period''
               else Some ''hardcoded'')"

section \<open>Facts\<close>

lemma lag_numbers_filter:
  "lag_numbers lags = concat (map (\<lambda>lag. lag_numbers [lag]) lags)"
proof (induction lags)
  case (Cons lag lags)
  then show ?case by (cases "py_int_text lag") auto
qed simp

lemma set_lag_numbers: "set (lag_numbers lags) = (\<Union>lag \<in> set lags. set (lag_numbers [lag]))"
  using arg_cong [OF lag_numbers_filter [of lags], of set] by (simp only: set_concat set_map image_image)

text \<open>Only which non-zero steps occur matters, not how often or in which order.\<close>

lemma classify_formula_steps:
  assumes "set (lag_numbers lags) = set (lag_numbers lags')"
  shows "classify_formula formula refs (Some lags) = classify_formula formula refs (Some lags')"
proof -
  have same: "filter P (lag_numbers lags) = [] \<longleftrightarrow> filter P (lag_numbers lags') = []"
    "list_all Q (filter P (lag_numbers lags)) \<longleftrightarrow> list_all Q (filter P (lag_numbers lags'))" for P Q :: "int \<Rightarrow> bool"
    unfolding filter_empty_conv list_all_iff set_filter assms by simp_all
  show ?thesis unfolding classify_formula_def Let_def option.case same ..
qed

text \<open>The sheet part of a reference never decides: the address behind it is found as well.\<close>

lemma search_at_suffix: "m t \<Longrightarrow> search_at m (s @ t)"
proof (induction s)
  case Nil
  then show ?case by (cases t) simp_all
qed simp

lemma quoted_rests_suffix: "r \<in> set (quoted_rests one s) \<Longrightarrow> \<exists>p. s = p @ r"
proof (induction one s rule: quoted_rests.induct)
  case (2 one c s)
  show ?case
  proof (cases "c = CHR 0x27")
    case True
    with 2 show ?thesis by (force split: if_splits list.splits intro: exI [of _ "[c]"] exI [of _ "c # d # p" for d p])
  next
    case False
    with 2 obtain p where "s = p @ r" by auto
    then show ?thesis by (intro exI [of _ "c # p"]) simp
  qed
qed simp

lemma word_rests_suffix: "r \<in> set (word_rests s) \<Longrightarrow> \<exists>p. s = p @ r"
proof (induction s)
  case (Cons c s)
  then show ?case by (auto split: if_splits intro: exI [of _ "c # p" for p])
qed simp

lemma search_a1_ref: "search_at a1_ref_at s \<longleftrightarrow> search_at cell_at s"
proof
  have later: "search_at cell_at s" if "a1_ref_at s" for s
  proof (cases "cell_at s")
    case True
    then show ?thesis using search_at_suffix [where m = cell_at and t = s and s = "[]"] by simp
  next
    case False
    with that obtain r where r: "r \<in> set (sheet_rests s)" "cell_at (drop 1 r)" by (auto simp: a1_ref_at_def list_ex_iff)
    from r(1) obtain c s' where s: "s = c # s'" "r \<in> set (quoted_rests False s') \<union> set (word_rests s')"
      by (auto simp: sheet_rests_def split: list.splits if_splits)
    then obtain p where "s' = p @ r" using quoted_rests_suffix word_rests_suffix by blast
    with s have "s = (c # p @ take 1 r) @ drop 1 r" by simp
    with search_at_suffix [where m = cell_at and t = "drop 1 r" and s = "c # p @ take 1 r"] r(2) show ?thesis by simp
  qed
  show "search_at a1_ref_at s \<Longrightarrow> search_at cell_at s"
    by (induction s) (auto dest: later)
  show "search_at cell_at s \<Longrightarrow> search_at a1_ref_at s"
    by (induction s) (auto simp: a1_ref_at_def)
qed

end
