(* ===== verification/Graph_Stage.thy ===== *)
theory Graph_Stage
  imports Packed_Cycles Graph_Index Formula_Class Kept_Edges Json_Values
begin

text \<open>
  The graph stage, \<open>src/finance_context/graph/stage.py\<close>: formula links, the view of range nodes with
  its memos, the enrichment of cell edges with column offsets and period lags, the summary, and
  the two builds of the graph: from a list of cell edges, and streamed from the row groups of
  the cell-edge file. The record of the in-memory object graph is threaded through the calls that
  fill a memo. Printing \<open>graph.json\<close> and \<open>graph.md\<close> is left out: the document stands for both.
\<close>

section \<open>Formulas and their references\<close>

record Formula =
  fm_formula :: "string option"
  fm_row_key :: "string option"
  fm_period_id :: "string option"
  fm_refs :: "string list"

type_synonym formulas = "(string \<times> Formula) list"

definition formula_record :: "IndexCell \<Rightarrow> string \<Rightarrow> places \<Rightarrow> places \<Rightarrow> string \<times> Formula" where
  "formula_record cell raw rows periods =
     (index_cell_node cell,
      \<lparr>fm_formula = Some raw, fm_row_key = rows (ic_sheet cell, ic_row cell),
       fm_period_id = periods (ic_sheet cell, ic_col cell), fm_refs = []\<rparr>)"

definition formulas_from_cells :: "IndexCell list \<Rightarrow> places \<Rightarrow> places \<Rightarrow> formulas" where
  "formulas_from_cells cells rows periods =
     foldl (\<lambda>found cell.
         if \<not> text_truthy (ic_formula cell) then found
         else case formula_record cell (the (ic_formula cell)) rows periods of (node, rec) \<Rightarrow> AList.update node rec found)
       [] cells"

text \<open>First-seen targets of each source; a source with no formula cell still becomes a link.\<close>

definition bind_refs :: "formulas \<Rightarrow> Edge list \<Rightarrow> formulas" where
  "bind_refs formulas formula_edges =
     foldl (\<lambda>formulas edge.
         if e_source edge = [] then formulas
         else dict_alter (e_source edge) \<lparr>fm_formula = None, fm_row_key = None, fm_period_id = None, fm_refs = []\<rparr>
                (\<lambda>rec. if text_truthy (e_target edge) \<and> the (e_target edge) \<notin> set (fm_refs rec)
                       then rec\<lparr>fm_refs := fm_refs rec @ [the (e_target edge)]\<rparr> else rec) formulas)
       formulas formula_edges"

record FormulaLink =
  fl_cell :: string
  fl_formula :: "string option"
  fl_class :: "string option"
  fl_refs :: "string list"
  fl_row_key :: "string option"
  fl_period_id :: "string option"

type_synonym lag_groups = "(string \<times> string list) list"

definition links_from_formulas :: "formulas \<Rightarrow> lag_groups \<Rightarrow> FormulaLink list" where
  "links_from_formulas formulas lags =
     map (\<lambda>cell.
         let rec = the (map_of formulas cell) in
             \<lparr>fl_cell = cell, fl_formula = fm_formula rec,
              fl_class = classify_formula (fm_formula rec) (Some (fm_refs rec)) (map_of lags cell),
              fl_refs = fm_refs rec, fl_row_key = fm_row_key rec, fl_period_id = fm_period_id rec\<rparr>)
       (sort (map fst formulas))"

section \<open>Range nodes at graph time\<close>

record RangeView =
  rv_nodes :: "(string \<times> RangeNode option) list"
  rv_grid :: "CellGrid option"
  rv_periods :: "(string \<times> string option list) list"

definition new_view :: RangeView where
  "new_view = \<lparr>rv_nodes = [], rv_grid = None, rv_periods = []\<rparr>"

definition view_node :: "string \<Rightarrow> RangeView \<Rightarrow> RangeNode option \<times> RangeView" where
  "view_node target rv =
     (if target = [] \<or> \<not> is_range_node target then (None, rv)
      else case map_of (rv_nodes rv) target of
             Some found \<Rightarrow> (found, rv)
           | None \<Rightarrow> (parse_range_node target, rv\<lparr>rv_nodes := rv_nodes rv @ [(target, parse_range_node target)]\<rparr>))"

fun view_users :: "CellEdge list \<Rightarrow> RangeView \<Rightarrow> (string \<times> RangeNode) list \<times> RangeView" where
  "view_users [] rv = ([], rv)"
| "view_users (edge # edges) rv =
     (case view_node (ce_target edge) rv of
        (node, rv) \<Rightarrow>
          (case view_users edges rv of
             (found, rv) \<Rightarrow>
               (case node of
                  Some node \<Rightarrow> if ce_source edge \<noteq> [] then (ce_source edge, node) # found else found
                | None \<Rightarrow> found, rv)))"

text \<open>\<open>grid()\<close> builds the grid of the book's present cells on first use.\<close>

definition view_grid :: "SheetUsage \<Rightarrow> RangeView \<Rightarrow> CellGrid" where
  "view_grid usage rv = (case rv_grid rv of None \<Rightarrow> grid_of_usage usage | Some grid \<Rightarrow> grid)"

definition view_hops :: "formulas \<Rightarrow> RangeHops" where
  "view_hops formulas = make_hops (map fst (filter (\<lambda>(node, rec). text_truthy (fm_formula rec)) formulas))"

definition lag_between :: "string option \<Rightarrow> string option \<Rightarrow> string" where
  "lag_between source_period target_period =
     (if \<not> text_truthy source_period \<or> \<not> text_truthy target_period then ''unaligned''
      else calendar_lag (the source_period) (the target_period))"

definition view_offset_and_lag ::
  "SheetUsage \<Rightarrow> places \<Rightarrow> string \<Rightarrow> RangeNode \<Rightarrow> RangeView \<Rightarrow> (int option \<times> string) \<times> RangeView" where
  "view_offset_and_lag usage periods source node rv =
     (case grid_first (view_grid usage rv) node of
        (found, grid) \<Rightarrow>
          (case found of
             None \<Rightarrow> (None, ''unaligned'')
           | Some (col, row) \<Rightarrow>
               (map_option (\<lambda>(sheet, c, r). col - c) (parse_node_id (Some source)),
                lag_between (period_get periods source) (periods (rn_sheet node, col))),
           rv\<lparr>rv_grid := Some grid\<rparr>))"

text \<open>The distinct periods of the member columns, sorted, a missing period last.\<close>

definition sort_periods :: "string option list \<Rightarrow> string option list" where
  "sort_periods periods =
     map Some (sort (remdups (concat (map (\<lambda>p. case p of None \<Rightarrow> [] | Some t \<Rightarrow> [t]) periods))))
     @ (if None \<in> set periods then [None] else [])"

definition member_periods :: "SheetUsage \<Rightarrow> places \<Rightarrow> RangeNode \<Rightarrow> RangeView \<Rightarrow> string option list \<times> RangeView" where
  "member_periods usage periods node rv =
     (case map_of (rv_periods rv) (node_id node) of
        Some cached \<Rightarrow> (cached, rv)
      | None \<Rightarrow>
          let grid = view_grid usage rv;
              cached = sort_periods (map (\<lambda>col. periods (rn_sheet node, col)) (member_columns grid node))
          in (cached, rv\<lparr>rv_grid := Some grid, rv_periods := rv_periods rv @ [(node_id node, cached)]\<rparr>))"

section \<open>Lags\<close>

definition add_lag :: "string \<Rightarrow> string \<Rightarrow> lag_groups \<Rightarrow> lag_groups" where
  "add_lag source lag lags = dict_alter source [] (\<lambda>bucket. if lag \<in> set bucket then bucket else bucket @ [lag]) lags"

definition lags_by_source :: "CellEdge list \<Rightarrow> lag_groups" where
  "lags_by_source cell_edges =
     foldl (\<lambda>grouped edge.
         if ce_source edge = [] \<or> ce_period_lag edge = None then grouped
         else add_lag (ce_source edge) (the (ce_period_lag edge)) grouped)
       [] cell_edges"

fun add_range_lags ::
  "SheetUsage \<Rightarrow> places \<Rightarrow> (string \<times> RangeNode) list \<Rightarrow> lag_groups \<Rightarrow> RangeView \<Rightarrow> lag_groups \<times> RangeView" where
  "add_range_lags usage periods [] lags rv = (lags, rv)"
| "add_range_lags usage periods ((source, node) # users) lags rv =
     (case member_periods usage periods node rv of
        (members, rv) \<Rightarrow>
          if members = [] then add_range_lags usage periods users lags rv
          else
            add_range_lags usage periods users
              (foldl (\<lambda>lags member_period. add_lag source (lag_between (period_get periods source) member_period) lags)
                 (dict_setdefault source [] lags) members) rv)"

definition edge_offset_and_lag :: "places \<Rightarrow> string \<Rightarrow> string \<Rightarrow> int option \<times> string" where
  "edge_offset_and_lag periods source target =
     (case (parse_node_id (Some source), parse_node_id (Some target)) of
        (Some (_, c1, _), Some (_, c2, _)) \<Rightarrow> Some (c2 - c1)
      | _ \<Rightarrow> None,
      lag_between (period_get periods source) (period_get periods target))"

definition period_chain :: "string \<Rightarrow> string \<Rightarrow> string \<Rightarrow> int option \<Rightarrow> bool" where
  "period_chain source target lag offset =
     (if lag \<in> {''same'', ''0'', ''unaligned''} then False
      else if lag \<noteq> [] then (case py_int_text lag of Inl _ \<Rightarrow> False | Inr n \<Rightarrow> n \<noteq> 0)
      else if offset = None \<or> offset = Some 0 then False
      else
        case (parse_node_id (Some source), parse_node_id (Some target)) of
          (Some (sheet1, col1, row1), Some (sheet2, col2, row2)) \<Rightarrow> sheet1 = sheet2 \<and> row1 = row2
        | _ \<Rightarrow> False)"

definition member_chain :: "places \<Rightarrow> string \<Rightarrow> string \<Rightarrow> bool" where
  "member_chain periods source member =
     (case edge_offset_and_lag periods source member of (offset, lag) \<Rightarrow> period_chain source member lag offset)"

definition enrich_edge :: "SheetUsage \<Rightarrow> places \<Rightarrow> CellEdge \<Rightarrow> RangeView \<Rightarrow> CellEdge \<times> RangeView" where
  "enrich_edge usage periods edge rv =
     (case view_node (ce_target edge) rv of
        (Some node, rv) \<Rightarrow>
          (case view_offset_and_lag usage periods (ce_source edge) node rv of
             ((offset, lag), rv) \<Rightarrow> (edge\<lparr>ce_col_offset := offset, ce_period_lag := Some lag\<rparr>, rv))
      | (None, rv) \<Rightarrow>
          (case edge_offset_and_lag periods (ce_source edge) (ce_target edge) of
             (offset, lag) \<Rightarrow> (edge\<lparr>ce_col_offset := offset, ce_period_lag := Some lag\<rparr>, rv)))"

fun enrich_edges :: "SheetUsage \<Rightarrow> places \<Rightarrow> CellEdge list \<Rightarrow> RangeView \<Rightarrow> CellEdge list \<times> RangeView" where
  "enrich_edges usage periods [] rv = ([], rv)"
| "enrich_edges usage periods (edge # edges) rv =
     (case enrich_edge usage periods edge rv of
        (edge, rv) \<Rightarrow> case enrich_edges usage periods edges rv of (edges, rv) \<Rightarrow> (edge # edges, rv))"

section \<open>Hints and the document\<close>

record CircularityHint =
  ch_sheet :: string
  ch_row :: int
  ch_label :: string
  ch_cell_ids :: "string list"

definition cells_by_row :: "index_row list \<Rightarrow> ((string \<times> int) \<times> string list) list" where
  "cells_by_row rows =
     foldl (\<lambda>out row.
         case hd row of None \<Rightarrow> out
         | Some name \<Rightarrow>
             (case parse_node_id (Some name) of
                None \<Rightarrow> out
              | Some (sheet, col, row_n) \<Rightarrow>
                  dict_alter (sheet, row_n) [] (\<lambda>bucket. if name \<in> set bucket then bucket else bucket @ [name]) out))
       [] rows"

text \<open>\<open>circularity_hints\<close>: nothing when there is a cycle, else one hint per labelled row.\<close>

definition circularity_hints ::
  "Layout \<Rightarrow> index_row list \<Rightarrow> CycleRecord list \<Rightarrow> ((string \<times> int) \<times> string list) list option \<Rightarrow> CircularityHint list" where
  "circularity_hints lay rows cycles by_row =
     (if cycles \<noteq> [] then []
      else
        let cells = (case by_row of Some cells \<Rightarrow> cells | None \<Rightarrow> cells_by_row rows)
        in map (\<lambda>(sheet, block, row).
                 \<lparr>ch_sheet = sl_name sheet, ch_row = lr_row row, ch_label = lr_label row,
                  ch_cell_ids = sort (dict_get cells (sl_name sheet, lr_row row) [])\<rparr>)
             (first_by (\<lambda>(sheet, block, row). (sl_name sheet, lr_row row)) {}
               (filter (\<lambda>(sheet, block, row). circular_label (lr_label row)) (layout_rows lay))))"

record IdCount =
  id_count :: nat
  id_ids :: "string list"

definition ID_CAP :: nat where
  "ID_CAP = 32"

definition count_ids :: "string list \<Rightarrow> IdCount" where
  "count_ids ids = \<lparr>id_count = length ids, id_ids = take ID_CAP ids\<rparr>"

definition add_id :: "string \<Rightarrow> string list \<Rightarrow> string list" where
  "add_id x ids = (if x \<in> set ids then ids else ids @ [x])"

definition edge_bucket :: "Edge list \<Rightarrow> (Edge \<Rightarrow> bool) \<Rightarrow> IdCount" where
  "edge_bucket formula_edges pred =
     count_ids (foldl (\<lambda>ids edge. if pred edge \<and> e_source edge \<noteq> [] then add_id (e_source edge) ids else ids) [] formula_edges)"

definition is_unresolved :: "Edge \<Rightarrow> bool" where
  "is_unresolved edge \<longleftrightarrow> e_unresolved edge \<and> e_kind edge \<notin> {''dynamic'', ''external''}"

type_synonym counter = "(string \<times> nat) list"

definition count_one :: "string \<Rightarrow> counter \<Rightarrow> counter" where
  "count_one key c = dict_alter key 0 Suc c"

text \<open>The constant fields \<open>contract\<close> and \<open>artifacts\<close> are left out.\<close>

record GraphDocument =
  gd_schema_version :: string
  gd_job_id :: string
  gd_iterate :: bool
  gd_nodes :: nat
  gd_edges :: nat
  gd_kinds :: counter
  gd_unresolved :: IdCount
  gd_dynamic :: IdCount
  gd_external :: IdCount
  gd_truncated :: IdCount
  gd_dangling :: IdCount
  gd_dangling_classes :: counter
  gd_cycles :: "CycleRecord list"
  gd_hints :: "CircularityHint list"
  gd_links :: "FormulaLink list"

definition GRAPH_SCHEMA_VERSION :: string where
  "GRAPH_SCHEMA_VERSION = ''1.7.0''"

definition class_counts :: "CellEdge list \<Rightarrow> counter \<times> (string \<times> string) set" where
  "class_counts cell_edges =
     foldl (\<lambda>(classes, seen) edge.
         if text_truthy (ce_dangling_reason edge) \<and> ce_target edge \<noteq> [] \<and> (ce_target edge, the (ce_dangling_reason edge)) \<notin> seen
         then (count_one (the (ce_dangling_reason edge)) classes, insert (ce_target edge, the (ce_dangling_reason edge)) seen)
         else (classes, seen))
       ([], {}) cell_edges"

text \<open>\<open>_summary\<close> with the links that are attached to it before it is written.\<close>

definition summary ::
  "string \<Rightarrow> nat \<Rightarrow> Edge list \<Rightarrow> CellEdge list \<Rightarrow> CycleRecord list \<Rightarrow> bool \<Rightarrow> CircularityHint list \<Rightarrow> FormulaLink list \<Rightarrow> GraphDocument"
where
  "summary job_id node_count formula_edges cell_edges cycles iterate hints links =
     \<lparr>gd_schema_version = GRAPH_SCHEMA_VERSION, gd_job_id = job_id, gd_iterate = iterate, gd_nodes = node_count,
      gd_edges = length cell_edges,
      gd_kinds = foldl (\<lambda>c edge. count_one (if ce_kind edge = [] then ''ref'' else ce_kind edge) c) [] cell_edges,
      gd_unresolved = edge_bucket formula_edges is_unresolved,
      gd_dynamic = edge_bucket formula_edges (\<lambda>edge. e_kind edge = ''dynamic''),
      gd_external = edge_bucket formula_edges (\<lambda>edge. e_kind edge = ''external''),
      gd_truncated = count_ids (foldl (\<lambda>ids edge. if ce_truncated edge \<and> ce_source edge \<noteq> [] then add_id (ce_source edge) ids else ids) [] cell_edges),
      gd_dangling = count_ids (foldl (\<lambda>ids edge. if ce_dangling edge \<and> ce_target edge \<noteq> [] then add_id (ce_target edge) ids else ids) [] cell_edges),
      gd_dangling_classes = fst (class_counts cell_edges),
      gd_cycles = cycles, gd_hints = hints, gd_links = links\<rparr>"

definition json_truthy :: "json option \<Rightarrow> bool" where
  "json_truthy v =
     (case v of
        None \<Rightarrow> False
      | Some JNull \<Rightarrow> False
      | Some (JBool b) \<Rightarrow> b
      | Some (JNumber n) \<Rightarrow> list_ex (\<lambda>c. c \<in> set ''123456789'') (takeWhile (\<lambda>c. c \<notin> set ''eE'') n)
      | Some (JString s) \<Rightarrow> s \<noteq> []
      | Some (JArray xs) \<Rightarrow> xs \<noteq> []
      | Some (JObject d) \<Rightarrow> d \<noteq> [])"

text \<open>\<open>raw/workbook.json\<close>: \<open>None\<close> when it is missing or cannot be read.\<close>

definition workbook_iterate :: "json option \<Rightarrow> bool" where
  "workbook_iterate payload =
     (case as_dict payload of None \<Rightarrow> False | Some d \<Rightarrow> json_truthy (map_of d ''iterate''))"

section \<open>The streamed pass over the cell edges\<close>

record StreamState =
  ss_kinds :: counter
  ss_classes :: counter
  ss_seen_class :: "(string \<times> string) set"
  ss_dangling_ids :: "string list"
  ss_dangling_seen :: "string set"
  ss_truncated_ids :: "string list"
  ss_truncated_seen :: "string set"
  ss_lag_groups :: lag_groups
  ss_range_users :: "(string \<times> RangeNode) list"
  ss_packed :: Packed
  ss_edges :: nat
  ss_view :: RangeView

definition stream_start :: StreamState where
  "stream_start =
     \<lparr>ss_kinds = [], ss_classes = [], ss_seen_class = {}, ss_dangling_ids = [], ss_dangling_seen = {}, ss_truncated_ids = [],
      ss_truncated_seen = {}, ss_lag_groups = [], ss_range_users = [], ss_packed = no_packed, ss_edges = 0, ss_view = new_view\<rparr>"

text \<open>The columns of one row that the pass reads: source, target, kind, unresolved, truncated, dangling, reason.\<close>

type_synonym row_values = "pval \<times> pval \<times> pval \<times> pval \<times> pval \<times> pval \<times> pval"

definition note_dangling :: "string \<Rightarrow> string \<Rightarrow> bool \<Rightarrow> StreamState \<Rightarrow> StreamState" where
  "note_dangling target reason dangling st =
     (let st = (if reason \<noteq> [] \<and> target \<noteq> [] \<and> (target, reason) \<notin> ss_seen_class st
                then st\<lparr>ss_seen_class := insert (target, reason) (ss_seen_class st), ss_classes := count_one reason (ss_classes st)\<rparr>
                else st)
      in if dangling \<and> target \<noteq> [] \<and> target \<notin> ss_dangling_seen st
         then st\<lparr>ss_dangling_seen := insert target (ss_dangling_seen st), ss_dangling_ids := ss_dangling_ids st @ [target]\<rparr>
         else st)"

definition note_truncated :: "string \<Rightarrow> bool \<Rightarrow> StreamState \<Rightarrow> StreamState" where
  "note_truncated source truncated st =
     (if truncated \<and> source \<noteq> [] \<and> source \<notin> ss_truncated_seen st
      then st\<lparr>ss_truncated_seen := insert source (ss_truncated_seen st), ss_truncated_ids := ss_truncated_ids st @ [source]\<rparr>
      else st)"

definition note_source :: "string \<Rightarrow> RangeNode option \<Rightarrow> string \<Rightarrow> StreamState \<Rightarrow> StreamState" where
  "note_source source node lag st =
     (if source = [] then st
      else
        st\<lparr>ss_range_users := (case node of None \<Rightarrow> ss_range_users st | Some node \<Rightarrow> ss_range_users st @ [(source, node)]),
           ss_lag_groups := add_lag source lag (ss_lag_groups st)\<rparr>)"

definition USABLE_KINDS :: "string set" where
  "USABLE_KINDS = {''ref'', ''cross_sheet'', ''range''}"

definition kind_usable :: "pval \<Rightarrow> bool" where
  "kind_usable kind = (case kind of PText k \<Rightarrow> k \<in> USABLE_KINDS | _ \<Rightarrow> False)"

definition edge_flag :: "string \<Rightarrow> string \<Rightarrow> RangeNode option \<Rightarrow> int option \<Rightarrow> string \<Rightarrow> nat" where
  "edge_flag source target node offset lag =
     (if node \<noteq> None then STRUCTURAL else if period_chain source target lag offset then 1 else 0)"

definition stream_row ::
  "SheetUsage \<Rightarrow> places \<Rightarrow> row_values \<Rightarrow> StreamState \<Rightarrow> (int option \<times> string) \<times> StreamState" where
  "stream_row usage periods row st =
     (case row of (source0, target0, kind, unresolved, truncated, dangling, reason) \<Rightarrow>
        let source = text_or_empty source0;
            target = text_or_empty target0;
            (node, rv) = view_node target (ss_view st);
            ((offset, lag), rv) =
              (case node of
                 Some node \<Rightarrow> view_offset_and_lag usage periods source node rv
               | None \<Rightarrow> (edge_offset_and_lag periods source target, rv));
            st = st\<lparr>ss_view := rv, ss_kinds := count_one (if py_bool kind then py_str_of kind else ''ref'') (ss_kinds st),
                    ss_edges := ss_edges st + 1\<rparr>;
            st = note_source source node lag
                   (note_truncated source (py_bool truncated) (note_dangling target (text_or_empty reason) (py_bool dangling) st));
            st = (if source \<noteq> [] \<and> target \<noteq> [] \<and> \<not> py_bool unresolved \<and> \<not> py_bool dangling \<and> kind_usable kind
                  then st\<lparr>ss_packed := pack_edge source target (edge_flag source target node offset lag) (ss_packed st)\<rparr>
                  else st)
        in ((offset, lag), st))"

fun stream_rows ::
  "SheetUsage \<Rightarrow> places \<Rightarrow> row_values list \<Rightarrow> StreamState \<Rightarrow> (int option \<times> string) list \<times> StreamState" where
  "stream_rows usage periods [] st = ([], st)"
| "stream_rows usage periods (row # rows) st =
     (case stream_row usage periods row st of
        (found, st) \<Rightarrow> case stream_rows usage periods rows st of (founds, st) \<Rightarrow> (found # founds, st))"

text \<open>The columns of a row group, row by row (\<open>data[name][index]\<close>).\<close>

definition group_values :: "columns \<Rightarrow> row_values list" where
  "group_values data =
     map (\<lambda>i. (column data ''source'' ! i, column data ''target'' ! i, column data ''kind'' ! i, column data ''unresolved'' ! i,
               column data ''truncated'' ! i, column data ''dangling'' ! i, column data ''dangling_reason'' ! i))
       [0..<length (column data ''source'')]"

definition offset_val :: "int option \<Rightarrow> pval" where
  "offset_val offset = (case offset of None \<Rightarrow> PNone | Some i \<Rightarrow> PInt i)"

definition BOOL_COLUMNS :: "string set" where
  "BOOL_COLUMNS = {''unresolved'', ''truncated'', ''dangling'', ''named''}"

definition ABS_COLUMNS :: "string set" where
  "ABS_COLUMNS = {''abs_col'', ''abs_row'', ''abs_col_end'', ''abs_row_end''}"

definition out_columns :: "columns \<Rightarrow> (int option \<times> string) list \<Rightarrow> pval group" where
  "out_columns data found =
     map (\<lambda>(name, dtype).
         if name = ''col_offset'' then map (\<lambda>(offset, lag). offset_val offset) found
         else if name = ''period_lag'' then map (\<lambda>(offset, lag). PText lag) found
         else if name \<in> BOOL_COLUMNS then map (\<lambda>value. PBool (py_bool value)) (column data name)
         else if name \<in> ABS_COLUMNS then map (\<lambda>value. bool_val (opt_bool value)) (column data name)
         else column data name)
       IR_CELL_EDGE_COLUMNS"

fun stream_groups ::
  "SheetUsage \<Rightarrow> places \<Rightarrow> columns list \<Rightarrow> StreamState \<Rightarrow> pval RowGroupWriter \<Rightarrow> (StreamState \<times> pval RowGroupWriter) result" where
  "stream_groups usage periods [] st w = Inr (st, w)"
| "stream_groups usage periods (data # groups) st w =
     (case stream_rows usage periods (group_values data) st of
        (found, st) \<Rightarrow>
          bind_result (rg_write_lists (out_columns data found) w) (\<lambda>w. stream_groups usage periods groups st w))"

definition structural_items :: "formulas \<Rightarrow> (string \<times> RangeNode) list \<Rightarrow> (string \<times> string) list" where
  "structural_items formulas users =
     (if users = [] then [] else structural_pairs (Some (view_hops formulas)) users)"

text \<open>What a build publishes: the document, the two parquet files and the pointer it returns.\<close>

record GraphPointer =
  gp_nodes :: nat
  gp_edges :: nat
  gp_cycles_unexpected :: nat
  gp_cycles_iterative :: nat
  gp_iterate :: bool
  gp_unresolved :: nat
  gp_dangling :: nat
  gp_empty_range_members :: nat

record GraphOutput =
  go_document :: GraphDocument
  go_edges :: "pval group list"
  go_index :: "string option group list"
  go_pointer :: GraphPointer

definition graph_pointer :: "GraphDocument \<Rightarrow> GraphPointer" where
  "graph_pointer doc =
     \<lparr>gp_nodes = gd_nodes doc, gp_edges = gd_edges doc,
      gp_cycles_unexpected = length (filter (\<lambda>c. cy_class c = ''unexpected'') (gd_cycles doc)),
      gp_cycles_iterative = length (filter (\<lambda>c. cy_class c = ''iterative_ok'') (gd_cycles doc)),
      gp_iterate = gd_iterate doc, gp_unresolved = id_count (gd_unresolved doc), gp_dangling = id_count (gd_dangling doc),
      gp_empty_range_members = dict_get (gd_dangling_classes doc) ''empty_range_member'' 0\<rparr>"

record GraphBook =
  gb_cells :: "IndexCell list"
  gb_cell_edges :: "columns list option"
  gb_usage :: SheetUsage
  gb_workbook :: "json option"

record GraphSettings =
  gs_graph_stream :: bool
  gs_row_group_rows :: int

text \<open>\<open>_graph_from_parquet\<close>: document and edge file from the row groups.\<close>

definition graph_from_parquet ::
  "components \<Rightarrow> GraphBook \<Rightarrow> string \<Rightarrow> Layout \<Rightarrow> formulas \<Rightarrow> Edge list \<Rightarrow> index_row list \<Rightarrow> places \<Rightarrow> columns list \<Rightarrow> nat
   \<Rightarrow> ((string \<times> int) \<times> string list) list option \<Rightarrow> (GraphDocument \<times> pval group list) result" where
  "graph_from_parquet components book job_id lay formulas edges rows periods groups node_count circular_ids =
     (let w = rg_open kw_width 0;
          w = (if length groups > 1 then rg_start_groups w else w)
      in bind_result (stream_groups (gb_usage book) periods groups stream_start w) (\<lambda>(st, w).
         case fst (rg_close w) of
           None \<Rightarrow> Inl (RuntimeError ''parquet writer is closed'')
         | Some published \<Rightarrow>
             let users = ss_range_users st;
                 lags = fst (add_range_lags (gb_usage book) periods users (ss_lag_groups st) (ss_view st));
                 packed = foldl (\<lambda>p (parent, child). pack_edge parent child STRUCTURAL p) (ss_packed st) (structural_items formulas users);
                 extra = (if users = [] then None
                          else Some (\<lambda>name_label. hop_flags name_label users (view_hops formulas) (member_chain periods)))
             in bind_result (cycles_packed components packed extra) (\<lambda>cycles.
                let hints = circularity_hints lay rows cycles circular_ids;
                    formulas = bind_refs formulas edges
                in Inr (\<lparr>gd_schema_version = GRAPH_SCHEMA_VERSION, gd_job_id = job_id, gd_iterate = workbook_iterate (gb_workbook book),
                         gd_nodes = node_count, gd_edges = ss_edges st, gd_kinds = ss_kinds st,
                         gd_unresolved = edge_bucket edges is_unresolved,
                         gd_dynamic = edge_bucket edges (\<lambda>edge. e_kind edge = ''dynamic''),
                         gd_external = edge_bucket edges (\<lambda>edge. e_kind edge = ''external''),
                         gd_truncated = count_ids (ss_truncated_ids st), gd_dangling = count_ids (ss_dangling_ids st),
                         gd_dangling_classes = ss_classes st, gd_cycles = cycles, gd_hints = hints,
                         gd_links = links_from_formulas formulas lags\<rparr>, published))))"

definition enriched_values :: "CellEdge \<Rightarrow> pval list" where
  "enriched_values edge =
     [PText (ce_source edge), PText (ce_target edge), PText (ce_kind edge), PBool (ce_unresolved edge),
      PBool (ce_truncated edge), PBool (ce_dangling edge), offset_val (ce_col_offset edge), text_val (ce_period_lag edge),
      text_val (ce_dangling_reason edge), text_val (ce_status edge), text_val (ce_reason edge), text_val (ce_evidence edge),
      text_val (ce_range_ref edge), bool_val (ce_abs_col edge), bool_val (ce_abs_row edge),
      bool_val (ce_abs_col_end edge), bool_val (ce_abs_row_end edge), PBool (ce_named edge)]"

text \<open>The \<open>else\<close> branch of \<open>build_formula_graph\<close>: from the list of cell edges.\<close>

definition graph_from_edges ::
  "components \<Rightarrow> GraphSettings \<Rightarrow> GraphBook \<Rightarrow> string \<Rightarrow> Layout \<Rightarrow> formulas \<Rightarrow> Edge list \<Rightarrow> index_row list \<Rightarrow> places \<Rightarrow> CellEdge list
   \<Rightarrow> nat \<Rightarrow> ((string \<times> int) \<times> string list) list option \<Rightarrow> (GraphDocument \<times> pval group list) result" where
  "graph_from_edges components settings book job_id lay formulas edges rows periods cell_edges node_count circular_ids =
     (let (enriched, rv) = enrich_edges (gb_usage book) periods cell_edges new_view
      in bind_result (write_parquet kw_width (map enriched_values enriched) (gs_row_group_rows settings)) (\<lambda>published.
         let (users, rv) = view_users enriched rv
         in bind_result (classify_cycles components (map AsObject enriched)
                (if users = [] then None else Some (view_hops formulas)) users (Some (member_chain periods))) (\<lambda>cycles.
            let hints = circularity_hints lay rows cycles circular_ids;
                lags = fst (add_range_lags (gb_usage book) periods users (lags_by_source enriched) rv);
                formulas = bind_refs formulas edges
            in Inr (summary job_id node_count edges enriched cycles (workbook_iterate (gb_workbook book)) hints
                      (links_from_formulas formulas lags), published))))"

text \<open>\<open>read_parquet\<close>: one dict per row.\<close>

definition file_dicts :: "columns list \<Rightarrow> row_dict list" where
  "file_dicts groups =
     concat (map (\<lambda>data. map (\<lambda>i name. map_option (\<lambda>values. values ! i) (map_of data name)) [0..<length (column data ''source'')]) groups)"

definition cell_edges_of ::
  "GraphBook \<Rightarrow> CellEdge list option \<Rightarrow> CellEdge list result" where
  "cell_edges_of book given =
     (case given of
        Some edges \<Rightarrow> Inr edges
      | None \<Rightarrow>
          (case gb_cell_edges book of
             None \<Rightarrow> Inr []
           | Some groups \<Rightarrow> as_cell_edges (map AsDict (file_dicts groups))))"

text \<open>
  \<open>build_formula_graph\<close>. \<open>cells\<close> is the cell list of the caller, if it has one; \<open>given\<close> the list of
  cell edges, \<open>None\<close> standing for no list or a bare count.
\<close>

definition build_formula_graph ::
  "components \<Rightarrow> GraphSettings \<Rightarrow> GraphBook \<Rightarrow> string \<Rightarrow> Layout \<Rightarrow> IndexCell list option \<Rightarrow> Edge either_dict list
   \<Rightarrow> CellEdge list option \<Rightarrow> GraphOutput result" where
  "build_formula_graph components settings book job_id lay cells edges given =
     (let stream = (gs_graph_stream settings \<and> gb_cell_edges book \<noteq> None \<and> given = None);
          edges = map as_edge edges
      in bind_result (if stream then Inr [] else cell_edges_of book given) (\<lambda>cell_edges.
         let rows = row_meta lay;
             periods = fst (period_maps lay)
         in bind_result
              (case cells of
                 None \<Rightarrow>
                   bind_result (stream_index (gb_cells book) rows periods lay
                       (if stream then gb_cell_edges book else None) (if stream then None else Some cell_edges) (gs_row_group_rows settings))
                     (\<lambda>(node_count, circular_ids, published).
                       Inr (node_count, Some circular_ids, published, [], formulas_from_cells (gb_cells book) rows periods))
               | Some cells \<Rightarrow>
                   (let listed = index_rows cells rows periods;
                        existing = index_cell_node ` set cells;
                        empties = (if stream then empty_nodes_from_parquet (the (gb_cell_edges book)) existing
                                   else empty_range_nodes cell_edges existing);
                        all_rows = listed @ map (empty_index_row rows periods) empties
                    in bind_result (write_parquet index_width all_rows (gs_row_group_rows settings)) (\<lambda>published.
                         Inr (length all_rows, None, published, all_rows, formulas_from_cells cells rows periods))))
              (\<lambda>(node_count, circular_ids, ix_file, ix_rows, formulas).
                bind_result
                  (if stream
                   then graph_from_parquet components book job_id lay formulas edges ix_rows periods (the (gb_cell_edges book))
                          node_count circular_ids
                   else graph_from_edges components settings book job_id lay formulas edges ix_rows periods cell_edges
                          node_count circular_ids)
                  (\<lambda>(doc, edge_file).
                    Inr \<lparr>go_document = doc, go_edges = edge_file, go_index = ix_file, go_pointer = graph_pointer doc\<rparr>))))"

end
