(* ===== verification/Graph_Reading.thy ===== *)
theory Graph_Reading
  imports Graph_Stage
begin

text \<open>
  Reading a cell-edge file back in the graph stage: the columns and the row dicts of the file that
  the compile stage writes are the cell edges themselves, and the memos of the range view never
  change which range node a target stands for.
\<close>

section \<open>Reading a cell-edge file\<close>

definition edge_row_values :: "CellEdge \<Rightarrow> row_values" where
  "edge_row_values e =
     (PText (ce_source e), PText (ce_target e), PText (ce_kind e), PBool (ce_unresolved e), PBool (ce_truncated e),
      PBool (ce_dangling e), text_val (ce_dangling_reason e))"

text \<open>The file that the compile stage writes for groups of cell edges.\<close>

definition edge_file :: "CellEdge list list \<Rightarrow> columns list" where
  "edge_file groups = map (\<lambda>es. columns_of (map cell_edge_values es)) groups"

definition plain_edge :: "CellEdge \<Rightarrow> CellEdge" where
  "plain_edge e = e\<lparr>ce_col_offset := None, ce_period_lag := None\<rparr>"

lemma column_at:
  assumes "i < length CELL_EDGE_COLUMNS" "name = CELL_EDGE_COLUMNS ! i"
  shows "column (columns_of (map cell_edge_values es)) name = map (\<lambda>e. cell_edge_values e ! i) es"
  using column_columns_of [OF assms(1), of "map cell_edge_values es"] by (simp add: assms(2) comp_def)

lemma edge_columns:
  "column (columns_of (map cell_edge_values es)) ''source'' = map (\<lambda>e. PText (ce_source e)) es"
  "column (columns_of (map cell_edge_values es)) ''target'' = map (\<lambda>e. PText (ce_target e)) es"
  "column (columns_of (map cell_edge_values es)) ''kind'' = map (\<lambda>e. PText (ce_kind e)) es"
  "column (columns_of (map cell_edge_values es)) ''unresolved'' = map (\<lambda>e. PBool (ce_unresolved e)) es"
  "column (columns_of (map cell_edge_values es)) ''truncated'' = map (\<lambda>e. PBool (ce_truncated e)) es"
  "column (columns_of (map cell_edge_values es)) ''dangling'' = map (\<lambda>e. PBool (ce_dangling e)) es"
  "column (columns_of (map cell_edge_values es)) ''dangling_reason'' = map (\<lambda>e. text_val (ce_dangling_reason e)) es"
  "column (columns_of (map cell_edge_values es)) ''status'' = map (\<lambda>e. text_val (ce_status e)) es"
  "column (columns_of (map cell_edge_values es)) ''reason'' = map (\<lambda>e. text_val (ce_reason e)) es"
  "column (columns_of (map cell_edge_values es)) ''evidence'' = map (\<lambda>e. text_val (ce_evidence e)) es"
  "column (columns_of (map cell_edge_values es)) ''range_ref'' = map (\<lambda>e. text_val (ce_range_ref e)) es"
  "column (columns_of (map cell_edge_values es)) ''abs_col'' = map (\<lambda>e. bool_val (ce_abs_col e)) es"
  "column (columns_of (map cell_edge_values es)) ''abs_row'' = map (\<lambda>e. bool_val (ce_abs_row e)) es"
  "column (columns_of (map cell_edge_values es)) ''abs_col_end'' = map (\<lambda>e. bool_val (ce_abs_col_end e)) es"
  "column (columns_of (map cell_edge_values es)) ''abs_row_end'' = map (\<lambda>e. bool_val (ce_abs_row_end e)) es"
  "column (columns_of (map cell_edge_values es)) ''named'' = map (\<lambda>e. PBool (ce_named e)) es"
  by (simp_all add: column_at [of 0] column_at [of 1] column_at [of 2] column_at [of 3] column_at [of 4] column_at [of 5]
      column_at [of 8] column_at [of 9] column_at [of 10] column_at [of 11] column_at [of 12] column_at [of 13] column_at [of 14]
      column_at [of 15] column_at [of 16] column_at [of 17] CELL_EDGE_COLUMNS_def cell_edge_values_def)

lemma group_values_edges: "group_values (columns_of (map cell_edge_values es)) = map edge_row_values es"
  unfolding group_values_def edge_columns edge_row_values_def
  by (rule nth_equalityI) simp_all

lemma status_target_edges:
  "status_target (edge_file groups) = map (\<lambda>edge. (text_val (ce_status edge), PText (ce_target edge))) (concat groups)"
proof -
  have "zip (column (columns_of (map cell_edge_values es)) ''status'') (column (columns_of (map cell_edge_values es)) ''target'')
      = map (\<lambda>edge. (text_val (ce_status edge), PText (ce_target edge))) es" for es
    unfolding edge_columns by (simp add: zip_map_map zip_same_conv_map)
  then show ?thesis by (simp add: status_target_def edge_file_def comp_def map_concat)
qed

lemma as_cell_edges_append:
  "as_cell_edges xs = Inr es \<Longrightarrow> as_cell_edges ys = Inr fs \<Longrightarrow> as_cell_edges (xs @ ys) = Inr (es @ fs)"
  by (induction xs arbitrary: es) (auto simp: bind_result_Inr_iff)

lemma map_of_columns_of:
  assumes "k < length CELL_EDGE_COLUMNS"
  shows "map_of (columns_of (map cell_edge_values es)) (CELL_EDGE_COLUMNS ! k) = Some (map (\<lambda>e. cell_edge_values e ! k) es)"
proof -
  have "distinct CELL_EDGE_COLUMNS" by (simp add: CELL_EDGE_COLUMNS_def)
  moreover have "map fst (columns_of (map cell_edge_values es)) = CELL_EDGE_COLUMNS"
    by (simp add: columns_of_def comp_def map_nth)
  moreover have "(CELL_EDGE_COLUMNS ! k, map (\<lambda>e. cell_edge_values e ! k) es) \<in> set (columns_of (map cell_edge_values es))"
    using assms by (auto simp: columns_of_def comp_def)
  ultimately show ?thesis by (simp add: map_of_eq_Some_iff)
qed

lemma row_dict_value:
  assumes "i < length es" "k < length CELL_EDGE_COLUMNS" "name = CELL_EDGE_COLUMNS ! k"
  shows "dict_value (\<lambda>name. map_option (\<lambda>values. values ! i) (map_of (columns_of (map cell_edge_values es)) name)) name
    = cell_edge_values (es ! i) ! k"
  using assms map_of_columns_of [OF assms(2), of es] by (simp add: dict_value_def)

lemma value_readings [simp]:
  "opt_text (text_val t) = t" "opt_bool (bool_val b) = b" "text_or_empty (PText s) = s" "opt_int PNone = Inr None" "opt_text PNone = None"
  by (cases t, simp_all add: opt_text_def text_val_def) (cases b, simp_all add: opt_bool_def bool_val_def text_or_empty_def opt_int_def)

lemma row_dict_edge:
  assumes "i < length es"
  shows "as_cell_edge (AsDict (\<lambda>name. map_option (\<lambda>values. values ! i) (map_of (columns_of (map cell_edge_values es)) name)))
    = Inr (plain_edge (es ! i))"
  using row_dict_value [OF assms, of 0] row_dict_value [OF assms, of 1] row_dict_value [OF assms, of 2] row_dict_value [OF assms, of 3]
    row_dict_value [OF assms, of 4] row_dict_value [OF assms, of 5] row_dict_value [OF assms, of 6] row_dict_value [OF assms, of 7]
    row_dict_value [OF assms, of 8] row_dict_value [OF assms, of 9] row_dict_value [OF assms, of 10] row_dict_value [OF assms, of 11]
    row_dict_value [OF assms, of 12] row_dict_value [OF assms, of 13] row_dict_value [OF assms, of 14] row_dict_value [OF assms, of 15]
    row_dict_value [OF assms, of 16] row_dict_value [OF assms, of 17]
  by (simp add: as_cell_edge_def CELL_EDGE_COLUMNS_def cell_edge_values_def plain_edge_def)

lemma file_dicts_edges: "as_cell_edges (map AsDict (file_dicts (edge_file groups))) = Inr (map plain_edge (concat groups))"
proof (induction groups)
  case Nil
  then show ?case by (simp add: file_dicts_def edge_file_def)
next
  case (Cons es groups)
  let ?dict = "\<lambda>i name. map_option (\<lambda>values. values ! i) (map_of (columns_of (map cell_edge_values es)) name)"
  have all: "as_cell_edges (map (\<lambda>i. AsDict (?dict i)) is) = Inr (map (\<lambda>i. plain_edge (es ! i)) is)" if "\<forall>i \<in> set is. i < length es" for "is"
    using that by (induction "is") (simp_all add: row_dict_edge)
  have "as_cell_edges (map AsDict (map ?dict [0..<length es])) = Inr (map plain_edge es)"
    using all [of "[0..<length es]"] map_nth [of "map plain_edge es"] by (simp add: comp_def) (metis (no_types, lifting) atLeastLessThan_iff map_eq_conv nth_map set_upt)
  from as_cell_edges_append [OF this Cons] show ?case by (simp add: file_dicts_def edge_file_def)
qed

section \<open>The state after a prefix of the edges\<close>

definition node_of :: "string \<Rightarrow> RangeNode option" where
  "node_of target = (if target = [] \<or> \<not> is_range_node target then None else parse_range_node target)"

definition nodes_ok :: "RangeView \<Rightarrow> bool" where
  "nodes_ok rv \<longleftrightarrow> (\<forall>(target, found) \<in> set (rv_nodes rv). found = parse_range_node target)"

lemma view_node_spec:
  assumes "nodes_ok rv"
  shows "fst (view_node target rv) = node_of target" "nodes_ok (snd (view_node target rv))"
    "rv_grid (snd (view_node target rv)) = rv_grid rv" "rv_periods (snd (view_node target rv)) = rv_periods rv"
proof -
  have "map_of (rv_nodes rv) target = Some found \<Longrightarrow> found = parse_range_node target" for found
    using assms by (auto simp: nodes_ok_def dest: map_of_SomeD)
  then show "fst (view_node target rv) = node_of target" "nodes_ok (snd (view_node target rv))"
    "rv_grid (snd (view_node target rv)) = rv_grid rv" "rv_periods (snd (view_node target rv)) = rv_periods rv"
    using assms by (auto simp: view_node_def node_of_def nodes_ok_def split: option.split)
qed

lemma view_offset_nodes: "rv_nodes (snd (view_offset_and_lag usage periods source node rv)) = rv_nodes rv"
  by (simp add: view_offset_and_lag_def split: prod.split)

lemma enrich_edge_nodes: "nodes_ok rv \<Longrightarrow> nodes_ok (snd (enrich_edge usage periods edge rv))"
  using view_node_spec(2) [of rv "ce_target edge"] view_offset_nodes
  by (auto simp: enrich_edge_def nodes_ok_def split: prod.splits option.splits) (metis case_prodD snd_conv)+

lemma enrich_edges_nodes: "nodes_ok rv \<Longrightarrow> nodes_ok (snd (enrich_edges usage periods es rv))"
proof (induction es arbitrary: rv)
  case (Cons e es)
  obtain e' rv' where en: "enrich_edge usage periods e rv = (e', rv')" by fastforce
  from enrich_edge_nodes [OF Cons.prems, of usage periods e] have "nodes_ok rv'" by (simp add: en)
  from Cons.IH [OF this] show ?case by (cases "enrich_edges usage periods es rv'") (simp add: en)
qed simp

lemma enrich_edge_fields:
  assumes "enrich_edge usage periods edge rv = (e, rv')"
  shows "e = edge\<lparr>ce_col_offset := ce_col_offset e, ce_period_lag := ce_period_lag e\<rparr>" "ce_period_lag e \<noteq> None"
  using assms by (auto simp: enrich_edge_def split: prod.splits option.splits)

lemma enrich_plain [simp]: "enrich_edge usage periods (plain_edge edge) rv = enrich_edge usage periods edge rv"
  by (simp add: enrich_edge_def plain_edge_def split: prod.split option.split)

lemma enrich_edges_plain: "enrich_edges usage periods (map plain_edge edges) rv = enrich_edges usage periods edges rv"
  by (induction edges arbitrary: rv) simp_all

definition pure_users :: "CellEdge list \<Rightarrow> (string \<times> RangeNode) list" where
  "pure_users edges =
     concat (map (\<lambda>e. case node_of (ce_target e) of Some node \<Rightarrow> if ce_source e \<noteq> [] then [(ce_source e, node)] else [] | None \<Rightarrow> []) edges)"

lemma view_users_spec:
  assumes "nodes_ok rv"
  shows "fst (view_users edges rv) = pure_users edges" "rv_grid (snd (view_users edges rv)) = rv_grid rv"
    "rv_periods (snd (view_users edges rv)) = rv_periods rv"
proof -
  have "fst (view_users edges rv) = pure_users edges \<and> rv_grid (snd (view_users edges rv)) = rv_grid rv
    \<and> rv_periods (snd (view_users edges rv)) = rv_periods rv"
    using assms
  proof (induction edges arbitrary: rv)
    case Nil
    then show ?case by (simp add: pure_users_def)
  next
    case (Cons edge edges)
    obtain node rv1 where v: "view_node (ce_target edge) rv = (node, rv1)" by fastforce
    from view_node_spec [OF Cons.prems, of "ce_target edge"] have n: "node = node_of (ce_target edge)" "nodes_ok rv1"
      "rv_grid rv1 = rv_grid rv" "rv_periods rv1 = rv_periods rv" by (simp_all add: v)
    from Cons.IH [OF n(2)] n show ?case by (auto simp: v pure_users_def split: prod.split option.split)
  qed
  then show "fst (view_users edges rv) = pure_users edges" "rv_grid (snd (view_users edges rv)) = rv_grid rv"
    "rv_periods (snd (view_users edges rv)) = rv_periods rv" by blast+
qed

end
