(* ===== verification/Stream_State.thy ===== *)
theory Stream_State
  imports Graph_Reading
begin

text \<open>
  The state that \<open>_graph_from_parquet\<close> has after reading some cell edges, written as folds over
  the list of their enriched forms: counters, first-seen ids, lags, range users and packed edges
  are those the in-memory functions compute.
\<close>

section \<open>The state after a prefix of the edges\<close>

definition dangling_targets :: "CellEdge list \<Rightarrow> string list" where
  "dangling_targets es = foldl (\<lambda>ids edge. if ce_dangling edge \<and> ce_target edge \<noteq> [] then add_id (ce_target edge) ids else ids) [] es"

definition truncated_sources :: "CellEdge list \<Rightarrow> string list" where
  "truncated_sources es = foldl (\<lambda>ids edge. if ce_truncated edge \<and> ce_source edge \<noteq> [] then add_id (ce_source edge) ids else ids) [] es"

definition kind_counts :: "CellEdge list \<Rightarrow> counter" where
  "kind_counts es = foldl (\<lambda>c edge. count_one (if ce_kind edge = [] then ''ref'' else ce_kind edge) c) [] es"

definition state_of :: "CellEdge list \<Rightarrow> RangeView \<Rightarrow> StreamState" where
  "state_of es rv =
     \<lparr>ss_kinds = kind_counts es, ss_classes = fst (class_counts es), ss_seen_class = snd (class_counts es),
      ss_dangling_ids = dangling_targets es, ss_dangling_seen = set (dangling_targets es),
      ss_truncated_ids = truncated_sources es, ss_truncated_seen = set (truncated_sources es),
      ss_lag_groups = lags_by_source es, ss_range_users = pure_users es,
      ss_packed = pack_all (map edge_item (filter usable_edge es)) no_packed, ss_edges = length es, ss_view = rv\<rparr>"

lemma state_of_Nil: "state_of [] new_view = stream_start"
  by (simp add: state_of_def stream_start_def kind_counts_def class_counts_def dangling_targets_def truncated_sources_def
      lags_by_source_def pure_users_def pack_all_def)

lemma snoc_folds:
  "kind_counts (es @ [e]) = count_one (if ce_kind e = [] then ''ref'' else ce_kind e) (kind_counts es)"
  "dangling_targets (es @ [e]) = (if ce_dangling e \<and> ce_target e \<noteq> [] then add_id (ce_target e) (dangling_targets es) else dangling_targets es)"
  "truncated_sources (es @ [e]) = (if ce_truncated e \<and> ce_source e \<noteq> [] then add_id (ce_source e) (truncated_sources es) else truncated_sources es)"
  "lags_by_source (es @ [e]) =
     (if ce_source e = [] \<or> ce_period_lag e = None then lags_by_source es else add_lag (ce_source e) (the (ce_period_lag e)) (lags_by_source es))"
  "pure_users (es @ [e]) = pure_users es
     @ (case node_of (ce_target e) of Some node \<Rightarrow> if ce_source e \<noteq> [] then [(ce_source e, node)] else [] | None \<Rightarrow> [])"
  "pack_all (map edge_item (filter usable_edge (es @ [e]))) no_packed =
     (if usable_edge e then pack_edge (ce_source e) (ce_target e) (snd (snd (edge_item e))) (pack_all (map edge_item (filter usable_edge es)) no_packed)
      else pack_all (map edge_item (filter usable_edge es)) no_packed)"
  by (simp_all add: kind_counts_def dangling_targets_def truncated_sources_def lags_by_source_def pure_users_def pack_all_def edge_item_def)

lemma class_counts_snoc:
  "class_counts (es @ [e]) =
    (if text_truthy (ce_dangling_reason e) \<and> ce_target e \<noteq> [] \<and> (ce_target e, the (ce_dangling_reason e)) \<notin> snd (class_counts es)
     then (count_one (the (ce_dangling_reason e)) (fst (class_counts es)), insert (ce_target e, the (ce_dangling_reason e)) (snd (class_counts es)))
     else class_counts es)"
  by (simp add: class_counts_def split: prod.split)

lemma note_dangling_fields:
  "note_dangling target reason dangling st =
    st\<lparr>ss_seen_class := (if reason \<noteq> [] \<and> target \<noteq> [] \<and> (target, reason) \<notin> ss_seen_class st then insert (target, reason) (ss_seen_class st) else ss_seen_class st),
       ss_classes := (if reason \<noteq> [] \<and> target \<noteq> [] \<and> (target, reason) \<notin> ss_seen_class st then count_one reason (ss_classes st) else ss_classes st),
       ss_dangling_seen := (if dangling \<and> target \<noteq> [] \<and> target \<notin> ss_dangling_seen st then insert target (ss_dangling_seen st) else ss_dangling_seen st),
       ss_dangling_ids := (if dangling \<and> target \<noteq> [] \<and> target \<notin> ss_dangling_seen st then ss_dangling_ids st @ [target] else ss_dangling_ids st)\<rparr>"
  by (simp add: note_dangling_def Let_def)

lemma note_truncated_fields:
  "note_truncated source truncated st =
    st\<lparr>ss_truncated_seen := (if truncated \<and> source \<noteq> [] \<and> source \<notin> ss_truncated_seen st then insert source (ss_truncated_seen st) else ss_truncated_seen st),
       ss_truncated_ids := (if truncated \<and> source \<noteq> [] \<and> source \<notin> ss_truncated_seen st then ss_truncated_ids st @ [source] else ss_truncated_ids st)\<rparr>"
  by (simp add: note_truncated_def)

lemma note_source_fields:
  "note_source source node lag st =
    st\<lparr>ss_range_users := (if source = [] then ss_range_users st else case node of None \<Rightarrow> ss_range_users st | Some node \<Rightarrow> ss_range_users st @ [(source, node)]),
       ss_lag_groups := (if source = [] then ss_lag_groups st else add_lag source lag (ss_lag_groups st))\<rparr>"
  by (simp add: note_source_def)

text \<open>Range-shaped targets of usable edges are range nodes.\<close>

definition shaped :: "CellEdge \<Rightarrow> bool" where
  "shaped e \<longleftrightarrow> (usable_edge e \<and> is_range_node (ce_target e) \<longrightarrow> parse_range_node (ce_target e) \<noteq> None)"

lemma edge_flag_item:
  assumes "shaped e" "usable_edge e" "ce_period_lag e = Some lag"
  shows "edge_flag (ce_source e) (ce_target e) (node_of (ce_target e)) (ce_col_offset e) lag = snd (snd (edge_item e))"
proof -
  have "ce_target e \<noteq> []" using assms(2) by (simp add: usable_edge_def)
  then have "node_of (ce_target e) \<noteq> None \<longleftrightarrow> is_range_node (ce_target e)" using assms(1,2) by (auto simp: node_of_def shaped_def)
  then show ?thesis
    using assms(3) by (simp add: edge_flag_def edge_item_def period_chain_def is_period_chain_def Let_def)
qed

lemma usable_values:
  "ce_source e \<noteq> [] \<and> ce_target e \<noteq> [] \<and> \<not> ce_unresolved e \<and> \<not> ce_dangling e \<and> kind_usable (PText (ce_kind e)) \<longleftrightarrow> usable_edge e"
  by (simp add: usable_edge_def kind_usable_def USABLE_KINDS_def)

lemma stream_row_state:
  assumes ok: "nodes_ok rv" and sh: "shaped e" and en: "enrich_edge usage periods e rv = (e', rv')"
  shows "stream_row usage periods (edge_row_values e) (state_of es rv) =
    ((ce_col_offset e', the (ce_period_lag e')), state_of (es @ [e']) rv')"
proof -
  obtain node rv1 where v: "view_node (ce_target e) rv = (node, rv1)" by fastforce
  have node: "node = node_of (ce_target e)" using view_node_spec(1) [OF ok, of "ce_target e"] by (simp add: v)
  obtain offset lag rv2 where f: "(case node of Some node \<Rightarrow> view_offset_and_lag usage periods (ce_source e) node rv1
      | None \<Rightarrow> (edge_offset_and_lag periods (ce_source e) (ce_target e), rv1)) = ((offset, lag), rv2)" by (metis surj_pair)
  have e': "e' = e\<lparr>ce_col_offset := offset, ce_period_lag := Some lag\<rparr>" "rv' = rv2"
    using en f by (auto simp: enrich_edge_def v split: option.splits prod.splits)
  have same: "ce_source e' = ce_source e" "ce_target e' = ce_target e" "ce_kind e' = ce_kind e" "ce_unresolved e' = ce_unresolved e"
    "ce_truncated e' = ce_truncated e" "ce_dangling e' = ce_dangling e" "ce_dangling_reason e' = ce_dangling_reason e"
    "ce_col_offset e' = offset" "ce_period_lag e' = Some lag" by (simp_all add: e')
  have us: "usable_edge e' = usable_edge e" by (simp add: usable_edge_def same)
  have sh': "shaped e'" using sh by (simp add: shaped_def us same)
  have flag: "usable_edge e \<Longrightarrow> edge_flag (ce_source e) (ce_target e) node offset lag = snd (snd (edge_item e'))"
    using edge_flag_item [OF sh', of lag] by (simp add: us same node)
  have reason: "text_or_empty (text_val r) = (if text_truthy r then the r else [])" for r
    by (cases r) (auto simp: text_val_def text_or_empty_def text_truthy_def)
  have rtruthy: "(if text_truthy r then the r else []) \<noteq> [] \<longleftrightarrow> text_truthy r" for r :: "string option" by (auto simp: text_truthy_def)
  have kind: "(if py_bool (PText k) then py_str_of (PText k) else ''ref'') = (if k = [] then ''ref'' else k)" for k by simp
  let ?st = "state_of es rv"
  let ?st1 = "?st\<lparr>ss_view := rv2, ss_kinds := count_one (if ce_kind e = [] then ''ref'' else ce_kind e) (ss_kinds ?st), ss_edges := ss_edges ?st + 1\<rparr>"
  let ?st2 = "note_source (ce_source e) node lag (note_truncated (ce_source e) (ce_truncated e)
      (note_dangling (ce_target e) (if text_truthy (ce_dangling_reason e) then the (ce_dangling_reason e) else []) (ce_dangling e) ?st1))"
  let ?st3 = "?st2\<lparr>ss_packed := (if usable_edge e
      then pack_edge (ce_source e) (ce_target e) (edge_flag (ce_source e) (ce_target e) node offset lag) (ss_packed ?st2) else ss_packed ?st2)\<rparr>"
  have row: "stream_row usage periods (edge_row_values e) ?st = ((offset, lag), ?st3)"
  proof -
    have view: "ss_view ?st = rv" by (simp add: state_of_def)
    have "(if usable_edge e then ?st2\<lparr>ss_packed := pack_edge (ce_source e) (ce_target e) (edge_flag (ce_source e) (ce_target e) node offset lag) (ss_packed ?st2)\<rparr>
        else ?st2) = ?st3" by simp
    then show ?thesis
      unfolding stream_row_def edge_row_values_def prod.case Let_def value_readings reason py_bool.simps(2) view v f usable_values kind
        by (rule arg_cong [of _ _ "Product_Type.Pair (offset, lag)"])
  qed
  have pk: "ss_packed ?st2 = ss_packed ?st"
    by (simp add: note_source_fields note_truncated_fields note_dangling_fields)
  have "?st3 = state_of (es @ [e']) rv2"
  proof (rule StreamState.equality)
    show "ss_kinds ?st3 = ss_kinds (state_of (es @ [e']) rv2)"
      by (simp add: note_source_fields note_truncated_fields note_dangling_fields) (simp add: state_of_def snoc_folds same)
    show "ss_classes ?st3 = ss_classes (state_of (es @ [e']) rv2)"
      by (simp add: note_source_fields note_truncated_fields note_dangling_fields rtruthy) (auto simp add: state_of_def class_counts_snoc same rtruthy)
    show "ss_seen_class ?st3 = ss_seen_class (state_of (es @ [e']) rv2)"
      by (simp add: note_source_fields note_truncated_fields note_dangling_fields rtruthy) (auto simp add: state_of_def class_counts_snoc same rtruthy)
    show "ss_dangling_ids ?st3 = ss_dangling_ids (state_of (es @ [e']) rv2)"
      by (simp add: note_source_fields note_truncated_fields note_dangling_fields) (simp add: state_of_def snoc_folds same add_id_def)
    show "ss_dangling_seen ?st3 = ss_dangling_seen (state_of (es @ [e']) rv2)"
      by (simp add: note_source_fields note_truncated_fields note_dangling_fields) (simp add: state_of_def snoc_folds same add_id_def)
    show "ss_truncated_ids ?st3 = ss_truncated_ids (state_of (es @ [e']) rv2)"
      by (simp add: note_source_fields note_truncated_fields note_dangling_fields) (simp add: state_of_def snoc_folds same add_id_def)
    show "ss_truncated_seen ?st3 = ss_truncated_seen (state_of (es @ [e']) rv2)"
      by (simp add: note_source_fields note_truncated_fields note_dangling_fields) (simp add: state_of_def snoc_folds same add_id_def)
    show "ss_lag_groups ?st3 = ss_lag_groups (state_of (es @ [e']) rv2)"
      by (simp add: note_source_fields note_truncated_fields note_dangling_fields) (simp add: state_of_def snoc_folds same)
    show "ss_range_users ?st3 = ss_range_users (state_of (es @ [e']) rv2)"
    proof -
      have "ss_range_users ?st3 = (if ce_source e = [] then ss_range_users ?st
          else case node of None \<Rightarrow> ss_range_users ?st | Some node \<Rightarrow> ss_range_users ?st @ [(ce_source e, node)])"
        by (cases node) (simp_all add: note_source_fields note_truncated_fields note_dangling_fields)
      also have "\<dots> = ss_range_users (state_of (es @ [e']) rv2)"
        unfolding state_of_def StreamState.select_convs snoc_folds same node by (cases "node_of (ce_target e)") simp_all
      finally show ?thesis .
    qed
    show "ss_packed ?st3 = ss_packed (state_of (es @ [e']) rv2)"
    proof -
      have "ss_packed ?st3 = (if usable_edge e then pack_edge (ce_source e) (ce_target e) (edge_flag (ce_source e) (ce_target e) node offset lag)
          (ss_packed ?st) else ss_packed ?st)" unfolding pk by simp
      also have "\<dots> = (if usable_edge e then pack_edge (ce_source e) (ce_target e) (snd (snd (edge_item e'))) (ss_packed ?st) else ss_packed ?st)"
        using flag by (cases "usable_edge e") (simp_all only: if_True if_False)
      also have "\<dots> = ss_packed (state_of (es @ [e']) rv2)"
        unfolding state_of_def StreamState.select_convs snoc_folds same us ..
      finally show ?thesis .
    qed
    show "ss_edges ?st3 = ss_edges (state_of (es @ [e']) rv2)"
      by (simp add: note_source_fields note_truncated_fields note_dangling_fields) (simp add: state_of_def)
    show "ss_view ?st3 = ss_view (state_of (es @ [e']) rv2)"
      by (simp add: note_source_fields note_truncated_fields note_dangling_fields) (simp add: state_of_def)
  qed simp
  then show ?thesis unfolding row e'(2) same option.sel by simp
qed

end
