(* ===== verification/Graph_Builds.thy ===== *)
theory Graph_Builds
  imports Stream_State
begin

text \<open>
  The two builds of the graph agree: \<open>build_formula_graph\<close> publishes the same document, the same
  index and the same edge rows whether it streams the cell-edge file or works on the list.
\<close>

section \<open>Row groups\<close>

lemma enrich_edges_append:
  "enrich_edges usage periods (es @ fs) rv =
    (fst (enrich_edges usage periods es rv) @ fst (enrich_edges usage periods fs (snd (enrich_edges usage periods es rv))),
     snd (enrich_edges usage periods fs (snd (enrich_edges usage periods es rv))))"
  by (induction es arbitrary: rv) (simp_all split: prod.split)

definition found_of :: "CellEdge \<Rightarrow> int option \<times> string" where
  "found_of e = (ce_col_offset e, the (ce_period_lag e))"

lemma stream_rows_state:
  assumes "nodes_ok rv" "list_all shaped es" "enrich_edges usage periods es rv = (es', rv')"
  shows "stream_rows usage periods (map edge_row_values es) (state_of before rv) = (map found_of es', state_of (before @ es') rv')"
  using assms
proof (induction es arbitrary: rv es' before)
  case (Cons e es)
  obtain e1 rv1 where en: "enrich_edge usage periods e rv = (e1, rv1)" by fastforce
  obtain es1 where ens: "enrich_edges usage periods es rv1 = (es1, rv')" "es' = e1 # es1"
    using Cons.prems(3) by (auto simp: en split: prod.splits)
  have ok: "nodes_ok rv1" using enrich_edge_nodes [OF Cons.prems(1), of usage periods e] by (simp add: en)
  have sh: "shaped e" "list_all shaped es" using Cons.prems(2) by simp_all
  show ?case
    using stream_row_state [OF Cons.prems(1) sh(1) en, of before] Cons.IH [OF ok sh(2) ens(1), of "before @ [e1]"]
    by (simp add: ens(2) found_of_def)
qed simp

lemma kw_width_18: "kw_width = 18"
  by (simp add: kw_width_def IR_CELL_EDGE_COLUMNS_def)

lemma length_enriched [simp]: "length (enriched_values e) = kw_width"
  by (simp add: enriched_values_def kw_width_18)

definition same_but_lag :: "CellEdge \<Rightarrow> CellEdge \<Rightarrow> bool" where
  "same_but_lag e e' \<longleftrightarrow> e' = e\<lparr>ce_col_offset := ce_col_offset e', ce_period_lag := ce_period_lag e'\<rparr> \<and> ce_period_lag e' \<noteq> None"

lemma enrich_edges_fields:
  "enrich_edges usage periods es rv = (es', rv') \<Longrightarrow> list_all2 same_but_lag es es'"
proof (induction es arbitrary: rv es')
  case (Cons e es)
  obtain e1 rv1 where en: "enrich_edge usage periods e rv = (e1, rv1)" by fastforce
  obtain es1 where ens: "enrich_edges usage periods es rv1 = (es1, rv')" "es' = e1 # es1"
    using Cons.prems by (auto simp: en split: prod.splits)
  from enrich_edge_fields [OF en] Cons.IH [OF ens(1)] show ?case by (simp add: ens(2) same_but_lag_def)
qed simp

lemma map_same:
  assumes "list_all2 same_but_lag es es'" "\<And>e offset lag. f (e\<lparr>ce_col_offset := offset, ce_period_lag := lag\<rparr>) = f e"
  shows "map f es = map f es'"
  using assms(1)
proof (induction rule: list_all2_induct)
  case (Cons e es e' es')
  from Cons(1) have "e' = e\<lparr>ce_col_offset := ce_col_offset e', ce_period_lag := ce_period_lag e'\<rparr>" by (simp add: same_but_lag_def)
  from arg_cong [OF this, of f] Cons(3) show ?case by (simp add: assms(2))
qed simp

lemma found_columns:
  assumes "list_all2 same_but_lag es es'"
  shows "map (\<lambda>(offset, lag). PText lag) (map found_of es') = map (\<lambda>e. text_val (ce_period_lag e)) es'"
  using assms by (induction rule: list_all2_induct) (auto simp: found_of_def same_but_lag_def text_val_def)

lemma out_columns_enriched:
  assumes "list_all2 same_but_lag es es'"
  shows "out_columns (columns_of (map cell_edge_values es)) (map found_of es') = columns_data kw_width (map enriched_values es')"
proof -
  have right: "columns_data kw_width (map enriched_values es') =
      [map (\<lambda>e. PText (ce_source e)) es', map (\<lambda>e. PText (ce_target e)) es', map (\<lambda>e. PText (ce_kind e)) es',
       map (\<lambda>e. PBool (ce_unresolved e)) es', map (\<lambda>e. PBool (ce_truncated e)) es', map (\<lambda>e. PBool (ce_dangling e)) es',
       map (\<lambda>e. offset_val (ce_col_offset e)) es', map (\<lambda>e. text_val (ce_period_lag e)) es',
       map (\<lambda>e. text_val (ce_dangling_reason e)) es', map (\<lambda>e. text_val (ce_status e)) es', map (\<lambda>e. text_val (ce_reason e)) es',
       map (\<lambda>e. text_val (ce_evidence e)) es', map (\<lambda>e. text_val (ce_range_ref e)) es', map (\<lambda>e. bool_val (ce_abs_col e)) es',
       map (\<lambda>e. bool_val (ce_abs_row e)) es', map (\<lambda>e. bool_val (ce_abs_col_end e)) es', map (\<lambda>e. bool_val (ce_abs_row_end e)) es',
       map (\<lambda>e. PBool (ce_named e)) es']"
    by (simp add: columns_data_def kw_width_18 enriched_values_def upt_rec numeral_eq_Suc comp_def)
  have left: "out_columns (columns_of (map cell_edge_values es)) (map found_of es') =
      [map (\<lambda>e. PText (ce_source e)) es, map (\<lambda>e. PText (ce_target e)) es, map (\<lambda>e. PText (ce_kind e)) es,
       map (\<lambda>e. PBool (ce_unresolved e)) es, map (\<lambda>e. PBool (ce_truncated e)) es, map (\<lambda>e. PBool (ce_dangling e)) es,
       map (\<lambda>e. offset_val (ce_col_offset e)) es', map (\<lambda>e. text_val (ce_period_lag e)) es',
       map (\<lambda>e. text_val (ce_dangling_reason e)) es, map (\<lambda>e. text_val (ce_status e)) es, map (\<lambda>e. text_val (ce_reason e)) es,
       map (\<lambda>e. text_val (ce_evidence e)) es, map (\<lambda>e. text_val (ce_range_ref e)) es, map (\<lambda>e. bool_val (ce_abs_col e)) es,
       map (\<lambda>e. bool_val (ce_abs_row e)) es, map (\<lambda>e. bool_val (ce_abs_col_end e)) es, map (\<lambda>e. bool_val (ce_abs_row_end e)) es,
       map (\<lambda>e. PBool (ce_named e)) es]"
    unfolding out_columns_def found_columns [OF assms] IR_CELL_EDGE_COLUMNS_def
    by (simp add: edge_columns BOOL_COLUMNS_def ABS_COLUMNS_def comp_def found_of_def)
  show ?thesis
    unfolding left right list.inject
    by (intro conjI refl map_same [OF assms]) simp_all
qed

lemma stream_groups_state:
  assumes "nodes_ok rv" "list_all shaped (concat groups)" "enrich_edges usage periods (concat groups) rv = (es', rv')"
    and "rg_holds w rows" "rg_width w = kw_width"
  shows "\<exists>w'. stream_groups usage periods (edge_file groups) (state_of before rv) w = Inr (state_of (before @ es') rv', w')
    \<and> rg_holds w' (rows @ map enriched_values es')"
  using assms
proof (induction groups arbitrary: rv es' before w rows)
  case Nil
  then show ?case by (simp add: edge_file_def)
next
  case (Cons g groups)
  obtain g' rv1 where en: "enrich_edges usage periods g rv = (g', rv1)" by fastforce
  obtain es1 where ens: "enrich_edges usage periods (concat groups) rv1 = (es1, rv')" "es' = g' @ es1"
    using Cons.prems(3) by (auto simp: enrich_edges_append en prod_eq_iff)
  have ok: "nodes_ok rv1" using enrich_edges_nodes [OF Cons.prems(1), of usage periods g] by (simp add: en)
  have sh: "list_all shaped g" "list_all shaped (concat groups)" using Cons.prems(2) by simp_all
  have rows: "stream_rows usage periods (group_values (columns_of (map cell_edge_values g))) (state_of before rv) = (map found_of g', state_of (before @ g') rv1)"
    unfolding group_values_edges by (rule stream_rows_state [OF Cons.prems(1) sh(1) en])
  have out: "out_columns (columns_of (map cell_edge_values g)) (map found_of g') = columns_data kw_width (map enriched_values g')"
    by (rule out_columns_enriched [OF enrich_edges_fields [OF en]])
  have "\<forall>row \<in> set (map enriched_values g'). length row = rg_width w" using Cons.prems(5) by simp
  from rg_holds_write [OF Cons.prems(4) this] obtain w1 where w1:
    "rg_write_lists (columns_data kw_width (map enriched_values g')) w = Inr w1" "rg_holds w1 (rows @ map enriched_values g')" "rg_width w1 = kw_width"
    unfolding Cons.prems(5) by blast
  from Cons.IH [OF ok sh(2) ens(1) w1(2,3), of "before @ g'"] show ?case
    by (simp add: edge_file_def rows out w1(1) ens(2))
qed

section \<open>Both builds\<close>

lemma member_periods_view:
  assumes "rv_grid rv = rv_grid rv2" "rv_periods rv = rv_periods rv2"
  shows "fst (member_periods usage periods node rv) = fst (member_periods usage periods node rv2)
    \<and> rv_grid (snd (member_periods usage periods node rv)) = rv_grid (snd (member_periods usage periods node rv2))
    \<and> rv_periods (snd (member_periods usage periods node rv)) = rv_periods (snd (member_periods usage periods node rv2))"
  using assms by (cases "map_of (rv_periods rv2) (node_id node)") (simp_all add: member_periods_def view_grid_def Let_def)

lemma add_range_lags_view:
  assumes "rv_grid rv = rv_grid rv2" "rv_periods rv = rv_periods rv2"
  shows "fst (add_range_lags usage periods users lags rv) = fst (add_range_lags usage periods users lags rv2)"
  using assms
proof (induction users arbitrary: lags rv rv2)
  case (Cons user users)
  obtain source node where u: "user = (source, node)" by (cases user)
  obtain ms a where a: "member_periods usage periods node rv = (ms, a)" by fastforce
  obtain ms2 b where b: "member_periods usage periods node rv2 = (ms2, b)" by fastforce
  have "ms = ms2" "rv_grid a = rv_grid b" "rv_periods a = rv_periods b"
    using member_periods_view [OF Cons.prems, of usage periods node] by (simp_all add: a b)
  then show ?case using Cons.IH [of a b] by (simp add: u a b)
qed simp

lemma pack_structural:
  "foldl (\<lambda>p (parent, child). pack_edge parent child STRUCTURAL p) (pack_all es no_packed) pairs = pack_all (es @ map hop_item pairs) no_packed"
  by (simp add: pack_all_def foldl_map hop_item_def split_def)

text \<open>What both builds compute from the enriched edges, before the files are written.\<close>

definition graph_doc ::
  "components \<Rightarrow> GraphBook \<Rightarrow> string \<Rightarrow> Layout \<Rightarrow> formulas \<Rightarrow> Edge list \<Rightarrow> index_row list \<Rightarrow> places \<Rightarrow> CellEdge list \<Rightarrow> RangeView \<Rightarrow> nat
   \<Rightarrow> ((string \<times> int) \<times> string list) list option \<Rightarrow> GraphDocument result" where
  "graph_doc components book job_id lay formulas edges rows periods enriched rv node_count circular_ids =
     bind_result (classify_cycles components (map AsObject enriched)
         (if pure_users enriched = [] then None else Some (view_hops formulas)) (pure_users enriched) (Some (member_chain periods))) (\<lambda>cycles.
       Inr (summary job_id node_count edges enriched cycles (workbook_iterate (gb_workbook book))
              (circularity_hints lay rows cycles circular_ids)
              (links_from_formulas (bind_refs formulas edges)
                 (fst (add_range_lags (gb_usage book) periods (pure_users enriched) (lags_by_source enriched) rv)))))"

lemma graph_from_edges_doc:
  assumes "enrich_edges (gb_usage book) periods cell_edges new_view = (enriched, rv)"
  shows "\<exists>published. graph_from_edges components settings book job_id lay formulas edges rows periods cell_edges node_count circular_ids =
      bind_result (graph_doc components book job_id lay formulas edges rows periods enriched rv node_count circular_ids) (\<lambda>doc. Inr (doc, published))
    \<and> rows_of_file published = map enriched_values enriched"
proof -
  have pos: "0 < kw_width" by (simp add: kw_width_18)
  have ok: "nodes_ok rv" using enrich_edges_nodes [of new_view "gb_usage book" periods cell_edges] assms by (simp add: nodes_ok_def new_view_def)
  obtain users rv2 where v: "view_users enriched rv = (users, rv2)" by fastforce
  from view_users_spec [OF ok, of enriched] have u: "users = pure_users enriched" "rv_grid rv2 = rv_grid rv" "rv_periods rv2 = rv_periods rv"
    by (simp_all add: v)
  have lags: "fst (add_range_lags usage periods users' lags rv2) = fst (add_range_lags usage periods users' lags rv)" for usage users' lags
    by (rule add_range_lags_view [OF u(2,3)])
  let ?file = "file_groups kw_width (map enriched_values enriched) (gs_row_group_rows settings)"
  have "rows_of_file ?file = map enriched_values enriched"
    unfolding rows_of_file_def by (rule rows_of_file_groups [OF pos]) simp
  moreover have "graph_from_edges components settings book job_id lay formulas edges rows periods cell_edges node_count circular_ids =
      bind_result (graph_doc components book job_id lay formulas edges rows periods enriched rv node_count circular_ids) (\<lambda>doc. Inr (doc, ?file))"
    unfolding graph_from_edges_def assms prod.case Let_def write_parquet_groups [OF pos] bind_result_simps v graph_doc_def lags u(1)
    by (simp add: bind_result_def split: sum.split)
  ultimately show ?thesis by blast
qed

lemma graph_from_parquet_doc:
  assumes "enrich_edges (gb_usage book) periods (concat groups) new_view = (enriched, rv)" "list_all shaped (concat groups)"
  shows "\<exists>published. graph_from_parquet components book job_id lay formulas edges rows periods (edge_file groups) node_count circular_ids =
      bind_result (graph_doc components book job_id lay formulas edges rows periods enriched rv node_count circular_ids) (\<lambda>doc. Inr (doc, published))
    \<and> rows_of_file published = map enriched_values enriched"
proof -
  define w where "w = (if length (edge_file groups) > 1 then rg_start_groups (rg_open kw_width 0) else rg_open kw_width (0::int) :: pval RowGroupWriter)"
  have "rg_holds (rg_open kw_width 0 :: pval RowGroupWriter) []" by (rule rg_holds_open) (simp add: kw_width_18)
  with rg_holds_start [OF this] have w: "rg_holds w []" "rg_width w = kw_width" by (auto simp: w_def rg_open_def)
  have "nodes_ok new_view" by (simp add: nodes_ok_def new_view_def)
  from stream_groups_state [OF this assms(2,1) w, of "[]"] obtain w' where s:
    "stream_groups (gb_usage book) periods (edge_file groups) stream_start w = Inr (state_of enriched rv, w')"
    "rg_holds w' (map enriched_values enriched)" unfolding state_of_Nil by auto
  from rg_holds_close [OF s(2)] obtain published w'' where c: "rg_close w' = (Some published, w'')" "rows_of_file published = map enriched_values enriched"
    by blast
  let ?users = "pure_users enriched"
  let ?hops = "if ?users = [] then None else Some (view_hops formulas)"
  have items: "structural_items formulas ?users = structural_pairs ?hops ?users"
    by (simp add: structural_items_def structural_pairs_def)
  have fields: "ss_range_users (state_of enriched rv) = ?users" "ss_lag_groups (state_of enriched rv) = lags_by_source enriched"
    "ss_view (state_of enriched rv) = rv" "ss_packed (state_of enriched rv) = pack_all (map edge_item (filter usable_edge enriched)) no_packed"
    "ss_edges (state_of enriched rv) = length enriched" "ss_kinds (state_of enriched rv) = kind_counts enriched"
    "ss_truncated_ids (state_of enriched rv) = truncated_sources enriched" "ss_dangling_ids (state_of enriched rv) = dangling_targets enriched"
    "ss_classes (state_of enriched rv) = fst (class_counts enriched)" by (simp_all add: state_of_def)
  have packed: "cycles_packed components (pack_all (map edge_item (filter usable_edge enriched) @ map hop_item (structural_pairs ?hops ?users)) no_packed)
      (if ?users = [] then None else Some (\<lambda>name_label. hop_flags name_label ?users (view_hops formulas) (member_chain periods)))
    = classify_cycles components (map AsObject enriched) ?hops ?users (Some (member_chain periods))"
    by (rule cycles_packed_classify) simp
  have "graph_from_parquet components book job_id lay formulas edges rows periods (edge_file groups) node_count circular_ids =
      bind_result (graph_doc components book job_id lay formulas edges rows periods enriched rv node_count circular_ids) (\<lambda>doc. Inr (doc, published))"
    unfolding graph_from_parquet_def Let_def w_def [symmetric] s(1) bind_result_simps prod.case c(1) fst_conv option.case fields items
      pack_structural packed graph_doc_def summary_def kind_counts_def truncated_sources_def dangling_targets_def
    by (simp add: bind_result_def split: sum.split)
  with c(2) show ?thesis by blast
qed

definition graph_content :: "GraphOutput \<Rightarrow> GraphDocument \<times> pval list list \<times> string option group list \<times> GraphPointer" where
  "graph_content output = (go_document output, rows_of_file (go_edges output), go_index output, go_pointer output)"

lemma map_sum_bind: "map_sum id f (bind_result r g) = bind_result r (\<lambda>x. map_sum id f (g x))"
  by (cases r) simp_all

section \<open>Properties\<close>

text \<open>
  C2. Streaming does not change the graph: for a cell-edge file written by the compile stage, whose usable
  range-shaped targets are range nodes, \<open>build_formula_graph\<close> publishes the same document (counts,
  first-seen ids, cycles with their classes, hints, links with their formula classes), the same
  index, the same edge rows and the same pointer with \<open>graph_stream\<close> on and off. It holds for every
  labelling that scipy may return, with and without a cell list of the caller.
\<close>

theorem streamed_graph_same:
  assumes "gb_cell_edges book = Some (edge_file groups)" and "list_all shaped (concat groups)"
  shows "map_sum id graph_content
      (build_formula_graph components (settings\<lparr>gs_graph_stream := True\<rparr>) book job_id lay cells edges None) =
    map_sum id graph_content
      (build_formula_graph components (settings\<lparr>gs_graph_stream := False\<rparr>) book job_id lay cells edges None)"
proof -
  let ?rows = "row_meta lay" and ?periods = "fst (period_maps lay)" and ?es = "map plain_edge (concat groups)"
  have given: "cell_edges_of book None = Inr ?es" by (simp add: cell_edges_of_def assms(1) file_dicts_edges)
  have empties: "empty_range_nodes ?es seen = empty_range_nodes (concat groups) seen" for seen
    unfolding empty_range_nodes_first by (simp add: filter_map comp_def plain_edge_def)
  have ids: "empty_target_ids (Some (edge_file groups)) None = empty_target_ids None (Some ?es)"
    by (simp add: empty_target_ids_def sql_empty_targets_edges [OF status_target_edges] empties)
  have ix: "stream_index (gb_cells book) ?rows ?periods lay (Some (edge_file groups)) None n =
      stream_index (gb_cells book) ?rows ?periods lay None (Some ?es) n" for n
    by (simp only: stream_index_def ids)
  have listed: "empty_nodes_from_parquet (edge_file groups) seen = empty_range_nodes ?es seen" for seen
    by (simp add: empty_nodes_from_parquet_edges [OF status_target_edges] empties)
  obtain enriched rv where en: "enrich_edges (gb_usage book) ?periods (concat groups) new_view = (enriched, rv)" by fastforce
  then have en': "enrich_edges (gb_usage book) ?periods ?es new_view = (enriched, rv)" by (simp only: enrich_edges_plain)
  have graph: "map_sum id graph_content (bind_result
        (graph_from_parquet components book job_id lay formulas fes ix_rows ?periods (edge_file groups) node_count circular_ids)
        (\<lambda>(doc, edge_file). Inr \<lparr>go_document = doc, go_edges = edge_file, go_index = ix_file, go_pointer = graph_pointer doc\<rparr>)) =
      map_sum id graph_content (bind_result
        (graph_from_edges components (settings\<lparr>gs_graph_stream := False\<rparr>) book job_id lay formulas fes ix_rows ?periods ?es node_count circular_ids)
        (\<lambda>(doc, edge_file). Inr \<lparr>go_document = doc, go_edges = edge_file, go_index = ix_file, go_pointer = graph_pointer doc\<rparr>))"
    for formulas fes ix_rows node_count circular_ids ix_file
  proof -
    let ?doc = "graph_doc components book job_id lay formulas fes ix_rows ?periods enriched rv node_count circular_ids"
    obtain p where p: "graph_from_parquet components book job_id lay formulas fes ix_rows ?periods (edge_file groups) node_count circular_ids
        = bind_result ?doc (\<lambda>doc. Inr (doc, p))" "rows_of_file p = map enriched_values enriched"
      using graph_from_parquet_doc [OF en assms(2)] by blast
    obtain q where q: "graph_from_edges components (settings\<lparr>gs_graph_stream := False\<rparr>) book job_id lay formulas fes ix_rows ?periods ?es node_count circular_ids
        = bind_result ?doc (\<lambda>doc. Inr (doc, q))" "rows_of_file q = map enriched_values enriched"
      using graph_from_edges_doc [OF en'] by blast
    show ?thesis unfolding p(1) q(1) by (cases ?doc) (simp_all add: graph_content_def p(2) q(2))
  qed
  have step: "map_sum id graph_content (bind_result R F) = map_sum id graph_content (bind_result R G)"
    if "\<And>x. map_sum id graph_content (F x) = map_sum id graph_content (G x)" for R :: "'r result" and F G
    by (cases R) (simp_all add: that)
  show ?thesis
  proof (cases cells)
    case None
    show ?thesis
      unfolding build_formula_graph_def Let_def None
      by (simp add: assms(1) given ix, rule step) (simp only: split_paired_all prod.case graph)
  next
    case (Some cs)
    show ?thesis
      unfolding build_formula_graph_def Let_def Some
      by (simp add: assms(1) given listed, rule step) (simp only: split_paired_all prod.case graph)
  qed
qed

text \<open>
  C36. The index streamed from the cell and edge files has the rows that the listed index has: one row per
  cell in file order, then one row per empty range target that no cell covers, in first-seen
  order, whatever the chunks and row groups are; the node count is the number of rows, and
  writing the listed rows publishes the same rows.
\<close>

theorem index_streamed_like_listed:
  "\<exists>circ streamed listed. stream_index cells rows periods lay (Some (edge_file groups)) None n = Inr (length (rows_of_file streamed), circ, streamed)
    \<and> write_parquet index_width (index_rows cells rows periods
        @ map (empty_index_row rows periods) (empty_range_nodes (concat groups) (index_cell_node ` set cells))) n = Inr listed
    \<and> rows_of_file streamed = rows_of_file listed
    \<and> rows_of_file listed = index_rows cells rows periods
        @ map (empty_index_row rows periods) (empty_range_nodes (concat groups) (index_cell_node ` set cells))"
proof -
  let ?rows = "index_rows cells rows periods @ map (empty_index_row rows periods) (empty_range_nodes (concat groups) (index_cell_node ` set cells))"
  obtain circ streamed where s: "stream_index cells rows periods lay (Some (edge_file groups)) None n = Inr (length (rows_of_file streamed), circ, streamed)"
    "rows_of_file streamed = index_rows cells rows periods @ map (empty_index_row rows periods)
      (filter (\<lambda>name. name \<notin> index_cell_node ` set cells) (empty_target_ids (Some (edge_file groups)) None))"
    using stream_index_rows by blast
  have "filter (\<lambda>name. name \<notin> index_cell_node ` set cells) (empty_target_ids (Some (edge_file groups)) None)
      = empty_range_nodes (concat groups) (index_cell_node ` set cells)"
    using empty_range_nodes_filter [of "concat groups" "{}" "index_cell_node ` set cells"]
    by (simp add: empty_target_ids_def sql_empty_targets_edges [OF status_target_edges])
  with s have rows: "rows_of_file streamed = ?rows" by simp
  have "\<forall>row \<in> set ?rows. length row = index_width" by (auto simp: index_rows_def)
  from rows_of_file_groups [OF index_width_pos this, of n] write_parquet_groups [OF index_width_pos, of ?rows n]
  have "write_parquet index_width ?rows n = Inr (file_groups index_width ?rows n)" "rows_of_file (file_groups index_width ?rows n) = ?rows"
    by (simp_all add: rows_of_file_def)
  with s(1) rows show ?thesis by metis
qed

text \<open>\<open>A3 = SUM(A1:A3)\<close> read through the node, \<open>A1\<close> reading \<open>A3\<close>, in two row groups.\<close>

definition stream_example :: GraphBook where
  "stream_example =
     \<lparr>gb_cells = [\<lparr>ic_sheet = ''S'', ic_addr = ''A1'', ic_row = 1, ic_col = 1, ic_formula = Some ''=A3'', ic_cached = None\<rparr>,
                  \<lparr>ic_sheet = ''S'', ic_addr = ''A3'', ic_row = 3, ic_col = 1, ic_formula = Some ''=SUM(A1:A3)'', ic_cached = None\<rparr>],
      gb_cell_edges = Some (edge_file [take 1 cycle_example, drop 1 cycle_example]),
      gb_usage = sheet_usage [''S!A1'', ''S!A3''], gb_workbook = None\<rparr>"

theorem streamed_graph_same_witness:
  "map_sum id graph_content
      (build_formula_graph first_mutual \<lparr>gs_graph_stream = True, gs_row_group_rows = 2\<rparr> stream_example ''job'' [] None [] None) =
    map_sum id graph_content
      (build_formula_graph first_mutual \<lparr>gs_graph_stream = False, gs_row_group_rows = 2\<rparr> stream_example ''job'' [] None [] None)"
proof -
  have "gb_cell_edges stream_example = Some (edge_file [take 1 cycle_example, drop 1 cycle_example])" by (simp add: stream_example_def)
  moreover have "list_all shaped (concat [take 1 cycle_example, drop 1 cycle_example])" by code_simp
  ultimately show ?thesis
    using streamed_graph_same [of stream_example "[take 1 cycle_example, drop 1 cycle_example]" first_mutual
      "\<lparr>gs_graph_stream = True, gs_row_group_rows = 2\<rparr>"] by simp
qed

text \<open>
  A target that only looks like a range: \<open>classify_cycles\<close> lets no edge into it vote, the packed pass
  lets it vote because it is no range node, and the classes differ. Formula cells never have such
  names, so no component of a compiled workbook goes through one.
\<close>

definition odd_edges :: "CellEdge list" where
  "odd_edges = map (\<lambda>(s, t, lag). (hd cycle_example)\<lparr>ce_source := s, ce_target := t, ce_kind := ''ref'', ce_period_lag := Some lag\<rparr>)
     [(''S!A1'', ''S!p_1:q_1'', ''unaligned''), (''S!p_1:q_1'', ''S!B1'', ''-1''), (''S!B1'', ''S!A1'', ''-1'')]"

lemma packed_range_shape_differs:
  "cycles_packed (\<lambda>n _. replicate n 0)
      (pack_all (map (\<lambda>e. (ce_source e, ce_target e,
         edge_flag (ce_source e) (ce_target e) (node_of (ce_target e)) (ce_col_offset e) (the (ce_period_lag e)))) odd_edges) no_packed) None
    \<noteq> classify_cycles (\<lambda>n _. replicate n 0) (map AsObject odd_edges) None [] None"
  by code_simp

text \<open>
  The ids of a hint depend on where the cells come from: collected from the cell file they are the cells
  of the row, collected from the index rows also the empty range targets in it.
\<close>

definition hint_cell :: IndexCell where
  "hint_cell = \<lparr>ic_sheet = ''S'', ic_addr = ''A1'', ic_row = 1, ic_col = 1, ic_formula = None, ic_cached = Some ''1''\<rparr>"

definition hint_rows :: "string list \<Rightarrow> index_row list" where
  "hint_rows empties = index_rows [hint_cell] Map.empty Map.empty @ map (empty_index_row Map.empty Map.empty) empties"

lemma hint_ids_differ:
  "is_circular (note_cell (\<lambda>_. Some ''Circular'') hint_cell \<lparr>is_writer = rg_open 6 0, is_chunk = [], is_count = 0, is_still = {''S!B1''}, is_circular = []\<rparr>)
      = [((''S'', 1), [''S!A1''])]
   \<and> cells_by_row (hint_rows [''S!B1'']) = [((''S'', 1), [''S!A1'', ''S!B1''])]"
  by code_simp

end
