(* ===== verification/Range_Lags.thy ===== *)
theory Range_Lags
  imports Graph_Reading
begin

text \<open>
  A range node hides its cells from the edge files, so \<open>_add_range_lags\<close> adds the lags of its member
  columns. The lemmas show that a formula then has the steps it would have with one edge per
  member cell, and so the same formula class.
\<close>

section \<open>One edge per member\<close>

definition node_cells :: "SheetUsage \<Rightarrow> RangeNode \<Rightarrow> (int \<times> int) list" where
  "node_cells usage node =
     (if node_whole node then node_present_pairs node usage
      else row_major (rn_c1 node) (rn_c2 node) (rn_r1 node) (rn_r2 node))"

definition expand_members :: "SheetUsage \<Rightarrow> CellEdge list \<Rightarrow> CellEdge list" where
  "expand_members usage edges =
     concat (map (\<lambda>e. case node_of (ce_target e) of
         None \<Rightarrow> [e]
       | Some node \<Rightarrow> map (\<lambda>(row, col). e\<lparr>ce_target := cell_name (rn_sheet node) col row\<rparr>) (node_cells usage node)) edges)"

text \<open>A sheet name that reads back from a node id, spelled as in the usage index.\<close>

definition plain_sheet :: "SheetUsage \<Rightarrow> string \<Rightarrow> bool" where
  "plain_sheet usage sheet \<longleftrightarrow> sheet \<noteq> [] \<and> undouble CHR 0x27 (strip_char CHR 0x27 (py_strip sheet)) = sheet
     \<and> sheet_name usage sheet = sheet"

definition plain_node :: "SheetUsage \<Rightarrow> CellEdge \<Rightarrow> bool" where
  "plain_node usage e = (case node_of (ce_target e) of None \<Rightarrow> True | Some node \<Rightarrow> plain_sheet usage (rn_sheet node))"

lemma cell_name_text: "cell_name sheet col row = node_text sheet col row"
  by (simp add: cell_name_def node_text_def format_addr_def)

lemma plain_addr: "0 \<le> row \<Longrightarrow> CHR '':'' \<notin> set (format_addr col row) \<and> CHR ''$'' \<notin> set (format_addr col row)"
  using nat_str_digit [of _ "nat row"] index_to_col_letter [of _ col] by (fastforce simp: format_addr_def int_str_def)

lemma parse_cell_name:
  assumes "plain_sheet usage sheet" "1 \<le> col" "0 \<le> row"
  shows "parse_node_id (Some (cell_name sheet col row)) = Some (sheet, col, row)"
proof -
  have "takeWhile (\<lambda>c. c \<noteq> CHR '':'') (format_addr col row) = format_addr col row"
    using plain_addr [OF assms(3), of col] by (auto simp: takeWhile_eq_all_conv)
  moreover have "filter (\<lambda>c. c \<noteq> CHR ''$'') (format_addr col row) = format_addr col row"
    using plain_addr [OF assms(3), of col] by (auto simp: filter_id_conv)
  ultimately have "parse_node_id (Some (cell_name sheet col row)) =
      (if undouble CHR 0x27 (strip_char CHR 0x27 (py_strip sheet)) = [] then None
       else Some (undouble CHR 0x27 (strip_char CHR 0x27 (py_strip sheet)), max col 1, row))"
    unfolding parse_node_id_def cell_name_text option.case rsplit1_node_text prod.case Let_def
    by (simp only: parse_format_addr [OF assms(3)] sum.case prod.case)
  with assms show ?thesis by (simp add: plain_sheet_def)
qed

lemma cell_name_no_node: "0 \<le> row \<Longrightarrow> node_of (cell_name sheet col row) = None"
  using plain_addr [of row col] by (simp add: node_of_def is_range_node_def cell_name_text)

lemma node_of_parsed: "node_of target = Some node \<Longrightarrow> parsed_node node \<and> node_id node = target"
  by (auto simp: node_of_def parsed_node_def parse_range_node_def split: if_splits option.splits prod.splits)

lemma node_cells_bounds:
  assumes "usage_ok usage" "parsed_node node" "(row, col) \<in> set (node_cells usage node)"
  shows "1 \<le> col" "0 \<le> row"
proof -
  have "in_rect (rn_c1 node) (rn_c2 node) (rn_r1 node) (rn_r2 node) (row, col)"
    using assms(3) present_pairs_facts(3) [OF assms(1)]
    by (auto simp: node_cells_def node_present_pairs_def row_major_def in_rect_def split: if_splits)
  with parsed_node_bounds [OF assms(2)] show "1 \<le> col" "0 \<le> row" by (auto simp: in_rect_def)
qed

lemma member_columns_cells:
  assumes "usage_ok usage" "parsed_node node" "plain_sheet usage (rn_sheet node)" "cg_usage grid = usage"
  shows "set (member_columns grid node) = snd ` set (node_cells usage node)"
proof (cases "node_whole node")
  case True
  with member_columns_set [of grid node] assms show ?thesis by (simp add: node_cells_def plain_sheet_def)
next
  case False
  have "rn_r1 node \<in> {rn_r1 node..rn_r2 node}" using parsed_node_bounds [OF assms(2)] by simp
  with False show ?thesis by (auto simp: member_columns_def node_cells_def row_major_def image_iff)
qed

lemma first_member_cells:
  assumes "parsed_node node" "first_member usage node = Some (col, row)"
  shows "(row, col) \<in> set (node_cells usage node)"
  using assms parsed_node_bounds [OF assms(1)]
  by (force simp: first_member_def node_cells_def row_major_def split: if_splits list.splits)

section \<open>Steps of a source\<close>

definition steps_of :: "string list \<Rightarrow> int set" where
  "steps_of lags = set (lag_numbers lags)"

lemma steps_of_Union: "steps_of lags = (\<Union>lag \<in> set lags. steps_of [lag])"
  unfolding steps_of_def by (rule set_lag_numbers)

lemma steps_unaligned [simp]: "steps_of [''unaligned''] = {}"
  by (simp add: steps_of_def)

definition lags_at :: "lag_groups \<Rightarrow> string \<Rightarrow> string set" where
  "lags_at lags source = set (dict_get lags source [])"

lemma lags_at_add: "lags_at (add_lag source lag lags) s = (if s = source then insert lag (lags_at lags s) else lags_at lags s)"
  by (auto simp: lags_at_def add_lag_def dict_get_def)

lemma lags_at_setdefault: "lags_at (dict_setdefault source [] lags) s = lags_at lags s"
  by (cases "map_of lags source") (auto simp: lags_at_def dict_get_def map_of_dict_setdefault)

lemma lags_at_fold: "lags_at (foldl (\<lambda>lags p. add_lag source (f p) lags) lags ps) s =
    lags_at lags s \<union> (if s = source then f ` set ps else {})"
  by (induction ps arbitrary: lags) (auto simp: lags_at_add)

lemma lags_by_source_at:
  "s \<noteq> [] \<Longrightarrow> lags_at (lags_by_source es) s = {lag. \<exists>e \<in> set es. ce_source e = s \<and> ce_period_lag e = Some lag}"
proof (induction es rule: rev_induct)
  case Nil
  then show ?case by (simp add: lags_by_source_def lags_at_def dict_get_def)
next
  case (snoc e es)
  have "lags_by_source (es @ [e]) =
      (if ce_source e = [] \<or> ce_period_lag e = None then lags_by_source es else add_lag (ce_source e) (the (ce_period_lag e)) (lags_by_source es))"
    by (simp add: lags_by_source_def)
  with snoc show ?case by (auto simp: lags_at_add)
qed

lemma lags_by_source_empty: "lags_at (lags_by_source es) [] = {}"
proof (induction es rule: rev_induct)
  case Nil
  then show ?case by (simp add: lags_by_source_def lags_at_def dict_get_def)
next
  case (snoc e es)
  have "lags_by_source (es @ [e]) =
      (if ce_source e = [] \<or> ce_period_lag e = None then lags_by_source es else add_lag (ce_source e) (the (ce_period_lag e)) (lags_by_source es))"
    by (simp add: lags_by_source_def)
  with snoc show ?case by (auto simp: lags_at_add)
qed

lemma classify_by_steps:
  assumes "\<And>s. (\<Union>lag \<in> lags_at lags s. steps_of [lag]) = (\<Union>lag \<in> lags_at lags' s. steps_of [lag])"
  shows "classify_formula formula refs (map_of lags cell) = classify_formula formula refs (map_of lags' cell)"
proof -
  have or_empty: "classify_formula formula refs (map_of d cell) = classify_formula formula refs (Some (dict_get d cell []))" for d
  proof (cases "map_of d cell")
    case None
    have "classify_formula formula refs None = classify_formula formula refs (Some [])" unfolding classify_formula_def option.case ..
    with None show ?thesis by (simp add: dict_get_def)
  qed (simp add: dict_get_def)
  have "steps_of (dict_get lags cell []) = steps_of (dict_get lags' cell [])"
    using assms [of cell] unfolding steps_of_Union [of "dict_get lags cell []"] steps_of_Union [of "dict_get lags' cell []"] by (simp add: lags_at_def)
  then show ?thesis unfolding or_empty steps_of_def by (rule classify_formula_steps)
qed

section \<open>Lags of enriched edges\<close>

definition edge_lag :: "SheetUsage \<Rightarrow> places \<Rightarrow> CellEdge \<Rightarrow> string" where
  "edge_lag usage periods e =
     (case node_of (ce_target e) of
        None \<Rightarrow> lag_between (period_get periods (ce_source e)) (period_get periods (ce_target e))
      | Some node \<Rightarrow>
          (case first_member usage node of
             None \<Rightarrow> ''unaligned''
           | Some (col, row) \<Rightarrow> lag_between (period_get periods (ce_source e)) (periods (rn_sheet node, col))))"

definition grid_ok :: "SheetUsage \<Rightarrow> RangeView \<Rightarrow> bool" where
  "grid_ok usage rv \<longleftrightarrow> memo_consistent (view_grid usage rv) \<and> cg_usage (view_grid usage rv) = usage"

lemma grid_ok_new: "usage_ok usage \<Longrightarrow> rv_grid rv = None \<Longrightarrow> grid_ok usage rv"
  by (simp add: grid_ok_def view_grid_def memo_consistent_def grid_of_usage_def)

lemma enrich_edge_lag:
  assumes "nodes_ok rv" "grid_ok usage rv" "enrich_edge usage periods e rv = (e', rv')"
  shows "ce_period_lag e' = Some (edge_lag usage periods e)" "grid_ok usage rv'" "rv_periods rv' = rv_periods rv"
    "ce_source e' = ce_source e" "ce_target e' = ce_target e"
proof -
  obtain node rv1 where v: "view_node (ce_target e) rv = (node, rv1)" by fastforce
  from view_node_spec [OF assms(1), of "ce_target e"] have n: "node = node_of (ce_target e)" "rv_grid rv1 = rv_grid rv" "rv_periods rv1 = rv_periods rv"
    by (simp_all add: v)
  have g1: "view_grid usage rv1 = view_grid usage rv" by (simp add: view_grid_def n(2))
  have "ce_period_lag e' = Some (edge_lag usage periods e) \<and> grid_ok usage rv' \<and> rv_periods rv' = rv_periods rv"
  proof (cases node)
    case None
    obtain offset lag where ol: "edge_offset_and_lag periods (ce_source e) (ce_target e) = (offset, lag)" by fastforce
    then have "lag = lag_between (period_get periods (ce_source e)) (period_get periods (ce_target e))"
      by (simp add: edge_offset_and_lag_def)
    then show ?thesis using assms(2,3) None n g1 by (auto simp: enrich_edge_def v ol edge_lag_def grid_ok_def)
  next
    case (Some nd)
    obtain found grid where f: "grid_first (view_grid usage rv1) nd = (found, grid)" by fastforce
    have "parsed_node nd" using node_of_parsed n(1) Some by metis
    from grid_first_correct [of "view_grid usage rv1", OF _ this] assms(2) have c: "found = first_member usage nd" "memo_consistent grid" "cg_usage grid = usage"
      by (simp_all add: grid_ok_def g1 f [unfolded g1])
    have e': "ce_period_lag e' = Some (case found of None \<Rightarrow> ''unaligned''
        | Some (col, row) \<Rightarrow> lag_between (period_get periods (ce_source e)) (periods (rn_sheet nd, col)))" "rv' = rv1\<lparr>rv_grid := Some grid\<rparr>"
      using assms(3) by (auto simp: enrich_edge_def v Some view_offset_and_lag_def f split: option.splits prod.splits)
    have "node_of (ce_target e) = Some nd" using n(1) Some by simp
    with e' c n(3) show ?thesis by (simp add: edge_lag_def grid_ok_def view_grid_def)
  qed
  then show "ce_period_lag e' = Some (edge_lag usage periods e)" "grid_ok usage rv'" "rv_periods rv' = rv_periods rv" by blast+
  show "ce_source e' = ce_source e" "ce_target e' = ce_target e" by (subst enrich_edge_fields(1) [OF assms(3)], simp)+
qed

lemma enrich_edges_lags:
  assumes "nodes_ok rv" "grid_ok usage rv" "enrich_edges usage periods es rv = (es', rv')"
  shows "map (\<lambda>e. (ce_source e, ce_target e, ce_period_lag e)) es' = map (\<lambda>e. (ce_source e, ce_target e, Some (edge_lag usage periods e))) es
    \<and> grid_ok usage rv' \<and> rv_periods rv' = rv_periods rv"
  using assms
proof (induction es arbitrary: rv es')
  case (Cons e es)
  obtain e1 rv1 where en: "enrich_edge usage periods e rv = (e1, rv1)" by fastforce
  obtain es1 where ens: "enrich_edges usage periods es rv1 = (es1, rv')" "es' = e1 # es1"
    using Cons.prems(3) by (auto simp: en split: prod.splits)
  have ok: "nodes_ok rv1" using enrich_edge_nodes [OF Cons.prems(1), of usage periods e] by (simp add: en)
  note one = enrich_edge_lag [OF Cons.prems(1,2) en]
  from Cons.IH [OF ok one(2) ens(1)] one show ?case by (simp add: ens(2))
qed simp

lemma enriched_lags_at:
  assumes "usage_ok usage" "enrich_edges usage periods es new_view = (es', rv)" "s \<noteq> []"
  shows "lags_at (lags_by_source es') s = {edge_lag usage periods e | e. e \<in> set es \<and> ce_source e = s}"
proof -
  have m: "map (\<lambda>e. (ce_source e, ce_target e, ce_period_lag e)) es' = map (\<lambda>e. (ce_source e, ce_target e, Some (edge_lag usage periods e))) es"
    using enrich_edges_lags [OF _ grid_ok_new [OF assms(1)] assms(2)] by (simp add: nodes_ok_def new_view_def)
  have "{lag. \<exists>e \<in> set es'. ce_source e = s \<and> ce_period_lag e = Some lag} =
      {lag. (s, Some lag) \<in> (\<lambda>(a, b, c). (a, c)) ` set (map (\<lambda>e. (ce_source e, ce_target e, ce_period_lag e)) es')}"
    by (auto simp: image_image image_iff)
  also have "\<dots> = {edge_lag usage periods e | e. e \<in> set es \<and> ce_source e = s}"
    unfolding m by (auto simp: image_image)
  finally show ?thesis unfolding lags_by_source_at [OF assms(3)] .
qed

section \<open>Lags of member columns\<close>

definition period_set :: "SheetUsage \<Rightarrow> places \<Rightarrow> RangeNode \<Rightarrow> string option set" where
  "period_set usage periods node = (\<lambda>col. periods (rn_sheet node, col)) ` set (member_columns (grid_of_usage usage) node)"

definition periods_ok :: "SheetUsage \<Rightarrow> places \<Rightarrow> RangeView \<Rightarrow> bool" where
  "periods_ok usage periods rv \<longleftrightarrow>
     (\<forall>(key, ps) \<in> set (rv_periods rv). \<exists>node. parsed_node node \<and> node_id node = key \<and> set ps = period_set usage periods node)"

lemma set_sort_periods [simp]: "set (sort_periods ps) = set ps"
proof -
  have "x \<in> set (sort_periods ps) \<longleftrightarrow> x \<in> set ps" for x
    by (cases x) (auto simp: sort_periods_def split: option.splits)
  then show ?thesis by blast
qed

lemma member_periods_spec:
  assumes "grid_ok usage rv" "periods_ok usage periods rv" "parsed_node node"
  shows "set (fst (member_periods usage periods node rv)) = period_set usage periods node"
    "grid_ok usage (snd (member_periods usage periods node rv))" "periods_ok usage periods (snd (member_periods usage periods node rv))"
proof -
  have cols: "member_columns (view_grid usage rv) node = member_columns (grid_of_usage usage) node"
    using assms(1) by (simp add: member_columns_def grid_ok_def grid_of_usage_def)
  have "set (fst (member_periods usage periods node rv)) = period_set usage periods node \<and>
    grid_ok usage (snd (member_periods usage periods node rv)) \<and> periods_ok usage periods (snd (member_periods usage periods node rv))"
  proof (cases "map_of (rv_periods rv) (node_id node)")
    case None
    have new: "set (sort_periods (map (\<lambda>col. periods (rn_sheet node, col)) (member_columns (view_grid usage rv) node))) = period_set usage periods node"
      by (simp add: cols period_set_def)
    with None assms show ?thesis
      by (auto simp: member_periods_def Let_def grid_ok_def periods_ok_def view_grid_def)
  next
    case (Some cached)
    then obtain n where "parsed_node n" "node_id n = node_id node" "set cached = period_set usage periods n"
      using assms(2) by (fastforce simp: periods_ok_def dest: map_of_SomeD)
    moreover from this assms(3) have "n = node" by (simp add: parsed_node_def)
    ultimately show ?thesis using Some assms by (simp add: member_periods_def)
  qed
  then show "set (fst (member_periods usage periods node rv)) = period_set usage periods node"
    "grid_ok usage (snd (member_periods usage periods node rv))" "periods_ok usage periods (snd (member_periods usage periods node rv))" by blast+
qed

lemma add_range_lags_at:
  assumes "grid_ok usage rv" "periods_ok usage periods rv" "\<forall>(source, node) \<in> set users. parsed_node node"
  shows "lags_at (fst (add_range_lags usage periods users lags rv)) s =
    lags_at lags s \<union> {lag_between (period_get periods s) p | p node. (s, node) \<in> set users \<and> p \<in> period_set usage periods node}"
  using assms
proof (induction users arbitrary: lags rv)
  case (Cons user users)
  obtain source node where u: "user = (source, node)" by (cases user)
  obtain ms rv1 where m: "member_periods usage periods node rv = (ms, rv1)" by fastforce
  have "parsed_node node" using Cons.prems(3) by (simp add: u)
  from member_periods_spec [OF Cons.prems(1,2) this] have ms: "set ms = period_set usage periods node" "grid_ok usage rv1" "periods_ok usage periods rv1"
    by (simp_all add: m)
  note ih = Cons.IH [OF ms(2,3)]
  have users: "\<forall>(source, node) \<in> set users. parsed_node node" using Cons.prems(3) by simp
  show ?case
  proof (cases "ms = []")
    case True
    with ms(1) have "period_set usage periods node = {}" by simp
    with True ih [OF users] show ?thesis by (auto simp: u m)
  next
    case False
    then show ?thesis
      using ih [OF users, of "foldl (\<lambda>lags p. add_lag source (lag_between (period_get periods source) p) lags) (dict_setdefault source [] lags) ms"] ms(1)
      by (auto simp: u m lags_at_fold lags_at_setdefault)
  qed
qed simp

section \<open>Properties\<close>

lemma expand_members_lags:
  assumes "usage_ok usage" "list_all (plain_node usage) es"
  shows "{edge_lag usage periods x | x. x \<in> set (expand_members usage es) \<and> ce_source x = s} =
    {edge_lag usage periods e | e. e \<in> set es \<and> ce_source e = s \<and> node_of (ce_target e) = None}
    \<union> {lag_between (period_get periods s) p | p e node. e \<in> set es \<and> ce_source e = s \<and> node_of (ce_target e) = Some node \<and> p \<in> period_set usage periods node}"
    (is "?L = ?N \<union> ?M")
proof -
  have member: "edge_lag usage periods (e\<lparr>ce_target := cell_name (rn_sheet node) col row\<rparr>) = lag_between (period_get periods (ce_source e)) (periods (rn_sheet node, col))"
    if "node_of (ce_target e) = Some node" "e \<in> set es" "(row, col) \<in> set (node_cells usage node)" for e node col row
  proof -
    have parsed: "parsed_node node" using node_of_parsed [OF that(1)] by blast
    note b = node_cells_bounds [OF assms(1) parsed that(3)]
    have "plain_sheet usage (rn_sheet node)" using assms(2) that(1,2) by (auto simp: list_all_iff plain_node_def split: option.splits)
    from parse_cell_name [OF this b] cell_name_no_node [OF b(2)] show ?thesis by (simp add: edge_lag_def period_get_def)
  qed
  have pset: "period_set usage periods node = {periods (rn_sheet node, col) | row col. (row, col) \<in> set (node_cells usage node)}"
    if "node_of (ce_target e) = Some node" "e \<in> set es" for e node
  proof -
    have "plain_sheet usage (rn_sheet node)" using assms(2) that by (auto simp: list_all_iff plain_node_def split: option.splits)
    from member_columns_cells [OF assms(1) _ this, of "grid_of_usage usage"] node_of_parsed [OF that(1)] show ?thesis
      by (force simp: period_set_def grid_of_usage_def)
  qed
  have in_expand: "x \<in> set (expand_members usage es) \<longleftrightarrow>
      (\<exists>e \<in> set es. (node_of (ce_target e) = None \<and> x = e)
         \<or> (\<exists>node row col. node_of (ce_target e) = Some node \<and> (row, col) \<in> set (node_cells usage node)
              \<and> x = e\<lparr>ce_target := cell_name (rn_sheet node) col row\<rparr>))" for x
  proof -
    have one: "x \<in> set (case node_of (ce_target e) of None \<Rightarrow> [e]
          | Some node \<Rightarrow> map (\<lambda>(row, col). e\<lparr>ce_target := cell_name (rn_sheet node) col row\<rparr>) (node_cells usage node)) \<longleftrightarrow>
        (node_of (ce_target e) = None \<and> x = e)
         \<or> (\<exists>node row col. node_of (ce_target e) = Some node \<and> (row, col) \<in> set (node_cells usage node)
              \<and> x = e\<lparr>ce_target := cell_name (rn_sheet node) col row\<rparr>)" for e
      by (cases "node_of (ce_target e)") auto
    show ?thesis unfolding expand_members_def set_concat set_map bex_simps UN_iff one ..
  qed
  show ?thesis
  proof (intro equalityI subsetI)
    fix lag assume "lag \<in> ?L"
    then obtain x where x: "lag = edge_lag usage periods x" "x \<in> set (expand_members usage es)" "ce_source x = s" by blast
    from x(2) obtain e where e: "e \<in> set es" and alt: "(node_of (ce_target e) = None \<and> x = e)
         \<or> (\<exists>node row col. node_of (ce_target e) = Some node \<and> (row, col) \<in> set (node_cells usage node)
              \<and> x = e\<lparr>ce_target := cell_name (rn_sheet node) col row\<rparr>)" unfolding in_expand by blast
    from alt show "lag \<in> ?N \<union> ?M"
    proof
      assume "node_of (ce_target e) = None \<and> x = e"
      with x e show ?thesis by blast
    next
      assume "\<exists>node row col. node_of (ce_target e) = Some node \<and> (row, col) \<in> set (node_cells usage node)
              \<and> x = e\<lparr>ce_target := cell_name (rn_sheet node) col row\<rparr>"
      then obtain node row col where n: "node_of (ce_target e) = Some node" "(row, col) \<in> set (node_cells usage node)"
        "x = e\<lparr>ce_target := cell_name (rn_sheet node) col row\<rparr>" by blast
      have "ce_source e = s" using x(3) n(3) by simp
      moreover have "lag = lag_between (period_get periods s) (periods (rn_sheet node, col))"
        using member [OF n(1) e n(2)] x(1) n(3) \<open>ce_source e = s\<close> by simp
      moreover have "periods (rn_sheet node, col) \<in> period_set usage periods node" using pset [OF n(1) e] n(2) by blast
      ultimately show ?thesis using e n(1) by blast
    qed
  next
    fix lag assume "lag \<in> ?N \<union> ?M"
    then show "lag \<in> ?L"
    proof
      assume "lag \<in> ?N"
      then show ?thesis using in_expand by blast
    next
      assume "lag \<in> ?M"
      then obtain p e node where m: "lag = lag_between (period_get periods s) p" "e \<in> set es" "ce_source e = s" "node_of (ce_target e) = Some node"
        "p \<in> period_set usage periods node" by blast
      from m(5) obtain row col where rc: "p = periods (rn_sheet node, col)" "(row, col) \<in> set (node_cells usage node)"
        unfolding pset [OF m(4,2)] by blast
      have "e\<lparr>ce_target := cell_name (rn_sheet node) col row\<rparr> \<in> set (expand_members usage es)" unfolding in_expand using m(2,4) rc(2) by blast
      moreover have "lag = edge_lag usage periods (e\<lparr>ce_target := cell_name (rn_sheet node) col row\<rparr>)"
        using member [OF m(4,2) rc(2)] m(1,3) rc(1) by simp
      moreover have "ce_source (e\<lparr>ce_target := cell_name (rn_sheet node) col row\<rparr>) = s" using m(3) by simp
      ultimately show ?thesis by blast
    qed
  qed
qed

lemma first_lag_member:
  assumes "usage_ok usage" "list_all (plain_node usage) es" "e \<in> set es" "node_of (ce_target e) = Some node" "ce_source e = s"
  shows "edge_lag usage periods e = ''unaligned'' \<or>
    (\<exists>p \<in> period_set usage periods node. edge_lag usage periods e = lag_between (period_get periods s) p)"
proof (cases "first_member usage node")
  case None
  with assms(4) show ?thesis by (simp add: edge_lag_def)
next
  case (Some cr)
  obtain col row where cr: "cr = (col, row)" by (cases cr)
  have parsed: "parsed_node node" using node_of_parsed [OF assms(4)] by blast
  have "plain_sheet usage (rn_sheet node)" using assms(2-4) by (auto simp: list_all_iff plain_node_def split: option.splits)
  from member_columns_cells [OF assms(1) parsed this, of "grid_of_usage usage"] first_member_cells [OF parsed, of usage col row] Some
  have "col \<in> set (member_columns (grid_of_usage usage) node)" by (force simp: cr grid_of_usage_def)
  with Some assms(4,5) show ?thesis by (auto simp: edge_lag_def cr period_set_def)
qed

lemma pure_users_cong:
  assumes "map (\<lambda>e. (ce_source e, ce_target e)) es = map (\<lambda>e. (ce_source e, ce_target e)) es'"
  shows "pure_users es = pure_users es'"
proof -
  let ?f = "\<lambda>(source, target). case node_of target of Some node \<Rightarrow> if source \<noteq> [] then [(source, node)] else [] | None \<Rightarrow> []"
  have users: "pure_users xs = concat (map ?f (map (\<lambda>e. (ce_source e, ce_target e)) xs))" for xs by (simp add: pure_users_def comp_def)
  show ?thesis unfolding users [of es] users [of es'] assms ..
qed

text \<open>
  C5. Compressing a range into one node does not change what kind of formula a cell holds: with the
  lags that \<open>_add_range_lags\<close> adds for the member columns of range nodes, every formula gets the class
  it gets when each edge into a range node is replaced by one edge per member cell and each of
  those edges is enriched on its own. It holds for every layout, usage index and list of edges
  whose range nodes name their sheets as the index spells them.
\<close>

theorem formula_class_as_expanded:
  assumes "usage_ok usage" and "list_all (plain_node usage) es"
    and "enrich_edges usage periods es new_view = (enriched, rv)"
    and "view_users enriched rv = (users, rv1)"
  shows "classify_formula formula refs (map_of (fst (add_range_lags usage periods users (lags_by_source enriched) rv1)) cell) =
    classify_formula formula refs
      (map_of (lags_by_source (fst (enrich_edges usage periods (expand_members usage es) new_view))) cell)"
proof (rule classify_by_steps)
  fix s
  have new: "nodes_ok new_view" "grid_ok usage new_view" using grid_ok_new [OF assms(1), of new_view] by (simp_all add: nodes_ok_def new_view_def)
  from enrich_edges_lags [OF new assms(3)] have en: "map (\<lambda>e. (ce_source e, ce_target e, ce_period_lag e)) enriched
      = map (\<lambda>e. (ce_source e, ce_target e, Some (edge_lag usage periods e))) es" "grid_ok usage rv" "rv_periods rv = []"
    by (simp_all add: new_view_def)
  have "nodes_ok rv" using enrich_edges_nodes [OF new(1), of usage periods es] by (simp add: assms(3))
  from view_users_spec [OF this, of enriched] have us: "users = pure_users enriched" "rv_grid rv1 = rv_grid rv" "rv_periods rv1 = rv_periods rv"
    by (simp_all add: assms(4))
  have ok1: "grid_ok usage rv1" "periods_ok usage periods rv1" using en(2,3) us(2,3) by (simp_all add: grid_ok_def view_grid_def periods_ok_def)
  have "map (\<lambda>(a, b, c). (a, b)) (map (\<lambda>e. (ce_source e, ce_target e, ce_period_lag e)) enriched)
      = map (\<lambda>(a, b, c). (a, b)) (map (\<lambda>e. (ce_source e, ce_target e, Some (edge_lag usage periods e))) es)" unfolding en(1) ..
  then have "map (\<lambda>e. (ce_source e, ce_target e)) enriched = map (\<lambda>e. (ce_source e, ce_target e)) es" by (simp add: comp_def)
  from pure_users_cong [OF this] us(1) have users: "users = pure_users es" by simp
  have user: "(s, node) \<in> set users \<longleftrightarrow> s \<noteq> [] \<and> (\<exists>e \<in> set es. ce_source e = s \<and> node_of (ce_target e) = Some node)" for s node
    unfolding users pure_users_def by (force split: option.splits if_splits)
  have "\<forall>(source, node) \<in> set users. parsed_node node" using user node_of_parsed by fastforce
  note range = add_range_lags_at [OF ok1 this, of "lags_by_source enriched" s]
  obtain ex rv2 where ex: "enrich_edges usage periods (expand_members usage es) new_view = (ex, rv2)" by fastforce
  show "(\<Union>lag \<in> lags_at (fst (add_range_lags usage periods users (lags_by_source enriched) rv1)) s. steps_of [lag]) =
      (\<Union>lag \<in> lags_at (lags_by_source (fst (enrich_edges usage periods (expand_members usage es) new_view))) s. steps_of [lag])"
  proof (cases "s = []")
    case True
    then show ?thesis unfolding range ex fst_conv using user lags_by_source_empty by simp
  next
    case False
    let ?N = "{edge_lag usage periods e | e. e \<in> set es \<and> ce_source e = s \<and> node_of (ce_target e) = None}"
    let ?M = "{lag_between (period_get periods s) p | p e node. e \<in> set es \<and> ce_source e = s \<and> node_of (ce_target e) = Some node \<and> p \<in> period_set usage periods node}"
    let ?F = "{edge_lag usage periods e | e. e \<in> set es \<and> ce_source e = s \<and> node_of (ce_target e) \<noteq> None}"
    have first: "?F \<subseteq> insert ''unaligned'' ?M" using first_lag_member [OF assms(1,2)] by blast
    have "{lag_between (period_get periods s) p | p node. (s, node) \<in> set users \<and> p \<in> period_set usage periods node} = ?M"
      using user False by blast
    moreover have "lags_at (lags_by_source enriched) s = ?N \<union> ?F"
      unfolding enriched_lags_at [OF assms(1,3) False] by blast
    ultimately have left: "lags_at (fst (add_range_lags usage periods users (lags_by_source enriched) rv1)) s = ?N \<union> ?F \<union> ?M"
      unfolding range by simp
    have right: "lags_at (lags_by_source ex) s = ?N \<union> ?M"
      unfolding enriched_lags_at [OF assms(1) ex False] expand_members_lags [OF assms(1,2)] ..
    have "(\<Union>lag \<in> ?F. steps_of [lag]) \<subseteq> (\<Union>lag \<in> insert ''unaligned'' ?M. steps_of [lag])" by (rule UN_mono [OF first]) simp
    also have "\<dots> = (\<Union>lag \<in> ?M. steps_of [lag])" by (simp only: UN_insert steps_unaligned Un_empty_left)
    finally have le: "(\<Union>lag \<in> ?F. steps_of [lag]) \<subseteq> (\<Union>lag \<in> ?M. steps_of [lag])" .
    have absorb: "F \<subseteq> M \<Longrightarrow> N \<union> F \<union> M = N \<union> M" for N F M :: "int set" by blast
    show ?thesis unfolding left right ex fst_conv UN_Un by (rule absorb [OF le])
  qed
qed

text \<open>\<open>C1 = A1:B1 + A1\<close> under the years 2023 to 2025: the range brings the steps -2 and -1.\<close>

definition lag_edges :: "CellEdge list" where
  "lag_edges = map (\<lambda>(s, t, k). \<lparr>ce_source = s, ce_target = t, ce_kind = k, ce_unresolved = False, ce_truncated = False,
     ce_dangling = False, ce_dangling_reason = None, ce_status = None, ce_reason = None, ce_evidence = None, ce_range_ref = None,
     ce_abs_col = None, ce_abs_row = None, ce_abs_col_end = None, ce_abs_row_end = None, ce_named = False,
     ce_col_offset = None, ce_period_lag = None\<rparr>)
     [(''S!C1'', ''S!A1:B1'', ''range''), (''S!C1'', ''S!A1'', ''ref'')]"

definition lag_periods :: places where
  "lag_periods = map_of [((''S'', 1), ''2023''), ((''S'', 2), ''2024''), ((''S'', 3), ''2025'')]"

definition lag_usage :: SheetUsage where
  "lag_usage = sheet_usage [''S!A1'', ''S!B1'', ''S!C1'']"

theorem formula_class_as_expanded_witness:
  "classify_formula (Some ''=A1:B1+A1'') None
      (map_of (lags_by_source (fst (enrich_edges lag_usage lag_periods (expand_members lag_usage lag_edges) new_view))) ''S!C1'') =
    Some ''cross_period''
  \<and> (\<exists>lags. classify_formula (Some ''=A1:B1+A1'') None (map_of lags ''S!C1'') = Some ''cross_period'')"
proof -
  let ?en = "enrich_edges lag_usage lag_periods lag_edges new_view"
  let ?us = "view_users (fst ?en) (snd ?en)"
  have ok: "usage_ok lag_usage" by (simp add: lag_usage_def usage_ok_sheet_usage)
  have plain: "list_all (plain_node lag_usage) lag_edges" by code_simp
  have members: "classify_formula (Some ''=A1:B1+A1'') None
      (map_of (lags_by_source (fst (enrich_edges lag_usage lag_periods (expand_members lag_usage lag_edges) new_view))) ''S!C1'') =
    Some ''cross_period''" by code_simp
  from formula_class_as_expanded [OF ok plain, of lag_periods "fst ?en" "snd ?en" "fst ?us" "snd ?us" "Some ''=A1:B1+A1''" None "''S!C1''"]
  have "classify_formula (Some ''=A1:B1+A1'') None
      (map_of (fst (add_range_lags lag_usage lag_periods (fst ?us) (lags_by_source (fst ?en)) (snd ?us))) ''S!C1'') = Some ''cross_period''"
    using members by simp
  with members show ?thesis by blast
qed

end
