(* ===== verification/Compile_Cells.thy ===== *)
theory Compile_Cells
  imports Template_Laws Known_Nodes Json_Values Batches
begin

text \<open>
  Compiling the cells of a workbook, the first half of \<open>src/finance_context/formulas/stage.py\<close>:
  \<open>_iter_parsed\<close> parses the master of each shared group once and shifts it to the other members,
  \<open>_take_cell\<close> copies what a cell keeps out of a parse and then calls its \<open>release\<close>, which clears the parse
  that may be shared. The cache of masters, the counters of members left and the string pool are
  state that is passed on. The lemmas show that nothing is released too early: the cells and
  edges are those of a function that parses without any cache.
\<close>

section \<open>Trees as JSON\<close>

text \<open>The dict that a tree is in the program, keys in the order in which the parser sets them.\<close>

definition json_int :: "int \<Rightarrow> json" where
  "json_int n = JNumber (int_str n)"

definition json_float :: "'f float_ops \<Rightarrow> 'f \<Rightarrow> json" where
  "json_float fo x =
     JNumber (let s = f_str fo x in
       if s = ''inf'' then ''Infinity'' else if s = ''-inf'' then ''-Infinity'' else if s = ''nan'' then ''NaN'' else s)"

definition cell_items :: "cell \<Rightarrow> (string \<times> json) list" where
  "cell_items c =
     [(''op'', JString ''ref''), (''col'', json_int (c_col c)), (''row'', json_int (c_row c)),
      (''abs_col'', JBool (c_abs_col c)), (''abs_row'', JBool (c_abs_row c))]"

fun body_items :: "ref_body \<Rightarrow> (string \<times> json) list" where
  "body_items (BCell c) = cell_items c"
| "body_items (BRange a b) =
     [(''op'', JString ''range''), (''start'', JObject (cell_items a)), (''end'', JObject (cell_items b))]"
| "body_items (BCols (c1, a1) (c2, a2)) =
     [(''op'', JString ''range''), (''col_only'', JBool True),
      (''start'', JObject [(''col'', json_int c1), (''abs_col'', JBool a1)]),
      (''end'', JObject [(''col'', json_int c2), (''abs_col'', JBool a2)])]"
| "body_items (BRows (r1, a1) (r2, a2)) =
     [(''op'', JString ''range''), (''row_only'', JBool True),
      (''start'', JObject [(''row'', json_int r1), (''abs_row'', JBool a1)]),
      (''end'', JObject [(''row'', json_int r2), (''abs_row'', JBool a2)])]"

definition opt_item :: "string \<Rightarrow> string option \<Rightarrow> (string \<times> json) list" where
  "opt_item key v = (case v of None \<Rightarrow> [] | Some s \<Rightarrow> [(key, JString s)])"

fun ast_json :: "'f float_ops \<Rightarrow> 'f ast \<Rightarrow> json" where
  "ast_json fo (Num x) = JObject [(''op'', JString ''num''), (''value'', json_float fo x)]"
| "ast_json fo (Str s) = JObject [(''op'', JString ''str''), (''value'', JString s)]"
| "ast_json fo (Err s) = JObject [(''op'', JString ''err''), (''value'', JString s)]"
| "ast_json fo (Name s) = JObject [(''op'', JString ''name''), (''value'', JString s)]"
| "ast_json fo (RefAst n) =
     JObject (body_items (rf_body n) @ opt_item ''external'' (rf_external n) @ opt_item ''sheet'' (rf_sheet n))"
| "ast_json fo (NamedRange a b) =
     JObject [(''op'', JString ''range''), (''named'', JBool True), (''start_name'', JString a), (''end_name'', JString b)]"
| "ast_json fo (Unary op e) = JObject [(''op'', JString ''unary''), (''kind'', JString op), (''expr'', ast_json fo e)]"
| "ast_json fo (Percent e) = JObject [(''op'', JString ''percent''), (''expr'', ast_json fo e)]"
| "ast_json fo (Bin op a b) =
     JObject [(''op'', JString ''bin''), (''kind'', JString op), (''left'', ast_json fo a), (''right'', ast_json fo b)]"
| "ast_json fo (Func name args) =
     JObject [(''op'', JString ''func''), (''name'', JString name), (''args'', JArray (map (ast_json fo) args))]"
| "ast_json fo (Array rows) =
     JObject [(''op'', JString ''array''), (''rows'', JArray (map (\<lambda>row. JArray (map (ast_json fo) row)) rows))]"

text \<open>\<open>json.dumps(value, ensure_ascii=False)\<close>.\<close>

definition hex_digit :: "nat \<Rightarrow> char" where
  "hex_digit n = (if n < 10 then char_of (48 + n) else char_of (87 + n))"

definition json_char :: "char \<Rightarrow> string" where
  "json_char c =
     (let n = of_char c :: nat in
      if c = CHR 0x22 then [CHR 0x5C, CHR 0x22]
      else if c = CHR 0x5C then [CHR 0x5C, CHR 0x5C]
      else if n = 8 then [CHR 0x5C, CHR ''b'']
      else if n = 9 then [CHR 0x5C, CHR ''t'']
      else if n = 10 then [CHR 0x5C, CHR ''n'']
      else if n = 12 then [CHR 0x5C, CHR ''f'']
      else if n = 13 then [CHR 0x5C, CHR ''r'']
      else if n < 32 then [CHR 0x5C, CHR ''u'', CHR ''0'', CHR ''0'', hex_digit (n div 16), hex_digit (n mod 16)]
      else [c])"

definition json_quote :: "string \<Rightarrow> string" where
  "json_quote s = CHR 0x22 # concat (map json_char s) @ [CHR 0x22]"

fun json_dumps :: "json \<Rightarrow> string" where
  "json_dumps JNull = ''null''"
| "json_dumps (JBool b) = (if b then ''true'' else ''false'')"
| "json_dumps (JNumber s) = s"
| "json_dumps (JString s) = json_quote s"
| "json_dumps (JArray xs) = ''['' @ join '', '' (map json_dumps xs) @ '']''"
| "json_dumps (JObject d) = ''{'' @ join '', '' (map (\<lambda>(k, v). json_quote k @ '': '' @ json_dumps v) d) @ ''}''"

section \<open>Rows and cells\<close>

text \<open>A row of \<open>raw/cells.parquet\<close>, the columns that the compiler reads.\<close>

record RawRow =
  rr_sheet :: string
  rr_addr :: string
  rr_row :: int
  rr_col :: int
  rr_formula :: "string option"
  rr_cached :: "string option"
  rr_hidden :: "bool option"
  rr_number_format :: "string option"
  rr_comment :: "string option"
  rr_shared_si :: "int option"
  rr_shared_master :: "bool option"

text \<open>The tree of a cell: JSON text, or its zlib bytes.\<close>

datatype ast_text = Plain string | Zipped string

record IrCell =
  ir_sheet :: string
  ir_row :: int
  ir_col :: int
  ir_addr :: string
  ir_formula :: "string option"
  ir_template :: "string option"
  ir_unparsed :: bool
  ir_cached :: "string option"
  ir_hidden :: "bool option"
  ir_number_format :: "string option"
  ir_comment :: "string option"
  ir_ast :: "ast_text option"

text \<open>\<open>zlib\<close> behind UTF-8 is a parameter, with the law that decompressing undoes compressing.\<close>

record zlib_ops =
  z_compress :: "string \<Rightarrow> string"
  z_decompress :: "string \<Rightarrow> string"

definition zlib_ok :: "zlib_ops \<Rightarrow> bool" where
  "zlib_ok z \<longleftrightarrow> (\<forall>s. z_decompress z (z_compress z s) = s)"

definition ast_json_text :: "zlib_ops \<Rightarrow> ast_text option \<Rightarrow> string option" where
  "ast_json_text z value =
     (case value of None \<Rightarrow> None | Some (Zipped b) \<Rightarrow> Some (z_decompress z b) | Some (Plain s) \<Rightarrow> Some s)"

section \<open>Shared groups\<close>

type_synonym shared_key = "string \<times> int"

definition shared_key :: "RawRow \<Rightarrow> shared_key option" where
  "shared_key row =
     (case rr_shared_si row of
        None \<Rightarrow> None
      | Some si \<Rightarrow> if \<not> truthy (rr_formula row) then None else Some (rr_sheet row, si))"

type_synonym shared_index = "(shared_key \<times> nat list) list \<times> (shared_key \<times> nat) list"

definition group_row :: "shared_index \<Rightarrow> nat \<times> RawRow \<Rightarrow> shared_index" where
  "group_row st item =
     (case st of (groups, masters) \<Rightarrow> case item of (index, row) \<Rightarrow>
        case shared_key row of
          None \<Rightarrow> (groups, masters)
        | Some key \<Rightarrow>
            (dict_alter key [] (\<lambda>indexes. indexes @ [index]) groups,
             if rr_shared_master row = Some True \<and> map_of masters key = None then masters @ [(key, index)] else masters))"

definition shared_groups :: "RawRow list \<Rightarrow> shared_index" where
  "shared_groups raw_rows = foldl group_row ([], []) (enumerate 0 raw_rows)"

definition members_left :: "shared_index \<Rightarrow> (shared_key \<times> int) list" where
  "members_left st =
     (case st of (groups, masters) \<Rightarrow>
        map (\<lambda>(key, indexes). (key, int (length indexes))) (filter (\<lambda>(key, indexes). map_of masters key \<noteq> None) groups))"

section \<open>The generator\<close>

text \<open>
  The parse that is yielded is the cached master itself, a new record, or nothing. A new record is
  reachable only from the consumer; the cached one is changed in place.
\<close>

record 'f IterState =
  it_cache :: "(shared_key \<times> 'f ParsedFormula) list"
  it_remaining :: "(shared_key \<times> int) list"

datatype 'f parsed_ref = NoParsed | Cached shared_key | Fresh "'f ParsedFormula"

datatype 'f release = ReleaseNothing | ReleaseParsed "'f parsed_ref" "shared_key option" bool

definition deref :: "'f IterState \<Rightarrow> 'f parsed_ref \<Rightarrow> 'f ParsedFormula option" where
  "deref st ref = (case ref of NoParsed \<Rightarrow> None | Cached key \<Rightarrow> map_of (it_cache st) key | Fresh parsed \<Rightarrow> Some parsed)"

definition parse_row :: "'f float_ops \<Rightarrow> FormulaEngine \<Rightarrow> RawRow \<Rightarrow> 'f ParsedFormula" where
  "parse_row fo engine row = engine_parse fo engine (the (rr_formula row)) (rr_sheet row) (rr_addr row)"

definition master_of :: "'f float_ops \<Rightarrow> FormulaEngine \<Rightarrow> RawRow \<Rightarrow> shared_key \<Rightarrow> 'f IterState \<Rightarrow> 'f ParsedFormula \<times> 'f IterState" where
  "master_of fo engine master key st =
     (case map_of (it_cache st) key of
        Some cached \<Rightarrow> (cached, st)
      | None \<Rightarrow> let parsed = parse_row fo engine master in (parsed, st\<lparr>it_cache := it_cache st @ [(key, parsed)]\<rparr>))"

definition shift_row :: "'f float_ops \<Rightarrow> FormulaEngine \<Rightarrow> 'f ParsedFormula \<Rightarrow> RawRow \<Rightarrow> RawRow \<Rightarrow> 'f ParsedFormula" where
  "shift_row fo engine master_parsed master_row row =
     shift_parsed fo master_parsed (rr_sheet row) (rr_col master_row) (rr_row master_row) (rr_col row) (rr_row row)
       (en_sep engine) (en_decimal engine)"

definition next_parsed ::
  "'f float_ops \<Rightarrow> FormulaEngine \<Rightarrow> RawRow list \<Rightarrow> (shared_key \<times> nat) list \<Rightarrow> nat \<Rightarrow> RawRow \<Rightarrow> 'f IterState
     \<Rightarrow> 'f parsed_ref \<times> 'f release \<times> 'f IterState" where
  "next_parsed fo engine raw_rows masters index row st =
     (case (case shared_key row of None \<Rightarrow> None | Some key \<Rightarrow> map_option (Product_Type.Pair key) (map_of masters key)) of
        Some (key, at) \<Rightarrow>
          let master_row = raw_rows ! at;
              (master_parsed, st) = master_of fo engine master_row key st;
              parsed = (if index = at then Cached key else Fresh (shift_row fo engine master_parsed master_row row));
              left = dict_get (it_remaining st) key 0 - 1
          in (parsed, ReleaseParsed parsed (Some key) (left = 0), st\<lparr>it_remaining := AList.update key left (it_remaining st)\<rparr>)
      | None \<Rightarrow>
          if \<not> truthy (rr_formula row) then (NoParsed, ReleaseNothing, st)
          else let parsed = Fresh (parse_row fo engine row) in (parsed, ReleaseParsed parsed None True, st))"

text \<open>
  \<open>release()\<close>: the parse loses its edges, and its tree unless others of the group still use it; the
  last member drops the master from the cache. Only the changes of the cached master can be seen by
  a later row. After \<open>cache.pop\<close> nothing refers to it any more.
\<close>

definition release_parsed :: "'f release \<Rightarrow> 'f IterState \<Rightarrow> 'f IterState" where
  "release_parsed rel st =
     (case rel of
        ReleaseNothing \<Rightarrow> st
      | ReleaseParsed parsed key final \<Rightarrow>
          let cache = (case parsed of
                Cached own \<Rightarrow>
                  AList.map_entry own (\<lambda>p. p\<lparr>pf_edges := [], pf_ast := (if final then None else pf_ast p)\<rparr>) (it_cache st)
              | _ \<Rightarrow> it_cache st)
          in st\<lparr>it_cache := (if final then case key of None \<Rightarrow> cache | Some key \<Rightarrow> AList.delete key cache else cache)\<rparr>)"

section \<open>The string pool\<close>

type_synonym string_pool = "(string \<times> string) list"

definition pool_text :: "string \<Rightarrow> string_pool \<Rightarrow> string \<times> string_pool" where
  "pool_text s pool = (case map_of pool s of Some v \<Rightarrow> (v, pool) | None \<Rightarrow> (s, pool @ [(s, s)]))"

definition pool_edge :: "Edge \<Rightarrow> string_pool \<Rightarrow> Edge \<times> string_pool" where
  "pool_edge edge pool =
     (let (source, pool) = pool_text (e_source edge) pool in
      if truthy (e_target edge) then
        (let (target, pool) = pool_text (the (e_target edge)) pool
         in (edge\<lparr>e_source := source, e_target := Some target\<rparr>, pool))
      else (edge\<lparr>e_source := source\<rparr>, pool))"

fun pool_edges :: "Edge list \<Rightarrow> string_pool \<Rightarrow> Edge list \<times> string_pool" where
  "pool_edges [] pool = ([], pool)"
| "pool_edges (edge # edges) pool =
     (let (edge, pool) = pool_edge edge pool; (edges, pool) = pool_edges edges pool in (edge # edges, pool))"

section \<open>Taking a cell\<close>

record CompileSettings =
  cs_parse_streaming :: bool
  cs_graph_stream :: bool
  cs_string_pool :: bool
  cs_ast_zlib :: bool
  cs_row_group_rows :: int

record CompileState =
  ct_edges :: "Edge list"
  ct_known :: KnownNodes
  ct_formulas :: nat
  ct_pool :: "string_pool option"

definition ir_cell :: "RawRow \<Rightarrow> string option \<Rightarrow> bool \<Rightarrow> ast_text option \<Rightarrow> IrCell" where
  "ir_cell row template unparsed ast =
     \<lparr>ir_sheet = rr_sheet row, ir_row = rr_row row, ir_col = rr_col row, ir_addr = rr_addr row,
      ir_formula = rr_formula row, ir_template = template, ir_unparsed = unparsed, ir_cached = rr_cached row,
      ir_hidden = rr_hidden row, ir_number_format = rr_number_format row, ir_comment = rr_comment row, ir_ast = ast\<rparr>"

definition pack_ast :: "'f float_ops \<Rightarrow> zlib_ops \<Rightarrow> CompileSettings \<Rightarrow> 'f ast option \<Rightarrow> ast_text option" where
  "pack_ast fo z chosen ast =
     (case ast of
        None \<Rightarrow> None
      | Some ast \<Rightarrow>
          let json = json_dumps (ast_json fo ast) in
          Some (if cs_ast_zlib chosen \<and> \<not> cs_parse_streaming chosen then Zipped (z_compress z json) else Plain json))"

definition take_cell ::
  "'f float_ops \<Rightarrow> zlib_ops \<Rightarrow> CompileSettings \<Rightarrow> RawRow \<Rightarrow> 'f parsed_ref \<Rightarrow> 'f release \<Rightarrow> 'f IterState \<Rightarrow> CompileState
     \<Rightarrow> IrCell \<times> 'f IterState \<times> CompileState" where
  "take_cell fo z chosen row ref release st ct =
     (let parsed = deref st ref;
          (edges, pool) =
            (case (ct_pool ct, parsed) of
               (Some pool, Some p) \<Rightarrow>
                 (case pool_edges (pf_edges p) (snd (pool_text (canonical_node_id (rr_sheet row) (rr_addr row)) pool)) of
                    (edges, pool) \<Rightarrow> (edges, Some pool))
             | (pool, None) \<Rightarrow> ([], pool)
             | (None, Some p) \<Rightarrow> (pf_edges p, None));
          known = kn_add (rr_sheet row) (rr_addr row) (ct_known ct);
          cell = (case parsed of
              None \<Rightarrow> ir_cell row None False None
            | Some p \<Rightarrow> ir_cell row (pf_template p) (pf_unparsed p) (pack_ast fo z chosen (pf_ast p)))
      in (cell, release_parsed release st,
          \<lparr>ct_edges = ct_edges ct @ edges, ct_known = known,
           ct_formulas = ct_formulas ct + (if truthy (rr_formula row) then 1 else 0), ct_pool = pool\<rparr>))"

fun take_raw_rows ::
  "'f float_ops \<Rightarrow> zlib_ops \<Rightarrow> CompileSettings \<Rightarrow> FormulaEngine \<Rightarrow> RawRow list \<Rightarrow> (shared_key \<times> nat) list \<Rightarrow> nat
     \<Rightarrow> RawRow list \<Rightarrow> 'f IterState \<Rightarrow> CompileState \<Rightarrow> IrCell list \<times> CompileState" where
  "take_raw_rows fo z chosen engine raw_rows masters index [] st ct = ([], ct)"
| "take_raw_rows fo z chosen engine raw_rows masters index (row # rows) st ct =
     (let (parsed, release, st) = next_parsed fo engine raw_rows masters index row st;
          (cell, st, ct) = take_cell fo z chosen row parsed release st ct;
          (cells, ct) = take_raw_rows fo z chosen engine raw_rows masters (Suc index) rows st ct
      in (cell # cells, ct))"

definition compile_rows ::
  "'f float_ops \<Rightarrow> zlib_ops \<Rightarrow> CompileSettings \<Rightarrow> FormulaEngine \<Rightarrow> RawRow list \<Rightarrow> CompileState \<Rightarrow> IrCell list \<times> CompileState" where
  "compile_rows fo z chosen engine raw_rows ct =
     (let index = shared_groups raw_rows in
      take_raw_rows fo z chosen engine raw_rows (snd index) 0 raw_rows \<lparr>it_cache = [], it_remaining = members_left index\<rparr> ct)"

section \<open>The specification\<close>

text \<open>What a row means without a cache: the master is parsed for every member anew.\<close>

definition row_parse :: "'f float_ops \<Rightarrow> FormulaEngine \<Rightarrow> RawRow list \<Rightarrow> (shared_key \<times> nat) list \<Rightarrow> nat \<Rightarrow> RawRow \<Rightarrow> 'f ParsedFormula option" where
  "row_parse fo engine raw_rows masters index row =
     (case (case shared_key row of None \<Rightarrow> None | Some key \<Rightarrow> map_of masters key) of
        Some at \<Rightarrow>
          let master = parse_row fo engine (raw_rows ! at) in
          Some (if index = at then master else shift_row fo engine master (raw_rows ! at) row)
      | None \<Rightarrow> if \<not> truthy (rr_formula row) then None else Some (parse_row fo engine row))"

definition spec_cell :: "'f float_ops \<Rightarrow> zlib_ops \<Rightarrow> CompileSettings \<Rightarrow> RawRow \<Rightarrow> 'f ParsedFormula option \<Rightarrow> IrCell" where
  "spec_cell fo z chosen row parsed =
     (case parsed of
        None \<Rightarrow> ir_cell row None False None
      | Some p \<Rightarrow> ir_cell row (pf_template p) (pf_unparsed p) (pack_ast fo z chosen (pf_ast p)))"

definition spec_edges :: "'f ParsedFormula option \<Rightarrow> Edge list" where
  "spec_edges parsed = (case parsed of None \<Rightarrow> [] | Some p \<Rightarrow> pf_edges p)"

section \<open>The pool changes nothing\<close>

definition pool_ok :: "string_pool \<Rightarrow> bool" where
  "pool_ok pool \<longleftrightarrow> (\<forall>(k, v) \<in> set pool. k = v)"

lemma pool_text_ok: "pool_ok pool \<Longrightarrow> fst (pool_text s pool) = s \<and> pool_ok (snd (pool_text s pool))"
  by (auto simp: pool_text_def pool_ok_def split: option.splits dest!: map_of_SomeD)

lemma pool_edge_ok: "pool_ok pool \<Longrightarrow> fst (pool_edge edge pool) = edge \<and> pool_ok (snd (pool_edge edge pool))"
proof -
  assume ok: "pool_ok pool"
  obtain s p1 where s: "pool_text (e_source edge) pool = (s, p1)" by fastforce
  with pool_text_ok [OF ok, of "e_source edge"] have e1: "s = e_source edge" "pool_ok p1" by auto
  obtain t p2 where t: "pool_text (the (e_target edge)) p1 = (t, p2)" by fastforce
  with pool_text_ok [OF e1(2), of "the (e_target edge)"] have e2: "t = the (e_target edge)" "pool_ok p2" by auto
  show ?thesis using s t e1 e2 by (auto simp: pool_edge_def truthy_def split: option.splits)
qed

lemma pool_edges_ok: "pool_ok pool \<Longrightarrow> fst (pool_edges edges pool) = edges \<and> pool_ok (snd (pool_edges edges pool))"
proof (induction edges arbitrary: pool)
  case (Cons edge edges)
  with pool_edge_ok [OF Cons.prems, of edge] show ?case by (auto simp: case_prod_beta Let_def)
qed (simp add: pool_ok_def)

section \<open>The index of shared groups\<close>

definition members_in :: "shared_key \<Rightarrow> RawRow list \<Rightarrow> int" where
  "members_in key rows = int (length (filter (\<lambda>r. shared_key r = Some key) rows))"

definition masters_ok :: "RawRow list \<Rightarrow> (shared_key \<times> nat) list \<Rightarrow> bool" where
  "masters_ok rows masters \<longleftrightarrow> (\<forall>key at. map_of masters key = Some at \<longrightarrow>
     at < length rows \<and> shared_key (rows ! at) = Some key \<and> rr_shared_master (rows ! at) = Some True)"

lemma shared_groups_snoc:
  "shared_groups (rows @ [row]) = group_row (shared_groups rows) (length rows, row)"
  by (simp add: shared_groups_def enumerate_append_eq)

lemma shared_groups_facts:
  "case shared_groups rows of (groups, masters) \<Rightarrow>
     masters_ok rows masters \<and> distinct (map fst groups)
     \<and> (\<forall>key. int (length (dict_get groups key [])) = members_in key rows)
     \<and> (\<forall>key. map_of masters key \<noteq> None \<longrightarrow> map_of groups key \<noteq> None)"
proof (induction rows rule: rev_induct)
  case Nil
  then show ?case by (simp add: shared_groups_def masters_ok_def members_in_def dict_get_def)
next
  case (snoc row rows)
  obtain groups masters where g: "shared_groups rows = (groups, masters)" by fastforce
  from snoc g have IH: "masters_ok rows masters" "distinct (map fst groups)"
    "\<And>key. int (length (dict_get groups key [])) = members_in key rows"
    "\<And>key. map_of masters key \<noteq> None \<Longrightarrow> map_of groups key \<noteq> None" by auto
  have m: "masters_ok (rows @ [row]) masters"
    using IH(1) by (fastforce simp: masters_ok_def nth_append)
  show ?case
  proof (cases "shared_key row")
    case None
    then show ?thesis using m IH by (simp add: shared_groups_snoc g group_row_def members_in_def)
  next
    case (Some key)
    have new: "masters_ok (rows @ [row]) (masters @ [(key, length rows)])" if master: "rr_shared_master row = Some True"
      unfolding masters_ok_def
    proof (intro allI impI)
      fix x at assume "map_of (masters @ [(key, length rows)]) x = Some at"
      then consider "map_of masters x = Some at" | "x = key" "at = length rows"
        by (auto simp: map_add_def split: option.splits if_splits)
      then show "at < length (rows @ [row]) \<and> shared_key ((rows @ [row]) ! at) = Some x
          \<and> rr_shared_master ((rows @ [row]) ! at) = Some True"
      proof cases
        case 1
        with m show ?thesis unfolding masters_ok_def by blast
      next
        case 2
        with master Some show ?thesis by simp
      qed
    qed
    show ?thesis
      using m new IH(2-4) Some
      by (auto simp: shared_groups_snoc g group_row_def members_in_def distinct_dict_alter dict_get_alter
          map_add_def split: option.splits)
  qed
qed

lemma members_left_get:
  assumes "shared_groups rows = (groups, masters)" and "map_of masters key \<noteq> None"
  shows "dict_get (members_left (groups, masters)) key 0 = members_in key rows"
proof -
  from shared_groups_facts [of rows, unfolded assms(1) prod.case] assms(2)
  have F: "distinct (map fst groups)" "int (length (dict_get groups key [])) = members_in key rows" "map_of groups key \<noteq> None"
    by blast+
  then obtain l where l: "map_of groups key = Some l" by auto
  let ?kept = "filter (\<lambda>(key, indexes). map_of masters key \<noteq> None) groups"
  have "map_of ?kept key = Some l"
    using F(1) l assms(2) by (auto simp: distinct_map_filter intro!: map_of_is_SomeI dest: map_of_SomeD)
  then have "map_of (members_left (groups, masters)) key = Some (int (length l))"
    by (simp add: members_left_def map_of_map)
  with F(2) l show ?thesis by (simp add: dict_get_def)
qed

section \<open>Nothing is released too early\<close>

definition it_ok :: "'f float_ops \<Rightarrow> FormulaEngine \<Rightarrow> RawRow list \<Rightarrow> (shared_key \<times> nat) list \<Rightarrow> nat \<Rightarrow> RawRow list \<Rightarrow> 'f IterState \<Rightarrow> bool" where
  "it_ok fo engine raw_rows masters index rest st \<longleftrightarrow>
     (\<forall>key p. map_of (it_cache st) key = Some p \<longrightarrow> (\<exists>at. map_of masters key = Some at
        \<and> pf_ast p = pf_ast (parse_row fo engine (raw_rows ! at))
        \<and> pf_unparsed p = pf_unparsed (parse_row fo engine (raw_rows ! at))
        \<and> (index \<le> at \<longrightarrow> p = parse_row fo engine (raw_rows ! at))))
     \<and> (\<forall>key. map_of masters key \<noteq> None \<longrightarrow> dict_get (it_remaining st) key 0 = members_in key rest)"

lemma it_okD:
  assumes "it_ok fo engine raw_rows masters index rest st" "map_of (it_cache st) key = Some p" "map_of masters key = Some at"
  shows "pf_ast p = pf_ast (parse_row fo engine (raw_rows ! at))"
    and "pf_unparsed p = pf_unparsed (parse_row fo engine (raw_rows ! at))"
    and "index \<le> at \<Longrightarrow> p = parse_row fo engine (raw_rows ! at)"
  using assms unfolding it_ok_def by fastforce+

lemma it_ok_left:
  "it_ok fo engine raw_rows masters index rest st \<Longrightarrow> map_of masters key \<noteq> None \<Longrightarrow>
     dict_get (it_remaining st) key 0 = members_in key rest"
  unfolding it_ok_def by blast

lemma shift_row_master:
  assumes "pf_ast p = pf_ast q" "pf_unparsed p = pf_unparsed q"
  shows "shift_row fo engine p master row = shift_row fo engine q master row"
  unfolding shift_row_def shift_parsed_def assms ..

lemma map_of_map_entry: "map_of (AList.map_entry k f al) x = (if x = k then map_option f (map_of al k) else map_of al x)"
  by (induction al) (auto simp: fun_upd_def)

lemma map_of_delete: "map_of (AList.delete k al) x = (if x = k then None else map_of al x)"
  by (simp add: delete_conv')

lemma dict_get_update: "dict_get (AList.update k v al) x d = (if x = k then v else dict_get al x d)"
  by (simp add: dict_get_def update_conv')

lemma members_in_Cons: "members_in key (row # rest) = members_in key rest + (if shared_key row = Some key then 1 else 0)"
  by (simp add: members_in_def)

lemma it_ok_skip:
  assumes "it_ok fo engine raw_rows masters index (row # rest) st"
    and "case shared_key row of None \<Rightarrow> True | Some key \<Rightarrow> map_of masters key = None"
  shows "it_ok fo engine raw_rows masters (Suc index) rest st"
  using assms by (fastforce simp: it_ok_def members_in_Cons split: option.splits)

lemma next_parsed_spec:
  assumes ok: "it_ok fo engine raw_rows masters index (row # rest) st"
    and nx: "next_parsed fo engine raw_rows masters index row st = (ref, release, st1)"
  shows "deref st1 ref = row_parse fo engine raw_rows masters index row"
    and "it_ok fo engine raw_rows masters (Suc index) rest (release_parsed release st1)"
proof -
  have "deref st1 ref = row_parse fo engine raw_rows masters index row
    \<and> it_ok fo engine raw_rows masters (Suc index) rest (release_parsed release st1)"
  proof (cases "case shared_key row of None \<Rightarrow> True | Some key \<Rightarrow> map_of masters key = None")
    case True
    then have none: "(case shared_key row of None \<Rightarrow> None | Some key \<Rightarrow> map_option (Product_Type.Pair key) (map_of masters key)) = None"
      and none': "(case shared_key row of None \<Rightarrow> None | Some key \<Rightarrow> map_of masters key) = None"
      by (auto split: option.splits)
    have "st1 = st \<and> deref st1 ref = row_parse fo engine raw_rows masters index row \<and> release_parsed release st1 = st1"
      using nx unfolding next_parsed_def row_parse_def none none'
      by (auto simp: deref_def release_parsed_def Let_def split: if_splits)
    with it_ok_skip [OF ok True] show ?thesis by metis
  next
    case False
    then obtain key at where k: "shared_key row = Some key" "map_of masters key = Some at" by (auto split: option.splits)
    let ?m = "parse_row fo engine (raw_rows ! at)"
    obtain mp st2 where mp: "master_of fo engine (raw_rows ! at) key st = (mp, st2)" by fastforce
    have c: "pf_ast mp = pf_ast ?m" "pf_unparsed mp = pf_unparsed ?m" "index \<le> at \<Longrightarrow> mp = ?m"
    proof -
      have "mp = ?m \<or> map_of (it_cache st) key = Some mp"
        using mp by (auto simp: master_of_def Let_def split: option.splits)
      then show "pf_ast mp = pf_ast ?m" "pf_unparsed mp = pf_unparsed ?m" "index \<le> at \<Longrightarrow> mp = ?m"
        using it_okD [OF ok _ k(2), of mp] by blast+
    qed
    have cache: "map_of (it_cache st2) x = (if x = key then Some mp else map_of (it_cache st) x)" for x
      using mp by (auto simp: master_of_def Let_def map_add_def split: option.splits)
    have rem: "it_remaining st2 = it_remaining st" using mp by (auto simp: master_of_def Let_def split: option.splits)
    define left where "left = dict_get (it_remaining st) key 0 - 1"
    have left: "left = members_in key rest"
      using it_ok_left [OF ok, of key] k by (simp add: left_def members_in_Cons)
    define r where "r = (if index = at then Cached key else Fresh (shift_row fo engine mp (raw_rows ! at) row))"
    have out: "ref = r" "release = ReleaseParsed r (Some key) (left = 0)"
        "st1 = st2\<lparr>it_remaining := AList.update key left (it_remaining st)\<rparr>"
      using nx by (auto simp: next_parsed_def k mp rem Let_def left_def r_def)
    have "deref st1 ref = row_parse fo engine raw_rows masters index row"
      using c shift_row_master [OF c(1,2)] by (simp add: out r_def deref_def row_parse_def k cache Let_def)
    moreover have "it_ok fo engine raw_rows masters (Suc index) rest (release_parsed release st1)"
      unfolding it_ok_def
    proof (intro conjI allI impI)
      fix x p assume p: "map_of (it_cache (release_parsed release st1)) x = Some p"
      show "\<exists>at. map_of masters x = Some at \<and> pf_ast p = pf_ast (parse_row fo engine (raw_rows ! at))
          \<and> pf_unparsed p = pf_unparsed (parse_row fo engine (raw_rows ! at))
          \<and> (Suc index \<le> at \<longrightarrow> p = parse_row fo engine (raw_rows ! at))"
      proof (cases "x = key")
        case True
        with p c k(2) show ?thesis
          by (auto simp: out r_def release_parsed_def cache map_of_map_entry map_of_delete Let_def split: if_splits)
      next
        case False
        with p have "map_of (it_cache st) x = Some p"
          by (auto simp: out r_def release_parsed_def cache map_of_map_entry map_of_delete Let_def split: if_splits)
        with ok show ?thesis unfolding it_ok_def by (meson Suc_leD)
      qed
    next
      fix x assume x: "map_of masters x \<noteq> None"
      have "it_remaining (release_parsed release st1) = AList.update key left (it_remaining st)"
        by (simp add: out release_parsed_def Let_def)
      with it_ok_left [OF ok x] k left show "dict_get (it_remaining (release_parsed release st1)) x 0 = members_in x rest"
        by (simp add: dict_get_update members_in_Cons)
    qed
    ultimately show ?thesis by blast
  qed
  then show "deref st1 ref = row_parse fo engine raw_rows masters index row"
    and "it_ok fo engine raw_rows masters (Suc index) rest (release_parsed release st1)" by auto
qed

definition ct_ok :: "CompileState \<Rightarrow> bool" where
  "ct_ok ct \<longleftrightarrow> (case ct_pool ct of None \<Rightarrow> True | Some pool \<Rightarrow> pool_ok pool)"

lemma take_cell_spec:
  assumes "ct_ok ct" and t: "take_cell fo z chosen row ref release st ct = (cell, st1, ct1)"
  shows "cell = spec_cell fo z chosen row (deref st ref) \<and> st1 = release_parsed release st
    \<and> ct_edges ct1 = ct_edges ct @ spec_edges (deref st ref) \<and> ct_known ct1 = kn_add (rr_sheet row) (rr_addr row) (ct_known ct)
    \<and> ct_formulas ct1 = ct_formulas ct + (if truthy (rr_formula row) then 1 else 0) \<and> ct_ok ct1
    \<and> (ct_pool ct1 = None \<longleftrightarrow> ct_pool ct = None)"
proof (cases "ct_pool ct")
  case None
  then show ?thesis
    using t by (cases "deref st ref") (auto simp: take_cell_def spec_cell_def spec_edges_def ct_ok_def Let_def)
next
  case (Some pool)
  show ?thesis
  proof (cases "deref st ref")
    case None
    with Some t assms(1) show ?thesis by (auto simp: take_cell_def spec_cell_def spec_edges_def ct_ok_def Let_def)
  next
    case d: (Some p)
    let ?pool = "snd (pool_text (canonical_node_id (rr_sheet row) (rr_addr row)) pool)"
    have "pool_ok ?pool" using assms(1) Some pool_text_ok by (simp add: ct_ok_def)
    moreover obtain edges pool' where e: "pool_edges (pf_edges p) ?pool = (edges, pool')" by fastforce
    ultimately have "edges = pf_edges p" "pool_ok pool'" using pool_edges_ok [of ?pool "pf_edges p"] by auto
    with Some d t e show ?thesis by (auto simp: take_cell_def spec_cell_def spec_edges_def ct_ok_def Let_def)
  qed
qed

text \<open>The parses of the rows from \<open>index\<close> on.\<close>

definition row_parses ::
  "'f float_ops \<Rightarrow> FormulaEngine \<Rightarrow> RawRow list \<Rightarrow> (shared_key \<times> nat) list \<Rightarrow> nat \<Rightarrow> RawRow list \<Rightarrow> (RawRow \<times> 'f ParsedFormula option) list" where
  "row_parses fo engine raw_rows masters index rows =
     map (\<lambda>(i, row). (row, row_parse fo engine raw_rows masters i row)) (enumerate index rows)"

definition grown :: "(RawRow \<times> 'f ParsedFormula option) list \<Rightarrow> CompileState \<Rightarrow> CompileState \<Rightarrow> bool" where
  "grown ps ct ct1 \<longleftrightarrow> ct_edges ct1 = ct_edges ct @ concat (map (\<lambda>(row, p). spec_edges p) ps)
     \<and> ct_known ct1 = fold (\<lambda>(row, p). kn_add (rr_sheet row) (rr_addr row)) ps (ct_known ct)
     \<and> ct_formulas ct1 = ct_formulas ct + length (filter (\<lambda>(row, p). truthy (rr_formula row)) ps) \<and> ct_ok ct1
     \<and> (ct_pool ct1 = None \<longleftrightarrow> ct_pool ct = None)"

lemma take_raw_rows_spec:
  assumes "ct_ok ct" "it_ok fo engine raw_rows masters index rows st"
    and "take_raw_rows fo z chosen engine raw_rows masters index rows st ct = (cells, ct1)"
  shows "cells = map (\<lambda>(row, p). spec_cell fo z chosen row p) (row_parses fo engine raw_rows masters index rows)
    \<and> grown (row_parses fo engine raw_rows masters index rows) ct ct1"
  using assms
proof (induction rows arbitrary: index st ct cells)
  case Nil
  then show ?case by (simp add: row_parses_def grown_def)
next
  case (Cons row rows)
  obtain ref release st1 where n: "next_parsed fo engine raw_rows masters index row st = (ref, release, st1)"
    by (rule prod_cases3)
  obtain cell st2 ct2 where t: "take_cell fo z chosen row ref release st1 ct = (cell, st2, ct2)" by (rule prod_cases3)
  obtain cells' where r: "take_raw_rows fo z chosen engine raw_rows masters (Suc index) rows st2 ct2 = (cells', ct1)" "cells = cell # cells'"
    using Cons.prems(3) n t by (auto simp: Let_def split: prod.splits)
  note N = next_parsed_spec [OF Cons.prems(2) n] and T = take_cell_spec [OF Cons.prems(1) t]
  from T N(2) have "it_ok fo engine raw_rows masters (Suc index) rows st2" by simp
  from Cons.IH [OF _ this r(1)] T N(1) show ?case
    by (simp add: r(2) row_parses_def grown_def)
qed

theorem compile_rows_spec:
  assumes "ct_ok ct" and "compile_rows fo z chosen engine raw_rows ct = (cells, ct1)"
  shows "cells = map (\<lambda>(row, p). spec_cell fo z chosen row p) (row_parses fo engine raw_rows (snd (shared_groups raw_rows)) 0 raw_rows)
    \<and> grown (row_parses fo engine raw_rows (snd (shared_groups raw_rows)) 0 raw_rows) ct ct1"
proof -
  obtain groups masters where g: "shared_groups raw_rows = (groups, masters)" by fastforce
  have "it_ok fo engine raw_rows masters 0 raw_rows \<lparr>it_cache = [], it_remaining = members_left (groups, masters)\<rparr>"
    unfolding it_ok_def using members_left_get [OF g] by simp
  from take_raw_rows_spec [OF assms(1) this] assms(2) show ?thesis
    by (simp add: compile_rows_def g)
qed

end
