(* ===== verification/Presence_Index.thy ===== *)
theory Presence_Index
  imports Known_Nodes Cell_Edges
begin

text \<open>
  The presence index of \<open>src/finance_context/memory.py\<close>: which cells of a book have a value and which
  are styled blanks, as runs per column. The loader reads the rows of \<open>raw/cell_presence.parquet\<close> one
  by one and keeps one open run per column; a lookup parses a formula target and searches the runs.
  The specification is the set of cells that the rows cover.
\<close>

section \<open>The file\<close>

text \<open>One row of the file. \<open>pr_end\<close> is the column \<open>row_end\<close>, which older files do not have.\<close>

record PresenceRow =
  pr_sheet :: pval
  pr_addr :: pval
  pr_kind :: pval
  pr_end :: "int option"

record PresenceFile =
  pf_has_end :: bool
  pf_rows :: "PresenceRow list"

section \<open>Operations\<close>

record PresenceIndex =
  pi_populated :: by_col
  pi_blanks :: by_col

definition no_presence :: PresenceIndex where
  "no_presence = \<lparr>pi_populated = [], pi_blanks = []\<rparr>"

definition presence_bool :: "PresenceIndex \<Rightarrow> bool" where
  "presence_bool idx \<longleftrightarrow> pi_populated idx \<noteq> [] \<or> pi_blanks idx \<noteq> []"

definition target_cell :: "string \<Rightarrow> (string \<times> int \<times> int) result" where
  "target_cell target =
     bind_result
       (case split_sheet_ref target of
          Inl e \<Rightarrow> (case rsplit1 CHR ''!'' target of None \<Rightarrow> Inl e | Some p \<Rightarrow> Inr p)
        | Inr p \<Rightarrow> Inr p)
       (\<lambda>(sheet, body). bind_result (parse_addr body) (\<lambda>(col, row). Inr (sheet, col, row)))"

definition presence_get :: "PresenceIndex \<Rightarrow> string \<Rightarrow> string option" where
  "presence_get idx target =
     (case target_cell target of
        Inl _ \<Rightarrow> None
      | Inr (sheet, col, row) \<Rightarrow>
          if span_has (dict_get (dict_get (pi_populated idx) sheet []) col []) row then Some ''populated''
          else if span_has (dict_get (dict_get (pi_blanks idx) sheet []) col []) row then Some ''styled_blank''
          else None)"

definition presence_spans :: "PresenceIndex \<Rightarrow> (string \<times> int \<times> int \<times> int) list" where
  "presence_spans idx =
     concat (map (\<lambda>kind. concat (map (\<lambda>(sheet, columns). concat (map (\<lambda>(col, runs).
       map (\<lambda>(start, end). (sheet, col, start, end)) runs) columns)) kind))
     [pi_populated idx, pi_blanks idx])"

text \<open>The open run of each column, and the closed runs.\<close>

type_synonym touched = "((string \<times> int) \<times> span) list \<times> by_col"

definition touch_run :: "string \<Rightarrow> int \<Rightarrow> int \<Rightarrow> int \<Rightarrow> touched \<Rightarrow> touched" where
  "touch_run sheet col start end st =
     (case st of (open_runs, closed) \<Rightarrow>
      case (if start > end then (end, start) else (start, end)) of (start, end) \<Rightarrow>
        let key = (sheet, col) in
        case map_of open_runs key of
          Some (lo, hi) \<Rightarrow>
            if start \<le> hi + 1 \<and> end + 1 \<ge> lo then (AList.update key (min lo start, max hi end) open_runs, closed)
            else (AList.update key (start, end) open_runs, extend_runs sheet col [(lo, hi)] closed)
        | None \<Rightarrow> (AList.update key (start, end) open_runs, closed))"

definition close_runs :: "touched \<Rightarrow> by_col" where
  "close_runs st =
     (case st of (open_runs, closed) \<Rightarrow>
        merge_all (foldl (\<lambda>bc ((sheet, col), run). extend_runs sheet col [run] bc) closed open_runs))"

definition row_end :: "bool \<Rightarrow> int \<Rightarrow> PresenceRow \<Rightarrow> int" where
  "row_end has_end row item = (if has_end then case pr_end item of None \<Rightarrow> row | Some e \<Rightarrow> e else row)"

definition load_row :: "bool \<Rightarrow> PresenceRow \<Rightarrow> touched \<times> touched \<Rightarrow> touched \<times> touched" where
  "load_row has_end item st =
     (case parse_addr (py_str_of (pr_addr item)) of
        Inl _ \<Rightarrow> st
      | Inr (col, row) \<Rightarrow>
          let end = row_end has_end row item;
              sheet_name = (if pr_sheet item = PNone then [] else py_str_of (pr_sheet item))
          in case st of (populated, blanks) \<Rightarrow>
               if py_str_of (pr_kind item) = ''populated'' then (touch_run sheet_name col row end populated, blanks)
               else (populated, touch_run sheet_name col row end blanks))"

definition load_presence :: "PresenceFile option \<Rightarrow> PresenceIndex" where
  "load_presence path =
     (case path of
        None \<Rightarrow> no_presence
      | Some content \<Rightarrow>
          case fold (load_row (pf_has_end content)) (pf_rows content) (([], []), ([], [])) of
            (populated, blanks) \<Rightarrow> \<lparr>pi_populated = close_runs populated, pi_blanks = close_runs blanks\<rparr>)"

definition usage_from_presence :: "PresenceIndex \<Rightarrow> SheetUsage" where
  "usage_from_presence presence = sheet_usage_spans (presence_spans presence)"

definition usage_for_book :: "PresenceFile option \<Rightarrow> SheetUsage" where
  "usage_for_book path =
     (case path of None \<Rightarrow> usage_from_presence no_presence | Some _ \<Rightarrow> usage_from_presence (load_presence path))"

section \<open>What the runs stand for\<close>

definition touched_rows :: "touched \<Rightarrow> string \<Rightarrow> int \<Rightarrow> int set" where
  "touched_rows st sheet col = open_rows (fst st) sheet col \<union> rows_of (runs_at (snd st) sheet col)"

definition touched_ok :: "touched \<Rightarrow> bool" where
  "touched_ok st \<longleftrightarrow> distinct (map fst (fst st)) \<and> (\<forall>(key, run) \<in> set (fst st). fst run \<le> snd run)
     \<and> by_col_distinct (snd st) \<and> (\<forall>sheet col. ordered_runs (runs_at (snd st) sheet col))"

lemma touched_ok_Nil: "touched_ok ([], [])" and touched_rows_Nil: "touched_rows ([], []) sheet col = {}"
  by (simp_all add: touched_ok_def touched_rows_def)

lemma touched_ok_run: "touched_ok (op, cl) \<Longrightarrow> map_of op key = Some run \<Longrightarrow> fst run \<le> snd run"
  by (fastforce simp: touched_ok_def dest: map_of_SomeD)

lemma touched_ok_update:
  assumes "touched_ok (op, cl)" and "fst run \<le> snd run"
  shows "touched_ok (AList.update key run op, cl)"
  using assms set_alist_update [of key run op] by (auto simp: touched_ok_def distinct_update)

lemma touch_run_ok:
  assumes "touched_ok st"
  shows "touched_ok (touch_run sheet col a b st)"
proof -
  obtain op cl where st: "st = (op, cl)" by (cases st)
  have ord: "fst r \<le> snd r" if "(if a > b then (b, a) else (a, b)) = r" for r using that by auto
  show ?thesis
  proof (cases "map_of op (sheet, col)")
    case None
    then show ?thesis using assms unfolding st
      by (auto simp: touch_run_def Let_def intro!: touched_ok_update)
  next
    case (Some run)
    obtain lo hi where run: "run = (lo, hi)" by (cases run)
    have le: "lo \<le> hi" using touched_ok_run [OF assms [unfolded st] Some] run by simp
    have "touched_ok (op, extend_runs sheet col [(lo, hi)] cl)"
      using assms le unfolding st touched_ok_def
      by (auto simp: runs_at_extend by_col_distinct_extend)
    then show ?thesis using assms Some le unfolding st run
      by (auto simp: touch_run_def Let_def min_def max_def intro!: touched_ok_update)
  qed
qed

lemma interval_join: "lo \<le> hi \<Longrightarrow> a \<le> b \<Longrightarrow> a \<le> hi + 1 \<Longrightarrow> lo \<le> b + 1 \<Longrightarrow>
    {min lo a..max hi b} = {lo..hi} \<union> {a..b}" for lo hi a b :: int
  by (auto simp: min_def max_def)

lemma touch_run_rows:
  assumes "touched_ok st"
  shows "touched_rows (touch_run sheet col a b st) s c =
    (if s = sheet \<and> c = col then touched_rows st s c \<union> {min a b..max a b} else touched_rows st s c)"
proof -
  obtain op cl where st: "st = (op, cl)" by (cases st)
  obtain x y where xy: "(if a > b then (b, a) else (a, b)) = (x, y)" "x = min a b" "y = max a b" "x \<le> y"
    by (auto simp: min_def max_def)
  show ?thesis
  proof (cases "map_of op (sheet, col)")
    case None
    then have "open_rows op sheet col = {}" by (simp add: open_rows_def)
    with None show ?thesis
      unfolding st touch_run_def xy(1) by (auto simp: Let_def touched_rows_def open_rows_update xy)
  next
    case (Some run)
    obtain lo hi where run: "run = (lo, hi)" by (cases run)
    have le: "lo \<le> hi" using touched_ok_run [OF assms [unfolded st] Some] run by simp
    have opn: "open_rows op sheet col = {lo..hi}" using Some run by (simp add: open_rows_def)
    show ?thesis
    proof (cases "x \<le> hi + 1 \<and> lo \<le> y + 1")
      case True
      then show ?thesis using Some opn interval_join [OF le xy(4)]
        unfolding st touch_run_def xy(1) run
        by (auto simp: Let_def touched_rows_def open_rows_update xy(2,3)[symmetric])
    next
      case False
      then show ?thesis using Some opn unfolding st touch_run_def xy(1) run
        by (auto simp: Let_def touched_rows_def open_rows_update runs_at_extend xy(2,3)[symmetric])
    qed
  qed
qed

lemma close_runs_rows:
  assumes "touched_ok st"
  shows "spans_ok (runs_at (close_runs st) s c) \<and> rows_of (runs_at (close_runs st) s c) = touched_rows st s c
    \<and> by_col_distinct (close_runs st)"
proof -
  obtain op cl where st: "st = (op, cl)" by (cases st)
  have d: "distinct (map fst op)" using assms by (simp add: st touched_ok_def)
  note runs = foldl_close_open [OF d, of cl]
  let ?cl = "foldl (\<lambda>bc ((sheet, col), run). extend_runs sheet col [run] bc) cl op"
  have "ordered_runs (runs_at ?cl s c)"
    using assms runs [of s c] touched_ok_run [OF assms [unfolded st]]
    by (auto simp: st touched_ok_def split: option.splits)
  then have "spans_ok (merge_spans (runs_at ?cl s c)) \<and> rows_of (merge_spans (runs_at ?cl s c)) = rows_of (runs_at ?cl s c)"
    by (intro merge_spans_ok) (simp add: ordered_runs_def)
  moreover have "rows_of (runs_at ?cl s c) = touched_rows st s c"
    using conjunct1 [OF runs [of s c]] by (auto simp: st touched_rows_def open_rows_def split: option.splits)
  moreover have "by_col_distinct ?cl" using runs assms by (simp add: st touched_ok_def)
  ultimately show ?thesis
    by (simp add: st close_runs_def runs_at_merge_all by_col_distinct_merge_all)
qed

section \<open>The specification: cells that rows cover\<close>

definition row_sheet :: "PresenceRow \<Rightarrow> string" where
  "row_sheet item = (if pr_sheet item = PNone then [] else py_str_of (pr_sheet item))"

text \<open>The rows of a file of one kind that cover a cell.\<close>

definition covers :: "bool \<Rightarrow> string \<Rightarrow> int \<Rightarrow> int \<Rightarrow> PresenceRow \<Rightarrow> bool" where
  "covers has_end sheet col row item =
     (case parse_addr (py_str_of (pr_addr item)) of
        Inl _ \<Rightarrow> False
      | Inr (c, r) \<Rightarrow> row_sheet item = sheet \<and> c = col
          \<and> min r (row_end has_end r item) \<le> row \<and> row \<le> max r (row_end has_end r item))"

definition is_value_row :: "PresenceRow \<Rightarrow> bool" where
  "is_value_row item = (py_str_of (pr_kind item) = ''populated'')"

definition present_in :: "PresenceFile option \<Rightarrow> (PresenceRow \<Rightarrow> bool) \<Rightarrow> string \<Rightarrow> int \<Rightarrow> int \<Rightarrow> bool" where
  "present_in path kind sheet col row =
     (case path of
        None \<Rightarrow> False
      | Some content \<Rightarrow> list_ex (\<lambda>item. kind item \<and> covers (pf_has_end content) sheet col row item) (pf_rows content))"

lemma load_row_spec:
  assumes "touched_ok p" "touched_ok b" and "load_row has_end item (p, b) = (p', b')"
  shows "touched_ok p'" "touched_ok b'"
    and "row \<in> touched_rows p' s c \<longleftrightarrow> row \<in> touched_rows p s c \<or> (is_value_row item \<and> covers has_end s c row item)"
    and "row \<in> touched_rows b' s c \<longleftrightarrow> row \<in> touched_rows b s c \<or> (\<not> is_value_row item \<and> covers has_end s c row item)"
  using assms
  by (auto simp: load_row_def is_value_row_def covers_def row_sheet_def Let_def touch_run_ok touch_run_rows
      split: sum.splits if_splits)

lemma fold_load_rows:
  assumes "touched_ok p" "touched_ok b" and "fold (load_row has_end) items (p, b) = (p', b')"
  shows "touched_ok p' \<and> touched_ok b'
    \<and> (row \<in> touched_rows p' s c \<longleftrightarrow> row \<in> touched_rows p s c \<or> list_ex (\<lambda>i. is_value_row i \<and> covers has_end s c row i) items)
    \<and> (row \<in> touched_rows b' s c \<longleftrightarrow> row \<in> touched_rows b s c \<or> list_ex (\<lambda>i. \<not> is_value_row i \<and> covers has_end s c row i) items)"
  using assms
proof (induction items arbitrary: p b)
  case (Cons item items)
  obtain p1 b1 where one: "load_row has_end item (p, b) = (p1, b1)" by (rule prod.exhaust)
  note step = load_row_spec [OF Cons.prems(1,2) one]
  from Cons.prems(3) one have rest: "fold (load_row has_end) items (p1, b1) = (p', b')" by simp
  show ?case using Cons.IH [OF step(1,2) rest] by (auto simp: step(3,4))
qed simp

lemma load_presence_runs:
  "spans_ok (runs_at (pi_populated (load_presence path)) s c) \<and> spans_ok (runs_at (pi_blanks (load_presence path)) s c)
   \<and> by_col_distinct (pi_populated (load_presence path)) \<and> by_col_distinct (pi_blanks (load_presence path))
   \<and> (row \<in> rows_of (runs_at (pi_populated (load_presence path)) s c) \<longleftrightarrow> present_in path is_value_row s c row)
   \<and> (row \<in> rows_of (runs_at (pi_blanks (load_presence path)) s c) \<longleftrightarrow> present_in path (\<lambda>i. \<not> is_value_row i) s c row)"
proof (cases path)
  case None
  then show ?thesis by (simp add: load_presence_def no_presence_def present_in_def spans_ok_def)
next
  case (Some content)
  obtain p b where f: "fold (load_row (pf_has_end content)) (pf_rows content) (([], []), ([], [])) = (p, b)" by (rule prod.exhaust)
  note F = fold_load_rows [OF touched_ok_Nil touched_ok_Nil f, of row s c]
  then show ?thesis
    using close_runs_rows [of p s c] close_runs_rows [of b s c]
    by (simp add: load_presence_def Some f present_in_def touched_rows_Nil)
qed

lemma presence_spans_set:
  assumes "by_col_distinct (pi_populated idx)" "by_col_distinct (pi_blanks idx)"
  shows "(s, c, a, b) \<in> set (presence_spans idx) \<longleftrightarrow>
    (a, b) \<in> set (runs_at (pi_populated idx) s c) \<union> set (runs_at (pi_blanks idx) s c)"
proof -
  have runs: "(\<exists>columns runs. (s, columns) \<in> set bc \<and> (c, runs) \<in> set columns \<and> (a, b) \<in> set runs)
      \<longleftrightarrow> (a, b) \<in> set (runs_at bc s c)" if "by_col_distinct bc" for bc
    using that by_col_distinct_inner [OF that]
    by (fastforce simp: runs_at_def dict_get_def by_col_distinct_def split: option.splits
        dest: map_of_SomeD)
  show ?thesis
    unfolding presence_spans_def using runs [OF assms(1)] runs [OF assms(2)] by auto blast+
qed

lemma usage_for_book_load: "usage_for_book path = usage_from_presence (load_presence path)"
  by (simp add: usage_for_book_def load_presence_def split: option.splits)

lemma present_in_any:
  "present_in path (\<lambda>_. True) s c row \<longleftrightarrow> present_in path is_value_row s c row \<or> present_in path (\<lambda>i. \<not> is_value_row i) s c row"
  by (auto simp: present_in_def list_ex_iff split: option.splits)

lemma rows_of_spans: "spans_ok runs \<Longrightarrow> row \<in> rows_of runs \<longleftrightarrow> (\<exists>a b. (a, b) \<in> set runs \<and> min a b \<le> row \<and> row \<le> max a b)"
proof -
  assume ok: "spans_ok runs"
  have "fst x \<le> row \<and> row \<le> snd x \<longleftrightarrow> min (fst x) (snd x) \<le> row \<and> row \<le> max (fst x) (snd x)" if "x \<in> set runs" for x
    using ok that by (simp add: spans_ok_def list_all_iff)
  then show ?thesis unfolding rows_of_def by force
qed

lemma usage_cells:
  "(row, col) \<in> cells_of (usage_for_book path) sheet \<longleftrightarrow> present_in path (\<lambda>_. True) sheet col row"
proof -
  let ?P = "runs_at (pi_populated (load_presence path)) sheet col"
    and ?B = "runs_at (pi_blanks (load_presence path)) sheet col"
  note L = load_presence_runs [of path sheet col row]
  have "(row, col) \<in> cells_of (usage_for_book path) sheet \<longleftrightarrow>
      (\<exists>a b. (a, b) \<in> set ?P \<union> set ?B \<and> min a b \<le> row \<and> row \<le> max a b)"
    unfolding usage_for_book_load usage_from_presence_def cells_of_sheet_usage_spans
    using L by (simp add: presence_spans_set)
  also have "\<dots> \<longleftrightarrow> row \<in> rows_of ?P \<or> row \<in> rows_of ?B"
    using rows_of_spans [of ?P row] rows_of_spans [of ?B row] L by (simp add: ex_disj_distrib conj_disj_distribR)
  finally show ?thesis using L by (simp add: present_in_any)
qed

lemma presence_get_cell:
  assumes "target_cell target = Inr (sheet, col, row)"
  shows "presence_get (load_presence path) target =
    (if present_in path is_value_row sheet col row then Some ''populated''
     else if present_in path (\<lambda>item. \<not> is_value_row item) sheet col row then Some ''styled_blank'' else None)"
  using load_presence_runs [of path sheet col row]
  by (simp add: presence_get_def assms runs_at_def [symmetric] span_has_iff)

section \<open>Properties\<close>

text \<open>
  C33. The presence index is the set of cells the file covers. For every file, with or without the
  column \<open>row_end\<close>, rows in any order, overlapping, reversed or with addresses that do not parse: a lookup
  says \<open>populated\<close> exactly for the cells some value row covers, \<open>styled_blank\<close> exactly for the
  others that some blank row covers, and nothing for every other text; the usage index built from it
  is well formed and holds exactly the covered cells of each sheet.
\<close>

theorem presence_index_exact:
  "(\<forall>target. presence_get (load_presence path) target =
     (case target_cell target of
        Inl _ \<Rightarrow> None
      | Inr (sheet, col, row) \<Rightarrow>
          if present_in path is_value_row sheet col row then Some ''populated''
          else if present_in path (\<lambda>item. \<not> is_value_row item) sheet col row then Some ''styled_blank'' else None))
   \<and> usage_ok (usage_for_book path)
   \<and> (\<forall>sheet. cells_of (usage_for_book path) sheet = {(row, col). present_in path (\<lambda>_. True) sheet col row})"
proof (intro conjI allI)
  show "usage_ok (usage_for_book path)"
    by (simp add: usage_for_book_load usage_from_presence_def usage_ok_sheet_usage_spans)
  show "cells_of (usage_for_book path) sheet = {(row, col). present_in path (\<lambda>_. True) sheet col row}" for sheet
    using usage_cells by auto
  show "presence_get (load_presence path) target =
     (case target_cell target of
        Inl _ \<Rightarrow> None
      | Inr (sheet, col, row) \<Rightarrow>
          if present_in path is_value_row sheet col row then Some ''populated''
          else if present_in path (\<lambda>item. \<not> is_value_row item) sheet col row then Some ''styled_blank'' else None)" for target
    by (cases "target_cell target") (auto simp: presence_get_cell, simp add: presence_get_def)
qed

end
