(* ===== verification/Compile_Stage.thy ===== *)
theory Compile_Stage
  imports Compile_Cells Presence_Index Kept_Edges
begin

text \<open>
  The compile stage as a whole, \<open>compile_workbook\<close> of \<open>src/finance_context/formulas/stage.py\<close>: the loaded
  and the streaming pass over the raw cells, the writers of the cell and edge files, the two writers
  of the cell edges, and the stamp \<open>compile.json\<close> with the test whether it is current. The
  theorem is that the settings, which trade memory for time, do not change what is published.
\<close>

section \<open>Rows of the files\<close>

definition IR_CELL_COLUMNS :: "(string \<times> string) list" where
  "IR_CELL_COLUMNS =
     [(''sheet'', ''VARCHAR''), (''row'', ''INTEGER''), (''col'', ''INTEGER''), (''addr'', ''VARCHAR''),
      (''formula_raw'', ''VARCHAR''), (''formula_template'', ''VARCHAR''), (''unparsed'', ''BOOLEAN''),
      (''cached_value'', ''VARCHAR''), (''hidden'', ''BOOLEAN''), (''number_format'', ''VARCHAR''),
      (''comment'', ''VARCHAR''), (''ast_json'', ''VARCHAR'')]"

definition IR_EDGE_COLUMNS :: "(string \<times> string) list" where
  "IR_EDGE_COLUMNS =
     [(''source'', ''VARCHAR''), (''kind'', ''VARCHAR''), (''target'', ''VARCHAR''), (''unresolved'', ''BOOLEAN''),
      (''truncated'', ''BOOLEAN''), (''named'', ''BOOLEAN'')]"

definition cell_parquet_row :: "zlib_ops \<Rightarrow> IrCell \<Rightarrow> pval list" where
  "cell_parquet_row z cell =
     [PText (ir_sheet cell), PInt (ir_row cell), PInt (ir_col cell), PText (ir_addr cell), text_val (ir_formula cell),
      text_val (ir_template cell), PBool (ir_unparsed cell), text_val (ir_cached cell), bool_val (ir_hidden cell),
      text_val (ir_number_format cell), text_val (ir_comment cell), text_val (ast_json_text z (ir_ast cell))]"

definition cell_getter :: "zlib_ops \<Rightarrow> string \<Rightarrow> IrCell \<Rightarrow> pval" where
  "cell_getter z name cell =
     (if name = ''ast_json'' then text_val (ast_json_text z (ir_ast cell))
      else if name = ''sheet'' then PText (ir_sheet cell)
      else if name = ''row'' then PInt (ir_row cell)
      else if name = ''col'' then PInt (ir_col cell)
      else if name = ''addr'' then PText (ir_addr cell)
      else if name = ''formula_raw'' then text_val (ir_formula cell)
      else if name = ''formula_template'' then text_val (ir_template cell)
      else if name = ''unparsed'' then PBool (ir_unparsed cell)
      else if name = ''cached_value'' then text_val (ir_cached cell)
      else if name = ''hidden'' then bool_val (ir_hidden cell)
      else if name = ''number_format'' then text_val (ir_number_format cell)
      else text_val (ir_comment cell))"

definition edge_row :: "Edge \<Rightarrow> pval list" where
  "edge_row edge =
     [PText (e_source edge), PText (e_kind edge), text_val (e_target edge), PBool (e_unresolved edge),
      PBool (e_truncated edge), PBool (e_named edge)]"

definition edge_getter :: "string \<Rightarrow> Edge \<Rightarrow> pval" where
  "edge_getter name edge =
     (if name = ''source'' then PText (e_source edge)
      else if name = ''kind'' then PText (e_kind edge)
      else if name = ''target'' then text_val (e_target edge)
      else if name = ''unresolved'' then PBool (e_unresolved edge)
      else if name = ''truncated'' then PBool (e_truncated edge)
      else PBool (e_named edge))"

definition write_object_batches :: "'o list \<Rightarrow> ('o \<Rightarrow> pval) list \<Rightarrow> int \<Rightarrow> pval group list result" where
  "write_object_batches objs getters row_group_rows =
     bind_result
       (rg_write_all (map (\<lambda>part. map (\<lambda>getter. map getter part) getters) (row_parts (nat row_group_rows) objs 0))
         (rg_open (length getters) row_group_rows))
       (\<lambda>w. case rg_close w of (Some published, _) \<Rightarrow> Inr published
             | (None, _) \<Rightarrow> Inl (RuntimeError ''parquet writer is closed''))"

definition write_edges :: "Edge list \<Rightarrow> CompileSettings \<Rightarrow> pval group list result" where
  "write_edges edges settings =
     (let row_group_rows = cs_row_group_rows settings in
      if row_group_rows > 0 \<and> int (length edges) > row_group_rows then
        write_object_batches edges (map (\<lambda>(name, dtype). edge_getter name) IR_EDGE_COLUMNS) row_group_rows
      else write_parquet (length IR_EDGE_COLUMNS) (map edge_row edges) 0)"

definition write_cells :: "zlib_ops \<Rightarrow> IrCell list \<Rightarrow> CompileSettings \<Rightarrow> pval group list result" where
  "write_cells z cells settings =
     (let row_group_rows = cs_row_group_rows settings in
      if row_group_rows > 0 \<and> int (length cells) > row_group_rows then
        write_object_batches cells (map (\<lambda>(name, dtype). cell_getter z name) IR_CELL_COLUMNS) row_group_rows
      else write_parquet (length IR_CELL_COLUMNS) (map (cell_parquet_row z) cells) 0)"

section \<open>The two passes over the cells\<close>

record RawBook =
  rb_cells :: "RawRow list"
  rb_locale_hint :: "string option"
  rb_defined_names :: "defined_name list"
  rb_sheets :: "string list"
  rb_presence :: "PresenceFile option"

definition ct_start :: "CompileSettings \<Rightarrow> CompileState" where
  "ct_start chosen =
     \<lparr>ct_edges = [], ct_known = kn_empty, ct_formulas = 0, ct_pool = (if cs_string_pool chosen then Some [] else None)\<rparr>"

text \<open>\<open>_intern_resolved_edges\<close> changes the edge records in place; here the part of the list is replaced.\<close>

definition intern_resolved_edges ::
  "'f float_ops \<Rightarrow> Edge list \<Rightarrow> defined_name list \<Rightarrow> string_pool option \<Rightarrow> Edge list \<times> string_pool option" where
  "intern_resolved_edges fo edges defined_names pool =
     (let edges = resolve_defined_name_edges fo edges defined_names in
      case pool of None \<Rightarrow> (edges, None) | Some pool \<Rightarrow> (case pool_edges edges pool of (edges, pool) \<Rightarrow> (edges, Some pool)))"

definition intern_from :: "'f float_ops \<Rightarrow> nat \<Rightarrow> defined_name list \<Rightarrow> CompileState \<Rightarrow> CompileState" where
  "intern_from fo edge_at defined_names ct =
     (case intern_resolved_edges fo (drop edge_at (ct_edges ct)) defined_names (ct_pool ct) of
        (edges, pool) \<Rightarrow> ct\<lparr>ct_edges := take edge_at (ct_edges ct) @ edges, ct_pool := pool\<rparr>)"

definition compile_cells_loaded ::
  "'f float_ops \<Rightarrow> zlib_ops \<Rightarrow> CompileSettings \<Rightarrow> FormulaEngine \<Rightarrow> RawBook \<Rightarrow> IrCell list \<times> CompileState" where
  "compile_cells_loaded fo z chosen engine book =
     (let (cells, ct) = compile_rows fo z chosen engine (rb_cells book) (ct_start chosen)
      in (cells, intern_from fo 0 (rb_defined_names book) ct))"

text \<open>
  The streaming pass fetches 2048 rows at a time. Groups are found inside one such part. The rows
  go to a DuckDB table, which one \<open>COPY\<close> turns into the file: \<open>copy_table\<close> is that statement, with the
  law that the file holds the rows of the table in order.
\<close>

definition FETCH_ROWS :: nat where
  "FETCH_ROWS = 2048"

definition compile_part ::
  "'f float_ops \<Rightarrow> zlib_ops \<Rightarrow> CompileSettings \<Rightarrow> FormulaEngine \<Rightarrow> defined_name list
     \<Rightarrow> RawRow list \<Rightarrow> pval list list \<times> nat \<times> CompileState \<Rightarrow> pval list list \<times> nat \<times> CompileState" where
  "compile_part fo z chosen engine defined_names raw_rows st =
     (case st of (table, cell_count, ct) \<Rightarrow>
        let edge_at = length (ct_edges ct);
            (cells, ct) = compile_rows fo z chosen engine raw_rows ct
        in (table @ map (cell_parquet_row z) cells, cell_count + length raw_rows, intern_from fo edge_at defined_names ct))"

definition batch_finish :: "(nat \<Rightarrow> pval list list \<Rightarrow> pval group list) \<Rightarrow> pval list list \<Rightarrow> int \<Rightarrow> pval group list" where
  "batch_finish copy_table table row_group_rows =
     (let count = length table;
          groups = (if row_group_rows \<le> 0 \<or> count = 0 then count else max (nat row_group_rows) FETCH_ROWS)
      in copy_table (if groups = 0 then FETCH_ROWS else groups) table)"

definition copy_ok :: "(nat \<Rightarrow> pval list list \<Rightarrow> pval group list) \<Rightarrow> bool" where
  "copy_ok copy_table \<longleftrightarrow> (\<forall>groups table.
     list_all (\<lambda>row. length row = length IR_CELL_COLUMNS) table \<longrightarrow> rows_of_file (copy_table groups table) = table)"

definition compile_cells_streaming ::
  "'f float_ops \<Rightarrow> zlib_ops \<Rightarrow> (nat \<Rightarrow> pval list list \<Rightarrow> pval group list) \<Rightarrow> CompileSettings \<Rightarrow> FormulaEngine \<Rightarrow> RawBook
     \<Rightarrow> pval group list \<times> nat \<times> CompileState" where
  "compile_cells_streaming fo z copy_table chosen engine book =
     (case fold (compile_part fo z chosen engine (rb_defined_names book)) (chunks FETCH_ROWS (rb_cells book))
             ([], 0, ct_start chosen) of
        (table, cell_count, ct) \<Rightarrow> (batch_finish copy_table table (cs_row_group_rows chosen), cell_count, ct))"

section \<open>The stamp\<close>

definition schema_payload :: "range_ctx \<Rightarrow> string list" where
  "schema_payload ctx =
     map fst (IR_CELL_COLUMNS @ IR_EDGE_COLUMNS @ IR_CELL_EDGE_COLUMNS)
     @ [''name-edges-1'', ''range-nodes-2'', ''range-node-min='' @ int_str (active_range_node_min_cells ctx)]"

definition compile_schema_id :: "(string \<Rightarrow> string) \<Rightarrow> range_ctx \<Rightarrow> string" where
  "compile_schema_id digest ctx = digest (join [CHR 0x0A] (schema_payload ctx))"

definition COMPILE_FILES :: "string list" where
  "COMPILE_FILES = [''cells.parquet'', ''edges.parquet'', ''cell_edges.parquet'']"

definition compile_stamp :: "(string \<Rightarrow> string) \<Rightarrow> range_ctx \<Rightarrow> json" where
  "compile_stamp digest ctx =
     JObject [(''schema_id'', JString (compile_schema_id digest ctx)), (''files'', JArray (map JString COMPILE_FILES))]"

text \<open>\<open>list(value or [])\<close> of a value that \<open>json.loads\<close> made; a number or \<open>True\<close> cannot be iterated.\<close>

definition json_zero :: "string \<Rightarrow> bool" where
  "json_zero s = list_all (\<lambda>c. c \<in> set ''-0.'') (takeWhile (\<lambda>c. c \<notin> set ''eE'') s)"

definition json_items :: "json option \<Rightarrow> json list result" where
  "json_items value =
     (case value of
        None \<Rightarrow> Inr []
      | Some JNull \<Rightarrow> Inr []
      | Some (JBool b) \<Rightarrow> if b then Inl (TypeError ''bool'') else Inr []
      | Some (JNumber s) \<Rightarrow> if json_zero s then Inr [] else Inl (TypeError ''number'')
      | Some (JString s) \<Rightarrow> Inr (map (\<lambda>c. JString [c]) s)
      | Some (JArray xs) \<Rightarrow> Inr xs
      | Some (JObject d) \<Rightarrow> Inr (map (\<lambda>(k, v). JString k) d))"

text \<open>\<open>is_file\<close> tells which of the three files exist, \<open>stamp\<close> is \<open>compile.json\<close> when it exists and is JSON.\<close>

definition ir_is_current :: "(string \<Rightarrow> string) \<Rightarrow> range_ctx \<Rightarrow> (string \<Rightarrow> bool) \<Rightarrow> json option \<Rightarrow> bool result" where
  "ir_is_current digest ctx is_file stamp =
     (if \<not> list_all is_file COMPILE_FILES then Inr False
      else
        case as_dict stamp of
          None \<Rightarrow> Inr False
        | Some payload \<Rightarrow>
            if map_of payload ''schema_id'' \<noteq> Some (JString (compile_schema_id digest ctx)) then Inr False
            else bind_result (json_items (map_of payload ''files'')) (\<lambda>files. Inr (files = map JString COMPILE_FILES)))"

section \<open>The stage\<close>

record CompileOutput =
  co_cells :: "pval group list"
  co_edges :: "pval group list"
  co_cell_edges :: "pval group list"
  co_stamp :: json
  co_result_edges :: "Edge list"
  co_cell_edge_count :: nat
  co_cell_count :: nat
  co_usage :: SheetUsage

definition compile_workbook ::
  "'f float_ops \<Rightarrow> zlib_ops \<Rightarrow> (nat \<Rightarrow> pval list list \<Rightarrow> pval group list) \<Rightarrow> (string \<Rightarrow> string) \<Rightarrow> range_ctx
     \<Rightarrow> CompileSettings \<Rightarrow> RawBook \<Rightarrow> SheetUsage option \<Rightarrow> CompileOutput result" where
  "compile_workbook fo z copy_table digest ctx chosen book usage =
     (let engine = make_engine (rb_locale_hint book);
          (cells_file, cell_count, ct) =
            (if cs_parse_streaming chosen then
               (case compile_cells_streaming fo z copy_table chosen engine book of (published, n, ct) \<Rightarrow> (Inr published, n, ct))
             else
               (case compile_cells_loaded fo z chosen engine book of
                  (cells, ct) \<Rightarrow> (write_cells z cells chosen, length cells, ct)));
          sheets = set (rb_sheets book);
          presence = load_presence (rb_presence book);
          usage = (case usage of None \<Rightarrow> usage_from_presence presence | Some usage \<Rightarrow> usage);
          known = (\<lambda>item. fst (kn_contains (ct_known ct) item));
          (cell_edges, edges) =
            (if cs_graph_stream chosen then
               write_cell_edge_batches ctx (ct_edges ct) known sheets (presence_get presence) (Some usage) (cs_row_group_rows chosen)
             else
               (case expand_cell_edges ctx (ct_edges ct) known sheets (presence_get presence) (Some usage) of
                  (cell_edges, edges) \<Rightarrow>
                    (bind_result (write_cell_edge_rows cell_edges (cs_row_group_rows chosen))
                       (\<lambda>published. Inr (length cell_edges, published)), edges)))
      in bind_result cells_file (\<lambda>cells_file.
         bind_result (write_edges edges chosen) (\<lambda>edges_file.
         bind_result cell_edges (\<lambda>(cell_edge_count, cell_edges_file).
           Inr \<lparr>co_cells = cells_file, co_edges = edges_file, co_cell_edges = cell_edges_file,
                co_stamp = compile_stamp digest ctx, co_result_edges = edges, co_cell_edge_count = cell_edge_count,
                co_cell_count = cell_count, co_usage = usage\<rparr>))))"

end
