(* ===== verification/Compile_Laws.thy ===== *)
theory Compile_Laws
  imports Compile_Stage
begin

text \<open>
  The compile stage computes a function of the book alone: its specification parses every formula on
  its own, keeps no cache and no pool, has one pass and one writer. The hypothesis on shared
  groups says that the texts the workbook reader wrote into the members are the shifted master;
  \<open>shared_texts_needed\<close> shows a group where they are not.
\<close>

section \<open>The specification\<close>

definition own_parse :: "'f float_ops \<Rightarrow> FormulaEngine \<Rightarrow> RawRow \<Rightarrow> 'f ParsedFormula option" where
  "own_parse fo engine row = (if truthy (rr_formula row) then Some (parse_row fo engine row) else None)"

definition own_cell :: "'f float_ops \<Rightarrow> FormulaEngine \<Rightarrow> RawRow \<Rightarrow> pval list" where
  "own_cell fo engine row =
     (let p = own_parse fo engine row in
      [PText (rr_sheet row), PInt (rr_row row), PInt (rr_col row), PText (rr_addr row), text_val (rr_formula row),
       text_val (Option.bind p pf_template), PBool (case p of None \<Rightarrow> False | Some p \<Rightarrow> pf_unparsed p),
       text_val (rr_cached row), bool_val (rr_hidden row), text_val (rr_number_format row), text_val (rr_comment row),
       text_val (map_option (\<lambda>a. json_dumps (ast_json fo a)) (Option.bind p pf_ast))])"

definition own_edges :: "'f float_ops \<Rightarrow> FormulaEngine \<Rightarrow> RawRow list \<Rightarrow> Edge list" where
  "own_edges fo engine rows = concat (map (\<lambda>row. spec_edges (own_parse fo engine row)) rows)"

definition known_cells :: "RawRow list \<Rightarrow> KnownNodes" where
  "known_cells rows = fold (\<lambda>row. kn_add (rr_sheet row) (rr_addr row)) rows kn_empty"

record IrContent =
  ic_cells :: "pval list list"
  ic_edges :: "pval list list"
  ic_cell_edges :: "pval list list"
  ic_stamp :: json
  ic_result_edges :: "Edge list"
  ic_cell_edge_count :: nat
  ic_cell_count :: nat
  ic_usage :: SheetUsage

definition ir_content :: "CompileOutput \<Rightarrow> IrContent" where
  "ir_content out =
     \<lparr>ic_cells = rows_of_file (co_cells out), ic_edges = rows_of_file (co_edges out),
      ic_cell_edges = rows_of_file (co_cell_edges out), ic_stamp = co_stamp out, ic_result_edges = co_result_edges out,
      ic_cell_edge_count = co_cell_edge_count out, ic_cell_count = co_cell_count out, ic_usage = co_usage out\<rparr>"

definition compile_spec ::
  "'f float_ops \<Rightarrow> (string \<Rightarrow> string) \<Rightarrow> range_ctx \<Rightarrow> RawBook \<Rightarrow> SheetUsage option \<Rightarrow> IrContent" where
  "compile_spec fo digest ctx book usage =
     (let engine = make_engine (rb_locale_hint book);
          rows = rb_cells book;
          presence = load_presence (rb_presence book);
          usage = (case usage of None \<Rightarrow> usage_from_presence presence | Some usage \<Rightarrow> usage);
          (cell_edges, edges) =
            expand_cell_edges ctx (resolve_defined_name_edges fo (own_edges fo engine rows) (rb_defined_names book))
              (\<lambda>item. fst (kn_contains (known_cells rows) item)) (set (rb_sheets book)) (presence_get presence) (Some usage)
      in \<lparr>ic_cells = map (own_cell fo engine) rows, ic_edges = map edge_row edges,
          ic_cell_edges = map cell_edge_values cell_edges, ic_stamp = compile_stamp digest ctx, ic_result_edges = edges,
          ic_cell_edge_count = length cell_edges, ic_cell_count = length rows, ic_usage = usage\<rparr>)"

text \<open>The text of a member parses to what shifting its master gives.\<close>

definition shared_texts :: "'f float_ops \<Rightarrow> FormulaEngine \<Rightarrow> RawRow list \<Rightarrow> bool" where
  "shared_texts fo engine rows \<longleftrightarrow>
     list_all (\<lambda>m. list_all (\<lambda>r. shared_key m \<noteq> None \<and> shared_key r = shared_key m \<and> rr_shared_master m = Some True \<longrightarrow>
       shift_row fo engine (parse_row fo engine m) m r = parse_row fo engine r) rows) rows"

definition cell_id :: "RawRow \<Rightarrow> string" where
  "cell_id row = rr_sheet row @ ''!'' @ rr_addr row"

section \<open>Every row is its own parse\<close>

lemma shared_key_truthy: "shared_key row = Some key \<Longrightarrow> truthy (rr_formula row)"
  by (auto simp: shared_key_def split: option.splits if_splits)

lemma row_parse_own:
  assumes texts: "shared_texts fo engine rows" and sub: "set part \<subseteq> set rows"
    and masters: "masters_ok part masters" and i: "i < length part"
  shows "row_parse fo engine part masters i (part ! i) = own_parse fo engine (part ! i)"
proof (cases "case shared_key (part ! i) of None \<Rightarrow> None | Some key \<Rightarrow> map_of masters key")
  case None
  then show ?thesis by (simp add: row_parse_def own_parse_def)
next
  case (Some at)
  then obtain key where k: "shared_key (part ! i) = Some key" "map_of masters key = Some at"
    by (auto split: option.splits)
  from masters k(2) have m: "at < length part" "shared_key (part ! at) = Some key" "rr_shared_master (part ! at) = Some True"
    unfolding masters_ok_def by blast+
  have "part ! i \<in> set rows" "part ! at \<in> set rows" using i m(1) sub nth_mem by blast+
  then have "shift_row fo engine (parse_row fo engine (part ! at)) (part ! at) (part ! i) = parse_row fo engine (part ! i)"
    using texts k m unfolding shared_texts_def list_all_iff by simp
  with Some k(1) show ?thesis by (simp add: row_parse_def own_parse_def Let_def shared_key_truthy)
qed

lemma row_parses_own:
  assumes "shared_texts fo engine rows" "set part \<subseteq> set rows"
  shows "row_parses fo engine part (snd (shared_groups part)) 0 part = map (\<lambda>row. (row, own_parse fo engine row)) part"
proof (rule nth_equalityI)
  obtain groups masters where g: "shared_groups part = (groups, masters)" by fastforce
  with shared_groups_facts [of part] have m: "masters_ok part masters" by simp
  show "length (row_parses fo engine part (snd (shared_groups part)) 0 part) = length (map (\<lambda>row. (row, own_parse fo engine row)) part)"
    by (simp add: row_parses_def)
  fix i assume "i < length (row_parses fo engine part (snd (shared_groups part)) 0 part)"
  then have i: "i < length part" by (simp add: row_parses_def)
  then show "row_parses fo engine part (snd (shared_groups part)) 0 part ! i = map (\<lambda>row. (row, own_parse fo engine row)) part ! i"
    using row_parse_own [OF assms m i] by (simp add: row_parses_def nth_enumerate_eq g)
qed

lemma cell_row_own:
  assumes "zlib_ok z"
  shows "cell_parquet_row z (spec_cell fo z chosen row (own_parse fo engine row)) = own_cell fo engine row"
proof -
  have "ast_json_text z (pack_ast fo z chosen a) = map_option (\<lambda>a. json_dumps (ast_json fo a)) a" for a
    using assms by (simp add: ast_json_text_def pack_ast_def zlib_ok_def Let_def split: option.splits)
  then show ?thesis
    by (cases "own_parse fo engine row")
      (simp_all add: cell_parquet_row_def spec_cell_def own_cell_def ir_cell_def ast_json_text_def)
qed

lemma length_own_cell: "length (own_cell fo engine row) = length IR_CELL_COLUMNS"
  by (simp add: own_cell_def IR_CELL_COLUMNS_def Let_def)

definition compiled :: "'f float_ops \<Rightarrow> FormulaEngine \<Rightarrow> RawRow list \<Rightarrow> CompileState \<Rightarrow> CompileState \<Rightarrow> bool" where
  "compiled fo engine rows ct ct1 \<longleftrightarrow> ct_ok ct1 \<and> ct_edges ct1 = ct_edges ct @ own_edges fo engine rows
     \<and> ct_known ct1 = fold (\<lambda>row. kn_add (rr_sheet row) (rr_addr row)) rows (ct_known ct)"

lemma compile_rows_own:
  assumes "shared_texts fo engine rows" "set part \<subseteq> set rows" "ct_ok ct" "zlib_ok z"
    and c: "compile_rows fo z chosen engine part ct = (cells, ct1)"
  shows "map (cell_parquet_row z) cells = map (own_cell fo engine) part \<and> length cells = length part \<and> compiled fo engine part ct ct1"
proof -
  have f: "fold (\<lambda>(row, p). kn_add (rr_sheet row) (rr_addr row)) (map (\<lambda>row. (row, own_parse fo engine row)) xs) k
      = fold (\<lambda>row. kn_add (rr_sheet row) (rr_addr row)) xs k" for xs k
    by (induction xs arbitrary: k) simp_all
  show ?thesis
    using compile_rows_spec [OF assms(3) c, unfolded row_parses_own [OF assms(1,2)]]
    by (auto simp: grown_def compiled_def own_edges_def f comp_def cell_row_own [OF assms(4)])
qed

section \<open>Resolving and pooling\<close>

lemma intern_from_spec:
  assumes "ct_ok ct" and "at \<le> length (ct_edges ct)"
  shows "ct_edges (intern_from fo at names ct) = take at (ct_edges ct) @ resolve_defined_name_edges fo (drop at (ct_edges ct)) names
    \<and> ct_known (intern_from fo at names ct) = ct_known ct \<and> ct_ok (intern_from fo at names ct)"
proof (cases "ct_pool ct")
  case None
  then show ?thesis by (simp add: intern_from_def intern_resolved_edges_def ct_ok_def)
next
  case (Some pool)
  then have "pool_ok pool" using assms(1) by (simp add: ct_ok_def)
  moreover obtain es p where e: "pool_edges (resolve_defined_name_edges fo (drop at (ct_edges ct)) names) pool = (es, p)" by fastforce
  ultimately have "es = resolve_defined_name_edges fo (drop at (ct_edges ct)) names" "pool_ok p"
    using pool_edges_ok [of pool "resolve_defined_name_edges fo (drop at (ct_edges ct)) names"] by auto
  with Some e show ?thesis by (simp add: intern_from_def intern_resolved_edges_def ct_ok_def)
qed

lemma resolve_append:
  "resolve_defined_name_edges fo (xs @ ys) names = resolve_defined_name_edges fo xs names @ resolve_defined_name_edges fo ys names"
  by (simp add: resolve_defined_name_edges_def)

lemma ct_start_facts: "ct_ok (ct_start chosen)" "ct_edges (ct_start chosen) = []" "ct_known (ct_start chosen) = kn_empty"
  by (simp_all add: ct_start_def ct_ok_def pool_ok_def)

lemma own_edges_append: "own_edges fo engine (xs @ ys) = own_edges fo engine xs @ own_edges fo engine ys"
  by (simp add: own_edges_def)

lemma compile_part_own:
  assumes "shared_texts fo engine rows" "set part \<subseteq> set rows" "ct_ok ct" "zlib_ok z"
    and "compile_part fo z chosen engine names part (table, n, ct) = (table1, n1, ct1)"
  shows "table1 = table @ map (own_cell fo engine) part \<and> n1 = n + length part \<and> ct_ok ct1
    \<and> ct_edges ct1 = ct_edges ct @ resolve_defined_name_edges fo (own_edges fo engine part) names
    \<and> ct_known ct1 = fold (\<lambda>row. kn_add (rr_sheet row) (rr_addr row)) part (ct_known ct)"
proof -
  obtain cells ct2 where c: "compile_rows fo z chosen engine part ct = (cells, ct2)" by fastforce
  note C = compile_rows_own [OF assms(1-4) c]
  then have "ct_ok ct2" "length (ct_edges ct) \<le> length (ct_edges ct2)" by (simp_all add: compiled_def)
  from intern_from_spec [OF this, of fo names] C assms(5) c show ?thesis
    by (auto simp: compile_part_def compiled_def)
qed

lemma fold_parts_own:
  assumes "shared_texts fo engine rows" "zlib_ok z" "ct_ok ct" "set (concat parts) \<subseteq> set rows"
    and "fold (compile_part fo z chosen engine names) parts (table, n, ct) = (table1, n1, ct1)"
  shows "table1 = table @ map (own_cell fo engine) (concat parts) \<and> n1 = n + length (concat parts) \<and> ct_ok ct1
    \<and> ct_edges ct1 = ct_edges ct @ resolve_defined_name_edges fo (own_edges fo engine (concat parts)) names
    \<and> ct_known ct1 = fold (\<lambda>row. kn_add (rr_sheet row) (rr_addr row)) (concat parts) (ct_known ct)"
  using assms(3-5)
proof (induction parts arbitrary: table n ct)
  case Nil
  then show ?case by (simp add: own_edges_def resolve_defined_name_edges_def)
next
  case (Cons part parts)
  obtain table2 n2 ct2 where s: "compile_part fo z chosen engine names part (table, n, ct) = (table2, n2, ct2)" by (rule prod_cases3)
  have sub: "set part \<subseteq> set rows" "set (concat parts) \<subseteq> set rows" using Cons.prems(2) by auto
  note S = compile_part_own [OF assms(1) sub(1) Cons.prems(1) assms(2) s]
  from Cons.prems(3) s have "fold (compile_part fo z chosen engine names) parts (table2, n2, ct2) = (table1, n1, ct1)" by simp
  from Cons.IH [OF _ sub(2) this] S show ?case by (simp add: own_edges_append resolve_append)
qed

text \<open>Both passes leave the same edges and the same index of known cells, and give the same rows.\<close>

definition pass_result :: "'f float_ops \<Rightarrow> FormulaEngine \<Rightarrow> RawBook \<Rightarrow> pval list list \<Rightarrow> nat \<Rightarrow> CompileState \<Rightarrow> bool" where
  "pass_result fo engine book cell_rows n ct \<longleftrightarrow>
     cell_rows = map (own_cell fo engine) (rb_cells book) \<and> n = length (rb_cells book)
     \<and> ct_edges ct = resolve_defined_name_edges fo (own_edges fo engine (rb_cells book)) (rb_defined_names book)
     \<and> ct_known ct = known_cells (rb_cells book)"

lemma loaded_result:
  assumes "shared_texts fo engine (rb_cells book)" "zlib_ok z"
    and "compile_cells_loaded fo z chosen engine book = (cells, ct)"
  shows "pass_result fo engine book (map (cell_parquet_row z) cells) (length cells) ct"
proof -
  obtain ct1 where c: "compile_rows fo z chosen engine (rb_cells book) (ct_start chosen) = (cells, ct1)"
    "ct = intern_from fo 0 (rb_defined_names book) ct1"
    using assms(3) by (auto simp: compile_cells_loaded_def split: prod.splits)
  note C = compile_rows_own [OF assms(1) subset_refl ct_start_facts(1) assms(2) c(1)]
  then have "ct_ok ct1" by (simp add: compiled_def)
  from intern_from_spec [OF this, of 0 fo "rb_defined_names book"] C show ?thesis
    by (simp add: pass_result_def c(2) compiled_def ct_start_facts known_cells_def)
qed

lemma streaming_result:
  assumes "shared_texts fo engine (rb_cells book)" "zlib_ok z" "copy_ok copy_table"
    and "compile_cells_streaming fo z copy_table chosen engine book = (published, n, ct)"
  shows "pass_result fo engine book (rows_of_file published) n ct"
proof -
  obtain table n1 ct1 where f: "fold (compile_part fo z chosen engine (rb_defined_names book))
      (chunks FETCH_ROWS (rb_cells book)) ([], 0, ct_start chosen) = (table, n1, ct1)" by (rule prod_cases3)
  have sub: "set (concat (chunks FETCH_ROWS (rb_cells book))) \<subseteq> set (rb_cells book)" by simp
  from fold_parts_own [OF assms(1,2) ct_start_facts(1) sub f] assms(3,4) f show ?thesis
    by (auto simp: pass_result_def compile_cells_streaming_def batch_finish_def copy_ok_def ct_start_facts
        known_cells_def Let_def list_all_iff length_own_cell)
qed

section \<open>The writers\<close>

lemma columns_of_getters:
  "columns_data (length getters) (map (\<lambda>obj. map (\<lambda>getter. getter obj) getters) part) = map (\<lambda>getter. map getter part) getters"
  by (rule nth_equalityI) (simp_all add: columns_data_def)

lemma chunks_map: "chunks n (map f xs) = map (map f) (chunks n xs)"
proof (induction n xs rule: chunks.induct)
  case (1 n xs)
  then show ?case
    by (subst (1 2) chunks.simps) (auto simp: drop_map take_map)
qed

lemma write_object_batches_parquet:
  assumes "0 < row_group_rows" "row_group_rows < int (length objs)"
  shows "write_object_batches objs getters row_group_rows =
    write_parquet (length getters) (map (\<lambda>obj. map (\<lambda>getter. getter obj) getters) objs) row_group_rows"
proof -
  let ?row = "\<lambda>obj. map (\<lambda>getter. getter obj) getters"
  have "map (columns_data (length getters)) (row_parts (nat row_group_rows) (map ?row objs) 0) =
      map (\<lambda>part. map (\<lambda>getter. map getter part) getters) (row_parts (nat row_group_rows) objs 0)"
    using assms(1) by (simp add: row_parts_chunks chunks_map comp_def columns_of_getters)
  with assms show ?thesis unfolding write_object_batches_def write_parquet_def by simp
qed

lemma written_rows:
  assumes "0 < width" "\<forall>row \<in> set rows. length row = width"
  shows "\<exists>published. write_parquet width rows n = Inr published \<and> rows_of_file published = rows"
  using write_parquet_groups [OF assms(1), of rows n] rows_of_file_groups [OF assms, of n]
  by (simp add: rows_of_file_def)

lemma write_edges_rows: "\<exists>published. write_edges edges chosen = Inr published \<and> rows_of_file published = map edge_row edges"
proof -
  have g: "map (\<lambda>getter. getter e) (map (\<lambda>(name, dtype). edge_getter name) IR_EDGE_COLUMNS) = edge_row e" for e
    by (simp add: IR_EDGE_COLUMNS_def edge_getter_def edge_row_def)
  have w: "\<exists>published. write_parquet 6 (map edge_row edges) n = Inr published \<and> rows_of_file published = map edge_row edges" for n
    by (rule written_rows) (auto simp: edge_row_def)
  have l: "length IR_EDGE_COLUMNS = 6" by (simp add: IR_EDGE_COLUMNS_def)
  show ?thesis
    using w write_object_batches_parquet [of "cs_row_group_rows chosen" edges "map (\<lambda>(name, dtype). edge_getter name) IR_EDGE_COLUMNS"]
    by (simp add: write_edges_def l g [unfolded list.map_comp comp_def] Let_def comp_def)
qed

lemma write_cells_rows:
  "\<exists>published. write_cells z cells chosen = Inr published \<and> rows_of_file published = map (cell_parquet_row z) cells"
proof -
  have g: "map (\<lambda>getter. getter c) (map (\<lambda>(name, dtype). cell_getter z name) IR_CELL_COLUMNS) = cell_parquet_row z c" for c
    by (simp add: IR_CELL_COLUMNS_def cell_getter_def cell_parquet_row_def)
  have w: "\<exists>published. write_parquet 12 (map (cell_parquet_row z) cells) n = Inr published
      \<and> rows_of_file published = map (cell_parquet_row z) cells" for n
    by (rule written_rows) (auto simp: cell_parquet_row_def)
  have l: "length IR_CELL_COLUMNS = 12" by (simp add: IR_CELL_COLUMNS_def)
  show ?thesis
    using w write_object_batches_parquet [of "cs_row_group_rows chosen" cells "map (\<lambda>(name, dtype). cell_getter z name) IR_CELL_COLUMNS"]
    by (simp add: write_cells_def l g [unfolded list.map_comp comp_def] Let_def comp_def)
qed

lemma write_cell_edge_rows_rows:
  "\<exists>published. write_cell_edge_rows cell_edges n = Inr published \<and> rows_of_file published = map cell_edge_values cell_edges"
  unfolding write_cell_edge_rows_def
  by (rule written_rows) (auto simp: kw_width_def IR_CELL_EDGE_COLUMNS_def cell_edge_values_def)

section \<open>Each formula is one run of edges\<close>

lemma distinct_contiguous: "distinct xs \<Longrightarrow> contiguous xs"
  by (induction xs) (auto dest: set_dropWhileD)

lemma own_edge_sources:
  "map e_source (spec_edges (own_parse fo engine row)) = replicate (length (spec_edges (own_parse fo engine row))) (cell_id row)"
proof -
  have "\<forall>e \<in> set (spec_edges (own_parse fo engine row)). e_source e = cell_id row"
    using engine_parse_ok [of "rr_sheet row" "rr_addr row" fo engine "the (rr_formula row)"]
    by (auto simp: spec_edges_def own_parse_def parse_row_def formula_ok_def cell_id_def edge_ok_def list_all_iff split: option.splits)
  then show ?thesis by (induction "spec_edges (own_parse fo engine row)") (auto intro!: replicate_eqI)
qed

lemma own_edges_contiguous:
  assumes "distinct (map cell_id rows)"
  shows "contiguous (map e_source (resolve_defined_name_edges fo (own_edges fo engine rows) names))"
proof -
  have "map e_source (own_edges fo engine rows) =
      concat (map (\<lambda>row. replicate (length (spec_edges (own_parse fo engine row))) (cell_id row)) rows)"
    by (simp add: own_edges_def map_concat comp_def own_edge_sources)
  with contiguous_concat_replicate [OF distinct_contiguous [OF assms]] show ?thesis
    by (simp add: resolve_defined_name_edges_def comp_def resolve_edge_frame)
qed

section \<open>Properties\<close>

text \<open>
  C3. For a book whose shared-formula members carry the text that their shifted master parses to (\<open>shared_texts\<close>), the settings of the
  compile stage make no difference to what it publishes. Whether the cells are read in one list or 2048 at a time, whether strings
  are pooled and trees compressed, whether cell edges are filtered while they are streamed or after, and whatever the row-group
  size: the stage succeeds and publishes exactly the cells, formula edges, cell edges, counts and stamp of the
  specification, which parses every formula on its own. The hypothesis on shared texts is needed: without it a streaming compile can
  publish another result (\<open>shared_texts_needed\<close>). Further, no cell is listed twice, and \<open>zlib\<close> and the ordered
  \<open>COPY\<close> keep their documented laws.
\<close>

theorem compile_settings_same_ir:
  assumes "shared_texts fo (make_engine (rb_locale_hint book)) (rb_cells book)" and "distinct (map cell_id (rb_cells book))"
    and "zlib_ok z" and "copy_ok copy_table"
  shows "map_sum id ir_content (compile_workbook fo z copy_table digest ctx chosen book usage) =
    Inr (compile_spec fo digest ctx book usage)"
proof -
  let ?engine = "make_engine (rb_locale_hint book)" and ?n = "cs_row_group_rows chosen"
  let ?es = "resolve_defined_name_edges fo (own_edges fo ?engine (rb_cells book)) (rb_defined_names book)"
  let ?known = "\<lambda>item. fst (kn_contains (known_cells (rb_cells book)) item)"
  let ?presence = "load_presence (rb_presence book)"
  define u where "u = (case usage of None \<Rightarrow> usage_from_presence ?presence | Some usage \<Rightarrow> usage)"
  obtain cells_file n ct where pass:
    "(if cs_parse_streaming chosen then
        (case compile_cells_streaming fo z copy_table chosen ?engine book of (published, n, ct) \<Rightarrow> (Inr published, n, ct))
      else (case compile_cells_loaded fo z chosen ?engine book of (cells, ct) \<Rightarrow> (write_cells z cells chosen, length cells, ct)))
      = (Inr cells_file, n, ct)" "pass_result fo ?engine book (rows_of_file cells_file) n ct"
  proof (cases "cs_parse_streaming chosen")
    case True
    obtain published m ct where s: "compile_cells_streaming fo z copy_table chosen ?engine book = (published, m, ct)" by (rule prod_cases3)
    from True s streaming_result [OF assms(1,3,4) s] show ?thesis by (intro that [of published m ct]) simp_all
  next
    case False
    obtain cells ct where s: "compile_cells_loaded fo z chosen ?engine book = (cells, ct)" by fastforce
    obtain published where w: "write_cells z cells chosen = Inr published" "rows_of_file published = map (cell_parquet_row z) cells"
      using write_cells_rows by blast
    from False s w loaded_result [OF assms(1,3) s] show ?thesis by (intro that [of published "length cells" ct]) simp_all
  qed
  have ct: "ct_edges ct = ?es" "ct_known ct = known_cells (rb_cells book)" "n = length (rb_cells book)"
    "rows_of_file cells_file = map (own_cell fo ?engine) (rb_cells book)"
    using pass(2) by (simp_all add: pass_result_def)
  obtain ces es where ex: "expand_cell_edges ctx ?es ?known (set (rb_sheets book)) (presence_get ?presence) (Some u) = (ces, es)" by fastforce
  obtain ce_file where ce: "write_cell_edge_rows ces ?n = Inr ce_file" "rows_of_file ce_file = map cell_edge_values ces"
    using write_cell_edge_rows_rows by blast
  have batches: "write_cell_edge_batches ctx ?es ?known (set (rb_sheets book)) (presence_get ?presence) (Some u) ?n =
      (Inr (length ces, ce_file), es)"
    using streamed_edges_file [OF own_edges_contiguous [OF assms(2)], of ctx fo ?engine "rb_defined_names book" ?known "set (rb_sheets book)" "presence_get ?presence" "Some u" ?n]
      ce(1) ex by auto
  have edges: "(if cs_graph_stream chosen then
        write_cell_edge_batches ctx ?es ?known (set (rb_sheets book)) (presence_get ?presence) (Some u) ?n
      else (case expand_cell_edges ctx ?es ?known (set (rb_sheets book)) (presence_get ?presence) (Some u) of
          (cell_edges, edges) \<Rightarrow> (bind_result (write_cell_edge_rows cell_edges ?n) (\<lambda>published. Inr (length cell_edges, published)), edges)))
      = (Inr (length ces, ce_file), es)"
    by (simp add: batches ex ce(1))
  obtain e_file where ef: "write_edges es chosen = Inr e_file" "rows_of_file e_file = map edge_row es"
    using write_edges_rows by blast
  have "compile_workbook fo z copy_table digest ctx chosen book usage =
      Inr \<lparr>co_cells = cells_file, co_edges = e_file, co_cell_edges = ce_file, co_stamp = compile_stamp digest ctx,
        co_result_edges = es, co_cell_edge_count = length ces, co_cell_count = n, co_usage = u\<rparr>"
    unfolding compile_workbook_def Let_def pass(1) prod.case ct(1,2) u_def [symmetric] edges by (simp add: ef(1))
  moreover have "compile_spec fo digest ctx book usage =
      \<lparr>ic_cells = map (own_cell fo ?engine) (rb_cells book), ic_edges = map edge_row es, ic_cell_edges = map cell_edge_values ces,
       ic_stamp = compile_stamp digest ctx, ic_result_edges = es, ic_cell_edge_count = length ces,
       ic_cell_count = length (rb_cells book), ic_usage = u\<rparr>"
    unfolding compile_spec_def Let_def u_def [symmetric] ex prod.case ..
  ultimately show ?thesis by (simp add: ir_content_def ct ef ce)
qed

text \<open>A small book: a value, the master of a shared group and one member.\<close>

definition raw_row :: "string \<Rightarrow> int \<Rightarrow> int \<Rightarrow> string option \<Rightarrow> string option \<Rightarrow> int option \<Rightarrow> bool \<Rightarrow> RawRow" where
  "raw_row sheet col row formula cached si master =
     \<lparr>rr_sheet = sheet, rr_addr = format_addr col row, rr_row = row, rr_col = col, rr_formula = formula, rr_cached = cached,
      rr_hidden = Some False, rr_number_format = None, rr_comment = None, rr_shared_si = si, rr_shared_master = Some master\<rparr>"

definition small_rows :: "RawRow list" where
  "small_rows =
     [raw_row ''S'' 1 1 None (Some ''3'') None False,
      raw_row ''S'' 2 1 (Some ''=A1+1'') None (Some 0) True,
      raw_row ''S'' 2 2 (Some ''=A2+1'') None (Some 0) False]"

definition small_book :: RawBook where
  "small_book = \<lparr>rb_cells = small_rows, rb_locale_hint = None, rb_defined_names = [], rb_sheets = [''S''], rb_presence = None\<rparr>"

definition all_settings :: "bool \<Rightarrow> int \<Rightarrow> CompileSettings" where
  "all_settings b n = \<lparr>cs_parse_streaming = b, cs_graph_stream = b, cs_string_pool = b, cs_ast_zlib = \<not> b, cs_row_group_rows = n\<rparr>"

lemma small_texts: "shared_texts whole_floats (make_engine None) small_rows"
  by code_simp

text \<open>One group per table, as a \<open>COPY\<close> with a large row group writes it, and a codec that reverses the text.\<close>

definition one_group :: "nat \<Rightarrow> pval list list \<Rightarrow> pval group list" where
  "one_group groups table = [columns_data 12 table]"

definition reversed :: zlib_ops where
  "reversed = \<lparr>z_compress = rev, z_decompress = rev\<rparr>"

lemma one_group_ok: "copy_ok one_group"
  unfolding copy_ok_def one_group_def rows_of_file_def list_all_iff
  by (auto simp: IR_CELL_COLUMNS_def intro!: rows_from_columns_data)

theorem compile_settings_same_ir_witness:
  "map_sum id ir_content (compile_workbook whole_floats reversed one_group rev ctx_example (all_settings True 2) small_book None) =
   map_sum id ir_content (compile_workbook whole_floats reversed one_group rev ctx_example (all_settings False 0) small_book None)"
proof -
  have t: "shared_texts whole_floats (make_engine (rb_locale_hint small_book)) (rb_cells small_book)"
    using small_texts by (simp add: small_book_def)
  have d: "distinct (map cell_id (rb_cells small_book))" by code_simp
  have z: "zlib_ok reversed" by (simp add: zlib_ok_def reversed_def)
  show ?thesis unfolding compile_settings_same_ir [OF t d z one_group_ok] ..
qed

lemma shared_texts_needed:
  "let m = raw_row ''S'' 2 1 (Some ''=SUM(A:A)'') None (Some 0) True;
       r = raw_row ''S'' 3 1 (Some (shift_formula ''=SUM(A:A)'' 2 1 3 1)) None (Some 0) False;
       engine = make_engine None in
   rr_formula r = Some ''=SUM(A:A)''
   \<and> map e_target (spec_edges (row_parse whole_floats engine [m, r] (snd (shared_groups [m, r])) 1 r)) = [Some ''S!B:B'']
   \<and> map e_target (spec_edges (row_parse whole_floats engine [r] (snd (shared_groups [r])) 0 r)) = [Some ''S!A:A'']"
  by code_simp

section \<open>When the stamp is current\<close>

lemma join_snoc: "xs \<noteq> [] \<Longrightarrow> join sep (xs @ [y]) = join sep xs @ sep @ y"
  by (induction sep xs rule: join.induct) simp_all

text \<open>
  A compiled book is current exactly for the range threshold it was compiled under. The test accepts the
  stamp that the stage wrote when all three files are there and the digests agree, and the
  digested texts agree only when the threshold is the same; without a file, or with a stamp that
  is no dict, it is not current.
\<close>

theorem compile_stamp_current:
  "ir_is_current digest now (\<lambda>_. True) (Some (compile_stamp digest ctx)) =
     Inr (digest (join [CHR 0x0A] (schema_payload ctx)) = digest (join [CHR 0x0A] (schema_payload now)))
   \<and> (join [CHR 0x0A] (schema_payload ctx) = join [CHR 0x0A] (schema_payload now) \<longleftrightarrow>
        active_range_node_min_cells ctx = active_range_node_min_cells now)
   \<and> ir_is_current digest now is_file None = Inr False
   \<and> ir_is_current digest now (\<lambda>path. is_file path \<and> path \<noteq> ''edges.parquet'') stamp = Inr False"
proof -
  have "ir_is_current digest now (\<lambda>_. True) (Some (compile_stamp digest ctx)) =
     Inr (digest (join [CHR 0x0A] (schema_payload ctx)) = digest (join [CHR 0x0A] (schema_payload now)))"
    by (simp add: ir_is_current_def compile_stamp_def compile_schema_id_def COMPILE_FILES_def as_dict_def json_items_def)
  moreover have "join [CHR 0x0A] (schema_payload ctx) = join [CHR 0x0A] (schema_payload now) \<longleftrightarrow>
        active_range_node_min_cells ctx = active_range_node_min_cells now"
  proof -
    define common where "common = map fst (IR_CELL_COLUMNS @ IR_EDGE_COLUMNS @ IR_CELL_EDGE_COLUMNS) @ [''name-edges-1'', ''range-nodes-2'']"
    have "schema_payload c = common @ [''range-node-min='' @ int_str (active_range_node_min_cells c)]" for c
      by (simp add: schema_payload_def common_def)
    moreover have "common \<noteq> []" by (simp add: common_def)
    ultimately show ?thesis by (simp add: join_snoc int_str_inject)
  qed
  ultimately show ?thesis by (simp add: ir_is_current_def as_dict_def COMPILE_FILES_def)
qed

section \<open>What a pass hands on\<close>

text \<open>
  C32. Sharing one parsed master among the members of a group, and dropping trees and edges as soon as
  they are copied, loses nothing: for every list of rows, with masters before or after their
  members, several masters of one group, or masters without members, each cell gets template,
  tree and edges of the master shifted to it (or of its own text outside a group), edges come in
  row order, and every cell is indexed.
\<close>

theorem shared_parses_kept:
  "let ps = row_parses fo engine rows (snd (shared_groups rows)) 0 rows;
       (cells, ct) = compile_rows fo z chosen engine rows (ct_start chosen) in
   cells = map (\<lambda>(row, p). spec_cell fo z chosen row p) ps
   \<and> ct_edges ct = concat (map (\<lambda>(row, p). spec_edges p) ps)
   \<and> ct_known ct = known_cells rows
   \<and> ct_formulas ct = length (filter (\<lambda>row. truthy (rr_formula row)) rows)"
proof -
  obtain cells ct where c: "compile_rows fo z chosen engine rows (ct_start chosen) = (cells, ct)" by fastforce
  have f: "fold (\<lambda>(row, p). kn_add (rr_sheet row) (rr_addr row)) ps k = fold (\<lambda>row. kn_add (rr_sheet row) (rr_addr row)) (map fst ps) k"
    for ps :: "(RawRow \<times> 'a ParsedFormula option) list" and k
    by (induction ps arbitrary: k) auto
  have l: "length (filter (\<lambda>(row, p). truthy (rr_formula row)) ps) = length (filter (\<lambda>row. truthy (rr_formula row)) (map fst ps))"
    for ps :: "(RawRow \<times> 'a ParsedFormula option) list"
    by (induction ps) auto
  have rows: "map fst (row_parses fo engine rows (snd (shared_groups rows)) 0 rows) = rows"
    by (simp add: row_parses_def comp_def case_prod_beta)
  show ?thesis
    using compile_rows_spec [OF ct_start_facts(1) c]
    by (simp add: c grown_def ct_start_facts known_cells_def f l rows) (simp add: ct_start_def)
qed

end
