(* ===== verification/Row_Relations.thy ===== *)
theory Row_Relations
  imports Graph_Index Template_Laws
begin

text \<open>
  Relations between the rows of a table: \<open>src/finance_context/layout/formulas_shape.py\<close> reduces the formulas of
  a row to a pattern (alias, aggregate, difference, roll-forward, ratio), \<open>layout/relations.py\<close> turns
  patterns into relations while the cells go by row after row, and \<open>layout/stage.py\<close> selects the
  cells that can matter. The main theorem: the relations of the selected cells, computed row
  by row, are those of the whole file.
\<close>

section \<open>The shape of a formula\<close>

datatype shape =
    Roll string int
  | Alias string int
  | Aggregate "int \<times> int"
  | Diff int int
  | Prorate
  | Ratio

fun shape_type :: "shape \<Rightarrow> string" where
  "shape_type (Roll sheet row) = ''roll''"
| "shape_type (Alias sheet row) = ''alias''"
| "shape_type (Aggregate span) = ''aggregate''"
| "shape_type (Diff a b) = ''diff''"
| "shape_type Prorate = ''prorate''"
| "shape_type Ratio = ''ratio''"

definition own_sheet :: "ref_node \<Rightarrow> string \<Rightarrow> string" where
  "own_sheet n sheet = (if truthy (rf_sheet n) then the (rf_sheet n) else sheet)"

definition ref_row :: "'f ast \<Rightarrow> string \<Rightarrow> int \<Rightarrow> (string \<times> int) option" where
  "ref_row node sheet col =
     (case node of
        RefAst n \<Rightarrow>
          (case rf_body n of
             BCell c \<Rightarrow> if c_col c \<noteq> col then None else Some (own_sheet n sheet, c_row c)
           | _ \<Rightarrow> None)
      | _ \<Rightarrow> None)"

definition EXCEL_MAX_ROW :: int where
  "EXCEL_MAX_ROW = 1048576"

text \<open>A whole column or row, or a range of names, has no pair of row numbers.\<close>

definition range_rows :: "'f ast \<Rightarrow> int \<Rightarrow> (int \<times> int) option" where
  "range_rows node col =
     (case node of
        RefAst n \<Rightarrow>
          (case rf_body n of
             BRange a b \<Rightarrow>
               if c_col a \<noteq> col \<or> c_col b \<noteq> col then None
               else
                 (case (if c_row b < c_row a then (c_row b, c_row a) else (c_row a, c_row b)) of
                    (lo, hi) \<Rightarrow> if hi - lo + 1 \<ge> EXCEL_MAX_ROW then None else Some (lo, hi))
           | _ \<Rightarrow> None)
      | _ \<Rightarrow> None)"

text \<open>\<open>_is_proration\<close> looks at the right operand, and at the rightmost operand below it.\<close>

fun is_proration :: "'f ast \<Rightarrow> bool" where
  "is_proration (Name s) = True"
| "is_proration (Num x) = True"
| "is_proration (Bin kind l r) = is_proration r"
| "is_proration node = False"

definition SUM_NAMES :: "string set" where
  "SUM_NAMES = {''SUM''}"

fun formula_shape :: "'f ast \<Rightarrow> string \<Rightarrow> int \<Rightarrow> int \<Rightarrow> shape option" where
  "formula_shape (RefAst n) sheet col row =
     (case rf_body n of
        BCell c \<Rightarrow>
          let target_sheet = own_sheet n sheet;
              same_sheet = (casefold target_sheet = casefold sheet) in
          if same_sheet \<and> c_col c = col - 1 \<and> c_row c \<noteq> row then Some (Roll target_sheet (c_row c))
          else if c_row c \<noteq> row then Some (Alias target_sheet (c_row c))
          else None
      | _ \<Rightarrow> None)"
| "formula_shape (Func name args) sheet col row =
     (if py_upper name \<in> SUM_NAMES then
        (case args of [arg] \<Rightarrow> map_option Aggregate (range_rows arg col) | _ \<Rightarrow> None)
      else None)"
| "formula_shape (Bin kind l r) sheet col row =
     (if kind = ''-'' then
        (case (ref_row l sheet col, ref_row r sheet col) of
           (Some (_, a), Some (_, b)) \<Rightarrow> Some (Diff a b)
         | _ \<Rightarrow> None)
      else if kind = ''/'' then Some (if is_proration r then Prorate else Ratio)
      else None)"
| "formula_shape node sheet col row = None"

section \<open>The pattern of a row\<close>

text \<open>A cell as \<open>ir/cells.parquet\<close> holds it; \<open>lc_ast\<close> is the tree whose JSON the compile stage stored.\<close>

record 'f LayoutCell =
  lc_sheet :: string
  lc_row :: int
  lc_col :: int
  lc_addr :: string
  lc_formula :: "string option"
  lc_template :: "string option"
  lc_ast :: "'f ast option"

definition ast_for :: "'f float_ops \<Rightarrow> 'f LayoutCell \<Rightarrow> string \<Rightarrow> 'f ast option" where
  "ast_for fo cell sheet =
     (case lc_ast cell of
        Some ast \<Rightarrow> Some ast
      | None \<Rightarrow>
          if \<not> truthy (lc_formula cell) then None
          else pf_ast (engine_parse fo (make_engine (Some ''en'')) (the (lc_formula cell)) sheet
                 (if lc_addr cell = [] then ''A1'' else lc_addr cell)))"

record RowPattern =
  rp_kind :: string
  rp_alias_sheet :: "string option"
  rp_alias_row :: "int option"
  rp_aggregate_span :: "(int \<times> int) option"
  rp_diff_rows :: "(int \<times> int) option"
  rp_roll_from_row :: "int option"
  rp_is_ratio :: bool
  rp_is_total :: bool
  rp_template :: "string option"

definition value_pattern :: RowPattern where
  "value_pattern =
     \<lparr>rp_kind = ''value'', rp_alias_sheet = None, rp_alias_row = None, rp_aggregate_span = None, rp_diff_rows = None,
      rp_roll_from_row = None, rp_is_ratio = False, rp_is_total = False, rp_template = None\<rparr>"

text \<open>\<open>Counter(xs).most_common(1)\<close>: of the most frequent, the one seen first.\<close>

definition most_common :: "'a list \<Rightarrow> ('a \<times> nat) option" where
  "most_common xs =
     foldl (\<lambda>best x. case best of
         None \<Rightarrow> Some (x, count_list xs x)
       | Some (b, n) \<Rightarrow> if n < count_list xs x then Some (x, count_list xs x) else best)
       None (first_by (\<lambda>x. x) {} xs)"

text \<open>\<open>max(1, math.ceil(0.6 * n))\<close>; the product of the nearest double to 0.6 rounds to 3n/5 whenever that is whole.\<close>

definition majority :: "nat \<Rightarrow> nat" where
  "majority n = max 1 ((3 * n + 4) div 5)"

definition fill_pattern :: "shape \<Rightarrow> RowPattern \<Rightarrow> RowPattern" where
  "fill_pattern sample pattern =
     (case sample of
        Alias sheet row \<Rightarrow> pattern\<lparr>rp_alias_sheet := Some sheet, rp_alias_row := Some row\<rparr>
      | Aggregate span \<Rightarrow> pattern\<lparr>rp_aggregate_span := Some span, rp_is_total := True\<rparr>
      | Diff a b \<Rightarrow> pattern\<lparr>rp_diff_rows := Some (a, b)\<rparr>
      | Roll sheet row \<Rightarrow> pattern\<lparr>rp_roll_from_row := Some row\<rparr>
      | Ratio \<Rightarrow> pattern\<lparr>rp_is_ratio := True\<rparr>
      | Prorate \<Rightarrow> pattern)"

definition templates_of :: "(int \<rightharpoonup> 'f LayoutCell) \<Rightarrow> int list \<Rightarrow> string list" where
  "templates_of cells period_cols =
     concat (map (\<lambda>col. case cells col of None \<Rightarrow> [] | Some cell \<Rightarrow> if truthy (lc_template cell) then [the (lc_template cell)] else [])
       period_cols)"

definition shapes_of :: "'f float_ops \<Rightarrow> (int \<rightharpoonup> 'f LayoutCell) \<Rightarrow> string \<Rightarrow> int \<Rightarrow> int list \<Rightarrow> shape list" where
  "shapes_of fo cells sheet row period_cols =
     concat (map (\<lambda>col. case cells col of
         None \<Rightarrow> []
       | Some cell \<Rightarrow>
           (case ast_for fo cell sheet of
              None \<Rightarrow> []
            | Some ast \<Rightarrow> (case formula_shape ast sheet col row of None \<Rightarrow> [] | Some s \<Rightarrow> [s])))
       period_cols)"

definition pattern_of :: "string list \<Rightarrow> shape list \<Rightarrow> RowPattern" where
  "pattern_of templates shapes =
     (let pattern = value_pattern\<lparr>rp_template := map_option fst (most_common templates)\<rparr> in
      case most_common (map shape_type shapes) of
        None \<Rightarrow> pattern
      | Some (top_kind, count) \<Rightarrow>
          if count < majority (length shapes) then
            pattern\<lparr>rp_kind := ''mixed'', rp_is_ratio := ''ratio'' \<in> set (map shape_type shapes)\<rparr>
          else
            (case find (\<lambda>s. shape_type s = top_kind) shapes of
               None \<Rightarrow> pattern
             | Some sample \<Rightarrow> fill_pattern sample (pattern\<lparr>rp_kind := top_kind\<rparr>)))"

definition pattern_for_row ::
  "'f float_ops \<Rightarrow> (int \<rightharpoonup> 'f LayoutCell) \<Rightarrow> string \<Rightarrow> int \<Rightarrow> int list \<Rightarrow> RowPattern" where
  "pattern_for_row fo cells sheet row period_cols =
     pattern_of (templates_of cells period_cols) (shapes_of fo cells sheet row period_cols)"

section \<open>Relations\<close>

record RowRelation =
  rl_kind :: string
  rl_source_row_key :: string
  rl_target_row_key :: "string option"
  rl_member_row_keys :: "string list"
  rl_evidence :: "string option"

record RelationBook =
  rb_row_index :: "((string \<times> int) \<times> string) list"
  rb_sheet_rows :: "(string \<times> (int \<times> string) list) list"

text \<open>
  Of a block only the id is read back from the index. The rows of a sheet are distinct keys of the
  index, so ordering the pairs is ordering the rows.
\<close>

definition cell_index :: "Layout \<Rightarrow> RelationBook" where
  "cell_index layout =
     (let row_index = foldl (\<lambda>d (sheet, block, row). AList.update (sl_name sheet, lr_row row) (bl_block_id block) d) []
            (layout_rows layout);
          buckets = foldl (\<lambda>d ((name, row_n), block_id).
              if block_id = [] then d else dict_alter name [] (\<lambda>rows. rows @ [(row_n, block_id)]) d) [] row_index
      in \<lparr>rb_row_index = row_index, rb_sheet_rows = map (\<lambda>(name, rows). (name, sort_key fst rows)) buckets\<rparr>)"

definition row_key :: "string \<Rightarrow> int \<Rightarrow> string \<Rightarrow> string" where
  "row_key sheet row block_id = sheet @ ''|'' @ int_str row @ ''|'' @ block_id"

definition relation_period_cols :: "SheetLayout \<Rightarrow> Block \<Rightarrow> int list" where
  "relation_period_cols sheet block =
     (let headers = period_headers sheet block in
      if bl_kind block = ''params'' then
        map ah_col (filter (\<lambda>header. ah_role header \<in> {Some ''value'', Some ''unknown''}) headers)
      else map ah_col headers)"

text \<open>\<open>bisect_left(rows, (lo,))\<close>: a one-tuple is less than every pair that starts with its number.\<close>

definition member_keys_in_span :: "RelationBook \<Rightarrow> string \<Rightarrow> int \<Rightarrow> int \<Rightarrow> string list" where
  "member_keys_in_span book sheet lo hi =
     (let rows = dict_get (rb_sheet_rows book) sheet [];
          start = bisect_left fst rows lo;
          stop = bisect_left fst rows (hi + 1)
      in map (\<lambda>(row_n, block_id). row_key sheet row_n block_id) (take (stop - start) (drop start rows)))"

definition block_id_at :: "RelationBook \<Rightarrow> string \<Rightarrow> int \<Rightarrow> string option" where
  "block_id_at book sheet row = map_of (rb_row_index book) (sheet, row)"

definition relation_from_pattern :: "RelationBook \<Rightarrow> string \<Rightarrow> Block \<Rightarrow> LayoutRow \<Rightarrow> RowPattern \<Rightarrow> RowRelation option" where
  "relation_from_pattern book sheet block layout_row pattern =
     (let source = row_key sheet (lr_row layout_row) (bl_block_id block);
          relation = \<lparr>rl_kind = [], rl_source_row_key = source, rl_target_row_key = None, rl_member_row_keys = [],
            rl_evidence = rp_template pattern\<rparr> in
      if rp_kind pattern = ''alias'' \<and> rp_alias_row pattern \<noteq> None then
        (let at = (if truthy (rp_alias_sheet pattern) then the (rp_alias_sheet pattern) else sheet) in
         case block_id_at book at (the (rp_alias_row pattern)) of
           None \<Rightarrow> None
         | Some target_block \<Rightarrow>
             Some (relation\<lparr>rl_kind := ''alias'', rl_target_row_key := Some (row_key at (the (rp_alias_row pattern)) target_block)\<rparr>))
      else
        case (rp_kind pattern = ''aggregate'', rp_aggregate_span pattern) of
          (True, Some (lo, hi)) \<Rightarrow>
            Some (relation\<lparr>rl_kind := ''aggregate'', rl_member_row_keys := member_keys_in_span book sheet lo hi\<rparr>)
        | _ \<Rightarrow>
        (case (rp_kind pattern = ''diff'', rp_diff_rows pattern) of
          (True, Some (a, b)) \<Rightarrow>
            Some (relation\<lparr>rl_kind := ''difference'',
              rl_member_row_keys := concat (map (\<lambda>row_n. case block_id_at book sheet row_n of
                  None \<Rightarrow> [] | Some block_id \<Rightarrow> if block_id = [] then [] else [row_key sheet row_n block_id]) [a, b])\<rparr>)
        | _ \<Rightarrow>
        (case (rp_kind pattern = ''roll'', rp_roll_from_row pattern) of
          (True, Some from_row) \<Rightarrow>
            (case block_id_at book sheet from_row of
               None \<Rightarrow> None
             | Some block_id \<Rightarrow>
                 Some (relation\<lparr>rl_kind := ''roll_forward'', rl_target_row_key := Some (row_key sheet from_row block_id)\<rparr>))
        | _ \<Rightarrow> None)))"

section \<open>One pass over the cells\<close>

type_synonym row_at = "string \<times> int"

definition cell_key :: "'f LayoutCell \<Rightarrow> row_at" where
  "cell_key cell = (lc_sheet cell, lc_row cell)"

definition periods_at :: "Layout \<Rightarrow> row_at \<Rightarrow> int list list" where
  "periods_at layout key =
     map (\<lambda>(sheet, block, row). relation_period_cols sheet block)
       (filter (\<lambda>(sheet, block, row). (sl_name sheet, lr_row row) = key) (layout_rows layout))"

definition column_map :: "'f LayoutCell list \<Rightarrow> int \<rightharpoonup> 'f LayoutCell" where
  "column_map bucket = map_of (rev (map (\<lambda>cell. (lc_col cell, cell)) bucket))"

type_synonym row_patterns = "row_at \<times> int list \<rightharpoonup> RowPattern"

record 'f RelationState =
  rs_patterns :: row_patterns
  rs_current :: "row_at option"
  rs_bucket :: "'f LayoutCell list"

definition flush_row :: "'f float_ops \<Rightarrow> Layout \<Rightarrow> 'f RelationState \<Rightarrow> 'f RelationState" where
  "flush_row fo layout st =
     (case rs_current st of
        None \<Rightarrow> st
      | Some key \<Rightarrow>
          let view = column_map (rs_bucket st) in
          \<lparr>rs_patterns = foldl (\<lambda>p cols. p((key, cols) \<mapsto> pattern_for_row fo view (fst key) (snd key) cols))
             (rs_patterns st) (periods_at layout key),
           rs_current = None, rs_bucket = []\<rparr>)"

definition take_relation_cell :: "'f float_ops \<Rightarrow> Layout \<Rightarrow> 'f RelationState \<Rightarrow> 'f LayoutCell \<Rightarrow> 'f RelationState" where
  "take_relation_cell fo layout st cell =
     (let st = (if Some (cell_key cell) \<noteq> rs_current st then (flush_row fo layout st)\<lparr>rs_current := Some (cell_key cell)\<rparr> else st)
      in st\<lparr>rs_bucket := rs_bucket st @ [cell]\<rparr>)"

definition row_patterns_of :: "'f float_ops \<Rightarrow> Layout \<Rightarrow> 'f LayoutCell list \<Rightarrow> row_patterns" where
  "row_patterns_of fo layout cells =
     rs_patterns (flush_row fo layout
       (foldl (take_relation_cell fo layout) \<lparr>rs_patterns = Map.empty, rs_current = None, rs_bucket = []\<rparr> cells))"

definition formula_relations :: "'f float_ops \<Rightarrow> Layout \<Rightarrow> 'f LayoutCell list \<Rightarrow> RowRelation list" where
  "formula_relations fo layout cells =
     (let book = cell_index layout; patterns = row_patterns_of fo layout cells in
      concat (map (\<lambda>(sheet, block, row).
        case patterns ((sl_name sheet, lr_row row), relation_period_cols sheet block) of
          None \<Rightarrow> []
        | Some pattern \<Rightarrow>
            (case relation_from_pattern book (sl_name sheet) block row pattern of None \<Rightarrow> [] | Some r \<Rightarrow> [r]))
        (layout_rows layout)))"

section \<open>Selecting the cells\<close>

definition relation_targets :: "SheetLayout \<Rightarrow> int set \<times> int set" where
  "relation_targets sheet =
     foldl (\<lambda>(rows, cols) block.
         let picked = relation_period_cols sheet block in
         if picked = [] then (rows, cols) else (rows \<union> lr_row ` set (bl_rows block), cols \<union> set picked))
       ({}, {}) (sl_blocks sheet)"

text \<open>The \<open>WHERE\<close> clause; rows of the file keep their order.\<close>

definition relation_where :: "string \<Rightarrow> int set \<Rightarrow> int set \<Rightarrow> 'f LayoutCell \<Rightarrow> bool" where
  "relation_where sheet rows cols cell \<longleftrightarrow>
     lc_sheet cell = sheet \<and> lc_row cell \<in> rows \<and> lc_col cell \<in> cols
     \<and> (lc_formula cell \<noteq> None \<or> lc_template cell \<noteq> None \<or> lc_ast cell \<noteq> None)"

definition load_relation_cells :: "Layout \<Rightarrow> 'f LayoutCell list \<Rightarrow> 'f LayoutCell list" where
  "load_relation_cells layout path =
     concat (map (\<lambda>sheet. case relation_targets sheet of (rows, cols) \<Rightarrow>
         if rows = {} \<or> cols = {} then [] else filter (relation_where (sl_name sheet) rows cols) path) layout)"

section \<open>Runs of rows\<close>

lemma contiguous_snoc: "contiguous (xs @ [x]) \<Longrightarrow> contiguous xs \<and> (xs = [] \<or> x = last xs \<or> x \<notin> set xs)"
proof (induction xs)
  case (Cons y ys)
  from Cons have IH: "contiguous ys" "ys = [] \<or> x = last ys \<or> x \<notin> set ys" and y: "y \<notin> set (dropWhile (\<lambda>z. z = y) (ys @ [x]))"
    by auto
  show ?case
  proof (cases "\<forall>z \<in> set ys. z = y")
    case True
    then have "dropWhile (\<lambda>z. z = y) ys = []" by simp
    then have "y \<notin> set (dropWhile (\<lambda>z. z = y) ys)" by (simp only: list.set(1) empty_iff not_False_eq_True)
    moreover have "ys \<noteq> [] \<Longrightarrow> last ys = y" using True by simp
    ultimately show ?thesis using IH by (cases "ys = []") auto
  next
    case False
    then have "dropWhile (\<lambda>z. z = y) (ys @ [x]) = dropWhile (\<lambda>z. z = y) ys @ [x]"
      by (auto simp: dropWhile_append)
    with y IH False show ?thesis by auto
  qed
qed simp

lemma contiguous_map_filter: "contiguous (map f xs) \<Longrightarrow> contiguous (map f (filter P xs))"
proof (induction xs)
  case (Cons x xs)
  have run: "v \<notin> set (dropWhile (\<lambda>z. z = v) (map f ys)) \<Longrightarrow> v \<notin> set (dropWhile (\<lambda>z. z = v) (map f (filter P ys)))" for v ys
  proof (induction ys)
    case (Cons a ys)
    have "set (dropWhile (\<lambda>z. z = v) zs) \<subseteq> set zs" for zs
      by (auto dest: set_dropWhileD)
    then have "v \<notin> set (map f ys) \<Longrightarrow> v \<notin> set (dropWhile (\<lambda>z. z = v) (map f (filter P ys)))"
      by fastforce
    with Cons show ?case by (cases "f a = v") auto
  qed simp
  from Cons show ?case by (auto dest: run)
qed simp

lemma contiguous_append:
  assumes "contiguous xs" "contiguous ys" "set xs \<inter> set ys = {}"
  shows "contiguous (xs @ ys)"
  using assms
proof (induction xs)
  case (Cons x xs)
  have "dropWhile (\<lambda>z. z = x) (xs @ ys) = (if \<forall>z \<in> set xs. z = x then ys else dropWhile (\<lambda>z. z = x) xs @ ys)"
    using Cons.prems(3) by (cases ys) (auto simp: dropWhile_append)
  with Cons show ?case by auto
qed simp

definition row_cells :: "'f LayoutCell list \<Rightarrow> row_at \<Rightarrow> 'f LayoutCell list" where
  "row_cells cells key = filter (\<lambda>cell. cell_key cell = key) cells"

lemma row_cells_none: "key \<notin> cell_key ` set cells \<Longrightarrow> row_cells cells key = []"
  by (auto simp: row_cells_def filter_empty_conv)

lemma flush_patterns:
  "foldl (\<lambda>p cols. p((key, cols) \<mapsto> F cols)) p colss (k, cols) = (if k = key \<and> cols \<in> set colss then Some (F cols) else p (k, cols))"
  by (induction colss arbitrary: p) auto

definition row_pattern :: "'f float_ops \<Rightarrow> 'f LayoutCell list \<Rightarrow> row_at \<Rightarrow> int list \<Rightarrow> RowPattern" where
  "row_pattern fo cells key cols = pattern_for_row fo (column_map (row_cells cells key)) (fst key) (snd key) cols"

definition relation_inv :: "'f float_ops \<Rightarrow> Layout \<Rightarrow> 'f LayoutCell list \<Rightarrow> 'f RelationState \<Rightarrow> bool" where
  "relation_inv fo layout xs st \<longleftrightarrow>
     rs_current st = (if xs = [] then None else Some (cell_key (last xs)))
     \<and> rs_bucket st = (if xs = [] then [] else row_cells xs (cell_key (last xs)))
     \<and> (\<forall>key cols. rs_patterns st (key, cols) =
          (if key \<in> cell_key ` set xs \<and> rs_current st \<noteq> Some key \<and> cols \<in> set (periods_at layout key)
           then Some (row_pattern fo xs key cols) else None))"

lemma relation_invD:
  assumes "relation_inv fo layout xs st"
  shows "rs_current st = (if xs = [] then None else Some (cell_key (last xs)))"
    and "rs_bucket st = (if xs = [] then [] else row_cells xs (cell_key (last xs)))"
    and "rs_patterns st (key, cols) =
      (if key \<in> cell_key ` set xs \<and> rs_current st \<noteq> Some key \<and> cols \<in> set (periods_at layout key)
       then Some (row_pattern fo xs key cols) else None)"
  using assms unfolding relation_inv_def by blast+

lemma flush_inv:
  assumes "relation_inv fo layout xs st"
  shows "rs_patterns (flush_row fo layout st) (key, cols) =
      (if key \<in> cell_key ` set xs \<and> cols \<in> set (periods_at layout key) then Some (row_pattern fo xs key cols) else None)
    \<and> rs_bucket (flush_row fo layout st) = []"
proof (cases "xs = []")
  case True
  with relation_invD(1,2) [OF assms] relation_invD(3) [OF assms, of key cols] show ?thesis by (simp add: flush_row_def)
next
  case False
  then have "cell_key (last xs) \<in> cell_key ` set xs" by simp
  with False relation_invD(1,2) [OF assms] relation_invD(3) [OF assms, of key cols] show ?thesis
    by (auto simp: flush_row_def Let_def flush_patterns row_pattern_def)
qed

lemma row_cells_snoc: "row_cells (xs @ [x]) key = row_cells xs key @ (if cell_key x = key then [x] else [])"
  by (simp add: row_cells_def)

lemma take_cell_inv:
  assumes inv: "relation_inv fo layout xs st" and run: "xs = [] \<or> cell_key x = cell_key (last xs) \<or> cell_key x \<notin> cell_key ` set xs"
  shows "relation_inv fo layout (xs @ [x]) (take_relation_cell fo layout st x)"
proof (cases "Some (cell_key x) = rs_current st")
  case True
  then have l: "xs \<noteq> []" "cell_key x = cell_key (last xs)" using inv by (auto simp: relation_inv_def split: if_splits)
  have same: "row_pattern fo (xs @ [x]) key cols = row_pattern fo xs key cols" if "cell_key x \<noteq> key" for key cols
    using that by (simp add: row_pattern_def row_cells_snoc)
  let ?st = "take_relation_cell fo layout st x"
  have st: "rs_current ?st = rs_current st" "rs_bucket ?st = rs_bucket st @ [x]" "rs_patterns ?st = rs_patterns st"
    using True by (simp_all add: take_relation_cell_def)
  have "rs_patterns ?st (key, cols) =
      (if key \<in> cell_key ` set (xs @ [x]) \<and> rs_current ?st \<noteq> Some key \<and> cols \<in> set (periods_at layout key)
       then Some (row_pattern fo (xs @ [x]) key cols) else None)" for key cols
    using relation_invD(3) [OF inv, of key cols] same [of key cols] unfolding st True [symmetric]
    by (auto simp: image_iff)
  with st relation_invD(1,2) [OF inv] l show ?thesis
    unfolding relation_inv_def by (simp add: row_cells_snoc del: split_paired_All)
next
  case False
  then have new: "cell_key x \<notin> cell_key ` set xs" using inv run by (auto simp: relation_inv_def split: if_splits)
  have same: "row_pattern fo (xs @ [x]) key cols = row_pattern fo xs key cols" if "cell_key x \<noteq> key" for key cols
    using that by (simp add: row_pattern_def row_cells_snoc)
  let ?st = "take_relation_cell fo layout st x"
  have st: "rs_current ?st = Some (cell_key x)" "rs_bucket ?st = [x]"
    "rs_patterns ?st = rs_patterns (flush_row fo layout st)"
    using False flush_inv [OF inv] by (simp_all add: take_relation_cell_def Let_def)
  have "rs_patterns ?st (key, cols) =
      (if key \<in> cell_key ` set (xs @ [x]) \<and> rs_current ?st \<noteq> Some key \<and> cols \<in> set (periods_at layout key)
       then Some (row_pattern fo (xs @ [x]) key cols) else None)" for key cols
    using conjunct1 [OF flush_inv [OF inv, of key cols]] same [of key cols] new unfolding st by auto
  moreover have "row_cells (xs @ [x]) (cell_key x) = [x]" using row_cells_none [OF new] by (simp add: row_cells_snoc)
  ultimately show ?thesis unfolding relation_inv_def using st by (simp del: split_paired_All)
qed

lemma take_cells_inv:
  "contiguous (map cell_key cells) \<Longrightarrow>
   relation_inv fo layout cells (foldl (take_relation_cell fo layout) \<lparr>rs_patterns = Map.empty, rs_current = None, rs_bucket = []\<rparr> cells)"
proof (induction cells rule: rev_induct)
  case Nil
  then show ?case by (simp add: relation_inv_def)
next
  case (snoc x cells)
  then have "contiguous (map cell_key cells)" "cells = [] \<or> cell_key x = cell_key (last cells) \<or> cell_key x \<notin> cell_key ` set cells"
    using contiguous_snoc [of "map cell_key cells" "cell_key x"] by (auto simp: last_map)
  with take_cell_inv snoc.IH show ?case by simp
qed

lemma row_patterns_of_contiguous:
  assumes "contiguous (map cell_key cells)"
  shows "row_patterns_of fo layout cells (key, cols) =
    (if key \<in> cell_key ` set cells \<and> cols \<in> set (periods_at layout key) then Some (row_pattern fo cells key cols) else None)"
  using flush_inv [OF take_cells_inv [OF assms]] by (simp add: row_patterns_of_def)

section \<open>Value cells do not matter\<close>

definition relation_of_row ::
  "RelationBook \<Rightarrow> (row_at \<Rightarrow> int list \<Rightarrow> RowPattern) \<Rightarrow> SheetLayout \<times> Block \<times> LayoutRow \<Rightarrow> RowRelation list" where
  "relation_of_row book pattern at =
     (case at of (sheet, block, row) \<Rightarrow>
        (case relation_from_pattern book (sl_name sheet) block row
            (pattern (sl_name sheet, lr_row row) (relation_period_cols sheet block)) of
           None \<Rightarrow> []
         | Some r \<Rightarrow> [r]))"

text \<open>What the relations are meant to be: every row is read at once, from all the cells of the file.\<close>

definition relations_spec :: "'f float_ops \<Rightarrow> Layout \<Rightarrow> 'f LayoutCell list \<Rightarrow> RowRelation list" where
  "relations_spec fo layout cells = concat (map (relation_of_row (cell_index layout) (row_pattern fo cells)) (layout_rows layout))"

lemma pattern_no_cells: "pattern_for_row fo (\<lambda>col. None) sheet row cols = value_pattern"
proof -
  have "templates_of (\<lambda>col. None :: 'a LayoutCell option) cols = []" "shapes_of fo (\<lambda>col. None) sheet row cols = []"
    by (simp_all add: templates_of_def shapes_of_def)
  then show ?thesis by (simp add: pattern_for_row_def pattern_of_def most_common_def Let_def value_pattern_def)
qed

lemma relation_of_value_pattern: "relation_from_pattern book sheet block row value_pattern = None"
  by (simp add: relation_from_pattern_def value_pattern_def Let_def)

lemma row_pattern_absent: "key \<notin> cell_key ` set cells \<Longrightarrow> row_pattern fo cells key cols = value_pattern"
  by (simp add: row_pattern_def row_cells_none column_map_def pattern_no_cells)

lemma periods_of_row: "(sheet, block, row) \<in> set (layout_rows layout) \<Longrightarrow>
    relation_period_cols sheet block \<in> set (periods_at layout (sl_name sheet, lr_row row))"
  by (force simp: periods_at_def)

lemma formula_relations_contiguous:
  assumes "contiguous (map cell_key cells)"
  shows "formula_relations fo layout cells = relations_spec fo layout cells"
proof -
  have "(case at of (sheet, block, row) \<Rightarrow>
        case row_patterns_of fo layout cells ((sl_name sheet, lr_row row), relation_period_cols sheet block) of
          None \<Rightarrow> []
        | Some pattern \<Rightarrow>
            (case relation_from_pattern (cell_index layout) (sl_name sheet) block row pattern of None \<Rightarrow> [] | Some r \<Rightarrow> [r]))
      = relation_of_row (cell_index layout) (row_pattern fo cells) at"
    if at_in: "at \<in> set (layout_rows layout)" for at
  proof (rule prod_cases3 [of at])
    fix sheet block row
    assume at: "at = (sheet, block, row)"
    then have "relation_period_cols sheet block \<in> set (periods_at layout (sl_name sheet, lr_row row))"
      using at_in by (simp add: periods_of_row)
    then show ?thesis
      using row_pattern_absent [of "(sl_name sheet, lr_row row)" cells fo]
      by (simp add: at relation_of_row_def row_patterns_of_contiguous [OF assms] relation_of_value_pattern)
  qed
  then show ?thesis
    unfolding formula_relations_def relations_spec_def Let_def by (metis (no_types, lifting) map_cong)
qed

definition relevant :: "'f LayoutCell \<Rightarrow> bool" where
  "relevant cell \<longleftrightarrow> lc_formula cell \<noteq> None \<or> lc_template cell \<noteq> None \<or> lc_ast cell \<noteq> None"

lemma pattern_relevant:
  assumes "\<And>col. col \<in> set cols \<Longrightarrow>
      view col = (case full col of None \<Rightarrow> None | Some cell \<Rightarrow> if relevant cell then Some cell else None)"
  shows "pattern_for_row fo view sheet row cols = pattern_for_row fo full sheet row cols"
proof -
  have "templates_of view cols = templates_of full cols"
    unfolding templates_of_def
    by (intro arg_cong [where f = concat] map_cong refl) (auto simp: assms relevant_def truthy_def split: option.splits)
  moreover have "shapes_of fo view sheet row cols = shapes_of fo full sheet row cols"
    unfolding shapes_of_def
    by (intro arg_cong [where f = concat] map_cong refl)
      (auto simp: assms relevant_def ast_for_def truthy_def split: option.splits)
  ultimately show ?thesis by (simp add: pattern_for_row_def)
qed

lemma column_map_filter:
  assumes "distinct (map lc_col cells)"
  shows "column_map (filter P cells) col =
    (case column_map cells col of None \<Rightarrow> None | Some cell \<Rightarrow> if P cell then Some cell else None)"
proof -
  have find_SomeD: "find Q cs = Some c \<Longrightarrow> c \<in> set cs \<and> Q c" for Q and cs :: "'a LayoutCell list" and c
    by (induction cs) (auto split: if_splits)
  have *: "column_map cs col = find (\<lambda>cell. lc_col cell = col) cs" if "distinct (map lc_col cs)" for cs :: "'a LayoutCell list"
    using that by (induction cs) (auto simp: column_map_def map_add_def map_of_eq_None_iff split: option.splits
        dest!: find_SomeD)
  have "distinct (map lc_col (filter P cells))" using assms by (simp add: distinct_map_filter)
  moreover have "find (\<lambda>cell. lc_col cell = col) (filter P cells) =
      (case find (\<lambda>cell. lc_col cell = col) cells of None \<Rightarrow> None | Some cell \<Rightarrow> if P cell then Some cell else None)"
    using assms by (induction cells) (auto simp: find_None_iff dest!: find_SomeD split: option.splits)
  ultimately show ?thesis using assms by (simp add: *)
qed

lemma row_cells_loaded:
  assumes "distinct (map sl_name layout)" "sheet \<in> set layout"
  shows "row_cells (load_relation_cells layout cells) (sl_name sheet, row) =
    (case relation_targets sheet of (rows, cols) \<Rightarrow>
       filter (relation_where (sl_name sheet) rows cols) (row_cells cells (sl_name sheet, row)))"
  using assms
proof (induction layout)
  case (Cons s rest)
  have split: "row_cells (load_relation_cells (s # rest) cells) key =
      (case relation_targets s of (rows, cols) \<Rightarrow> filter (relation_where (sl_name s) rows cols) (row_cells cells key))
      @ row_cells (load_relation_cells rest cells) key" for key
    by (auto simp: load_relation_cells_def row_cells_def relation_where_def filter_empty_conv conj_commute split: prod.splits)
  have other: "\<forall>cell \<in> set (load_relation_cells ls cells). lc_sheet cell \<in> sl_name ` set ls" for ls
    by (auto simp: load_relation_cells_def relation_where_def split: prod.splits if_splits)
  show ?case
  proof (cases "sheet = s")
    case True
    have "row_cells (load_relation_cells rest cells) (sl_name s, row) = []"
      using other [of rest] Cons.prems(1) by (intro row_cells_none) (auto simp: cell_key_def)
    with True split show ?thesis by simp
  next
    case False
    with Cons.prems have "sl_name s \<noteq> sl_name sheet" by auto
    then have "filter (relation_where (sl_name s) rows cols) (row_cells cells (sl_name sheet, row)) = []" for rows cols
      by (auto simp: relation_where_def row_cells_def cell_key_def filter_empty_conv)
    with False Cons split show ?thesis by (auto split: prod.splits)
  qed
qed simp

lemma relation_targets_fold:
  "foldl (\<lambda>(rows, cols) block.
      let picked = relation_period_cols sheet block in
      if picked = [] then (rows, cols) else (rows \<union> lr_row ` set (bl_rows block), cols \<union> set picked)) (rows, cols) blocks
   = (rows \<union> (\<Union>block \<in> {b \<in> set blocks. relation_period_cols sheet b \<noteq> []}. lr_row ` set (bl_rows block)),
      cols \<union> (\<Union>block \<in> set blocks. set (relation_period_cols sheet block)))"
proof (induction blocks arbitrary: rows cols)
  case (Cons b blocks)
  then show ?case by (simp add: Let_def) (auto simp: Cons)
qed simp

lemma relation_targets_cover:
  assumes "block \<in> set (sl_blocks sheet)" "row \<in> set (bl_rows block)" "relation_period_cols sheet block \<noteq> []"
  shows "lr_row row \<in> fst (relation_targets sheet) \<and> set (relation_period_cols sheet block) \<subseteq> snd (relation_targets sheet)"
  using assms by (auto simp: relation_targets_def relation_targets_fold)

lemma loaded_contiguous:
  assumes "contiguous (map cell_key cells)" "distinct (map sl_name layout)"
  shows "contiguous (map cell_key (load_relation_cells layout cells))"
  using assms(2)
proof (induction layout)
  case (Cons s rest)
  let ?own = "case relation_targets s of (rows, cols) \<Rightarrow>
      if rows = {} \<or> cols = {} then [] else filter (relation_where (sl_name s) rows cols) cells"
  have "contiguous (map cell_key ?own)"
    using contiguous_map_filter [OF assms(1)] by (auto split: prod.splits)
  moreover have "\<forall>cell \<in> set ?own. lc_sheet cell = sl_name s"
    by (auto simp: relation_where_def split: prod.splits)
  moreover have "\<forall>cell \<in> set (load_relation_cells rest cells). lc_sheet cell \<in> sl_name ` set rest"
    by (auto simp: load_relation_cells_def relation_where_def split: prod.splits if_splits)
  moreover have "load_relation_cells (s # rest) cells = ?own @ load_relation_cells rest cells"
    by (simp add: load_relation_cells_def)
  ultimately show ?case
    using Cons by (simp del: split_paired_All) (rule contiguous_append; auto simp: cell_key_def)
qed (simp add: load_relation_cells_def)

lemma row_pattern_loaded:
  assumes "distinct (map sl_name layout)" "distinct (map (\<lambda>cell. (lc_sheet cell, lc_row cell, lc_col cell)) cells)"
    and at: "sheet \<in> set layout" "block \<in> set (sl_blocks sheet)" "row \<in> set (bl_rows block)"
  shows "row_pattern fo (load_relation_cells layout cells) (sl_name sheet, lr_row row) (relation_period_cols sheet block)
    = row_pattern fo cells (sl_name sheet, lr_row row) (relation_period_cols sheet block)"
proof (cases "relation_period_cols sheet block = []")
  case True
  then show ?thesis by (simp add: row_pattern_def pattern_for_row_def templates_of_def shapes_of_def)
next
  case False
  let ?key = "(sl_name sheet, lr_row row)"
  obtain rows cols where targets: "relation_targets sheet = (rows, cols)" by (rule prod.exhaust)
  with relation_targets_cover [OF at(2,3) False] have cover: "lr_row row \<in> rows" "set (relation_period_cols sheet block) \<subseteq> cols"
    by simp_all
  have "distinct (map lc_col (row_cells cells ?key))"
    using assms(2) by (auto simp: row_cells_def distinct_map inj_on_def cell_key_def)
  then have "column_map (row_cells (load_relation_cells layout cells) ?key) col =
      (case column_map (row_cells cells ?key) col of None \<Rightarrow> None
       | Some cell \<Rightarrow> if relation_where (sl_name sheet) rows cols cell then Some cell else None)" for col
    using row_cells_loaded [OF assms(1) at(1), of cells] targets by (simp add: column_map_filter)
  moreover have "column_map (row_cells cells ?key) col = Some cell \<Longrightarrow>
      lc_sheet cell = sl_name sheet \<and> lc_row cell = lr_row row \<and> lc_col cell = col" for col cell
    by (auto simp: column_map_def row_cells_def cell_key_def dest!: map_of_SomeD)
  ultimately show ?thesis
    using cover by (simp add: row_pattern_def)
      (intro pattern_relevant, force simp: relation_where_def relevant_def split: option.splits)
qed

text \<open>
  C28. Selecting the cells in the database and reducing them row by row loses nothing: for a cells file
  that keeps each row together and has no cell twice, and a layout without two sheets of one name,
  the relations of the selected cells are the relations of the whole file, each row's pattern being
  taken from all its cells. (The comment in \<open>layout/stage.py\<close> says it: value cells are not read, the
  pattern never looks at them.)
\<close>

theorem relations_of_selected_cells:
  assumes "contiguous (map cell_key cells)" "distinct (map sl_name layout)"
    and "distinct (map (\<lambda>cell. (lc_sheet cell, lc_row cell, lc_col cell)) cells)"
  shows "formula_relations fo layout (load_relation_cells layout cells) = relations_spec fo layout cells"
proof -
  have "relation_of_row book (row_pattern fo (load_relation_cells layout cells)) at =
      relation_of_row book (row_pattern fo cells) at" if "at \<in> set (layout_rows layout)" for book at
  proof (rule prod_cases3 [of at])
    fix sheet block row
    assume "at = (sheet, block, row)"
    with that row_pattern_loaded [OF assms(2,3), of sheet block row fo] show ?thesis
      by (auto simp: relation_of_row_def layout_rows_def)
  qed
  then show ?thesis
    unfolding formula_relations_contiguous [OF loaded_contiguous [OF assms(1,2)]] relations_spec_def
    by (metis (no_types, lifting) map_cong)
qed

section \<open>A formula filled to the right\<close>

fun body_cols_relative :: "ref_body \<Rightarrow> bool" where
  "body_cols_relative (BCell c) \<longleftrightarrow> \<not> c_abs_col c"
| "body_cols_relative (BRange a b) \<longleftrightarrow> \<not> c_abs_col a \<and> \<not> c_abs_col b"
| "body_cols_relative body = True"

fun cols_relative :: "'f ast \<Rightarrow> bool" where
  "cols_relative (RefAst n) = body_cols_relative (rf_body n)"
| "cols_relative (Func name args) \<longleftrightarrow> (\<forall>arg \<in> set args. cols_relative arg)"
| "cols_relative (Bin kind l r) \<longleftrightarrow> cols_relative l \<and> cols_relative r"
| "cols_relative (Unary kind e) = cols_relative e"
| "cols_relative (Percent e) = cols_relative e"
| "cols_relative node = True"

lemma filled_cell:
  assumes "cell_stays dc 0 c" "\<not> c_abs_col c"
  shows "c_col (shift_cell dc 0 c) = c_col c + dc" "c_row (shift_cell dc 0 c) = c_row c"
  using assms by (auto simp: shift_cell_def cell_stays_def stays_def shift_coord_def)

lemma own_sheet_shift [simp]: "own_sheet (n\<lparr>rf_body := b\<rparr>) sheet = own_sheet n sheet"
  by (simp add: own_sheet_def)

lemma ref_row_filled:
  "cols_relative a \<Longrightarrow> ast_stays dc 0 a \<Longrightarrow> ref_row (shift_ast dc 0 a) sheet (col + dc) = ref_row a sheet col"
proof (induction a)
  case (RefAst n)
  then show ?case by (cases "rf_body n") (simp_all add: ref_row_def filled_cell)
qed (simp_all add: ref_row_def)

lemma range_rows_filled:
  "cols_relative a \<Longrightarrow> ast_stays dc 0 a \<Longrightarrow> range_rows (shift_ast dc 0 a) (col + dc) = range_rows a col"
proof (induction a)
  case (RefAst n)
  then show ?case by (cases "rf_body n") (simp_all add: range_rows_def filled_cell)
qed (simp_all add: range_rows_def)

lemma is_proration_shift [simp]: "is_proration (shift_ast dc dr a) = is_proration a"
  by (induction a) simp_all

lemma formula_shape_filled:
  assumes "cols_relative a" "ast_stays dc 0 a"
  shows "formula_shape (shift_ast dc 0 a) sheet (col + dc) row = formula_shape a sheet col row"
proof (cases a)
  case (RefAst n)
  with assms show ?thesis by (cases "rf_body n") (auto simp: filled_cell Let_def)
next
  case (Func name args)
  with assms show ?thesis by (auto simp: range_rows_filled split: list.splits)
next
  case (Bin kind l r)
  with assms show ?thesis by (simp add: ref_row_filled)
qed simp_all

lemma first_by_replicate: "first_by (\<lambda>x. x) {} (replicate (Suc n) x) = [x]"
proof -
  have "first_by (\<lambda>x. x) {x} (replicate n x) = []" by (induction n) simp_all
  then show ?thesis by simp
qed

lemma count_list_replicate: "count_list (replicate n x) x = n"
  by (induction n) simp_all

lemma most_common_replicate: "0 < n \<Longrightarrow> most_common (replicate n x) = Some (x, n)"
  by (cases n) (simp_all add: most_common_def first_by_replicate count_list_replicate del: replicate_Suc)

lemma pattern_of_uniform:
  assumes "0 < n"
  shows "pattern_of templates (replicate n s) =
    fill_pattern s (value_pattern\<lparr>rp_kind := shape_type s, rp_template := map_option fst (most_common templates)\<rparr>)"
proof -
  have "majority n \<le> n" using assms by (simp add: majority_def)
  moreover have "find (\<lambda>t. shape_type t = shape_type s) (replicate n s) = Some s" using assms by (cases n) simp_all
  ultimately show ?thesis
    using assms by (simp add: pattern_of_def Let_def most_common_replicate value_pattern_def)
qed

text \<open>
  A row whose formula was filled to the right has the shape of its first formula: when every period
  column holds the same tree, shifted by the distance of the columns, with relative columns that do
  not run off the sheet, the row's pattern is the one of that formula at its own cell, whatever the
  number of periods; no majority is needed. An absolute column breaks this
  (\<open>anchored_column_changes_shape\<close>).
\<close>

theorem filled_row_pattern:
  assumes "formula_shape a sheet col row = Some s" "cols_relative a" "period_cols \<noteq> []"
    and "\<And>c. c \<in> set period_cols \<Longrightarrow> ast_stays (c - col) 0 a"
    and "\<And>c. c \<in> set period_cols \<Longrightarrow> \<exists>cell. cells c = Some cell \<and> lc_ast cell = Some (shift_ast (c - col) 0 a)"
  shows "pattern_for_row fo cells sheet row period_cols =
    fill_pattern s (value_pattern\<lparr>rp_kind := shape_type s,
      rp_template := map_option fst (most_common (templates_of cells period_cols))\<rparr>)"
proof -
  have "shapes_of fo cells sheet row cols = replicate (length cols) s" if "set cols \<subseteq> set period_cols" for cols
    using that
  proof (induction cols)
    case (Cons c cols)
    obtain cell where "cells c = Some cell" "lc_ast cell = Some (shift_ast (c - col) 0 a)" using assms(5) Cons.prems by auto
    moreover have "formula_shape (shift_ast (c - col) 0 a) sheet c row = Some s"
      using formula_shape_filled [OF assms(2) assms(4), of c sheet col row] Cons.prems assms(1) by simp
    ultimately show ?case using Cons by (simp add: shapes_of_def ast_for_def)
  qed (simp add: shapes_of_def)
  then show ?thesis using assms(3) by (simp add: pattern_for_row_def pattern_of_uniform)
qed

section \<open>A small table\<close>

text \<open>
  Rows 2 and 3 hold values, row 4 the sum \<open>=SUM(B2:B3)\<close> filled from column 2 to column 3.
\<close>

definition period_at :: "int \<Rightarrow> string \<Rightarrow> AxisHeader" where
  "period_at col key = \<lparr>ah_col = col, ah_text = key, ah_role = None, ah_kind = Some ''period'', ah_variant = None,
     ah_period_key = key, ah_explicit_role = False, ah_hidden = False\<rparr>"

definition sum_layout :: Layout where
  "sum_layout =
     [\<lparr>sl_name = ''S'', sl_hidden = False, sl_axes = [],
       sl_blocks = [\<lparr>bl_block_id = ''b1'', bl_label_col = 1,
         bl_axis = Some \<lparr>ax_id = ''a1'', ax_row = 1, ax_headers = [period_at 2 ''2024'', period_at 3 ''2025'']\<rparr>,
         bl_axis_ids = [], bl_timeline_ids = [], bl_rows = map (\<lambda>n. new_row n ''row'') [2, 3, 4], bl_kind = ''timeline''\<rparr>]\<rparr>]"

definition cell_at :: "int \<Rightarrow> int \<Rightarrow> int ast option \<Rightarrow> int LayoutCell" where
  "cell_at row col ast = \<lparr>lc_sheet = ''S'', lc_row = row, lc_col = col, lc_addr = format_addr col row, lc_formula = None,
     lc_template = None, lc_ast = ast\<rparr>"

definition rel_cell :: "int \<Rightarrow> int \<Rightarrow> cell" where
  "rel_cell col row = \<lparr>c_col = col, c_row = row, c_abs_col = False, c_abs_row = False\<rparr>"

definition column_sum :: "int \<Rightarrow> string option \<Rightarrow> int ast" where
  "column_sum col sheet = Func ''SUM'' [RefAst \<lparr>rf_body = BRange (rel_cell col 2) (rel_cell col 3), rf_sheet = sheet, rf_external = None\<rparr>]"

definition sum_cells :: "int LayoutCell list" where
  "sum_cells = [cell_at 2 2 None, cell_at 2 3 None, cell_at 3 2 None, cell_at 3 3 None,
     cell_at 4 2 (Some (column_sum 2 None)), cell_at 4 3 (Some (column_sum 3 None))]"

theorem relations_of_selected_cells_witness:
  "formula_relations whole_floats sum_layout (load_relation_cells sum_layout sum_cells) =
     relations_spec whole_floats sum_layout sum_cells
   \<and> map rl_member_row_keys (relations_spec whole_floats sum_layout sum_cells) = [[''S|2|b1'', ''S|3|b1'']]"
proof
  show "formula_relations whole_floats sum_layout (load_relation_cells sum_layout sum_cells) =
      relations_spec whole_floats sum_layout sum_cells"
    by (rule relations_of_selected_cells) code_simp+
  show "map rl_member_row_keys (relations_spec whole_floats sum_layout sum_cells) = [[''S|2|b1'', ''S|3|b1'']]"
    by code_simp
qed

theorem filled_row_pattern_witness:
  "pattern_for_row whole_floats (column_map (drop 4 sum_cells)) ''S'' 4 [2, 3] =
    fill_pattern (Aggregate (2, 3)) (value_pattern\<lparr>rp_kind := shape_type (Aggregate (2, 3)),
      rp_template := map_option fst (most_common (templates_of (column_map (drop 4 sum_cells)) [2, 3]))\<rparr>)"
proof (rule filled_row_pattern)
  show "formula_shape (column_sum 2 None) ''S'' 2 4 = Some (Aggregate (2, 3))" by code_simp
  show "cols_relative (column_sum 2 None)" by code_simp
  show "[2, 3 :: int] \<noteq> []" by simp
  show "ast_stays (c - 2) 0 (column_sum 2 None)" if "c \<in> set [2, 3]" for c
    using that by (auto simp: column_sum_def rel_cell_def cell_stays_def stays_def)
  have "map_option lc_ast (column_map (drop 4 sum_cells) 2) = Some (Some (shift_ast (2 - 2) 0 (column_sum 2 None)))"
    "map_option lc_ast (column_map (drop 4 sum_cells) 3) = Some (Some (shift_ast (3 - 2) 0 (column_sum 2 None)))" by code_simp+
  then show "\<exists>cell. column_map (drop 4 sum_cells) c = Some cell \<and> lc_ast cell = Some (shift_ast (c - 2) 0 (column_sum 2 None))"
    if "c \<in> set [2, 3]" for c using that by auto
qed

text \<open>
  The sheet of a summed range is not looked at: a sum over \<open>Other!B2:B3\<close> is an aggregate of rows 2
  and 3 of its own sheet. The same holds for the two rows of a difference.
\<close>

lemma foreign_sum_is_local_aggregate:
  "map (\<lambda>r. (rl_kind r, rl_member_row_keys r))
     (formula_relations whole_floats sum_layout [cell_at 4 2 (Some (column_sum 2 (Some ''Other'')))]) =
   [(''aggregate'', [''S|2|b1'', ''S|3|b1''])]"
  by code_simp

text \<open>\<open>=$B2\<close> filled over columns 2 to 4: an alias at column 2, a roll-forward at column 3, an alias at column 4.\<close>

lemma anchored_column_changes_shape:
  "let a = RefAst \<lparr>rf_body = BCell ((rel_cell 2 2)\<lparr>c_abs_col := True\<rparr>), rf_sheet = None, rf_external = None\<rparr> :: int ast in
   map (\<lambda>c. formula_shape (shift_ast (c - 2) 0 a) ''S'' c 4) [2, 3, 4] =
     [Some (Alias ''S'' 2), Some (Roll ''S'' 2), Some (Alias ''S'' 2)]"
  by code_simp

end
