(* ===== verification/Row_Adjacency.thy ===== *)
theory Row_Adjacency
  imports Range_Cover Batches
begin

text \<open>
  Neighbours of the rows of a table, \<open>src/finance_context/layout/adjacency.py\<close>: which rows a row's
  formulas read and which read it. A range that the graph keeps as one node is not expanded but recorded once, with the
  rows that read it. The context pages ask for a few rows only; the theorems say that the answer
  for those rows is the one that the whole table gives, and that the two directions agree.
\<close>

section \<open>References to rows\<close>

type_synonym table_row = "string \<times> int"

definition cell_ref_row :: "string option \<Rightarrow> table_row option" where
  "cell_ref_row ref =
     (case ref of
        None \<Rightarrow> None
      | Some ref \<Rightarrow>
          (case rsplit1 CHR ''!'' ref of
             None \<Rightarrow> None
           | Some (sheet, addr) \<Rightarrow>
               (let sheet = undouble CHR 0x27 (strip_char CHR 0x27 (py_strip sheet));
                    addr = filter (\<lambda>c. c \<noteq> CHR ''$'') (takeWhile (\<lambda>c. c \<noteq> CHR '':'') addr)
                in case parse_addr addr of
                     Inl _ \<Rightarrow> None
                   | Inr (col, row) \<Rightarrow> if sheet = [] then None else Some (sheet, row))))"

definition row_key_ref :: "table_row \<Rightarrow> string" where
  "row_key_ref at = fst at @ ''!'' @ int_str (snd at)"

definition target_text :: "Edge \<Rightarrow> string" where
  "target_text edge = (case e_target edge of None \<Rightarrow> [] | Some target \<Rightarrow> target)"

definition resolved_range_edge :: "Edge \<Rightarrow> bool" where
  "resolved_range_edge edge \<longleftrightarrow> e_kind edge = ''range'' \<and> \<not> e_unresolved edge"

definition adjacency_targets :: "range_ctx \<Rightarrow> Edge \<Rightarrow> SheetUsage option \<Rightarrow> string list" where
  "adjacency_targets ctx edge usage =
     (let target = target_text edge in
      if target = [] then []
      else
        let body = (case rsplit1 CHR ''!'' target of None \<Rightarrow> target | Some (sheet, body) \<Rightarrow> body) in
        if resolved_range_edge edge \<and> CHR '':'' \<in> set body then
          (case expand_range ctx target None usage of Inl _ \<Rightarrow> [target] | Inr (cells, _) \<Rightarrow> cells)
        else [target])"

section \<open>Large ranges\<close>

text \<open>A dict with values \<open>None\<close> is the list of its keys; \<open>setdefault\<close> keeps the first place of a key.\<close>

definition set_default :: "'a \<Rightarrow> 'a list \<Rightarrow> 'a list" where
  "set_default x keys = (if x \<in> set keys then keys else keys @ [x])"

record RangeReads =
  rr_by_row :: "(table_row \<times> string list) list"
  rr_nodes :: "(string \<times> RangeNode) list"
  rr_readers :: "(string \<times> string list) list"

definition no_reads :: RangeReads where
  "no_reads = \<lparr>rr_by_row = [], rr_nodes = [], rr_readers = []\<rparr>"

definition reads_add :: "table_row \<Rightarrow> RangeNode \<Rightarrow> RangeReads \<Rightarrow> RangeReads" where
  "reads_add source node reads =
     \<lparr>rr_by_row = dict_alter source [] (set_default (node_id node)) (rr_by_row reads),
      rr_nodes = (if map_of (rr_nodes reads) (node_id node) = None then rr_nodes reads @ [(node_id node, node)] else rr_nodes reads),
      rr_readers = dict_alter (node_id node) [] (set_default (row_key_ref source)) (rr_readers reads)\<rparr>"

definition reads_for_row :: "RangeReads \<Rightarrow> table_row \<Rightarrow> string list" where
  "reads_for_row reads at = dict_get (rr_by_row reads) at []"

record RangeRecord =
  rc_id :: string
  rc_sheet :: string
  rc_col_start :: "string option"
  rc_col_end :: "string option"
  rc_row_start :: "int option"
  rc_row_end :: "int option"
  rc_cells :: int
  rc_readers :: "string list"

definition reads_records :: "RangeReads \<Rightarrow> SheetUsage option \<Rightarrow> RangeRecord list" where
  "reads_records reads usage =
     map (\<lambda>(nid, node).
       let whole_rows = (rn_c1 node = 1 \<and> rn_c2 node = 16384);
           whole_cols = (rn_r1 node = 1 \<and> rn_r2 node = 1048576)
       in \<lparr>rc_id = nid, rc_sheet = rn_sheet node,
           rc_col_start = (if whole_rows then None else Some (index_to_col (rn_c1 node))),
           rc_col_end = (if whole_rows then None else Some (index_to_col (rn_c2 node))),
           rc_row_start = (if whole_cols then None else Some (rn_r1 node)),
           rc_row_end = (if whole_cols then None else Some (rn_r2 node)),
           rc_cells = (case usage of None \<Rightarrow> 0 | Some u \<Rightarrow> node_present_count node u),
           rc_readers = dict_get (rr_readers reads) nid []\<rparr>) (rr_nodes reads)"

section \<open>The pass over the edges\<close>

type_synonym neighbors = "(table_row \<times> string list) list"

record AdjacencyState =
  aj_precedents :: neighbors
  aj_dependents :: neighbors
  aj_ranges :: "RangeReads option"

definition link_rows :: "table_row set option \<Rightarrow> table_row \<Rightarrow> AdjacencyState \<Rightarrow> string \<Rightarrow> AdjacencyState" where
  "link_rows keep source st target_ref =
     (case cell_ref_row (Some target_ref) of
        None \<Rightarrow> st
      | Some target \<Rightarrow>
          if source = target then st
          else
            let st = (if keep = None \<or> source \<in> the keep
                  then st\<lparr>aj_precedents := dict_alter source [] (set_default (row_key_ref target)) (aj_precedents st)\<rparr> else st)
            in if keep = None \<or> target \<in> the keep
               then st\<lparr>aj_dependents := dict_alter target [] (set_default (row_key_ref source)) (aj_dependents st)\<rparr> else st)"

definition node_read :: "range_ctx \<Rightarrow> SheetUsage option \<Rightarrow> AdjacencyState \<Rightarrow> Edge \<Rightarrow> RangeNode option" where
  "node_read ctx usage st edge =
     (if aj_ranges st \<noteq> None \<and> resolved_range_edge edge then range_node_for ctx (target_text edge) usage else None)"

definition adjacency_edge ::
  "range_ctx \<Rightarrow> SheetUsage option \<Rightarrow> table_row set option \<Rightarrow> AdjacencyState \<Rightarrow> Edge \<Rightarrow> AdjacencyState" where
  "adjacency_edge ctx usage keep st edge =
     (if e_named edge then st
      else
        case cell_ref_row (Some (e_source edge)) of
          None \<Rightarrow> st
        | Some source \<Rightarrow>
            (case node_read ctx usage st edge of
               Some node \<Rightarrow> st\<lparr>aj_ranges := map_option (reads_add source node) (aj_ranges st)\<rparr>
             | None \<Rightarrow>
                 if keep = Some {} then st
                 else foldl (link_rows keep source) st (adjacency_targets ctx edge usage)))"

text \<open>\<open>while found: key, values = found.popitem()\<close> takes the rows from the end.\<close>

definition neighbor_lists :: "neighbors \<Rightarrow> int \<Rightarrow> neighbors" where
  "neighbor_lists found limit =
     map (\<lambda>(key, values). (key, if 0 < limit then take (nat limit) values else values)) (rev found)"

definition row_adjacency ::
  "range_ctx \<Rightarrow> Edge list \<Rightarrow> int \<Rightarrow> SheetUsage option \<Rightarrow> RangeReads option \<Rightarrow> table_row set option \<Rightarrow>
   neighbors \<times> neighbors \<times> RangeReads option" where
  "row_adjacency ctx edges limit usage ranges keep =
     (let st = foldl (adjacency_edge ctx usage keep) \<lparr>aj_precedents = [], aj_dependents = [], aj_ranges = ranges\<rparr> edges
      in (neighbor_lists (aj_precedents st) limit, neighbor_lists (aj_dependents st) limit, aj_ranges st))"

section \<open>Restriction to some rows\<close>

definition kept :: "table_row set option \<Rightarrow> table_row \<Rightarrow> bool" where
  "kept keep at \<longleftrightarrow> keep = None \<or> at \<in> the keep"

text \<open>\<open>small\<close> keeps the rows of \<open>keep\<close> only, and is otherwise \<open>full\<close>.\<close>

definition restricts :: "table_row set option \<Rightarrow> neighbors \<Rightarrow> neighbors \<Rightarrow> bool" where
  "restricts keep full small \<longleftrightarrow> small = filter (\<lambda>(at, values). kept keep at) full"

definition adjacency_restricts :: "table_row set option \<Rightarrow> AdjacencyState \<Rightarrow> AdjacencyState \<Rightarrow> bool" where
  "adjacency_restricts keep full small \<longleftrightarrow>
     restricts keep (aj_precedents full) (aj_precedents small)
     \<and> restricts keep (aj_dependents full) (aj_dependents small) \<and> aj_ranges full = aj_ranges small"

lemma dict_get_kept:
  "kept keep at \<Longrightarrow> dict_get (filter (\<lambda>(at, values). kept keep at) d) at [] = dict_get d at []"
  by (induction d) (auto simp: dict_get_def)

lemma update_filter:
  "AList.update k v (filter (\<lambda>(at, values). kept keep at) d) =
   (if kept keep k then filter (\<lambda>(at, values). kept keep at) (AList.update k v d)
    else AList.update k v (filter (\<lambda>(at, values). kept keep at) d))"
  "\<not> kept keep k \<Longrightarrow> filter (\<lambda>(at, values). kept keep at) (AList.update k v d) = filter (\<lambda>(at, values). kept keep at) d"
  by (induction d) (auto split: if_splits)

lemma restricts_alter:
  assumes "restricts keep full small"
  shows "restricts keep (dict_alter k [] f full) (if kept keep k then dict_alter k [] f small else small)"
  using assms update_filter(1) [of k _ keep full] update_filter(2) [of keep k _ full]
  by (auto simp: restricts_def dict_alter_def dict_get_kept)

lemma link_rows_restricts:
  assumes "adjacency_restricts keep full small"
  shows "adjacency_restricts keep (link_rows None source full target) (link_rows keep source small target)"
proof -
  have pre: "restricts keep (dict_alter k [] f (aj_precedents full))
      (if kept keep k then dict_alter k [] f (aj_precedents small) else aj_precedents small)" for k f
    using assms restricts_alter by (simp add: adjacency_restricts_def)
  have dep: "restricts keep (dict_alter k [] f (aj_dependents full))
      (if kept keep k then dict_alter k [] f (aj_dependents small) else aj_dependents small)" for k f
    using assms restricts_alter by (simp add: adjacency_restricts_def)
  show ?thesis
  proof (cases "cell_ref_row (Some target)")
    case None
    then show ?thesis using assms by (simp add: link_rows_def)
  next
    case (Some at)
    show ?thesis
      using assms pre [of source "set_default (row_key_ref at)"] dep [of at "set_default (row_key_ref source)"] Some
      by (auto simp: link_rows_def Let_def adjacency_restricts_def kept_def)
  qed
qed

lemma links_restrict:
  "adjacency_restricts keep full small \<Longrightarrow>
   adjacency_restricts keep (foldl (link_rows None source) full targets) (foldl (link_rows keep source) small targets)"
  by (induction targets arbitrary: full small) (auto intro: link_rows_restricts)

lemma no_rows_no_links [simp]: "link_rows (Some {}) source st target = st"
  by (simp add: link_rows_def Let_def split: option.splits)

lemma no_rows_no_links_fold [simp]: "foldl (link_rows (Some {}) source) st targets = st"
  by (induction targets) simp_all

lemma adjacency_edge_restricts:
  assumes "adjacency_restricts keep full small"
  shows "adjacency_restricts keep (adjacency_edge ctx usage None full edge) (adjacency_edge ctx usage keep small edge)"
proof -
  have node: "node_read ctx usage full edge = node_read ctx usage small edge"
    using assms by (simp add: adjacency_restricts_def node_read_def)
  have skip: "(if keep = Some {} then small else foldl (link_rows keep source) small targets) =
      foldl (link_rows keep source) small targets" for source targets by simp
  show ?thesis
    unfolding adjacency_edge_def node skip
    using assms links_restrict [OF assms]
    by (auto simp: adjacency_restricts_def split: option.splits)
qed

lemma adjacency_pass_restricts:
  "adjacency_restricts keep full small \<Longrightarrow>
   adjacency_restricts keep (foldl (adjacency_edge ctx usage None) full edges) (foldl (adjacency_edge ctx usage keep) small edges)"
  by (induction edges arbitrary: full small) (auto intro: adjacency_edge_restricts)

lemma neighbor_lists_filter:
  "neighbor_lists (filter (\<lambda>(at, values). P at) found) limit = filter (\<lambda>(at, values). P at) (neighbor_lists found limit)"
  by (induction found) (auto simp: neighbor_lists_def)

text \<open>
  C29. Asking for some rows changes nothing but what is stored: the neighbour lists for \<open>rows\<close> are those
  entries of the whole table's lists, in their order and with the same cut, and the large ranges
  with their readers are recorded in full, whatever rows were asked for.
\<close>

theorem adjacency_of_asked_rows:
  "row_adjacency ctx edges limit usage ranges (Some rows) =
    (case row_adjacency ctx edges limit usage ranges None of
       (precedents, dependents, reads) \<Rightarrow>
         (filter (\<lambda>(at, values). at \<in> rows) precedents, filter (\<lambda>(at, values). at \<in> rows) dependents, reads))"
proof -
  let ?start = "\<lparr>aj_precedents = [], aj_dependents = [], aj_ranges = ranges\<rparr>"
  have "adjacency_restricts (Some rows) ?start ?start" by (simp add: adjacency_restricts_def restricts_def)
  from adjacency_pass_restricts [OF this, of ctx usage edges] show ?thesis
    by (simp add: row_adjacency_def Let_def adjacency_restricts_def restricts_def kept_def neighbor_lists_filter)
qed

section \<open>The two directions agree\<close>

lemma row_key_ref_inject [simp]: "row_key_ref a = row_key_ref b \<longleftrightarrow> a = b"
proof
  assume eq: "row_key_ref a = row_key_ref b"
  have "CHR ''!'' \<notin> set (int_str n)" for n
    using nat_str_digit [of "CHR ''!''"] by (auto simp: int_str_def re_digit_def)
  then have "rsplit1 CHR ''!'' (row_key_ref x) = Some (fst x, int_str (snd x))" for x
    by (simp add: row_key_ref_def)
  with eq show "a = b" by (metis int_str_inject option.inject prod.collapse prod.inject)
qed simp

lemma set_set_default [simp]: "set (set_default x xs) = insert x (set xs)"
  by (auto simp: set_default_def)

definition links_agree :: "AdjacencyState \<Rightarrow> bool" where
  "links_agree st \<longleftrightarrow>
     distinct (map fst (aj_precedents st)) \<and> distinct (map fst (aj_dependents st))
     \<and> (\<forall>source target. row_key_ref target \<in> set (dict_get (aj_precedents st) source []) \<longleftrightarrow>
          row_key_ref source \<in> set (dict_get (aj_dependents st) target []))"

definition reads_agree :: "RangeReads option \<Rightarrow> bool" where
  "reads_agree reads \<longleftrightarrow>
     (case reads of
        None \<Rightarrow> True
      | Some r \<Rightarrow> (\<forall>at nid. nid \<in> set (reads_for_row r at) \<longleftrightarrow> row_key_ref at \<in> set (dict_get (rr_readers r) nid [])))"

lemma dict_get_alter_set:
  "x \<in> set (dict_get (dict_alter k [] (set_default v) d) j []) \<longleftrightarrow> x \<in> set (dict_get d j []) \<or> j = k \<and> x = v"
  by (auto simp: dict_get_def)

lemma link_rows_agree:
  assumes "links_agree st"
  shows "links_agree (link_rows None source st target_ref)"
proof (cases "cell_ref_row (Some target_ref)")
  case None
  with assms show ?thesis by (simp add: link_rows_def)
next
  case (Some target)
  have sym: "row_key_ref t \<in> set (dict_get (aj_precedents st) s []) \<longleftrightarrow> row_key_ref s \<in> set (dict_get (aj_dependents st) t [])" for s t
    using assms unfolding links_agree_def by blast
  have "links_agree (st\<lparr>aj_precedents := dict_alter source [] (set_default (row_key_ref target)) (aj_precedents st),
      aj_dependents := dict_alter target [] (set_default (row_key_ref source)) (aj_dependents st)\<rparr>)"
    using assms unfolding links_agree_def
    by (simp add: dict_get_alter_set distinct_dict_alter sym del: split_paired_All) blast
  with assms Some show ?thesis by (simp add: link_rows_def Let_def)
qed

lemma links_agree_fold: "links_agree st \<Longrightarrow> links_agree (foldl (link_rows None source) st targets)"
  by (induction targets arbitrary: st) (auto intro: link_rows_agree)

lemma link_rows_ranges: "aj_ranges (foldl (link_rows keep source) st targets) = aj_ranges st"
  by (induction targets arbitrary: st) (auto simp: link_rows_def Let_def split: option.splits)

lemma reads_add_agree:
  assumes "reads_agree (Some reads)"
  shows "reads_agree (Some (reads_add source node reads))"
  using assms unfolding reads_agree_def
  by (simp add: reads_for_row_def reads_add_def dict_get_alter_set del: split_paired_All) blast

lemma adjacency_edge_agree:
  assumes "links_agree st" "reads_agree (aj_ranges st)"
  shows "links_agree (adjacency_edge ctx usage None st edge) \<and> reads_agree (aj_ranges (adjacency_edge ctx usage None st edge))"
proof -
  have "reads_agree (map_option (reads_add source node) (aj_ranges st))" for source node
    using assms(2) reads_add_agree by (cases "aj_ranges st") (simp_all add: reads_agree_def)
  moreover have "links_agree (st\<lparr>aj_ranges := r\<rparr>)" for r using assms(1) by (simp add: links_agree_def)
  ultimately show ?thesis
    using assms links_agree_fold [OF assms(1)] by (simp add: adjacency_edge_def link_rows_ranges split: option.splits)
qed

lemma neighbor_lists_all:
  assumes "distinct (map fst found)"
  shows "dict_get (neighbor_lists found 0) at [] = dict_get found at []"
proof -
  have "neighbor_lists found 0 = rev found" by (simp add: neighbor_lists_def)
  moreover have "map_of (rev found) = map_of found"
    using assms map_of_inject_set [of "rev found" found] by (simp add: rev_map [symmetric])
  ultimately show ?thesis by (simp add: dict_get_def)
qed

text \<open>
  Precedents and dependents are the two directions of one relation: without a cut, a row names
  another as a precedent exactly when that one names it as a dependent, and a row reads a large
  range exactly when the range lists the row among its readers.
\<close>

theorem adjacency_directions_agree:
  "case row_adjacency ctx edges 0 usage (Some no_reads) None of
     (precedents, dependents, Some reads) \<Rightarrow>
       (row_key_ref target \<in> set (dict_get precedents source []) \<longleftrightarrow>
          row_key_ref source \<in> set (dict_get dependents target []))
       \<and> (nid \<in> set (reads_for_row reads source) \<longleftrightarrow> row_key_ref source \<in> set (dict_get (rr_readers reads) nid []))
   | _ \<Rightarrow> False"
proof -
  define st where "st = foldl (adjacency_edge ctx usage None) \<lparr>aj_precedents = [], aj_dependents = [], aj_ranges = Some no_reads\<rparr> edges"
  have fold: "links_agree s \<Longrightarrow> reads_agree (aj_ranges s) \<Longrightarrow> aj_ranges s \<noteq> None \<Longrightarrow>
      links_agree (foldl (adjacency_edge ctx usage None) s es) \<and> reads_agree (aj_ranges (foldl (adjacency_edge ctx usage None) s es))
      \<and> aj_ranges (foldl (adjacency_edge ctx usage None) s es) \<noteq> None" for s es
  proof (induction es arbitrary: s)
    case (Cons e es)
    have "aj_ranges (adjacency_edge ctx usage None s e) \<noteq> None"
      using Cons.prems(3) by (auto simp: adjacency_edge_def link_rows_ranges split: option.splits)
    with Cons adjacency_edge_agree show ?case by simp
  qed simp
  have agree: "links_agree st \<and> reads_agree (aj_ranges st) \<and> aj_ranges st \<noteq> None"
    unfolding st_def by (rule fold) (simp_all add: links_agree_def reads_agree_def no_reads_def reads_for_row_def dict_get_def)
  then obtain reads where reads: "aj_ranges st = Some reads" by auto
  have result: "row_adjacency ctx edges 0 usage (Some no_reads) None =
      (neighbor_lists (aj_precedents st) 0, neighbor_lists (aj_dependents st) 0, Some reads)"
    by (simp add: row_adjacency_def st_def [symmetric] reads Let_def)
  have d: "distinct (map fst (aj_precedents st))" "distinct (map fst (aj_dependents st))"
    using agree unfolding links_agree_def by blast+
  have "row_key_ref target \<in> set (dict_get (aj_precedents st) source []) \<longleftrightarrow>
      row_key_ref source \<in> set (dict_get (aj_dependents st) target [])"
    using agree unfolding links_agree_def by blast
  moreover have "nid \<in> set (reads_for_row reads source) \<longleftrightarrow> row_key_ref source \<in> set (dict_get (rr_readers reads) nid [])"
    using agree unfolding reads_agree_def reads by (simp del: split_paired_All)
  ultimately show ?thesis by (simp add: result d neighbor_lists_all)
qed

end
