(* ===== verification/Job_Meta.thy ===== *)
theory Job_Meta
  imports Shared_Cache Cell_Edges
begin

text \<open>
  The status document \<open>meta/meta.json\<close> of a job and everyone who writes it: the upload handler
  (\<open>api/routes/jobs.py\<close>), the pipeline (\<open>app/pipeline.py\<close>) and the queue worker (\<open>jobqueue/jobs.py\<close>).
  Runs of a job are numbered by generations, and runs of two generations can overlap: an old worker may still be
  exiting while the next upload is queued. The theorem says that the writes never take the number down and that the
  failures, stage reports and warnings of an old run leave the document of a newer one alone. Two steps do not look at the
  generation: the retry counter of the worker, and the removal of a stale document at the start of a run
  (\<open>invalidate_for_run\<close>, which is not a write and is followed by one).
\<close>

section \<open>Values of the document\<close>

text \<open>
  \<open>int(value)\<close>. A number with a fraction loses it; \<open>json.loads\<close> yields floats in exponent form only for
  documents that no writer of the program produces, they count as no number.
\<close>

definition number_int :: "string \<Rightarrow> int option" where
  "number_int s =
     (let neg = (take 1 s = ''-''); body = (if neg then drop 1 s else s);
          whole = takeWhile re_digit body; rest = dropWhile re_digit body in
      if whole = [] \<or> \<not> (rest = [] \<or> take 1 rest = ''.'' \<and> list_all re_digit (drop 1 rest)) then None
      else Some (if neg then - int (int_of_digits whole) else int (int_of_digits whole)))"

definition stored_int :: "json \<Rightarrow> int option" where
  "stored_int v =
     (case v of
        JNumber s \<Rightarrow> number_int s
      | JBool b \<Rightarrow> Some (if b then 1 else 0)
      | JString s \<Rightarrow> (case py_int_text s of Inl _ \<Rightarrow> None | Inr n \<Rightarrow> Some n)
      | _ \<Rightarrow> None)"

definition stored_truthy :: "json option \<Rightarrow> bool" where
  "stored_truthy v =
     (case v of
        None \<Rightarrow> False
      | Some JNull \<Rightarrow> False
      | Some (JBool b) \<Rightarrow> b
      | Some (JString s) \<Rightarrow> s \<noteq> []
      | Some (JArray xs) \<Rightarrow> xs \<noteq> []
      | Some (JObject d) \<Rightarrow> d \<noteq> []
      | Some (JNumber s) \<Rightarrow>
          (let mantissa = takeWhile (\<lambda>c. c \<noteq> CHR ''e'' \<and> c \<noteq> CHR ''E'') s in
           list_ex (\<lambda>c. re_digit c \<and> c \<noteq> CHR ''0'') mantissa \<or> \<not> list_ex re_digit mantissa))"

definition meta_text :: "json_dict option \<Rightarrow> string \<Rightarrow> string option" where
  "meta_text meta key = (case meta of None \<Rightarrow> None | Some d \<Rightarrow> as_text (map_of d key))"

definition stored_generation :: "json_dict \<Rightarrow> int option" where
  "stored_generation payload = (case map_of payload ''generation'' of None \<Rightarrow> None | Some v \<Rightarrow> stored_int v)"

text \<open>\<open>int(meta.get("generation") or 0)\<close>: a number that is 0 comes out as 0 either way.\<close>

definition disk_generation :: "json_dict option \<Rightarrow> int" where
  "disk_generation meta =
     (case meta of
        None \<Rightarrow> 0
      | Some d \<Rightarrow> (case stored_generation d of None \<Rightarrow> 0 | Some g \<Rightarrow> g))"

definition json_of_int :: "int \<Rightarrow> json" where
  "json_of_int n = JNumber (int_str n)"

section \<open>Updating the document\<close>

text \<open>
  \<open>update_json\<close> reads, mutates and writes under the sidecar lock. A mutation that gives back the document it got
  leaves the file alone.
\<close>

definition update_meta :: "(json_dict \<Rightarrow> json_dict) \<Rightarrow> tree \<Rightarrow> tree" where
  "update_meta mutate dest =
     (case read_meta dest of
        Some current \<Rightarrow> if mutate current = current then dest else dest(META_NAME \<mapsto> Document (JObject (mutate current)))
      | None \<Rightarrow> dest(META_NAME \<mapsto> Document (JObject (mutate []))))"

definition READY_ARTIFACTS :: "string list" where
  "READY_ARTIFACTS = [''context/context.json'', ''context/context.md'', ''graph/graph.json'', ''graph/graph.md'']"

definition TERMINAL_STATUS :: "string set" where
  "TERMINAL_STATUS = {''succeeded'', ''degraded'', ''needs_input'', ''failed''}"

definition artifacts_ready :: "tree \<Rightarrow> bool" where
  "artifacts_ready dest \<longleftrightarrow> list_all (\<lambda>name. dest name \<noteq> None) READY_ARTIFACTS"

definition failed_meta :: "bool \<Rightarrow> string \<Rightarrow> string \<Rightarrow> int \<Rightarrow> string option \<Rightarrow> json_dict \<Rightarrow> json_dict" where
  "failed_meta ready job_id error generation detail current =
     (if stored_generation current \<noteq> None \<and> stored_generation current \<noteq> Some generation then current
      else if ready \<and> (\<exists>s \<in> TERMINAL_STATUS. meta_text (Some current) ''status'' = Some s) then current
      else
        let failed = dict_pop ''stages'' (dict_pop ''publisher'' current);
            failed = dict_set ''generation'' (json_of_int generation) (dict_set ''error'' (JString error)
              (dict_set ''stage'' (JString ''failed'') (dict_set ''status'' (JString ''failed'') (dict_set ''job_id'' (JString job_id) failed))))
        in if detail \<notin> {None, Some []} then dict_set ''detail'' (JString (the detail)) failed else failed)"

definition SCHEMA_VERSION :: string where "SCHEMA_VERSION = ''1.14.0''"

record ArtifactMeta =
  am_job_id :: string
  am_status :: string
  am_stage :: string
  am_source_filename :: "string option"
  am_content_sha256 :: "string option"
  am_warnings :: "string list"
  am_questions :: "json list"
  am_error :: "string option"

definition json_text :: "string option \<Rightarrow> json" where
  "json_text s = (case s of None \<Rightarrow> JNull | Some s \<Rightarrow> JString s)"

text \<open>\<open>model_dump(mode="json")\<close> followed by the generation and the stamp of this process.\<close>

definition meta_document :: "string \<Rightarrow> (string \<times> string) list \<Rightarrow> int \<Rightarrow> ArtifactMeta \<Rightarrow> json_dict" where
  "meta_document stamp stages generation m =
     [(''schema_version'', JString SCHEMA_VERSION), (''job_id'', JString (am_job_id m)), (''status'', JString (am_status m)),
      (''stage'', JString (am_stage m)), (''source_filename'', json_text (am_source_filename m)),
      (''content_sha256'', json_text (am_content_sha256 m)), (''warnings'', JArray (map JString (am_warnings m))),
      (''questions'', JArray (am_questions m)), (''error'', json_text (am_error m)),
      (''generation'', json_of_int generation), (''publisher'', JString stamp),
      (''stages'', JObject (map (\<lambda>(name, hash). (name, JString hash)) stages))]"

definition replace_meta :: "int \<Rightarrow> json_dict \<Rightarrow> json_dict \<Rightarrow> json_dict" where
  "replace_meta generation meta current =
     (case stored_generation current of
        Some seen \<Rightarrow> if seen > generation then current else meta
      | None \<Rightarrow> meta)"

definition append_export_warning :: "int \<Rightarrow> string \<Rightarrow> json_dict \<Rightarrow> json_dict" where
  "append_export_warning generation warning stored =
     (if (case stored_generation stored of Some seen \<Rightarrow> seen > generation | None \<Rightarrow> False) then stored
      else
        let items = (case map_of stored ''warnings'' of Some (JArray ws) \<Rightarrow> ws | _ \<Rightarrow> []) in
        if JString warning \<in> set items then stored
        else dict_set ''warnings'' (JArray (items @ [JString warning])) stored)"

definition BUSY_RETRIES :: string where "BUSY_RETRIES = ''shared_cache_busy_retries''"

definition busy_seen :: "json_dict option \<Rightarrow> nat" where
  "busy_seen meta =
     (case meta of
        None \<Rightarrow> 0
      | Some d \<Rightarrow>
          (case map_of d BUSY_RETRIES of
             Some (JNumber s) \<Rightarrow>
               (if list_all re_digit s \<and> s \<noteq> [] then int_of_digits s else 0)
           | _ \<Rightarrow> 0))"

definition busy_stamp :: "nat \<Rightarrow> json_dict \<Rightarrow> json_dict" where
  "busy_stamp attempt document = dict_set BUSY_RETRIES (json_of_int (int attempt)) document"

definition queued_stamp :: "string \<Rightarrow> string \<Rightarrow> string \<Rightarrow> int \<Rightarrow> json_dict \<Rightarrow> json_dict" where
  "queued_stamp job_id filename digest generation current =
     dict_pop ''detail'' (dict_pop ''error'' (dict_set ''stage'' (JString ''queued'') (dict_set ''status'' (JString ''queued'')
       (dict_set ''generation'' (json_of_int generation) (dict_set ''content_sha256'' (JString digest)
         (dict_set ''source_filename'' (JString filename) (dict_set ''job_id'' (JString job_id) current)))))))"

definition next_generation :: "json_dict option \<Rightarrow> int" where
  "next_generation stored = max 1 (disk_generation stored + 1)"

section \<open>Everyone who writes\<close>

text \<open>
  One constructor per caller of \<open>update_json\<close> on the document: an upload (which clears the session's publications, records
  the stage to rebuild from and queues the next generation, all under the directory lock), the three of a run
  with its generation, and the retry counter of the worker.
\<close>

definition clear_for_upload :: "string option \<Rightarrow> tree \<Rightarrow> tree" where
  "clear_for_upload stale dest =
     fst (clear_downstream_artifacts dest (Some (case stale of None \<Rightarrow> ''layout'' | Some s \<Rightarrow> s)) None False)"

datatype meta_write =
    Upload string string string "string option"
  | MarkFailed string string int "string option"
  | StageMeta string "(string \<times> string) list" int ArtifactMeta
  | ExportWarning int string
  | BusyRetry nat

fun write_meta_file :: "meta_write \<Rightarrow> tree \<Rightarrow> tree" where
  "write_meta_file (Upload job_id filename digest stale) dest =
     (let generation = next_generation (read_meta dest) in
      update_meta (queued_stamp job_id filename digest generation)
        (record_rebuild_stage (clear_for_upload stale dest) stale (Some (int_str generation))))"
| "write_meta_file (MarkFailed job_id error generation detail) dest =
     update_meta (failed_meta (artifacts_ready dest) job_id error generation detail) dest"
| "write_meta_file (StageMeta stamp stages generation meta) dest =
     update_meta (replace_meta generation (meta_document stamp stages generation meta)) dest"
| "write_meta_file (ExportWarning generation warning) dest = update_meta (append_export_warning generation warning) dest"
| "write_meta_file (BusyRetry attempt) dest = update_meta (busy_stamp attempt) dest"

text \<open>The generation that a run writes for; uploads and the counter have none.\<close>

fun write_generation :: "meta_write \<Rightarrow> int option" where
  "write_generation (MarkFailed job_id error generation detail) = Some generation"
| "write_generation (StageMeta stamp stages generation meta) = Some generation"
| "write_generation (ExportWarning generation warning) = Some generation"
| "write_generation _ = None"

definition tree_generation :: "tree \<Rightarrow> int option" where
  "tree_generation dest = (case read_meta dest of None \<Rightarrow> None | Some d \<Rightarrow> stored_generation d)"

section \<open>Generations\<close>

lemma number_int_int_str [simp]: "number_int (int_str n) = Some n"
proof -
  have digits: "takeWhile re_digit (nat_str k) = nat_str k" "dropWhile re_digit (nat_str k) = []" for k
    using nat_str_digit by (auto simp: takeWhile_eq_all_conv dropWhile_eq_Nil_conv)
  have "hd (nat_str k) \<noteq> CHR ''-''" "nat_str k \<noteq> []" for k
    using nat_str_digit [of "hd (nat_str k)" k] by (auto simp: re_digit_def)
  then have "take 1 (nat_str k) \<noteq> ''-''" "nat_str k \<noteq> []" for k
    by (metis list.sel(1) take_Suc_Cons take_eq_Nil One_nat_def neq_Nil_conv)+
  then show ?thesis by (auto simp: number_int_def Let_def int_str_def digits)
qed

lemma json_int_of_int [simp]: "stored_int (json_of_int n) = Some n"
  by (simp add: stored_int_def json_of_int_def)

lemma read_meta_update [simp]: "read_meta (dest(META_NAME \<mapsto> Document (JObject d))) = Some d"
  by (simp add: read_meta_def read_json_object_def)

lemma read_meta_update_meta: "read_meta (update_meta f dest) =
    Some (f (case read_meta dest of None \<Rightarrow> [] | Some d \<Rightarrow> d))"
  by (auto simp: update_meta_def split: option.splits)

lemma tree_generation_update_meta:
  "tree_generation (update_meta f dest) = stored_generation (f (case read_meta dest of None \<Rightarrow> [] | Some d \<Rightarrow> d))"
  by (simp add: tree_generation_def read_meta_update_meta)

lemma update_meta_same: "read_meta dest = Some d \<Longrightarrow> f d = d \<Longrightarrow> update_meta f dest = dest"
  by (simp add: update_meta_def)

lemma stored_generation_set [simp]:
  "stored_generation (dict_set ''generation'' (json_of_int n) d) = Some n"
  "k \<noteq> ''generation'' \<Longrightarrow> stored_generation (dict_set k v d) = stored_generation d"
  "k \<noteq> ''generation'' \<Longrightarrow> stored_generation (dict_pop k d) = stored_generation d"
  by (simp_all add: stored_generation_def)

lemma stored_generation_writes:
  "stored_generation (queued_stamp job_id filename digest generation d) = Some generation"
  "stored_generation (meta_document stamp stages generation m) = Some generation"
  "stored_generation (busy_stamp attempt d) = stored_generation d"
  "stored_generation (append_export_warning generation warning d) = stored_generation d"
  by (simp_all add: queued_stamp_def busy_stamp_def append_export_warning_def BUSY_RETRIES_def Let_def)
    (simp add: stored_generation_def meta_document_def)

lemma stored_generation_failed:
  assumes "stored_generation d = Some g"
  shows "stored_generation (failed_meta ready job_id error generation detail d) = Some g"
  using assms by (auto simp: failed_meta_def Let_def)

lemma old_run_changes_nothing:
  assumes "stored_generation d = Some g" "generation < g"
  shows "failed_meta ready job_id error generation detail d = d"
    and "replace_meta generation meta d = d" and "append_export_warning generation warning d = d"
  using assms by (auto simp: failed_meta_def replace_meta_def append_export_warning_def)

lemma record_rebuild_generation:
  "read_meta (record_rebuild_stage dest stale (Some g)) \<noteq> None"
  by (simp add: record_rebuild_stage_def)

lemma clear_for_upload_meta [simp]: "clear_for_upload stale dest META_NAME = dest META_NAME"
proof -
  have kept: "META_NAME \<notin> set PUBLISHED \<union> set GRAPH \<union> set GRAPH_IR \<union> shared_artifacts"
    by (simp add: META_NAME_def PUBLISHED_def GRAPH_def GRAPH_IR_def shared_artifacts_def FORMULA_IR_def RAW_def)
  have "snd (clear_shared_artifacts t (Some s)) META_NAME = t META_NAME" for t s
    by (rule clear_shared_kept) (use kept in simp)
  with kept show ?thesis
    by (simp add: clear_for_upload_def clear_downstream_artifacts_def Let_def unlink_all_cases split: option.splits)
qed

lemma write_generation_step:
  assumes "tree_generation dest = Some g"
  shows "\<exists>h \<ge> g. tree_generation (write_meta_file w dest) = Some h"
proof -
  from assms obtain d where d: "read_meta dest = Some d" "stored_generation d = Some g"
    by (auto simp: tree_generation_def split: option.splits)
  then have "next_generation (read_meta dest) \<ge> g" by (simp add: next_generation_def disk_generation_def)
  with d show ?thesis
    by (cases w) (auto simp: tree_generation_update_meta stored_generation_writes stored_generation_failed Let_def replace_meta_def)
qed

lemma old_write_step:
  assumes "tree_generation dest = Some g" "case write_generation w of None \<Rightarrow> False | Some h \<Rightarrow> h < g"
  shows "write_meta_file w dest = dest"
proof -
  from assms obtain d where "read_meta dest = Some d" "stored_generation d = Some g"
    by (auto simp: tree_generation_def split: option.splits)
  with assms(2) show ?thesis
    by (cases w) (auto intro!: update_meta_same simp: old_run_changes_nothing)
qed

text \<open>
  C11. Whatever uploads, runs and retries write into the status document \<open>meta/meta.json\<close>, in whatever order: once the document has a
  generation, a write never takes the stored generation down, and as long as all the writes are failures, stage reports and
  export warnings of runs of older generations, the document stays as it is.
\<close>

theorem generations_never_decrease:
  assumes "tree_generation dest = Some g"
  shows "(\<exists>h \<ge> g. tree_generation (fold write_meta_file writes dest) = Some h)
    \<and> (list_all (\<lambda>w. case write_generation w of None \<Rightarrow> False | Some h \<Rightarrow> h < g) writes \<longrightarrow>
         fold write_meta_file writes dest = dest)"
  using assms
proof (induction writes arbitrary: dest g)
  case (Cons w writes)
  from write_generation_step [OF Cons.prems, of w] obtain h where
    "h \<ge> g" "tree_generation (write_meta_file w dest) = Some h" by blast
  moreover from this Cons.IH [OF this(2)] obtain k where
    "k \<ge> h" "tree_generation (fold write_meta_file writes (write_meta_file w dest)) = Some k" by blast
  ultimately have "\<exists>k \<ge> g. tree_generation (fold write_meta_file (w # writes) dest) = Some k"
    using order_trans by auto
  moreover have "list_all (\<lambda>w. case write_generation w of None \<Rightarrow> False | Some h \<Rightarrow> h < g) (w # writes) \<Longrightarrow>
      fold write_meta_file (w # writes) dest = dest"
    using old_write_step [OF Cons.prems] Cons.IH [OF Cons.prems] by simp
  ultimately show ?case by blast
qed simp

text \<open>A job that failed in generation 3 is uploaded again; then the run of generation 3 tries to write.\<close>

definition failed_session :: tree where
  "failed_session = [META_NAME \<mapsto> Document (JObject [(''status'', JString ''failed''), (''generation'', JNumber ''3'')])]"

definition requeued_session :: tree where
  "requeued_session = write_meta_file (Upload ''j'' ''book.xlsx'' ''d'' None) failed_session"

theorem generations_never_decrease_witness:
  "(\<exists>h \<ge> 4. tree_generation (fold write_meta_file [MarkFailed ''j'' ''TimeoutError'' 3 None, ExportWarning 3 ''w''] requeued_session) = Some h)
   \<and> fold write_meta_file [MarkFailed ''j'' ''TimeoutError'' 3 None, ExportWarning 3 ''w''] requeued_session = requeued_session"
proof -
  have "tree_generation requeued_session = Some 4" by code_simp
  moreover have "list_all (\<lambda>w. case write_generation w of None \<Rightarrow> False | Some h \<Rightarrow> h < 4)
      [MarkFailed ''j'' ''TimeoutError'' 3 None, ExportWarning 3 ''w'']" by simp
  ultimately show ?thesis
    using generations_never_decrease [of requeued_session 4 "[MarkFailed ''j'' ''TimeoutError'' 3 None, ExportWarning 3 ''w'']"] by blast
qed

text \<open>
  The retry counter is the one writer that does not look at the generation: the worker of an old run
  stamps it into the document of the new one.
\<close>

lemma busy_counter_ignores_generation:
  "busy_seen (read_meta (write_meta_file (BusyRetry 5) requeued_session)) = 5
   \<and> tree_generation (write_meta_file (BusyRetry 5) requeued_session) = Some 4"
  by code_simp

end
