(* ===== verification/Queue_Worker.thy ===== *)
theory Queue_Worker
  imports Job_Meta
begin

text \<open>
  The queue worker, \<open>jobqueue/jobs.py\<close> with the child watch of \<open>jobqueue/spawn.py\<close>: one call runs a book in a
  child process, or gives the job back to the queue, or records why it failed. The queue itself (RQ) is
  outside: it calls \<open>execute_job\<close> again when a \<open>Retry\<close> is returned, and \<open>on_horse_killed\<close> when the worker died.
\<close>

section \<open>Progress events\<close>

record JobEvent =
  ev_event :: string
  ev_status :: string
  ev_stage :: string
  ev_generation :: int
  ev_error :: "string option"

definition failure_event :: "string \<Rightarrow> int \<Rightarrow> JobEvent" where
  "failure_event error generation =
     \<lparr>ev_event = (if error = ''queue_lost'' then ''queue_lost'' else ''failed''), ev_status = ''failed'', ev_stage = ''failed'',
      ev_generation = generation, ev_error = Some error\<rparr>"

text \<open>
  The directory of a session's job lies under \<open>sessions/<session>/jobs\<close>; elsewhere no event is sent
  (\<open>in_session\<close>).
\<close>

definition mark_job_failed ::
  "bool \<Rightarrow> string \<Rightarrow> string \<Rightarrow> int \<Rightarrow> string option \<Rightarrow> tree \<times> JobEvent list \<Rightarrow> tree \<times> JobEvent list" where
  "mark_job_failed in_session job_id error generation detail state =
     (case state of (dest, events) \<Rightarrow>
        (update_meta (failed_meta (artifacts_ready dest) job_id error generation detail) dest,
         events @ (if in_session then [failure_event error generation] else [])))"

section \<open>Watching the child\<close>

record ChildResult =
  cr_timed_out :: bool
  cr_over_budget :: bool
  cr_rss_bytes :: int
  cr_kernel_oom :: bool
  cr_shared_cache_busy :: bool

definition clean_exit :: ChildResult where
  "clean_exit = \<lparr>cr_timed_out = False, cr_over_budget = False, cr_rss_bytes = 0, cr_kernel_oom = False, cr_shared_cache_busy = False\<rparr>"

definition SHARED_CACHE_BUSY_EXIT :: int where "SHARED_CACHE_BUSY_EXIT = 75"

definition SIGKILL :: int where "SIGKILL = 9"

definition oom_increased :: "nat option \<Rightarrow> nat option \<Rightarrow> bool" where
  "oom_increased before after =
     (case before of None \<Rightarrow> False | Some b \<Rightarrow> (case after of None \<Rightarrow> False | Some a \<Rightarrow> b < a))"

definition with_oom :: "ChildResult \<Rightarrow> nat option \<Rightarrow> nat option \<Rightarrow> int option \<Rightarrow> ChildResult" where
  "with_oom result before after exitcode =
     (if exitcode = Some SHARED_CACHE_BUSY_EXIT then clean_exit\<lparr>cr_shared_cache_busy := True\<rparr>
      else if cr_over_budget result \<or> \<not> oom_increased before after then result
      else if exitcode \<noteq> Some (- SIGKILL) then result
      else clean_exit\<lparr>cr_kernel_oom := True, cr_rss_bytes := cr_rss_bytes result\<rparr>)"

text \<open>
  What one turn of the watch loop sees: the time left (\<open>None\<close> without a deadline), whether the sentinel fired
  within the slice, \<open>is_alive\<close>, the RSS, and, once the loop ends, the exit code and the \<open>oom_kill\<close> counter.
\<close>

record WatchTick =
  wt_remaining :: "int option"
  wt_exited :: bool
  wt_alive :: bool
  wt_rss :: "int option"
  wt_exitcode :: "int option"
  wt_oom :: "nat option"

definition watch_tick :: "int option \<Rightarrow> nat option \<Rightarrow> WatchTick \<Rightarrow> ChildResult option" where
  "watch_tick budget before tick =
     (if (case wt_remaining tick of None \<Rightarrow> False | Some left \<Rightarrow> left \<le> 0) then
        Some (with_oom (clean_exit\<lparr>cr_timed_out := True\<rparr>) before (wt_oom tick) (wt_exitcode tick))
      else if wt_exited tick \<or> \<not> wt_alive tick then Some (with_oom clean_exit before (wt_oom tick) (wt_exitcode tick))
      else
        case (budget, wt_rss tick) of
          (Some cap, Some rss) \<Rightarrow>
            if rss > cap then
              (if oom_increased before (wt_oom tick) then Some (clean_exit\<lparr>cr_kernel_oom := True, cr_rss_bytes := rss\<rparr>)
               else Some (clean_exit\<lparr>cr_over_budget := True, cr_rss_bytes := rss\<rparr>))
            else None
        | _ \<Rightarrow> None)"

text \<open>\<open>None\<close> when the listed turns end and the child still runs.\<close>

fun watch_child :: "int option \<Rightarrow> nat option \<Rightarrow> WatchTick list \<Rightarrow> ChildResult option" where
  "watch_child budget before [] = None"
| "watch_child budget before (tick # ticks) =
     (case watch_tick budget before tick of Some result \<Rightarrow> Some result | None \<Rightarrow> watch_child budget before ticks)"

section \<open>One job\<close>

record Retry =
  rt_max :: nat
  rt_interval :: nat

record WorkerSettings =
  wk_busy_cap :: nat
  wk_busy_retry_sec :: nat
  wk_admission_retry_sec :: nat
  wk_in_session :: bool

text \<open>
  The session directory, the generation in \<open>.horse.json\<close>, the events sent, and of the RQ job the
  numbers the code reads and sets. \<open>ws_current\<close> is \<open>None\<close> outside a worker.
\<close>

record WorkerState =
  ws_dest :: tree
  ws_horse :: "int option"
  ws_events :: "JobEvent list"
  ws_current :: "nat option"
  ws_retries_left :: "int option"

definition write_horse_owner :: "int \<Rightarrow> WorkerState \<Rightarrow> WorkerState" where
  "write_horse_owner generation st = st\<lparr>ws_horse := Some generation\<rparr>"

definition release_horse_record :: "WorkerState \<Rightarrow> WorkerState" where
  "release_horse_record st = st\<lparr>ws_horse := None\<rparr>"

definition fail_job :: "WorkerSettings \<Rightarrow> string \<Rightarrow> string \<Rightarrow> int \<Rightarrow> string option \<Rightarrow> WorkerState \<Rightarrow> WorkerState" where
  "fail_job settings job_id error generation detail st =
     (case mark_job_failed (wk_in_session settings) job_id error generation detail (ws_dest st, ws_events st) of
        (dest, events) \<Rightarrow> st\<lparr>ws_dest := dest, ws_events := events\<rparr>)"

definition send :: "string \<Rightarrow> string \<Rightarrow> int \<Rightarrow> string option \<Rightarrow> WorkerState \<Rightarrow> WorkerState" where
  "send event status generation error st =
     st\<lparr>ws_events := ws_events st @ [\<lparr>ev_event = event, ev_status = status, ev_stage = status, ev_generation = generation, ev_error = error\<rparr>]\<rparr>"

definition retries_seen :: "WorkerState \<Rightarrow> nat" where
  "retries_seen st = (case ws_current st of None \<Rightarrow> 0 | Some n \<Rightarrow> n)"

definition requeue_shared_cache :: "WorkerSettings \<Rightarrow> string \<Rightarrow> int \<Rightarrow> WorkerState \<Rightarrow> Retry option \<times> WorkerState" where
  "requeue_shared_cache settings job_id generation st =
     (let seen = busy_seen (read_meta (ws_dest st)) in
      if seen \<ge> wk_busy_cap settings then
        (None, fail_job settings job_id ''shared_cache_busy'' generation (Some ''shared book cache stayed busy'') st)
      else
        let st = release_horse_record st;
            st = st\<lparr>ws_dest := update_meta (busy_stamp (seen + 1)) (ws_dest st)\<rparr>;
            st = send ''retry'' ''queued'' generation (Some ''shared_cache_busy'') st
        in (Some \<lparr>rt_max = retries_seen st + 1, rt_interval = max 1 (wk_busy_retry_sec settings)\<rparr>, st))"

definition no_retries_left :: "WorkerState \<Rightarrow> WorkerState" where
  "no_retries_left st = (if ws_current st = None then st else st\<lparr>ws_retries_left := Some 0\<rparr>)"

text \<open>
  The detail of \<open>over_rss_detail\<close> is a parameter: a sentence built from the two byte counts. An error in the
  document is text, as every writer stores it.
\<close>

definition finish_job ::
  "WorkerSettings \<Rightarrow> (int \<Rightarrow> string) \<Rightarrow> ChildResult \<Rightarrow> string \<Rightarrow> int \<Rightarrow> WorkerState \<Rightarrow> WorkerState" where
  "finish_job settings detail_of result job_id generation st =
     (if cr_kernel_oom result then fail_job settings job_id ''oom_killed'' generation None (no_retries_left st)
      else if cr_over_budget result then
        fail_job settings job_id ''workbook_too_large'' generation (Some (detail_of (cr_rss_bytes result))) st
      else if cr_timed_out result then fail_job settings job_id ''TimeoutError'' generation None st
      else
        let meta = read_meta (ws_dest st) in
        if (\<exists>s \<in> TERMINAL_STATUS. meta_text meta ''status'' = Some s) then st
        else fail_job settings job_id
          (case meta_text meta ''error'' of Some error \<Rightarrow> if error = [] then ''pipeline_failed'' else error | None \<Rightarrow> ''pipeline_failed'')
          generation None st)"

text \<open>
  The child is a function of the directory: its result and the directory it leaves. \<open>waiting\<close> is the
  answer of the admission check.
\<close>

definition execute_job ::
  "WorkerSettings \<Rightarrow> (int \<Rightarrow> string) \<Rightarrow> bool \<Rightarrow> (tree \<Rightarrow> ChildResult \<times> tree) \<Rightarrow> string \<Rightarrow> int \<Rightarrow> WorkerState \<Rightarrow>
   Retry option \<times> WorkerState" where
  "execute_job settings detail_of waiting child job_id generation st =
     (let st = write_horse_owner generation (send ''running'' ''running'' generation None st) in
      if waiting then
        (Some \<lparr>rt_max = retries_seen st + 1, rt_interval = max 1 (wk_admission_retry_sec settings)\<rparr>, release_horse_record st)
      else
        case child (ws_dest st) of (result, dest) \<Rightarrow>
          (let st = st\<lparr>ws_dest := dest\<rparr> in
           if cr_shared_cache_busy result then requeue_shared_cache settings job_id generation st
           else (None, finish_job settings detail_of result job_id generation st)))"

section \<open>A dead worker\<close>

text \<open>
  An \<open>os.wait4\<close> status: the low seven bits are the signal, 0 for an exit and 127 for a stop.
  \<open>None\<close> stands for a value that is no integer.
\<close>

definition sigkill_wait_status :: "int option \<Rightarrow> bool" where
  "sigkill_wait_status ret_val =
     (case ret_val of
        None \<Rightarrow> False
      | Some v \<Rightarrow> if v = 0 then False else (let sig = v mod 128 in sig \<noteq> 0 \<and> sig \<noteq> 127 \<and> sig = SIGKILL))"

record HorseMeta =
  hm_oom_before :: "nat option"
  hm_job_dir :: bool
  hm_book_id :: "string option"
  hm_generation :: "int option"

text \<open>\<open>hm_job_dir\<close>: the meta names a data directory and a session, so that the job directory is known.\<close>

definition mark_from_meta :: "WorkerSettings \<Rightarrow> HorseMeta \<Rightarrow> string \<Rightarrow> WorkerState \<Rightarrow> WorkerState" where
  "mark_from_meta settings meta error st =
     (if \<not> hm_job_dir meta then st
      else
        case (hm_book_id meta, hm_generation meta) of
          (Some book_id, Some generation) \<Rightarrow> fail_job settings book_id error generation None st
        | _ \<Rightarrow> st)"

definition on_horse_killed :: "WorkerSettings \<Rightarrow> HorseMeta \<Rightarrow> int option \<Rightarrow> nat option \<Rightarrow> WorkerState \<Rightarrow> WorkerState" where
  "on_horse_killed settings meta ret_val after st =
     (if sigkill_wait_status ret_val \<and> oom_increased (hm_oom_before meta) after then
        mark_from_meta settings meta ''oom_killed'' (st\<lparr>ws_retries_left := Some 0\<rparr>)
      else if (case ws_retries_left st of None \<Rightarrow> False | Some left \<Rightarrow> left > 0) then st
      else mark_from_meta settings meta ''process_lost'' st)"

section \<open>No job is left hanging\<close>

definition tree_settled :: "int \<Rightarrow> tree \<Rightarrow> bool" where
  "tree_settled generation dest \<longleftrightarrow>
     (\<exists>s \<in> TERMINAL_STATUS. meta_text (read_meta dest) ''status'' = Some s)
     \<or> (\<exists>g. tree_generation dest = Some g \<and> g \<noteq> generation)"

definition job_settled :: "int \<Rightarrow> WorkerState \<Rightarrow> bool" where
  "job_settled generation st \<longleftrightarrow> tree_settled generation (ws_dest st)"

lemma meta_text_set [simp]:
  "meta_text (Some (dict_set k v d)) key = (if key = k then as_text (Some v) else meta_text (Some d) key)"
  by (simp add: meta_text_def)

lemma as_text_JString [simp]: "as_text (Some (JString s)) = Some s"
  by (simp add: as_text_def)

lemma failed_meta_settled:
  "(\<exists>s \<in> TERMINAL_STATUS. meta_text (Some (failed_meta ready job_id error generation detail d)) ''status'' = Some s)
   \<or> (\<exists>g. stored_generation (failed_meta ready job_id error generation detail d) = Some g \<and> g \<noteq> generation)"
  by (auto simp: failed_meta_def Let_def TERMINAL_STATUS_def)

lemma mark_failed_settled:
  "tree_settled generation (fst (mark_job_failed in_session job_id error generation detail state))"
  using failed_meta_settled
  by (simp add: tree_settled_def mark_job_failed_def tree_generation_update_meta read_meta_update_meta split: prod.splits)

lemma fail_job_settled: "job_settled generation (fail_job settings job_id error generation detail st)"
  using mark_failed_settled by (simp add: job_settled_def fail_job_def case_prod_beta)

lemma finish_job_settled: "job_settled generation (finish_job settings detail_of result job_id generation st)"
  using fail_job_settled by (auto simp: finish_job_def Let_def job_settled_def tree_settled_def)

lemma requeue_answer:
  "case requeue_shared_cache settings job_id generation st of
     (None, st') \<Rightarrow> job_settled generation st'
   | (Some retry, st') \<Rightarrow> ws_horse st' = None \<and> retries_seen st' < rt_max retry \<and> 1 \<le> rt_interval retry"
  by (auto simp: requeue_shared_cache_def Let_def fail_job_settled send_def release_horse_record_def retries_seen_def
      split: option.splits)

text \<open>
  The failure of a dead worker is recorded under the generation in the RQ meta, when that meta names the job completely;
  otherwise the directory is left alone.
\<close>

lemma mark_from_meta_outcome:
  "if hm_job_dir meta \<and> hm_book_id meta \<noteq> None \<and> hm_generation meta \<noteq> None
   then job_settled (the (hm_generation meta)) (mark_from_meta settings meta error st)
   else mark_from_meta settings meta error st = st"
  by (auto simp: mark_from_meta_def fail_job_settled split: option.splits)

text \<open>
  C12. However a worker ends, a job that its queue entry names is not left hanging. A call that returns without a retry has left a
  terminal status or a document of another generation; a retry leaves no horse record and is one that the queue
  still grants and delays. When the worker was killed, the queue has a retry left, or the outcome depends on the meta of the RQ job, which the
  worker fills in before it starts the child: when it names the job directory, the book and a generation, the document is settled for that
  generation; when one of the three is missing (the worker died before it wrote them), the session directory stays as it was.
\<close>

theorem worker_leaves_no_job_hanging:
  "(case execute_job settings detail_of waiting child job_id generation st of
      (None, st') \<Rightarrow> job_settled generation st'
    | (Some retry, st') \<Rightarrow> ws_horse st' = None \<and> retries_seen st' < rt_max retry \<and> 1 \<le> rt_interval retry)
   \<and> (let st' = on_horse_killed settings meta ret_val after st in
      (\<exists>left > 0. ws_retries_left st' = Some left)
      \<or> (if hm_job_dir meta \<and> hm_book_id meta \<noteq> None \<and> hm_generation meta \<noteq> None
         then job_settled (the (hm_generation meta)) st' else ws_dest st' = ws_dest st))"
proof
  show "case execute_job settings detail_of waiting child job_id generation st of
      (None, st') \<Rightarrow> job_settled generation st'
    | (Some retry, st') \<Rightarrow> ws_horse st' = None \<and> retries_seen st' < rt_max retry \<and> 1 \<le> rt_interval retry"
  proof (cases waiting)
    case True
    then show ?thesis
      by (simp add: execute_job_def Let_def release_horse_record_def retries_seen_def write_horse_owner_def send_def split: option.splits)
  next
    case False
    obtain result dest where "child (ws_dest (write_horse_owner generation (send ''running'' ''running'' generation None st))) = (result, dest)"
      by (rule prod.exhaust)
    with False show ?thesis using requeue_answer finish_job_settled by (simp add: execute_job_def Let_def)
  qed
next
  have "if hm_job_dir meta \<and> hm_book_id meta \<noteq> None \<and> hm_generation meta \<noteq> None
      then job_settled (the (hm_generation meta)) (mark_from_meta settings meta error st0)
      else ws_dest (mark_from_meta settings meta error st0) = ws_dest st0" for error st0
    using mark_from_meta_outcome [of meta settings error st0] by (auto split: if_splits)
  from this [of "''oom_killed''" "st\<lparr>ws_retries_left := Some 0\<rparr>"] this [of "''process_lost''" st]
  show "let st' = on_horse_killed settings meta ret_val after st in
      (\<exists>left > 0. ws_retries_left st' = Some left)
      \<or> (if hm_job_dir meta \<and> hm_book_id meta \<noteq> None \<and> hm_generation meta \<noteq> None
         then job_settled (the (hm_generation meta)) st' else ws_dest st' = ws_dest st)"
    by (auto simp: on_horse_killed_def Let_def split: option.splits if_splits)
qed

section \<open>The busy budget\<close>

definition busy_call :: "WorkerSettings \<Rightarrow> string \<Rightarrow> int \<Rightarrow> WorkerState \<Rightarrow> Retry option \<times> WorkerState" where
  "busy_call settings job_id generation st =
     execute_job settings (\<lambda>_. []) False (\<lambda>dest. (clean_exit\<lparr>cr_shared_cache_busy := True\<rparr>, dest)) job_id generation st"

fun busy_calls :: "WorkerSettings \<Rightarrow> string \<Rightarrow> int \<Rightarrow> nat \<Rightarrow> WorkerState \<Rightarrow> Retry option list \<times> WorkerState" where
  "busy_calls settings job_id generation 0 st = ([], st)"
| "busy_calls settings job_id generation (Suc k) st =
     (case busy_call settings job_id generation st of (answer, st) \<Rightarrow>
        (case busy_calls settings job_id generation k st of (answers, st) \<Rightarrow> (answer # answers, st)))"

lemma busy_seen_stamp [simp]: "busy_seen (Some (busy_stamp n d)) = n"
proof -
  have "int_str (int n) = nat_str n" by (simp add: int_str_def)
  then show ?thesis
    using nat_str_digit by (auto simp: busy_seen_def busy_stamp_def json_of_int_def list_all_iff)
qed

lemma busy_call_state:
  "busy_call settings job_id generation st =
     requeue_shared_cache settings job_id generation
       (write_horse_owner generation (send ''running'' ''running'' generation None st))"
  by (simp add: busy_call_def execute_job_def Let_def clean_exit_def)

text \<open>
  C18. The budget for a busy shared cache is spent exactly: a queued job whose shared cache stays busy is
  given back to the queue as often as the cap still allows, and the call after that ends it with the
  failure \<open>shared_cache_busy\<close> in its document.
\<close>

theorem busy_budget_is_spent:
  assumes "read_meta (ws_dest st) = Some d" "stored_generation d = Some generation"
    and "meta_text (Some d) ''status'' = Some ''queued''" "busy_seen (Some d) + k = wk_busy_cap settings"
  shows "case busy_calls settings job_id generation (Suc k) st of (answers, st') \<Rightarrow>
    map (\<lambda>answer. answer = None) answers = replicate k False @ [True]
    \<and> meta_text (read_meta (ws_dest st')) ''status'' = Some ''failed''
    \<and> meta_text (read_meta (ws_dest st')) ''error'' = Some ''shared_cache_busy''"
  using assms
proof (induction k arbitrary: st d)
  case 0
  then show ?case
    by (simp add: busy_call_state requeue_shared_cache_def write_horse_owner_def send_def fail_job_def mark_job_failed_def
        read_meta_update_meta failed_meta_def Let_def TERMINAL_STATUS_def)
next
  case (Suc k)
  define st' where "st' = snd (busy_call settings job_id generation st)"
  have "busy_seen (Some d) < wk_busy_cap settings" using Suc.prems(4) by simp
  then have call: "fst (busy_call settings job_id generation st) \<noteq> None"
    "read_meta (ws_dest st') = Some (busy_stamp (Suc (busy_seen (Some d))) d)"
    using Suc.prems(1) unfolding st'_def
    by (simp_all add: busy_call_state requeue_shared_cache_def write_horse_owner_def send_def release_horse_record_def
        read_meta_update_meta Let_def)
  have "stored_generation (busy_stamp n d) = Some generation" "meta_text (Some (busy_stamp n d)) ''status'' = Some ''queued''" for n
    using Suc.prems(2,3) by (simp_all add: stored_generation_writes) (simp add: busy_stamp_def BUSY_RETRIES_def)
  from Suc.IH [OF call(2) this] Suc.prems(4) have "case busy_calls settings job_id generation (Suc k) st' of (answers, st') \<Rightarrow>
    map (\<lambda>answer. answer = None) answers = replicate k False @ [True]
    \<and> meta_text (read_meta (ws_dest st')) ''status'' = Some ''failed''
    \<and> meta_text (read_meta (ws_dest st')) ''error'' = Some ''shared_cache_busy''" by simp
  moreover have "busy_call settings job_id generation st = (fst (busy_call settings job_id generation st), st')"
    by (simp add: st'_def)
  ultimately show ?case
    using call(1) by (subst busy_calls.simps) (auto simp del: busy_calls.simps split: prod.splits)
qed

definition two_retries :: WorkerSettings where
  "two_retries = \<lparr>wk_busy_cap = 2, wk_busy_retry_sec = 5, wk_admission_retry_sec = 5, wk_in_session = True\<rparr>"

definition worker_on :: "tree \<Rightarrow> WorkerState" where
  "worker_on dest = \<lparr>ws_dest = dest, ws_horse = None, ws_events = [], ws_current = Some 0, ws_retries_left = Some 1\<rparr>"

theorem busy_budget_is_spent_witness:
  "case busy_calls two_retries ''j'' 4 3 (worker_on requeued_session) of (answers, st') \<Rightarrow>
    map (\<lambda>answer. answer = None) answers = [False, False, True]
    \<and> meta_text (read_meta (ws_dest st')) ''status'' = Some ''failed''
    \<and> meta_text (read_meta (ws_dest st')) ''error'' = Some ''shared_cache_busy''"
proof -
  have "map_option (\<lambda>d. (stored_generation d, meta_text (Some d) ''status'', busy_seen (Some d))) (read_meta requeued_session)
      = Some (Some 4, Some ''queued'', 0)" by code_simp
  then obtain d where "read_meta requeued_session = Some d" "stored_generation d = Some 4"
    "meta_text (Some d) ''status'' = Some ''queued''" "busy_seen (Some d) + 2 = wk_busy_cap two_retries"
    by (auto simp: two_retries_def)
  with busy_budget_is_spent [of "worker_on requeued_session" d 4 2 two_retries "''j''"] show ?thesis
    by (simp add: worker_on_def numeral_3_eq_3 numeral_2_eq_2 del: busy_calls.simps)
qed

text \<open>
  The counter outlives its run: after the budget was spent the next upload queues the job with the counter still at
  the cap, and the first busy answer fails the new run without a single retry.
\<close>

lemma spent_budget_survives_upload:
  "let dest = ws_dest (snd (busy_calls two_retries ''j'' 4 3 (worker_on requeued_session)));
       again = write_meta_file (Upload ''j'' ''book.xlsx'' ''d'' None) dest in
   meta_text (read_meta again) ''status'' = Some ''queued'' \<and> tree_generation again = Some 5
   \<and> fst (busy_call two_retries ''j'' 5 (worker_on again)) = None"
  by code_simp

text \<open>
  A worker that is killed before it filled in the RQ meta, on its last try, leaves the document at \<open>queued\<close>; it is the next
  status request that finds the job lost.
\<close>

lemma killed_before_meta_stays_queued:
  "let meta = \<lparr>hm_oom_before = None, hm_job_dir = False, hm_book_id = None, hm_generation = None\<rparr>;
       st = on_horse_killed two_retries meta (Some 9) None ((worker_on requeued_session)\<lparr>ws_retries_left := Some 0\<rparr>) in
   meta_text (read_meta (ws_dest st)) ''status'' = Some ''queued'' \<and> tree_generation (ws_dest st) = Some 4 \<and> ws_events st = []"
  by code_simp

text \<open>
  A failure is announced on the event stream even when it is not stored: the late failure of generation 3
  leaves the document of generation 4 alone and still sends the terminal event \<open>failed\<close>.
\<close>

lemma stale_failure_announced:
  "let st = fail_job two_retries ''j'' ''TimeoutError'' 3 None (worker_on requeued_session) in
   meta_text (read_meta (ws_dest st)) ''status'' = Some ''queued'' \<and> map ev_event (ws_events st) = [''failed'']"
  by code_simp


end
