(* ===== verification/Job_Routes.thy ===== *)
theory Job_Routes
  imports Queue_Worker
begin

text \<open>
  The upload and status handlers, \<open>api/routes/jobs.py\<close>. They share a job with workers in other processes: the queue,
  two file locks and the status document change while a handler runs. So a handler is a program that looks at
  the world several times, and the world is an arbitrary history of looks, one per read; what the handler does
  is a log of effects. A theorem for every history holds for every interleaving with workers and other uploads.
\<close>

section \<open>Looking at the world\<close>

text \<open>
  \<open>lk_status\<close> is \<open>None\<close> when Redis does not answer, else the status of the job id, itself \<open>None\<close> when the id is
  unknown. \<open>lk_horse_record\<close> is the generation in \<open>.horse.json\<close>, \<open>lk_horse_lock\<close> the answer of \<open>horse_lock_held\<close>.
  \<open>lk_dir_free\<close> tells whether a non-blocking attempt on \<open>dest/.lock\<close> succeeds, \<open>lk_duplicate\<close> whether the queue
  finds the id taken.
\<close>

record JobLook =
  lk_status :: "string option option"
  lk_inflight :: "nat option"
  lk_duplicate :: bool
  lk_run_lock :: bool
  lk_horse_record :: "int option"
  lk_horse_lock :: "bool option"
  lk_dir_free :: bool
  lk_dest :: tree
  lk_source :: bool
  lk_owner :: bool
  lk_exists :: bool
  lk_now :: int

datatype effect =
    SourceWritten
  | OwnerWritten
  | StopAsked
  | Deleted
  | SessionCleared string
  | MetaWritten tree
  | Enqueued int
  | Announced JobEvent

datatype api_fault = ApiError nat string | JobStillRunning | QueueUnavailable | OutOfPolls

record ApiState =
  at_clock :: nat
  at_log :: "effect list"

type_synonym 'a api = "(nat \<Rightarrow> JobLook) \<Rightarrow> ApiState \<Rightarrow> (api_fault + 'a) \<times> ApiState"

definition api_ret :: "'a \<Rightarrow> 'a api" where
  "api_ret x h st = (Inr x, st)"

definition api_raise :: "api_fault \<Rightarrow> 'a api" where
  "api_raise e h st = (Inl e, st)"

definition api_bind :: "'a api \<Rightarrow> ('a \<Rightarrow> 'b api) \<Rightarrow> 'b api" where
  "api_bind m k h st = (case m h st of (Inl e, st) \<Rightarrow> (Inl e, st) | (Inr x, st) \<Rightarrow> k x h st)"

definition api_look :: "(JobLook \<Rightarrow> 'a) \<Rightarrow> 'a api" where
  "api_look f h st = (Inr (f (h (at_clock st))), st\<lparr>at_clock := at_clock st + 1\<rparr>)"

definition api_do :: "effect \<Rightarrow> unit api" where
  "api_do e h st = (Inr (), st\<lparr>at_log := at_log st @ [e]\<rparr>)"

definition queue_status :: "string option api" where
  "queue_status = api_bind (api_look lk_status) (\<lambda>s. case s of None \<Rightarrow> api_raise QueueUnavailable | Some status \<Rightarrow> api_ret status)"

definition run_lock_busy :: "bool api" where
  "run_lock_busy = api_look lk_run_lock"

definition load_meta :: "json_dict option api" where
  "load_meta = api_look (\<lambda>l. read_meta (lk_dest l))"

definition horse_owner_alive :: "int \<Rightarrow> bool option api" where
  "horse_owner_alive generation =
     api_look (\<lambda>l. if lk_horse_record l \<noteq> Some generation then None else lk_horse_lock l)"

text \<open>A call of the queue that changes it: Redis must answer.\<close>

definition queue_call :: "effect \<Rightarrow> unit api" where
  "queue_call e = api_bind queue_status (\<lambda>_. api_do e)"

section \<open>Judging a status\<close>

definition INFLIGHT_STATUSES :: "string option set" where
  "INFLIGHT_STATUSES = {Some ''queued'', Some ''started'', Some ''deferred'', Some ''scheduled''}"

definition LOST_STATUSES :: "string option set" where
  "LOST_STATUSES = {None, Some ''failed'', Some ''canceled'', Some ''finished''}"

definition still_inflight :: "string option \<Rightarrow> bool api" where
  "still_inflight status = (if status \<in> INFLIGHT_STATUSES then api_ret True else run_lock_busy)"

definition failed_queue_lost :: "json_dict option \<Rightarrow> bool" where
  "failed_queue_lost stored \<longleftrightarrow> meta_text stored ''status'' = Some ''failed'' \<and> meta_text stored ''error'' = Some ''queue_lost''"

definition recorded_failure :: "json_dict option \<Rightarrow> bool" where
  "recorded_failure stored \<longleftrightarrow> meta_text stored ''status'' = Some ''failed'' \<and> meta_text stored ''error'' \<noteq> Some ''queue_lost''"

definition recorded_failure_clear :: "json_dict option \<Rightarrow> string option \<Rightarrow> bool api" where
  "recorded_failure_clear stored status =
     (if \<not> recorded_failure stored then api_ret False
      else api_bind run_lock_busy (\<lambda>busy.
        if busy then api_ret False
        else if status \<notin> INFLIGHT_STATUSES then api_ret True
        else api_bind (horse_owner_alive (disk_generation stored)) (\<lambda>alive. api_ret (alive = Some False))))"

definition queue_lost_corpse :: "json_dict option \<Rightarrow> string option \<Rightarrow> bool option api" where
  "queue_lost_corpse stored status =
     (if status \<notin> INFLIGHT_STATUSES \<or> \<not> failed_queue_lost stored then api_ret None
      else api_bind run_lock_busy (\<lambda>busy.
        if busy then api_ret (Some False)
        else api_bind (horse_owner_alive (disk_generation stored)) (\<lambda>alive. api_ret (map_option Not alive))))"

definition rechecked_queue_lost :: "json_dict option \<Rightarrow> string option \<Rightarrow> bool option api" where
  "rechecked_queue_lost stored status =
     api_bind (queue_lost_corpse stored status) (\<lambda>corpse.
       if corpse = None then api_ret None
       else api_bind queue_status (\<lambda>again. api_bind load_meta (\<lambda>reloaded. queue_lost_corpse reloaded again)))"

definition live_text :: "json_dict option \<Rightarrow> bool" where
  "live_text stored \<longleftrightarrow> meta_text stored ''status'' \<in> {Some ''queued'', Some ''running''}"

definition started_without_child :: "string option \<Rightarrow> json_dict option \<Rightarrow> bool api" where
  "started_without_child status stored =
     (if status \<noteq> Some ''started'' then api_ret False
      else api_bind run_lock_busy (\<lambda>busy. api_ret (\<not> busy \<and> live_text stored)))"

text \<open>\<open>except QueueUnavailable: return False\<close> around the second look.\<close>

definition status_or_down :: "string option option api" where
  "status_or_down = api_look lk_status"

definition abandoned_started :: "json_dict option \<Rightarrow> string option \<Rightarrow> bool api" where
  "abandoned_started stored status =
     api_bind (started_without_child status stored) (\<lambda>started.
       if \<not> started then api_ret False
       else api_bind (horse_owner_alive (disk_generation stored)) (\<lambda>alive.
         if alive \<noteq> Some False then api_ret False
         else api_bind status_or_down (\<lambda>answer.
           case answer of
             None \<Rightarrow> api_ret False
           | Some again \<Rightarrow>
               api_bind load_meta (\<lambda>reloaded.
               api_bind (started_without_child again reloaded) (\<lambda>started.
                 if \<not> started then api_ret False
                 else api_bind (horse_owner_alive (disk_generation reloaded)) (\<lambda>alive. api_ret (alive = Some False)))))))"

section \<open>Answers\<close>

record JobBody =
  jb_status :: json
  jb_stage :: json

definition body_text :: "string \<Rightarrow> string \<Rightarrow> JobBody" where
  "body_text status stage = \<lparr>jb_status = JString status, jb_stage = JString stage\<rparr>"

definition json_or :: "json option \<Rightarrow> string \<Rightarrow> json" where
  "json_or v dflt = (if stored_truthy v then the v else JString dflt)"

definition running_body :: "JobBody api" where
  "running_body =
     api_bind load_meta (\<lambda>meta.
       api_ret
         (case meta of
            None \<Rightarrow> body_text ''running'' ''running''
          | Some d \<Rightarrow>
              if stored_truthy (map_of d ''stage'') then
                \<lparr>jb_status = json_or (map_of d ''status'') ''running'', jb_stage = the (map_of d ''stage'')\<rparr>
              else body_text ''running'' ''running''))"

text \<open>\<open>_dedup\<close> reads the document once for its log line and once for the answer.\<close>

definition dedup :: "JobBody api" where
  "dedup = api_bind load_meta (\<lambda>stored. running_body)"

record ApiConfig =
  ac_job_id :: string
  ac_filename :: string
  ac_digest :: string
  ac_rebuild :: bool
  ac_stages :: "(string \<times> string) list"
  ac_fingerprint :: string
  ac_max_per_session :: nat
  ac_grace :: int
  ac_polls :: nat

definition ready_meta :: "ApiConfig \<Rightarrow> json_dict option api" where
  "ready_meta cfg =
     api_look (\<lambda>l.
       let meta = read_meta (lk_dest l) in
       if \<not> artifacts_ready (lk_dest l) then None
       else if meta = None \<or> map_of (the meta) ''status'' \<in> {None, Some JNull, Some (JString ''queued''), Some (JString ''running'')} then None
       else if \<not> publisher_matches (ac_fingerprint cfg) meta then None
       else meta)"

section \<open>An upload\<close>

text \<open>
  \<open>_wait_until_clear\<close> polls every 50 ms until the clock reaches the deadline; \<open>ac_polls\<close> bounds the polls of
  the model, and \<open>OutOfPolls\<close> says that the history went on without reaching the deadline.
\<close>

fun wait_loop :: "nat \<Rightarrow> int \<Rightarrow> bool api" where
  "wait_loop 0 deadline = api_raise OutOfPolls"
| "wait_loop (Suc polls) deadline =
     api_bind queue_status (\<lambda>status.
     api_bind (if status \<in> INFLIGHT_STATUSES then api_ret True else run_lock_busy) (\<lambda>busy.
       if \<not> busy then api_ret True
       else api_bind (api_look lk_now) (\<lambda>now. if now \<ge> deadline then api_ret False else wait_loop polls deadline)))"

definition wait_until_clear :: "ApiConfig \<Rightarrow> bool api" where
  "wait_until_clear cfg = api_bind (api_look lk_now) (\<lambda>now. wait_loop (ac_polls cfg) (now + ac_grace cfg))"

definition inflight_response :: "ApiConfig \<Rightarrow> JobBody option api" where
  "inflight_response cfg =
     api_bind queue_status (\<lambda>status.
     api_bind load_meta (\<lambda>stored.
     api_bind (rechecked_queue_lost stored status) (\<lambda>corpse.
       if corpse = Some True then api_ret None
       else if corpse = Some False then api_raise JobStillRunning
       else
     api_bind (abandoned_started stored status) (\<lambda>abandoned.
       if abandoned then api_ret None
       else
     api_bind (if recorded_failure stored then still_inflight status else api_ret False) (\<lambda>failing.
       if failing then
         api_bind (wait_until_clear cfg) (\<lambda>clear.
         api_bind (if clear then api_ret True else recorded_failure_clear stored status) (\<lambda>clear.
           if clear then api_ret None else api_raise JobStillRunning))
       else
     api_bind (still_inflight status) (\<lambda>inflight.
       if \<not> inflight then api_ret None
       else if ac_rebuild cfg then api_raise JobStillRunning
       else if \<not> publisher_changed (ac_fingerprint cfg) stored then api_bind dedup (\<lambda>body. api_ret (Some body))
       else
         api_bind (queue_call StopAsked) (\<lambda>_.
         api_bind (wait_until_clear cfg) (\<lambda>clear. if clear then api_ret None else api_raise JobStillRunning))))))))"

definition queue_free_slot :: "ApiConfig \<Rightarrow> unit api" where
  "queue_free_slot cfg =
     api_bind (api_look lk_inflight) (\<lambda>n.
       case n of
         None \<Rightarrow> api_raise QueueUnavailable
       | Some n \<Rightarrow> if n \<ge> ac_max_per_session cfg then api_raise (ApiError 429 ''too_many_jobs'') else api_ret ())"

definition write_upload :: "(tree \<Rightarrow> tree) \<Rightarrow> unit api" where
  "write_upload update = api_bind (api_look lk_dest) (\<lambda>dest. api_do (MetaWritten (update dest)))"

definition queued_event :: "int \<Rightarrow> JobEvent" where
  "queued_event generation =
     \<lparr>ev_event = ''queued'', ev_status = ''queued'', ev_stage = ''queued'', ev_generation = generation, ev_error = None\<rparr>"

definition enqueue_upload :: "ApiConfig \<Rightarrow> string option \<Rightarrow> json_dict option \<Rightarrow> JobBody api" where
  "enqueue_upload cfg status stored =
     api_bind (if status \<noteq> None then queue_call Deleted else api_ret ()) (\<lambda>_.
     api_bind (queue_free_slot cfg) (\<lambda>_.
     let generation = next_generation stored;
         stale = (if ac_rebuild cfg then Some ''compile'' else stale_from_meta (ac_stages cfg) (ac_fingerprint cfg) stored);
         session_clear = (case stale of Some s \<Rightarrow> s | None \<Rightarrow> ''layout'') in
     api_bind (api_do (SessionCleared session_clear)) (\<lambda>_.
     api_bind (write_upload (\<lambda>dest. record_rebuild_stage dest stale (Some (int_str generation)))) (\<lambda>_.
     api_bind (write_upload (update_meta (queued_stamp (ac_job_id cfg) (ac_filename cfg) (ac_digest cfg) generation))) (\<lambda>_.
     api_bind (api_look lk_duplicate) (\<lambda>duplicate.
       if duplicate then running_body
       else
         api_bind (queue_call (Enqueued generation)) (\<lambda>_.
         api_bind (api_do (Announced (queued_event generation))) (\<lambda>_. api_ret (body_text ''queued'' ''queued'')))))))))"

definition enqueue_or_reuse :: "ApiConfig \<Rightarrow> JobBody api" where
  "enqueue_or_reuse cfg =
     api_bind queue_status (\<lambda>status.
     api_bind load_meta (\<lambda>stored.
     api_bind (queue_lost_corpse stored status) (\<lambda>corpse.
       if corpse = Some False then api_raise JobStillRunning
       else
     api_bind run_lock_busy (\<lambda>locked.
     api_bind (if locked then api_ret True
               else if status \<notin> INFLIGHT_STATUSES then api_ret False
               else api_bind (started_without_child status stored) (\<lambda>started. api_ret (\<not> started))) (\<lambda>busy.
     api_bind (if corpse \<noteq> Some True \<and> busy
               then api_bind (recorded_failure_clear stored status) (\<lambda>clear. api_ret (\<not> clear))
               else api_ret False) (\<lambda>refused.
       if refused then
         (if ac_rebuild cfg \<or> publisher_changed (ac_fingerprint cfg) stored then api_raise JobStillRunning else dedup)
       else
     api_bind (ready_meta cfg) (\<lambda>ready.
       case (ready, ac_rebuild cfg) of
         (Some d, False) \<Rightarrow>
           api_ret \<lparr>jb_status = (case map_of d ''status'' of Some v \<Rightarrow> v | None \<Rightarrow> JNull),
                    jb_stage = (case map_of d ''stage'' of Some v \<Rightarrow> v | None \<Rightarrow> JNull)\<rparr>
       | _ \<Rightarrow> enqueue_upload cfg status stored)))))))"

definition api_catch :: "'a api \<Rightarrow> (api_fault \<Rightarrow> api_fault) \<Rightarrow> 'a api" where
  "api_catch m handler h st = (case m h st of (Inl e, st) \<Rightarrow> (Inl (handler e), st) | (Inr x, st) \<Rightarrow> (Inr x, st))"

definition upload_fault :: "api_fault \<Rightarrow> api_fault" where
  "upload_fault e =
     (case e of
        JobStillRunning \<Rightarrow> ApiError 409 ''job_still_running''
      | QueueUnavailable \<Rightarrow> ApiError 503 ''queue_unavailable''
      | _ \<Rightarrow> e)"

definition accept_upload :: "ApiConfig \<Rightarrow> JobBody api" where
  "accept_upload cfg =
     api_bind (api_look lk_source) (\<lambda>source.
     api_bind (if source then api_ret () else api_do SourceWritten) (\<lambda>_.
     api_bind (api_look lk_owner) (\<lambda>owner.
     api_bind (if owner then api_ret () else api_do OwnerWritten) (\<lambda>_.
     api_catch
       (api_bind (inflight_response cfg) (\<lambda>early.
          case early of
            Some body \<Rightarrow> api_ret body
          | None \<Rightarrow>
              api_bind (api_look lk_dir_free) (\<lambda>locked.
              api_bind (if \<not> locked then api_ret True else run_lock_busy) (\<lambda>busy.
                if busy then (if ac_rebuild cfg then api_raise JobStillRunning else dedup)
                else enqueue_or_reuse cfg))))
       upload_fault))))"

section \<open>A status request\<close>

definition queue_lost :: "json_dict \<Rightarrow> bool api" where
  "queue_lost meta =
     (if \<not> live_text (Some meta) then api_ret False
      else api_bind run_lock_busy (\<lambda>busy.
        if busy then api_ret False
        else api_bind status_or_down (\<lambda>answer.
          case answer of
            None \<Rightarrow> api_ret False
          | Some status \<Rightarrow> if status \<in> LOST_STATUSES then api_ret True else abandoned_started (Some meta) status)))"

definition lost_now :: "json_dict \<Rightarrow> bool api" where
  "lost_now meta =
     (if \<not> live_text (Some meta) then api_ret False
      else api_bind run_lock_busy (\<lambda>busy.
        if busy then api_ret False
        else api_bind status_or_down (\<lambda>answer.
          case answer of
            None \<Rightarrow> api_ret False
          | Some status \<Rightarrow>
              if status \<in> LOST_STATUSES then api_ret True
              else api_bind (started_without_child status (Some meta)) (\<lambda>started.
                if \<not> started then api_ret False
                else api_bind (horse_owner_alive (disk_generation (Some meta))) (\<lambda>alive. api_ret (alive = Some False))))))"

datatype job_answer = NotFound | Stored json_dict | LiveWithoutMeta string

definition stored_or :: "json_dict \<Rightarrow> json_dict option \<Rightarrow> job_answer" where
  "stored_or dflt meta = Stored (case meta of None \<Rightarrow> dflt | Some d \<Rightarrow> if d = [] then dflt else d)"

definition inflight_without_meta :: "job_answer api" where
  "inflight_without_meta =
     api_bind run_lock_busy (\<lambda>running.
     api_bind status_or_down (\<lambda>answer.
       let status = (case answer of None \<Rightarrow> if running then Some ''started'' else None | Some status \<Rightarrow> status) in
       api_ret
         (if \<not> running \<and> status \<notin> INFLIGHT_STATUSES then NotFound
          else LiveWithoutMeta (if running \<or> status = Some ''started'' then ''running'' else ''queued''))))"

definition mark_lost :: "string \<Rightarrow> json_dict \<Rightarrow> job_answer api" where
  "mark_lost job_id current =
     (let generation = disk_generation (Some current) in
      api_bind (write_upload (\<lambda>dest. update_meta (failed_meta (artifacts_ready dest) job_id ''queue_lost'' generation None) dest)) (\<lambda>_.
      api_bind (api_do (Announced (failure_event ''queue_lost'' generation))) (\<lambda>_.
      api_bind load_meta (\<lambda>reloaded. api_ret (Stored (case reloaded of None \<Rightarrow> current | Some d \<Rightarrow> d))))))"

definition read_job :: "string \<Rightarrow> job_answer api" where
  "read_job job_id =
     api_bind (api_look lk_exists) (\<lambda>exists.
       if \<not> exists then api_ret NotFound
       else api_bind load_meta (\<lambda>meta.
         case meta of
           None \<Rightarrow> inflight_without_meta
         | Some d \<Rightarrow>
             api_bind (queue_lost d) (\<lambda>lost.
               if \<not> lost then api_ret (Stored d)
               else api_bind (api_look lk_dir_free) (\<lambda>locked.
                 if \<not> locked then api_bind load_meta (\<lambda>again. api_ret (stored_or d again))
                 else api_bind load_meta (\<lambda>current.
                   case current of
                     None \<Rightarrow> api_ret NotFound
                   | Some c \<Rightarrow>
                       api_bind (lost_now c) (\<lambda>lost. if \<not> lost then api_ret (Stored c) else mark_lost job_id c))))))"

record JobReport =
  jr_status :: "json option"
  jr_stage :: "json option"
  jr_warnings :: json
  jr_error :: "json option"
  jr_detail :: "json option"
  jr_urls :: bool

definition PUBLIC_DETAIL :: "json option set" where
  "PUBLIC_DETAIL = {Some (JString ''workbook_too_large''), Some (JString ''shared_cache_busy'')}"

definition job_body :: "json_dict \<Rightarrow> JobReport" where
  "job_body meta =
     \<lparr>jr_status = map_of meta ''status'', jr_stage = map_of meta ''stage'',
      jr_warnings = (if stored_truthy (map_of meta ''warnings'') then the (map_of meta ''warnings'') else JArray []),
      jr_error = map_of meta ''error'',
      jr_detail = (if stored_truthy (map_of meta ''detail'') \<and> map_of meta ''error'' \<in> PUBLIC_DETAIL then map_of meta ''detail'' else None),
      jr_urls = (map_of meta ''status'' \<notin> {None, Some JNull, Some (JString ''queued''), Some (JString ''running'')})\<rparr>"


end
