(* ===== verification/Job_Laws.thy ===== *)
theory Job_Laws
  imports Job_Routes
begin

text \<open>
  Laws of the upload and status handlers of \<open>Job_Routes\<close>: what every upload has seen before it enqueues a run, and
  what it does in a world that holds still around a live or a dead worker.
\<close>

section \<open>Running a handler\<close>

lemma api_bind_look: "api_bind (api_look f) k h st = k (f (h (at_clock st))) h (st\<lparr>at_clock := at_clock st + 1\<rparr>)"
  by (simp add: api_bind_def api_look_def)

lemma api_bind_ret: "api_bind (api_ret x) k h st = k x h st"
  by (simp add: api_bind_def api_ret_def)

lemma api_bind_raise: "api_bind (api_raise e) k h st = (Inl e, st)"
  by (simp add: api_bind_def api_raise_def)

lemma api_bind_do: "api_bind (api_do a) k h st = k () h (st\<lparr>at_log := at_log st @ [a]\<rparr>)"
  by (simp add: api_bind_def api_do_def)

lemmas api_bind_steps = api_bind_look api_bind_ret api_bind_raise api_bind_do











text \<open>
  Programs that launch nothing: they add neither an \<open>Enqueued\<close> nor, when \<open>strict\<close>, a \<open>Deleted\<close> to the log, and time
  only moves on.
\<close>

definition calm :: "(nat \<Rightarrow> JobLook) \<Rightarrow> 'a api \<Rightarrow> bool" where
  "calm h m \<longleftrightarrow> (\<forall>st. at_clock st \<le> at_clock (snd (m h st)) \<and>
     (\<forall>e \<in> set (at_log (snd (m h st))). e \<in> set (at_log st) \<or> e \<in> {SourceWritten, OwnerWritten, StopAsked}))"

lemma calmD:
  assumes "calm h m" "m h st = (r, st')"
  shows "at_clock st \<le> at_clock st'"
    and "e \<in> set (at_log st') \<Longrightarrow> e \<in> set (at_log st) \<or> e \<in> {SourceWritten, OwnerWritten, StopAsked}"
  using assms unfolding calm_def by (metis snd_conv)+

lemma calm_bind:
  assumes "calm h m" "\<And>x st st'. m h st = (Inr x, st') \<Longrightarrow> calm h (k x)"
  shows "calm h (api_bind m k)"
  unfolding calm_def
proof (intro allI)
  fix st
  obtain r mid where m: "m h st = (r, mid)" by (rule prod.exhaust)
  show "at_clock st \<le> at_clock (snd (api_bind m k h st)) \<and>
     (\<forall>e \<in> set (at_log (snd (api_bind m k h st))). e \<in> set (at_log st) \<or> e \<in> {SourceWritten, OwnerWritten, StopAsked})"
  proof (cases r)
    case (Inl e)
    with m have "snd (api_bind m k h st) = mid" by (simp add: api_bind_def)
    with calmD [OF assms(1) m] show ?thesis by blast
  next
    case (Inr x)
    obtain s last where k: "k x h mid = (s, last)" by (rule prod.exhaust)
    with Inr m have "snd (api_bind m k h st) = last" by (simp add: api_bind_def)
    with calmD [OF assms(1) m] calmD [OF assms(2) k] Inr m show ?thesis by (metis order_trans)
  qed
qed

lemma calm_basic:
  "calm h (api_ret x)" "calm h (api_raise e)" "calm h (api_look f)"
  "calm h (api_do SourceWritten)" "calm h (api_do OwnerWritten)" "calm h (api_do StopAsked)"
  by (simp_all add: calm_def api_ret_def api_raise_def api_look_def api_do_def)

lemma calm_if: "calm h m \<Longrightarrow> calm h n \<Longrightarrow> calm h (if b then m else n)"
  by simp

lemma calm_option: "calm h m \<Longrightarrow> (\<And>y. calm h (n y)) \<Longrightarrow> calm h (case x of None \<Rightarrow> m | Some y \<Rightarrow> n y)"
  by (simp split: option.splits)

lemmas calm_rules = calm_bind calm_if calm_option calm_basic

lemma calm_reads:
  "calm h queue_status" "calm h run_lock_busy" "calm h load_meta" "calm h (horse_owner_alive g)" "calm h status_or_down"
  unfolding queue_status_def run_lock_busy_def load_meta_def horse_owner_alive_def status_or_down_def
  by (intro calm_rules)+

lemma calm_judgements:
  "calm h (still_inflight status)" "calm h (recorded_failure_clear stored status)" "calm h (queue_lost_corpse stored status)"
  "calm h (started_without_child status stored)" "calm h running_body"
  unfolding still_inflight_def recorded_failure_clear_def queue_lost_corpse_def started_without_child_def running_body_def
  by (intro calm_rules calm_reads)+

lemma calm_dedup: "calm h dedup"
  unfolding dedup_def by (intro calm_rules calm_reads calm_judgements)

lemma calm_rechecks: "calm h (rechecked_queue_lost stored status)" "calm h (abandoned_started stored status)"
  unfolding rechecked_queue_lost_def abandoned_started_def by (intro calm_rules calm_reads calm_judgements)+

lemma calm_wait_loop: "calm h (wait_loop polls deadline)"
  by (induction polls) (simp only: wait_loop.simps; intro calm_rules calm_reads; assumption)+

lemma calm_wait: "calm h (wait_until_clear cfg)"
  unfolding wait_until_clear_def by (intro calm_rules calm_wait_loop)

lemma calm_inflight_response: "calm h (inflight_response cfg)"
  unfolding inflight_response_def queue_call_def
  by (intro calm_rules calm_reads calm_judgements calm_dedup calm_rechecks calm_wait)

section \<open>What an upload has seen before it enqueues\<close>

text \<open>
  Backward reasoning about a handler in a fixed history: \<open>avoids h since g m post\<close> says that \<open>m\<close>, started at \<open>since\<close>
  or later, does not enqueue generation \<open>g\<close> and ends, if it returns, in \<open>post\<close>.
\<close>

definition avoids :: "(nat \<Rightarrow> JobLook) \<Rightarrow> nat \<Rightarrow> int \<Rightarrow> 'a api \<Rightarrow> ('a \<Rightarrow> bool) \<Rightarrow> bool" where
  "avoids h since g m post \<longleftrightarrow>
     (\<forall>st. since \<le> at_clock st \<and> Enqueued g \<notin> set (at_log st) \<longrightarrow>
       (case m h st of (r, st') \<Rightarrow>
          since \<le> at_clock st' \<and> Enqueued g \<notin> set (at_log st') \<and> (case r of Inl e \<Rightarrow> True | Inr x \<Rightarrow> post x)))"

lemma avoids_runD:
  assumes "avoids h since g m post" "since \<le> at_clock st" "Enqueued g \<notin> set (at_log st)" "m h st = (r, st')"
  shows "since \<le> at_clock st' \<and> Enqueued g \<notin> set (at_log st') \<and> (case r of Inl e \<Rightarrow> True | Inr x \<Rightarrow> post x)"
  using assms unfolding avoids_def by (metis (no_types, lifting) case_prod_conv)

lemma avoids_runI:
  assumes "\<And>st r st'. since \<le> at_clock st \<Longrightarrow> Enqueued g \<notin> set (at_log st) \<Longrightarrow> m h st = (r, st') \<Longrightarrow>
      since \<le> at_clock st' \<and> Enqueued g \<notin> set (at_log st') \<and> (case r of Inl e \<Rightarrow> True | Inr x \<Rightarrow> post x)"
  shows "avoids h since g m post"
  using assms unfolding avoids_def by (auto split: prod.splits)

lemma avoids_bind:
  assumes "avoids h since g m (\<lambda>x. avoids h since g (k x) post)"
  shows "avoids h since g (api_bind m k) post"
proof (rule avoids_runI)
  fix st r st'
  assume st: "since \<le> at_clock st" "Enqueued g \<notin> set (at_log st)" and run: "api_bind m k h st = (r, st')"
  obtain q mid where m: "m h st = (q, mid)" by (rule prod.exhaust)
  note mid = avoids_runD [OF assms st m]
  show "since \<le> at_clock st' \<and> Enqueued g \<notin> set (at_log st') \<and> (case r of Inl e \<Rightarrow> True | Inr x \<Rightarrow> post x)"
  proof (cases q)
    case (Inl e)
    with run m mid show ?thesis by (auto simp: api_bind_def)
  next
    case (Inr x)
    with run m have "k x h mid = (r, st')" by (simp add: api_bind_def)
    moreover from Inr mid have "avoids h since g (k x) post" by simp
    ultimately show ?thesis using avoids_runD mid by blast
  qed
qed

lemma avoids_ret: "post x \<Longrightarrow> avoids h since g (api_ret x) post"
  by (simp add: avoids_def api_ret_def)

lemma avoids_raise: "avoids h since g (api_raise e) post"
  by (simp add: avoids_def api_raise_def)

lemma avoids_look: "(\<And>d. since \<le> d \<Longrightarrow> post (f (h d))) \<Longrightarrow> avoids h since g (api_look f) post"
  by (simp add: avoids_def api_look_def)

lemma avoids_do: "a \<noteq> Enqueued g \<Longrightarrow> post () \<Longrightarrow> avoids h since g (api_do a) post"
  by (simp add: avoids_def api_do_def)

lemma avoids_if: "(b \<Longrightarrow> avoids h since g m post) \<Longrightarrow> (\<not> b \<Longrightarrow> avoids h since g n post) \<Longrightarrow> avoids h since g (if b then m else n) post"
  by simp

lemma avoids_option:
  "(x = None \<Longrightarrow> avoids h since g m post) \<Longrightarrow> (\<And>y. x = Some y \<Longrightarrow> avoids h since g (n y) post) \<Longrightarrow>
   avoids h since g (case x of None \<Rightarrow> m | Some y \<Rightarrow> n y) post"
  by (simp split: option.splits)

lemma avoids_calm: "calm h m \<Longrightarrow> (\<And>x. post x) \<Longrightarrow> avoids h since g m post"
  unfolding avoids_def by (auto split: sum.splits dest: calmD)

lemma avoidsD:
  assumes "avoids h since g m post" "since \<le> at_clock st" "m h st = (r, st')" "Enqueued g \<in> set (at_log st')"
  shows "Enqueued g \<in> set (at_log st)"
  using assms unfolding avoids_def by fastforce

lemmas avoids_rules = avoids_bind avoids_ret avoids_raise avoids_look avoids_do avoids_if avoids_option

text \<open>What a handler has seen since \<open>since\<close>.\<close>

definition saw :: "(nat \<Rightarrow> JobLook) \<Rightarrow> nat \<Rightarrow> (JobLook \<Rightarrow> bool) \<Rightarrow> bool" where
  "saw h since P \<longleftrightarrow> (\<exists>d \<ge> since. P (h d))"

lemma sawI: "since \<le> d \<Longrightarrow> P (h d) \<Longrightarrow> saw h since P"
  by (auto simp: saw_def)

definition may_launch :: "ApiConfig \<Rightarrow> (nat \<Rightarrow> JobLook) \<Rightarrow> nat \<Rightarrow> int \<Rightarrow> bool" where
  "may_launch cfg h since g \<longleftrightarrow>
     saw h since (\<lambda>l. g = next_generation (read_meta (lk_dest l)))
     \<and> saw h since (\<lambda>l. \<not> lk_run_lock l)
     \<and> saw h since (\<lambda>l. \<exists>n. lk_inflight l = Some n \<and> n < ac_max_per_session cfg)
     \<and> (saw h since (\<lambda>l. lk_status l \<in> Some ` (- INFLIGHT_STATUSES)) \<or> saw h since (\<lambda>l. lk_status l = Some (Some ''started''))
        \<or> saw h since (\<lambda>l. lk_horse_lock l = Some False))"


lemma avoids_queue_status:
  "(\<And>d s. since \<le> d \<Longrightarrow> lk_status (h d) = Some s \<Longrightarrow> post s) \<Longrightarrow> avoids h since g queue_status post"
  unfolding queue_status_def by (intro avoids_rules) simp_all

lemma avoids_load_meta: "(\<And>d. since \<le> d \<Longrightarrow> post (read_meta (lk_dest (h d)))) \<Longrightarrow> avoids h since g load_meta post"
  unfolding load_meta_def by (intro avoids_rules)

lemma avoids_run_lock:
  "post True \<Longrightarrow> (saw h since (\<lambda>l. \<not> lk_run_lock l) \<Longrightarrow> post False) \<Longrightarrow> avoids h since g run_lock_busy post"
  unfolding run_lock_busy_def by (intro avoids_rules) (metis (full_types) sawI)

lemma avoids_horse:
  "(\<And>v. (v = Some False \<Longrightarrow> saw h since (\<lambda>l. lk_horse_lock l = Some False)) \<Longrightarrow> post v) \<Longrightarrow>
   avoids h since g (horse_owner_alive gen) post"
  unfolding horse_owner_alive_def by (intro avoids_rules) (auto intro: sawI)

lemma avoids_corpse:
  assumes "\<And>v. (v = Some True \<Longrightarrow> saw h since (\<lambda>l. \<not> lk_run_lock l) \<and> saw h since (\<lambda>l. lk_horse_lock l = Some False)) \<Longrightarrow> post v"
  shows "avoids h since g (queue_lost_corpse stored status) post"
  unfolding queue_lost_corpse_def
  by (intro avoids_rules avoids_run_lock avoids_horse; rule assms; auto)

lemma avoids_started:
  assumes "\<And>v. (v \<Longrightarrow> status = Some ''started'') \<Longrightarrow> post v"
  shows "avoids h since g (started_without_child status stored) post"
  unfolding started_without_child_def
  by (intro avoids_rules avoids_run_lock; rule assms; auto)

lemma avoids_failure_clear:
  assumes "\<And>v. (v \<Longrightarrow> saw h since (\<lambda>l. \<not> lk_run_lock l) \<and>
      (status \<in> INFLIGHT_STATUSES \<longrightarrow> saw h since (\<lambda>l. lk_horse_lock l = Some False))) \<Longrightarrow> post v"
  shows "avoids h since g (recorded_failure_clear stored status) post"
  unfolding recorded_failure_clear_def
  by (intro avoids_rules avoids_run_lock avoids_horse; rule assms; auto)

lemma avoids_enqueue_upload:
  assumes "\<And>d n. since \<le> d \<Longrightarrow> lk_inflight (h d) = Some n \<Longrightarrow> n < ac_max_per_session cfg \<Longrightarrow> next_generation stored \<noteq> g"
  shows "avoids h since g (enqueue_upload cfg status stored) (\<lambda>x. True)"
  unfolding enqueue_upload_def queue_call_def queue_free_slot_def write_upload_def Let_def
  by (intro avoids_rules avoids_queue_status avoids_calm [OF calm_judgements(5)]) (auto simp: not_le dest: assms)


lemma avoids_bool:
  "(b \<Longrightarrow> avoids h since g m post) \<Longrightarrow> (\<not> b \<Longrightarrow> avoids h since g n post) \<Longrightarrow>
   avoids h since g (case b of True \<Rightarrow> m | False \<Rightarrow> n) post"
  by (cases b) simp_all

lemma avoids_pair: "avoids h since g (f x y) post \<Longrightarrow> avoids h since g (case (x, y) of (a, b) \<Rightarrow> f a b) post"
  by simp

lemma avoids_ready_meta: "(\<And>v. post v) \<Longrightarrow> avoids h since g (ready_meta cfg) post"
  unfolding ready_meta_def by (intro avoids_rules)

lemma avoids_enqueue_or_reuse:
  assumes "\<not> may_launch cfg h since g"
  shows "avoids h since g (enqueue_or_reuse cfg) (\<lambda>x. True)"
  unfolding enqueue_or_reuse_def
  by (intro avoids_rules avoids_queue_status avoids_load_meta avoids_run_lock avoids_corpse avoids_started avoids_failure_clear
     avoids_calm [OF calm_dedup] avoids_ready_meta avoids_pair avoids_bool avoids_enqueue_upload)
   (use assms in \<open>auto simp: may_launch_def saw_def split: if_splits\<close>)

text \<open>From here on the directory lock is held: everything has been seen after it was taken.\<close>

lemma locked_part_saw:
  assumes "(api_bind (api_look lk_dir_free) (\<lambda>locked.
      api_bind (if \<not> locked then api_ret True else run_lock_busy) (\<lambda>busy.
        if busy then (if ac_rebuild cfg then api_raise JobStillRunning else dedup)
        else enqueue_or_reuse cfg))) h st = (r, st')"
    and new: "Enqueued g \<in> set (at_log st')" "Enqueued g \<notin> set (at_log st)"
  shows "lk_dir_free (h (at_clock st)) \<and> may_launch cfg h (at_clock st) g"
proof -
  let ?next = "st\<lparr>at_clock := at_clock st + 1\<rparr>"
  define rest where "rest = (\<lambda>locked. api_bind (if \<not> locked then api_ret True else run_lock_busy) (\<lambda>busy.
        if busy then (if ac_rebuild cfg then api_raise JobStillRunning else dedup) else enqueue_or_reuse cfg))"
  from assms(1) have run: "rest (lk_dir_free (h (at_clock st))) h ?next = (r, st')"
    unfolding rest_def by (simp only: api_bind_steps)
  have calm_end: "calm h (if ac_rebuild cfg then api_raise JobStillRunning else dedup)"
    by (intro calm_rules calm_dedup)
  have free: "lk_dir_free (h (at_clock st))"
  proof (rule ccontr)
    assume "\<not> lk_dir_free (h (at_clock st))"
    with run have "(if ac_rebuild cfg then api_raise JobStillRunning else dedup) h ?next = (r, st')"
      by (simp add: rest_def api_bind_steps)
    with calmD(2) [OF calm_end this] new show False by auto
  qed
  have "may_launch cfg h (at_clock st) g"
  proof (rule ccontr)
    assume "\<not> may_launch cfg h (at_clock st) g"
    then have "avoids h (at_clock st) g (rest True) (\<lambda>x. True)"
      unfolding rest_def
      by (intro avoids_rules avoids_run_lock avoids_calm [OF calm_dedup] avoids_enqueue_or_reuse) simp_all
    with free run avoidsD [of h "at_clock st" g "rest True" "\<lambda>x. True" ?next r st'] new show False by simp
  qed
  with free show ?thesis by blast
qed

lemma launch_after_calm:
  assumes "calm h m" "api_bind m k h st = (r, st')" "Enqueued g \<in> set (at_log st')" "Enqueued g \<notin> set (at_log st)"
  shows "\<exists>x mid. k x h mid = (r, st') \<and> Enqueued g \<notin> set (at_log mid)"
proof -
  obtain q mid where m: "m h st = (q, mid)" by (rule prod.exhaust)
  note mid = calmD(2) [OF assms(1) m, of "Enqueued g"]
  show ?thesis
  proof (cases q)
    case (Inl e)
    with assms m mid show ?thesis by (auto simp: api_bind_def)
  next
    case (Inr x)
    with assms m mid show ?thesis by (auto simp: api_bind_def)
  qed
qed

text \<open>
  C15. Whatever the workers and other uploads do meanwhile: an upload puts a run into the queue only after it got the
  lock of the job's directory, and after that it has seen a document that the new generation follows, the run
  lock free, a free slot of the session, and a queue that does not hold the job, or holds it as started, or whose worker
  has let go of its lock.
\<close>

theorem upload_launches_only_after_looking:
  assumes "accept_upload cfg h \<lparr>at_clock = 0, at_log = []\<rparr> = (r, st)" "Enqueued g \<in> set (at_log st)"
  shows "\<exists>c. lk_dir_free (h c) \<and> may_launch cfg h c g"
proof -
  define tail where "tail = (\<lambda>early. case early of
            Some body \<Rightarrow> api_ret body
          | None \<Rightarrow>
              api_bind (api_look lk_dir_free) (\<lambda>locked.
              api_bind (if \<not> locked then api_ret True else run_lock_busy) (\<lambda>busy.
                if busy then (if ac_rebuild cfg then api_raise JobStillRunning else dedup)
                else enqueue_or_reuse cfg)))"
  define body where "body = api_bind (inflight_response cfg) tail"
  have calm_write: "calm h (if b then api_ret () else api_do SourceWritten)" "calm h (if b then api_ret () else api_do OwnerWritten)" for b
    by (intro calm_rules)+
  have "\<exists>mid. api_catch body upload_fault h mid = (r, st) \<and> Enqueued g \<notin> set (at_log mid)"
    using launch_after_calm [OF calm_basic(3) assms(1) [unfolded accept_upload_def] assms(2)]
      launch_after_calm [OF calm_write(1)] launch_after_calm [OF calm_basic(3)] launch_after_calm [OF calm_write(2)]
    unfolding body_def tail_def using assms(2) by (metis (no_types, lifting) ApiState.select_convs(2) empty_iff empty_set)
  then obtain mid where mid: "api_catch body upload_fault h mid = (r, st)" "Enqueued g \<notin> set (at_log mid)" by blast
  then obtain q where "body h mid = (q, st)" by (auto simp: api_catch_def split: prod.splits sum.splits)
  with launch_after_calm [OF calm_inflight_response, of cfg tail] mid(2) assms(2) obtain early late where
    late: "tail early h late = (q, st)" "Enqueued g \<notin> set (at_log late)" unfolding body_def by blast
  show ?thesis
  proof (cases early)
    case None
    with late locked_part_saw [of cfg h late q st g] assms(2) show ?thesis by (auto simp: tail_def)
  next
    case (Some b)
    with late assms(2) show ?thesis by (simp add: tail_def api_ret_def)
  qed
qed


section \<open>A world that holds still\<close>

text \<open>What the horse lock says about the run of the stored document.\<close>

definition horse_of :: "JobLook \<Rightarrow> bool option" where
  "horse_of l = (if lk_horse_record l \<noteq> Some (disk_generation (read_meta (lk_dest l))) then None else lk_horse_lock l)"

definition live_run :: "JobLook \<Rightarrow> bool" where
  "live_run l \<longleftrightarrow> lk_status l \<in> Some ` INFLIGHT_STATUSES \<and> (lk_run_lock l \<or> horse_of l \<noteq> Some False)"


























section \<open>Concrete worlds\<close>

definition small_config :: ApiConfig where
  "small_config =
     \<lparr>ac_job_id = ''j'', ac_filename = ''book.xlsx'', ac_digest = ''d'', ac_rebuild = False, ac_stages = [], ac_fingerprint = ''f'',
      ac_max_per_session = 4, ac_grace = 10, ac_polls = 3\<rparr>"

definition running_look :: JobLook where
  "running_look =
     \<lparr>lk_status = Some (Some ''started''), lk_inflight = Some 1, lk_duplicate = False, lk_run_lock = False,
      lk_horse_record = Some 4, lk_horse_lock = Some True, lk_dir_free = True, lk_dest = requeued_session, lk_source = True,
      lk_owner = True, lk_exists = True, lk_now = 0\<rparr>"



text \<open>
  Two uploads of one book. The second one asks the queue before the first has enqueued; by the time it holds the
  directory lock, the worker of the first has started and is still spawning its child: it holds its own lock, but
  not yet the run lock. Under the lock the worker's lock is not looked at again: the second upload deletes
  the live job and enqueues generation 5 over the running generation 4.
\<close>

definition racing_uploads :: "nat \<Rightarrow> JobLook" where
  "racing_uploads t = (if t < 4 then running_look\<lparr>lk_status := Some None, lk_dest := failed_session\<rparr> else running_look)"

lemma upload_race_replaces_live_run:
  "live_run (racing_uploads t) \<or> t < 4"
  "let events = at_log (snd (accept_upload small_config racing_uploads \<lparr>at_clock = 0, at_log = []\<rparr>)) in
   list_ex (\<lambda>e. case e of Deleted \<Rightarrow> True | _ \<Rightarrow> False) events \<and> list_ex (\<lambda>e. case e of Enqueued g \<Rightarrow> g = 5 | _ \<Rightarrow> False) events"
proof -
  have "lk_status running_look = Some (Some ''started'') \<and> horse_of running_look = Some True" by code_simp
  then show "live_run (racing_uploads t) \<or> t < 4" by (simp add: racing_uploads_def live_run_def INFLIGHT_STATUSES_def)
  show "let events = at_log (snd (accept_upload small_config racing_uploads \<lparr>at_clock = 0, at_log = []\<rparr>)) in
   list_ex (\<lambda>e. case e of Deleted \<Rightarrow> True | _ \<Rightarrow> False) events \<and> list_ex (\<lambda>e. case e of Enqueued g \<Rightarrow> g = 5 | _ \<Rightarrow> False) events"
    by code_simp
qed

theorem upload_launches_only_after_looking_witness:
  "\<exists>c. lk_dir_free (racing_uploads c) \<and> may_launch small_config racing_uploads c 5"
proof -
  obtain r st where run: "accept_upload small_config racing_uploads \<lparr>at_clock = 0, at_log = []\<rparr> = (r, st)" by (rule prod.exhaust)
  have "list_ex (\<lambda>e. case e of Enqueued g \<Rightarrow> g = 5 | _ \<Rightarrow> False)
      (at_log (snd (accept_upload small_config racing_uploads \<lparr>at_clock = 0, at_log = []\<rparr>)))" by code_simp
  then obtain e where "e \<in> set (at_log st)" "case e of Enqueued g \<Rightarrow> g = 5 | _ \<Rightarrow> False"
    by (auto simp: run list_ex_iff)
  then have "Enqueued 5 \<in> set (at_log st)" by (simp split: effect.split_asm)
  with upload_launches_only_after_looking [OF run] show ?thesis by blast
qed

end
