(* ===== verification/Pipeline_Run.thy ===== *)
theory Pipeline_Run
  imports Queue_Worker Range_Nodes
begin

text \<open>
  One run of the pipeline, \<open>app/pipeline.py\<close>: which stages run and which are reused, what is written into the status
  document and onto the event stream on the way, and how every way to end is recorded. The stages
  themselves are functions of the book or session directory, parameters of this model.
\<close>

section \<open>State\<close>

datatype fault =
    CacheBusy
  | Refused string string
  | MemoryFault string
  | Crashed string

text \<open>
  \<open>pi_dest\<close> is the session directory, \<open>pi_book\<close> the shared one. \<open>pi_checks\<close> counts the questions to the progress
  handle whether the run was cancelled; \<open>pi_calls\<close> are the stages reported to it.
\<close>

record PipeState =
  pi_dest :: tree
  pi_book :: tree
  pi_ctx :: range_ctx
  pi_open :: "string option"
  pi_events :: "JobEvent list"
  pi_checks :: nat
  pi_calls :: "string list"
  pi_ran :: "string list"
  pi_warnings :: "string list"

type_synonym step = "PipeState \<Rightarrow> fault option \<times> PipeState"

fun run_steps :: "step list \<Rightarrow> step" where
  "run_steps [] st = (None, st)"
| "run_steps (s # ss) st = (case s st of (Some e, st) \<Rightarrow> (Some e, st) | (None, st) \<Rightarrow> run_steps ss st)"

text \<open>
  A stage returns the directory it leaves, together with the fault when it raises. The build stage also returns the warnings of the
  document. \<open>sf_export\<close> is the warning of the bucket export, \<open>sf_refresh\<close> the renewed Markdown of a finished session with the reading of its
  document, \<open>sf_read\<close> the fault of reading what a kept stage left.
\<close>

record StageFunctions =
  sf_parse :: "tree \<Rightarrow> fault option \<times> tree"
  sf_compile :: "tree \<Rightarrow> fault option \<times> tree"
  sf_layout :: "tree \<Rightarrow> fault option \<times> tree"
  sf_relations :: "tree \<Rightarrow> fault option"
  sf_graph :: "tree \<Rightarrow> tree \<Rightarrow> fault option \<times> tree"
  sf_build :: "tree \<Rightarrow> tree \<Rightarrow> fault option \<times> tree \<times> string list"
  sf_render :: "tree \<Rightarrow> fault option \<times> tree"
  sf_refresh :: "tree \<Rightarrow> fault option \<times> tree"
  sf_read :: "string \<Rightarrow> tree \<Rightarrow> fault option"
  sf_export :: "tree \<Rightarrow> tree \<Rightarrow> string option"
  sf_ir_current :: "tree \<Rightarrow> bool"

record RunConfig =
  rc_job_id :: string
  rc_generation :: int
  rc_filename :: "string option"
  rc_sha256 :: "string option"
  rc_cancelled :: "nat \<Rightarrow> bool"
  rc_handle :: bool
  rc_progress :: bool
  rc_in_session :: bool
  rc_stamp :: string
  rc_stages :: "(string \<times> string) list"
  rc_live_stages :: "(string \<times> string) list"
  rc_fingerprint :: string
  rc_lock_free :: bool
  rc_expand_cap :: int
  rc_node_min :: int

section \<open>Reporting\<close>

definition raise_if_cancelled :: "RunConfig \<Rightarrow> step" where
  "raise_if_cancelled cfg st =
     (if \<not> rc_handle cfg then (None, st)
      else (if rc_cancelled cfg (pi_checks st) then Some (Refused ''job_timeout'' ''job timed out'') else None,
            st\<lparr>pi_checks := pi_checks st + 1\<rparr>))"

definition write_status :: "RunConfig \<Rightarrow> string \<Rightarrow> string \<Rightarrow> string option \<Rightarrow> string option \<Rightarrow> string list \<Rightarrow> PipeState \<Rightarrow> PipeState" where
  "write_status cfg status stage filename sha256 warnings st =
     st\<lparr>pi_dest := write_meta_file
       (StageMeta (rc_stamp cfg) (rc_stages cfg) (rc_generation cfg)
         \<lparr>am_job_id = rc_job_id cfg, am_status = status, am_stage = stage, am_source_filename = filename,
          am_content_sha256 = sha256, am_warnings = warnings, am_questions = [], am_error = None\<rparr>) (pi_dest st)\<rparr>"

definition emit_event :: "RunConfig \<Rightarrow> string \<Rightarrow> string \<Rightarrow> string \<Rightarrow> PipeState \<Rightarrow> PipeState" where
  "emit_event cfg event status stage st =
     st\<lparr>pi_events := pi_events st @ [\<lparr>ev_event = event, ev_status = status, ev_stage = stage, ev_generation = rc_generation cfg, ev_error = None\<rparr>]\<rparr>"

definition event_stage :: "string \<Rightarrow> string option" where
  "event_stage stage =
     (if stage = ''relations'' then Some ''layout''
      else if stage = ''build'' \<or> stage = ''render'' then Some ''publish''
      else if stage \<in> {''compile'', ''layout'', ''graph''} then Some stage else None)"

definition emit_stage :: "RunConfig \<Rightarrow> string \<Rightarrow> PipeState \<Rightarrow> PipeState" where
  "emit_stage cfg stage st =
     (if \<not> rc_progress cfg then st
      else if stage = ''parse'' then emit_event cfg ''running'' ''running'' ''parse'' st
      else
        case event_stage stage of
          None \<Rightarrow> st
        | Some mapped \<Rightarrow>
            if Some mapped = pi_open st then st
            else
              let st = (case pi_open st of None \<Rightarrow> st | Some open_stage \<Rightarrow> emit_event cfg ''stage_done'' ''running'' open_stage st)
              in (emit_event cfg ''stage_start'' ''running'' mapped st)\<lparr>pi_open := Some mapped\<rparr>)"

definition set_stage :: "RunConfig \<Rightarrow> string option \<Rightarrow> string option \<Rightarrow> string \<Rightarrow> step" where
  "set_stage cfg filename sha256 stage st =
     (case raise_if_cancelled cfg st of
        (Some e, st) \<Rightarrow> (Some e, st)
      | (None, st) \<Rightarrow>
          (let st = write_status cfg ''running'' stage filename sha256 [] st;
               st = (if rc_handle cfg then st\<lparr>pi_calls := pi_calls st @ [stage]\<rparr> else st)
           in (None, emit_stage cfg stage st)))"

section \<open>The stages\<close>

definition run_stage :: "string \<Rightarrow> step \<Rightarrow> step" where
  "run_stage stage body st = body (st\<lparr>pi_ran := pi_ran st @ [stage]\<rparr>)"

definition on_book :: "(tree \<Rightarrow> fault option \<times> tree) \<Rightarrow> step" where
  "on_book f st = (case f (pi_book st) of (e, book) \<Rightarrow> (e, st\<lparr>pi_book := book\<rparr>))"

definition on_dest :: "(tree \<Rightarrow> fault option \<times> tree) \<Rightarrow> step" where
  "on_dest f st = (case f (pi_dest st) of (e, dest) \<Rightarrow> (e, st\<lparr>pi_dest := dest\<rparr>))"

definition kept_or :: "(PipeState \<Rightarrow> bool) \<Rightarrow> (PipeState \<Rightarrow> fault option) \<Rightarrow> step \<Rightarrow> step" where
  "kept_or kept reading s st = (if kept st then (reading st, st) else s st)"

definition has_file :: "string \<Rightarrow> tree \<Rightarrow> bool" where
  "has_file path t \<longleftrightarrow> t path \<noteq> None"

definition build_step :: "StageFunctions \<Rightarrow> step" where
  "build_step fs st =
     (case sf_build fs (pi_book st) (pi_dest st) of (e, dest, warnings) \<Rightarrow> (e, st\<lparr>pi_dest := dest, pi_warnings := warnings\<rparr>))"

definition finish_step :: "RunConfig \<Rightarrow> StageFunctions \<Rightarrow> string option \<Rightarrow> string option \<Rightarrow> step" where
  "finish_step cfg fs filename sha256 st =
     (let st = write_status cfg ''succeeded'' ''done'' filename sha256 (pi_warnings st) st;
          st = (case sf_export fs (pi_book st) (pi_dest st) of
                  None \<Rightarrow> st
                | Some warning \<Rightarrow>
                    if warning = [] then st
                    else st\<lparr>pi_dest := write_meta_file (ExportWarning (rc_generation cfg) warning) (pi_dest st)\<rparr>);
          st = (if \<not> rc_progress cfg then st
                else
                  let st = (case pi_open st of None \<Rightarrow> st | Some open_stage \<Rightarrow> emit_event cfg ''stage_done'' ''succeeded'' open_stage st)
                  in emit_event cfg ''succeeded'' ''succeeded'' ''done'' st)
      in (None, st))"

text \<open>The name and the digest come from \<open>owner.json\<close> when the caller did not give them.\<close>

definition owner_text :: "tree \<Rightarrow> string \<Rightarrow> string option \<Rightarrow> string option" where
  "owner_text dest key given =
     (if given \<noteq> None \<and> given \<noteq> Some [] then given else meta_text (read_json_object dest ''owner.json'') key)"

definition run_loaded_steps :: "RunConfig \<Rightarrow> StageFunctions \<Rightarrow> string option \<Rightarrow> string option \<Rightarrow> step list" where
  "run_loaded_steps cfg fs filename sha256 =
     (let stage = set_stage cfg filename sha256 in
      [stage ''parse'',
       kept_or (\<lambda>st. has_file ''raw/workbook.json'' (pi_book st)) (\<lambda>st. None) (run_stage ''parse'' (on_book (sf_parse fs))),
       stage ''compile'',
       kept_or (\<lambda>st. sf_ir_current fs (pi_book st)) (\<lambda>st. sf_read fs ''compile'' (pi_book st))
         (run_stage ''compile'' (on_book (sf_compile fs))),
       stage ''layout'',
       kept_or (\<lambda>st. has_file ''layout/layout.json'' (pi_book st)) (\<lambda>st. sf_read fs ''layout'' (pi_book st))
         (run_stage ''layout'' (on_book (sf_layout fs))),
       stage ''relations'',
       run_stage ''relations'' (\<lambda>st. (sf_relations fs (pi_book st), st)),
       (\<lambda>st. (sf_read fs ''parse'' (pi_book st), st)),
       stage ''graph'',
       kept_or (\<lambda>st. has_file ''graph/graph.json'' (pi_dest st) \<and> has_file ''graph/edges.parquet'' (pi_dest st))
         (\<lambda>st. sf_read fs ''graph'' (pi_dest st))
         (run_stage ''graph'' (\<lambda>st. on_dest (sf_graph fs (pi_book st)) st)),
       stage ''build'',
       run_stage ''build'' (build_step fs),
       stage ''render'',
       run_stage ''render'' (on_dest (sf_render fs)),
       raise_if_cancelled cfg,
       finish_step cfg fs filename sha256])"

definition run_loaded :: "RunConfig \<Rightarrow> StageFunctions \<Rightarrow> step" where
  "run_loaded cfg fs st =
     run_steps (run_loaded_steps cfg fs (owner_text (pi_dest st) ''source_filename'' (rc_filename cfg))
       (owner_text (pi_dest st) ''content_sha256'' (rc_sha256 cfg))) (st\<lparr>pi_open := None\<rparr>)"

definition session_finished :: "tree \<Rightarrow> bool" where
  "session_finished dest \<longleftrightarrow> has_file ''context/context.json'' dest \<and> has_file ''context/context.md'' dest"

definition has_source :: "tree \<Rightarrow> bool" where
  "has_source book \<longleftrightarrow> has_file ''source/source.xlsx'' book \<or> has_file ''source.xls'' book"

text \<open>The limits are bound for the stages and reset in \<open>finally\<close>, in the reverse order.\<close>

definition with_limits :: "RunConfig \<Rightarrow> step \<Rightarrow> step" where
  "with_limits cfg body st =
     (case bind_range_expand_cap (rc_expand_cap cfg) (pi_ctx st) of (ctx, token) \<Rightarrow>
      (case bind_range_node_min_cells (rc_node_min cfg) ctx of (ctx, node_token) \<Rightarrow>
       (case body (st\<lparr>pi_ctx := ctx\<rparr>) of (e, st) \<Rightarrow>
          (e, st\<lparr>pi_ctx := reset_range_expand_cap token (reset_range_node_min_cells node_token (pi_ctx st))\<rparr>))))"

definition run_session :: "RunConfig \<Rightarrow> StageFunctions \<Rightarrow> step" where
  "run_session cfg fs st =
     (if session_finished (pi_dest st) then on_dest (sf_refresh fs) st
      else if \<not> has_source (pi_book st) then (Some (Refused ''empty_file'' ''source.xlsx missing''), st)
      else with_limits cfg (run_loaded cfg fs) st)"

text \<open>\<open>Pipeline.run\<close> with a shared book directory, as the queue and the command line call it.\<close>

definition pipeline_run :: "RunConfig \<Rightarrow> StageFunctions \<Rightarrow> step" where
  "pipeline_run cfg fs st =
     (if \<not> rc_lock_free cfg then (Some CacheBusy, st)
      else
        case invalidate_for_run (rc_live_stages cfg) (rc_fingerprint cfg) (pi_dest st) (pi_book st) True of
          (found, dest, book, logged) \<Rightarrow>
            (case run_session cfg fs (st\<lparr>pi_dest := dest, pi_book := book\<rparr>) of
               (Some e, st) \<Rightarrow> (Some e, st)
             | (None, st) \<Rightarrow>
                 (None, st\<lparr>pi_book := write_shared_stamp (rc_stages cfg) (rc_stamp cfg) (pi_book st)
                    (rebuilt_from found) (trusted_stages found) (adopt found)\<rparr>)))"

text \<open>The session after the stale artifacts were removed, as the run finds it.\<close>

definition found_session :: "RunConfig \<Rightarrow> PipeState \<Rightarrow> tree" where
  "found_session cfg st =
     (case invalidate_for_run (rc_live_stages cfg) (rc_fingerprint cfg) (pi_dest st) (pi_book st) True of (found, dest, book, logged) \<Rightarrow> dest)"

section \<open>The child process\<close>

definition MEMORY_ERROR_DETAIL :: string where
  "MEMORY_ERROR_DETAIL = ''This workbook ran out of memory while it was being read.''"

definition fail_run :: "RunConfig \<Rightarrow> string \<Rightarrow> string option \<Rightarrow> PipeState \<Rightarrow> PipeState" where
  "fail_run cfg error detail st =
     (case mark_job_failed (rc_in_session cfg) (rc_job_id cfg) error (rc_generation cfg) detail (pi_dest st, pi_events st) of
        (dest, events) \<Rightarrow> st\<lparr>pi_dest := dest, pi_events := events\<rparr>)"

text \<open>The exit code of \<open>run_queued_job\<close>: 0, the code of a busy cache, or 1 behind a traceback.\<close>

definition run_queued_job :: "RunConfig \<Rightarrow> StageFunctions \<Rightarrow> PipeState \<Rightarrow> int \<times> PipeState" where
  "run_queued_job cfg fs st =
     (case pipeline_run cfg fs st of
        (None, st) \<Rightarrow> (0, st)
      | (Some CacheBusy, st) \<Rightarrow> (SHARED_CACHE_BUSY_EXIT, st)
      | (Some (Refused refusal detail), st) \<Rightarrow> (0, fail_run cfg refusal (if detail = [] then None else Some detail) st)
      | (Some (MemoryFault cause), st) \<Rightarrow> (0, fail_run cfg ''workbook_too_large'' (Some MEMORY_ERROR_DETAIL) st)
      | (Some (Crashed name), st) \<Rightarrow> (1, fail_run cfg name None st))"

text \<open>
  \<open>execute_job\<close> of the command line: it waits out a busy cache. \<open>attempt\<close> is how the n-th run of the pipeline
  ends, \<open>late\<close> whether a further wait would reach the watchdog after n tries. The number of runs is returned.
\<close>

function wait_out_busy :: "(nat \<Rightarrow> fault option) \<Rightarrow> (nat \<Rightarrow> bool) \<Rightarrow> nat \<Rightarrow> nat \<Rightarrow> fault option \<times> nat" where
  "wait_out_busy attempt late retries attempts =
     (if attempt attempts \<noteq> Some CacheBusy then (attempt attempts, attempts + 1)
      else if attempts + 1 > retries \<or> late (attempts + 1) then
        (Some (Refused ''shared_cache_busy'' ''shared book cache stayed busy''), attempts + 1)
      else wait_out_busy attempt late retries (attempts + 1))"
  by pat_completeness auto
termination by (relation "measure (\<lambda>(attempt, late, retries, attempts). retries + 1 - attempts)") auto

declare wait_out_busy.simps [simp del]

text \<open>
  The watchdog: the deadline of the child, or one counted from the call, against the clock. Seconds are integers;
  the margin is two of them.
\<close>

definition busy_deadline :: "int option \<Rightarrow> int option \<Rightarrow> int \<Rightarrow> int option" where
  "busy_deadline child_deadline job_timeout now =
     (case child_deadline of
        Some deadline \<Rightarrow> Some deadline
      | None \<Rightarrow> (case job_timeout of None \<Rightarrow> None | Some t \<Rightarrow> if t \<le> 0 then None else Some (now + t)))"

definition busy_wait_exceeds :: "int option \<Rightarrow> int \<Rightarrow> int \<Rightarrow> bool" where
  "busy_wait_exceeds deadline now retry_after =
     (case deadline of None \<Rightarrow> False | Some d \<Rightarrow> d - now - 2 < retry_after)"

section \<open>The event stream\<close>



















lemma with_limits_run:
  "with_limits cfg body st = (e, st') \<Longrightarrow> \<exists>ctx c mid. body (st\<lparr>pi_ctx := ctx\<rparr>) = (e, mid) \<and> st' = mid\<lparr>pi_ctx := c\<rparr>"
  by (auto simp: with_limits_def split: prod.splits)




section \<open>How a run ends\<close>

lemma append_export_warning_text:
  "key \<noteq> ''warnings'' \<Longrightarrow> meta_text (Some (append_export_warning generation warning d)) key = meta_text (Some d) key"
  by (simp add: append_export_warning_def Let_def)

lemma settled_update_meta:
  "tree_settled generation (update_meta f dest) \<longleftrightarrow>
     (let d = f (case read_meta dest of None \<Rightarrow> [] | Some d \<Rightarrow> d) in
      (\<exists>s \<in> TERMINAL_STATUS. meta_text (Some d) ''status'' = Some s) \<or> (\<exists>g. stored_generation d = Some g \<and> g \<noteq> generation))"
  by (simp add: tree_settled_def read_meta_update_meta tree_generation_update_meta Let_def)

lemma final_status_settled: "tree_settled (rc_generation cfg) (pi_dest (write_status cfg ''succeeded'' stage filename sha256 warnings st))"
  by (auto simp: write_status_def settled_update_meta replace_meta_def meta_document_def meta_text_def as_text_def
      TERMINAL_STATUS_def Let_def split: option.splits)

lemma export_warning_settled:
  assumes "tree_settled generation dest"
  shows "tree_settled generation (update_meta (append_export_warning g warning) dest)"
proof -
  from assms obtain d where "read_meta dest = Some d"
    by (auto simp: tree_settled_def tree_generation_def meta_text_def split: option.splits)
  with assms show ?thesis
    by (simp add: settled_update_meta append_export_warning_text stored_generation_writes)
      (simp add: tree_settled_def tree_generation_def)
qed

lemma finish_step_settled: "finish_step cfg fs filename sha256 st = (e, st') \<Longrightarrow> tree_settled (rc_generation cfg) (pi_dest st')"
  using final_status_settled [of cfg "''done''" filename sha256 "pi_warnings st" st]
  by (auto simp: finish_step_def Let_def emit_event_def export_warning_settled split: option.splits if_splits)

lemma run_steps_last: "run_steps (ss @ [s]) st = (None, st') \<Longrightarrow> \<exists>mid. s mid = (None, st')"
  by (induction ss arbitrary: st) (auto split: prod.splits option.splits)

lemma run_loaded_settled:
  assumes "run_loaded cfg fs st = (None, st')"
  shows "tree_settled (rc_generation cfg) (pi_dest st')"
proof -
  from assms obtain filename sha256 st0 where "run_steps (run_loaded_steps cfg fs filename sha256) st0 = (None, st')"
    by (auto simp: run_loaded_def)
  moreover have "\<exists>ss. run_loaded_steps cfg fs filename sha256 = ss @ [finish_step cfg fs filename sha256]"
    by (simp add: run_loaded_steps_def Let_def append_eq_Cons_conv) 
  ultimately obtain mid where "finish_step cfg fs filename sha256 mid = (None, st')" using run_steps_last by fastforce
  then show ?thesis by (rule finish_step_settled)
qed

lemma run_session_settled:
  assumes "run_session cfg fs st = (None, st')" "\<not> session_finished (pi_dest st)"
  shows "tree_settled (rc_generation cfg) (pi_dest st')"
  using assms
  by (auto simp: run_session_def with_limits_def split: if_splits prod.splits dest: run_loaded_settled)

text \<open>Whatever the stages do to the document, what is left is terminal or of another generation.\<close>

lemma child_outcome_settled:
  "case run_queued_job cfg fs st of (exitcode, st') \<Rightarrow>
     exitcode = SHARED_CACHE_BUSY_EXIT \<or> tree_settled (rc_generation cfg) (pi_dest st')
     \<or> session_finished (found_session cfg st) \<and> exitcode = 0"
proof -
  have failed: "tree_settled (rc_generation cfg) (pi_dest (fail_run cfg error detail mid))" for error detail mid
    using mark_failed_settled by (simp add: fail_run_def case_prod_beta)
  obtain e mid where run: "pipeline_run cfg fs st = (e, mid)" by (rule prod.exhaust)
  show ?thesis
  proof (cases e)
    case None
    obtain found dest book logged where
      inval: "invalidate_for_run (rc_live_stages cfg) (rc_fingerprint cfg) (pi_dest st) (pi_book st) True = (found, dest, book, logged)"
      by (rule prod_cases4)
    from run None obtain st1 where "run_session cfg fs (st\<lparr>pi_dest := dest, pi_book := book\<rparr>) = (None, st1)" "pi_dest mid = pi_dest st1"
      by (auto simp: pipeline_run_def inval split: if_splits prod.splits option.splits)
    with run_session_settled [of cfg fs "st\<lparr>pi_dest := dest, pi_book := book\<rparr>" st1] inval
    have "session_finished (found_session cfg st) \<or> tree_settled (rc_generation cfg) (pi_dest mid)"
      by (simp add: found_session_def) blast
    with run None show ?thesis by (auto simp: run_queued_job_def)
  next
    case (Some x)
    with run failed show ?thesis by (cases x) (simp_all add: run_queued_job_def)
  qed
qed

section \<open>No older document\<close>

text \<open>
  The queue runs a generation after the upload stamped it into the document, so the run never meets an older one. It
  may meet none: the document of a stale session is removed before the stages start.
\<close>

definition not_older :: "int \<Rightarrow> tree \<Rightarrow> bool" where
  "not_older generation dest \<longleftrightarrow> (case tree_generation dest of None \<Rightarrow> True | Some g \<Rightarrow> generation \<le> g)"

definition document_over :: "int \<Rightarrow> tree \<Rightarrow> bool" where
  "document_over generation dest \<longleftrightarrow>
     (\<exists>s \<in> TERMINAL_STATUS. meta_text (read_meta dest) ''status'' = Some s)
     \<or> (\<exists>g > generation. tree_generation dest = Some g)"

text \<open>The stages write no status document.\<close>

definition status_kept :: "StageFunctions \<Rightarrow> bool" where
  "status_kept fs \<longleftrightarrow>
     (\<forall>book t. snd (sf_graph fs book t) META_NAME = t META_NAME \<and> fst (snd (sf_build fs book t)) META_NAME = t META_NAME)
     \<and> (\<forall>t. snd (sf_render fs t) META_NAME = t META_NAME \<and> snd (sf_refresh fs t) META_NAME = t META_NAME)"

lemma tree_generation_cong: "t META_NAME = t' META_NAME \<Longrightarrow> tree_generation t = tree_generation t'"
  by (simp add: tree_generation_def read_meta_def read_json_object_def)

lemma settled_not_older: "tree_settled generation dest \<Longrightarrow> not_older generation dest \<Longrightarrow> document_over generation dest"
  by (auto simp: tree_settled_def not_older_def document_over_def)

lemma update_meta_age:
  assumes "not_older g dest" "\<And>d h. stored_generation (f d) = Some h \<Longrightarrow> stored_generation d = Some h \<or> g \<le> h"
  shows "not_older g (update_meta f dest)"
proof (cases "tree_generation (update_meta f dest)")
  case (Some h)
  define d where "d = (case read_meta dest of None \<Rightarrow> [] | Some d \<Rightarrow> d)"
  from Some have "stored_generation (f d) = Some h" by (simp add: tree_generation_update_meta d_def)
  then have "stored_generation d = Some h \<or> g \<le> h" by (rule assms(2))
  moreover have "g \<le> h" if "stored_generation d = Some h"
    using assms(1) that
    by (simp add: d_def not_older_def tree_generation_def split: option.splits) (simp add: stored_generation_def)
  ultimately show ?thesis using Some by (auto simp: not_older_def)
qed (simp add: not_older_def)

lemma failed_meta_over:
  assumes "not_older generation dest"
  shows "document_over generation (update_meta (failed_meta ready job_id error generation detail) dest)"
proof (rule settled_not_older)
  show "tree_settled generation (update_meta (failed_meta ready job_id error generation detail) dest)"
    using failed_meta_settled by (simp add: settled_update_meta Let_def)
  show "not_older generation (update_meta (failed_meta ready job_id error generation detail) dest)"
    using assms by (rule update_meta_age) (auto simp: failed_meta_def Let_def split: if_splits)
qed

text \<open>A step that keeps the document from becoming older than the run.\<close>

definition keeps_age :: "int \<Rightarrow> step \<Rightarrow> bool" where
  "keeps_age generation s \<longleftrightarrow> (\<forall>st. not_older generation (pi_dest st) \<longrightarrow> not_older generation (pi_dest (snd (s st))))"

lemma keeps_ageI: "(\<And>st. not_older g (pi_dest st) \<Longrightarrow> not_older g (pi_dest (snd (s st)))) \<Longrightarrow> keeps_age g s"
  by (simp add: keeps_age_def)

lemma same_document_age: "(\<And>st. pi_dest (snd (s st)) META_NAME = pi_dest st META_NAME) \<Longrightarrow> keeps_age g s"
  by (rule keeps_ageI) (simp add: not_older_def tree_generation_cong [of "pi_dest (snd (s _))"])

lemma write_status_age:
  "not_older (rc_generation cfg) (pi_dest st) \<Longrightarrow>
     not_older (rc_generation cfg) (pi_dest (write_status cfg status stage filename sha256 warnings st))"
  by (auto simp: write_status_def replace_meta_def stored_generation_writes split: option.splits if_splits
      intro!: update_meta_age)

lemma emit_stage_dest [simp]: "pi_dest (emit_stage cfg stage st) = pi_dest st"
  by (simp add: emit_stage_def emit_event_def Let_def split: option.splits)

lemma set_stage_age: "keeps_age (rc_generation cfg) (set_stage cfg filename sha256 stage)"
proof (rule keeps_ageI)
  fix st :: PipeState assume age: "not_older (rc_generation cfg) (pi_dest st)"
  obtain e mid where r: "raise_if_cancelled cfg st = (e, mid)" by (rule prod.exhaust)
  then have "pi_dest mid = pi_dest st" by (auto simp: raise_if_cancelled_def split: if_splits)
  with age show "not_older (rc_generation cfg) (pi_dest (snd (set_stage cfg filename sha256 stage st)))"
    by (cases e) (simp_all add: set_stage_def r Let_def write_status_age)
qed

lemma finish_step_age: "keeps_age (rc_generation cfg) (finish_step cfg fs filename sha256)"
proof (rule keeps_ageI)
  fix st :: PipeState assume age: "not_older (rc_generation cfg) (pi_dest st)"
  have warned: "not_older g (update_meta (append_export_warning h w) dest)" if "not_older g dest" for g h w dest
    using that by (rule update_meta_age) (simp add: stored_generation_writes)
  from write_status_age [OF age] show "not_older (rc_generation cfg) (pi_dest (snd (finish_step cfg fs filename sha256 st)))"
    by (simp add: finish_step_def Let_def emit_event_def warned split: option.splits)
qed

lemma run_steps_age: "list_all (keeps_age g) ss \<Longrightarrow> not_older g (pi_dest st) \<Longrightarrow> not_older g (pi_dest (snd (run_steps ss st)))"
proof (induction ss arbitrary: st)
  case (Cons s ss)
  obtain e mid where s: "s st = (e, mid)" by (rule prod.exhaust)
  with Cons.prems have "not_older g (pi_dest mid)" by (simp add: keeps_age_def) (metis snd_conv)
  with Cons s show ?case by (cases e) simp_all
qed simp

lemma kept_or_age: "keeps_age g s \<Longrightarrow> keeps_age g (kept_or kept reading s)"
  by (simp add: keeps_age_def kept_or_def)

lemma stage_functions_age:
  assumes "status_kept fs"
  shows "keeps_age g (run_stage stage (on_book f))"
    and "keeps_age g (run_stage stage (\<lambda>st. (f' (pi_book st), st)))" "keeps_age g (\<lambda>st. (f' (pi_book st), st))"
    and "keeps_age g (run_stage stage (\<lambda>st. on_dest (sf_graph fs (pi_book st)) st))"
    and "keeps_age g (run_stage stage (on_dest (sf_render fs)))" "keeps_age g (on_dest (sf_refresh fs))"
    and "keeps_age g (run_stage stage (build_step fs))" "keeps_age g (raise_if_cancelled cfg)"
  by (rule same_document_age;
    use assms in \<open>simp add: status_kept_def run_stage_def on_book_def on_dest_def build_step_def raise_if_cancelled_def
      case_prod_beta\<close>)+

lemma run_loaded_steps_age: "status_kept fs \<Longrightarrow> list_all (keeps_age (rc_generation cfg)) (run_loaded_steps cfg fs filename sha256)"
  by (simp add: run_loaded_steps_def Let_def set_stage_age finish_step_age kept_or_age stage_functions_age)

lemma run_loaded_age: "status_kept fs \<Longrightarrow> keeps_age (rc_generation cfg) (run_loaded cfg fs)"
  unfolding run_loaded_def by (intro keeps_ageI run_steps_age run_loaded_steps_age) simp_all

lemma run_session_age:
  assumes "status_kept fs" "not_older (rc_generation cfg) (pi_dest st)"
  shows "not_older (rc_generation cfg) (pi_dest (snd (run_session cfg fs st)))"
proof -
  obtain e st' where run: "with_limits cfg (run_loaded cfg fs) st = (e, st')" by (rule prod.exhaust)
  from with_limits_run [OF this] obtain ctx c mid where "run_loaded cfg fs (st\<lparr>pi_ctx := ctx\<rparr>) = (e, mid)"
    "st' = mid\<lparr>pi_ctx := c\<rparr>" by (elim exE conjE)
  with run_loaded_age [OF assms(1), of cfg] assms(2) have "not_older (rc_generation cfg) (pi_dest st')"
    by (simp add: keeps_age_def) (metis PipeState.select_convs(1) PipeState.surjective PipeState.update_convs(3) snd_conv)
  with run stage_functions_age(6) [OF assms(1)] assms(2) show ?thesis by (simp add: run_session_def keeps_age_def)
qed

lemma found_session_age: "not_older g (pi_dest st) \<Longrightarrow> not_older g (found_session cfg st)"
  by (auto simp: found_session_def invalidate_for_run_def clear_downstream_artifacts_def Let_def not_older_def
      tree_generation_def read_meta_def read_json_object_def split: option.splits prod.splits)

lemma pipeline_run_age:
  assumes "status_kept fs" "not_older (rc_generation cfg) (pi_dest st)"
  shows "not_older (rc_generation cfg) (pi_dest (snd (pipeline_run cfg fs st)))"
proof -
  obtain found dest book logged where
    inval: "invalidate_for_run (rc_live_stages cfg) (rc_fingerprint cfg) (pi_dest st) (pi_book st) True = (found, dest, book, logged)"
    by (rule prod_cases4)
  have "not_older (rc_generation cfg) dest"
    using found_session_age [OF assms(2), of cfg] by (simp add: found_session_def inval)
  with run_session_age [OF assms(1), of cfg "st\<lparr>pi_dest := dest, pi_book := book\<rparr>"] assms(2)
  show ?thesis by (auto simp: pipeline_run_def inval split: prod.splits option.splits)
qed

text \<open>
  C16. The child process leaves an outcome behind. Provided the stages leave the status document to the pipeline and the session does
  not start with a document of an older generation than the run (uploads stamp the generation before they enqueue it): the
  child exits with the code of a busy cache, or the status document is terminal or belongs to a newer generation, whichever
  stage failed and in whatever way. The exception is a session whose context files were already there, from which
  the child returns with exit code 0.
\<close>

theorem child_outcome_recorded:
  assumes "status_kept fs" "not_older (rc_generation cfg) (pi_dest st)"
  shows "case run_queued_job cfg fs st of (exitcode, st') \<Rightarrow>
     exitcode = SHARED_CACHE_BUSY_EXIT \<or> document_over (rc_generation cfg) (pi_dest st')
     \<or> session_finished (found_session cfg st) \<and> exitcode = 0"
proof -
  obtain e mid where run: "pipeline_run cfg fs st = (e, mid)" by (rule prod.exhaust)
  with pipeline_run_age [OF assms] have age: "not_older (rc_generation cfg) (pi_dest mid)" by simp
  have failed: "document_over (rc_generation cfg) (pi_dest (fail_run cfg error detail mid))" for error detail
    using failed_meta_over [OF age] by (simp add: fail_run_def mark_job_failed_def)
  show ?thesis
  proof (cases e)
    case None
    with run age settled_not_older child_outcome_settled [where cfg = cfg and fs = fs and st = st] show ?thesis
      by (auto simp: run_queued_job_def)
  next
    case (Some x)
    with run failed show ?thesis by (cases x) (simp_all add: run_queued_job_def)
  qed
qed

lemma limits_restored: "pi_ctx (snd (with_limits cfg body st)) = pi_ctx st"
  by (simp add: with_limits_def bind_range_expand_cap_def bind_range_node_min_cells_def reset_range_expand_cap_def
      reset_range_node_min_cells_def split: prod.splits)

text \<open>
  Waiting out a busy cache ends: the pipeline is run at least once and at most once more than the allowed retries. Every run
  but the last found the cache busy with time left for another; the answer is that of the last run, or the
  refusal \<open>shared_cache_busy\<close> when that one was busy too.
\<close>

theorem wait_out_busy_is_bounded:
  "case wait_out_busy attempt late retries 0 of (result, runs) \<Rightarrow>
     1 \<le> runs \<and> runs \<le> retries + 1
     \<and> list_all (\<lambda>k. attempt k = Some CacheBusy \<and> \<not> late (k + 1)) [0..<runs - 1]
     \<and> result = (if attempt (runs - 1) = Some CacheBusy then Some (Refused ''shared_cache_busy'' ''shared book cache stayed busy'')
                 else attempt (runs - 1))"
proof -
  have "case wait_out_busy attempt late retries n of (result, runs) \<Rightarrow>
     n < runs \<and> (n \<le> retries \<longrightarrow> runs \<le> retries + 1)
     \<and> (\<forall>k \<in> {n..<runs - 1}. attempt k = Some CacheBusy \<and> \<not> late (k + 1))
     \<and> result = (if attempt (runs - 1) = Some CacheBusy then Some (Refused ''shared_cache_busy'' ''shared book cache stayed busy'')
                 else attempt (runs - 1))" for n
  proof (induction attempt late retries n rule: wait_out_busy.induct)
    case (1 attempt late retries n)
    show ?case
    proof (cases "attempt n = Some CacheBusy \<and> n + 1 \<le> retries \<and> \<not> late (n + 1)")
      case True
      obtain result runs where step: "wait_out_busy attempt late retries (n + 1) = (result, runs)" by (rule prod.exhaust)
      with True have here: "wait_out_busy attempt late retries n = (result, runs)"
        by (subst wait_out_busy.simps) simp
      have later: "n + 1 < runs \<and> (n + 1 \<le> retries \<longrightarrow> runs \<le> retries + 1)
        \<and> (\<forall>k \<in> {n + 1..<runs - 1}. attempt k = Some CacheBusy \<and> \<not> late (k + 1))
        \<and> result = (if attempt (runs - 1) = Some CacheBusy then Some (Refused ''shared_cache_busy'' ''shared book cache stayed busy'')
                 else attempt (runs - 1))"
        using 1 step True by simp
      have "attempt k = Some CacheBusy \<and> \<not> late (k + 1)" if "k \<in> {n..<runs - 1}" for k
        using that True later by (cases "k = n") simp_all
      with later True show ?thesis by (simp add: here)
    next
      case False
      then show ?thesis by (subst wait_out_busy.simps) auto
    qed
  qed
  from this [of 0] show ?thesis by (auto simp: list_all_iff)
qed


section \<open>A killed run of a finished book\<close>

text \<open>
  A worker died after the context was rendered and before the final status was written. The retry finds the session
  finished and returns without writing the status; the worker reads \<open>running\<close> and records
  the failure \<open>pipeline_failed\<close> for a book that is complete.
\<close>

definition idle_stages :: StageFunctions where
  "idle_stages =
     \<lparr>sf_parse = (\<lambda>t. (None, t)), sf_compile = (\<lambda>t. (None, t)), sf_layout = (\<lambda>t. (None, t)), sf_relations = (\<lambda>t. None),
      sf_graph = (\<lambda>book t. (None, t)), sf_build = (\<lambda>book t. (None, t, [])), sf_render = (\<lambda>t. (None, t)),
      sf_refresh = (\<lambda>t. (None, t)), sf_read = (\<lambda>stage t. None), sf_export = (\<lambda>book t. None), sf_ir_current = (\<lambda>t. True)\<rparr>"

definition first_run :: RunConfig where
  "first_run =
     \<lparr>rc_job_id = ''j'', rc_generation = 1, rc_filename = None, rc_sha256 = None, rc_cancelled = (\<lambda>n. False), rc_handle = False,
      rc_progress = True, rc_in_session = True, rc_stamp = ''p'', rc_stages = [], rc_live_stages = [], rc_fingerprint = ''p'',
      rc_lock_free = True, rc_expand_cap = 2000, rc_node_min = 64\<rparr>"

definition killed_session :: tree where
  "killed_session =
     write_meta_file (StageMeta ''p'' [] 1 \<lparr>am_job_id = ''j'', am_status = ''running'', am_stage = ''render'', am_source_filename = None,
       am_content_sha256 = None, am_warnings = [], am_questions = [], am_error = None\<rparr>)
       (Map.empty(''context/context.json'' \<mapsto> Opaque, ''context/context.md'' \<mapsto> Opaque,
        ''graph/graph.json'' \<mapsto> Opaque, ''graph/graph.md'' \<mapsto> Opaque))"

definition pipe_on :: "tree \<Rightarrow> PipeState" where
  "pipe_on dest =
     \<lparr>pi_dest = dest, pi_book = Map.empty, pi_ctx = \<lparr>bound_cap = None, bound_node_min = None\<rparr>, pi_open = None, pi_events = [],
      pi_checks = 0, pi_calls = [], pi_ran = [], pi_warnings = []\<rparr>"

lemma killed_run_reported_failed:
  "case run_queued_job first_run idle_stages (pipe_on killed_session) of (exitcode, st) \<Rightarrow>
     exitcode = 0 \<and> artifacts_ready (pi_dest st)
     \<and> (let st' = finish_job two_retries (\<lambda>_. []) clean_exit ''j'' 1 (worker_on (pi_dest st)) in
        meta_text (read_meta (ws_dest st')) ''status'' = Some ''failed''
        \<and> meta_text (read_meta (ws_dest st')) ''error'' = Some ''pipeline_failed'')"
  by code_simp

section \<open>Two generations\<close>

text \<open>A run of generation 4 whose parse stage crashes: the child exits with 1 and the document says failed.\<close>

definition fourth_run :: RunConfig where
  "fourth_run = first_run\<lparr>rc_generation := 4\<rparr>"

definition crashing_stages :: StageFunctions where
  "crashing_stages = idle_stages\<lparr>sf_parse := (\<lambda>t. (Some (Crashed ''BadZipFile''), t))\<rparr>"

definition queued_pipe :: PipeState where
  "queued_pipe = (pipe_on requeued_session)\<lparr>pi_book := [''source/source.xlsx'' \<mapsto> Opaque]\<rparr>"

theorem child_outcome_recorded_witness:
  "case run_queued_job fourth_run crashing_stages queued_pipe of (exitcode, st') \<Rightarrow>
     exitcode = 1 \<and> document_over 4 (pi_dest st')"
proof -
  have "status_kept crashing_stages" by (simp add: status_kept_def crashing_stages_def idle_stages_def)
  moreover have "not_older 4 (pi_dest queued_pipe)" by code_simp
  moreover have "fst (run_queued_job fourth_run crashing_stages queued_pipe) = 1" by code_simp
  ultimately show ?thesis
    using child_outcome_recorded [of crashing_stages fourth_run queued_pipe]
    by (auto simp: fourth_run_def SHARED_CACHE_BUSY_EXIT_def first_run_def)
qed

text \<open>
  The start of a run is the one place of the pipeline that does not look at the generation: it removes the document of a session that is
  stale for its code, whatever generation that document belongs to, and writes its own. A run of generation 3 that
  starts after the upload of generation 4 takes the stored generation down, here to report a failure of its own.
\<close>

lemma old_run_start_takes_generation_down:
  "tree_generation (pi_dest queued_pipe) = Some 4
   \<and> tree_generation (pi_dest (snd (run_queued_job (first_run\<lparr>rc_generation := 3\<rparr>) crashing_stages queued_pipe))) = Some 3"
  by code_simp

end
