(* ===== verification/Event_Stream.thy ===== *)
theory Event_Stream
  imports Queue_Worker "HOL-Library.Sublist"
begin

text \<open>
  Live progress of a job: the publisher (\<open>jobqueue/progress.py\<close>) writes events into a Redis stream, and each client of
  \<open>api/routes/events.py\<close> reads the stream of one job as server-sent events. The stream itself is outside: a
  turn of the loop is given what it held when the read was called and when it was answered. The publisher asks Redis to trim a long
  stream (\<open>xadd\<close> with \<open>maxlen\<close>) and to drop it some time after a terminal event (\<open>expire\<close>), so what a turn is given may have
  lost any number of its oldest entries.
\<close>

section \<open>Fields of an event\<close>

type_synonym fields = "(string \<times> string) list"

definition field_or :: "fields \<Rightarrow> string \<Rightarrow> string \<Rightarrow> string" where
  "field_or flds key dflt = (case map_of flds key of None \<Rightarrow> dflt | Some v \<Rightarrow> if v = [] then dflt else v)"

text \<open>The clock is the argument \<open>ts\<close>; the job is an argument, as events carry it only on the stream.\<close>

definition stream_fields :: "string \<Rightarrow> string \<Rightarrow> JobEvent \<Rightarrow> fields" where
  "stream_fields job_id ts ev =
     [(''event'', ev_event ev), (''job_id'', job_id), (''status'', ev_status ev), (''stage'', ev_stage ev),
      (''generation'', int_str (ev_generation ev)), (''ts'', ts), (''error'', case ev_error ev of None \<Rightarrow> [] | Some e \<Rightarrow> e)]"

definition text_generation :: "string option \<Rightarrow> int" where
  "text_generation v =
     (case v of
        None \<Rightarrow> 0
      | Some s \<Rightarrow> if s = [] then 0 else (case py_int_text s of Inl _ \<Rightarrow> 0 | Inr n \<Rightarrow> n))"

record Payload =
  pl_job_id :: string
  pl_status :: json
  pl_stage :: json
  pl_generation :: int
  pl_ts :: string
  pl_error :: "string option"

definition event_payload :: "string \<Rightarrow> fields \<Rightarrow> Payload" where
  "event_payload now flds =
     \<lparr>pl_job_id = field_or flds ''job_id'' [], pl_status = JString (field_or flds ''status'' []),
      pl_stage = JString (field_or flds ''stage'' []), pl_generation = text_generation (map_of flds ''generation''),
      pl_ts = field_or flds ''ts'' now,
      pl_error = (if field_or flds ''error'' [] = [] then None else Some (field_or flds ''error'' []))\<rparr>"

definition truthy_or :: "json_dict \<Rightarrow> string \<Rightarrow> string \<Rightarrow> json" where
  "truthy_or meta key dflt = (if stored_truthy (map_of meta key) then the (map_of meta key) else JString dflt)"

definition snapshot_payload :: "string \<Rightarrow> string \<Rightarrow> json_dict \<Rightarrow> Payload" where
  "snapshot_payload now job_id meta =
     \<lparr>pl_job_id = job_id, pl_status = truthy_or meta ''status'' ''queued'', pl_stage = truthy_or meta ''stage'' [],
      pl_generation = disk_generation (Some meta), pl_ts = now,
      pl_error = (case meta_text (Some meta) ''error'' of None \<Rightarrow> None | Some e \<Rightarrow> if e = [] then None else Some e)\<rparr>"

section \<open>Publishing\<close>

text \<open>
  One publisher per process. After the first failed send it is switched off; \<open>ok\<close> tells for each send whether
  Redis takes it.
\<close>

record Publisher_State =
  ps_warned :: bool
  ps_stream :: "JobEvent list"

definition publish_now :: "bool \<Rightarrow> JobEvent \<Rightarrow> Publisher_State \<Rightarrow> Publisher_State" where
  "publish_now ok ev ps =
     (if ps_warned ps then ps
      else if ok then ps\<lparr>ps_stream := ps_stream ps @ [ev]\<rparr>
      else ps\<lparr>ps_warned := True\<rparr>)"

fun publish_all :: "(bool \<times> JobEvent) list \<Rightarrow> Publisher_State \<Rightarrow> Publisher_State" where
  "publish_all [] ps = ps"
| "publish_all ((ok, ev) # sends) ps = publish_all sends (publish_now ok ev ps)"

section \<open>Reading\<close>

text \<open>Stream ids are \<open>ms-seq\<close>, ordered by both numbers; \<open>$\<close> stands for the end of the stream at the call.\<close>

type_synonym entry_id = "nat \<times> nat"

datatype LastId = Latest | After entry_id

definition stream_id :: "string \<Rightarrow> entry_id option" where
  "stream_id s =
     (let ms = takeWhile re_digit s; rest = dropWhile re_digit s in
      if ms = [] \<or> take 1 rest \<noteq> ''-'' \<or> drop 1 rest = [] \<or> \<not> list_all re_digit (drop 1 rest) then None
      else Some (int_of_digits ms, int_of_digits (drop 1 rest)))"

definition last_event_id :: "string \<Rightarrow> LastId" where
  "last_event_id header = (case stream_id (py_strip header) of None \<Rightarrow> Latest | Some i \<Rightarrow> After i)"

record StreamEntry =
  en_id :: entry_id
  en_fields :: fields

fun id_after :: "entry_id \<Rightarrow> entry_id \<Rightarrow> bool" where
  "id_after (a, b) (c, d) \<longleftrightarrow> a < c \<or> a = c \<and> b < d"

record StreamTurn =
  tn_disconnected :: bool
  tn_down :: bool
  tn_called :: "StreamEntry list"
  tn_replied :: "StreamEntry list"
  tn_now :: string

definition entries_after :: "entry_id \<Rightarrow> StreamEntry list \<Rightarrow> StreamEntry list" where
  "entries_after i s = filter (\<lambda>e. id_after i (en_id e)) s"

definition READ_COUNT :: nat where "READ_COUNT = 50"

text \<open>\<open>XREAD\<close>: entries that are there are given at once, else the call waits for new ones until it times out.\<close>

definition read_events :: "LastId \<Rightarrow> StreamTurn \<Rightarrow> StreamEntry list" where
  "read_events last_id t =
     (if tn_down t then []
      else
        take READ_COUNT
          (case last_id of
             After i \<Rightarrow> if entries_after i (tn_called t) \<noteq> [] then entries_after i (tn_called t) else entries_after i (tn_replied t)
           | Latest \<Rightarrow> if tn_called t = [] then tn_replied t else entries_after (en_id (last (tn_called t))) (tn_replied t)))"

section \<open>The client loop\<close>

datatype Frame = Snapshot Payload | EventFrame string Payload entry_id | Heartbeat

datatype stream_end = Finished | Disconnected | Streaming LastId

definition TERMINAL_EVENTS :: "string set" where
  "TERMINAL_EVENTS = {''succeeded'', ''failed'', ''queue_lost''}"

definition event_name :: "fields \<Rightarrow> string" where
  "event_name flds = field_or flds ''event'' ''message''"

definition terminal_entry :: "fields \<Rightarrow> bool" where
  "terminal_entry flds \<longleftrightarrow>
     event_name flds \<in> TERMINAL_EVENTS \<or> (\<exists>s \<in> TERMINAL_STATUS. map_of flds ''status'' = Some s)"

definition entry_frame :: "string \<Rightarrow> StreamEntry \<Rightarrow> Frame" where
  "entry_frame now e = EventFrame (event_name (en_fields e)) (event_payload now (en_fields e)) (en_id e)"

fun send_rows :: "string \<Rightarrow> LastId \<Rightarrow> StreamEntry list \<Rightarrow> Frame list \<times> LastId \<times> bool" where
  "send_rows now last_id [] = ([], last_id, False)"
| "send_rows now last_id (e # es) =
     (if terminal_entry (en_fields e) then ([entry_frame now e], After (en_id e), True)
      else case send_rows now (After (en_id e)) es of (frames, last_id, ended) \<Rightarrow> (entry_frame now e # frames, last_id, ended))"

fun stream_loop :: "LastId \<Rightarrow> StreamTurn list \<Rightarrow> Frame list \<times> stream_end" where
  "stream_loop last_id [] = ([], Streaming last_id)"
| "stream_loop last_id (t # ts) =
     (if tn_disconnected t then ([], Disconnected)
      else if read_events last_id t = [] then (case stream_loop last_id ts of (frames, e) \<Rightarrow> (Heartbeat # frames, e))
      else
        case send_rows (tn_now t) last_id (read_events last_id t) of
          (sent, last_id, ended) \<Rightarrow>
            (if ended then (sent, Finished)
             else case stream_loop last_id ts of (frames, e) \<Rightarrow> (sent @ frames, e)))"

definition job_stream :: "string \<Rightarrow> string \<Rightarrow> json_dict \<Rightarrow> LastId \<Rightarrow> StreamTurn list \<Rightarrow> Frame list \<times> stream_end" where
  "job_stream now job_id meta last_id turns =
     (let p = snapshot_payload now job_id meta in
      if \<exists>s \<in> TERMINAL_STATUS. pl_status p = JString s then ([Snapshot p], Finished)
      else case stream_loop last_id turns of (frames, e) \<Rightarrow> (Snapshot p # frames, e))"

section \<open>What a client sees\<close>

fun upto_terminal :: "StreamEntry list \<Rightarrow> StreamEntry list" where
  "upto_terminal [] = []"
| "upto_terminal (e # es) = e # (if terminal_entry (en_fields e) then [] else upto_terminal es)"

definition ascending :: "StreamEntry list \<Rightarrow> bool" where
  "ascending s \<longleftrightarrow> sorted_wrt (\<lambda>a b. id_after (en_id a) (en_id b)) s"

text \<open>
  All the entries that are ever added are the history \<open>h\<close>, in the order of their ids. Whenever one looks, the stream is a window of it: the
  oldest \<open>d\<close> of the first \<open>n\<close> entries are gone, by trimming or because the key expired. Both numbers only
  grow, from the look of the call to the one of the answer and from turn to turn.
\<close>

inductive stream_world :: "StreamEntry list \<Rightarrow> nat \<Rightarrow> nat \<Rightarrow> StreamTurn list \<Rightarrow> bool" for h where
  world_end: "stream_world h d n []"
| world_turn: "d \<le> d1 \<Longrightarrow> d1 \<le> d2 \<Longrightarrow> n \<le> n1 \<Longrightarrow> n1 \<le> n2 \<Longrightarrow>
    tn_called t = drop d1 (take n1 h) \<Longrightarrow> tn_replied t = drop d2 (take n2 h) \<Longrightarrow> stream_world h d2 n2 ts \<Longrightarrow>
    stream_world h d n (t # ts)"

fun final_stream :: "StreamEntry list \<Rightarrow> StreamTurn list \<Rightarrow> StreamEntry list" where
  "final_stream s [] = s"
| "final_stream s (t # ts) = final_stream (tn_replied t) ts"

fun sent_ids :: "Frame list \<Rightarrow> entry_id list" where
  "sent_ids [] = []"
| "sent_ids (EventFrame _ _ i # fs) = i # sent_ids fs"
| "sent_ids (_ # fs) = sent_ids fs"

lemma id_after_trans: "id_after a b \<Longrightarrow> id_after b c \<Longrightarrow> id_after a c"
  by (cases a; cases b; cases c) auto

lemma id_after_irrefl: "\<not> id_after a a"
  by (cases a) simp

lemma id_after_asym: "id_after a b \<Longrightarrow> \<not> id_after b a"
  using id_after_trans id_after_irrefl by blast

lemma id_after_total: "a = b \<or> id_after a b \<or> id_after b a"
  by (cases a; cases b) auto

lemma entries_after_set [simp]: "e \<in> set (entries_after i s) \<longleftrightarrow> e \<in> set s \<and> id_after i (en_id e)"
  by (auto simp: entries_after_def)

lemma ascending_append: "ascending (xs @ ys) \<longleftrightarrow>
    ascending xs \<and> ascending ys \<and> (\<forall>x \<in> set xs. \<forall>y \<in> set ys. id_after (en_id x) (en_id y))"
  by (simp add: ascending_def sorted_wrt_append)

lemma ascending_same: "ascending h \<Longrightarrow> x \<in> set h \<Longrightarrow> y \<in> set h \<Longrightarrow> en_id x = en_id y \<Longrightarrow> x = y"
  by (metis ascending_def id_after_irrefl in_set_conv_nth linorder_neqE_nat sorted_wrt_nth_less)

lemma sent_ids_append: "sent_ids (fs @ gs) = sent_ids fs @ sent_ids gs"
  by (induction fs rule: sent_ids.induct) auto

lemma send_rows_upto:
  "send_rows now l rows = (sent, l', ended) \<Longrightarrow>
     sent_ids sent = map en_id (upto_terminal rows)
     \<and> (ended \<longleftrightarrow> (\<exists>e \<in> set rows. terminal_entry (en_fields e)))
     \<and> (\<not> ended \<and> rows \<noteq> [] \<longrightarrow> l' = After (en_id (last rows)))"
  by (induction now l rows arbitrary: sent l' ended rule: send_rows.induct)
    (auto simp: entry_frame_def split: if_splits prod.splits)

section \<open>Windows of the history\<close>

lemma window_nth: "x \<in> set (drop d (take n h)) \<longleftrightarrow> (\<exists>k < length h. d \<le> k \<and> k < n \<and> x = h ! k)"
proof
  assume "x \<in> set (drop d (take n h))"
  then obtain k where "k < length (drop d (take n h))" "x = drop d (take n h) ! k" by (metis in_set_conv_nth)
  moreover from this(1) have "d \<le> length (take n h)" unfolding length_drop by linarith
  then have "drop d (take n h) ! k = take n h ! (d + k)" by (rule nth_drop)
  with calculation(1) have "drop d (take n h) ! k = h ! (d + k)" by simp
  ultimately show "\<exists>k < length h. d \<le> k \<and> k < n \<and> x = h ! k" by (intro exI [of _ "d + k"]) auto
next
  assume "\<exists>k < length h. d \<le> k \<and> k < n \<and> x = h ! k"
  then obtain k where k: "k < length h" "d \<le> k" "k < n" "x = h ! k" by blast
  then have "drop d (take n h) ! (k - d) = x" "k - d < length (drop d (take n h))" by simp_all
  then show "x \<in> set (drop d (take n h))" by (metis nth_mem)
qed

lemma window_set: "x \<in> set (drop d (take n h)) \<Longrightarrow> x \<in> set h"
  by (auto simp: window_nth)

lemma window_ascending: "ascending h \<Longrightarrow> ascending (drop d (take n h))"
  unfolding ascending_def by (intro sorted_wrt_drop sorted_wrt_take)

lemma history_index:
  assumes "ascending h" "k < length h" "m < length h"
  shows "h ! k = h ! m \<longleftrightarrow> k = m" "id_after (en_id (h ! k)) (en_id (h ! m)) \<longleftrightarrow> k < m"
proof -
  have less: "id_after (en_id (h ! a)) (en_id (h ! b))" if "a < b" "b < length h" for a b
    using sorted_wrt_nth_less [OF assms(1) [unfolded ascending_def] that] .
  show "h ! k = h ! m \<longleftrightarrow> k = m" using less [of k m] less [of m k] assms id_after_irrefl by (metis linorder_neqE_nat)
  show "id_after (en_id (h ! k)) (en_id (h ! m)) \<longleftrightarrow> k < m"
    using less [of k m] less [of m k] assms id_after_irrefl id_after_asym by (metis linorder_neqE_nat)
qed

text \<open>What a later window still holds was not lost before; an entry that a window has lost is in no later one.\<close>

lemma window_between:
  assumes "ascending h" "x \<in> set (drop d (take n h))" "x \<in> set (drop d' (take n' h))" "d1 \<le> d'" "n \<le> n1"
  shows "x \<in> set (drop d1 (take n1 h))"
proof -
  from assms(2,3) obtain k m where "k < length h" "k < n" "x = h ! k" "m < length h" "d' \<le> m" "x = h ! m"
    by (auto simp: window_nth)
  with history_index(1) [OF assms(1)] assms(4,5) show ?thesis unfolding window_nth by (intro exI [of _ k]) auto
qed

lemma window_gone:
  assumes "ascending h" "x \<in> set h" "x \<notin> set (drop d (take n h))" "y \<in> set (drop d (take n h))"
    and "id_after (en_id x) (en_id y)" "d \<le> d'"
  shows "x \<notin> set (drop d' (take n' h))"
proof
  assume "x \<in> set (drop d' (take n' h))"
  then obtain k where k: "k < length h" "d' \<le> k" "x = h ! k" by (auto simp: window_nth)
  from assms(4) obtain m where m: "m < length h" "d \<le> m" "m < n" "y = h ! m" by (auto simp: window_nth)
  from assms(1,5) k m have "k < m" by (simp add: history_index)
  with k m assms(6) have "x \<in> set (drop d (take n h))" unfolding window_nth by (intro exI [of _ k]) auto
  with assms(3) show False by simp
qed

lemma final_window:
  "stream_world h d n turns \<Longrightarrow>
     \<exists>d' n'. d \<le> d' \<and> n \<le> n' \<and> final_stream (drop d (take n h)) turns = drop d' (take n' h)"
proof (induction rule: stream_world.induct)
  case (world_turn d d1 d2 n n1 n2 t ts)
  then obtain d' n' where "d2 \<le> d'" "n2 \<le> n'" "final_stream (drop d2 (take n2 h)) ts = drop d' (take n' h)" by blast
  with world_turn.hyps show ?case by (intro exI [of _ d'] exI [of _ n']) simp
qed auto

section \<open>What one turn sends\<close>

lemma upto_terminal_split: "\<exists>rest. xs = upto_terminal xs @ rest \<and>
    (\<forall>x \<in> set (butlast (upto_terminal xs)). \<not> terminal_entry (en_fields x))"
  by (induction xs) auto

lemma upto_terminal_quiet: "\<forall>e \<in> set xs. \<not> terminal_entry (en_fields e) \<Longrightarrow> upto_terminal xs = xs"
  by (induction xs) auto

lemma upto_terminal_end:
  "\<exists>e \<in> set xs. terminal_entry (en_fields e) \<Longrightarrow> upto_terminal xs \<noteq> [] \<and> terminal_entry (en_fields (last (upto_terminal xs)))"
  by (induction xs) auto

text \<open>The rows of a turn are the first entries after the id in one window, and an entry after the id that is missing there is lost.\<close>

definition passes_only_lost :: "entry_id \<Rightarrow> StreamEntry list \<Rightarrow> StreamEntry list \<Rightarrow> bool" where
  "passes_only_lost i sent left \<longleftrightarrow>
     (\<forall>x \<in> set (entries_after i left). x \<notin> set sent \<longrightarrow> (\<forall>y \<in> set sent. id_after (en_id y) (en_id x)))"

lemma first_rows_pass_lost:
  assumes asc: "ascending h" and rows: "entries_after i (drop d (take n h)) = rows @ rest" and "d \<le> d'"
  shows "passes_only_lost i rows (drop d' (take n' h))"
  unfolding passes_only_lost_def
proof (intro ballI impI)
  fix x y
  assume x: "x \<in> set (entries_after i (drop d' (take n' h)))" "x \<notin> set rows" and y: "y \<in> set rows"
  have sorted: "ascending (rows @ rest)"
    using rows window_ascending [OF asc, of d n] unfolding ascending_def entries_after_def by (metis sorted_wrt_filter)
  have "y \<in> set (entries_after i (drop d (take n h)))" using rows y by simp
  then have window: "y \<in> set (drop d (take n h))" by simp
  have h: "x \<in> set h" "y \<in> set h" using x window window_set by fastforce+
  have "\<not> id_after (en_id x) (en_id y)"
  proof
    assume before: "id_after (en_id x) (en_id y)"
    with window_gone [OF asc h(1) _ window before \<open>d \<le> d'\<close>] x have "x \<in> set (drop d (take n h))" by auto
    with x rows have "x \<in> set rest" by (metis Un_iff entries_after_set set_append)
    with sorted y have "id_after (en_id y) (en_id x)" by (simp add: ascending_append)
    with before show False using id_after_asym by blast
  qed
  moreover have "en_id x \<noteq> en_id y" using ascending_same [OF asc h] x(2) y by auto
  ultimately show "id_after (en_id y) (en_id x)" using id_after_total by metis
qed

lemma read_window:
  assumes "tn_called t = drop d1 (take n1 h)" "tn_replied t = drop d2 (take n2 h)" "d1 \<le> d2"
  shows "\<exists>d n rest. d \<le> d2 \<and> entries_after i (drop d (take n h)) = read_events (After i) t @ rest"
proof -
  have "\<exists>d n. d \<le> d2 \<and> (\<exists>k. read_events (After i) t = take k (entries_after i (drop d (take n h))))"
  proof (cases "entries_after i (tn_called t) = []")
    case True
    then have "\<exists>k. read_events (After i) t = take k (entries_after i (drop d2 (take n2 h)))"
      unfolding read_events_def using assms(2) by (cases "tn_down t") (auto intro: exI [of _ 0] exI [of _ READ_COUNT])
    then show ?thesis by blast
  next
    case False
    then have "\<exists>k. read_events (After i) t = take k (entries_after i (drop d1 (take n1 h)))"
      unfolding read_events_def using assms(1) by (cases "tn_down t") (auto intro: exI [of _ 0] exI [of _ READ_COUNT])
    with assms(3) show ?thesis by blast
  qed
  then show ?thesis by (metis append_take_drop_id)
qed

section \<open>What a client is sent\<close>

text \<open>
  \<open>sees\<close>: the entries sent are entries of the history after the id, in its order and each once, none but the last one terminal; the stream is
  closed on a terminal one. An entry that was passed over is no longer in the stream at the end. While the client is
  connected and Redis answers, every turn sends an entry, or all that were there from the start are sent or lost.
\<close>

definition sees :: "StreamEntry list \<Rightarrow> entry_id \<Rightarrow> StreamEntry list \<Rightarrow> StreamTurn list \<Rightarrow> StreamEntry list \<Rightarrow> stream_end \<Rightarrow> bool" where
  "sees h i s turns sent e \<longleftrightarrow>
     (let left = final_stream s turns in
      ascending sent \<and> set sent \<subseteq> set (entries_after i h)
      \<and> (\<forall>x \<in> set (butlast sent). \<not> terminal_entry (en_fields x))
      \<and> (e = Finished \<longleftrightarrow> sent \<noteq> [] \<and> terminal_entry (en_fields (last sent)))
      \<and> passes_only_lost i sent left
      \<and> (list_all (\<lambda>t. \<not> tn_disconnected t \<and> \<not> tn_down t) turns \<and> e \<noteq> Finished \<and> length sent < length turns \<longrightarrow>
           set (entries_after i s) \<inter> set left \<subseteq> set sent))"

lemma idle_turn:
  "read_events (After i) t = [] \<Longrightarrow> \<not> tn_down t \<Longrightarrow> entries_after i (tn_called t) = []"
  by (auto simp: read_events_def READ_COUNT_def split: if_splits)

lemma terminal_split: "sent \<noteq> [] \<Longrightarrow> butlast (rows @ sent) = rows @ butlast sent \<and> last (rows @ sent) = last sent"
  by (simp add: butlast_append)

lemma passes_only_lost_append:
  assumes asc: "ascending h" and left: "set left \<subseteq> set h" and rows: "rows \<noteq> []" "set rows \<subseteq> set (entries_after i h)" "ascending rows"
    and "passes_only_lost i rows left" "passes_only_lost (en_id (last rows)) sent left"
  shows "passes_only_lost i (rows @ sent) left"
  unfolding passes_only_lost_def
proof (intro ballI impI)
  fix x y assume x: "x \<in> set (entries_after i left)" "x \<notin> set (rows @ sent)" and y: "y \<in> set (rows @ sent)"
  with assms(6) rows(1) have "\<forall>y \<in> set rows. id_after (en_id y) (en_id x)" by (simp add: passes_only_lost_def)
  moreover from this have "x \<in> set (entries_after (en_id (last rows)) left)" using x rows(1) by simp
  with assms(7) x have "\<forall>y \<in> set sent. id_after (en_id y) (en_id x)" by (simp add: passes_only_lost_def)
  ultimately show "id_after (en_id y) (en_id x)" using y by auto
qed

lemma ascending_last: "ascending rows \<Longrightarrow> x \<in> set rows \<Longrightarrow> x = last rows \<or> id_after (en_id x) (en_id (last rows))"
  by (induction rows) (auto simp: ascending_def)

lemma sees_after_rows:
  assumes "ascending h" "set (final_stream (tn_replied t) ts) \<subseteq> set h"
    and "rows \<noteq> []" "set rows \<subseteq> set (entries_after i h)" "ascending rows" "\<forall>x \<in> set rows. \<not> terminal_entry (en_fields x)"
    and pass: "passes_only_lost i rows (final_stream (tn_replied t) ts)"
    and sent: "sees h (en_id (last rows)) (tn_replied t) ts sent e"
    and kept: "set s \<inter> set (final_stream (tn_replied t) ts) \<subseteq> set (tn_replied t)"
  shows "sees h i s (t # ts) (rows @ sent) e"
proof -
  let ?left = "final_stream (tn_replied t) ts"
  note facts = sent [unfolded sees_def Let_def]
  have j: "id_after i (en_id (last rows))" using assms(3,4) by (auto dest: last_in_set)
  have "id_after (en_id x) (en_id y)" if "x \<in> set rows" "y \<in> set sent" for x y
  proof -
    have "y \<in> set (entries_after (en_id (last rows)) h)" using facts that(2) by blast
    then have "id_after (en_id (last rows)) (en_id y)" by simp
    with ascending_last [OF assms(5) that(1)] show ?thesis using id_after_trans by blast
  qed
  then have "ascending (rows @ sent)" using facts assms(5) by (simp add: ascending_append)
  moreover have "set (rows @ sent) \<subseteq> set (entries_after i h)"
  proof -
    have "x \<in> set (entries_after i h)" if "x \<in> set sent" for x
    proof -
      have "x \<in> set (entries_after (en_id (last rows)) h)" using facts that by blast
      with id_after_trans [OF j] show ?thesis by simp
    qed
    with assms(4) show ?thesis by auto
  qed
  moreover have "\<forall>x \<in> set (butlast (rows @ sent)). \<not> terminal_entry (en_fields x)"
    using facts assms(6) by (auto simp: butlast_append dest: in_set_butlastD)
  moreover have "e = Finished \<longleftrightarrow> rows @ sent \<noteq> [] \<and> terminal_entry (en_fields (last (rows @ sent)))"
    using facts assms(3,6) by (cases "sent = []") auto
  moreover have "passes_only_lost i (rows @ sent) ?left"
    using passes_only_lost_append [OF assms(1-5) pass] facts by simp
  moreover have "set (entries_after i s) \<inter> set ?left \<subseteq> set (rows @ sent)"
    if "list_all (\<lambda>t. \<not> tn_disconnected t \<and> \<not> tn_down t) (t # ts)" "e \<noteq> Finished" "length (rows @ sent) < length (t # ts)"
  proof
    fix x assume x: "x \<in> set (entries_after i s) \<inter> set ?left"
    have "length sent < length ts" using that(3) assms(3) by (cases rows) auto
    with facts that have there: "set (entries_after (en_id (last rows)) (tn_replied t)) \<inter> set ?left \<subseteq> set sent" by simp
    have "x \<in> set (tn_replied t)" using x kept by auto
    moreover have "id_after (en_id (last rows)) (en_id x)" if "x \<notin> set rows"
      using pass x that assms(3) by (auto simp: passes_only_lost_def)
    ultimately show "x \<in> set (rows @ sent)" using there x by auto
  qed
  ultimately show ?thesis by (auto simp: sees_def Let_def)
qed

lemma stream_loop_sees:
  assumes "stream_world h d n turns" "ascending h"
  shows "case stream_loop (After i) turns of (frames, e) \<Rightarrow>
     \<exists>sent. sent_ids frames = map en_id sent \<and> sees h i (drop d (take n h)) turns sent e"
  using assms(1)
proof (induction arbitrary: i rule: stream_world.induct)
  case (world_end d n)
  then show ?case by (simp add: sees_def passes_only_lost_def ascending_def)
next
  case (world_turn d d1 d2 n n1 n2 t ts)
  note world = world_turn.hyps
  let ?s = "drop d (take n h)" and ?rows = "read_events (After i) t" and ?left = "final_stream (tn_replied t) ts"
  obtain d' n' where left: "?left = drop d' (take n' h)" "d2 \<le> d'" "n2 \<le> n'"
    using final_window [OF world(7)] world(6) by auto
  have kept: "x \<in> set (tn_called t) \<and> x \<in> set (tn_replied t)" if "x \<in> set ?s" "x \<in> set ?left" for x
    using window_between [OF assms(2) that(1), of d' n' d1 n1] window_between [OF assms(2) that(1), of d' n' d2 n2] that(2) left world
    by simp
  consider "tn_disconnected t" | "\<not> tn_disconnected t" "?rows = []" | "\<not> tn_disconnected t" "?rows \<noteq> []" by blast
  then show ?case
  proof cases
    case 1
    then show ?thesis by (simp add: sees_def passes_only_lost_def ascending_def)
  next
    case 2
    obtain frames e where loop: "stream_loop (After i) ts = (frames, e)" by (rule prod.exhaust)
    with world_turn.IH [of i] world(6) obtain sent where sent: "sent_ids frames = map en_id sent" "sees h i (tn_replied t) ts sent e"
      by auto
    have none: "set (entries_after i ?s) \<inter> set ?left = {}" if "\<not> tn_down t"
      using idle_turn [OF 2(2) that] kept by (auto simp: entries_after_def filter_empty_conv)
    from sent(2) none have "sees h i ?s (t # ts) sent e" by (auto simp: sees_def Let_def)
    with 2 loop sent(1) show ?thesis by auto
  next
    case 3
    obtain frames l ended where send: "send_rows (tn_now t) (After i) ?rows = (frames, l, ended)" by (metis prod_cases3)
    note rows = send_rows_upto [OF send]
    obtain w m rest where window: "w \<le> d2" "entries_after i (drop w (take m h)) = ?rows @ rest"
      using read_window [OF world(5,6,2)] by blast
    then have pass: "passes_only_lost i ?rows ?left"
      using first_rows_pass_lost [OF assms(2) window(2)] left by simp
    have sub: "set ?rows \<subseteq> set (entries_after i h)"
      using window(2) window_set [of _ w m h] by (metis Un_upper1 entries_after_set set_append subsetI subset_trans)
    have asc: "ascending ?rows"
      using window(2) window_ascending [OF assms(2), of w m] unfolding ascending_def entries_after_def
      by (metis sorted_wrt_append sorted_wrt_filter)
    show ?thesis
    proof (cases ended)
      case True
      let ?sent = "upto_terminal ?rows"
      obtain r where r: "?rows = ?sent @ r" "\<forall>x \<in> set (butlast ?sent). \<not> terminal_entry (en_fields x)"
        using upto_terminal_split by blast
      have "entries_after i (drop w (take m h)) = ?sent @ r @ rest" using window(2) r(1) by simp
      then have "passes_only_lost i ?sent ?left"
        using first_rows_pass_lost [OF assms(2)] left window(1) by simp
      moreover have "ascending ?sent" using asc by (subst (asm) r(1)) (simp add: ascending_append)
      moreover have "set ?sent \<subseteq> set ?rows" by (subst (2) r(1)) simp
      ultimately have "sees h i ?s (t # ts) ?sent Finished"
        using r(2) rows True upto_terminal_end [of ?rows] sub by (simp add: sees_def Let_def)
      with 3 send True rows show ?thesis by auto
    next
      case False
      let ?j = "en_id (last ?rows)"
      from rows False have quiet: "\<forall>x \<in> set ?rows. \<not> terminal_entry (en_fields x)" and l: "l = After ?j" using 3 by auto
      obtain more e where loop: "stream_loop l ts = (more, e)" by (rule prod.exhaust)
      with world_turn.IH [of ?j] l world(6) obtain sent where
        sent: "sent_ids more = map en_id sent" "sees h ?j (tn_replied t) ts sent e" by auto
      have "sees h i ?s (t # ts) (?rows @ sent) e"
        by (rule sees_after_rows [OF assms(2) _ 3(2) sub asc quiet pass sent(2)]) (use left window_set kept in auto)
      moreover have "sent_ids (frames @ more) = map en_id (?rows @ sent)"
        using rows sent(1) by (simp add: sent_ids_append upto_terminal_quiet [OF quiet])
      moreover have answer: "stream_loop (After i) (t # ts) = (frames @ more, e)" using 3 send False loop by simp
      ultimately show ?thesis unfolding answer case_prod_conv by blast
    qed
  qed
qed

text \<open>
  C19. A client that resumes a job's stream from an event id first gets the snapshot of the status document; when that is
  terminal, the stream is closed after it. Otherwise the events it is sent are events after that id, in order and each once, none but the last one
  terminal, and the stream is closed exactly after a terminal one. Redis may trim or drop the stream meanwhile: an event after the
  id that the client is not sent either comes after all that it is sent or is gone from the stream at the end, so that without trimming
  nothing is left out. While the client is connected and Redis answers, and until the end is sent, either there were as many events as turns,
  or every event that was there from the start and still is has been sent.
\<close>

theorem resumed_client_misses_nothing:
  assumes "stream_world h d n turns" "ascending h"
  shows "case job_stream now job_id meta (After i) turns of (frames, e) \<Rightarrow>
    let p = snapshot_payload now job_id meta; s = drop d (take n h); left = final_stream s turns in
    if \<exists>status \<in> TERMINAL_STATUS. pl_status p = JString status then frames = [Snapshot p] \<and> e = Finished
    else \<exists>events sent. frames = Snapshot p # events \<and> sent_ids events = map en_id sent
      \<and> ascending sent \<and> set sent \<subseteq> set (entries_after i h)
      \<and> (\<forall>x \<in> set (butlast sent). \<not> terminal_entry (en_fields x))
      \<and> (e = Finished \<longleftrightarrow> sent \<noteq> [] \<and> terminal_entry (en_fields (last sent)))
      \<and> (\<forall>x \<in> set (entries_after i left). x \<notin> set sent \<longrightarrow> (\<forall>y \<in> set sent. id_after (en_id y) (en_id x)))
      \<and> (list_all (\<lambda>t. \<not> tn_disconnected t \<and> \<not> tn_down t) turns \<and> e \<noteq> Finished \<and> length sent < length turns \<longrightarrow>
           set (entries_after i s) \<inter> set left \<subseteq> set sent)"
proof -
  obtain frames e where loop: "stream_loop (After i) turns = (frames, e)" by (rule prod.exhaust)
  with stream_loop_sees [OF assms, of i] obtain sent where
    "sent_ids frames = map en_id sent" "sees h i (drop d (take n h)) turns sent e" by auto
  with loop show ?thesis
    unfolding sees_def passes_only_lost_def job_stream_def Let_def by auto
qed


definition stage_entry :: "nat \<Rightarrow> string \<Rightarrow> StreamEntry" where
  "stage_entry n event = \<lparr>en_id = (n, 0), en_fields = [(''event'', event), (''status'', ''running'')]\<rparr>"

definition calm_turn :: "StreamEntry list \<Rightarrow> StreamEntry list \<Rightarrow> StreamTurn" where
  "calm_turn called replied = \<lparr>tn_disconnected = False, tn_down = False, tn_called = called, tn_replied = replied, tn_now = []\<rparr>"

definition three_events :: "StreamEntry list" where
  "three_events = [stage_entry 1 ''running'', stage_entry 2 ''stage_start'', stage_entry 3 ''succeeded'']"

text \<open>The client has seen the first of three events; while it waits, that one is trimmed and the last one arrives.\<close>

definition three_turns :: "StreamTurn list" where
  "three_turns = [calm_turn (take 1 three_events) (take 2 three_events), calm_turn (drop 1 three_events) (drop 1 three_events)]"

theorem resumed_client_misses_nothing_witness:
  "case job_stream [] ''j'' [] (After (1, 0)) three_turns of (frames, e) \<Rightarrow>
     \<exists>events sent. frames = Snapshot (snapshot_payload [] ''j'' []) # events \<and> sent_ids events = map en_id sent
       \<and> ascending sent \<and> set sent \<subseteq> set (drop 1 three_events)"
proof -
  have "stream_world three_events 0 0 three_turns"
    unfolding three_turns_def
    by (rule world_turn [of 0 0 0 0 1 2], simp_all add: calm_turn_def)
      (rule world_turn [of 0 1 1 2 3 3], simp_all add: calm_turn_def three_events_def world_end)
  moreover have "ascending three_events" by (simp add: three_events_def ascending_def stage_entry_def)
  moreover have "\<not> (\<exists>status \<in> TERMINAL_STATUS. pl_status (snapshot_payload [] ''j'' []) = JString status)" by code_simp
  moreover have "entries_after (1, 0) three_events = drop 1 three_events" by code_simp
  ultimately show ?thesis
    using resumed_client_misses_nothing [of three_events 0 0 three_turns "[]" "''j''" "[]" "(1, 0)"]
    by (auto simp: Let_def case_prod_beta)
qed

text \<open>
  A client without an id asks for \<open>$\<close> again after every heartbeat, and \<open>$\<close> then means the end of the stream at that
  time: an event written between two reads is never sent. When it is the last one, the client waits for ever.
\<close>

lemma latest_client_misses_end:
  "stream_loop Latest (calm_turn [] [] # replicate n (calm_turn [stage_entry 1 ''succeeded''] [stage_entry 1 ''succeeded''])) =
     (replicate (Suc n) Heartbeat, Streaming Latest)"
proof -
  have "stream_loop Latest (replicate n (calm_turn [stage_entry 1 ''succeeded''] [stage_entry 1 ''succeeded''])) =
     (replicate n Heartbeat, Streaming Latest)"
    by (induction n) (simp_all add: calm_turn_def read_events_def entries_after_def stage_entry_def)
  then show ?thesis by (simp add: calm_turn_def read_events_def READ_COUNT_def)
qed

section \<open>Opening a stream\<close>

record StreamGate =
  sg_limit :: nat
  sg_current :: nat

definition gate_acquire :: "StreamGate \<Rightarrow> bool \<times> StreamGate" where
  "gate_acquire g = (if sg_current g \<ge> sg_limit g then (False, g) else (True, g\<lparr>sg_current := sg_current g + 1\<rparr>))"

definition gate_release :: "StreamGate \<Rightarrow> StreamGate" where
  "gate_release g = g\<lparr>sg_current := sg_current g - 1\<rparr>"

datatype events_answer = EventsRefused nat string | EventsOpened LastId

text \<open>\<open>health\<close> is \<open>None\<close> when the queue raises.\<close>

definition job_events :: "json_dict option \<Rightarrow> bool option \<Rightarrow> string \<Rightarrow> StreamGate \<Rightarrow> events_answer \<times> StreamGate" where
  "job_events meta health header g =
     (if meta = None then (EventsRefused 404 ''not_found'', g)
      else if health \<noteq> Some True then (EventsRefused 503 ''queue_unavailable'', g)
      else case gate_acquire g of
        (False, g) \<Rightarrow> (EventsRefused 503 ''events_unavailable'', g)
      | (True, g) \<Rightarrow> (EventsOpened (last_event_id header), g))"

lemma gate_within_limit:
  "sg_current g \<le> sg_limit g \<Longrightarrow> sg_current (snd (gate_acquire g)) \<le> sg_limit (snd (gate_acquire g))"
  "sg_current g \<le> sg_limit g \<Longrightarrow> sg_current (gate_release g) \<le> sg_limit (gate_release g)"
  "fst (gate_acquire g) \<Longrightarrow> gate_release (snd (gate_acquire g)) = g"
  by (auto simp: gate_acquire_def gate_release_def split: if_splits)

section \<open>The fields survive the stream\<close>

lemma publish_all_prefix:
  "\<not> ps_warned ps \<Longrightarrow> ps_stream (publish_all sends ps) = ps_stream ps @ map snd (takeWhile fst sends)"
proof (induction sends arbitrary: ps)
  case (Cons send sends)
  have "ps_stream (publish_all ss qs) = ps_stream qs" if "ps_warned qs" for ss qs
    using that by (induction ss) (auto simp: publish_now_def)
  with Cons show ?case by (cases send) (auto simp: publish_now_def)
qed simp

lemma digit_groups_digits: "list_all re_digit s \<Longrightarrow> s \<noteq> [] \<or> b \<Longrightarrow> digit_groups b s = Some s"
  by (induction s arbitrary: b) auto

lemma py_strip_plain: "list_all (\<lambda>c. \<not> py_isspace c) s \<Longrightarrow> py_strip s = s"
proof -
  have "dropWhile py_isspace xs = xs" if "list_all (\<lambda>c. \<not> py_isspace c) xs" for xs
    using that by (cases xs) auto
  moreover assume "list_all (\<lambda>c. \<not> py_isspace c) s"
  ultimately show ?thesis by (simp add: py_strip_def)
qed

lemma int_str_plain: "list_all (\<lambda>c. \<not> py_isspace c) (int_str n)"
proof -
  have "\<not> py_isspace c" if "re_digit c" for c
    using that by (auto simp: re_digit_def py_isspace_def)
  moreover have "\<not> py_isspace (CHR ''-'')" by (simp add: py_isspace_def)
  ultimately show ?thesis using nat_str_digit by (auto simp: int_str_def list_all_iff)
qed

lemma py_int_text_int_str: "py_int_text (int_str n) = Inr n"
proof -
  have digits: "digit_groups False (nat_str k) = Some (nat_str k)" for k
    by (rule digit_groups_digits) (simp_all add: list_all_iff)
  have sign: "take 1 (nat_str k) \<noteq> ''-''" "take 1 (nat_str k) \<noteq> ''+''" for k
    using nat_str_digit [of "hd (nat_str k)" k] by (cases "nat_str k"; auto simp: re_digit_def)+
  show ?thesis
    unfolding py_int_text_def py_strip_plain [OF int_str_plain] Let_def
    using sign by (auto simp: int_str_def digits)
qed

text \<open>
  An event comes out of the stream as it was published: the client is sent its name, job, status, stage, generation, time
  and error, where no error and the empty one are the same.
\<close>

theorem event_payload_roundtrip:
  "event_payload now (stream_fields job_id ts ev) =
     \<lparr>pl_job_id = job_id, pl_status = JString (ev_status ev), pl_stage = JString (ev_stage ev),
      pl_generation = ev_generation ev, pl_ts = (if ts = [] then now else ts),
      pl_error = (if ev_error ev = Some [] then None else ev_error ev)\<rparr>
   \<and> event_name (stream_fields job_id ts ev) = (if ev_event ev = [] then ''message'' else ev_event ev)"
proof -
  have "int_str k \<noteq> []" for k by (simp add: int_str_def)
  then show ?thesis
    by (simp add: event_payload_def stream_fields_def field_or_def event_name_def text_generation_def py_int_text_int_str
        split: option.split)
qed

end
