(* ===== verification/Timelines.thy ===== *)
theory Timelines
  imports Graph_Index "HOL-Library.Multiset" "HOL-Library.Sublist"
begin

text \<open>
  Shared period axes, \<open>layout/timelines.py\<close> with \<open>_derived_axis\<close> of \<open>layout/axes.py\<close>. On one sheet a later header that repeats
  an axis is dropped and its blocks point to the first one; across sheets, axes with the same sequence of
  periods get one published timeline. The theorems say what a reader may rely on: which axes can be
  merged, and that a merged axis is never a reference to another merged one.
\<close>

section \<open>Cells\<close>

text \<open>
  \<open>sc_shown\<close> is the text that \<open>_text\<close> displays, \<open>sc_cached\<close> the cached value as text, empty without one. The test
  \<open>abs(float(s) - 1) < 1e-9\<close> is the parameter \<open>near_one\<close>.
\<close>

record SheetCell =
  sc_col :: int
  sc_shown :: "string option"
  sc_cached :: string
  sc_formula :: string

definition cell_in_row :: "SheetCell list \<Rightarrow> int \<Rightarrow> SheetCell option" where
  "cell_in_row row_cells col = find (\<lambda>cell. sc_col cell = col) row_cells"

definition flag_bit :: "(string \<Rightarrow> bool) \<Rightarrow> SheetCell option \<Rightarrow> bool" where
  "flag_bit near_one cell =
     (case cell of
        None \<Rightarrow> False
      | Some c \<Rightarrow>
          let shown = (case sc_shown c of None \<Rightarrow> sc_cached c | Some t \<Rightarrow> if t = [] then sc_cached c else t);
              blob = map (\<lambda>ch. if ch = CHR '','' then CHR ''.'' else ch) (py_strip shown)
          in py_lower blob \<in> {''1'', ''1.0'', ''true'', ''yes''} \<or> near_one blob)"

section \<open>Periods of an axis\<close>

definition is_series_column :: "string option \<Rightarrow> string \<Rightarrow> bool" where
  "is_series_column kind period_key \<longleftrightarrow>
     kind \<in> {Some ''period'', Some ''stub'', Some ''relative''} \<and> period_key \<notin> {''total'', ''stub''}"

definition timeline_periods :: "TimeAxis \<Rightarrow> AxisPeriod list" where
  "timeline_periods axis = filter (\<lambda>p. is_series_column (Some (ap_kind p)) (ap_period_key p)) (ta_periods axis)"

definition marker_token :: "string option \<Rightarrow> string" where
  "marker_token variant = (case variant of None \<Rightarrow> [] | Some v \<Rightarrow> casefold v)"

type_synonym dates = "(string option \<times> string option) list"
type_synonym flags = "(string \<times> bool list) list"
type_synonym signature = "string \<times> (string \<times> string \<times> string \<times> string option) list"

definition workbook_timeline_signature :: "TimeAxis \<Rightarrow> signature option" where
  "workbook_timeline_signature axis =
     (case ta_grain axis of
        None \<Rightarrow> None
      | Some grain \<Rightarrow>
          if grain \<notin> {''model_year'', ''year''} \<or> length (timeline_periods axis) < 3 then None
          else Some (grain, map (\<lambda>p. (ap_period_key p, ap_kind p, marker_token (ap_variant p), ap_group_key p)) (timeline_periods axis)))"

definition present_text :: "string option \<Rightarrow> bool" where
  "present_text t \<longleftrightarrow> t \<noteq> None \<and> t \<noteq> Some []"

definition timeline_dates :: "TimeAxis \<Rightarrow> dates option" where
  "timeline_dates axis =
     (let ds = map (\<lambda>p. (ap_start_date p, ap_end_date p)) (timeline_periods axis) in
      if list_ex (\<lambda>(start, stop). present_text start \<or> present_text stop) ds then Some ds else None)"

text \<open>\<open>bit_at\<close> is the flag of a cell, by sheet, row and column.\<close>

definition timeline_flags :: "(string \<Rightarrow> int \<Rightarrow> int \<Rightarrow> bool) \<Rightarrow> SheetLayout \<Rightarrow> TimeAxis \<Rightarrow> flags option" where
  "timeline_flags bit_at sheet axis =
     (let rows = concat (map (\<lambda>block. filter (\<lambda>row. lr_kind row = ''flag'') (bl_rows block))
            (filter (\<lambda>block. bl_kind block = ''timeline'' \<and> ta_id axis \<in> set (bl_axis_ids block)) (sl_blocks sheet))) in
      if rows = [] then None
      else Some (map (\<lambda>row. (lr_label row, map (\<lambda>p. bit_at (sl_name sheet) (lr_row row) (ap_col p)) (timeline_periods axis))) rows))"

section \<open>Timelines of the workbook\<close>

record TimelineMember =
  tm_sheet_index :: int
  tm_axis_index :: int
  tm_axis :: TimeAxis
  tm_dates :: "dates option"
  tm_flags :: "flags option"

record TimelineBucket =
  tb_dates :: "dates option"
  tb_flags :: "flags option"
  tb_members :: "TimelineMember list"

definition dates_compatible :: "dates option \<Rightarrow> dates option \<Rightarrow> bool" where
  "dates_compatible left right \<longleftrightarrow> left = None \<or> right = None \<or> left = right"

definition flags_compatible :: "flags \<Rightarrow> flags \<Rightarrow> bool" where
  "flags_compatible left right \<longleftrightarrow> left = [] \<or> right = [] \<or> left = right"

definition flags_or_empty :: "flags option \<Rightarrow> flags" where
  "flags_or_empty f = (case f of None \<Rightarrow> [] | Some items \<Rightarrow> items)"

definition bucket_fits :: "TimelineBucket \<Rightarrow> TimelineMember \<Rightarrow> bool" where
  "bucket_fits bucket member \<longleftrightarrow>
     dates_compatible (tb_dates bucket) (tm_dates member)
     \<and> flags_compatible (flags_or_empty (tb_flags bucket)) (flags_or_empty (tm_flags member))"

definition join_bucket :: "TimelineBucket \<Rightarrow> TimelineMember \<Rightarrow> TimelineBucket" where
  "join_bucket bucket member =
     \<lparr>tb_dates = (if tb_dates bucket = None then tm_dates member else tb_dates bucket),
      tb_flags = (if tb_flags bucket = None then tm_flags member else tb_flags bucket),
      tb_members = tb_members bucket @ [member]\<rparr>"

fun place_member :: "TimelineMember \<Rightarrow> TimelineBucket list \<Rightarrow> TimelineBucket list" where
  "place_member member [] = [\<lparr>tb_dates = tm_dates member, tb_flags = tm_flags member, tb_members = [member]\<rparr>]"
| "place_member member (bucket # buckets) =
     (if bucket_fits bucket member then join_bucket bucket member # buckets else bucket # place_member member buckets)"

definition timeline_buckets :: "TimelineMember list \<Rightarrow> TimelineMember list list" where
  "timeline_buckets members = map tb_members (foldl (\<lambda>buckets member. place_member member buckets) [] members)"

text \<open>\<open>max\<close> with \<open>_timeline_rank\<close>: a member with dates, then with more flag rows, then the earlier one; the first of the largest.\<close>

definition rank_less :: "TimelineMember \<Rightarrow> TimelineMember \<Rightarrow> bool" where
  "rank_less a b \<longleftrightarrow>
     (let da = tm_dates a \<noteq> None; db = tm_dates b \<noteq> None;
          fa = length (flags_or_empty (tm_flags a)); fb = length (flags_or_empty (tm_flags b)) in
      \<not> da \<and> db
      \<or> da = db \<and> (fa < fb
        \<or> fa = fb \<and> (tm_sheet_index b < tm_sheet_index a
          \<or> tm_sheet_index a = tm_sheet_index b \<and> tm_axis_index b < tm_axis_index a)))"

definition canonical_member :: "TimelineMember \<Rightarrow> TimelineMember list \<Rightarrow> TimelineMember" where
  "canonical_member member members = foldl (\<lambda>best m. if rank_less best m then m else best) member members"

definition enumerate_from_0 :: "'a list \<Rightarrow> (int \<times> 'a) list" where
  "enumerate_from_0 xs = zip (map int [0..<length xs]) xs"

definition workbook_members :: "(string \<Rightarrow> int \<Rightarrow> int \<Rightarrow> bool) \<Rightarrow> Layout \<Rightarrow> TimelineMember list" where
  "workbook_members bit_at sheets =
     concat (map (\<lambda>(sheet_index, sheet). map (\<lambda>(axis_index, axis).
         \<lparr>tm_sheet_index = sheet_index, tm_axis_index = axis_index, tm_axis = axis, tm_dates = timeline_dates axis,
          tm_flags = timeline_flags bit_at sheet axis\<rparr>) (enumerate_from_0 (sl_axes sheet)))
       (enumerate_from_0 sheets))"

definition add_to_group :: "(signature \<times> TimelineMember list) list \<Rightarrow> TimelineMember \<Rightarrow> (signature \<times> TimelineMember list) list" where
  "add_to_group groups m =
     (case workbook_timeline_signature (tm_axis m) of
        None \<Rightarrow> groups
      | Some s \<Rightarrow> dict_alter s [] (\<lambda>members. members @ [m]) groups)"

definition timeline_groups :: "TimelineMember list \<Rightarrow> (signature \<times> TimelineMember list) list" where
  "timeline_groups members = foldl add_to_group [] members"

abbreviation member_id :: "TimelineMember \<Rightarrow> string" where
  "member_id m \<equiv> ta_id (tm_axis m)"

definition point_to :: "(string \<rightharpoonup> string) \<Rightarrow> string \<Rightarrow> TimelineMember list \<Rightarrow> (string \<rightharpoonup> string)" where
  "point_to alias target bucket = foldl (\<lambda>alias m. alias(member_id m \<mapsto> target)) alias bucket"

definition alias_bucket :: "(string \<rightharpoonup> string) \<Rightarrow> TimelineMember list \<Rightarrow> (string \<rightharpoonup> string)" where
  "alias_bucket alias bucket =
     (case bucket of
        first # second # rest \<Rightarrow>
          point_to alias (member_id (canonical_member first (second # rest))) bucket
      | _ \<Rightarrow> alias)"

definition timeline_alias :: "(string \<Rightarrow> int \<Rightarrow> int \<Rightarrow> bool) \<Rightarrow> Layout \<Rightarrow> (string \<rightharpoonup> string)" where
  "timeline_alias bit_at sheets =
     foldl alias_bucket Map.empty
       (concat (map (\<lambda>(s, members). timeline_buckets members) (timeline_groups (workbook_members bit_at sheets))))"

definition published_timeline :: "(string \<rightharpoonup> string) \<Rightarrow> string \<Rightarrow> string" where
  "published_timeline alias axis_id = (case alias axis_id of None \<Rightarrow> axis_id | Some t \<Rightarrow> t)"

definition link_workbook_timelines :: "(string \<Rightarrow> int \<Rightarrow> int \<Rightarrow> bool) \<Rightarrow> Layout \<Rightarrow> Layout" where
  "link_workbook_timelines bit_at sheets =
     (let alias = timeline_alias bit_at sheets in
      map (\<lambda>sheet. sheet\<lparr>sl_blocks := map (\<lambda>block.
          if bl_kind block \<noteq> ''timeline'' \<or> bl_axis_ids block = [] then block
          else block\<lparr>bl_timeline_ids := map (published_timeline alias) (bl_axis_ids block)\<rparr>) (sl_blocks sheet)\<rparr>) sheets)"

section \<open>A bucket agrees\<close>

definition bucket_ok :: "TimelineBucket \<Rightarrow> bool" where
  "bucket_ok b \<longleftrightarrow> tb_flags b \<noteq> Some [] \<and> tb_members b \<noteq> [] \<and>
     (\<forall>m \<in> set (tb_members b). (tm_dates m = None \<or> tm_dates m = tb_dates b) \<and> (tm_flags m = None \<or> tm_flags m = tb_flags b))"

definition agree :: "TimelineMember \<Rightarrow> TimelineMember \<Rightarrow> bool" where
  "agree m n \<longleftrightarrow> dates_compatible (tm_dates m) (tm_dates n)
     \<and> flags_compatible (flags_or_empty (tm_flags m)) (flags_or_empty (tm_flags n))"

lemma bucket_ok_agree:
  assumes "bucket_ok b" "m \<in> set (tb_members b)" "n \<in> set (tb_members b)"
  shows "agree m n"
proof -
  have "(tm_dates x = None \<or> tm_dates x = tb_dates b) \<and> (tm_flags x = None \<or> tm_flags x = tb_flags b)"
    if "x \<in> {m, n}" for x using assms that by (auto simp: bucket_ok_def)
  from this [of m] this [of n] show ?thesis
    by (auto simp: agree_def dates_compatible_def flags_compatible_def flags_or_empty_def)
qed

lemma join_bucket_ok: "bucket_ok b \<Longrightarrow> bucket_fits b m \<Longrightarrow> tm_flags m \<noteq> Some [] \<Longrightarrow> bucket_ok (join_bucket b m)"
  by (auto simp: bucket_ok_def bucket_fits_def join_bucket_def dates_compatible_def flags_compatible_def flags_or_empty_def
      split: option.splits)

lemma place_member_ok:
  "tm_flags m \<noteq> Some [] \<Longrightarrow> list_all bucket_ok bs \<Longrightarrow> list_all bucket_ok (place_member m bs)"
  by (induction m bs rule: place_member.induct) (auto simp: join_bucket_ok, simp add: bucket_ok_def)

lemma place_member_mset:
  "mset (concat (map tb_members (place_member m bs))) = add_mset m (mset (concat (map tb_members bs)))"
  by (induction m bs rule: place_member.induct) (auto simp: join_bucket_def)

lemma timeline_buckets_spec:
  assumes "\<forall>m \<in> set members. tm_flags m \<noteq> Some []"
  shows "mset (concat (timeline_buckets members)) = mset members"
    and "b \<in> set (timeline_buckets members) \<Longrightarrow> m \<in> set b \<Longrightarrow> n \<in> set b \<Longrightarrow> agree m n"
proof -
  have "list_all bucket_ok (foldl (\<lambda>bs m. place_member m bs) bs members)
      \<and> mset (concat (map tb_members (foldl (\<lambda>bs m. place_member m bs) bs members))) = mset (concat (map tb_members bs)) + mset members"
    if "list_all bucket_ok bs" for bs
    using assms that
  proof (induction members arbitrary: bs)
    case (Cons m members)
    then show ?case using place_member_ok [of m bs] by (simp add: place_member_mset)
  qed simp
  from this [of "[]"] have ok: "list_all bucket_ok (foldl (\<lambda>bs m. place_member m bs) [] members)"
    and parts: "mset (concat (timeline_buckets members)) = mset members" by (simp_all add: timeline_buckets_def)
  from parts show "mset (concat (timeline_buckets members)) = mset members" .
  show "agree m n" if "b \<in> set (timeline_buckets members)" "m \<in> set b" "n \<in> set b"
    using that ok bucket_ok_agree by (auto simp: timeline_buckets_def list_all_iff)
qed

lemma canonical_in: "canonical_member m ms \<in> set (m # ms)"
  unfolding canonical_member_def
proof (induction ms arbitrary: m)
  case (Cons a ms)
  show ?case using Cons.IH [of "if rank_less m a then a else m"] by (auto split: if_splits)
qed simp

section \<open>Groups\<close>

definition of_signature :: "signature \<Rightarrow> TimelineMember list \<Rightarrow> TimelineMember list" where
  "of_signature s members = filter (\<lambda>m. workbook_timeline_signature (tm_axis m) = Some s) members"

lemma timeline_groups_spec:
  "map_of (timeline_groups members) s = (if of_signature s members = [] then None else Some (of_signature s members))"
  "distinct (map fst (timeline_groups members))"
proof -
  have "map_of (foldl add_to_group groups members) s =
      (if of_signature s members = [] then map_of groups s else Some (dict_get groups s [] @ of_signature s members))" for groups
  proof (induction members arbitrary: groups)
    case (Cons m members)
    have "map_of (add_to_group groups m) s =
        (if workbook_timeline_signature (tm_axis m) = Some s then Some (dict_get groups s [] @ [m]) else map_of groups s)"
      by (auto simp: add_to_group_def split: option.split)
    moreover have "dict_get (add_to_group groups m) s [] =
        (if workbook_timeline_signature (tm_axis m) = Some s then dict_get groups s [] @ [m] else dict_get groups s [])"
      using calculation by (simp add: dict_get_def)
    ultimately show ?case by (simp add: Cons.IH of_signature_def)
  qed (simp add: of_signature_def)
  from this [of "[]"] show "map_of (timeline_groups members) s =
      (if of_signature s members = [] then None else Some (of_signature s members))"
    by (simp add: timeline_groups_def dict_get_def)
  have "distinct (map fst groups) \<Longrightarrow> distinct (map fst (foldl add_to_group groups members))" for groups
    by (induction members arbitrary: groups) (auto simp: add_to_group_def distinct_dict_alter split: option.splits)
  then show "distinct (map fst (timeline_groups members))" by (simp add: timeline_groups_def)
qed

lemma timeline_group_members: "(s, ms) \<in> set (timeline_groups members) \<Longrightarrow> ms = of_signature s members"
  using timeline_groups_spec(1) [of members s] timeline_groups_spec(2) [of members]
  by (auto dest!: map_of_is_SomeI split: if_splits)

definition all_buckets :: "TimelineMember list \<Rightarrow> TimelineMember list list" where
  "all_buckets members = concat (map (\<lambda>(s, ms). timeline_buckets ms) (timeline_groups members))"

lemma of_signature_flags: "\<forall>m \<in> set members. tm_flags m \<noteq> Some [] \<Longrightarrow> \<forall>m \<in> set (of_signature s members). tm_flags m \<noteq> Some []"
  by (simp add: of_signature_def)

lemma bucket_members:
  assumes "\<forall>m \<in> set members. tm_flags m \<noteq> Some []" "b \<in> set (all_buckets members)"
  shows "\<exists>s. set b \<subseteq> set (of_signature s members) \<and> (\<forall>m \<in> set b. \<forall>n \<in> set b. agree m n)"
proof -
  from assms(2) obtain s ms where g: "(s, ms) \<in> set (timeline_groups members)" "b \<in> set (timeline_buckets ms)"
    by (auto simp: all_buckets_def)
  then have ms: "ms = of_signature s members" using timeline_group_members by blast
  note spec = timeline_buckets_spec [OF of_signature_flags [OF assms(1), of s], folded ms]
  have "set b \<subseteq> set (concat (timeline_buckets ms))" using g(2) by auto
  also have "\<dots> = set ms" using spec(1) by (metis set_mset_mset)
  finally show ?thesis using spec(2) [OF g(2)] ms by blast
qed

lemma all_buckets_distinct:
  assumes "\<forall>m \<in> set members. tm_flags m \<noteq> Some []" "distinct (map member_id members)"
  shows "distinct (map member_id (concat (all_buckets members)))"
proof -
  have "distinct (map member_id (concat (concat (map (\<lambda>(s, ms). timeline_buckets ms) groups))))"
    if "set groups \<subseteq> set (timeline_groups members)" "distinct (map fst groups)" for groups
    using that
  proof (induction groups)
    case (Cons g groups)
    obtain s ms where g: "g = (s, ms)" by (rule prod.exhaust)
    have ms: "ms = of_signature s members" using Cons.prems(1) g timeline_group_members by auto
    have here: "mset (concat (timeline_buckets ms)) = mset ms"
      unfolding ms by (rule timeline_buckets_spec(1) [OF of_signature_flags [OF assms(1)]])
    have "distinct (map member_id ms)"
      unfolding ms of_signature_def using assms(2) by (rule distinct_map_filter)
    then have first: "distinct (map member_id (concat (timeline_buckets ms)))"
      using here by (metis mset_eq_imp_distinct_iff mset_map)
    have "member_id x \<noteq> member_id y"
      if "x \<in> set (concat (timeline_buckets ms))" "y \<in> set (concat (concat (map (\<lambda>(s, ms). timeline_buckets ms) groups)))" for x y
    proof -
      have x: "x \<in> set members" "workbook_timeline_signature (tm_axis x) = Some s"
        using that(1) mset_eq_setD [OF here] by (auto simp: ms of_signature_def)
      from that(2) obtain s' ms' b where y: "(s', ms') \<in> set groups" "b \<in> set (timeline_buckets ms')" "y \<in> set b" by auto
      then have "(s', ms') \<in> set (timeline_groups members)" using Cons.prems(1) by auto
      then have "ms' = of_signature s' members" by (rule timeline_group_members)
      with y(2,3) mset_eq_setD [OF timeline_buckets_spec(1) [OF of_signature_flags [OF assms(1), of s']]]
      have "y \<in> set (of_signature s' members)" by auto
      then have "y \<in> set members" "workbook_timeline_signature (tm_axis y) = Some s'" by (simp_all add: of_signature_def)
      moreover have "s \<noteq> s'" using Cons.prems(2) g y(1) by (auto simp: image_iff)
      ultimately show ?thesis using x assms(2) by (auto simp: distinct_map inj_on_def)
    qed
    then have "set (map member_id (concat (timeline_buckets ms)))
        \<inter> set (map member_id (concat (concat (map (\<lambda>(s, ms). timeline_buckets ms) groups)))) = {}"
      by (simp only: set_map) blast
    moreover have "map member_id (concat (concat (map (\<lambda>(s, ms). timeline_buckets ms) (g # groups)))) =
        map member_id (concat (timeline_buckets ms))
        @ map member_id (concat (concat (map (\<lambda>(s, ms). timeline_buckets ms) groups)))"
      by (simp add: g)
    moreover have "distinct (map member_id (concat (concat (map (\<lambda>(s, ms). timeline_buckets ms) groups))))"
      using Cons by simp
    ultimately show ?case using first by (simp only: distinct_append) 
  qed simp
  then show ?thesis using timeline_groups_spec(2) by (simp add: all_buckets_def)
qed

section \<open>Aliases\<close>

lemma point_to_apply: "point_to al c ms a = (if a \<in> member_id ` set ms then Some c else al a)"
  unfolding point_to_def
proof (induction ms arbitrary: al)
  case (Cons m ms)
  show ?case unfolding foldl.simps Cons.IH by simp
qed simp

lemma alias_bucket_other: "a \<notin> member_id ` set b \<Longrightarrow> alias_bucket al b a = al a"
  by (auto simp: alias_bucket_def point_to_apply split: list.split)

lemma alias_bucket_member:
  assumes "m \<in> set b"
  shows "(\<exists>c \<in> set b. \<forall>n \<in> set b. alias_bucket al b (member_id n) = Some (member_id c)) \<or> b = [m] \<and> alias_bucket al b = al"
proof (cases "\<exists>first second rest. b = first # second # rest")
  case True
  then obtain first second rest where b: "b = first # second # rest" by blast
  have "alias_bucket al b (member_id n) = Some (member_id (canonical_member first (second # rest)))" if "n \<in> set b" for n
  proof -
    have "member_id n \<in> member_id ` set b" using that by blast
    then show ?thesis by (simp add: alias_bucket_def b point_to_apply del: list.set)
  qed
  moreover have "canonical_member first (second # rest) \<in> set b" using canonical_in b by metis
  ultimately show ?thesis by blast
next
  case False
  then have "b = [m]" using assms by (cases b; cases "tl b") auto
  then show ?thesis by (simp add: alias_bucket_def)
qed

lemma alias_buckets_member:
  assumes "distinct (map member_id (concat bs))" "b \<in> set bs" "m \<in> set b" "\<forall>x \<in> set b. al (member_id x) = None"
  shows "\<exists>c \<in> set b. \<forall>n \<in> set b. published_timeline (foldl alias_bucket al bs) (member_id n) = member_id c"
  using assms
proof (induction bs arbitrary: al)
  case (Cons b' bs)
  have others: "foldl alias_bucket al2 bs (member_id x) = al2 (member_id x)"
    if "x \<in> set b'" for x al2
  proof -
    have "member_id x \<notin> member_id ` set (concat bs)" using Cons.prems(1) that by auto
    then show ?thesis
    proof (induction bs arbitrary: al2)
      case (Cons b'' bs)
      then show ?case by (auto simp: alias_bucket_other image_Un)
    qed simp
  qed
  show ?case
  proof (cases "b = b'")
    case True
    with alias_bucket_member [OF Cons.prems(3), of al] others Cons.prems(3,4) show ?thesis
      by (auto simp: published_timeline_def)
  next
    case False
    then have b: "b \<in> set bs" using Cons.prems(2) by simp
    then have "member_id x \<notin> member_id ` set b'" if "x \<in> set b" for x using Cons.prems(1) that by auto
    then have "\<forall>x \<in> set b. alias_bucket al b' (member_id x) = None" using Cons.prems(4) by (simp add: alias_bucket_other)
    with Cons.IH [OF _ b Cons.prems(3)] Cons.prems(1) show ?thesis by simp
  qed
qed simp

lemma alias_buckets_other:
  "a \<notin> member_id ` set (concat bs) \<Longrightarrow> foldl alias_bucket al bs a = al a"
  by (induction bs arbitrary: al) (auto simp: alias_bucket_other image_Un)

lemma timeline_flags_rows: "timeline_flags bit_at sheet axis \<noteq> Some []"
  by (simp add: timeline_flags_def Let_def)

lemma workbook_members_flags: "\<forall>m \<in> set (workbook_members bit_at sheets). tm_flags m \<noteq> Some []"
  using timeline_flags_rows by (auto simp: workbook_members_def)

lemma snd_enumerate: "map snd (enumerate_from_0 xs) = xs"
  by (simp add: enumerate_from_0_def)

lemma workbook_member_axes:
  "map tm_axis (workbook_members bit_at sheets) = concat (map sl_axes sheets)"
proof -
  have "map tm_axis (workbook_members bit_at sheets) = concat (map (sl_axes \<circ> snd) (enumerate_from_0 sheets))"
    by (simp add: workbook_members_def map_concat comp_def case_prod_beta snd_enumerate)
  also have "map (sl_axes \<circ> snd) (enumerate_from_0 sheets) = map sl_axes sheets"
    using snd_enumerate [of sheets] by (metis list.map_comp)
  finally show ?thesis .
qed

section \<open>Published timelines\<close>

lemma published_cases:
  assumes ids: "distinct (map member_id members)" and fl: "\<forall>m \<in> set members. tm_flags m \<noteq> Some []" and m: "m \<in> set members"
  defines "published \<equiv> published_timeline (foldl alias_bucket Map.empty (all_buckets members))"
  shows "published (member_id m) = member_id m \<and> m \<notin> set (concat (all_buckets members))
    \<or> (\<exists>b \<in> set (all_buckets members). m \<in> set b \<and> (\<exists>c \<in> set b. \<forall>n \<in> set b. published (member_id n) = member_id c))"
proof (cases "m \<in> set (concat (all_buckets members))")
  case True
  then obtain b where b: "b \<in> set (all_buckets members)" "m \<in> set b" by auto
  from alias_buckets_member [OF all_buckets_distinct [OF fl ids] b, of Map.empty] b show ?thesis by (auto simp: published_def)
next
  case False
  have "set (concat (all_buckets members)) \<subseteq> set members"
    using bucket_members [OF fl] by (fastforce simp: of_signature_def)
  then have "member_id m \<notin> member_id ` set (concat (all_buckets members))"
    using False m ids by (auto simp: distinct_map inj_on_def)
  from alias_buckets_other [OF this, of Map.empty] False show ?thesis by (auto simp: published_def published_timeline_def)
qed

definition same_timeline :: "TimelineMember \<Rightarrow> TimelineMember \<Rightarrow> bool" where
  "same_timeline m n \<longleftrightarrow> workbook_timeline_signature (tm_axis m) \<noteq> None
     \<and> workbook_timeline_signature (tm_axis m) = workbook_timeline_signature (tm_axis n) \<and> agree m n"

lemma bucket_same_timeline:
  assumes "\<forall>m \<in> set members. tm_flags m \<noteq> Some []" "b \<in> set (all_buckets members)" "m \<in> set b" "n \<in> set b"
  shows "m \<in> set members" "same_timeline m n"
proof -
  from bucket_members [OF assms(1,2)] obtain s where s: "set b \<subseteq> set (of_signature s members)" "\<forall>m \<in> set b. \<forall>n \<in> set b. agree m n"
    by blast
  then have "x \<in> set members \<and> workbook_timeline_signature (tm_axis x) = Some s" if "x \<in> set b" for x
    using that by (auto simp: of_signature_def)
  from this [OF assms(3)] this [OF assms(4)] s(2) assms(3,4) show "m \<in> set members" "same_timeline m n"
    by (simp_all add: same_timeline_def)
qed

lemma published_same:
  assumes ids: "distinct (map member_id members)" and fl: "\<forall>m \<in> set members. tm_flags m \<noteq> Some []"
    and mn: "m \<in> set members" "n \<in> set members"
    and eq: "published_timeline (foldl alias_bucket Map.empty (all_buckets members)) (member_id m) =
      published_timeline (foldl alias_bucket Map.empty (all_buckets members)) (member_id n)"
  shows "m = n \<or> same_timeline m n"
proof -
  have inj: "x = y" if "x \<in> set members" "y \<in> set members" "member_id x = member_id y" for x y
    using that ids by (auto simp: distinct_map inj_on_def)
  have apart: "b = b'" if "b \<in> set (all_buckets members)" "b' \<in> set (all_buckets members)" "c \<in> set b" "c \<in> set b'" for b b' c
    using that all_buckets_distinct [OF fl ids] by (auto simp: distinct_map distinct_concat_iff)
  have inside: "x \<in> set members" if "b \<in> set (all_buckets members)" "x \<in> set b" for b x
    using bucket_same_timeline(1) [OF fl that(1) that(2) that(2)] .
  define published where "published = published_timeline (foldl alias_bucket Map.empty (all_buckets members))"
  note cases = published_cases [OF ids fl, folded published_def]
  have lone: "x = y" if "x \<in> set members" "y \<in> set members" "published (member_id x) = member_id x"
      "x \<notin> set (concat (all_buckets members))" "published (member_id x) = published (member_id y)" for x y
  proof (cases "y \<in> set (concat (all_buckets members))")
    case True
    with cases [OF \<open>y \<in> set members\<close>] obtain b c where b: "b \<in> set (all_buckets members)" "c \<in> set b" "published (member_id y) = member_id c"
      by blast
    have "x = c" by (rule inj [OF \<open>x \<in> set members\<close> inside [OF b(1,2)]]) (use b(3) \<open>published _ = member_id x\<close> \<open>_ = published (member_id y)\<close> in simp)
    with b(1,2) \<open>x \<notin> _\<close> show ?thesis by auto
  next
    case False
    with cases [OF \<open>y \<in> set members\<close>] have "published (member_id y) = member_id y" by auto
    then show ?thesis
      by (intro inj \<open>x \<in> set members\<close> \<open>y \<in> set members\<close>) (use \<open>published _ = member_id x\<close> \<open>_ = published (member_id y)\<close> in simp)
  qed
  note eq = eq [folded published_def]
  show ?thesis
  proof (cases "m \<in> set (concat (all_buckets members)) \<and> n \<in> set (concat (all_buckets members))")
    case True
    with cases [OF mn(1)] obtain b c where b: "b \<in> set (all_buckets members)" "m \<in> set b" "c \<in> set b" "published (member_id m) = member_id c"
      by blast
    from True cases [OF mn(2)] obtain b' c' where
      b': "b' \<in> set (all_buckets members)" "n \<in> set b'" "c' \<in> set b'" "published (member_id n) = member_id c'" by blast
    have "c = c'" by (rule inj [OF inside [OF b(1,3)] inside [OF b'(1,3)]]) (use b(4) b'(4) eq in simp)
    with apart [OF b(1) b'(1) b(3)] b'(3) have "b = b'" by simp
    with bucket_same_timeline(2) [OF fl b(1,2)] b'(2) show ?thesis by blast
  next
    case False
    have outside: "published (member_id x) = member_id x" if "x \<in> set members" "x \<notin> set (concat (all_buckets members))" for x
      using cases [OF that(1)] that(2) by (metis UN_I set_concat)
    from False consider "m \<notin> set (concat (all_buckets members))" | "n \<notin> set (concat (all_buckets members))" by blast
    then show ?thesis
    proof cases
      case 1
      then show ?thesis using lone [OF mn outside [OF mn(1) 1] 1 eq] by simp
    next
      case 2
      then show ?thesis using lone [OF mn(2,1) outside [OF mn(2) 2] 2 eq [symmetric]] by simp
    qed
  qed
qed

text \<open>
  C21. Axes get the same published timeline only when they are the same to a reader: they have the same grain and sequence of
  period keys, kinds, markers and groups, their dates agree when both have dates, and their flags when both
  have flags. The published id is that of an axis in the group, and it is its own timeline.
\<close>

theorem workbook_timelines_agree:
  assumes "distinct (map ta_id (concat (map sl_axes sheets)))"
  shows "let members = workbook_members bit_at sheets; published = published_timeline (timeline_alias bit_at sheets) in
    (\<forall>m \<in> set members. \<exists>c \<in> set members.
       published (member_id m) = member_id c \<and> published (member_id c) = member_id c \<and> (c = m \<or> same_timeline m c))
    \<and> (\<forall>m \<in> set members. \<forall>n \<in> set members. published (member_id m) = published (member_id n) \<longrightarrow> m = n \<or> same_timeline m n)"
proof -
  let ?members = "workbook_members bit_at sheets"
  have ids: "distinct (map member_id ?members)"
    using assms workbook_member_axes [of bit_at sheets] by (metis (no_types, lifting) list.map_comp map_eq_conv o_apply)
  note fl = workbook_members_flags [of bit_at sheets]
  have al: "timeline_alias bit_at sheets = foldl alias_bucket Map.empty (all_buckets ?members)"
    by (simp add: timeline_alias_def all_buckets_def)
  have "\<exists>c \<in> set ?members. published_timeline (timeline_alias bit_at sheets) (member_id m) = member_id c
      \<and> published_timeline (timeline_alias bit_at sheets) (member_id c) = member_id c \<and> (c = m \<or> same_timeline m c)"
    if "m \<in> set ?members" for m
    using published_cases [OF ids fl that] bucket_same_timeline [OF fl] that unfolding al by blast
  then show ?thesis using published_same [OF ids fl] unfolding al Let_def by blast
qed


definition year_axis :: "string \<Rightarrow> int \<Rightarrow> bool \<Rightarrow> TimeAxis" where
  "year_axis axis_id header_row marked =
     \<lparr>ta_id = axis_id, ta_grain = Some ''year'', ta_header_row = header_row,
      ta_periods = map (\<lambda>(col, key).
        \<lparr>ap_col = col, ap_text = key, ap_kind = ''period'', ap_variant = None, ap_period_key = key, ap_explicit_role = marked,
         ap_group_key = None, ap_start_date = None, ap_end_date = None, ap_hidden = False\<rparr>)
        [(2, ''2024''), (3, ''2025''), (4, ''2026'')],
      ta_notes = []\<rparr>"

definition one_axis_sheet :: "string \<Rightarrow> TimeAxis \<Rightarrow> SheetLayout" where
  "one_axis_sheet name axis = \<lparr>sl_name = name, sl_hidden = False, sl_axes = [axis], sl_blocks = []\<rparr>"

theorem workbook_timelines_agree_witness:
  "let sheets = [one_axis_sheet ''A'' (year_axis ''a'' 1 False), one_axis_sheet ''B'' (year_axis ''b'' 1 False)];
       members = workbook_members (\<lambda>_ _ _. False) sheets; published = published_timeline (timeline_alias (\<lambda>_ _ _. False) sheets) in
   \<forall>m \<in> set members. \<exists>c \<in> set members.
     published (member_id m) = member_id c \<and> published (member_id c) = member_id c \<and> (c = m \<or> same_timeline m c)"
proof -
  have "distinct (map ta_id (concat (map sl_axes
      [one_axis_sheet ''A'' (year_axis ''a'' 1 False), one_axis_sheet ''B'' (year_axis ''b'' 1 False)])))"
    by (simp add: one_axis_sheet_def year_axis_def)
  from workbook_timelines_agree [OF this, of "\<lambda>_ _ _. False"] show ?thesis unfolding Let_def by blast
qed

section \<open>Repeated axes of a sheet\<close>

text \<open>\<open>_CELL_REF.findall\<close> on an upper-case formula: up to three letters and a row, no letter or underscore before it, no bracket after.\<close>

definition cell_ref_at :: "string \<Rightarrow> (string \<times> string \<times> string) option" where
  "cell_ref_at s =
     (let s1 = (if take 1 s = ''$'' then drop 1 s else s);
          letters = takeWhile ascii_upper s1; s2 = dropWhile ascii_upper s1;
          s3 = (if take 1 s2 = ''$'' then drop 1 s2 else s2);
          digits = takeWhile re_digit s3; rest = dropWhile re_digit s3 in
      if letters = [] \<or> length letters > 3 \<or> digits = [] \<or> take 1 rest = ''('' then None else Some (letters, digits, rest))"

lemma cell_ref_at_shorter: "cell_ref_at s = Some (letters, digits, rest) \<Longrightarrow> length rest < length s"
proof -
  assume ref: "cell_ref_at s = Some (letters, digits, rest)"
  define s1 where "s1 = (if take 1 s = ''$'' then drop 1 s else s)"
  define s2 where "s2 = dropWhile ascii_upper s1"
  define s3 where "s3 = (if take 1 s2 = ''$'' then drop 1 s2 else s2)"
  from ref have "takeWhile ascii_upper s1 \<noteq> []" "rest = dropWhile re_digit s3"
    unfolding cell_ref_at_def Let_def s1_def [symmetric] s2_def [symmetric] s3_def [symmetric] by (simp_all split: if_splits)
  then have "length s2 < length s1" "length rest \<le> length s3"
    by (auto simp: s2_def length_dropWhile_le) (metis length_dropWhile_less takeWhile_eq_Nil_iff)
  moreover have "length s1 \<le> length s" "length s3 \<le> length s2" by (auto simp: s1_def s3_def)
  ultimately show ?thesis by simp
qed

function cell_refs :: "bool \<Rightarrow> string \<Rightarrow> (string \<times> string) list" where
  "cell_refs after_word [] = []"
| "cell_refs after_word (c # s) =
     (case (if after_word then None else cell_ref_at (c # s)) of
        Some (letters, digits, rest) \<Rightarrow> (letters, digits) # cell_refs False rest
      | None \<Rightarrow> cell_refs (re_letter c \<or> c = CHR ''_'') s)"
  by pat_completeness auto
termination
  by (relation "measure (\<lambda>(after_word, s). length s)") (auto split: if_splits dest!: cell_ref_at_shorter)



definition derived_axis :: "(int \<Rightarrow> SheetCell list) \<Rightarrow> TimeAxis \<Rightarrow> TimeAxis \<Rightarrow> bool" where
  "derived_axis by_row axis other \<longleftrightarrow>
     (if ta_header_row axis \<le> ta_header_row other then False
      else
        let keys = map_of (rev (map (\<lambda>p. (ap_col p, ap_period_key p)) (ta_periods other)));
            periods = filter (\<lambda>p. keys (ap_col p) \<noteq> None) (ta_periods axis) in
        if length periods < 2 \<or> 5 * length periods < 4 * length (ta_periods axis) then False
        else if list_ex (\<lambda>p. keys (ap_col p) \<noteq> Some (ap_period_key p)) periods then False
        else
          let derived = length (filter (\<lambda>p.
                let formula = (case cell_in_row (by_row (ta_header_row axis)) (ap_col p) of None \<Rightarrow> [] | Some c \<Rightarrow> sc_formula c) in
                list_ex (\<lambda>(col, row). col = index_to_col (ap_col p) \<and> int (int_of_digits row) = ta_header_row other)
                  (cell_refs False (py_upper formula))) periods)
          in 5 * derived \<ge> 4 * length periods)"

type_synonym axis_sig = "string option \<times> (int \<times> string \<times> string \<times> string \<times> string option) list"
type_synonym column_sig = "string option \<times> (int \<times> string) list"

definition axis_signature :: "TimeAxis \<Rightarrow> axis_sig" where
  "axis_signature axis =
     (ta_grain axis, map (\<lambda>p. (ap_col p, ap_period_key p, ap_kind p, marker_token (ap_variant p), ap_group_key p)) (ta_periods axis))"

definition column_signature :: "TimeAxis \<Rightarrow> column_sig" where
  "column_signature axis = (ta_grain axis, map (\<lambda>p. (ap_col p, ap_period_key p)) (ta_periods axis))"

definition has_explicit_marker :: "TimeAxis \<Rightarrow> bool" where
  "has_explicit_marker axis \<longleftrightarrow> list_ex (\<lambda>p. ap_explicit_role p \<or> present_text (ap_variant p)) (ta_periods axis)"

definition flag_fingerprint :: "(string \<Rightarrow> bool) \<Rightarrow> (int \<Rightarrow> SheetCell list) \<Rightarrow> Block option \<Rightarrow> TimeAxis \<Rightarrow> flags" where
  "flag_fingerprint near_one by_row block axis =
     (case block of
        None \<Rightarrow> []
      | Some b \<Rightarrow>
          map (\<lambda>row. (lr_label row, map (\<lambda>p. flag_bit near_one (cell_in_row (by_row (lr_row row)) (ap_col p))) (ta_periods axis)))
            (filter (\<lambda>row. lr_kind row = ''flag'') (bl_rows b)))"

type_synonym 'k flag_table = "('k \<times> (TimeAxis \<times> flags) list) list"

definition remember_in :: "string \<Rightarrow> flags \<Rightarrow> (TimeAxis \<times> flags) list \<Rightarrow> (TimeAxis \<times> flags) list" where
  "remember_in axis_id fingerprint items =
     map (\<lambda>(item, fl). (item, if ta_id item = axis_id \<and> fl = [] then fingerprint else fl)) items"

definition remember_flags :: "string \<Rightarrow> flags \<Rightarrow> 'k flag_table \<Rightarrow> 'k flag_table" where
  "remember_flags axis_id fingerprint tab = map (\<lambda>(key, items). (key, remember_in axis_id fingerprint items)) tab"

record ShareState =
  ss_buckets :: "axis_sig flag_table"
  ss_columns :: "column_sig flag_table"
  ss_alias :: "(string \<times> string) list"
  ss_kept :: "TimeAxis list"

definition share_alias :: "string \<Rightarrow> string \<Rightarrow> ShareState \<Rightarrow> ShareState" where
  "share_alias axis_id target st = st\<lparr>ss_alias := AList.update axis_id target (ss_alias st)\<rparr>"

definition share_keep :: "TimeAxis \<Rightarrow> flags \<Rightarrow> ShareState \<Rightarrow> ShareState" where
  "share_keep axis fingerprint st =
     st\<lparr>ss_buckets := dict_alter (axis_signature axis) [] (\<lambda>items. items @ [(axis, fingerprint)]) (ss_buckets st),
        ss_columns := dict_alter (column_signature axis) [] (\<lambda>items. items @ [(axis, fingerprint)]) (ss_columns st),
        ss_kept := ss_kept st @ [axis]\<rparr>"

text \<open>In the list of one signature every item with the id gets the fingerprint, whatever it had.\<close>

definition fill_bucket :: "axis_sig \<Rightarrow> string \<Rightarrow> flags \<Rightarrow> ShareState \<Rightarrow> ShareState" where
  "fill_bucket signature axis_id fingerprint st =
     st\<lparr>ss_buckets := dict_alter signature [] (map (\<lambda>(item, fl). (item, if ta_id item = axis_id then fingerprint else fl))) (ss_buckets st)\<rparr>"

definition share_axis :: "(string \<Rightarrow> bool) \<Rightarrow> (int \<Rightarrow> SheetCell list) \<Rightarrow> Block list \<Rightarrow> ShareState \<Rightarrow> TimeAxis \<Rightarrow> ShareState" where
  "share_axis near_one by_row blocks st axis =
     (case find (\<lambda>other. derived_axis by_row axis other) (ss_kept st) of
        Some derived \<Rightarrow> share_alias (ta_id axis) (ta_id derived) st
      | None \<Rightarrow>
          let signature = axis_signature axis;
              owner = find (\<lambda>b. ta_id axis \<in> set (bl_axis_ids b)) blocks;
              fingerprint = flag_fingerprint near_one by_row owner axis in
          case (if has_explicit_marker axis then None
                else find (\<lambda>(previous, fl). has_explicit_marker previous \<and> flags_compatible fl fingerprint)
                       (dict_get (ss_columns st) (column_signature axis) [])) of
            Some (painted, fl) \<Rightarrow>
              share_alias (ta_id axis) (ta_id painted)
                (if fl = [] \<and> fingerprint \<noteq> [] then
                   st\<lparr>ss_columns := remember_flags (ta_id painted) fingerprint (ss_columns st),
                      ss_buckets := remember_flags (ta_id painted) fingerprint (ss_buckets st)\<rparr>
                 else st)
          | None \<Rightarrow>
              (case find (\<lambda>(previous, fl). flags_compatible fl fingerprint) (dict_get (ss_buckets st) signature []) of
                 Some (previous, fl) \<Rightarrow>
                   share_alias (ta_id axis) (ta_id previous)
                     (if fl = [] \<and> fingerprint \<noteq> [] then fill_bucket signature (ta_id previous) fingerprint st else st)
               | None \<Rightarrow> share_keep axis fingerprint st))"

definition no_shares :: ShareState where
  "no_shares = \<lparr>ss_buckets = [], ss_columns = [], ss_alias = [], ss_kept = []\<rparr>"

fun add_new :: "string list \<Rightarrow> string list \<Rightarrow> string list" where
  "add_new seen [] = seen"
| "add_new seen (x # xs) = add_new (if x \<in> set seen then seen else seen @ [x]) xs"

definition shared_id :: "(string \<times> string) list \<Rightarrow> string \<Rightarrow> string" where
  "shared_id aliases axis_id = dict_get aliases axis_id axis_id"

definition share_block :: "(string \<times> string) list \<Rightarrow> TimeAxis list \<Rightarrow> Block \<Rightarrow> Block" where
  "share_block aliases kept block =
     (let seen = add_new [] (map (shared_id aliases) (bl_axis_ids block));
          by_id = map_of (rev (map (\<lambda>axis. (ta_id axis, axis)) kept));
          block = block\<lparr>bl_axis_ids := seen\<rparr> in
      if length seen = 1 \<and> by_id (hd seen) \<noteq> None then block\<lparr>bl_axis := map_option project_axis (by_id (hd seen))\<rparr>
      else if length seen \<noteq> 1 then block\<lparr>bl_axis := None\<rparr>
      else block)"

definition share_repeated_axes ::
  "(string \<Rightarrow> bool) \<Rightarrow> (int \<Rightarrow> SheetCell list) \<Rightarrow> Block list \<Rightarrow> TimeAxis list \<Rightarrow> Block list \<times> TimeAxis list" where
  "share_repeated_axes near_one by_row blocks axes =
     (let st = foldl (share_axis near_one by_row blocks) no_shares axes in
      if ss_alias st = [] then (blocks, axes)
      else (map (share_block (ss_alias st) (ss_kept st)) blocks, ss_kept st))"


lemma find_in: "find P xs = Some x \<Longrightarrow> x \<in> set xs \<and> P x"
  by (induction xs) (auto split: if_splits)

lemma signature_columns: "axis_signature a = axis_signature b \<Longrightarrow> column_signature a = column_signature b"
proof -
  have "column_signature c = (case axis_signature c of (grain, items) \<Rightarrow> (grain, map (\<lambda>(col, key, _). (col, key)) items))" for c
    by (simp add: column_signature_def axis_signature_def)
  then show "axis_signature a = axis_signature b \<Longrightarrow> column_signature a = column_signature b" by metis
qed

text \<open>The items of a table, and what they have to be: kept axes under their own signature.\<close>

definition flag_table_ok :: "(TimeAxis \<Rightarrow> 'k) \<Rightarrow> TimeAxis list \<Rightarrow> 'k flag_table \<Rightarrow> bool" where
  "flag_table_ok sig kept tab \<longleftrightarrow> (\<forall>key. fst ` set (dict_get tab key []) \<subseteq> {a \<in> set kept. sig a = key})"

lemma flag_table_find:
  assumes "flag_table_ok sig kept tab" "find P (dict_get tab key []) = Some (a, fl)"
  shows "a \<in> set kept" "sig a = key"
proof -
  have "fst (a, fl) \<in> fst ` set (dict_get tab key [])" using find_in [OF assms(2)] by blast
  with assms(1) show "a \<in> set kept" "sig a = key" by (auto simp: flag_table_ok_def)
qed

lemma flag_table_add:
  "flag_table_ok sig kept tab \<Longrightarrow> flag_table_ok sig (kept @ [a]) (dict_alter (sig a) [] (\<lambda>items. items @ [(a, fl)]) tab)"
  unfolding flag_table_ok_def dict_get_alter by (auto split: if_splits)

lemma flag_table_map:
  assumes "flag_table_ok sig kept tab" "\<And>items. map fst (f items) = map fst items"
  shows "flag_table_ok sig kept (dict_alter k [] f tab)"
proof -
  have "fst ` set (f items) = fst ` set items" for items using assms(2) by (metis list.set_map)
  then show ?thesis using assms(1) by (simp add: flag_table_ok_def dict_get_alter)
qed

lemma dict_get_remember: "dict_get (remember_flags axis_id fp tab) key [] = remember_in axis_id fp (dict_get tab key [])"
  by (induction tab) (auto simp: remember_flags_def dict_get_def remember_in_def)

lemma flag_table_remember: "flag_table_ok sig kept tab \<Longrightarrow> flag_table_ok sig kept (remember_flags axis_id fp tab)"
  by (simp add: flag_table_ok_def dict_get_remember remember_in_def image_image case_prod_beta)

text \<open>What holds after the axes in \<open>past\<close>: each is kept, or points to a kept one that it derives from or has the columns of.\<close>

definition share_ok :: "(int \<Rightarrow> SheetCell list) \<Rightarrow> TimeAxis list \<Rightarrow> ShareState \<Rightarrow> bool" where
  "share_ok by_row past st \<longleftrightarrow>
     subseq (ss_kept st) past \<and> flag_table_ok axis_signature (ss_kept st) (ss_buckets st)
     \<and> flag_table_ok column_signature (ss_kept st) (ss_columns st)
     \<and> (\<forall>a. a \<in> dom (map_of (ss_alias st)) \<longrightarrow> a \<in> ta_id ` set past)
     \<and> (\<forall>a \<in> set past. a \<in> set (ss_kept st) \<and> map_of (ss_alias st) (ta_id a) = None
          \<or> (\<exists>k \<in> set (ss_kept st). map_of (ss_alias st) (ta_id a) = Some (ta_id k)
               \<and> (derived_axis by_row a k \<or> column_signature a = column_signature k)))"

lemma share_alias_ok:
  assumes "share_ok by_row past st" "ta_id a \<notin> ta_id ` set past" "k \<in> set (ss_kept st)"
    and "derived_axis by_row a k \<or> column_signature a = column_signature k"
  shows "share_ok by_row (past @ [a]) (share_alias (ta_id a) (ta_id k) st)"
proof -
  have "ta_id b \<noteq> ta_id a" if "b \<in> set past" for b using assms(2) that by (metis image_eqI)
  moreover have "subseq (ss_kept st) (past @ [a])" using assms(1) by (simp add: share_ok_def list_emb_prefix)
  ultimately show ?thesis
    using assms by (auto simp: share_ok_def share_alias_def update_conv')
qed

lemma share_axis_ok:
  assumes ok: "share_ok by_row past st" and new: "ta_id a \<notin> ta_id ` set past"
  shows "share_ok by_row (past @ [a]) (share_axis near_one by_row blocks st a)"
proof (cases "find (\<lambda>other. derived_axis by_row a other) (ss_kept st)")
  case (Some d)
  with find_in [OF Some] share_alias_ok [OF ok new, of d] show ?thesis by (simp add: share_axis_def)
next
  case None
  define fp where "fp = flag_fingerprint near_one by_row (find (\<lambda>b. ta_id a \<in> set (bl_axis_ids b)) blocks) a"
  define painted where "painted = (if has_explicit_marker a then None
    else find (\<lambda>(previous, fl). has_explicit_marker previous \<and> flags_compatible fl fp) (dict_get (ss_columns st) (column_signature a) []))"
  define same where "same = find (\<lambda>(previous, fl). flags_compatible fl fp) (dict_get (ss_buckets st) (axis_signature a) [])"
  have step: "share_axis near_one by_row blocks st a =
      (case painted of
         Some (p, fl) \<Rightarrow> share_alias (ta_id a) (ta_id p)
           (if fl = [] \<and> fp \<noteq> [] then
              st\<lparr>ss_columns := remember_flags (ta_id p) fp (ss_columns st), ss_buckets := remember_flags (ta_id p) fp (ss_buckets st)\<rparr>
            else st)
       | None \<Rightarrow>
           (case same of
              Some (previous, fl) \<Rightarrow> share_alias (ta_id a) (ta_id previous)
                (if fl = [] \<and> fp \<noteq> [] then fill_bucket (axis_signature a) (ta_id previous) fp st else st)
            | None \<Rightarrow> share_keep a fp st))"
    unfolding share_axis_def Let_def None option.case fp_def painted_def same_def ..
  have tables: "flag_table_ok axis_signature (ss_kept st) (ss_buckets st)" "flag_table_ok column_signature (ss_kept st) (ss_columns st)"
    using ok by (simp_all add: share_ok_def)
  show ?thesis
  proof (cases painted)
    case (Some pf)
    obtain p fl where pf: "painted = Some (p, fl)" using Some by (cases pf) simp
    then have "p \<in> set (ss_kept st)" "column_signature p = column_signature a"
      using flag_table_find [OF tables(2)] by (auto simp: painted_def split: if_splits)
    moreover have "share_ok by_row past
        (st\<lparr>ss_columns := remember_flags (ta_id p) fp (ss_columns st), ss_buckets := remember_flags (ta_id p) fp (ss_buckets st)\<rparr>)"
      using ok flag_table_remember [OF tables(1)] flag_table_remember [OF tables(2)] by (simp add: share_ok_def)
    ultimately show ?thesis using ok by (auto simp: step pf intro!: share_alias_ok new)
  next
    case none: None
    show ?thesis
    proof (cases same)
      case (Some qf)
      obtain q fl where qf: "same = Some (q, fl)" using Some by (cases qf) simp
      from flag_table_find [OF tables(1) qf [unfolded same_def]]
      have q: "q \<in> set (ss_kept st)" "column_signature a = column_signature q"
        using signature_columns [of a q] by simp_all
      have "share_ok by_row past (fill_bucket (axis_signature a) (ta_id q) fp st)"
        using ok flag_table_map [OF tables(1), of "map (\<lambda>(item, fl). (item, if ta_id item = ta_id q then fp else fl))"]
        by (simp add: share_ok_def fill_bucket_def comp_def case_prod_beta)
      moreover have "ss_kept (fill_bucket (axis_signature a) (ta_id q) fp st) = ss_kept st" by (simp add: fill_bucket_def)
      ultimately show ?thesis using ok q by (auto simp: step none qf intro!: share_alias_ok new)
    next
      case None
      have "map_of (ss_alias st) (ta_id a) = None" using ok new by (auto simp: share_ok_def dom_def)
      moreover have "subseq (ss_kept st @ [a]) (past @ [a])" using ok by (simp add: share_ok_def)
      moreover have "share_axis near_one by_row blocks st a = share_keep a fp st" by (simp add: step none None)
      moreover have "\<forall>b. b \<in> dom (map_of (ss_alias st)) \<longrightarrow> b \<in> ta_id ` set (past @ [a])" using ok by (auto simp: share_ok_def)
      moreover have "\<forall>b \<in> set (past @ [a]). b \<in> set (ss_kept st @ [a]) \<and> map_of (ss_alias st) (ta_id b) = None
          \<or> (\<exists>k \<in> set (ss_kept st @ [a]). map_of (ss_alias st) (ta_id b) = Some (ta_id k)
               \<and> (derived_axis by_row b k \<or> column_signature b = column_signature k))"
      proof
        fix b
        assume "b \<in> set (past @ [a])"
        then consider "b = a" | "b \<in> set past" by auto
        then show "b \<in> set (ss_kept st @ [a]) \<and> map_of (ss_alias st) (ta_id b) = None
          \<or> (\<exists>k \<in> set (ss_kept st @ [a]). map_of (ss_alias st) (ta_id b) = Some (ta_id k)
               \<and> (derived_axis by_row b k \<or> column_signature b = column_signature k))"
        proof cases
          case 1
          with \<open>map_of (ss_alias st) (ta_id a) = None\<close> show ?thesis by simp
        next
          case 2
          with ok have "b \<in> set (ss_kept st) \<and> map_of (ss_alias st) (ta_id b) = None
            \<or> (\<exists>k \<in> set (ss_kept st). map_of (ss_alias st) (ta_id b) = Some (ta_id k)
               \<and> (derived_axis by_row b k \<or> column_signature b = column_signature k))" by (simp add: share_ok_def)
          then show ?thesis by fastforce
        qed
      qed
      ultimately show ?thesis
        using flag_table_add [OF tables(1), of a fp] flag_table_add [OF tables(2), of a fp]
        unfolding share_ok_def share_keep_def by simp
    qed
  qed
qed

lemma share_all_ok:
  assumes "distinct (map ta_id axes)"
  shows "share_ok by_row axes (foldl (share_axis near_one by_row blocks) no_shares axes)"
  using assms
proof (induction axes rule: rev_induct)
  case Nil
  show ?case by (simp add: share_ok_def no_shares_def flag_table_ok_def dict_get_def)
next
  case (snoc a axes)
  then show ?case using share_axis_ok [of by_row axes _ a near_one blocks] by simp
qed


text \<open>Blocks refer to the axes of their sheet, and one with a single axis carries its projection.\<close>

definition blocks_ok :: "TimeAxis list \<Rightarrow> Block list \<Rightarrow> bool" where
  "blocks_ok axes blocks \<longleftrightarrow> (\<forall>b \<in> set blocks. set (bl_axis_ids b) \<subseteq> ta_id ` set axes
     \<and> (\<forall>a \<in> set axes. bl_axis_ids b = [ta_id a] \<longrightarrow> bl_axis b = Some (project_axis a)))"

text \<open>What a reader of block \<open>b'\<close> finds of the axes of \<open>b\<close>.\<close>

definition serves :: "(int \<Rightarrow> SheetCell list) \<Rightarrow> TimeAxis list \<Rightarrow> TimeAxis list \<Rightarrow> Block \<Rightarrow> Block \<Rightarrow> bool" where
  "serves by_row axes kept b b' \<longleftrightarrow> bl_rows b' = bl_rows b \<and>
     (\<forall>a \<in> set axes. ta_id a \<in> set (bl_axis_ids b) \<longrightarrow>
        (\<exists>k \<in> set kept. ta_id k \<in> set (bl_axis_ids b')
           \<and> (k = a \<or> derived_axis by_row a k \<or> column_signature a = column_signature k)))"

lemma set_add_new: "set (add_new seen xs) = set seen \<union> set xs"
  by (induction seen xs rule: add_new.induct) auto

lemma share_block_fields:
  "bl_rows (share_block aliases kept b) = bl_rows b"
  "set (bl_axis_ids (share_block aliases kept b)) = shared_id aliases ` set (bl_axis_ids b)"
  by (simp_all add: share_block_def Let_def set_add_new)

lemma share_block_axis:
  assumes "distinct (map ta_id kept)" "k \<in> set kept" "bl_axis_ids (share_block aliases kept b) = [ta_id k]"
  shows "bl_axis (share_block aliases kept b) = Some (project_axis k)"
proof -
  have "add_new [] (map (shared_id aliases) (bl_axis_ids b)) = [ta_id k]"
    using assms(3) by (simp add: share_block_def Let_def split: if_splits)
  moreover have "map_of (rev (map (\<lambda>axis. (ta_id axis, axis)) kept)) (ta_id k) = Some k"
    by (rule map_of_is_SomeI) (use assms(1,2) in \<open>auto simp: comp_def rev_map [symmetric]\<close>)
  ultimately show ?thesis by (simp add: share_block_def Let_def)
qed

lemma subseq_ids: "subseq kept axes \<Longrightarrow> distinct (map ta_id axes) \<Longrightarrow> distinct (map ta_id kept)"
  unfolding subseq_conv_nths by (metis distinct_nthsI nths_map)

text \<open>
  C20. Sharing repeated axes keeps every block readable: the remaining axes are among the old ones in their order, every
  block refers to remaining axes only, and for each axis it had it has one that is the same, is what the axis was
  computed from, or has the same columns and period keys.
\<close>

theorem shared_axes_serve_blocks:
  assumes "distinct (map ta_id axes)" "blocks_ok axes blocks"
  shows "case share_repeated_axes near_one by_row blocks axes of (blocks', kept) \<Rightarrow>
    subseq kept axes \<and> blocks_ok kept blocks' \<and> list_all2 (serves by_row axes kept) blocks blocks'"
proof -
  define st where "st = foldl (share_axis near_one by_row blocks) no_shares axes"
  have ok: "share_ok by_row axes st" unfolding st_def by (rule share_all_ok [OF assms(1)])
  then have sub: "subseq (ss_kept st) axes" by (simp add: share_ok_def)
  show ?thesis
  proof (cases "ss_alias st = []")
    case True
    then have "share_repeated_axes near_one by_row blocks axes = (blocks, axes)"
      by (simp add: share_repeated_axes_def st_def [symmetric])
    moreover have "list_all2 (serves by_row axes axes) blocks blocks"
      by (rule list_all2_refl) (auto simp: serves_def)
    ultimately show ?thesis using assms(2) by simp
  next
    case False
    let ?share = "share_block (ss_alias st) (ss_kept st)"
    have run: "share_repeated_axes near_one by_row blocks axes = (map ?share blocks, ss_kept st)"
      using False by (simp add: share_repeated_axes_def st_def [symmetric] Let_def)
    have at: "\<exists>k \<in> set (ss_kept st). shared_id (ss_alias st) (ta_id a) = ta_id k
        \<and> (k = a \<or> derived_axis by_row a k \<or> column_signature a = column_signature k)" if "a \<in> set axes" for a
      using ok that by (fastforce simp: share_ok_def shared_id_def dict_get_def)
    have "set (bl_axis_ids (?share b)) \<subseteq> ta_id ` set (ss_kept st)" if "b \<in> set blocks" for b
    proof
      fix x
      assume "x \<in> set (bl_axis_ids (?share b))"
      then obtain y where "y \<in> set (bl_axis_ids b)" "x = shared_id (ss_alias st) y" by (auto simp: share_block_fields)
      moreover from this assms(2) that obtain a where "a \<in> set axes" "y = ta_id a" by (auto simp: blocks_ok_def)
      ultimately show "x \<in> ta_id ` set (ss_kept st)" using at by (metis image_eqI)
    qed
    then have "blocks_ok (ss_kept st) (map ?share blocks)"
      using share_block_axis [OF subseq_ids [OF sub assms(1)]] by (simp add: blocks_ok_def)
    moreover have "serves by_row axes (ss_kept st) b (?share b)" for b
      unfolding serves_def share_block_fields using at by (metis image_eqI)
    then have "list_all2 (serves by_row axes (ss_kept st)) blocks (map ?share blocks)"
      by (simp add: list_all2_map2 list_all2_refl)
    ultimately show ?thesis using sub by (simp add: run)
  qed
qed

definition flag_block :: "string \<Rightarrow> TimeAxis \<Rightarrow> int list \<Rightarrow> Block" where
  "flag_block block_id axis rows =
     \<lparr>bl_block_id = block_id, bl_label_col = 1, bl_axis = Some (project_axis axis), bl_axis_ids = [ta_id axis], bl_timeline_ids = [],
      bl_rows = map (\<lambda>row. (new_row row ''Actual'')\<lparr>lr_kind := ''flag''\<rparr>) rows, bl_kind = ''timeline''\<rparr>"

definition flag_cells :: "int \<Rightarrow> SheetCell list" where
  "flag_cells row =
     (if row = 12 then [\<lparr>sc_col = 2, sc_shown = Some ''1'', sc_cached = ''1'', sc_formula = []\<rparr>]
      else if row = 22 then [\<lparr>sc_col = 3, sc_shown = Some ''1'', sc_cached = ''1'', sc_formula = []\<rparr>] else [])"

definition three_axes :: "bool \<Rightarrow> TimeAxis list" where
  "three_axes second_marked = [year_axis ''x1'' 1 True, year_axis ''x2'' 11 second_marked, year_axis ''x3'' 21 False]"

definition three_blocks :: "bool \<Rightarrow> Block list" where
  "three_blocks second_marked =
     map2 (\<lambda>axis (block_id, rows). flag_block block_id axis rows) (three_axes second_marked) [(''b1'', []), (''b2'', [12]), (''b3'', [22])]"

theorem shared_axes_serve_blocks_witness:
  "case share_repeated_axes (\<lambda>_. False) flag_cells (three_blocks True) (three_axes True) of (blocks', kept) \<Rightarrow>
    subseq kept (three_axes True) \<and> blocks_ok kept blocks' \<and> list_all2 (serves flag_cells (three_axes True) kept) (three_blocks True) blocks'"
proof -
  have "distinct (map ta_id (three_axes True))" by (simp add: three_axes_def year_axis_def)
  moreover have "blocks_ok (three_axes True) (three_blocks True)"
    by (simp add: blocks_ok_def three_blocks_def three_axes_def flag_block_def year_axis_def)
  ultimately show ?thesis by (rule shared_axes_serve_blocks)
qed

text \<open>
  The second axis has flags and is merged into the first, which has none: through the column table these flags are
  remembered, and the third axis with other flags is kept. When the second axis has an explicit marker as well, it is
  merged through the signature table, the column table does not learn the flags, and the third axis, whose
  flags conflict with those of the second, is merged too.
\<close>

lemma marked_flags_forgotten:
  "map ta_id (snd (share_repeated_axes (\<lambda>_. False) flag_cells (three_blocks False) (three_axes False))) = [''x1'', ''x3'']"
  "map ta_id (snd (share_repeated_axes (\<lambda>_. False) flag_cells (three_blocks True) (three_axes True))) = [''x1'']"
  "\<not> flags_compatible
     (flag_fingerprint (\<lambda>_. False) flag_cells (Some (three_blocks True ! 1)) (three_axes True ! 1))
     (flag_fingerprint (\<lambda>_. False) flag_cells (Some (three_blocks True ! 2)) (three_axes True ! 2))"
  by code_simp+

end
