(* ===== verification/Projections.thy ===== *)
theory Projections
  imports Graph_Stage Trace
begin

text \<open>
  The read-only projections of a finished context document: the row catalog (\<open>context/catalog.py\<close>) and the observation slice
  (\<open>context/observations.py\<close>). The records hold the fields that the projections read. The theorems: pages tile the
  catalog, and asking for periods filters the observations.
\<close>

section \<open>The document\<close>

record RowHints =
  rh_unit :: "string option"
  rh_currency :: "string option"
  rh_scale :: "string option"

record RoleCell =
  ro_col :: int
  ro_role :: string
  ro_header :: "string option"
  ro_addr :: string
  ro_cached_value :: "string option"

record RowSeries =
  rs_axis_id :: string
  rs_formula :: "string option"
  rs_values :: "string option list"
  rs_value_statuses :: "string list"
  rs_normalized_values :: "string option list"

record BlockRow =
  br_row_key :: string
  br_sheet :: string
  br_row :: int
  br_label :: string
  br_label_path :: "string list"
  br_kind :: string
  br_formula :: "string option"
  br_hints :: RowHints
  br_cells :: "RoleCell list"
  br_scale_factor :: "int option"
  br_values :: "string option list"
  br_value_statuses :: "string list"
  br_normalized_values :: "string option list"
  br_series :: "RowSeries list"

record ContextPeriod =
  cp_col :: int
  cp_period_key :: string
  cp_group_key :: "string option"
  cp_start_date :: "string option"
  cp_end_date :: "string option"
  cp_flags :: "(string \<times> bool) list"

record ContextAxis =
  cx_id :: string
  cx_sheet :: string
  cx_grain :: "string option"
  cx_periods :: "ContextPeriod list"

text \<open>\<open>fb_periods\<close> are the dictionaries of a block's periods, by column and key.\<close>

record FinancialBlock =
  fb_block_id :: string
  fb_kind :: string
  fb_axis_ids :: "string list"
  fb_periods :: "(int \<times> string option) list"
  fb_rows :: "BlockRow list"

record ContextDocument =
  cd_axes :: "ContextAxis list"
  cd_blocks :: "FinancialBlock list"

section \<open>Catalog\<close>

record CatalogPeriod =
  kp_period_key :: string
  kp_start_date :: "string option"
  kp_end_date :: "string option"
  kp_group_key :: "string option"
  kp_flags :: "(string \<times> bool) list"

record CatalogAxis =
  ka_id :: string
  ka_sheet :: string
  ka_grain :: "string option"
  ka_periods :: "CatalogPeriod list"

record CatalogRow =
  kr_row_key :: string
  kr_sheet :: string
  kr_label :: string
  kr_label_path :: "string list"
  kr_kind :: string
  kr_axis_ids :: "string list"
  kr_has_formula :: bool
  kr_hints :: RowHints

record CatalogDocument =
  kd_total :: nat
  kd_offset :: nat
  kd_limit :: "nat option"
  kd_axes :: "CatalogAxis list"
  kd_rows :: "CatalogRow list"

definition catalog_axis :: "ContextAxis \<Rightarrow> CatalogAxis" where
  "catalog_axis axis =
     \<lparr>ka_id = cx_id axis, ka_sheet = cx_sheet axis, ka_grain = cx_grain axis,
      ka_periods = map (\<lambda>p. \<lparr>kp_period_key = cp_period_key p, kp_start_date = cp_start_date p, kp_end_date = cp_end_date p,
        kp_group_key = cp_group_key p, kp_flags = cp_flags p\<rparr>) (cx_periods axis)\<rparr>"

definition catalog_row :: "BlockRow \<Rightarrow> string list \<Rightarrow> CatalogRow" where
  "catalog_row row axis_ids =
     \<lparr>kr_row_key = br_row_key row, kr_sheet = br_sheet row, kr_label = br_label row, kr_label_path = br_label_path row,
      kr_kind = br_kind row, kr_axis_ids = axis_ids,
      kr_has_formula = (text_truthy (br_formula row) \<or> list_ex (\<lambda>s. text_truthy (rs_formula s)) (br_series row)),
      kr_hints = br_hints row\<rparr>"

definition needle_of :: "string option \<Rightarrow> string" where
  "needle_of q = (case q of None \<Rightarrow> [] | Some s \<Rightarrow> py_strip s)"

definition catalog_keeps :: "string \<Rightarrow> string option \<Rightarrow> BlockRow \<Rightarrow> bool" where
  "catalog_keeps needle sheet row \<longleftrightarrow>
     (sheet = None \<or> sheet = Some (br_sheet row)) \<and> (needle = [] \<or> own_label_contains (br_label row) needle)"

definition catalog_matched :: "ContextDocument \<Rightarrow> string option \<Rightarrow> string option \<Rightarrow> CatalogRow list" where
  "catalog_matched context q sheet =
     concat (map (\<lambda>block. map (\<lambda>row. catalog_row row (fb_axis_ids block))
       (filter (catalog_keeps (needle_of q) sheet) (fb_rows block))) (cd_blocks context))"

definition build_catalog ::
  "ContextDocument \<Rightarrow> string option \<Rightarrow> string option \<Rightarrow> nat option \<Rightarrow> int \<Rightarrow> CatalogDocument" where
  "build_catalog context q sheet limit offset =
     (let matched = catalog_matched context q sheet;
          start = nat (max offset 0);
          page = (case limit of None \<Rightarrow> drop start matched | Some n \<Rightarrow> take n (drop start matched))
      in \<lparr>kd_total = length matched, kd_offset = start, kd_limit = limit, kd_axes = map catalog_axis (cd_axes context), kd_rows = page\<rparr>)"

section \<open>Observations\<close>

record ObservationPrecedent =
  op_row_key :: "string option"
  op_period_id :: "string option"
  op_value :: "string option"
  op_cell :: "string option"
  op_depth :: int
  op_label :: "string option"

record ObservationFormula =
  of_text :: "string option"
  of_class :: "string option"
  of_precedents :: "ObservationPrecedent list"
  of_precedents_total :: nat

record ObservationTimeline =
  ot_axis_id :: string
  ot_start_date :: "string option"
  ot_end_date :: "string option"
  ot_group_key :: "string option"
  ot_flags :: "(string \<times> bool) list"

record Observation =
  ob_row_key :: string
  ob_label :: string
  ob_period_id :: string
  ob_value :: "string option"
  ob_value_status :: string
  ob_normalized_value :: "string option"
  ob_scale_factor :: "int option"
  ob_scenario :: "string option"
  ob_unit :: RowHints
  ob_formula :: ObservationFormula
  ob_sheet :: string
  ob_cell :: string
  ob_timeline :: "ObservationTimeline option"

record ObservationDocument =
  od_truncated :: bool
  od_observations :: "Observation list"

type_synonym pair_links = "((string \<times> string) \<times> FormulaLink list) list"

definition links_by_pair :: "FormulaLink list \<Rightarrow> pair_links" where
  "links_by_pair links =
     foldl (\<lambda>out link.
       if \<not> text_truthy (fl_row_key link) \<or> \<not> text_truthy (fl_period_id link) then out
       else dict_alter (the (fl_row_key link), the (fl_period_id link)) [] (\<lambda>xs. xs @ [link]) out) [] links"

definition ends_with :: "string \<Rightarrow> string \<Rightarrow> bool" where
  "ends_with s suffix \<longleftrightarrow> length suffix \<le> length s \<and> drop (length s - length suffix) s = suffix"

definition pick_link :: "pair_links \<Rightarrow> string \<Rightarrow> string \<Rightarrow> string \<Rightarrow> FormulaLink option" where
  "pick_link by_pair key period_id cell =
     (case dict_get by_pair (key, period_id) [] of
        [] \<Rightarrow> None
      | first # rest \<Rightarrow>
          (case find (\<lambda>link. fl_cell link = cell \<or> ends_with (fl_cell link) (CHR ''!'' # cell)) (first # rest) of
             Some link \<Rightarrow> Some link
           | None \<Rightarrow> Some first))"

definition observation_formula :: "BlockRow \<Rightarrow> string \<Rightarrow> string \<Rightarrow> pair_links \<Rightarrow> ObservationFormula" where
  "observation_formula row period_id cell by_pair =
     (case pick_link by_pair (br_row_key row) period_id cell of
        None \<Rightarrow> \<lparr>of_text = br_formula row, of_class = None, of_precedents = [], of_precedents_total = 0\<rparr>
      | Some link \<Rightarrow> \<lparr>of_text = fl_formula link, of_class = fl_class link, of_precedents = [], of_precedents_total = 0\<rparr>)"

definition VALUE_STATUSES :: "string set" where
  "VALUE_STATUSES = {''cached'', ''empty'', ''zero_explicit'', ''not_applicable''}"

definition observed_cache :: "string option \<Rightarrow> string option \<Rightarrow> string option \<times> string" where
  "observed_cache t status =
     (let resolved = (case status of
                        Some s \<Rightarrow> if s \<in> VALUE_STATUSES then s else if text_truthy t then ''cached'' else ''empty''
                      | None \<Rightarrow> if text_truthy t then ''cached'' else ''empty'') in
      if resolved = ''empty'' \<or> resolved = ''not_applicable'' then (None, resolved)
      else if \<not> text_truthy t then (None, resolved)
      else (t, resolved))"

definition seq_at :: "'a list \<Rightarrow> nat \<Rightarrow> 'a option" where
  "seq_at items index = (if index < length items then Some (items ! index) else None)"

definition timeline_observation ::
  "BlockRow \<Rightarrow> string \<Rightarrow> ContextPeriod \<Rightarrow> pair_links \<Rightarrow> string option \<Rightarrow> string option \<Rightarrow> string option \<Rightarrow> Observation" where
  "timeline_observation row axis_id period by_pair t status normalized =
     (case observed_cache t status of (value, value_status) \<Rightarrow>
        let cell = format_addr (cp_col period) (br_row row) in
        \<lparr>ob_row_key = br_row_key row, ob_label = br_label row, ob_period_id = cp_period_key period, ob_value = value,
         ob_value_status = value_status, ob_normalized_value = normalized, ob_scale_factor = br_scale_factor row,
         ob_scenario = None, ob_unit = br_hints row, ob_formula = observation_formula row (cp_period_key period) cell by_pair,
         ob_sheet = br_sheet row, ob_cell = cell,
         ob_timeline = Some \<lparr>ot_axis_id = axis_id, ot_start_date = cp_start_date period, ot_end_date = cp_end_date period,
           ot_group_key = cp_group_key period, ot_flags = cp_flags period\<rparr>\<rparr>)"

definition flat_option :: "'a option option \<Rightarrow> 'a option" where
  "flat_option x = (case x of None \<Rightarrow> None | Some y \<Rightarrow> y)"

definition axis_observations ::
  "BlockRow \<Rightarrow> string \<Rightarrow> pair_links \<Rightarrow> string list \<Rightarrow> string option list \<Rightarrow> string list \<Rightarrow> string option list \<Rightarrow> ContextPeriod list \<Rightarrow> Observation list" where
  "axis_observations row axis_id by_pair periods values statuses normalized axis_periods =
     map (\<lambda>(index, period). timeline_observation row axis_id period by_pair
            (flat_option (seq_at values index)) (seq_at statuses index) (flat_option (seq_at normalized index)))
       (filter (\<lambda>(index, period). periods = [] \<or> cp_period_key period \<in> set periods) (zip [0..<length axis_periods] axis_periods))"

text \<open>The loop over the axes of a block; the flag is \<open>used_fallback\<close>.\<close>

fun timeline_axes ::
  "BlockRow \<Rightarrow> (string \<rightharpoonup> ContextAxis) \<Rightarrow> (string \<rightharpoonup> RowSeries) \<Rightarrow> pair_links \<Rightarrow> string list \<Rightarrow> bool \<Rightarrow> string list \<Rightarrow> Observation list" where
  "timeline_axes row axes series_for by_pair periods used [] = []"
| "timeline_axes row axes series_for by_pair periods used (axis_id # axis_ids) =
     (case axes axis_id of
        None \<Rightarrow> timeline_axes row axes series_for by_pair periods used axis_ids
      | Some axis \<Rightarrow>
          (case series_for axis_id of
             Some series \<Rightarrow>
               axis_observations row axis_id by_pair periods (rs_values series) (rs_value_statuses series)
                 (rs_normalized_values series) (cx_periods axis)
               @ timeline_axes row axes series_for by_pair periods used axis_ids
           | None \<Rightarrow>
               if br_series row \<noteq> [] \<or> used then timeline_axes row axes series_for by_pair periods used axis_ids
               else axis_observations row axis_id by_pair periods (br_values row) (br_value_statuses row)
                      (br_normalized_values row) (cx_periods axis)
                    @ timeline_axes row axes series_for by_pair periods True axis_ids))"

definition first_keys :: "string list \<Rightarrow> string list" where
  "first_keys keys = rev (remdups (rev keys))"

definition timeline_row ::
  "FinancialBlock \<Rightarrow> BlockRow \<Rightarrow> (string \<rightharpoonup> ContextAxis) \<Rightarrow> pair_links \<Rightarrow> string list \<Rightarrow> Observation list" where
  "timeline_row block row axes by_pair periods =
     (let series_for = map_of (rev (map (\<lambda>s. (rs_axis_id s, s)) (br_series row)));
          axis_ids = (if fb_axis_ids block \<noteq> [] then fb_axis_ids block else first_keys (map rs_axis_id (br_series row)))
      in timeline_axes row axes series_for by_pair periods False axis_ids)"

text \<open>A cell's period is the first dictionary of its column with a key, else its header, else its address.\<close>

definition params_period_id :: "FinancialBlock \<Rightarrow> RoleCell \<Rightarrow> string" where
  "params_period_id block cell =
     (case find (\<lambda>(col, key). col = ro_col cell \<and> text_truthy key) (fb_periods block) of
        Some (col, key) \<Rightarrow> the key
      | None \<Rightarrow>
          if text_truthy (ro_header cell) then the (ro_header cell)
          else if ro_addr cell \<noteq> [] then ro_addr cell else format_addr (ro_col cell) 0)"

definition params_observation ::
  "FinancialBlock \<Rightarrow> BlockRow \<Rightarrow> pair_links \<Rightarrow> RowSeries option \<Rightarrow> nat \<Rightarrow> RoleCell \<Rightarrow> Observation" where
  "params_observation block row by_pair series index cell =
     (let period_id = params_period_id block cell;
          t = (case series of Some s \<Rightarrow> flat_option (seq_at (rs_values s) index) | None \<Rightarrow> ro_cached_value cell);
          status = (case series of Some s \<Rightarrow> seq_at (rs_value_statuses s) index | None \<Rightarrow> None);
          normalized = (case series of
                          Some s \<Rightarrow> flat_option (seq_at (rs_normalized_values s) index)
                        | None \<Rightarrow> flat_option (seq_at (br_normalized_values row) index));
          addr = (if ro_addr cell \<noteq> [] then ro_addr cell else format_addr (ro_col cell) (br_row row)) in
      case observed_cache t status of (value, value_status) \<Rightarrow>
        \<lparr>ob_row_key = br_row_key row, ob_label = br_label row, ob_period_id = period_id, ob_value = value,
         ob_value_status = value_status, ob_normalized_value = normalized, ob_scale_factor = br_scale_factor row,
         ob_scenario = (if ro_role cell = ''value'' \<and> text_truthy (ro_header cell) then ro_header cell else None),
         ob_unit = br_hints row, ob_formula = observation_formula row period_id addr by_pair, ob_sheet = br_sheet row,
         ob_cell = addr, ob_timeline = None\<rparr>)"

definition params_row :: "FinancialBlock \<Rightarrow> BlockRow \<Rightarrow> pair_links \<Rightarrow> string list \<Rightarrow> Observation list" where
  "params_row block row by_pair periods =
     (let cells = sort_key ro_col (filter (\<lambda>cell. ro_role cell \<in> {''value'', ''unknown''}) (br_cells row));
          series = find (\<lambda>s. rs_axis_id s = fb_block_id block \<or> rs_axis_id s \<in> set (fb_axis_ids block)) (br_series row)
      in map (\<lambda>(index, cell). params_observation block row by_pair series index cell)
           (filter (\<lambda>(index, cell). periods = [] \<or> params_period_id block cell \<in> set periods) (zip [0..<length cells] cells)))"

definition row_selected :: "BlockRow \<Rightarrow> string list \<Rightarrow> string \<Rightarrow> bool" where
  "row_selected row keys needle \<longleftrightarrow>
     (keys = [] \<or> br_row_key row \<in> set keys) \<and> (needle = [] \<or> own_label_contains (br_label row) needle)"

definition found_observations ::
  "ContextDocument \<Rightarrow> FormulaLink list \<Rightarrow> string list \<Rightarrow> string \<Rightarrow> string list \<Rightarrow> Observation list" where
  "found_observations context links keys needle periods =
     (let by_pair = links_by_pair links;
          axes = map_of (rev (map (\<lambda>axis. (cx_id axis, axis)) (cd_axes context))) in
      concat (map (\<lambda>block. concat (map (\<lambda>row.
          if fb_kind block = ''params'' then params_row block row by_pair periods
          else timeline_row block row axes by_pair periods)
        (filter (\<lambda>row. row_selected row keys needle) (fb_rows block)))) (cd_blocks context)))"

definition row_labels :: "ContextDocument \<Rightarrow> (string \<rightharpoonup> string)" where
  "row_labels context =
     map_of (concat (map (\<lambda>block. map (\<lambda>row. (br_row_key row, br_label row)) (fb_rows block)) (cd_blocks context)))"

definition with_label :: "ObservationPrecedent \<Rightarrow> (string \<rightharpoonup> string) \<Rightarrow> ObservationPrecedent" where
  "with_label precedent labels =
     (let label = (if text_truthy (op_row_key precedent) then labels (the (op_row_key precedent)) else None) in
      if op_label precedent = label then precedent else precedent\<lparr>op_label := label\<rparr>)"

definition add_precedents ::
  "(string \<Rightarrow> int \<Rightarrow> ObservationPrecedent list) \<Rightarrow> int \<Rightarrow> (string \<rightharpoonup> string) \<Rightarrow> Observation \<Rightarrow> Observation" where
  "add_precedents lookup depth labels item =
     (let walked = filter (\<lambda>node. 1 \<le> op_depth node) (lookup (ob_sheet item @ ''!'' @ ob_cell item) depth) in
      item\<lparr>ob_formula := (ob_formula item)\<lparr>of_precedents_total := length walked, of_precedents := map (\<lambda>node. with_label node labels) walked\<rparr>\<rparr>)"

text \<open>\<open>found[:limit]\<close>: a negative limit counts from the end.\<close>

definition slice_to :: "int \<Rightarrow> 'a list \<Rightarrow> 'a list" where
  "slice_to limit xs = take (if limit < 0 then length xs - nat (- limit) else nat limit) xs"

definition build_observations ::
  "ContextDocument \<Rightarrow> FormulaLink list \<Rightarrow> string list \<Rightarrow> string option \<Rightarrow> string list \<Rightarrow> int \<Rightarrow> int \<Rightarrow>
   (string \<Rightarrow> int \<Rightarrow> ObservationPrecedent list) option \<Rightarrow> ObservationDocument result" where
  "build_observations context links selected q period_ids depth limit lookup =
     (if selected = [] \<and> needle_of q = [] then Inl (ValueError ''selector_required'')
      else
        let found = found_observations context links selected (needle_of q) period_ids;
            kept = slice_to limit found;
            kept = (case lookup of
                      Some walk \<Rightarrow> if depth > 0 then map (add_precedents walk depth (row_labels context)) kept else kept
                    | None \<Rightarrow> kept)
        in Inr \<lparr>od_truncated = (int (length found) > limit), od_observations = kept\<rparr>)"

section \<open>Pages\<close>

text \<open>
  The pages of a catalog tile it: reading page after page with one limit gives the rows of the unlimited catalog in
  their order, none twice and none missing, and every page tells the same total.
\<close>

theorem catalog_pages_tile:
  "concat (map (\<lambda>p. kd_rows (build_catalog context q sheet (Some size_of_page) (int (p * size_of_page)))) [0..<n]) =
     take (n * size_of_page) (kd_rows (build_catalog context q sheet None 0))
   \<and> kd_total (build_catalog context q sheet (Some size_of_page) offset) = length (kd_rows (build_catalog context q sheet None 0))"
proof -
  have page: "kd_rows (build_catalog context q sheet (Some size_of_page) (int (p * size_of_page))) =
      take size_of_page (drop (p * size_of_page) (catalog_matched context q sheet))" for p
    by (simp add: build_catalog_def Let_def del: of_nat_mult)
  have "concat (map (\<lambda>p. take size_of_page (drop (p * size_of_page) xs)) [0..<n]) = take (n * size_of_page) xs" for xs :: "CatalogRow list"
  proof (induction n)
    case (Suc n)
    have "take (Suc n * size_of_page) xs = take (n * size_of_page) xs @ take size_of_page (drop (n * size_of_page) xs)"
      by (metis add.commute mult_Suc take_add)
    with Suc show ?case by simp
  qed simp
  then show ?thesis unfolding page by (simp add: build_catalog_def Let_def)
qed

section \<open>Periods of observations\<close>

definition asked_for :: "string list \<Rightarrow> Observation \<Rightarrow> bool" where
  "asked_for periods item \<longleftrightarrow> periods = [] \<or> ob_period_id item \<in> set periods"

lemma observation_period [simp]:
  "ob_period_id (timeline_observation row axis_id period by_pair t status normalized) = cp_period_key period"
  "ob_period_id (params_observation block row by_pair series index cell) = params_period_id block cell"
  by (simp_all add: timeline_observation_def params_observation_def Let_def split: prod.split)

lemma axis_observations_asked:
  "axis_observations row axis_id by_pair periods vs ss ns ps = filter (asked_for periods) (axis_observations row axis_id by_pair [] vs ss ns ps)"
  unfolding axis_observations_def filter_map
  by (intro arg_cong [where f = "map _"] filter_cong) (auto simp: asked_for_def comp_def)

lemma timeline_axes_asked:
  "timeline_axes row axes series_for by_pair periods used ids = filter (asked_for periods) (timeline_axes row axes series_for by_pair [] used ids)"
proof (induction ids arbitrary: used)
  case (Cons axis_id ids)
  note here = axis_observations_asked [of row axis_id by_pair periods]
  show ?case
    by (subst (1 2) timeline_axes.simps)
      (auto simp: Cons.IH [symmetric] here [symmetric] split: option.split)
qed simp

lemma params_row_asked: "params_row block row by_pair periods = filter (asked_for periods) (params_row block row by_pair [])"
  unfolding params_row_def Let_def filter_map
  by (intro arg_cong [where f = "map _"] filter_cong) (auto simp: asked_for_def comp_def)

lemma found_asked:
  "found_observations context links keys needle periods = filter (asked_for periods) (found_observations context links keys needle [])"
proof -
  have block: "concat (map (\<lambda>row. if fb_kind block = ''params'' then params_row block row by_pair periods
          else timeline_row block row axes by_pair periods) rows) =
      filter (asked_for periods) (concat (map (\<lambda>row. if fb_kind block = ''params'' then params_row block row by_pair []
          else timeline_row block row axes by_pair []) rows))" for block by_pair axes rows

    unfolding filter_concat map_map comp_def if_distrib [of "filter (asked_for periods)"] timeline_row_def Let_def
      params_row_asked [symmetric] timeline_axes_asked [symmetric] by (rule refl)
  show ?thesis unfolding found_observations_def Let_def block by (simp add: filter_concat comp_def)
qed

definition place_and_value :: "Observation \<Rightarrow> string \<times> string \<times> string \<times> string \<times> string option" where
  "place_and_value item = (ob_row_key item, ob_period_id item, ob_sheet item, ob_cell item, ob_value item)"

lemma add_precedents_place [simp]: "place_and_value (add_precedents walk depth labels item) = place_and_value item"
  by (simp add: place_and_value_def add_precedents_def Let_def)

lemma slice_to_nat [simp]: "slice_to (int n) xs = take n xs"
  by (simp add: slice_to_def)

text \<open>
  C26. Asking for periods filters: the observations of a request with periods are those of the request without them that have one of
  the periods, in the same order with the same values, cut at the limit (a Python slice) after the filter; the answer is marked truncated
  exactly when the limit cut something. Walking precedents changes none of this. Only a request without a
  selector is refused.
\<close>

theorem observations_by_period:
  "case build_observations context links selected q periods depth limit walk of
     Inl e \<Rightarrow> selected = [] \<and> needle_of q = [] \<and> e = ValueError ''selector_required''
   | Inr doc \<Rightarrow>
       let asked = filter (asked_for periods) (found_observations context links selected (needle_of q) []) in
       map place_and_value (od_observations doc) = map place_and_value (slice_to limit asked)
       \<and> (od_truncated doc \<longleftrightarrow> limit < int (length asked))"
  using found_asked [of "context" links selected "needle_of q" periods, symmetric]
  by (simp add: build_observations_def Let_def comp_def slice_to_def split: option.split)

section \<open>A formula of another cell\<close>

text \<open>
  A row with a formula in one column and a constant in another, both of the same period: the observation of
  the constant in \<open>C5\<close> carries the formula of \<open>B5\<close>.
\<close>

definition no_hints :: RowHints where "no_hints = \<lparr>rh_unit = None, rh_currency = None, rh_scale = None\<rparr>"

definition plan_row :: BlockRow where
  "plan_row =
     \<lparr>br_row_key = ''S|5|b'', br_sheet = ''S'', br_row = 5, br_label = ''Revenue'', br_label_path = [], br_kind = ''fact'', br_formula = None,
      br_hints = no_hints, br_cells = [], br_scale_factor = None, br_values = [Some ''20'', Some ''7''], br_value_statuses = [],
      br_normalized_values = [], br_series = []\<rparr>"

definition plan_document :: ContextDocument where
  "plan_document =
     \<lparr>cd_axes = [\<lparr>cx_id = ''t'', cx_sheet = ''S'', cx_grain = Some ''year'',
        cx_periods = map (\<lambda>col. \<lparr>cp_col = col, cp_period_key = ''2025'', cp_group_key = None, cp_start_date = None, cp_end_date = None,
          cp_flags = []\<rparr>) [2, 3]\<rparr>],
      cd_blocks = [\<lparr>fb_block_id = ''b'', fb_kind = ''timeline'', fb_axis_ids = [''t''], fb_periods = [], fb_rows = [plan_row]\<rparr>]\<rparr>"

definition plan_link :: FormulaLink where
  "plan_link = \<lparr>fl_cell = ''S!B5'', fl_formula = Some ''=B3*B4'', fl_class = None, fl_refs = [], fl_row_key = Some ''S|5|b'', fl_period_id = Some ''2025''\<rparr>"

lemma constant_shown_with_formula:
  "map (\<lambda>item. (ob_cell item, ob_value item, of_text (ob_formula item)))
     (found_observations plan_document [plan_link] [''S|5|b''] [] []) =
   [(''B5'', Some ''20'', Some ''=B3*B4''), (''C5'', Some ''7'', Some ''=B3*B4'')]"
  by code_simp

end
