(* ===== verification/Published_Axes.thy ===== *)
theory Published_Axes
  imports Timelines Projections
begin

text \<open>
  The published axes of the context document, \<open>context/timeline.py\<close> without the warnings about unparsed headers, and the
  normalised labels of \<open>layout/normalize.py\<close>. Every flag row of a table becomes one boolean per period under a key of its own;
  the theorem says that these keys never collide and that all periods of an axis have the same ones.
\<close>

section \<open>Normalised labels\<close>

text \<open>Maximal runs of word characters and of other characters.\<close>

fun add_char :: "char \<Rightarrow> (bool \<times> string) list \<Rightarrow> (bool \<times> string) list" where
  "add_char c [] = [(re_word c, [c])]"
| "add_char c ((word, s) # runs) = (if re_word c = word then (word, c # s) # runs else (re_word c, [c]) # (word, s) # runs)"

definition word_runs :: "string \<Rightarrow> (bool \<times> string) list" where
  "word_runs s = foldr add_char s []"

definition QUALIFIERS :: "string set" where
  "QUALIFIERS = {''fixed'', ''variable'', ''accrual'', ''lumpy'', ''cash'', ''proxy'', ''constant'', ''cost'', ''costs''}"

definition METRIC_ACRONYMS :: "string set" where
  "METRIC_ACRONYMS =
     {''capex'', ''cfads'', ''coc'', ''dscr'', ''dsra'', ''ebit'', ''ebitda'', ''fcf'', ''fcfe'', ''fcff'', ''irr'', ''llcr'', ''npv'', ''nwc'',
      ''opex'', ''plcr'', ''wacc''}"

text \<open>\<open>\\b[A-Za-z]{2,10}\\b\<close> finds the words that consist of two to ten letters.\<close>

definition paren_tokens :: "string \<Rightarrow> string list" where
  "paren_tokens blob =
     concat (map (\<lambda>(word, raw).
       if word \<and> list_all re_letter raw \<and> 2 \<le> length raw \<and> length raw \<le> 10
          \<and> (casefold raw \<in> QUALIFIERS \<or> casefold raw \<in> METRIC_ACRONYMS \<or> list_all ascii_upper raw)
       then [casefold raw] else []) (word_runs blob))"

text \<open>The brackets of a text and the text with a space for each; \<open>open_part\<close> is a bracket that is not closed.\<close>

function split_parens :: "string \<Rightarrow> string list \<times> string" where
  "split_parens s =
     (let before = takeWhile (\<lambda>c. c \<noteq> CHR ''('') s; rest = dropWhile (\<lambda>c. c \<noteq> CHR ''('') s;
          inner = takeWhile (\<lambda>c. c \<noteq> CHR '')'') rest; after = dropWhile (\<lambda>c. c \<noteq> CHR '')'') rest in
      if rest = [] \<or> after = [] then ([], s)
      else case split_parens (drop 1 after) of (parens, kept) \<Rightarrow> ((inner @ '')'') # parens, before @ '' '' @ kept))"
  by pat_completeness auto
termination
proof (relation "measure length")
  fix s before rest inner after :: string
  assume "rest = dropWhile (\<lambda>c. c \<noteq> CHR ''('') s" "after = dropWhile (\<lambda>c. c \<noteq> CHR '')'') rest" "\<not> (rest = [] \<or> after = [])"
  then have "length after \<le> length rest" "length rest \<le> length s" "after \<noteq> []" by (simp_all add: length_dropWhile_le)
  then show "(drop 1 after, s) \<in> measure length" by (cases after) auto
qed simp

declare split_parens.simps [simp del]

definition squeeze_space :: "string \<Rightarrow> string" where
  "squeeze_space s = foldr (\<lambda>c acc. if py_isspace c then (if take 1 acc = '' '' then acc else CHR '' '' # acc) else c # acc) s []"

definition replace_char :: "char \<Rightarrow> string \<Rightarrow> string \<Rightarrow> string" where
  "replace_char c new s = concat (map (\<lambda>d. if d = c then new else [d]) s)"

definition normalize_label :: "string \<Rightarrow> string" where
  "normalize_label label =
     (if label = [] then []
      else
        let prepared = replace_char (CHR ''/'') '' '' (replace_char (CHR ''+'') '' '' (replace_char (CHR ''&'') '' and '' label));
            (parens, outer) = split_parens prepared;
            before = takeWhile (\<lambda>c. c \<noteq> CHR ''('') outer; open_part = dropWhile (\<lambda>c. c \<noteq> CHR ''('') outer;
            extras = concat (map paren_tokens parens) @ paren_tokens open_part;
            outer = (if open_part = [] then outer else before @ '' '');
            normalized = casefold (py_strip (squeeze_space outer));
            normalized = concat (map (\<lambda>(word, run). if run \<in> {''cashflow'', ''cashflows''} then ''cash flow'' else run) (word_runs normalized))
        in if extras = [] then normalized
           else py_strip (squeeze_space (normalized @ '' '' @ concat (map (\<lambda>(i, e). if i = 0 then e else CHR '' '' # e) (enumerate_from_0 extras)))))"

section \<open>Keys of flag rows\<close>

function unused_key_from :: "string \<Rightarrow> string list \<Rightarrow> int \<Rightarrow> nat \<Rightarrow> string" where
  "unused_key_from key used row number =
     (let candidate = key @ '' '' @ int_str row @ '' '' @ nat_str number in
      if candidate \<in> set used then unused_key_from key used row (Suc number) else candidate)"
  by pat_completeness auto
termination
proof (relation "measure (\<lambda>(key, used, row, number). card (set used \<inter> (\<lambda>n. key @ '' '' @ int_str row @ '' '' @ nat_str n) ` {number..}))")
  fix key row number candidate and used :: "string list"
  assume c: "candidate = key @ '' '' @ int_str row @ '' '' @ nat_str number" "candidate \<in> set used"
  let ?f = "\<lambda>n. key @ '' '' @ int_str row @ '' '' @ nat_str n"
  have "candidate \<notin> ?f ` {Suc number..}" using c(1) by auto
  moreover have "candidate \<in> ?f ` {number..}" using c(1) by auto
  ultimately have "set used \<inter> ?f ` {Suc number..} \<subset> set used \<inter> ?f ` {number..}" using c(2) by auto
  then show "((key, used, row, Suc number), key, used, row, number)
      \<in> measure (\<lambda>(key, used, row, number). card (set used \<inter> (\<lambda>n. key @ '' '' @ int_str row @ '' '' @ nat_str n) ` {number..}))"
    by (simp add: psubset_card_mono)
qed simp

declare unused_key_from.simps [simp del]

definition unused_flag_key :: "string \<Rightarrow> string list \<Rightarrow> int \<Rightarrow> string" where
  "unused_flag_key key used row =
     (if key \<notin> set used then key
      else let candidate = key @ '' '' @ int_str row in
           if candidate \<notin> set used then candidate else unused_key_from key used row 2)"

definition flag_base :: "LayoutRow \<Rightarrow> string" where
  "flag_base row = (if normalize_label (lr_label row) = [] then ''row '' @ int_str (lr_row row) else normalize_label (lr_label row))"

definition preceding_flag_key :: "string list \<Rightarrow> string list \<Rightarrow> nat \<Rightarrow> string option" where
  "preceding_flag_key bases keys index =
     (case filter (\<lambda>earlier. bases ! earlier \<noteq> bases ! index) (rev [0..<index]) of [] \<Rightarrow> None | earlier # _ \<Rightarrow> Some (keys ! earlier))"

definition next_flag_key :: "string list \<Rightarrow> string list \<Rightarrow> LayoutRow \<Rightarrow> string" where
  "next_flag_key bases keys row =
     (let index = length keys; base = bases ! index;
          key = (if length (filter (\<lambda>b. b = base) bases) = 1 then base
                 else case preceding_flag_key bases keys index of
                        Some qualifier \<Rightarrow> if qualifier = [] then base @ '' '' @ int_str (lr_row row) else base @ '' ('' @ qualifier @ '')''
                      | None \<Rightarrow> base @ '' '' @ int_str (lr_row row))
      in unused_flag_key key keys (lr_row row))"

definition flag_keys :: "LayoutRow list \<Rightarrow> string list" where
  "flag_keys rows = foldl (\<lambda>keys row. keys @ [next_flag_key (map flag_base rows) keys row]) [] rows"


section \<open>Axes of the document\<close>

text \<open>The remaining fields of a published period and axis.\<close>

record PublishedPeriod = ContextPeriod +
  pp_text :: string
  pp_index :: nat
  pp_calendar_year :: "string option"
  pp_hidden :: bool

record PublishedAxis =
  pa_id :: string
  pa_sheet :: string
  pa_grain :: "string option"
  pa_header_row :: int
  pa_timeline_id :: "string option"
  pa_periods :: "PublishedPeriod list"

type_synonym cell_lookup = "string \<Rightarrow> int \<Rightarrow> int \<Rightarrow> SheetCell option"

definition flag_on :: "(string \<Rightarrow> bool) \<Rightarrow> SheetCell option \<Rightarrow> bool" where
  "flag_on near_one cell =
     (case cell of
        None \<Rightarrow> False
      | Some c \<Rightarrow>
          let shown = (case sc_shown c of None \<Rightarrow> sc_cached c | Some t \<Rightarrow> t);
              blob = map (\<lambda>ch. if ch = CHR '','' then CHR ''.'' else ch) (py_strip shown)
          in blob \<in> {''1'', ''1.0'', ''true'', ''yes''} \<or> near_one blob)"

definition flag_rows :: "SheetLayout \<Rightarrow> TimeAxis \<Rightarrow> LayoutRow list" where
  "flag_rows sheet axis =
     concat (map (\<lambda>block. filter (\<lambda>row. lr_kind row = ''flag'') (bl_rows block))
       (filter (\<lambda>block. bl_kind block = ''timeline'' \<and>
          (ta_id axis \<in> set (bl_axis_ids block) \<or> (\<exists>a. bl_axis block = Some a \<and> ax_id a = ta_id axis))) (sl_blocks sheet)))"

definition calendar_year :: "string option \<Rightarrow> string \<Rightarrow> string option" where
  "calendar_year grain period_key =
     (if is_calendar_key (Some period_key) \<and> 4 \<le> length period_key \<and> list_all py_isdigit (take 4 period_key) then Some (take 4 period_key)
      else if text_truthy grain \<and> take 6 (the grain) \<noteq> ''model_'' then Some period_key
      else None)"

definition annotate_period ::
  "(string \<Rightarrow> bool) \<Rightarrow> cell_lookup \<Rightarrow> string \<Rightarrow> string option \<Rightarrow> LayoutRow list \<Rightarrow> nat \<Rightarrow> AxisPeriod \<Rightarrow> PublishedPeriod" where
  "annotate_period near_one by_addr sheet_title grain flags index header =
     \<lparr>cp_col = ap_col header, cp_period_key = ap_period_key header, cp_group_key = ap_group_key header,
      cp_start_date = ap_start_date header, cp_end_date = ap_end_date header,
      cp_flags = zip (flag_keys flags) (map (\<lambda>row. flag_on near_one (by_addr sheet_title (lr_row row) (ap_col header))) flags),
      pp_text = ap_text header, pp_index = index, pp_calendar_year = calendar_year grain (ap_period_key header), pp_hidden = ap_hidden header\<rparr>"

definition annotate_axis ::
  "(string \<Rightarrow> bool) \<Rightarrow> cell_lookup \<Rightarrow> string \<Rightarrow> TimeAxis \<Rightarrow> LayoutRow list \<Rightarrow> PublishedAxis option" where
  "annotate_axis near_one by_addr sheet_title axis flags =
     (let headers = timeline_periods axis in
      if headers = [] then None
      else
        let periods = map (\<lambda>(index, header). annotate_period near_one by_addr sheet_title (ta_grain axis) flags index header)
              (zip [1..<Suc (length headers)] headers);
            live = concat (map (\<lambda>p. map fst (filter snd (cp_flags p))) periods);
            periods = map (\<lambda>p. p\<lparr>cp_flags := filter (\<lambda>(name, on). name \<in> set live) (cp_flags p)\<rparr>) periods
        in Some \<lparr>pa_id = ta_id axis, pa_sheet = sheet_title, pa_grain = ta_grain axis, pa_header_row = ta_header_row axis,
             pa_timeline_id = None, pa_periods = periods\<rparr>)"

definition published_axis_ids :: "Layout \<Rightarrow> string list" where
  "published_axis_ids sheets =
     concat (map (\<lambda>sheet. concat (map (\<lambda>block.
        if bl_axis_ids block \<noteq> [] then bl_axis_ids block
        else (case bl_axis block of Some a \<Rightarrow> [ax_id a] | None \<Rightarrow> [])) (sl_blocks sheet))) sheets)"

definition timeline_links :: "(string \<times> string) list \<Rightarrow> Block \<Rightarrow> (string \<times> string) list" where
  "timeline_links links block =
     (let local = bl_axis_ids block;
          shared = (if length (bl_timeline_ids block) \<noteq> length local then local else bl_timeline_ids block);
          links = foldl (\<lambda>links (axis_id, timeline_id). AList.update axis_id timeline_id links) links (zip local shared)
      in case bl_axis block of
           Some a \<Rightarrow> if local = [] then dict_setdefault (ax_id a) (ax_id a) links else links
         | None \<Rightarrow> links)"

definition timeline_of :: "Layout \<Rightarrow> (string \<times> string) list" where
  "timeline_of sheets = foldl timeline_links [] (concat (map sl_blocks sheets))"

fun first_axes :: "string list \<Rightarrow> TimeAxis list \<Rightarrow> TimeAxis list" where
  "first_axes seen [] = []"
| "first_axes seen (axis # axes) =
     (if ta_id axis \<in> set seen then first_axes seen axes else axis # first_axes (ta_id axis # seen) axes)"

definition sheet_axes :: "SheetLayout \<Rightarrow> TimeAxis list" where
  "sheet_axes sheet =
     (if sl_axes sheet \<noteq> [] then sl_axes sheet else first_axes [] (concat (map (axes_for sheet) (sl_blocks sheet))))"

text \<open>The warnings about headers that look like periods are the argument \<open>unparsed\<close>; the notes of the axes follow them.\<close>

definition build_axes :: "(string \<Rightarrow> bool) \<Rightarrow> cell_lookup \<Rightarrow> string list \<Rightarrow> Layout \<Rightarrow> PublishedAxis list \<times> string list" where
  "build_axes near_one by_addr unparsed sheets =
     (let published = published_axis_ids sheets; links = timeline_of sheets in
      (concat (map (\<lambda>sheet. concat (map (\<lambda>axis.
           if ta_id axis \<notin> set published then []
           else case annotate_axis near_one by_addr (sl_name sheet) axis (flag_rows sheet axis) of
                  None \<Rightarrow> []
                | Some built \<Rightarrow> [built\<lparr>pa_timeline_id := Some (dict_get links (pa_id built) (pa_id built))\<rparr>]) (sheet_axes sheet))) sheets),
       unparsed @ concat (map (\<lambda>sheet. concat (map (\<lambda>axis. if ta_id axis \<in> set published then ta_notes axis else []) (sl_axes sheet))) sheets)))"

section \<open>Flags of an axis\<close>

lemma unused_key_from_new: "unused_key_from key used row number \<notin> set used"
  by (induction key used row number rule: unused_key_from.induct) (subst unused_key_from.simps, simp add: Let_def)

lemma unused_flag_key_new: "unused_flag_key key used row \<notin> set used"
  by (simp add: unused_flag_key_def Let_def unused_key_from_new)

lemma flag_keys_spec: "length (flag_keys rows) = length rows \<and> distinct (flag_keys rows)"
proof -
  have "length (foldl (\<lambda>keys row. keys @ [next_flag_key bases keys row]) keys rows) = length keys + length rows
      \<and> (distinct keys \<longrightarrow> distinct (foldl (\<lambda>keys row. keys @ [next_flag_key bases keys row]) keys rows))" for bases keys
  proof (induction rows arbitrary: keys)
    case (Cons row rows)
    have "next_flag_key bases keys row \<notin> set keys" by (simp add: next_flag_key_def Let_def unused_flag_key_new)
    with Cons [of "keys @ [next_flag_key bases keys row]"] show ?case by simp
  qed simp
  from this [of "map flag_base rows" "[]"] show ?thesis by (simp add: flag_keys_def)
qed

lemma live_names:
  "set (concat (map (\<lambda>p. map fst (filter snd (flag_map p))) (map (\<lambda>(i, h). annotate i h) zs))) =
   {key. \<exists>z \<in> set zs. (key, True) \<in> set (flag_map (annotate (fst z) (snd z)))}"
  by (force simp: image_iff)

lemma live_pairs:
  "{key. \<exists>z \<in> zs. (key, True) \<in> set (map (\<lambda>(key, row). (key, on row (snd z))) ws)} =
   {key. \<exists>row h. (key, row) \<in> set ws \<and> h \<in> snd ` zs \<and> on row h}"
proof -
  have "(key, True) \<in> set (map (\<lambda>(key, row). (key, on row h)) ws) \<longleftrightarrow> (\<exists>row. (key, row) \<in> set ws \<and> on row h)" for key h
    by (force simp: image_iff)
  then show ?thesis by blast
qed

lemma alive_rows:
  assumes "distinct (map fst ws)"
  shows "filter (\<lambda>(key, row). key \<in> {key. \<exists>row h. (key, row) \<in> set ws \<and> h \<in> set hs \<and> on row h}) ws =
    filter (\<lambda>(key, row). list_ex (on row) hs) ws"
proof (rule filter_cong [OF refl])
  fix w
  assume w: "w \<in> set ws"
  have "row = snd w" if "(fst w, row) \<in> set ws" for row
    using eq_key_imp_eq_value [OF assms that] w by simp
  then show "(case w of (key, row) \<Rightarrow> key \<in> {key. \<exists>row h. (key, row) \<in> set ws \<and> h \<in> set hs \<and> on row h}) =
      (case w of (key, row) \<Rightarrow> list_ex (on row) hs)"
    using w by (auto simp: case_prod_beta list_ex_iff) (metis prod.collapse)
qed

text \<open>
  C27. A published axis is well formed: it has the value columns of its axis in order, numbered from 1, and all its
  periods carry the same flag keys in the same order, none twice, whatever the labels of the flag rows are. A key is
  published exactly when it belongs to a flag row that is on in some period of the axis.
\<close>

theorem published_axis_well_formed:
  "case annotate_axis near_one by_addr sheet_title axis flags of
     None \<Rightarrow> timeline_periods axis = []
   | Some built \<Rightarrow>
       map cp_col (pa_periods built) = map ap_col (timeline_periods axis)
       \<and> map pp_index (pa_periods built) = [1..<Suc (length (timeline_periods axis))]
       \<and> (let live = filter (\<lambda>(key, row). list_ex (\<lambda>header. flag_on near_one (by_addr sheet_title (lr_row row) (ap_col header)))
                 (timeline_periods axis)) (zip (flag_keys flags) flags) in
          distinct (map fst live) \<and> list_all (\<lambda>p. map fst (cp_flags p) = map fst live) (pa_periods built))"
proof (cases "timeline_periods axis = []")
  case True
  then show ?thesis by (simp add: annotate_axis_def)
next
  case False
  let ?headers = "timeline_periods axis" and ?keys = "flag_keys flags"
  let ?on = "\<lambda>row header. flag_on near_one (by_addr sheet_title (lr_row row) (ap_col header))"
  define alive where "alive = filter (\<lambda>(key, row). list_ex (?on row) ?headers) (zip ?keys flags)"
  define zs where "zs = zip [1..<Suc (length ?headers)] ?headers"
  define annotate where "annotate = annotate_period near_one by_addr sheet_title (ta_grain axis) flags"
  define periods where "periods = map (\<lambda>(index, header). annotate index header) zs"
  define live where "live = set (concat (map (\<lambda>p. map fst (filter snd (cp_flags p))) periods))"
  have keys: "length ?keys = length flags" "distinct ?keys" using flag_keys_spec by simp_all
  have flags_of: "cp_flags (annotate i h) = map (\<lambda>(key, row). (key, ?on row h)) (zip ?keys flags)" for i h
    by (simp add: annotate_def annotate_period_def zip_map2)
  have indices: "map fst zs = [1..<Suc (length ?headers)]" unfolding zs_def by (rule map_fst_zip) (simp del: upt_Suc)
  have second: "map snd zs = ?headers" unfolding zs_def by (rule map_snd_zip) (simp del: upt_Suc)
  have headers: "set ?headers = snd ` set zs" by (simp flip: set_map add: second)
  have live_set: "live = {key. \<exists>row h. (key, row) \<in> set (zip ?keys flags) \<and> h \<in> set ?headers \<and> ?on row h}"
    unfolding live_def periods_def live_names headers flags_of by (rule live_pairs)
  have shown: "map fst (filter (\<lambda>(name, on). name \<in> live) (cp_flags (annotate i h))) = map fst alive" for i h
  proof -
    have "map fst (filter (\<lambda>(name, on). name \<in> live) (cp_flags (annotate i h))) =
        map fst (filter (\<lambda>(key, row). key \<in> live) (zip ?keys flags))"
      by (simp only: flags_of filter_map map_map) (simp add: comp_def case_prod_unfold)
    also have "filter (\<lambda>(key, row). key \<in> live) (zip ?keys flags) = alive"
      unfolding alive_def live_set by (rule alive_rows) (simp add: keys)
    finally show ?thesis .
  qed
  have "distinct (map fst alive)" unfolding alive_def by (rule distinct_map_filter) (simp add: keys)
  moreover have "map cp_col periods = map ap_col ?headers"
    by (simp add: periods_def annotate_def annotate_period_def case_prod_beta flip: second)
  moreover have "map pp_index periods = [1..<Suc (length ?headers)]"
    by (simp add: periods_def annotate_def annotate_period_def case_prod_beta comp_def indices del: upt_Suc)
  moreover have "annotate_axis near_one by_addr sheet_title axis flags = Some \<lparr>pa_id = ta_id axis, pa_sheet = sheet_title,
      pa_grain = ta_grain axis, pa_header_row = ta_header_row axis, pa_timeline_id = None,
      pa_periods = map (\<lambda>p. p\<lparr>cp_flags := filter (\<lambda>(name, on). name \<in> live) (cp_flags p)\<rparr>) periods\<rparr>"
    using False unfolding annotate_axis_def live_def periods_def zs_def annotate_def by (simp only: Let_def if_False)
  ultimately show ?thesis
    by (simp add: comp_def list_all_iff periods_def case_prod_beta shown alive_def [symmetric] del: upt_Suc)
qed

text \<open>
  The layout and the document read a flag differently: for sharing timelines the text is folded to lower case, for
  the published flags it is not.
\<close>

lemma flag_case_differs:
  "let cell = Some \<lparr>sc_col = 2, sc_shown = Some ''TRUE'', sc_cached = ''TRUE'', sc_formula = []\<rparr> in
   flag_bit (\<lambda>_. False) cell \<and> \<not> flag_on (\<lambda>_. False) cell"
  by code_simp

lemma normalize_label_examples:
  "normalize_label ''Opex & Capex (fixed, net, IRR)'' = ''opex and capex fixed irr''"
  "normalize_label ''Total CashFlows (open'' = ''total cash flow''"
  by code_simp+

end
