(* ===== verification/Header_Axes.thy ===== *)
theory Header_Axes
  imports Timelines
begin

text \<open>
  Choosing the time axes of a sheet, the part of \<open>layout/axes.py\<close> that works on headers which are read already: splitting a header
  row into runs, telling repeated period keys apart, folding year banners into finer axes, keeping the dominant axes, and the
  longest runs of equal formulas and of counting integers. The theorems: a run only bridges hidden columns and never mixes
  key classes; keys tell periods apart exactly by base key and marker; folding fills group keys and changes nothing else; a
  found run is a longest one.
\<close>

section \<open>Runs of headers\<close>

definition cols_connected :: "int \<Rightarrow> int \<Rightarrow> int list \<Rightarrow> bool" where
  "cols_connected left right hidden_cols =
     (if right = left + 1 then True
      else if right \<le> left + 1 then False
      else list_all (\<lambda>col. col \<in> set hidden_cols) [left + 1..right - 1])"

definition relative_step :: "string \<Rightarrow> (char \<times> int) option" where
  "relative_step key =
     (case key of c # ds \<Rightarrow> if c \<in> set ''YQMP'' \<and> ds \<noteq> [] \<and> list_all re_digit ds then Some (c, num ds) else None | [] \<Rightarrow> None)"

definition calendar_continues :: "string \<Rightarrow> string \<Rightarrow> bool" where
  "calendar_continues left right =
     (case (parse_period_key left, parse_period_key right) of
        ((Some left_year, lq, lm, ld), (Some right_year, rq, rm, rd)) \<Rightarrow>
          let y1 = num left_year; y2 = num right_year in
          if nonzero ld \<and> nonzero rd \<and> nonzero lm \<and> nonzero rm then
            (case (make_date y1 (the lm) (the ld), make_date y2 (the rm) (the rd)) of
               (Some d1, Some d2) \<Rightarrow> toordinal d2 - toordinal d1 \<in> {1, 7, 14}
             | _ \<Rightarrow> False)
          else if nonzero lq \<and> nonzero rq then y2 * 4 + the rq = y1 * 4 + the lq + 1
          else if nonzero lm \<and> nonzero rm \<and> \<not> nonzero ld \<and> \<not> nonzero rd then y2 * 12 + the rm = y1 * 12 + the lm + 1
          else if lq = None \<and> rq = None \<and> lm = None \<and> rm = None \<and> ld = None \<and> rd = None then y2 = y1 + 1
          else False
      | _ \<Rightarrow> False)"

definition half_step :: "string \<Rightarrow> int option" where
  "half_step key = map_option (\<lambda>(y, h). num y * 2 + num h) (half_key key)"

definition period_continues :: "string \<Rightarrow> string \<Rightarrow> bool" where
  "period_continues left right =
     (case (relative_step left, relative_step right) of
        (Some (c1, n1), Some (c2, n2)) \<Rightarrow> if c1 = c2 then n2 = n1 + 1 else calendar_continues left right
      | _ \<Rightarrow>
        (case (half_step left, half_step right) of
           (Some n1, Some n2) \<Rightarrow> n2 = n1 + 1
         | _ \<Rightarrow> calendar_continues left right))"

definition run_continues :: "AxisHeader list \<Rightarrow> bool" where
  "run_continues headers = list_all (\<lambda>(left, right). period_continues (ah_period_key left) (ah_period_key right)) (zip headers (drop 1 headers))"

definition header_key_class :: "string \<Rightarrow> string" where
  "header_key_class key =
     (if length key = 4 \<and> list_all py_isdigit key then ''year''
      else if 7 \<le> length key \<and> key ! 4 = CHR ''-'' then ''date''
      else if take 1 key \<in> {''Y'', ''Q'', ''M'', ''P''} \<and> drop 1 key \<noteq> [] \<and> list_all py_isdigit (drop 1 key) then ''relative''
      else ''other'')"

definition header_gap :: "int list \<Rightarrow> AxisHeader list \<Rightarrow> AxisHeader \<Rightarrow> bool" where
  "header_gap bridge run item =
     (let prev = last run;
          physical_gap = ah_col item - ah_col prev > 1;
          bridged = physical_gap \<and> cols_connected (ah_col prev) (ah_col item) bridge;
          hidden_only = list_all (\<lambda>header. ah_col header \<in> set bridge) run;
          continues = period_continues (ah_period_key prev) (ah_period_key item) \<and> (\<not> hidden_only \<or> run_continues run)
      in physical_gap \<and> (\<not> bridged \<or> (hidden_only \<and> \<not> continues)))"

definition grain_break :: "AxisHeader \<Rightarrow> AxisHeader \<Rightarrow> bool" where
  "grain_break prev item =
     (let left_cls = header_key_class (ah_period_key prev); right_cls = header_key_class (ah_period_key item)
      in left_cls \<noteq> right_cls \<and> ''other'' \<notin> {left_cls, right_cls})"

definition run_breaks :: "int list \<Rightarrow> AxisHeader list \<Rightarrow> AxisHeader \<Rightarrow> bool" where
  "run_breaks bridge run item \<longleftrightarrow> header_gap bridge run item \<or> grain_break (last run) item"

text \<open>The loop over the sorted headers; the argument is the last run.\<close>

fun runs_from :: "int list \<Rightarrow> AxisHeader list \<Rightarrow> AxisHeader list \<Rightarrow> AxisHeader list list" where
  "runs_from bridge run [] = [run]"
| "runs_from bridge run (item # items) =
     (if run_breaks bridge run item then run # runs_from bridge [item] items else runs_from bridge (run @ [item]) items)"

definition split_header_runs :: "AxisHeader list \<Rightarrow> int list \<Rightarrow> AxisHeader list list" where
  "split_header_runs headers hidden_cols =
     (case sort_key ah_col headers of
        [] \<Rightarrow> []
      | first # ordered \<Rightarrow> filter (\<lambda>run. 2 \<le> length run) (runs_from hidden_cols [first] ordered))"

text \<open>What holds between the part of a run before a header and that header.\<close>

definition joins :: "int list \<Rightarrow> AxisHeader list \<Rightarrow> AxisHeader \<Rightarrow> bool" where
  "joins bridge run item \<longleftrightarrow>
     (ah_col item \<le> ah_col (last run) + 1
        \<or> (\<forall>col. ah_col (last run) < col \<and> col < ah_col item \<longrightarrow> col \<in> set bridge)
           \<and> ((\<forall>h \<in> set run. ah_col h \<in> set bridge) \<longrightarrow> run_continues (run @ [item])))
     \<and> (header_key_class (ah_period_key (last run)) = header_key_class (ah_period_key item)
        \<or> ''other'' \<in> {header_key_class (ah_period_key (last run)), header_key_class (ah_period_key item)})"

definition run_ok :: "int list \<Rightarrow> AxisHeader list \<Rightarrow> bool" where
  "run_ok bridge run \<longleftrightarrow> run \<noteq> [] \<and> (\<forall>n. 0 < n \<and> n < length run \<longrightarrow> joins bridge (take n run) (run ! n))"

lemma run_continues_snoc:
  assumes "run \<noteq> []"
  shows "run_continues (run @ [item]) \<longleftrightarrow> run_continues run \<and> period_continues (ah_period_key (last run)) (ah_period_key item)"
proof -
  have "zip (run @ [item]) (drop 1 (run @ [item])) = zip run (drop 1 run) @ [(last run, item)]" if "run \<noteq> []" for run :: "AxisHeader list"
    using that
  proof (induction run)
    case (Cons h run)
    then show ?case by (cases run) auto
  qed simp
  from this [OF assms] show ?thesis by (simp add: run_continues_def)
qed

lemma not_breaks_joins:
  assumes "run \<noteq> []" "\<not> run_breaks bridge run item"
  shows "joins bridge run item"
proof -
  have "cols_connected left right bridge \<Longrightarrow> left < col \<Longrightarrow> col < right \<Longrightarrow> col \<in> set bridge" for left right col
    by (auto simp: cols_connected_def list_all_iff split: if_splits)
  moreover have "grain_break (last run) item = False" "\<not> header_gap bridge run item" using assms(2) by (auto simp: run_breaks_def)
  ultimately show ?thesis
    unfolding joins_def using assms(1)
    by (auto simp: header_gap_def grain_break_def Let_def run_continues_snoc list_all_iff)
qed

lemma run_ok_snoc:
  assumes "run_ok bridge run" "\<not> run_breaks bridge run item"
  shows "run_ok bridge (run @ [item])"
proof -
  have "joins bridge (take n (run @ [item])) ((run @ [item]) ! n)" if "0 < n" "n < Suc (length run)" for n
  proof (cases "n = length run")
    case True
    then show ?thesis using not_breaks_joins [OF _ assms(2)] assms(1) by (simp add: run_ok_def)
  next
    case False
    then show ?thesis using that assms(1) by (simp add: run_ok_def nth_append)
  qed
  then show ?thesis by (simp add: run_ok_def)
qed

lemma runs_from_spec:
  assumes "run_ok bridge run"
  shows "concat (runs_from bridge run items) = run @ items \<and> list_all (run_ok bridge) (runs_from bridge run items)
    \<and> successively (\<lambda>r1 r2. run_breaks bridge r1 (hd r2)) (runs_from bridge run items)
    \<and> (\<exists>rest more_runs. runs_from bridge run items = (run @ rest) # more_runs)"
  using assms
proof (induction bridge run items rule: runs_from.induct)
  case (2 bridge run item items)
  show ?case
  proof (cases "run_breaks bridge run item")
    case True
    have "run_ok bridge [item]" by (simp add: run_ok_def)
    with 2(1) True obtain rest more_runs where
      "concat (runs_from bridge [item] items) = item # items" "list_all (run_ok bridge) (runs_from bridge [item] items)"
      "successively (\<lambda>r1 r2. run_breaks bridge r1 (hd r2)) (runs_from bridge [item] items)"
      "runs_from bridge [item] items = (item # rest) # more_runs" by auto
    with True 2(3) show ?thesis by simp
  next
    case False
    with 2(2) 2(3) run_ok_snoc obtain rest more_runs where
      "concat (runs_from bridge (run @ [item]) items) = run @ item # items"
      "list_all (run_ok bridge) (runs_from bridge (run @ [item]) items)"
      "successively (\<lambda>r1 r2. run_breaks bridge r1 (hd r2)) (runs_from bridge (run @ [item]) items)"
      "runs_from bridge (run @ [item]) items = (run @ item # rest) # more_runs" by auto
    with False show ?thesis by simp
  qed
qed simp

text \<open>
  C23. The runs of a header row are stretches of its headers in column order, each at least two wide and broken off only for a
  reason: every header of the row is in one run of a partition of which only the single headers are dropped. Inside a
  run two neighbours are adjacent or all columns between them are hidden; a run whose columns so far are all hidden crosses
  a gap only as one unbroken sequence of periods; and two neighbours are of one key class (year, date, relative) unless
  one of them is of none of these (\<open>other\<close>, as the keys of quarters and half-years are). The classes are compared between neighbours only, so a
  whole run may hold several.
\<close>

theorem header_runs_partition:
  "\<exists>runs. concat runs = sort_key ah_col headers
     \<and> split_header_runs headers hidden_cols = filter (\<lambda>run. 2 \<le> length run) runs
     \<and> list_all (run_ok hidden_cols) runs
     \<and> successively (\<lambda>r1 r2. run_breaks hidden_cols r1 (hd r2)) runs"
proof (cases "sort_key ah_col headers")
  case Nil
  then show ?thesis by (intro exI [of _ "[]"]) (simp add: split_header_runs_def)
next
  case (Cons first ordered)
  have "run_ok hidden_cols [first]" by (simp add: run_ok_def)
  from runs_from_spec [OF this, of ordered] show ?thesis
    by (intro exI [of _ "runs_from hidden_cols [first] ordered"]) (simp add: split_header_runs_def Cons)
qed

text \<open>
  Years and dates in one run, with the key of a quarter between them; without the quarter the run is cut.
\<close>

definition plain_header :: "int \<Rightarrow> string \<Rightarrow> AxisHeader" where
  "plain_header col key =
     \<lparr>ah_col = col, ah_text = key, ah_role = None, ah_kind = Some ''period'', ah_variant = None, ah_period_key = key,
      ah_explicit_role = False, ah_hidden = False\<rparr>"

lemma quarter_key_joins_classes:
  "map (map ah_period_key) (split_header_runs
      [plain_header 2 ''2023'', plain_header 3 ''2024'', plain_header 4 ''2024Q1'', plain_header 5 ''2024-01''] [])
     = [[''2023'', ''2024'', ''2024Q1'', ''2024-01'']]
   \<and> map (map ah_period_key) (split_header_runs
      [plain_header 2 ''2023'', plain_header 3 ''2024'', plain_header 4 ''2024-01'', plain_header 5 ''2024-02''] [])
     = [[''2023'', ''2024''], [''2024-01'', ''2024-02'']]"
  by code_simp

section \<open>Repeated period keys\<close>

definition marker_of :: "AxisPeriod \<Rightarrow> string" where
  "marker_of period = marker_token (ap_variant period)"

definition key_groups :: "AxisPeriod list \<Rightarrow> (string \<times> nat list) list" where
  "key_groups periods =
     foldl (\<lambda>groups (index, period). dict_alter (ap_period_key period) [] (\<lambda>xs. xs @ [index]) groups) []
       (zip [0..<length periods] periods)"

definition group_updates :: "AxisPeriod list \<Rightarrow> (string \<times> nat list) list \<Rightarrow> (nat \<times> string) list" where
  "group_updates periods groups =
     concat (map (\<lambda>(key, indexes).
       let markers = map (\<lambda>index. marker_of (periods ! index)) indexes in
       if length indexes < 2 \<or> length (remdups markers) < 2 then []
       else map (\<lambda>(index, marker). (index, key @ ''@'' @ marker)) (filter (\<lambda>(index, marker). marker \<noteq> []) (zip indexes markers))) groups)"

definition disambiguate_period_keys :: "AxisPeriod list \<Rightarrow> AxisPeriod list" where
  "disambiguate_period_keys periods =
     (let updates = group_updates periods (key_groups periods) in
      if updates = [] then periods
      else map (\<lambda>(index, period). case map_of updates index of Some key \<Rightarrow> period\<lparr>ap_period_key := key\<rparr> | None \<Rightarrow> period)
             (zip [0..<length periods] periods))"

text \<open>The new key of a period, from the keys and markers of all.\<close>

definition marked_key :: "AxisPeriod list \<Rightarrow> AxisPeriod \<Rightarrow> string" where
  "marked_key periods p =
     (if marker_of p \<noteq> [] \<and> (\<exists>q \<in> set periods. ap_period_key q = ap_period_key p \<and> marker_of q \<noteq> marker_of p)
      then ap_period_key p @ ''@'' @ marker_of p else ap_period_key p)"

lemma key_groups_spec:
  "dict_get (key_groups periods) key [] = filter (\<lambda>i. ap_period_key (periods ! i) = key) [0..<length periods]"
  "distinct (map fst (key_groups periods))"
  "(key, indexes) \<in> set (key_groups periods) \<Longrightarrow> indexes = filter (\<lambda>i. ap_period_key (periods ! i) = key) [0..<length periods]"
proof -
  let ?step = "\<lambda>groups (index, period). dict_alter (ap_period_key period) [] (\<lambda>xs. xs @ [index]) groups"
  have get: "dict_get (foldl ?step groups zs) key [] = dict_get groups key [] @ map fst (filter (\<lambda>(i, p). ap_period_key p = key) zs)"
    for groups zs key by (induction zs arbitrary: groups) (auto simp: dict_get_alter)
  have dist: "distinct (map fst groups) \<Longrightarrow> distinct (map fst (foldl ?step groups zs))" for groups zs
    by (induction zs arbitrary: groups) (auto simp: distinct_dict_alter)
  have pick: "map fst (filter (\<lambda>(i, p). ap_period_key p = key) (zip [0..<length periods] periods)) =
      filter (\<lambda>i. ap_period_key (periods ! i) = key) [0..<length periods]" for key
  proof -
    have "zip [0..<length periods] periods = map (\<lambda>i. (i, periods ! i)) [0..<length periods]"
      by (rule nth_equalityI) simp_all
    then show ?thesis by (simp add: filter_map comp_def)
  qed
  show spec: "dict_get (key_groups periods) key [] = filter (\<lambda>i. ap_period_key (periods ! i) = key) [0..<length periods]" for key
    unfolding key_groups_def get pick by (simp add: dict_get_def)
  show dist': "distinct (map fst (key_groups periods))" using dist [of "[]"] by (simp add: key_groups_def)
  assume "(key, indexes) \<in> set (key_groups periods)"
  then have "dict_get (key_groups periods) key [] = indexes" using dist' by (simp add: dict_get_def map_of_is_SomeI)
  then show "indexes = filter (\<lambda>i. ap_period_key (periods ! i) = key) [0..<length periods]" using spec by simp
qed

lemma two_markers:
  assumes "i \<in> set is"
  shows "length (remdups (map f is)) < 2 \<longleftrightarrow> (\<forall>j \<in> set is. f j = f i)"
proof -
  have "length (remdups (map f is)) = card (f ` set is)" by (simp add: length_remdups_card_conv)
  moreover have "card (f ` set is) < 2 \<longleftrightarrow> f ` set is = {f i}"
  proof
    assume "card (f ` set is) < 2"
    then have "card (f ` set is) = 1" using assms by (cases "card (f ` set is)") auto
    then show "f ` set is = {f i}" using assms by (metis card_1_singletonE imageI singletonD)
  qed simp
  ultimately show ?thesis using assms by auto
qed

lemma zip_with_map: "zip xs (map f xs) = map (\<lambda>x. (x, f x)) xs"
  by (induction xs) auto

lemma marked_updates:
  "(i, new) \<in> set (map (\<lambda>(index, marker). (index, key @ ''@'' @ marker)) (filter (\<lambda>(index, marker). marker \<noteq> []) (zip xs (map f xs)))) \<longleftrightarrow>
     i \<in> set xs \<and> f i \<noteq> [] \<and> new = key @ ''@'' @ f i"
  unfolding zip_with_map by auto

lemma group_updates_iff:
  "(i, new) \<in> set (group_updates periods (key_groups periods)) \<longleftrightarrow>
     i < length periods \<and> new = marked_key periods (periods ! i) \<and> marked_key periods (periods ! i) \<noteq> ap_period_key (periods ! i)"
proof -
  define same where "same = (\<lambda>key. filter (\<lambda>i. ap_period_key (periods ! i) = key) [0..<length periods])"
  have rival: "length (remdups (map (\<lambda>i. marker_of (periods ! i)) (same key))) < 2 \<longleftrightarrow>
      \<not> (\<exists>q \<in> set periods. ap_period_key q = key \<and> marker_of q \<noteq> marker_of (periods ! i))" if "i \<in> set (same key)" for key i
    unfolding two_markers [OF that] by (simp add: same_def) (metis in_set_conv_nth)
  have short: "length (remdups (map f xs)) < 2" if "length xs < 2" for f :: "nat \<Rightarrow> string" and xs
    using length_remdups_leq [of "map f xs"] that by simp
  have "(key, same key) \<in> set (key_groups periods)" if "i \<in> set (same key)" for key i
  proof -
    have "dict_get (key_groups periods) key [] = same key" by (simp add: key_groups_spec(1) same_def)
    with that show ?thesis by (auto simp: dict_get_def split: option.splits dest: map_of_SomeD)
  qed
  then have present: "\<And>key i. i \<in> set (same key) \<Longrightarrow> (key, same key) \<in> set (key_groups periods)" .
  have only: "xs = same key" if "(key, xs) \<in> set (key_groups periods)" for key xs
    using key_groups_spec(3) [OF that] by (simp add: same_def)
  have "(i, new) \<in> set (group_updates periods (key_groups periods)) \<longleftrightarrow>
      (\<exists>key xs. (key, xs) \<in> set (key_groups periods) \<and> \<not> (length xs < 2 \<or> length (remdups (map (\<lambda>i. marker_of (periods ! i)) xs)) < 2)
         \<and> i \<in> set xs \<and> marker_of (periods ! i) \<noteq> [] \<and> new = key @ ''@'' @ marker_of (periods ! i))"
    unfolding group_updates_def set_concat set_map Let_def by (auto simp only: case_prod_beta marked_updates split: if_splits) force+
  also have "\<dots> \<longleftrightarrow> (\<exists>key. i \<in> set (same key) \<and> \<not> length (remdups (map (\<lambda>i. marker_of (periods ! i)) (same key))) < 2
         \<and> marker_of (periods ! i) \<noteq> [] \<and> new = key @ ''@'' @ marker_of (periods ! i))"
    (is "?L \<longleftrightarrow> ?R")
  proof
    show "?L \<Longrightarrow> ?R" using only by blast
    assume ?R
    then obtain key where k: "i \<in> set (same key)" "\<not> length (remdups (map (\<lambda>i. marker_of (periods ! i)) (same key))) < 2"
      "marker_of (periods ! i) \<noteq> []" "new = key @ ''@'' @ marker_of (periods ! i)" by blast
    with short [of "same key"] present [OF k(1)] show ?L by blast
  qed
  also have "\<dots> \<longleftrightarrow> i < length periods \<and> new = marked_key periods (periods ! i) \<and> marked_key periods (periods ! i) \<noteq> ap_period_key (periods ! i)"
  proof (cases "i < length periods")
    case True
    let ?k = "ap_period_key (periods ! i)"
    have mem: "i \<in> set (same key) \<longleftrightarrow> ?k = key" for key using True by (simp add: same_def)
    have r: "length (remdups (map (\<lambda>i. marker_of (periods ! i)) (same ?k))) < 2 \<longleftrightarrow>
        \<not> (\<exists>q \<in> set periods. ap_period_key q = ?k \<and> marker_of q \<noteq> marker_of (periods ! i))"
      by (rule rival) (simp add: mem)
    have "marked_key periods (periods ! i) = ?k @ ''@'' @ marker_of (periods ! i) \<longleftrightarrow>
        marker_of (periods ! i) \<noteq> [] \<and> \<not> length (remdups (map (\<lambda>i. marker_of (periods ! i)) (same ?k))) < 2"
      "marked_key periods (periods ! i) \<in> {?k, ?k @ ''@'' @ marker_of (periods ! i)}"
      unfolding r marked_key_def by simp_all
    then show ?thesis unfolding mem using True by auto
  next
    case False
    then show ?thesis by (simp add: same_def)
  qed
  finally show ?thesis .
qed

lemma disambiguate_nth:
  assumes "i < length periods"
  shows "disambiguate_period_keys periods ! i = (periods ! i)\<lparr>ap_period_key := marked_key periods (periods ! i)\<rparr>"
proof -
  let ?updates = "group_updates periods (key_groups periods)"
  have "(case map_of ?updates i of Some key \<Rightarrow> (periods ! i)\<lparr>ap_period_key := key\<rparr> | None \<Rightarrow> periods ! i) =
      (periods ! i)\<lparr>ap_period_key := marked_key periods (periods ! i)\<rparr>"
  proof (cases "map_of ?updates i")
    case None
    then have "marked_key periods (periods ! i) = ap_period_key (periods ! i)"
      using group_updates_iff [of i "marked_key periods (periods ! i)" periods] assms by (force simp: map_of_eq_None_iff)
    with None show ?thesis by simp
  next
    case (Some key)
    then show ?thesis using map_of_SomeD [OF Some] by (simp add: group_updates_iff)
  qed
  moreover have "marked_key periods (periods ! i) = ap_period_key (periods ! i)" if "?updates = []"
    using group_updates_iff [of i "marked_key periods (periods ! i)" periods] assms that by simp
  ultimately show ?thesis using assms by (auto simp: disambiguate_period_keys_def Let_def)
qed

lemma disambiguate_length [simp]: "length (disambiguate_period_keys periods) = length periods"
  by (simp add: disambiguate_period_keys_def Let_def)

lemma at_append: "CHR ''@'' \<notin> set k1 \<Longrightarrow> CHR ''@'' \<notin> set k2 \<Longrightarrow> k1 @ ''@'' @ m1 = k2 @ ''@'' @ m2 \<longleftrightarrow> k1 = k2 \<and> m1 = m2"
  by (induction k1 arbitrary: k2) (case_tac k2; auto)+

lemma calendar_key_at: "CHR ''@'' \<notin> set k \<Longrightarrow> calendar_key (k @ ''@'' @ m) = k \<and> calendar_key k = k"
proof -
  assume "CHR ''@'' \<notin> set k"
  then have k: "\<forall>x \<in> set k. x \<noteq> CHR ''@''" by auto
  then have "dropWhile (\<lambda>x. x \<noteq> CHR ''@'') k = []" by (simp only: dropWhile_eq_Nil_conv)
  then have "calendar_key k = k" by (simp only: calendar_key_def split1_def list.case option.case)
  moreover have "calendar_key (k @ ''@'' @ m) = k" using k by (simp add: calendar_key_def split1_def dropWhile_append2 takeWhile_append2)
  ultimately show ?thesis by simp
qed

lemma marked_key_iff:
  assumes "p \<in> set periods" "q \<in> set periods" and at: "CHR ''@'' \<notin> set (ap_period_key p)" "CHR ''@'' \<notin> set (ap_period_key q)"
  shows "marked_key periods p = marked_key periods q \<longleftrightarrow> ap_period_key p = ap_period_key q \<and> marker_of p = marker_of q"
proof -
  let ?rival = "\<lambda>p. marker_of p \<noteq> [] \<and> (\<exists>q \<in> set periods. ap_period_key q = ap_period_key p \<and> marker_of q \<noteq> marker_of p)"
  have mixed: "ap_period_key p \<noteq> ap_period_key q @ ''@'' @ m" "ap_period_key q @ ''@'' @ m \<noteq> ap_period_key p"
    "ap_period_key p @ ''@'' @ m \<noteq> ap_period_key q" "ap_period_key q \<noteq> ap_period_key p @ ''@'' @ m" for m
    using at by (metis append_Cons in_set_conv_decomp)+
  have one: "?rival p \<or> ?rival q" if "ap_period_key p = ap_period_key q" "marker_of p \<noteq> marker_of q"
    using that assms(1,2) by (metis (full_types))
  have equal: "?rival p \<longleftrightarrow> ?rival q" if "ap_period_key p = ap_period_key q" "marker_of p = marker_of q" using that by simp
  have marked: "?rival x \<Longrightarrow> marked_key periods x = ap_period_key x @ ''@'' @ marker_of x" for x by (simp add: marked_key_def)
  have plain: "\<not> ?rival x \<Longrightarrow> marked_key periods x = ap_period_key x" for x unfolding marked_key_def by (rule if_not_P)
  show ?thesis
  proof (cases "?rival p")
    case True
    show ?thesis
    proof (cases "?rival q")
      case q: True
      show ?thesis unfolding marked [OF True] marked [OF q] by (rule at_append [OF at])
    next
      case q: False
      then show ?thesis using equal True mixed unfolding marked [OF True] plain [OF q] by blast
    qed
  next
    case False
    show ?thesis
    proof (cases "?rival q")
      case q: True
      then show ?thesis using equal False mixed unfolding plain [OF False] marked [OF q] by blast
    next
      case q: False
      then show ?thesis using one False unfolding plain [OF False] plain [OF q] by blast
    qed
  qed
qed

text \<open>
  C22. Period keys without an at sign come out of \<open>disambiguate_period_keys\<close> so that two columns share a key exactly when they
  had the same key and the same marker. The calendar part of the new key is the old key, and nothing else of a column
  changes.
\<close>

theorem disambiguated_keys:
  assumes "\<forall>p \<in> set periods. CHR ''@'' \<notin> set (ap_period_key p)"
  shows "let keys = map ap_period_key (disambiguate_period_keys periods) in
    length keys = length periods
    \<and> (\<forall>i < length periods. \<forall>j < length periods. keys ! i = keys ! j \<longleftrightarrow>
         ap_period_key (periods ! i) = ap_period_key (periods ! j) \<and> marker_of (periods ! i) = marker_of (periods ! j))
    \<and> map calendar_key keys = map ap_period_key periods
    \<and> map (ap_period_key_update (\<lambda>_. [])) (disambiguate_period_keys periods) = map (ap_period_key_update (\<lambda>_. [])) periods"
proof -
  have no_at: "CHR ''@'' \<notin> set (ap_period_key (periods ! i))" if "i < length periods" for i using assms that by simp
  have same: "marked_key periods p = marked_key periods q \<longleftrightarrow> ap_period_key p = ap_period_key q \<and> marker_of p = marker_of q"
    if "p \<in> set periods" "q \<in> set periods" for p q
    using that assms by (intro marked_key_iff) auto
  have "calendar_key (marked_key periods (periods ! i)) = ap_period_key (periods ! i)" if "i < length periods" for i
    using calendar_key_at [OF no_at [OF that]] by (simp add: marked_key_def)
  then show ?thesis
    using same by (auto simp: Let_def disambiguate_nth list_eq_iff_nth_eq)
qed

section \<open>Longest runs\<close>

text \<open>The loop of \<open>_row_formula_run\<close> and of \<open>_relative_run\<close>: the current run, and the longest one so far.\<close>

fun longest_run :: "('a \<Rightarrow> 'a \<Rightarrow> bool) \<Rightarrow> 'a list \<Rightarrow> 'a list \<Rightarrow> 'a list \<Rightarrow> 'a list" where
  "longest_run goes_on run best [] = best"
| "longest_run goes_on run best (x # xs) =
     (let run = (if run \<noteq> [] \<and> goes_on (last run) x then run @ [x] else [x]);
          best = (if length run > length best then run else best)
      in longest_run goes_on run best xs)"

text \<open>The items that make a header row's formulas comparable are an argument: \<open>fingerprint\<close> is \<open>_cell_fingerprint\<close>.\<close>

definition fingerprints :: "(SheetCell \<Rightarrow> string option) \<Rightarrow> SheetCell list \<Rightarrow> (int \<times> string) list" where
  "fingerprints fingerprint row_cells =
     concat (map (\<lambda>cell. if text_truthy (fingerprint cell) then [(sc_col cell, the (fingerprint cell))] else []) (sort_key sc_col row_cells))"

definition same_formula :: "int \<times> string \<Rightarrow> int \<times> string \<Rightarrow> bool" where
  "same_formula prev item \<longleftrightarrow> fst item = fst prev + 1 \<and> snd item = snd prev"

definition row_formula_run :: "(SheetCell \<Rightarrow> string option) \<Rightarrow> SheetCell list \<Rightarrow> int list" where
  "row_formula_run fingerprint row_cells =
     (let best = longest_run same_formula [] [] (fingerprints fingerprint row_cells) in
      if length best < 3 then [] else map fst best)"

definition wider_run :: "(int \<times> nat \<times> int \<times> int) option \<Rightarrow> int list \<Rightarrow> (int \<times> nat \<times> int \<times> int) option" where
  "wider_run best cols =
     (if length cols < 3 then best
      else
        let width = last cols - hd cols; candidate = (width, length cols, hd cols, last cols) in
        case best of
          None \<Rightarrow> Some candidate
        | Some (w, n, _) \<Rightarrow> if width > w \<or> (width = w \<and> length cols > n) then Some candidate else best)"

definition formula_timeline_cols :: "(SheetCell \<Rightarrow> string option) \<Rightarrow> SheetCell list list \<Rightarrow> int list option" where
  "formula_timeline_cols fingerprint rows =
     (case foldl wider_run None (map (row_formula_run fingerprint) rows) of
        None \<Rightarrow> None
      | Some (width, n, start, end_col) \<Rightarrow> Some [start..end_col])"

text \<open>
  What the reading of a cell says to the search for counters: no text or a header, an integer, another number, a text.
\<close>

datatype Reading = HeaderText | Counter int | OtherNumber | OtherText

definition counter_seq :: "(SheetCell \<Rightarrow> Reading) \<Rightarrow> SheetCell list \<Rightarrow> (int \<times> int) list" where
  "counter_seq reading row_cells =
     foldl (\<lambda>seq cell. case reading cell of
         HeaderText \<Rightarrow> seq
       | Counter number \<Rightarrow> seq @ [(sc_col cell, number)]
       | OtherNumber \<Rightarrow> []
       | OtherText \<Rightarrow> seq) [] (sort_key sc_col row_cells)"

definition counts_on :: "int list \<Rightarrow> int \<times> int \<Rightarrow> int \<times> int \<Rightarrow> bool" where
  "counts_on bridge prev item \<longleftrightarrow> snd item = snd prev + 1 \<and> cols_connected (fst prev) (fst item) bridge"

text \<open>\<open>label_fits\<close> is the outcome of the checks on the row label.\<close>

definition relative_run :: "(SheetCell \<Rightarrow> Reading) \<Rightarrow> bool \<Rightarrow> nat \<Rightarrow> int list \<Rightarrow> SheetCell list \<Rightarrow> (int \<times> int) list" where
  "relative_run reading label_fits min_len hidden_cols row_cells =
     (if length row_cells < min_len \<or> \<not> label_fits then []
      else
        let best = longest_run (counts_on hidden_cols) [] [] (counter_seq reading row_cells) in
        if length best \<ge> min_len \<and> snd (hd best) \<in> {0, 1} then best else [])"

definition stretch :: "('a \<Rightarrow> 'a \<Rightarrow> bool) \<Rightarrow> 'a list \<Rightarrow> 'a list \<Rightarrow> bool" where
  "stretch goes_on xs run \<longleftrightarrow> sublist run xs \<and> successively goes_on run"

definition longest_stretch :: "('a \<Rightarrow> 'a \<Rightarrow> bool) \<Rightarrow> 'a list \<Rightarrow> 'a list \<Rightarrow> bool" where
  "longest_stretch goes_on xs run \<longleftrightarrow> stretch goes_on xs run \<and> (\<forall>other. stretch goes_on xs other \<longrightarrow> length other \<le> length run)"

lemma longest_run_spec:
  assumes "suffix run seen" "successively goes_on run" "seen \<noteq> [] \<longrightarrow> run \<noteq> []"
    "\<forall>ys. suffix ys seen \<and> successively goes_on ys \<longrightarrow> length ys \<le> length run"
    "longest_stretch goes_on seen best"
  shows "longest_stretch goes_on (seen @ xs) (longest_run goes_on run best xs)"
  using assms
proof (induction goes_on run best xs arbitrary: seen rule: longest_run.induct)
  case (2 goes_on run best x xs)
  define run' where "run' = (if run \<noteq> [] \<and> goes_on (last run) x then run @ [x] else [x])"
  define best' where "best' = (if length run' > length best then run' else best)"
  have suf: "suffix run' (seen @ [x])" "successively goes_on run'" "run' \<noteq> []"
    using 2(2,3) by (auto simp: run'_def successively_append_iff)
  have longest: "length ys \<le> length run'" if ys: "suffix ys (seen @ [x])" "successively goes_on ys" for ys
  proof (cases "ys = [] \<or> ys = [x]")
    case True
    then show ?thesis by (auto simp: run'_def)
  next
    case False
    with ys obtain zs where zs: "ys = zs @ [x]" "suffix zs seen" "zs \<noteq> []" by auto
    then have z: "successively goes_on zs" "goes_on (last zs) x" using ys(2) by (simp_all add: successively_append_iff)
    have "seen \<noteq> []" using zs by auto
    then have "run \<noteq> []" using 2(4) by simp
    then have "last run = last zs" using 2(2) zs(2,3) by (metis last_appendR suffix_def)
    then have "run' = run @ [x]" using z(2) \<open>run \<noteq> []\<close> by (simp add: run'_def)
    then show ?thesis using 2(5) zs(1,2) z(1) by auto
  qed
  have "longest_stretch goes_on (seen @ [x]) best'"
    unfolding longest_stretch_def
  proof (intro conjI allI impI)
    show "stretch goes_on (seen @ [x]) best'"
      using suf 2(6) by (auto simp: best'_def longest_stretch_def stretch_def sublist_snoc simp del: suffix_snoc)
    fix other
    assume "stretch goes_on (seen @ [x]) other"
    then have o: "suffix other (seen @ [x]) \<or> sublist other seen" "successively goes_on other"
      by (auto simp: stretch_def sublist_snoc simp del: suffix_snoc)
    then show "length other \<le> length best'"
      using longest 2(6) by (fastforce simp: best'_def longest_stretch_def stretch_def simp del: suffix_snoc)
  qed
  then have "longest_stretch goes_on ((seen @ [x]) @ xs) (longest_run goes_on run' best' xs)"
    using suf longest by (intro 2(1) [OF run'_def best'_def]) auto
  moreover have "longest_run goes_on run best (x # xs) = longest_run goes_on run' best' xs"
    by (simp only: longest_run.simps Let_def run'_def best'_def)
  ultimately show ?case by (simp del: longest_run.simps)
qed simp

lemma longest_run_longest: "longest_stretch goes_on xs (longest_run goes_on [] [] xs)"
  using longest_run_spec [of "[]" "[]" goes_on "[]" xs] by (simp add: longest_stretch_def stretch_def)

text \<open>
  C25. The columns found for a row of formulas are those of a longest stretch of adjacent cells with one fingerprint, and none
  are found only when every such stretch is shorter than three. A row of counters is a longest stretch that counts up by one over
  adjacent columns or hidden ones, starts at 0 or 1 and is as long as asked for.
\<close>

theorem found_runs_longest:
  "(\<exists>run. longest_stretch same_formula (fingerprints fingerprint row_cells) run
      \<and> row_formula_run fingerprint row_cells = (if length run < 3 then [] else map fst run))
   \<and> (\<exists>run. longest_stretch (counts_on hidden_cols) (counter_seq reading row_cells) run
      \<and> relative_run reading label_fits min_len hidden_cols row_cells =
          (if min_len \<le> length row_cells \<and> label_fits \<and> min_len \<le> length run \<and> snd (hd run) \<in> {0, 1} then run else []))"
proof
  show "\<exists>run. longest_stretch same_formula (fingerprints fingerprint row_cells) run
      \<and> row_formula_run fingerprint row_cells = (if length run < 3 then [] else map fst run)"
    using longest_run_longest [of same_formula "fingerprints fingerprint row_cells"] by (auto simp: row_formula_run_def Let_def)
  show "\<exists>run. longest_stretch (counts_on hidden_cols) (counter_seq reading row_cells) run
      \<and> relative_run reading label_fits min_len hidden_cols row_cells =
          (if min_len \<le> length row_cells \<and> label_fits \<and> min_len \<le> length run \<and> snd (hd run) \<in> {0, 1} then run else [])"
    using longest_run_longest [of "counts_on hidden_cols" "counter_seq reading row_cells"]
    by (intro exI [of _ "longest_run (counts_on hidden_cols) [] [] (counter_seq reading row_cells)"]) (auto simp: relative_run_def Let_def)
qed

section \<open>Candidate axes\<close>

text \<open>A candidate is the rows of its header band and its axis.\<close>

type_synonym candidate = "int list \<times> TimeAxis"

definition period_count :: "TimeAxis \<Rightarrow> nat" where
  "period_count axis = length (filter (\<lambda>p. is_series_column (Some (ap_kind p)) (ap_period_key p)) (ta_periods axis))"

definition axis_cols :: "TimeAxis \<Rightarrow> int list" where
  "axis_cols axis = map ap_col (ta_periods axis)"

definition candidate_key :: "candidate \<Rightarrow> int \<times> int" where
  "candidate_key item =
     (Min (set (fst item)), if axis_cols (snd item) = [] then 0 else Min (set (axis_cols (snd item))))"

definition table_groups :: "candidate list \<Rightarrow> candidate list list" where
  "table_groups candidates =
     sort_key (\<lambda>group. candidate_key (hd group))
       (map snd (foldl (\<lambda>groups (band_rows, axis). dict_alter (ta_header_row axis, band_rows) [] (\<lambda>xs. xs @ [(band_rows, axis)]) groups) [] candidates))"

definition key_year :: "string \<Rightarrow> string option" where
  "key_year period_key =
     (if length period_key < 4 then None
      else let head = take 4 period_key in if list_all py_isdigit head then Some head else None)"

definition cols_agree :: "int list \<Rightarrow> int list \<Rightarrow> bool" where
  "cols_agree left right =
     (if left = [] \<or> right = [] then False
      else if set left = set right then True
      else if \<bar>Min (set left) - Min (set right)\<bar> \<le> 1 \<and> \<bar>Max (set left) - Max (set right)\<bar> \<le> 1 then True
      else 5 * card (set left \<inter> set right) \<ge> 4 * card (set left \<union> set right))"

definition comparable_width :: "nat \<Rightarrow> nat \<Rightarrow> bool" where
  "comparable_width left right = (if left = 0 \<or> right = 0 then False else 4 * min left right \<ge> 3 * max left right)"

definition repeated_year_axis :: "TimeAxis \<Rightarrow> bool" where
  "repeated_year_axis axis =
     (let keys = map ap_period_key (filter (\<lambda>p. is_series_column (Some (ap_kind p)) (ap_period_key p)) (ta_periods axis)) in
      if length keys < 2 \<or> length (remdups keys) = length keys then False
      else list_all (\<lambda>key. length key = 4 \<and> list_all py_isdigit key) keys)"

section \<open>Year banners\<close>

text \<open>One period under a banner: the periods so far, \<open>applied\<close>, \<open>comparable\<close> and \<open>contradicted\<close>.\<close>

definition fold_period ::
  "(int \<rightharpoonup> string) \<Rightarrow> AxisPeriod list \<times> bool \<times> nat \<times> nat \<Rightarrow> AxisPeriod \<Rightarrow> AxisPeriod list \<times> bool \<times> nat \<times> nat" where
  "fold_period by_col st period =
     (case st of (periods, applied, comparable, contradicted) \<Rightarrow>
        let banner_year = by_col (ap_col period); own_year = key_year (ap_period_key period);
            both = (banner_year \<noteq> None \<and> own_year \<noteq> None);
            comparable = (if both then comparable + 1 else comparable) in
        if both \<and> own_year \<noteq> banner_year then (periods @ [period], applied, comparable, contradicted + 1)
        else if banner_year \<noteq> None \<and> ap_group_key period = None
          then (periods @ [period\<lparr>ap_group_key := banner_year\<rparr>], True, comparable, contradicted)
        else (periods @ [period], applied, comparable, contradicted))"

definition fold_banner :: "int list \<Rightarrow> TimeAxis \<times> nat list \<Rightarrow> nat \<times> candidate \<Rightarrow> TimeAxis \<times> nat list" where
  "fold_banner cols st entry =
     (case (st, entry) of ((updated, consumed), (banner_index, (banner_band, banner))) \<Rightarrow>
        if \<not> cols_agree cols (axis_cols banner) then (updated, consumed)
        else
          let by_col = map_of (rev (map (\<lambda>p. (ap_col p, ap_period_key p)) (ta_periods banner))) in
          case foldl (fold_period by_col) ([], False, 0, 0) (ta_periods updated) of
            (periods, applied, comparable, contradicted) \<Rightarrow>
              (updated\<lparr>ta_periods := periods\<rparr>,
               if applied \<or> (comparable > 0 \<and> contradicted = comparable) then consumed @ [banner_index] else consumed))"

definition fold_candidate :: "(nat \<times> candidate) list \<Rightarrow> candidate list \<times> nat list \<Rightarrow> candidate \<Rightarrow> candidate list \<times> nat list" where
  "fold_candidate banners st item =
     (case (st, item) of ((folded, consumed), (band, axis)) \<Rightarrow>
        case foldl (fold_banner (axis_cols axis)) (axis, consumed) banners of
          (updated, consumed) \<Rightarrow> (folded @ [(band, updated)], consumed))"

definition fold_year_banners :: "candidate list \<Rightarrow> candidate list" where
  "fold_year_banners candidates =
     (let banners = filter (\<lambda>item. repeated_year_axis (snd item)) candidates;
          kept = filter (\<lambda>item. \<not> repeated_year_axis (snd item)) candidates;
          entries = zip [0..<length banners] banners in
      if banners = [] then candidates
      else
        case foldl (fold_candidate entries) ([], []) kept of
          (folded, consumed) \<Rightarrow>
            sort_key candidate_key (folded @ map snd (filter (\<lambda>(banner_index, item). banner_index \<notin> set consumed) entries)))"

section \<open>Dominant axes\<close>

definition primary_index :: "candidate list \<Rightarrow> nat" where
  "primary_index candidates =
     the (find (\<lambda>i. list_all (\<lambda>item. period_count (snd item) \<le> period_count (snd (candidates ! i))) candidates) [0..<length candidates])"

definition kept_beside :: "TimeAxis \<Rightarrow> TimeAxis \<Rightarrow> bool" where
  "kept_beside primary axis =
     (let pcols = axis_cols primary; pmin = (if pcols = [] then 0 else Min (set pcols)); pwidth = period_count primary;
          cols = axis_cols axis; width = period_count axis in
      if cols = [] then False
      else if Max (set cols) < pmin then width \<ge> 3
      else if cols_agree cols pcols then True
      else if ta_header_row axis \<noteq> ta_header_row primary \<and> width \<ge> 3 then True
      else set cols \<inter> set pcols = {} \<and> (width \<ge> 3 \<or> comparable_width width pwidth))"

definition keep_dominant :: "candidate list \<Rightarrow> candidate list" where
  "keep_dominant candidates =
     (if candidates = [] then []
      else
        let primary = primary_index candidates in
        sort_key candidate_key
          (map snd (filter (\<lambda>(i, item). i = primary \<or> kept_beside (snd (candidates ! primary)) (snd item)) (zip [0..<length candidates] candidates))))"

text \<open>Columns hidden by a cell of a row that is not hidden as a whole; a cell is its column and its mark.\<close>

definition inferred_hidden_columns :: "(int \<times> bool) list list \<Rightarrow> int set" where
  "inferred_hidden_columns rows =
     \<Union> (set (map (\<lambda>cells. if cells = [] \<or> list_all snd cells then {} else set (map fst (filter snd cells))) rows))"

section \<open>What folding and choosing keep\<close>

text \<open>A period whose group key may have been filled from a banner among the candidates.\<close>

definition may_fill :: "candidate list \<Rightarrow> AxisPeriod \<Rightarrow> AxisPeriod \<Rightarrow> bool" where
  "may_fill banners p0 p \<longleftrightarrow> p = p0 \<or>
     (\<exists>item \<in> set banners. \<exists>q \<in> set (ta_periods (snd item)). ap_col q = ap_col p0
        \<and> ap_group_key p0 = None \<and> p = p0\<lparr>ap_group_key := Some (ap_period_key q)\<rparr>
        \<and> key_year (ap_period_key p0) \<in> {None, Some (ap_period_key q)})"

definition filled_axis :: "candidate list \<Rightarrow> candidate \<Rightarrow> candidate \<Rightarrow> bool" where
  "filled_axis banners item0 item \<longleftrightarrow>
     fst item = fst item0 \<and> snd item = (snd item0)\<lparr>ta_periods := ta_periods (snd item)\<rparr>
     \<and> list_all2 (may_fill banners) (ta_periods (snd item0)) (ta_periods (snd item))"

definition fill_period :: "(int \<rightharpoonup> string) \<Rightarrow> AxisPeriod \<Rightarrow> AxisPeriod" where
  "fill_period by_col p =
     (if by_col (ap_col p) \<noteq> None \<and> ap_group_key p = None \<and> key_year (ap_period_key p) \<in> {None, by_col (ap_col p)}
      then p\<lparr>ap_group_key := by_col (ap_col p)\<rparr> else p)"

lemma fold_period_periods: "fst (foldl (fold_period by_col) st xs) = fst st @ map (fill_period by_col) xs"
proof (induction xs arbitrary: st)
  case (Cons p xs)
  have "fst (fold_period by_col st p) = fst st @ [fill_period by_col p]"
    by (cases st) (auto simp: fold_period_def fill_period_def Let_def)
  then show ?case by (simp add: Cons)
qed simp

lemma may_fill_trans: "may_fill banners p0 p \<Longrightarrow> may_fill banners p p' \<Longrightarrow> may_fill banners p0 p'"
  by (auto simp: may_fill_def)

lemma fill_period_may_fill:
  assumes "item \<in> set banners" "by_col = map_of (rev (map (\<lambda>p. (ap_col p, ap_period_key p)) (ta_periods (snd item))))"
  shows "may_fill banners p (fill_period by_col p)"
proof (cases "by_col (ap_col p)")
  case None
  then show ?thesis by (simp add: fill_period_def may_fill_def)
next
  case (Some y)
  then obtain q where "q \<in> set (ta_periods (snd item))" "ap_col q = ap_col p" "ap_period_key q = y"
    using assms(2) by (auto dest!: map_of_SomeD)
  then show ?thesis using assms(1) Some by (auto simp: fill_period_def may_fill_def)
qed

lemma filled_axis_trans:
  assumes ab: "filled_axis banners a b" and bc: "filled_axis banners b c"
  shows "filled_axis banners a c"
proof -
  have "snd c = (snd b)\<lparr>ta_periods := ta_periods (snd c)\<rparr>" using bc by (simp add: filled_axis_def)
  also have "\<dots> = ((snd a)\<lparr>ta_periods := ta_periods (snd b)\<rparr>)\<lparr>ta_periods := ta_periods (snd c)\<rparr>"
    using ab unfolding filled_axis_def by metis
  finally have "snd c = (snd a)\<lparr>ta_periods := ta_periods (snd c)\<rparr>" by simp
  moreover have steps: "list_all2 (may_fill banners) (ta_periods (snd a)) (ta_periods (snd b))"
    "list_all2 (may_fill banners) (ta_periods (snd b)) (ta_periods (snd c))" "fst c = fst b" "fst b = fst a"
    using ab bc unfolding filled_axis_def by blast+
  have "list_all2 (may_fill banners) (ta_periods (snd a)) (ta_periods (snd c))"
    by (rule list_all2_trans [OF _ steps(1,2)]) (rule may_fill_trans)
  ultimately show ?thesis using steps(3,4) unfolding filled_axis_def by (metis (no_types))
qed

lemma fold_banner_fills:
  assumes "set (map snd entries) \<subseteq> set banners"
  shows "filled_axis banners (band, axis) (band, fst (foldl (fold_banner cols) (axis, consumed) entries))"
  using assms
proof (induction entries arbitrary: axis consumed)
  case Nil
  then show ?case by (simp add: filled_axis_def may_fill_def list.rel_refl)
next
  case (Cons entry entries)
  obtain index item where entry: "entry = (index, item)" by (cases entry)
  obtain updated consumed' where step: "fold_banner cols (axis, consumed) entry = (updated, consumed')" by (cases "fold_banner cols (axis, consumed) entry")
  have one: "filled_axis banners (band, axis) (band, updated)"
  proof (cases "cols_agree cols (axis_cols (snd item))")
    case False
    then have "updated = axis" using step entry by (cases item) (simp add: fold_banner_def)
    then show ?thesis by (simp add: filled_axis_def may_fill_def list.rel_refl)
  next
    case True
    let ?by_col = "map_of (rev (map (\<lambda>p. (ap_col p, ap_period_key p)) (ta_periods (snd item))))"
    have "updated = axis\<lparr>ta_periods := map (fill_period ?by_col) (ta_periods axis)\<rparr>"
      using step entry True fold_period_periods [of ?by_col "([], False, 0, 0)" "ta_periods axis"]
      by (cases item) (auto simp: fold_banner_def Let_def split: prod.splits)
    moreover have "may_fill banners p (fill_period ?by_col p)" for p
      by (rule fill_period_may_fill [OF _ refl]) (use Cons(2) entry in auto)
    ultimately show ?thesis by (simp add: filled_axis_def list.rel_map list.rel_refl)
  qed
  have "filled_axis banners (band, updated) (band, fst (foldl (fold_banner cols) (updated, consumed') entries))"
    using Cons by simp
  with one have "filled_axis banners (band, axis) (band, fst (foldl (fold_banner cols) (updated, consumed') entries))"
    by (rule filled_axis_trans)
  then show ?case by (simp add: step)
qed

lemma fold_banner_consumed:
  "set (snd (foldl (fold_banner cols) st entries)) \<subseteq>
     set (snd st) \<union> fst ` {e \<in> set entries. cols_agree cols (axis_cols (snd (snd e)))}"
proof (induction entries arbitrary: st)
  case (Cons entry entries)
  have "set (snd (fold_banner cols st entry)) \<subseteq> set (snd st) \<union> fst ` {e \<in> {entry}. cols_agree cols (axis_cols (snd (snd e)))}"
  proof (cases "cols_agree cols (axis_cols (snd (snd entry)))")
    case True
    then show ?thesis by (simp add: fold_banner_def Let_def case_prod_beta)
  next
    case False
    then show ?thesis by (simp add: fold_banner_def case_prod_beta)
  qed
  moreover have "set (snd (foldl (fold_banner cols) st (entry # entries))) \<subseteq>
      set (snd (fold_banner cols st entry)) \<union> fst ` {e \<in> set entries. cols_agree cols (axis_cols (snd (snd e)))}"
    using Cons [of "fold_banner cols st entry"] by simp
  moreover have "{e \<in> set (entry # entries). cols_agree cols (axis_cols (snd (snd e)))} =
      {e \<in> {entry}. cols_agree cols (axis_cols (snd (snd e)))} \<union> {e \<in> set entries. cols_agree cols (axis_cols (snd (snd e)))}"
    by (simp add: Collect_disj_eq [symmetric]) blast
  ultimately show ?case by blast
qed simp

lemma fold_candidates_spec:
  assumes "set (map snd entries) \<subseteq> set banners"
  shows "\<exists>folded. fst (foldl (fold_candidate entries) st kept) = fst st @ folded \<and> list_all2 (filled_axis banners) kept folded
    \<and> set (snd (foldl (fold_candidate entries) st kept)) \<subseteq>
        set (snd st) \<union> fst ` {e \<in> set entries. \<exists>c \<in> set kept. cols_agree (axis_cols (snd c)) (axis_cols (snd (snd e)))}"
proof (induction kept arbitrary: st)
  case (Cons c kept)
  obtain band axis where c: "c = (band, axis)" by (cases c)
  obtain updated consumed where u: "foldl (fold_banner (axis_cols axis)) (axis, snd st) entries = (updated, consumed)"
    by (cases "foldl (fold_banner (axis_cols axis)) (axis, snd st) entries")
  have step: "fold_candidate entries st c = (fst st @ [(band, updated)], consumed)"
    using u c by (cases st) (simp add: fold_candidate_def)
  have "filled_axis banners c (band, updated)"
    using fold_banner_fills [OF assms, of band axis "axis_cols axis" "snd st"] c u by simp
  moreover have "set consumed \<subseteq> set (snd st) \<union> fst ` {e \<in> set entries. cols_agree (axis_cols axis) (axis_cols (snd (snd e)))}"
    using fold_banner_consumed [of "axis_cols axis" "(axis, snd st)" entries] u by simp
  moreover obtain folded where "fst (foldl (fold_candidate entries) (fold_candidate entries st c) kept) = (fst st @ [(band, updated)]) @ folded"
    "list_all2 (filled_axis banners) kept folded"
    "set (snd (foldl (fold_candidate entries) (fold_candidate entries st c) kept)) \<subseteq>
        set consumed \<union> fst ` {e \<in> set entries. \<exists>c \<in> set kept. cols_agree (axis_cols (snd c)) (axis_cols (snd (snd e)))}"
    using Cons.IH [of "fold_candidate entries st c"] unfolding step by auto
  moreover have "{e \<in> set entries. \<exists>d \<in> set (c # kept). cols_agree (axis_cols (snd d)) (axis_cols (snd (snd e)))} =
      {e \<in> set entries. cols_agree (axis_cols axis) (axis_cols (snd (snd e)))}
      \<union> {e \<in> set entries. \<exists>d \<in> set kept. cols_agree (axis_cols (snd d)) (axis_cols (snd (snd e)))}"
    using c by fastforce
  ultimately show ?case by (intro exI [of _ "(band, updated) # folded"]) (simp add: image_Un, blast)
qed simp

lemma subseq_kept:
  assumes "\<forall>z \<in> set zs. P (snd z) \<longrightarrow> Q z"
  shows "subseq (filter P (map snd zs)) (map snd (filter Q zs)) \<and> subseq (map snd (filter Q zs)) (map snd zs)"
proof -
  have "filter P (map snd zs) = map snd (filter (\<lambda>z. P (snd z)) (filter Q zs))"
    using assms by (simp add: filter_map comp_def) (intro arg_cong [of _ _ "map snd"] filter_cong, auto)
  then show ?thesis using subseq_filter_left [of "\<lambda>z. P (snd z)" "filter Q zs"] subseq_filter_left [of Q zs]
    by (metis subseq_map)
qed

lemma unconsumed:
  fixes banners kept :: "candidate list"
  assumes "set consumed \<subseteq>
    fst ` {e \<in> set (zip [0..<length banners] banners). \<exists>c \<in> set kept. cols_agree (axis_cols (snd c)) (axis_cols (snd (snd e)))}"
  shows "subseq (filter (\<lambda>item. \<not> list_ex (\<lambda>c. cols_agree (axis_cols (snd c)) (axis_cols (snd item))) kept) banners)
      (map snd (filter (\<lambda>(banner_index, item). banner_index \<notin> set consumed) (zip [0..<length banners] banners)))
    \<and> subseq (map snd (filter (\<lambda>(banner_index, item). banner_index \<notin> set consumed) (zip [0..<length banners] banners))) banners"
proof -
  let ?entries = "zip [0..<length banners] banners"
  have same: "e = z" if "e \<in> set ?entries" "z \<in> set ?entries" "fst e = fst z" for e z
    using that by (auto simp: set_zip)
  have unused: "fst z \<notin> set consumed"
    if z: "z \<in> set ?entries" "\<not> list_ex (\<lambda>c. cols_agree (axis_cols (snd c)) (axis_cols (snd (snd z)))) kept" for z
  proof
    assume "fst z \<in> set consumed"
    with assms obtain e where e: "e \<in> set ?entries" "fst e = fst z" "\<exists>c \<in> set kept. cols_agree (axis_cols (snd c)) (axis_cols (snd (snd e)))"
      by (smt (verit, best) imageE mem_Collect_eq subsetD)
    then show False using same [OF e(1) z(1) e(2)] z(2) by (simp add: list_ex_iff)
  qed
  have "\<forall>z \<in> set ?entries. \<not> list_ex (\<lambda>c. cols_agree (axis_cols (snd c)) (axis_cols (snd (snd z)))) kept
      \<longrightarrow> (case z of (banner_index, item) \<Rightarrow> banner_index \<notin> set consumed)"
    using unused by (simp only: case_prod_beta) blast
  from subseq_kept [OF this] show ?thesis by simp
qed

text \<open>
  C24. Folding year banners changes nothing but empty group keys: the result has every other candidate with its band,
  its columns and its period keys, where a period may have got the year of a banner above it as group key, and
  never one that contradicts the year in its own key. It also has the banners that were not used, among them every banner whose
  columns agree with no other axis.
\<close>

theorem fold_year_banners_fills:
  "\<exists>folded unused.
     mset (fold_year_banners candidates) = mset (folded @ unused)
     \<and> list_all2 (filled_axis candidates) (filter (\<lambda>item. \<not> repeated_year_axis (snd item)) candidates) folded
     \<and> subseq unused (filter (\<lambda>item. repeated_year_axis (snd item)) candidates)
     \<and> subseq (filter (\<lambda>item. repeated_year_axis (snd item) \<and>
          \<not> list_ex (\<lambda>c. \<not> repeated_year_axis (snd c) \<and> cols_agree (axis_cols (snd c)) (axis_cols (snd item))) candidates) candidates) unused"
proof -
  define banners where "banners = filter (\<lambda>item. repeated_year_axis (snd item)) candidates"
  define kept where "kept = filter (\<lambda>item. \<not> repeated_year_axis (snd item)) candidates"
  define entries where "entries = zip [0..<length banners] banners"
  let ?lone = "\<lambda>item. \<not> list_ex (\<lambda>c. cols_agree (axis_cols (snd c)) (axis_cols (snd item))) kept"
  have lone: "filter (\<lambda>item. repeated_year_axis (snd item) \<and>
      \<not> list_ex (\<lambda>c. \<not> repeated_year_axis (snd c) \<and> cols_agree (axis_cols (snd c)) (axis_cols (snd item))) candidates) candidates = filter ?lone banners"
    unfolding banners_def kept_def filter_filter by (intro filter_cong refl) (simp only: list_ex_iff set_filter, blast)
  have snds: "map snd entries = banners" by (simp add: entries_def)
  have "\<exists>folded unused. mset (fold_year_banners candidates) = mset (folded @ unused) \<and> list_all2 (filled_axis candidates) kept folded
      \<and> subseq unused banners \<and> subseq (filter ?lone banners) unused"
  proof (cases "banners = []")
    case True
    have "list_all2 (filled_axis candidates) kept kept" by (rule list.rel_refl) (simp add: filled_axis_def may_fill_def list.rel_refl)
    moreover have "kept = candidates" using True by (auto simp: kept_def banners_def filter_empty_conv filter_id_conv)
    moreover have "fold_year_banners candidates = candidates" using True by (simp add: fold_year_banners_def Let_def banners_def)
    ultimately have "mset (fold_year_banners candidates) = mset (kept @ []) \<and> list_all2 (filled_axis candidates) kept kept
        \<and> subseq [] banners \<and> subseq (filter ?lone banners) []" using True by simp
    then show ?thesis by blast
  next
    case False
    have "set (map snd entries) \<subseteq> set candidates" unfolding snds by (auto simp: banners_def)
    from fold_candidates_spec [OF this, of "([], [])" kept] obtain folded consumed where
      f: "foldl (fold_candidate entries) ([], []) kept = (folded, consumed)" "list_all2 (filled_axis candidates) kept folded"
      and c: "set consumed \<subseteq> fst ` {e \<in> set entries. \<exists>c \<in> set kept. cols_agree (axis_cols (snd c)) (axis_cols (snd (snd e)))}"
      by (cases "foldl (fold_candidate entries) ([], []) kept") auto
    have result: "fold_year_banners candidates =
        sort_key candidate_key (folded @ map snd (filter (\<lambda>(banner_index, item). banner_index \<notin> set consumed) entries))"
      using False f(1) by (simp add: fold_year_banners_def Let_def case_prod_beta banners_def [symmetric] kept_def [symmetric] entries_def [symmetric])
    have "mset (fold_year_banners candidates) = mset (folded @ map snd (filter (\<lambda>(banner_index, item). banner_index \<notin> set consumed) entries))"
      unfolding result by simp
    with unconsumed [OF c [unfolded entries_def]] f(2) show ?thesis unfolding entries_def by blast
  qed
  then show ?thesis unfolding lone banners_def [symmetric] kept_def [symmetric] .
qed

text \<open>Choosing keeps a widest candidate and takes all from the candidates.\<close>

lemma keep_dominant_primary:
  "set (keep_dominant candidates) \<subseteq> set candidates"
  "candidates \<noteq> [] \<Longrightarrow> \<exists>item \<in> set (keep_dominant candidates). \<forall>other \<in> set candidates. period_count (snd other) \<le> period_count (snd item)"
proof -
  show "set (keep_dominant candidates) \<subseteq> set candidates"
    by (auto simp: keep_dominant_def Let_def dest: set_zip_rightD)
  let ?widest = "\<lambda>i. list_all (\<lambda>item. period_count (snd item) \<le> period_count (snd (candidates ! i))) candidates"
  assume ne: "candidates \<noteq> []"
  obtain i where i: "i < length candidates" "?widest i"
  proof -
    have "Max (period_count ` snd ` set candidates) \<in> period_count ` snd ` set candidates" using ne by (intro Max_in) auto
    then obtain i where "i < length candidates" "Max (period_count ` snd ` set candidates) = period_count (snd (candidates ! i))"
      by (auto simp: in_set_conv_nth)
    then have "?widest i" by (auto simp: list_all_iff simp flip: \<open>Max _ = _\<close> intro!: Max_ge)
    with \<open>i < length candidates\<close> show ?thesis by (rule that)
  qed
  then have "find ?widest [0..<length candidates] \<noteq> None" by (auto simp: find_None_iff)
  then obtain p where p: "find ?widest [0..<length candidates] = Some p" by auto
  then have wide: "?widest p" "p < length candidates" by (auto simp: find_Some_iff)
  have "(p, candidates ! p) \<in> set (zip [0..<length candidates] candidates)"
    using wide(2) by (auto simp: set_zip intro!: exI [of _ p])
  then have "candidates ! p \<in> set (keep_dominant candidates)"
    using ne p by (force simp: keep_dominant_def primary_index_def Let_def)
  with wide(1) show "\<exists>item \<in> set (keep_dominant candidates). \<forall>other \<in> set candidates. period_count (snd other) \<le> period_count (snd item)"
    by (auto simp: list_all_iff)
qed

text \<open>Three columns of one year with a plan, an actual and no marker.\<close>

definition marked_period :: "int \<Rightarrow> string option \<Rightarrow> AxisPeriod" where
  "marked_period col variant =
     \<lparr>ap_col = col, ap_text = ''2024'', ap_kind = ''period'', ap_variant = variant, ap_period_key = ''2024'', ap_explicit_role = False,
      ap_group_key = None, ap_start_date = None, ap_end_date = None, ap_hidden = False\<rparr>"

definition three_marked :: "AxisPeriod list" where
  "three_marked = [marked_period 2 (Some ''Plan''), marked_period 3 (Some ''actual''), marked_period 4 None]"

theorem disambiguated_keys_witness:
  "map ap_period_key (disambiguate_period_keys three_marked) = [''2024@plan'', ''2024@actual'', ''2024'']
   \<and> map calendar_key (map ap_period_key (disambiguate_period_keys three_marked)) = map ap_period_key three_marked"
proof
  show "map ap_period_key (disambiguate_period_keys three_marked) = [''2024@plan'', ''2024@actual'', ''2024'']" by code_simp
  have "\<forall>p \<in> set three_marked. CHR ''@'' \<notin> set (ap_period_key p)" by (simp add: three_marked_def marked_period_def)
  then show "map calendar_key (map ap_period_key (disambiguate_period_keys three_marked)) = map ap_period_key three_marked"
    using disambiguated_keys unfolding Let_def by blast
qed

text \<open>A gap of a hidden column keeps a run together; a scratch year before it starts a run of its own and is dropped.\<close>

definition year_header :: "int \<Rightarrow> string \<Rightarrow> AxisHeader" where
  "year_header col year =
     \<lparr>ah_col = col, ah_text = year, ah_role = None, ah_kind = None, ah_variant = None, ah_period_key = year,
      ah_explicit_role = False, ah_hidden = False\<rparr>"

lemma split_header_runs_examples:
  "map (map ah_col) (split_header_runs [year_header 2 ''2024'', year_header 4 ''2025'', year_header 5 ''2026''] [3]) = [[2, 4, 5]]"
  "map (map ah_col) (split_header_runs [year_header 2 ''1965'', year_header 4 ''2025'', year_header 5 ''2026''] [2, 3]) = [[4, 5]]"
  by code_simp+

end
