(* ===== verification/Import_Closure.thy ===== *)
theory Import_Closure
  imports Publisher_Stages
begin

text \<open>
  What Python loads for the import statements of the package, stated without the code of
  \<open>app/publisher.py\<close>: modules are lists of names below the package, a statement names modules, and loading a
  module runs the \<open>__init__.py\<close> of every package above it. The theorem compares this with the files that the
  publisher hashes into the layout stage.
\<close>

section \<open>Modules and their files\<close>

definition INIT :: string where "INIT = ''__init__.py''"

definition module_source :: "package \<Rightarrow> string list \<Rightarrow> string \<Rightarrow> bool" where
  "module_source pk m q \<longleftrightarrow>
     q \<in> sf_path ` set pk \<and> (q = join_with ''/'' (m @ [INIT]) \<or> m \<noteq> [] \<and> q = join_with ''/'' m @ ''.py'')"

text \<open>Importing \<open>a.b.c\<close> runs the package itself, then \<open>a\<close> and \<open>a.b\<close> where they are packages with a file of their own, then \<open>c\<close>.\<close>

definition module_loads :: "package \<Rightarrow> string list \<Rightarrow> string \<Rightarrow> bool" where
  "module_loads pk m q \<longleftrightarrow>
     (\<exists>q'. module_source pk m q')
     \<and> (module_source pk m q \<or> q \<in> sf_path ` set pk \<and> (\<exists>k < length m. q = join_with ''/'' (take k m @ [INIT])))"

text \<open>
  The modules a statement in the file \<open>p\<close> names. A leading dot stands for the package of the file, each
  further one for the package above.
\<close>

inductive names_module :: "string \<Rightarrow> import_stmt \<Rightarrow> string list \<Rightarrow> bool" for p where
  names_import: "name \<in> set names \<Longrightarrow> split_on CHR ''.'' name = PACKAGE # m \<Longrightarrow> names_module p (Import names) m"
| names_absolute: "split_on CHR ''.'' module = PACKAGE # m \<Longrightarrow> names_module p (ImportFrom (Some module) names 0) m"
| names_relative: "butlast (split_on CHR ''/'' p) = base @ up \<Longrightarrow> length up = dots \<Longrightarrow>
    names_module p (ImportFrom module names (Suc dots)) (base @ (case module of None \<Rightarrow> [] | Some n \<Rightarrow> split_on CHR ''.'' n))"

inductive_simps names_module_simps:
  "names_module p (Import names) m" "names_module p (ImportFrom (Some module) names 0) m"
  "names_module p (ImportFrom None names 0) m" "names_module p (ImportFrom module names (Suc dots)) m"

text \<open>\<open>from package import name\<close> also loads the module \<open>package.name\<close> when there is one.\<close>

inductive names_submodule :: "string \<Rightarrow> import_stmt \<Rightarrow> string list \<Rightarrow> bool" for p where
  "names_module p (ImportFrom module names level) m \<Longrightarrow> name \<in> set names \<Longrightarrow>
     names_submodule p (ImportFrom module names level) (m @ [name])"

inductive_simps names_submodule_simps:
  "names_submodule p (Import names) m" "names_submodule p (ImportFrom module names level) m"

definition has_import :: "package \<Rightarrow> string \<Rightarrow> import_stmt \<Rightarrow> bool" where
  "has_import pk p stmt \<longleftrightarrow> is_py p \<and> (\<exists>f stmts. file_at pk p = Some f \<and> sf_imports f = Some stmts \<and> stmt \<in> set stmts)"

text \<open>The files that the statements of a file load: by the modules they name, and by submodules as well.\<close>

definition names_rel :: "package \<Rightarrow> (string \<times> string) set" where
  "names_rel pk = {(p, q). \<exists>stmt m. has_import pk p stmt \<and> names_module p stmt m \<and> module_loads pk m q}"

definition loads_rel :: "package \<Rightarrow> (string \<times> string) set" where
  "loads_rel pk = {(p, q). \<exists>stmt m. has_import pk p stmt \<and> (names_module p stmt m \<or> names_submodule p stmt m) \<and> module_loads pk m q}"

text \<open>
  Names in import statements are identifiers, and no file \<open>m.py\<close> lies beside a package \<open>m\<close> (Python would take the
  package, the publisher the file).
\<close>

definition dotless_name :: "string \<Rightarrow> bool" where
  "dotless_name name \<longleftrightarrow> name \<noteq> [] \<and> CHR ''.'' \<notin> set name \<and> CHR ''/'' \<notin> set name \<and> name \<noteq> ''__init__''"

definition names_well_formed :: "package \<Rightarrow> bool" where
  "names_well_formed pk \<longleftrightarrow>
     (\<forall>p stmt m. has_import pk p stmt \<and> names_module p stmt m \<longrightarrow> list_all dotless_name m)"

definition one_source :: "package \<Rightarrow> bool" where
  "one_source pk \<longleftrightarrow>
     list_all (\<lambda>f. has_suffix (CHR ''/'' # INIT) (sf_path f) \<longrightarrow>
       file_at pk (take (length (sf_path f) - Suc (length INIT)) (sf_path f) @ ''.py'') = None) pk"

section \<open>Dotted names and paths\<close>

lemma split_on_cons: "c \<notin> set a \<Longrightarrow> split_on c (a @ c # s) = a # split_on c s"
  by (induction a) auto

lemma split_on_single: "c \<notin> set a \<Longrightarrow> split_on c a = [a]"
  by (induction a) auto

lemma split_on_parts: "x \<in> set (split_on c s) \<Longrightarrow> c \<notin> set x"
  by (induction s arbitrary: x) (auto split: list.splits if_splits)

lemma join_with_Cons: "xs \<noteq> [] \<Longrightarrow> join_with sep (x # xs) = x @ sep @ join_with sep xs"
  by (cases xs) simp_all

lemma join_with_snoc: "join_with sep (xs @ [y]) = (if xs = [] then y else join_with sep xs @ sep @ y)"
  by (induction xs) (auto simp: join_with_Cons)

lemma join_split: "join_with [c] (split_on c s) = s"
proof (induction s)
  case (Cons d s)
  obtain part parts where "split_on c s = part # parts" by (cases "split_on c s") auto
  with Cons show ?case by (cases parts) (auto simp: join_with_Cons)
qed simp

lemma split_join: "xs \<noteq> [] \<Longrightarrow> list_all (\<lambda>x. c \<notin> set x) xs \<Longrightarrow> split_on c (join_with [c] xs) = xs"
proof (induction xs)
  case (Cons x xs)
  then show ?case by (cases xs) (simp_all add: split_on_single split_on_cons)
qed simp

lemma map_dots: "list_all (\<lambda>x. CHR ''.'' \<notin> set x) xs \<Longrightarrow>
    map (\<lambda>c. if c = CHR ''.'' then CHR ''/'' else c) (join_with ''.'' xs) = join_with ''/'' xs"
proof (induction xs)
  case (Cons x xs)
  have "map (\<lambda>c. if c = CHR ''.'' then CHR ''/'' else c) x = x" if "CHR ''.'' \<notin> set x"
    using that by (induction x) auto
  with Cons show ?case by (cases xs) (simp_all add: join_with_Cons)
qed simp

lemma file_at_path: "file_at pk q \<noteq> None \<longleftrightarrow> q \<in> sf_path ` set pk"
  by (auto simp: file_at_def find_None_iff)

definition module_text :: "string list \<Rightarrow> string" where
  "module_text m = join_with ''.'' (PACKAGE # m)"

lemma dotless_names_plain: "list_all dotless_name m \<Longrightarrow> list_all (\<lambda>x. CHR ''.'' \<notin> set x) m \<and> list_all (\<lambda>x. CHR ''/'' \<notin> set x) m"
  by (auto simp: list_all_iff dotless_name_def)

lemma one_source_clash:
  assumes "one_source pk" "rel @ CHR ''/'' # INIT \<in> sf_path ` set pk"
  shows "rel @ ''.py'' \<notin> sf_path ` set pk"
proof -
  from assms(2) obtain f where f: "f \<in> set pk" "sf_path f = rel @ CHR ''/'' # INIT" by auto
  then have "has_suffix (CHR ''/'' # INIT) (sf_path f)" by (simp add: has_suffix_def has_prefix_def INIT_def)
  with assms(1) f have "file_at pk (rel @ ''.py'') = None" by (auto simp: one_source_def list_all_iff)
  with file_at_path show ?thesis by blast
qed

section \<open>The publisher finds the files of a module\<close>

lemma module_file_source:
  assumes "list_all dotless_name m" "one_source pk"
  shows "module_file pk (module_text m) = Some q \<longleftrightarrow> module_source pk m q"
proof (cases m)
  case Nil
  have "module_file pk (module_text m) = (if ''__init__.py'' \<in> sf_path ` set pk then Some ''__init__.py'' else None)"
    by (simp add: module_file_def module_text_def Nil Let_def flip: file_at_path del: not_None_eq)
  then show ?thesis by (auto simp: Nil module_source_def INIT_def split: if_splits) (metis imageI)
next
  case (Cons a as)
  let ?rel = "join_with ''/'' m"
  have dotted: "module_text m = PACKAGE @ CHR ''.'' # join_with ''.'' m" by (simp add: module_text_def Cons)
  obtain c a' where a: "a = c # a'" "c \<noteq> CHR ''.''" using assms(1) Cons by (cases a) (auto simp: dotless_name_def)
  have join: "\<exists>w. join_with ''.'' m = c # w" using a Cons by (cases as) simp_all
  then have strip: "dropWhile (\<lambda>c. c = CHR ''.'') (CHR ''.'' # join_with ''.'' m) = join_with ''.'' m" using a(2) by auto
  have rel: "map (\<lambda>c. if c = CHR ''.'' then CHR ''/'' else c) (join_with ''.'' m) = ?rel"
    using map_dots dotless_names_plain assms(1) by blast
  have "?rel \<noteq> []" using rel join by auto
  have init: "join_with ''/'' (m @ [INIT]) = ?rel @ CHR ''/'' # INIT"
    using join_with_snoc [of "''/''" m INIT] Cons by simp
  have found: "module_file pk (module_text m) =
      (if file_at pk (?rel @ ''.py'') \<noteq> None then Some (?rel @ ''.py'')
       else if file_at pk (?rel @ CHR ''/'' # INIT) \<noteq> None then Some (?rel @ CHR ''/'' # INIT) else None)"
    unfolding module_file_def dotted using \<open>?rel \<noteq> []\<close> strip rel by (simp add: has_prefix_def INIT_def Let_def)
  have source: "module_source pk m q \<longleftrightarrow> q \<in> sf_path ` set pk \<and> (q = ?rel @ CHR ''/'' # INIT \<or> q = ?rel @ ''.py'')"
    unfolding module_source_def init using Cons by simp
  define files where "files = sf_path ` set pk"
  have "?rel @ CHR ''/'' # INIT \<in> files \<Longrightarrow> ?rel @ ''.py'' \<notin> files"
    unfolding files_def by (rule one_source_clash [OF assms(2)])
  then show ?thesis unfolding found source file_at_path files_def [symmetric] by (auto split: if_splits)
qed

lemma source_is_init:
  assumes "list_all dotless_name m" "module_source pk m q"
  shows "last (split_on CHR ''/'' q) = INIT \<longleftrightarrow> q = join_with ''/'' (m @ [INIT])"
proof -
  have plain: "list_all (\<lambda>x. CHR ''/'' \<notin> set x) m" using assms(1) dotless_names_plain by blast
  then have init: "split_on CHR ''/'' (join_with ''/'' (m @ [INIT])) = m @ [INIT]"
    by (intro split_join) (simp_all add: INIT_def)
  show ?thesis
  proof (cases "q = join_with ''/'' (m @ [INIT])")
    case True
    with init show ?thesis by simp
  next
    case False
    with assms(2) have m: "m \<noteq> []" and q: "q = join_with ''/'' m @ ''.py''" by (auto simp: module_source_def)
    then obtain front x where front: "m = front @ [x]" by (metis append_butlast_last_id)
    have "q = join_with ''/'' (front @ [x @ ''.py''])" by (simp add: q front join_with_snoc)
    moreover have "split_on CHR ''/'' (join_with ''/'' (front @ [x @ ''.py''])) = front @ [x @ ''.py'']"
      using plain by (intro split_join) (simp_all add: front)
    moreover have "x @ ''.py'' \<noteq> INIT"
    proof
      assume "x @ ''.py'' = INIT"
      then have "x @ ''.py'' = ''__init__'' @ ''.py''" by (simp add: INIT_def)
      then have "x = ''__init__''" by (subst (asm) append_same_eq) simp
      with assms(1) front show False by (simp add: dotless_name_def)
    qed
    ultimately show ?thesis using False by simp
  qed
qed

lemma ex_from_one: "(\<exists>i \<in> {1..<Suc n}. P i) \<longleftrightarrow> (\<exists>k < n. P (Suc k))"
proof
  assume "\<exists>i \<in> {1..<Suc n}. P i"
  then obtain i where "1 \<le> i" "i < Suc n" "P i" by auto
  then show "\<exists>k < n. P (Suc k)" by (cases i) auto
qed auto

lemma map_filter_set: "q \<in> set (List.map_filter f xs) \<longleftrightarrow> (\<exists>x \<in> set xs. f x = Some q)"
  by (force simp: map_filter_def)

lemma module_parents_loads:
  assumes names: "list_all dotless_name m" and one: "one_source pk"
  shows "q \<in> set (module_parents pk (module_text m)) \<longleftrightarrow>
    q \<in> sf_path ` set pk \<and> (\<exists>k < length m. q = join_with ''/'' (take k m @ [INIT]))"
proof -
  have "list_all (\<lambda>x. CHR ''.'' \<notin> set x) (PACKAGE # m)"
    using names dotless_names_plain by (simp add: PACKAGE_def)
  then have parts: "split_on CHR ''.'' (module_text m) = PACKAGE # m"
    unfolding module_text_def by (intro split_join) simp_all
  have taken: "join_with ''.'' (take (Suc k) (PACKAGE # m)) = module_text (take k m)" for k
    by (simp add: module_text_def)
  have parent: "(case module_file pk (module_text (take k m)) of
        Some parent \<Rightarrow> if last (split_on CHR ''/'' parent) = ''__init__.py'' then Some parent else None | None \<Rightarrow> None) = Some q
      \<longleftrightarrow> q \<in> sf_path ` set pk \<and> q = join_with ''/'' (take k m @ [INIT])" for k
  proof -
    have names': "list_all dotless_name (take k m)" using names by (auto simp: list_all_iff dest: in_set_takeD)
    have "?thesis \<longleftrightarrow> (module_file pk (module_text (take k m)) = Some q \<and> last (split_on CHR ''/'' q) = INIT
        \<longleftrightarrow> q \<in> sf_path ` set pk \<and> q = join_with ''/'' (take k m @ [INIT]))"
      by (auto simp: INIT_def split: option.splits if_splits)
    with source_is_init [OF names'] show ?thesis
      unfolding module_file_source [OF names' one] by (auto simp: module_source_def)
  qed
  have "q \<in> set (module_parents pk (module_text m)) \<longleftrightarrow>
      (\<exists>i \<in> {1..<Suc (length m)}. (case module_file pk (join_with ''.'' (take i (PACKAGE # m))) of
        Some parent \<Rightarrow> if last (split_on CHR ''/'' parent) = ''__init__.py'' then Some parent else None | None \<Rightarrow> None) = Some q)"
    by (simp only: module_parents_def Let_def parts map_filter_set set_upt length_Cons INIT_def)
  also have "\<dots> \<longleftrightarrow> (\<exists>k < length m. q \<in> sf_path ` set pk \<and> q = join_with ''/'' (take k m @ [INIT]))"
    unfolding ex_from_one taken parent ..
  finally show ?thesis by blast
qed

lemma module_files_loads:
  assumes "list_all dotless_name m" "one_source pk"
  shows "q \<in> set (module_files pk (module_text m)) \<longleftrightarrow> module_loads pk m q"
  unfolding module_loads_def module_file_source [OF assms, symmetric]
  using module_parents_loads [OF assms, of q]
  by (cases "module_file pk (module_text m)") (auto simp: module_files_def)

section \<open>The publisher reads the statements\<close>

lemma other_module_no_file:
  assumes "\<nexists>m. split_on CHR ''.'' name = PACKAGE # m"
  shows "module_file pk name = None"
proof -
  have "CHR ''.'' \<notin> set PACKAGE" by (simp add: PACKAGE_def)
  then have package: "split_on CHR ''.'' PACKAGE = [PACKAGE]" "\<And>s. split_on CHR ''.'' (PACKAGE @ CHR ''.'' # s) = PACKAGE # split_on CHR ''.'' s"
    by (rule split_on_single, rule split_on_cons)
  have "name \<noteq> PACKAGE" using assms package(1) by auto
  moreover have "\<nexists>s. name = PACKAGE @ CHR ''.'' # s" using assms package(2) by auto
  moreover have "\<exists>s. name = PACKAGE @ CHR ''.'' # s" if "has_prefix (PACKAGE @ ''.'') name"
    using that append_take_drop_id [of "length (PACKAGE @ ''.'')" name]
    by (intro exI [of _ "drop (length (PACKAGE @ ''.'')) name"]) (simp add: has_prefix_def)
  ultimately show ?thesis by (auto simp: module_file_def)
qed

lemma module_files_other: "\<nexists>m. split_on CHR ''.'' name = PACKAGE # m \<Longrightarrow> module_files pk name = []"
  by (simp add: module_files_def other_module_no_file)

lemma split_module_text: "split_on CHR ''.'' name = PACKAGE # m \<Longrightarrow> name = module_text m"
  unfolding module_text_def by (metis join_split)

text \<open>A single dotted name.\<close>

lemma dotted_name_files:
  assumes "one_source pk" "\<And>m. split_on CHR ''.'' name = PACKAGE # m \<Longrightarrow> list_all dotless_name m"
  shows "q \<in> set (module_files pk name) \<longleftrightarrow> (\<exists>m. split_on CHR ''.'' name = PACKAGE # m \<and> module_loads pk m q)"
proof (cases "\<exists>m. split_on CHR ''.'' name = PACKAGE # m")
  case True
  then obtain m where m: "split_on CHR ''.'' name = PACKAGE # m" by blast
  with module_files_loads [OF assms(2) [OF m] assms(1), of q] split_module_text [OF m] show ?thesis by simp
next
  case False
  then show ?thesis by (simp add: module_files_other)
qed

lemma climb_base:
  "(\<exists>base up. dirs = base @ up \<and> length up = k \<and> m = base @ t) \<longleftrightarrow> k \<le> length dirs \<and> m = take (length dirs - k) dirs @ t"
proof
  assume "k \<le> length dirs \<and> m = take (length dirs - k) dirs @ t"
  then show "\<exists>base up. dirs = base @ up \<and> length up = k \<and> m = base @ t"
    by (intro exI [of _ "take (length dirs - k) dirs"] exI [of _ "drop (length dirs - k) dirs"]) simp
qed auto

lemma statement_files:
  assumes one: "one_source pk" and names: "\<And>m. names_module p stmt m \<Longrightarrow> list_all dotless_name m"
  shows "(\<exists>name \<in> set (stmt_modules p stmt). q \<in> set (module_files pk name)) \<longleftrightarrow> (\<exists>m. names_module p stmt m \<and> module_loads pk m q)"
proof (cases stmt)
  case (Import ns)
  have "q \<in> set (module_files pk name) \<longleftrightarrow> (\<exists>m. split_on CHR ''.'' name = PACKAGE # m \<and> module_loads pk m q)"
    if "name \<in> set ns" for name
    using that names Import by (intro dotted_name_files [OF one]) (auto simp: names_module_simps)
  then show ?thesis by (auto simp: Import stmt_modules_def names_module_simps)
next
  case (ImportFrom module ns level)
  show ?thesis
  proof (cases level)
    case 0
    show ?thesis
    proof (cases module)
      case None
      then show ?thesis by (simp add: ImportFrom 0 stmt_modules_def import_from_modules_def names_module_simps)
    next
      case (Some name)
      have "q \<in> set (module_files pk name) \<longleftrightarrow> (\<exists>m. split_on CHR ''.'' name = PACKAGE # m \<and> module_loads pk m q)"
        using names ImportFrom 0 Some by (intro dotted_name_files [OF one]) (auto simp: names_module_simps)
      then show ?thesis
        by (auto simp: ImportFrom 0 Some stmt_modules_def import_from_modules_def names_module_simps PACKAGE_def)
    qed
  next
    case (Suc dots)
    let ?dirs = "butlast (split_on CHR ''/'' p)" and ?tail = "case module of None \<Rightarrow> [] | Some n \<Rightarrow> split_on CHR ''.'' n"
    have named: "names_module p stmt m \<longleftrightarrow> dots \<le> length ?dirs \<and> m = take (length ?dirs - dots) ?dirs @ ?tail" for m
      unfolding ImportFrom Suc names_module_simps using climb_base [of ?dirs dots m ?tail] by blast
    show ?thesis
    proof (cases "dots \<le> length ?dirs")
      case True
      let ?m = "take (length ?dirs - dots) ?dirs @ ?tail"
      have ok: "list_all dotless_name ?m" using names named True by blast
      then have "module \<noteq> Some []" by (auto simp: dotless_name_def)
      then have "stmt_modules p stmt = [module_text ?m]"
        using True unfolding ImportFrom Suc
        by (auto simp: stmt_modules_def import_from_modules_def Let_def module_text_def join_with_Cons split: option.splits)
      with module_files_loads [OF ok one, of q] named True show ?thesis by simp
    next
      case False
      then show ?thesis
        unfolding named by (simp add: ImportFrom Suc stmt_modules_def import_from_modules_def Let_def)
    qed
  qed
qed

lemma import_rel_names:
  assumes "one_source pk" "names_well_formed pk"
  shows "import_rel pk = names_rel pk"
proof -
  have "(p, q) \<in> import_rel pk \<longleftrightarrow> (p, q) \<in> names_rel pk" for p q
  proof -
    have "(\<exists>name \<in> set (stmt_modules p stmt). q \<in> set (module_files pk name)) \<longleftrightarrow> (\<exists>m. names_module p stmt m \<and> module_loads pk m q)"
      if "has_import pk p stmt" for stmt
      using assms(2) that by (intro statement_files assms(1)) (auto simp: names_well_formed_def)
    then have "(\<exists>stmt. has_import pk p stmt \<and> (\<exists>name \<in> set (stmt_modules p stmt). q \<in> set (module_files pk name)))
        \<longleftrightarrow> (p, q) \<in> names_rel pk"
      unfolding names_rel_def by blast
    moreover have "(p, q) \<in> import_rel pk \<longleftrightarrow>
        (\<exists>stmt. has_import pk p stmt \<and> (\<exists>name \<in> set (stmt_modules p stmt). q \<in> set (module_files pk name)))"
    proof (cases "file_at pk p")
      case (Some f)
      then show ?thesis
        by (cases "sf_imports f") (auto simp: import_rel_def imported_package_files_def has_import_def)
    qed (simp add: import_rel_def imported_package_files_def has_import_def)
    ultimately show ?thesis by simp
  qed
  then show ?thesis by auto
qed

section \<open>The layout stage\<close>

definition layout_modules :: "package \<Rightarrow> string set" where
  "layout_modules pk = {p \<in> set (pk_sources pk). stage_of p = Some ''layout''}"

text \<open>No statement of the file imports a submodule by \<open>from package import submodule\<close>.\<close>

definition no_submodules :: "package \<Rightarrow> string \<Rightarrow> bool" where
  "no_submodules pk p \<longleftrightarrow>
     (\<forall>stmt m q. has_import pk p stmt \<and> names_submodule p stmt m \<longrightarrow> \<not> module_source pk m q)"

lemma closed_under_loads:
  assumes closed: "names_rel pk `` S \<subseteq> S" and "\<forall>p \<in> S. no_submodules pk p" "base \<subseteq> S"
  shows "(loads_rel pk)\<^sup>* `` base \<subseteq> S"
proof -
  have "q \<in> S" if "p \<in> S" "(p, q) \<in> loads_rel pk" for p q
  proof -
    from that(2) obtain stmt m where stmt: "has_import pk p stmt" "names_module p stmt m \<or> names_submodule p stmt m" "module_loads pk m q"
      by (auto simp: loads_rel_def)
    with assms(2) that(1) have "names_module p stmt m" by (auto simp: no_submodules_def module_loads_def)
    with stmt have "(p, q) \<in> names_rel pk" by (auto simp: names_rel_def)
    with closed that(1) show ?thesis by auto
  qed
  then have "loads_rel pk `` S \<subseteq> S" by auto
  then have "(loads_rel pk)\<^sup>* `` S = S" by (rule Image_closed_trancl)
  with assms(3) show ?thesis by blast
qed

text \<open>
  C39. The files hashed into the layout stage are exactly those that the modules of the layout directory load through the modules
  their import statements name, directly or through other files, with the \<open>__init__.py\<close> of every package above a loaded module. When no
  hashed file imports a submodule by \<open>from package import submodule\<close>, that is all Python loads for their import statements. The other
  directory stages hash exactly their own sources, and every list is sorted, so that a hash does not depend on the order in which
  the directory was read. Names in import statements are identifiers, and no module \<open>m.py\<close> lies beside a package \<open>m\<close>.
\<close>

theorem layout_stage_covers_imports:
  assumes "names_well_formed pk" "one_source pk"
  shows "set (stage_bucket pk ''layout'') = (names_rel pk)\<^sup>* `` layout_modules pk
     \<and> ((\<forall>p \<in> set (stage_bucket pk ''layout''). no_submodules pk p) \<longrightarrow>
          set (stage_bucket pk ''layout'') = (loads_rel pk)\<^sup>* `` layout_modules pk)
     \<and> set (stage_bucket pk ''compile'') = {p. p \<in> set (pk_sources pk) \<and> stage_of p = Some ''compile''}
     \<and> list_all (\<lambda>stage. sorted (stage_bucket pk stage)) STAGE_ORDER"
proof -
  let ?S = "set (stage_bucket pk ''layout'')"
  have named: "?S = (names_rel pk)\<^sup>* `` layout_modules pk"
    using layout_bucket_closure [of pk] import_rel_names [OF assms(2,1)] by (simp add: layout_modules_def)
  have "?S = (loads_rel pk)\<^sup>* `` layout_modules pk" if "\<forall>p \<in> ?S. no_submodules pk p"
  proof
    have "names_rel pk `` ?S \<subseteq> ?S" unfolding named by (blast intro: rtrancl.rtrancl_into_rtrancl)
    moreover have "layout_modules pk \<subseteq> ?S" unfolding named by blast
    ultimately show "(loads_rel pk)\<^sup>* `` layout_modules pk \<subseteq> ?S" using closed_under_loads that by blast
    have "names_rel pk \<subseteq> loads_rel pk" by (auto simp: names_rel_def loads_rel_def)
    then show "?S \<subseteq> (loads_rel pk)\<^sup>* `` layout_modules pk" unfolding named using rtrancl_mono by blast
  qed
  with named layout_bucket_closure [of pk] show ?thesis by blast
qed

lemma names_well_formedI:
  assumes "\<And>f stmts stmt m. f \<in> set pk \<Longrightarrow> sf_imports f = Some stmts \<Longrightarrow> stmt \<in> set stmts \<Longrightarrow>
    names_module (sf_path f) stmt m \<Longrightarrow> list_all dotless_name m"
  shows "names_well_formed pk"
  using assms unfolding names_well_formed_def has_import_def file_at_def by (auto simp: find_Some_iff) (metis nth_mem)

lemma small_package_names: "names_well_formed small_package"
  by (rule names_well_formedI)
    (auto simp: small_package_def names_module_simps dotless_name_def PACKAGE_def Cons_eq_append_conv)

theorem layout_stage_covers_imports_witness:
  "{''layout/units.py'', ''context/measure.py'', ''context/__init__.py'', ''context/build.py''}
     = (names_rel small_package)\<^sup>* `` layout_modules small_package"
proof -
  note small_package_names
  moreover have "one_source small_package" by code_simp
  moreover have "set (stage_bucket small_package ''layout'') =
      {''layout/units.py'', ''context/measure.py'', ''context/__init__.py'', ''context/build.py''}"
    unfolding small_package_layout by auto
  ultimately show ?thesis using layout_stage_covers_imports [of small_package] by simp
qed

text \<open>
  \<open>from finance_context.context import measure\<close> loads \<open>context/measure.py\<close> as well, and the publisher does not hash it: the names
  after \<open>import\<close> are not looked at.
\<close>

definition submodule_package :: package where
  "submodule_package =
     [\<lparr>sf_path = ''layout/units.py'', sf_content = ''a'', sf_mtime = 1, sf_imports = Some [ImportFrom (Some ''finance_context.context'') [''measure''] 0]\<rparr>,
      \<lparr>sf_path = ''context/__init__.py'', sf_content = ''b'', sf_mtime = 1, sf_imports = Some []\<rparr>,
      \<lparr>sf_path = ''context/measure.py'', sf_content = ''c'', sf_mtime = 1, sf_imports = Some []\<rparr>]"

lemma imported_submodule_not_hashed:
  "stage_bucket submodule_package ''layout'' = [''context/__init__.py'', ''layout/units.py'']
   \<and> (''layout/units.py'', ''context/measure.py'') \<in> loads_rel submodule_package"
proof
  show "stage_bucket submodule_package ''layout'' = [''context/__init__.py'', ''layout/units.py'']" by code_simp
  have "names_module ''layout/units.py'' (ImportFrom (Some ''finance_context.context'') [''measure''] 0) [''context'']"
    by (rule names_absolute) code_simp
  then have "names_submodule ''layout/units.py'' (ImportFrom (Some ''finance_context.context'') [''measure''] 0) ([''context''] @ [''measure''])"
    by (rule names_submodule.intros) simp
  moreover have "has_import submodule_package ''layout/units.py'' (ImportFrom (Some ''finance_context.context'') [''measure''] 0)"
  proof -
    have "is_py ''layout/units.py''" by code_simp
    then show ?thesis by (simp add: has_import_def submodule_package_def file_at_def)
  qed
  moreover have "module_loads submodule_package ([''context''] @ [''measure'']) ''context/measure.py''"
  proof -
    have "module_source submodule_package ([''context''] @ [''measure'']) ''context/measure.py''" by code_simp
    then show ?thesis unfolding module_loads_def by blast
  qed
  ultimately show "(''layout/units.py'', ''context/measure.py'') \<in> loads_rel submodule_package"
    unfolding loads_rel_def by blast
qed

end
