(* ===== verification/Spec2Isabelle.thy ===== *)
theory Spec2Isabelle
  imports Kept_Edges Template_Laws Cycles Trace Job_Bus Shared_Cache Graph_Builds Range_Lags Compile_Laws Row_Relations Row_Adjacency Job_Laws Pipeline_Run Event_Stream Published_Axes Header_Axes Import_Closure
begin

text \<open>
  A verification library for the finance context builder (\<open>src/src/finance_context\<close>), a service
  that turns an Excel workbook into a context document. File names below are relative to that
  directory.

  \<^bold>\<open>The program.\<close> An upload is first guarded: \<open>excel/zip_guard.py\<close> refuses archives that unpack
  too far and \<open>excel/ole2.py\<close> tells legacy and encrypted compound files apart. The upload handler
  (\<open>api/routes/jobs.py\<close>) puts the book into a queue; a worker (\<open>jobqueue/jobs.py\<close>) runs the pipeline
  (\<open>app/pipeline.py\<close>) in a child process, and handler, worker and child meet in the status document
  \<open>meta.json\<close>. (The bus of \<open>adapters/memory_bus.py\<close> keeps its jobs in memory.) A run works in a book
  directory shared by all sessions with the same
  workbook (\<open>app/shared_cache.py\<close>, \<open>app/artifacts.py\<close>), whose stages are stamped with hashes of the
  package's own sources (\<open>app/publisher.py\<close>). The compile stage (\<open>formulas/\<close>) indexes the cells
  (\<open>known.py\<close>, \<open>csr.py\<close>), scans, parses and renders every formula (\<open>scan.py\<close>, \<open>parse.py\<close>,
  \<open>render.py\<close>, \<open>engine.py\<close>, \<open>names.py\<close>), and writes formula edges and cell edges in row groups
  (\<open>csr.py\<close>, \<open>stage.py\<close>, \<open>store/fs.py\<close>). Large ranges are not expanded: they become range nodes.
  The layout stage gives rows and columns their meaning, among it period keys
  (\<open>layout/periods.py\<close>), and relates them by their formulas (\<open>layout/relations.py\<close>, \<open>layout/formulas_shape.py\<close>,
  \<open>layout/adjacency.py\<close>). Axes that repeat one another share a timeline (\<open>layout/timelines.py\<close>); the
  document publishes them with one flag per period and flag row (\<open>context/timeline.py\<close>) and is served in slices
  (\<open>context/catalog.py\<close>, \<open>context/observations.py\<close>), while \<open>api/routes/events.py\<close> sends the progress of a
  run. The graph stage reads the cell edges back through an index of the range
  nodes (\<open>graph/ranges.py\<close>), finds circular formulas (\<open>graph/cycles.py\<close>), gives every formula its
  period lags and its class (\<open>graph/stage.py\<close>, \<open>graph/formula_class.py\<close>) and answers traces
  (\<open>graph/trace.py\<close>). It has two passes with one result: one holds the edges in a list, the other
  reads the edge file group by group.

  \<^bold>\<open>Theories and sources.\<close>
  \<^item> \<open>Prelude\<close>, \<open>Batches\<close>, \<open>Json_Values\<close>: Python strings and integers, result type, dicts as
    association lists, \<open>bisect\<close>; first element per key and fixed-size groups; JSON values.
  \<^item> \<open>A1_Address\<close>: \<open>excel/a1.py\<close>. \<open>Sheet_Usage\<close>, \<open>Range_Nodes\<close>, \<open>Cell_Edges\<close>:
    \<open>formulas/csr.py\<close> with the records of \<open>formulas/models.py\<close>. \<open>Known_Nodes\<close>:
    \<open>formulas/known.py\<close>. \<open>Row_Groups\<close>: the parquet writers of \<open>store/fs.py\<close>. \<open>Kept_Edges\<close>: the cell-edge
    writers of \<open>formulas/stage.py\<close>. \<open>Compile_Cells\<close>, \<open>Compile_Stage\<close>: the rest of that file, the passes over the
    cells and the stage itself, with laws in \<open>Compile_Laws\<close>. \<open>Presence_Index\<close>: the presence index of
    \<open>memory.py\<close>.
  \<^item> \<open>Formula_Scan\<close>, \<open>Formula_Parse\<close>, \<open>Formula_Render\<close>: \<open>formulas/scan.py\<close>, \<open>parse.py\<close>, and
    \<open>render.py\<close>, \<open>engine.py\<close>, \<open>names.py\<close>. \<open>Parse_Roundtrip\<close> and \<open>Template_Laws\<close> hold their laws.
  \<^item> \<open>Range_Cover\<close>, \<open>Range_Hops\<close>: \<open>graph/ranges.py\<close>. \<open>Cycles\<close>: \<open>graph/cycles.py\<close>.
    \<open>Trace\<close>: \<open>graph/trace.py\<close>, over the abstract walk of \<open>Level_Walk\<close>.
    \<open>Row_Relations\<close>: \<open>layout/formulas_shape.py\<close>, \<open>layout/relations.py\<close> and the cells of \<open>layout/stage.py\<close> that feed them.
    \<open>Row_Adjacency\<close>: \<open>layout/adjacency.py\<close>.
    \<open>Period_Keys\<close>: the key functions of \<open>layout/periods.py\<close> and \<open>graph/stage.py\<close>.
  \<^item> \<open>Packed_Cycles\<close>, \<open>Graph_Index\<close>, \<open>Graph_Stage\<close>: \<open>graph/stage.py\<close> with \<open>layout/models.py\<close> and
    \<open>layout/resolve.py\<close>; \<open>Formula_Class\<close>: \<open>graph/formula_class.py\<close>. \<open>Graph_Reading\<close> (reading back
    an edge file), \<open>Stream_State\<close> (what the streaming loop holds), \<open>Graph_Builds\<close> and \<open>Range_Lags\<close>
    hold their laws.
  \<^item> \<open>Job_Bus\<close> (over the interleavings of \<open>Op_Runs\<close>): \<open>adapters/memory_bus.py\<close>.
    \<open>Archive_Guard\<close>: \<open>excel/ole2.py\<close>, \<open>excel/zip_guard.py\<close>. \<open>Publisher_Stages\<close>: \<open>app/publisher.py\<close>, and
    \<open>Import_Closure\<close>: what Python loads for its import statements, against which the hashed files are compared.
    \<open>Shared_Cache\<close>: \<open>app/shared_cache.py\<close>, \<open>app/artifacts.py\<close> and the calls of \<open>app/pipeline.py\<close>.
  \<^item> \<open>Job_Meta\<close>: every writer of \<open>meta.json\<close>, from \<open>app/pipeline.py\<close>, \<open>jobqueue/jobs.py\<close> and \<open>api/routes/jobs.py\<close>.
    \<open>Queue_Worker\<close>: \<open>jobqueue/jobs.py\<close> and the child watch of \<open>jobqueue/spawn.py\<close>. \<open>Job_Routes\<close>: \<open>_accept_upload\<close> and
    \<open>_read_job\<close> of \<open>api/routes/jobs.py\<close> with their helpers, laws in \<open>Job_Laws\<close>. \<open>Pipeline_Run\<close>: \<open>Pipeline.run\<close>, the child process and
    the busy wait of \<open>app/pipeline.py\<close>. \<open>Event_Stream\<close>: \<open>jobqueue/progress.py\<close> and \<open>api/routes/events.py\<close>, from the
    publisher to the client.
  \<^item> \<open>Timelines\<close>: \<open>layout/timelines.py\<close> and the test for derived axes of \<open>layout/axes.py\<close>. \<open>Header_Axes\<close>: the part of that file
    that works on headers which are read already. \<open>Published_Axes\<close>:
    \<open>context/timeline.py\<close> and \<open>layout/normalize.py\<close>. \<open>Projections\<close>: \<open>context/catalog.py\<close> and \<open>context/observations.py\<close>.
  A class is a record of its fields with one definition per method that takes and returns the
  record; a handler that shares the job with other processes is a program over an arbitrary history of looks at
  the world, one per read, and leaves a log of effects; a mutable argument is returned beside the result; an exception is the left side of a sum.

  \<^bold>\<open>Interfaces.\<close> \<open>node_members\<close> is the container of node ids the compiler asks (interpreted by the
  row-run index and by plain sets); \<open>interner\<close> numbers keys (the key tables of the edge writer);
  \<open>progress_order\<close> and \<open>kept_invariant\<close> speak of interleaved operations (the job bus);
  \<open>level_walk\<close> is the search that the trace loop implements.

  \<^bold>\<open>What the lemmas show.\<close> Addresses, range nodes, references, cell-edge rows, row groups and whole
  formulas survive printing and reading. The compile index answers like the set of its ids. The
  counting functions of the memory estimate agree with the expansion they stand for; the presence
  index is the set of covered cells; the compile stage publishes what a specification without cache,
  pool and passes publishes, under every setting, for books whose shared members carry the text of the shifted
  master (\<open>shared_texts_needed\<close> shows that the condition is needed), and its stamp is current exactly for its
  threshold; the two cell-edge writers publish the same file and their packed keys are injective. Scanner and parser
  end on every text; shifted shared formulas keep their template. The interval index returns
  exactly the covering range nodes; the segment trees reach exactly the members of a node, and so
  the cycles found through them are those of the fully expanded graph, single cells that do not read themselves left out. The streamed graph pass
  publishes the same document, index and edges as the pass in memory, for every edge file whose
  usable targets of a range shape are range nodes (\<open>shaped\<close>; \<open>packed_range_shape_differs\<close> shows
  that the condition is needed), and a formula gets the class it would get if each range edge were one
  edge per member. A trace returns the layers
  around its origin. Period positions are injective, coarsening is idempotent. A run excludes
  other runs of its job under every interleaving; an abandoned run always sees its cancellation. The
  archive guard accepts exactly the archives within the limits. The layout stage is hashed over exactly
  the modules that its import statements name, directly or not, with the packages above them (submodules imported as names are
  missed: \<open>imported_submodule_not_hashed\<close>), and two runs of unchanged code leave a fresh shared cache. Row relations may be computed
  from the selected cells only; neighbour lists of some rows are those of the whole table.
  No write into the status document takes its generation down, and those of old runs, the retry counter apart, leave a newer document
  alone (the removal of a stale document at the start of a run does not look: \<open>old_run_start_takes_generation_down\<close>); an upload launches a run only after it has
  looked, leaves a live run alone and replaces a dead one; no end of a worker or a child leaves a job
  without an outcome or a retry, once the worker has filled in the meta of its queue entry (\<open>killed_before_meta_stays_queued\<close>) and unless the session was
  finished already; the busy budget is spent exactly, and the events of a run are a fixed sequence, or none when the session is finished. A client that resumes
  the stream gets the snapshot and, unless that is terminal, later events in order up to a terminal one, passing over only events that
  Redis has trimmed. Header runs bridge only hidden columns and neighbours in them do not mix years, dates and relative keys
  (\<open>quarter_key_joins_classes\<close> shows what that leaves open), repeated
  keys are told apart exactly by their markers, year banners only fill group keys, found runs are longest. Axes share a timeline only when their keys, dates and flags agree, and
  sharing leaves each block an axis with the columns it had; flag keys of a published axis are distinct. Catalog pages
  tile the catalog, and observations of some periods are those of all periods, filtered. Lemmas
  about concrete runs show where the code falls short of that: \<open>upload_race_replaces_live_run\<close>,
  \<open>spent_budget_survives_upload\<close>, \<open>busy_counter_ignores_generation\<close>, \<open>stale_failure_announced\<close>,
  \<open>killed_run_reported_failed\<close>, \<open>latest_client_misses_end\<close>, \<open>marked_flags_forgotten\<close>, \<open>constant_shown_with_formula\<close> and
  \<open>flag_case_differs\<close>.

  \<^bold>\<open>Bounds and fuel.\<close> The loops of the scanner take the length of the text as fuel, those of the parser
  a multiple of the number of tokens; \<open>tokenize_total\<close> and \<open>parse_tokens_total\<close> show that the fuel is never
  used up. The index searches recurse on the heap depth, the segment trees on the width of the
  span, the sector walks of a compound file on the number of sectors, the import work list on the
  number of files not taken yet. The trace loop is a \<open>while_option\<close> whose result is shown to exist.
  The grace loop of an upload takes at most \<open>ac_polls\<close> polls and ends with the fault \<open>OutOfPolls\<close> when the clock has
  not reached the deadline by then; the properties hold for every number of polls. The busy wait needs no fuel: its retries are counted.

  \<^bold>\<open>Parameters.\<close> The operations of Python floats (\<open>float_ops\<close>), the component labels of scipy
  (assumed to be those of the strong components), the digest of \<open>hashlib\<close>, \<open>zlib\<close> (decompressing
  undoes compressing), DuckDB's ordered \<open>COPY\<close> (the file holds the rows of the table), the entry list that
  \<open>zipfile\<close> reads from an archive, and the rows of parquet files. For a job: the stages as functions of
  the directories (\<open>StageFunctions\<close>), the child, the admission check, the answers of the queue, the locks
  and the clock. For a stream: what Redis holds at the call and at the reply of each read, a window
  of all entries ever added, as it may trim the oldest or drop the key. For axes: the float test of a flag
  value, the displayed text of a cell, its formula fingerprint, its reading as a counter and the warnings about unparsed headers.

  \<^bold>\<open>Not modelled.\<close> Characters above code point 255; the digit limit of \<open>int()\<close> and the recursion limit
  of the interpreter; file-system failures after which nothing is published; the encoding of
  parquet, DuckDB and JSON, the printed forms \<open>graph.json\<close> and \<open>graph.md\<close>; the other HTTP routes, the calls of Redis and RQ, spawning and stopping processes, settings, memory budgets and
  telemetry, which only call libraries; reading workbook XML, finding tables, rows and axes on a sheet, and the text of
  the context document.
\<close>

end
